(* ===== verification/Js_Prelude.thy ===== *)
theory Js_Prelude
  imports Main "HOL-Library.AList" "HOL-Library.Char_ord" "HOL-Library.List_Lexorder"
begin

text \<open>
  What the components share: insertion-ordered JavaScript maps, the string operations
  the sources use, JSON values, and the lemma collections the component proofs rest on.

  A JavaScript \<open>Map\<close> remembers insertion order: \<open>set\<close> on a present key keeps its
  position, \<open>delete\<close> removes the entry, \<open>keys().next()\<close> is the oldest entry. It is an
  association list with distinct keys, with the library's \<open>AList.update\<close> and
  \<open>AList.delete\<close> as \<open>set\<close> and \<open>delete\<close> and \<open>map_of\<close> as \<open>get\<close>.

  A string is a list of characters that stand for the UTF-16 code units U+0000 to
  U+00FF; on that range \<open>normalize("NFC")\<close> is the identity and \<open>toLowerCase\<close> is
  the Latin-1 fold written out below.
\<close>

named_theorems jsmap_simps \<open>lookups in an insertion-ordered map after an update\<close>
named_theorems jsmap_wf \<open>updates that keep the keys of a map distinct\<close>

section \<open>Insertion-ordered maps\<close>

text \<open>Lookups stay lookups: the library's rewriting to membership is off.\<close>

declare map_of_eq_Some_iff [simp del] Some_eq_map_of_iff [simp del]

type_synonym ('k, 'v) jsmap = "('k \<times> 'v) list"

abbreviation jm_get :: "('k, 'v) jsmap \<Rightarrow> 'k \<Rightarrow> 'v option" where
  "jm_get \<equiv> map_of"

abbreviation jm_set :: "'k \<Rightarrow> 'v \<Rightarrow> ('k, 'v) jsmap \<Rightarrow> ('k, 'v) jsmap" where
  "jm_set \<equiv> AList.update"

abbreviation jm_del :: "'k \<Rightarrow> ('k, 'v) jsmap \<Rightarrow> ('k, 'v) jsmap" where
  "jm_del \<equiv> AList.delete"

definition jm_has :: "('k, 'v) jsmap \<Rightarrow> 'k \<Rightarrow> bool" where
  "jm_has m k = (map_of m k \<noteq> None)"

abbreviation jm_keys :: "('k, 'v) jsmap \<Rightarrow> 'k list" where
  "jm_keys m \<equiv> map fst m"

abbreviation jm_wf :: "('k, 'v) jsmap \<Rightarrow> bool" where
  "jm_wf m \<equiv> distinct (map fst m)"

text \<open>The deletion loop \<open>for (const [k, v] of map) if (!keep(v)) map.delete(k)\<close>.\<close>

definition jm_filter :: "('k \<Rightarrow> 'v \<Rightarrow> bool) \<Rightarrow> ('k, 'v) jsmap \<Rightarrow> ('k, 'v) jsmap" where
  "jm_filter keep m = filter (\<lambda>(k, v). keep k v) m"

text \<open>
  The eviction loop \<open>while (map.size >= cap) { oldest = map.keys().next(); if (oldest.done)
  break; map.delete(oldest.value) }\<close>. It stops: each turn deletes an entry.
\<close>

lemma length_delete_Cons: "length (AList.delete k ((k, v) # m)) < Suc (length m)"
  using length_delete_le [of k m] by simp

function jm_evict :: "int \<Rightarrow> ('k, 'v) jsmap \<Rightarrow> ('k, 'v) jsmap" where
  "jm_evict cap [] = []"
| "jm_evict cap ((k, v) # m) =
     (if cap \<le> int (length ((k, v) # m)) then jm_evict cap (AList.delete k ((k, v) # m))
      else (k, v) # m)"
  by pat_completeness auto
termination
  by (relation "measure (\<lambda>(cap, m). length m)") (auto simp: le_imp_less_Suc length_delete_le)

lemma jm_wf_update [jsmap_wf, simp]: "jm_wf m \<Longrightarrow> jm_wf (AList.update k v m)"
  by (rule distinct_update)

lemma jm_wf_delete [jsmap_wf, simp]: "jm_wf m \<Longrightarrow> jm_wf (AList.delete k m)"
  by (rule distinct_delete)

lemma jm_wf_filter [jsmap_wf, simp]: "jm_wf m \<Longrightarrow> jm_wf (jm_filter keep m)"
  by (simp add: jm_filter_def distinct_map_filter)

lemma jm_get_update [jsmap_simps]:
  "jm_get (AList.update k v m) k' = (if k' = k then Some v else jm_get m k')"
  by (simp add: update_conv')

lemma jm_get_delete [jsmap_simps]:
  "jm_get (AList.delete k m) k' = (if k' = k then None else jm_get m k')"
  by (simp add: delete_conv')

lemma jm_get_filter [jsmap_simps]:
  "jm_wf m \<Longrightarrow> jm_get (jm_filter keep m) k =
     (case jm_get m k of None \<Rightarrow> None | Some v \<Rightarrow> if keep k v then Some v else None)"
proof (induction m)
  case Nil
  then show ?case by (simp add: jm_filter_def)
next
  case (Cons p m)
  obtain k' v where p: "p = (k', v)" by fastforce
  have "k \<notin> fst ` set m \<Longrightarrow> jm_get m k = None"
    by (simp add: map_of_eq_None_iff)
  with Cons p show ?case by (auto simp: jm_filter_def)
qed

lemma jm_filter_length: "length (jm_filter keep m) \<le> length m"
  by (simp add: jm_filter_def)

lemma set_jm_filter [simp]: "set (jm_filter keep m) = {(k, v) \<in> set m. keep k v}"
  by (auto simp: jm_filter_def)

lemma jm_has_iff: "jm_has m k \<longleftrightarrow> k \<in> set (jm_keys m)"
  by (simp add: jm_has_def map_of_eq_None_iff)

lemma length_update:
  "length (AList.update k v m) = (if k \<in> set (jm_keys m) then length m else Suc (length m))"
  by (induction m) auto

lemma keys_delete [simp]: "fst ` set (AList.delete k m) = fst ` set m - {k}"
  using arg_cong [OF delete_keys [of k m], of set] by simp

lemma keys_update [simp]: "fst ` set (AList.update k v m) = insert k (fst ` set m)"
  by (simp add: dom_update)

lemma set_delete_subset: "set (AList.delete k m) \<subseteq> set m"
  by (induction m) auto

lemma in_set_delete: "p \<in> set (AList.delete k m) \<Longrightarrow> p \<in> set m"
  by (rule subsetD [OF set_delete_subset])

lemma set_update_subset: "set (AList.update k v m) \<subseteq> insert (k, v) (set m)"
  by (induction m) auto

lemma in_set_update: "p \<in> set (AList.update k v m) \<Longrightarrow> p = (k, v) \<or> p \<in> set m"
  using subsetD [OF set_update_subset] by fastforce

lemma delete_absent: "k \<notin> set (jm_keys m) \<Longrightarrow> AList.delete k m = m"
  by (simp add: delete_id)

lemma delete_oldest: "jm_wf ((k, v) # m) \<Longrightarrow> AList.delete k ((k, v) # m) = m"
  by (simp add: delete_absent)

lemma length_delete:
  "jm_wf m \<Longrightarrow> length (AList.delete k m) = (if k \<in> set (jm_keys m) then length m - 1 else length m)"
proof (induction m)
  case Nil
  then show ?case by simp
next
  case (Cons p m)
  then show ?case by (cases p, cases m) (auto simp: delete_absent)
qed

lemma update_absent: "k \<notin> set (jm_keys m) \<Longrightarrow> AList.update k v m = m @ [(k, v)]"
  by (simp add: update_nonempty [symmetric] append_eq_conv_conj) (induction m; auto)

text \<open>Eviction drops a prefix: the newest entries survive, below the bound.\<close>

lemma jm_evict_drop: "jm_wf m \<Longrightarrow> jm_evict cap m = drop (nat (int (length m) + 1 - cap)) m"
proof (induction cap m rule: jm_evict.induct)
  case (1 cap)
  then show ?case by simp
next
  case (2 cap k v m)
  show ?case
  proof (cases "cap \<le> int (length ((k, v) # m))")
    case True
    then have "nat (int (length ((k, v) # m)) + 1 - cap) = Suc (nat (int (length m) + 1 - cap))"
      by simp
    with 2 True show ?thesis by (simp add: delete_absent)
  next
    case False
    then show ?thesis by simp
  qed
qed

lemma jm_evict_id: "int (length m) < cap \<Longrightarrow> jm_evict cap m = m"
  by (cases m) auto

lemma jm_evict_wf [jsmap_wf, simp]: "jm_wf m \<Longrightarrow> jm_wf (jm_evict cap m)"
  by (simp add: jm_evict_drop drop_map [symmetric])

lemma jm_evict_size: "1 \<le> cap \<Longrightarrow> int (length (jm_evict cap m)) < cap"
  by (induction cap m rule: jm_evict.induct) auto

lemma jm_evict_subset: "jm_wf m \<Longrightarrow> set (jm_evict cap m) \<subseteq> set m"
  by (simp add: jm_evict_drop set_drop_subset)

lemma jm_evict_get:
  assumes "jm_wf m" and "jm_get (jm_evict cap m) k = Some v"
  shows "jm_get m k = Some v"
  using assms jm_evict_subset [of m cap] by (meson map_of_SomeD map_of_is_SomeI subsetD)

lemma jm_get_drop:
  assumes "jm_wf m"
  shows "jm_get (drop n m) k \<in> {jm_get m k, None}"
proof (cases "jm_get (drop n m) k")
  case (Some v)
  then have "(k, v) \<in> set m"
    by (auto dest: map_of_SomeD in_set_dropD)
  with assms Some show ?thesis by (simp add: map_of_is_SomeI)
qed simp

section \<open>Strings\<close>

text \<open>White space of \<open>trim\<close> and of \<open>\s\<close>, restricted to the code units modelled.\<close>

definition js_space :: "char \<Rightarrow> bool" where
  "js_space c = (of_char c \<in> {9, 10, 11, 12, 13, 32, 160 :: nat})"

definition js_trim_start :: "string \<Rightarrow> string" where
  "js_trim_start s = dropWhile js_space s"

definition js_trim :: "string \<Rightarrow> string" where
  "js_trim s = rev (dropWhile js_space (rev (dropWhile js_space s)))"

definition js_lower_char :: "char \<Rightarrow> char" where
  "js_lower_char c =
     (let n = (of_char c :: nat)
      in if (65 \<le> n \<and> n \<le> 90) \<or> (192 \<le> n \<and> n \<le> 222 \<and> n \<noteq> 215)
         then char_of (n + 32) else c)"

definition js_lower :: "string \<Rightarrow> string" where
  "js_lower s = map js_lower_char s"

definition js_starts_with :: "string \<Rightarrow> string \<Rightarrow> bool" where
  "js_starts_with s p = (take (length p) s = p)"

definition js_ends_with :: "string \<Rightarrow> string \<Rightarrow> bool" where
  "js_ends_with s p = (length p \<le> length s \<and> drop (length s - length p) s = p)"

fun js_includes :: "string \<Rightarrow> string \<Rightarrow> bool" where
  "js_includes [] p = (p = [])"
| "js_includes (c # s) p = (take (length p) (c # s) = p \<or> js_includes s p)"

definition ascii_alpha :: "char \<Rightarrow> bool" where
  "ascii_alpha c = (let n = (of_char c :: nat) in (65 \<le> n \<and> n \<le> 90) \<or> (97 \<le> n \<and> n \<le> 122))"

definition ascii_digit :: "char \<Rightarrow> bool" where
  "ascii_digit c = (let n = (of_char c :: nat) in 48 \<le> n \<and> n \<le> 57)"

lemma js_trim_idem [simp]: "js_trim (js_trim s) = js_trim s"
proof -
  have "dropWhile js_space (rev (dropWhile js_space (rev (dropWhile js_space s)))) =
      rev (dropWhile js_space (rev (dropWhile js_space s)))"
  proof (cases "dropWhile js_space (rev (dropWhile js_space s)) = []")
    case True
    show ?thesis unfolding True by simp
  next
    case False
    let ?u = "dropWhile js_space s"
    have "?u \<noteq> []" using False by (metis dropWhile.simps(1) rev.simps(1))
    then have hd: "\<not> js_space (hd ?u)" by (rule hd_dropWhile)
    obtain p where "rev ?u = p @ dropWhile js_space (rev ?u)" by (metis takeWhile_dropWhile_id)
    then have "?u = rev (dropWhile js_space (rev ?u)) @ rev p" by (metis rev_append rev_rev_ident)
    with False have "hd (rev (dropWhile js_space (rev ?u))) = hd ?u" by (metis hd_append2 rev_is_Nil_conv)
    with hd False show ?thesis by (metis dropWhile_eq_self_iff)
  qed
  then show ?thesis by (simp add: js_trim_def)
qed

lemma last_dropWhile: "dropWhile p s \<noteq> [] \<Longrightarrow> last (dropWhile p s) = last s"
  by (metis last_appendR takeWhile_dropWhile_id)

lemma trim_ends:
  assumes "js_trim t = t" and "t \<noteq> []"
  shows "\<not> js_space (hd t)" and "\<not> js_space (last t)"
proof -
  let ?d = "dropWhile js_space t"
  have t: "t = rev (dropWhile js_space (rev ?d))" using assms(1) by (simp add: js_trim_def)
  have "length t \<le> length ?d"
    using length_dropWhile_le [of js_space "rev ?d"] by (subst t) simp
  moreover have "t = takeWhile js_space t @ ?d" by simp
  then have "length t = length (takeWhile js_space t) + length ?d" by (metis length_append)
  ultimately have "takeWhile js_space t = []" by simp
  then have d: "?d = t" by (metis append_Nil takeWhile_dropWhile_id)
  with assms(2) hd_dropWhile [of js_space t] show "\<not> js_space (hd t)" by simp
  have "rev t = dropWhile js_space (rev t)" using t d by (metis rev_rev_ident)
  with assms(2) hd_dropWhile [of js_space "rev t"] show "\<not> js_space (last t)" by (simp add: hd_rev)
qed

lemma trimmed_iff: "js_trim s = s \<longleftrightarrow> s = [] \<or> (\<not> js_space (hd s) \<and> \<not> js_space (last s))"
proof
  assume "js_trim s = s"
  with trim_ends [of s] show "s = [] \<or> (\<not> js_space (hd s) \<and> \<not> js_space (last s))" by blast
next
  assume s: "s = [] \<or> (\<not> js_space (hd s) \<and> \<not> js_space (last s))"
  then have "dropWhile js_space s = s" by (cases s) auto
  moreover have "dropWhile js_space (rev s) = rev s"
    using s by (cases "rev s") (auto simp: hd_rev [symmetric])
  ultimately show "js_trim s = s" by (simp add: js_trim_def)
qed

lemma js_starts_with_append [simp]: "js_starts_with (p @ s) p"
  by (simp add: js_starts_with_def)

lemma js_starts_with_iff: "js_starts_with s p \<longleftrightarrow> (\<exists>t. s = p @ t)"
  by (metis append_take_drop_id append_eq_conv_conj js_starts_with_def)

text \<open>\<open>s.split(/[p]+/)\<close>: the runs of separator characters delimit the pieces.\<close>

function js_split_runs :: "(char \<Rightarrow> bool) \<Rightarrow> string \<Rightarrow> string list" where
  "js_split_runs p s =
     (case dropWhile (\<lambda>c. \<not> p c) s of
        [] \<Rightarrow> [s]
      | _ # r \<Rightarrow> takeWhile (\<lambda>c. \<not> p c) s # js_split_runs p (dropWhile p r))"
  by pat_completeness auto
termination
proof (relation "measure (\<lambda>(p, s). length s)", goal_cases)
  case 1
  then show ?case by simp
next
  case (2 p s c r)
  have "length (dropWhile p r) \<le> length r" by (rule length_dropWhile_le)
  also have "\<dots> < length (dropWhile (\<lambda>c. \<not> p c) s)" using 2 by simp
  also have "\<dots> \<le> length s" by (rule length_dropWhile_le)
  finally show ?case by simp
qed

declare js_split_runs.simps [simp del]

text \<open>\<open>s.split(":")[1] ?? ""\<close>.\<close>

definition second_piece :: "string \<Rightarrow> string" where
  "second_piece s =
     (case dropWhile (\<lambda>c. c \<noteq> CHR '':'') s of
        [] \<Rightarrow> []
      | _ # r \<Rightarrow> takeWhile (\<lambda>c. c \<noteq> CHR '':'') r)"

text \<open>\<open>xs.join(sep)\<close>.\<close>

fun js_join :: "string \<Rightarrow> string list \<Rightarrow> string" where
  "js_join sep [] = []"
| "js_join sep [x] = x"
| "js_join sep (x # y # xs) = x @ sep @ js_join sep (y # xs)"

text \<open>\<open>String(n)\<close> for a natural number: its decimal digits.\<close>

fun nat_dec :: "nat \<Rightarrow> string" where
  "nat_dec n = (if n < 10 then [char_of (48 + n)] else nat_dec (n div 10) @ [char_of (48 + n mod 10)])"

declare nat_dec.simps [simp del]

text \<open>\<open>String(i)\<close> for an integer.\<close>

definition int_dec :: "int \<Rightarrow> string" where
  "int_dec i = (if i < 0 then CHR ''-'' # nat_dec (nat (- i)) else nat_dec (nat i))"

text \<open>The UTF-8 bytes of a code unit below U+0100.\<close>

definition utf8_char :: "char \<Rightarrow> nat list" where
  "utf8_char c =
     (let n = (of_char c :: nat)
      in if n < 128 then [n] else [192 + n div 64, 128 + n mod 64])"

definition utf8 :: "string \<Rightarrow> nat list" where
  "utf8 s = concat (map utf8_char s)"

definition utf8_length :: "string \<Rightarrow> nat" where
  "utf8_length s = length (utf8 s)"

text \<open>
  A code is prefix free when the first code word of a text determines the first symbol
  and the rest; such a code is uniquely decodable.
\<close>

definition prefix_code :: "('a \<Rightarrow> 'b list) \<Rightarrow> bool" where
  "prefix_code f \<longleftrightarrow> (\<forall>c. f c \<noteq> []) \<and> (\<forall>c d s t. f c @ s = f d @ t \<longrightarrow> c = d \<and> s = t)"

lemma prefix_codeI:
  assumes "\<And>c. f c \<noteq> []" and "\<And>c d s t. f c @ s = f d @ t \<Longrightarrow> c = d \<and> s = t"
  shows "prefix_code f"
  using assms unfolding prefix_code_def by blast

lemma prefix_code_inj:
  assumes "prefix_code f" and "concat (map f s) = concat (map f t)"
  shows "s = t"
proof -
  have nonempty: "f c \<noteq> []" and first: "f c @ u = f d @ v \<Longrightarrow> c = d \<and> u = v" for c d u v
    using assms(1) unfolding prefix_code_def by blast+
  show ?thesis
    using assms(2)
  proof (induction s arbitrary: t)
    case Nil
    then show ?case by (cases t) (simp_all add: nonempty)
  next
    case (Cons c s)
    then obtain d t' where t: "t = d # t'"
      by (cases t) (simp_all add: nonempty)
    with Cons.prems have "c = d \<and> concat (map f s) = concat (map f t')"
      by (intro first) simp
    with Cons.IH t show ?case by simp
  qed
qed

lemma of_char_less [simp]: "(of_char c :: nat) < 256"
  by (rule nat_of_char_less_256)

lemma prefix_code_utf8: "prefix_code utf8_char"
proof (rule prefix_codeI)
  fix c d s t
  assume eq: "utf8_char c @ s = utf8_char d @ t"
  let ?m = "of_char c :: nat" and ?n = "of_char d :: nat"
  have "?m = ?n \<and> s = t"
  proof (cases "?m < 128"; cases "?n < 128")
    assume "\<not> ?m < 128" and "\<not> ?n < 128"
    with eq have "?m div 64 = ?n div 64" and "?m mod 64 = ?n mod 64" and "s = t"
      by (auto simp: utf8_char_def Let_def)
    then show ?thesis by (metis div_mult_mod_eq)
  qed (use eq in \<open>auto simp: utf8_char_def Let_def\<close>)
  then show "c = d \<and> s = t" by simp
qed (simp add: utf8_char_def Let_def)

lemma utf8_inj: "utf8 s = utf8 t \<Longrightarrow> s = t"
  unfolding utf8_def by (rule prefix_code_inj [OF prefix_code_utf8])

lemma utf8_append [simp]: "utf8 (s @ t) = utf8 s @ utf8 t"
  by (simp add: utf8_def)

text \<open>Decimal digits: their code units, and reading them back.\<close>

definition dec_value :: "string \<Rightarrow> nat" where
  "dec_value ds = foldl (\<lambda>a c. 10 * a + (of_char c - 48)) 0 ds"

lemma of_char_of_small [simp]: "n < 256 \<Longrightarrow> (of_char (char_of n) :: nat) = n"
  by (simp add: of_char_of)

lemma dec_value_nat_dec: "dec_value (nat_dec n) = n"
proof (induction n rule: nat_dec.induct)
  case (1 n)
  show ?case
  proof (cases "n < 10")
    case True
    then show ?thesis by (subst nat_dec.simps) (simp add: dec_value_def)
  next
    case False
    with 1 show ?thesis by (subst nat_dec.simps) (simp add: dec_value_def)
  qed
qed

lemma nat_dec_inj: "nat_dec m = nat_dec n \<Longrightarrow> m = n"
  by (metis dec_value_nat_dec)

lemma nat_dec_digits: "c \<in> set (nat_dec n) \<Longrightarrow> 48 \<le> (of_char c :: nat) \<and> (of_char c :: nat) < 58"
proof (induction n rule: nat_dec.induct)
  case (1 n)
  show ?case
  proof (cases "n < 10")
    case True
    with "1.prems" show ?thesis by (subst (asm) nat_dec.simps) auto
  next
    case False
    with 1 show ?thesis by (subst (asm) (2) nat_dec.simps) auto
  qed
qed

text \<open>A separator that occurs in neither part before it splits a text in one way.\<close>

lemma split_at_char:
  "c \<notin> set a \<Longrightarrow> c \<notin> set b \<Longrightarrow> a @ c # s = b @ c # t \<Longrightarrow> a = b \<and> s = t"
proof (induction a arbitrary: b)
  case Nil
  then show ?case by (cases b) auto
next
  case (Cons x a)
  then show ?case by (cases b) auto
qed

section \<open>JSON values\<close>

text \<open>
  Values as \<open>JSON.parse\<close> yields them; numbers are integral, or the infinities that an
  over-long literal such as \<open>1e999\<close> parses to. Object keys keep their order.
\<close>

datatype jsnum = Fin int | PInf | NInf

datatype json =
    JNull
  | JBool bool
  | JNum jsnum
  | JStr string
  | JArr "json list"
  | JObj "(string \<times> json) list"

end
