(* ===== verification/Js_Util.thy ===== *)
theory Js_Util
  imports Js_Prelude
begin

text \<open>
  \<^verbatim>\<open>src/util.ts\<close>: clamping, reading JSON objects, the LRU cache, HTML escaping, the
  fingerprint of a string set, storage paths and the atomic JSON file writer. The cache's
  contract is the locale \<open>cache_store\<close>; the room cache and the throttle use the cache
  through it.
\<close>

section \<open>Numbers and JSON accessors\<close>

definition clamp :: "int \<Rightarrow> int \<Rightarrow> int \<Rightarrow> int" where
  "clamp v lo hi = min hi (max lo v)"

definition isPlainObject :: "json \<Rightarrow> bool" where
  "isPlainObject v = (case v of JObj _ \<Rightarrow> True | _ \<Rightarrow> False)"

text \<open>Property access \<open>source[key]\<close> on a parsed object; \<open>None\<close> is \<open>undefined\<close>.\<close>

definition json_prop :: "json \<Rightarrow> string \<Rightarrow> json option" where
  "json_prop v key = (case v of JObj ps \<Rightarrow> map_of ps key | _ \<Rightarrow> None)"

definition readString :: "json \<Rightarrow> string \<Rightarrow> string option" where
  "readString source key =
     (if \<not> isPlainObject source then None
      else case json_prop source key of Some (JStr s) \<Rightarrow> Some s | _ \<Rightarrow> None)"

definition readNumber :: "json \<Rightarrow> string \<Rightarrow> int option" where
  "readNumber source key =
     (if \<not> isPlainObject source then None
      else case json_prop source key of Some (JNum (Fin n)) \<Rightarrow> Some n | _ \<Rightarrow> None)"

lemma clamp_bounds: "lo \<le> hi \<Longrightarrow> lo \<le> clamp v lo hi \<and> clamp v lo hi \<le> hi"
  by (simp add: clamp_def)

section \<open>LruCache\<close>

record ('k, 'v) lru =
  lru_capacity :: int
  lru_map :: "('k, 'v) jsmap"

text \<open>The constructor throws when the capacity is below one.\<close>

definition lru_new :: "int \<Rightarrow> (string, ('k, 'v) lru) sum" where
  "lru_new cap =
     (if cap < 1 then Inl ''LruCache capacity must be >= 1''
      else Inr \<lparr>lru_capacity = cap, lru_map = []\<rparr>)"

definition lru_has :: "('k, 'v) lru \<Rightarrow> 'k \<Rightarrow> bool" where
  "lru_has c k = jm_has (lru_map c) k"

definition lru_get :: "'k \<Rightarrow> ('k, 'v) lru \<Rightarrow> 'v option \<times> ('k, 'v) lru" where
  "lru_get k c =
     (case jm_get (lru_map c) k of
        None \<Rightarrow> (None, c)
      | Some v \<Rightarrow> (Some v, c\<lparr>lru_map := jm_set k v (jm_del k (lru_map c))\<rparr>))"

definition lru_set :: "'k \<Rightarrow> 'v \<Rightarrow> ('k, 'v) lru \<Rightarrow> ('k, 'v) lru" where
  "lru_set k v c =
     (let m1 = (if jm_has (lru_map c) k then jm_del k (lru_map c) else lru_map c);
          m2 = jm_set k v m1
      in c\<lparr>lru_map := jm_evict (lru_capacity c + 1) m2\<rparr>)"

definition lru_delete :: "'k \<Rightarrow> ('k, 'v) lru \<Rightarrow> bool \<times> ('k, 'v) lru" where
  "lru_delete k c = (jm_has (lru_map c) k, c\<lparr>lru_map := jm_del k (lru_map c)\<rparr>)"

definition lru_clear :: "('k, 'v) lru \<Rightarrow> ('k, 'v) lru" where
  "lru_clear c = c\<lparr>lru_map := []\<rparr>"

definition lru_size :: "('k, 'v) lru \<Rightarrow> nat" where
  "lru_size c = length (lru_map c)"

definition lru_keys :: "('k, 'v) lru \<Rightarrow> 'k list" where
  "lru_keys c = jm_keys (lru_map c)"

text \<open>What a reader of the cache sees, and the invariant its operations keep.\<close>

definition lru_view :: "('k, 'v) lru \<Rightarrow> 'k \<Rightarrow> 'v option" where
  "lru_view c k = jm_get (lru_map c) k"

definition lru_inv :: "('k, 'v) lru \<Rightarrow> bool" where
  "lru_inv c \<longleftrightarrow> jm_wf (lru_map c) \<and> 1 \<le> lru_capacity c \<and> int (length (lru_map c)) \<le> lru_capacity c"

lemma lru_set_map:
  assumes "lru_inv c"
  shows "\<exists>n \<le> length (jm_del k (lru_map c)).
    lru_map (lru_set k v c) = drop n (jm_del k (lru_map c)) @ [(k, v)]"
proof -
  let ?d = "jm_del k (lru_map c)"
  have d: "(if jm_has (lru_map c) k then ?d else lru_map c) = ?d"
    by (simp add: jm_has_iff delete_absent)
  have wf: "jm_wf (?d @ [(k, v)])"
    using assms by (simp add: lru_inv_def)
  have "nat (int (length ?d) + 1 - lru_capacity c) \<le> length ?d"
    using assms by (auto simp: lru_inv_def nat_le_iff)
  then show ?thesis
    using jm_evict_drop [OF wf, of "lru_capacity c + 1"]
    by (intro exI [of _ "nat (int (length ?d) + 1 - lru_capacity c)"])
      (simp add: lru_set_def Let_def d update_absent algebra_simps)
qed

lemma lru_inv_set [simp]: "lru_inv c \<Longrightarrow> lru_inv (lru_set k v c)"
  using jm_evict_size [of "lru_capacity c + 1"]
  by (auto simp: lru_inv_def lru_set_def Let_def less_iff_succ_less_eq)

lemma lru_inv_get [simp]: "lru_inv c \<Longrightarrow> lru_inv (snd (lru_get k c))"
proof (cases "jm_get (lru_map c) k")
  case None
  then show "lru_inv c \<Longrightarrow> ?thesis" by (simp add: lru_get_def)
next
  case (Some v)
  assume inv: "lru_inv c"
  have mem: "k \<in> set (jm_keys (lru_map c))"
    using Some by (metis jm_has_def jm_has_iff option.distinct(1))
  then have "0 < length (lru_map c)" by (cases "lru_map c") simp_all
  with inv Some mem show ?thesis
    by (simp add: lru_inv_def lru_get_def length_update length_delete)
qed

lemma lru_view_get [simp]: "lru_view (snd (lru_get k c)) = lru_view c"
  by (auto simp: lru_view_def lru_get_def update_conv' delete_conv' fun_eq_iff split: option.splits)

lemma lru_get_view: "fst (lru_get k c) = lru_view c k"
  by (simp add: lru_view_def lru_get_def split: option.splits)

lemma lru_view_set:
  assumes "lru_inv c"
  shows "lru_view (lru_set k v c) k = Some v"
    and "k' \<noteq> k \<Longrightarrow> lru_view (lru_set k v c) k' \<in> {lru_view c k', None}"
proof -
  let ?d = "jm_del k (lru_map c)"
  obtain n where n: "lru_map (lru_set k v c) = drop n ?d @ [(k, v)]"
    using lru_set_map [OF assms] by blast
  have wf: "jm_wf ?d" using assms by (simp add: lru_inv_def)
  have "k \<notin> fst ` set (drop n ?d)"
    using delete_notin_dom [of k "lru_map c"] by (fastforce dest: in_set_dropD)
  then have "jm_get (drop n ?d) k = None" by (simp add: map_of_eq_None_iff)
  then show "lru_view (lru_set k v c) k = Some v"
    by (simp add: lru_view_def n map_add_def)
  assume "k' \<noteq> k"
  have "jm_get (drop n ?d) k' \<in> {jm_get ?d k', None}"
    by (rule jm_get_drop [OF wf])
  with \<open>k' \<noteq> k\<close> show "lru_view (lru_set k v c) k' \<in> {lru_view c k', None}"
    by (auto simp: lru_view_def n map_add_def split: option.splits)
qed

lemma lru_capacity_simps [simp]:
  "lru_capacity (lru_set k v c) = lru_capacity c"
  "lru_capacity (snd (lru_get k c)) = lru_capacity c"
  "lru_capacity (snd (lru_delete k c)) = lru_capacity c"
  by (simp_all add: lru_set_def lru_get_def lru_delete_def Let_def split: option.splits)

lemma lru_inv_delete [simp]: "lru_inv c \<Longrightarrow> lru_inv (snd (lru_delete k c))"
  using length_delete_le [of k "lru_map c"] by (auto simp: lru_inv_def lru_delete_def)

text \<open>
  The contract of a bounded cache: a read is transparent, a write is visible at its key
  and can only lose other entries, a deletion removes one key.
\<close>

locale cache_store =
  fixes get :: "'k \<Rightarrow> 'c \<Rightarrow> 'v option \<times> 'c"
    and set :: "'k \<Rightarrow> 'v \<Rightarrow> 'c \<Rightarrow> 'c"
    and del :: "'k \<Rightarrow> 'c \<Rightarrow> bool \<times> 'c"
    and view :: "'c \<Rightarrow> 'k \<Rightarrow> 'v option"
    and inv :: "'c \<Rightarrow> bool"
  assumes get_value: "inv c \<Longrightarrow> fst (get k c) = view c k"
    and get_view: "inv c \<Longrightarrow> view (snd (get k c)) = view c"
    and get_inv: "inv c \<Longrightarrow> inv (snd (get k c))"
    and set_same: "inv c \<Longrightarrow> view (set k v c) k = Some v"
    and set_other: "inv c \<Longrightarrow> k' \<noteq> k \<Longrightarrow> view (set k v c) k' \<in> {view c k', None}"
    and set_inv: "inv c \<Longrightarrow> inv (set k v c)"
    and del_view: "inv c \<Longrightarrow> view (snd (del k c)) = (view c)(k := None)"
    and del_inv: "inv c \<Longrightarrow> inv (snd (del k c))"
begin

lemma read_your_write: "inv c \<Longrightarrow> fst (get k (set k v c)) = Some v"
  by (simp add: get_value set_inv set_same)

lemma set_cases:
  assumes "inv c" and "view (set k v c) k' = Some w"
  obtains "k' = k" and "w = v" | "k' \<noteq> k" and "view c k' = Some w"
  using assms set_same [of c k v] set_other [of c k' k v] by (cases "k' = k") auto

text \<open>A property of every cached entry survives a write of an entry that has it.\<close>

lemma set_all:
  assumes "inv c" and "\<forall>k w. view c k = Some w \<longrightarrow> P k w" and "P k v"
  shows "\<forall>k' w. view (set k v c) k' = Some w \<longrightarrow> P k' w"
  using assms by (metis set_cases)

lemma get_all:
  assumes "inv c" and "\<forall>k w. view c k = Some w \<longrightarrow> P k w"
  shows "\<forall>k' w. view (snd (get k c)) k' = Some w \<longrightarrow> P k' w"
  using assms by (simp add: get_view)

lemma del_all:
  assumes "inv c" and "\<forall>k w. view c k = Some w \<longrightarrow> P k w"
  shows "\<forall>k' w. view (snd (del k c)) k' = Some w \<longrightarrow> P k' w"
  using assms by (simp add: del_view)

end

interpretation lruc: cache_store lru_get lru_set lru_delete lru_view lru_inv
proof unfold_locales
  fix c :: "('k, 'v) lru" and k
  show "lru_view (snd (lru_delete k c)) = (lru_view c)(k := None)"
    by (simp add: lru_view_def lru_delete_def delete_conv' fun_eq_iff)
qed (simp_all add: lru_get_view lru_view_set [simplified])

section \<open>escapeHtml\<close>

text \<open>\<open>text.replace(/c/g, r)\<close> for a single character \<open>c\<close>.\<close>

definition replace_char :: "char \<Rightarrow> string \<Rightarrow> string \<Rightarrow> string" where
  "replace_char c r s = concat (map (\<lambda>x. if x = c then r else [x]) s)"

definition escapeHtml :: "string \<Rightarrow> string" where
  "escapeHtml s =
     replace_char (CHR 39) ''&#39;''
       (replace_char (CHR 34) ''&quot;''
         (replace_char (CHR ''>'') ''&gt;''
           (replace_char (CHR ''<'') ''&lt;''
             (replace_char (CHR ''&'') ''&amp;'' s))))"

text \<open>The five passes are one pass: no pass rewrites what an earlier one wrote.\<close>

definition escape_char :: "char \<Rightarrow> string" where
  "escape_char c =
     (if c = CHR ''&'' then ''&amp;'' else if c = CHR ''<'' then ''&lt;''
      else if c = CHR ''>'' then ''&gt;'' else if c = CHR 34 then ''&quot;''
      else if c = CHR 39 then ''&#39;'' else [c])"

lemma replace_char_simps [simp]:
  "replace_char c r [] = []"
  "replace_char c r (x # xs) = (if x = c then r else [x]) @ replace_char c r xs"
  "replace_char c r (xs @ ys) = replace_char c r xs @ replace_char c r ys"
  by (simp_all add: replace_char_def)

lemma escapeHtml_append [simp]: "escapeHtml (s @ t) = escapeHtml s @ escapeHtml t"
  by (simp add: escapeHtml_def)

lemma escapeHtml_Nil [simp]: "escapeHtml [] = []"
  by (simp add: escapeHtml_def)

lemma escapeHtml_Cons: "escapeHtml (c # s) = escape_char c @ escapeHtml s"
  by (auto simp: escapeHtml_def escape_char_def)

lemma escapeHtml_one_pass: "escapeHtml s = concat (map escape_char s)"
  by (induction s) (simp_all add: escapeHtml_Cons)

definition html_special :: "char set" where
  "html_special = {CHR ''<'', CHR ''>'', CHR 34, CHR 39}"

lemma escape_char_safe: "set (escape_char c) \<inter> html_special = {}"
  by (auto simp: escape_char_def html_special_def)

lemma escapeHtml_safe: "set (escapeHtml s) \<inter> html_special = {}"
  using escape_char_safe by (auto simp: escapeHtml_one_pass)

lemma escape_char_code: "prefix_code escape_char"
  by (rule prefix_codeI) (auto simp: escape_char_def split: if_splits)

lemma escapeHtml_inj: "escapeHtml s = escapeHtml t \<Longrightarrow> s = t"
  unfolding escapeHtml_one_pass by (rule prefix_code_inj [OF escape_char_code])

section \<open>fingerprintSet\<close>

text \<open>
  The bytes \<open>fingerprintSet\<close> feeds to SHA-256: per member, in sorted order and without
  duplicates, the decimal byte length, a colon and the member. The digest is the
  parameter \<open>hash\<close>.
\<close>

definition fingerprint_item :: "string \<Rightarrow> nat list" where
  "fingerprint_item v = utf8 (nat_dec (utf8_length v) @ '':'' @ v)"

definition fingerprint_bytes :: "string list \<Rightarrow> nat list" where
  "fingerprint_bytes values = concat (map fingerprint_item (sort (remdups values)))"

definition fingerprintSet :: "(nat list \<Rightarrow> string) \<Rightarrow> string list \<Rightarrow> string" where
  "fingerprintSet hash values = hash (fingerprint_bytes values)"

lemma utf8_digits: "utf8 (nat_dec n) = map of_char (nat_dec n)"
proof -
  have "utf8_char c = [of_char c]" if "c \<in> set (nat_dec n)" for c
    using nat_dec_digits [OF that] by (simp add: utf8_char_def)
  then have "map utf8_char (nat_dec n) = map (\<lambda>c. [of_char c]) (nat_dec n)"
    by simp
  then show ?thesis
    unfolding utf8_def by (simp only: concat_map_singleton)
qed

lemma split_at_colon:
  assumes "map of_char (nat_dec m) @ 58 # s = map of_char (nat_dec n) @ (58 :: nat) # t"
  shows "m = n \<and> s = t"
proof -
  have no_colon: "takeWhile (\<lambda>b. b \<noteq> 58) (map of_char (nat_dec k) @ 58 # r) = map of_char (nat_dec k)"
    for k and r :: "nat list"
    using nat_dec_digits by (fastforce simp: takeWhile_append)
  have "map (of_char :: char \<Rightarrow> nat) (nat_dec m) = map of_char (nat_dec n)"
    using arg_cong [OF assms, of "takeWhile (\<lambda>b. b \<noteq> 58)"] by (simp add: no_colon)
  then have "nat_dec m = nat_dec n"
    by (simp add: inj_map_eq_map [of of_char] inj_on_def)
  with assms show ?thesis by (simp add: nat_dec_inj)
qed

lemma utf8_colon: "utf8 (CHR '':'' # s) = 58 # utf8 s"
  by (simp add: utf8_def utf8_char_def)

lemma prefix_code_fingerprint: "prefix_code fingerprint_item"
proof (rule prefix_codeI)
  fix c d s t
  assume "fingerprint_item c @ s = fingerprint_item d @ t"
  then have "utf8_length c = utf8_length d \<and> utf8 c @ s = utf8 d @ t"
    by (intro split_at_colon) (simp add: fingerprint_item_def utf8_digits utf8_colon)
  then show "c = d \<and> s = t"
    by (auto simp: utf8_length_def dest: utf8_inj)
qed (simp add: fingerprint_item_def utf8_colon)

lemma sort_remdups_eq: "sort (remdups xs) = sort (remdups ys) \<longleftrightarrow> set xs = set (ys :: string list)"
  by (metis sorted_list_of_set_sort_remdups set_remdups set_sort)

lemma fingerprint_bytes_eq: "fingerprint_bytes xs = fingerprint_bytes ys \<longleftrightarrow> set xs = set ys"
  unfolding fingerprint_bytes_def
  using prefix_code_inj [OF prefix_code_fingerprint] sort_remdups_eq by metis

section \<open>resolveStoragePath\<close>

text \<open>
  POSIX paths: \<open>path.resolve(p)\<close> splits at \<open>/\<close>, drops empty and \<open>.\<close> segments and lets
  \<open>..\<close> drop the segment before it; a relative path starts from the working directory,
  given as the segments \<open>cwd\<close>.
\<close>

fun norm_segments :: "string list \<Rightarrow> string list \<Rightarrow> string list" where
  "norm_segments acc [] = acc"
| "norm_segments acc (s # ss) =
     norm_segments
       (if s = [] \<or> s = ''.'' then acc
        else if s = ''..'' then butlast acc
        else acc @ [s]) ss"

definition path_isAbsolute :: "string \<Rightarrow> bool" where
  "path_isAbsolute p = js_starts_with p ''/''"

definition path_resolve :: "string list \<Rightarrow> string \<Rightarrow> string list" where
  "path_resolve cwd p =
     norm_segments (if path_isAbsolute p then [] else cwd) (js_split_runs (\<lambda>c. c = CHR ''/'') p)"

datatype storage_path_error = EmptyStoragePath | StoragePathTraversal

definition resolveStoragePath :: "string list \<Rightarrow> string \<Rightarrow> storage_path_error + string list" where
  "resolveStoragePath cwd raw =
     (let trimmed = js_trim raw
      in if trimmed = [] then Inl EmptyStoragePath
         else let segments = js_split_runs (\<lambda>c. c = CHR 92 \<or> c = CHR ''/'') trimmed
              in if \<not> path_isAbsolute trimmed \<and> ''..'' \<in> set segments then Inl StoragePathTraversal
                 else Inr (path_resolve cwd trimmed))"

lemma norm_segments_prefix:
  "''..'' \<notin> set ss \<Longrightarrow> \<exists>r. norm_segments acc ss = acc @ r \<and> set r \<subseteq> set ss"
proof (induction ss arbitrary: acc)
  case Nil
  then show ?case by simp
next
  case (Cons s ss)
  have ih: "\<exists>r. norm_segments acc' ss = acc' @ r \<and> set r \<subseteq> set ss" for acc'
    using Cons by simp
  show ?case
  proof (cases "s = [] \<or> s = ''.''")
    case True
    with ih [of acc] show ?thesis by auto
  next
    case False
    moreover have "s \<noteq> ''..''" using Cons.prems by auto
    moreover obtain r where "norm_segments (acc @ [s]) ss = (acc @ [s]) @ r \<and> set r \<subseteq> set ss"
      using ih by blast
    ultimately show ?thesis by (intro exI [of _ "s # r"]) auto
  qed
qed

text \<open>
  The non-empty pieces of a split are the maximal separator-free factors of the text; so a
  piece of a coarser split without further separators is a piece of the finer one.
\<close>

definition factor :: "(char \<Rightarrow> bool) \<Rightarrow> string \<Rightarrow> string \<Rightarrow> bool" where
  "factor p x s \<longleftrightarrow> (\<exists>a b. s = a @ x @ b \<and> (a = [] \<or> p (last a)) \<and> (b = [] \<or> p (hd b)) \<and>
     (\<forall>c \<in> set x. \<not> p c))"

lemma js_split_runs_factor: "x \<in> set (js_split_runs p s) \<Longrightarrow> factor p x s"
proof (induction p s rule: js_split_runs.induct)
  case (1 p s)
  show ?case
  proof (cases "dropWhile (\<lambda>c. \<not> p c) s")
    case Nil
    with "1.prems" have "x = s" and "\<forall>c \<in> set s. \<not> p c"
      by (simp_all add: js_split_runs.simps [of p s] dropWhile_eq_Nil_conv)
    then show ?thesis by (auto simp: factor_def intro!: exI [of _ "[]"])
  next
    case (Cons c r)
    let ?t = "takeWhile (\<lambda>c. \<not> p c) s"
    have s: "s = ?t @ c # r" and pc: "p c"
      using Cons takeWhile_dropWhile_id [of "\<lambda>c. \<not> p c" s] hd_dropWhile [of "\<lambda>c. \<not> p c" s] by auto
    from "1.prems" Cons consider "x = ?t" | "x \<in> set (js_split_runs p (dropWhile p r))"
      by (auto simp: js_split_runs.simps [of p s])
    then show ?thesis
    proof cases
      case 1
      then have "s = [] @ x @ c # r" and "\<forall>c \<in> set x. \<not> p c"
        using s by (auto dest: set_takeWhileD)
      with pc show ?thesis
        unfolding factor_def by (intro exI [of _ "[]"] exI [of _ "c # r"]) simp
    next
      case 2
      from "1.IH" [OF Cons this] obtain a b where ab: "dropWhile p r = a @ x @ b"
        "a = [] \<or> p (last a)" "b = [] \<or> p (hd b)" "\<forall>c \<in> set x. \<not> p c"
        by (auto simp: factor_def)
      let ?a = "?t @ c # takeWhile p r @ a"
      have "s = ?a @ x @ b"
        using s ab(1) takeWhile_dropWhile_id [of p r] by simp
      moreover have "p (last ?a)"
        using ab(2) pc set_takeWhileD [OF last_in_set [of "takeWhile p r"]] by (auto simp: last_append)
      ultimately show ?thesis using ab(3,4) unfolding factor_def by blast
    qed
  qed
qed

lemma dropWhile_before_factor:
  assumes "x \<noteq> []" and "\<not> p (hd x)"
  shows "dropWhile p (a @ x @ b) = dropWhile p a @ x @ b"
  using assms by (induction a) (cases x; simp)+

lemma factor_js_split_runs:
  assumes "x \<noteq> []" and "factor p x s"
  shows "x \<in> set (js_split_runs p s)"
  using assms(2)
proof (induction p s rule: js_split_runs.induct)
  case (1 p s)
  then obtain a b where s: "s = a @ x @ b" and a: "a = [] \<or> p (last a)"
    and b: "b = [] \<or> p (hd b)" and x: "\<forall>c \<in> set x. \<not> p c"
    by (auto simp: factor_def)
  show ?case
  proof (cases "a = []")
    case True
    with s b x have "takeWhile (\<lambda>c. \<not> p c) s = x"
      by (cases b) (simp_all add: takeWhile_append2)
    then show ?thesis
      using takeWhile_dropWhile_id [of "\<lambda>c. \<not> p c" s]
      by (auto simp: js_split_runs.simps [of p s] split: list.splits)
  next
    case False
    with a have "\<exists>c \<in> set a. p c" using last_in_set by blast
    then obtain c r where cr: "dropWhile (\<lambda>c. \<not> p c) a = c # r"
      by (metis dropWhile_eq_Nil_conv neq_Nil_conv)
    then have drop_s: "dropWhile (\<lambda>c. \<not> p c) s = c # (r @ x @ b)"
      using s \<open>\<exists>c \<in> set a. p c\<close> by (auto simp: dropWhile_append cr)
    have "last a = last (c # r)"
      using cr takeWhile_dropWhile_id [of "\<lambda>c. \<not> p c" a] by (metis last_appendR list.simps(3))
    with a False have "dropWhile p r = [] \<or> p (last (dropWhile p r))"
      using last_appendR [of "dropWhile p r" "takeWhile p r"] takeWhile_dropWhile_id [of p r]
      by (metis last.simps dropWhile.simps(1))
    moreover have "dropWhile p (r @ x @ b) = dropWhile p r @ x @ b"
      using assms(1) x by (intro dropWhile_before_factor) simp_all
    ultimately have "factor p x (dropWhile p (r @ x @ b))"
      using b x unfolding factor_def by metis
    from "1.IH" [OF drop_s this] show ?thesis
      by (simp add: js_split_runs.simps [of p s] drop_s)
  qed
qed

lemma js_split_runs_finer:
  assumes "x \<in> set (js_split_runs p s)" and "x \<noteq> []" and "\<forall>c \<in> set x. \<not> q c"
  shows "x \<in> set (js_split_runs (\<lambda>c. q c \<or> p c) s)"
  using js_split_runs_factor [OF assms(1)] assms(3)
  by (intro factor_js_split_runs [OF assms(2)]) (auto simp: factor_def)

lemma path_resolve_relative:
  assumes "\<not> path_isAbsolute p" and "''..'' \<notin> set (js_split_runs (\<lambda>c. c = CHR 92 \<or> c = CHR ''/'') p)"
  shows "\<exists>r. path_resolve cwd p = cwd @ r \<and> ''..'' \<notin> set r"
proof -
  let ?ss = "js_split_runs (\<lambda>c. c = CHR ''/'') p"
  have "''..'' \<notin> set ?ss"
    using assms(2) js_split_runs_finer [of "''..''" "\<lambda>c. c = CHR ''/''" p "\<lambda>c. c = CHR 92"] by auto
  then obtain r where "norm_segments cwd ?ss = cwd @ r" and "set r \<subseteq> set ?ss"
    using norm_segments_prefix by blast
  then show ?thesis
    using \<open>''..'' \<notin> set ?ss\<close> assms(1) by (auto simp: path_resolve_def)
qed

lemma resolveStoragePath_relative:
  assumes "resolveStoragePath cwd raw = Inr segs" and "\<not> path_isAbsolute (js_trim raw)"
  shows "\<exists>r. segs = cwd @ r \<and> ''..'' \<notin> set r"
  using assms path_resolve_relative [of "js_trim raw" cwd]
  by (auto simp: resolveStoragePath_def Let_def split: if_splits)

section \<open>Atomic JSON files\<close>

text \<open>
  A file holds what parsing its text gives, or text that does not parse. \<open>writeJsonAtomic\<close>
  writes a temporary file in the same directory and renames it over the target; a failed
  write or rename removes the temporary file and rethrows. \<open>JSON.stringify\<close> writes the
  infinities as \<open>null\<close>.
\<close>

datatype file_content = Json json | Corrupt

type_synonym file_system = "string \<Rightarrow> file_content option"

fun json_norm :: "json \<Rightarrow> json" where
  "json_norm (JNum PInf) = JNull"
| "json_norm (JNum NInf) = JNull"
| "json_norm (JArr vs) = JArr (map json_norm vs)"
| "json_norm (JObj ps) = JObj (map (\<lambda>(k, v). (k, json_norm v)) ps)"
| "json_norm v = v"

datatype write_outcome = WriteOk | WriteFails | RenameFails

definition tmp_name :: "string \<Rightarrow> string \<Rightarrow> string \<Rightarrow> string" where
  "tmp_name base pid rid = ''.'' @ base @ ''.'' @ pid @ ''.'' @ rid @ ''.tmp''"

definition writeJsonAtomic ::
  "string \<Rightarrow> string \<Rightarrow> json \<Rightarrow> write_outcome \<Rightarrow> file_system \<Rightarrow> (write_outcome + unit) \<times> file_system" where
  "writeJsonAtomic file tmp v outcome fs =
     (case outcome of
        WriteFails \<Rightarrow> (Inl WriteFails, fs(tmp := None))
      | RenameFails \<Rightarrow> (Inl RenameFails, (fs(tmp := Some (Json (json_norm v))))(tmp := None))
      | WriteOk \<Rightarrow>
          (let fs1 = fs(tmp := Some (Json (json_norm v)))
           in (Inr (), (fs1(file := fs1 tmp))(tmp := None))))"

text \<open>
  The states a crash can leave behind: before anything, with a truncated or whole
  temporary file, after the rename.
\<close>

definition writeJsonAtomic_crash_states ::
  "string \<Rightarrow> string \<Rightarrow> json \<Rightarrow> file_system \<Rightarrow> file_system list" where
  "writeJsonAtomic_crash_states file tmp v fs =
     [fs, fs(tmp := Some Corrupt), fs(tmp := Some (Json (json_norm v))),
      snd (writeJsonAtomic file tmp v WriteOk fs)]"

definition readJsonSafe :: "file_system \<Rightarrow> string \<Rightarrow> json" where
  "readJsonSafe fs file = (case fs file of Some (Json v) \<Rightarrow> v | _ \<Rightarrow> JNull)"

lemma tmp_name_neq: "tmp_name base pid rid \<noteq> base"
  by (rule notI, drule arg_cong [of _ _ length]) (simp add: tmp_name_def)

lemma writeJsonAtomic_target:
  "tmp \<noteq> file \<Longrightarrow> snd (writeJsonAtomic file tmp v outcome fs) file =
     (if outcome = WriteOk then Some (Json (json_norm v)) else fs file)"
  by (simp add: writeJsonAtomic_def Let_def split: write_outcome.splits)

lemma writeJsonAtomic_tmp: "tmp \<noteq> file \<Longrightarrow> snd (writeJsonAtomic file tmp v outcome fs) tmp = None"
  by (simp add: writeJsonAtomic_def Let_def split: write_outcome.splits)

lemma readJsonSafe_after_write:
  "tmp \<noteq> file \<Longrightarrow> readJsonSafe (snd (writeJsonAtomic file tmp v WriteOk fs)) file = json_norm v"
  by (simp add: readJsonSafe_def writeJsonAtomic_target)

lemma crash_old_or_new:
  "tmp \<noteq> file \<Longrightarrow> fs' \<in> set (writeJsonAtomic_crash_states file tmp v fs) \<Longrightarrow>
     fs' file \<in> {fs file, Some (Json (json_norm v))}"
  by (auto simp: writeJsonAtomic_crash_states_def writeJsonAtomic_target)

end
