(* ===== verification/Url_Encoded.thy ===== *)
theory Url_Encoded
  imports Js_Util
begin

text \<open>
  What the MiniApp code uses of the standard library on byte level: hexadecimal digests
  (\<open>digest("hex")\<close>, \<open>Buffer.from(s, "hex")\<close>), UTF-8, and \<open>URLSearchParams\<close> (the
  parser and the serializer of \<open>application/x-www-form-urlencoded\<close>), with their round
  trips. A malformed UTF-8 sequence decodes to U+FFFD, which lies outside the characters
  modelled; a question mark stands for it.
\<close>

section \<open>Hexadecimal digests\<close>

definition hex_digit :: "nat \<Rightarrow> char" where
  "hex_digit n = char_of (if n < 10 then 48 + n else 87 + n)"

definition hex_upper :: "nat \<Rightarrow> char" where
  "hex_upper n = char_of (if n < 10 then 48 + n else 55 + n)"

definition hex_value :: "char \<Rightarrow> nat option" where
  "hex_value c =
     (let n = (of_char c :: nat)
      in if 48 \<le> n \<and> n \<le> 57 then Some (n - 48)
         else if 97 \<le> n \<and> n \<le> 102 then Some (n - 87)
         else if 65 \<le> n \<and> n \<le> 70 then Some (n - 55) else None)"

lemma hex_value_digit [simp]: "n < 16 \<Longrightarrow> hex_value (hex_digit n) = Some n"
  by (auto simp: hex_value_def hex_digit_def Let_def)

lemma hex_value_upper [simp]: "n < 16 \<Longrightarrow> hex_value (hex_upper n) = Some n"
  by (auto simp: hex_value_def hex_upper_def Let_def)

definition to_hex :: "nat list \<Rightarrow> string" where
  "to_hex bs = concat (map (\<lambda>b. [hex_digit (b div 16), hex_digit (b mod 16)]) bs)"

text \<open>\<open>Buffer.from(s, "hex")\<close> stops at the first pair that is no byte.\<close>

fun from_hex :: "string \<Rightarrow> nat list" where
  "from_hex (a # b # s) =
     (case (hex_value a, hex_value b) of
        (Some x, Some y) \<Rightarrow> (16 * x + y) # from_hex s
      | _ \<Rightarrow> [])"
| "from_hex s = []"

lemma from_to_hex: "list_all (\<lambda>b. b < 256) bs \<Longrightarrow> from_hex (to_hex bs) = bs"
  by (induction bs) (simp_all add: to_hex_def less_mult_imp_div_less)

section \<open>UTF-8\<close>

fun utf8_decode :: "nat list \<Rightarrow> string" where
  "utf8_decode [] = []"
| "utf8_decode [n] = [if n < 128 then char_of n else CHR ''?'']"
| "utf8_decode (n # m # bs) =
     (if n < 128 then char_of n # utf8_decode (m # bs)
      else if n \<in> {194, 195} \<and> 128 \<le> m \<and> m < 192 then char_of ((n - 192) * 64 + (m - 128)) # utf8_decode bs
      else CHR ''?'' # utf8_decode (m # bs))"

lemma utf8_char_wide:
  assumes "\<not> (of_char c :: nat) < 128"
  obtains q r where "q \<in> {2, 3}" and "r < 64" and "utf8_char c = [192 + q, 128 + r]"
    and "c = char_of (q * 64 + r)"
proof -
  let ?n = "of_char c :: nat"
  have "?n < 4 * 64" using of_char_less [of c] by simp
  then have "?n div 64 < 4" by (rule less_mult_imp_div_less)
  moreover have "2 \<le> ?n div 64" using div_le_mono [of 128 ?n 64] assms by simp
  ultimately have "?n div 64 \<in> {2, 3}" by auto
  moreover have "?n div 64 * 64 + ?n mod 64 = ?n" by simp
  then have "c = char_of (?n div 64 * 64 + ?n mod 64)" by simp
  ultimately show thesis
    using assms by (intro that [of "?n div 64" "?n mod 64"]) (simp_all add: utf8_char_def Let_def)
qed

lemma utf8_decode_char: "utf8_decode (utf8_char c @ bs) = c # utf8_decode bs"
proof (cases "(of_char c :: nat) < 128")
  case True
  then show ?thesis by (cases bs) (simp_all add: utf8_char_def Let_def)
next
  case False
  from False obtain q r where q: "q \<in> {2, 3}" and r: "r < 64" and u: "utf8_char c = [192 + q, 128 + r]"
    and c: "c = char_of (q * 64 + r)" by (rule utf8_char_wide)
  from q r have "utf8_decode ([192 + q, 128 + r] @ bs) = char_of (q * 64 + r) # utf8_decode bs" by auto
  with u c show ?thesis by simp
qed

lemma utf8_decode_utf8 [simp]: "utf8_decode (utf8 s) = s"
proof (induction s)
  case (Cons c s)
  then show ?case using utf8_decode_char [of c "utf8 s"] by (simp add: utf8_def)
qed (simp add: utf8_def)

lemma utf8_char_bytes: "b \<in> set (utf8_char c) \<Longrightarrow> b < 256"
proof (cases "(of_char c :: nat) < 128")
  case True
  then show "b \<in> set (utf8_char c) \<Longrightarrow> b < 256" by (simp add: utf8_char_def)
next
  case False
  then obtain q r where "q \<in> {2, 3}" "r < 64" "utf8_char c = [192 + q, 128 + r]"
    by (rule utf8_char_wide)
  then show "b \<in> set (utf8_char c) \<Longrightarrow> b < 256" by auto
qed

lemma utf8_bytes: "b \<in> set (utf8 s) \<Longrightarrow> b < 256"
  by (auto simp: utf8_def utf8_char_bytes)

section \<open>URLSearchParams\<close>

definition url_plain :: "nat \<Rightarrow> bool" where
  "url_plain n = ((48 \<le> n \<and> n \<le> 57) \<or> (65 \<le> n \<and> n \<le> 90) \<or> (97 \<le> n \<and> n \<le> 122) \<or> n \<in> {42, 45, 46, 95})"

definition enc_byte :: "nat \<Rightarrow> string" where
  "enc_byte n =
     (if url_plain n then [char_of n] else if n = 32 then ''+''
      else [CHR ''%'', hex_upper (n div 16), hex_upper (n mod 16)])"

definition url_encode :: "string \<Rightarrow> string" where
  "url_encode s = concat (map enc_byte (utf8 s))"

definition params_toString :: "(string \<times> string) list \<Rightarrow> string" where
  "params_toString ps = js_join ''&'' (map (\<lambda>(k, v). url_encode k @ ''='' @ url_encode v) ps)"

fun url_bytes :: "string \<Rightarrow> nat list" where
  "url_bytes [] = []"
| "url_bytes (c # s) =
     (if c = CHR ''+'' then 32 # url_bytes s
      else if c = CHR ''%'' then
        (case s of
           a # b # r \<Rightarrow>
             (case (hex_value a, hex_value b) of
                (Some x, Some y) \<Rightarrow> (16 * x + y) # url_bytes r
              | _ \<Rightarrow> 37 # url_bytes s)
         | _ \<Rightarrow> 37 # url_bytes s)
      else utf8_char c @ url_bytes s)"

definition url_decode :: "string \<Rightarrow> string" where
  "url_decode s = utf8_decode (url_bytes s)"

text \<open>The pieces between ampersands, the empty ones dropped.\<close>

fun split_amp :: "string \<Rightarrow> string \<Rightarrow> string list" where
  "split_amp acc [] = (if acc = [] then [] else [rev acc])"
| "split_amp acc (c # s) =
     (if c = CHR ''&'' then (if acc = [] then split_amp [] s else rev acc # split_amp [] s)
      else split_amp (c # acc) s)"

definition parse_pair :: "string \<Rightarrow> string \<times> string" where
  "parse_pair p =
     (url_decode (takeWhile (\<lambda>c. c \<noteq> CHR ''='') p),
      url_decode (case dropWhile (\<lambda>c. c \<noteq> CHR ''='') p of [] \<Rightarrow> [] | _ # v \<Rightarrow> v))"

definition params_parse :: "string \<Rightarrow> (string \<times> string) list" where
  "params_parse s =
     map parse_pair (split_amp [] (case s of c # r \<Rightarrow> if c = CHR ''?'' then r else s | [] \<Rightarrow> []))"

lemma char_of_is: "n < 256 \<Longrightarrow> char_of n = c \<longleftrightarrow> n = (of_char c :: nat)"
  by (metis char_of_char of_char_of_small)

lemma url_bytes_enc:
  assumes "n < 256"
  shows "url_bytes (enc_byte n @ s) = n # url_bytes s"
proof (cases "url_plain n")
  case True
  then have "char_of n \<noteq> CHR ''+''" and "char_of n \<noteq> CHR ''%''" and n: "n < 128"
    using assms
    by (auto simp: url_plain_def char_of_is)
  then show ?thesis using True by (simp add: enc_byte_def utf8_char_def)
next
  case False
  show ?thesis
  proof (cases "n = 32")
    case True
    with False show ?thesis by (simp add: enc_byte_def)
  next
    case other: False
    have "n div 16 < 16" "n mod 16 < 16" using assms by (simp_all add: less_mult_imp_div_less)
    with False other show ?thesis by (simp add: enc_byte_def)
  qed
qed

lemma url_bytes_encode: "list_all (\<lambda>b. b < 256) bs \<Longrightarrow> url_bytes (concat (map enc_byte bs) @ s) = bs @ url_bytes s"
  by (induction bs) (simp_all add: url_bytes_enc)

lemma url_decode_encode [simp]: "url_decode (url_encode s) = s"
  using url_bytes_encode [of "utf8 s" "[]"] utf8_bytes
  by (auto simp: url_decode_def url_encode_def list_all_iff)

text \<open>An encoded text holds no separator and does not start with a question mark.\<close>

lemma enc_byte_clean: "n < 256 \<Longrightarrow> set (enc_byte n) \<inter> {CHR ''&'', CHR ''='', CHR ''?''} = {}"
proof -
  assume n: "n < 256"
  have hex: "hex_upper m \<notin> {CHR ''&'', CHR ''='', CHR ''?''}" if "m < 16" for m
    using that by (auto simp: hex_upper_def char_of_is)
  have "char_of n \<notin> {CHR ''&'', CHR ''='', CHR ''?''}" if "url_plain n"
    using that n by (auto simp: url_plain_def char_of_is)
  then show ?thesis
    using n hex [of "n div 16"] hex [of "n mod 16"] by (auto simp: enc_byte_def less_mult_imp_div_less)
qed

lemma url_encode_clean: "c \<in> set (url_encode s) \<Longrightarrow> c \<notin> {CHR ''&'', CHR ''='', CHR ''?''}"
  unfolding url_encode_def using enc_byte_clean utf8_bytes by fastforce

lemma parse_pair_encoded: "parse_pair (url_encode k @ CHR ''='' # url_encode v) = (k, v)"
proof -
  have "CHR ''='' \<notin> set (url_encode k)" using url_encode_clean by blast
  then have "takeWhile (\<lambda>c. c \<noteq> CHR ''='') (url_encode k @ CHR ''='' # url_encode v) = url_encode k"
    and "dropWhile (\<lambda>c. c \<noteq> CHR ''='') (url_encode k @ CHR ''='' # url_encode v) = CHR ''='' # url_encode v"
    by (auto simp: takeWhile_append dropWhile_append)
  then show ?thesis by (simp add: parse_pair_def)
qed

lemma split_amp_piece: "CHR ''&'' \<notin> set p \<Longrightarrow> split_amp acc (p @ s) = split_amp (rev p @ acc) s"
  by (induction p arbitrary: acc) auto

lemma split_amp_join:
  "\<forall>p \<in> set ps. CHR ''&'' \<notin> set p \<and> p \<noteq> [] \<Longrightarrow> split_amp [] (js_join ''&'' ps) = ps"
proof (induction "''&''" ps rule: js_join.induct)
  case (2 p)
  then show ?case using split_amp_piece [of p "[]" "[]"] by simp
next
  case (3 p q ps)
  then show ?case using split_amp_piece [of p "[]" "''&'' @ js_join ''&'' (q # ps)"] by simp
qed simp

lemma params_round_trip: "params_parse (params_toString ps) = ps"
proof -
  let ?enc = "\<lambda>(k, v). url_encode k @ ''='' @ url_encode v"
  have pieces: "\<forall>p \<in> set (map ?enc ps). CHR ''&'' \<notin> set p \<and> p \<noteq> []"
    using url_encode_clean by fastforce
  have "(case params_toString ps of c # r \<Rightarrow> if c = CHR ''?'' then r else params_toString ps | [] \<Rightarrow> []) = params_toString ps"
  proof -
    have "CHR ''?'' \<noteq> hd (params_toString ps)" if "params_toString ps \<noteq> []"
    proof (cases ps)
      case Nil
      with that show ?thesis by (simp add: params_toString_def)
    next
      case (Cons p qs)
      obtain k v where p: "p = (k, v)" by fastforce
      have "hd (params_toString ps) = hd (url_encode k @ ''='')"
        unfolding Cons p by (cases qs; cases "url_encode k") (simp_all add: params_toString_def)
      moreover have "hd (url_encode k @ ''='') \<in> set (url_encode k) \<union> {CHR ''=''}"
        by (cases "url_encode k") simp_all
      ultimately show ?thesis using url_encode_clean [of "CHR ''?''" k] by auto
    qed
    then show ?thesis by (auto split: list.split)
  qed
  then have "params_parse (params_toString ps) = map parse_pair (map ?enc ps)"
    unfolding params_parse_def using split_amp_join [OF pieces] by (simp add: params_toString_def)
  moreover have "map parse_pair (map ?enc ps) = ps"
    unfolding map_map by (rule map_idI) (simp add: parse_pair_encoded split: prod.split)
  ultimately show ?thesis by simp
qed

end
