(* ===== verification/Dispatch_Queue.thy ===== *)
theory Dispatch_Queue
  imports Js_Prelude "HOL-Library.Multiset"
begin

text \<open>
  \<^verbatim>\<open>src/dispatch-queue.ts\<close>: the fair dispatch queue (one task per room in flight, a global
  limit across rooms) as a machine whose events are the points where control returns to a
  task, and the event deduper with its abstract specification, a sliding window.
\<close>

section \<open>DispatchQueue\<close>

type_synonym waiter = "string \<times> nat"

record dq =
  globalLimit :: int
  globalActive :: int
  roomActive :: "string set"
  waiters :: "waiter list"
  closed :: bool

definition dq_new :: "int \<Rightarrow> dq" where
  "dq_new limit = \<lparr>globalLimit = max 1 limit, globalActive = 0, roomActive = {},
     waiters = [], closed = False\<rparr>"

definition activeCount :: "dq \<Rightarrow> int" where
  "activeCount q = globalActive q"

definition pendingCount :: "dq \<Rightarrow> nat" where
  "pendingCount q = length (waiters q)"

definition dq_canRun :: "dq \<Rightarrow> string \<Rightarrow> bool" where
  "dq_canRun q room \<longleftrightarrow> globalActive q < globalLimit q \<and> room \<notin> roomActive q"

definition dq_take :: "string \<Rightarrow> dq \<Rightarrow> dq" where
  "dq_take room q =
     q\<lparr>globalActive := globalActive q + 1, roomActive := insert room (roomActive q)\<rparr>"

text \<open>\<open>close\<close> returns the queue and the tasks whose waiters it rejects.\<close>

definition dq_close :: "dq \<Rightarrow> dq \<times> nat list" where
  "dq_close q =
     (if closed q then (q, [])
      else (q\<lparr>closed := True, waiters := []\<rparr>, map snd (waiters q)))"

datatype acquired = AcqClosed | AcqTaken | AcqQueued

definition dq_acquire :: "string \<Rightarrow> nat \<Rightarrow> dq \<Rightarrow> acquired \<times> dq" where
  "dq_acquire room task q =
     (if closed q then (AcqClosed, q)
      else if dq_canRun q room then (AcqTaken, dq_take room q)
      else (AcqQueued, q\<lparr>waiters := waiters q @ [(room, task)]\<rparr>))"

text \<open>The scan of \<open>wakeOne\<close>: the first waiter that qualifies, and the queue without it.\<close>

fun pick_waiter :: "(waiter \<Rightarrow> bool) \<Rightarrow> waiter list \<Rightarrow> (waiter \<times> waiter list) option" where
  "pick_waiter ok [] = None"
| "pick_waiter ok (w # ws) =
     (if ok w then Some (w, ws)
      else case pick_waiter ok ws of None \<Rightarrow> None | Some (x, rest) \<Rightarrow> Some (x, w # rest))"

definition wakeOne :: "string \<Rightarrow> bool \<Rightarrow> dq \<Rightarrow> (waiter \<times> dq) option" where
  "wakeOne finished preferOtherRoom q =
     (case pick_waiter (\<lambda>w. \<not> (preferOtherRoom \<and> fst w = finished) \<and> dq_canRun q (fst w)) (waiters q) of
        None \<Rightarrow> None
      | Some (w, rest) \<Rightarrow> Some (w, dq_take (fst w) (q\<lparr>waiters := rest\<rparr>)))"

lemma pick_waiter_Some:
  "pick_waiter ok ws = Some (w, rest) \<Longrightarrow>
     ok w \<and> (\<exists>a b. ws = a @ w # b \<and> rest = a @ b \<and> (\<forall>x \<in> set a. \<not> ok x))"
proof (induction ws arbitrary: rest)
  case Nil
  then show ?case by simp
next
  case (Cons x ws)
  show ?case
  proof (cases "ok x")
    case True
    with Cons.prems have "x = w" and "ws = rest" by auto
    with True show ?thesis by (intro conjI exI [of _ "[]"] exI [of _ rest]) auto
  next
    case False
    with Cons.prems obtain rest' where "pick_waiter ok ws = Some (w, rest')" and "rest = x # rest'"
      by (auto split: option.splits)
    with Cons.IH False show ?thesis
      by (metis append_Cons set_ConsD)
  qed
qed

lemma pick_waiter_None: "pick_waiter ok ws = None \<longleftrightarrow> (\<forall>w \<in> set ws. \<not> ok w)"
  by (induction ws) (auto split: option.splits)

lemma wakeOne_length: "wakeOne r p q = Some (w, q') \<Longrightarrow> length (waiters q') < length (waiters q)"
  by (auto simp: wakeOne_def dq_take_def split: option.splits dest!: pick_waiter_Some)

text \<open>
  The wake loop of \<open>release\<close>: it stops because every turn that does not break removes a
  waiter. It returns the tasks resumed, in order.
\<close>

function wake_loop :: "string \<Rightarrow> dq \<Rightarrow> dq \<times> waiter list" where
  "wake_loop finished q =
     (if globalActive q < globalLimit q then
        (case wakeOne finished True q of
           Some (w, q') \<Rightarrow> (let (q'', ws) = wake_loop finished q' in (q'', w # ws))
         | None \<Rightarrow>
             (case wakeOne finished False q of
                Some (w, q') \<Rightarrow> (let (q'', ws) = wake_loop finished q' in (q'', w # ws))
              | None \<Rightarrow> (q, [])))
      else (q, []))"
  by pat_completeness auto
termination
  by (relation "measure (\<lambda>(r, q). length (waiters q))") (auto dest: wakeOne_length)

declare wake_loop.simps [simp del]

definition dq_release :: "string \<Rightarrow> dq \<Rightarrow> dq \<times> waiter list" where
  "dq_release room q =
     (let q1 = q\<lparr>globalActive := max 0 (globalActive q - 1), roomActive := roomActive q - {room}\<rparr>
      in if closed q1 then (q1, []) else wake_loop room q1)"

text \<open>\<open>drain\<close> polls until the queue is idle or the deadline has passed; the list holds
  the clock and the queue at each poll.\<close>

definition dq_busy :: "dq \<Rightarrow> bool" where
  "dq_busy q \<longleftrightarrow> globalActive q > 0 \<or> length (waiters q) > 0"

fun dq_drain :: "int \<Rightarrow> (int \<times> dq) list \<Rightarrow> bool option" where
  "dq_drain deadline [] = None"
| "dq_drain deadline ((now, q) # polls) =
     (if dq_busy q \<and> now < deadline then dq_drain deadline polls
      else Some (globalActive q = 0 \<and> length (waiters q) = 0))"

subsection \<open>The tasks that call the queue\<close>

text \<open>
  \<open>run(roomId, fn)\<close> as its caller sees it. \<open>EvRun\<close> is the call up to the \<open>await\<close> of
  \<open>acquire\<close>; \<open>EvContinue\<close> is the continuation of a granted \<open>acquire\<close>, which re-checks
  \<open>closed\<close> and starts \<open>fn\<close> or releases in \<open>finally\<close>; \<open>EvFinish\<close> is the end of \<open>fn\<close>,
  by return or throw. The logs record the order of arrivals and grants.
\<close>

datatype task = Waiting string | Granted string | Running string | Finished | Rejected

datatype dq_event = EvRun string nat | EvContinue nat | EvFinish nat | EvClose

record dq_sys =
  queue :: dq
  status :: "nat \<Rightarrow> task option"
  arrived :: "waiter list"
  granted :: "waiter list"

definition sys_new :: "int \<Rightarrow> dq_sys" where
  "sys_new limit = \<lparr>queue = dq_new limit, status = (\<lambda>_. None), arrived = [], granted = []\<rparr>"

definition grant_all :: "waiter list \<Rightarrow> (nat \<Rightarrow> task option) \<Rightarrow> nat \<Rightarrow> task option" where
  "grant_all ws f = foldl (\<lambda>g (room, t). g(t := Some (Granted room))) f ws"

definition reject_all :: "nat list \<Rightarrow> (nat \<Rightarrow> task option) \<Rightarrow> nat \<Rightarrow> task option" where
  "reject_all ts f = (\<lambda>t. if t \<in> set ts then Some Rejected else f t)"

definition sys_release :: "string \<Rightarrow> nat \<Rightarrow> task \<Rightarrow> dq_sys \<Rightarrow> dq_sys" where
  "sys_release room t final s =
     (let (q, ws) = dq_release room (queue s)
      in s\<lparr>queue := q, status := grant_all ws ((status s)(t := Some final)),
           granted := granted s @ ws\<rparr>)"

fun sys_step :: "dq_event \<Rightarrow> dq_sys \<Rightarrow> dq_sys option" where
  "sys_step (EvRun room t) s =
     (if status s t \<noteq> None then None
      else if closed (queue s) then Some (s\<lparr>status := (status s)(t := Some Rejected)\<rparr>)
      else case dq_acquire room t (queue s) of
        (AcqClosed, q) \<Rightarrow> Some (s\<lparr>queue := q, status := (status s)(t := Some Rejected)\<rparr>)
      | (AcqTaken, q) \<Rightarrow>
          Some (s\<lparr>queue := q, status := (status s)(t := Some (Granted room)),
                  arrived := arrived s @ [(room, t)], granted := granted s @ [(room, t)]\<rparr>)
      | (AcqQueued, q) \<Rightarrow>
          Some (s\<lparr>queue := q, status := (status s)(t := Some (Waiting room)),
                  arrived := arrived s @ [(room, t)]\<rparr>))"
| "sys_step (EvContinue t) s =
     (case status s t of
        Some (Granted room) \<Rightarrow>
          Some (if closed (queue s) then sys_release room t Rejected s
                else s\<lparr>status := (status s)(t := Some (Running room))\<rparr>)
      | _ \<Rightarrow> None)"
| "sys_step (EvFinish t) s =
     (case status s t of
        Some (Running room) \<Rightarrow> Some (sys_release room t Finished s)
      | _ \<Rightarrow> None)"
| "sys_step EvClose s =
     (let (q, ts) = dq_close (queue s)
      in Some (s\<lparr>queue := q, status := reject_all ts (status s)\<rparr>))"

inductive dq_reachable :: "int \<Rightarrow> dq_sys \<Rightarrow> bool" for limit where
  start: "dq_reachable limit (sys_new limit)"
| step: "dq_reachable limit s \<Longrightarrow> sys_step e s = Some s' \<Longrightarrow> dq_reachable limit s'"

subsection \<open>The queue's invariant\<close>

definition dq_inv :: "dq \<Rightarrow> bool" where
  "dq_inv q \<longleftrightarrow> finite (roomActive q) \<and> globalActive q = int (card (roomActive q)) \<and>
     globalActive q \<le> globalLimit q \<and> 1 \<le> globalLimit q"

definition settled :: "dq \<Rightarrow> bool" where
  "settled q \<longleftrightarrow> (\<forall>w \<in> set (waiters q). \<not> dq_canRun q (fst w))"

abbreviation of_room :: "string \<Rightarrow> waiter list \<Rightarrow> waiter list" where
  "of_room r ws \<equiv> filter (\<lambda>w. fst w = r) ws"

text \<open>\<open>woken q ws q'\<close>: granting the waiters \<open>ws\<close>, in order, leads from \<open>q\<close> to \<open>q'\<close>.\<close>

definition woken :: "dq \<Rightarrow> waiter list \<Rightarrow> dq \<Rightarrow> bool" where
  "woken q ws q' \<longleftrightarrow>
     globalLimit q' = globalLimit q \<and> closed q' = closed q \<and>
     roomActive q' = roomActive q \<union> fst ` set ws \<and>
     distinct (map fst ws) \<and> fst ` set ws \<inter> roomActive q = {} \<and>
     mset (waiters q) = mset ws + mset (waiters q') \<and>
     (\<forall>r. of_room r (waiters q) = of_room r ws @ of_room r (waiters q'))"

lemma dq_inv_take: "dq_inv q \<Longrightarrow> dq_canRun q r \<Longrightarrow> dq_inv (dq_take r q)"
  by (auto simp: dq_inv_def dq_canRun_def dq_take_def)

lemma dq_inv_waiters [simp]: "dq_inv (q\<lparr>waiters := ws\<rparr>) = dq_inv q"
  by (simp add: dq_inv_def)

lemma dq_canRun_waiters [simp]: "dq_canRun (q\<lparr>waiters := ws\<rparr>) r = dq_canRun q r"
  by (simp add: dq_canRun_def)

lemma dq_take_simps [simp]:
  "waiters (dq_take r q) = waiters q" "closed (dq_take r q) = closed q"
  "globalLimit (dq_take r q) = globalLimit q" "roomActive (dq_take r q) = insert r (roomActive q)"
  by (simp_all add: dq_take_def)

lemma woken_refl [simp]: "woken q [] q"
  by (simp add: woken_def)

lemma wakeOne_Some:
  assumes "wakeOne finished p q = Some (w, q')"
  obtains a b where "waiters q = a @ w # b" and "q' = dq_take (fst w) (q\<lparr>waiters := a @ b\<rparr>)"
    and "dq_canRun q (fst w)" and "p \<Longrightarrow> fst w \<noteq> finished" and "fst w \<notin> fst ` set a"
  using assms by (fastforce simp: wakeOne_def split: option.splits dest!: pick_waiter_Some)

lemma woken_Cons:
  assumes "wakeOne finished p q = Some (w, q1)" and "woken q1 ws q2"
  shows "woken q (w # ws) q2"
proof -
  obtain a b where ab: "waiters q = a @ w # b" "q1 = dq_take (fst w) (q\<lparr>waiters := a @ b\<rparr>)"
    "dq_canRun q (fst w)" "fst w \<notin> fst ` set a"
    using wakeOne_Some [OF assms(1)] by metis
  have fifo: "of_room (fst w) a = []"
    using ab(4) by (simp add: filter_empty_conv) (metis image_eqI)
  have "of_room r (waiters q) = of_room r (w # ws) @ of_room r (waiters q2)" for r
  proof (cases "fst w = r")
    case True
    with assms(2) have "of_room r (a @ b) = of_room r ws @ of_room r (waiters q2)"
      by (simp add: woken_def ab(2))
    with True fifo show ?thesis by (simp add: ab(1))
  next
    case False
    with assms(2) show ?thesis by (simp add: woken_def ab(1,2))
  qed
  then show ?thesis
    using assms(2) ab(3) by (auto simp: woken_def ab(1,2) dq_canRun_def)
qed

lemma wakeOne_inv: "wakeOne finished p q = Some (w, q') \<Longrightarrow> dq_inv q \<Longrightarrow> dq_inv q'"
  by (erule wakeOne_Some) (simp add: dq_inv_take)

lemma wakeOne_None:
  "wakeOne finished False q = None \<Longrightarrow> settled q"
  by (auto simp: wakeOne_def settled_def pick_waiter_None split: option.splits)

lemma wake_loop_woken:
  assumes "wake_loop finished q = (q', ws)" and "dq_inv q"
  shows "woken q ws q' \<and> dq_inv q' \<and> settled q'"
  using assms
proof (induction finished q arbitrary: q' ws rule: wake_loop.induct)
  case (1 finished q)
  show ?case
  proof (cases "globalActive q < globalLimit q")
    case False
    with "1.prems" have "q' = q" "ws = []"
      by (simp_all add: wake_loop.simps [of finished q])
    with False "1.prems"(2) show ?thesis
      by (simp add: settled_def dq_canRun_def)
  next
    case True
    show ?thesis
    proof (cases "wakeOne finished True q")
      case (Some wq)
      obtain w q1 where wq: "wq = (w, q1)" by fastforce
      obtain ws1 where rec: "wake_loop finished q1 = (q', ws1)" "ws = w # ws1"
        using True Some wq "1.prems"(1) by (auto simp: wake_loop.simps [of finished q] split: prod.splits)
      have "woken q1 ws1 q' \<and> dq_inv q' \<and> settled q'"
        using "1.IH"(2) [OF True Some wq [symmetric] rec(1)] wakeOne_inv Some wq "1.prems"(2) by blast
      with Some wq rec(2) show ?thesis by (blast intro: woken_Cons)
    next
      case None
      show ?thesis
      proof (cases "wakeOne finished False q")
        case (Some wq)
        obtain w q1 where wq: "wq = (w, q1)" by fastforce
        obtain ws1 where rec: "wake_loop finished q1 = (q', ws1)" "ws = w # ws1"
          using True None Some wq "1.prems"(1)
          by (auto simp: wake_loop.simps [of finished q] split: prod.splits)
        have "woken q1 ws1 q' \<and> dq_inv q' \<and> settled q'"
          using "1.IH"(1) [OF True None Some wq [symmetric] rec(1)] wakeOne_inv Some wq "1.prems"(2) by blast
        with Some wq rec(2) show ?thesis by (blast intro: woken_Cons)
      next
        case none: None
        with True None "1.prems" have "q' = q" "ws = []"
          by (simp_all add: wake_loop.simps [of finished q])
        with none "1.prems"(2) show ?thesis by (simp add: wakeOne_None)
      qed
    qed
  qed
qed

lemma dq_release_woken:
  assumes "dq_release room q = (q', ws)" and "dq_inv q" and "room \<in> roomActive q" and "\<not> closed q"
  shows "woken (q\<lparr>globalActive := globalActive q - 1, roomActive := roomActive q - {room}\<rparr>) ws q' \<and>
    dq_inv q' \<and> settled q'"
proof -
  let ?q1 = "q\<lparr>globalActive := globalActive q - 1, roomActive := roomActive q - {room}\<rparr>"
  have "0 < card (roomActive q)"
    using assms(2,3) by (auto simp: dq_inv_def card_gt_0_iff)
  then have "dq_inv ?q1" and "max 0 (globalActive q - 1) = globalActive q - 1"
    using assms(2,3) by (auto simp: dq_inv_def)
  with assms(1,4) show ?thesis
    by (intro wake_loop_woken) (simp_all add: dq_release_def)
qed

lemma dq_release_closed:
  assumes "dq_release room q = (q', ws)" and "dq_inv q" and "room \<in> roomActive q" and "closed q"
  shows "ws = [] \<and> dq_inv q' \<and> closed q' \<and> roomActive q' = roomActive q - {room} \<and>
    waiters q' = waiters q \<and> globalLimit q' = globalLimit q"
proof -
  have "0 < card (roomActive q)"
    using assms(2,3) by (auto simp: dq_inv_def card_gt_0_iff)
  with assms show ?thesis
    by (auto simp: dq_release_def dq_inv_def Let_def)
qed

lemma woken_waiters:
  assumes "woken q ws q'" and "distinct (map snd (waiters q))"
  shows "distinct (map snd ws)" and "distinct (map snd (waiters q'))"
    and "set (waiters q) = set ws \<union> set (waiters q')"
    and "snd ` set ws \<inter> snd ` set (waiters q') = {}"
proof -
  have m: "mset (waiters q) = mset (ws @ waiters q')"
    using assms(1) by (simp add: woken_def)
  have "mset (map snd (ws @ waiters q')) = mset (map snd (waiters q))"
    by (simp only: mset_map m)
  with assms(2) have "distinct (map snd (ws @ waiters q'))"
    by (metis mset_eq_imp_distinct_iff)
  then show "distinct (map snd ws)" and "distinct (map snd (waiters q'))"
    and "snd ` set ws \<inter> snd ` set (waiters q') = {}" by auto
  show "set (waiters q) = set ws \<union> set (waiters q')"
    using mset_eq_setD [OF m] by simp
qed

lemma release_facts:
  assumes "dq_release room q = (q', ws)" and "dq_inv q" and "room \<in> roomActive q"
    and "distinct (map snd (waiters q))" and "closed q \<Longrightarrow> waiters q = []"
  shows "dq_inv q' \<and> globalLimit q' = globalLimit q \<and> closed q' = closed q \<and> settled q' \<and>
    roomActive q' = roomActive q - {room} \<union> fst ` set ws \<and>
    fst ` set ws \<inter> (roomActive q - {room}) = {} \<and> distinct (map fst ws) \<and>
    distinct (map snd ws) \<and> distinct (map snd (waiters q')) \<and>
    set (waiters q) = set ws \<union> set (waiters q') \<and> snd ` set ws \<inter> snd ` set (waiters q') = {} \<and>
    (\<forall>r. of_room r (waiters q) = of_room r ws @ of_room r (waiters q'))"
proof (cases "closed q")
  case True
  then show ?thesis
    using dq_release_closed [OF assms(1-3) True] assms(5) by (simp add: settled_def)
next
  case False
  let ?q1 = "q\<lparr>globalActive := globalActive q - 1, roomActive := roomActive q - {room}\<rparr>"
  have w: "woken ?q1 ws q'" and "dq_inv q'" and "settled q'"
    using dq_release_woken [OF assms(1-3) False] by auto
  moreover have "distinct (map snd (waiters ?q1))" using assms(4) by simp
  note woken_waiters [OF w this]
  ultimately show ?thesis
    unfolding woken_def by (simp add: Un_commute)
qed

subsection \<open>The system's invariant\<close>

definition holds :: "dq_sys \<Rightarrow> nat \<Rightarrow> string \<Rightarrow> bool" where
  "holds s t room \<longleftrightarrow> status s t \<in> {Some (Granted room), Some (Running room)}"

definition sys_inv :: "int \<Rightarrow> dq_sys \<Rightarrow> bool" where
  "sys_inv limit s \<longleftrightarrow>
     dq_inv (queue s) \<and> globalLimit (queue s) = max 1 limit \<and>
     roomActive (queue s) = {room. \<exists>t. holds s t room} \<and>
     (\<forall>t t' room. holds s t room \<longrightarrow> holds s t' room \<longrightarrow> t = t') \<and>
     distinct (map snd (waiters (queue s))) \<and>
     (\<forall>room t. status s t = Some (Waiting room) \<longleftrightarrow> (room, t) \<in> set (waiters (queue s))) \<and>
     (closed (queue s) \<longrightarrow> waiters (queue s) = []) \<and>
     settled (queue s) \<and>
     (\<forall>r. \<exists>rest. of_room r (arrived s) = of_room r (granted s) @ rest \<and>
        (\<not> closed (queue s) \<longrightarrow> rest = of_room r (waiters (queue s))))"

lemma grant_all_other: "t \<notin> snd ` set ws \<Longrightarrow> grant_all ws f t = f t"
  unfolding grant_all_def by (induction ws arbitrary: f) auto

lemma grant_all_mem:
  "distinct (map snd ws) \<Longrightarrow> (room, t) \<in> set ws \<Longrightarrow> grant_all ws f t = Some (Granted room)"
proof (induction ws arbitrary: f)
  case Nil
  then show ?case by simp
next
  case (Cons w ws)
  have step: "grant_all (w # ws) f = grant_all ws (f(snd w \<mapsto> Granted (fst w)))"
    by (simp add: grant_all_def split: prod.splits)
  show ?case
  proof (cases "(room, t) \<in> set ws")
    case True
    with Cons show ?thesis by (simp add: step)
  next
    case False
    with Cons.prems have "w = (room, t)" by auto
    then show ?thesis
      unfolding step using Cons.prems(1) by (simp add: grant_all_other)
  qed
qed

lemma sys_inv_new: "sys_inv limit (sys_new limit)"
  by (auto simp: sys_inv_def sys_new_def dq_new_def dq_inv_def holds_def settled_def)

lemma holds_unique_room: "holds s t r \<Longrightarrow> holds s t r' \<Longrightarrow> r = r'"
  by (auto simp: holds_def)

lemma holds_not_waiting: "holds s t r \<Longrightarrow> status s t \<noteq> Some (Waiting r')"
  by (auto simp: holds_def)

text \<open>
  A release seen from the tasks: the room's holder is gone, the woken waiters hold their
  rooms, the others are as before.
\<close>

lemma release_status:
  assumes inv: "sys_inv limit s" and t: "holds s t room" and final: "final \<in> {Finished, Rejected}"
    and q': "set (waiters (queue s)) = set ws \<union> set (waiters q')" "distinct (map snd ws)"
      "snd ` set ws \<inter> snd ` set (waiters q') = {}"
    and s': "status s' = grant_all ws ((status s)(t := Some final))"
  shows "holds s' t' r \<longleftrightarrow> (r, t') \<in> set ws \<or> holds s t' r \<and> t' \<noteq> t"
    and "status s' t' = Some (Waiting r) \<longleftrightarrow> (r, t') \<in> set (waiters q')"
proof -
  have wait: "status s t'' = Some (Waiting r'') \<longleftrightarrow> (r'', t'') \<in> set (waiters (queue s))" for r'' t''
    using inv by (simp add: sys_inv_def)
  have t_waits: "(r'', t) \<notin> set (waiters (queue s))" for r''
    using wait [of t r''] holds_not_waiting [OF t] by simp
  have "(holds s' t' r \<longleftrightarrow> (r, t') \<in> set ws \<or> holds s t' r \<and> t' \<noteq> t) \<and>
    (status s' t' = Some (Waiting r) \<longleftrightarrow> (r, t') \<in> set (waiters q'))"
  proof (cases "t' \<in> snd ` set ws")
    case True
    then obtain r'' where r'': "(r'', t') \<in> set ws" by force
    then have st': "status s' t' = Some (Granted r'')" by (simp add: s' grant_all_mem q'(2))
    have "(r, t') \<in> set ws \<longleftrightarrow> r = r''"
      using r'' grant_all_mem [OF q'(2), of r t' "\<lambda>_. None"]
        grant_all_mem [OF q'(2), of r'' t' "\<lambda>_. None"] by auto
    moreover have "\<not> holds s t' r"
      using wait [of t' r''] r'' q'(1) by (auto simp: holds_def)
    moreover have "(r, t') \<notin> set (waiters q')" using True q'(3) by force
    ultimately show ?thesis using st' by (auto simp: holds_def)
  next
    case False
    then have not_ws: "(r, t') \<notin> set ws" by force
    show ?thesis
    proof (cases "t' = t")
      case True
      with False final have "status s' t' \<in> {Some Finished, Some Rejected}"
        by (auto simp: s' grant_all_other)
      with True not_ws t_waits q'(1) show ?thesis by (auto simp: holds_def)
    next
      case neq: False
      with False have "status s' t' = status s t'"
        by (simp add: s' grant_all_other)
      with neq not_ws wait [of t' r] q'(1) show ?thesis by (simp add: holds_def)
    qed
  qed
  then show "holds s' t' r \<longleftrightarrow> (r, t') \<in> set ws \<or> holds s t' r \<and> t' \<noteq> t"
    and "status s' t' = Some (Waiting r) \<longleftrightarrow> (r, t') \<in> set (waiters q')" by blast+
qed

lemma exclusive_update:
  assumes R: "R = {r. \<exists>t. H t r}" and U: "\<forall>t t' r. H t r \<longrightarrow> H t' r \<longrightarrow> t = t'"
    and F: "\<forall>r. H t r \<longrightarrow> r = room" and t: "H t room"
    and W: "fst ` W \<inter> (R - {room}) = {}" "inj_on fst W"
    and H': "\<And>t' r. H' t' r \<longleftrightarrow> (r, t') \<in> W \<or> H t' r \<and> t' \<noteq> t"
  shows "R - {room} \<union> fst ` W = {r. \<exists>t. H' t r}"
    and "\<forall>t t' r. H' t r \<longrightarrow> H' t' r \<longrightarrow> t = t'"
proof -
  have other: "r \<in> R - {room}" if "H t' r" "t' \<noteq> t" for r t'
    using that U t by (auto simp: R)
  show "R - {room} \<union> fst ` W = {r. \<exists>t. H' t r}"
  proof (intro set_eqI iffI)
    fix r
    assume "r \<in> R - {room} \<union> fst ` W"
    then consider t' where "H t' r" "r \<noteq> room" | t' where "(r, t') \<in> W"
      by (auto simp: R)
    then show "r \<in> {r. \<exists>t. H' t r}"
      by cases (use F H' in blast)+
  next
    fix r
    assume "r \<in> {r. \<exists>t. H' t r}"
    then obtain t' where "(r, t') \<in> W \<or> H t' r \<and> t' \<noteq> t" using H' by blast
    then show "r \<in> R - {room} \<union> fst ` W" using other by force
  qed
  have disj: "(r, t'') \<notin> W" if "H t' r" "t' \<noteq> t" for r t' t''
    using other [OF that] W(1) by force
  show "\<forall>t t' r. H' t r \<longrightarrow> H' t' r \<longrightarrow> t = t'"
  proof (intro allI impI)
    fix t1 t2 r
    assume "H' t1 r" "H' t2 r"
    then consider "(r, t1) \<in> W" "(r, t2) \<in> W" | "H t1 r" "H t2 r"
      using disj by (auto simp: H')
    then show "t1 = t2"
      by cases (use inj_onD [OF W(2), of "(r, t1)" "(r, t2)"] U in auto)
  qed
qed

lemma sys_inv_release:
  assumes inv: "sys_inv limit s" and t: "holds s t room" and final: "final \<in> {Finished, Rejected}"
  shows "sys_inv limit (sys_release room t final s)"
proof -
  obtain q' ws where rel: "dq_release room (queue s) = (q', ws)" by fastforce
  let ?s' = "sys_release room t final s"
  have s': "queue ?s' = q'" "status ?s' = grant_all ws ((status s)(t := Some final))"
    "granted ?s' = granted s @ ws" "arrived ?s' = arrived s"
    by (simp_all add: sys_release_def rel)
  have room: "room \<in> roomActive (queue s)" and dqi: "dq_inv (queue s)"
    and dist: "distinct (map snd (waiters (queue s)))"
    and limit: "globalLimit (queue s) = max 1 limit"
    and act: "roomActive (queue s) = {r. \<exists>t. holds s t r}"
    and uniq: "\<forall>t t' r. holds s t r \<longrightarrow> holds s t' r \<longrightarrow> t = t'"
    and closed_empty: "closed (queue s) \<Longrightarrow> waiters (queue s) = []"
    using inv t by (auto simp: sys_inv_def)
  have order: "\<exists>rest. of_room r (arrived s) = of_room r (granted s) @ rest \<and>
      (\<not> closed (queue s) \<longrightarrow> rest = of_room r (waiters (queue s)))" for r
    using inv by (auto simp: sys_inv_def)
  have q': "dq_inv q'" "globalLimit q' = globalLimit (queue s)" "closed q' = closed (queue s)"
    "settled q'" "roomActive q' = roomActive (queue s) - {room} \<union> fst ` set ws"
    "fst ` set ws \<inter> (roomActive (queue s) - {room}) = {}" "inj_on fst (set ws)"
    "distinct (map snd ws)" "distinct (map snd (waiters q'))"
    "set (waiters (queue s)) = set ws \<union> set (waiters q')"
    "snd ` set ws \<inter> snd ` set (waiters q') = {}"
    "of_room r (waiters (queue s)) = of_room r ws @ of_room r (waiters q')" for r
    using release_facts [OF rel dqi room dist] closed_empty by (auto simp: distinct_map)
  have st: "holds ?s' t' r \<longleftrightarrow> (r, t') \<in> set ws \<or> holds s t' r \<and> t' \<noteq> t"
    "status ?s' t' = Some (Waiting r) \<longleftrightarrow> (r, t') \<in> set (waiters q')" for t' r
    using release_status [OF inv t final q'(10,8,11) s'(2)] by auto
  have one_room: "\<forall>r. holds s t r \<longrightarrow> r = room"
    using holds_unique_room [OF _ t] by blast
  note ex = exclusive_update [OF act uniq one_room t q'(6,7) st(1)]
  have "\<exists>rest. of_room r (arrived s) = of_room r (granted s @ ws) @ rest \<and>
      (\<not> closed q' \<longrightarrow> rest = of_room r (waiters q'))" for r
    using order [of r] q'(3) q'(12) [of r] closed_empty by (cases "closed (queue s)") auto
  moreover have closed_empty': "closed q' \<longrightarrow> waiters q' = []"
    using closed_empty q'(3,10) by auto
  ultimately show ?thesis
    using q' limit ex st(2) closed_empty' by (simp add: sys_inv_def s' del: s'(2))
qed

lemma sys_inv_taken:
  assumes inv: "sys_inv limit s" and t: "status s t = None" and op: "\<not> closed (queue s)"
    and can: "dq_canRun (queue s) room"
  shows "sys_inv limit (s\<lparr>queue := dq_take room (queue s), status := (status s)(t := Some (Granted room)),
    arrived := arrived s @ [(room, t)], granted := granted s @ [(room, t)]\<rparr>)" (is "sys_inv limit ?s'")
proof -
  have holds': "holds ?s' t' r \<longleftrightarrow> holds s t' r \<or> t' = t \<and> r = room" for t' r
    using t by (auto simp: holds_def)
  have act: "roomActive (queue s) = {r. \<exists>t. holds s t r}" and dqi: "dq_inv (queue s)"
    and settled: "settled (queue s)"
    and uniq: "\<forall>t t' r. holds s t r \<longrightarrow> holds s t' r \<longrightarrow> t = t'"
    and wait: "\<And>r t. status s t = Some (Waiting r) \<longleftrightarrow> (r, t) \<in> set (waiters (queue s))"
    and order: "\<And>r. of_room r (arrived s) = of_room r (granted s) @ of_room r (waiters (queue s))"
    using inv op unfolding sys_inv_def by blast+
  have room: "room \<notin> roomActive (queue s)" using can by (simp add: dq_canRun_def)
  have none: "of_room room (waiters (queue s)) = []"
    using settled can by (auto simp: settled_def filter_empty_conv)
  have "insert room (roomActive (queue s)) = {r. \<exists>t. holds ?s' t r}"
    and "\<forall>t t' r. holds ?s' t r \<longrightarrow> holds ?s' t' r \<longrightarrow> t = t'"
    using act uniq room unfolding holds' by blast+
  moreover have "settled (dq_take room (queue s))"
    using settled by (auto simp: settled_def dq_canRun_def dq_take_def)
  moreover have "status ?s' t' = Some (Waiting r) \<longleftrightarrow> (r, t') \<in> set (waiters (queue s))" for t' r
    using wait [of t' r] wait [of t] t by auto
  moreover have "of_room r (arrived s @ [(room, t)]) =
      of_room r (granted s @ [(room, t)]) @ of_room r (waiters (queue s))" for r
    using order [of r] none by (cases "room = r") auto
  ultimately show ?thesis
    using inv op dq_inv_take [OF dqi can] by (simp add: sys_inv_def)
qed

lemma sys_inv_queued:
  assumes inv: "sys_inv limit s" and t: "status s t = None" and op: "\<not> closed (queue s)"
    and cannot: "\<not> dq_canRun (queue s) room"
  shows "sys_inv limit (s\<lparr>queue := (queue s)\<lparr>waiters := waiters (queue s) @ [(room, t)]\<rparr>,
    status := (status s)(t := Some (Waiting room)), arrived := arrived s @ [(room, t)]\<rparr>)"
    (is "sys_inv limit ?s'")
proof -
  have holds': "holds ?s' t' r \<longleftrightarrow> holds s t' r" for t' r
    using t by (auto simp: holds_def)
  have wait: "\<And>r t. status s t = Some (Waiting r) \<longleftrightarrow> (r, t) \<in> set (waiters (queue s))"
    and settled: "settled (queue s)"
    and order: "\<And>r. of_room r (arrived s) = of_room r (granted s) @ of_room r (waiters (queue s))"
    using inv op unfolding sys_inv_def by blast+
  have "status ?s' t' = Some (Waiting r) \<longleftrightarrow> (r, t') \<in> set (waiters (queue s) @ [(room, t)])" for t' r
    using wait [of t' r] t by auto
  moreover have "t \<notin> snd ` set (waiters (queue s))"
    using wait [of t] t by auto
  moreover have "settled (queue ?s')"
    using settled cannot by (auto simp: settled_def)
  ultimately show ?thesis
    using inv op order by (simp add: sys_inv_def holds')
qed

lemma sys_inv_reject:
  assumes inv: "sys_inv limit s" and t: "status s t = None"
  shows "sys_inv limit (s\<lparr>status := (status s)(t := Some Rejected)\<rparr>)" (is "sys_inv limit ?s'")
proof -
  have holds': "holds ?s' t' r \<longleftrightarrow> holds s t' r" for t' r
    using t by (auto simp: holds_def)
  have "status ?s' t' = Some (Waiting r) \<longleftrightarrow> status s t' = Some (Waiting r)" for t' r
    using t by auto
  with inv show ?thesis unfolding sys_inv_def holds' by simp
qed

lemma sys_inv_started:
  assumes inv: "sys_inv limit s" and t: "status s t = Some (Granted room)"
  shows "sys_inv limit (s\<lparr>status := (status s)(t := Some (Running room))\<rparr>)" (is "sys_inv limit ?s'")
proof -
  have holds': "holds ?s' t' r \<longleftrightarrow> holds s t' r" for t' r
    using t by (auto simp: holds_def)
  have "status ?s' t' = Some (Waiting r) \<longleftrightarrow> status s t' = Some (Waiting r)" for t' r
    using t by auto
  with inv show ?thesis unfolding sys_inv_def holds' by simp
qed

lemma sys_inv_close:
  assumes inv: "sys_inv limit s"
  shows "sys_inv limit (s\<lparr>queue := fst (dq_close (queue s)),
    status := reject_all (snd (dq_close (queue s))) (status s)\<rparr>)" (is "sys_inv limit ?s'")
proof (cases "closed (queue s)")
  case True
  then have "?s' = s" by (simp add: dq_close_def reject_all_def)
  with inv show ?thesis by simp
next
  case False
  have wait: "status s t = Some (Waiting r) \<longleftrightarrow> (r, t) \<in> set (waiters (queue s))" for r t
    using inv by (simp add: sys_inv_def)
  have "holds ?s' t r \<longleftrightarrow> holds s t r" and "status ?s' t \<noteq> Some (Waiting r)" for t r
    using False wait [of t] by (auto simp: holds_def reject_all_def dq_close_def image_iff)
  moreover have "dq_inv (queue s)"
    using inv by (simp add: sys_inv_def)
  then have "dq_inv (queue ?s')"
    by (simp add: dq_close_def dq_inv_def)
  ultimately show ?thesis
    using inv False by (simp add: sys_inv_def dq_close_def settled_def)
qed

lemma sys_step_inv: "sys_step e s = Some s' \<Longrightarrow> sys_inv limit s \<Longrightarrow> sys_inv limit s'"
proof (cases e)
  case (EvRun room t)
  assume "sys_step e s = Some s'" and "sys_inv limit s"
  with EvRun show ?thesis
    by (auto simp: dq_acquire_def split: if_splits
        intro: sys_inv_taken sys_inv_queued sys_inv_reject)
next
  case (EvContinue t)
  assume "sys_step e s = Some s'" and "sys_inv limit s"
  with EvContinue show ?thesis
    by (auto split: option.splits task.splits if_splits
        intro!: sys_inv_release sys_inv_started simp: holds_def)
next
  case (EvFinish t)
  assume "sys_step e s = Some s'" and "sys_inv limit s"
  with EvFinish show ?thesis
    by (auto split: option.splits task.splits intro!: sys_inv_release simp: holds_def)
next
  case EvClose
  assume "sys_step e s = Some s'" and "sys_inv limit s"
  with EvClose sys_inv_close [of limit s] show ?thesis
    by (auto split: prod.splits)
qed

lemma reachable_inv: "dq_reachable limit s \<Longrightarrow> sys_inv limit s"
  by (induction rule: dq_reachable.induct) (auto simp: sys_inv_new intro: sys_step_inv)

subsection \<open>What the queue guarantees\<close>

lemma holders_card:
  assumes "sys_inv limit s"
  shows "finite {t. \<exists>r. holds s t r} \<and> int (card {t. \<exists>r. holds s t r}) = globalActive (queue s)"
proof -
  let ?H = "{t. \<exists>r. holds s t r}"
  have act: "roomActive (queue s) = {r. \<exists>t. holds s t r}" and dqi: "dq_inv (queue s)"
    and uniq: "\<forall>t t' r. holds s t r \<longrightarrow> holds s t' r \<longrightarrow> t = t'"
    using assms unfolding sys_inv_def by blast+
  define room where "room t = (THE r. holds s t r)" for t
  have room: "room t = r" if "holds s t r" for t r
    unfolding room_def using that holds_unique_room by blast
  have "bij_betw room ?H (roomActive (queue s))"
    unfolding bij_betw_def inj_on_def act using room uniq by (auto simp: image_iff)
  with dqi show ?thesis
    by (metis bij_betw_finite bij_betw_same_card dq_inv_def)
qed

text \<open>
  C34 (safety). In every reachable state of the dispatch queue, at most one task per room is
  between its grant and its release, and at most \<open>max 1 globalLimit\<close> tasks are in total;
  the counter \<open>globalActive\<close> is exactly their number.
\<close>

theorem dispatch_queue_safety:
  assumes "dq_reachable limit s"
  shows "(holds s t room \<and> holds s t' room \<longrightarrow> t = t') \<and>
    int (card {t. \<exists>r. holds s t r}) = activeCount (queue s) \<and> activeCount (queue s) \<le> max 1 limit"
proof -
  have inv: "sys_inv limit s" by (rule reachable_inv [OF assms])
  then have "holds s t room \<and> holds s t' room \<longrightarrow> t = t'"
    unfolding sys_inv_def by blast
  moreover have "globalActive (queue s) \<le> max 1 limit"
    using inv unfolding sys_inv_def dq_inv_def by linarith
  ultimately show ?thesis
    using holders_card [OF inv] by (simp add: activeCount_def)
qed

definition demo_events :: "dq_event list" where
  "demo_events = [EvRun ''a'' 0, EvRun ''a'' 1, EvRun ''b'' 2, EvContinue 0, EvContinue 2, EvFinish 0]"

fun sys_run :: "dq_event list \<Rightarrow> dq_sys \<Rightarrow> dq_sys option" where
  "sys_run [] s = Some s"
| "sys_run (e # es) s = (case sys_step e s of None \<Rightarrow> None | Some s' \<Rightarrow> sys_run es s')"

lemma sys_run_reachable: "sys_run es s = Some s' \<Longrightarrow> dq_reachable limit s \<Longrightarrow> dq_reachable limit s'"
  by (induction es arbitrary: s) (auto split: option.splits intro: dq_reachable.step)

lemmas demo_simps = demo_events_def sys_new_def dq_new_def dq_acquire_def dq_canRun_def dq_take_def
  sys_release_def dq_release_def Let_def wake_loop.simps wakeOne_def grant_all_def

lemma demo_run:
  "\<exists>s. sys_run demo_events (sys_new 2) = Some s \<and> dq_reachable 2 s \<and>
     status s 0 = Some Finished \<and> status s 1 = Some (Granted ''a'') \<and>
     status s 2 = Some (Running ''b'')"
proof -
  obtain s where s: "sys_run demo_events (sys_new 2) = Some s" and
    "status s 0 = Some Finished" "status s 1 = Some (Granted ''a'')" "status s 2 = Some (Running ''b'')"
    by (simp add: demo_simps)
  with sys_run_reachable [OF s dq_reachable.start] show ?thesis by blast
qed

theorem dispatch_queue_safety_witness:
  "\<exists>s. dq_reachable 2 s \<and> holds s 1 ''a'' \<and> holds s 2 ''b'' \<and>
     int (card {t. \<exists>r. holds s t r}) = activeCount (queue s) \<and> activeCount (queue s) \<le> max 1 2"
proof -
  obtain s where "dq_reachable 2 s" and "status s 1 = Some (Granted ''a'')"
    and "status s 2 = Some (Running ''b'')"
    using demo_run by blast
  then show ?thesis
    using dispatch_queue_safety [of 2 s] by (auto simp: holds_def)
qed

text \<open>
  Per room, tasks are granted in the order their \<open>run\<close> calls arrived: the
  grants of a room are always a prefix of its accepted arrivals.
\<close>

theorem dispatch_queue_fifo:
  assumes "dq_reachable limit s"
  shows "\<exists>rest. of_room r (arrived s) = of_room r (granted s) @ rest"
  using reachable_inv [OF assms] unfolding sys_inv_def by blast

theorem dispatch_queue_fifo_witness:
  "\<exists>s rest. dq_reachable 2 s \<and> status s 1 = Some (Granted ''a'') \<and>
     of_room ''a'' (arrived s) = of_room ''a'' (granted s) @ rest"
  using demo_run dispatch_queue_fifo by blast

text \<open>
  C35 (liveness). No wake-up is lost: in every reachable state of an open queue, a waiting
  task is kept waiting only by the global limit or by a task that holds its room, and an
  idle queue has no waiters.
\<close>

theorem dispatch_queue_no_lost_wakeup:
  assumes "dq_reachable limit s" and "status s t = Some (Waiting room)"
  shows "\<not> closed (queue s) \<and> (activeCount (queue s) = max 1 limit \<or> (\<exists>t'. holds s t' room)) \<and>
    activeCount (queue s) > 0"
proof -
  have inv: "sys_inv limit s" by (rule reachable_inv [OF assms(1)])
  have w: "(room, t) \<in> set (waiters (queue s))"
    using inv assms(2) by (simp add: sys_inv_def)
  then have "\<not> closed (queue s)" and "\<not> dq_canRun (queue s) room"
    using inv by (auto simp: sys_inv_def settled_def)
  moreover have "activeCount (queue s) > 0" if "holds s t' room" for t'
    using inv that by (auto simp: sys_inv_def dq_inv_def activeCount_def card_gt_0_iff)
  ultimately show ?thesis
    using inv by (auto simp: sys_inv_def dq_inv_def dq_canRun_def activeCount_def)
qed

lemma demo_waiting:
  "\<exists>s. dq_reachable 2 s \<and> status s 1 = Some (Waiting ''a'')"
proof -
  obtain s where s: "sys_run [EvRun ''a'' 0, EvRun ''a'' 1] (sys_new 2) = Some s" and
    "status s 1 = Some (Waiting ''a'')"
    by (simp add: demo_simps)
  with sys_run_reachable [OF s dq_reachable.start] show ?thesis by blast
qed

theorem dispatch_queue_no_lost_wakeup_witness:
  "\<exists>s. dq_reachable 2 s \<and> status s 1 = Some (Waiting ''a'') \<and> \<not> closed (queue s) \<and>
     activeCount (queue s) > 0"
  using demo_waiting dispatch_queue_no_lost_wakeup by blast

text \<open>
  A release on an open queue first wakes a waiter of a different room than
  the one that finished, whenever some waiter of another room can run.
\<close>

theorem dispatch_queue_prefers_other_room:
  assumes "dq_inv q" and "room \<in> roomActive q" and "\<not> closed q"
    and "w \<in> set (waiters q)" and "fst w \<noteq> room" and "fst w \<notin> roomActive q"
  shows "\<exists>w' ws. snd (dq_release room q) = w' # ws \<and> fst w' \<noteq> room"
proof -
  let ?q1 = "q\<lparr>globalActive := globalActive q - 1, roomActive := roomActive q - {room}\<rparr>"
  have pos: "0 < card (roomActive q)"
    using assms(1,2) by (auto simp: dq_inv_def card_gt_0_iff)
  then have rel: "dq_release room q = wake_loop room ?q1" and can: "globalActive ?q1 < globalLimit ?q1"
    using assms(1,3) by (simp_all add: dq_release_def dq_inv_def)
  have "wakeOne room True ?q1 \<noteq> None"
    using assms can by (auto simp: wakeOne_def pick_waiter_None dq_canRun_def split: option.splits)
  then obtain w' q2 where w': "wakeOne room True ?q1 = Some (w', q2)" by fastforce
  obtain q3 ws where "wake_loop room q2 = (q3, ws)" by fastforce
  then have "snd (wake_loop room ?q1) = w' # ws"
    using can w' by (simp add: wake_loop.simps [of room ?q1])
  moreover have "fst w' \<noteq> room" by (rule wakeOne_Some [OF w']) simp
  ultimately show ?thesis by (simp add: rel)
qed

definition demo_queue :: dq where
  "demo_queue = \<lparr>globalLimit = 1, globalActive = 1, roomActive = {''a''},
     waiters = [(''a'', 1), (''b'', 2)], closed = False\<rparr>"

theorem dispatch_queue_prefers_other_room_witness:
  "\<exists>w' ws. snd (dq_release ''a'' demo_queue) = w' # ws \<and> fst w' \<noteq> ''a''"
  using dispatch_queue_prefers_other_room [of demo_queue "''a''" "(''b'', 2)"]
  by (simp add: demo_queue_def dq_inv_def)

section \<open>EventDeduper\<close>

record deduper =
  dd_capacity :: int
  dd_order :: "string list"
  dd_set :: "string set"
  dd_head :: nat

definition dd_new :: "int \<Rightarrow> deduper" where
  "dd_new cap = \<lparr>dd_capacity = max 1 cap, dd_order = [], dd_set = {}, dd_head = 0\<rparr>"

definition dd_key :: "string \<Rightarrow> string \<Rightarrow> string" where
  "dd_key roomId eventId = roomId @ [CHR 0x00] @ eventId"

definition dd_seen :: "string \<Rightarrow> string \<Rightarrow> deduper \<Rightarrow> bool \<times> deduper" where
  "dd_seen roomId eventId d =
     (let key = dd_key roomId eventId
      in if key \<in> dd_set d then (True, d)
         else
           let set1 = insert key (dd_set d); order1 = dd_order d @ [key]; head1 = dd_head d
           in if int (length order1) - int head1 > dd_capacity d then
                let set2 = (if head1 < length order1 then set1 - {order1 ! head1} else set1);
                    head2 = head1 + 1
                in if int head2 > dd_capacity d
                   then (False, d\<lparr>dd_order := drop head2 order1, dd_set := set2, dd_head := 0\<rparr>)
                   else (False, d\<lparr>dd_order := order1, dd_set := set2, dd_head := head2\<rparr>)
              else (False, d\<lparr>dd_order := order1, dd_set := set1\<rparr>))"

definition dd_forget :: "string \<Rightarrow> string \<Rightarrow> deduper \<Rightarrow> deduper" where
  "dd_forget roomId eventId d = d\<lparr>dd_set := dd_set d - {dd_key roomId eventId}\<rparr>"

definition dd_size :: "deduper \<Rightarrow> nat" where
  "dd_size d = card (dd_set d)"

text \<open>
  The specification: a window of the last \<open>capacity\<close> distinct keys, oldest first. The
  abstraction reads it off the ring buffer: what follows the head pointer.
\<close>

definition window_seen :: "nat \<Rightarrow> string \<Rightarrow> string list \<Rightarrow> bool \<times> string list" where
  "window_seen cap key w =
     (if key \<in> set w then (True, w)
      else (False, drop (Suc (length w) - cap) (w @ [key])))"

definition dd_window :: "deduper \<Rightarrow> string list" where
  "dd_window d = drop (dd_head d) (dd_order d)"

definition dd_inv :: "deduper \<Rightarrow> bool" where
  "dd_inv d \<longleftrightarrow> 1 \<le> dd_capacity d \<and> dd_set d = set (dd_window d) \<and> distinct (dd_window d) \<and>
     int (length (dd_window d)) \<le> dd_capacity d \<and> int (dd_head d) \<le> dd_capacity d \<and>
     dd_head d \<le> length (dd_order d)"

lemma dd_inv_new: "dd_inv (dd_new cap)"
  by (simp add: dd_inv_def dd_new_def dd_window_def)

lemma dd_seen_refines:
  assumes "dd_inv d"
  shows "dd_inv (snd (dd_seen r e d))"
    and "fst (dd_seen r e d) = fst (window_seen (nat (dd_capacity d)) (dd_key r e) (dd_window d))"
    and "dd_window (snd (dd_seen r e d)) = snd (window_seen (nat (dd_capacity d)) (dd_key r e) (dd_window d))"
    and "dd_capacity (snd (dd_seen r e d)) = dd_capacity d"
proof -
  let ?k = "dd_key r e" and ?c = "dd_capacity d" and ?w = "dd_window d"
  have i: "1 \<le> ?c" "dd_set d = set ?w" "distinct ?w" "int (length ?w) \<le> ?c"
    "int (dd_head d) \<le> ?c" "dd_head d \<le> length (dd_order d)"
    using assms by (simp_all add: dd_inv_def)
  have len: "length (dd_order d) = dd_head d + length ?w"
    using i(6) by (simp add: dd_window_def)
  have "dd_inv (snd (dd_seen r e d)) \<and>
    fst (dd_seen r e d) = fst (window_seen (nat ?c) ?k ?w) \<and>
    dd_window (snd (dd_seen r e d)) = snd (window_seen (nat ?c) ?k ?w)"
  proof (cases "?k \<in> set ?w")
    case True
    with assms i(2) show ?thesis by (simp add: dd_seen_def window_seen_def Let_def)
  next
    case new: False
    show ?thesis
    proof (cases "int (length ?w) = ?c")
      case True
      then obtain x w where w: "?w = x # w" using i(1) by (cases ?w) auto
      define pre where "pre = take (dd_head d) (dd_order d)"
      have split: "dd_order d = pre @ x # w" and pre: "length pre = dd_head d"
        using w i(6) append_take_drop_id [of "dd_head d" "dd_order d"]
        by (simp_all add: dd_window_def pre_def)
      have at: "(dd_order d @ [?k]) ! dd_head d = x" "drop (Suc (dd_head d)) (dd_order d) = w"
        unfolding split pre [symmetric] by simp_all
      have "Suc (length ?w) - nat ?c = 1" using True by simp
      have seen: "dd_seen r e d = (False, d\<lparr>dd_order := if ?c < int (dd_head d) + 1
            then drop (Suc (dd_head d)) (dd_order d @ [?k]) else dd_order d @ [?k],
          dd_set := insert ?k (set w), dd_head := if ?c < int (dd_head d) + 1 then 0 else dd_head d + 1\<rparr>)"
      proof -
        have set2: "insert ?k (dd_set d) - {x} = insert ?k (set w)"
          using new i(2,3) w by auto
        have "dd_head d < length (dd_order d @ [?k])"
          and "?c < int (length (dd_order d @ [?k])) - int (dd_head d)" and "?k \<notin> dd_set d"
          using len True new i(2) by simp_all
        then show ?thesis
          by (simp add: dd_seen_def Let_def at(1) set2 del: length_append)
      qed
      have spec: "window_seen (nat ?c) ?k ?w = (False, w @ [?k])"
        using new w \<open>Suc (length ?w) - nat ?c = 1\<close> by (simp add: window_seen_def)
      show ?thesis
      proof -
        have lw: "length (dd_order d) = dd_head d + Suc (length w)" using len w by simp
        have win: "dd_window (snd (dd_seen r e d)) = w @ [?k]"
          using lw at(2) by (simp add: seen dd_window_def)
        have "?k \<notin> set w" and "distinct w" and "int (Suc (length w)) \<le> ?c"
          using new i(3,4) w by simp_all
        then have "dd_inv (snd (dd_seen r e d))"
          unfolding dd_inv_def win using i(1,5) lw by (simp add: seen)
        then show ?thesis unfolding win spec by (simp add: seen)
      qed
    next
      case False
      with i(4) have lt: "int (length ?w) < ?c" by simp
      have seen: "dd_seen r e d =
          (False, d\<lparr>dd_order := dd_order d @ [?k], dd_set := insert ?k (dd_set d)\<rparr>)"
        using new i(2) lt len by (simp add: dd_seen_def Let_def)
      have win: "dd_window (snd (dd_seen r e d)) = ?w @ [?k]"
        using i(6) by (simp add: seen dd_window_def)
      have spec: "window_seen (nat ?c) ?k ?w = (False, ?w @ [?k])"
        using new lt by (simp add: window_seen_def)
      have "dd_inv (snd (dd_seen r e d))"
        unfolding dd_inv_def win using i new lt by (simp add: seen)
      then show ?thesis unfolding win spec by (simp add: seen)
    qed
  qed
  then show "dd_inv (snd (dd_seen r e d))"
    and "fst (dd_seen r e d) = fst (window_seen (nat ?c) ?k ?w)"
    and "dd_window (snd (dd_seen r e d)) = snd (window_seen (nat ?c) ?k ?w)" by blast+
  show "dd_capacity (snd (dd_seen r e d)) = dd_capacity d"
    by (simp add: dd_seen_def Let_def)
qed

text \<open>A run of \<open>seen\<close> calls, and the run of the specification.\<close>

fun dd_run :: "(string \<times> string) list \<Rightarrow> deduper \<Rightarrow> bool list \<times> deduper" where
  "dd_run [] d = ([], d)"
| "dd_run ((r, e) # xs) d =
     (let (b, d') = dd_seen r e d; (bs, d'') = dd_run xs d' in (b # bs, d''))"

fun window_run :: "nat \<Rightarrow> string list \<Rightarrow> string list \<Rightarrow> bool list \<times> string list" where
  "window_run cap [] w = ([], w)"
| "window_run cap (k # ks) w =
     (let (b, w') = window_seen cap k w; (bs, w'') = window_run cap ks w' in (b # bs, w''))"

lemma dd_run_refines:
  "dd_inv d \<Longrightarrow> dd_capacity d = int cap \<Longrightarrow>
     fst (dd_run xs d) = fst (window_run cap (map (\<lambda>(r, e). dd_key r e) xs) (dd_window d)) \<and>
     dd_inv (snd (dd_run xs d)) \<and> dd_capacity (snd (dd_run xs d)) = int cap"
proof (induction xs arbitrary: d)
  case Nil
  then show ?case by simp
next
  case (Cons x xs)
  obtain r e where x: "x = (r, e)" by fastforce
  note ref = dd_seen_refines [OF Cons.prems(1), of r e]
  from Cons.IH [OF ref(1)] ref Cons.prems(2) x show ?case
    by (simp add: case_prod_beta Let_def)
qed

text \<open>
  With no call of \<open>forget\<close>, the ring buffer with its head pointer answers
  every sequence of \<open>seen\<close> calls as the window of the last \<open>capacity\<close> distinct keys does,
  and never holds more than \<open>2 * capacity\<close> keys.
\<close>

theorem event_deduper_refines_window:
  "fst (dd_run xs (dd_new cap)) =
     fst (window_run (nat (max 1 cap)) (map (\<lambda>(r, e). dd_key r e) xs) []) \<and>
   int (length (dd_order (snd (dd_run xs (dd_new cap))))) \<le> 2 * max 1 cap"
proof -
  have "dd_capacity (dd_new cap) = int (nat (max 1 cap))" and "dd_window (dd_new cap) = []"
    by (simp_all add: dd_new_def dd_window_def)
  with dd_run_refines [OF dd_inv_new this(1), of xs] show ?thesis
    by (auto simp: dd_inv_def dd_window_def max_def split: if_splits)
qed

text \<open>
  The ring buffer keeps a forgotten key's old entry, so a key that is
  forgotten and seen again is evicted with its old entry: with room for two keys, after
  \<open>a\<close>, \<open>forget a\<close>, \<open>a\<close>, \<open>b\<close> the key \<open>a\<close> is no longer reported as seen, although it is one
  of the last two distinct keys.
\<close>

theorem event_deduper_forget_early_eviction:
  "let d1 = snd (dd_seen ''!r'' ''a'' (dd_new 2));
       d2 = snd (dd_seen ''!r'' ''a'' (dd_forget ''!r'' ''a'' d1));
       d3 = snd (dd_seen ''!r'' ''b'' d2)
   in fst (dd_seen ''!r'' ''a'' d3) = False \<and>
      fst (window_run 2 [dd_key ''!r'' ''a'', dd_key ''!r'' ''b'', dd_key ''!r'' ''a''] []) =
        [False, False, True]"
  by (simp add: dd_seen_def dd_new_def dd_forget_def dd_key_def window_seen_def Let_def)

end
