(* ===== verification/Fsm.thy ===== *)
theory Fsm
  imports Js_Util
begin

text \<open>
  \<^verbatim>\<open>src/fsm.ts\<close>: the storage records, \<open>MemoryStorage\<close> and \<open>JsonFileStorage\<close>, the
  per-user \<open>FSMContext\<close> and the state groups. The interface \<open>Storage\<close> is the record
  \<open>storage_ops\<close>; its contract is the locale \<open>fsm_storage\<close>, in which the laws of
  \<open>FSMContext\<close> are proved once, and both storages interpret it.
\<close>

section \<open>Records and keys\<close>

record storage_record =
  sr_state :: "string option"
  sr_data :: "(string, json) jsmap"
  sr_expires :: "int option"

datatype fsm_strategy = Strategy_room | Strategy_user | Strategy_global | Strategy_user_in_room

definition storageKey :: "string \<Rightarrow> string \<Rightarrow> fsm_strategy option \<Rightarrow> string option \<Rightarrow> string" where
  "storageKey roomId userId strategy_opt namespace_opt =
     (let strategy = (case strategy_opt of Some s \<Rightarrow> s | None \<Rightarrow> Strategy_user_in_room);
          scope = (case strategy of
                     Strategy_room \<Rightarrow> roomId
                   | Strategy_user \<Rightarrow> userId
                   | Strategy_global \<Rightarrow> ''global''
                   | Strategy_user_in_room \<Rightarrow> roomId @ '':'' @ userId)
      in case namespace_opt of
           Some ns \<Rightarrow> if ns \<noteq> [] then ns @ ''|'' @ scope else scope
         | None \<Rightarrow> scope)"

definition isExpired :: "int \<Rightarrow> storage_record \<Rightarrow> bool" where
  "isExpired now r = (case sr_expires r of None \<Rightarrow> False | Some e \<Rightarrow> e \<le> now)"

text \<open>Object spread \<open>{ ...a, ...b }\<close>.\<close>

definition js_spread :: "(string, json) jsmap \<Rightarrow> (string, json) jsmap \<Rightarrow> (string, json) jsmap" where
  "js_spread a b = foldl (\<lambda>m (k, v). jm_set k v m) a b"

definition cloneRecord :: "storage_record \<Rightarrow> storage_record" where
  "cloneRecord r = \<lparr>sr_state = sr_state r, sr_data = js_spread [] (sr_data r), sr_expires = sr_expires r\<rparr>"

lemma js_spread_simps [simp]:
  "js_spread a [] = a"
  "js_spread a ((k, v) # b) = js_spread (jm_set k v a) b"
  by (simp_all add: js_spread_def)

lemma js_spread_append:
  "jm_wf b \<Longrightarrow> fst ` set a \<inter> fst ` set b = {} \<Longrightarrow> js_spread a b = a @ b"
proof (induction b arbitrary: a)
  case Nil
  then show ?case by simp
next
  case (Cons p b)
  obtain k v where p: "p = (k, v)" by fastforce
  with Cons.prems have "js_spread (a @ [(k, v)]) b = (a @ [(k, v)]) @ b"
    by (intro Cons.IH) auto
  with Cons.prems p show ?case by (simp add: update_absent)
qed

lemma js_spread_Nil: "jm_wf b \<Longrightarrow> js_spread [] b = b"
  by (simp add: js_spread_append)

lemma jm_wf_spread [simp]: "jm_wf a \<Longrightarrow> jm_wf (js_spread a b)"
  by (induction b arbitrary: a) (auto simp del: js_spread_simps(2) simp: js_spread_def jsmap_wf)

lemma js_spread_get:
  "jm_wf b \<Longrightarrow> jm_get (js_spread a b) k = (case jm_get b k of Some v \<Rightarrow> Some v | None \<Rightarrow> jm_get a k)"
proof (induction b arbitrary: a)
  case Nil
  then show ?case by simp
next
  case (Cons p b)
  obtain k' v where p: "p = (k', v)" by fastforce
  with Cons.prems have "jm_get b k' = None"
    by (simp add: map_of_eq_None_iff)
  with Cons p show ?case
    by (auto simp: jsmap_simps split: option.splits)
qed

definition record_wf :: "storage_record \<Rightarrow> bool" where
  "record_wf r = jm_wf (sr_data r)"

lemma cloneRecord_id [simp]: "record_wf r \<Longrightarrow> cloneRecord r = r"
  by (simp add: cloneRecord_def record_wf_def js_spread_Nil)

lemma cloneRecord_wf [simp]: "record_wf (cloneRecord r)"
  by (simp add: cloneRecord_def record_wf_def)

lemma isExpired_clone [simp]: "isExpired now (cloneRecord r) = isExpired now r"
  by (simp add: cloneRecord_def isExpired_def)

text \<open>What a reader may see of a stored record at time \<open>now\<close>.\<close>

definition live :: "int \<Rightarrow> storage_record option \<Rightarrow> storage_record option" where
  "live now r = (case r of None \<Rightarrow> None | Some x \<Rightarrow> if isExpired now x then None else Some x)"

lemma live_None [simp]: "live now None = None"
  by (simp add: live_def)

lemma expired_later: "isExpired now r \<Longrightarrow> now \<le> now' \<Longrightarrow> isExpired now' r"
  by (auto simp: isExpired_def split: option.splits)

section \<open>The storage interface\<close>

record 's storage_ops =
  st_get :: "int \<Rightarrow> string \<Rightarrow> 's \<Rightarrow> storage_record option \<times> 's"
  st_set :: "string \<Rightarrow> storage_record \<Rightarrow> 's \<Rightarrow> 's"
  st_delete :: "string \<Rightarrow> 's \<Rightarrow> 's"

section \<open>MemoryStorage\<close>

record memory_storage =
  ms_map :: "(string, storage_record) jsmap"
  ms_maxEntries :: int

definition ms_new :: "int \<Rightarrow> memory_storage" where
  "ms_new maxEntries = \<lparr>ms_map = [], ms_maxEntries = maxEntries\<rparr>"

definition ms_get :: "int \<Rightarrow> string \<Rightarrow> memory_storage \<Rightarrow> storage_record option \<times> memory_storage" where
  "ms_get now key s =
     (case jm_get (ms_map s) key of
        None \<Rightarrow> (None, s)
      | Some v \<Rightarrow>
          if isExpired now v then (None, s\<lparr>ms_map := jm_del key (ms_map s)\<rparr>)
          else (Some (cloneRecord v), s))"

definition ms_set :: "string \<Rightarrow> storage_record \<Rightarrow> memory_storage \<Rightarrow> memory_storage" where
  "ms_set key v s =
     (let m1 = (if \<not> jm_has (ms_map s) key \<and> ms_maxEntries s \<le> int (length (ms_map s))
                then (case ms_map s of [] \<Rightarrow> [] | (oldest, _) # _ \<Rightarrow> jm_del oldest (ms_map s))
                else ms_map s)
      in s\<lparr>ms_map := jm_set key (cloneRecord v) m1\<rparr>)"

definition ms_delete :: "string \<Rightarrow> memory_storage \<Rightarrow> memory_storage" where
  "ms_delete key s = s\<lparr>ms_map := jm_del key (ms_map s)\<rparr>"

definition ms_prune :: "int \<Rightarrow> memory_storage \<Rightarrow> nat \<times> memory_storage" where
  "ms_prune now s =
     (length (filter (\<lambda>(k, r). isExpired now r) (ms_map s)),
      s\<lparr>ms_map := jm_filter (\<lambda>k r. \<not> isExpired now r) (ms_map s)\<rparr>)"

definition ms_size :: "memory_storage \<Rightarrow> nat" where
  "ms_size s = length (ms_map s)"

definition memory_ops :: "memory_storage storage_ops" where
  "memory_ops = \<lparr>st_get = ms_get, st_set = ms_set, st_delete = ms_delete\<rparr>"

definition ms_inv :: "memory_storage \<Rightarrow> bool" where
  "ms_inv s \<longleftrightarrow> jm_wf (ms_map s) \<and> (\<forall>(k, r) \<in> set (ms_map s). record_wf r) \<and>
     int (length (ms_map s)) \<le> max 1 (ms_maxEntries s)"

section \<open>JsonFileStorage\<close>

text \<open>\<open>jf_timer\<close> is whether a flush timer is armed.\<close>

record json_storage =
  jf_file :: string
  jf_map :: "(string, storage_record) jsmap"
  jf_dirty :: bool
  jf_timer :: bool

definition jf_path :: "string \<Rightarrow> string option \<Rightarrow> string" where
  "jf_path fileOrDirectory fileName =
     (if js_ends_with fileOrDirectory ''.json'' then fileOrDirectory
      else fileOrDirectory @ ''/'' @ (case fileName of Some f \<Rightarrow> f | None \<Rightarrow> ''fsm.json''))"

text \<open>
  A loaded record; an expiry of plus infinity never comes, and one of minus infinity has
  passed at every time, so that the loader drops the record.
\<close>

definition record_of_json :: "json \<Rightarrow> storage_record option" where
  "record_of_json v =
     (if \<not> isPlainObject v then None
      else if json_prop v ''expiresAtMs'' = Some (JNum NInf) then None
      else Some \<lparr>sr_state = (case json_prop v ''state'' of Some (JStr s) \<Rightarrow> Some s | _ \<Rightarrow> None),
                 sr_data = (case json_prop v ''data'' of Some (JObj ps) \<Rightarrow> ps | _ \<Rightarrow> []),
                 sr_expires = (case json_prop v ''expiresAtMs'' of
                                 Some (JNum (Fin e)) \<Rightarrow> Some e
                               | _ \<Rightarrow> None)\<rparr>)"

definition record_to_json :: "storage_record \<Rightarrow> json" where
  "record_to_json r =
     JObj ([(''state'', case sr_state r of Some s \<Rightarrow> JStr s | None \<Rightarrow> JNull), (''data'', JObj (sr_data r))] @
           (case sr_expires r of Some e \<Rightarrow> [(''expiresAtMs'', JNum (Fin e))] | None \<Rightarrow> []))"

fun jf_load :: "int \<Rightarrow> (string \<times> json) list \<Rightarrow> (string, storage_record) jsmap \<Rightarrow> (string, storage_record) jsmap" where
  "jf_load now [] m = m"
| "jf_load now ((key, v) # rest) m =
     (case record_of_json v of
        None \<Rightarrow> jf_load now rest m
      | Some entry \<Rightarrow> jf_load now rest (if \<not> isExpired now entry then jm_set key entry m else m))"

definition jf_new :: "int \<Rightarrow> string \<Rightarrow> string option \<Rightarrow> file_system \<Rightarrow> json_storage" where
  "jf_new now fileOrDirectory fileName fs =
     (let file = jf_path fileOrDirectory fileName
      in \<lparr>jf_file = file,
          jf_map = (case readJsonSafe fs file of JObj ps \<Rightarrow> jf_load now ps [] | _ \<Rightarrow> []),
          jf_dirty = False, jf_timer = False\<rparr>)"

definition jf_scheduleFlush :: "json_storage \<Rightarrow> json_storage" where
  "jf_scheduleFlush s = s\<lparr>jf_dirty := True, jf_timer := True\<rparr>"

definition jf_get :: "int \<Rightarrow> string \<Rightarrow> json_storage \<Rightarrow> storage_record option \<times> json_storage" where
  "jf_get now key s =
     (case jm_get (jf_map s) key of
        None \<Rightarrow> (None, s)
      | Some v \<Rightarrow>
          if isExpired now v
          then (None, jf_scheduleFlush (s\<lparr>jf_map := jm_del key (jf_map s)\<rparr>))
          else (Some (cloneRecord v), s))"

definition jf_set :: "string \<Rightarrow> storage_record \<Rightarrow> json_storage \<Rightarrow> json_storage" where
  "jf_set key v s = jf_scheduleFlush (s\<lparr>jf_map := jm_set key (cloneRecord v) (jf_map s)\<rparr>)"

definition jf_delete :: "string \<Rightarrow> json_storage \<Rightarrow> json_storage" where
  "jf_delete key s =
     (let s' = s\<lparr>jf_map := jm_del key (jf_map s)\<rparr>
      in if jm_has (jf_map s) key then jf_scheduleFlush s' else s')"

text \<open>\<open>flush\<close> writes the unexpired records; a failed write leaves \<open>dirty\<close> set and throws.\<close>

definition jf_snapshot :: "int \<Rightarrow> json_storage \<Rightarrow> json" where
  "jf_snapshot now s =
     JObj (map (\<lambda>(k, r). (k, record_to_json r)) (jm_filter (\<lambda>k r. \<not> isExpired now r) (jf_map s)))"

definition jf_flush ::
  "int \<Rightarrow> string \<Rightarrow> write_outcome \<Rightarrow> json_storage \<Rightarrow> file_system \<Rightarrow>
     (write_outcome + unit) \<times> json_storage \<times> file_system" where
  "jf_flush now tmp outcome s fs =
     (if \<not> jf_dirty s then (Inr (), s, fs)
      else case writeJsonAtomic (jf_file s) tmp (jf_snapshot now s) outcome fs of
             (Inl e, fs') \<Rightarrow> (Inl e, s, fs')
           | (Inr u, fs') \<Rightarrow> (Inr u, s\<lparr>jf_dirty := False\<rparr>, fs'))"

definition jf_close ::
  "int \<Rightarrow> string \<Rightarrow> write_outcome \<Rightarrow> json_storage \<Rightarrow> file_system \<Rightarrow>
     (write_outcome + unit) \<times> json_storage \<times> file_system" where
  "jf_close now tmp outcome s fs = jf_flush now tmp outcome (s\<lparr>jf_timer := False\<rparr>) fs"

text \<open>The timer's callback swallows the error, so \<open>dirty\<close> stays set after a failed write.\<close>

definition jf_timer_fires ::
  "int \<Rightarrow> string \<Rightarrow> write_outcome \<Rightarrow> json_storage \<Rightarrow> file_system \<Rightarrow> json_storage \<times> file_system" where
  "jf_timer_fires now tmp outcome s fs = snd (jf_flush now tmp outcome (s\<lparr>jf_timer := False\<rparr>) fs)"

definition json_ops :: "json_storage storage_ops" where
  "json_ops = \<lparr>st_get = jf_get, st_set = jf_set, st_delete = jf_delete\<rparr>"

definition jf_inv :: "json_storage \<Rightarrow> bool" where
  "jf_inv s \<longleftrightarrow> jm_wf (jf_map s) \<and> (\<forall>(k, r) \<in> set (jf_map s). record_wf r)"

section \<open>The contract of a storage\<close>

text \<open>
  \<open>lookup\<close> is what a storage holds. Reading answers the live record and may drop expired
  ones; writing stores at its key and can only lose other entries (an evicting storage)
  or touches no other entry at all (\<open>fsm_durable_storage\<close>).
\<close>

locale fsm_storage =
  fixes ops :: "'s storage_ops"
    and lookup :: "'s \<Rightarrow> string \<Rightarrow> storage_record option"
    and inv :: "'s \<Rightarrow> bool"
  assumes get_value: "inv s \<Longrightarrow> fst (st_get ops now k s) = live now (lookup s k)"
    and get_keeps: "inv s \<Longrightarrow> now \<le> now' \<Longrightarrow>
      live now' (lookup (snd (st_get ops now k s)) k') = live now' (lookup s k')"
    and get_inv: "inv s \<Longrightarrow> inv (snd (st_get ops now k s))"
    and set_same: "inv s \<Longrightarrow> lookup (st_set ops k r s) k = Some (cloneRecord r)"
    and set_other: "inv s \<Longrightarrow> k' \<noteq> k \<Longrightarrow> lookup (st_set ops k r s) k' \<in> {lookup s k', None}"
    and set_inv: "inv s \<Longrightarrow> inv (st_set ops k r s)"
    and delete_lookup: "inv s \<Longrightarrow> lookup (st_delete ops k s) = (lookup s)(k := None)"
    and delete_inv: "inv s \<Longrightarrow> inv (st_delete ops k s)"
    and lookup_wf: "inv s \<Longrightarrow> lookup s k = Some r \<Longrightarrow> record_wf r"

locale fsm_durable_storage = fsm_storage +
  assumes set_frame: "inv s \<Longrightarrow> k' \<noteq> k \<Longrightarrow> lookup (st_set ops k r s) k' = lookup s k'"

section \<open>FSMContext\<close>

record fsm_ctx =
  fc_key :: string
  fc_ttl :: "int option"

definition fsm_new ::
  "string \<Rightarrow> string \<Rightarrow> fsm_strategy option \<Rightarrow> string option \<Rightarrow> int option \<Rightarrow> int option \<Rightarrow> fsm_ctx" where
  "fsm_new roomId userId strategy namespace option_ttl ttlMs =
     \<lparr>fc_key = storageKey roomId userId strategy namespace,
      fc_ttl = (case option_ttl of Some t \<Rightarrow> Some t | None \<Rightarrow> ttlMs)\<rparr>"

definition fsm_load :: "'s storage_ops \<Rightarrow> int \<Rightarrow> fsm_ctx \<Rightarrow> 's \<Rightarrow> storage_record \<times> 's" where
  "fsm_load ops now c s =
     (let (r, s') = st_get ops now (fc_key c) s
      in (case r of Some x \<Rightarrow> x | None \<Rightarrow> \<lparr>sr_state = None, sr_data = [], sr_expires = None\<rparr>, s'))"

definition fsm_persist :: "'s storage_ops \<Rightarrow> int \<Rightarrow> fsm_ctx \<Rightarrow> storage_record \<Rightarrow> 's \<Rightarrow> 's" where
  "fsm_persist ops now c r s =
     st_set ops (fc_key c)
       \<lparr>sr_state = sr_state r, sr_data = sr_data r,
        sr_expires = (case fc_ttl c of Some t \<Rightarrow> Some (now + t) | None \<Rightarrow> None)\<rparr> s"

definition fsm_getState :: "'s storage_ops \<Rightarrow> int \<Rightarrow> fsm_ctx \<Rightarrow> 's \<Rightarrow> string option \<times> 's" where
  "fsm_getState ops now c s = (let (r, s') = fsm_load ops now c s in (sr_state r, s'))"

text \<open>
  A state argument is \<open>null\<close>, a string, or a \<open>StateRef\<close> whose \<open>name\<close> is used; the
  caller passes the resolved string. Each writer reads the clock again when it persists:
  \<open>now\<close> is the time of the load, \<open>now'\<close> that of the write.
\<close>

definition fsm_setState :: "'s storage_ops \<Rightarrow> int \<Rightarrow> int \<Rightarrow> fsm_ctx \<Rightarrow> string option \<Rightarrow> 's \<Rightarrow> 's" where
  "fsm_setState ops now now' c st s =
     (let (r, s') = fsm_load ops now c s in fsm_persist ops now' c (r\<lparr>sr_state := st\<rparr>) s')"

definition fsm_clear :: "'s storage_ops \<Rightarrow> fsm_ctx \<Rightarrow> 's \<Rightarrow> 's" where
  "fsm_clear ops c s = st_delete ops (fc_key c) s"

definition fsm_getData :: "'s storage_ops \<Rightarrow> int \<Rightarrow> fsm_ctx \<Rightarrow> 's \<Rightarrow> (string, json) jsmap \<times> 's" where
  "fsm_getData ops now c s =
     (let (r, s') = fsm_load ops now c s in (js_spread [] (sr_data r), s'))"

definition fsm_getField ::
  "'s storage_ops \<Rightarrow> int \<Rightarrow> fsm_ctx \<Rightarrow> string \<Rightarrow> json option \<Rightarrow> 's \<Rightarrow> json option \<times> 's" where
  "fsm_getField ops now c field fallback s =
     (let (r, s') = fsm_load ops now c s
      in (case jm_get (sr_data r) field of
            None \<Rightarrow> fallback
          | Some JNull \<Rightarrow> fallback
          | Some v \<Rightarrow> Some v, s'))"

definition fsm_setData :: "'s storage_ops \<Rightarrow> int \<Rightarrow> int \<Rightarrow> fsm_ctx \<Rightarrow> (string, json) jsmap \<Rightarrow> 's \<Rightarrow> 's" where
  "fsm_setData ops now now' c data s =
     (let (r, s') = fsm_load ops now c s
      in fsm_persist ops now' c (r\<lparr>sr_data := js_spread [] data\<rparr>) s')"

definition fsm_updateData :: "'s storage_ops \<Rightarrow> int \<Rightarrow> int \<Rightarrow> fsm_ctx \<Rightarrow> (string, json) jsmap \<Rightarrow> 's \<Rightarrow> 's" where
  "fsm_updateData ops now now' c patch s =
     (let (r, s') = fsm_load ops now c s
      in fsm_persist ops now' c (r\<lparr>sr_data := js_spread (js_spread [] (sr_data r)) patch\<rparr>) s')"

definition fsm_set ::
  "'s storage_ops \<Rightarrow> int \<Rightarrow> int \<Rightarrow> fsm_ctx \<Rightarrow> string option \<Rightarrow> (string, json) jsmap option \<Rightarrow> 's \<Rightarrow> 's" where
  "fsm_set ops now now' c st data s =
     (let (r, s') = fsm_load ops now c s;
          r1 = r\<lparr>sr_state := st\<rparr>;
          r2 = (case data of
                  Some d \<Rightarrow> r1\<lparr>sr_data := js_spread (js_spread [] (sr_data r1)) d\<rparr>
                | None \<Rightarrow> r1)
      in fsm_persist ops now' c r2 s')"

text \<open>State groups: \<open>createStates\<close> names each state \<open>group:name\<close>.\<close>

definition createStates :: "string \<Rightarrow> string list \<Rightarrow> (string \<times> string) list" where
  "createStates grp names = foldl (\<lambda>out name. jm_set name (grp @ '':'' @ name) out) [] names"

definition stateRef_matches :: "string \<Rightarrow> string option \<Rightarrow> bool" where
  "stateRef_matches full st = (st = Some full)"

definition inStateGroup :: "string \<Rightarrow> string option \<Rightarrow> bool" where
  "inStateGroup grp st =
     (case st of Some x \<Rightarrow> js_starts_with x (grp @ '':'') | None \<Rightarrow> False)"

subsection \<open>Laws of FSMContext over any storage\<close>

definition fresh_at :: "fsm_ctx \<Rightarrow> int \<Rightarrow> int \<Rightarrow> bool" where
  "fresh_at c written now = (case fc_ttl c of None \<Rightarrow> True | Some t \<Rightarrow> now < written + t)"

context fsm_storage
begin

lemma load_value:
  "inv s \<Longrightarrow> fst (fsm_load ops now c s) =
     (case live now (lookup s (fc_key c)) of
        Some r \<Rightarrow> r | None \<Rightarrow> \<lparr>sr_state = None, sr_data = [], sr_expires = None\<rparr>)"
  using get_value [of s now "fc_key c"] by (simp add: fsm_load_def case_prod_beta)

lemma load_state: "snd (fsm_load ops now c s) = snd (st_get ops now (fc_key c) s)"
  by (simp add: fsm_load_def case_prod_beta)

lemma load_inv: "inv s \<Longrightarrow> inv (snd (fsm_load ops now c s))"
  by (simp add: load_state get_inv)

lemma load_wf: "inv s \<Longrightarrow> record_wf (fst (fsm_load ops now c s))"
  using lookup_wf [of s "fc_key c"]
  by (auto simp: load_value live_def record_wf_def split: option.splits)

lemma persist_live:
  assumes "inv s" and "fresh_at c now' now''"
  shows "live now'' (lookup (fsm_persist ops now' c r s) (fc_key c)) =
    Some (cloneRecord (r\<lparr>sr_expires := case fc_ttl c of Some t \<Rightarrow> Some (now' + t) | None \<Rightarrow> None\<rparr>))"
  using assms set_same [OF assms(1)]
  by (auto simp: fsm_persist_def live_def fresh_at_def cloneRecord_def isExpired_def split: option.splits)

lemma persist_inv: "inv s \<Longrightarrow> inv (fsm_persist ops now' c r s)"
  by (simp add: fsm_persist_def set_inv)

text \<open>A state that was set is read back while it is fresh, and setting it keeps the data.\<close>

lemma getState_setState:
  assumes "inv s" and "fresh_at c now' now''"
  shows "fst (fsm_getState ops now'' c (fsm_setState ops now now' c st s)) = st"
  using persist_live [OF load_inv [OF assms(1)] assms(2)] persist_inv [OF load_inv [OF assms(1)]]
  by (simp add: fsm_getState_def fsm_setState_def case_prod_beta load_value cloneRecord_def)

lemma getData_setState:
  assumes "inv s" and "fresh_at c now' now''"
  shows "fst (fsm_getData ops now'' c (fsm_setState ops now now' c st s)) = fst (fsm_getData ops now c s)"
  using persist_live [OF load_inv [OF assms(1)] assms(2)] persist_inv [OF load_inv [OF assms(1)]]
    load_wf [OF assms(1), of now c]
  by (simp add: fsm_getData_def fsm_setState_def case_prod_beta load_value cloneRecord_def
      record_wf_def js_spread_Nil)

lemma getData_updateData:
  assumes "inv s" and "fresh_at c now' now''" and "jm_wf patch"
  shows "jm_get (fst (fsm_getData ops now'' c (fsm_updateData ops now now' c patch s))) k =
    (case jm_get patch k of Some v \<Rightarrow> Some v | None \<Rightarrow> jm_get (fst (fsm_getData ops now c s)) k)"
  using persist_live [OF load_inv [OF assms(1)] assms(2)] persist_inv [OF load_inv [OF assms(1)]]
    load_wf [OF assms(1), of now c] js_spread_get [OF assms(3)]
  by (simp add: fsm_getData_def fsm_updateData_def case_prod_beta load_value cloneRecord_def
      record_wf_def js_spread_Nil split: option.split)

lemma getState_updateData:
  assumes "inv s" and "fresh_at c now' now''"
  shows "fst (fsm_getState ops now'' c (fsm_updateData ops now now' c patch s)) = fst (fsm_getState ops now c s)"
  using persist_live [OF load_inv [OF assms(1)] assms(2)] persist_inv [OF load_inv [OF assms(1)]]
  by (simp add: fsm_getState_def fsm_updateData_def case_prod_beta load_value cloneRecord_def)

text \<open>After \<open>clear\<close> the conversation starts over.\<close>

lemma getState_clear:
  "inv s \<Longrightarrow> fst (fsm_getState ops now c (fsm_clear ops c s)) = None"
  by (simp add: fsm_getState_def fsm_clear_def case_prod_beta load_value delete_inv delete_lookup)

text \<open>Another conversation's live record is untouched, or was evicted.\<close>

lemma setState_is_set:
  "\<exists>r. fsm_setState ops now now' c st s = st_set ops (fc_key c) r (snd (st_get ops now (fc_key c) s))"
  by (simp add: fsm_setState_def fsm_persist_def case_prod_beta load_state) blast

lemma setState_other:
  assumes "inv s" and "fc_key c' \<noteq> fc_key c" and "now \<le> now''"
  shows "live now'' (lookup (fsm_setState ops now now' c st s) (fc_key c')) \<in>
    {live now'' (lookup s (fc_key c')), None}"
proof -
  let ?s1 = "snd (st_get ops now (fc_key c) s)"
  obtain r where "fsm_setState ops now now' c st s = st_set ops (fc_key c) r ?s1"
    using setState_is_set by blast
  moreover have "lookup (st_set ops (fc_key c) r ?s1) (fc_key c') \<in> {lookup ?s1 (fc_key c'), None}"
    using set_other [OF get_inv [OF assms(1)] assms(2)] .
  ultimately show ?thesis
    using get_keeps [OF assms(1,3), of "fc_key c" "fc_key c'"] by auto
qed

end

context fsm_durable_storage
begin

lemma getState_setState_other:
  assumes "inv s" and "fc_key c' \<noteq> fc_key c" and "now \<le> now''"
  shows "fst (fsm_getState ops now'' c' (fsm_setState ops now now' c st s)) = fst (fsm_getState ops now'' c' s)"
proof -
  let ?s1 = "snd (st_get ops now (fc_key c) s)"
  obtain r where r: "fsm_setState ops now now' c st s = st_set ops (fc_key c) r ?s1"
    using setState_is_set by blast
  have "live now'' (lookup (st_set ops (fc_key c) r ?s1) (fc_key c')) = live now'' (lookup s (fc_key c'))"
    using set_frame [OF get_inv [OF assms(1)] assms(2)] get_keeps [OF assms(1,3), of "fc_key c" "fc_key c'"]
    by simp
  then show ?thesis
    by (simp add: r fsm_getState_def case_prod_beta load_value assms(1) set_inv get_inv)
qed

end

section \<open>Both storages keep the contract\<close>

lemma ms_inv_set: "ms_inv s \<Longrightarrow> ms_inv (ms_set k r s)"
proof -
  assume inv: "ms_inv s"
  define m1 where "m1 = (if \<not> jm_has (ms_map s) k \<and> ms_maxEntries s \<le> int (length (ms_map s))
    then (case ms_map s of [] \<Rightarrow> [] | (oldest, _) # _ \<Rightarrow> jm_del oldest (ms_map s)) else ms_map s)"
  have s': "ms_set k r s = s\<lparr>ms_map := jm_set k (cloneRecord r) m1\<rparr>"
    by (simp add: ms_set_def m1_def Let_def)
  have sub: "set m1 \<subseteq> set (ms_map s)" and wf: "jm_wf m1"
    using inv by (auto simp: m1_def ms_inv_def delete_absent dest: in_set_delete split: list.splits)
  have len: "int (length (jm_set k (cloneRecord r) m1)) \<le> max 1 (ms_maxEntries s)"
    using inv by (auto simp: m1_def ms_inv_def delete_absent length_update jm_has_iff split: list.splits)
  have "record_wf r'" if "(k', r') \<in> set (jm_set k (cloneRecord r) m1)" for k' r'
    using in_set_update [OF that] sub inv by (auto simp: ms_inv_def)
  with wf len inv show ?thesis unfolding s' ms_inv_def by auto
qed

lemma ms_set_lookup:
  assumes "ms_inv s"
  shows "jm_get (ms_map (ms_set k r s)) k = Some (cloneRecord r)"
    and "k' \<noteq> k \<Longrightarrow> jm_get (ms_map (ms_set k r s)) k' \<in> {jm_get (ms_map s) k', None}"
  using assms by (auto simp: ms_set_def Let_def jsmap_simps split: list.splits if_splits)

interpretation mem: fsm_storage memory_ops "\<lambda>s. jm_get (ms_map s)" ms_inv
proof unfold_locales
  fix s k now assume inv: "ms_inv s"
  have wf: "jm_wf (ms_map s)" and rwf: "\<And>k r. jm_get (ms_map s) k = Some r \<Longrightarrow> record_wf r"
    using inv by (auto simp: ms_inv_def dest: map_of_SomeD)
  show "fst (st_get memory_ops now k s) = live now (jm_get (ms_map s) k)"
    using rwf by (simp add: memory_ops_def ms_get_def live_def split: option.splits)
  show "live now' (jm_get (ms_map (snd (st_get memory_ops now k s))) k') = live now' (jm_get (ms_map s) k')"
    if "now \<le> now'" for now' k'
    using that expired_later by (auto simp: memory_ops_def ms_get_def live_def jsmap_simps split: option.splits)
  show "ms_inv (snd (st_get memory_ops now k s))"
    using inv length_delete_le [of k "ms_map s"]
    by (auto simp: memory_ops_def ms_get_def ms_inv_def dest: in_set_delete split: option.splits)
  show "jm_get (ms_map (st_delete memory_ops k s)) = (jm_get (ms_map s))(k := None)"
    by (simp add: memory_ops_def ms_delete_def delete_conv')
  show "ms_inv (st_delete memory_ops k s)"
    using inv length_delete_le [of k "ms_map s"]
    by (auto simp: memory_ops_def ms_delete_def ms_inv_def dest: in_set_delete)
  show "record_wf r" if "jm_get (ms_map s) k = Some r" for r
    using that by (rule rwf)
qed (simp_all add: memory_ops_def ms_inv_set ms_set_lookup [simplified])

lemma jf_inv_simps [simp]:
  "jf_inv (jf_scheduleFlush s) = jf_inv s"
  "jf_map (jf_scheduleFlush s) = jf_map s"
  by (simp_all add: jf_inv_def jf_scheduleFlush_def)

lemma jf_inv_set: "jf_inv s \<Longrightarrow> jf_inv (jf_set k r s)"
  by (auto simp: jf_inv_def jf_set_def jf_scheduleFlush_def dest: in_set_update)

lemma jf_inv_del: "jf_inv s \<Longrightarrow> jf_inv (s\<lparr>jf_map := jm_del k (jf_map s)\<rparr>)"
  by (auto simp: jf_inv_def dest: in_set_delete)

interpretation jsn: fsm_durable_storage json_ops "\<lambda>s. jm_get (jf_map s)" jf_inv
proof unfold_locales
  fix s k now assume inv: "jf_inv s"
  have wf: "jm_wf (jf_map s)" and rwf: "\<And>k r. jm_get (jf_map s) k = Some r \<Longrightarrow> record_wf r"
    using inv by (auto simp: jf_inv_def dest: map_of_SomeD)
  show "fst (st_get json_ops now k s) = live now (jm_get (jf_map s) k)"
    using rwf by (simp add: json_ops_def jf_get_def live_def split: option.splits)
  show "live now' (jm_get (jf_map (snd (st_get json_ops now k s))) k') = live now' (jm_get (jf_map s) k')"
    if "now \<le> now'" for now' k'
    using that expired_later by (auto simp: json_ops_def jf_get_def live_def jsmap_simps split: option.splits)
  show "jf_inv (snd (st_get json_ops now k s))"
    using inv jf_inv_del [OF inv] by (simp add: json_ops_def jf_get_def split: option.splits)
  show "jm_get (jf_map (st_delete json_ops k s)) = (jm_get (jf_map s))(k := None)"
    by (simp add: json_ops_def jf_delete_def delete_conv' Let_def)
  show "jf_inv (st_delete json_ops k s)"
    using jf_inv_del [OF inv] by (simp add: json_ops_def jf_delete_def Let_def)
  show "record_wf r" if "jm_get (jf_map s) k = Some r" for r
    using that by (rule rwf)
qed (simp_all add: json_ops_def jf_inv_set, simp_all add: jf_set_def jsmap_simps)

section \<open>Properties\<close>

lemma ms_new_inv: "ms_inv (ms_new n)"
  by (simp add: ms_inv_def ms_new_def)

definition demo_ctx :: fsm_ctx where
  "demo_ctx = fsm_new ''!r:hs'' ''@u:hs'' None None (Some 100) None"

definition demo_json :: json_storage where
  "demo_json = \<lparr>jf_file = ''d/fsm.json'', jf_map = [], jf_dirty = False, jf_timer = False\<rparr>"

lemma demo_json_inv: "jf_inv demo_json"
  by (simp add: jf_inv_def demo_json_def)

lemma demo_fresh: "fresh_at demo_ctx 5 50"
  by (simp add: fresh_at_def demo_ctx_def fsm_new_def)

text \<open>
  On both storages, a state set through \<open>FSMContext.setState\<close> is what
  \<open>getState\<close> answers until its TTL runs out, and setting the state keeps the data bag.
\<close>

theorem fsm_set_then_get:
  assumes "ms_inv m" and "jf_inv j" and "fresh_at c now' now''"
  shows "fst (fsm_getState memory_ops now'' c (fsm_setState memory_ops now now' c st m)) = st \<and>
    fst (fsm_getData memory_ops now'' c (fsm_setState memory_ops now now' c st m)) =
      fst (fsm_getData memory_ops now c m) \<and>
    fst (fsm_getState json_ops now'' c (fsm_setState json_ops now now' c st j)) = st \<and>
    fst (fsm_getData json_ops now'' c (fsm_setState json_ops now now' c st j)) =
      fst (fsm_getData json_ops now c j)"
  using mem.getState_setState [OF assms(1,3)] mem.getData_setState [OF assms(1,3)]
    jsn.getState_setState [OF assms(2,3)] jsn.getData_setState [OF assms(2,3)] by simp

theorem fsm_set_then_get_witness:
  "fst (fsm_getState memory_ops 50 demo_ctx
     (fsm_setState memory_ops 1 5 demo_ctx (Some ''form:name'') (ms_new 10))) = Some ''form:name''"
  using fsm_set_then_get [OF ms_new_inv demo_json_inv demo_fresh] by blast

text \<open>
  \<open>updateData\<close> is a shallow merge: a key of the patch gets the patch's
  value, any other key keeps its old value, and the state is unchanged, on both storages.
\<close>

theorem fsm_update_data_merges:
  assumes "ms_inv m" and "jf_inv j" and "fresh_at c now' now''" and "jm_wf patch"
  shows "jm_get (fst (fsm_getData memory_ops now'' c (fsm_updateData memory_ops now now' c patch m))) k =
      (case jm_get patch k of Some v \<Rightarrow> Some v | None \<Rightarrow> jm_get (fst (fsm_getData memory_ops now c m)) k) \<and>
    fst (fsm_getState memory_ops now'' c (fsm_updateData memory_ops now now' c patch m)) =
      fst (fsm_getState memory_ops now c m) \<and>
    jm_get (fst (fsm_getData json_ops now'' c (fsm_updateData json_ops now now' c patch j))) k =
      (case jm_get patch k of Some v \<Rightarrow> Some v | None \<Rightarrow> jm_get (fst (fsm_getData json_ops now c j)) k) \<and>
    fst (fsm_getState json_ops now'' c (fsm_updateData json_ops now now' c patch j)) =
      fst (fsm_getState json_ops now c j)"
  using mem.getData_updateData [OF assms(1,3,4)] mem.getState_updateData [OF assms(1,3)]
    jsn.getData_updateData [OF assms(2,3,4)] jsn.getState_updateData [OF assms(2,3)] by simp

theorem fsm_update_data_merges_witness:
  "jm_get (fst (fsm_getData memory_ops 50 demo_ctx
     (fsm_updateData memory_ops 1 5 demo_ctx [(''name'', JStr ''x'')] (ms_new 10)))) ''name'' = Some (JStr ''x'')"
  using fsm_update_data_merges [OF ms_new_inv demo_json_inv demo_fresh, of "[(''name'', JStr ''x'')]"] by simp

text \<open>The key of a conversation determines the room and the user.\<close>

lemma storageKey_inj:
  assumes "CHR ''@'' \<notin> set r" and "CHR ''@'' \<notin> set r'"
    and "storageKey r (CHR ''@'' # u) None ns = storageKey r' (CHR ''@'' # u') None ns"
  shows "r = r' \<and> u = u'"
proof -
  have "(r @ '':'') @ CHR ''@'' # u = (r' @ '':'') @ CHR ''@'' # u'"
    using assms(3) by (auto simp: storageKey_def Let_def split: option.splits if_splits)
  then show ?thesis
    using assms(1,2) split_at_char [of "CHR ''@''" "r @ '':''" "r' @ '':''"] by simp
qed

text \<open>
  On the file storage, conversations are isolated: setting the state of one
  room and user never changes what another room or user reads, for room ids without \<open>@\<close>
  and user ids that start with it.
\<close>

theorem fsm_conversations_isolated:
  assumes "jf_inv j" and "CHR ''@'' \<notin> set r" and "CHR ''@'' \<notin> set r'" and "(r, u) \<noteq> (r', u')"
    and "now \<le> now''"
    and "c = fsm_new r (CHR ''@'' # u) None ns t t2" and "c' = fsm_new r' (CHR ''@'' # u') None ns t' t2'"
  shows "fst (fsm_getState json_ops now'' c' (fsm_setState json_ops now now' c st j)) =
    fst (fsm_getState json_ops now'' c' j)"
proof -
  have "fc_key c' \<noteq> fc_key c"
    using storageKey_inj [OF assms(3,2)] assms(4) by (auto simp: assms(6,7) fsm_new_def)
  then show ?thesis
    by (rule jsn.getState_setState_other [OF assms(1) _ assms(5)])
qed

theorem fsm_conversations_isolated_witness:
  "fst (fsm_getState json_ops 50 (fsm_new ''!r:hs'' ''@v:hs'' None None None None)
     (fsm_setState json_ops 1 5 (fsm_new ''!r:hs'' ''@u:hs'' None None None None) (Some ''form:name'') demo_json)) =
   fst (fsm_getState json_ops 50 (fsm_new ''!r:hs'' ''@v:hs'' None None None None) demo_json)"
  by (rule fsm_conversations_isolated
      [OF demo_json_inv, of "''!r:hs''" "''!r:hs''" "''u:hs''" "''v:hs''" 1 50 _ None None None]) simp_all

text \<open>
  A run of \<open>set\<close> calls from an empty \<open>MemoryStorage\<close> never holds more
  than \<open>max 1 maxEntries\<close> records, and the last record set is always there.
\<close>

theorem memory_storage_bounded:
  "ms_size (foldl (\<lambda>s (k, r). ms_set k r s) (ms_new n) (xs @ [(key, r)])) \<le> nat (max 1 n) \<and>
   jm_get (ms_map (foldl (\<lambda>s (k, r). ms_set k r s) (ms_new n) (xs @ [(key, r)]))) key = Some (cloneRecord r)"
proof -
  have inv: "ms_inv (foldl (\<lambda>s (k, r). ms_set k r s) s0 ys) \<and>
      ms_maxEntries (foldl (\<lambda>s (k, r). ms_set k r s) s0 ys) = ms_maxEntries s0" if "ms_inv s0" for s0 ys
    using that
    by (induction ys arbitrary: s0) (auto simp: ms_inv_set, simp add: ms_set_def Let_def)
  from inv [OF ms_new_inv, of n xs] show ?thesis
    using ms_inv_set [of "foldl (\<lambda>s (k, r). ms_set k r s) (ms_new n) xs" key r]
    by (auto simp: ms_size_def ms_inv_def ms_set_lookup) (auto simp: ms_set_def Let_def ms_new_def)
qed

end
