(* ===== verification/Token_Store.thy ===== *)
theory Token_Store
  imports Js_Util
begin

text \<open>
  \<^verbatim>\<open>src/token-store.ts\<close> and \<^verbatim>\<open>src/file-ttl-map.ts\<close>: the single-use token stores and the
  string maps with a time to live, in memory and in a file. The contract of a used-token
  store is the locale \<open>used_token_store\<close>, that of a string map \<open>ttl_string_map\<close>; the
  memory and the file versions interpret both, and the callback registries rest on them.

  Each operation takes the clock reading of its \<open>Date.now()\<close>. A file store has its lazily
  loaded cache, the \<open>loaded\<close> flag and whether its write timer is armed.
\<close>

section \<open>The shared map step\<close>

text \<open>
  Adding to a bounded map with expiry: drop what has expired, evict the oldest entries
  while the map is full, then set. \<open>jm_young n m k v\<close> says that \<open>k\<close> is bound to \<open>v\<close> and at
  most \<open>n\<close> entries were inserted after it; such an entry survives while \<open>n\<close> stays below
  the capacity.
\<close>

definition jm_young :: "nat \<Rightarrow> ('k, 'v) jsmap \<Rightarrow> 'k \<Rightarrow> 'v \<Rightarrow> bool" where
  "jm_young n m k v \<longleftrightarrow> (\<exists>a b. m = a @ (k, v) # b \<and> length b \<le> n)"

lemma jm_young_mono: "jm_young n m k v \<Longrightarrow> n \<le> n' \<Longrightarrow> jm_young n' m k v"
  unfolding jm_young_def by fastforce

lemma jm_young_get: "jm_young n m k v \<Longrightarrow> jm_wf m \<Longrightarrow> jm_get m k = Some v"
  unfolding jm_young_def by (auto intro!: map_of_is_SomeI)

lemma jm_young_filter: "jm_young n m k v \<Longrightarrow> keep k v \<Longrightarrow> jm_young n (jm_filter keep m) k v"
proof -
  assume "jm_young n m k v" and "keep k v"
  then obtain a b where "m = a @ (k, v) # b" and "length b \<le> n"
    by (auto simp: jm_young_def)
  with \<open>keep k v\<close> have "jm_filter keep m = jm_filter keep a @ (k, v) # jm_filter keep b"
    and "length (jm_filter keep b) \<le> n"
    using order_trans [OF jm_filter_length] by (auto simp: jm_filter_def)
  then show ?thesis unfolding jm_young_def by blast
qed

lemma jm_young_delete:
  assumes "jm_young n m k v" and "k' \<noteq> k"
  shows "jm_young n (jm_del k' m) k v"
proof -
  obtain a b where m: "m = a @ (k, v) # b" and n: "length b \<le> n"
    using assms(1) by (auto simp: jm_young_def)
  have "jm_del k' m = jm_del k' a @ (k, v) # jm_del k' b"
    using assms(2) by (simp add: m AList.delete_eq)
  then show ?thesis
    unfolding jm_young_def using n length_delete_le [of k' b] order_trans by blast
qed

lemma update_append:
  "AList.update k v (a @ b) = (if k \<in> fst ` set a then AList.update k v a @ b else a @ AList.update k v b)"
  by (induction a) auto

lemma jm_young_update:
  assumes "jm_young n m k v" and "k' \<noteq> k"
  shows "jm_young (Suc n) (jm_set k' v' m) k v"
proof -
  obtain a b where m: "m = a @ (k, v) # b" and n: "length b \<le> n"
    using assms(1) by (auto simp: jm_young_def)
  have "length (jm_set k' v' b) \<le> Suc n"
    using n by (simp add: length_update)
  moreover have "jm_set k' v' m = jm_set k' v' a @ (k, v) # b \<or> jm_set k' v' m = a @ (k, v) # jm_set k' v' b"
    using assms(2) by (simp add: m update_append)
  ultimately show ?thesis
    using le_SucI [OF n] unfolding jm_young_def by blast
qed

lemma jm_young_evict:
  assumes "jm_young n m k v" and "jm_wf m" and "int n + 2 \<le> cap"
  shows "jm_young n (jm_evict cap m) k v"
proof -
  obtain a b where m: "m = a @ (k, v) # b" and n: "length b \<le> n"
    using assms(1) by (auto simp: jm_young_def)
  define d where "d = nat (int (length m) + 1 - cap)"
  have "d \<le> length a"
    using assms(3) n by (simp add: d_def m)
  then have "jm_evict cap m = drop d a @ (k, v) # b"
    unfolding jm_evict_drop [OF assms(2)] d_def [symmetric] by (simp add: m)
  with n show ?thesis unfolding jm_young_def by blast
qed

lemma jm_young_new: "k \<notin> fst ` set m \<Longrightarrow> jm_young 0 (jm_set k v m) k v"
  unfolding jm_young_def by (simp add: update_absent)

lemma jm_add_keeps:
  assumes "jm_young n m k v" and "jm_wf m" and "k' \<noteq> k" and "keep k v" and "int n + 2 \<le> cap"
  shows "jm_young (Suc n) (jm_set k' v' (jm_evict cap (jm_filter keep m))) k v"
  using assms by (intro jm_young_update jm_young_evict jm_young_filter) simp_all

lemma jm_add_new:
  assumes "jm_wf m" and "jm_get m k = None"
  shows "jm_young 0 (jm_set k v (jm_evict cap (jm_filter keep m))) k v"
proof (rule jm_young_new)
  show "k \<notin> fst ` set (jm_evict cap (jm_filter keep m))"
    using assms jm_evict_subset [of "jm_filter keep m" cap] by (force simp: map_of_eq_None_iff)
qed

lemma bounded_set_size:
  "jm_wf m \<Longrightarrow> int (length (jm_set k v (jm_evict cap m))) \<le> max 1 cap"
proof (cases "1 \<le> cap")
  case True
  then show ?thesis using jm_evict_size [of cap m] by (simp add: length_update)
next
  case False
  assume wf: "jm_wf m"
  have "length m \<le> nat (int (length m) + 1 - cap)"
    using False by simp
  then have "jm_evict cap m = []"
    by (simp add: jm_evict_drop [OF wf])
  then show ?thesis by simp
qed

lemma evict_filter_get:
  assumes "jm_wf m"
  shows "jm_get (jm_evict cap (jm_filter keep m)) k \<in> {jm_get (jm_filter keep m) k, None}"
  using jm_get_drop [of "jm_filter keep m"] assms by (simp add: jm_evict_drop)

lemma bounded_set_other:
  assumes "jm_wf m" and "k' \<noteq> k"
  shows "jm_get (jm_set k v (jm_evict cap (jm_filter keep m))) k' \<in> {jm_get m k', None}"
proof -
  have "jm_get (jm_filter keep m) k' \<in> {jm_get m k', None}"
    using assms(1) by (simp add: jm_get_filter split: option.split)
  with evict_filter_get [OF assms(1), of cap keep k'] assms(2) show ?thesis
    by (auto simp only: jm_get_update if_False)
qed

section \<open>MemoryUsedTokenStore\<close>

record used_store =
  us_seen :: "(string, int) jsmap"
  us_capacity :: int
  us_defaultTtlMs :: int

definition mu_new :: "int option \<Rightarrow> int option \<Rightarrow> used_store" where
  "mu_new capacity defaultTtlMs =
     \<lparr>us_seen = [], us_capacity = (case capacity of Some c \<Rightarrow> c | None \<Rightarrow> 16384),
      us_defaultTtlMs = (case defaultTtlMs of Some t \<Rightarrow> t | None \<Rightarrow> 24 * 60 * 60 * 1000)\<rparr>"

definition mu_has :: "int \<Rightarrow> string \<Rightarrow> used_store \<Rightarrow> bool \<times> used_store" where
  "mu_has now key s =
     (case jm_get (us_seen s) key of
        None \<Rightarrow> (False, s)
      | Some expiresAt \<Rightarrow>
          if expiresAt \<le> now then (False, s\<lparr>us_seen := jm_del key (us_seen s)\<rparr>) else (True, s))"

definition mu_prune :: "int \<Rightarrow> used_store \<Rightarrow> used_store" where
  "mu_prune now s = s\<lparr>us_seen := jm_filter (\<lambda>k expiresAt. \<not> expiresAt \<le> now) (us_seen s)\<rparr>"

definition mu_add :: "int \<Rightarrow> string \<Rightarrow> int option \<Rightarrow> used_store \<Rightarrow> used_store" where
  "mu_add now key ttlMs s =
     (let s1 = mu_prune now s;
          seen2 = jm_evict (us_capacity s1) (us_seen s1)
      in s1\<lparr>us_seen := jm_set key (now + (case ttlMs of Some t \<Rightarrow> t | None \<Rightarrow> us_defaultTtlMs s)) seen2\<rparr>)"

text \<open>\<open>tryAdd\<close> reads the clock twice: \<open>now\<close> in \<open>has\<close>, \<open>now'\<close> in \<open>add\<close>.\<close>

definition mu_tryAdd :: "int \<Rightarrow> int \<Rightarrow> string \<Rightarrow> int option \<Rightarrow> used_store \<Rightarrow> bool \<times> used_store" where
  "mu_tryAdd now now' key ttlMs s =
     (let (present, s1) = mu_has now key s
      in if present then (False, s1) else (True, mu_add now' key ttlMs s1))"

definition mu_delete :: "string \<Rightarrow> used_store \<Rightarrow> used_store" where
  "mu_delete key s = s\<lparr>us_seen := jm_del key (us_seen s)\<rparr>"

definition mu_size :: "used_store \<Rightarrow> nat" where
  "mu_size s = length (us_seen s)"

definition mu_clear :: "used_store \<Rightarrow> used_store" where
  "mu_clear s = s\<lparr>us_seen := []\<rparr>"

text \<open>\<open>MemoryAsyncUsedTokenStore\<close> holds such a store and delegates to it.\<close>

record async_used_store =
  as_inner :: used_store

definition ma_tryAdd :: "int \<Rightarrow> int \<Rightarrow> string \<Rightarrow> int option \<Rightarrow> async_used_store \<Rightarrow> bool \<times> async_used_store" where
  "ma_tryAdd now now' key ttlMs s =
     (let (r, i) = mu_tryAdd now now' key ttlMs (as_inner s) in (r, s\<lparr>as_inner := i\<rparr>))"

definition ma_has :: "int \<Rightarrow> string \<Rightarrow> async_used_store \<Rightarrow> bool \<times> async_used_store" where
  "ma_has now key s = (let (r, i) = mu_has now key (as_inner s) in (r, s\<lparr>as_inner := i\<rparr>))"

definition ma_delete :: "string \<Rightarrow> async_used_store \<Rightarrow> async_used_store" where
  "ma_delete key s = s\<lparr>as_inner := mu_delete key (as_inner s)\<rparr>"

definition mu_inv :: "used_store \<Rightarrow> bool" where
  "mu_inv s \<longleftrightarrow> jm_wf (us_seen s) \<and> int (length (us_seen s)) \<le> max 1 (us_capacity s)"

section \<open>MemoryTtlStringMap\<close>

record ttl_map =
  tm_entries :: "(string, string \<times> int) jsmap"
  tm_capacity :: int
  tm_defaultTtlMs :: int

definition mm_get :: "int \<Rightarrow> string \<Rightarrow> ttl_map \<Rightarrow> string option \<times> ttl_map" where
  "mm_get now key s =
     (case jm_get (tm_entries s) key of
        None \<Rightarrow> (None, s)
      | Some (v, expiresAt) \<Rightarrow>
          if expiresAt \<le> now then (None, s\<lparr>tm_entries := jm_del key (tm_entries s)\<rparr>) else (Some v, s))"

definition mm_prune :: "int \<Rightarrow> ttl_map \<Rightarrow> ttl_map" where
  "mm_prune now s = s\<lparr>tm_entries := jm_filter (\<lambda>k (v, expiresAt). \<not> expiresAt \<le> now) (tm_entries s)\<rparr>"

definition mm_set :: "int \<Rightarrow> string \<Rightarrow> string \<Rightarrow> int option \<Rightarrow> ttl_map \<Rightarrow> ttl_map" where
  "mm_set now key v ttlMs s =
     (let s1 = mm_prune now s;
          entries2 = jm_evict (tm_capacity s1) (tm_entries s1)
      in s1\<lparr>tm_entries :=
             jm_set key (v, now + (case ttlMs of Some t \<Rightarrow> t | None \<Rightarrow> tm_defaultTtlMs s)) entries2\<rparr>)"

definition mm_delete :: "string \<Rightarrow> ttl_map \<Rightarrow> ttl_map" where
  "mm_delete key s = s\<lparr>tm_entries := jm_del key (tm_entries s)\<rparr>"

definition mm_size :: "ttl_map \<Rightarrow> nat" where
  "mm_size s = length (tm_entries s)"

definition mm_clear :: "ttl_map \<Rightarrow> ttl_map" where
  "mm_clear s = s\<lparr>tm_entries := []\<rparr>"

definition mm_inv :: "ttl_map \<Rightarrow> bool" where
  "mm_inv s \<longleftrightarrow> jm_wf (tm_entries s)"

section \<open>FileTtlStringMap\<close>

text \<open>
  An expiry read back from a file is any JSON number, and one too large to represent is
  plus infinity.
\<close>

fun jsnum_le :: "jsnum \<Rightarrow> int \<Rightarrow> bool" where
  "jsnum_le (Fin n) now = (n \<le> now)"
| "jsnum_le PInf now = False"
| "jsnum_le NInf now = True"

record file_ttl_map =
  fm_filePath :: string
  fm_capacity :: int
  fm_cache :: "(string, string \<times> jsnum) jsmap"
  fm_loaded :: bool
  fm_writeTimer :: bool

definition fm_new :: "string \<Rightarrow> int option \<Rightarrow> file_ttl_map" where
  "fm_new filePath capacity =
     \<lparr>fm_filePath = filePath, fm_capacity = (case capacity of Some c \<Rightarrow> c | None \<Rightarrow> 16384),
      fm_cache = [], fm_loaded = False, fm_writeTimer = False\<rparr>"

fun fm_load :: "int \<Rightarrow> (string \<times> json) list \<Rightarrow> (string, string \<times> jsnum) jsmap \<Rightarrow>
    (string, string \<times> jsnum) jsmap" where
  "fm_load now [] m = m"
| "fm_load now ((key, value) # rest) m =
     (if \<not> isPlainObject value then fm_load now rest m
      else let v = readString value ''v'';
               e = (case json_prop value ''e'' of Some (JNum n) \<Rightarrow> n | _ \<Rightarrow> Fin 0)
           in if v = None \<or> v = Some [] \<or> jsnum_le e now then fm_load now rest m
              else fm_load now rest (jm_set key (the v, e) m))"

text \<open>The \<open>entries\<close> object of the file, when there is one.\<close>

definition file_entries :: "file_system \<Rightarrow> string \<Rightarrow> (string \<times> json) list" where
  "file_entries fs file =
     (let raw = readJsonSafe fs file
      in if \<not> isPlainObject raw then []
         else case json_prop raw ''entries'' of Some (JObj ps) \<Rightarrow> ps | _ \<Rightarrow> [])"

definition fm_ensureLoaded :: "file_system \<Rightarrow> int \<Rightarrow> file_ttl_map \<Rightarrow> file_ttl_map" where
  "fm_ensureLoaded fs now s =
     (if fm_loaded s then s
      else s\<lparr>fm_loaded := True, fm_cache := fm_load now (file_entries fs (fm_filePath s)) (fm_cache s)\<rparr>)"

definition fm_scheduleWrite :: "file_ttl_map \<Rightarrow> file_ttl_map" where
  "fm_scheduleWrite s = s\<lparr>fm_writeTimer := True\<rparr>"

definition fm_prune :: "int \<Rightarrow> file_ttl_map \<Rightarrow> file_ttl_map" where
  "fm_prune now s = s\<lparr>fm_cache := jm_filter (\<lambda>k (v, e). \<not> jsnum_le e now) (fm_cache s)\<rparr>"

definition fm_get :: "file_system \<Rightarrow> int \<Rightarrow> string \<Rightarrow> file_ttl_map \<Rightarrow> string option \<times> file_ttl_map" where
  "fm_get fs now key s0 =
     (let s = fm_ensureLoaded fs now s0
      in case jm_get (fm_cache s) key of
           None \<Rightarrow> (None, s)
         | Some (v, e) \<Rightarrow>
             if jsnum_le e now then (None, fm_scheduleWrite (s\<lparr>fm_cache := jm_del key (fm_cache s)\<rparr>))
             else (Some v, s))"

text \<open>\<open>set\<close> reads the clock to prune at \<open>now\<close> and again for the expiry at \<open>now'\<close>.\<close>

definition fm_set ::
  "file_system \<Rightarrow> int \<Rightarrow> int \<Rightarrow> string \<Rightarrow> string \<Rightarrow> int \<Rightarrow> file_ttl_map \<Rightarrow> file_ttl_map" where
  "fm_set fs now now' key v ttlMs s0 =
     (let s1 = fm_prune now (fm_ensureLoaded fs now s0);
          cache2 = jm_evict (fm_capacity s1) (fm_cache s1)
      in fm_scheduleWrite (s1\<lparr>fm_cache := jm_set key (v, Fin (now' + max 1 ttlMs)) cache2\<rparr>))"

definition fm_delete :: "file_system \<Rightarrow> int \<Rightarrow> string \<Rightarrow> file_ttl_map \<Rightarrow> file_ttl_map" where
  "fm_delete fs now key s0 =
     (let s = fm_ensureLoaded fs now s0;
          s' = s\<lparr>fm_cache := jm_del key (fm_cache s)\<rparr>
      in if jm_has (fm_cache s) key then fm_scheduleWrite s' else s')"

definition fm_document :: "file_ttl_map \<Rightarrow> json" where
  "fm_document s =
     JObj [(''version'', JNum (Fin 1)),
           (''entries'', JObj (map (\<lambda>(k, v, e). (k, JObj [(''v'', JStr v), (''e'', JNum e)])) (fm_cache s)))]"

definition fm_persist :: "int \<Rightarrow> string \<Rightarrow> write_outcome \<Rightarrow> file_ttl_map \<Rightarrow> file_system \<Rightarrow>
    (write_outcome + unit) \<times> file_ttl_map \<times> file_system" where
  "fm_persist now tmp outcome s fs =
     (let s1 = fm_prune now s;
          (r, fs') = writeJsonAtomic (fm_filePath s1) tmp (fm_document s1) outcome fs
      in (r, s1, fs'))"

text \<open>\<open>flush\<close> and the timer's callback both disarm the timer and persist.\<close>

definition fm_flush :: "int \<Rightarrow> string \<Rightarrow> write_outcome \<Rightarrow> file_ttl_map \<Rightarrow> file_system \<Rightarrow>
    (write_outcome + unit) \<times> file_ttl_map \<times> file_system" where
  "fm_flush now tmp outcome s fs = fm_persist now tmp outcome (s\<lparr>fm_writeTimer := False\<rparr>) fs"

definition fm_inv :: "file_ttl_map \<Rightarrow> bool" where
  "fm_inv s \<longleftrightarrow> fm_loaded s \<and> jm_wf (fm_cache s)"

section \<open>FileUsedTokenStore\<close>

record file_used_store =
  fu_filePath :: string
  fu_capacity :: int
  fu_defaultTtlMs :: int
  fu_seen :: "(string, int) jsmap"
  fu_loaded :: bool
  fu_writeTimer :: bool

definition fu_new :: "string \<Rightarrow> int option \<Rightarrow> int option \<Rightarrow> file_used_store" where
  "fu_new filePath capacity defaultTtlMs =
     \<lparr>fu_filePath = filePath, fu_capacity = (case capacity of Some c \<Rightarrow> c | None \<Rightarrow> 16384),
      fu_defaultTtlMs = (case defaultTtlMs of Some t \<Rightarrow> t | None \<Rightarrow> 24 * 60 * 60 * 1000),
      fu_seen = [], fu_loaded = False, fu_writeTimer = False\<rparr>"

fun fu_load :: "int \<Rightarrow> (string \<times> json) list \<Rightarrow> (string, int) jsmap \<Rightarrow> (string, int) jsmap" where
  "fu_load now [] m = m"
| "fu_load now ((key, value) # rest) m =
     (if \<not> isPlainObject value then fu_load now rest m
      else case readNumber value ''e'' of
             None \<Rightarrow> fu_load now rest m
           | Some e \<Rightarrow> if e \<le> now then fu_load now rest m else fu_load now rest (jm_set key e m))"

definition fu_ensureLoaded :: "file_system \<Rightarrow> int \<Rightarrow> file_used_store \<Rightarrow> file_used_store" where
  "fu_ensureLoaded fs now s =
     (if fu_loaded s then s
      else s\<lparr>fu_loaded := True, fu_seen := fu_load now (file_entries fs (fu_filePath s)) (fu_seen s)\<rparr>)"

definition fu_scheduleWrite :: "file_used_store \<Rightarrow> file_used_store" where
  "fu_scheduleWrite s = s\<lparr>fu_writeTimer := True\<rparr>"

definition fu_has :: "file_system \<Rightarrow> int \<Rightarrow> string \<Rightarrow> file_used_store \<Rightarrow> bool \<times> file_used_store" where
  "fu_has fs now key s0 =
     (let s = fu_ensureLoaded fs now s0
      in case jm_get (fu_seen s) key of
           None \<Rightarrow> (False, s)
         | Some expiresAt \<Rightarrow>
             if expiresAt \<le> now
             then (False, fu_scheduleWrite (s\<lparr>fu_seen := jm_del key (fu_seen s)\<rparr>))
             else (True, s))"

definition fu_prune :: "int \<Rightarrow> file_used_store \<Rightarrow> file_used_store" where
  "fu_prune now s = s\<lparr>fu_seen := jm_filter (\<lambda>k expiresAt. \<not> expiresAt \<le> now) (fu_seen s)\<rparr>"

definition fu_add :: "file_system \<Rightarrow> int \<Rightarrow> string \<Rightarrow> int option \<Rightarrow> file_used_store \<Rightarrow> file_used_store" where
  "fu_add fs now key ttlMs s0 =
     (let s1 = fu_prune now (fu_ensureLoaded fs now s0);
          seen2 = jm_evict (fu_capacity s1) (fu_seen s1)
      in fu_scheduleWrite
           (s1\<lparr>fu_seen := jm_set key (now + (case ttlMs of Some t \<Rightarrow> t | None \<Rightarrow> fu_defaultTtlMs s1)) seen2\<rparr>))"

definition fu_tryAdd :: "file_system \<Rightarrow> int \<Rightarrow> int \<Rightarrow> string \<Rightarrow> int option \<Rightarrow> file_used_store \<Rightarrow>
    bool \<times> file_used_store" where
  "fu_tryAdd fs now now' key ttlMs s =
     (let (present, s1) = fu_has fs now key s
      in if present then (False, s1) else (True, fu_add fs now' key ttlMs s1))"

definition fu_delete :: "file_system \<Rightarrow> int \<Rightarrow> string \<Rightarrow> file_used_store \<Rightarrow> file_used_store" where
  "fu_delete fs now key s0 =
     (let s = fu_ensureLoaded fs now s0;
          s' = s\<lparr>fu_seen := jm_del key (fu_seen s)\<rparr>
      in if jm_has (fu_seen s) key then fu_scheduleWrite s' else s')"

definition fu_document :: "file_used_store \<Rightarrow> json" where
  "fu_document s =
     JObj [(''version'', JNum (Fin 1)),
           (''entries'', JObj (map (\<lambda>(k, e). (k, JObj [(''e'', JNum (Fin e))])) (fu_seen s)))]"

definition fu_persist :: "int \<Rightarrow> string \<Rightarrow> write_outcome \<Rightarrow> file_used_store \<Rightarrow> file_system \<Rightarrow>
    (write_outcome + unit) \<times> file_used_store \<times> file_system" where
  "fu_persist now tmp outcome s fs =
     (let s1 = fu_prune now s;
          (r, fs') = writeJsonAtomic (fu_filePath s1) tmp (fu_document s1) outcome fs
      in (r, s1, fs'))"

definition fu_flush :: "int \<Rightarrow> string \<Rightarrow> write_outcome \<Rightarrow> file_used_store \<Rightarrow> file_system \<Rightarrow>
    (write_outcome + unit) \<times> file_used_store \<times> file_system" where
  "fu_flush now tmp outcome s fs = fu_persist now tmp outcome (s\<lparr>fu_writeTimer := False\<rparr>) fs"

text \<open>\<open>FileAsyncUsedTokenStore\<close> delegates to a file store.\<close>

record file_async_used_store =
  fa_inner :: file_used_store

definition fa_tryAdd :: "file_system \<Rightarrow> int \<Rightarrow> int \<Rightarrow> string \<Rightarrow> int option \<Rightarrow> file_async_used_store \<Rightarrow>
    bool \<times> file_async_used_store" where
  "fa_tryAdd fs now now' key ttlMs s =
     (let (r, i) = fu_tryAdd fs now now' key ttlMs (fa_inner s) in (r, s\<lparr>fa_inner := i\<rparr>))"

definition fa_has :: "file_system \<Rightarrow> int \<Rightarrow> string \<Rightarrow> file_async_used_store \<Rightarrow> bool \<times> file_async_used_store" where
  "fa_has fs now key s = (let (r, i) = fu_has fs now key (fa_inner s) in (r, s\<lparr>fa_inner := i\<rparr>))"

definition fa_delete :: "file_system \<Rightarrow> int \<Rightarrow> string \<Rightarrow> file_async_used_store \<Rightarrow> file_async_used_store" where
  "fa_delete fs now key s = s\<lparr>fa_inner := fu_delete fs now key (fa_inner s)\<rparr>"

text \<open>The pack of four stores of a single host.\<close>

record shared_stores =
  ss_callbackUsed :: file_used_store
  ss_callbackAlias :: file_ttl_map
  ss_callbackBind :: file_ttl_map
  ss_queryUsed :: file_used_store

definition createFileSharedTokenStores :: "string \<Rightarrow> shared_stores" where
  "createFileSharedTokenStores root =
     \<lparr>ss_callbackUsed = fu_new (root @ ''/callback-used.json'') None None,
      ss_callbackAlias = fm_new (root @ ''/callback-aliases.json'') None,
      ss_callbackBind = fm_new (root @ ''/callback-binds.json'') None,
      ss_queryUsed = fu_new (root @ ''/miniapp-query-used.json'') None None\<rparr>"

text \<open>
  The pack's \<open>flush\<close> flushes the four stores in order and stops at the first that throws.
  Each has its clock reading, temporary file name and outcome.
\<close>

definition shared_flush ::
  "(int \<times> string \<times> write_outcome) \<Rightarrow> (int \<times> string \<times> write_outcome) \<Rightarrow>
   (int \<times> string \<times> write_outcome) \<Rightarrow> (int \<times> string \<times> write_outcome) \<Rightarrow>
   shared_stores \<Rightarrow> file_system \<Rightarrow> (write_outcome + unit) \<times> shared_stores \<times> file_system" where
  "shared_flush w1 w2 w3 w4 p fs =
     (case fu_flush (fst w1) (fst (snd w1)) (snd (snd w1)) (ss_callbackUsed p) fs of
        (Inl e, a, fs1) \<Rightarrow> (Inl e, p\<lparr>ss_callbackUsed := a\<rparr>, fs1)
      | (Inr _, a, fs1) \<Rightarrow>
     (case fm_flush (fst w2) (fst (snd w2)) (snd (snd w2)) (ss_callbackAlias p) fs1 of
        (Inl e, b, fs2) \<Rightarrow> (Inl e, p\<lparr>ss_callbackUsed := a, ss_callbackAlias := b\<rparr>, fs2)
      | (Inr _, b, fs2) \<Rightarrow>
     (case fm_flush (fst w3) (fst (snd w3)) (snd (snd w3)) (ss_callbackBind p) fs2 of
        (Inl e, c, fs3) \<Rightarrow>
          (Inl e, p\<lparr>ss_callbackUsed := a, ss_callbackAlias := b, ss_callbackBind := c\<rparr>, fs3)
      | (Inr _, c, fs3) \<Rightarrow>
     (case fu_flush (fst w4) (fst (snd w4)) (snd (snd w4)) (ss_queryUsed p) fs3 of
        (r, d, fs4) \<Rightarrow>
          (r, p\<lparr>ss_callbackUsed := a, ss_callbackAlias := b, ss_callbackBind := c, ss_queryUsed := d\<rparr>, fs4)))))"

definition fu_inv :: "file_used_store \<Rightarrow> bool" where
  "fu_inv s \<longleftrightarrow> fu_loaded s \<and> jm_wf (fu_seen s) "

section \<open>The contract of a used-token store\<close>

text \<open>
  \<open>expiry\<close> is what a store has recorded, \<open>young n s k e\<close> that \<open>k\<close> is recorded until \<open>e\<close>
  with at most \<open>n\<close> tokens recorded after it.
\<close>

locale used_token_store =
  fixes has :: "int \<Rightarrow> string \<Rightarrow> 's \<Rightarrow> bool \<times> 's"
    and add :: "int \<Rightarrow> string \<Rightarrow> int option \<Rightarrow> 's \<Rightarrow> 's"
    and tryAdd :: "int \<Rightarrow> int \<Rightarrow> string \<Rightarrow> int option \<Rightarrow> 's \<Rightarrow> bool \<times> 's"
    and delete :: "int \<Rightarrow> string \<Rightarrow> 's \<Rightarrow> 's"
    and expiry :: "'s \<Rightarrow> string \<Rightarrow> int option"
    and young :: "nat \<Rightarrow> 's \<Rightarrow> string \<Rightarrow> int \<Rightarrow> bool"
    and cap :: "'s \<Rightarrow> int"
    and ttl :: "'s \<Rightarrow> int"
    and inv :: "'s \<Rightarrow> bool"
  assumes has_value: "inv s \<Longrightarrow> fst (has now k s) = (case expiry s k of None \<Rightarrow> False | Some e \<Rightarrow> now < e)"
    and has_absent: "inv s \<Longrightarrow> \<not> fst (has now k s) \<Longrightarrow> expiry (snd (has now k s)) k = None"
    and has_keeps: "inv s \<Longrightarrow> young n s k e \<Longrightarrow> now < e \<Longrightarrow> young n (snd (has now k' s)) k e"
    and has_live: "inv s \<Longrightarrow> expiry s k = Some e \<Longrightarrow> now < e \<Longrightarrow> expiry (snd (has now k' s)) k = Some e"
    and has_shrinks: "inv s \<Longrightarrow> expiry (snd (has now k s)) k' \<in> {expiry s k', None}"
    and has_inv: "inv s \<Longrightarrow> inv (snd (has now k s))"
    and has_cap: "inv s \<Longrightarrow> cap (snd (has now k s)) = cap s \<and> ttl (snd (has now k s)) = ttl s"
    and add_expiry: "inv s \<Longrightarrow> expiry (add now k t s) k = Some (now + (case t of Some x \<Rightarrow> x | None \<Rightarrow> ttl s))"
    and add_young: "inv s \<Longrightarrow> expiry s k = None \<Longrightarrow>
      young 0 (add now k t s) k (now + (case t of Some x \<Rightarrow> x | None \<Rightarrow> ttl s))"
    and add_keeps: "inv s \<Longrightarrow> young n s k e \<Longrightarrow> k' \<noteq> k \<Longrightarrow> now < e \<Longrightarrow> int n + 2 \<le> cap s \<Longrightarrow>
      young (Suc n) (add now k' t s) k e"
    and add_inv: "inv s \<Longrightarrow> inv (add now k t s)"
    and add_cap: "inv s \<Longrightarrow> cap (add now k t s) = cap s"
    and delete_keeps: "inv s \<Longrightarrow> young n s k e \<Longrightarrow> k' \<noteq> k \<Longrightarrow> young n (delete now k' s) k e"
    and delete_expiry: "inv s \<Longrightarrow> expiry (delete now k s) = (expiry s)(k := None)"
    and delete_inv: "inv s \<Longrightarrow> inv (delete now k s)"
    and delete_cap: "inv s \<Longrightarrow> cap (delete now k s) = cap s"
    and young_expiry: "inv s \<Longrightarrow> young n s k e \<Longrightarrow> expiry s k = Some e"
    and tryAdd_eq: "tryAdd now now' k t s =
      (let (present, s1) = has now k s in if present then (False, s1) else (True, add now' k t s1))"

text \<open>A run of operations on a store; it collects the answers of \<open>tryAdd\<close>.\<close>

datatype used_op =
    UseTry int int string "int option"
  | UseHas int string
  | UseDelete int string

fun used_run ::
  "(int \<Rightarrow> string \<Rightarrow> 's \<Rightarrow> bool \<times> 's) \<Rightarrow> (int \<Rightarrow> int \<Rightarrow> string \<Rightarrow> int option \<Rightarrow> 's \<Rightarrow> bool \<times> 's) \<Rightarrow>
   (int \<Rightarrow> string \<Rightarrow> 's \<Rightarrow> 's) \<Rightarrow> used_op list \<Rightarrow> 's \<Rightarrow> (string \<times> bool) list \<times> 's" where
  "used_run has tryAdd delete [] s = ([], s)"
| "used_run has tryAdd delete (UseTry now now' k t # ops) s =
     (let (b, s1) = tryAdd now now' k t s; (rs, s2) = used_run has tryAdd delete ops s1 in ((k, b) # rs, s2))"
| "used_run has tryAdd delete (UseHas now k # ops) s = used_run has tryAdd delete ops (snd (has now k s))"
| "used_run has tryAdd delete (UseDelete now k # ops) s = used_run has tryAdd delete ops (delete now k s)"

fun op_before :: "int \<Rightarrow> string \<Rightarrow> used_op \<Rightarrow> bool" where
  "op_before e k (UseTry now now' k' t) \<longleftrightarrow> now < e \<and> now' < e"
| "op_before e k (UseHas now k') \<longleftrightarrow> now < e"
| "op_before e k (UseDelete now k') \<longleftrightarrow> k' \<noteq> k"

fun op_records :: "used_op \<Rightarrow> bool" where
  "op_records (UseTry now now' k t) = True"
| "op_records _ = False"

definition records :: "used_op list \<Rightarrow> int" where
  "records ops = int (length (filter op_records ops))"

lemma records_simps [simp]:
  "records [] = 0"
  "records (UseTry now now' k t # ops) = records ops + 1"
  "records (UseHas now k # ops) = records ops"
  "records (UseDelete now k # ops) = records ops"
  "0 \<le> records ops"
  by (simp_all add: records_def)

context used_token_store
begin

text \<open>A recorded token is refused until it expires, is deleted, or is pushed out.\<close>

lemma young_refused:
  assumes "inv s" and "young n s k e" and "\<forall>op \<in> set ops. op_before e k op"
    and "int n + records ops < cap s"
  shows "(k, True) \<notin> set (fst (used_run has tryAdd delete ops s))"
  using assms
proof (induction ops arbitrary: s n)
  case Nil
  then show ?case by simp
next
  case (Cons op ops)
  show ?case
  proof (cases op)
    case (UseTry now now' k' t)
    let ?s1 = "snd (has now k' s)"
    have before: "now < e" "now' < e" using Cons.prems(3) UseTry by simp_all
    have inv1: "inv ?s1" and young1: "young n ?s1 k e" and cap1: "cap ?s1 = cap s"
      using has_inv has_keeps [OF Cons.prems(1,2) before(1)] has_cap Cons.prems(1) by auto
    have bound: "int n + records ops + 1 < cap s" using Cons.prems(4) UseTry by simp
    show ?thesis
    proof (cases "fst (has now k' s)")
      case True
      have "tryAdd now now' k' t s = (False, ?s1)"
        using True by (simp add: tryAdd_eq case_prod_beta)
      moreover have "(k, True) \<notin> set (fst (used_run has tryAdd delete ops ?s1))"
        using Cons.IH [OF inv1 young1] Cons.prems(3) bound cap1 by simp
      ultimately show ?thesis by (simp add: UseTry case_prod_beta)
    next
      case False
      have "now < e \<Longrightarrow> fst (has now k s)"
        using has_value [OF Cons.prems(1)] young_expiry [OF Cons.prems(1,2)] by simp
      with False before have neq: "k' \<noteq> k" by auto
      let ?s2 = "add now' k' t ?s1"
      have "int n + 2 \<le> cap ?s1"
        using bound cap1 records_simps(5) [of ops] by linarith
      then have young2: "young (Suc n) ?s2 k e"
        by (rule add_keeps [OF inv1 young1 neq before(2)])
      have "(k, True) \<notin> set (fst (used_run has tryAdd delete ops ?s2))"
        using Cons.IH [OF add_inv [OF inv1] young2] Cons.prems(3) bound cap1 add_cap [OF inv1] by simp
      moreover have "tryAdd now now' k' t s = (True, ?s2)"
        using False by (simp add: tryAdd_eq case_prod_beta)
      ultimately show ?thesis using neq by (simp add: UseTry case_prod_beta)
    qed
  next
    case (UseHas now k')
    then have "now < e" using Cons.prems(3) by simp
    then show ?thesis
      using Cons.IH [OF has_inv [OF Cons.prems(1)] has_keeps [OF Cons.prems(1,2)]] Cons.prems has_cap
      by (simp add: UseHas)
  next
    case (UseDelete now k')
    then have "k' \<noteq> k" using Cons.prems(3) by simp
    then show ?thesis
      using Cons.IH [OF delete_inv [OF Cons.prems(1)] delete_keeps [OF Cons.prems(1,2)]] Cons.prems delete_cap
      by (simp add: UseDelete)
  qed
qed

lemma tryAdd_young:
  assumes "inv s" and "tryAdd now now' k t s = (True, s1)"
  shows "inv s1 \<and> cap s1 = cap s \<and> young 0 s1 k (now' + (case t of Some x \<Rightarrow> x | None \<Rightarrow> ttl s))"
proof -
  let ?s = "snd (has now k s)"
  have "\<not> fst (has now k s)" and "s1 = add now' k t ?s"
    using assms(2) by (auto simp: tryAdd_eq case_prod_beta split: if_splits)
  then show ?thesis
    using add_young [OF has_inv [OF assms(1)] has_absent [OF assms(1)]] has_cap [OF assms(1)]
      add_inv [OF has_inv [OF assms(1)]] add_cap [OF has_inv [OF assms(1)]] by metis
qed

lemma accepted_once:
  assumes "inv s" and "tryAdd now now' k t s = (True, s1)"
    and "\<forall>op \<in> set ops. op_before (now' + (case t of Some x \<Rightarrow> x | None \<Rightarrow> ttl s)) k op"
    and "records ops < cap s"
  shows "(k, True) \<notin> set (fst (used_run has tryAdd delete ops s1))"
proof (rule young_refused)
  show "young 0 s1 k (now' + (case t of Some x \<Rightarrow> x | None \<Rightarrow> ttl s))" and "inv s1"
    and "int 0 + records ops < cap s1"
    using tryAdd_young [OF assms(1,2)] assms(4) by simp_all
qed (rule assms(3))

text \<open>A deleted token may be used again.\<close>

lemma deleted_accepted:
  assumes "inv s"
  shows "fst (tryAdd now now' k t (delete d k s))"
proof -
  have "\<not> fst (has now k (delete d k s))"
    using has_value [OF delete_inv [OF assms]] delete_expiry [OF assms] by simp
  then show ?thesis by (simp add: tryAdd_eq case_prod_beta)
qed

end

lemma mu_inv_add: "mu_inv s \<Longrightarrow> mu_inv (mu_add now k t s)"
  using bounded_set_size [of "jm_filter (\<lambda>k e. \<not> e \<le> now) (us_seen s)"]
  by (simp add: mu_inv_def mu_add_def mu_prune_def Let_def)

lemma mu_inv_del: "mu_inv s \<Longrightarrow> mu_inv (s\<lparr>us_seen := jm_del k (us_seen s)\<rparr>)"
  using length_delete_le [of k "us_seen s"] by (simp add: mu_inv_def)

lemma mu_inv_wf: "mu_inv s \<Longrightarrow> jm_wf (us_seen s)"
  by (simp add: mu_inv_def)

lemma mu_add_cap: "us_capacity (mu_add now k t s) = us_capacity s"
  by (simp add: mu_add_def mu_prune_def Let_def)

interpretation memu: used_token_store mu_has mu_add mu_tryAdd "\<lambda>now. mu_delete"
  "\<lambda>s. jm_get (us_seen s)" "\<lambda>n s. jm_young n (us_seen s)" us_capacity us_defaultTtlMs mu_inv
proof unfold_locales
  fix s k and n :: nat and e now :: int and k' t
  assume inv: "mu_inv s" and young: "jm_young n (us_seen s) k e" and "now < e"
  show "jm_young n (us_seen (snd (mu_has now k' s))) k e"
    using jm_young_get [OF young] young \<open>now < e\<close> mu_inv_wf [OF inv]
    by (cases "k' = k") (auto simp: mu_has_def jm_young_delete split: option.splits)
  show "jm_young (Suc n) (us_seen (mu_add now k' t s)) k e" if "k' \<noteq> k" "int n + 2 \<le> us_capacity s"
    using that young \<open>now < e\<close> mu_inv_wf [OF inv]
    by (simp add: mu_add_def mu_prune_def Let_def jm_add_keeps)
next
  fix s k now t
  assume "\<not> fst (mu_has now k s)"
  then show "jm_get (us_seen (snd (mu_has now k s))) k = None"
    by (simp add: mu_has_def delete_conv' split: option.splits if_splits)
next
  fix s k now t
  assume "mu_inv s"
  then show "mu_inv (mu_add now k t s)" by (rule mu_inv_add)
qed (auto simp: mu_inv_del mu_inv_add mu_inv_wf mu_has_def mu_delete_def mu_tryAdd_def mu_add_cap mu_add_def
      mu_prune_def Let_def jsmap_simps delete_conv' jm_young_delete jm_young_get jm_add_new split: option.splits)

lemma fu_loaded_simps [simp]: "fu_inv s \<Longrightarrow> fu_ensureLoaded fs now s = s"
  by (simp add: fu_inv_def fu_ensureLoaded_def)

lemma fu_inv_wf: "fu_inv s \<Longrightarrow> jm_wf (fu_seen s)"
  by (simp add: fu_inv_def)

lemma fu_schedule_simps [simp]:
  "fu_seen (fu_scheduleWrite s) = fu_seen s" "fu_inv (fu_scheduleWrite s) = fu_inv s"
  "fu_capacity (fu_scheduleWrite s) = fu_capacity s" "fu_defaultTtlMs (fu_scheduleWrite s) = fu_defaultTtlMs s"
  "fu_filePath (fu_scheduleWrite s) = fu_filePath s" "fu_loaded (fu_scheduleWrite s) = fu_loaded s"
  by (simp_all add: fu_scheduleWrite_def fu_inv_def)

lemma fu_inv_del: "fu_inv s \<Longrightarrow> fu_inv (s\<lparr>fu_seen := jm_del k (fu_seen s)\<rparr>)"
  by (simp add: fu_inv_def)

lemma fu_inv_add: "fu_inv s \<Longrightarrow> fu_inv (fu_add fs now k t s)"
  by (simp add: fu_add_def fu_prune_def Let_def) (simp add: fu_inv_def)

interpretation fileu: used_token_store "fu_has fs" "fu_add fs" "fu_tryAdd fs" "fu_delete fs"
  "\<lambda>s. jm_get (fu_seen s)" "\<lambda>n s. jm_young n (fu_seen s)" fu_capacity fu_defaultTtlMs fu_inv
  for fs
proof unfold_locales
  fix s k and n :: nat and e now :: int and k' t
  assume inv: "fu_inv s" and young: "jm_young n (fu_seen s) k e" and "now < e"
  show "jm_young n (fu_seen (snd (fu_has fs now k' s))) k e"
    using jm_young_get [OF young] young \<open>now < e\<close> fu_inv_wf [OF inv] inv
    by (cases "k' = k") (auto simp: fu_has_def jm_young_delete split: option.splits)
  show "jm_young (Suc n) (fu_seen (fu_add fs now k' t s)) k e" if "k' \<noteq> k" "int n + 2 \<le> fu_capacity s"
    using that young \<open>now < e\<close> fu_inv_wf [OF inv] inv
    by (simp add: fu_add_def fu_prune_def Let_def jm_add_keeps)
next
  fix s k now t
  assume "fu_inv s" and "\<not> fst (fu_has fs now k s)"
  then show "jm_get (fu_seen (snd (fu_has fs now k s))) k = None"
    by (simp add: fu_has_def delete_conv' split: option.splits if_splits)
next
  fix s k now t
  assume "fu_inv s"
  then show "fu_inv (fu_add fs now k t s)" by (rule fu_inv_add)
qed (auto simp: fu_inv_del fu_inv_wf fu_has_def fu_delete_def fu_tryAdd_def fu_add_def
      fu_prune_def Let_def jsmap_simps delete_conv' jm_young_delete jm_young_get jm_add_new split: option.splits)

section \<open>The contract of a string map\<close>

text \<open>\<open>view now s\<close> is what a reader at time \<open>now\<close> sees; \<open>set\<close> may push other keys out.\<close>

locale ttl_string_map =
  fixes get :: "int \<Rightarrow> string \<Rightarrow> 's \<Rightarrow> string option \<times> 's"
    and set :: "int \<Rightarrow> int \<Rightarrow> string \<Rightarrow> string \<Rightarrow> int \<Rightarrow> 's \<Rightarrow> 's"
    and delete :: "int \<Rightarrow> string \<Rightarrow> 's \<Rightarrow> 's"
    and view :: "int \<Rightarrow> 's \<Rightarrow> string \<Rightarrow> string option"
    and inv :: "'s \<Rightarrow> bool"
  assumes get_value: "inv s \<Longrightarrow> fst (get now k s) = view now s k"
    and get_keeps: "inv s \<Longrightarrow> now \<le> now' \<Longrightarrow> view now' (snd (get now k s)) = view now' s"
    and get_shrinks: "inv s \<Longrightarrow> view now' (snd (get now k s)) k' \<in> {view now' s k', None}"
    and get_inv: "inv s \<Longrightarrow> inv (snd (get now k s))"
    and set_value: "inv s \<Longrightarrow> view now'' (set now now' k v t s) k \<in> {Some v, None}"
    and set_same: "inv s \<Longrightarrow> now \<le> now' \<Longrightarrow> now'' < now + t \<Longrightarrow> view now'' (set now now' k v t s) k = Some v"
    and set_over: "inv s \<Longrightarrow> now \<le> now' \<Longrightarrow> now' + max 1 t \<le> now'' \<Longrightarrow> view now'' (set now now' k v t s) k = None"
    and set_other: "inv s \<Longrightarrow> k' \<noteq> k \<Longrightarrow> view now'' (set now now' k v t s) k' \<in> {view now'' s k', None}"
    and set_inv: "inv s \<Longrightarrow> inv (set now now' k v t s)"
    and delete_view: "inv s \<Longrightarrow> view now' (delete now k s) = (view now' s)(k := None)"
    and delete_inv: "inv s \<Longrightarrow> inv (delete now k s)"
begin

lemma set_get:
  assumes "inv s" and "now \<le> now'" and "now'' < now + t"
  shows "fst (get now'' k (set now now' k v t s)) = Some v"
  using assms by (simp add: get_value set_inv set_same)

lemma set_get_over:
  assumes "inv s" and "now \<le> now'" and "now' + max 1 t \<le> now''"
  shows "fst (get now'' k (set now now' k v t s)) = None"
  using assms by (simp add: get_value set_inv set_over)

lemma delete_get: "inv s \<Longrightarrow> fst (get now' k (delete now k s)) = None"
  by (simp add: get_value delete_inv delete_view)

lemma set_other_Some:
  assumes "inv s" and "k' \<noteq> k" and "view now'' (set now now' k v t s) k' = Some w"
  shows "view now'' s k' = Some w"
  using set_other [OF assms(1,2), of now'' now now' v t] assms(3) by auto

text \<open>Another key's value is untouched, or was pushed out.\<close>

lemma set_get_other:
  assumes "inv s" and "k' \<noteq> k"
  shows "fst (get now'' k' (set now now' k v t s)) \<in> {fst (get now'' k' s), None}"
  using set_other [OF assms, of now'' now now' v t] assms(1) by (simp add: get_value set_inv)

end

text \<open>The value of a memory entry at a time, and of a file entry.\<close>

definition mm_view :: "int \<Rightarrow> ttl_map \<Rightarrow> string \<Rightarrow> string option" where
  "mm_view now s k =
     (case jm_get (tm_entries s) k of None \<Rightarrow> None | Some (v, e) \<Rightarrow> if e \<le> now then None else Some v)"

definition fm_view :: "int \<Rightarrow> file_ttl_map \<Rightarrow> string \<Rightarrow> string option" where
  "fm_view now s k =
     (case jm_get (fm_cache s) k of None \<Rightarrow> None | Some (v, e) \<Rightarrow> if jsnum_le e now then None else Some v)"

lemma jsnum_le_later: "jsnum_le e now \<Longrightarrow> now \<le> now' \<Longrightarrow> jsnum_le e now'"
  by (cases e) auto

interpretation memm: ttl_string_map mm_get "\<lambda>now now' k v t. mm_set now k v (Some t)" "\<lambda>now. mm_delete"
  mm_view mm_inv
proof unfold_locales
  fix s :: ttl_map and k k' :: string and now now' now'' :: int and v t
  assume inv: "mm_inv s"
  let ?m = "jm_filter (\<lambda>k (v, e). \<not> e \<le> now) (tm_entries s)"
  have wf: "jm_wf (tm_entries s)" using inv by (simp add: mm_inv_def)
  show "mm_view now'' (mm_set now k v (Some t) s) k' \<in> {mm_view now'' s k', None}" if "k' \<noteq> k"
  proof -
    let ?m' = "tm_entries (mm_set now k v (Some t) s)"
    have "jm_get ?m' k' = jm_get (tm_entries s) k' \<or> jm_get ?m' k' = None"
      using bounded_set_other [OF wf that] by (simp add: mm_set_def mm_prune_def Let_def)
    then show ?thesis by (elim disjE) (simp_all add: mm_view_def)
  qed
  show "mm_inv (mm_set now k v (Some t) s)"
    using wf by (simp add: mm_inv_def mm_set_def mm_prune_def Let_def)
  show "mm_view now' (snd (mm_get now k s)) = mm_view now' s" if "now \<le> now'"
    using that by (auto simp: mm_view_def mm_get_def jsmap_simps fun_eq_iff split: option.splits)
qed (auto simp: mm_view_def mm_get_def mm_set_def mm_prune_def mm_delete_def mm_inv_def Let_def jsmap_simps
      fun_eq_iff split: option.splits)

lemma fm_loaded_simps [simp]: "fm_inv s \<Longrightarrow> fm_ensureLoaded fs now s = s"
  by (simp add: fm_inv_def fm_ensureLoaded_def)

lemma fm_schedule_simps [simp]:
  "fm_cache (fm_scheduleWrite s) = fm_cache s" "fm_inv (fm_scheduleWrite s) = fm_inv s"
  by (simp_all add: fm_scheduleWrite_def fm_inv_def)

interpretation filem: ttl_string_map "fm_get fs" "fm_set fs" "fm_delete fs" fm_view fm_inv
  for fs
proof unfold_locales
  fix s :: file_ttl_map and k k' :: string and now now' now'' :: int and v t
  assume inv: "fm_inv s"
  have wf: "jm_wf (fm_cache s)" using inv by (simp add: fm_inv_def)
  show "fm_view now'' (fm_set fs now now' k v t s) k' \<in> {fm_view now'' s k', None}" if "k' \<noteq> k"
  proof -
    let ?m' = "fm_cache (fm_set fs now now' k v t s)"
    have "jm_get ?m' k' = jm_get (fm_cache s) k' \<or> jm_get ?m' k' = None"
      using bounded_set_other [OF wf that] inv by (simp add: fm_set_def fm_prune_def Let_def)
    then show ?thesis by (elim disjE) (simp_all add: fm_view_def)
  qed
  show "fm_inv (fm_set fs now now' k v t s)"
    using inv by (simp add: fm_set_def Let_def) (simp add: fm_prune_def fm_inv_def)
  show "fm_view now' (snd (fm_get fs now k s)) = fm_view now' s" if "now \<le> now'"
    using that inv jsnum_le_later
    by (auto simp: fm_view_def fm_get_def jsmap_simps fun_eq_iff split: option.splits)
  show "fm_inv (snd (fm_get fs now k s))"
    using inv by (auto simp: fm_get_def fm_inv_def [of "s\<lparr>fm_cache := _\<rparr>"] wf split: option.splits) (simp_all add: fm_inv_def)
  show "fm_inv (fm_delete fs now k s)"
    using inv by (simp add: fm_delete_def Let_def) (simp add: fm_inv_def)
qed (auto simp: fm_view_def fm_get_def fm_set_def fm_prune_def fm_delete_def Let_def jsmap_simps
      fun_eq_iff split: option.splits)

section \<open>Restart\<close>

lemma fu_load_get:
  "jm_wf m \<Longrightarrow> jm_get (fu_load now (map (\<lambda>(k, e). (k, JObj [(''e'', JNum (Fin e))])) m) acc) k =
     (case jm_get m k of Some e \<Rightarrow> if e \<le> now then jm_get acc k else Some e | None \<Rightarrow> jm_get acc k)"
proof (induction m arbitrary: acc)
  case Nil
  then show ?case by simp
next
  case (Cons p m)
  obtain k' e where p: "p = (k', e)" by fastforce
  with Cons.prems have "jm_get m k' = None" by (simp add: map_of_eq_None_iff)
  with Cons p show ?case
    by (auto simp: readNumber_def isPlainObject_def json_prop_def jsmap_simps split: option.splits)
qed

lemma fm_load_get:
  "jm_wf m \<Longrightarrow> \<forall>(k, v, e) \<in> set m. v \<noteq> [] \<and> e \<noteq> PInf \<and> e \<noteq> NInf \<Longrightarrow>
   jm_get (fm_load now (map (\<lambda>(k, v, e). (k, JObj [(''v'', JStr v), (''e'', json_norm (JNum e))])) m) acc) k =
     (case jm_get m k of Some (v, e) \<Rightarrow> if jsnum_le e now then jm_get acc k else Some (v, e)
      | None \<Rightarrow> jm_get acc k)"
proof (induction m arbitrary: acc)
  case Nil
  then show ?case by simp
next
  case (Cons p m)
  obtain k' v x where px: "p = (k', v, x)" by (cases p)
  with Cons.prems(2) have "v \<noteq> []" and "x \<noteq> PInf" and "x \<noteq> NInf" by simp_all
  then obtain e where p: "p = (k', v, Fin e)" using px by (cases x) simp_all
  with Cons.prems have "jm_get m k' = None" by (simp add: map_of_eq_None_iff)
  with Cons p \<open>v \<noteq> []\<close> show ?case
    by (auto simp: readString_def isPlainObject_def json_prop_def jsmap_simps split: option.splits)
qed

lemma file_entries_written:
  assumes "tmp \<noteq> file"
  shows "file_entries (snd (writeJsonAtomic file tmp (JObj [(''version'', x), (''entries'', JObj ps)]) WriteOk fs)) file =
    map (\<lambda>(k, v). (k, json_norm v)) ps"
  using assms by (simp add: file_entries_def readJsonSafe_after_write isPlainObject_def json_prop_def Let_def)

lemma fu_flush_entries:
  assumes "tmp \<noteq> fu_filePath s"
  shows "file_entries (snd (snd (fu_flush t tmp WriteOk s fs))) (fu_filePath s) =
    map (\<lambda>(k, e). (k, JObj [(''e'', JNum (Fin e))])) (jm_filter (\<lambda>k e. \<not> e \<le> t) (fu_seen s))"
  using assms
  by (simp add: fu_flush_def fu_persist_def fu_document_def fu_prune_def Let_def case_prod_beta
      file_entries_written o_def)

lemma fm_flush_entries:
  assumes "tmp \<noteq> fm_filePath s"
  shows "file_entries (snd (snd (fm_flush t tmp WriteOk s fs))) (fm_filePath s) =
    map (\<lambda>(k, v, e). (k, JObj [(''v'', JStr v), (''e'', json_norm (JNum e))]))
      (jm_filter (\<lambda>k (v, e). \<not> jsnum_le e t) (fm_cache s))"
  using assms
  by (simp add: fm_flush_def fm_persist_def fm_document_def fm_prune_def Let_def case_prod_beta
      file_entries_written o_def)

text \<open>What a store just constructed on a file answers.\<close>

lemma fu_has_new:
  "fst (fu_has fs now k (fu_new file c d)) =
     (case jm_get (fu_load now (file_entries fs file) []) k of None \<Rightarrow> False | Some e \<Rightarrow> now < e)"
  by (simp add: fu_has_def fu_ensureLoaded_def fu_new_def Let_def split: option.splits)

lemma fm_get_new:
  "fst (fm_get fs now k (fm_new file c)) =
     (case jm_get (fm_load now (file_entries fs file) []) k of
        None \<Rightarrow> None | Some (v, e) \<Rightarrow> if jsnum_le e now then None else Some v)"
  by (simp add: fm_get_def fm_ensureLoaded_def fm_new_def Let_def split: option.splits)

lemma fm_restart:
  assumes "fm_inv s" and "tmp \<noteq> fm_filePath s" and "t \<le> now"
    and "\<forall>(k, v, e) \<in> set (fm_cache s). v \<noteq> [] \<and> e \<noteq> PInf \<and> e \<noteq> NInf"
  shows "fst (fm_get (snd (snd (fm_flush t tmp WriteOk s fs))) now k (fm_new (fm_filePath s) c)) =
    fst (fm_get fs now k s)"
proof -
  let ?m = "jm_filter (\<lambda>k (v, e). \<not> jsnum_le e t) (fm_cache s)"
  have wf: "jm_wf (fm_cache s)" using assms(1) by (simp add: fm_inv_def)
  have "\<forall>(k, v, e) \<in> set ?m. v \<noteq> [] \<and> e \<noteq> PInf \<and> e \<noteq> NInf"
    using assms(4) by auto
  note load = fm_load_get [OF jm_wf_filter [OF wf] this]
  show ?thesis
  proof (cases "jm_get (fm_cache s) k")
    case None
    then show ?thesis
      unfolding fm_get_new fm_flush_entries [OF assms(2)] load
      using assms(1) by (simp add: jm_get_filter [OF wf] filem.get_value fm_view_def)
  next
    case (Some p)
    obtain v e where p: "p = (v, e)" by fastforce
    have "jsnum_le e t \<Longrightarrow> jsnum_le e now"
      by (rule jsnum_le_later [OF _ assms(3)])
    then show ?thesis
      unfolding fm_get_new fm_flush_entries [OF assms(2)] load
      using assms(1) Some p
      by (cases "jsnum_le e t") (simp_all add: jm_get_filter [OF wf] filem.get_value fm_view_def)
  qed
qed

section \<open>Properties\<close>

text \<open>
  C25 (safety). In memory and in a file, a single-use token that \<open>tryAdd\<close> accepted is
  refused by every later \<open>tryAdd\<close>, whatever runs in between, until its time to live is
  over, it is deleted, or as many tokens as the capacity were recorded after it.
\<close>

theorem used_token_single_use:
  assumes "mu_inv m" and "fu_inv f"
    and "mu_tryAdd now now' k t m = (True, m1)" and "fu_tryAdd fs now now' k t f = (True, f1)"
    and "\<forall>op \<in> set ops. op_before (now' + (case t of Some x \<Rightarrow> x | None \<Rightarrow> us_defaultTtlMs m)) k op"
    and "\<forall>op \<in> set ops. op_before (now' + (case t of Some x \<Rightarrow> x | None \<Rightarrow> fu_defaultTtlMs f)) k op"
    and "records ops < us_capacity m" and "records ops < fu_capacity f"
  shows "(k, True) \<notin> set (fst (used_run mu_has mu_tryAdd (\<lambda>now. mu_delete) ops m1)) \<and>
    (k, True) \<notin> set (fst (used_run (fu_has fs) (fu_tryAdd fs) (fu_delete fs) ops f1))"
  using memu.accepted_once [OF assms(1,3,5,7)] fileu.accepted_once [OF assms(2,4,6,8)] by simp

definition demo_used :: used_store where
  "demo_used = mu_new (Some 5) (Some 100)"

definition demo_file_used :: file_used_store where
  "demo_file_used = (fu_new ''d/used.json'' (Some 5) (Some 100))\<lparr>fu_loaded := True\<rparr>"

lemma demo_used_inv: "mu_inv demo_used" "fu_inv demo_file_used"
  by (simp_all add: mu_inv_def demo_used_def mu_new_def fu_inv_def demo_file_used_def fu_new_def)

theorem used_token_single_use_witness:
  "(''k'', True) \<notin> set (fst (used_run mu_has mu_tryAdd (\<lambda>now. mu_delete)
     [UseTry 11 11 ''k'' None, UseTry 12 12 ''l'' None, UseHas 13 ''k'', UseTry 14 14 ''k'' None]
     (snd (mu_tryAdd 10 10 ''k'' None demo_used))))"
proof -
  have "mu_tryAdd 10 10 ''k'' None demo_used = (True, snd (mu_tryAdd 10 10 ''k'' None demo_used))"
    and "fu_tryAdd (\<lambda>_. None) 10 10 ''k'' None demo_file_used =
      (True, snd (fu_tryAdd (\<lambda>_. None) 10 10 ''k'' None demo_file_used))"
    by (simp_all add: mu_tryAdd_def mu_has_def demo_used_def mu_new_def fu_tryAdd_def fu_has_def demo_file_used_def
        fu_new_def fu_ensureLoaded_def)
  then show ?thesis
    by (rule used_token_single_use [OF demo_used_inv, THEN conjunct1])
      (simp_all add: demo_used_def mu_new_def demo_file_used_def fu_new_def)
qed

text \<open>
  A loaded file store that was flushed answers after a restart as it would
  have answered without one: every used token stays used until its own expiry.
\<close>

theorem file_used_store_restart:
  assumes "fu_inv s" and "tmp \<noteq> fu_filePath s" and "t \<le> now"
  shows "fst (fu_has (snd (snd (fu_flush t tmp WriteOk s fs))) now k (fu_new (fu_filePath s) c d)) =
    fst (fu_has fs now k s)"
proof -
  have wf: "jm_wf (fu_seen s)" using assms(1) by (simp add: fu_inv_def)
  then show ?thesis
    unfolding fu_has_new fu_flush_entries [OF assms(2)]
    using assms(1,3) by (simp add: fu_load_get jm_get_filter fileu.has_value split: option.splits)
qed

theorem file_used_store_restart_witness:
  "fst (fu_has (snd (snd (fu_flush 20 ''d/tmp'' WriteOk
      (fu_add (\<lambda>_. None) 10 ''k'' None demo_file_used) (\<lambda>_. None)))) 50 ''k'' (fu_new ''d/used.json'' None None))"
  using file_used_store_restart [of "fu_add (\<lambda>_. None) 10 ''k'' None demo_file_used" "''d/tmp''" 20 50 "\<lambda>_. None" "''k''"
      None None]
  by (simp add: fu_inv_add demo_used_inv fu_add_def fu_prune_def demo_file_used_def fu_new_def fu_ensureLoaded_def
      fu_has_def fu_scheduleWrite_def fu_inv_def jm_filter_def)

text \<open>
  A file store that is flushed before its first lookup has not read its file
  yet: the flush succeeds and overwrites the file with no entries, so that no token that
  was recorded before the restart is refused afterwards.
\<close>

theorem file_used_store_flush_before_load:
  assumes "tmp \<noteq> file"
  shows "fst (fu_flush t tmp WriteOk (fu_new file c d) fs) = Inr () \<and>
    \<not> fst (fu_has (snd (snd (fu_flush t tmp WriteOk (fu_new file c d) fs))) now k (fu_new file c' d'))"
proof -
  have "fu_filePath (fu_new file c d) = file" by (simp add: fu_new_def)
  then have "file_entries (snd (snd (fu_flush t tmp WriteOk (fu_new file c d) fs))) file = []"
    using fu_flush_entries [of tmp "fu_new file c d" t fs] assms by (simp add: fu_new_def jm_filter_def)
  then show ?thesis
    unfolding fu_has_new
    by (simp add: fu_flush_def fu_persist_def writeJsonAtomic_def Let_def case_prod_beta)
qed

definition demo_token_file :: file_system where
  "demo_token_file = [''d/used.json'' \<mapsto> Json (JObj [(''version'', JNum (Fin 1)),
     (''entries'', JObj [(''k'', JObj [(''e'', JNum (Fin 110))])])])]"

theorem file_used_store_flush_before_load_witness:
  "fst (fu_has demo_token_file 50 ''k'' (fu_new ''d/used.json'' None None)) \<and>
   \<not> fst (fu_has (snd (snd (fu_flush 20 ''d/tmp'' WriteOk (fu_new ''d/used.json'' None None) demo_token_file)))
        50 ''k'' (fu_new ''d/used.json'' None None))"
proof
  show "fst (fu_has demo_token_file 50 ''k'' (fu_new ''d/used.json'' None None))"
    unfolding fu_has_new
    by (simp add: demo_token_file_def file_entries_def readJsonSafe_def json_prop_def isPlainObject_def readNumber_def)
  show "\<not> fst (fu_has (snd (snd (fu_flush 20 ''d/tmp'' WriteOk (fu_new ''d/used.json'' None None) demo_token_file)))
        50 ''k'' (fu_new ''d/used.json'' None None))"
    using file_used_store_flush_before_load [of "''d/tmp''" "''d/used.json''" 20 None None demo_token_file 50 "''k''"
        None None] by simp
qed

text \<open>
  Both string maps answer the value last set under a key while its time to
  live lasts and nothing after it, and setting one key leaves every other key's value as it
  was or pushes the key out.
\<close>

theorem ttl_map_set_get:
  assumes "mm_inv m" and "fm_inv f" and "now < w + t" and "w + max 1 t \<le> late" and "k' \<noteq> k"
  shows "fst (mm_get now k (mm_set w k v (Some t) m)) = Some v \<and>
    fst (mm_get late k (mm_set w k v (Some t) m)) = None \<and>
    fst (mm_get now k' (mm_set w k v (Some t) m)) \<in> {fst (mm_get now k' m), None} \<and>
    fst (fm_get fs now k (fm_set fs w w k v t f)) = Some v \<and>
    fst (fm_get fs late k (fm_set fs w w k v t f)) = None \<and>
    fst (fm_get fs now k' (fm_set fs w w k v t f)) \<in> {fst (fm_get fs now k' f), None}"
  using memm.set_get [OF assms(1) order_refl assms(3), of k v]
    memm.set_get_over [OF assms(1) order_refl assms(4), of k v]
    memm.set_get_other [OF assms(1,5), of now w v t]
    filem.set_get [OF assms(2) order_refl assms(3), of fs k v]
    filem.set_get_over [OF assms(2) order_refl assms(4), of fs k v]
    filem.set_get_other [OF assms(2,5), of fs now w w v t] by (intro conjI)

theorem ttl_map_set_get_witness:
  "fst (mm_get 15 ''a'' (mm_set 10 ''a'' ''x'' (Some 10) \<lparr>tm_entries = [], tm_capacity = 2, tm_defaultTtlMs = 5\<rparr>)) = Some ''x''"
  using ttl_map_set_get [of "\<lparr>tm_entries = [], tm_capacity = 2, tm_defaultTtlMs = 5\<rparr>"
      "(fm_new ''f'' None)\<lparr>fm_loaded := True\<rparr>" 15 10 10 30 "''b''" "''a''" "''x''" "\<lambda>_. None"]
  by (simp add: mm_inv_def fm_inv_def fm_new_def)

end
