(* ===== verification/Callbacks.thy ===== *)
theory Callbacks
  imports Token_Store
begin

text \<open>
  The callback tokens of \<^verbatim>\<open>src/keyboards.ts\<close>: \<open>CallbackRegistry\<close>, whose tokens are opaque
  keys of a process-local map, and \<open>SignedCallbackRegistry\<close>, whose tokens carry their
  payload and an HMAC and whose consumption, aliases and message bindings live in the
  stores of \<^theory_text>\<open>Token_Store\<close>. The contract a bot relies on is the locale
  \<open>callback_store\<close>; both registries interpret it.

  The caller passes the fresh random identifiers. The operations are synchronous: \<open>clk\<close> is
  what \<open>Date.now()\<close> answers throughout one call, \<open>now\<close> the time a caller passes. A truthy
  string is a non-empty one.
\<close>

section \<open>Records\<close>

record callback_record =
  cr_data :: string
  cr_roomId :: string
  cr_messageEventId :: string
  cr_userId :: "string option"
  cr_expiresAtMs :: int
  cr_answered :: bool
  cr_singleUse :: bool

record issue_params =
  ip_data :: string
  ip_roomId :: string
  ip_messageEventId :: "string option"
  ip_userId :: "string option"
  ip_ttlMs :: "int option"
  ip_singleUse :: "bool option"

definition truthy :: "string option \<Rightarrow> string option" where
  "truthy s = (case s of Some [] \<Rightarrow> None | _ \<Rightarrow> s)"

lemma truthy_Some: "truthy s = Some x \<longleftrightarrow> s = Some x \<and> x \<noteq> []"
  by (auto simp: truthy_def split: option.splits list.splits)

lemma truthy_idem [simp]: "truthy (truthy s) = truthy s"
  by (auto simp: truthy_def split: option.splits list.splits)

definition or_default :: "'a \<Rightarrow> 'a option \<Rightarrow> 'a" where
  "or_default d x = (case x of Some v \<Rightarrow> v | None \<Rightarrow> d)"

lemma or_default_simps [simp]: "or_default d (Some v) = v" "or_default d None = d"
  by (simp_all add: or_default_def)

text \<open>The guard \<open>record.userId && userId && record.userId !== userId\<close> of both \<open>resolve\<close>s.\<close>

definition wrong_user :: "callback_record \<Rightarrow> string option \<Rightarrow> bool" where
  "wrong_user r userId =
     (case truthy (cr_userId r) of
        None \<Rightarrow> False
      | Some a \<Rightarrow> (case truthy userId of None \<Rightarrow> False | Some b \<Rightarrow> a \<noteq> b))"

section \<open>CallbackRegistry\<close>

record callback_registry =
  cb_tokens :: "(string, callback_record) jsmap"
  cb_capacity :: int
  cb_ttlMs :: int

definition cb_new :: "int option \<Rightarrow> int option \<Rightarrow> callback_registry" where
  "cb_new maxEntries ttlMs =
     \<lparr>cb_tokens = [], cb_capacity = max 1 (or_default 4096 maxEntries),
      cb_ttlMs = max 1 (or_default (24 * 60 * 60 * 1000) ttlMs)\<rparr>"

definition cb_prune :: "int \<Rightarrow> callback_registry \<Rightarrow> callback_registry" where
  "cb_prune now s =
     s\<lparr>cb_tokens := jm_evict (cb_capacity s) (jm_filter (\<lambda>t r. \<not> cr_expiresAtMs r \<le> now) (cb_tokens s))\<rparr>"

definition cb_issue :: "int \<Rightarrow> string \<Rightarrow> issue_params \<Rightarrow> callback_registry \<Rightarrow> string \<times> callback_registry" where
  "cb_issue now token p s =
     (let s1 = cb_prune now s;
          r = \<lparr>cr_data = ip_data p, cr_roomId = ip_roomId p,
               cr_messageEventId = or_default [] (ip_messageEventId p),
               cr_userId = truthy (ip_userId p),
               cr_expiresAtMs = now + or_default (cb_ttlMs s) (ip_ttlMs p),
               cr_answered = False, cr_singleUse = or_default False (ip_singleUse p)\<rparr>
      in (token, s1\<lparr>cb_tokens := jm_set token r (cb_tokens s1)\<rparr>))"

fun cb_bindMessage :: "string list \<Rightarrow> string \<Rightarrow> callback_registry \<Rightarrow> callback_registry" where
  "cb_bindMessage [] mid s = s"
| "cb_bindMessage (token # tokens) mid s =
     cb_bindMessage tokens mid
       (case jm_get (cb_tokens s) token of
          None \<Rightarrow> s
        | Some r \<Rightarrow> s\<lparr>cb_tokens := jm_set token (r\<lparr>cr_messageEventId := mid\<rparr>) (cb_tokens s)\<rparr>)"

definition cb_peek :: "int \<Rightarrow> string \<Rightarrow> callback_registry \<Rightarrow> callback_record option \<times> callback_registry" where
  "cb_peek now token s =
     (case jm_get (cb_tokens s) token of
        None \<Rightarrow> (None, s)
      | Some r \<Rightarrow>
          if cr_expiresAtMs r \<le> now then (None, s\<lparr>cb_tokens := jm_del token (cb_tokens s)\<rparr>)
          else (Some r, s))"

definition cb_resolve ::
  "int \<Rightarrow> string \<Rightarrow> string option \<Rightarrow> callback_registry \<Rightarrow> callback_record option \<times> callback_registry" where
  "cb_resolve now token userId s =
     (case cb_peek now token s of
        (None, s1) \<Rightarrow> (None, s1)
      | (Some r, s1) \<Rightarrow>
          if wrong_user r userId then (None, s1)
          else (Some r, if cr_singleUse r then s1\<lparr>cb_tokens := jm_del token (cb_tokens s1)\<rparr> else s1))"

definition cb_markAnswered :: "string \<Rightarrow> callback_registry \<Rightarrow> callback_registry" where
  "cb_markAnswered token s =
     (case jm_get (cb_tokens s) token of
        None \<Rightarrow> s
      | Some r \<Rightarrow> s\<lparr>cb_tokens := jm_set token (r\<lparr>cr_answered := True\<rparr>) (cb_tokens s)\<rparr>)"

definition cb_revoke :: "string \<Rightarrow> callback_registry \<Rightarrow> callback_registry" where
  "cb_revoke token s = s\<lparr>cb_tokens := jm_del token (cb_tokens s)\<rparr>"

definition cb_revokeForMessage :: "string \<Rightarrow> callback_registry \<Rightarrow> callback_registry" where
  "cb_revokeForMessage mid s =
     s\<lparr>cb_tokens := jm_filter (\<lambda>t r. cr_messageEventId r \<noteq> mid) (cb_tokens s)\<rparr>"

definition cb_size :: "callback_registry \<Rightarrow> nat" where
  "cb_size s = length (cb_tokens s)"

definition cb_clear :: "callback_registry \<Rightarrow> callback_registry" where
  "cb_clear s = s\<lparr>cb_tokens := []\<rparr>"

definition cb_inv :: "callback_registry \<Rightarrow> bool" where
  "cb_inv s \<longleftrightarrow> jm_wf (cb_tokens s) \<and> 1 \<le> cb_capacity s \<and> int (length (cb_tokens s)) \<le> cb_capacity s"

section \<open>Signed tokens\<close>

record signed_payload =
  sp_d :: string
  sp_r :: string
  sp_u :: "string option"
  sp_e :: int
  sp_s :: bool
  sp_n :: string

text \<open>
  The environment of a signed registry: the operations of its stores, the HMAC, and the
  encoding of a JSON value as base64url text with its partial inverse.
\<close>

record ('u, 'm, 'a) sg_env =
  uo_has :: "int \<Rightarrow> string \<Rightarrow> 'u \<Rightarrow> bool \<times> 'u"
  uo_add :: "int \<Rightarrow> string \<Rightarrow> int option \<Rightarrow> 'u \<Rightarrow> 'u"
  uo_tryAdd :: "(int \<Rightarrow> string \<Rightarrow> int option \<Rightarrow> 'u \<Rightarrow> bool \<times> 'u) option"
  mo_get :: "int \<Rightarrow> string \<Rightarrow> 'm \<Rightarrow> string option \<times> 'm"
  mo_set :: "int \<Rightarrow> string \<Rightarrow> string \<Rightarrow> int \<Rightarrow> 'm \<Rightarrow> 'm"
  mo_delete :: "int \<Rightarrow> string \<Rightarrow> 'm \<Rightarrow> 'm"
  ao_tryAdd :: "int \<Rightarrow> string \<Rightarrow> int option \<Rightarrow> 'a \<Rightarrow> bool \<times> 'a"
  cd_hmac :: "string \<Rightarrow> string \<Rightarrow> string"
  cd_encode :: "json \<Rightarrow> string"
  cd_decode :: "string \<Rightarrow> json option"

definition payload_json :: "signed_payload \<Rightarrow> json" where
  "payload_json p =
     JObj ([(''d'', JStr (sp_d p)), (''r'', JStr (sp_r p)), (''e'', JNum (Fin (sp_e p))),
            (''s'', JBool (sp_s p)), (''n'', JStr (sp_n p))] @
           (case sp_u p of Some u \<Rightarrow> [(''u'', JStr u)] | None \<Rightarrow> []))"

definition signCallbackToken :: "('u, 'm, 'a) sg_env \<Rightarrow> signed_payload \<Rightarrow> string \<Rightarrow> string" where
  "signCallbackToken E p secret =
     (let encoded = cd_encode E (payload_json p) in encoded @ ''.'' @ cd_hmac E secret encoded)"

text \<open>\<open>token.slice(0, dot)\<close> and \<open>token.slice(dot + 1)\<close> at the last dot.\<close>

definition split_last_dot :: "string \<Rightarrow> (string \<times> string) option" where
  "split_last_dot token =
     (let r = rev token;
          mac = rev (takeWhile (\<lambda>c. c \<noteq> CHR ''.'') r)
      in case dropWhile (\<lambda>c. c \<noteq> CHR ''.'') r of
           [] \<Rightarrow> None
         | _ # before \<Rightarrow> if before = [] then None else Some (rev before, mac))"

definition payload_of_json :: "json \<Rightarrow> signed_payload option" where
  "payload_of_json v =
     (if \<not> isPlainObject v then None
      else case (json_prop v ''d'', json_prop v ''r'', json_prop v ''e'', json_prop v ''s'', json_prop v ''n'') of
             (Some (JStr d), Some (JStr r), Some (JNum (Fin e)), Some (JBool s), Some (JStr n)) \<Rightarrow>
               Some \<lparr>sp_d = d, sp_r = r,
                     sp_u = (case json_prop v ''u'' of Some (JStr u) \<Rightarrow> Some u | _ \<Rightarrow> None),
                     sp_e = e, sp_s = s, sp_n = n\<rparr>
           | _ \<Rightarrow> None)"

definition verifyCallbackToken :: "('u, 'm, 'a) sg_env \<Rightarrow> string \<Rightarrow> string \<Rightarrow> signed_payload option" where
  "verifyCallbackToken E token secret =
     (case split_last_dot token of
        None \<Rightarrow> None
      | Some (encoded, mac) \<Rightarrow>
          if mac \<noteq> cd_hmac E secret encoded then None
          else case cd_decode E encoded of None \<Rightarrow> None | Some v \<Rightarrow> payload_of_json v)"

definition deadKey :: "string \<Rightarrow> string" where "deadKey token = ''cb:dead:'' @ token"
definition answeredKey :: "string \<Rightarrow> string" where "answeredKey token = ''cb:ans:'' @ token"
definition aliasKey :: "string \<Rightarrow> string" where "aliasKey alias = ''cb:alias:'' @ alias"
definition aliasOfKey :: "string \<Rightarrow> string" where "aliasOfKey token = ''cb:aliasof:'' @ token"
definition bindKey :: "string \<Rightarrow> string" where "bindKey token = ''cb:bind:'' @ token"

lemma key_simps [simp]:
  "deadKey t = deadKey t' \<longleftrightarrow> t = t'" "aliasKey t = aliasKey t' \<longleftrightarrow> t = t'"
  "aliasKey t \<noteq> aliasOfKey t'" "answeredKey t \<noteq> deadKey t'" "deadKey t \<noteq> answeredKey t'"
  "aliasOfKey t' \<noteq> aliasKey t"
  by (simp_all add: deadKey_def answeredKey_def aliasKey_def aliasOfKey_def)

text \<open>\<open>buildCallbackContent\<close>: what a client sends for a pressed button.\<close>

definition buildCallbackContent :: "string \<Rightarrow> string option \<Rightarrow> json" where
  "buildCallbackContent token data =
     JObj ((''token'', JStr token) # (case data of Some d \<Rightarrow> [(''data'', JStr d)] | None \<Rightarrow> []))"

section \<open>SignedCallbackRegistry\<close>

text \<open>
  \<open>sg_side\<close> has a token's message binding and its answered flag; a \<open>Set\<close> of tokens is
  the list of its members in insertion order.
\<close>

record ('u, 'm, 'a) signed_registry =
  sg_secret :: string
  sg_ttlMs :: int
  sg_used :: 'u
  sg_asyncUsed :: "'a option"
  sg_aliasStore :: 'm
  sg_bindStore :: "'m option"
  sg_side :: "(string, string \<times> bool) jsmap"
  sg_byMessage :: "(string, string list) jsmap"
  sg_aliases :: "(string, string) jsmap"
  sg_aliasOf :: "(string, string) jsmap"

datatype registry_error = SecretTooShort | AsyncUsedConfigured

text \<open>The caller passes the default stores when the options leave them out.\<close>

definition sg_new ::
  "string \<Rightarrow> int option \<Rightarrow> 'u \<Rightarrow> 'a option \<Rightarrow> 'm \<Rightarrow> 'm option \<Rightarrow> registry_error + ('u, 'm, 'a) signed_registry" where
  "sg_new secret ttlMs used asyncUsed aliasStore bindStore =
     (if length secret < 16 then Inl SecretTooShort
      else Inr \<lparr>sg_secret = secret, sg_ttlMs = max 1 (or_default (24 * 60 * 60 * 1000) ttlMs),
                sg_used = used, sg_asyncUsed = asyncUsed, sg_aliasStore = aliasStore,
                sg_bindStore = bindStore, sg_side = [], sg_byMessage = [], sg_aliases = [], sg_aliasOf = []\<rparr>)"

definition sg_bindSet ::
  "('u, 'm, 'a) sg_env \<Rightarrow> int \<Rightarrow> string \<Rightarrow> string \<Rightarrow> int \<Rightarrow> ('u, 'm, 'a) signed_registry \<Rightarrow>
     ('u, 'm, 'a) signed_registry" where
  "sg_bindSet E clk token mid ttl s =
     s\<lparr>sg_bindStore := map_option (mo_set E clk (bindKey token) mid ttl) (sg_bindStore s)\<rparr>"

definition sg_trackMessage ::
  "string \<Rightarrow> string \<Rightarrow> ('u, 'm, 'a) signed_registry \<Rightarrow> ('u, 'm, 'a) signed_registry" where
  "sg_trackMessage token mid s =
     (let tokens = or_default [] (jm_get (sg_byMessage s) mid)
      in s\<lparr>sg_byMessage := jm_set mid (if token \<in> set tokens then tokens else tokens @ [token]) (sg_byMessage s)\<rparr>)"

definition sg_rememberAlias ::
  "('u, 'm, 'a) sg_env \<Rightarrow> int \<Rightarrow> string \<Rightarrow> string \<Rightarrow> int \<Rightarrow> ('u, 'm, 'a) signed_registry \<Rightarrow>
     ('u, 'm, 'a) signed_registry" where
  "sg_rememberAlias E clk alias token ttlMs s =
     s\<lparr>sg_aliases := jm_set alias token (sg_aliases s),
       sg_aliasOf := jm_set token alias (sg_aliasOf s),
       sg_aliasStore := mo_set E clk (aliasOfKey token) alias ttlMs
         (mo_set E clk (aliasKey alias) token ttlMs (sg_aliasStore s))\<rparr>"

definition sg_payload :: "int \<Rightarrow> string \<Rightarrow> issue_params \<Rightarrow> ('u, 'm, 'a) signed_registry \<Rightarrow> signed_payload" where
  "sg_payload clk alias p s =
     \<lparr>sp_d = ip_data p, sp_r = ip_roomId p, sp_u = truthy (ip_userId p),
      sp_e = clk + or_default (sg_ttlMs s) (ip_ttlMs p), sp_s = or_default False (ip_singleUse p), sp_n = alias\<rparr>"

definition sg_issue ::
  "('u, 'm, 'a) sg_env \<Rightarrow> int \<Rightarrow> string \<Rightarrow> issue_params \<Rightarrow> ('u, 'm, 'a) signed_registry \<Rightarrow>
     string \<times> ('u, 'm, 'a) signed_registry" where
  "sg_issue E clk alias p s =
     (let ttl = or_default (sg_ttlMs s) (ip_ttlMs p);
          token = signCallbackToken E (sg_payload clk alias p s) (sg_secret s);
          s1 = sg_rememberAlias E clk alias token ttl s;
          mid = or_default [] (ip_messageEventId p);
          s2 = s1\<lparr>sg_side := jm_set token (mid, False) (sg_side s1)\<rparr>
      in (token, if mid \<noteq> [] then sg_bindSet E clk token mid ttl (sg_trackMessage token mid s2) else s2))"

definition sg_fallbackOf ::
  "('u, 'm, 'a) sg_env \<Rightarrow> int \<Rightarrow> string \<Rightarrow> ('u, 'm, 'a) signed_registry \<Rightarrow> string \<times> ('u, 'm, 'a) signed_registry" where
  "sg_fallbackOf E clk token s =
     (case jm_get (sg_aliasOf s) token of
        Some a \<Rightarrow> (a, s)
      | None \<Rightarrow> (let (v, m) = mo_get E clk (aliasOfKey token) (sg_aliasStore s)
                 in (or_default token v, s\<lparr>sg_aliasStore := m\<rparr>)))"

text \<open>Caching an alias read from a store.\<close>

definition sg_cacheAlias ::
  "string \<Rightarrow> string \<Rightarrow> ('u, 'm, 'a) signed_registry \<Rightarrow> ('u, 'm, 'a) signed_registry" where
  "sg_cacheAlias token t s =
     s\<lparr>sg_aliases := jm_set token t (sg_aliases s), sg_aliasOf := jm_set t token (sg_aliasOf s)\<rparr>"

definition sg_canonicalize ::
  "('u, 'm, 'a) sg_env \<Rightarrow> int \<Rightarrow> string \<Rightarrow> ('u, 'm, 'a) signed_registry \<Rightarrow> string \<times> ('u, 'm, 'a) signed_registry" where
  "sg_canonicalize E clk token s =
     (case jm_get (sg_aliases s) token of
        Some t \<Rightarrow> (t, s)
      | None \<Rightarrow>
          (let (v, m) = mo_get E clk (aliasKey token) (sg_aliasStore s);
               s1 = s\<lparr>sg_aliasStore := m\<rparr>
           in case truthy v of
                Some t \<Rightarrow> (t, sg_cacheAlias token t s1)
              | None \<Rightarrow> (token, s1)))"

text \<open>
  \<open>fetched\<close> is what the alias store's \<open>getAsync\<close> answers for the alias, \<open>None\<close> when it has
  no such method or misses.
\<close>

definition sg_canonicalizeAsync ::
  "('u, 'm, 'a) sg_env \<Rightarrow> int \<Rightarrow> string option \<Rightarrow> string \<Rightarrow> ('u, 'm, 'a) signed_registry \<Rightarrow>
     string \<times> ('u, 'm, 'a) signed_registry" where
  "sg_canonicalizeAsync E clk fetched token s =
     (let (sync, s1) = sg_canonicalize E clk token s
      in if sync \<noteq> token \<or> jm_has (sg_aliases s1) token then (sync, s1)
         else case truthy fetched of
                Some t \<Rightarrow> (t, sg_cacheAlias token t s1)
              | None \<Rightarrow> (token, s1))"

definition sg_boundMessage ::
  "('u, 'm, 'a) sg_env \<Rightarrow> int \<Rightarrow> string \<Rightarrow> ('u, 'm, 'a) signed_registry \<Rightarrow> string \<times> ('u, 'm, 'a) signed_registry" where
  "sg_boundMessage E clk signed s =
     (case truthy (map_option fst (jm_get (sg_side s) signed)) of
        Some mid \<Rightarrow> (mid, s)
      | None \<Rightarrow>
          (case sg_bindStore s of
             None \<Rightarrow> ([], s)
           | Some b \<Rightarrow> (let (v, b') = mo_get E clk (bindKey signed) b
                        in (or_default [] v, s\<lparr>sg_bindStore := Some b'\<rparr>))))"

definition sg_isAnswered ::
  "('u, 'm, 'a) sg_env \<Rightarrow> int \<Rightarrow> string \<Rightarrow> ('u, 'm, 'a) signed_registry \<Rightarrow> bool \<times> ('u, 'm, 'a) signed_registry" where
  "sg_isAnswered E clk signed s =
     (case jm_get (sg_side s) signed of
        Some (_, a) \<Rightarrow> (a, s)
      | None \<Rightarrow> (let (b, u) = uo_has E clk (answeredKey signed) (sg_used s) in (b, s\<lparr>sg_used := u\<rparr>)))"

definition sg_peek ::
  "('u, 'm, 'a) sg_env \<Rightarrow> int \<Rightarrow> int \<Rightarrow> string \<Rightarrow> ('u, 'm, 'a) signed_registry \<Rightarrow>
     callback_record option \<times> ('u, 'm, 'a) signed_registry" where
  "sg_peek E clk now token s =
     (let (signed, s1) = sg_canonicalize E clk token s;
          (dead, u) = uo_has E clk (deadKey signed) (sg_used s1);
          s2 = s1\<lparr>sg_used := u\<rparr>
      in if dead then (None, s2)
         else case verifyCallbackToken E signed (sg_secret s2) of
           None \<Rightarrow> (None, s2)
         | Some payload \<Rightarrow>
             if sp_e payload \<le> now then (None, s2)
             else (let (bound, s3) = sg_boundMessage E clk signed s2;
                       (answered, s4) = sg_isAnswered E clk signed s3
                   in (Some \<lparr>cr_data = sp_d payload, cr_roomId = sp_r payload, cr_messageEventId = bound,
                             cr_userId = truthy (sp_u payload), cr_expiresAtMs = sp_e payload,
                             cr_answered = answered, cr_singleUse = sp_s payload\<rparr>, s4)))"

text \<open>Claiming a single-use token in the synchronous store.\<close>

definition sg_claim ::
  "('u, 'm, 'a) sg_env \<Rightarrow> int \<Rightarrow> string \<Rightarrow> int \<Rightarrow> ('u, 'm, 'a) signed_registry \<Rightarrow> bool \<times> ('u, 'm, 'a) signed_registry" where
  "sg_claim E clk signed ttl s =
     (case uo_tryAdd E of
        Some tryAdd \<Rightarrow> (let (b, u) = tryAdd clk (deadKey signed) (Some ttl) (sg_used s) in (b, s\<lparr>sg_used := u\<rparr>))
      | None \<Rightarrow> (True, s\<lparr>sg_used := uo_add E clk (deadKey signed) (Some ttl) (sg_used s)\<rparr>))"

definition sg_resolve ::
  "('u, 'm, 'a) sg_env \<Rightarrow> int \<Rightarrow> int \<Rightarrow> string \<Rightarrow> string option \<Rightarrow> ('u, 'm, 'a) signed_registry \<Rightarrow>
     (registry_error + callback_record option) \<times> ('u, 'm, 'a) signed_registry" where
  "sg_resolve E clk now token userId s =
     (if sg_asyncUsed s \<noteq> None then (Inl AsyncUsedConfigured, s)
      else let (signed, s1) = sg_canonicalize E clk token s
           in case sg_peek E clk now signed s1 of
                (None, s2) \<Rightarrow> (Inr None, s2)
              | (Some r, s2) \<Rightarrow>
                  if wrong_user r userId then (Inr None, s2)
                  else if \<not> cr_singleUse r then (Inr (Some r), s2)
                  else let (ok, s3) = sg_claim E clk signed (max 1 (cr_expiresAtMs r - now)) s2
                       in (Inr (if ok then Some r else None), s3))"

definition sg_resolveAsync ::
  "('u, 'm, 'a) sg_env \<Rightarrow> int \<Rightarrow> int \<Rightarrow> string option \<Rightarrow> string \<Rightarrow> string option \<Rightarrow> ('u, 'm, 'a) signed_registry \<Rightarrow>
     callback_record option \<times> ('u, 'm, 'a) signed_registry" where
  "sg_resolveAsync E clk now fetched token userId s =
     (let (signed, s1) = sg_canonicalizeAsync E clk fetched token s
      in case sg_peek E clk now signed s1 of
           (None, s2) \<Rightarrow> (None, s2)
         | (Some r, s2) \<Rightarrow>
             if wrong_user r userId then (None, s2)
             else if \<not> cr_singleUse r then (Some r, s2)
             else let ttl = max 1 (cr_expiresAtMs r - now);
                      (ok, s3) =
                        (case sg_asyncUsed s2 of
                           Some a \<Rightarrow> (let (b, a') = ao_tryAdd E clk (deadKey signed) (Some ttl) a
                                      in (b, s2\<lparr>sg_asyncUsed := Some a'\<rparr>))
                         | None \<Rightarrow> sg_claim E clk signed ttl s2)
                  in (if ok then Some r else None, s3))"

fun sg_bindMessage ::
  "('u, 'm, 'a) sg_env \<Rightarrow> int \<Rightarrow> string list \<Rightarrow> string \<Rightarrow> ('u, 'm, 'a) signed_registry \<Rightarrow>
     ('u, 'm, 'a) signed_registry" where
  "sg_bindMessage E clk [] mid s = s"
| "sg_bindMessage E clk (token # tokens) mid s =
     (let answered = (case jm_get (sg_side s) token of Some (_, a) \<Rightarrow> a | None \<Rightarrow> False);
          s1 = sg_trackMessage token mid (s\<lparr>sg_side := jm_set token (mid, answered) (sg_side s)\<rparr>);
          (r, s2) = sg_peek E clk clk token s1;
          ttl = max 1 (or_default (clk + sg_ttlMs s2) (map_option cr_expiresAtMs r) - clk)
      in sg_bindMessage E clk tokens mid (sg_bindSet E clk token mid ttl s2))"

definition sg_markAnswered ::
  "('u, 'm, 'a) sg_env \<Rightarrow> int \<Rightarrow> string \<Rightarrow> ('u, 'm, 'a) signed_registry \<Rightarrow> ('u, 'm, 'a) signed_registry" where
  "sg_markAnswered E clk token s =
     (let (signed, s1) = sg_canonicalize E clk token s;
          mid = (case jm_get (sg_side s1) signed of Some (mid, _) \<Rightarrow> mid | None \<Rightarrow> []);
          (r, s2) = sg_peek E clk clk signed (s1\<lparr>sg_side := jm_set signed (mid, True) (sg_side s1)\<rparr>);
          ttl = (case r of Some r \<Rightarrow> max 1 (cr_expiresAtMs r - clk) | None \<Rightarrow> sg_ttlMs s2)
      in s2\<lparr>sg_used := uo_add E clk (answeredKey signed) (Some ttl) (sg_used s2)\<rparr>)"

text \<open>The alias that \<open>revoke\<close> forgets.\<close>

definition sg_dropAlias ::
  "('u, 'm, 'a) sg_env \<Rightarrow> int \<Rightarrow> string \<Rightarrow> ('u, 'm, 'a) signed_registry \<Rightarrow> ('u, 'm, 'a) signed_registry" where
  "sg_dropAlias E clk signed s =
     (let (alias, s1) =
            (case jm_get (sg_aliasOf s) signed of
               Some a \<Rightarrow> (Some a, s)
             | None \<Rightarrow> (let (v, m) = mo_get E clk (aliasOfKey signed) (sg_aliasStore s)
                        in (v, s\<lparr>sg_aliasStore := m\<rparr>)))
      in case truthy alias of
           None \<Rightarrow> s1
         | Some a \<Rightarrow> s1\<lparr>sg_aliases := jm_del a (sg_aliases s1), sg_aliasOf := jm_del signed (sg_aliasOf s1),
                        sg_aliasStore := mo_delete E clk (aliasOfKey signed)
                          (mo_delete E clk (aliasKey a) (sg_aliasStore s1))\<rparr>)"

definition sg_revoke ::
  "('u, 'm, 'a) sg_env \<Rightarrow> int \<Rightarrow> string \<Rightarrow> ('u, 'm, 'a) signed_registry \<Rightarrow> ('u, 'm, 'a) signed_registry" where
  "sg_revoke E clk token s =
     (let (signed, s1) = sg_canonicalize E clk token s;
          s2 = s1\<lparr>sg_used := uo_add E clk (deadKey signed) (Some (sg_ttlMs s1)) (sg_used s1)\<rparr>;
          s3 = (case truthy (map_option fst (jm_get (sg_side s2) signed)) of
                  None \<Rightarrow> s2
                | Some mid \<Rightarrow>
                    (case jm_get (sg_byMessage s2) mid of
                       None \<Rightarrow> s2
                     | Some ts \<Rightarrow> s2\<lparr>sg_byMessage := jm_set mid (removeAll signed ts) (sg_byMessage s2)\<rparr>));
          s4 = s3\<lparr>sg_side := jm_del signed (sg_side s3),
                  sg_bindStore := map_option (mo_delete E clk (bindKey signed)) (sg_bindStore s3)\<rparr>
      in sg_dropAlias E clk signed s4)"

definition sg_revokeForMessage ::
  "('u, 'm, 'a) sg_env \<Rightarrow> int \<Rightarrow> string \<Rightarrow> ('u, 'm, 'a) signed_registry \<Rightarrow> ('u, 'm, 'a) signed_registry" where
  "sg_revokeForMessage E clk mid s =
     (case jm_get (sg_byMessage s) mid of
        None \<Rightarrow> s
      | Some tokens \<Rightarrow>
          (let s1 = fold (sg_revoke E clk) tokens s in s1\<lparr>sg_byMessage := jm_del mid (sg_byMessage s1)\<rparr>))"

definition sg_size :: "('u, 'm, 'a) signed_registry \<Rightarrow> nat" where
  "sg_size s = length (sg_side s)"

definition sg_clear :: "('u, 'm, 'a) signed_registry \<Rightarrow> ('u, 'm, 'a) signed_registry" where
  "sg_clear s = s\<lparr>sg_side := [], sg_byMessage := [], sg_aliases := [], sg_aliasOf := []\<rparr>"

section \<open>The contract of a callback registry\<close>

text \<open>The user a button was issued for may press it, or a caller that names no user.\<close>

definition may_press :: "string option \<Rightarrow> string option \<Rightarrow> bool" where
  "may_press owner u \<longleftrightarrow> truthy owner = None \<or> truthy u = None \<or> truthy owner = truthy u"

lemma wrong_user_iff: "wrong_user r u \<longleftrightarrow> \<not> may_press (cr_userId r) u"
  by (auto simp: wrong_user_def may_press_def split: option.splits)

text \<open>A sequence of presses of one button: the times and the users, and what each returns.\<close>

fun press_all ::
  "(int \<Rightarrow> string \<Rightarrow> string option \<Rightarrow> 's \<Rightarrow> callback_record option \<times> 's) \<Rightarrow> string \<Rightarrow>
   (int \<times> string option) list \<Rightarrow> 's \<Rightarrow> callback_record option list" where
  "press_all resolve t [] s = []"
| "press_all resolve t ((now, u) # ps) s =
     (let (r, s1) = resolve now t u s in r # press_all resolve t ps s1)"

definition single_hits :: "callback_record option list \<Rightarrow> nat" where
  "single_hits rs = length (filter (\<lambda>r. case r of Some x \<Rightarrow> cr_singleUse x | None \<Rightarrow> False) rs)"

lemma single_hits_simps [simp]:
  "single_hits [] = 0"
  "single_hits (None # rs) = single_hits rs"
  "single_hits (Some r # rs) = (if cr_singleUse r then Suc (single_hits rs) else single_hits rs)"
  by (simp_all add: single_hits_def)

lemma single_hits_None: "set rs \<subseteq> {None} \<Longrightarrow> single_hits rs = 0"
  by (auto simp: single_hits_def filter_empty_conv)

text \<open>
  \<open>spent now s t\<close>: the token is of no use from \<open>now\<close> on. \<open>covers now t s\<close>: revoking it
  at \<open>now\<close> lasts as long as the token.
\<close>

locale callback_store =
  fixes issue :: "int \<Rightarrow> string \<Rightarrow> issue_params \<Rightarrow> 's \<Rightarrow> string \<times> 's"
    and resolve :: "int \<Rightarrow> string \<Rightarrow> string option \<Rightarrow> 's \<Rightarrow> callback_record option \<times> 's"
    and revoke :: "int \<Rightarrow> string \<Rightarrow> 's \<Rightarrow> 's"
    and fresh :: "int \<Rightarrow> string \<Rightarrow> issue_params \<Rightarrow> 's \<Rightarrow> bool"
    and lifetime :: "'s \<Rightarrow> int"
    and covers :: "int \<Rightarrow> string \<Rightarrow> 's \<Rightarrow> bool"
    and spent :: "int \<Rightarrow> 's \<Rightarrow> string \<Rightarrow> bool"
    and inv :: "'s \<Rightarrow> bool"
  assumes issue_resolve: "inv s \<Longrightarrow> fresh now rnd p s \<Longrightarrow> issue now rnd p s = (t, s1) \<Longrightarrow> now \<le> now' \<Longrightarrow>
      now' < now + or_default (lifetime s) (ip_ttlMs p) \<Longrightarrow> may_press (ip_userId p) u \<Longrightarrow>
      \<exists>r s2. resolve now' t u s1 = (Some r, s2) \<and> cr_data r = ip_data p \<and> cr_roomId r = ip_roomId p \<and>
        cr_userId r = truthy (ip_userId p) \<and> cr_singleUse r = or_default False (ip_singleUse p)"
    and resolve_user: "inv s \<Longrightarrow> resolve now t u s = (Some r, s1) \<Longrightarrow> may_press (cr_userId r) u"
    and resolve_fresh: "inv s \<Longrightarrow> resolve now t u s = (Some r, s1) \<Longrightarrow> now < cr_expiresAtMs r"
    and resolve_inv: "inv s \<Longrightarrow> inv (snd (resolve now t u s))"
    and once: "inv s \<Longrightarrow> resolve now t u s = (Some r, s1) \<Longrightarrow> cr_singleUse r \<Longrightarrow> spent now s1 t"
    and spent_refused: "inv s \<Longrightarrow> spent now s t \<Longrightarrow> now \<le> now' \<Longrightarrow> fst (resolve now' t u s) = None"
    and spent_stays: "inv s \<Longrightarrow> spent now s t \<Longrightarrow> now \<le> now' \<Longrightarrow> spent now' (snd (resolve now' t u s)) t"
    and revoke_inv: "inv s \<Longrightarrow> inv (revoke now t s)"
    and revoke_spent: "inv s \<Longrightarrow> covers now t s \<Longrightarrow> spent now (revoke now t s) t"
begin

lemma spent_presses:
  assumes "inv s" and "spent now s t" and "\<forall>p \<in> set ps. now \<le> fst p" and "sorted (map fst ps)"
  shows "set (press_all resolve t ps s) \<subseteq> {None}"
  using assms
proof (induction ps arbitrary: s now)
  case Nil
  then show ?case by simp
next
  case (Cons p ps)
  obtain now' u where p: "p = (now', u)" by fastforce
  then have "now \<le> now'" using Cons.prems(3) by simp
  then show ?case
    using Cons.IH [OF resolve_inv [OF Cons.prems(1)] spent_stays [OF Cons.prems(1,2)]]
      spent_refused [OF Cons.prems(1,2)] Cons.prems(4) p by (auto simp: case_prod_beta)
qed

lemma at_most_once:
  assumes "inv s" and "sorted (map fst ps)"
  shows "single_hits (press_all resolve t ps s) \<le> 1"
  using assms
proof (induction ps arbitrary: s)
  case Nil
  then show ?case by simp
next
  case (Cons p ps)
  obtain now u where p: "p = (now, u)" by fastforce
  obtain r s1 where rs: "resolve now t u s = (r, s1)" by fastforce
  have inv1: "inv s1" using resolve_inv [OF Cons.prems(1), of now t u] rs by simp
  show ?case
  proof (cases "\<exists>x. r = Some x \<and> cr_singleUse x")
    case True
    then obtain x where x: "r = Some x" "cr_singleUse x" by blast
    have "set (press_all resolve t ps s1) \<subseteq> {None}"
      using spent_presses [OF inv1 once [OF Cons.prems(1)]] rs x Cons.prems(2) p by auto
    then show ?thesis using x by (simp add: p rs single_hits_None)
  next
    case False
    then show ?thesis
      using Cons.IH [OF inv1] Cons.prems(2) by (cases r) (auto simp: p rs)
  qed
qed

lemma revoked_presses:
  assumes "inv s" and "covers now t s" and "\<forall>p \<in> set ps. now \<le> fst p" and "sorted (map fst ps)"
  shows "set (press_all resolve t ps (revoke now t s)) \<subseteq> {None}"
  using spent_presses [OF revoke_inv [OF assms(1)] revoke_spent [OF assms(1,2)]] assms(3,4) by blast

end

section \<open>The opaque registry keeps the contract\<close>

lemma cb_peek_facts:
  assumes "cb_peek now t s = (r, s1)" and "cb_inv s"
  shows "cb_inv s1 \<and> (\<forall>x. r = Some x \<longrightarrow> s1 = s \<and> jm_get (cb_tokens s) t = Some x \<and> now < cr_expiresAtMs x)"
  using assms length_delete_le [of t "cb_tokens s"]
  by (auto simp: cb_peek_def cb_inv_def split: option.splits if_splits)

lemma cb_inv_del: "cb_inv s \<Longrightarrow> cb_inv (s\<lparr>cb_tokens := jm_del t (cb_tokens s)\<rparr>)"
  using length_delete_le [of t "cb_tokens s"] by (simp add: cb_inv_def)

lemma cb_resolve_inv: "cb_inv s \<Longrightarrow> cb_inv (snd (cb_resolve now t u s))"
proof -
  assume inv: "cb_inv s"
  obtain r s1 where rs: "cb_peek now t s = (r, s1)" by fastforce
  show ?thesis
    using cb_peek_facts [OF rs inv] by (cases r) (auto simp: cb_resolve_def rs cb_inv_del)
qed

lemma cb_absent: "jm_get (cb_tokens s) t = None \<Longrightarrow> cb_resolve now t u s = (None, s)"
  by (simp add: cb_resolve_def cb_peek_def)

lemma cb_issue_inv: "cb_inv s \<Longrightarrow> cb_inv (snd (cb_issue now rnd p s))"
  using bounded_set_size [of "jm_filter (\<lambda>t r. \<not> cr_expiresAtMs r \<le> now) (cb_tokens s)" rnd _ "cb_capacity s"]
  by (auto simp: cb_inv_def cb_issue_def cb_prune_def Let_def)

interpretation opaque: callback_store cb_issue cb_resolve "\<lambda>now. cb_revoke" "\<lambda>now rnd p s. True" cb_ttlMs
  "\<lambda>now t s. True" "\<lambda>now s t. jm_get (cb_tokens s) t = None" cb_inv
proof unfold_locales
  fix s now rnd p t s1 now' u
  assume "cb_inv s" and "cb_issue now rnd p s = (t, s1)" and "now' < now + or_default (cb_ttlMs s) (ip_ttlMs p)"
    and "may_press (ip_userId p) u"
  then show "\<exists>r s2. cb_resolve now' t u s1 = (Some r, s2) \<and> cr_data r = ip_data p \<and> cr_roomId r = ip_roomId p \<and>
      cr_userId r = truthy (ip_userId p) \<and> cr_singleUse r = or_default False (ip_singleUse p)"
    by (auto simp: cb_issue_def cb_resolve_def cb_peek_def cb_prune_def Let_def jsmap_simps wrong_user_iff
        may_press_def truthy_def split: option.splits list.splits)
next
  fix s :: callback_registry and now t u r s1
  assume inv: "cb_inv s" and res: "cb_resolve now t u s = (Some r, s1)"
  obtain r' s' where rs: "cb_peek now t s = (r', s')" by fastforce
  note facts = cb_peek_facts [OF rs inv]
  show "may_press (cr_userId r) u" and "now < cr_expiresAtMs r"
    using res facts by (auto simp: cb_resolve_def rs wrong_user_iff split: option.splits if_splits)
  show "jm_get (cb_tokens s1) t = None" if "cr_singleUse r"
    using that res facts by (auto simp: cb_resolve_def rs jsmap_simps split: option.splits if_splits)
qed (simp_all add: cb_resolve_inv cb_absent cb_inv_del cb_revoke_def jsmap_simps)

section \<open>The signed registry keeps the contract\<close>

lemma split_last_dot_append:
  assumes "CHR ''.'' \<notin> set mac" and "a \<noteq> []"
  shows "split_last_dot (a @ ''.'' @ mac) = Some (a, mac)"
proof -
  have no_dot: "\<And>x. x \<in> set (rev mac) \<Longrightarrow> x \<noteq> CHR ''.''"
    using assms(1) by auto
  have "takeWhile (\<lambda>c. c \<noteq> CHR ''.'') (rev mac @ CHR ''.'' # rev a) = rev mac"
    and "dropWhile (\<lambda>c. c \<noteq> CHR ''.'') (rev mac @ CHR ''.'' # rev a) = CHR ''.'' # rev a"
    by (subst takeWhile_append2 dropWhile_append2, erule no_dot, simp)+
  then show ?thesis
    using assms(2) by (simp add: split_last_dot_def Let_def)
qed

lemma verify_has_dot:
  assumes "verifyCallbackToken E t secret = Some p"
  shows "CHR ''.'' \<in> set t"
proof (rule ccontr)
  assume "CHR ''.'' \<notin> set t"
  then have "dropWhile (\<lambda>c. c \<noteq> CHR ''.'') (rev t) = []"
    by (auto simp: dropWhile_eq_Nil_conv)
  with assms show False by (simp add: verifyCallbackToken_def split_last_dot_def Let_def)
qed

lemma payload_roundtrip: "payload_of_json (payload_json p) = Some p"
  by (cases p) (simp add: payload_of_json_def payload_json_def isPlainObject_def json_prop_def split: option.split)

lemma verify_signed:
  assumes "cd_decode E (cd_encode E (payload_json p)) = Some (payload_json p)"
    and "cd_encode E (payload_json p) \<noteq> []"
    and "CHR ''.'' \<notin> set (cd_hmac E secret (cd_encode E (payload_json p)))"
  shows "verifyCallbackToken E (signCallbackToken E p secret) secret = Some p"
  using split_last_dot_append [OF assms(3,2)] assms(1) payload_roundtrip
  by (simp add: verifyCallbackToken_def signCallbackToken_def Let_def)

definition alias_store_ok :: "(int \<Rightarrow> 'm \<Rightarrow> string \<Rightarrow> string option) \<Rightarrow> 'm \<Rightarrow> bool" where
  "alias_store_ok view m \<longleftrightarrow>
     (\<forall>now a v. view now m (aliasKey a) = Some v \<longrightarrow> v = [] \<or> CHR ''.'' \<notin> set a \<and> CHR ''.'' \<in> set v)"

definition sg_inv ::
  "('u \<Rightarrow> bool) \<Rightarrow> ('m \<Rightarrow> bool) \<Rightarrow> (int \<Rightarrow> 'm \<Rightarrow> string \<Rightarrow> string option) \<Rightarrow> ('u, 'm, 'a) signed_registry \<Rightarrow> bool" where
  "sg_inv uinv minv view s \<longleftrightarrow>
     uinv (sg_used s) \<and> minv (sg_aliasStore s) \<and> (\<forall>b. sg_bindStore s = Some b \<longrightarrow> minv b) \<and>
     sg_asyncUsed s = None \<and> alias_store_ok view (sg_aliasStore s) \<and>
     (\<forall>a c. jm_get (sg_aliases s) a = Some c \<longrightarrow> CHR ''.'' \<notin> set a \<and> CHR ''.'' \<in> set c)"

text \<open>\<open>resolve\<close> at the current time, for a registry without an asynchronous store.\<close>

definition sg_resolve_now ::
  "('u, 'm, 'a) sg_env \<Rightarrow> int \<Rightarrow> string \<Rightarrow> string option \<Rightarrow> ('u, 'm, 'a) signed_registry \<Rightarrow>
     callback_record option \<times> ('u, 'm, 'a) signed_registry" where
  "sg_resolve_now E now t u s =
     (case sg_resolve E now now t u s of (Inr r, s1) \<Rightarrow> (r, s1) | (Inl _, s1) \<Rightarrow> (None, s1))"

text \<open>The token \<open>t\<close>, or the signed token its alias stands for, is dead for as long as it lives.\<close>

definition sg_spent ::
  "('u \<Rightarrow> string \<Rightarrow> int option) \<Rightarrow> ('u, 'm, 'a) sg_env \<Rightarrow> int \<Rightarrow> ('u, 'm, 'a) signed_registry \<Rightarrow> string \<Rightarrow> bool" where
  "sg_spent expiry E now s t \<longleftrightarrow>
     (\<exists>c. (jm_get (sg_aliases s) t = Some c \<or> CHR ''.'' \<in> set t \<and> c = t) \<and> CHR ''.'' \<in> set c \<and>
        (\<forall>p. verifyCallbackToken E c (sg_secret s) = Some p \<longrightarrow>
           sp_e p \<le> now \<or> (\<exists>e. expiry (sg_used s) (deadKey c) = Some e \<and> sp_e p \<le> e)))"

locale signed_stores =
  u: used_token_store has add tryAdd udelete expiry young cap ttl uinv +
  m: ttl_string_map get set mdelete view minv
  for has :: "int \<Rightarrow> string \<Rightarrow> 'u \<Rightarrow> bool \<times> 'u" and add tryAdd udelete expiry young cap ttl uinv
    and get :: "int \<Rightarrow> string \<Rightarrow> 'm \<Rightarrow> string option \<times> 'm" and set mdelete view minv +
  fixes E :: "('u, 'm, 'a) sg_env"
  assumes env: "uo_has E = has" "uo_add E = add" "uo_tryAdd E = Some (\<lambda>clk. tryAdd clk clk)"
    "mo_get E = get" "mo_set E = (\<lambda>clk. set clk clk)" "mo_delete E = mdelete"
begin

abbreviation "sinv \<equiv> sg_inv uinv minv view"

text \<open>What the steps keep of the registry: the tables behind \<open>spent\<close>.\<close>

definition keeps :: "int \<Rightarrow> ('u, 'm, 'a) signed_registry \<Rightarrow> ('u, 'm, 'a) signed_registry \<Rightarrow> bool" where
  "keeps clk s s' \<longleftrightarrow> sg_secret s' = sg_secret s \<and> sg_ttlMs s' = sg_ttlMs s \<and>
     (\<forall>a x. jm_get (sg_aliases s) a = Some x \<longrightarrow> jm_get (sg_aliases s') a = Some x) \<and>
     (\<forall>k e. expiry (sg_used s) k = Some e \<longrightarrow> clk < e \<longrightarrow> expiry (sg_used s') k = Some e) \<and>
     (\<forall>k. expiry (sg_used s') k \<in> {expiry (sg_used s) k, None})"

lemma keeps_refl [simp]: "keeps clk s s"
  by (simp add: keeps_def)

lemma keeps_trans:
  assumes "keeps clk s s'" and "keeps clk s' s''"
  shows "keeps clk s s''"
proof -
  have "expiry (sg_used s'') k \<in> {expiry (sg_used s) k, None}" for k
  proof -
    have "expiry (sg_used s'') k \<in> {expiry (sg_used s') k, None}"
      and "expiry (sg_used s') k \<in> {expiry (sg_used s) k, None}"
      using assms unfolding keeps_def by blast+
    then show ?thesis by auto
  qed
  then show ?thesis
    using assms unfolding keeps_def by simp
qed

lemma alias_ok_get:
  assumes "minv m" and "alias_store_ok view m"
  shows "alias_store_ok view (snd (get now k m))"
  unfolding alias_store_ok_def
proof (intro allI impI)
  fix now' a v
  assume "view now' (snd (get now k m)) (aliasKey a) = Some v"
  then have "view now' m (aliasKey a) = Some v"
    using m.get_shrinks [OF assms(1), of now' now k "aliasKey a"] by auto
  with assms(2) show "v = [] \<or> CHR ''.'' \<notin> List.set a \<and> CHR ''.'' \<in> List.set v"
    by (simp add: alias_store_ok_def)
qed

lemma canonicalize_facts:
  assumes "sg_canonicalize E clk t s = (c, s1)" and "sinv s"
  shows "sinv s1" and "keeps clk s s1" and "sg_used s1 = sg_used s"
    and "CHR ''.'' \<in> List.set t \<Longrightarrow> c = t"
    and "jm_get (sg_aliases s) t = Some x \<Longrightarrow> c = x"
    and "c = t \<or> CHR ''.'' \<in> List.set c \<and> jm_get (sg_aliases s1) t = Some c"
    and "sg_side s1 = sg_side s"
proof -
  let ?m = "snd (get clk (aliasKey t) (sg_aliasStore s))" and ?v = "fst (get clk (aliasKey t) (sg_aliasStore s))"
  have inv: "minv (sg_aliasStore s)" "alias_store_ok view (sg_aliasStore s)"
    using assms(2) by (simp_all add: sg_inv_def)
  have inv': "sinv (s\<lparr>sg_aliasStore := ?m\<rparr>)"
    using assms(2) m.get_inv [OF inv(1)] alias_ok_get [OF inv] by (simp add: sg_inv_def)
  have found: "CHR ''.'' \<notin> List.set t \<and> CHR ''.'' \<in> List.set x" if "truthy ?v = Some x" for x
  proof -
    have "view clk (sg_aliasStore s) (aliasKey t) = Some x" and "x \<noteq> []"
      using that m.get_value [OF inv(1)] by (simp_all add: truthy_Some)
    with inv(2) show ?thesis unfolding alias_store_ok_def by blast
  qed
  have cached: "CHR ''.'' \<notin> List.set t \<and> CHR ''.'' \<in> List.set x" if "jm_get (sg_aliases s) t = Some x" for x
    using that assms(2) unfolding sg_inv_def by blast
  consider (hit) x where "jm_get (sg_aliases s) t = Some x" "c = x" "s1 = s"
    | (store) x where "jm_get (sg_aliases s) t = None" "truthy ?v = Some x" "c = x"
        "s1 = sg_cacheAlias t x (s\<lparr>sg_aliasStore := ?m\<rparr>)"
    | (miss) "jm_get (sg_aliases s) t = None" "truthy ?v = None" "c = t" "s1 = s\<lparr>sg_aliasStore := ?m\<rparr>"
    using assms(1) by (auto simp: sg_canonicalize_def env Let_def case_prod_beta split: option.splits)
  then have "sinv s1 \<and> keeps clk s s1 \<and> sg_used s1 = sg_used s \<and> (CHR ''.'' \<in> List.set t \<longrightarrow> c = t) \<and>
    (\<forall>x. jm_get (sg_aliases s) t = Some x \<longrightarrow> c = x) \<and>
    (c = t \<or> CHR ''.'' \<in> List.set c \<and> jm_get (sg_aliases s1) t = Some c) \<and> sg_side s1 = sg_side s"
  proof cases
    case hit
    then show ?thesis using cached [OF hit(1)] assms(2) by simp
  next
    case store
    then have "sinv s1"
      using inv' found [OF store(2)] by (simp add: sg_inv_def sg_cacheAlias_def jsmap_simps)
    with store show ?thesis
      using found [OF store(2)] by (auto simp: keeps_def sg_cacheAlias_def jsmap_simps)
  next
    case miss
    then show ?thesis using inv' by (simp add: keeps_def)
  qed
  then show "sinv s1" "keeps clk s s1" "sg_used s1 = sg_used s" "CHR ''.'' \<in> List.set t \<Longrightarrow> c = t"
    "jm_get (sg_aliases s) t = Some x \<Longrightarrow> c = x"
    "c = t \<or> CHR ''.'' \<in> List.set c \<and> jm_get (sg_aliases s1) t = Some c"
    "sg_side s1 = sg_side s" by simp_all
qed

lemma canonicalize_again:
  assumes "sg_canonicalize E clk t s = (c, s1)" and "sinv s"
  shows "fst (sg_canonicalize E clk c s1) = c"
proof (cases "CHR ''.'' \<in> List.set c")
  case True
  obtain c' s2 where "sg_canonicalize E clk c s1 = (c', s2)" by fastforce
  then show ?thesis
    using canonicalize_facts(4) [OF _ canonicalize_facts(1) [OF assms] True] by simp
next
  case False
  then have c: "c = t" using canonicalize_facts(6) [OF assms] by blast
  have inv: "minv (sg_aliasStore s)" using assms(2) by (simp add: sg_inv_def)
  have "view clk (snd (get clk (aliasKey t) (sg_aliasStore s))) = view clk (sg_aliasStore s)"
    using m.get_keeps [OF inv order_refl] .
  then have "fst (get clk (aliasKey t) (snd (get clk (aliasKey t) (sg_aliasStore s)))) = fst (get clk (aliasKey t) (sg_aliasStore s))"
    using m.get_value [OF inv] m.get_value [OF m.get_inv [OF inv]] by simp
  with assms(1) c show ?thesis
    by (auto simp: sg_canonicalize_def sg_cacheAlias_def env Let_def case_prod_beta jsmap_simps split: option.splits)
qed

lemma has_facts:
  assumes "sinv s"
  shows "sinv (s\<lparr>sg_used := snd (has clk k (sg_used s))\<rparr>)"
    and "keeps clk s (s\<lparr>sg_used := snd (has clk k (sg_used s))\<rparr>)"
proof -
  have inv: "uinv (sg_used s)" using assms by (simp add: sg_inv_def)
  show "sinv (s\<lparr>sg_used := snd (has clk k (sg_used s))\<rparr>)"
    using assms u.has_inv [OF inv] by (simp add: sg_inv_def)
  show "keeps clk s (s\<lparr>sg_used := snd (has clk k (sg_used s))\<rparr>)"
    using u.has_live [OF inv] u.has_shrinks [OF inv] by (simp add: keeps_def)
qed

lemma boundMessage_facts:
  assumes "sg_boundMessage E clk c s = (r, s1)" and "sinv s"
  shows "sinv s1" and "keeps clk s s1"
  using assms m.get_inv
  by (auto simp: sg_boundMessage_def env sg_inv_def keeps_def Let_def case_prod_beta split: option.splits)

lemma isAnswered_facts:
  assumes "sg_isAnswered E clk c s = (r, s1)" and "sinv s"
  shows "sinv s1" and "keeps clk s s1"
  using assms has_facts [OF assms(2)]
  by (auto simp: sg_isAnswered_def env Let_def case_prod_beta split: option.splits)

text \<open>\<open>peek\<close> on a signed token: the record is the payload's, and nothing recorded is lost.\<close>

lemma peek_facts:
  assumes "sg_peek E clk now c s = (r, s2)" and "sinv s" and "fst (sg_canonicalize E clk c s) = c"
  shows "sinv s2" and "keeps clk s s2"
    and "r = Some x \<Longrightarrow> \<exists>p. verifyCallbackToken E c (sg_secret s) = Some p \<and> now < sp_e p \<and>
      cr_data x = sp_d p \<and> cr_roomId x = sp_r p \<and> cr_userId x = truthy (sp_u p) \<and>
      cr_expiresAtMs x = sp_e p \<and> cr_singleUse x = sp_s p \<and> \<not> fst (has clk (deadKey c) (sg_used s))"
    and "verifyCallbackToken E c (sg_secret s) = Some p \<Longrightarrow> now < sp_e p \<Longrightarrow>
      \<not> fst (has clk (deadKey c) (sg_used s)) \<Longrightarrow> r \<noteq> None"
proof -
  obtain c' s1 where c': "sg_canonicalize E clk c s = (c', s1)" by fastforce
  note canon = canonicalize_facts [OF c' assms(2)]
  have c'_eq: "c' = c" using c' assms(3) by simp
  let ?s2 = "s1\<lparr>sg_used := snd (has clk (deadKey c) (sg_used s))\<rparr>"
  have has: "sinv ?s2" "keeps clk s ?s2"
    using has_facts [OF canon(1), of clk "deadKey c"] keeps_trans [OF canon(2)] canon(3) by auto
  have secret: "sg_secret s1 = sg_secret s" using canon(2) by (simp add: keeps_def)
  note unfold = sg_peek_def env c' c'_eq canon(3) secret Let_def case_prod_beta
  consider (no) "r = None" "s2 = ?s2" "fst (has clk (deadKey c) (sg_used s)) \<or>
        verifyCallbackToken E c (sg_secret s) = None \<or>
        (\<exists>p. verifyCallbackToken E c (sg_secret s) = Some p \<and> sp_e p \<le> now)"
    | (yes) p b s3 a where "\<not> fst (has clk (deadKey c) (sg_used s))"
        "verifyCallbackToken E c (sg_secret s) = Some p" "now < sp_e p"
        "sg_boundMessage E clk c ?s2 = (b, s3)" "sg_isAnswered E clk c s3 = (a, s2)"
        "r = Some \<lparr>cr_data = sp_d p, cr_roomId = sp_r p, cr_messageEventId = b, cr_userId = truthy (sp_u p),
           cr_expiresAtMs = sp_e p, cr_answered = a, cr_singleUse = sp_s p\<rparr>"
    using assms(1)
    by (cases "fst (has clk (deadKey c) (sg_used s))"; cases "verifyCallbackToken E c (sg_secret s)")
      (auto simp: unfold prod_eq_iff split: if_splits)
  then have "sinv s2 \<and> keeps clk s s2 \<and> (\<forall>x. r = Some x \<longrightarrow>
      (\<exists>p. verifyCallbackToken E c (sg_secret s) = Some p \<and> now < sp_e p \<and>
      cr_data x = sp_d p \<and> cr_roomId x = sp_r p \<and> cr_userId x = truthy (sp_u p) \<and>
      cr_expiresAtMs x = sp_e p \<and> cr_singleUse x = sp_s p \<and> \<not> fst (has clk (deadKey c) (sg_used s)))) \<and>
      (\<forall>p. verifyCallbackToken E c (sg_secret s) = Some p \<longrightarrow> now < sp_e p \<longrightarrow>
        \<not> fst (has clk (deadKey c) (sg_used s)) \<longrightarrow> r \<noteq> None)"
  proof cases
    case no
    then show ?thesis using has by auto
  next
    case yes
    note b = boundMessage_facts [OF yes(4) has(1)]
    note a = isAnswered_facts [OF yes(5) b(1)]
    show ?thesis
      using a(1) keeps_trans [OF has(2) keeps_trans [OF b(2) a(2)]] yes by simp
  qed
  then show "sinv s2" "keeps clk s s2"
    "r = Some x \<Longrightarrow> \<exists>p. verifyCallbackToken E c (sg_secret s) = Some p \<and> now < sp_e p \<and>
      cr_data x = sp_d p \<and> cr_roomId x = sp_r p \<and> cr_userId x = truthy (sp_u p) \<and>
      cr_expiresAtMs x = sp_e p \<and> cr_singleUse x = sp_s p \<and> \<not> fst (has clk (deadKey c) (sg_used s))"
    "verifyCallbackToken E c (sg_secret s) = Some p \<Longrightarrow> now < sp_e p \<Longrightarrow>
      \<not> fst (has clk (deadKey c) (sg_used s)) \<Longrightarrow> r \<noteq> None" by blast+
qed

text \<open>
  Resolving: a refusal keeps everything recorded; a success is a live payload of the
  canonical token, and a single-use one is recorded as dead for at least its life time.
\<close>

lemma resolve_none:
  assumes "sg_resolve_now E now t u s = (None, s')" and "sinv s"
  shows "sinv s' \<and> keeps now s s'"
proof -
  obtain c s1 where c: "sg_canonicalize E now t s = (c, s1)" by fastforce
  note canon = canonicalize_facts [OF c assms(2)]
  obtain r s2 where r: "sg_peek E now now c s1 = (r, s2)" by fastforce
  note peek = peek_facts [OF r canon(1) canonicalize_again [OF c assms(2)]]
  have base: "sinv s2" "keeps now s s2"
    using peek(1) keeps_trans [OF canon(2) peek(2)] by simp_all
  have async: "sg_asyncUsed s = None" using assms(2) by (simp add: sg_inv_def)
  have uinv: "uinv (sg_used s2)" using base(1) by (simp add: sg_inv_def)
  have claim: "sinv s3 \<and> keeps now s2 s3" if "sg_claim E now c k s2 = (False, s3)" for k s3
  proof -
    have "tryAdd now now (deadKey c) (Some k) (sg_used s2) = (False, snd (has now (deadKey c) (sg_used s2)))"
      and "s3 = s2\<lparr>sg_used := snd (has now (deadKey c) (sg_used s2))\<rparr>"
      using that by (auto simp: sg_claim_def env u.tryAdd_eq Let_def case_prod_beta split: if_splits)
    then show ?thesis using has_facts [OF base(1)] by simp
  qed
  show ?thesis
  proof (cases "r = None \<or> (\<exists>x. r = Some x \<and> wrong_user x u)")
    case True
    then have "s' = s2" using assms(1) async c r
      by (auto simp: sg_resolve_now_def sg_resolve_def Let_def)
    then show ?thesis using base by simp
  next
    case False
    then obtain x where x: "r = Some x" "\<not> wrong_user x u" by (cases r) auto
    then have "cr_singleUse x" and "sg_claim E now c (max 1 (cr_expiresAtMs x - now)) s2 = (False, s')"
      using assms(1) async c r
      by (auto simp: sg_resolve_now_def sg_resolve_def Let_def case_prod_beta prod_eq_iff split: if_splits)
    then show ?thesis using claim keeps_trans [OF base(2)] by blast
  qed
qed

lemma resolve_some:
  assumes "sg_resolve_now E now t u s = (Some x, s')" and "sinv s"
  shows "sinv s'" and "sg_secret s' = sg_secret s" and "\<not> wrong_user x u" and "now < cr_expiresAtMs x"
    and "\<exists>c p. (c = t \<or> jm_get (sg_aliases s') t = Some c) \<and> CHR ''.'' \<in> List.set c \<and>
      verifyCallbackToken E c (sg_secret s) = Some p \<and> sp_e p = cr_expiresAtMs x \<and> sp_d p = cr_data x \<and>
      sp_r p = cr_roomId x \<and>
      (cr_singleUse x \<longrightarrow> (\<exists>e. expiry (sg_used s') (deadKey c) = Some e \<and> sp_e p \<le> e))"
proof -
  obtain c s1 where c: "sg_canonicalize E now t s = (c, s1)" by fastforce
  note canon = canonicalize_facts [OF c assms(2)]
  obtain r s2 where r: "sg_peek E now now c s1 = (r, s2)" by fastforce
  note peek = peek_facts [OF r canon(1) canonicalize_again [OF c assms(2)]]
  have base: "sinv s2" "keeps now s s2" "keeps now s1 s2"
    using peek(1,2) keeps_trans [OF canon(2) peek(2)] by simp_all
  have uinv: "uinv (sg_used s2)" using base(1) by (simp add: sg_inv_def)
  have async: "sg_asyncUsed s = None" using assms(2) by (simp add: sg_inv_def)
  have x: "r = Some x" "\<not> wrong_user x u"
    and claim: "if cr_singleUse x then sg_claim E now c (max 1 (cr_expiresAtMs x - now)) s2 = (True, s') else s' = s2"
    using assms(1) async c r
    by (auto simp: sg_resolve_now_def sg_resolve_def Let_def case_prod_beta prod_eq_iff
        split: option.splits if_splits prod.splits)
  obtain p where p: "verifyCallbackToken E c (sg_secret s1) = Some p" "now < sp_e p"
    "cr_data x = sp_d p" "cr_roomId x = sp_r p" "cr_expiresAtMs x = sp_e p"
    using peek(3) [OF x(1)] by blast
  have dot: "CHR ''.'' \<in> List.set c" by (rule verify_has_dot [OF p(1)])
  have secret: "sg_secret s1 = sg_secret s" using canon(2) by (simp add: keeps_def)
  let ?k = "max 1 (cr_expiresAtMs x - now)"
  have single: "s' = s2\<lparr>sg_used := add now (deadKey c) (Some ?k) (snd (has now (deadKey c) (sg_used s2)))\<rparr>"
    if "cr_singleUse x"
    using claim that by (auto simp: sg_claim_def env u.tryAdd_eq Let_def case_prod_beta split: if_splits)
  have dead: "expiry (sg_used s') (deadKey c) = Some (now + ?k)" if "cr_singleUse x"
    using single [OF that] u.add_expiry [OF u.has_inv [OF uinv]] by simp
  have alias': "sg_aliases s' = sg_aliases s2" and secret': "sg_secret s' = sg_secret s2"
    using claim single by (cases "cr_singleUse x"; simp)+
  show "sinv s'"
    using claim single u.add_inv [OF u.has_inv [OF uinv]] base(1) by (cases "cr_singleUse x") (simp_all add: sg_inv_def)
  show "sg_secret s' = sg_secret s" using secret' base(2) by (simp add: keeps_def)
  show "\<not> wrong_user x u" by (rule x(2))
  show "now < cr_expiresAtMs x" using p by simp
  have "c = t \<or> jm_get (sg_aliases s') t = Some c"
    using canon(6) base(3) alias' unfolding keeps_def by metis
  then show "\<exists>c p. (c = t \<or> jm_get (sg_aliases s') t = Some c) \<and> CHR ''.'' \<in> List.set c \<and>
      verifyCallbackToken E c (sg_secret s) = Some p \<and> sp_e p = cr_expiresAtMs x \<and> sp_d p = cr_data x \<and>
      sp_r p = cr_roomId x \<and>
      (cr_singleUse x \<longrightarrow> (\<exists>e. expiry (sg_used s') (deadKey c) = Some e \<and> sp_e p \<le> e))"
    using dot p secret dead by (intro exI [of _ c] exI [of _ p]) auto
qed

text \<open>Spent tokens are refused and stay spent; a successful single use spends the token.\<close>

lemma spent_resolve:
  assumes "sinv s" and "sg_spent expiry E now s t" and "now \<le> now'"
  shows "fst (sg_resolve_now E now' t u s) = None"
    and "sg_spent expiry E now' (snd (sg_resolve_now E now' t u s)) t"
proof -
  obtain c where c: "jm_get (sg_aliases s) t = Some c \<or> CHR ''.'' \<in> List.set t \<and> c = t" "CHR ''.'' \<in> List.set c"
    and dead: "\<And>p. verifyCallbackToken E c (sg_secret s) = Some p \<Longrightarrow>
      sp_e p \<le> now \<or> (\<exists>e. expiry (sg_used s) (deadKey c) = Some e \<and> sp_e p \<le> e)"
    using assms(2) unfolding sg_spent_def by blast
  obtain c' s1 where c': "sg_canonicalize E now' t s = (c', s1)" by fastforce
  note canon = canonicalize_facts [OF c' assms(1)]
  have c'_eq: "c' = c" using c canon(4,5) by blast
  obtain r s2 where r: "sg_peek E now' now' c s1 = (r, s2)" by fastforce
  note peek = peek_facts [OF r canon(1) canonicalize_again [OF c' assms(1), unfolded c'_eq]]
  have uinv: "uinv (sg_used s)" using assms(1) by (simp add: sg_inv_def)
  have secret: "sg_secret s1 = sg_secret s" using canon(2) by (simp add: keeps_def)
  have "r = None"
  proof (rule ccontr)
    assume "r \<noteq> None"
    then obtain x where "r = Some x" by blast
    from peek(3) [OF this] obtain p where p: "verifyCallbackToken E c (sg_secret s) = Some p" "now' < sp_e p"
      "\<not> fst (has now' (deadKey c) (sg_used s))"
      using canon(3) secret by auto
    from dead [OF p(1)] p(2) assms(3) obtain e where "expiry (sg_used s) (deadKey c) = Some e" "sp_e p \<le> e"
      by force
    with p(2,3) u.has_value [OF uinv] show False by simp
  qed
  then have res: "sg_resolve_now E now' t u s = (None, s2)"
    using assms(1) by (simp add: sg_resolve_now_def sg_resolve_def c' c'_eq r sg_inv_def Let_def)
  show "fst (sg_resolve_now E now' t u s) = None" by (simp add: res)
  have keep: "keeps now' s s2" by (rule keeps_trans [OF canon(2) peek(2)])
  have "sp_e p \<le> now' \<or> (\<exists>e. expiry (sg_used s2) (deadKey c) = Some e \<and> sp_e p \<le> e)"
    if "verifyCallbackToken E c (sg_secret s2) = Some p" for p
  proof (cases "sp_e p \<le> now'")
    case False
    have "verifyCallbackToken E c (sg_secret s) = Some p"
      using that keep by (simp add: keeps_def)
    with dead False assms(3) obtain e where "expiry (sg_used s) (deadKey c) = Some e" "sp_e p \<le> e"
      by force
    moreover from this keep False have "expiry (sg_used s2) (deadKey c) = Some e" by (simp add: keeps_def)
    ultimately show ?thesis by blast
  qed simp
  moreover have "jm_get (sg_aliases s2) t = Some c \<or> CHR ''.'' \<in> List.set t \<and> c = t"
    using c(1) keep by (auto simp: keeps_def)
  ultimately show "sg_spent expiry E now' (snd (sg_resolve_now E now' t u s)) t"
    unfolding res sg_spent_def using c(2) by auto
qed

lemma single_spent:
  assumes "sinv s" and "sg_resolve_now E now t u s = (Some x, s')" and "cr_singleUse x"
  shows "sg_spent expiry E now s' t"
proof -
  obtain c p where "c = t \<or> jm_get (sg_aliases s') t = Some c" "CHR ''.'' \<in> List.set c"
    "verifyCallbackToken E c (sg_secret s) = Some p"
    "\<exists>e. expiry (sg_used s') (deadKey c) = Some e \<and> sp_e p \<le> e"
    using resolve_some(5) [OF assms(2,1)] assms(3) by blast
  then show ?thesis
    unfolding sg_spent_def using resolve_some(2) [OF assms(2,1)] by (intro exI [of _ c]) auto
qed

lemma dropAlias_facts:
  assumes "sinv s"
  shows "sinv (sg_dropAlias E clk c s)" and "sg_used (sg_dropAlias E clk c s) = sg_used s"
    and "sg_secret (sg_dropAlias E clk c s) = sg_secret s"
proof -
  have inv: "minv (sg_aliasStore s)" "alias_store_ok view (sg_aliasStore s)"
    using assms by (simp_all add: sg_inv_def)
  let ?m = "snd (get clk (aliasOfKey c) (sg_aliasStore s))"
  have del: "minv (mdelete clk k m) \<and> alias_store_ok view (mdelete clk k m)"
    if "minv m" "alias_store_ok view m" for k m
    using that m.delete_inv [OF that(1)] m.delete_view [OF that(1)] by (simp add: alias_store_ok_def)
  have get: "minv ?m" "alias_store_ok view ?m"
    using m.get_inv [OF inv(1)] alias_ok_get [OF inv] by simp_all
  have d1: "minv (mdelete clk k (mdelete clk k' (sg_aliasStore s))) \<and>
      alias_store_ok view (mdelete clk k (mdelete clk k' (sg_aliasStore s)))"
    and d2: "minv (mdelete clk k (mdelete clk k' ?m)) \<and> alias_store_ok view (mdelete clk k (mdelete clk k' ?m))" for k k'
    using del [OF inv, of k'] del [OF get, of k'] del by blast+
  have alias_del: "\<forall>a' x. jm_get (jm_del a (sg_aliases s)) a' = Some x \<longrightarrow>
      CHR ''.'' \<notin> List.set a' \<and> CHR ''.'' \<in> List.set x" for a
    using assms by (simp add: sg_inv_def jsmap_simps)
  show "sinv (sg_dropAlias E clk c s)"
    using assms d1 d2 get alias_del
    by (simp add: sg_dropAlias_def env sg_inv_def Let_def case_prod_beta split: option.split)
  show "sg_used (sg_dropAlias E clk c s) = sg_used s" "sg_secret (sg_dropAlias E clk c s) = sg_secret s"
    by (simp_all add: sg_dropAlias_def env Let_def case_prod_beta split: option.split)
qed

lemma revoke_facts:
  assumes "sinv s"
  shows "sinv (sg_revoke E clk t s)"
    and "CHR ''.'' \<in> List.set t \<Longrightarrow>
      expiry (sg_used (sg_revoke E clk t s)) (deadKey t) = Some (clk + sg_ttlMs s)"
    and "sg_secret (sg_revoke E clk t s) = sg_secret s"
proof -
  obtain c s1 where c: "sg_canonicalize E clk t s = (c, s1)" by fastforce
  note canon = canonicalize_facts [OF c assms]
  have uinv: "uinv (sg_used s1)" and binv: "\<And>b. sg_bindStore s1 = Some b \<Longrightarrow> minv b"
    using canon(1) by (simp_all add: sg_inv_def)
  define u where "u = add clk (deadKey c) (Some (sg_ttlMs s1)) (sg_used s1)"
  have "uinv u" using u.add_inv [OF uinv] by (simp add: u_def)
  obtain s4 where s4: "sg_revoke E clk t s = sg_dropAlias E clk c s4" "sg_used s4 = u"
    "sg_secret s4 = sg_secret s1" "sg_aliases s4 = sg_aliases s1" "sg_aliasStore s4 = sg_aliasStore s1"
    "sg_asyncUsed s4 = sg_asyncUsed s1" "sg_bindStore s4 = map_option (mdelete clk (bindKey c)) (sg_bindStore s1)"
    by (simp add: sg_revoke_def c env u_def Let_def split: option.split)
  have "minv b" if "sg_bindStore s4 = Some b" for b
    using that s4(7) binv m.delete_inv by (cases "sg_bindStore s1") auto
  then have inv4: "sinv s4"
    using canon(1) s4 \<open>uinv u\<close> by (simp add: sg_inv_def)
  show "sinv (sg_revoke E clk t s)" "sg_secret (sg_revoke E clk t s) = sg_secret s"
    using dropAlias_facts [OF inv4] s4 canon(2) by (simp_all add: keeps_def)
  show "expiry (sg_used (sg_revoke E clk t s)) (deadKey t) = Some (clk + sg_ttlMs s)" if "CHR ''.'' \<in> List.set t"
    using dropAlias_facts [OF inv4] s4 canon(2) canon(4) [OF that] u.add_expiry [OF uinv]
    by (simp add: u_def keeps_def)
qed

text \<open>A live signed token that is not recorded as dead resolves.\<close>

lemma resolve_live:
  assumes "sinv s" and "verifyCallbackToken E t (sg_secret s) = Some p" and "now < sp_e p"
    and "case expiry (sg_used s) (deadKey t) of None \<Rightarrow> True | Some e \<Rightarrow> e \<le> now"
    and "may_press (truthy (sp_u p)) u"
  shows "\<exists>x s'. sg_resolve_now E now t u s = (Some x, s') \<and> cr_data x = sp_d p \<and> cr_roomId x = sp_r p \<and>
    cr_userId x = truthy (sp_u p) \<and> cr_singleUse x = sp_s p"
proof -
  have dot: "CHR ''.'' \<in> List.set t" by (rule verify_has_dot [OF assms(2)])
  obtain c s1 where c: "sg_canonicalize E now t s = (c, s1)" by fastforce
  note canon = canonicalize_facts [OF c assms(1)]
  have c_eq: "c = t" using canon(4) [OF dot] .
  obtain r s2 where r: "sg_peek E now now t s1 = (r, s2)" by fastforce
  note peek = peek_facts [OF r canon(1) canonicalize_again [OF c assms(1), unfolded c_eq]]
  have uinv: "uinv (sg_used s)" and async: "sg_asyncUsed s = None" and uinv2: "uinv (sg_used s2)"
    using assms(1) peek(1) by (simp_all add: sg_inv_def)
  have alive: "\<not> fst (has now (deadKey t) (sg_used s))"
    using u.has_value [OF uinv] assms(4) by (simp split: option.splits)
  have secret: "sg_secret s1 = sg_secret s" using canon(2) by (simp add: keeps_def)
  obtain x where x: "r = Some x"
    using peek(4) assms(2,3) alive canon(3) secret by auto
  obtain p' where p': "verifyCallbackToken E t (sg_secret s) = Some p'" "cr_data x = sp_d p'"
    "cr_roomId x = sp_r p'" "cr_userId x = truthy (sp_u p')" "cr_singleUse x = sp_s p'"
    using peek(3) [OF x] secret by auto
  then have fields: "cr_data x = sp_d p" "cr_roomId x = sp_r p" "cr_userId x = truthy (sp_u p)" "cr_singleUse x = sp_s p"
    using assms(2) by simp_all
  have "\<not> wrong_user x u" using assms(5) fields by (simp add: wrong_user_iff)
  moreover have "\<not> fst (has now (deadKey t) (sg_used s2))"
  proof -
    have "expiry (sg_used s2) (deadKey t) \<in> {expiry (sg_used s) (deadKey t), None}"
      using peek(2) canon(3) by (simp add: keeps_def)
    with u.has_value [OF uinv2] assms(4) show ?thesis by (auto split: option.splits)
  qed
  then have "fst (sg_claim E now t k s2)" for k
    by (simp add: sg_claim_def env u.tryAdd_eq Let_def case_prod_beta)
  ultimately show ?thesis
    using fields by (simp add: sg_resolve_now_def sg_resolve_def c c_eq async r x Let_def case_prod_beta)
qed

lemma issue_facts:
  assumes "sinv s" and "CHR ''.'' \<notin> List.set rnd" and "sg_issue E clk rnd p s = (t, s1)"
  shows "t = signCallbackToken E (sg_payload clk rnd p s) (sg_secret s)" and "sinv s1"
    and "sg_used s1 = sg_used s" and "sg_secret s1 = sg_secret s"
proof -
  have t: "t = signCallbackToken E (sg_payload clk rnd p s) (sg_secret s)"
    using assms(3) by (auto simp: sg_issue_def Let_def)
  then show "t = signCallbackToken E (sg_payload clk rnd p s) (sg_secret s)" .
  have dot: "CHR ''.'' \<in> List.set t" by (simp add: t signCallbackToken_def Let_def)
  let ?ttl = "or_default (sg_ttlMs s) (ip_ttlMs p)"
  let ?m1 = "set clk clk (aliasKey rnd) t ?ttl (sg_aliasStore s)"
  let ?m2 = "set clk clk (aliasOfKey t) rnd ?ttl ?m1"
  have inv: "minv (sg_aliasStore s)" "alias_store_ok view (sg_aliasStore s)"
    using assms(1) by (simp_all add: sg_inv_def)
  have store: "minv ?m2" using m.set_inv inv(1) by simp
  have "alias_store_ok view ?m2"
    unfolding alias_store_ok_def
  proof (intro allI impI)
    fix now a v
    assume "view now ?m2 (aliasKey a) = Some v"
    then have v: "view now ?m1 (aliasKey a) = Some v"
      by (rule m.set_other_Some [OF m.set_inv [OF inv(1)] key_simps(3)])
    show "v = [] \<or> CHR ''.'' \<notin> List.set a \<and> CHR ''.'' \<in> List.set v"
    proof (cases "a = rnd")
      case True
      then have "v = t" using v m.set_value [OF inv(1), of now clk clk "aliasKey rnd" t ?ttl] by auto
      with True dot assms(2) show ?thesis by simp
    next
      case False
      then have "view now (sg_aliasStore s) (aliasKey a) = Some v"
        using m.set_other_Some [OF inv(1) _ v] by simp
      with inv(2) show ?thesis unfolding alias_store_ok_def by blast
    qed
  qed
  moreover have "minv b" if "sg_bindStore s1 = Some b" for b
    using that assms(1,3) m.set_inv
    by (auto simp: sg_issue_def sg_bindSet_def sg_trackMessage_def sg_rememberAlias_def env Let_def sg_inv_def
        split: if_splits)
  moreover have "jm_get (sg_aliases s1) a = Some x \<Longrightarrow> CHR ''.'' \<notin> List.set a \<and> CHR ''.'' \<in> List.set x" for a x
    using assms dot t
    by (auto simp: sg_issue_def sg_bindSet_def sg_trackMessage_def sg_rememberAlias_def Let_def sg_inv_def
        jsmap_simps split: if_splits)
  ultimately show "sinv s1"
    using assms(1,3) store t
    by (auto simp: sg_issue_def sg_bindSet_def sg_trackMessage_def sg_rememberAlias_def env Let_def sg_inv_def
        simp del: key_simps split: if_splits)
  show "sg_used s1 = sg_used s" "sg_secret s1 = sg_secret s"
    using assms(3)
    by (auto simp: sg_issue_def sg_bindSet_def sg_trackMessage_def sg_rememberAlias_def Let_def split: if_splits)
qed

text \<open>
  A revocation is recorded for the registry's default life time only: a token issued to
  live longer resolves again once that has passed.
\<close>

lemma revoke_lapses:
  assumes "sinv s" and "verifyCallbackToken E t (sg_secret s) = Some p" and "now' < sp_e p"
    and "now + sg_ttlMs s \<le> now'" and "may_press (truthy (sp_u p)) u"
  shows "fst (sg_resolve_now E now' t u (sg_revoke E now t s)) \<noteq> None"
proof -
  note rev = revoke_facts [OF assms(1), where clk = now and t = t]
  have dot: "CHR ''.'' \<in> List.set t" by (rule verify_has_dot [OF assms(2)])
  have "verifyCallbackToken E t (sg_secret (sg_revoke E now t s)) = Some p"
    using assms(2) rev(3) by simp
  from resolve_live [OF rev(1) this assms(3) _ assms(5)] rev(2) [OF dot] assms(4)
  show ?thesis by auto
qed

end

definition sg_fresh ::
  "('u \<Rightarrow> string \<Rightarrow> int option) \<Rightarrow> ('u, 'm, 'a) sg_env \<Rightarrow> int \<Rightarrow> string \<Rightarrow> issue_params \<Rightarrow>
     ('u, 'm, 'a) signed_registry \<Rightarrow> bool" where
  "sg_fresh expiry E now rnd p s \<longleftrightarrow>
     (let v = payload_json (sg_payload now rnd p s)
      in CHR ''.'' \<notin> set rnd \<and> cd_decode E (cd_encode E v) = Some v \<and> cd_encode E v \<noteq> [] \<and>
         CHR ''.'' \<notin> set (cd_hmac E (sg_secret s) (cd_encode E v)) \<and>
         expiry (sg_used s) (deadKey (signCallbackToken E (sg_payload now rnd p s) (sg_secret s))) = None)"

definition sg_covers :: "('u, 'm, 'a) sg_env \<Rightarrow> int \<Rightarrow> string \<Rightarrow> ('u, 'm, 'a) signed_registry \<Rightarrow> bool" where
  "sg_covers E now t s \<longleftrightarrow> CHR ''.'' \<in> set t \<and>
     (case verifyCallbackToken E t (sg_secret s) of None \<Rightarrow> True | Some p \<Rightarrow> sp_e p \<le> now + sg_ttlMs s)"

sublocale signed_stores \<subseteq> signed: callback_store "sg_issue E" "sg_resolve_now E" "sg_revoke E"
  "sg_fresh expiry E" sg_ttlMs "sg_covers E" "sg_spent expiry E" "sg_inv uinv minv view"
proof unfold_locales
  fix s now rnd p t s1 now' u
  assume inv: "sg_inv uinv minv view s" and fresh: "sg_fresh expiry E now rnd p s"
    and iss: "sg_issue E now rnd p s = (t, s1)" and life: "now' < now + or_default (sg_ttlMs s) (ip_ttlMs p)"
    and press: "may_press (ip_userId p) u"
  let ?p = "sg_payload now rnd p s"
  have codec: "cd_decode E (cd_encode E (payload_json ?p)) = Some (payload_json ?p)"
    "cd_encode E (payload_json ?p) \<noteq> []" "CHR ''.'' \<notin> List.set (cd_hmac E (sg_secret s) (cd_encode E (payload_json ?p)))"
    "CHR ''.'' \<notin> List.set rnd"
    "expiry (sg_used s) (deadKey (signCallbackToken E ?p (sg_secret s))) = None"
    using fresh unfolding sg_fresh_def Let_def by simp_all
  note issued = issue_facts [OF inv codec(4) iss]
  have "verifyCallbackToken E t (sg_secret s1) = Some ?p"
    using verify_signed [OF codec(1-3)] issued(1,4) by simp
  moreover have "case expiry (sg_used s1) (deadKey t) of None \<Rightarrow> True | Some e \<Rightarrow> e \<le> now'"
    using codec(5) issued(1,3) by simp
  moreover have "may_press (truthy (sp_u ?p)) u"
    using press by (simp add: sg_payload_def may_press_def)
  moreover have "now' < sp_e ?p" using life by (simp add: sg_payload_def)
  ultimately obtain x s' where "sg_resolve_now E now' t u s1 = (Some x, s')" "cr_data x = sp_d ?p"
    "cr_roomId x = sp_r ?p" "cr_userId x = truthy (sp_u ?p)" "cr_singleUse x = sp_s ?p"
    using resolve_live [OF issued(2)] by blast
  then show "\<exists>r s2. sg_resolve_now E now' t u s1 = (Some r, s2) \<and> cr_data r = ip_data p \<and> cr_roomId r = ip_roomId p \<and>
      cr_userId r = truthy (ip_userId p) \<and> cr_singleUse r = or_default False (ip_singleUse p)"
    by (simp add: sg_payload_def)
next
  fix s now t u r s1
  assume inv: "sg_inv uinv minv view s" and res: "sg_resolve_now E now t u s = (Some r, s1)"
  show "may_press (cr_userId r) u" "now < cr_expiresAtMs r"
    using resolve_some(3,4) [OF res inv] by (simp_all add: wrong_user_iff)
  show "sg_spent expiry E now s1 t" if "cr_singleUse r"
    by (rule single_spent [OF inv res that])
next
  fix s :: "('u, 'm, 'a) signed_registry" and now t u
  assume inv: "sg_inv uinv minv view s"
  obtain r s1 where res: "sg_resolve_now E now t u s = (r, s1)" by fastforce
  show "sg_inv uinv minv view (snd (sg_resolve_now E now t u s))"
    using res resolve_none [OF _ inv] resolve_some(1) [OF _ inv] by (cases r) auto
next
  fix s :: "('u, 'm, 'a) signed_registry" and now t
  assume inv: "sg_inv uinv minv view s"
  show "sg_inv uinv minv view (sg_revoke E now t s)" by (rule revoke_facts(1) [OF inv])
  show "sg_spent expiry E now (sg_revoke E now t s) t" if "sg_covers E now t s"
    using that revoke_facts(2,3) [OF inv, where clk = now and t = t] unfolding sg_covers_def sg_spent_def
    by (intro exI [of _ t]) (auto split: option.splits)
qed (simp_all add: spent_resolve)

text \<open>The registry with the memory stores, which are the defaults, and with the file stores.\<close>

definition mem_env :: "(string \<Rightarrow> string \<Rightarrow> string) \<Rightarrow> (json \<Rightarrow> string) \<Rightarrow> (string \<Rightarrow> json option) \<Rightarrow>
    (used_store, ttl_map, async_used_store) sg_env" where
  "mem_env hmac encode decode =
     \<lparr>uo_has = mu_has, uo_add = mu_add, uo_tryAdd = Some (\<lambda>clk. mu_tryAdd clk clk), mo_get = mm_get,
      mo_set = (\<lambda>clk k v t. mm_set clk k v (Some t)), mo_delete = (\<lambda>clk. mm_delete),
      ao_tryAdd = (\<lambda>clk. ma_tryAdd clk clk), cd_hmac = hmac, cd_encode = encode, cd_decode = decode\<rparr>"

definition file_env :: "file_system \<Rightarrow> (string \<Rightarrow> string \<Rightarrow> string) \<Rightarrow> (json \<Rightarrow> string) \<Rightarrow> (string \<Rightarrow> json option) \<Rightarrow>
    (file_used_store, file_ttl_map, file_async_used_store) sg_env" where
  "file_env fs hmac encode decode =
     \<lparr>uo_has = fu_has fs, uo_add = fu_add fs, uo_tryAdd = Some (\<lambda>clk. fu_tryAdd fs clk clk), mo_get = fm_get fs,
      mo_set = (\<lambda>clk. fm_set fs clk clk), mo_delete = fm_delete fs,
      ao_tryAdd = (\<lambda>clk. fa_tryAdd fs clk clk), cd_hmac = hmac, cd_encode = encode, cd_decode = decode\<rparr>"

interpretation mem_signed: signed_stores mu_has mu_add mu_tryAdd "\<lambda>now. mu_delete" "\<lambda>s. jm_get (us_seen s)"
  "\<lambda>n s. jm_young n (us_seen s)" us_capacity us_defaultTtlMs mu_inv
  mm_get "\<lambda>now now' k v t. mm_set now k v (Some t)" "\<lambda>now. mm_delete" mm_view mm_inv "mem_env h e d"
  for h e d
  by unfold_locales (simp_all add: mem_env_def)

interpretation file_signed: signed_stores "fu_has fs" "fu_add fs" "fu_tryAdd fs" "fu_delete fs"
  "\<lambda>s. jm_get (fu_seen s)" "\<lambda>n s. jm_young n (fu_seen s)" fu_capacity fu_defaultTtlMs fu_inv
  "fm_get fs" "fm_set fs" "fm_delete fs" fm_view fm_inv "file_env fs h e d"
  for fs h e d
  by unfold_locales (simp_all add: file_env_def)

abbreviation mem_signed_inv :: "(used_store, ttl_map, async_used_store) signed_registry \<Rightarrow> bool" where
  "mem_signed_inv \<equiv> sg_inv mu_inv mm_inv mm_view"

abbreviation file_signed_inv :: "(file_used_store, file_ttl_map, file_async_used_store) signed_registry \<Rightarrow> bool" where
  "file_signed_inv \<equiv> sg_inv fu_inv fm_inv fm_view"

section \<open>Properties\<close>

definition demo_params :: issue_params where
  "demo_params = \<lparr>ip_data = ''buy'', ip_roomId = ''!r:hs'', ip_messageEventId = None, ip_userId = Some ''@u:hs'',
     ip_ttlMs = Some 500, ip_singleUse = Some True\<rparr>"

definition demo_opaque :: callback_registry where
  "demo_opaque = snd (cb_issue 10 ''tok'' demo_params (cb_new None None))"

definition demo_signed :: "(used_store, ttl_map, async_used_store) signed_registry" where
  "demo_signed = \<lparr>sg_secret = ''0123456789abcdef'', sg_ttlMs = 100, sg_used = mu_new None None, sg_asyncUsed = None,
     sg_aliasStore = \<lparr>tm_entries = [], tm_capacity = 100, tm_defaultTtlMs = 1000\<rparr>, sg_bindStore = None,
     sg_side = [], sg_byMessage = [], sg_aliases = [], sg_aliasOf = []\<rparr>"

definition demo_signed_file :: "(file_used_store, file_ttl_map, file_async_used_store) signed_registry" where
  "demo_signed_file = \<lparr>sg_secret = ''0123456789abcdef'', sg_ttlMs = 100,
     sg_used = (fu_new ''d/callback-used.json'' None None)\<lparr>fu_loaded := True\<rparr>, sg_asyncUsed = None,
     sg_aliasStore = (fm_new ''d/callback-aliases.json'' None)\<lparr>fm_loaded := True\<rparr>, sg_bindStore = None,
     sg_side = [], sg_byMessage = [], sg_aliases = [], sg_aliasOf = []\<rparr>"

lemma demo_inv: "cb_inv demo_opaque" "mem_signed_inv demo_signed" "file_signed_inv demo_signed_file"
proof -
  have "cb_inv (cb_new None None)" by (simp add: cb_inv_def cb_new_def)
  then show "cb_inv demo_opaque" unfolding demo_opaque_def by (rule cb_issue_inv)
  show "mem_signed_inv demo_signed"
    by (simp add: sg_inv_def demo_signed_def mu_inv_def mu_new_def mm_inv_def alias_store_ok_def mm_view_def)
  show "file_signed_inv demo_signed_file"
    by (simp add: sg_inv_def demo_signed_file_def fu_inv_def fu_new_def fm_inv_def fm_new_def alias_store_ok_def
        fm_view_def)
qed

text \<open>A concrete codec for the token of \<open>demo_params\<close>.\<close>

definition demo_decode :: "int \<Rightarrow> string \<Rightarrow> json option" where
  "demo_decode clk s = Some (payload_json \<lparr>sp_d = ''buy'', sp_r = ''!r:hs'', sp_u = Some ''@u:hs'', sp_e = clk + 500,
     sp_s = True, sp_n = ''a1''\<rparr>)"

text \<open>
  However often, by whomever and at whatever times a button is pressed, a
  single-use token resolves at most once, in the opaque registry and in the signed one with
  memory stores and with file stores.
\<close>

theorem callback_single_use:
  assumes "cb_inv s" and "mem_signed_inv m" and "file_signed_inv f" and "sorted (map fst ps)"
  shows "single_hits (press_all cb_resolve t ps s) \<le> 1 \<and>
    single_hits (press_all (sg_resolve_now (mem_env h e d)) t ps m) \<le> 1 \<and>
    single_hits (press_all (sg_resolve_now (file_env fs h e d)) t ps f) \<le> 1"
  using opaque.at_most_once [OF assms(1,4)] mem_signed.signed.at_most_once [OF assms(2,4)]
    file_signed.signed.at_most_once [OF assms(3,4)] by blast

theorem callback_single_use_witness:
  "single_hits (press_all cb_resolve ''tok'' [(20, Some ''@u:hs''), (20, Some ''@u:hs''), (30, None)] demo_opaque) \<le> 1"
  using callback_single_use [OF demo_inv, of "[(20, Some ''@u:hs''), (20, Some ''@u:hs''), (30, None)]" "''tok''"] by simp

text \<open>
  A press resolves only before the token's expiry and only for the user the
  button was issued to, when it names one and the press does; and the signed registry
  resolves only text whose HMAC under the registry's secret verifies, to the payload it
  carries, or an alias of such text.
\<close>

theorem callback_press_authorised:
  assumes "cb_inv s" and "cb_resolve now t u s = (Some r, s')"
    and "mem_signed_inv m" and "sg_resolve_now (mem_env h e d) now t' u m = (Some q, m')"
  shows "may_press (cr_userId r) u \<and> now < cr_expiresAtMs r \<and>
    may_press (cr_userId q) u \<and> now < cr_expiresAtMs q \<and>
    (\<exists>c p. (c = t' \<or> jm_get (sg_aliases m') t' = Some c) \<and>
      verifyCallbackToken (mem_env h e d) c (sg_secret m) = Some p \<and> sp_d p = cr_data q \<and> sp_r p = cr_roomId q \<and>
      sp_e p = cr_expiresAtMs q)"
proof -
  obtain c p where "c = t' \<or> jm_get (sg_aliases m') t' = Some c"
    "verifyCallbackToken (mem_env h e d) c (sg_secret m) = Some p" "sp_d p = cr_data q" "sp_r p = cr_roomId q"
    "sp_e p = cr_expiresAtMs q"
    using mem_signed.resolve_some(5) [OF assms(4,3)] by blast
  then show ?thesis
    using opaque.resolve_user [OF assms(1,2)] opaque.resolve_fresh [OF assms(1,2)]
      mem_signed.signed.resolve_user [OF assms(3,4)] mem_signed.signed.resolve_fresh [OF assms(3,4)] by blast
qed

lemma demo_token:
  "verifyCallbackToken (mem_env (\<lambda>s x. ''m'') (\<lambda>v. ''p'') (demo_decode 10)) ''p.m'' secret =
     Some \<lparr>sp_d = ''buy'', sp_r = ''!r:hs'', sp_u = Some ''@u:hs'', sp_e = 510, sp_s = True, sp_n = ''a1''\<rparr>"
  by (simp add: verifyCallbackToken_def split_last_dot_def mem_env_def demo_decode_def payload_roundtrip)

theorem callback_press_authorised_witness:
  "may_press (cr_userId (the (fst (cb_resolve 20 ''tok'' (Some ''@u:hs'') demo_opaque)))) (Some ''@u:hs'')"
proof -
  let ?E = "mem_env (\<lambda>s x. ''m'') (\<lambda>v. ''p'') (demo_decode 10)"
  have live: "\<exists>x s'. sg_resolve_now ?E 20 ''p.m'' (Some ''@u:hs'') demo_signed = (Some x, s') \<and> cr_data x = ''buy'' \<and>
      cr_roomId x = ''!r:hs'' \<and> cr_userId x = Some ''@u:hs'' \<and> cr_singleUse x = True"
    using mem_signed.resolve_live [OF demo_inv(2) demo_token, of 20 "Some ''@u:hs''"]
    by (simp add: demo_signed_def mu_new_def may_press_def truthy_def)
  then obtain q m' where q: "sg_resolve_now ?E 20 ''p.m'' (Some ''@u:hs'') demo_signed = (Some q, m')" by blast
  obtain r s' where r: "cb_resolve 20 ''tok'' (Some ''@u:hs'') demo_opaque = (Some r, s')"
    by (simp add: demo_opaque_def cb_issue_def demo_params_def cb_prune_def cb_new_def cb_resolve_def cb_peek_def
        wrong_user_iff may_press_def truthy_def jm_filter_def)
  have "may_press (cr_userId r) (Some ''@u:hs'')"
    using callback_press_authorised [OF demo_inv(1) r demo_inv(2) q] by blast
  then show ?thesis by (simp add: r)
qed

text \<open>
  A token just issued resolves, until its life time is over and for the
  user it names, to the data, room, user and single-use flag it was issued with; the
  signed registry relies on its codec reading back the payload it wrote.
\<close>

theorem callback_issue_resolve:
  assumes "cb_inv s" and "cb_issue now rnd p s = (t, s1)" and "now \<le> now'"
    and "now' < now + or_default (cb_ttlMs s) (ip_ttlMs p)" and "may_press (ip_userId p) u"
    and "mem_signed_inv m" and "sg_issue (mem_env h e d) now rnd p m = (t', m1)"
    and "sg_fresh (\<lambda>s. jm_get (us_seen s)) (mem_env h e d) now rnd p m"
    and "now' < now + or_default (sg_ttlMs m) (ip_ttlMs p)"
  shows "(\<exists>r s2. cb_resolve now' t u s1 = (Some r, s2) \<and> cr_data r = ip_data p \<and> cr_roomId r = ip_roomId p \<and>
      cr_userId r = truthy (ip_userId p) \<and> cr_singleUse r = or_default False (ip_singleUse p)) \<and>
    (\<exists>r m2. sg_resolve_now (mem_env h e d) now' t' u m1 = (Some r, m2) \<and> cr_data r = ip_data p \<and>
      cr_roomId r = ip_roomId p \<and> cr_userId r = truthy (ip_userId p) \<and>
      cr_singleUse r = or_default False (ip_singleUse p))"
  using opaque.issue_resolve [OF assms(1) TrueI assms(2-5)]
    mem_signed.signed.issue_resolve [OF assms(6,8,7,3,9,5)] by blast

theorem callback_issue_resolve_witness:
  "\<exists>r m2. sg_resolve_now (mem_env (\<lambda>s x. ''m'') (\<lambda>v. ''p'') (demo_decode 10)) 20 ''p.m'' (Some ''@u:hs'')
     (snd (sg_issue (mem_env (\<lambda>s x. ''m'') (\<lambda>v. ''p'') (demo_decode 10)) 10 ''a1'' demo_params demo_signed)) = (Some r, m2) \<and>
     cr_data r = ''buy''"
proof -
  let ?E = "mem_env (\<lambda>s x. ''m'') (\<lambda>v. ''p'') (demo_decode 10)"
  have iss: "cb_issue 10 ''a1'' demo_params demo_opaque = (''a1'', snd (cb_issue 10 ''a1'' demo_params demo_opaque))"
    by (simp add: cb_issue_def Let_def)
  have sg: "sg_issue ?E 10 ''a1'' demo_params demo_signed = (''p.m'', snd (sg_issue ?E 10 ''a1'' demo_params demo_signed))"
    by (simp add: sg_issue_def Let_def signCallbackToken_def mem_env_def)
  have fresh: "sg_fresh (\<lambda>s. jm_get (us_seen s)) ?E 10 ''a1'' demo_params demo_signed"
    by (simp add: sg_fresh_def mem_env_def demo_decode_def sg_payload_def demo_params_def demo_signed_def mu_new_def
        truthy_def)
  have "20 < 10 + or_default (cb_ttlMs demo_opaque) (ip_ttlMs demo_params)"
    "may_press (ip_userId demo_params) (Some ''@u:hs'')"
    "20 < 10 + or_default (sg_ttlMs demo_signed) (ip_ttlMs demo_params)"
    by (simp_all add: demo_params_def may_press_def)
  from callback_issue_resolve [OF demo_inv(1) iss _ this(1,2) demo_inv(2) sg fresh this(3)]
  show ?thesis by (auto simp: demo_params_def)
qed

text \<open>
  A revoked token never resolves again: in the opaque registry always, in the
  signed one when the token does not outlive the registry's default life time.
\<close>

theorem callback_revoked:
  assumes "cb_inv s" and "mem_signed_inv m" and "file_signed_inv f"
    and "sg_covers (mem_env h e d) now t m" and "sg_covers (file_env fs h e d) now t f"
    and "\<forall>p \<in> set ps. now \<le> fst p" and "sorted (map fst ps)"
  shows "set (press_all cb_resolve t ps (cb_revoke t s)) \<subseteq> {None} \<and>
    set (press_all (sg_resolve_now (mem_env h e d)) t ps (sg_revoke (mem_env h e d) now t m)) \<subseteq> {None} \<and>
    set (press_all (sg_resolve_now (file_env fs h e d)) t ps (sg_revoke (file_env fs h e d) now t f)) \<subseteq> {None}"
  using opaque.revoked_presses [OF assms(1) TrueI assms(6,7)]
    mem_signed.signed.revoked_presses [OF assms(2,4,6,7)]
    file_signed.signed.revoked_presses [OF assms(3,5,6,7)] by blast

lemma demo_token_file:
  "verifyCallbackToken (file_env fs (\<lambda>s x. ''m'') (\<lambda>v. ''p'') (demo_decode 10)) ''p.m'' secret =
     Some \<lparr>sp_d = ''buy'', sp_r = ''!r:hs'', sp_u = Some ''@u:hs'', sp_e = 510, sp_s = True, sp_n = ''a1''\<rparr>"
  by (simp add: verifyCallbackToken_def split_last_dot_def file_env_def demo_decode_def payload_roundtrip)

theorem callback_revoked_witness:
  "set (press_all (sg_resolve_now (mem_env (\<lambda>s x. ''m'') (\<lambda>v. ''p'') (demo_decode 10))) ''p.m''
     [(450, None), (460, Some ''@u:hs'')]
     (sg_revoke (mem_env (\<lambda>s x. ''m'') (\<lambda>v. ''p'') (demo_decode 10)) 450 ''p.m'' demo_signed)) \<subseteq> {None}"
proof -
  let ?h = "\<lambda>s x. ''m''" and ?e = "\<lambda>v. ''p''"
  have "sg_covers (mem_env ?h ?e (demo_decode 10)) 450 ''p.m'' demo_signed"
    "sg_covers (file_env (\<lambda>_. None) ?h ?e (demo_decode 10)) 450 ''p.m'' demo_signed_file"
    by (simp_all add: sg_covers_def demo_token demo_token_file demo_signed_def demo_signed_file_def)
  then show ?thesis
    by (rule callback_revoked [OF demo_inv, THEN conjunct2, THEN conjunct1]) simp_all
qed

text \<open>
  The signed registry forgets a revocation after its default life time: a token
  issued with a longer one resolves again to its user.
\<close>

theorem signed_revoke_lapses:
  assumes "mem_signed_inv m" and "verifyCallbackToken (mem_env h e d) t (sg_secret m) = Some p" and "now' < sp_e p"
    and "now + sg_ttlMs m \<le> now'" and "may_press (truthy (sp_u p)) u"
  shows "fst (sg_resolve_now (mem_env h e d) now' t u (sg_revoke (mem_env h e d) now t m)) \<noteq> None"
  by (rule mem_signed.revoke_lapses [OF assms])

theorem signed_revoke_lapses_witness:
  "fst (sg_resolve_now (mem_env (\<lambda>s x. ''m'') (\<lambda>v. ''p'') (demo_decode 10)) 200 ''p.m'' (Some ''@u:hs'')
     (sg_revoke (mem_env (\<lambda>s x. ''m'') (\<lambda>v. ''p'') (demo_decode 10)) 20 ''p.m'' demo_signed)) \<noteq> None"
  by (rule signed_revoke_lapses [OF demo_inv(2) demo_token]) (simp_all add: demo_signed_def may_press_def truthy_def)

end
