(* ===== verification/Keyboards.thy ===== *)
theory Keyboards
  imports Js_Util
begin

text \<open>
  The inline keyboards of \<^verbatim>\<open>src/keyboards.ts\<close> and the schema versions of
  \<^verbatim>\<open>src/schema-contract.ts\<close>: the builder with its checks, the layout, the parser of
  keyboards read off the wire, and the text and HTML fallback. The URL parser of the
  platform is the parameter \<open>U\<close>: the protocol and the host name of a URL, or \<open>None\<close> when
  it throws. The arrow of the fallback lines lies beyond the code units modelled and is
  the parameter \<open>arrow\<close>.
\<close>

section \<open>Schema versions\<close>

record schema_info =
  si_version :: int
  si_supported :: bool
  si_deprecated :: bool

text \<open>Every schema of the table is at version 1.\<close>

definition AIOMATRIX_SCHEMA :: "string \<Rightarrow> int option" where
  "AIOMATRIX_SCHEMA key =
     (if key \<in> {''keyboard'', ''callback'', ''callback_answer'', ''toast'', ''progress'', ''mini_app'',
        ''mini_app_data'', ''bot'', ''host'', ''poll'', ''envelope''} then Some 1 else None)"

definition finite_version :: "json option \<Rightarrow> int" where
  "finite_version v = (case v of Some (JNum (Fin n)) \<Rightarrow> n | _ \<Rightarrow> 1)"

definition checkSchemaVersion :: "int \<Rightarrow> json option \<Rightarrow> schema_info" where
  "checkSchemaVersion expected version =
     (let v = finite_version version
      in \<lparr>si_version = v, si_supported = v \<le> expected, si_deprecated = v < expected\<rparr>)"

definition readSchemaVersion :: "json \<Rightarrow> int" where
  "readSchemaVersion block =
     (if \<not> isPlainObject block then 1 else finite_version (json_prop block ''version''))"

section \<open>Buttons\<close>

datatype button_style = StyleDefault | StylePrimary | StyleDanger | StyleLink

datatype inline_button =
    BtnCallback (btn_text: string) (btn_data: string) (btn_token: "string option")
      (btn_fallback: "string option") (btn_style: "button_style option")
  | BtnUrl (btn_text: string) (btn_url: string) (btn_style: "button_style option")
  | BtnMiniApp (btn_text: string) (btn_url: string) (btn_start: "string option") (btn_style: "button_style option")
  | BtnCommand (btn_text: string) (btn_command: string) (btn_style: "button_style option")

datatype button_error = EmptyText | TextTooLong | DataTooLong | UnsafeUrl

definition MAX_BUTTON_TEXT_LENGTH :: nat where "MAX_BUTTON_TEXT_LENGTH = 128"
definition MAX_CALLBACK_DATA_BYTES :: nat where "MAX_CALLBACK_DATA_BYTES = 512"
definition KEYBOARD_SCHEMA_VERSION :: int where "KEYBOARD_SCHEMA_VERSION = 1"
definition KEYBOARD_CONTENT_KEY :: string where "KEYBOARD_CONTENT_KEY = ''dev.aiomatrix.keyboard''"
definition CALLBACK_FALLBACK_COMMAND :: string where "CALLBACK_FALLBACK_COMMAND = ''cb''"

definition assertButtonText :: "string \<Rightarrow> button_error + string" where
  "assertButtonText label =
     (if js_trim label = [] then Inl EmptyText
      else if MAX_BUTTON_TEXT_LENGTH < length label then Inl TextTooLong
      else Inr label)"

definition assertCallbackData :: "string \<Rightarrow> button_error + string" where
  "assertCallbackData data =
     (if MAX_CALLBACK_DATA_BYTES < utf8_length data then Inl DataTooLong else Inr data)"

type_synonym url_parser = "string \<Rightarrow> (string \<times> string) option"

definition isLoopbackHost :: "string \<Rightarrow> bool" where
  "isLoopbackHost hostname \<longleftrightarrow> hostname = ''localhost'' \<or> hostname = ''127.0.0.1'' \<or> hostname = ''[::1]''"

definition isSafeButtonUrl :: "url_parser \<Rightarrow> string \<Rightarrow> bool \<Rightarrow> bool" where
  "isSafeButtonUrl U url requireHttps =
     (case U url of
        None \<Rightarrow> False
      | Some (protocol, hostname) \<Rightarrow>
          if protocol = ''https:'' then True
          else if protocol \<noteq> ''http:'' then False
          else if requireHttps then isLoopbackHost hostname
          else True)"

definition assertButtonUrl :: "url_parser \<Rightarrow> string \<Rightarrow> bool \<Rightarrow> button_error + string" where
  "assertButtonUrl U url requireHttps =
     (if \<not> isSafeButtonUrl U url requireHttps then Inl UnsafeUrl else Inr url)"

section \<open>The builder\<close>

text \<open>The builder's state is its rows; a method that throws leaves them as they are.\<close>

type_synonym keyboard = "inline_button list list"

definition kb_new :: keyboard where "kb_new = [[]]"

definition kb_push :: "inline_button \<Rightarrow> keyboard \<Rightarrow> keyboard" where
  "kb_push b rows = (if rows = [] then [[b]] else butlast rows @ [last rows @ [b]])"

definition kb_text :: "string \<Rightarrow> string \<Rightarrow> button_style option \<Rightarrow> keyboard \<Rightarrow> button_error + keyboard" where
  "kb_text label data style kb =
     (case assertButtonText label of
        Inl e \<Rightarrow> Inl e
      | Inr t \<Rightarrow> (case assertCallbackData data of
                    Inl e \<Rightarrow> Inl e
                  | Inr d \<Rightarrow> Inr (kb_push (BtnCallback t d None None style) kb)))"

definition kb_url :: "url_parser \<Rightarrow> string \<Rightarrow> string \<Rightarrow> button_style option \<Rightarrow> keyboard \<Rightarrow> button_error + keyboard" where
  "kb_url U label url style kb =
     (case assertButtonText label of
        Inl e \<Rightarrow> Inl e
      | Inr t \<Rightarrow> (case assertButtonUrl U url False of
                    Inl e \<Rightarrow> Inl e
                  | Inr u \<Rightarrow> Inr (kb_push (BtnUrl t u style) kb)))"

definition kb_miniApp ::
  "url_parser \<Rightarrow> string \<Rightarrow> string \<Rightarrow> string option \<Rightarrow> button_style option \<Rightarrow> keyboard \<Rightarrow> button_error + keyboard" where
  "kb_miniApp U label url startParam style kb =
     (case assertButtonText label of
        Inl e \<Rightarrow> Inl e
      | Inr t \<Rightarrow> (case assertButtonUrl U url True of
                    Inl e \<Rightarrow> Inl e
                  | Inr u \<Rightarrow> Inr (kb_push (BtnMiniApp t u startParam style) kb)))"

definition kb_command :: "string \<Rightarrow> string \<Rightarrow> button_style option \<Rightarrow> keyboard \<Rightarrow> button_error + keyboard" where
  "kb_command label command style kb =
     (case assertButtonText label of
        Inl e \<Rightarrow> Inl e
      | Inr t \<Rightarrow> Inr (kb_push (BtnCommand t command style) kb))"

definition kb_row :: "keyboard \<Rightarrow> keyboard" where
  "kb_row rows = (if rows \<noteq> [] \<and> last rows \<noteq> [] then rows @ [[]] else rows)"

text \<open>\<open>for (i = 0; i < flat.length; i += width) rows.push(flat.slice(i, i + width))\<close>.\<close>

function kb_chunks :: "nat \<Rightarrow> 'a list \<Rightarrow> 'a list list" where
  "kb_chunks width flat =
     (if width = 0 \<or> flat = [] then [] else take width flat # kb_chunks width (drop width flat))"
  by pat_completeness auto
termination by (relation "measure (\<lambda>(w, xs). length xs)") auto

declare kb_chunks.simps [simp del]

definition kb_adjust :: "int \<Rightarrow> keyboard \<Rightarrow> keyboard" where
  "kb_adjust columns rows =
     (let rows' = kb_chunks (nat (max 1 columns)) (concat rows) in if rows' = [] then [[]] else rows')"

definition kb_buttons :: "keyboard \<Rightarrow> keyboard" where
  "kb_buttons rows = filter (\<lambda>row. row \<noteq> []) rows"

definition kb_isEmpty :: "keyboard \<Rightarrow> bool" where
  "kb_isEmpty rows \<longleftrightarrow> kb_buttons rows = []"

definition kb_from :: "keyboard \<Rightarrow> keyboard" where
  "kb_from rows = (if rows = [] then [[]] else rows)"

fun kb_texts :: "(string \<times> string) list \<Rightarrow> keyboard \<Rightarrow> button_error + keyboard" where
  "kb_texts [] kb = Inr kb"
| "kb_texts ((label, data) # entries) kb =
     (case kb_text label data None kb of Inl e \<Rightarrow> Inl e | Inr kb' \<Rightarrow> kb_texts entries kb')"

definition kb_fromCallbacks :: "(string \<times> string) list \<Rightarrow> int \<Rightarrow> button_error + keyboard" where
  "kb_fromCallbacks entries columns =
     (case kb_texts entries kb_new of Inl e \<Rightarrow> Inl e | Inr kb \<Rightarrow> Inr (kb_adjust columns kb))"

record 'a paginate_options =
  po_page :: int
  po_pageSize :: int
  po_columns :: int
  po_data :: "'a \<Rightarrow> int \<Rightarrow> string"
  po_label :: "'a \<Rightarrow> int \<Rightarrow> string"
  po_navPrefix :: string
  po_prev :: string
  po_next :: string
  po_showPage :: bool

definition int_dec :: "int \<Rightarrow> string" where
  "int_dec n = (if n < 0 then ''-'' @ nat_dec (nat (- n)) else nat_dec (nat n))"

definition page_count :: "int \<Rightarrow> 'a list \<Rightarrow> int" where
  "page_count pageSize items = max 1 ((int (length items) + pageSize - 1) div pageSize)"

definition page_entries :: "'a paginate_options \<Rightarrow> int \<Rightarrow> int \<Rightarrow> 'a list \<Rightarrow> (string \<times> string) list" where
  "page_entries opts start pageSize items =
     map (\<lambda>(i, item). (po_label opts item (start + int i), po_data opts item (start + int i)))
       (List.enumerate 0 (take (nat pageSize) (drop (nat start) items)))"

definition nav_entries :: "'a paginate_options \<Rightarrow> int \<Rightarrow> int \<Rightarrow> (string \<times> string) list" where
  "nav_entries opts page totalPages =
     (if page > 0 then [(po_prev opts, po_navPrefix opts @ '':prev:'' @ int_dec page)] else []) @
     (if po_showPage opts
      then [(int_dec (page + 1) @ ''/'' @ int_dec totalPages, po_navPrefix opts @ '':noop:'' @ int_dec page)] else []) @
     (if page < totalPages - 1 then [(po_next opts, po_navPrefix opts @ '':next:'' @ int_dec page)] else [])"

definition kb_paginate :: "'a list \<Rightarrow> 'a paginate_options \<Rightarrow> button_error + keyboard" where
  "kb_paginate items opts =
     (let pageSize = max 1 (po_pageSize opts);
          columns = max 1 (po_columns opts);
          totalPages = page_count pageSize items;
          page = min (max 0 (po_page opts)) (totalPages - 1);
          start = page * pageSize
      in case kb_texts (page_entries opts start pageSize items) kb_new of
           Inl e \<Rightarrow> Inl e
         | Inr kb \<Rightarrow>
             (let kb1 = kb_adjust columns kb
              in if totalPages > 1 then kb_texts (nav_entries opts page totalPages) (kb_row kb1) else Inr kb1))"

section \<open>Keyboard content\<close>

record keyboard_content =
  kc_version :: jsnum
  kc_inline :: keyboard
  kc_fallback :: "string option"

definition kb_toContent :: "keyboard \<Rightarrow> keyboard_content" where
  "kb_toContent rows =
     \<lparr>kc_version = Fin KEYBOARD_SCHEMA_VERSION, kc_inline = kb_buttons rows,
      kc_fallback = Some CALLBACK_FALLBACK_COMMAND\<rparr>"

text \<open>The objects as they are sent; an optional field that is not set is absent.\<close>

definition opt_field :: "string \<Rightarrow> string option \<Rightarrow> (string \<times> json) list" where
  "opt_field key v = (case v of Some s \<Rightarrow> [(key, JStr s)] | None \<Rightarrow> [])"

fun style_name :: "button_style \<Rightarrow> string" where
  "style_name StyleDefault = ''default''"
| "style_name StylePrimary = ''primary''"
| "style_name StyleDanger = ''danger''"
| "style_name StyleLink = ''link''"

fun button_json :: "inline_button \<Rightarrow> json" where
  "button_json (BtnCallback t d tok fb st) =
     JObj ([(''kind'', JStr ''callback''), (''text'', JStr t), (''data'', JStr d)] @
       opt_field ''token'' tok @ opt_field ''fallback'' fb @ opt_field ''style'' (map_option style_name st))"
| "button_json (BtnUrl t u st) =
     JObj ([(''kind'', JStr ''url''), (''text'', JStr t), (''url'', JStr u)] @
       opt_field ''style'' (map_option style_name st))"
| "button_json (BtnMiniApp t u sp st) =
     JObj ([(''kind'', JStr ''mini_app''), (''text'', JStr t), (''url'', JStr u)] @
       opt_field ''startParam'' sp @ opt_field ''style'' (map_option style_name st))"
| "button_json (BtnCommand t c st) =
     JObj ([(''kind'', JStr ''command''), (''text'', JStr t), (''command'', JStr c)] @
       opt_field ''style'' (map_option style_name st))"

definition content_json :: "keyboard_content \<Rightarrow> json" where
  "content_json c =
     JObj ([(''version'', JNum (kc_version c)),
            (''inline'', JArr (map (\<lambda>row. JArr (map button_json row)) (kc_inline c)))] @
           opt_field ''fallback_command'' (kc_fallback c))"

definition nonempty_string :: "json \<Rightarrow> string \<Rightarrow> string option" where
  "nonempty_string v key = (case readString v key of Some (c # cs) \<Rightarrow> Some (c # cs) | _ \<Rightarrow> None)"

definition parse_button :: "json \<Rightarrow> inline_button option" where
  "parse_button button =
     (if \<not> isPlainObject button then None
      else case nonempty_string button ''text'' of
        None \<Rightarrow> None
      | Some text \<Rightarrow>
          (let kind = readString button ''kind''
           in if kind = Some ''url'' then
                map_option (\<lambda>url. BtnUrl text url None) (nonempty_string button ''url'')
              else if kind = Some ''mini_app'' then
                map_option (\<lambda>url. BtnMiniApp text url (nonempty_string button ''startParam'') None)
                  (nonempty_string button ''url'')
              else if kind = Some ''command'' then
                map_option (\<lambda>command. BtnCommand text command None) (nonempty_string button ''command'')
              else Some (BtnCallback text (case readString button ''data'' of Some d \<Rightarrow> d | None \<Rightarrow> [])
                     (nonempty_string button ''token'') (nonempty_string button ''fallback'') None)))"

fun parse_row :: "json \<Rightarrow> inline_button list" where
  "parse_row (JArr row) = List.map_filter parse_button row"
| "parse_row _ = []"

text \<open>The result and whether \<open>onWarn\<close> was called with an unsupported version.\<close>

definition parseKeyboardContent :: "json \<Rightarrow> keyboard_content option \<times> int option" where
  "parseKeyboardContent content =
     (if \<not> isPlainObject content then (None, None)
      else case json_prop content KEYBOARD_CONTENT_KEY of
        Some raw \<Rightarrow>
          (if \<not> isPlainObject raw then (None, None)
           else case json_prop raw ''inline'' of
             Some (JArr rows) \<Rightarrow>
               (let info = checkSchemaVersion 1 (Some (JNum (Fin (readSchemaVersion raw))));
                    warning = (if \<not> si_supported info then Some (si_version info) else None);
                    inline = filter (\<lambda>row. row \<noteq> []) (map parse_row rows)
                in if inline = [] then (None, warning)
                   else (Some \<lparr>kc_version = (case json_prop raw ''version'' of Some (JNum n) \<Rightarrow> n
                                              | _ \<Rightarrow> Fin KEYBOARD_SCHEMA_VERSION),
                               kc_inline = inline,
                               kc_fallback = nonempty_string raw ''fallback_command''\<rparr>, warning))
           | _ \<Rightarrow> (None, None))
      | None \<Rightarrow> (None, None))"

section \<open>The fallback\<close>

record keyboard_fallback =
  kf_text :: string
  kf_html :: string

definition renderUrl :: "url_parser \<Rightarrow> string \<Rightarrow> string" where
  "renderUrl U url =
     (let safe = escapeHtml url
      in if isSafeButtonUrl U url False then ''<a href=\"'' @ safe @ ''\">'' @ safe @ ''</a>'' else safe)"

definition fallback_invoke :: "string \<Rightarrow> string option \<Rightarrow> string option \<Rightarrow> string" where
  "fallback_invoke text token fallback =
     (case (case fallback of Some f \<Rightarrow> Some f | None \<Rightarrow> token) of
        Some (c # cs) \<Rightarrow> ''!'' @ CALLBACK_FALLBACK_COMMAND @ '' '' @ (c # cs)
      | _ \<Rightarrow> text)"

fun button_line :: "string \<Rightarrow> inline_button \<Rightarrow> string" where
  "button_line arrow (BtnUrl t u _) = t @ '' '' @ arrow @ '' '' @ u"
| "button_line arrow (BtnMiniApp t u _ _) = t @ '' (mini app) '' @ arrow @ '' '' @ u"
| "button_line arrow (BtnCommand t c _) = t @ '' '' @ arrow @ '' '' @ c"
| "button_line arrow (BtnCallback t _ tok fb _) = t @ '' '' @ arrow @ '' '' @ fallback_invoke t tok fb"

fun button_item :: "url_parser \<Rightarrow> inline_button \<Rightarrow> string" where
  "button_item U (BtnUrl t u _) = ''<li>'' @ escapeHtml t @ '': '' @ renderUrl U u @ ''</li>''"
| "button_item U (BtnMiniApp t u _ _) =
     ''<li>'' @ escapeHtml t @ '' <em>(mini app)</em>: '' @ renderUrl U u @ ''</li>''"
| "button_item U (BtnCommand t c _) =
     ''<li>'' @ escapeHtml t @ '': <code>'' @ escapeHtml c @ ''</code></li>''"
| "button_item U (BtnCallback t _ tok fb _) =
     ''<li>'' @ escapeHtml t @ '': <code>'' @ escapeHtml (fallback_invoke t tok fb) @ ''</code></li>''"

definition renderKeyboardFallback :: "url_parser \<Rightarrow> string \<Rightarrow> keyboard_content \<Rightarrow> keyboard_fallback" where
  "renderKeyboardFallback U arrow keyboard =
     (let buttons = concat (kc_inline keyboard);
          lines = map (\<lambda>(i, b). nat_dec i @ ''. '' @ button_line arrow b) (List.enumerate 1 buttons);
          htmlItems = map (button_item U) buttons
      in \<lparr>kf_text = js_join [CHR 10] lines,
          kf_html = (if htmlItems \<noteq> [] then ''<ol>'' @ js_join [] htmlItems @ ''</ol>'' else [])\<rparr>)"

section \<open>Checked buttons\<close>

text \<open>What every builder method guarantees of the buttons it adds.\<close>

fun checked_button :: "url_parser \<Rightarrow> inline_button \<Rightarrow> bool" where
  "checked_button U (BtnCallback t d _ _ _) \<longleftrightarrow>
     js_trim t \<noteq> [] \<and> length t \<le> 128 \<and> utf8_length d \<le> 512"
| "checked_button U (BtnUrl t u _) \<longleftrightarrow> js_trim t \<noteq> [] \<and> length t \<le> 128 \<and> isSafeButtonUrl U u False"
| "checked_button U (BtnMiniApp t u _ _) \<longleftrightarrow> js_trim t \<noteq> [] \<and> length t \<le> 128 \<and> isSafeButtonUrl U u True"
| "checked_button U (BtnCommand t c _) \<longleftrightarrow> js_trim t \<noteq> [] \<and> length t \<le> 128"

datatype kb_op =
    OpText string string "button_style option"
  | OpUrl string string "button_style option"
  | OpMiniApp string string "string option" "button_style option"
  | OpCommand string string "button_style option"
  | OpRow
  | OpAdjust int

text \<open>A run of builder calls; the first that throws ends it.\<close>

fun kb_apply :: "url_parser \<Rightarrow> kb_op \<Rightarrow> keyboard \<Rightarrow> button_error + keyboard" where
  "kb_apply U (OpText l d s) kb = kb_text l d s kb"
| "kb_apply U (OpUrl l u s) kb = kb_url U l u s kb"
| "kb_apply U (OpMiniApp l u p s) kb = kb_miniApp U l u p s kb"
| "kb_apply U (OpCommand l c s) kb = kb_command l c s kb"
| "kb_apply U OpRow kb = Inr (kb_row kb)"
| "kb_apply U (OpAdjust n) kb = Inr (kb_adjust n kb)"

fun kb_run :: "url_parser \<Rightarrow> kb_op list \<Rightarrow> keyboard \<Rightarrow> button_error + keyboard" where
  "kb_run U [] kb = Inr kb"
| "kb_run U (op # ops) kb = (case kb_apply U op kb of Inl e \<Rightarrow> Inl e | Inr kb' \<Rightarrow> kb_run U ops kb')"

lemma assert_simps [simp]:
  "assertButtonText l = Inr t \<longleftrightarrow> t = l \<and> js_trim l \<noteq> [] \<and> length l \<le> 128"
  "assertCallbackData d = Inr d' \<longleftrightarrow> d' = d \<and> utf8_length d \<le> 512"
  "assertButtonUrl U u h = Inr u' \<longleftrightarrow> u' = u \<and> isSafeButtonUrl U u h"
  by (auto simp: assertButtonText_def assertCallbackData_def assertButtonUrl_def MAX_BUTTON_TEXT_LENGTH_def
      MAX_CALLBACK_DATA_BYTES_def)

lemma concat_push [simp]: "concat (kb_push b rows) = concat rows @ [b]"
proof (cases "rows = []")
  case False
  then have "concat rows = concat (butlast rows) @ last rows"
    by (metis append_butlast_last_id concat_append concat.simps append_Nil2)
  with False show ?thesis by (simp add: kb_push_def)
qed (simp add: kb_push_def)

lemma concat_chunks: "0 < w \<Longrightarrow> concat (kb_chunks w xs) = xs"
  by (induction w xs rule: kb_chunks.induct) (subst kb_chunks.simps, auto)

lemma chunks_width: "row \<in> set (kb_chunks w xs) \<Longrightarrow> row \<noteq> [] \<and> length row \<le> w"
proof (induction w xs rule: kb_chunks.induct)
  case (1 w xs)
  then show ?case
    by (auto simp: kb_chunks.simps [of w xs] split: if_splits)
qed

lemma concat_adjust [simp]: "concat (kb_adjust n rows) = concat rows"
  using concat_chunks [of "nat (max 1 n)" "concat rows"] by (auto simp: kb_adjust_def Let_def)

lemma concat_row [simp]: "concat (kb_row rows) = concat rows"
  by (simp add: kb_row_def)

lemma concat_buttons [simp]: "concat (kb_buttons rows) = concat rows"
  by (induction rows) (auto simp: kb_buttons_def)

lemma kb_text_Inr: "kb_text l d st kb = Inr kb' \<longleftrightarrow>
    kb' = kb_push (BtnCallback l d None None st) kb \<and> js_trim l \<noteq> [] \<and> length l \<le> 128 \<and> utf8_length d \<le> 512"
  by (auto simp: kb_text_def assertButtonText_def assertCallbackData_def MAX_BUTTON_TEXT_LENGTH_def
      MAX_CALLBACK_DATA_BYTES_def)

lemma kb_apply_checked:
  assumes "kb_apply U op kb = Inr kb'" and "\<forall>b \<in> set (concat kb). checked_button U b"
  shows "\<forall>b \<in> set (concat kb'). checked_button U b"
proof -
  consider "concat kb' = concat kb" | b where "concat kb' = concat kb @ [b]" "checked_button U b"
    using assms(1)
    by (cases op) (auto simp: kb_text_Inr kb_url_def kb_miniApp_def kb_command_def split: sum.splits)
  then show ?thesis using assms(2) by cases simp_all
qed

lemma kb_run_checked:
  "kb_run U ops kb = Inr kb' \<Longrightarrow> \<forall>b \<in> set (concat kb). checked_button U b \<Longrightarrow>
     \<forall>b \<in> set (concat kb'). checked_button U b"
proof (induction ops arbitrary: kb)
  case Nil
  then show ?case by simp
next
  case (Cons op ops)
  obtain kb1 where kb1: "kb_apply U op kb = Inr kb1" "kb_run U ops kb1 = Inr kb'"
    using Cons.prems(1) by (auto split: sum.splits)
  show ?case
    by (rule Cons.IH [OF kb1(2) kb_apply_checked [OF kb1(1) Cons.prems(2)]])
qed

section \<open>Pages\<close>

lemma kb_texts_concat:
  "kb_texts es kb = Inr kb' \<Longrightarrow> concat kb' = concat kb @ map (\<lambda>(l, d). BtnCallback l d None None None) es"
  by (induction es arbitrary: kb) (auto simp: kb_text_Inr split: sum.splits)

lemma slices_concat:
  "0 < w \<Longrightarrow> concat (map (\<lambda>p. take w (drop (p * w) xs)) [0..<n]) = take (n * w) xs"
proof (induction n)
  case (Suc n)
  then show ?case
    by (simp add: take_add add.commute [of w])
qed simp

text \<open>What the items of a list become: their label and data at their absolute index.\<close>

definition item_entries :: "'a paginate_options \<Rightarrow> 'a list \<Rightarrow> (string \<times> string) list" where
  "item_entries opts items =
     map (\<lambda>(i, item). (po_label opts item (int i), po_data opts item (int i))) (List.enumerate 0 items)"

lemma nat_int_times [simp]: "nat (int p * int w) = p * w"
  by (metis nat_int of_nat_mult)

lemma page_entries_slice:
  assumes "0 < w"
  shows "page_entries opts (int (p * w)) (int w) items = take w (drop (p * w) (item_entries opts items))"
proof (rule nth_equalityI)
  show "length (page_entries opts (int (p * w)) (int w) items) = length (take w (drop (p * w) (item_entries opts items)))"
    by (simp add: page_entries_def item_entries_def)
next
  fix i
  assume "i < length (page_entries opts (int (p * w)) (int w) items)"
  then have "i < length items - p * w \<and> i < w"
    by (simp add: page_entries_def)
  then have i: "i < w" "p * w + i < length items"
    by linarith+
  then show "page_entries opts (int (p * w)) (int w) items ! i = take w (drop (p * w) (item_entries opts items)) ! i"
    by (simp add: page_entries_def item_entries_def nth_enumerate_eq nat_mult_distrib)
qed

lemma page_count_covers:
  assumes "0 < w"
  shows "0 < page_count (int w) items" and "length items \<le> nat (page_count (int w) items) * w"
proof -
  show "0 < page_count (int w) items" by (simp add: page_count_def)
  let ?q = "(int (length items) + int w - 1) div int w"
  have "int (length items) \<le> ?q * int w"
  proof -
    have "int (length items) + int w - 1 < (?q + 1) * int w"
      using assms by (metis add.commute div_mult_mod_eq distrib_right add_strict_left_mono mult_1 of_nat_0_less_iff
          pos_mod_bound)
    then show ?thesis by (simp add: distrib_right)
  qed
  also have "\<dots> \<le> page_count (int w) items * int w"
    using assms by (intro mult_right_mono) (simp_all add: page_count_def)
  finally show "length items \<le> nat (page_count (int w) items) * w"
    using \<open>0 < page_count (int w) items\<close> by (metis nat_int nat_le_iff nat_mult_distrib less_imp_le of_nat_mult int_nat_eq)
qed

lemma paginate_concat:
  assumes "kb_paginate items opts = Inr kb" and "0 < w" and "max 1 (po_pageSize opts) = int w"
    and "po_page opts = int p" and "p < nat (page_count (int w) items)"
  shows "concat kb =
    map (\<lambda>(l, d). BtnCallback l d None None None)
      (take w (drop (p * w) (item_entries opts items)) @
       (if 1 < page_count (int w) items then nav_entries opts (int p) (page_count (int w) items) else []))"
proof -
  have page: "min (max 0 (po_page opts)) (page_count (int w) items - 1) = int p"
    using assms(4,5) by simp
  obtain kb0 where kb0: "kb_texts (page_entries opts (int (p * w)) (int w) items) kb_new = Inr kb0"
    and rest: "if 1 < page_count (int w) items
      then kb_texts (nav_entries opts (int p) (page_count (int w) items)) (kb_row (kb_adjust (max 1 (po_columns opts)) kb0)) = Inr kb
      else kb = kb_adjust (max 1 (po_columns opts)) kb0"
    using assms(1) unfolding kb_paginate_def Let_def assms(3) page of_nat_mult
    by (auto split: sum.splits if_splits)
  have "concat kb0 = map (\<lambda>(l, d). BtnCallback l d None None None) (take w (drop (p * w) (item_entries opts items)))"
    using kb_texts_concat [OF kb0] unfolding page_entries_slice [OF assms(2)] by (simp add: kb_new_def)
  with rest show ?thesis
    using kb_texts_concat by (fastforce split: if_splits)
qed

section \<open>Parsing\<close>

fun drop_style :: "inline_button \<Rightarrow> inline_button" where
  "drop_style (BtnCallback t d tok fb _) = BtnCallback t d tok fb None"
| "drop_style (BtnUrl t u _) = BtnUrl t u None"
| "drop_style (BtnMiniApp t u sp _) = BtnMiniApp t u sp None"
| "drop_style (BtnCommand t c _) = BtnCommand t c None"

text \<open>The fields a parser needs are not empty.\<close>

fun wire_button :: "inline_button \<Rightarrow> bool" where
  "wire_button (BtnCallback t d tok fb _) \<longleftrightarrow> t \<noteq> [] \<and> tok \<noteq> Some [] \<and> fb \<noteq> Some []"
| "wire_button (BtnUrl t u _) \<longleftrightarrow> t \<noteq> [] \<and> u \<noteq> []"
| "wire_button (BtnMiniApp t u sp _) \<longleftrightarrow> t \<noteq> [] \<and> u \<noteq> [] \<and> sp \<noteq> Some []"
| "wire_button (BtnCommand t c _) \<longleftrightarrow> t \<noteq> [] \<and> c \<noteq> []"

lemma nonempty_string_id: "nonempty_string v k = (case readString v k of Some [] \<Rightarrow> None | r \<Rightarrow> r)"
  by (simp add: nonempty_string_def split: option.split list.split)

lemma parse_button_json: "wire_button b \<Longrightarrow> parse_button (button_json b) = Some (drop_style b)"
  by (cases b)
    (auto simp: parse_button_def isPlainObject_def nonempty_string_id readString_def json_prop_def opt_field_def Let_def
      split: option.splits list.splits)

lemma parse_row_json: "\<forall>b \<in> set row. wire_button b \<Longrightarrow> parse_row (JArr (map button_json row)) = map drop_style row"
  by (induction row) (auto simp: List.map_filter_simps parse_button_json)

lemma filter_rows: "\<forall>row \<in> set rows. row \<noteq> [] \<Longrightarrow> filter (\<lambda>row. row \<noteq> []) rows = rows"
  by (simp add: filter_id_conv)

section \<open>Escaping\<close>

text \<open>The characters with which text could leave its place in the markup.\<close>

definition markup :: "string \<Rightarrow> string" where
  "markup s = filter (\<lambda>c. c \<in> html_special) s"

lemma markup_append [simp]: "markup (s @ t) = markup s @ markup t"
  by (simp add: markup_def)

lemma markup_simps [simp]:
  "markup [] = []"
  "markup (c # s) = (if c \<in> html_special then c # markup s else markup s)"
  by (simp_all add: markup_def)

lemma markup_escapeHtml [simp]: "markup (escapeHtml s) = []"
  using escapeHtml_safe by (auto simp: markup_def filter_empty_conv)

fun button_skeleton :: "url_parser \<Rightarrow> inline_button \<Rightarrow> string" where
  "button_skeleton U (BtnUrl t u _) =
     markup (if isSafeButtonUrl U u False then ''<li><a href=\"\"></a></li>'' else ''<li></li>'')"
| "button_skeleton U (BtnMiniApp t u _ _) =
     markup (if isSafeButtonUrl U u False then ''<li><em></em><a href=\"\"></a></li>'' else ''<li><em></em></li>'')"
| "button_skeleton U (BtnCommand t c _) = markup ''<li><code></code></li>''"
| "button_skeleton U (BtnCallback t _ tok fb _) = markup ''<li><code></code></li>''"

lemma markup_item: "markup (button_item U b) = button_skeleton U b"
  by (cases b) (simp_all add: renderUrl_def Let_def html_special_def)

lemma js_join_Nil: "js_join [] xs = concat xs"
  by (induction xs rule: induct_list012) simp_all

lemma markup_items: "markup (concat (map (button_item U) bs)) = concat (map (button_skeleton U) bs)"
  by (induction bs) (simp_all add: markup_item)

section \<open>Properties\<close>

text \<open>
  Whatever sequence of builder calls is made, a keyboard that was built has
  only checked buttons: labels that are not blank and at most 128 code units long, callback
  data of at most 512 bytes, http or https links, and MiniApp links that are https or on
  a loopback host.
\<close>

theorem keyboard_built_checked:
  assumes "kb_run U ops kb_new = Inr kb"
  shows "\<forall>b \<in> set (concat (kc_inline (kb_toContent kb))). checked_button U b"
  using kb_run_checked [OF assms] by (simp add: kb_new_def kb_toContent_def)

theorem keyboard_built_checked_witness:
  "list_all (checked_button (\<lambda>_. Some (''https:'', ''d'')))
     (concat (kc_inline (kb_toContent [[BtnCallback ''Yes'' ''y'' None None None,
       BtnUrl ''Doc'' ''https://d'' None]])))"
  unfolding list_all_iff
  by (rule keyboard_built_checked [of _ "[OpText ''Yes'' ''y'' None, OpUrl ''Doc'' ''https://d'' None]"])
    (simp add: kb_text_Inr kb_url_def kb_new_def kb_push_def assertButtonText_def assertButtonUrl_def isSafeButtonUrl_def
      js_trim_def js_space_def MAX_BUTTON_TEXT_LENGTH_def kb_text_def assertCallbackData_def utf8_length_def utf8_def
      utf8_char_def MAX_CALLBACK_DATA_BYTES_def)

text \<open>
  Over all pages of \<open>paginate\<close> every item has exactly one button, in the
  order of the items and with the label and data of its absolute index; a page has its items
  first and then its navigation.
\<close>

theorem paginate_covers_items:
  assumes "0 < w" and "max 1 (po_pageSize opts) = int w"
    and "\<forall>p < nat (page_count (int w) items). kb_paginate items (opts\<lparr>po_page := int p\<rparr>) = Inr (kb p)"
  shows "concat (map (\<lambda>p. take (length (take w (drop (p * w) items))) (concat (kb p))) [0..<nat (page_count (int w) items)]) =
    map (\<lambda>(l, d). BtnCallback l d None None None) (item_entries opts items)"
proof -
  let ?es = "item_entries opts items" and ?n = "nat (page_count (int w) items)"
  let ?b = "\<lambda>(l, d). BtnCallback l d None None None"
  have same: "item_entries (opts\<lparr>po_page := x\<rparr>) items = ?es" for x
    by (simp add: item_entries_def)
  have len: "length ?es = length items" by (simp add: item_entries_def)
  have page: "take (length (take w (drop (p * w) items))) (concat (kb p)) = map ?b (take w (drop (p * w) ?es))"
    if "p < ?n" for p
    using paginate_concat [of items "opts\<lparr>po_page := int p\<rparr>" "kb p" w p] assms that
    by (simp add: same len)
  have "concat (map (\<lambda>p. take (length (take w (drop (p * w) items))) (concat (kb p))) [0..<?n]) =
      concat (map (\<lambda>p. map ?b (take w (drop (p * w) ?es))) [0..<?n])"
    using page by (intro arg_cong [of _ _ concat] map_cong) simp_all
  also have "\<dots> = map ?b (concat (map (\<lambda>p. take w (drop (p * w) ?es)) [0..<?n]))"
    by (simp add: map_concat o_def)
  also have "\<dots> = map ?b ?es"
    using page_count_covers(2) [OF assms(1), of items] len by (simp add: slices_concat [OF assms(1)])
  finally show ?thesis .
qed

text \<open>
  A keyboard that is sent is parsed back with the same rows and buttons,
  except that the parser drops the styles, and without a version warning.
\<close>

theorem keyboard_parse_roundtrip:
  assumes "kb_buttons kb \<noteq> []" and "\<forall>b \<in> set (concat kb). wire_button b"
  shows "parseKeyboardContent (JObj [(KEYBOARD_CONTENT_KEY, content_json (kb_toContent kb))]) =
    (Some \<lparr>kc_version = Fin 1, kc_inline = map (map drop_style) (kb_buttons kb), kc_fallback = Some ''cb''\<rparr>, None)"
proof -
  have rows: "map (\<lambda>row. parse_row (JArr (map button_json row))) (kb_buttons kb) = map (map drop_style) (kb_buttons kb)"
    using assms(2) by (intro map_cong) (auto simp: kb_buttons_def simp del: parse_row.simps intro!: parse_row_json)
  have "filter (\<lambda>row. row \<noteq> []) (map (map drop_style) (kb_buttons kb)) = map (map drop_style) (kb_buttons kb)"
    by (intro filter_rows) (auto simp: kb_buttons_def)
  note parsed = this
  show ?thesis
    using assms(1)
    by (simp add: rows parsed parseKeyboardContent_def content_json_def kb_toContent_def isPlainObject_def json_prop_def opt_field_def
        checkSchemaVersion_def readSchemaVersion_def finite_version_def KEYBOARD_SCHEMA_VERSION_def
        CALLBACK_FALLBACK_COMMAND_def nonempty_string_id readString_def Let_def o_def del: filter_map parse_row.simps)
qed

theorem keyboard_parse_roundtrip_witness:
  "fst (parseKeyboardContent (JObj [(KEYBOARD_CONTENT_KEY,
     content_json (kb_toContent [[BtnCommand ''Go'' ''/go'' (Some StyleDanger)], []]))])) =
   Some \<lparr>kc_version = Fin 1, kc_inline = [[BtnCommand ''Go'' ''/go'' None]], kc_fallback = Some ''cb''\<rparr>"
  using keyboard_parse_roundtrip [of "[[BtnCommand ''Go'' ''/go'' (Some StyleDanger)], []]"]
  by (simp add: kb_buttons_def)

text \<open>
  In the HTML fallback of any keyboard, also one read off the wire, the
  characters that delimit tags and attributes are those of the fixed markup: they depend on
  the kinds of the buttons and on which URLs are http or https, never on the texts.
\<close>

theorem fallback_html_no_injection:
  "markup (kf_html (renderKeyboardFallback U arrow c)) =
     (if concat (kc_inline c) = [] then []
      else markup ''<ol>'' @ concat (map (button_skeleton U) (concat (kc_inline c))) @ markup ''</ol>'')"
proof -
  have ol: "markup (''<ol>'' @ x @ ''</ol>'') = markup ''<ol>'' @ markup x @ markup ''</ol>''" for x
    by (simp only: markup_append)
  show ?thesis
    by (cases "concat (kc_inline c) = []")
      (simp_all only: renderKeyboardFallback_def Let_def keyboard_fallback.simps js_join_Nil ol markup_items
        map_is_Nil_conv list.map simp_thms if_True if_False markup_simps(1))
qed

end
