(* ===== verification/Http.thy ===== *)
theory Http
  imports Js_Util
begin

text \<open>
  \<^verbatim>\<open>src/http.ts\<close>: the Matrix HTTP client. The homeserver URL check, the errors of the
  Client-Server API, the classification of failures, the retry loop with its budget, its
  back-off and the single token refresh, and the transaction ids.

  What the world does at each attempt is the argument \<open>step\<close>: the outcome of the fetch,
  whether the caller's signal is aborted, what the token refresh hook answers and what
  \<open>jitter\<close> draws. The platform's URL parser is the parameter \<open>U\<close>.
\<close>

section \<open>Homeserver URLs\<close>

datatype url_error = EmptyUrl | InvalidUrl | BadProtocol | InsecureUrl

text \<open>The regular expression \<open>/^[a-z][a-z0-9+.-]*:\/\//i\<close>.\<close>

definition has_scheme :: "string \<Rightarrow> bool" where
  "has_scheme s =
     (case s of
        [] \<Rightarrow> False
      | c # cs \<Rightarrow> ascii_alpha c \<and>
          js_starts_with
            (dropWhile (\<lambda>d. ascii_alpha d \<or> ascii_digit d \<or> d \<in> {CHR ''+'', CHR ''.'', CHR ''-''}) cs) ''://'')"

definition strip_trailing_slashes :: "string \<Rightarrow> string" where
  "strip_trailing_slashes s = rev (dropWhile (\<lambda>c. c = CHR ''/'') (rev s))"

text \<open>\<open>replace(/^\[|\]$/g, "")\<close> removes one opening bracket in front and one closing one behind.\<close>

definition strip_brackets :: "string \<Rightarrow> string" where
  "strip_brackets s =
     (let a = (case s of c # cs \<Rightarrow> if c = CHR ''['' then cs else s | [] \<Rightarrow> s)
      in if a \<noteq> [] \<and> last a = CHR '']'' then butlast a else a)"

definition isLocalHost :: "string \<Rightarrow> bool" where
  "isLocalHost hostname \<longleftrightarrow>
     (let host = strip_brackets (js_lower hostname)
      in host = ''localhost'' \<or> host = ''127.0.0.1'' \<or> host = ''::1'' \<or>
         js_ends_with host ''.local'' \<or> js_ends_with host ''.localhost'' \<or> js_ends_with host ''.internal'')"

definition normalizeHomeserverUrl ::
  "(string \<Rightarrow> (string \<times> string) option) \<Rightarrow> string \<Rightarrow> bool \<Rightarrow> url_error + string" where
  "normalizeHomeserverUrl U homeserverUrl allowInsecure =
     (let trimmed = js_trim homeserverUrl
      in if trimmed = [] then Inl EmptyUrl
         else let withScheme = (if has_scheme trimmed then trimmed else ''https://'' @ trimmed);
                  base = strip_trailing_slashes withScheme
              in case U base of
                   None \<Rightarrow> Inl InvalidUrl
                 | Some (protocol, hostname) \<Rightarrow>
                     if protocol \<noteq> ''https:'' \<and> protocol \<noteq> ''http:'' then Inl BadProtocol
                     else if protocol = ''http:'' \<and> \<not> allowInsecure \<and> \<not> isLocalHost hostname
                     then Inl InsecureUrl
                     else Inr base)"

section \<open>Errors\<close>

record api_error =
  ae_status :: int
  ae_errcode :: "string option"
  ae_body :: json
  ae_retryAfterMs :: "int option"
  ae_softLogout :: bool

definition MatrixApiError :: "int \<Rightarrow> json \<Rightarrow> int option \<Rightarrow> api_error" where
  "MatrixApiError status body retryAfterMs =
     \<lparr>ae_status = status, ae_errcode = readString body ''errcode'', ae_body = body, ae_retryAfterMs = retryAfterMs,
      ae_softLogout = (if isPlainObject body then (case json_prop body ''soft_logout'' of Some (JBool b) \<Rightarrow> b | _ \<Rightarrow> False)
                       else False)\<rparr>"

definition isRateLimit :: "api_error \<Rightarrow> bool" where
  "isRateLimit e \<longleftrightarrow> ae_status e = 429 \<or> ae_errcode e = Some ''M_LIMIT_EXCEEDED''"

definition isAuthFailure :: "api_error \<Rightarrow> bool" where
  "isAuthFailure e \<longleftrightarrow>
     ae_status e = 401 \<or> ae_errcode e = Some ''M_UNKNOWN_TOKEN'' \<or> ae_errcode e = Some ''M_MISSING_TOKEN''"

definition isNotFound :: "api_error \<Rightarrow> bool" where
  "isNotFound e \<longleftrightarrow> ae_status e = 404 \<or> ae_errcode e = Some ''M_NOT_FOUND''"

text \<open>
  What \<open>attempt\<close> throws, by the classes \<open>retryDelayFor\<close> tells apart: a Matrix error, its
  own timeout error, an abort, a \<open>TypeError\<close> or an error with a code (the network), and
  anything else. \<open>request\<close> adds the authentication and rate limit errors.
\<close>

datatype http_error =
    ApiError api_error
  | RequestTimeout int
  | AbortErr
  | NetworkErr
  | OtherErr string

datatype request_error =
    Raised http_error
  | AuthenticationError "string option" int bool
  | RateLimitedError int

section \<open>One attempt\<close>

datatype retry_header = NoHeader | HeaderMs int | HeaderDate int | HeaderJunk

text \<open>
  The \<open>Retry-After\<close> header: absent, a number (given in milliseconds), a date (epoch
  milliseconds), or neither.
\<close>

definition retryAfterFrom :: "int \<Rightarrow> retry_header \<Rightarrow> json \<Rightarrow> int option" where
  "retryAfterFrom now header body =
     (case readNumber body ''retry_after_ms'' of
        Some n \<Rightarrow> Some (max 0 n)
      | None \<Rightarrow>
          (case header of
             NoHeader \<Rightarrow> None
           | HeaderMs ms \<Rightarrow> Some (max 0 ms)
           | HeaderDate d \<Rightarrow> Some (max 0 (d - now))
           | HeaderJunk \<Rightarrow> None))"

datatype body_text = EmptyText | JsonText json | PlainText string

definition parseMaybeJson :: "body_text \<Rightarrow> json" where
  "parseMaybeJson t = (case t of EmptyText \<Rightarrow> JNull | JsonText v \<Rightarrow> v | PlainText s \<Rightarrow> JStr s)"

text \<open>
  The outcome of \<open>fetch\<close>: a response, or a thrown error; the timer of the attempt may have
  fired in either case.
\<close>

datatype fetch_outcome =
    Responds int retry_header body_text
  | Throws http_error

record http_step =
  hs_now :: int
  hs_preAborted :: bool
  hs_fetch :: fetch_outcome
  hs_timedOut :: bool
  hs_aborted :: bool
  hs_refresh :: "string option"
  hs_jitter :: "int \<Rightarrow> int"
  hs_abortedAfterSleep :: bool

datatype http_body = NoBody | TextBody string | JsonBody json

record request_options =
  ro_idempotent :: "bool option"
  ro_maxRetries :: "int option"
  ro_timeoutMs :: "int option"
  ro_rawBody :: "nat list option"
  ro_contentType :: "string option"
  ro_headers :: "(string, string) jsmap"
  ro_anonymous :: bool

record http_client =
  hc_accessToken :: string
  hc_timeoutMs :: int
  hc_maxRetries :: int
  hc_retryBaseMs :: int
  hc_maxRetryDelayMs :: int
  hc_hasHook :: bool

definition hc_new :: "string option \<Rightarrow> int option \<Rightarrow> int option \<Rightarrow> int option \<Rightarrow> int option \<Rightarrow> bool \<Rightarrow> http_client" where
  "hc_new accessToken timeoutMs maxRetries retryBaseMs maxRetryDelayMs hook =
     \<lparr>hc_accessToken = (case accessToken of Some t \<Rightarrow> t | None \<Rightarrow> []),
      hc_timeoutMs = (case timeoutMs of Some t \<Rightarrow> t | None \<Rightarrow> 60000),
      hc_maxRetries = max 0 (case maxRetries of Some r \<Rightarrow> r | None \<Rightarrow> 4),
      hc_retryBaseMs = (case retryBaseMs of Some b \<Rightarrow> b | None \<Rightarrow> 500),
      hc_maxRetryDelayMs = (case maxRetryDelayMs of Some d \<Rightarrow> d | None \<Rightarrow> 30000),
      hc_hasHook = hook\<rparr>"

definition setAccessToken :: "string \<Rightarrow> http_client \<Rightarrow> http_client" where
  "setAccessToken token c = c\<lparr>hc_accessToken := token\<rparr>"

definition hasAccessToken :: "http_client \<Rightarrow> bool" where
  "hasAccessToken c \<longleftrightarrow> length (hc_accessToken c) > 0"

text \<open>The headers of an attempt: the caller's, then the authorization, then the content type.\<close>

definition attempt_headers :: "http_client \<Rightarrow> http_body \<Rightarrow> request_options \<Rightarrow> (string, string) jsmap" where
  "attempt_headers c body opts =
     (let h1 = (if \<not> ro_anonymous opts \<and> hc_accessToken c \<noteq> []
                then jm_set ''Authorization'' (''Bearer '' @ hc_accessToken c) (ro_headers opts)
                else ro_headers opts)
      in if ro_rawBody opts \<noteq> None
         then jm_set ''Content-Type'' (case ro_contentType opts of Some t \<Rightarrow> t | None \<Rightarrow> ''application/octet-stream'') h1
         else if body \<noteq> NoBody
         then jm_set ''Content-Type'' (case ro_contentType opts of Some t \<Rightarrow> t | None \<Rightarrow> ''application/json'') h1
         else h1)"

definition attempt :: "int \<Rightarrow> http_step \<Rightarrow> http_error + json \<times> int" where
  "attempt timeoutMs st =
     (if hs_preAborted st then Inl AbortErr
      else case hs_fetch st of
        Throws e \<Rightarrow> Inl (if hs_timedOut st then RequestTimeout timeoutMs else e)
      | Responds status header text \<Rightarrow>
          if status < 200 \<or> 300 \<le> status
          then Inl (if hs_timedOut st then RequestTimeout timeoutMs
                    else ApiError (MatrixApiError status (parseMaybeJson text)
                           (retryAfterFrom (hs_now st) header (parseMaybeJson text))))
          else Inr (parseMaybeJson text, status))"

section \<open>The retry policy\<close>

definition MAX_HONOURED_RETRY_AFTER_MS :: int where
  "MAX_HONOURED_RETRY_AFTER_MS = 90000"

definition backoff :: "http_client \<Rightarrow> (int \<Rightarrow> int) \<Rightarrow> nat \<Rightarrow> int" where
  "backoff c jitter attempt_no =
     clamp (jitter (hc_retryBaseMs c * 2 ^ (attempt_no - 1))) (hc_retryBaseMs c) (hc_maxRetryDelayMs c)"

definition retryDelayFor :: "http_client \<Rightarrow> (int \<Rightarrow> int) \<Rightarrow> http_error \<Rightarrow> nat \<Rightarrow> bool \<Rightarrow> int option" where
  "retryDelayFor c jitter err attempt_no idempotent =
     (case err of
        ApiError e \<Rightarrow>
          if isRateLimit e
          then (let hinted = (case ae_retryAfterMs e of Some ms \<Rightarrow> ms
                              | None \<Rightarrow> hc_retryBaseMs c * 2 ^ (attempt_no - 1))
                in if hinted > MAX_HONOURED_RETRY_AFTER_MS then None
                   else Some (clamp hinted 100 MAX_HONOURED_RETRY_AFTER_MS))
          else if 500 \<le> ae_status e \<and> ae_status e < 600
          then (if idempotent then Some (backoff c jitter attempt_no) else None)
          else None
      | RequestTimeout _ \<Rightarrow> if idempotent then Some (backoff c jitter attempt_no) else None
      | AbortErr \<Rightarrow> None
      | NetworkErr \<Rightarrow> if idempotent then Some (backoff c jitter attempt_no) else None
      | OtherErr _ \<Rightarrow> None)"

text \<open>The hook's answer counts when there is a hook and it answers a non-empty token.\<close>

definition tryRefreshToken :: "http_client \<Rightarrow> http_step \<Rightarrow> string option" where
  "tryRefreshToken c st =
     (if \<not> hc_hasHook c then None
      else case hs_refresh st of Some (t # ts) \<Rightarrow> Some (t # ts) | _ \<Rightarrow> None)"

section \<open>The request loop\<close>

record telemetry =
  te_status :: "int option"
  te_attempt :: nat
  te_retried :: bool
  te_error :: "http_error option"
  te_token :: string
  te_sleep :: "int option"

text \<open>
  One entry per attempt: what the observability hook gets, the token the attempt carried
  and the delay slept after it. The loop ends: a retry uses up the budget, and the token is
  refreshed at most once.
\<close>

definition error_status :: "http_error \<Rightarrow> int option" where
  "error_status e = (case e of ApiError a \<Rightarrow> Some (ae_status a) | _ \<Rightarrow> None)"

function request_loop ::
  "int \<Rightarrow> int \<Rightarrow> bool \<Rightarrow> (nat \<Rightarrow> http_step) \<Rightarrow> nat \<Rightarrow> bool \<Rightarrow> http_client \<Rightarrow>
     (request_error + json) \<times> telemetry list \<times> http_client" where
  "request_loop budget timeoutMs idempotent step done_attempts refreshed c =
     (let no = Suc done_attempts; st = step no;
          entry = \<lparr>te_status = None, te_attempt = no, te_retried = no > 1, te_error = None,
                   te_token = hc_accessToken c, te_sleep = None\<rparr>
      in case attempt timeoutMs st of
           Inr (v, status) \<Rightarrow> (Inr v, [entry\<lparr>te_status := Some status\<rparr>], c)
         | Inl err \<Rightarrow>
             (let failed = entry\<lparr>te_status := error_status err, te_error := Some err\<rparr>
              in if hs_aborted st then (Inl (Raised err), [failed], c)
                 else case (case err of ApiError e \<Rightarrow> if isAuthFailure e then Some e else None | _ \<Rightarrow> None) of
                   Some e \<Rightarrow>
                     (case (if refreshed then None else tryRefreshToken c st) of
                        Some token \<Rightarrow>
                          (let (r, es, c') =
                             request_loop budget timeoutMs idempotent step no True (setAccessToken token c)
                           in (r, failed # es, c'))
                      | None \<Rightarrow>
                          (Inl (AuthenticationError (ae_errcode e) (ae_status e) (ae_softLogout e)), [failed], c))
                 | None \<Rightarrow>
                     (case (if int no > budget then None
                            else retryDelayFor c (hs_jitter st) err no idempotent) of
                        None \<Rightarrow>
                          (Inl (case err of ApiError e \<Rightarrow>
                                  if isRateLimit e
                                  then RateLimitedError (case ae_retryAfterMs e of Some ms \<Rightarrow> ms | None \<Rightarrow> 0)
                                  else Raised err
                                | _ \<Rightarrow> Raised err), [failed], c)
                      | Some delay \<Rightarrow>
                          if hs_abortedAfterSleep st then (Inl (Raised err), [failed\<lparr>te_sleep := Some delay\<rparr>], c)
                          else (let (r, es, c') = request_loop budget timeoutMs idempotent step no refreshed c
                                in (r, failed\<lparr>te_sleep := Some delay\<rparr> # es, c')))))"
  by pat_completeness auto
termination
  by (relation "measure (\<lambda>(budget, _, _, _, n, refreshed, _). nat (budget - int n) + (if refreshed then 0 else 1))")
    (auto split: if_splits)

declare request_loop.simps [simp del]

datatype http_method = GET | PUT | POST | DELETE | HEAD

definition request ::
  "http_client \<Rightarrow> http_method \<Rightarrow> request_options \<Rightarrow> (nat \<Rightarrow> http_step) \<Rightarrow>
     (request_error + json) \<times> telemetry list \<times> http_client" where
  "request c method opts step =
     (let idempotent = (case ro_idempotent opts of Some b \<Rightarrow> b | None \<Rightarrow> method = GET \<or> method = PUT \<or> method = HEAD);
          budget = (case ro_maxRetries opts of Some r \<Rightarrow> r | None \<Rightarrow> hc_maxRetries c);
          timeoutMs = (case ro_timeoutMs opts of Some t \<Rightarrow> t | None \<Rightarrow> hc_timeoutMs c)
      in request_loop budget timeoutMs idempotent step 0 False c)"

section \<open>Transaction ids\<close>

record txn_source =
  ts_prefix :: string
  ts_counter :: nat

definition txnId :: "nat \<Rightarrow> txn_source \<Rightarrow> string \<times> txn_source" where
  "txnId now s =
     (let n = ts_counter s + 1
      in (''m'' @ ts_prefix s @ ''.'' @ nat_dec n @ ''.'' @ nat_dec now, s\<lparr>ts_counter := n\<rparr>))"

fun txn_ids :: "nat list \<Rightarrow> txn_source \<Rightarrow> string list" where
  "txn_ids [] s = []"
| "txn_ids (now # nows) s = (let (t, s') = txnId now s in t # txn_ids nows s')"

section \<open>Request URLs\<close>

definition http_scheme :: "string \<Rightarrow> bool" where
  "http_scheme path \<longleftrightarrow> js_starts_with (js_lower path) ''http://'' \<or> js_starts_with (js_lower path) ''https://''"

text \<open>The text given to the URL parser and the query parameters that are set.\<close>

definition buildUrl :: "string \<Rightarrow> string \<Rightarrow> (string \<times> string option) list \<Rightarrow> string \<times> (string \<times> string) list" where
  "buildUrl baseUrl path query =
     (if http_scheme path then path
      else baseUrl @ (if js_starts_with path ''/'' then [] else ''/'') @ path,
      List.map_filter (\<lambda>(k, v). map_option (Pair k) v) query)"

section \<open>One turn of the loop\<close>

definition auth_error :: "http_error \<Rightarrow> bool" where
  "auth_error err = (case err of ApiError e \<Rightarrow> isAuthFailure e | _ \<Rightarrow> False)"

definition rejected_error :: "http_error \<Rightarrow> bool" where
  "rejected_error err = (case err of ApiError e \<Rightarrow> isAuthFailure e \<or> isRateLimit e | _ \<Rightarrow> False)"

text \<open>
  A turn ends the loop with one entry, or goes on: after a refresh, when none was made
  before, or after a failure the policy retries within the budget.
\<close>

lemma request_loop_turn:
  assumes "request_loop b t idem step n ref c = (r, es, c')"
  obtains (stop) e where "es = [e]" "te_attempt e = Suc n" "te_retried e = (n > 0)" "te_token e = hc_accessToken c"
      "c' = c" "te_error e = None \<longleftrightarrow> (\<exists>v. r = Inr v)"
      "\<And>code status soft. r = Inl (AuthenticationError code status soft) \<Longrightarrow> \<exists>err. te_error e = Some err \<and> auth_error err"
      "te_sleep e = None \<or> (\<exists>err d. te_error e = Some err \<and> te_sleep e = Some d \<and>
        retryDelayFor c (hs_jitter (step (Suc n))) err (Suc n) idem = Some d)"
    | (refresh) e es' err token where "es = e # es'" "te_attempt e = Suc n" "te_retried e = (n > 0)"
      "te_token e = hc_accessToken c" "te_error e = Some err" "auth_error err" "\<not> ref" "te_sleep e = None"
      "tryRefreshToken c (step (Suc n)) = Some token"
      "request_loop b t idem step (Suc n) True (setAccessToken token c) = (r, es', c')"
    | (retry) e es' err d where "es = e # es'" "te_attempt e = Suc n" "te_retried e = (n > 0)"
      "te_token e = hc_accessToken c" "te_error e = Some err" "\<not> auth_error err" "int (Suc n) \<le> b"
      "retryDelayFor c (hs_jitter (step (Suc n))) err (Suc n) idem = Some d" "te_sleep e = Some d"
      "request_loop b t idem step (Suc n) ref c = (r, es', c')"
proof -
  let ?st = "step (Suc n)"
  let ?entry = "\<lparr>te_status = None, te_attempt = Suc n, te_retried = Suc n > 1, te_error = None,
                   te_token = hc_accessToken c, te_sleep = None\<rparr>"
  note unfold = assms [unfolded request_loop.simps [of b t idem step n ref c] Let_def]
  show thesis
  proof (cases "attempt t ?st")
    case (Inr p)
    obtain v status where "p = (v, status)" by fastforce
    with Inr unfold have "r = Inr v" "es = [?entry\<lparr>te_status := Some status\<rparr>]" "c' = c" by auto
    then show thesis by (intro stop [of "?entry\<lparr>te_status := Some status\<rparr>"]) simp_all
  next
    case (Inl err)
    let ?failed = "?entry\<lparr>te_status := error_status err, te_error := Some err\<rparr>"
    show thesis
    proof (cases "hs_aborted ?st")
      case True
      with Inl unfold have "r = Inl (Raised err)" "es = [?failed]" "c' = c" by auto
      then show thesis by (intro stop [of ?failed]) simp_all
    next
      case alive: False
      show thesis
      proof (cases "\<exists>e. err = ApiError e \<and> isAuthFailure e")
        case True
        then obtain e where e: "err = ApiError e" "isAuthFailure e" by blast
        show thesis
        proof (cases "if ref then None else tryRefreshToken c ?st")
          case None
          with Inl alive e unfold have "r = Inl (AuthenticationError (ae_errcode e) (ae_status e) (ae_softLogout e))"
            "es = [?failed]" "c' = c" by auto
          then show thesis using e by (intro stop [of ?failed]) (simp_all add: auth_error_def)
        next
          case (Some token)
          obtain r2 es2 c2 where rec: "request_loop b t idem step (Suc n) True (setAccessToken token c) = (r2, es2, c2)"
            by (cases "request_loop b t idem step (Suc n) True (setAccessToken token c)") auto
          from Some Inl alive e unfold rec have "r = r2" "es = ?failed # es2" "c' = c2" by auto
          moreover have "\<not> ref" and "tryRefreshToken c ?st = Some token" using Some by (auto split: if_splits)
          ultimately show thesis using e rec by (intro refresh [of ?failed es2 err token]) (simp_all add: auth_error_def)
        qed
      next
        case no_auth: False
        then have auth: "(case err of ApiError e \<Rightarrow> if isAuthFailure e then Some e else None | _ \<Rightarrow> None) = None"
          "\<not> auth_error err"
          by (auto simp: auth_error_def split: http_error.splits)
        show thesis
        proof (cases "if int (Suc n) > b then None else retryDelayFor c (hs_jitter ?st) err (Suc n) idem")
          case None
          with Inl alive auth(1) unfold have "es = [?failed]" "c' = c"
            "r = Inl (case err of ApiError e \<Rightarrow> if isRateLimit e
               then RateLimitedError (case ae_retryAfterMs e of Some ms \<Rightarrow> ms | None \<Rightarrow> 0)
               else Raised err | _ \<Rightarrow> Raised err)" by auto
          then show thesis by (intro stop [of ?failed]) (auto split: http_error.splits if_splits)
        next
          case (Some d)
          then have d: "int (Suc n) \<le> b" "retryDelayFor c (hs_jitter ?st) err (Suc n) idem = Some d"
            by (simp_all split: if_splits)
          show thesis
          proof (cases "hs_abortedAfterSleep ?st")
            case True
            with Inl alive auth(1) Some unfold have "r = Inl (Raised err)" "es = [?failed\<lparr>te_sleep := Some d\<rparr>]" "c' = c"
              by auto
            then show thesis using d by (intro stop [of "?failed\<lparr>te_sleep := Some d\<rparr>"]) simp_all
          next
            case False
            obtain r2 es2 c2 where rec: "request_loop b t idem step (Suc n) ref c = (r2, es2, c2)"
              by (cases "request_loop b t idem step (Suc n) ref c") auto
            from False Inl alive auth(1) Some unfold rec
            have "r = r2" "es = ?failed\<lparr>te_sleep := Some d\<rparr> # es2" "c' = c2" by auto
            then show thesis using d rec auth by (intro retry [of "?failed\<lparr>te_sleep := Some d\<rparr>" es2 err d]) simp_all
          qed
        qed
      qed
    qed
  qed
qed

text \<open>Induction over the turns.\<close>

lemma request_loop_rule [consumes 1, case_names stop refresh retry]:
  assumes "request_loop b t idem step n ref c = (r, es, c')"
    and stop: "\<And>n ref c e. te_attempt e = Suc n \<Longrightarrow> te_retried e = (n > 0) \<Longrightarrow> te_token e = hc_accessToken c \<Longrightarrow>
      (te_error e = None \<longleftrightarrow> (\<exists>v. r = Inr v)) \<Longrightarrow>
      (\<forall>code status soft. r = Inl (AuthenticationError code status soft) \<longrightarrow> (\<exists>err. te_error e = Some err \<and> auth_error err)) \<Longrightarrow>
      (te_sleep e = None \<or> (\<exists>err d. te_error e = Some err \<and> te_sleep e = Some d \<and>
        retryDelayFor c (hs_jitter (step (Suc n))) err (Suc n) idem = Some d)) \<Longrightarrow> P n ref c [e] c"
    and refresh: "\<And>n c e es err token c'. te_attempt e = Suc n \<Longrightarrow> te_retried e = (n > 0) \<Longrightarrow>
      te_token e = hc_accessToken c \<Longrightarrow> te_error e = Some err \<Longrightarrow> auth_error err \<Longrightarrow> te_sleep e = None \<Longrightarrow>
      tryRefreshToken c (step (Suc n)) = Some token \<Longrightarrow> P (Suc n) True (setAccessToken token c) es c' \<Longrightarrow> P n False c (e # es) c'"
    and retry: "\<And>n ref c e es err d c'. te_attempt e = Suc n \<Longrightarrow> te_retried e = (n > 0) \<Longrightarrow>
      te_token e = hc_accessToken c \<Longrightarrow> te_error e = Some err \<Longrightarrow> \<not> auth_error err \<Longrightarrow> int (Suc n) \<le> b \<Longrightarrow>
      retryDelayFor c (hs_jitter (step (Suc n))) err (Suc n) idem = Some d \<Longrightarrow> te_sleep e = Some d \<Longrightarrow>
      P (Suc n) ref c es c' \<Longrightarrow> P n ref c (e # es) c'"
  shows "P n ref c es c'"
  using assms(1)
proof (induction "nat (b - int n) + (if ref then 0 else 1 :: nat)" arbitrary: n ref c es c' rule: less_induct)
  case less
  from less.prems show ?case
  proof (cases rule: request_loop_turn)
    case (stop e)
    then show ?thesis by (auto intro!: assms(2))
  next
    case (refresh e es' err token)
    have "P (Suc n) True (setAccessToken token c) es' c'"
      using less.hyps [OF _ refresh(10)] refresh(7) by simp
    then have "P n False c (e # es') c'"
      by (rule assms(3) [OF refresh(2-6,8,9)])
    with refresh(1,7) show ?thesis by simp
  next
    case (retry e es' err d)
    have "P (Suc n) ref c es' c'"
      using less.hyps [OF _ retry(10)] retry(7) by simp
    then show ?thesis
      unfolding retry(1) by (rule assms(4) [OF retry(2-9)])
  qed
qed

lemma loop_numbers:
  assumes "request_loop b t idem step n ref c = (r, es, c')"
  shows "es \<noteq> [] \<and> map te_attempt es = [Suc n..<Suc n + length es] \<and>
    length es \<le> nat (b - int n) + 1 + (if ref then 0 else 1) \<and>
    (te_error (last es) = None \<longleftrightarrow> (\<exists>v. r = Inr v))"
  using assms
proof (induction rule: request_loop_rule)
  case (stop n ref c e)
  then show ?case by (simp add: upt_conv_Cons)
next
  case (refresh n c e es err token c')
  then have "map te_attempt (e # es) = [Suc n..<Suc n + length (e # es)]" by (simp add: upt_conv_Cons del: upt_Suc)
  moreover have "nat (b - int (Suc n)) \<le> nat (b - int n)" by simp
  ultimately show ?case using refresh by (auto simp del: upt_Suc)
next
  case (retry n ref c e es err d c')
  then have "map te_attempt (e # es) = [Suc n..<Suc n + length (e # es)]" by (simp add: upt_conv_Cons del: upt_Suc)
  moreover have "nat (b - int n) = Suc (nat (b - int (Suc n)))" using retry by linarith
  ultimately show ?case using retry by (auto simp del: upt_Suc)
qed

lemma retry_needs_idempotence:
  "retryDelayFor c j err n idem = Some d \<Longrightarrow> idem \<or> rejected_error err"
  by (auto simp: retryDelayFor_def rejected_error_def split: http_error.splits if_splits)

lemma auth_rejected: "auth_error err \<Longrightarrow> rejected_error err"
  by (auto simp: auth_error_def rejected_error_def split: http_error.splits)

lemma loop_replays:
  assumes "request_loop b t idem step n ref c = (r, es, c')"
  shows "list_all (\<lambda>e. idem \<or> (\<exists>err. te_error e = Some err \<and> rejected_error err)) (butlast es)"
  using assms
proof (induction rule: request_loop_rule)
  case (refresh n c e es err token c')
  then show ?case using auth_rejected by auto
next
  case (retry n ref c e es err d c')
  then show ?case using retry_needs_idempotence by auto
qed simp

lemma loop_refresh:
  assumes "request_loop b t idem step n ref c = (r, es, c')"
  shows "es \<noteq> [] \<and>
    length (filter (\<lambda>e. \<exists>err. te_error e = Some err \<and> auth_error err) (butlast es)) \<le> (if ref then 0 else 1) \<and>
    (\<forall>code status soft. r = Inl (AuthenticationError code status soft) \<longrightarrow>
       (\<exists>err. te_error (last es) = Some err \<and> auth_error err)) \<and> te_token (last es) = hc_accessToken c'"
  using assms
proof (induction rule: request_loop_rule)
  case (stop n ref c e)
  then show ?case by simp
next
  case (refresh n c e es err token c')
  then show ?case by simp
next
  case (retry n ref c e es err d c')
  then show ?case by simp
qed

lemma delay_bounds:
  assumes "retryDelayFor c j err n idem = Some d" and "0 \<le> hc_retryBaseMs c"
  shows "0 \<le> d \<or> d = hc_maxRetryDelayMs c" and "d \<le> max 90000 (hc_maxRetryDelayMs c)"
  using assms
  by (auto simp: retryDelayFor_def backoff_def clamp_def MAX_HONOURED_RETRY_AFTER_MS_def Let_def
      split: http_error.splits if_splits)

lemma loop_sleeps:
  assumes "request_loop b t idem step n ref c = (r, es, c')" and "0 \<le> hc_retryBaseMs c"
  shows "list_all (\<lambda>e. \<forall>d. te_sleep e = Some d \<longrightarrow> d \<le> max 90000 (hc_maxRetryDelayMs c)) es"
  using assms
proof (induction rule: request_loop_rule)
  case (stop n ref c e)
  then show ?case using delay_bounds(2) by auto
next
  case (refresh n c e es err token c')
  then show ?case by (simp add: setAccessToken_def)
next
  case (retry n ref c e es err d c')
  then show ?case using delay_bounds(2) by auto
qed

lemma nat_dec_no_dot: "CHR ''.'' \<notin> set (nat_dec n)"
proof
  assume "CHR ''.'' \<in> set (nat_dec n)"
  from nat_dec_digits [OF this] show False by simp
qed

lemma txn_ids_counter:
  "x \<in> set (txn_ids nows s) \<Longrightarrow>
     \<exists>n now. ts_counter s < n \<and> x = ''m'' @ ts_prefix s @ ''.'' @ nat_dec n @ ''.'' @ nat_dec now"
proof (induction nows arbitrary: s)
  case (Cons now nows)
  show ?case
  proof (cases "x = fst (txnId now s)")
    case True
    then show ?thesis by (auto simp: txnId_def Let_def intro: exI [of _ "Suc (ts_counter s)"])
  next
    case False
    with Cons.prems have "x \<in> set (txn_ids nows (snd (txnId now s)))"
      by (simp add: case_prod_beta)
    from Cons.IH [OF this] obtain n now' where "Suc (ts_counter s) < n"
      and "x = ''m'' @ ts_prefix s @ ''.'' @ nat_dec n @ ''.'' @ nat_dec now'"
      by (auto simp: txnId_def Let_def)
    then show ?thesis by (intro exI [of _ n] exI [of _ now']) simp
  qed
qed simp

section \<open>Properties\<close>

text \<open>
  Every request ends: its attempts are numbered from 1, there are at most
  two more than the retry budget, and it succeeds exactly when its last attempt did.
\<close>

theorem request_bounded:
  "case request c method opts step of (r, es, c') \<Rightarrow>
     es \<noteq> [] \<and> map te_attempt es = [1..<Suc (length es)] \<and>
     length es \<le> nat (case ro_maxRetries opts of Some b \<Rightarrow> b | None \<Rightarrow> hc_maxRetries c) + 2 \<and>
     (te_error (last es) = None \<longleftrightarrow> (\<exists>v. r = Inr v))"
proof -
  obtain r es c' where res: "request c method opts step = (r, es, c')" by (cases "request c method opts step") auto
  from loop_numbers [OF res [unfolded request_def Let_def]] show ?thesis
    by (simp add: res)
qed

text \<open>
  C36 (safety). A request that is not idempotent is never replayed when its outcome is unknown:
  each attempt but the last was rejected by the homeserver, for its token or its rate.
\<close>

theorem request_replays_only_rejected:
  assumes "ro_idempotent opts = Some False \<or> (ro_idempotent opts = None \<and> method \<in> {POST, DELETE})"
    and "request c method opts step = (r, es, c')"
  shows "\<forall>e \<in> set (butlast es). \<exists>err. te_error e = Some err \<and> rejected_error err"
  using assms(1) loop_replays [OF assms(2) [unfolded request_def Let_def]]
  by (auto simp: list_all_iff)

definition demo_client :: http_client where
  "demo_client = hc_new (Some ''old'') None (Some 2) None None True"

definition demo_opts :: request_options where
  "demo_opts = \<lparr>ro_idempotent = None, ro_maxRetries = None, ro_timeoutMs = None, ro_rawBody = None,
     ro_contentType = None, ro_headers = [], ro_anonymous = False\<rparr>"

text \<open>A world that rejects the token, refreshes it, throttles, and then drops the connection.\<close>

definition demo_step :: "nat \<Rightarrow> http_step" where
  "demo_step n = \<lparr>hs_now = 0, hs_preAborted = False,
     hs_fetch = (if n = 1 then Responds 401 NoHeader (JsonText (JObj [(''errcode'', JStr ''M_UNKNOWN_TOKEN'')]))
                 else if n = 2 then Responds 429 (HeaderMs 200) EmptyText else Throws NetworkErr),
     hs_timedOut = False, hs_aborted = False, hs_refresh = Some ''new'', hs_jitter = id, hs_abortedAfterSleep = False\<rparr>"

lemma demo_request:
  "request demo_client POST demo_opts demo_step =
     (Inl (Raised NetworkErr),
      [\<lparr>te_status = Some 401, te_attempt = 1, te_retried = False,
        te_error = Some (ApiError (MatrixApiError 401 (JObj [(''errcode'', JStr ''M_UNKNOWN_TOKEN'')]) None)),
        te_token = ''old'', te_sleep = None\<rparr>,
       \<lparr>te_status = Some 429, te_attempt = 2, te_retried = True,
        te_error = Some (ApiError (MatrixApiError 429 JNull (Some 200))), te_token = ''new'', te_sleep = Some 200\<rparr>,
       \<lparr>te_status = None, te_attempt = 3, te_retried = True, te_error = Some NetworkErr, te_token = ''new'',
        te_sleep = None\<rparr>], setAccessToken ''new'' demo_client)"
  unfolding request_def demo_client_def demo_opts_def hc_new_def
  by (simp add: request_loop.simps demo_step_def attempt_def parseMaybeJson_def retryAfterFrom_def readNumber_def
      readString_def isPlainObject_def json_prop_def MatrixApiError_def isAuthFailure_def isRateLimit_def error_status_def
      tryRefreshToken_def setAccessToken_def retryDelayFor_def clamp_def MAX_HONOURED_RETRY_AFTER_MS_def Let_def)

theorem request_replays_only_rejected_witness:
  "list_all (\<lambda>e. \<exists>err. te_error e = Some err \<and> rejected_error err)
     (butlast (fst (snd (request demo_client POST demo_opts demo_step))))"
  unfolding demo_request fst_conv snd_conv list_all_iff
  by (rule request_replays_only_rejected [OF _ demo_request]) (simp add: demo_opts_def)

text \<open>
  A request refreshes its token at most once; an \<open>AuthenticationError\<close> is raised
  only when the last attempt's token was rejected; and the last attempt carried the token
  the client is left with.
\<close>

theorem request_single_refresh:
  "case request c method opts step of (r, es, c') \<Rightarrow>
     length (filter (\<lambda>e. \<exists>err. te_error e = Some err \<and> auth_error err) (butlast es)) \<le> 1 \<and>
     (case r of Inl (AuthenticationError code status soft) \<Rightarrow> (\<exists>err. te_error (last es) = Some err \<and> auth_error err)
      | _ \<Rightarrow> True) \<and>
     te_token (last es) = hc_accessToken c'"
proof -
  obtain r es c' where res: "request c method opts step = (r, es, c')" by (cases "request c method opts step") auto
  from loop_refresh [OF res [unfolded request_def Let_def]] show ?thesis
    by (simp add: res split: sum.split request_error.split)
qed

text \<open>
  No delay between two attempts exceeds the larger of 90 seconds and the
  configured ceiling; a longer hint of the homeserver ends the request instead.
\<close>

theorem request_delays_bounded:
  assumes "0 \<le> hc_retryBaseMs c" and "request c method opts step = (r, es, c')" and "e \<in> set es"
    and "te_sleep e = Some d"
  shows "d \<le> max 90000 (hc_maxRetryDelayMs c)"
  using loop_sleeps [OF assms(2) [unfolded request_def Let_def] assms(1)] assms(3,4)
  by (auto simp: list_all_iff)

theorem request_delays_bounded_witness: "(200 :: int) \<le> max 90000 (hc_maxRetryDelayMs demo_client)"
  by (rule request_delays_bounded [OF _ demo_request, of _ 200]) (auto simp: demo_client_def hc_new_def)

text \<open>
  A homeserver URL that is accepted is https, or plain http to a host that is
  local, or plain http that the caller allowed: the access token never leaves unencrypted
  unasked.
\<close>

theorem homeserver_url_secure:
  assumes "normalizeHomeserverUrl U url allowInsecure = Inr base"
  shows "\<exists>protocol hostname. U base = Some (protocol, hostname) \<and>
    (protocol = ''https:'' \<or> protocol = ''http:'' \<and> (allowInsecure \<or> isLocalHost hostname)) \<and>
    \<not> js_ends_with base ''/''"
proof -
  have no_slash: "\<not> js_ends_with (strip_trailing_slashes s) ''/''" for s
  proof
    assume "js_ends_with (strip_trailing_slashes s) ''/''"
    then have "\<exists>xs. strip_trailing_slashes s = xs @ ''/''"
      by (metis append_take_drop_id js_ends_with_def)
    then obtain xs where "dropWhile (\<lambda>c. c = CHR ''/'') (rev s) = CHR ''/'' # rev xs"
      by (metis strip_trailing_slashes_def rev_append rev_rev_ident append_Cons append_Nil rev.simps(1,2))
    then show False by (simp add: dropWhile_eq_Cons_conv)
  qed
  from assms show ?thesis
    using no_slash
    by (auto simp: normalizeHomeserverUrl_def Let_def split: if_splits option.splits)
qed

theorem homeserver_url_secure_witness:
  "\<exists>protocol hostname. Some (''https:'', ''hs'') = Some (protocol, hostname) \<and> protocol = ''https:''"
  using homeserver_url_secure [of "\<lambda>_. Some (''https:'', ''hs'')" "''hs/''" False "''https://hs''"]
  by (simp add: normalizeHomeserverUrl_def has_scheme_def ascii_alpha_def ascii_digit_def js_starts_with_def
      strip_trailing_slashes_def js_trim_def js_space_def)

text \<open>
  The transaction ids of one client are pairwise distinct, whatever the clock
  does, so that the homeserver never takes a send for a replay of another.
\<close>

theorem txn_ids_distinct: "distinct (txn_ids nows s)"
proof (induction nows arbitrary: s)
  case (Cons now nows)
  let ?s' = "snd (txnId now s)"
  have "fst (txnId now s) \<notin> set (txn_ids nows ?s')"
  proof
    assume "fst (txnId now s) \<in> set (txn_ids nows ?s')"
    then obtain n now' where "ts_counter ?s' < n"
      "fst (txnId now s) = ''m'' @ ts_prefix ?s' @ ''.'' @ nat_dec n @ ''.'' @ nat_dec now'"
      using txn_ids_counter by blast
    then have less: "Suc (ts_counter s) < n" and
      eq: "nat_dec (Suc (ts_counter s)) @ CHR ''.'' # nat_dec now = nat_dec n @ CHR ''.'' # nat_dec now'"
      by (simp_all add: txnId_def Let_def)
    have "nat_dec (Suc (ts_counter s)) = nat_dec n"
      using split_at_char [OF nat_dec_no_dot nat_dec_no_dot eq] by (rule conjunct1)
    then show False
      using less nat_dec_inj [of "Suc (ts_counter s)" n] by simp
  qed
  with Cons show ?case by (simp add: case_prod_beta)
qed simp

end
