(* ===== verification/Errors.thy ===== *)
theory Errors
  imports Http
begin

text \<open>
  \<^verbatim>\<open>src/errors.ts\<close> and \<^verbatim>\<open>src/error-map.ts\<close>: the library's error classes with
  their messages, and the mapping of an error to what a user is told. An error object is a
  value of \<open>js_error\<close>; \<open>NextCalledTwice\<close> and \<open>Thrown\<close> are errors outside the
  library's classes.
\<close>

section \<open>errors.ts\<close>

datatype power_action = Act_kick | Act_ban | Act_invite | Act_set_power | Act_redact

datatype auth_reason =
    Missing_hash | Bad_signature | Expired | Malformed | Replayed | Untrusted_origin | Forbidden

record device_recovery =
  dr_wipePaths :: "string list"
  dr_keepDeviceId :: string
  dr_suggested :: string

datatype js_error =
    ConfigurationError string
  | CryptoNotReadyError
  | DeviceMismatchError string "string option" device_recovery
  | PeerKeysMissingError string "string list"
  | EncryptedRoomWithoutCryptoError string
  | EncryptionStateUnknownError string
  | RoomKeyWithheldError string int bool bool bool
  | RateLimitedError int string string
  | RequestTimeoutError int string string
  | AuthError string bool
  | DiscoveryError string
  | MediaTooLargeError int int
  | MiniAppAuthError string auth_reason
  | HandlerTimeoutError int string
  | WaitForTimeoutError int
  | InsufficientPowerError power_action jsnum jsnum string
  | MatrixError api_error
  | BareError string
  | NextCalledTwice
  | TypeError string
  | Thrown string

text \<open>
  The constructor of \<open>DeviceMismatchError\<close>: \<open>keepDeviceId ?? actual ?? expected\<close>. The
  fixed recovery steps are left out.
\<close>

definition deviceMismatch :: "string \<Rightarrow> string option \<Rightarrow> string option \<Rightarrow> js_error" where
  "deviceMismatch expected actual keep =
     DeviceMismatchError expected actual
       \<lparr>dr_wipePaths = [''crypto''],
        dr_keepDeviceId =
          (case keep of Some d \<Rightarrow> d | None \<Rightarrow> (case actual of Some d \<Rightarrow> d | None \<Rightarrow> expected)),
        dr_suggested = ''wipe_crypto_and_new_device''\<rparr>"

text \<open>\<open>instanceof aiomatrixError\<close>, and the class name a library error carries.\<close>

definition library_error :: "js_error \<Rightarrow> bool" where
  "library_error e = (case e of NextCalledTwice \<Rightarrow> False | TypeError _ \<Rightarrow> False | Thrown _ \<Rightarrow> False | _ \<Rightarrow> True)"

definition error_name :: "js_error \<Rightarrow> string" where
  "error_name e =
     (case e of
        ConfigurationError _ \<Rightarrow> ''ConfigurationError''
      | CryptoNotReadyError \<Rightarrow> ''CryptoNotReadyError''
      | DeviceMismatchError _ _ _ \<Rightarrow> ''DeviceMismatchError''
      | PeerKeysMissingError _ _ \<Rightarrow> ''PeerKeysMissingError''
      | EncryptedRoomWithoutCryptoError _ \<Rightarrow> ''EncryptedRoomWithoutCryptoError''
      | EncryptionStateUnknownError _ \<Rightarrow> ''EncryptionStateUnknownError''
      | RoomKeyWithheldError _ _ _ _ _ \<Rightarrow> ''RoomKeyWithheldError''
      | RateLimitedError _ _ _ \<Rightarrow> ''RateLimitedError''
      | RequestTimeoutError _ _ _ \<Rightarrow> ''RequestTimeoutError''
      | AuthError _ _ \<Rightarrow> ''AuthenticationError''
      | DiscoveryError _ \<Rightarrow> ''DiscoveryError''
      | MediaTooLargeError _ _ \<Rightarrow> ''MediaTooLargeError''
      | MiniAppAuthError _ _ \<Rightarrow> ''MiniAppAuthError''
      | HandlerTimeoutError _ _ \<Rightarrow> ''HandlerTimeoutError''
      | WaitForTimeoutError _ \<Rightarrow> ''WaitForTimeoutError''
      | InsufficientPowerError _ _ _ _ \<Rightarrow> ''InsufficientPowerError''
      | MatrixError _ \<Rightarrow> ''MatrixApiError''
      | BareError _ \<Rightarrow> ''aiomatrixError''
      | TypeError _ \<Rightarrow> ''TypeError''
      | _ \<Rightarrow> ''Error'')"

definition action_name :: "power_action \<Rightarrow> string" where
  "action_name a = (case a of Act_kick \<Rightarrow> ''kick'' | Act_ban \<Rightarrow> ''ban'' | Act_invite \<Rightarrow> ''invite''
     | Act_set_power \<Rightarrow> ''set_power'' | Act_redact \<Rightarrow> ''redact'')"

definition jsnum_text :: "jsnum \<Rightarrow> string" where
  "jsnum_text n = (case n of Fin i \<Rightarrow> int_dec i | PInf \<Rightarrow> ''Infinity'' | NInf \<Rightarrow> ''-Infinity'')"

definition flag_text :: "bool \<Rightarrow> string" where
  "flag_text b = (if b then ''true'' else ''false'')"

text \<open>
  The messages of the classes that build one from their arguments, with two hyphens for the
  dash; \<open>DeviceMismatchError\<close>, which only a start can throw, is left out.
\<close>

definition error_message :: "js_error \<Rightarrow> string" where
  "error_message e =
     (case e of
        PeerKeysMissingError room peers \<Rightarrow>
          ''PeerKeysMissingError: room '' @ room @
          '' is encrypted but keys/query returned zero device keys for intended peers ['' @
          js_join '', '' peers @ '']. Message NOT sent.''
      | EncryptedRoomWithoutCryptoError room \<Rightarrow>
          ''Room '' @ room @ '' is encrypted but bot crypto is disabled. Refusing plaintext fallback.''
      | EncryptionStateUnknownError room \<Rightarrow>
          ''Cannot determine whether room '' @ room @
          '' is encrypted (homeserver error). Refusing to send to avoid a plaintext leak.''
      | RoomKeyWithheldError room withheld trusted verified each \<Rightarrow>
          ''RoomKeyWithheldError: room '' @ room @ '': 0 key shares, '' @ int_dec withheld @
          '' withheld (onlyAllowTrustedDevices='' @ flag_text trusted @ '', errorOnVerifiedUserProblem='' @
          flag_text verified @ '', rotateEveryMessage='' @ flag_text each @
          ''). Peers will not decrypt -- check onCryptoLog withheld_detail / device trust.''
      | RateLimitedError ms mtd path \<Rightarrow>
          ''Rate limited by homeserver on '' @ mtd @ '' '' @ path @ ''; retry after '' @ int_dec ms @
          ''ms (retries exhausted).''
      | RequestTimeoutError ms mtd path \<Rightarrow>
          ''Matrix HTTP timeout after '' @ int_dec ms @ ''ms: '' @ mtd @ '' '' @ path
      | MediaTooLargeError bytes lim \<Rightarrow>
          ''Media size '' @ int_dec bytes @ '' bytes exceeds limit '' @ int_dec lim @ '' bytes.''
      | HandlerTimeoutError ms where_ \<Rightarrow>
          ''Handler at '' @ where_ @ '' exceeded '' @ int_dec ms @ ''ms and was abandoned.''
      | WaitForTimeoutError ms \<Rightarrow> ''waitFor timed out after '' @ int_dec ms @ ''ms''
      | InsufficientPowerError a required actual room \<Rightarrow>
          ''Insufficient power for '' @ action_name a @ '' in '' @ room @ '': have '' @ jsnum_text actual @
          '', need '' @ jsnum_text required
      | CryptoNotReadyError \<Rightarrow>
          ''Crypto not ready: own device keys missing on homeserver after prepare/flush''
      | ConfigurationError msg \<Rightarrow> msg
      | AuthError msg _ \<Rightarrow> msg
      | DiscoveryError msg \<Rightarrow> msg
      | MiniAppAuthError msg _ \<Rightarrow> msg
      | BareError msg \<Rightarrow> msg
      | NextCalledTwice \<Rightarrow> ''next() was called more than once''
      | TypeError msg \<Rightarrow> msg
      | Thrown msg \<Rightarrow> msg
      | _ \<Rightarrow> [])"

definition is_timeout :: "js_error \<Rightarrow> bool" where
  "is_timeout e = (case e of HandlerTimeoutError _ _ \<Rightarrow> True | _ \<Rightarrow> False)"

section \<open>error-map.ts\<close>

text \<open>The dash of two of the texts lies outside the characters modelled; it is two hyphens here.\<close>

record mapped_error =
  me_text :: string
  me_code :: string
  me_retryable :: bool

definition mapped :: "string \<Rightarrow> string \<Rightarrow> bool \<Rightarrow> mapped_error" where
  "mapped text code retryable = \<lparr>me_text = text, me_code = code, me_retryable = retryable\<rparr>"

definition mapMatrixError :: "api_error \<Rightarrow> mapped_error" where
  "mapMatrixError e =
     (if ae_errcode e = Some ''M_FORBIDDEN'' then
        mapped ''I'm not allowed to do that here.'' ''forbidden'' False
      else if ae_errcode e = Some ''M_NOT_FOUND'' then
        mapped ''I couldn't find that resource.'' ''not_found'' False
      else if ae_status e = 429 \<or> ae_errcode e = Some ''M_LIMIT_EXCEEDED'' then
        mapped ''Rate limited by the homeserver. Please retry shortly.'' ''rate_limited'' True
      else
        mapped ''The homeserver rejected that request.''
          (case ae_errcode e of Some c \<Rightarrow> c | None \<Rightarrow> ''matrix_api'') (500 \<le> ae_status e))"

definition mapBotError :: "js_error \<Rightarrow> mapped_error" where
  "mapBotError e =
     (case e of
        InsufficientPowerError _ _ _ _ \<Rightarrow>
          mapped ''I don't have enough power in this room for that action.'' ''insufficient_power'' False
      | WaitForTimeoutError _ \<Rightarrow>
          mapped ''Timed out waiting for your reply.'' ''wait_for_timeout'' True
      | HandlerTimeoutError _ _ \<Rightarrow>
          mapped ''That took too long -- please try again.'' ''handler_timeout'' True
      | RateLimitedError _ _ _ \<Rightarrow>
          mapped ''The homeserver asked me to slow down. Try again in a moment.'' ''rate_limited'' True
      | AuthError _ _ \<Rightarrow>
          mapped ''My session expired. An admin needs to re-login the bot.'' ''auth'' False
      | EncryptedRoomWithoutCryptoError _ \<Rightarrow>
          mapped ''Encryption isn't ready for this room yet.'' ''crypto'' True
      | CryptoNotReadyError \<Rightarrow>
          mapped ''Encryption isn't ready for this room yet.'' ''crypto'' True
      | PeerKeysMissingError _ _ \<Rightarrow>
          mapped ''I can't encrypt to everyone in this room yet (missing device keys).'' ''peer_keys'' True
      | MediaTooLargeError _ _ \<Rightarrow>
          mapped ''That file is too large to send.'' ''media_too_large'' False
      | MiniAppAuthError _ _ \<Rightarrow>
          mapped ''MiniApp session is invalid or expired.'' ''miniapp_auth'' False
      | ConfigurationError _ \<Rightarrow>
          mapped ''Bot configuration error -- please contact an admin.'' ''config'' False
      | MatrixError ae \<Rightarrow> mapMatrixError ae
      | _ \<Rightarrow>
          (if library_error e then mapped ''Something went wrong handling that.'' (error_name e) False
           else mapped ''Something went wrong handling that. Please try again.'' ''unknown'' False))"

text \<open>
  The user-facing text is a function of the class of the error alone, so no message, path,
  token or body can show up in it; for a homeserver error it also depends on which of three
  cases the status and the code fall into.
\<close>

definition error_class :: "js_error \<Rightarrow> string \<times> nat" where
  "error_class e =
     (error_name e,
      case e of
        MatrixError ae \<Rightarrow>
          (if ae_errcode ae = Some ''M_FORBIDDEN'' then 1
           else if ae_errcode ae = Some ''M_NOT_FOUND'' then 2
           else if ae_status ae = 429 \<or> ae_errcode ae = Some ''M_LIMIT_EXCEEDED'' then 3 else 4)
      | _ \<Rightarrow> 0)"

text \<open>
  What a user is told about an error depends only on the class of the error:
  two errors of one class, whatever messages, tokens, paths or response bodies they carry,
  give the same text.
\<close>

theorem mapBotError_leaks_nothing:
  assumes "error_class e = error_class e'"
  shows "me_text (mapBotError e) = me_text (mapBotError e')"
  using assms
  by (cases e; cases e') (simp_all add: error_class_def error_name_def mapBotError_def mapped_def
      mapMatrixError_def library_error_def split: if_splits, blast)

theorem mapBotError_leaks_nothing_witness:
  "me_text (mapBotError (AuthError ''token syt_abc rejected'' False)) = me_text (mapBotError (AuthError [] True))"
  by (rule mapBotError_leaks_nothing) (simp add: error_class_def error_name_def)

end
