(* ===== verification/Sync.thy ===== *)
theory Sync
  imports Js_Util
begin

text \<open>
  \<^verbatim>\<open>src/sync.ts\<close>: the sync state and its file, the filters, and the long-poll loop with its
  bootstrap rule, its poison batches and its back-off. A loop iteration is the function
  \<open>sync_iter\<close> of the loop's state and of what the world does in it (\<open>sync_step\<close>); the trace
  of the batches handed to \<open>onSync\<close> is part of the state.

  The values of the sync file have the types the code declares; a value of another type
  counts as absent.
\<close>

section \<open>The sync state\<close>

datatype filter_kind = FilterBootstrap | FilterRuntime

record sync_state =
  ss_next_batch :: "string option"
  ss_filter_id :: "string option"
  ss_filter_kind :: "filter_kind option"
  ss_bootstrap_done :: bool
  ss_user_id :: "string option"

definition empty_state :: sync_state where
  "empty_state = \<lparr>ss_next_batch = None, ss_filter_id = None, ss_filter_kind = None, ss_bootstrap_done = False,
     ss_user_id = None\<rparr>"

definition nonempty :: "string option \<Rightarrow> string option" where
  "nonempty s = (if s = Some [] then None else s)"

fun kind_name :: "filter_kind \<Rightarrow> string" where
  "kind_name FilterBootstrap = ''bootstrap''"
| "kind_name FilterRuntime = ''runtime''"

definition kind_of_name :: "string option \<Rightarrow> filter_kind option" where
  "kind_of_name s = (if s = Some ''bootstrap'' then Some FilterBootstrap
     else if s = Some ''runtime'' then Some FilterRuntime else None)"

definition js_falsy :: "json \<Rightarrow> bool" where
  "js_falsy v \<longleftrightarrow> v \<in> {JNull, JBool False, JNum (Fin 0), JStr []}"

definition loadSyncState :: "file_system \<Rightarrow> string \<Rightarrow> string option \<Rightarrow> sync_state" where
  "loadSyncState fs file userId =
     (let raw = readJsonSafe fs file
      in if js_falsy raw then empty_state
         else case (nonempty userId, nonempty (readString raw ''user_id'')) of
           (Some u, Some r) \<Rightarrow>
             if r \<noteq> u then empty_state\<lparr>ss_user_id := Some u\<rparr>
             else \<lparr>ss_next_batch = readString raw ''next_batch'',
                   ss_filter_id = nonempty (readString raw ''filter_id''),
                   ss_filter_kind = kind_of_name (readString raw ''filter_kind''),
                   ss_bootstrap_done = (json_prop raw ''bootstrap_done'' = Some (JBool True)),
                   ss_user_id = Some u\<rparr>
         | (u, r) \<Rightarrow>
             \<lparr>ss_next_batch = readString raw ''next_batch'',
              ss_filter_id = nonempty (readString raw ''filter_id''),
              ss_filter_kind = kind_of_name (readString raw ''filter_kind''),
              ss_bootstrap_done = (json_prop raw ''bootstrap_done'' = Some (JBool True)),
              ss_user_id = (case userId of Some x \<Rightarrow> nonempty (Some x) | None \<Rightarrow> r)\<rparr>)"

definition str_field :: "string \<Rightarrow> string option \<Rightarrow> (string \<times> json) list" where
  "str_field k v = (case v of Some s \<Rightarrow> [(k, JStr s)] | None \<Rightarrow> [])"

definition state_json :: "sync_state \<Rightarrow> json" where
  "state_json s =
     JObj ([(''next_batch'', case ss_next_batch s of Some b \<Rightarrow> JStr b | None \<Rightarrow> JNull),
            (''bootstrap_done'', JBool (ss_bootstrap_done s))] @
           str_field ''user_id'' (ss_user_id s) @ str_field ''filter_id'' (ss_filter_id s) @
           str_field ''filter_kind'' (map_option kind_name (ss_filter_kind s)))"

definition saveSyncState ::
  "string \<Rightarrow> string \<Rightarrow> write_outcome \<Rightarrow> sync_state \<Rightarrow> file_system \<Rightarrow> (write_outcome + unit) \<times> file_system" where
  "saveSyncState file tmp outcome s fs = writeJsonAtomic file tmp (state_json s) outcome fs"

section \<open>Filters\<close>

record filter_options =
  fo_timelineLimit :: "int option"
  fo_includeEphemeral :: bool
  fo_includePresence :: bool
  fo_includeLeave :: bool
  fo_timelineTypes :: "string list option"
  fo_stateTypes :: "string list option"

definition no_events :: json where
  "no_events = JObj [(''limit'', JNum (Fin 0)), (''types'', JArr [])]"

definition limit_events :: "int \<Rightarrow> json" where
  "limit_events n = JObj [(''limit'', JNum (Fin n))]"

definition buildBootstrapFilter :: "filter_options \<Rightarrow> json" where
  "buildBootstrapFilter opts =
     JObj [(''presence'', if fo_includePresence opts then limit_events 10 else no_events),
           (''room'', JObj [(''timeline'', limit_events 0), (''state'', JObj [(''lazy_load_members'', JBool True)]),
              (''ephemeral'', no_events), (''include_leave'', JBool False)])]"

definition types_field :: "string list option \<Rightarrow> (string \<times> json) list" where
  "types_field ts = (case ts of Some (t # r) \<Rightarrow> [(''types'', JArr (map JStr (t # r)))] | _ \<Rightarrow> [])"

definition buildRuntimeFilter :: "filter_options \<Rightarrow> json" where
  "buildRuntimeFilter opts =
     (let timeline = JObj ((''limit'', JNum (Fin (clamp (case fo_timelineLimit opts of Some n \<Rightarrow> n | None \<Rightarrow> 50) 1 1000)))
                        # types_field (fo_timelineTypes opts));
          st = JObj ((''lazy_load_members'', JBool True) # types_field (fo_stateTypes opts));
          room = JObj ([(''timeline'', timeline), (''state'', st), (''include_leave'', JBool (fo_includeLeave opts))] @
                       (if \<not> fo_includeEphemeral opts then [(''ephemeral'', no_events)] else []))
      in JObj [(''presence'', if fo_includePresence opts then limit_events 10 else no_events), (''room'', room)])"

section \<open>The loop\<close>

datatype sync_error = AuthFailure | Aborted | OtherError string

record sync_options =
  so_file :: string
  so_userId :: string
  so_timeoutMs :: int
  so_setPresence :: string
  so_backoffMinMs :: int
  so_backoffMaxMs :: int

definition so_new :: "string \<Rightarrow> string \<Rightarrow> int option \<Rightarrow> string option \<Rightarrow> int option \<Rightarrow> int option \<Rightarrow> sync_options" where
  "so_new storagePath userId timeoutMs presence minMs maxMs =
     (let lo = max 1 (case minMs of Some m \<Rightarrow> m | None \<Rightarrow> 1000)
      in \<lparr>so_file = storagePath @ ''/sync.json'', so_userId = userId,
          so_timeoutMs = (case timeoutMs of Some t \<Rightarrow> t | None \<Rightarrow> 30000),
          so_setPresence = (case presence of Some p \<Rightarrow> p | None \<Rightarrow> ''offline''),
          so_backoffMinMs = lo, so_backoffMaxMs = max lo (case maxMs of Some m \<Rightarrow> m | None \<Rightarrow> 30000)\<rparr>)"

definition MAX_POISON_RETRIES :: nat where "MAX_POISON_RETRIES = 3"

text \<open>
  What happens in one iteration: the answer to the filter upload, the writes of the sync
  file, the answer to \<open>/sync\<close> (its \<open>next_batch\<close>, when it has one), whether \<open>stop\<close> was
  called by then or by the time an error is handled, how \<open>onSync\<close> ends and the clock.
\<close>

record sync_step =
  sy_upload :: "sync_error + string"
  sy_tmp :: string
  sy_save1 :: write_outcome
  sy_response :: "sync_error + string option"
  sy_stopAfter :: bool
  sy_handler :: "sync_error + unit"
  sy_save2 :: write_outcome
  sy_stopAtError :: bool
  sy_now :: int

text \<open>A batch handed to \<open>onSync\<close>: where it was asked from, the next position, and the outcome.\<close>

datatype delivery_end = Done | Failed | Skipped

record delivery =
  dl_since :: "string option"
  dl_next :: string
  dl_bootstrap :: bool
  dl_end :: delivery_end

record sync_loop =
  sl_state :: sync_state
  sl_backoff :: int
  sl_poison :: "string option"
  sl_count :: nat
  sl_stopped :: bool
  sl_fatal :: "sync_error option"
  sl_lastSyncAt :: int
  sl_fs :: file_system
  sl_deliveries :: "delivery list"
  sl_sleeps :: "int list"

definition sl_start :: "sync_options \<Rightarrow> file_system \<Rightarrow> sync_loop" where
  "sl_start opts fs =
     \<lparr>sl_state = loadSyncState fs (so_file opts) (Some (so_userId opts)), sl_backoff = so_backoffMinMs opts,
      sl_poison = None, sl_count = 0, sl_stopped = False, sl_fatal = None, sl_lastSyncAt = 0, sl_fs = fs,
      sl_deliveries = [], sl_sleeps = []\<rparr>"

definition truthy_str :: "string option \<Rightarrow> bool" where
  "truthy_str s = (s \<noteq> None \<and> s \<noteq> Some [])"

text \<open>
  The filter of the round: an upload stores the id and saves the state; if either fails the
  round goes on without a filter, except that an authentication error is thrown.
\<close>

definition ensure_filter ::
  "sync_options \<Rightarrow> sync_step \<Rightarrow> sync_loop \<Rightarrow> (sync_error + unit) \<times> sync_loop" where
  "ensure_filter opts st l =
     (let s = sl_state l
      in if truthy_str (ss_filter_id s) \<and> ss_filter_kind s = Some FilterRuntime then (Inr (), l)
         else case sy_upload st of
           Inl AuthFailure \<Rightarrow> (Inl AuthFailure, l)
         | Inl _ \<Rightarrow> (Inr (), l\<lparr>sl_state := s\<lparr>ss_filter_id := None, ss_filter_kind := None\<rparr>\<rparr>)
         | Inr fid \<Rightarrow>
             (let s1 = s\<lparr>ss_filter_id := Some fid, ss_filter_kind := Some FilterRuntime\<rparr>;
                  (r, fs) = saveSyncState (so_file opts) (sy_tmp st) (sy_save1 st) s1 (sl_fs l)
              in (Inr (),
                  l\<lparr>sl_fs := fs,
                    sl_state := (case r of Inr _ \<Rightarrow> s1
                                 | Inl _ \<Rightarrow> s\<lparr>ss_filter_id := None, ss_filter_kind := None\<rparr>)\<rparr>)))"

definition sync_query :: "sync_options \<Rightarrow> sync_state \<Rightarrow> (string \<times> string) list" where
  "sync_query opts s =
     [(''timeout'', nat_dec (nat (so_timeoutMs opts))), (''set_presence'', so_setPresence opts)] @
     (case nonempty (ss_next_batch s) of Some b \<Rightarrow> [(''since'', b)] | None \<Rightarrow> []) @
     (case nonempty (ss_filter_id s) of Some f \<Rightarrow> [(''filter'', f)] | None \<Rightarrow> [])"

definition batch_key :: "sync_state \<Rightarrow> string" where
  "batch_key s = (case ss_next_batch s of Some b \<Rightarrow> b | None \<Rightarrow> ''<initial>'')"

text \<open>
  Handing a batch to \<open>onSync\<close>. A failure is counted against the position it was asked from
  and rethrown, until the count exceeds the bound: then the batch is skipped.
\<close>

definition deliver :: "bool \<Rightarrow> string \<Rightarrow> sync_step \<Rightarrow> sync_loop \<Rightarrow> (sync_error + unit) \<times> sync_loop" where
  "deliver isBootstrap next st l =
     (let s = sl_state l;
          d = \<lparr>dl_since = ss_next_batch s, dl_next = next, dl_bootstrap = isBootstrap, dl_end = Done\<rparr>
      in case sy_handler st of
           Inr _ \<Rightarrow> (Inr (), l\<lparr>sl_poison := None, sl_count := 0, sl_deliveries := sl_deliveries l @ [d]\<rparr>)
         | Inl err \<Rightarrow>
             (let key = batch_key s;
                  count = (if sl_poison l = Some key then sl_count l + 1 else 1)
              in if count \<le> MAX_POISON_RETRIES
                 then (Inl err, l\<lparr>sl_poison := Some key, sl_count := count,
                                 sl_deliveries := sl_deliveries l @ [d\<lparr>dl_end := Failed\<rparr>]\<rparr>)
                 else (Inr (), l\<lparr>sl_poison := None, sl_count := 0,
                                sl_deliveries := sl_deliveries l @ [d\<lparr>dl_end := Skipped\<rparr>]\<rparr>)))"

definition advance :: "sync_options \<Rightarrow> string \<Rightarrow> sync_step \<Rightarrow> sync_loop \<Rightarrow> (sync_error + unit) \<times> sync_loop" where
  "advance opts next st l =
     (let s = \<lparr>ss_next_batch = Some next, ss_filter_id = nonempty (ss_filter_id (sl_state l)),
               ss_filter_kind = ss_filter_kind (sl_state l), ss_bootstrap_done = True,
               ss_user_id = Some (so_userId opts)\<rparr>;
          (r, fs) = saveSyncState (so_file opts) (sy_tmp st) (sy_save2 st) s (sl_fs l);
          l1 = l\<lparr>sl_state := s, sl_fs := fs\<rparr>
      in case r of
           Inl _ \<Rightarrow> (Inl (OtherError ''write failed''), l1)
         | Inr _ \<Rightarrow> (Inr (), l1\<lparr>sl_lastSyncAt := sy_now st, sl_backoff := so_backoffMinMs opts\<rparr>))"

datatype round_end = RoundError sync_error | RoundBreak | RoundOk

definition sync_round :: "sync_options \<Rightarrow> sync_step \<Rightarrow> sync_loop \<Rightarrow> round_end \<times> sync_loop" where
  "sync_round opts st l =
     (let needBootstrap = (ss_next_batch (sl_state l) = None \<or> \<not> ss_bootstrap_done (sl_state l))
      in case ensure_filter opts st l of
           (Inl e, l1) \<Rightarrow> (RoundError e, l1)
         | (Inr _, l1) \<Rightarrow>
             (case sy_response st of
                Inl e \<Rightarrow> (RoundError e, l1)
              | Inr next \<Rightarrow>
                  if sy_stopAfter st then (RoundBreak, l1)
                  else case nonempty next of
                    None \<Rightarrow> (RoundError (OtherError ''sync response is missing next_batch''), l1)
                  | Some b \<Rightarrow>
                      (case deliver needBootstrap b st l1 of
                         (Inl e, l2) \<Rightarrow> (RoundError e, l2)
                       | (Inr _, l2) \<Rightarrow>
                           (case advance opts b st l2 of
                              (Inl e, l3) \<Rightarrow> (RoundError e, l3)
                            | (Inr _, l3) \<Rightarrow> (RoundOk, l3)))))"

definition sync_iter :: "sync_options \<Rightarrow> sync_step \<Rightarrow> sync_loop \<Rightarrow> sync_loop" where
  "sync_iter opts st l =
     (if sl_stopped l then l
      else case sync_round opts st l of
        (RoundOk, l1) \<Rightarrow> l1
      | (RoundBreak, l1) \<Rightarrow> l1\<lparr>sl_stopped := True\<rparr>
      | (RoundError e, l1) \<Rightarrow>
          if sy_stopAtError st then l1\<lparr>sl_stopped := True\<rparr>
          else if e = Aborted then l1\<lparr>sl_stopped := True\<rparr>
          else if e = AuthFailure then l1\<lparr>sl_stopped := True, sl_fatal := Some e\<rparr>
          else l1\<lparr>sl_sleeps := sl_sleeps l1 @ [sl_backoff l1],
                  sl_backoff := clamp (sl_backoff l1 * 2) (so_backoffMinMs opts) (so_backoffMaxMs opts)\<rparr>)"

definition sync_run :: "sync_options \<Rightarrow> sync_step list \<Rightarrow> sync_loop \<Rightarrow> sync_loop" where
  "sync_run opts steps l = fold (sync_iter opts) steps l"

section \<open>What a trace has to satisfy\<close>

text \<open>
  The position after a trace, that each batch is asked from the position then reached, that
  a batch is a bootstrap batch until one is completed, and that a position fails at most
  three times before its batch is skipped.
\<close>

definition completed :: "delivery \<Rightarrow> bool" where
  "completed d \<longleftrightarrow> dl_end d \<noteq> Failed"

fun position :: "string option \<Rightarrow> delivery list \<Rightarrow> string option" where
  "position p [] = p"
| "position p (d # ds) = position (if completed d then Some (dl_next d) else p) ds"

fun chained :: "string option \<Rightarrow> delivery list \<Rightarrow> bool" where
  "chained p [] = True"
| "chained p (d # ds) \<longleftrightarrow> dl_since d = p \<and> chained (if completed d then Some (dl_next d) else p) ds"

fun boots :: "bool \<Rightarrow> delivery list \<Rightarrow> bool" where
  "boots need [] = True"
| "boots need (d # ds) \<longleftrightarrow> dl_bootstrap d = need \<and> boots (need \<and> \<not> completed d) ds"

fun poison_ok :: "nat \<Rightarrow> delivery list \<Rightarrow> bool" where
  "poison_ok k [] = True"
| "poison_ok k (d # ds) =
     (case dl_end d of
        Failed \<Rightarrow> k < MAX_POISON_RETRIES \<and> poison_ok (Suc k) ds
      | Skipped \<Rightarrow> k = MAX_POISON_RETRIES \<and> poison_ok 0 ds
      | Done \<Rightarrow> poison_ok 0 ds)"

fun trailing :: "nat \<Rightarrow> delivery list \<Rightarrow> nat" where
  "trailing k [] = k"
| "trailing k (d # ds) = trailing (if completed d then 0 else Suc k) ds"

lemma completed_simps [simp]:
  "dl_end d = Failed \<Longrightarrow> \<not> completed d" "dl_end d = Done \<Longrightarrow> completed d" "dl_end d = Skipped \<Longrightarrow> completed d"
  by (simp_all add: completed_def)

lemma position_append [simp]: "position p (ds @ es) = position (position p ds) es"
  by (induction ds arbitrary: p) simp_all

lemma chained_append [simp]: "chained p (ds @ es) \<longleftrightarrow> chained p ds \<and> chained (position p ds) es"
  by (induction ds arbitrary: p) auto

lemma boots_append [simp]:
  "boots need (ds @ es) \<longleftrightarrow> boots need ds \<and> boots (need \<and> \<not> list_ex completed ds) es"
  by (induction ds arbitrary: need) auto

lemma trailing_append [simp]: "trailing k (ds @ es) = trailing (trailing k ds) es"
  by (induction ds arbitrary: k) simp_all

lemma poison_append [simp]: "poison_ok k (ds @ es) \<longleftrightarrow> poison_ok k ds \<and> poison_ok (trailing k ds) es"
  by (induction ds arbitrary: k) (auto simp: completed_def split: delivery_end.splits)

definition needs_bootstrap :: "sync_loop \<Rightarrow> bool" where
  "needs_bootstrap l \<longleftrightarrow> ss_next_batch (sl_state l) = None \<or> \<not> ss_bootstrap_done (sl_state l)"

section \<open>One iteration\<close>

lemma ensure_filter_facts:
  assumes "ensure_filter opts st l = (r, l1)"
  shows "sl_deliveries l1 = sl_deliveries l" "ss_next_batch (sl_state l1) = ss_next_batch (sl_state l)"
    "ss_bootstrap_done (sl_state l1) = ss_bootstrap_done (sl_state l)" "sl_poison l1 = sl_poison l"
    "sl_count l1 = sl_count l" "sl_backoff l1 = sl_backoff l" "sl_sleeps l1 = sl_sleeps l"
    "sl_stopped l1 = sl_stopped l" "sl_fatal l1 = sl_fatal l"
  using assms
  by (auto simp: ensure_filter_def Let_def case_prod_beta split: if_splits sum.splits sync_error.splits)

lemma advance_facts:
  assumes "advance opts next st l = (r, l1)"
  shows "sl_deliveries l1 = sl_deliveries l" "ss_next_batch (sl_state l1) = Some next"
    "ss_bootstrap_done (sl_state l1)" "sl_poison l1 = sl_poison l"
    "sl_count l1 = sl_count l" "sl_backoff l1 = sl_backoff l \<or> sl_backoff l1 = so_backoffMinMs opts"
    "sl_sleeps l1 = sl_sleeps l" "sl_stopped l1 = sl_stopped l" "sl_fatal l1 = sl_fatal l"
  using assms by (auto simp: advance_def Let_def case_prod_beta split: sum.splits)

lemma sync_round_steps:
  assumes "sync_round opts st l = (r, l1)" and f: "ensure_filter opts st l = (rf, lf)"
  obtains "l1 = lf" "r \<noteq> RoundOk"
    | b rd ld where "deliver (needs_bootstrap l) b st lf = (rd, ld)"
        "(\<exists>e. rd = Inl e) \<longrightarrow> l1 = ld \<and> r \<noteq> RoundOk"
        "(\<exists>u. rd = Inr u) \<longrightarrow> (\<exists>ra la. advance opts b st ld = (ra, la) \<and> l1 = la)"
proof -
  have need: "(ss_next_batch (sl_state l) = None \<or> \<not> ss_bootstrap_done (sl_state l)) = needs_bootstrap l"
    by (simp add: needs_bootstrap_def)
  note unfold = assms(1) [unfolded sync_round_def Let_def need f]
  show thesis
  proof (cases rf)
    case (Inl e)
    then show thesis using unfold that(1) by auto
  next
    case rf: (Inr u)
    show thesis
    proof (cases "sy_response st")
      case (Inl e)
      then show thesis using rf unfold that(1) by auto
    next
      case resp: (Inr nb)
      show thesis
      proof (cases "sy_stopAfter st \<or> nonempty nb = None")
        case True
        then show thesis using rf resp unfold that(1) by (auto split: if_splits)
      next
        case False
        then obtain b where b: "nonempty nb = Some b" "\<not> sy_stopAfter st" by auto
        obtain rd ld where d: "deliver (needs_bootstrap l) b st lf = (rd, ld)" by fastforce
        obtain ra la where ad: "advance opts b st ld = (ra, la)" by fastforce
        show thesis
          using rf resp b unfold d ad by (cases rd; cases ra) (auto intro: that(2) [OF d])
      qed
    qed
  qed
qed

text \<open>
  A round hands over nothing, or one batch that fails, or one that is done or skipped; the
  position moves in the last case only.
\<close>

lemma sync_round_cases:
  assumes "sync_round opts st l = (r, l1)"
  obtains (quiet) "sl_deliveries l1 = sl_deliveries l" "ss_next_batch (sl_state l1) = ss_next_batch (sl_state l)"
      "ss_bootstrap_done (sl_state l1) = ss_bootstrap_done (sl_state l)" "sl_poison l1 = sl_poison l"
      "sl_count l1 = sl_count l" "r \<noteq> RoundOk"
    | (failed) d where "sl_deliveries l1 = sl_deliveries l @ [d]" "dl_end d = Failed"
      "dl_since d = ss_next_batch (sl_state l)" "dl_bootstrap d = needs_bootstrap l"
      "ss_next_batch (sl_state l1) = ss_next_batch (sl_state l)"
      "ss_bootstrap_done (sl_state l1) = ss_bootstrap_done (sl_state l)"
      "sl_poison l1 = Some (batch_key (sl_state l))"
      "sl_count l1 = (if sl_poison l = Some (batch_key (sl_state l)) then sl_count l + 1 else 1)"
      "sl_count l1 \<le> MAX_POISON_RETRIES" "r \<noteq> RoundOk"
    | (completed) d where "sl_deliveries l1 = sl_deliveries l @ [d]" "completed d"
      "dl_since d = ss_next_batch (sl_state l)" "dl_bootstrap d = needs_bootstrap l"
      "ss_next_batch (sl_state l1) = Some (dl_next d)" "ss_bootstrap_done (sl_state l1)"
      "sl_poison l1 = None" "sl_count l1 = 0"
      "dl_end d = Skipped \<Longrightarrow> MAX_POISON_RETRIES <
        (if sl_poison l = Some (batch_key (sl_state l)) then sl_count l + 1 else 1)"
proof -
  obtain rf lf where f: "ensure_filter opts st l = (rf, lf)" by fastforce
  note ff = ensure_filter_facts [OF f]
  have key: "batch_key (sl_state lf) = batch_key (sl_state l)" using ff(2) by (simp add: batch_key_def)
  from assms f show thesis
  proof (cases rule: sync_round_steps)
    case 1
    then show thesis using ff by (intro quiet) simp_all
  next
    case (2 b rd ld)
    let ?d = "\<lparr>dl_since = ss_next_batch (sl_state lf), dl_next = b, dl_bootstrap = needs_bootstrap l, dl_end = Done\<rparr>"
    let ?count = "if sl_poison lf = Some (batch_key (sl_state lf)) then sl_count lf + 1 else 1"
    consider (ok) "sy_handler st = Inr ()" "rd = Inr ()"
        "ld = lf\<lparr>sl_poison := None, sl_count := 0, sl_deliveries := sl_deliveries lf @ [?d]\<rparr>"
      | (bad) e where "rd = Inl e" "?count \<le> MAX_POISON_RETRIES"
        "ld = lf\<lparr>sl_poison := Some (batch_key (sl_state lf)), sl_count := ?count,
                 sl_deliveries := sl_deliveries lf @ [?d\<lparr>dl_end := Failed\<rparr>]\<rparr>"
      | (skip) "rd = Inr ()" "MAX_POISON_RETRIES < ?count"
        "ld = lf\<lparr>sl_poison := None, sl_count := 0, sl_deliveries := sl_deliveries lf @ [?d\<lparr>dl_end := Skipped\<rparr>]\<rparr>"
    proof (cases "sy_handler st")
      case (Inr u)
      with 2(1) [symmetric] have "rd = Inr ()" "ld = lf\<lparr>sl_poison := None, sl_count := 0, sl_deliveries := sl_deliveries lf @ [?d]\<rparr>"
        by (simp_all add: deliver_def Let_def)
      with Inr show thesis by (intro that(1)) simp_all
    next
      case (Inl e)
      show thesis
      proof (cases "?count \<le> MAX_POISON_RETRIES")
        case True
        with 2(1) [symmetric] Inl have "rd = Inl e" "ld = lf\<lparr>sl_poison := Some (batch_key (sl_state lf)), sl_count := ?count,
            sl_deliveries := sl_deliveries lf @ [?d\<lparr>dl_end := Failed\<rparr>]\<rparr>"
          by (simp_all only: deliver_def Let_def sum.case if_True prod.inject simp_thms)
        with True show thesis by (intro that(2))
      next
        case False
        with 2(1) [symmetric] Inl have "rd = Inr ()" "ld = lf\<lparr>sl_poison := None, sl_count := 0,
            sl_deliveries := sl_deliveries lf @ [?d\<lparr>dl_end := Skipped\<rparr>]\<rparr>"
          by (simp_all only: deliver_def Let_def sum.case if_False prod.inject simp_thms)
        with False show thesis by (intro that(3)) (simp_all add: not_le)
      qed
    qed
    then show thesis
    proof cases
      case ok
      then obtain ra where "advance opts b st ld = (ra, l1)" using 2 by auto
      note af = advance_facts [OF this]
      show thesis using ff af ok by (intro completed [of ?d]) simp_all
    next
      case bad
      then have "l1 = ld" "r \<noteq> RoundOk" using 2 by auto
      then show thesis using ff bad key by (intro failed [of "?d\<lparr>dl_end := Failed\<rparr>"]) simp_all
    next
      case skip
      then obtain ra where "advance opts b st ld = (ra, l1)" using 2 by auto
      note af = advance_facts [OF this]
      show thesis using ff af skip key by (intro completed [of "?d\<lparr>dl_end := Skipped\<rparr>"]) (simp_all split: if_splits)
    qed
  qed
qed

section \<open>Every run\<close>

definition run_inv :: "string option \<Rightarrow> bool \<Rightarrow> sync_loop \<Rightarrow> bool" where
  "run_inv p0 need0 l \<longleftrightarrow>
     (let ds = sl_deliveries l
      in chained p0 ds \<and> ss_next_batch (sl_state l) = position p0 ds \<and>
         boots need0 ds \<and> needs_bootstrap l = (need0 \<and> \<not> list_ex completed ds) \<and>
         poison_ok 0 ds \<and> sl_count l = trailing 0 ds \<and> sl_count l \<le> MAX_POISON_RETRIES \<and>
         sl_poison l = (if trailing 0 ds = 0 then None else Some (batch_key (sl_state l))))"

lemma run_inv_round:
  assumes "run_inv p0 need0 l" and "sync_round opts st l = (r, l1)"
  shows "run_inv p0 need0 l1"
  using assms(2)
proof (cases rule: sync_round_cases)
  case quiet
  have "batch_key (sl_state l1) = batch_key (sl_state l)" and "needs_bootstrap l1 = needs_bootstrap l"
    using quiet(2,3) by (simp_all add: batch_key_def needs_bootstrap_def)
  with quiet assms(1) show ?thesis by (simp add: run_inv_def Let_def)
next
  case (failed d)
  have key: "batch_key (sl_state l1) = batch_key (sl_state l)" using failed(5) by (simp add: batch_key_def)
  have need: "needs_bootstrap l1 = needs_bootstrap l" using failed(5,6) by (simp add: needs_bootstrap_def)
  have count: "sl_count l1 = Suc (trailing 0 (sl_deliveries l))"
    using failed(8) assms(1) by (simp add: run_inv_def Let_def split: if_splits)
  then have "trailing 0 (sl_deliveries l) < MAX_POISON_RETRIES" using failed(9) by simp
  then show ?thesis
    using assms(1) failed count key need by (simp add: run_inv_def Let_def)
next
  case (completed d)
  have count: "MAX_POISON_RETRIES < Suc (trailing 0 (sl_deliveries l))" if "dl_end d = Skipped"
    using completed(9) [OF that] assms(1) by (simp add: run_inv_def Let_def MAX_POISON_RETRIES_def split: if_splits)
  have "trailing 0 (sl_deliveries l) \<le> MAX_POISON_RETRIES"
    using assms(1) by (simp add: run_inv_def Let_def)
  with count have "dl_end d = Skipped \<Longrightarrow> trailing 0 (sl_deliveries l) = MAX_POISON_RETRIES"
    by simp
  then have "poison_ok (trailing 0 (sl_deliveries l)) [d]"
    using completed(2) by (cases "dl_end d") (auto simp: completed_def)
  moreover have "\<not> needs_bootstrap l1" using completed(5,6) by (simp add: needs_bootstrap_def)
  ultimately show ?thesis
    using assms(1) completed by (simp add: run_inv_def Let_def)
qed

lemma needs_bootstrap_update [simp]:
  "needs_bootstrap (l\<lparr>sl_stopped := b\<rparr>) = needs_bootstrap l" "needs_bootstrap (l\<lparr>sl_fatal := f\<rparr>) = needs_bootstrap l"
  "needs_bootstrap (l\<lparr>sl_sleeps := ss\<rparr>) = needs_bootstrap l" "needs_bootstrap (l\<lparr>sl_backoff := bo\<rparr>) = needs_bootstrap l"
  by (simp_all add: needs_bootstrap_def)

lemma run_inv_iter:
  assumes "run_inv p0 need0 l"
  shows "run_inv p0 need0 (sync_iter opts st l)"
proof -
  obtain r l1 where rd: "sync_round opts st l = (r, l1)" by fastforce
  have upd: "run_inv p0 need0 (l1\<lparr>sl_stopped := b\<rparr>)" "run_inv p0 need0 (l1\<lparr>sl_stopped := b, sl_fatal := f\<rparr>)"
    "run_inv p0 need0 (l1\<lparr>sl_sleeps := ss, sl_backoff := bo\<rparr>)" for b f ss bo
    using run_inv_round [OF assms rd] by (simp_all add: run_inv_def Let_def)
  then show ?thesis
    using assms run_inv_round [OF assms rd] by (simp add: sync_iter_def rd split: round_end.split)
qed

lemma run_inv_run: "run_inv p0 need0 l \<Longrightarrow> run_inv p0 need0 (sync_run opts steps l)"
  unfolding sync_run_def by (induction steps arbitrary: l) (simp_all add: run_inv_iter)

lemma run_inv_start: "run_inv (ss_next_batch (sl_state (sl_start opts fs))) (needs_bootstrap (sl_start opts fs)) (sl_start opts fs)"
  by (simp add: run_inv_def sl_start_def Let_def)

text \<open>What the sync file says.\<close>

definition file_position :: "sync_options \<Rightarrow> file_system \<Rightarrow> string option" where
  "file_position opts fs = readString (readJsonSafe fs (so_file opts)) ''next_batch''"

lemma file_position_save:
  assumes "tmp \<noteq> so_file opts"
  shows "file_position opts (snd (saveSyncState (so_file opts) tmp outcome s fs)) =
    (if outcome = WriteOk then ss_next_batch s else file_position opts fs)"
  using assms
  by (simp add: file_position_def saveSyncState_def readJsonSafe_def writeJsonAtomic_target state_json_def str_field_def
      readString_def isPlainObject_def json_prop_def split: option.splits)

definition file_inv :: "sync_options \<Rightarrow> string option \<Rightarrow> string option set \<Rightarrow> sync_loop \<Rightarrow> bool" where
  "file_inv opts p0 old l \<longleftrightarrow>
     file_position opts (sl_fs l) \<in> old \<union> {p0} \<union> {Some (dl_next d) | d. d \<in> set (sl_deliveries l) \<and> completed d}"

lemma position_cases:
  "position p ds \<in> {p} \<union> {Some (dl_next d) | d. d \<in> set ds \<and> completed d}"
proof (induction ds arbitrary: p)
  case (Cons d ds)
  show ?case using Cons.IH [of "if completed d then Some (dl_next d) else p"] by auto
qed simp

lemma file_inv_round:
  assumes "file_inv opts p0 old l" and "run_inv p0 need0 l" and "sync_round opts st l = (r, l1)"
    and "sy_tmp st \<noteq> so_file opts"
  shows "file_inv opts p0 old l1"
proof -
  define done_at where "done_at l = {Some (dl_next d) | d. d \<in> set (sl_deliveries l) \<and> completed d}" for l :: sync_loop
  have pos: "ss_next_batch (sl_state l) \<in> {p0} \<union> done_at l"
    using assms(2) position_cases by (simp add: run_inv_def Let_def done_at_def)
  have mono: "done_at l \<subseteq> done_at l1"
    using assms(3) by (cases rule: sync_round_cases) (auto simp: done_at_def)
  have pos1: "ss_next_batch (sl_state l1) \<in> {p0} \<union> done_at l1"
    using run_inv_round [OF assms(2,3)] position_cases by (simp add: run_inv_def Let_def done_at_def)
  obtain rf lf where f: "ensure_filter opts st l = (rf, lf)" by fastforce
  have file_f: "file_position opts (sl_fs lf) \<in> {file_position opts (sl_fs l), ss_next_batch (sl_state l)}"
    using f file_position_save [OF assms(4)]
    by (auto simp: ensure_filter_def Let_def case_prod_beta split: if_splits sum.splits sync_error.splits)
  have file_a: "file_position opts (sl_fs la) \<in> {file_position opts (sl_fs ld), ss_next_batch (sl_state la)}"
    if "advance opts b st ld = (ra, la)" for b ld ra la
    using that file_position_save [OF assms(4)]
    by (auto simp: advance_def Let_def case_prod_beta split: sum.splits)
  have file_d: "sl_fs ld = sl_fs lf" if "deliver need b st lf = (rd, ld)" for need b rd ld
    using that by (auto simp: deliver_def Let_def split: sum.splits if_splits)
  have "file_position opts (sl_fs l1) \<in>
      {file_position opts (sl_fs l), ss_next_batch (sl_state l), ss_next_batch (sl_state l1)}"
    using assms(3) f
  proof (cases rule: sync_round_steps)
    case 1
    then show ?thesis using file_f by auto
  next
    case (2 b rd ld)
    show ?thesis
    proof (cases rd)
      case (Inl e)
      then show ?thesis using 2 file_f file_d [OF 2(1)] by auto
    next
      case (Inr u)
      then obtain ra where "advance opts b st ld = (ra, l1)" using 2 by auto
      from file_a [OF this] file_d [OF 2(1)] file_f show ?thesis by auto
    qed
  qed
  moreover have "file_position opts (sl_fs l) \<in> old \<union> {p0} \<union> done_at l"
    using assms(1) by (simp add: file_inv_def done_at_def)
  ultimately have "file_position opts (sl_fs l1) \<in> old \<union> {p0} \<union> done_at l1"
    using pos pos1 mono by auto
  then show ?thesis by (simp add: file_inv_def done_at_def)
qed

lemma file_inv_run:
  assumes "file_inv opts p0 old l" and "run_inv p0 need0 l" and "\<forall>st \<in> set steps. sy_tmp st \<noteq> so_file opts"
  shows "file_inv opts p0 old (sync_run opts steps l)"
  using assms
proof (induction steps arbitrary: l)
  case Nil
  then show ?case by (simp add: sync_run_def)
next
  case (Cons st steps)
  obtain r l1 where rd: "sync_round opts st l = (r, l1)" by fastforce
  have "file_inv opts p0 old l1"
    using file_inv_round [OF Cons.prems(1,2) rd] Cons.prems(3) by simp
  then have upd: "file_inv opts p0 old (l1\<lparr>sl_stopped := b\<rparr>)" "file_inv opts p0 old (l1\<lparr>sl_stopped := b, sl_fatal := f\<rparr>)"
    "file_inv opts p0 old (l1\<lparr>sl_sleeps := ss, sl_backoff := bo\<rparr>)" "file_inv opts p0 old l1" for b f ss bo
    by (simp_all add: file_inv_def)
  have "file_inv opts p0 old (sync_iter opts st l)"
    using upd Cons.prems(1) by (simp add: sync_iter_def rd split: round_end.split)
  from Cons.IH [OF this run_inv_iter [OF Cons.prems(2)]] Cons.prems(3) show ?case
    by (simp add: sync_run_def)
qed

text \<open>The back-off.\<close>

definition backoff_inv :: "sync_options \<Rightarrow> sync_loop \<Rightarrow> bool" where
  "backoff_inv opts l \<longleftrightarrow>
     so_backoffMinMs opts \<le> sl_backoff l \<and> sl_backoff l \<le> so_backoffMaxMs opts \<and>
     (\<forall>d \<in> set (sl_sleeps l). so_backoffMinMs opts \<le> d \<and> d \<le> so_backoffMaxMs opts)"

lemma backoff_round:
  assumes "sync_round opts st l = (r, l1)"
  shows "sl_backoff l1 \<in> {sl_backoff l, so_backoffMinMs opts} \<and> sl_sleeps l1 = sl_sleeps l \<and> sl_stopped l1 = sl_stopped l \<and>
    sl_fatal l1 = sl_fatal l"
proof -
  obtain rf lf where f: "ensure_filter opts st l = (rf, lf)" by fastforce
  note ff = ensure_filter_facts [OF f]
  have d: "sl_backoff ld = sl_backoff lf \<and> sl_sleeps ld = sl_sleeps lf \<and> sl_stopped ld = sl_stopped lf \<and> sl_fatal ld = sl_fatal lf"
    if "deliver need b st lf = (rd, ld)" for need b rd ld
    using that by (auto simp: deliver_def Let_def split: sum.splits if_splits)
  from assms f show ?thesis
  proof (cases rule: sync_round_steps)
    case 1
    then show ?thesis using ff by simp
  next
    case (2 b rd ld)
    show ?thesis
    proof (cases rd)
      case (Inl e)
      then show ?thesis using 2 ff d [OF 2(1)] by auto
    next
      case (Inr u)
      then obtain ra where "advance opts b st ld = (ra, l1)" using 2 by auto
      from advance_facts [OF this] d [OF 2(1)] ff show ?thesis by auto
    qed
  qed
qed

lemma backoff_iter:
  assumes "backoff_inv opts l" and "so_backoffMinMs opts \<le> so_backoffMaxMs opts"
  shows "backoff_inv opts (sync_iter opts st l)"
proof -
  obtain r l1 where rd: "sync_round opts st l = (r, l1)" by fastforce
  from backoff_round [OF rd] assms have "backoff_inv opts l1"
    by (auto simp: backoff_inv_def)
  then show ?thesis
    using assms by (auto simp: sync_iter_def rd backoff_inv_def clamp_def split: round_end.split)
qed

section \<open>Properties\<close>

definition demo_sync :: sync_options where
  "demo_sync = so_new ''d'' ''@bot:hs'' None None None None"

text \<open>
  In every run from a start, each batch is asked from the position of the last
  batch that \<open>onSync\<close> completed (or that was skipped), and batches are marked bootstrap
  exactly until the first of them is completed: no batch is passed over, and no event of a
  cold start reaches the handlers as a live one.
\<close>

theorem sync_deliveries_chained:
  "let l0 = sl_start opts fs; ds = sl_deliveries (sync_run opts steps l0)
   in chained (ss_next_batch (sl_state l0)) ds \<and> boots (needs_bootstrap l0) ds \<and>
      ss_next_batch (sl_state (sync_run opts steps l0)) = position (ss_next_batch (sl_state l0)) ds"
  using run_inv_run [OF run_inv_start [of opts fs], of opts steps] by (simp add: run_inv_def Let_def)

text \<open>
  A batch that breaks \<open>onSync\<close> never stalls the loop: the same position fails at
  most three times in a row, the fourth failure skips the batch, and nothing is skipped
  before.
\<close>

theorem sync_poison_skipped: "poison_ok 0 (sl_deliveries (sync_run opts steps (sl_start opts fs)))"
  using run_inv_run [OF run_inv_start [of opts fs], of opts steps] by (simp add: run_inv_def Let_def)

text \<open>
  C37 (safety). At any point of a run the sync file holds the position it had at the start, the
  position the run started from, or that of a batch whose handling is over: a crash never
  loses a batch, it can only replay some.
\<close>

theorem sync_file_never_ahead:
  assumes "\<forall>st \<in> set steps. sy_tmp st \<noteq> so_file opts"
  shows "let l0 = sl_start opts fs; l = sync_run opts steps l0
    in file_position opts (sl_fs l) \<in> {file_position opts fs} \<union> {ss_next_batch (sl_state l0)} \<union>
       {Some (dl_next d) | d. d \<in> set (sl_deliveries l) \<and> dl_end d \<noteq> Failed}"
proof -
  let ?l0 = "sl_start opts fs"
  have "file_inv opts (ss_next_batch (sl_state ?l0)) {file_position opts fs} ?l0"
    by (simp add: file_inv_def sl_start_def)
  from file_inv_run [OF this run_inv_start assms] show ?thesis
    by (simp add: file_inv_def completed_def Let_def)
qed

definition demo_round :: "(sync_error + unit) \<Rightarrow> sync_step" where
  "demo_round r = \<lparr>sy_upload = Inr ''f1'', sy_tmp = ''d/.sync.tmp'', sy_save1 = WriteOk, sy_response = Inr (Some ''s1''),
     sy_stopAfter = False, sy_handler = r, sy_save2 = WriteOk, sy_stopAtError = False, sy_now = 5\<rparr>"

theorem sync_file_never_ahead_witness:
  "file_position demo_sync (sl_fs (sync_run demo_sync [demo_round (Inl (OtherError ''x''))] (sl_start demo_sync (\<lambda>_. None))))
     \<in> {None} \<union> {Some (dl_next d) | d. d \<in> set (sl_deliveries
          (sync_run demo_sync [demo_round (Inl (OtherError ''x''))] (sl_start demo_sync (\<lambda>_. None)))) \<and> dl_end d \<noteq> Failed}"
proof -
  have "file_position demo_sync (\<lambda>_. None) = None"
    by (simp add: file_position_def readJsonSafe_def readString_def isPlainObject_def)
  moreover have "ss_next_batch (sl_state (sl_start demo_sync (\<lambda>_. None))) = None"
    by (simp add: sl_start_def loadSyncState_def readJsonSafe_def js_falsy_def empty_state_def)
  moreover have pre: "\<forall>st \<in> set [demo_round (Inl (OtherError ''x''))]. sy_tmp st \<noteq> so_file demo_sync"
    by (simp add: demo_round_def demo_sync_def so_new_def)
  ultimately show ?thesis
    using sync_file_never_ahead [OF pre, of "\<lambda>_. None"] by (simp only: Let_def Un_absorb)
qed

text \<open>
  The back-off after an error stays between the configured bounds, whatever the
  loop meets.
\<close>

theorem sync_backoff_bounded:
  "let opts = so_new path user timeoutMs presence minMs maxMs; l = sync_run opts steps (sl_start opts fs)
   in list_all (\<lambda>d. so_backoffMinMs opts \<le> d \<and> d \<le> so_backoffMaxMs opts) (sl_sleeps l)"
proof -
  let ?opts = "so_new path user timeoutMs presence minMs maxMs"
  have le: "so_backoffMinMs ?opts \<le> so_backoffMaxMs ?opts"
    by (simp add: so_new_def Let_def)
  have run: "backoff_inv ?opts (sync_run ?opts steps l)" if "backoff_inv ?opts l" for l
    using that unfolding sync_run_def by (induction steps arbitrary: l) (simp_all add: backoff_iter le)
  have "backoff_inv ?opts (sl_start ?opts fs)"
    using le by (simp add: backoff_inv_def sl_start_def)
  from run [OF this] show ?thesis by (simp add: backoff_inv_def list_all_iff Let_def)
qed

text \<open>
  A sync state that is saved is loaded back for the same user with the same
  position, bootstrap mark and filter, and another user never gets its position.
\<close>

theorem sync_state_roundtrip:
  assumes "tmp \<noteq> file" and "ss_user_id s = Some u" and "u \<noteq> []" and "ss_filter_id s \<noteq> Some []"
  shows "loadSyncState (snd (saveSyncState file tmp WriteOk s fs)) file (Some u) = s \<and>
    (v \<noteq> [] \<and> v \<noteq> u \<longrightarrow>
       ss_next_batch (loadSyncState (snd (saveSyncState file tmp WriteOk s fs)) file (Some v)) = None)"
proof -
  have raw: "readJsonSafe (snd (saveSyncState file tmp WriteOk s fs)) file = state_json s"
    using assms(1)
    by (simp add: saveSyncState_def readJsonSafe_after_write state_json_def str_field_def split: option.split)
  obtain nb fid fk bd where s: "s = \<lparr>ss_next_batch = nb, ss_filter_id = fid, ss_filter_kind = fk, ss_bootstrap_done = bd,
      ss_user_id = Some u\<rparr>"
    using assms(2) by (cases s) auto
  note unfold = s state_json_def str_field_def readString_def isPlainObject_def json_prop_def
  have kind: "kind_of_name (Some (kind_name k)) = Some k" for k
    by (cases k) (simp_all add: kind_of_name_def)
  have props: "readString (state_json s) ''user_id'' = Some u" "readString (state_json s) ''next_batch'' = ss_next_batch s"
    "readString (state_json s) ''filter_id'' = ss_filter_id s"
    "kind_of_name (readString (state_json s) ''filter_kind'') = ss_filter_kind s"
    "(json_prop (state_json s) ''bootstrap_done'' = Some (JBool True)) = ss_bootstrap_done s"
    by (cases nb; cases fid; cases fk; simp add: unfold kind; simp add: kind_of_name_def)+
  have truthy: "\<not> js_falsy (state_json s)" by (simp add: js_falsy_def state_json_def)
  show ?thesis
    using assms(2-4) unfolding loadSyncState_def raw Let_def props
    by (simp add: props truthy nonempty_def empty_state_def)
qed

theorem sync_state_roundtrip_witness:
  "loadSyncState (snd (saveSyncState ''f'' ''t'' WriteOk (empty_state\<lparr>ss_next_batch := Some ''s7'', ss_user_id := Some ''@u''\<rparr>)
     (\<lambda>_. None))) ''f'' (Some ''@u'') = empty_state\<lparr>ss_next_batch := Some ''s7'', ss_user_id := Some ''@u''\<rparr>"
  by (rule sync_state_roundtrip [THEN conjunct1]) (simp_all add: empty_state_def)

text \<open>
  An \<open>AbortError\<close> that \<open>onSync\<close> throws, for instance from an aborted request of
  the client's own, ends the loop although nobody stopped it, without a fatal error and
  without the poison rule.
\<close>

theorem sync_handler_abort_ends_loop:
  assumes "\<not> sl_stopped l" and "ss_filter_id (sl_state l) = Some (c # cs)" and "ss_filter_kind (sl_state l) = Some FilterRuntime"
    and "sy_response st = Inr (Some (b # bs))" and "\<not> sy_stopAfter st" and "\<not> sy_stopAtError st"
    and "sy_handler st = Inl Aborted" and "sl_count l < MAX_POISON_RETRIES"
  shows "sl_stopped (sync_iter opts st l) \<and> sl_fatal (sync_iter opts st l) = sl_fatal l"
proof -
  have "ensure_filter opts st l = (Inr (), l)"
    using assms(2,3) by (simp add: ensure_filter_def truthy_str_def)
  moreover have count: "(if sl_poison l = Some (batch_key (sl_state l)) then sl_count l + 1 else 1) \<le> MAX_POISON_RETRIES"
    using assms(8) by (simp add: MAX_POISON_RETRIES_def)
  obtain l2 where "deliver (needs_bootstrap l) (b # bs) st l = (Inl Aborted, l2)" "sl_fatal l2 = sl_fatal l"
    unfolding deliver_def Let_def assms(7) sum.case if_P [OF count] by simp
  ultimately have "sync_round opts st l = (RoundError Aborted, l2)" "sl_fatal l2 = sl_fatal l"
    using assms(4,5) by (simp_all add: sync_round_def Let_def nonempty_def needs_bootstrap_def)
  then show ?thesis
    using assms(1,6) by (simp add: sync_iter_def)
qed

theorem sync_handler_abort_ends_loop_witness:
  "sl_stopped (sync_iter demo_sync (demo_round (Inl Aborted))
     (sync_iter demo_sync (demo_round (Inr ())) (sl_start demo_sync (\<lambda>_. None))))"
proof (rule sync_handler_abort_ends_loop [THEN conjunct1])
qed (simp_all add: demo_round_def demo_sync_def so_new_def sl_start_def loadSyncState_def readJsonSafe_def js_falsy_def
    empty_state_def sync_iter_def sync_round_def ensure_filter_def truthy_str_def saveSyncState_def writeJsonAtomic_def
    nonempty_def deliver_def advance_def MAX_POISON_RETRIES_def Let_def)

end
