(* ===== verification/Outbox.thy ===== *)
theory Outbox
  imports Js_Util
begin

text \<open>
  \<^verbatim>\<open>src/outbox.ts\<close>: the file-backed outbox of pending sends and the flush that drains it.
  The interface of a store is the locale \<open>outbox_store\<close>; the file store is its
  interpretation. What the homeserver answers, and what is enqueued while a send is under
  way, is the environment of a flush.
\<close>

section \<open>Entries and the file store\<close>

record entry =
  en_id :: string
  en_roomId :: string
  en_eventType :: string
  en_content :: json
  en_txnId :: "string option"
  en_stateKey :: "string option"
  en_createdAtMs :: int
  en_attempts :: int
  en_lastError :: "string option"

text \<open>The file: absent or unreadable, without a list of entries, or the entries.\<close>

datatype outbox_file = NoFile | OtherJson | Entries "entry list"

definition ob_read :: "outbox_file \<Rightarrow> entry list" where
  "ob_read f = (case f of Entries es \<Rightarrow> es | _ \<Rightarrow> [])"

definition ob_write :: "entry list \<Rightarrow> outbox_file" where
  "ob_write es = Entries es"

definition ob_enqueue :: "string \<Rightarrow> int \<Rightarrow> entry \<Rightarrow> outbox_file \<Rightarrow> entry \<times> outbox_file" where
  "ob_enqueue fresh now e f =
     (let full = e\<lparr>en_id := fresh, en_createdAtMs := now, en_attempts := 0\<rparr>
      in (full, ob_write (ob_read f @ [full])))"

definition ob_remove :: "string \<Rightarrow> outbox_file \<Rightarrow> outbox_file" where
  "ob_remove i f = ob_write (filter (\<lambda>e. en_id e \<noteq> i) (ob_read f))"

definition bump :: "string \<Rightarrow> entry \<Rightarrow> entry" where
  "bump err e =
     (let e1 = e\<lparr>en_attempts := en_attempts e + 1\<rparr>
      in if err = [] then e1 else e1\<lparr>en_lastError := Some (take 500 err)\<rparr>)"

definition ob_bumpAttempt :: "string \<Rightarrow> string \<Rightarrow> outbox_file \<Rightarrow> outbox_file" where
  "ob_bumpAttempt i err f = ob_write (map (\<lambda>e. if en_id e = i then bump err e else e) (ob_read f))"

text \<open>What a flush relies on: removal and bumping touch the entries with the id, and no other.\<close>

locale outbox_store =
  fixes list :: "'s \<Rightarrow> entry list"
    and remove :: "string \<Rightarrow> 's \<Rightarrow> 's"
    and bumpAttempt :: "string \<Rightarrow> string \<Rightarrow> 's \<Rightarrow> 's"
  assumes list_remove: "list (remove i s) = filter (\<lambda>e. en_id e \<noteq> i) (list s)"
    and list_bump: "list (bumpAttempt i err s) = map (\<lambda>e. if en_id e = i then bump err e else e) (list s)"
begin

lemma remove_other: "e \<in> List.set (list s) \<Longrightarrow> en_id e \<noteq> i \<Longrightarrow> e \<in> List.set (list (remove i s))"
  by (simp add: list_remove)

lemma bump_other: "e \<in> List.set (list s) \<Longrightarrow> en_id e \<noteq> i \<Longrightarrow> e \<in> List.set (list (bumpAttempt i err s))"
  by (force simp: list_bump)

lemma remove_ids: "map en_id (list (remove i s)) = filter (\<lambda>x. x \<noteq> i) (map en_id (list s))"
  by (simp add: list_remove filter_map o_def)

end

interpretation file_outbox: outbox_store ob_read ob_remove ob_bumpAttempt
  by unfold_locales (simp_all add: ob_remove_def ob_bumpAttempt_def ob_write_def ob_read_def)

section \<open>flushOutbox\<close>

text \<open>
  Of one entry: what is enqueued while its send is awaited (entries with fresh ids), and
  the answer, an error message or the event id.
\<close>

type_synonym send_env = "string \<Rightarrow> entry list \<times> (string, string) sum"

record flush_state =
  fl_file :: outbox_file
  fl_sent :: nat
  fl_dropped :: nat
  fl_sends :: "string list"

text \<open>\<open>fl_sends\<close> is a ghost: the ids handed to \<open>send\<close>, in order.\<close>

definition flush_entry :: "int \<Rightarrow> send_env \<Rightarrow> entry \<Rightarrow> flush_state \<Rightarrow> flush_state" where
  "flush_entry maxAttempts env e st =
     (if maxAttempts \<le> en_attempts e then
        st\<lparr>fl_file := ob_remove (en_id e) (fl_file st), fl_dropped := fl_dropped st + 1\<rparr>
      else
        (let (arrived, answer) = env (en_id e);
             st1 = st\<lparr>fl_file := ob_write (ob_read (fl_file st) @ arrived), fl_sends := fl_sends st @ [en_id e]\<rparr>
         in case answer of
              Inr _ \<Rightarrow> st1\<lparr>fl_file := ob_remove (en_id e) (fl_file st1), fl_sent := fl_sent st1 + 1\<rparr>
            | Inl err \<Rightarrow> st1\<lparr>fl_file := ob_bumpAttempt (en_id e) err (fl_file st1)\<rparr>))"

definition maxAttempts_of :: "int option \<Rightarrow> int" where
  "maxAttempts_of m = max 1 (case m of Some n \<Rightarrow> n | None \<Rightarrow> 8)"

definition flushOutbox :: "int option \<Rightarrow> send_env \<Rightarrow> outbox_file \<Rightarrow> flush_state" where
  "flushOutbox m env f =
     fold (flush_entry (maxAttempts_of m) env) (ob_read f)
       \<lparr>fl_file = f, fl_sent = 0, fl_dropped = 0, fl_sends = []\<rparr>"

text \<open>The specification: what becomes of one entry, and what arrives while it is sent.\<close>

definition after_flush :: "int \<Rightarrow> send_env \<Rightarrow> entry \<Rightarrow> entry list" where
  "after_flush maxAttempts env e =
     (if maxAttempts \<le> en_attempts e then []
      else case snd (env (en_id e)) of Inr _ \<Rightarrow> [] | Inl err \<Rightarrow> [bump err e])"

definition arrivals :: "int \<Rightarrow> send_env \<Rightarrow> entry \<Rightarrow> entry list" where
  "arrivals maxAttempts env e = (if maxAttempts \<le> en_attempts e then [] else fst (env (en_id e)))"

definition counts :: "('a \<Rightarrow> bool) \<Rightarrow> 'a list \<Rightarrow> nat" where
  "counts P xs = length (filter P xs)"

lemma bump_id [simp]: "en_id (bump err e) = en_id e"
  by (simp add: bump_def Let_def)

lemma ob_read_simps [simp]:
  "ob_read (ob_write es) = es"
  "ob_read (ob_remove i f) = filter (\<lambda>e. en_id e \<noteq> i) (ob_read f)"
  "ob_read (ob_bumpAttempt i err f) = map (\<lambda>e. if en_id e = i then bump err e else e) (ob_read f)"
  by (simp_all add: ob_write_def ob_read_def ob_remove_def ob_bumpAttempt_def)

lemma filter_other_id: "i \<notin> en_id ` set es \<Longrightarrow> filter (\<lambda>e. en_id e \<noteq> i) es = es"
  by (rule filter_True) auto

lemma map_other_id: "i \<notin> en_id ` set es \<Longrightarrow> map (\<lambda>e. if en_id e = i then bump err e else e) es = es"
  by (rule map_idI) auto

text \<open>One entry, first in what is left of the snapshot.\<close>

lemma flush_entry_step:
  assumes "ob_read (fl_file st) = done @ e # todo @ new"
    and "en_id e \<notin> en_id ` set (done @ todo @ new)" and "en_id e \<notin> en_id ` set (arrivals m env e)"
  shows "ob_read (fl_file (flush_entry m env e st)) =
      (done @ after_flush m env e) @ todo @ (new @ arrivals m env e)"
    and "fl_sent (flush_entry m env e st) = fl_sent st +
      (if en_attempts e < m \<and> \<not> isl (snd (env (en_id e))) then 1 else 0)"
    and "fl_dropped (flush_entry m env e st) = fl_dropped st + (if en_attempts e < m then 0 else 1)"
    and "fl_sends (flush_entry m env e st) = fl_sends st @ (if en_attempts e < m then [en_id e] else [])"
proof -
  have parts: "en_id e \<notin> en_id ` set done" "en_id e \<notin> en_id ` set todo" "en_id e \<notin> en_id ` set new"
    using assms(2) by auto
  obtain arrived answer where env: "env (en_id e) = (arrived, answer)" by fastforce
  have arr: "en_id e \<notin> en_id ` set arrived" if "\<not> m \<le> en_attempts e"
    using assms(3) that by (simp add: arrivals_def env)
  show "ob_read (fl_file (flush_entry m env e st)) =
      (done @ after_flush m env e) @ todo @ (new @ arrivals m env e)"
    using parts arr
    by (cases answer) (auto simp: flush_entry_def Let_def env assms(1) after_flush_def arrivals_def
        filter_other_id map_other_id)
  show "fl_sent (flush_entry m env e st) = fl_sent st +
      (if en_attempts e < m \<and> \<not> isl (snd (env (en_id e))) then 1 else 0)"
    by (cases answer) (simp_all add: flush_entry_def Let_def env)
  show "fl_dropped (flush_entry m env e st) = fl_dropped st + (if en_attempts e < m then 0 else 1)"
    by (cases answer) (simp_all add: flush_entry_def Let_def env)
  show "fl_sends (flush_entry m env e st) = fl_sends st @ (if en_attempts e < m then [en_id e] else [])"
    by (cases answer) (simp_all add: flush_entry_def Let_def env)
qed

lemma after_flush_ids: "en_id ` set (after_flush m env e) \<subseteq> {en_id e}"
  by (auto simp: after_flush_def split: sum.splits)

lemma flush_fold:
  assumes "ob_read (fl_file st) = done @ todo @ new" and "distinct (map en_id todo)"
    and "en_id ` set (done @ new) \<inter> en_id ` set todo = {}"
    and "\<And>e. e \<in> set todo \<Longrightarrow> en_id ` set (arrivals m env e) \<inter> en_id ` set todo = {}"
  shows "let st' = fold (flush_entry m env) todo st in
    ob_read (fl_file st') = done @ concat (map (after_flush m env) todo) @ new @ concat (map (arrivals m env) todo) \<and>
    fl_sent st' = fl_sent st + counts (\<lambda>e. en_attempts e < m \<and> \<not> isl (snd (env (en_id e)))) todo \<and>
    fl_dropped st' = fl_dropped st + counts (\<lambda>e. \<not> en_attempts e < m) todo \<and>
    fl_sends st' = fl_sends st @ map en_id (filter (\<lambda>e. en_attempts e < m) todo)"
  using assms
proof (induction todo arbitrary: st "done" new)
  case Nil
  then show ?case by (simp add: counts_def)
next
  case (Cons e todo)
  let ?st = "flush_entry m env e st"
  have mine: "en_id e \<notin> en_id ` set (done @ todo @ new)" "en_id e \<notin> en_id ` set (arrivals m env e)"
    using Cons.prems(2,3) Cons.prems(4) [of e] by auto
  note step = flush_entry_step [OF Cons.prems(1) [unfolded append_Cons] mine]
  have "en_id ` set ((done @ after_flush m env e) @ new @ arrivals m env e) \<inter> en_id ` set todo = {}"
    using Cons.prems(2,3) Cons.prems(4) [of e] after_flush_ids [of m env e] by auto
  moreover have "en_id ` set (arrivals m env e') \<inter> en_id ` set todo = {}" if "e' \<in> set todo" for e'
    using Cons.prems(4) [of e'] that by auto
  ultimately have "let st' = fold (flush_entry m env) todo ?st in
    ob_read (fl_file st') = (done @ after_flush m env e) @ concat (map (after_flush m env) todo) @
      (new @ arrivals m env e) @ concat (map (arrivals m env) todo) \<and>
    fl_sent st' = fl_sent ?st + counts (\<lambda>e. en_attempts e < m \<and> \<not> isl (snd (env (en_id e)))) todo \<and>
    fl_dropped st' = fl_dropped ?st + counts (\<lambda>e. \<not> en_attempts e < m) todo \<and>
    fl_sends st' = fl_sends ?st @ map en_id (filter (\<lambda>e. en_attempts e < m) todo)"
    using Cons.prems(2) by (intro Cons.IH [OF step(1)]) simp_all
  then show ?case by (simp add: Let_def step(2-4) counts_def)
qed

text \<open>
  C30 (refinement). A flush does to the outbox what its specification says: each entry that
  was pending is tried at most once, in order; one that was sent or had used up its
  attempts is gone, one that failed stays with one more attempt, and what was enqueued
  meanwhile is kept behind them. The counts returned are those of the sent and the dropped.
\<close>

theorem flush_refines_spec:
  assumes "distinct (map en_id (ob_read f))"
    and "\<forall>e \<in> set (ob_read f). en_id ` set (arrivals (maxAttempts_of m) env e) \<inter> en_id ` set (ob_read f) = {}"
  shows "ob_read (fl_file (flushOutbox m env f)) =
      concat (map (after_flush (maxAttempts_of m) env) (ob_read f)) @
      concat (map (arrivals (maxAttempts_of m) env) (ob_read f)) \<and>
    fl_sent (flushOutbox m env f) =
      counts (\<lambda>e. en_attempts e < maxAttempts_of m \<and> \<not> isl (snd (env (en_id e)))) (ob_read f) \<and>
    fl_dropped (flushOutbox m env f) = counts (\<lambda>e. \<not> en_attempts e < maxAttempts_of m) (ob_read f) \<and>
    fl_sends (flushOutbox m env f) = map en_id (filter (\<lambda>e. en_attempts e < maxAttempts_of m) (ob_read f))"
  using flush_fold [of "\<lparr>fl_file = f, fl_sent = 0, fl_dropped = 0, fl_sends = []\<rparr>" "[]" "ob_read f" "[]"
      "maxAttempts_of m" env] assms
  by (simp add: flushOutbox_def Let_def)

text \<open>No entry is ever tried more often than the limit: its attempts never pass it.\<close>

lemma after_flush_bounded:
  "e' \<in> set (after_flush m env e) \<Longrightarrow> en_attempts e' \<le> m \<and> en_attempts e' = en_attempts e + 1"
  by (auto simp: after_flush_def bump_def Let_def split: if_splits sum.splits)

definition demo_entry :: "string \<Rightarrow> int \<Rightarrow> entry" where
  "demo_entry i n = \<lparr>en_id = i, en_roomId = ''!r'', en_eventType = ''m.room.message'', en_content = JObj [],
     en_txnId = None, en_stateKey = None, en_createdAtMs = 0, en_attempts = n, en_lastError = None\<rparr>"

definition demo_env :: send_env where
  "demo_env i = (if i = ''a'' then ([demo_entry ''z'' 0], Inl ''offline'') else ([], Inr ''$1''))"

theorem flush_refines_spec_witness:
  "map (\<lambda>e. (en_id e, en_attempts e)) (ob_read (fl_file (flushOutbox None demo_env
     (Entries [demo_entry ''a'' 7, demo_entry ''b'' 0, demo_entry ''c'' 8])))) = [(''a'', 8), (''z'', 0)] \<and>
   fl_sends (flushOutbox None demo_env (Entries [demo_entry ''a'' 7, demo_entry ''b'' 0, demo_entry ''c'' 8])) = [''a'', ''b'']"
  using flush_refines_spec [of "Entries [demo_entry ''a'' 7, demo_entry ''b'' 0, demo_entry ''c'' 8]" None demo_env]
  by (simp add: ob_read_def demo_entry_def demo_env_def arrivals_def after_flush_def maxAttempts_of_def bump_def)

end
