(* ===== verification/Scheduler.thy ===== *)
theory Scheduler
  imports Js_Util
begin

text \<open>
  \<^verbatim>\<open>src/scheduler.ts\<close>: the job scheduler. A job record is an object that the closures of
  its runs keep after it has left the map, so records live in a store by id (\<open>sc_records\<close>)
  beside the map, an ordered list of ids (\<open>sc_jobs\<close>). What jobs do is the environment:
  it tells which actions a job takes before it first waits, whether it throws at once, and
  when and how it ends otherwise. \<open>sc_log\<close> is a ghost, the starts and ends so far.
\<close>

section \<open>State\<close>

record job_record =
  jr_name :: string
  jr_everyMs :: "int option"
  jr_nextRunAtMs :: "int option"
  jr_runCount :: nat
  jr_lastError :: "string option"
  jr_running :: bool
  jr_maxRuns :: "int option"

datatype log_entry = Started nat | Ended nat

record sched =
  sc_records :: "nat \<Rightarrow> job_record option"
  sc_jobs :: "nat list"
  sc_tickMs :: int
  sc_timer :: bool
  sc_stopped :: bool
  sc_log :: "log_entry list"

definition sc_new :: "int option \<Rightarrow> sched" where
  "sc_new tickMs =
     \<lparr>sc_records = (\<lambda>_. None), sc_jobs = [],
      sc_tickMs = max 50 (case tickMs of Some t \<Rightarrow> t | None \<Rightarrow> 1000),
      sc_timer = False, sc_stopped = False, sc_log = []\<rparr>"

definition ensureTimer :: "sched \<Rightarrow> sched" where
  "ensureTimer s = (if sc_timer s \<or> sc_stopped s then s else s\<lparr>sc_timer := True\<rparr>)"

text \<open>\<open>add\<close>: the id is fresh (\<open>randomId(8)\<close> never repeats).\<close>

definition sc_add :: "nat \<Rightarrow> string \<Rightarrow> int option \<Rightarrow> int \<Rightarrow> int option \<Rightarrow> sched \<Rightarrow> sched" where
  "sc_add i name everyMs nextRunAtMs maxRuns s =
     ensureTimer (s\<lparr>
       sc_records := (sc_records s)(i \<mapsto>
         \<lparr>jr_name = name, jr_everyMs = everyMs, jr_nextRunAtMs = Some nextRunAtMs, jr_runCount = 0,
          jr_lastError = None, jr_running = False, jr_maxRuns = maxRuns\<rparr>),
       sc_jobs := sc_jobs s @ [i]\<rparr>)"

definition sc_every :: "nat \<Rightarrow> int \<Rightarrow> int \<Rightarrow> string option \<Rightarrow> bool \<Rightarrow> int option \<Rightarrow> sched \<Rightarrow> sched" where
  "sc_every i now everyMs name immediate maxRuns s =
     (let interval = max 1 everyMs
      in sc_add i (case name of Some n \<Rightarrow> n | None \<Rightarrow> ''every'') (Some interval)
           (now + (if immediate then 0 else interval)) maxRuns s)"

definition sc_after :: "nat \<Rightarrow> int \<Rightarrow> int \<Rightarrow> string \<Rightarrow> sched \<Rightarrow> sched" where
  "sc_after i now delayMs name s = sc_add i name None (now + max 0 delayMs) (Some 1) s"

definition sc_at :: "nat \<Rightarrow> int \<Rightarrow> string \<Rightarrow> sched \<Rightarrow> sched" where
  "sc_at i at name s = sc_add i name None at (Some 1) s"

text \<open>
  \<open>dailyAt\<close> parses \<open>HH:MM\<close>; \<open>today\<close> is the instant of that time on the current day, as the
  local calendar gives it.
\<close>

definition DAY_MS :: int where
  "DAY_MS = 86400000"

definition digit :: "char \<Rightarrow> nat option" where
  "digit c = (let n = (of_char c :: nat) in if 48 \<le> n \<and> n \<le> 57 then Some (n - 48) else None)"

definition parse_hhmm :: "string \<Rightarrow> (nat \<times> nat) option" where
  "parse_hhmm time =
     (case js_trim time of
        [a, c, x, y] \<Rightarrow>
          (case (digit a, digit x, digit y) of
             (Some h, Some m1, Some m2) \<Rightarrow> if c = CHR '':'' then Some (h, 10 * m1 + m2) else None
           | _ \<Rightarrow> None)
      | [a, b, c, x, y] \<Rightarrow>
          (case (digit a, digit b, digit x, digit y) of
             (Some h1, Some h2, Some m1, Some m2) \<Rightarrow>
               if c = CHR '':'' then Some (10 * h1 + h2, 10 * m1 + m2) else None
           | _ \<Rightarrow> None)
      | _ \<Rightarrow> None)"

definition sc_dailyAt ::
  "nat \<Rightarrow> int \<Rightarrow> (nat \<Rightarrow> nat \<Rightarrow> int) \<Rightarrow> string \<Rightarrow> string \<Rightarrow> sched \<Rightarrow> (string, sched) sum" where
  "sc_dailyAt i now today time name s =
     (case parse_hhmm time of
        None \<Rightarrow> Inl ''dailyAt expects HH:MM''
      | Some (hours, minutes) \<Rightarrow>
          (if 23 < hours \<or> 59 < minutes then Inl ''dailyAt time out of range''
           else
             (let t = today hours minutes; next_run = (if t \<le> now then t + DAY_MS else t)
              in Inr (sc_add i name (Some DAY_MS) next_run None s))))"

text \<open>\<open>view(record).cancel()\<close> and \<open>stop()\<close>; the records stay with their closures.\<close>

definition sc_cancel :: "nat \<Rightarrow> sched \<Rightarrow> sched" where
  "sc_cancel i s = s\<lparr>sc_jobs := removeAll i (sc_jobs s)\<rparr>"

definition sc_stop :: "sched \<Rightarrow> sched" where
  "sc_stop s = s\<lparr>sc_stopped := True, sc_timer := False, sc_jobs := []\<rparr>"

definition sc_size :: "sched \<Rightarrow> nat" where
  "sc_size s = length (sc_jobs s)"

section \<open>Ticks\<close>

text \<open>The \<open>finally\<close> block of a run: count it, and plan or forget the job.\<close>

definition finish_record :: "int \<Rightarrow> job_record \<Rightarrow> bool \<times> job_record" where
  "finish_record now r =
     (let r1 = r\<lparr>jr_running := False, jr_runCount := jr_runCount r + 1\<rparr>
      in if (case jr_maxRuns r1 of None \<Rightarrow> False | Some m \<Rightarrow> m \<le> int (jr_runCount r1))
         then (True, r1\<lparr>jr_nextRunAtMs := None\<rparr>)
         else (case jr_everyMs r1 of
                 Some e \<Rightarrow> (False, r1\<lparr>jr_nextRunAtMs := Some (now + e)\<rparr>)
               | None \<Rightarrow> (True, r1\<lparr>jr_nextRunAtMs := None\<rparr>)))"

definition sc_finish :: "nat \<Rightarrow> int \<Rightarrow> string option \<Rightarrow> sched \<Rightarrow> sched" where
  "sc_finish i now err s =
     (case sc_records s i of
        None \<Rightarrow> s
      | Some r \<Rightarrow>
          (case finish_record now (r\<lparr>jr_lastError := err\<rparr>) of
             (gone, r') \<Rightarrow>
               s\<lparr>sc_records := (sc_records s)(i \<mapsto> r'),
                 sc_jobs := (if gone then removeAll i (sc_jobs s) else sc_jobs s),
                 sc_log := sc_log s @ [Ended i]\<rparr>))"

text \<open>What a job does to the scheduler before it first waits.\<close>

datatype job_action =
    DoCancel nat
  | DoStop
  | DoEvery nat int int
  | DoAfter nat int int

definition act :: "job_action \<Rightarrow> sched \<Rightarrow> sched" where
  "act a s =
     (case a of
        DoCancel i \<Rightarrow> sc_cancel i s
      | DoStop \<Rightarrow> sc_stop s
      | DoEvery i now ms \<Rightarrow> if sc_records s i = None then sc_every i now ms None False None s else s
      | DoAfter i now ms \<Rightarrow> if sc_records s i = None then sc_after i now ms ''after'' s else s)"

text \<open>A start: the actions, and the error when the job throws before it first waits.\<close>

type_synonym start = "job_action list \<times> string option"

definition due :: "int \<Rightarrow> job_record \<Rightarrow> bool" where
  "due now r = (\<not> jr_running r \<and> (case jr_nextRunAtMs r of None \<Rightarrow> False | Some t \<Rightarrow> t \<le> now))"

definition start_job :: "int \<Rightarrow> (nat \<Rightarrow> start) \<Rightarrow> nat \<Rightarrow> sched \<Rightarrow> sched" where
  "start_job now env i s =
     (case sc_records s i of
        None \<Rightarrow> s
      | Some r \<Rightarrow>
          (if \<not> due now r then s
           else
             (let s1 = s\<lparr>sc_records := (sc_records s)(i \<mapsto> r\<lparr>jr_running := True\<rparr>), sc_log := sc_log s @ [Started i]\<rparr>;
                  s2 = fold act (fst (env i)) s1
              in case snd (env i) of None \<Rightarrow> s2 | Some e \<Rightarrow> sc_finish i now (Some e) s2)))"

text \<open>\<open>tick\<close> goes over a copy of the map's values.\<close>

definition tick :: "int \<Rightarrow> (nat \<Rightarrow> start) \<Rightarrow> sched \<Rightarrow> sched" where
  "tick now env s = fold (start_job now env) (sc_jobs s) s"

text \<open>
  Reachable states: calls of the bot, ticks while the timer is set, and ends of runs that
  are under way.
\<close>

inductive sc_reach :: "sched \<Rightarrow> bool" where
  init: "sc_reach (sc_new tickMs)"
| every: "sc_reach s \<Longrightarrow> sc_records s i = None \<Longrightarrow> sc_reach (sc_every i now ms name imm maxRuns s)"
| after: "sc_reach s \<Longrightarrow> sc_records s i = None \<Longrightarrow> sc_reach (sc_after i now ms name s)"
| at: "sc_reach s \<Longrightarrow> sc_records s i = None \<Longrightarrow> sc_reach (sc_at i t name s)"
| daily: "sc_reach s \<Longrightarrow> sc_records s i = None \<Longrightarrow> sc_dailyAt i now today time name s = Inr s' \<Longrightarrow> sc_reach s'"
| cancel: "sc_reach s \<Longrightarrow> sc_reach (sc_cancel i s)"
| stop: "sc_reach s \<Longrightarrow> sc_reach (sc_stop s)"
| tick: "sc_reach s \<Longrightarrow> sc_timer s \<Longrightarrow> sc_reach (tick now env s)"
| ends: "sc_reach s \<Longrightarrow> sc_records s i = Some r \<Longrightarrow> jr_running r \<Longrightarrow> sc_reach (sc_finish i now err s)"

section \<open>The invariant\<close>

text \<open>
  How a job's record reads the log: the starts and ends of a job alternate, it is running
  exactly when its last start has not ended, and it has ended \<open>runCount\<close> times.
\<close>

definition starts :: "nat \<Rightarrow> log_entry list \<Rightarrow> nat" where
  "starts i l = length (filter (\<lambda>e. e = Started i) l)"

definition ends :: "nat \<Rightarrow> log_entry list \<Rightarrow> nat" where
  "ends i l = length (filter (\<lambda>e. e = Ended i) l)"

definition never_overlaps :: "nat \<Rightarrow> log_entry list \<Rightarrow> bool" where
  "never_overlaps i l \<longleftrightarrow> (\<forall>k \<le> length l. ends i (take k l) \<le> starts i (take k l) \<and>
     starts i (take k l) \<le> ends i (take k l) + 1)"

text \<open>A job with a limit has at most that many runs; a limit below one still allows one run.\<close>

definition limit_ok :: "job_record \<Rightarrow> bool" where
  "limit_ok r =
     (case jr_maxRuns r of
        None \<Rightarrow> True
      | Some m \<Rightarrow> int (jr_runCount r) \<le> max 1 m \<and>
          (jr_nextRunAtMs r \<noteq> None \<longrightarrow> jr_runCount r = 0 \<or> int (jr_runCount r) < m) \<and>
          (jr_running r \<longrightarrow> jr_nextRunAtMs r \<noteq> None))"

definition job_ok :: "sched \<Rightarrow> nat \<Rightarrow> bool" where
  "job_ok s i \<longleftrightarrow>
     never_overlaps i (sc_log s) \<and>
     (case sc_records s i of
        None \<Rightarrow> starts i (sc_log s) = 0 \<and> ends i (sc_log s) = 0
      | Some r \<Rightarrow> limit_ok r \<and> ends i (sc_log s) = jr_runCount r \<and>
          starts i (sc_log s) = jr_runCount r + (if jr_running r then 1 else 0))"

definition sc_inv :: "sched \<Rightarrow> bool" where
  "sc_inv s \<longleftrightarrow> (\<forall>i. job_ok s i)"

lemma starts_simps [simp]:
  "starts i [] = 0" "starts i (l @ l') = starts i l + starts i l'"
  "starts i [Started j] = (if i = j then 1 else 0)" "starts i [Ended j] = 0"
  by (auto simp: starts_def)

lemma ends_simps [simp]:
  "ends i [] = 0" "ends i (l @ l') = ends i l + ends i l'"
  "ends i [Ended j] = (if i = j then 1 else 0)" "ends i [Started j] = 0"
  by (auto simp: ends_def)

lemma never_overlaps_snoc:
  assumes "never_overlaps i l"
    and "ends i (l @ [e]) \<le> starts i (l @ [e])" and "starts i (l @ [e]) \<le> ends i (l @ [e]) + 1"
  shows "never_overlaps i (l @ [e])"
  unfolding never_overlaps_def
proof (intro allI impI)
  fix k assume "k \<le> length (l @ [e])"
  then consider "k \<le> length l" | "k = length (l @ [e])" by fastforce
  then show "ends i (take k (l @ [e])) \<le> starts i (take k (l @ [e])) \<and>
    starts i (take k (l @ [e])) \<le> ends i (take k (l @ [e])) + 1"
    using assms by cases (auto simp: never_overlaps_def)
qed

lemma never_overlaps_Nil: "never_overlaps i []"
  by (simp add: never_overlaps_def)

text \<open>What only moves jobs in and out of the map keeps it.\<close>

lemma sc_inv_map: "sc_inv s \<Longrightarrow> sc_records s' = sc_records s \<Longrightarrow> sc_log s' = sc_log s \<Longrightarrow> sc_inv s'"
  by (simp only: sc_inv_def job_ok_def simp_thms)

lemma sc_inv_cancel: "sc_inv s \<Longrightarrow> sc_inv (sc_cancel i s)"
  by (erule sc_inv_map) (simp_all add: sc_cancel_def)

lemma sc_inv_stop: "sc_inv s \<Longrightarrow> sc_inv (sc_stop s)"
  by (erule sc_inv_map) (simp_all add: sc_stop_def)

lemma ensureTimer_simps [simp]:
  "sc_records (ensureTimer s) = sc_records s" "sc_log (ensureTimer s) = sc_log s"
  "sc_jobs (ensureTimer s) = sc_jobs s"
  by (simp_all add: ensureTimer_def)

lemma sc_inv_add:
  assumes "sc_inv s" and "sc_records s i = None"
  shows "sc_inv (sc_add i name e t m s)"
  unfolding sc_inv_def
proof
  fix j
  have "job_ok s j" using assms(1) by (simp add: sc_inv_def)
  then show "job_ok (sc_add i name e t m s) j"
    using assms(2) by (cases "j = i") (auto simp: job_ok_def sc_add_def limit_ok_def split: option.split)
qed

lemma sc_inv_act: "sc_inv s \<Longrightarrow> sc_inv (act a s)"
  by (cases a) (simp_all add: act_def sc_inv_cancel sc_inv_stop sc_every_def sc_after_def Let_def sc_inv_add)

lemma sc_inv_acts: "sc_inv s \<Longrightarrow> sc_inv (fold act as s)"
  by (induction as arbitrary: s) (simp_all add: sc_inv_act)

text \<open>Actions never touch the record of a job that exists.\<close>

lemma act_record: "sc_records s i = Some r \<Longrightarrow> sc_records (act a s) i = Some r"
  by (cases a) (auto simp: act_def sc_cancel_def sc_stop_def sc_every_def sc_after_def sc_add_def Let_def)

lemma acts_record: "sc_records s i = Some r \<Longrightarrow> sc_records (fold act as s) i = Some r"
  by (induction as arbitrary: s) (simp_all add: act_record)

lemma finish_record_cases:
  obtains (again) e where "jr_everyMs r = Some e"
      "finish_record now r = (False, r\<lparr>jr_running := False, jr_runCount := jr_runCount r + 1, jr_nextRunAtMs := Some (now + e)\<rparr>)"
      "case jr_maxRuns r of None \<Rightarrow> True | Some m \<Rightarrow> int (jr_runCount r) + 1 < m"
    | (over) "finish_record now r = (True, r\<lparr>jr_running := False, jr_runCount := jr_runCount r + 1, jr_nextRunAtMs := None\<rparr>)"
proof (cases "case jr_maxRuns r of None \<Rightarrow> False | Some m \<Rightarrow> m \<le> int (jr_runCount r) + 1")
  case True
  then show thesis by (intro over) (simp add: finish_record_def Let_def split: option.splits)
next
  case False
  show thesis
  proof (cases "jr_everyMs r")
    case None
    with False show thesis by (intro over) (simp add: finish_record_def Let_def split: option.splits)
  next
    case (Some e)
    with False show thesis
      by (intro again [of e]) (auto simp: finish_record_def Let_def split: option.splits)
  qed
qed

lemma limit_ok_finish:
  "limit_ok r \<Longrightarrow> jr_running r \<Longrightarrow> limit_ok (snd (finish_record now r))"
  by (cases rule: finish_record_cases [of r now])
    (auto simp: limit_ok_def split: option.splits)

lemma sc_inv_finish:
  assumes inv: "sc_inv s" and r: "sc_records s i = Some r" "jr_running r"
  shows "sc_inv (sc_finish i now err s)"
  unfolding sc_inv_def
proof
  fix j
  have ok: "job_ok s j" using inv by (simp add: sc_inv_def)
  let ?r = "r\<lparr>jr_lastError := err\<rparr>"
  obtain gone r' where f: "finish_record now ?r = (gone, r')" by fastforce
  have count: "jr_runCount r' = jr_runCount r + 1 \<and> \<not> jr_running r'"
    using f by (cases rule: finish_record_cases [of ?r now]) auto
  show "job_ok (sc_finish i now err s) j"
  proof (cases "j = i")
    case True
    have "limit_ok ?r" using ok r True by (simp add: job_ok_def limit_ok_def split: option.splits)
    then have "limit_ok r'" using limit_ok_finish [of ?r now] r(2) f by simp
    moreover have "never_overlaps i (sc_log s @ [Ended i])"
      by (rule never_overlaps_snoc) (use ok r True in \<open>auto simp: job_ok_def\<close>)
    ultimately show ?thesis
      using ok r True count by (auto simp: job_ok_def sc_finish_def f)
  next
    case False
    have "never_overlaps j (sc_log s @ [Ended i])"
      by (rule never_overlaps_snoc) (use ok False in \<open>auto simp: job_ok_def split: option.splits\<close>)
    then show ?thesis using ok r False by (auto simp: job_ok_def sc_finish_def f split: option.splits)
  qed
qed

lemma sc_inv_start:
  assumes inv: "sc_inv s"
  shows "sc_inv (start_job now env i s)"
proof (cases "sc_records s i")
  case None
  with inv show ?thesis by (simp add: start_job_def)
next
  case (Some r)
  show ?thesis
  proof (cases "due now r")
    case False
    with Some inv show ?thesis by (simp add: start_job_def)
  next
    case True
    let ?s1 = "s\<lparr>sc_records := (sc_records s)(i \<mapsto> r\<lparr>jr_running := True\<rparr>), sc_log := sc_log s @ [Started i]\<rparr>"
    have not: "\<not> jr_running r" and nxt: "jr_nextRunAtMs r \<noteq> None"
      using True by (auto simp: due_def split: option.splits)
    have s1: "sc_inv ?s1"
      unfolding sc_inv_def
    proof
      fix j
      have ok: "job_ok s j" using inv by (simp add: sc_inv_def)
      have "never_overlaps j (sc_log s @ [Started i])"
        by (rule never_overlaps_snoc) (use ok Some not in \<open>auto simp: job_ok_def split: option.splits\<close>)
      then show "job_ok ?s1 j"
        using ok Some not nxt by (cases "j = i") (auto simp: job_ok_def limit_ok_def split: option.splits)
    qed
    let ?s2 = "fold act (fst (env i)) ?s1"
    have s2: "sc_inv ?s2" by (rule sc_inv_acts [OF s1])
    have r2: "sc_records ?s2 i = Some (r\<lparr>jr_running := True\<rparr>)" by (rule acts_record) simp
    show ?thesis
    proof (cases "snd (env i)")
      case None
      with Some True s2 show ?thesis by (simp add: start_job_def Let_def)
    next
      case (Some e)
      have "sc_inv (sc_finish i now (Some e) ?s2)" by (rule sc_inv_finish [OF s2 r2]) simp
      with \<open>sc_records s i = Some r\<close> Some True show ?thesis by (simp add: start_job_def Let_def)
    qed
  qed
qed

lemma sc_inv_tick: "sc_inv s \<Longrightarrow> sc_inv (tick now env s)"
proof -
  have "sc_inv s \<Longrightarrow> sc_inv (fold (start_job now env) js s)" for js
    by (induction js arbitrary: s) (simp_all add: sc_inv_start)
  then show "sc_inv s \<Longrightarrow> sc_inv (tick now env s)" by (simp add: tick_def)
qed

lemma sc_reach_inv: "sc_reach s \<Longrightarrow> sc_inv s"
proof (induction rule: sc_reach.induct)
  case (init tickMs)
  then show ?case by (simp add: sc_inv_def job_ok_def sc_new_def never_overlaps_Nil)
next
  case (daily s i now today time name s')
  then show ?case
    by (auto simp: sc_dailyAt_def Let_def sc_inv_add split: option.splits prod.splits if_splits)
qed (simp_all add: sc_every_def sc_after_def sc_at_def Let_def sc_inv_add sc_inv_cancel sc_inv_stop sc_inv_tick
    sc_inv_finish)

section \<open>Properties\<close>

text \<open>
  C32 (invariant). In every reachable state of the scheduler, at every moment of its past,
  each job had at most one run under way: a run starts only after the one before has ended,
  whatever the jobs do to the scheduler and however long they take.
\<close>

theorem jobs_never_overlap:
  assumes "sc_reach s"
  shows "never_overlaps i (sc_log s)"
  using sc_reach_inv [OF assms] by (simp add: sc_inv_def job_ok_def)

text \<open>
  C31 (bounds). In every history a job with a limit on its runs is started at most that often
  when the limit is at least one, and at most once when it is less: the limit is tested
  only after a run (\<open>zero_limit_runs_once\<close>).
\<close>

theorem job_runs_bounded:
  assumes "sc_reach s" and "sc_records s i = Some r" and "jr_maxRuns r = Some m"
  shows "int (starts i (sc_log s)) \<le> max 1 m"
  using sc_reach_inv [OF assms(1)] assms(2,3)
  by (auto simp: sc_inv_def job_ok_def limit_ok_def dest!: spec [of _ i] split: if_splits)

text \<open>
  A job that may not run at all (a limit of zero or less) runs once: the limit is tested only
  after a run.
\<close>

theorem zero_limit_runs_once:
  assumes "sc_jobs s = []" and "m \<le> 0" and "t0 + max 1 ms \<le> now"
  shows "starts i (sc_log (tick now (\<lambda>_. ([], err)) (sc_every i t0 ms name imm (Some m) s))) = starts i (sc_log s) + 1"
proof -
  let ?s = "sc_every i t0 ms name imm (Some m) s"
  have s: "sc_jobs ?s = [i]" "sc_log ?s = sc_log s"
    using assms(1) by (simp_all add: sc_every_def sc_add_def ensureTimer_def Let_def)
  have "sc_records ?s i \<noteq> None \<and> due now (the (sc_records ?s i))"
    using assms(3) by (auto simp: sc_every_def sc_add_def ensureTimer_def due_def Let_def)
  then obtain r where r: "sc_records ?s i = Some r" "due now r" by auto
  have "starts i (sc_log (start_job now (\<lambda>_. ([], err)) i ?s)) = starts i (sc_log ?s) + 1"
    using r by (simp add: start_job_def sc_finish_def starts_def Let_def split: option.split prod.split)
  then show ?thesis by (simp add: tick_def s)
qed

theorem zero_limit_runs_once_witness:
  "starts 0 (sc_log (tick 1000 (\<lambda>_. ([], None)) (sc_every 0 0 1000 None False (Some 0) (sc_new None)))) = 1"
  using zero_limit_runs_once [of "sc_new None" 0 0 1000 1000 0 None None False]
  by (simp add: sc_new_def starts_def)

text \<open>A due job that a job before it in the same tick cancels is started nevertheless.\<close>

lemma tick_two:
  assumes "sc_jobs s = [i, j]" and "i \<noteq> j" and "sc_records s i = Some r" and "due now r"
    and "sc_records s j = Some r'" and "due now r'" and "env i = ([DoCancel j], None)" and "env j = ([], None)"
  shows "sc_log (tick now env s) = sc_log s @ [Started i, Started j]"
  using assms by (simp add: tick_def start_job_def Let_def act_def sc_cancel_def)

text \<open>
  Cancelling does not stop a job that is due in the tick under way: when a job
  cancels one after it, the cancelled job is no longer scheduled and runs all the same.
\<close>

theorem cancel_in_tick_ignored:
  assumes "sc_jobs s = [i, j]" and "i \<noteq> j" and "sc_records s i = Some r" and "due now r"
    and "sc_records s j = Some r'" and "due now r'" and "env i = ([DoCancel j], None)" and "env j = ([], None)"
  shows "j \<notin> set (sc_jobs (tick now env s)) \<and> starts j (sc_log (tick now env s)) = starts j (sc_log s) + 1"
  using assms tick_two [OF assms]
  by (simp add: tick_def start_job_def Let_def act_def sc_cancel_def) (simp add: starts_def)

text \<open>
  A daily job leaves its time of day: the run after one that ends at
  \<open>now\<close> is planned a day after that end, later than the next occurrence of the time by as
  much as the run was late and long.
\<close>

theorem daily_job_drifts:
  assumes "sc_dailyAt i t0 today time name s = Inr s1" and "jr_nextRunAtMs (the (sc_records s1 i)) = Some t"
    and "t \<le> now"
  shows "jr_nextRunAtMs (the (sc_records (sc_finish i now err s1) i)) = Some (t + DAY_MS + (now - t))"
proof -
  have "jr_everyMs (the (sc_records s1 i)) = Some DAY_MS" and "jr_maxRuns (the (sc_records s1 i)) = None"
    and "sc_records s1 i \<noteq> None"
    using assms(1) by (auto simp: sc_dailyAt_def sc_add_def Let_def split: option.splits prod.splits if_splits)
  then show ?thesis by (auto simp: sc_finish_def finish_record_def Let_def)
qed

text \<open>Two jobs a second apart, and the first cancelling the second.\<close>

definition demo_sched :: sched where
  "demo_sched = sc_every 1 0 1000 None False (Some 1) (sc_every 0 0 1000 None False (Some 1) (sc_new None))"

lemma demo_reach: "sc_reach demo_sched"
  unfolding demo_sched_def
  by (intro sc_reach.intros) (simp_all add: sc_new_def sc_every_def sc_add_def Let_def)

definition cancel_other :: "nat \<Rightarrow> start" where
  "cancel_other i = (if i = 0 then ([DoCancel 1], None) else ([], None))"

lemma demo_tick_reach: "sc_reach (tick 1000 cancel_other demo_sched)"
  by (rule sc_reach.tick [OF demo_reach])
    (simp add: demo_sched_def sc_every_def sc_add_def sc_new_def ensureTimer_def Let_def)

theorem jobs_never_overlap_witness: "never_overlaps 0 (sc_log (tick 1000 cancel_other demo_sched))"
  by (rule jobs_never_overlap [OF demo_tick_reach])

theorem job_runs_bounded_witness: "int (starts 1 (sc_log (tick 1000 cancel_other demo_sched))) \<le> 1"
  using job_runs_bounded [OF demo_tick_reach, of 1 _ 1]
  by (simp add: demo_sched_def sc_every_def sc_add_def sc_new_def tick_def start_job_def cancel_other_def due_def
      act_def sc_cancel_def Let_def)

theorem cancel_in_tick_ignored_witness:
  "1 \<notin> set (sc_jobs (tick 1000 cancel_other demo_sched)) \<and> starts 1 (sc_log (tick 1000 cancel_other demo_sched)) = 1"
proof -
  let ?r = "\<lparr>jr_name = ''every'', jr_everyMs = Some 1000, jr_nextRunAtMs = Some 1000, jr_runCount = 0,
    jr_lastError = None, jr_running = False, jr_maxRuns = Some 1\<rparr>"
  have "sc_jobs demo_sched = [0, 1]" "sc_records demo_sched 0 = Some ?r" "sc_records demo_sched 1 = Some ?r"
    "sc_log demo_sched = []"
    by (simp_all add: demo_sched_def sc_every_def sc_add_def sc_new_def Let_def)
  then show ?thesis
    using cancel_in_tick_ignored [of demo_sched 0 1 ?r 1000 ?r cancel_other]
    by (simp add: due_def cancel_other_def)
qed

theorem daily_job_drifts_witness:
  "jr_nextRunAtMs (the (sc_records (sc_finish 0 5090000 None
     (projr (sc_dailyAt 0 1000 (\<lambda>h m. 5000000) ''08:30'' ''d'' (sc_new None)))) 0)) = Some (5000000 + DAY_MS + 90000)"
proof -
  have p: "parse_hhmm ''08:30'' = Some (8, 30)"
    by (simp add: parse_hhmm_def js_trim_def js_space_def digit_def Let_def)
  have "sc_dailyAt 0 1000 (\<lambda>h m. 5000000) ''08:30'' ''d'' (sc_new None) =
    Inr (sc_add 0 ''d'' (Some DAY_MS) 5000000 None (sc_new None))"
    by (simp add: sc_dailyAt_def p Let_def)
  moreover from daily_job_drifts [OF this, of 5000000 5090000 None] show ?thesis
    by (simp add: calculation sc_add_def)
qed

end
