(* ===== verification/Router.thy ===== *)
theory Router
  imports Errors
begin

text \<open>
  \<^verbatim>\<open>src/router.ts\<close>: the middleware chain, routers and the routing of an update.

  The code of a middleware is a value of \<open>mcode\<close>: it returns, throws, changes the
  world and goes on, or awaits \<open>next()\<close> and goes on with what that call reported. The
  world is whatever handlers, filters and middleware read and write; it is a type
  parameter. Routers refer to each other (children and parent), so they live in a list and
  a router is its position there; \<open>include\<close> is the only operation that links two of
  them. Loops over parents and children are given fuel, and \<open>forest\<close>, which
  \<open>include\<close> preserves, shows that the number of routers is enough of it.
\<close>

section \<open>Updates, errors and the code of users\<close>

datatype update_type =
    U_message | U_edited_message | U_reaction | U_redaction | U_membership | U_invite
  | U_callback_query | U_mini_app_data | U_poll_response | U_ephemeral | U_to_device | U_raw_event

text \<open>What the dispatch code reads of a context; the rest is part of the world.\<close>

record ctx =
  cx_updateType :: update_type
  cx_roomId :: string
  cx_senderId :: string
  cx_eventId :: string
  cx_commandName :: "string option"
  cx_isTyping :: bool
  cx_isReceipt :: bool

text \<open>The types by the names the code gives them.\<close>

definition update_name :: "update_type \<Rightarrow> string" where
  "update_name t =
     (case t of U_message \<Rightarrow> ''message'' | U_edited_message \<Rightarrow> ''edited_message''
      | U_reaction \<Rightarrow> ''reaction'' | U_redaction \<Rightarrow> ''redaction'' | U_membership \<Rightarrow> ''membership''
      | U_invite \<Rightarrow> ''invite'' | U_callback_query \<Rightarrow> ''callback_query''
      | U_mini_app_data \<Rightarrow> ''mini_app_data'' | U_poll_response \<Rightarrow> ''poll_response''
      | U_ephemeral \<Rightarrow> ''ephemeral'' | U_to_device \<Rightarrow> ''to_device'' | U_raw_event \<Rightarrow> ''raw_event'')"

record command_spec =
  sp_name :: string
  sp_aliases :: "string list"
  sp_description :: "string option"
  sp_hidden :: bool

type_synonym 'w filter_fn = "ctx \<Rightarrow> 'w \<Rightarrow> (js_error, bool) sum \<times> 'w"
type_synonym 'w handler_fn = "ctx \<Rightarrow> 'w \<Rightarrow> js_error option \<times> 'w"
type_synonym 'w error_handler = "js_error \<Rightarrow> ctx \<Rightarrow> 'w \<Rightarrow> (js_error, bool) sum \<times> 'w"

datatype 'w mcode =
    MRet
  | MThrow js_error
  | MAct "'w \<Rightarrow> 'w" "'w \<Rightarrow> 'w mcode"
  | MNext "js_error option \<Rightarrow> 'w mcode"

type_synonym 'w middleware = "ctx \<Rightarrow> 'w mcode"

section \<open>runChain\<close>

text \<open>
  The closure of \<open>runChain\<close>: its \<open>index\<close>, the world, and what the handler at the
  centre left behind (\<open>None\<close> while it has not run). \<open>cs_entered\<close> is a ghost: the
  numbers of the \<open>dispatch(i)\<close> calls that passed the guard, in order.
\<close>

record ('w, 'r) chain_state =
  cs_index :: int
  cs_world :: 'w
  cs_result :: "'r option"
  cs_entered :: "int list"

text \<open>\<open>MAct f k\<close> goes on with \<open>k\<close> of the world that \<open>f\<close> was applied to.\<close>

primrec run_mcode ::
  "'w mcode \<Rightarrow> (('w, 'r) chain_state \<Rightarrow> js_error option \<times> ('w, 'r) chain_state)
    \<Rightarrow> ('w, 'r) chain_state \<Rightarrow> js_error option \<times> ('w, 'r) chain_state" where
  "run_mcode MRet nxt st = (None, st)"
| "run_mcode (MThrow e) nxt st = (Some e, st)"
| "run_mcode (MAct f k) nxt st = run_mcode (k (cs_world st)) nxt (st\<lparr>cs_world := f (cs_world st)\<rparr>)"
| "run_mcode (MNext k) nxt st = (case nxt st of (r, st') \<Rightarrow> run_mcode (k r) nxt st')"

definition enter :: "int \<Rightarrow> ('w, 'r) chain_state \<Rightarrow> ('w, 'r) chain_state" where
  "enter i st = st\<lparr>cs_index := i, cs_entered := cs_entered st @ [i]\<rparr>"

text \<open>
  \<open>dispatch(i)\<close> on the middlewares from position \<open>i\<close> on; the handler reports its
  error, its result and the new world.
\<close>

primrec dispatch ::
  "'w middleware list \<Rightarrow> ctx \<Rightarrow> (ctx \<Rightarrow> 'w \<Rightarrow> js_error option \<times> 'r \<times> 'w) \<Rightarrow> int
    \<Rightarrow> ('w, 'r) chain_state \<Rightarrow> js_error option \<times> ('w, 'r) chain_state" where
  "dispatch [] c handler i st =
     (if i \<le> cs_index st then (Some NextCalledTwice, st)
      else case handler c (cs_world (enter i st)) of
        (err, r, w) \<Rightarrow> (err, (enter i st)\<lparr>cs_world := w, cs_result := Some r\<rparr>))"
| "dispatch (m # ms) c handler i st =
     (if i \<le> cs_index st then (Some NextCalledTwice, st)
      else run_mcode (m c) (dispatch ms c handler (i + 1)) (enter i st))"

definition chain_init :: "'w \<Rightarrow> ('w, 'r) chain_state" where
  "chain_init w = \<lparr>cs_index = - 1, cs_world = w, cs_result = None, cs_entered = []\<rparr>"

definition runChain ::
  "'w middleware list \<Rightarrow> ctx \<Rightarrow> (ctx \<Rightarrow> 'w \<Rightarrow> js_error option \<times> 'r \<times> 'w) \<Rightarrow> 'w
    \<Rightarrow> js_error option \<times> ('w, 'r) chain_state" where
  "runChain middlewares c handler w = dispatch middlewares c handler 0 (chain_init w)"

text \<open>
  The invariant of the closure: the guard has let through exactly the numbers up to
  \<open>index\<close>, once each and in order, and the handler has run exactly when \<open>index\<close>
  reached the number of middlewares.
\<close>

definition chain_inv :: "nat \<Rightarrow> ('w, 'r) chain_state \<Rightarrow> bool" where
  "chain_inv n st \<longleftrightarrow>
     - 1 \<le> cs_index st \<and> cs_index st \<le> int n \<and> cs_entered st = [0..cs_index st] \<and>
     (cs_result st \<noteq> None \<longleftrightarrow> cs_index st = int n)"

lemma chain_inv_init: "chain_inv n (chain_init w)"
  by (simp add: chain_inv_def chain_init_def)

lemma chain_inv_world [simp]: "chain_inv n (st\<lparr>cs_world := w\<rparr>) = chain_inv n st"
  by (simp add: chain_inv_def)

text \<open>
  The next \<open>dispatch\<close> has number \<open>i + 1\<close> while position \<open>i\<close> runs, and \<open>index\<close>
  is at least \<open>i\<close>; it is one more than \<open>index\<close> whenever the guard lets it pass.
\<close>

lemma run_mcode_inv:
  assumes "P st"
    and "\<And>st. P st \<Longrightarrow> P (snd (nxt st))"
    and "\<And>st f. P st \<Longrightarrow> P (st\<lparr>cs_world := f (cs_world st)\<rparr>)"
  shows "P (snd (run_mcode m nxt st))"
  using assms(1)
proof (induction m arbitrary: st)
  case (MNext k)
  then show ?case
    using assms(2) by (cases "nxt st") (metis old.prod.case range_eqI run_mcode.simps(4) snd_conv)
qed (simp_all add: assms(3))

lemma enter_simps [simp]:
  "cs_index (enter i st) = i" "cs_world (enter i st) = cs_world st"
  "cs_result (enter i st) = cs_result st" "cs_entered (enter i st) = cs_entered st @ [i]"
  by (simp_all add: enter_def)

lemma int_upto_snoc: "- 1 \<le> i \<Longrightarrow> [0..i] @ [i + 1] = [0..i + 1]" for i :: int
  using upto_rec2 [of 0 "i + 1"] by simp

lemma int_upto_extend: "- 1 \<le> i \<Longrightarrow> i < j \<Longrightarrow> j \<le> i + 1 \<Longrightarrow> [0..i] @ [j] = [0..j]" for i :: int
proof -
  assume "- 1 \<le> i" and "i < j" and "j \<le> i + 1"
  then have "j = i + 1" by simp
  with int_upto_snoc [OF \<open>- 1 \<le> i\<close>] show ?thesis by simp
qed

lemma chain_inv_enter:
  "chain_inv n st \<Longrightarrow> cs_index st + 1 < int n \<Longrightarrow> chain_inv n (enter (cs_index st + 1) st)"
  by (auto simp: chain_inv_def int_upto_snoc)

lemma dispatch_inv:
  assumes "chain_inv n st" and "i \<le> cs_index st + 1" and "i + int (length ms) = int n"
  shows "chain_inv n (snd (dispatch ms c h i st)) \<and> i \<le> cs_index (snd (dispatch ms c h i st))"
  using assms
proof (induction ms arbitrary: i st)
  case Nil
  then show ?case
    by (cases "h c (cs_world st)") (auto simp: chain_inv_def intro: int_upto_extend)
next
  case (Cons m ms)
  show ?case
  proof (cases "i \<le> cs_index st")
    case True
    with Cons.prems show ?thesis by simp
  next
    case False
    let ?P = "\<lambda>st. chain_inv n st \<and> i \<le> cs_index st"
    have i: "i = cs_index st + 1" using False Cons.prems by simp
    have "?P (enter i st)"
      using chain_inv_enter [OF Cons.prems(1)] Cons.prems(3) by (simp add: i)
    then have "?P (snd (run_mcode (m c) (dispatch ms c h (i + 1)) (enter i st)))"
    proof (rule run_mcode_inv)
      fix st :: "('a, 'b) chain_state" assume "?P st"
      then show "?P (snd (dispatch ms c h (i + 1) st))"
        using Cons.IH [of st "i + 1"] Cons.prems(3) by simp
    qed simp
    with False show ?thesis by simp
  qed
qed

lemma runChain_inv: "chain_inv (length ms) (snd (runChain ms c h w))"
proof -
  have "0 \<le> cs_index (chain_init w :: ('a, 'b) chain_state) + 1" by (simp add: chain_init_def)
  from dispatch_inv [OF chain_inv_init this, of ms "length ms" c h] show ?thesis
    by (simp add: runChain_def)
qed

text \<open>
  C26 (safety). Whatever the middlewares do, calling \<open>next()\<close> twice included, one run of
  the chain enters each of them at most once and in registration order, and the handler at
  the centre runs at most once, namely exactly when every middleware before it was entered
  and passed on.
\<close>

theorem chain_runs_each_once:
  "cs_entered (snd (runChain ms c h w)) = [0..cs_index (snd (runChain ms c h w))] \<and>
   distinct (cs_entered (snd (runChain ms c h w))) \<and>
   cs_index (snd (runChain ms c h w)) \<le> int (length ms) \<and>
   (cs_result (snd (runChain ms c h w)) \<noteq> None \<longleftrightarrow>
      int (length ms) \<in> set (cs_entered (snd (runChain ms c h w))))"
  using runChain_inv [of ms c h w] by (auto simp: chain_inv_def)

text \<open>A second call of the same \<open>next()\<close> is refused and changes nothing.\<close>

lemma dispatch_refused: "i \<le> cs_index st \<Longrightarrow> dispatch ms c h i st = (Some NextCalledTwice, st)"
  by (cases ms) simp_all

lemma dispatch_twice:
  assumes "chain_inv n st" and "i \<le> cs_index st + 1" and "i + int (length ms) = int n"
  shows "dispatch ms c h i (snd (dispatch ms c h i st)) = (Some NextCalledTwice, snd (dispatch ms c h i st))"
  by (rule dispatch_refused) (use dispatch_inv [OF assms] in simp)

section \<open>Registration\<close>

text \<open>
  An argument of a registration call is a filter, which may carry a command
  specification, a handler, or a value that is no function. Nothing but its position tells
  a filter from a handler: the last argument is called as the handler.
\<close>

datatype 'w reg_arg =
    FilterArg "'w filter_fn" "command_spec option"
  | HandlerArg "'w handler_fn"
  | NotAFunction

definition is_function :: "'w reg_arg \<Rightarrow> bool" where
  "is_function a = (case a of NotAFunction \<Rightarrow> False | _ \<Rightarrow> True)"

text \<open>A handler returns \<open>undefined\<close>, which a filter position reads as a refusal.\<close>

definition as_filter :: "'w reg_arg \<Rightarrow> 'w filter_fn" where
  "as_filter a =
     (case a of
        FilterArg f _ \<Rightarrow> f
      | HandlerArg h \<Rightarrow> (\<lambda>c w. case h c w of (Some e, w') \<Rightarrow> (Inl e, w') | (None, w') \<Rightarrow> (Inr False, w'))
      | NotAFunction \<Rightarrow> (\<lambda>c w. (Inl (TypeError ''filter is not a function''), w)))"

definition as_handler :: "'w reg_arg \<Rightarrow> 'w handler_fn" where
  "as_handler a =
     (case a of
        FilterArg f _ \<Rightarrow> (\<lambda>c w. case f c w of (Inl e, w') \<Rightarrow> (Some e, w') | (Inr _, w') \<Rightarrow> (None, w'))
      | HandlerArg h \<Rightarrow> h
      | NotAFunction \<Rightarrow> (\<lambda>c w. (Some (TypeError ''handler is not a function''), w)))"

definition splitArgs :: "'w reg_arg list \<Rightarrow> (js_error, 'w reg_arg list \<times> 'w handler_fn) sum" where
  "splitArgs args =
     (if args = [] then Inl (TypeError ''a handler function is required'')
      else if \<not> is_function (last args) then Inl (TypeError ''the last argument must be the handler function'')
      else Inr (butlast args, as_handler (last args)))"

record 'w route =
  rt_types :: "update_type set option"
  rt_filters :: "'w filter_fn list"
  rt_handler :: "'w handler_fn"

record 'w router =
  r_name :: string
  r_routes :: "'w route list"
  r_children :: "nat list"
  r_middlewares :: "'w middleware list"
  r_errorHandlers :: "'w error_handler list"
  r_specs :: "command_spec list"
  r_parent :: "nat option"
  r_includeFilter :: "'w filter_fn option"

type_synonym 'w routers = "'w router list"

definition router_new :: "string \<Rightarrow> 'w routers \<Rightarrow> nat \<times> 'w routers" where
  "router_new name rs =
     (length rs,
      rs @ [\<lparr>r_name = name, r_routes = [], r_children = [], r_middlewares = [],
             r_errorHandlers = [], r_specs = [], r_parent = None, r_includeFilter = None\<rparr>])"

definition arg_specs :: "'w reg_arg \<Rightarrow> command_spec list" where
  "arg_specs a = (case a of FilterArg _ (Some spec) \<Rightarrow> [spec] | _ \<Rightarrow> [])"

definition register ::
  "update_type set option \<Rightarrow> 'w reg_arg list \<Rightarrow> 'w router \<Rightarrow> (js_error, 'w router) sum" where
  "register types args r =
     (case splitArgs args of
        Inl e \<Rightarrow> Inl e
      | Inr (filters, handler) \<Rightarrow>
          Inr (r\<lparr>r_specs := r_specs r @ concat (map arg_specs filters),
                 r_routes := r_routes r @
                   [\<lparr>rt_types = types, rt_filters = map as_filter filters, rt_handler = handler\<rparr>]\<rparr>))"

definition MESSAGE_TYPES :: "update_type set" where "MESSAGE_TYPES = {U_message}"
definition EDITED_TYPES :: "update_type set" where "EDITED_TYPES = {U_edited_message}"
definition ANY_MESSAGE_TYPES :: "update_type set" where
  "ANY_MESSAGE_TYPES = {U_message, U_edited_message}"

text \<open>The registration methods, by name; \<open>on\<close> takes the types, \<open>None\<close> for all.\<close>

definition message :: "'w reg_arg list \<Rightarrow> 'w router \<Rightarrow> (js_error, 'w router) sum" where
  "message = register (Some MESSAGE_TYPES)"

definition editedMessage :: "'w reg_arg list \<Rightarrow> 'w router \<Rightarrow> (js_error, 'w router) sum" where
  "editedMessage = register (Some EDITED_TYPES)"

definition anyMessage :: "'w reg_arg list \<Rightarrow> 'w router \<Rightarrow> (js_error, 'w router) sum" where
  "anyMessage = register (Some ANY_MESSAGE_TYPES)"

text \<open>
  \<open>reaction\<close>, \<open>redaction\<close>, \<open>membership\<close>, \<open>invite\<close>, \<open>callbackQuery\<close>,
  \<open>miniAppData\<close>, \<open>pollResponse\<close>, \<open>ephemeral\<close>, \<open>toDevice\<close> and
  \<open>rawEvent\<close> register for the one type they are called after.
\<close>

definition register_one :: "update_type \<Rightarrow> 'w reg_arg list \<Rightarrow> 'w router \<Rightarrow> (js_error, 'w router) sum" where
  "register_one t = register (Some {t})"

definition ephemeral :: "'w reg_arg list \<Rightarrow> 'w router \<Rightarrow> (js_error, 'w router) sum" where
  "ephemeral = register_one U_ephemeral"

definition typing :: "'w reg_arg list \<Rightarrow> 'w router \<Rightarrow> (js_error, 'w router) sum" where
  "typing args = ephemeral (FilterArg (\<lambda>c w. (Inr (cx_isTyping c), w)) None # args)"

definition receipt :: "'w reg_arg list \<Rightarrow> 'w router \<Rightarrow> (js_error, 'w router) sum" where
  "receipt args = ephemeral (FilterArg (\<lambda>c w. (Inr (cx_isReceipt c), w)) None # args)"

definition router_on ::
  "update_type list option \<Rightarrow> 'w reg_arg list \<Rightarrow> 'w router \<Rightarrow> (js_error, 'w router) sum" where
  "router_on types = register (map_option set types)"

definition router_use :: "'w middleware \<Rightarrow> 'w router \<Rightarrow> 'w router" where
  "router_use m r = r\<lparr>r_middlewares := r_middlewares r @ [m]\<rparr>"

definition router_errors :: "'w error_handler \<Rightarrow> 'w router \<Rightarrow> 'w router" where
  "router_errors h r = r\<lparr>r_errorHandlers := r_errorHandlers r @ [h]\<rparr>"

section \<open>Including routers\<close>

text \<open>
  The walk \<open>while (ancestor) { if (ancestor === router) throw; ancestor = ancestor.parent }\<close>,
  with the number of turns it may take; \<open>None\<close> when that is too small.
\<close>

fun reaches :: "nat \<Rightarrow> 'w routers \<Rightarrow> nat \<Rightarrow> nat \<Rightarrow> bool option" where
  "reaches 0 rs router ancestor = None"
| "reaches (Suc n) rs router ancestor =
     (if ancestor = router then Some True
      else case r_parent (rs ! ancestor) of
        None \<Rightarrow> Some False
      | Some p \<Rightarrow> reaches n rs router p)"

definition include_router ::
  "nat \<Rightarrow> nat \<Rightarrow> 'w filter_fn option \<Rightarrow> 'w routers \<Rightarrow> (js_error, 'w routers) sum option" where
  "include_router this router filter_opt rs =
     (if router = this then Some (Inl (Thrown ''a router cannot include itself''))
      else if r_parent (rs ! router) \<noteq> None then Some (Inl (Thrown ''router is already attached''))
      else case reaches (length rs) rs router this of
        None \<Rightarrow> None
      | Some True \<Rightarrow> Some (Inl (Thrown ''router include would create a cycle''))
      | Some False \<Rightarrow>
          (let r1 = (rs ! router)\<lparr>r_parent := Some this\<rparr>;
               r2 = (if filter_opt \<noteq> None then r1\<lparr>r_includeFilter := filter_opt\<rparr> else r1);
               rs1 = rs[router := r2]
           in Some (Inr (rs1[this := (rs1 ! this)\<lparr>r_children := r_children (rs1 ! this) @ [router]\<rparr>]))))"

text \<open>
  The shape of the routers: parents and children agree, a router is in one list of
  children and once, and no router is its own ancestor.
\<close>

definition parent_rel :: "'w routers \<Rightarrow> (nat \<times> nat) set" where
  "parent_rel rs = {(p, c). c < length rs \<and> r_parent (rs ! c) = Some p}"

definition forest :: "'w routers \<Rightarrow> bool" where
  "forest rs \<longleftrightarrow>
     acyclic (parent_rel rs) \<and>
     (\<forall>c < length rs. \<forall>p. r_parent (rs ! c) = Some p \<longrightarrow> p < length rs \<and> c \<in> set (r_children (rs ! p))) \<and>
     (\<forall>p < length rs. distinct (r_children (rs ! p)) \<and>
        (\<forall>c \<in> set (r_children (rs ! p)). c < length rs \<and> r_parent (rs ! c) = Some p))"

text \<open>How many ancestors and how many descendants a router has: both measures of the loops.\<close>

definition depth :: "'w routers \<Rightarrow> nat \<Rightarrow> nat" where
  "depth rs x = card {a. (a, x) \<in> (parent_rel rs)\<^sup>+}"

definition height :: "'w routers \<Rightarrow> nat \<Rightarrow> nat" where
  "height rs x = card {d. (x, d) \<in> (parent_rel rs)\<^sup>+}"

lemma parent_relI: "c < length rs \<Longrightarrow> r_parent (rs ! c) = Some p \<Longrightarrow> (p, c) \<in> parent_rel rs"
  by (simp add: parent_rel_def)

lemma parent_relD: "(p, c) \<in> parent_rel rs \<Longrightarrow> c < length rs \<and> r_parent (rs ! c) = Some p"
  by (simp add: parent_rel_def)

lemma forestD:
  assumes "forest rs"
  shows "acyclic (parent_rel rs)"
    and "c < length rs \<Longrightarrow> r_parent (rs ! c) = Some p \<Longrightarrow> p < length rs"
    and "c < length rs \<Longrightarrow> r_parent (rs ! c) = Some p \<Longrightarrow> c \<in> set (r_children (rs ! p))"
    and "p < length rs \<Longrightarrow> c \<in> set (r_children (rs ! p)) \<Longrightarrow> c < length rs \<and> r_parent (rs ! c) = Some p"
    and "p < length rs \<Longrightarrow> distinct (r_children (rs ! p))"
  using assms unfolding forest_def by blast+

lemma parent_rel_bounds:
  assumes "forest rs"
  shows "parent_rel rs \<subseteq> {..<length rs} \<times> {..<length rs}"
  using forestD(2) [OF assms] by (auto dest!: parent_relD)

lemma related_finite:
  assumes "r \<subseteq> A \<times> A" and "finite A" and "acyclic r" and "x \<in> A"
  shows "finite {a. (a, x) \<in> r\<^sup>+}" and "finite {a. (x, a) \<in> r\<^sup>+}"
    and "card {a. (a, x) \<in> r\<^sup>+} < card A" and "card {a. (x, a) \<in> r\<^sup>+} < card A"
proof -
  have A: "r\<^sup>+ \<subseteq> A \<times> A" using assms(1) by (rule trancl_subset_Sigma)
  have irr: "(x, x) \<notin> r\<^sup>+" using assms(3) unfolding acyclic_def by blast
  have sub: "{a. (a, x) \<in> r\<^sup>+} \<subseteq> A - {x}" "{a. (x, a) \<in> r\<^sup>+} \<subseteq> A - {x}"
    using A irr by blast+
  then show "finite {a. (a, x) \<in> r\<^sup>+}" "finite {a. (x, a) \<in> r\<^sup>+}"
    using assms(2) by (blast intro: finite_subset)+
  have "card (A - {x}) < card A"
    using assms(2,4) by (intro psubset_card_mono) blast+
  then show "card {a. (a, x) \<in> r\<^sup>+} < card A" "card {a. (x, a) \<in> r\<^sup>+} < card A"
    using card_mono [OF finite_Diff [OF assms(2)] sub(1)]
      card_mono [OF finite_Diff [OF assms(2)] sub(2)] by linarith+
qed

lemma depth_less:
  assumes "forest rs" and "x < length rs"
  shows "depth rs x < length rs"
  using related_finite(3) [OF parent_rel_bounds [OF assms(1)] _ forestD(1) [OF assms(1)], of x] assms(2)
  by (simp add: depth_def)

lemma height_less:
  assumes "forest rs" and "x < length rs"
  shows "height rs x < length rs"
  using related_finite(4) [OF parent_rel_bounds [OF assms(1)] _ forestD(1) [OF assms(1)], of x] assms(2)
  by (simp add: height_def)

lemma edge_cards:
  assumes "r \<subseteq> A \<times> A" and "finite A" and "acyclic r" and "(p, c) \<in> r"
  shows "card {a. (a, p) \<in> r\<^sup>+} < card {a. (a, c) \<in> r\<^sup>+}"
    and "card {d. (c, d) \<in> r\<^sup>+} < card {d. (p, d) \<in> r\<^sup>+}"
proof -
  have irr: "(p, p) \<notin> r\<^sup>+" "(c, c) \<notin> r\<^sup>+" using assms(3) unfolding acyclic_def by blast+
  have pc: "(p, c) \<in> r\<^sup>+" using assms(4) by (rule r_into_trancl)
  have A: "p \<in> A" "c \<in> A" using assms(1,4) by blast+
  have "{a. (a, p) \<in> r\<^sup>+} \<subset> {a. (a, c) \<in> r\<^sup>+}"
    using irr(1) pc by (blast intro: trancl_trans)
  with related_finite(1) [OF assms(1-3) A(2)]
  show "card {a. (a, p) \<in> r\<^sup>+} < card {a. (a, c) \<in> r\<^sup>+}" by (rule psubset_card_mono)
  have "{d. (c, d) \<in> r\<^sup>+} \<subset> {d. (p, d) \<in> r\<^sup>+}"
    using irr(2) pc by (blast intro: trancl_trans)
  with related_finite(2) [OF assms(1-3) A(1)]
  show "card {d. (c, d) \<in> r\<^sup>+} < card {d. (p, d) \<in> r\<^sup>+}" by (rule psubset_card_mono)
qed

lemma depth_parent:
  assumes "forest rs" and "(p, c) \<in> parent_rel rs"
  shows "depth rs p < depth rs c"
  unfolding depth_def
  by (rule edge_cards(1) [OF parent_rel_bounds [OF assms(1)] finite_lessThan forestD(1) [OF assms(1)] assms(2)])

lemma height_child:
  assumes "forest rs" and "(p, c) \<in> parent_rel rs"
  shows "height rs c < height rs p"
  unfolding height_def
  by (rule edge_cards(2) [OF parent_rel_bounds [OF assms(1)] finite_lessThan forestD(1) [OF assms(1)] assms(2)])

text \<open>The walk returns, and tells whether the router is the start or one of its ancestors.\<close>

lemma reaches_total:
  assumes "forest rs"
  shows "a < length rs \<Longrightarrow> depth rs a < n \<Longrightarrow>
    reaches n rs router a = Some ((router, a) \<in> (parent_rel rs)\<^sup>*)"
proof (induction n arbitrary: a)
  case 0
  then show ?case by simp
next
  case (Suc n)
  show ?case
  proof (cases "r_parent (rs ! a)")
    case None
    then have "\<not> (\<exists>p. (p, a) \<in> parent_rel rs)" by (auto dest: parent_relD)
    then have "(router, a) \<in> (parent_rel rs)\<^sup>* \<longleftrightarrow> router = a"
      by (metis rtrancl.cases rtrancl.rtrancl_refl)
    with None show ?thesis by auto
  next
    case (Some p)
    then have edge: "(p, a) \<in> parent_rel rs" using Suc.prems(1) by (rule_tac parent_relI)
    have p: "p < length rs" using forestD(2) [OF assms] Suc.prems(1) Some by blast
    have "depth rs p < n" using depth_parent [OF assms edge] Suc.prems(2) by simp
    from Suc.IH [OF p this]
    have IH: "reaches n rs router p = Some ((router, p) \<in> (parent_rel rs)\<^sup>*)" .
    have "(router, a) \<in> (parent_rel rs)\<^sup>* \<longleftrightarrow> router = a \<or> (router, p) \<in> (parent_rel rs)\<^sup>*"
    proof
      assume "(router, a) \<in> (parent_rel rs)\<^sup>*"
      then show "router = a \<or> (router, p) \<in> (parent_rel rs)\<^sup>*"
      proof (cases rule: rtrancl.cases)
        case (rtrancl_into_rtrancl q)
        then have "q = p" using Some by (auto dest: parent_relD)
        with rtrancl_into_rtrancl show ?thesis by blast
      qed simp
    next
      assume "router = a \<or> (router, p) \<in> (parent_rel rs)\<^sup>*"
      with edge show "(router, a) \<in> (parent_rel rs)\<^sup>*" by (auto intro: rtrancl_into_rtrancl)
    qed
    with IH Some show ?thesis by auto
  qed
qed

lemma include_links:
  assumes "include_router this router fo rs = Some (Inr rs')"
    and "this < length rs" and "router < length rs"
  shows "length rs' = length rs" and "this \<noteq> router"
    and "r_parent (rs ! router) = None" and "reaches (length rs) rs router this = Some False"
    and "r_parent (rs' ! x) = (if x = router then Some this else r_parent (rs ! x))"
    and "r_children (rs' ! x) =
           (if x = this then r_children (rs ! x) @ [router] else r_children (rs ! x))"
  using assms
  by (auto simp: include_router_def Let_def nth_list_update split: if_splits option.splits bool.splits)

lemma include_forest:
  assumes f: "forest rs" and inc: "include_router this router fo rs = Some (Inr rs')"
    and tl: "this < length rs" and router: "router < length rs"
  shows "forest rs'"
proof -
  note L = include_links [OF inc tl router]
  have nr: "(router, this) \<notin> (parent_rel rs)\<^sup>*"
    using L(4) reaches_total [OF f tl depth_less [OF f tl], of router] by simp
  have "parent_rel rs' = insert (this, router) (parent_rel rs)"
    using L(3) router by (auto simp: parent_rel_def L(1,5))
  then have ac: "acyclic (parent_rel rs')"
    using nr forestD(1) [OF f] by (simp add: acyclic_insert)
  have notin: "router \<notin> set (r_children (rs ! q))" if "q < length rs" for q
    using forestD(4) [OF f that] L(3) by fastforce
  show ?thesis
    unfolding forest_def
  proof (intro conjI allI impI ballI)
    show "acyclic (parent_rel rs')" by (rule ac)
  next
    fix c q assume "c < length rs'" and "r_parent (rs' ! c) = Some q"
    then show "q < length rs'" and "c \<in> set (r_children (rs' ! q))"
      using forestD(2,3) [OF f, of c q] tl by (auto simp: L(1,5,6) split: if_splits)
  next
    fix q assume "q < length rs'"
    then show "distinct (r_children (rs' ! q))"
      using forestD(5) [OF f, of q] notin [of q] by (auto simp: L(1,6))
  next
    fix q c assume q: "q < length rs'" and "c \<in> set (r_children (rs' ! q))"
    then show "c < length rs'" and "r_parent (rs' ! c) = Some q"
      using forestD(4) [OF f, of q c] router notin [of q] L(2) by (auto simp: L(1,5,6) split: if_splits)
  qed
qed

text \<open>
  C28 (invariant). Including routers keeps the routers a forest: whatever the arguments,
  \<open>include\<close> returns, it refuses to attach a router to itself, to attach it twice or to
  close a cycle, and what it accepts has no router under itself or under two parents.
\<close>

theorem include_keeps_forest:
  assumes "forest rs" and "this < length rs" and "router < length rs"
  shows "case include_router this router fo rs of
      None \<Rightarrow> False
    | Some (Inl e) \<Rightarrow> this = router \<or> r_parent (rs ! router) \<noteq> None \<or>
        (router, this) \<in> (parent_rel rs)\<^sup>*
    | Some (Inr rs') \<Rightarrow> forest rs' \<and> parent_rel rs' = insert (this, router) (parent_rel rs) \<and>
        r_parent (rs ! router) = None \<and> (router, this) \<notin> (parent_rel rs)\<^sup>*"
proof -
  note R = reaches_total [OF assms(1,2) depth_less [OF assms(1,2)], of router]
  show ?thesis
  proof (cases "include_router this router fo rs")
    case None
    with R show ?thesis
      by (auto simp: include_router_def Let_def split: if_splits option.splits bool.splits)
  next
    case (Some res)
    show ?thesis
    proof (cases res)
      case (Inl e)
      with Some R show ?thesis
        by (auto simp: include_router_def Let_def split: if_splits option.splits bool.splits)
    next
      case (Inr rs')
      note L = include_links [OF Some [unfolded Inr] assms(2,3)]
      have "parent_rel rs' = insert (this, router) (parent_rel rs)"
        using L(3) assms(3) by (auto simp: parent_rel_def L(1,5))
      with Some Inr L(3,4) R include_forest [OF assms(1) Some [unfolded Inr] assms(2,3)]
      show ?thesis by simp
    qed
  qed
qed

lemma forest_new: "forest rs \<Longrightarrow> forest (snd (router_new name rs))"
proof -
  assume f: "forest rs"
  let ?rs = "snd (router_new name rs)"
  have P: "r_parent (?rs ! x) = (if x < length rs then r_parent (rs ! x) else None)"
    and C: "r_children (?rs ! x) = (if x < length rs then r_children (rs ! x) else [])"
    if "x < length ?rs" for x
    using that by (auto simp: router_new_def nth_append)
  have len: "length ?rs = Suc (length rs)" by (simp add: router_new_def)
  have rel: "parent_rel ?rs = parent_rel rs"
    by (auto simp: parent_rel_def len P split: if_splits)
  show "forest ?rs"
    unfolding forest_def
  proof (intro conjI allI impI ballI)
    show "acyclic (parent_rel ?rs)" unfolding rel by (rule forestD(1) [OF f])
  next
    fix c q assume c: "c < length ?rs" and q: "r_parent (?rs ! c) = Some q"
    then have "c < length rs" and "r_parent (rs ! c) = Some q" by (simp_all add: P split: if_splits)
    then have q: "q < length rs" and "c \<in> set (r_children (rs ! q))"
      using forestD(2,3) [OF f] by blast+
    then show "q < length ?rs" and "c \<in> set (r_children (?rs ! q))" by (simp_all add: len C)
  next
    fix q assume "q < length ?rs"
    then show "distinct (r_children (?rs ! q))"
      using forestD(5) [OF f, of q] by (simp add: C)
  next
    fix q c assume "q < length ?rs" and "c \<in> set (r_children (?rs ! q))"
    then have "q < length rs" and "c \<in> set (r_children (rs ! q))" by (simp_all add: C split: if_splits)
    then have "c < length rs \<and> r_parent (rs ! c) = Some q" by (rule forestD(4) [OF f])
    then show "c < length ?rs" and "r_parent (?rs ! c) = Some q" by (simp_all add: len P)
  qed
qed

lemma forest_Nil: "forest []"
  by (simp add: forest_def parent_rel_def acyclic_def)

text \<open>Registering on a router touches no link.\<close>

lemma forest_update:
  assumes "forest rs" and "x < length rs"
    and "r_parent r = r_parent (rs ! x)" and "r_children r = r_children (rs ! x)"
  shows "forest (rs[x := r])"
proof -
  have P: "r_parent (rs[x := r] ! y) = r_parent (rs ! y)"
    and C: "r_children (rs[x := r] ! y) = r_children (rs ! y)" for y
    using assms(2-4) by (simp_all add: nth_list_update)
  have rel: "parent_rel (rs[x := r]) = parent_rel rs"
    by (simp add: parent_rel_def P)
  have "forest (rs[x := r]) = forest rs"
    unfolding forest_def rel P C length_list_update ..
  with assms(1) show ?thesis by simp
qed

lemma register_links:
  "register types args r = Inr r' \<Longrightarrow> r_parent r' = r_parent r \<and> r_children r' = r_children r"
  by (auto simp: register_def split: sum.splits prod.splits)

section \<open>Resolving an update to a route\<close>

text \<open>Filters run in order and stop at the first refusal or error.\<close>

primrec passesFilters :: "'w filter_fn list \<Rightarrow> 'w filter_fn" where
  "passesFilters [] c w = (Inr True, w)"
| "passesFilters (f # fs) c w =
     (case f c w of
        (Inl e, w') \<Rightarrow> (Inl e, w')
      | (Inr False, w') \<Rightarrow> (Inr False, w')
      | (Inr True, w') \<Rightarrow> passesFilters fs c w')"

definition type_ok :: "'w route \<Rightarrow> ctx \<Rightarrow> bool" where
  "type_ok rt c = (case rt_types rt of None \<Rightarrow> True | Some ts \<Rightarrow> cx_updateType c \<in> ts)"

text \<open>The first loop of \<open>resolve\<close>: the routes of one router, in registration order.\<close>

primrec match_route ::
  "'w route list \<Rightarrow> ctx \<Rightarrow> 'w \<Rightarrow> (js_error, 'w route option) sum \<times> 'w" where
  "match_route [] c w = (Inr None, w)"
| "match_route (rt # rts) c w =
     (if \<not> type_ok rt c then match_route rts c w
      else case passesFilters (rt_filters rt) c w of
        (Inl e, w') \<Rightarrow> (Inl e, w')
      | (Inr False, w') \<Rightarrow> match_route rts c w'
      | (Inr True, w') \<Rightarrow> (Inr (Some rt), w'))"

record 'w resolved_route =
  rr_handler :: "'w handler_fn"
  rr_middlewares :: "'w middleware list"
  rr_router :: nat

text \<open>The second loop: the children in the order they were included.\<close>

primrec try_children ::
  "(nat \<Rightarrow> 'w \<Rightarrow> ((js_error, 'w resolved_route option) sum \<times> 'w) option) \<Rightarrow> 'w routers \<Rightarrow>
    nat list \<Rightarrow> ctx \<Rightarrow> 'w \<Rightarrow> ((js_error, 'w resolved_route option) sum \<times> 'w) option" where
  "try_children rec rs [] c w = Some (Inr None, w)"
| "try_children rec rs (ch # chs) c w =
     (case (case r_includeFilter (rs ! ch) of None \<Rightarrow> (Inr True, w) | Some f \<Rightarrow> f c w) of
        (Inl e, w') \<Rightarrow> Some (Inl e, w')
      | (Inr False, w') \<Rightarrow> try_children rec rs chs c w'
      | (Inr True, w') \<Rightarrow>
          (case rec ch w' of
             None \<Rightarrow> None
           | Some (Inl e, w'') \<Rightarrow> Some (Inl e, w'')
           | Some (Inr None, w'') \<Rightarrow> try_children rec rs chs c w''
           | Some (Inr (Some found), w'') \<Rightarrow> Some (Inr (Some found), w'')))"

definition extend_chain :: "'w middleware list \<Rightarrow> 'w router \<Rightarrow> 'w middleware list" where
  "extend_chain inherited r =
     (if r_middlewares r \<noteq> [] then inherited @ r_middlewares r else inherited)"

primrec resolve ::
  "nat \<Rightarrow> 'w routers \<Rightarrow> ctx \<Rightarrow> nat \<Rightarrow> 'w middleware list \<Rightarrow> 'w \<Rightarrow>
    ((js_error, 'w resolved_route option) sum \<times> 'w) option" where
  "resolve 0 rs c r inherited w = None"
| "resolve (Suc n) rs c r inherited w =
     (let chain = extend_chain inherited (rs ! r)
      in case match_route (r_routes (rs ! r)) c w of
           (Inl e, w') \<Rightarrow> Some (Inl e, w')
         | (Inr (Some rt), w') \<Rightarrow>
             Some (Inr (Some \<lparr>rr_handler = rt_handler rt, rr_middlewares = chain, rr_router = r\<rparr>), w')
         | (Inr None, w') \<Rightarrow>
             try_children (\<lambda>ch. resolve n rs c ch chain) rs (r_children (rs ! r)) c w')"

text \<open>Command specifications of a subtree: the router's own, then each child's.\<close>

primrec commandSpecs :: "nat \<Rightarrow> 'w routers \<Rightarrow> nat \<Rightarrow> command_spec list" where
  "commandSpecs 0 rs r = []"
| "commandSpecs (Suc n) rs r = r_specs (rs ! r) @ concat (map (commandSpecs n rs) (r_children (rs ! r)))"

section \<open>Errors and feed\<close>

primrec run_errors :: "'w error_handler list \<Rightarrow> 'w error_handler" where
  "run_errors [] e c w = (Inr False, w)"
| "run_errors (h # hs) e c w =
     (case h e c w of
        (Inl e', w') \<Rightarrow> (Inl e', w')
      | (Inr True, w') \<Rightarrow> (Inr True, w')
      | (Inr False, w') \<Rightarrow> run_errors hs e c w')"

text \<open>The router's error handlers, then those of its parents; an error handler may throw.\<close>

primrec handleError ::
  "nat \<Rightarrow> 'w routers \<Rightarrow> nat \<Rightarrow> js_error \<Rightarrow> ctx \<Rightarrow> 'w \<Rightarrow> ((js_error, bool) sum \<times> 'w) option" where
  "handleError 0 rs r e c w = None"
| "handleError (Suc n) rs r e c w =
     (case run_errors (r_errorHandlers (rs ! r)) e c w of
        (Inl e', w') \<Rightarrow> Some (Inl e', w')
      | (Inr True, w') \<Rightarrow> Some (Inr True, w')
      | (Inr False, w') \<Rightarrow>
          (case r_parent (rs ! r) of
             None \<Rightarrow> Some (Inr False, w')
           | Some p \<Rightarrow> handleError n rs p e c w'))"

definition centre :: "'w handler_fn \<Rightarrow> ctx \<Rightarrow> 'w \<Rightarrow> js_error option \<times> unit \<times> 'w" where
  "centre h c w = (case h c w of (err, w') \<Rightarrow> (err, (), w'))"

definition feed ::
  "'w routers \<Rightarrow> nat \<Rightarrow> ctx \<Rightarrow> 'w \<Rightarrow> ((js_error, bool) sum \<times> 'w) option" where
  "feed rs r c w =
     (case resolve (length rs) rs c r [] w of
        None \<Rightarrow> None
      | Some (Inl e, w1) \<Rightarrow> Some (Inl e, w1)
      | Some (Inr None, w1) \<Rightarrow> Some (Inr False, w1)
      | Some (Inr (Some res), w1) \<Rightarrow>
          (case runChain (rr_middlewares res) c (centre (rr_handler res)) w1 of
             (None, st) \<Rightarrow> Some (Inr True, cs_world st)
           | (Some err, st) \<Rightarrow>
               (case handleError (length rs) rs (rr_router res) err c (cs_world st) of
                  None \<Rightarrow> None
                | Some (Inl e, w2) \<Rightarrow> Some (Inl e, w2)
                | Some (Inr True, w2) \<Rightarrow> Some (Inr True, w2)
                | Some (Inr False, w2) \<Rightarrow> Some (Inl err, w2))))"

text \<open>Both walks return on a forest, within as many turns as there are routers.\<close>

lemma try_children_total:
  assumes "\<And>ch w. ch \<in> set chs \<Longrightarrow> rec ch w \<noteq> None"
  shows "try_children rec rs chs c w \<noteq> None"
  using assms
proof (induction chs arbitrary: w)
  case Nil
  then show ?case by simp
next
  case (Cons ch chs)
  have tl: "try_children rec rs chs c w \<noteq> None" for w
    using Cons by simp
  obtain g w1 where g: "(case r_includeFilter (rs ! ch) of None \<Rightarrow> (Inr True, w) | Some f \<Rightarrow> f c w) = (g, w1)"
    by fastforce
  have "rec ch w1 \<noteq> None" using Cons.prems by simp
  then obtain a w2 where "rec ch w1 = Some (a, w2)" by auto
  with g tl show ?case by (simp split: sum.splits bool.splits option.splits)
qed

lemma resolve_total:
  assumes f: "forest rs"
  shows "r < length rs \<Longrightarrow> height rs r < n \<Longrightarrow> resolve n rs c r inh w \<noteq> None"
proof (induction n arbitrary: r inh w)
  case 0
  then show ?case by simp
next
  case (Suc n)
  have "resolve n rs c ch inh' w' \<noteq> None" if "ch \<in> set (r_children (rs ! r))" for ch inh' w'
  proof -
    have ch: "ch < length rs \<and> r_parent (rs ! ch) = Some r"
      by (rule forestD(4) [OF f Suc.prems(1) that])
    then have "height rs ch < height rs r"
      by (intro height_child [OF f] parent_relI) simp_all
    with Suc ch show ?thesis by simp
  qed
  then show ?case
    using try_children_total [of "r_children (rs ! r)" "\<lambda>ch. resolve n rs c ch (extend_chain inh (rs ! r))" rs c]
    by (auto simp: Let_def split: prod.splits sum.splits option.splits)
qed

lemma handleError_total:
  assumes f: "forest rs"
  shows "r < length rs \<Longrightarrow> depth rs r < n \<Longrightarrow> handleError n rs r e c w \<noteq> None"
proof (induction n arbitrary: r w)
  case 0
  then show ?case by simp
next
  case (Suc n)
  show ?case
  proof (cases "r_parent (rs ! r)")
    case None
    then show ?thesis by (auto split: prod.splits sum.splits bool.splits)
  next
    case (Some p)
    then have "(p, r) \<in> parent_rel rs" and "p < length rs"
      using Suc.prems(1) forestD(2) [OF f] by (auto intro: parent_relI)
    then have "handleError n rs p e c w' \<noteq> None" for w'
      using depth_parent [OF f] Suc by fastforce
    with Some show ?thesis by (auto split: prod.splits sum.splits bool.splits)
  qed
qed

lemma try_children_router:
  assumes "try_children rec rs chs c w = Some (Inr (Some res), w')"
  obtains ch w1 where "ch \<in> set chs" and "rec ch w1 = Some (Inr (Some res), w')"
proof -
  have "\<exists>ch w1. ch \<in> set chs \<and> rec ch w1 = Some (Inr (Some res), w')"
    using assms
  proof (induction chs arbitrary: w)
    case (Cons ch chs)
    obtain g w1 where g: "(case r_includeFilter (rs ! ch) of None \<Rightarrow> (Inr True, w) | Some f \<Rightarrow> f c w) = (g, w1)"
      by fastforce
    from Cons.prems consider (rest) w2 where "try_children rec rs chs c w2 = Some (Inr (Some res), w')"
      | (found) "rec ch w1 = Some (Inr (Some res), w')"
      by (auto simp: g split: sum.splits bool.splits option.splits)
    then show ?case using Cons.IH by cases fastforce+
  qed simp
  with that show ?thesis by blast
qed

text \<open>A resolved route lies in a router of the model, on the inherited chain.\<close>

lemma resolve_router:
  assumes f: "forest rs"
  shows "r < length rs \<Longrightarrow> resolve n rs c r inh w = Some (Inr (Some res), w') \<Longrightarrow>
    rr_router res < length rs \<and> (r, rr_router res) \<in> (parent_rel rs)\<^sup>*"
proof (induction n arbitrary: r inh w)
  case 0
  then show ?case by simp
next
  case (Suc n)
  show ?case
  proof (cases "match_route (r_routes (rs ! r)) c w")
    case (Pair m w1)
    then consider rt where "m = Inr (Some rt)" | "m = Inr None"
      using Suc.prems(2) by (auto simp: Let_def split: sum.splits option.splits)
    then show ?thesis
    proof cases
      case 1
      with Pair Suc.prems show ?thesis by (auto simp: Let_def)
    next
      case 2
      with Pair Suc.prems(2) obtain ch w2 inh' where ch: "ch \<in> set (r_children (rs ! r))"
        and res: "resolve n rs c ch inh' w2 = Some (Inr (Some res), w')"
        by (auto simp: Let_def elim: try_children_router)
      have "ch < length rs \<and> r_parent (rs ! ch) = Some r"
        by (rule forestD(4) [OF f Suc.prems(1) ch])
      then have "ch < length rs" and "(r, ch) \<in> parent_rel rs" by (auto intro: parent_relI)
      with Suc.IH [OF _ res] show ?thesis by (auto intro: converse_rtrancl_into_rtrancl)
    qed
  qed
qed

section \<open>Properties of routing\<close>

text \<open>
  C27 (termination). On routers linked by \<open>include\<close> alone, feeding an update returns: the
  search for a route and the bubbling of an error both end.
\<close>

theorem feed_returns:
  assumes "forest rs" and "r < length rs"
  shows "feed rs r c w \<noteq> None"
proof (cases "resolve (length rs) rs c r [] w")
  case None
  with resolve_total [OF assms height_less [OF assms]] show ?thesis by blast
next
  case (Some p)
  obtain x w1 where p: "p = (x, w1)" by fastforce
  show ?thesis
  proof (cases "\<exists>res. x = Inr (Some res)")
    case False
    then consider e where "x = Inl e" | "x = Inr None" by (metis not_None_eq sum.exhaust)
    then show ?thesis by cases (simp_all add: feed_def Some p)
  next
    case True
    then obtain res where x: "x = Inr (Some res)" by blast
    have "resolve (length rs) rs c r [] w = Some (Inr (Some res), w1)"
      using Some by (simp only: p x)
    from resolve_router [OF assms(1,2) this] have q: "rr_router res < length rs" by blast
    have "handleError (length rs) rs (rr_router res) e c w2 \<noteq> None" for e w2
      by (rule handleError_total [OF assms(1) q depth_less [OF assms(1) q]])
    note total = this
    obtain out st where chain: "runChain (rr_middlewares res) c (centre (rr_handler res)) w1 = (out, st)"
      by fastforce
    show ?thesis
    proof (cases out)
      case None
      then show ?thesis by (simp add: feed_def Some p x chain)
    next
      case (Some err)
      from total [of err "cs_world st"] obtain b w2
        where "handleError (length rs) rs (rr_router res) err c (cs_world st) = Some (b, w2)" by auto
      then show ?thesis
        by (simp add: feed_def \<open>resolve _ _ _ _ _ _ = Some (Inr (Some res), w1)\<close> chain Some
            split: sum.split bool.split)
    qed
  qed
qed

text \<open>A filter that only looks: it neither throws nor changes the world.\<close>

definition pure_filter :: "'w filter_fn \<Rightarrow> bool" where
  "pure_filter f \<longleftrightarrow> (\<forall>c w. \<exists>b. f c w = (Inr b, w))"

definition holds :: "'w filter_fn \<Rightarrow> ctx \<Rightarrow> 'w \<Rightarrow> bool" where
  "holds f c w = (fst (f c w) = Inr True)"

definition pure_router :: "'w router \<Rightarrow> bool" where
  "pure_router r \<longleftrightarrow>
     (\<forall>rt \<in> set (r_routes r). \<forall>f \<in> set (rt_filters rt). pure_filter f) \<and>
     (\<forall>f. r_includeFilter r = Some f \<longrightarrow> pure_filter f)"

definition matches :: "ctx \<Rightarrow> 'w \<Rightarrow> 'w route \<Rightarrow> bool" where
  "matches c w rt = (type_ok rt c \<and> list_all (\<lambda>f. holds f c w) (rt_filters rt))"

definition enters :: "'w router \<Rightarrow> ctx \<Rightarrow> 'w \<Rightarrow> bool" where
  "enters r c w = (case r_includeFilter r of None \<Rightarrow> True | Some f \<Rightarrow> holds f c w)"

text \<open>
  The specification: all routes of a subtree in the order a reader of the registrations
  expects (a router's own routes, then its children's), each with the middlewares of the
  routers above it.
\<close>

primrec candidates ::
  "nat \<Rightarrow> 'w routers \<Rightarrow> ctx \<Rightarrow> 'w \<Rightarrow> 'w middleware list \<Rightarrow> nat \<Rightarrow> ('w route \<times> 'w resolved_route) list" where
  "candidates 0 rs c w inherited r = []"
| "candidates (Suc n) rs c w inherited r =
     map (\<lambda>rt. (rt, \<lparr>rr_handler = rt_handler rt, rr_middlewares = inherited @ r_middlewares (rs ! r),
       rr_router = r\<rparr>)) (r_routes (rs ! r)) @
     concat (map (candidates n rs c w (inherited @ r_middlewares (rs ! r)))
       (filter (\<lambda>ch. enters (rs ! ch) c w) (r_children (rs ! r))))"

definition first_match :: "ctx \<Rightarrow> 'w \<Rightarrow> ('w route \<times> 'r) list \<Rightarrow> 'r option" where
  "first_match c w cands = map_option snd (find (\<lambda>(rt, _). matches c w rt) cands)"

lemma pure_filterE: "pure_filter f \<Longrightarrow> f c w = (Inr (holds f c w), w)"
  unfolding pure_filter_def holds_def by (metis (full_types) fst_conv sum.inject(2))

lemma passesFilters_pure:
  "(\<And>f. f \<in> set fs \<Longrightarrow> pure_filter f) \<Longrightarrow>
     passesFilters fs c w = (Inr (list_all (\<lambda>f. holds f c w) fs), w)"
proof (induction fs)
  case (Cons f fs)
  have f: "f c w = (Inr (holds f c w), w)" using Cons.prems by (intro pure_filterE) simp
  have fs: "passesFilters fs c w = (Inr (list_all (\<lambda>f. holds f c w) fs), w)"
    using Cons.prems by (intro Cons.IH) simp
  show ?case unfolding passesFilters.simps f by (simp add: fs split: bool.split)
qed simp

lemma match_route_pure:
  "(\<And>rt f. rt \<in> set rts \<Longrightarrow> f \<in> set (rt_filters rt) \<Longrightarrow> pure_filter f) \<Longrightarrow>
     match_route rts c w = (Inr (find (matches c w) rts), w)"
proof (induction rts)
  case (Cons rt rts)
  have "passesFilters (rt_filters rt) c w = (Inr (list_all (\<lambda>f. holds f c w) (rt_filters rt)), w)"
    by (rule passesFilters_pure) (rule Cons.prems, simp_all)
  moreover have "match_route rts c w = (Inr (find (matches c w) rts), w)"
    by (rule Cons.IH) (rule Cons.prems, simp_all)
  ultimately show ?case by (auto simp: matches_def [of c w rt])
qed simp

lemma first_match_append:
  "first_match c w (xs @ ys) =
     (case first_match c w xs of None \<Rightarrow> first_match c w ys | Some r \<Rightarrow> Some r)"
  by (induction xs) (auto simp: first_match_def)

lemma first_match_Nil [simp]: "first_match c w [] = None"
  by (simp add: first_match_def)

lemma first_match_map:
  "first_match c w (map (\<lambda>rt. (rt, g rt)) rts) = map_option g (find (matches c w) rts)"
  by (induction rts) (auto simp: first_match_def)

lemma try_children_pure:
  assumes "\<And>ch. ch \<in> set chs \<Longrightarrow> rec ch w = Some (Inr (first_match c w (g ch)), w)"
    and "\<And>ch f. ch \<in> set chs \<Longrightarrow> r_includeFilter (rs ! ch) = Some f \<Longrightarrow> pure_filter f"
  shows "try_children rec rs chs c w =
    Some (Inr (first_match c w (concat (map g (filter (\<lambda>ch. enters (rs ! ch) c w) chs)))), w)"
  using assms
proof (induction chs)
  case (Cons ch chs)
  have guard: "(case r_includeFilter (rs ! ch) of None \<Rightarrow> (Inr True, w) | Some f \<Rightarrow> f c w) =
    (Inr (enters (rs ! ch) c w), w)"
  proof (cases "r_includeFilter (rs ! ch)")
    case (Some f)
    then have "pure_filter f" by (rule Cons.prems(2) [rotated]) simp
    with Some show ?thesis by (simp add: enters_def pure_filterE [of f])
  qed (simp add: enters_def)
  have IH: "try_children rec rs chs c w =
    Some (Inr (first_match c w (concat (map g (filter (\<lambda>ch. enters (rs ! ch) c w) chs)))), w)"
    by (rule Cons.IH) (rule Cons.prems(1), simp, rule Cons.prems(2), simp_all)
  have "rec ch w = Some (Inr (first_match c w (g ch)), w)" using Cons.prems(1) by simp
  then show ?case
    unfolding try_children.simps guard
    by (simp add: IH first_match_append split: option.split)
qed simp

lemma resolve_pure:
  assumes f: "forest rs" and pure: "\<And>q. q < length rs \<Longrightarrow> pure_router (rs ! q)"
  shows "r < length rs \<Longrightarrow> height rs r < n \<Longrightarrow>
    resolve n rs c r inh w = Some (Inr (first_match c w (candidates n rs c w inh r)), w)"
proof (induction n arbitrary: r inh)
  case 0
  then show ?case by simp
next
  case (Suc n)
  let ?chain = "inh @ r_middlewares (rs ! r)"
  have chain: "extend_chain inh (rs ! r) = ?chain" by (simp add: extend_chain_def)
  have child: "ch < length rs \<and> height rs ch < n" if ch: "ch \<in> set (r_children (rs ! r))" for ch
  proof -
    have ch': "ch < length rs \<and> r_parent (rs ! ch) = Some r"
      by (rule forestD(4) [OF f Suc.prems(1) ch])
    then have "height rs ch < height rs r"
      by (intro height_child [OF f] parent_relI) simp_all
    with Suc.prems ch' show ?thesis by simp
  qed
  have routes: "match_route (r_routes (rs ! r)) c w = (Inr (find (matches c w) (r_routes (rs ! r))), w)"
    using pure [OF Suc.prems(1)] by (intro match_route_pure) (auto simp: pure_router_def)
  have children: "try_children (\<lambda>ch. resolve n rs c ch ?chain) rs (r_children (rs ! r)) c w =
    Some (Inr (first_match c w (concat (map (candidates n rs c w ?chain)
      (filter (\<lambda>ch. enters (rs ! ch) c w) (r_children (rs ! r)))))), w)"
  proof (rule try_children_pure)
    fix ch assume "ch \<in> set (r_children (rs ! r))"
    then show "resolve n rs c ch ?chain w = Some (Inr (first_match c w (candidates n rs c w ?chain ch)), w)"
      using child Suc.IH by blast
  next
    fix ch fl assume "ch \<in> set (r_children (rs ! r))" and "r_includeFilter (rs ! ch) = Some fl"
    then show "pure_filter fl" using child pure by (fastforce simp: pure_router_def)
  qed
  show ?case
    by (simp add: chain routes children first_match_append first_match_map split: option.split)
qed

text \<open>
  With filters that only look at the context, routing is the first match
  in the flattened registration order: a router's own routes in order, then those of the
  included routers whose include filter passes; the chain of the winner is the middleware
  of every router from the root down to its own.
\<close>

theorem resolve_first_match:
  assumes "forest rs" and "r < length rs" and "list_all pure_router rs"
  shows "resolve (length rs) rs c r [] w =
    Some (Inr (first_match c w (candidates (length rs) rs c w [] r)), w)"
  by (rule resolve_pure [OF assms(1) _ assms(2) height_less [OF assms(1,2)]])
    (use assms(3) in \<open>simp add: list_all_length\<close>)

text \<open>Error handlers from a router up to its root, in the order they are asked.\<close>

primrec error_path :: "nat \<Rightarrow> 'w routers \<Rightarrow> nat \<Rightarrow> 'w error_handler list" where
  "error_path 0 rs r = []"
| "error_path (Suc n) rs r =
     r_errorHandlers (rs ! r) @ (case r_parent (rs ! r) of None \<Rightarrow> [] | Some p \<Rightarrow> error_path n rs p)"

lemma run_errors_append:
  "run_errors (hs @ hs') e c w =
     (case run_errors hs e c w of (Inr False, w') \<Rightarrow> run_errors hs' e c w' | r \<Rightarrow> r)"
  by (induction hs arbitrary: w) (auto split: prod.splits sum.splits bool.splits)

lemma handleError_path:
  assumes f: "forest rs"
  shows "r < length rs \<Longrightarrow> depth rs r < n \<Longrightarrow>
    handleError n rs r e c w = Some (run_errors (error_path n rs r) e c w)"
proof (induction n arbitrary: r w)
  case 0
  then show ?case by simp
next
  case (Suc n)
  show ?case
  proof (cases "r_parent (rs ! r)")
    case None
    then show ?thesis by (auto split: prod.splits sum.splits bool.splits)
  next
    case (Some p)
    then have "(p, r) \<in> parent_rel rs" and p: "p < length rs"
      using Suc.prems(1) forestD(2) [OF f] by (auto intro: parent_relI)
    then have "depth rs p < n" using depth_parent [OF f] Suc.prems(2) by fastforce
    from Suc.IH [OF p this] Some show ?thesis
      by (simp add: run_errors_append split: prod.split sum.split bool.split)
  qed
qed

text \<open>
  An error of the chain goes to the error handlers of the matched router, then
  to those of each router above it, in that order, until one returns \<open>true\<close>; the update
  then counts as handled. If none does, the original error is raised again, and an error
  thrown by an error handler replaces it.
\<close>

theorem feed_error_bubbles:
  assumes "forest rs" and "r < length rs"
    and "resolve (length rs) rs c r [] w = Some (Inr (Some res), w1)"
    and "runChain (rr_middlewares res) c (centre (rr_handler res)) w1 = (Some err, st)"
  shows "feed rs r c w =
    (case run_errors (error_path (length rs) rs (rr_router res)) err c (cs_world st) of
       (Inl e, w2) \<Rightarrow> Some (Inl e, w2)
     | (Inr True, w2) \<Rightarrow> Some (Inr True, w2)
     | (Inr False, w2) \<Rightarrow> Some (Inl err, w2))"
proof -
  have q: "rr_router res < length rs"
    using resolve_router [OF assms(1-3)] by blast
  show ?thesis
    by (simp add: feed_def assms(3,4) handleError_path [OF assms(1) q depth_less [OF assms(1) q]])
qed

lemma commandSpecs_fuel:
  assumes f: "forest rs"
  shows "r < length rs \<Longrightarrow> height rs r < n \<Longrightarrow> height rs r < m \<Longrightarrow>
    commandSpecs n rs r = commandSpecs m rs r"
proof (induction n arbitrary: m r)
  case 0
  then show ?case by simp
next
  case (Suc n)
  then obtain m' where m: "m = Suc m'" by (cases m) auto
  have "commandSpecs n rs ch = commandSpecs m' rs ch" if "ch \<in> set (r_children (rs ! r))" for ch
  proof -
    have ch: "ch < length rs \<and> r_parent (rs ! ch) = Some r"
      by (rule forestD(4) [OF f Suc.prems(1) that])
    then have "height rs ch < height rs r"
      by (intro height_child [OF f] parent_relI) simp_all
    with Suc.prems m ch show ?thesis by (intro Suc.IH) auto
  qed
  then show ?case by (simp add: m cong: map_cong)
qed

section \<open>A small bot\<close>

text \<open>
  A root router with an error handler and a message route, and an included router whose
  route answers reactions and throws. The world counts the handler calls.
\<close>

definition demo_root :: "nat router" where
  "demo_root = \<lparr>r_name = ''root'',
     r_routes = [\<lparr>rt_types = Some MESSAGE_TYPES, rt_filters = [],
       rt_handler = (\<lambda>c w. (None, w + 1))\<rparr>],
     r_children = [1], r_middlewares = [\<lambda>c. MNext (\<lambda>r. case r of None \<Rightarrow> MRet | Some e \<Rightarrow> MThrow e)],
     r_errorHandlers = [\<lambda>e c w. (Inr True, w + 100)],
     r_specs = [], r_parent = None, r_includeFilter = None\<rparr>"

definition demo_child :: "nat router" where
  "demo_child = \<lparr>r_name = ''child'',
     r_routes = [\<lparr>rt_types = Some {U_reaction}, rt_filters = [\<lambda>c w. (Inr (cx_roomId c = ''!r''), w)],
       rt_handler = (\<lambda>c w. (Some (Thrown ''boom''), w + 10))\<rparr>],
     r_children = [], r_middlewares = [], r_errorHandlers = [], r_specs = [], r_parent = Some 0,
     r_includeFilter = None\<rparr>"

definition demo_ctx :: "update_type \<Rightarrow> ctx" where
  "demo_ctx t = \<lparr>cx_updateType = t, cx_roomId = ''!r'', cx_senderId = ''@u:s'', cx_eventId = ''$e'',
     cx_commandName = None, cx_isTyping = False, cx_isReceipt = False\<rparr>"

lemmas demo_defs = demo_root_def demo_child_def demo_ctx_def MESSAGE_TYPES_def

lemma forest_single: "forest [demo_root\<lparr>r_children := []\<rparr>, demo_child\<lparr>r_parent := None\<rparr>]"
proof -
  let ?rs = "[demo_root\<lparr>r_children := []\<rparr>, demo_child\<lparr>r_parent := None\<rparr>]"
  have two: "x = 0 \<or> x = 1" if "x < length ?rs" for x using that by auto
  have "parent_rel ?rs = {}"
    by (auto simp: parent_rel_def demo_defs nth_Cons split: nat.splits)
  then show ?thesis
    using two by (auto simp: forest_def acyclic_def demo_defs nth_Cons split: nat.splits)
qed

lemma forest_demo: "forest [demo_root, demo_child]"
  by (rule include_forest [OF forest_single, where this = 0 and router = 1 and fo = None])
    (simp_all add: include_router_def demo_defs)

theorem include_keeps_forest_witness:
  "case include_router 0 1 None [demo_root\<lparr>r_children := []\<rparr>, demo_child\<lparr>r_parent := None\<rparr>] of
     Some (Inr rs') \<Rightarrow> forest rs' | _ \<Rightarrow> False"
  using include_keeps_forest [OF forest_single, where this = 0 and router = 1 and fo = None]
  by (simp add: include_router_def demo_defs split: option.splits sum.splits)

theorem feed_returns_witness: "feed [demo_root, demo_child] 0 (demo_ctx U_message) 0 \<noteq> None"
  by (rule feed_returns [OF forest_demo]) simp

theorem resolve_first_match_witness:
  "map_option (map_sum id (map_option rr_router) \<circ> fst)
     (resolve 2 [demo_root, demo_child] (demo_ctx U_reaction) 0 [] 0) = Some (Inr (Some 1))"
proof -
  have "list_all pure_router [demo_root, demo_child]"
    by (simp add: pure_router_def pure_filter_def demo_defs)
  from resolve_first_match [OF forest_demo _ this, of 0 "demo_ctx U_reaction" 0]
  show ?thesis
    by (simp add: numeral_2_eq_2 demo_defs first_match_def matches_def holds_def enters_def type_ok_def)
qed

theorem feed_error_bubbles_witness:
  "feed [demo_root, demo_child] 0 (demo_ctx U_reaction) 0 = Some (Inr True, 110)"
  using feed_error_bubbles [OF forest_demo, of 0 "demo_ctx U_reaction" 0
    "\<lparr>rr_handler = rt_handler (hd (r_routes demo_child)), rr_middlewares = r_middlewares demo_root, rr_router = 1\<rparr>"
    0 "Thrown ''boom''" "snd (runChain (r_middlewares demo_root) (demo_ctx U_reaction)
      (centre (rt_handler (hd (r_routes demo_child)))) 0)"]
  by (simp add: demo_defs type_ok_def extend_chain_def runChain_def chain_init_def enter_def centre_def)

end
