(* ===== verification/Dispatcher.thy ===== *)
theory Dispatcher
  imports Router
begin

text \<open>
  \<^verbatim>\<open>src/dispatcher.ts\<close>: the root of the update pipeline. Outer middlewares run for every
  update, routers are asked in the order they were included, and every update is counted.

  The race of \<open>withTimeout\<close> is decided by the environment: \<open>timer\<close> says whether the
  deadline passes before the chain is done, and if so while which router is being fed. The
  abandoned code still runs to its end, and the error handlers are modelled to see the
  world after that end.
\<close>

section \<open>State\<close>

record dispatcher_stats =
  ds_received :: nat
  ds_handled :: nat
  ds_unhandled :: nat
  ds_errors :: nat
  ds_timeouts :: nat

record 'w dispatcher =
  dp_outer :: "'w middleware list"
  dp_routers :: "nat list"
  dp_errorHandlers :: "'w error_handler list"
  dp_stats :: dispatcher_stats
  dp_unhandledHandler :: "'w handler_fn option"
  dp_timeoutMs :: int
  dp_onTimeout :: "(ctx \<Rightarrow> js_error \<Rightarrow> 'w \<Rightarrow> js_error option \<times> 'w) option"

text \<open>The constructor makes the implicit root router and includes it first.\<close>

definition dp_new :: "'w routers \<Rightarrow> 'w dispatcher \<times> 'w routers" where
  "dp_new rs =
     (case router_new ''root'' rs of
        (root, rs') \<Rightarrow>
          (\<lparr>dp_outer = [], dp_routers = [root], dp_errorHandlers = [],
            dp_stats = \<lparr>ds_received = 0, ds_handled = 0, ds_unhandled = 0, ds_errors = 0, ds_timeouts = 0\<rparr>,
            dp_unhandledHandler = None, dp_timeoutMs = 0, dp_onTimeout = None\<rparr>, rs'))"

definition setHandlerTimeout :: "int \<Rightarrow> 'w dispatcher \<Rightarrow> 'w dispatcher" where
  "setHandlerTimeout ms d = d\<lparr>dp_timeoutMs := max 0 ms\<rparr>"

definition setOnTimeout ::
  "(ctx \<Rightarrow> js_error \<Rightarrow> 'w \<Rightarrow> js_error option \<times> 'w) \<Rightarrow> 'w dispatcher \<Rightarrow> 'w dispatcher" where
  "setOnTimeout h d = d\<lparr>dp_onTimeout := Some h\<rparr>"

definition dp_use :: "'w middleware \<Rightarrow> 'w dispatcher \<Rightarrow> 'w dispatcher" where
  "dp_use m d = d\<lparr>dp_outer := dp_outer d @ [m]\<rparr>"

definition dp_include :: "nat \<Rightarrow> 'w dispatcher \<Rightarrow> 'w dispatcher" where
  "dp_include r d = d\<lparr>dp_routers := dp_routers d @ [r]\<rparr>"

definition dp_errors :: "'w error_handler \<Rightarrow> 'w dispatcher \<Rightarrow> 'w dispatcher" where
  "dp_errors h d = d\<lparr>dp_errorHandlers := dp_errorHandlers d @ [h]\<rparr>"

definition dp_fallback :: "'w handler_fn \<Rightarrow> 'w dispatcher \<Rightarrow> 'w dispatcher" where
  "dp_fallback h d = d\<lparr>dp_unhandledHandler := Some h\<rparr>"

text \<open>The first specification of each name, over all routers in order.\<close>

definition add_spec :: "command_spec \<Rightarrow> (string, command_spec) jsmap \<Rightarrow> (string, command_spec) jsmap" where
  "add_spec spec seen = (if jm_has seen (sp_name spec) then seen else jm_set (sp_name spec) spec seen)"

definition dp_commandSpecs :: "'w routers \<Rightarrow> 'w dispatcher \<Rightarrow> command_spec list" where
  "dp_commandSpecs rs d =
     map snd (fold add_spec (concat (map (commandSpecs (length rs) rs) (dp_routers d))) [])"

lemma add_specs_wf:
  "jm_wf seen \<Longrightarrow> (\<forall>(k, s) \<in> set seen. k = sp_name s) \<Longrightarrow>
     jm_wf (fold add_spec specs seen) \<and> (\<forall>(k, s) \<in> set (fold add_spec specs seen). k = sp_name s)"
proof (induction specs arbitrary: seen)
  case (Cons s specs)
  have "jm_wf (add_spec s seen)" using Cons.prems(1) by (simp add: add_spec_def)
  moreover have "\<forall>(k, t) \<in> set (add_spec s seen). k = sp_name t"
    using Cons.prems(2) by (auto simp: add_spec_def dest!: in_set_update)
  ultimately show ?case using Cons.IH by simp
qed simp

lemma add_spec_get:
  "jm_get (add_spec s seen) n =
     (case jm_get seen n of Some t \<Rightarrow> Some t | None \<Rightarrow> if sp_name s = n then Some s else None)"
  by (auto simp: add_spec_def jm_has_def update_conv' split: option.split)

lemma add_specs_first:
  "jm_get (fold add_spec specs seen) n =
     (case jm_get seen n of Some s \<Rightarrow> Some s | None \<Rightarrow> find (\<lambda>s. sp_name s = n) specs)"
  by (induction specs arbitrary: seen) (simp_all add: add_spec_get split: option.split)

text \<open>No two advertised commands share a name, and the one advertised was declared first.\<close>

lemma commandSpecs_distinct: "distinct (map sp_name (dp_commandSpecs rs d))"
proof -
  let ?m = "fold add_spec (concat (map (commandSpecs (length rs) rs) (dp_routers d))) []"
  have wf: "jm_wf ?m" and names: "\<forall>(k, s) \<in> set ?m. k = sp_name s"
    using add_specs_wf [of "[]"] by auto
  have "map sp_name (map snd ?m) = map fst ?m"
    unfolding map_map by (rule map_cong) (use names in auto)
  then show ?thesis unfolding dp_commandSpecs_def using wf by (simp only:)
qed

section \<open>feed\<close>

datatype timer = NoTimeout | FiresBefore | FiresDuring nat

text \<open>Is the signal aborted when the loop reaches router number \<open>i\<close>?\<close>

definition aborted_at :: "timer \<Rightarrow> nat \<Rightarrow> bool" where
  "aborted_at t i = (case t of NoTimeout \<Rightarrow> False | FiresBefore \<Rightarrow> True | FiresDuring k \<Rightarrow> k < i)"

text \<open>Has router number \<open>i\<close> answered before the deadline, so that \<open>handled\<close> is read as set?\<close>

definition in_time :: "timer \<Rightarrow> nat \<Rightarrow> bool" where
  "in_time t i = (case t of NoTimeout \<Rightarrow> True | FiresBefore \<Rightarrow> False | FiresDuring k \<Rightarrow> i < k)"

text \<open>
  \<open>routeUpdate\<close>, from router number \<open>i\<close> on: its error, the value of \<open>handled\<close> that
  the end of \<open>feed\<close> reads, and the world; \<open>None\<close> when a router does not return.
\<close>

primrec route_loop ::
  "timer \<Rightarrow> 'w routers \<Rightarrow> 'w handler_fn option \<Rightarrow> nat \<Rightarrow> nat list \<Rightarrow> ctx \<Rightarrow> 'w \<Rightarrow>
    (js_error option \<times> bool \<times> 'w) option" where
  "route_loop t rs fb i [] c w =
     (case fb of
        None \<Rightarrow> Some (None, False, w)
      | Some h \<Rightarrow> (case h c w of (err, w') \<Rightarrow> Some (err, False, w')))"
| "route_loop t rs fb i (r # rest) c w =
     (if aborted_at t i then Some (None, False, w)
      else case feed rs r c w of
        None \<Rightarrow> None
      | Some (Inl e, w') \<Rightarrow> Some (Some e, False, w')
      | Some (Inr True, w') \<Rightarrow> Some (None, in_time t i, w')
      | Some (Inr False, w') \<Rightarrow> route_loop t rs fb (Suc i) rest c w')"

definition routeUpdate ::
  "timer \<Rightarrow> 'w routers \<Rightarrow> 'w dispatcher \<Rightarrow> ctx \<Rightarrow> 'w \<Rightarrow> js_error option \<times> bool option \<times> 'w" where
  "routeUpdate t rs d c w =
     (case route_loop t rs (dp_unhandledHandler d) 0 (dp_routers d) c w of
        None \<Rightarrow> (None, None, w)
      | Some (err, handled, w') \<Rightarrow> (err, Some handled, w'))"

text \<open>An error handler that throws is passed over.\<close>

primrec runErrorHandlers :: "'w error_handler list \<Rightarrow> js_error \<Rightarrow> ctx \<Rightarrow> 'w \<Rightarrow> bool \<times> 'w" where
  "runErrorHandlers [] e c w = (False, w)"
| "runErrorHandlers (h # hs) e c w =
     (case h e c w of
        (Inr True, w') \<Rightarrow> (True, w')
      | (Inr False, w') \<Rightarrow> runErrorHandlers hs e c w'
      | (Inl _, w') \<Rightarrow> runErrorHandlers hs e c w')"

definition count_error :: "js_error \<Rightarrow> 'w dispatcher \<Rightarrow> 'w dispatcher" where
  "count_error err d =
     (let s = dp_stats d; s1 = s\<lparr>ds_errors := ds_errors s + 1\<rparr>
      in d\<lparr>dp_stats := (if is_timeout err then s1\<lparr>ds_timeouts := ds_timeouts s1 + 1\<rparr> else s1)\<rparr>)"

definition run_onTimeout :: "'w dispatcher \<Rightarrow> js_error \<Rightarrow> ctx \<Rightarrow> 'w \<Rightarrow> 'w" where
  "run_onTimeout d err c w =
     (if is_timeout err
      then (case dp_onTimeout d of None \<Rightarrow> w | Some h \<Rightarrow> snd (h c err w)) else w)"

definition count_end :: "bool \<Rightarrow> 'w dispatcher \<Rightarrow> 'w dispatcher" where
  "count_end handled d =
     d\<lparr>dp_stats := (let s = dp_stats d in
        if handled then s\<lparr>ds_handled := ds_handled s + 1\<rparr> else s\<lparr>ds_unhandled := ds_unhandled s + 1\<rparr>)\<rparr>"

definition count_received :: "'w dispatcher \<Rightarrow> 'w dispatcher" where
  "count_received d = d\<lparr>dp_stats := (dp_stats d)\<lparr>ds_received := ds_received (dp_stats d) + 1\<rparr>\<rparr>"

text \<open>What the \<open>try\<close> block ends with: the error of the chain, or the deadline's.\<close>

definition effective_timer :: "timer \<Rightarrow> 'w dispatcher \<Rightarrow> timer" where
  "effective_timer t d = (if 0 < dp_timeoutMs d then t else NoTimeout)"

definition timeout_error :: "'w dispatcher \<Rightarrow> ctx \<Rightarrow> js_error" where
  "timeout_error d c =
     HandlerTimeoutError (dp_timeoutMs d)
       (update_name (cx_updateType c) @ '' in '' @
        (if cx_roomId c = [] then ''(no room)'' else cx_roomId c))"

definition dp_feed ::
  "timer \<Rightarrow> 'w routers \<Rightarrow> ctx \<Rightarrow> 'w dispatcher \<Rightarrow> 'w \<Rightarrow>
    ((js_error, bool) sum \<times> 'w dispatcher \<times> 'w) option" where
  "dp_feed timer rs c d w =
     (let d1 = count_received d;
          t = effective_timer timer d1;
          (out, st) = runChain (dp_outer d1) c (routeUpdate t rs d1) w;
          handled = (cs_result st = Some (Some True));
          err = (if t = NoTimeout then out else Some (timeout_error d1 c))
      in if cs_result st = Some None then None
         else case err of
           None \<Rightarrow> Some (Inr handled, count_end handled d1, cs_world st)
         | Some e \<Rightarrow>
             (let d2 = count_error e d1;
                  w1 = run_onTimeout d2 e c (cs_world st);
                  (ok, w2) = runErrorHandlers (dp_errorHandlers d2) e c w1
              in if ok then Some (Inr handled, count_end handled d2, w2)
                 else Some (Inl e, d2, w2)))"

section \<open>Properties\<close>

lemma count_received_simps [simp]:
  "dp_outer (count_received d) = dp_outer d" "dp_routers (count_received d) = dp_routers d"
  "dp_errorHandlers (count_received d) = dp_errorHandlers d"
  "dp_unhandledHandler (count_received d) = dp_unhandledHandler d"
  "dp_timeoutMs (count_received d) = dp_timeoutMs d" "dp_onTimeout (count_received d) = dp_onTimeout d"
  "effective_timer t (count_received d) = effective_timer t d"
  "routeUpdate t rs (count_received d) = routeUpdate t rs d"
  "timeout_error (count_received d) = timeout_error d"
  by (simp_all add: count_received_def effective_timer_def timeout_error_def routeUpdate_def fun_eq_iff)

lemma count_error_simps [simp]:
  "dp_errorHandlers (count_error e d) = dp_errorHandlers d"
  "run_onTimeout (count_error e d) = run_onTimeout d" "run_onTimeout (count_received d) = run_onTimeout d"
  by (simp_all add: count_error_def run_onTimeout_def fun_eq_iff Let_def)

text \<open>The two ways \<open>feed\<close> leaves its \<open>try\<close> block.\<close>

definition feed_outcome :: "timer \<Rightarrow> 'w dispatcher \<Rightarrow> ctx \<Rightarrow> js_error option \<Rightarrow> js_error option" where
  "feed_outcome timer d c out =
     (if effective_timer timer d = NoTimeout then out else Some (timeout_error d c))"

lemma dp_feed_done:
  assumes "runChain (dp_outer d) c (routeUpdate (effective_timer timer d) rs d) w = (out, st)"
    and "cs_result st \<noteq> Some None" and "feed_outcome timer d c out = None"
  shows "dp_feed timer rs c d w =
    (let handled = (cs_result st = Some (Some True))
     in Some (Inr handled, count_end handled (count_received d), cs_world st))"
  using assms by (simp add: dp_feed_def Let_def feed_outcome_def split: if_splits)

lemma dp_feed_failed:
  assumes "runChain (dp_outer d) c (routeUpdate (effective_timer timer d) rs d) w = (out, st)"
    and "cs_result st \<noteq> Some None" and "feed_outcome timer d c out = Some e"
    and "runErrorHandlers (dp_errorHandlers d) e c (run_onTimeout d e c (cs_world st)) = (ok, w2)"
  shows "dp_feed timer rs c d w =
    (let handled = (cs_result st = Some (Some True)); d2 = count_error e (count_received d)
     in if ok then Some (Inr handled, count_end handled d2, w2) else Some (Inl e, d2, w2))"
  using assms by (simp add: dp_feed_def Let_def feed_outcome_def split: if_splits)

lemma route_loop_total:
  assumes "forest rs" and "\<forall>r \<in> set routers. r < length rs"
  shows "route_loop t rs fb i routers c w \<noteq> None"
  using assms(2)
proof (induction routers arbitrary: i w)
  case Nil
  then show ?case by (cases fb) (auto split: prod.split)
next
  case (Cons r routers)
  have "feed rs r c w \<noteq> None" using assms(1) Cons.prems by (intro feed_returns) simp_all
  then obtain x w' where "feed rs r c w = Some (x, w')" by auto
  moreover have "route_loop t rs fb i' routers c w' \<noteq> None" for i' w'
    using Cons.IH Cons.prems by simp
  ultimately show ?case by (simp split: sum.split bool.split) metis
qed

text \<open>The result of the centre, wherever the chain reports one.\<close>

definition result_in :: "('r \<Rightarrow> bool) \<Rightarrow> ('w, 'r) chain_state \<Rightarrow> bool" where
  "result_in P st = (case cs_result st of None \<Rightarrow> True | Some r \<Rightarrow> P r)"

lemma dispatch_result:
  assumes "\<And>w. P (fst (snd (h c w)))" and "result_in P st"
  shows "result_in P (snd (dispatch ms c h i st))"
  using assms(2)
proof (induction ms arbitrary: i st)
  case Nil
  with assms(1) [of "cs_world st"] show ?case
    by (cases "h c (cs_world st)") (simp add: result_in_def)
next
  case (Cons m ms)
  have "result_in P (snd (run_mcode (m c) (dispatch ms c h (i + 1)) (enter i st)))"
    by (rule run_mcode_inv [of "result_in P"]) (use Cons in \<open>auto simp: result_in_def\<close>)
  with Cons.prems show ?case by simp
qed

lemma runChain_result:
  assumes "\<And>w. P (fst (snd (h c w)))"
  shows "result_in P (snd (runChain ms c h w))"
  unfolding runChain_def
  by (rule dispatch_result) (use assms in \<open>simp_all add: result_in_def chain_init_def\<close>)

lemma dp_feed_chain:
  assumes "forest rs" and "\<forall>r \<in> set (dp_routers d). r < length rs"
  shows "cs_result (snd (runChain ms c (routeUpdate t rs d) w)) \<noteq> Some None"
proof -
  have "fst (snd (routeUpdate t rs d c w)) \<noteq> None" for w
    using route_loop_total [OF assms, of t "dp_unhandledHandler d" 0 c w]
    by (auto simp: routeUpdate_def)
  then have "result_in (\<lambda>r. r \<noteq> None) (snd (runChain ms c (routeUpdate t rs d) w))"
    by (rule runChain_result)
  then show ?thesis by (fastforce simp: result_in_def split: option.splits)
qed

text \<open>How one update moves the counters.\<close>

definition counted :: "(js_error, bool) sum \<Rightarrow> dispatcher_stats \<Rightarrow> dispatcher_stats \<Rightarrow> bool" where
  "counted res s s' \<longleftrightarrow>
     ds_received s' = ds_received s + 1 \<and>
     ds_handled s' = ds_handled s + (if res = Inr True then 1 else 0) \<and>
     ds_unhandled s' = ds_unhandled s + (if res = Inr False then 1 else 0) \<and>
     ds_errors s' - ds_errors s \<in> {0, 1} \<and> ds_errors s \<le> ds_errors s' \<and>
     ds_timeouts s \<le> ds_timeouts s' \<and> ds_timeouts s' - ds_timeouts s \<le> ds_errors s' - ds_errors s \<and>
     (isl res \<longrightarrow> ds_errors s' = ds_errors s + 1)"

text \<open>
  Feeding an update returns, and counts it once: as received, and then
  either as handled, when \<open>feed\<close> returns true, or as unhandled, when it returns false, or
  as neither, when the error is raised to the caller; at most one error and one timeout are
  counted, a timeout only with an error, and an error raised to the caller is counted.
\<close>

theorem dispatcher_counts_once:
  assumes "forest rs" and "\<forall>r \<in> set (dp_routers d). r < length rs"
  shows "case dp_feed timer rs c d w of
      None \<Rightarrow> False
    | Some (res, d', w') \<Rightarrow> counted res (dp_stats d) (dp_stats d')"
proof -
  obtain out st where chain: "runChain (dp_outer d) c (routeUpdate (effective_timer timer d) rs d) w = (out, st)"
    by fastforce
  have res: "cs_result st \<noteq> Some None"
    using dp_feed_chain [OF assms, of "dp_outer d" c "effective_timer timer d" w] chain by simp
  note counters = Let_def count_end_def count_error_def count_received_def counted_def
  show ?thesis
  proof (cases "feed_outcome timer d c out")
    case None
    from dp_feed_done [OF chain res this] show ?thesis by (simp add: counters)
  next
    case (Some e)
    obtain ok w2 where
      "runErrorHandlers (dp_errorHandlers d) e c (run_onTimeout d e c (cs_world st)) = (ok, w2)"
      by fastforce
    from dp_feed_failed [OF chain res Some this] show ?thesis by (simp add: counters)
  qed
qed

text \<open>
  Once the deadline has passed no further router is fed: what comes after the
  router that was in flight has no influence on the update, whatever it is.
\<close>

theorem timeout_stops_routing:
  assumes "length inflight = Suc k"
  shows "route_loop (FiresDuring k) rs fb 0 (inflight @ r # rest) c w =
         route_loop (FiresDuring k) rs fb 0 (inflight @ r' # rest') c w"
proof -
  have "route_loop (FiresDuring k) rs fb i (xs @ r # rest) c w =
        route_loop (FiresDuring k) rs fb i (xs @ r' # rest') c w"
    if "i + length xs = Suc k" for i xs w
    using that
  proof (induction xs arbitrary: i w)
    case Nil
    then show ?case by (simp add: aborted_at_def)
  next
    case (Cons x xs)
    then show ?case by (simp split: option.split prod.split sum.split bool.split)
  qed
  then show ?thesis using assms by simp
qed

text \<open>
  An update whose handler ran and threw, with no router error handler taking
  the error and a dispatcher error handler returning true, makes \<open>feed\<close> answer that the
  update was not handled and counts it as unhandled, the counter of updates that no route
  matched.
\<close>

theorem handler_error_counts_unhandled:
  assumes "dp_outer d = []" and "dp_timeoutMs d = 0" and "dp_routers d = [r]"
    and "resolve (length rs) rs c r [] w = Some (Inr (Some res), w1)"
    and "feed rs r c w = Some (Inl err, w2)"
    and "fst (runErrorHandlers (dp_errorHandlers d) err c
      (run_onTimeout d err c w2))"
  shows "\<exists>d' w'. dp_feed timer rs c d w = Some (Inr False, d', w') \<and>
    ds_unhandled (dp_stats d') = ds_unhandled (dp_stats d) + 1 \<and>
    ds_handled (dp_stats d') = ds_handled (dp_stats d)"
proof -
  have t: "effective_timer timer d = NoTimeout" using assms(2) by (simp add: effective_timer_def)
  have route: "routeUpdate NoTimeout rs d c w = (Some err, Some False, w2)"
    by (simp add: routeUpdate_def assms(3,5) aborted_at_def)
  let ?st = "(enter 0 (chain_init w))\<lparr>cs_world := w2, cs_result := Some (Some False)\<rparr>"
  have chain: "runChain (dp_outer d) c (routeUpdate (effective_timer timer d) rs d) w = (Some err, ?st)"
    by (simp add: t assms(1) runChain_def chain_init_def enter_def route)
  have out: "feed_outcome timer d c (Some err) = Some err" by (simp add: feed_outcome_def t)
  obtain b w3 where run: "runErrorHandlers (dp_errorHandlers d) err c (run_onTimeout d err c (cs_world ?st)) = (b, w3)"
    by fastforce
  with assms(6) have b by simp
  from dp_feed_failed [OF chain _ out run] \<open>b\<close> show ?thesis
    by (simp add: Let_def count_end_def count_error_def count_received_def)
qed

text \<open>A dispatcher over the small bot, with an error handler that takes everything.\<close>

definition demo_dp :: "nat dispatcher" where
  "demo_dp = (fst (dp_new []))\<lparr>dp_errorHandlers := [\<lambda>e c w. (Inr True, w + 1000)]\<rparr>"

definition demo_throwing :: "nat router" where
  "demo_throwing = demo_child\<lparr>r_parent := None\<rparr>"

lemma forest_throwing: "forest [demo_throwing]"
  using forest_new [OF forest_Nil, of "''x''"]
    forest_update [of "snd (router_new ''x'' [])" 0 demo_throwing]
  by (simp add: router_new_def demo_throwing_def demo_child_def)

theorem dispatcher_counts_once_witness:
  "case dp_feed (FiresDuring 0) [demo_throwing] (demo_ctx U_reaction) (setHandlerTimeout 5 demo_dp) 0 of
     Some (res, d', w') \<Rightarrow> counted res (dp_stats demo_dp) (dp_stats d') | None \<Rightarrow> False"
  using dispatcher_counts_once [OF forest_throwing, of "setHandlerTimeout 5 demo_dp" "FiresDuring 0"
    "demo_ctx U_reaction" 0]
  by (auto simp: setHandlerTimeout_def demo_dp_def dp_new_def router_new_def split: option.splits prod.splits)

theorem timeout_stops_routing_witness:
  "route_loop (FiresDuring 0) [demo_child] None 0 ([0] @ 0 # []) (demo_ctx U_message) (0 :: nat) =
   route_loop (FiresDuring 0) [demo_child] None 0 ([0] @ 7 # [8]) (demo_ctx U_message) 0"
  by (rule timeout_stops_routing) simp

theorem handler_error_counts_unhandled_witness:
  "\<exists>d' w'. dp_feed NoTimeout [demo_throwing] (demo_ctx U_reaction) demo_dp 0 = Some (Inr False, d', w') \<and>
     ds_unhandled (dp_stats d') = 1 \<and> ds_handled (dp_stats d') = 0"
  using handler_error_counts_unhandled [of demo_dp 0 "[demo_throwing]" "demo_ctx U_reaction" 0
    "\<lparr>rr_handler = rt_handler (hd (r_routes demo_child)), rr_middlewares = [], rr_router = 0\<rparr>" 0
    "Thrown ''boom''" 10 NoTimeout]
  by (simp add: demo_dp_def dp_new_def router_new_def demo_throwing_def demo_defs feed_def type_ok_def
      extend_chain_def runChain_def chain_init_def enter_def centre_def run_onTimeout_def)

end
