(* ===== verification/Middleware.thy ===== *)
theory Middleware
  imports Dispatcher
begin

text \<open>
  \<^verbatim>\<open>src/middleware.ts\<close>: the middlewares the library ships, as code of the chain. Their
  world is a record: the clock, the closures of the throttles and of the memory once
  stores (by the number of the instance), the translator on \<open>ctx.data\<close>, what was sent,
  logged or marked, and the part that belongs to handlers.
\<close>

section \<open>The world of the middlewares\<close>

record throttle_record =
  tr_windowStart :: int
  tr_count :: int
  tr_notified :: bool

record translator =
  tl_locale :: string
  tl_catalog :: "(string, string) jsmap"
  tl_fallback :: "(string, string) jsmap"

datatype effect =
    Answered string bool
  | MarkedRead
  | TypingSet bool
  | LogHandled string
  | LogFailed string js_error

record 'u world =
  w_now :: int
  w_throttles :: "nat \<Rightarrow> (string, throttle_record) lru"
  w_once :: "nat \<Rightarrow> (string, int) lru"
  w_translator :: "translator option"
  w_effects :: "effect list"
  w_user :: 'u

definition emit :: "effect \<Rightarrow> 'u world \<Rightarrow> 'u world" where
  "emit e w = w\<lparr>w_effects := w_effects w @ [e]\<rparr>"

text \<open>\<open>await next()\<close> without a handler around it, \<open>await f()\<close>, and \<open>await sleep(ms)\<close>.\<close>

definition await_next :: "'w mcode \<Rightarrow> 'w mcode" where
  "await_next k = MNext (\<lambda>r. case r of None \<Rightarrow> k | Some e \<Rightarrow> MThrow e)"

definition await_call :: "('w \<Rightarrow> js_error option \<times> 'w) \<Rightarrow> 'w mcode \<Rightarrow> 'w mcode" where
  "await_call f k = MAct (\<lambda>w. snd (f w)) (\<lambda>w. case fst (f w) of None \<Rightarrow> k | Some e \<Rightarrow> MThrow e)"

definition sleep :: "int \<Rightarrow> 'u world mcode \<Rightarrow> 'u world mcode" where
  "sleep ms k = MAct (\<lambda>w. w\<lparr>w_now := w_now w + max 0 ms\<rparr>) (\<lambda>_. k)"

text \<open>\<open>compose\<close> is \<open>runChain\<close> with the final function at the centre.\<close>

definition compose :: "'w middleware list \<Rightarrow> ctx \<Rightarrow> 'w handler_fn \<Rightarrow> 'w \<Rightarrow> js_error option \<times> 'w" where
  "compose ms c final w = (case runChain ms c (centre final) w of (r, st) \<Rightarrow> (r, cs_world st))"

section \<open>throttle\<close>

record throttle_opts =
  to_limit :: "int option"
  to_windowMs :: "int option"
  to_key :: "(ctx \<Rightarrow> string) option"

definition th_limit :: "throttle_opts \<Rightarrow> int" where
  "th_limit opts = max 1 (case to_limit opts of None \<Rightarrow> 5 | Some n \<Rightarrow> n)"

definition th_windowMs :: "throttle_opts \<Rightarrow> int" where
  "th_windowMs opts = max 1 (case to_windowMs opts of None \<Rightarrow> 5000 | Some n \<Rightarrow> n)"

definition th_keyOf :: "throttle_opts \<Rightarrow> ctx \<Rightarrow> string" where
  "th_keyOf opts c =
     (case to_key opts of None \<Rightarrow> cx_senderId c @ ''|'' @ cx_roomId c | Some f \<Rightarrow> f c)"

datatype verdict = Pass | Drop "int option"

text \<open>The decision on one record: the record to keep, and whether the update passes.\<close>

definition throttle_decide ::
  "int \<Rightarrow> int \<Rightarrow> int \<Rightarrow> throttle_record option \<Rightarrow> verdict \<times> throttle_record" where
  "throttle_decide lim windowMs now record =
     (case record of
        None \<Rightarrow> (Pass, \<lparr>tr_windowStart = now, tr_count = 1, tr_notified = False\<rparr>)
      | Some r \<Rightarrow>
          (if windowMs \<le> now - tr_windowStart r then
             (Pass, \<lparr>tr_windowStart = now, tr_count = 1, tr_notified = False\<rparr>)
           else
             (let r1 = r\<lparr>tr_count := tr_count r + 1\<rparr>
              in if lim < tr_count r1 then
                   (if \<not> tr_notified r1 then
                      (Drop (Some (tr_windowStart r1 + windowMs - now)), r1\<lparr>tr_notified := True\<rparr>)
                    else (Drop None, r1))
                 else (Pass, r1))))"

text \<open>
  On the cache: a new window is stored with \<open>set\<close>; otherwise the record object that
  \<open>get\<close> returned is changed in place.
\<close>

definition throttle_step ::
  "int \<Rightarrow> int \<Rightarrow> string \<Rightarrow> int \<Rightarrow> (string, throttle_record) lru \<Rightarrow> verdict \<times> (string, throttle_record) lru" where
  "throttle_step lim windowMs key now records =
     (case lru_get key records of
        (record, c1) \<Rightarrow>
          (case throttle_decide lim windowMs now record of
             (v, r) \<Rightarrow>
               (v, if record = None \<or> windowMs \<le> now - tr_windowStart (the record)
                   then lru_set key r c1
                   else c1\<lparr>lru_map := jm_set key r (lru_map c1)\<rparr>)))"

definition throttle ::
  "nat \<Rightarrow> throttle_opts \<Rightarrow> (ctx \<Rightarrow> int \<Rightarrow> 'u world \<Rightarrow> js_error option \<times> 'u world) option \<Rightarrow>
    'u world middleware" where
  "throttle inst opts onThrottled c =
     (let step = (\<lambda>w. throttle_step (th_limit opts) (th_windowMs opts) (th_keyOf opts c) (w_now w)
                        (w_throttles w inst))
      in MAct (\<lambda>w. w\<lparr>w_throttles := (w_throttles w)(inst := snd (step w))\<rparr>)
           (\<lambda>w. case fst (step w) of
              Pass \<Rightarrow> await_next MRet
            | Drop None \<Rightarrow> MRet
            | Drop (Some ms) \<Rightarrow>
                (case onThrottled of None \<Rightarrow> MRet | Some f \<Rightarrow> await_call (f c ms) MRet)))"

definition roomThrottle where
  "roomThrottle inst opts =
     throttle inst \<lparr>to_limit = Some (case to_limit opts of None \<Rightarrow> 20 | Some n \<Rightarrow> n),
       to_windowMs = Some (case to_windowMs opts of None \<Rightarrow> 10000 | Some n \<Rightarrow> n),
       to_key = Some (\<lambda>c. if cx_roomId c = [] then ''no-room'' else cx_roomId c)\<rparr>"

definition commandThrottle where
  "commandThrottle inst opts =
     throttle inst \<lparr>to_limit = Some (case to_limit opts of None \<Rightarrow> 5 | Some n \<Rightarrow> n),
       to_windowMs = Some (case to_windowMs opts of None \<Rightarrow> 5000 | Some n \<Rightarrow> n),
       to_key = Some (\<lambda>c.
         cx_roomId c @ ''|'' @ cx_senderId c @ ''|'' @
         (case cx_commandName c of Some cmd \<Rightarrow> cmd | None \<Rightarrow> update_name (cx_updateType c)))\<rparr>"

section \<open>logging, skipSelf, accessControl\<close>

definition logging :: "'u world middleware" where
  "logging c =
     MNext (\<lambda>r. case r of
       None \<Rightarrow> MAct (emit (LogHandled (update_name (cx_updateType c)))) (\<lambda>_. MRet)
     | Some e \<Rightarrow> MAct (emit (LogFailed (update_name (cx_updateType c)) e)) (\<lambda>_. MThrow e))"

definition skipSelf :: "string \<Rightarrow> 'w middleware" where
  "skipSelf selfId c =
     (if cx_senderId c \<noteq> [] \<and> cx_senderId c = selfId then MRet else await_next MRet)"

record access_opts =
  ac_allow :: "string list option"
  ac_deny :: "string list option"
  ac_allowServers :: "string list option"

text \<open>\<open>s.replace(/^:/, "")\<close>.\<close>

definition strip_colon :: "string \<Rightarrow> string" where
  "strip_colon s = (case s of [] \<Rightarrow> [] | c # r \<Rightarrow> if c = CHR '':'' then r else s)"

definition access_allowed :: "access_opts \<Rightarrow> string \<Rightarrow> bool" where
  "access_allowed opts sender =
     (let server = js_lower (second_piece sender);
          servers = map_option (map (\<lambda>s. js_lower (strip_colon s))) (ac_allowServers opts);
          allowed = ((ac_allow opts = None \<and> servers = None) \<or>
            (case ac_allow opts of None \<Rightarrow> False | Some us \<Rightarrow> sender \<in> set us) \<or>
            (case servers of None \<Rightarrow> False | Some ss \<Rightarrow> server \<in> set ss))
      in allowed \<and> \<not> (case ac_deny opts of None \<Rightarrow> False | Some us \<Rightarrow> sender \<in> set us))"

definition accessControl ::
  "access_opts \<Rightarrow> (ctx \<Rightarrow> 'w \<Rightarrow> js_error option \<times> 'w) option \<Rightarrow> 'w middleware" where
  "accessControl opts onRejected c =
     (if \<not> access_allowed opts (cx_senderId c)
      then (case onRejected of None \<Rightarrow> MRet | Some f \<Rightarrow> await_call (f c) MRet)
      else await_next MRet)"

section \<open>i18n\<close>

text \<open>
  \<open>template.replace(/\{(\w+)\}/g, ...)\<close>: a brace, word characters and a closing brace are
  replaced when the parameter is given, and kept otherwise. Parameters are the object's own
  properties.
\<close>

definition word_char :: "char \<Rightarrow> bool" where
  "word_char c = (ascii_alpha c \<or> ascii_digit c \<or> c = CHR ''_'')"

function substitute :: "(string, string) jsmap \<Rightarrow> string \<Rightarrow> string" where
  "substitute params [] = []"
| "substitute params (c # s) =
     (let name = takeWhile word_char s; r = dropWhile word_char s
      in if c = CHR ''{'' \<and> name \<noteq> [] \<and> r \<noteq> [] \<and> hd r = CHR ''}''
         then (case jm_get params name of Some v \<Rightarrow> v | None \<Rightarrow> CHR ''{'' # name @ ''}'') @
              substitute params (tl r)
         else c # substitute params s)"
  by pat_completeness auto
termination
proof (relation "measure (\<lambda>(p, s). length s)", goal_cases)
  case (2 params c s name r)
  have "length (tl r) \<le> length s"
    unfolding 2(2) using length_dropWhile_le [of word_char s] by simp
  then show ?case by simp
qed simp_all

definition translate :: "translator \<Rightarrow> string \<Rightarrow> (string, string) jsmap option \<Rightarrow> string" where
  "translate t key params =
     (let template =
        (case jm_get (tl_catalog t) key of Some v \<Rightarrow> v
         | None \<Rightarrow> (case jm_get (tl_fallback t) key of Some v \<Rightarrow> v | None \<Rightarrow> key))
      in case params of None \<Rightarrow> template | Some ps \<Rightarrow> substitute ps template)"

definition i18n ::
  "(string, (string, string) jsmap) jsmap \<Rightarrow> string \<Rightarrow>
    (ctx \<Rightarrow> 'u world \<Rightarrow> (js_error, string) sum \<times> 'u world) option \<Rightarrow> 'u world middleware" where
  "i18n catalogs defaultLocale resolveLocale c =
     (let fallback = (case jm_get catalogs defaultLocale of Some m \<Rightarrow> m | None \<Rightarrow> []);
          install = (\<lambda>locale. MAct (\<lambda>w. w\<lparr>w_translator := Some
            \<lparr>tl_locale = locale,
             tl_catalog = (case jm_get catalogs locale of Some m \<Rightarrow> m | None \<Rightarrow> fallback),
             tl_fallback = fallback\<rparr>\<rparr>) (\<lambda>_. await_next MRet))
      in case resolveLocale of
           None \<Rightarrow> install defaultLocale
         | Some f \<Rightarrow> MAct (\<lambda>w. snd (f c w))
             (\<lambda>w. case fst (f c w) of Inl e \<Rightarrow> MThrow e | Inr locale \<Rightarrow> install locale))"

definition getTranslator :: "'u world \<Rightarrow> translator option" where
  "getTranslator w = w_translator w"

section \<open>typingIndicator, autoMarkRead, rateLimitBackoff\<close>

text \<open>\<open>ctx.withTyping\<close>: errors of the typing calls are ignored.\<close>

definition typingIndicator :: "'u world middleware" where
  "typingIndicator c =
     MAct (emit (TypingSet True)) (\<lambda>_. MNext (\<lambda>r.
       MAct (emit (TypingSet False)) (\<lambda>_. case r of None \<Rightarrow> MRet | Some e \<Rightarrow> MThrow e)))"

definition autoMarkRead :: "'u world middleware" where
  "autoMarkRead c =
     MNext (\<lambda>r.
       (let out = (case r of None \<Rightarrow> MRet | Some e \<Rightarrow> MThrow e)
        in if cx_roomId c \<noteq> [] \<and> cx_eventId c \<noteq> [] then MAct (emit MarkedRead) (\<lambda>_. out) else out))"

text \<open>
  The loop of \<open>rateLimitBackoff\<close>; its first argument is how many retries are left, the
  second the value of \<open>attempt\<close>.
\<close>

type_synonym 'u on_retry = "ctx \<Rightarrow> int \<Rightarrow> nat \<Rightarrow> 'u world \<Rightarrow> js_error option \<times> 'u world"

definition backoff_wait :: "int \<Rightarrow> int \<Rightarrow> int" where
  "backoff_wait cap retryAfterMs = min (max 0 retryAfterMs) cap"

primrec backoff_loop :: "int \<Rightarrow> 'u on_retry option \<Rightarrow> ctx \<Rightarrow> nat \<Rightarrow> nat \<Rightarrow> 'u world mcode" where
  "backoff_loop cap onRetry c 0 att = MNext (\<lambda>r. case r of None \<Rightarrow> MRet | Some e \<Rightarrow> MThrow e)"
| "backoff_loop cap onRetry c (Suc left) att =
     MNext (\<lambda>r. case r of
       None \<Rightarrow> MRet
     | Some (RateLimitedError ms _ _) \<Rightarrow>
         (let go = sleep (backoff_wait cap ms) (backoff_loop cap onRetry c left (att + 1))
          in case onRetry of None \<Rightarrow> go | Some f \<Rightarrow> await_call (f c (backoff_wait cap ms) (att + 1)) go)
     | Some e \<Rightarrow> MThrow e)"

definition rateLimitBackoff :: "int option \<Rightarrow> int option \<Rightarrow> 'u on_retry option \<Rightarrow> 'u world middleware" where
  "rateLimitBackoff maxRetries maxRetryAfterMs onRetry c =
     backoff_loop (max 0 (case maxRetryAfterMs of None \<Rightarrow> 30000 | Some n \<Rightarrow> n)) onRetry c
       (nat (max 0 (case maxRetries of None \<Rightarrow> 1 | Some n \<Rightarrow> n))) 0"

section \<open>once\<close>

definition once_tryAdd :: "string \<Rightarrow> int option \<Rightarrow> int \<Rightarrow> (string, int) lru \<Rightarrow> bool \<times> (string, int) lru" where
  "once_tryAdd key ttlMs now seen =
     (case lru_get key seen of
        (expires, c1) \<Rightarrow>
          (case expires of
             Some t \<Rightarrow> (if now < t then (False, c1)
                        else (True, lru_set key (now + (case ttlMs of Some n \<Rightarrow> n | None \<Rightarrow> 86400000)) c1))
           | None \<Rightarrow> (True, lru_set key (now + (case ttlMs of Some n \<Rightarrow> n | None \<Rightarrow> 86400000)) c1)))"

text \<open>A store is given as its \<open>tryAdd\<close>; \<open>memory_once\<close> is the default one.\<close>

type_synonym 'w once_store = "string \<Rightarrow> int \<Rightarrow> 'w \<Rightarrow> (js_error, bool) sum \<times> 'w"

definition memory_once :: "nat \<Rightarrow> 'u world once_store" where
  "memory_once inst key ttlMs w =
     (case once_tryAdd key (Some ttlMs) (w_now w) (w_once w inst) of
        (added, c) \<Rightarrow> (Inr added, w\<lparr>w_once := (w_once w)(inst := c)\<rparr>))"

definition once :: "'w once_store \<Rightarrow> int option \<Rightarrow> (ctx \<Rightarrow> string) \<Rightarrow> 'w middleware" where
  "once store ttlMs keyOf c =
     (let ttl = max 1 (case ttlMs of None \<Rightarrow> 86400000 | Some n \<Rightarrow> n); key = keyOf c
      in if key = [] then await_next MRet
         else MAct (\<lambda>w. snd (store key ttl w))
           (\<lambda>w. case fst (store key ttl w) of
              Inl e \<Rightarrow> MThrow e
            | Inr False \<Rightarrow> MRet
            | Inr True \<Rightarrow> await_next MRet))"

section \<open>errorReply and userFacingErrors\<close>

definition errorReply :: "string option \<Rightarrow> bool option \<Rightarrow> bool \<Rightarrow> 'u world middleware" where
  "errorReply text notice swallow c =
     MNext (\<lambda>r. case r of
       None \<Rightarrow> MRet
     | Some e \<Rightarrow>
         MAct (emit (Answered (case text of Some t \<Rightarrow> t
             | None \<Rightarrow> ''Something went wrong handling that. Please try again.'') (notice \<noteq> Some False)))
           (\<lambda>_. if swallow then MRet else MThrow e))"

definition userFacingErrors ::
  "(js_error \<Rightarrow> string option) option \<Rightarrow> bool option \<Rightarrow> bool \<Rightarrow> 'u world middleware" where
  "userFacingErrors custom notice swallow c =
     MNext (\<lambda>r. case r of
       None \<Rightarrow> MRet
     | Some e \<Rightarrow>
         (let text = (case (case custom of None \<Rightarrow> None | Some f \<Rightarrow> f e) of
                        Some t \<Rightarrow> t | None \<Rightarrow> me_text (mapBotError e));
              out = (if swallow then MRet else MThrow e)
          in if text \<noteq> [] then MAct (emit (Answered text (notice \<noteq> Some False))) (\<lambda>_. out) else out))"

section \<open>Properties of the throttle\<close>

text \<open>
  Reads and writes of the cache are exact while the keys in use fit: then a record is what
  its own key's updates made it, and no other key has a say.
\<close>

definition keys_within :: "string set \<Rightarrow> (string, 'v) lru \<Rightarrow> bool" where
  "keys_within K c \<longleftrightarrow> lru_inv c \<and> set (lru_keys c) \<subseteq> K \<and> finite K \<and> int (card K) \<le> lru_capacity c"

lemma distinct_length_within:
  "distinct xs \<Longrightarrow> set xs \<subseteq> K \<Longrightarrow> finite K \<Longrightarrow> length xs \<le> card K"
  by (metis card_mono distinct_card)

lemma lru_set_exact:
  assumes "keys_within K c" and "k \<in> K"
  shows "lru_map (lru_set k v c) = jm_del k (lru_map c) @ [(k, v)]"
proof -
  let ?d = "jm_del k (lru_map c)"
  have wf: "jm_wf (lru_map c)" and sub: "fst ` set (lru_map c) \<subseteq> K" and K: "finite K"
    and cap: "int (card K) \<le> lru_capacity c"
    using assms(1) by (auto simp: keys_within_def lru_inv_def lru_keys_def)
  have d: "(if jm_has (lru_map c) k then ?d else lru_map c) = ?d"
    by (simp add: jm_has_iff delete_absent)
  have "distinct (map fst (?d @ [(k, v)]))" using wf by simp
  moreover have "set (map fst (?d @ [(k, v)])) \<subseteq> K" using sub assms(2) by auto
  ultimately have "length (map fst (?d @ [(k, v)])) \<le> card K"
    by (rule distinct_length_within) (rule K)
  then have "jm_evict (lru_capacity c + 1) (?d @ [(k, v)]) = ?d @ [(k, v)]"
    using cap by (intro jm_evict_id) simp
  then show ?thesis by (simp add: lru_set_def Let_def d update_absent)
qed

lemma keys_within_set:
  assumes "keys_within K c" and "k \<in> K"
  shows "keys_within K (lru_set k v c)" and "lru_view (lru_set k v c) = (lru_view c)(k := Some v)"
proof -
  note m = lru_set_exact [OF assms]
  show "keys_within K (lru_set k v c)"
    using assms by (auto simp: keys_within_def lru_keys_def m)
  show "lru_view (lru_set k v c) = (lru_view c)(k := Some v)"
    by (auto simp: lru_view_def m fun_eq_iff map_add_def delete_conv' split: option.split)
qed

lemma keys_within_get:
  assumes "keys_within K c"
  shows "keys_within K (snd (lru_get k c))"
proof -
  have "set (lru_keys (snd (lru_get k c))) = set (lru_keys c)"
  proof (cases "jm_get (lru_map c) k")
    case (Some v)
    then have "k \<in> fst ` set (lru_map c)" by (metis map_of_eq_None_iff option.distinct(1))
    with Some show ?thesis by (auto simp: lru_get_def lru_keys_def)
  qed (simp add: lru_get_def)
  with assms show ?thesis by (simp add: keys_within_def)
qed

lemma keys_within_put:
  assumes "keys_within K c" and "jm_has (lru_map c) k"
  shows "keys_within K (c\<lparr>lru_map := jm_set k v (lru_map c)\<rparr>)"
    and "lru_view (c\<lparr>lru_map := jm_set k v (lru_map c)\<rparr>) = (lru_view c)(k := Some v)"
proof -
  have "k \<in> set (jm_keys (lru_map c))" using assms(2) by (simp add: jm_has_iff)
  with assms(1) show "keys_within K (c\<lparr>lru_map := jm_set k v (lru_map c)\<rparr>)"
    by (auto simp: keys_within_def lru_inv_def lru_keys_def length_update)
  show "lru_view (c\<lparr>lru_map := jm_set k v (lru_map c)\<rparr>) = (lru_view c)(k := Some v)"
    by (auto simp: lru_view_def update_conv' fun_eq_iff)
qed

text \<open>One step of the throttle is the decision on the key's own record.\<close>

lemma throttle_step_view:
  assumes "keys_within K c" and "key \<in> K"
  shows "fst (throttle_step lim win key now c) = fst (throttle_decide lim win now (lru_view c key))"
    and "keys_within K (snd (throttle_step lim win key now c))"
    and "lru_view (snd (throttle_step lim win key now c)) =
           (lru_view c)(key := Some (snd (throttle_decide lim win now (lru_view c key))))"
proof -
  obtain v r where d: "throttle_decide lim win now (lru_view c key) = (v, r)" by fastforce
  obtain c1 where get: "lru_get key c = (lru_view c key, c1)" by (metis lru_get_view prod.collapse)
  have K: "keys_within K c1" using keys_within_get [OF assms(1), of key] by (simp add: get)
  have view: "lru_view c1 = lru_view c" using lru_view_get [of key c] by (simp add: get)
  have put: "jm_has (lru_map c1) key" if "lru_view c key = Some r0" for r0
    using that view by (metis jm_has_def lru_view_def option.distinct(1))
  have step: "throttle_step lim win key now c =
    (v, if lru_view c key = None \<or> win \<le> now - tr_windowStart (the (lru_view c key))
        then lru_set key r c1 else c1\<lparr>lru_map := jm_set key r (lru_map c1)\<rparr>)"
    by (simp add: throttle_step_def get d)
  show "fst (throttle_step lim win key now c) = fst (throttle_decide lim win now (lru_view c key))"
    by (simp add: step d)
  show "keys_within K (snd (throttle_step lim win key now c))"
    using keys_within_set(1) [OF K assms(2)] keys_within_put(1) [OF K] put by (auto simp: step)
  show "lru_view (snd (throttle_step lim win key now c)) =
          (lru_view c)(key := Some (snd (throttle_decide lim win now (lru_view c key))))"
    using keys_within_set(2) [OF K assms(2)] keys_within_put(2) [OF K] put by (auto simp: step d view)
qed

text \<open>A sequence of updates, each a key and a time, and the verdicts on them.\<close>

primrec throttle_run ::
  "int \<Rightarrow> int \<Rightarrow> (string \<times> int) list \<Rightarrow> (string, throttle_record) lru \<Rightarrow> verdict list" where
  "throttle_run lim win [] c = []"
| "throttle_run lim win (u # us) c =
     (case throttle_step lim win (fst u) (snd u) c of (v, c') \<Rightarrow> v # throttle_run lim win us c')"

text \<open>The reference: one key alone, its record passed from update to update.\<close>

primrec key_run :: "int \<Rightarrow> int \<Rightarrow> int list \<Rightarrow> throttle_record option \<Rightarrow> verdict list" where
  "key_run lim win [] r = []"
| "key_run lim win (t # ts) r =
     (case throttle_decide lim win t r of (v, r') \<Rightarrow> v # key_run lim win ts (Some r'))"

definition of_key :: "string \<Rightarrow> (string \<times> int) list \<Rightarrow> 'v list \<Rightarrow> 'v list" where
  "of_key k us vs = map snd (filter (\<lambda>(u, v). fst u = k) (zip us vs))"

definition times_of :: "string \<Rightarrow> (string \<times> int) list \<Rightarrow> int list" where
  "times_of k us = map snd (filter (\<lambda>u. fst u = k) us)"

lemma throttle_run_key:
  assumes "keys_within K c" and "fst ` set us \<subseteq> K"
  shows "of_key k us (throttle_run lim win us c) = key_run lim win (times_of k us) (lru_view c k)"
  using assms
proof (induction us arbitrary: c)
  case Nil
  then show ?case by (simp add: of_key_def times_of_def)
next
  case (Cons u us)
  obtain key now where u: "u = (key, now)" by fastforce
  with Cons.prems have key: "key \<in> K" by simp
  note V = throttle_step_view [OF Cons.prems(1) key, of lim win now]
  obtain v c' where s: "throttle_step lim win key now c = (v, c')" by fastforce
  obtain d r where d: "throttle_decide lim win now (lru_view c key) = (d, r)" by fastforce
  have IH: "of_key k us (throttle_run lim win us c') = key_run lim win (times_of k us) (lru_view c' k)"
    using Cons.IH [of c'] V(2) Cons.prems(2) s by simp
  show ?case
  proof (cases "k = key")
    case True
    with V s d IH show ?thesis by (simp add: u of_key_def times_of_def)
  next
    case False
    with V(3) s d IH show ?thesis by (simp add: u of_key_def times_of_def)
  qed
qed

text \<open>
  While the keys in use fit the cache, the verdicts on the updates of
  one key are those of a throttle that only ever sees that key: a flood under other keys
  neither drops nor admits any of its updates.
\<close>

theorem throttle_keys_independent:
  assumes "keys_within K c" and "fst ` set us \<subseteq> K"
  shows "of_key k us (throttle_run lim win us c) = key_run lim win (times_of k us) (lru_view c k)"
  by (rule throttle_run_key [OF assms])

text \<open>How many updates with a time in the interval from \<open>a\<close>, of the window's length, pass.\<close>

definition passes_in :: "int \<Rightarrow> int \<Rightarrow> int list \<Rightarrow> verdict list \<Rightarrow> int" where
  "passes_in a win ts vs =
     int (length (filter (\<lambda>(t, v). v = Pass \<and> a \<le> t \<and> t < a + win) (zip ts vs)))"

lemma passes_in_simps [simp]:
  "passes_in a win [] vs = 0"
  "passes_in a win (t # ts) (v # vs) =
     (if v = Pass \<and> a \<le> t \<and> t < a + win then 1 else 0) + passes_in a win ts vs"
  by (simp_all add: passes_in_def)

lemma passes_in_after: "\<forall>t \<in> set ts. a + win \<le> t \<Longrightarrow> passes_in a win ts (key_run lim win ts r) = 0"
  by (induction ts arbitrary: r) (simp_all split: prod.split)

text \<open>The cases of the decision on an existing record.\<close>

lemma throttle_decide_cases:
  obtains (fresh) "win \<le> t - tr_windowStart r" and
      "throttle_decide lim win t (Some r) = (Pass, \<lparr>tr_windowStart = t, tr_count = 1, tr_notified = False\<rparr>)"
    | (pass) "t - tr_windowStart r < win" and "tr_count r < lim" and
      "throttle_decide lim win t (Some r) = (Pass, r\<lparr>tr_count := tr_count r + 1\<rparr>)"
    | (drop) m r' where "t - tr_windowStart r < win" and "lim \<le> tr_count r" and
      "throttle_decide lim win t (Some r) = (Drop m, r')" and "tr_windowStart r' = tr_windowStart r" and
      "tr_count r' = tr_count r + 1"
proof (cases "win \<le> t - tr_windowStart r")
  case True
  then show thesis by (intro fresh) (simp_all add: throttle_decide_def)
next
  case False
  show thesis
  proof (cases "tr_count r < lim")
    case True
    with False show thesis by (intro pass) (simp_all add: throttle_decide_def Let_def)
  next
    case le: False
    show thesis
    proof (cases "tr_notified r")
      case True
      with False le show thesis
        by (intro drop [of None "r\<lparr>tr_count := tr_count r + 1\<rparr>"]) (simp_all add: throttle_decide_def Let_def)
    next
      case not: False
      with False le show thesis
        by (intro drop [of "Some (tr_windowStart r + win - t)" "r\<lparr>tr_count := tr_count r + 1, tr_notified := True\<rparr>"])
          (simp_all add: throttle_decide_def Let_def)
    qed
  qed
qed

text \<open>A window that started in the interval is the last one that counts there.\<close>

lemma passes_in_current:
  "sorted ts \<Longrightarrow> a \<le> tr_windowStart r \<Longrightarrow>
     passes_in a win ts (key_run lim win ts (Some r)) \<le> max 0 (lim - tr_count r)"
proof (induction ts arbitrary: r)
  case (Cons t ts)
  show ?case
  proof (cases rule: throttle_decide_cases [of win t r lim])
    case fresh
    then have "\<forall>u \<in> set ts. a + win \<le> u" using Cons.prems by fastforce
    from passes_in_after [OF this] fresh Cons.prems show ?thesis by simp
  next
    case pass
    with Cons.IH [of "r\<lparr>tr_count := tr_count r + 1\<rparr>"] Cons.prems show ?thesis by simp
  next
    case (drop m r')
    with Cons.IH [of r'] Cons.prems show ?thesis by simp
  qed
qed simp

text \<open>A window that started before it leaves what it has left, plus one full window.\<close>

lemma passes_in_previous:
  "sorted ts \<Longrightarrow> \<forall>t \<in> set ts. a \<le> t \<Longrightarrow> 1 \<le> lim \<Longrightarrow>
     passes_in a win ts (key_run lim win ts (Some r)) \<le> max 0 (lim - tr_count r) + lim"
proof (induction ts arbitrary: r)
  case (Cons t ts)
  show ?case
  proof (cases rule: throttle_decide_cases [of win t r lim])
    case fresh
    with passes_in_current [of ts a "\<lparr>tr_windowStart = t, tr_count = 1, tr_notified = False\<rparr>" win lim] Cons.prems
    show ?thesis by (simp add: max_def)
  next
    case pass
    with Cons.IH [of "r\<lparr>tr_count := tr_count r + 1\<rparr>"] Cons.prems show ?thesis by simp
  next
    case (drop m r')
    with Cons.IH [of r'] Cons.prems show ?thesis by simp
  qed
qed simp

lemma passes_in_any:
  "sorted ts \<Longrightarrow> 1 \<le> lim \<Longrightarrow> 1 \<le> tr_count r \<Longrightarrow>
     passes_in a win ts (key_run lim win ts (Some r)) \<le> 2 * lim - 1"
proof (induction ts arbitrary: r)
  case (Cons t ts)
  show ?case
  proof (cases "a \<le> t")
    case True
    then have "\<forall>u \<in> set (t # ts). a \<le> u" using Cons.prems(1) by fastforce
    from passes_in_previous [OF Cons.prems(1) this Cons.prems(2), of win r] Cons.prems(2,3)
    show ?thesis by linarith
  next
    case False
    obtain v r' where d: "throttle_decide lim win t (Some r) = (v, r')" by fastforce
    then have "1 \<le> tr_count r'"
      using Cons.prems(3) by (cases rule: throttle_decide_cases [of win t r lim]) auto
    with Cons.IH [of r'] Cons.prems False d show ?thesis by simp
  qed
qed simp

text \<open>
  The throttle restarts its window at the first update after the old one, so
  it is a fixed window: in any interval of the window's length at most \<open>2 * limit - 1\<close>
  updates of a key pass, and the witness below reaches that, more than the limit.
\<close>

theorem throttle_rate_bound:
  assumes "sorted ts" and "1 \<le> lim"
  shows "passes_in a win ts (key_run lim win ts None) \<le> 2 * lim - 1"
proof (cases ts)
  case Nil
  with assms show ?thesis by simp
next
  case (Cons t us)
  let ?r = "\<lparr>tr_windowStart = t, tr_count = 1, tr_notified = False\<rparr>"
  have d: "throttle_decide lim win t None = (Pass, ?r)" by (simp add: throttle_decide_def)
  show ?thesis
  proof (cases "a \<le> t")
    case True
    with passes_in_current [of us a ?r win lim] assms Cons d show ?thesis by simp
  next
    case False
    with passes_in_any [of us lim ?r a win] assms Cons d show ?thesis by simp
  qed
qed

theorem throttle_rate_bound_witness:
  "passes_in 9 10 [0, 9, 10, 11] (key_run 2 10 [0, 9, 10, 11] None) \<le> 3 \<and>
   passes_in 9 10 [0, 9, 10, 11] (key_run 2 10 [0, 9, 10, 11] None) = 3"
  using throttle_rate_bound [of "[0, 9, 10, 11]" 2 9 10]
  by (simp add: throttle_decide_def)

lemma keys_within_new: "lru_new cap = Inr c \<Longrightarrow> finite K \<Longrightarrow> int (card K) \<le> cap \<Longrightarrow> keys_within K c"
  by (auto simp: lru_new_def keys_within_def lru_inv_def lru_keys_def split: if_splits)

theorem throttle_keys_independent_witness:
  "of_key ''a'' [(''a'', 0), (''b'', 1), (''a'', 2), (''b'', 3), (''a'', 4)]
     (throttle_run 2 10 [(''a'', 0), (''b'', 1), (''a'', 2), (''b'', 3), (''a'', 4)]
       \<lparr>lru_capacity = 2, lru_map = []\<rparr>) = [Pass, Pass, Drop (Some 6)]"
proof -
  have "keys_within {''a'', ''b''} \<lparr>lru_capacity = 2, lru_map = []\<rparr>"
    by (rule keys_within_new [of 2]) (simp_all add: lru_new_def)
  from throttle_keys_independent [OF this, where k = "''a''" and lim = 2 and win = 10 and
    us = "[(''a'', 0), (''b'', 1), (''a'', 2), (''b'', 3), (''a'', 4)]"]
  show ?thesis by (simp add: times_of_def lru_view_def throttle_decide_def)
qed

section \<open>Properties of the other middlewares\<close>

text \<open>The first middleware of a chain runs on the rest of it.\<close>

lemma runChain_Cons:
  "runChain (m # ms) c h w = run_mcode (m c) (dispatch ms c h 1) (enter 0 (chain_init w))"
  by (simp add: runChain_def chain_init_def)

lemma next_spent:
  assumes "dispatch ms c h 1 (enter 0 (chain_init w)) = (r, st)"
  shows "dispatch ms c h 1 (st\<lparr>cs_world := w'\<rparr>) = (Some NextCalledTwice, st\<lparr>cs_world := w'\<rparr>)"
proof -
  have "chain_inv (Suc (length ms)) (enter 0 (chain_init w))"
    by (simp add: chain_inv_def chain_init_def)
  from dispatch_inv [OF this, of 1 ms c h] assms have "1 \<le> cs_index st" by simp
  then show ?thesis by (intro dispatch_refused) simp
qed

text \<open>
  \<open>rateLimitBackoff\<close> cannot retry: when what follows it in the chain fails with
  a rate limit error and a retry is left, it waits and calls \<open>next()\<close> again, which the
  chain refuses; the handler does not run a second time and the rate limit error is lost,
  replaced by the error about the second call.
\<close>

theorem backoff_never_retries:
  assumes "dispatch ms c h 1 (enter 0 (chain_init w)) = (Some (RateLimitedError after mtd path), st)"
    and "0 < retries"
  shows "runChain (rateLimitBackoff (Some retries) cap None # ms) c h w =
    (Some NextCalledTwice, st\<lparr>cs_world := (cs_world st)\<lparr>w_now := w_now (cs_world st) +
      max 0 (backoff_wait (max 0 (case cap of None \<Rightarrow> 30000 | Some n \<Rightarrow> n)) after)\<rparr>\<rparr>)"
proof -
  obtain n where n: "nat (max 0 retries) = Suc n"
    using assms(2) by (metis gr0_implies_Suc max.absorb2 order_less_imp_le zero_less_nat_eq)
  have again: "run_mcode (backoff_loop cap' None c n (Suc 0)) (dispatch ms c h 1) (st\<lparr>cs_world := w'\<rparr>) =
    (Some NextCalledTwice, st\<lparr>cs_world := w'\<rparr>)" for cap' w'
    using next_spent [OF assms(1)] by (cases n) simp_all
  show ?thesis
    by (simp add: runChain_Cons rateLimitBackoff_def n assms(1) sleep_def again)
qed

definition demo_world :: "nat world" where
  "demo_world = \<lparr>w_now = 0, w_throttles = (\<lambda>_. \<lparr>lru_capacity = 10000, lru_map = []\<rparr>),
     w_once = (\<lambda>_. \<lparr>lru_capacity = 10000, lru_map = []\<rparr>), w_translator = None, w_effects = [], w_user = 0\<rparr>"

text \<open>A handler that fails with a rate limit at its first run and would succeed at the second.\<close>

definition flaky :: "nat world handler_fn" where
  "flaky c w =
     (if w_user w = 0 then (Some (RateLimitedError 50 ''PUT'' ''/send''), w\<lparr>w_user := 1\<rparr>) else (None, w\<lparr>w_user := 2\<rparr>))"

theorem backoff_never_retries_witness:
  "fst (runChain [rateLimitBackoff (Some 1) None None] (demo_ctx U_message) (centre flaky) demo_world) =
     Some NextCalledTwice \<and>
   w_user (cs_world (snd (runChain [rateLimitBackoff (Some 1) None None] (demo_ctx U_message) (centre flaky)
     demo_world))) = 1"
proof -
  have "dispatch [] (demo_ctx U_message) (centre flaky) 1 (enter 0 (chain_init demo_world)) =
    (Some (RateLimitedError 50 ''PUT'' ''/send''),
     (enter 1 (enter 0 (chain_init demo_world)))
       \<lparr>cs_world := demo_world\<lparr>w_user := 1\<rparr>, cs_result := Some ()\<rparr>)"
    by (simp add: centre_def flaky_def demo_world_def chain_init_def enter_def)
  from backoff_never_retries [OF this, of 1 None] show ?thesis by simp
qed

text \<open>
  \<open>accessControl\<close> keeps an update out: nothing behind it is entered and the
  world is as it was, exactly for the senders that are denied, or on neither list of those
  allowed; every other update goes to the rest of the chain.
\<close>

theorem access_control_gate:
  "runChain (accessControl opts None # ms) c h w =
     (if access_allowed opts (cx_senderId c)
      then dispatch ms c h 1 (enter 0 (chain_init w))
      else (None, enter 0 (chain_init w)))"
  by (cases "dispatch ms c h 1 (enter 0 (chain_init w))")
    (simp add: runChain_Cons accessControl_def await_next_def split: option.split)

lemma second_piece_host:
  assumes "CHR '':'' \<notin> set u" and "CHR '':'' \<notin> set host"
  shows "second_piece (u @ CHR '':'' # host @ CHR '':'' # port) = host"
proof -
  have "dropWhile (\<lambda>c. c \<noteq> CHR '':'') (u @ CHR '':'' # host @ CHR '':'' # port) = CHR '':'' # host @ CHR '':'' # port"
    using assms(1) by (subst dropWhile_append2) auto
  moreover have "takeWhile (\<lambda>c. c \<noteq> CHR '':'') (host @ CHR '':'' # port) = host"
    using assms(2) by (subst takeWhile_append2) auto
  ultimately show ?thesis by (simp add: second_piece_def)
qed

text \<open>
  \<open>allowServers\<close> compares the host part of a user id only: a server name
  with a port is never matched by its own name, and its users are let in by the bare host
  name, which in Matrix is another server.
\<close>

theorem access_server_ignores_port:
  assumes "CHR '':'' \<notin> set u" and "CHR '':'' \<notin> set host" and "host \<noteq> []"
  shows "access_allowed \<lparr>ac_allow = None, ac_deny = None, ac_allowServers = Some [host]\<rparr>
           (u @ CHR '':'' # host @ CHR '':'' # port) \<and>
         \<not> access_allowed \<lparr>ac_allow = None, ac_deny = None,
             ac_allowServers = Some [host @ CHR '':'' # port]\<rparr> (u @ CHR '':'' # host @ CHR '':'' # port)"
proof -
  obtain x r where host: "host = x # r" using assms(3) by (cases host) auto
  have strip: "strip_colon host = host" "strip_colon (host @ CHR '':'' # port) = host @ CHR '':'' # port"
    using assms(2) by (auto simp: host strip_colon_def)
  note piece = second_piece_host [OF assms(1,2), of port]
  have "js_lower host \<noteq> js_lower (host @ CHR '':'' # port)" by (simp add: js_lower_def)
  then show ?thesis by (simp add: access_allowed_def piece strip)
qed

theorem access_server_ignores_port_witness:
  "access_allowed \<lparr>ac_allow = None, ac_deny = None, ac_allowServers = Some [''a.org'']\<rparr> ''@eve:a.org:8448''"
  using access_server_ignores_port [of "''@eve''" "''a.org''" "''8448''"] by simp

text \<open>The memory once store: a key that was added is refused until its entry expires.\<close>

lemma once_refuses:
  assumes "lru_inv c" and "once_tryAdd key ttl now c = (True, c')"
    and "t < now + (case ttl of Some n \<Rightarrow> n | None \<Rightarrow> 86400000)"
  shows "\<not> fst (once_tryAdd key ttl' t c')"
proof -
  let ?e = "now + (case ttl of Some n \<Rightarrow> n | None \<Rightarrow> 86400000)"
  obtain x c1 where get: "lru_get key c = (x, c1)" by fastforce
  then have inv: "lru_inv c1" using lru_inv_get [OF assms(1), of key] by simp
  have "c' = lru_set key ?e c1"
    using assms(2) by (auto simp: once_tryAdd_def get split: option.splits if_splits)
  then have "fst (lru_get key c') = Some ?e"
    by (simp only: lruc.read_your_write [OF inv])
  then show ?thesis
    using assms(3) by (cases "lru_get key c'") (simp add: once_tryAdd_def)
qed

lemma skipSelf_drops:
  "cx_senderId c = me \<Longrightarrow> me \<noteq> [] \<Longrightarrow>
     runChain (skipSelf me # ms) c h w = (None, enter 0 (chain_init w))"
  by (simp add: runChain_Cons skipSelf_def)

text \<open>A template without braces is not changed.\<close>

lemma substitute_plain: "CHR ''{'' \<notin> set s \<Longrightarrow> substitute ps s = s"
  by (induction s) (auto simp: Let_def)

end
