(* ===== verification/Initdata.thy ===== *)
theory Initdata
  imports Errors Url_Encoded Token_Store
begin

text \<open>
  \<^verbatim>\<open>src/miniapp/initdata.ts\<close>: the signed launch payload of a MiniApp, its validation and
  the store of used nonces.

  HMAC-SHA-256 is the parameter \<open>hmac\<close> (key bytes, message bytes, digest bytes), JSON
  texts are read and written by the parameters \<open>parse\<close> and \<open>stringify\<close>, and the URL
  parser is the parameter \<open>url_of\<close>. A nonce store is a record of its two operations; the
  contract of one is the locale \<open>nonce_store\<close>.
\<close>

type_synonym hmac_fn = "nat list \<Rightarrow> nat list \<Rightarrow> nat list"

definition INIT_DATA_HMAC_SALT :: string where
  "INIT_DATA_HMAC_SALT = ''MatrixWebAppData''"

definition DEFAULT_INIT_DATA_TTL_SECONDS :: int where
  "DEFAULT_INIT_DATA_TTL_SECONDS = 3600"

section \<open>Signing\<close>

definition deriveSigningKey :: "hmac_fn \<Rightarrow> string \<Rightarrow> nat list" where
  "deriveSigningKey hmac secret = hmac (utf8 INIT_DATA_HMAC_SALT) (utf8 secret)"

definition buildDataCheckString :: "(string \<times> string) list \<Rightarrow> string" where
  "buildDataCheckString params =
     js_join [char_of (10 :: nat)]
       (map (\<lambda>(k, v). k @ ''='' @ v) (sort_key fst (filter (\<lambda>(k, v). k \<noteq> ''hash'') params)))"

definition computeHash :: "hmac_fn \<Rightarrow> string \<Rightarrow> string \<Rightarrow> string" where
  "computeHash hmac secret dataCheckString =
     to_hex (hmac (deriveSigningKey hmac secret) (utf8 dataCheckString))"

record init_payload =
  ip_user :: json
  ip_room :: "json option"
  ip_query_id :: "string option"
  ip_start_param :: "string option"
  ip_message_id :: "string option"
  ip_bot_id :: "string option"
  ip_auth_date :: "int option"
  ip_nonce :: "string option"

datatype loose_value = LooseJson json | LooseNumber int | LooseText string

record signed_init_data =
  si_initData :: string
  si_unsafe :: "(string, loose_value) jsmap"
  si_expiresAtMs :: int

text \<open>
  \<open>Number(s)\<close> on an integer literal, with white space around it; the empty text is zero.
  Fractions, exponents and other notations are read as \<open>NaN\<close> here; \<open>createInitData\<close>
  writes none of them.
\<close>

definition js_number :: "string \<Rightarrow> int option" where
  "js_number s =
     (let t = js_trim s; digits = (\<lambda>d. d \<noteq> [] \<and> list_all ascii_digit d)
      in if t = [] then Some 0
         else if digits t then Some (int (dec_value t))
         else if hd t = CHR ''-'' \<and> digits (tl t) then Some (- int (dec_value (tl t)))
         else if hd t = CHR ''+'' \<and> digits (tl t) then Some (int (dec_value (tl t)))
         else None)"

definition loose :: "(string \<Rightarrow> json option) \<Rightarrow> string \<Rightarrow> string \<Rightarrow> loose_value" where
  "loose parse key value =
     (if key \<in> {''user'', ''room''} \<and> parse value \<noteq> None then LooseJson (the (parse value))
      else if key = ''auth_date'' then
        (case js_number value of Some n \<Rightarrow> LooseNumber n | None \<Rightarrow> LooseText value)
      else LooseText value)"

definition parseInitDataLoose ::
  "(string \<Rightarrow> json option) \<Rightarrow> (string \<times> string) list \<Rightarrow> (string, loose_value) jsmap" where
  "parseInitDataLoose parse params = fold (\<lambda>(k, v). jm_set k (loose parse k v)) params []"

text \<open>\<open>if (value) params.set(key, value)\<close>: an empty text is not set.\<close>

definition set_some :: "string \<Rightarrow> string option \<Rightarrow> (string \<times> string) list \<Rightarrow> (string \<times> string) list" where
  "set_some key v params =
     (case v of None \<Rightarrow> params | Some s \<Rightarrow> if s = [] then params else jm_set key s params)"

definition payload_params ::
  "(json \<Rightarrow> string) \<Rightarrow> init_payload \<Rightarrow> int \<Rightarrow> string \<Rightarrow> (string \<times> string) list" where
  "payload_params stringify p authDate nonce =
     (let ps = jm_set ''user'' (stringify (ip_user p))
                 (jm_set ''nonce'' nonce (jm_set ''auth_date'' (int_dec authDate) []))
      in set_some ''bot_id'' (ip_bot_id p)
           (set_some ''message_id'' (ip_message_id p)
             (set_some ''start_param'' (ip_start_param p)
               (set_some ''query_id'' (ip_query_id p)
                 (case ip_room p of None \<Rightarrow> ps | Some r \<Rightarrow> jm_set ''room'' (stringify r) ps)))))"

definition createInitData ::
  "hmac_fn \<Rightarrow> (json \<Rightarrow> string) \<Rightarrow> (string \<Rightarrow> json option) \<Rightarrow> int \<Rightarrow> string \<Rightarrow>
    init_payload \<Rightarrow> string \<Rightarrow> int option \<Rightarrow> (js_error, signed_init_data) sum" where
  "createInitData hmac stringify parse nowMs fresh p secret ttlSeconds =
     (if length secret < 16 then
        Inl (MiniAppAuthError ''MiniApp secret must be at least 16 characters of high-entropy data'' Malformed)
      else
        (let authDate = (case ip_auth_date p of Some d \<Rightarrow> d | None \<Rightarrow> nowMs div 1000);
             nonce = (case ip_nonce p of Some n \<Rightarrow> n | None \<Rightarrow> fresh);
             params = payload_params stringify p authDate nonce;
             params1 = jm_set ''hash'' (computeHash hmac secret (buildDataCheckString params)) params;
             ttl = (case ttlSeconds of Some t \<Rightarrow> t | None \<Rightarrow> DEFAULT_INIT_DATA_TTL_SECONDS)
         in Inr \<lparr>si_initData = params_toString params1, si_unsafe = parseInitDataLoose parse params1,
                 si_expiresAtMs = (authDate + ttl) * 1000\<rparr>))"

section \<open>Nonce stores\<close>

record 's nonce_ops =
  no_has :: "int \<Rightarrow> string \<Rightarrow> 's \<Rightarrow> bool \<times> 's"
  no_add :: "int \<Rightarrow> string \<Rightarrow> 's \<Rightarrow> 's"

text \<open>
  The contract the replay check relies on: \<open>used s n\<close> is when a nonce was recorded, and a
  nonce is reported for \<open>ttl\<close> after that. \<open>young i s n at\<close> says that \<open>n\<close> was recorded at
  \<open>at\<close> with at most \<open>i\<close> nonces recorded after it; recording another nonce keeps such an
  entry as long as \<open>i\<close> stays below the capacity.
\<close>

locale nonce_store =
  fixes has :: "int \<Rightarrow> string \<Rightarrow> 's \<Rightarrow> bool \<times> 's"
    and add :: "int \<Rightarrow> string \<Rightarrow> 's \<Rightarrow> 's"
    and used :: "'s \<Rightarrow> string \<Rightarrow> int option"
    and young :: "nat \<Rightarrow> 's \<Rightarrow> string \<Rightarrow> int \<Rightarrow> bool"
    and cap :: "'s \<Rightarrow> int"
    and ttl :: int
    and inv :: "'s \<Rightarrow> bool"
  assumes has_iff: "inv s \<Longrightarrow> fst (has now n s) \<longleftrightarrow> (\<exists>at. used s n = Some at \<and> now - at \<le> ttl)"
    and has_absent: "inv s \<Longrightarrow> \<not> fst (has now n s) \<Longrightarrow> used (snd (has now n s)) n = None"
    and has_keeps: "inv s \<Longrightarrow> young i s n at \<Longrightarrow> now - at \<le> ttl \<Longrightarrow> young i (snd (has now n' s)) n at"
    and has_inv: "inv s \<Longrightarrow> inv (snd (has now n s)) \<and> cap (snd (has now n s)) = cap s"
    and add_used: "inv s \<Longrightarrow> used (add now n s) n = Some now"
    and add_young: "inv s \<Longrightarrow> used s n = None \<Longrightarrow> young 0 (add now n s) n now"
    and add_keeps: "inv s \<Longrightarrow> young i s n at \<Longrightarrow> n' \<noteq> n \<Longrightarrow> now - at \<le> ttl \<Longrightarrow> int i + 2 \<le> cap s \<Longrightarrow>
      young (Suc i) (add now n' s) n at"
    and add_inv: "inv s \<Longrightarrow> inv (add now n s) \<and> cap (add now n s) = cap s"
    and young_used: "inv s \<Longrightarrow> young i s n at \<Longrightarrow> used s n = Some at"
begin

lemma forgotten_after: "inv s \<Longrightarrow> ttl < now' - now \<Longrightarrow> \<not> fst (has now' n (add now n s))"
  by (simp add: has_iff add_inv add_used)

lemma young_reported: "inv s \<Longrightarrow> young i s n at \<Longrightarrow> now - at \<le> ttl \<Longrightarrow> fst (has now n s)"
  by (auto simp: has_iff dest: young_used)

text \<open>A nonce is claimed by recording it once it is not reported.\<close>

lemma claim_young:
  assumes "inv s" and "\<not> fst (has now n s)"
  shows "inv (add now n (snd (has now n s)))" and "cap (add now n (snd (has now n s))) = cap s"
    and "young 0 (add now n (snd (has now n s))) n now"
  using has_inv [OF assms(1), of now n] add_inv [of "snd (has now n s)" now n] has_absent [OF assms]
    add_young [of "snd (has now n s)" n now] by auto

lemma claim_keeps:
  assumes "inv s" and "young i s n at" and "now - at \<le> ttl" and "int i + 2 \<le> cap s"
    and "\<not> fst (has now n' s)"
  shows "n' \<noteq> n" and "young (Suc i) (add now n' (snd (has now n' s))) n at"
proof -
  show neq: "n' \<noteq> n" using assms young_reported by blast
  have "inv (snd (has now n' s))" and "cap (snd (has now n' s)) = cap s"
    using has_inv [OF assms(1)] by simp_all
  then show "young (Suc i) (add now n' (snd (has now n' s))) n at"
    using has_keeps [OF assms(1-3)] neq assms(3,4) by (intro add_keeps) simp_all
qed

end

record memory_nonces =
  mn_capacity :: int
  mn_ttlMs :: int
  mn_seen :: "(string, int) jsmap"

definition mn_new :: "int option \<Rightarrow> int option \<Rightarrow> memory_nonces" where
  "mn_new capacity ttlMs =
     \<lparr>mn_capacity = (case capacity of Some c \<Rightarrow> c | None \<Rightarrow> 8192),
      mn_ttlMs = (case ttlMs of Some t \<Rightarrow> t | None \<Rightarrow> DEFAULT_INIT_DATA_TTL_SECONDS * 1000),
      mn_seen = []\<rparr>"

definition mn_has :: "int \<Rightarrow> string \<Rightarrow> memory_nonces \<Rightarrow> bool \<times> memory_nonces" where
  "mn_has now nonce s =
     (case jm_get (mn_seen s) nonce of
        None \<Rightarrow> (False, s)
      | Some at \<Rightarrow>
          (if mn_ttlMs s < now - at then (False, s\<lparr>mn_seen := jm_del nonce (mn_seen s)\<rparr>)
           else (True, s)))"

text \<open>\<open>add\<close> drops the expired entries at the front, then the oldest ones over the capacity.\<close>

definition mn_add :: "int \<Rightarrow> string \<Rightarrow> memory_nonces \<Rightarrow> memory_nonces" where
  "mn_add now nonce s =
     s\<lparr>mn_seen := jm_set nonce now
        (jm_evict (mn_capacity s) (dropWhile (\<lambda>(k, at). mn_ttlMs s < now - at) (mn_seen s)))\<rparr>"

definition mn_size :: "memory_nonces \<Rightarrow> nat" where
  "mn_size s = length (mn_seen s)"

definition memory_nonce_ops :: "memory_nonces nonce_ops" where
  "memory_nonce_ops = \<lparr>no_has = mn_has, no_add = mn_add\<rparr>"

lemma jm_wf_dropWhile [simp]: "jm_wf m \<Longrightarrow> jm_wf (dropWhile P m)"
  by (metis dropWhile_eq_drop distinct_drop drop_map)

lemma jm_young_dropWhile:
  assumes "jm_young i m k v" and "\<not> P (k, v)"
  shows "jm_young i (dropWhile P m) k v"
proof -
  obtain a b where m: "m = a @ (k, v) # b" and i: "length b \<le> i"
    using assms(1) by (auto simp: jm_young_def)
  have "dropWhile P (a @ (k, v) # b) = dropWhile P a @ (k, v) # b"
    using assms(2) by (induction a) simp_all
  then have "dropWhile P m = dropWhile P a @ (k, v) # b" by (simp only: m)
  with i show ?thesis unfolding jm_young_def by blast
qed

text \<open>The stores with the default lifetime, with distinct keys, meet the contract.\<close>

definition mn_inv :: "memory_nonces \<Rightarrow> bool" where
  "mn_inv s \<longleftrightarrow> jm_wf (mn_seen s) \<and> mn_ttlMs s = DEFAULT_INIT_DATA_TTL_SECONDS * 1000"

lemma mn_inv_new: "mn_inv (mn_new capacity None)"
  by (simp add: mn_inv_def mn_new_def)

interpretation mem_nonces: nonce_store mn_has mn_add "\<lambda>s n. jm_get (mn_seen s) n"
  "\<lambda>i s. jm_young i (mn_seen s)" mn_capacity "DEFAULT_INIT_DATA_TTL_SECONDS * 1000" mn_inv
proof unfold_locales
  fix s n n' and i :: nat and at now :: int
  assume inv: "mn_inv s" and young: "jm_young i (mn_seen s) n at"
    and live: "now - at \<le> DEFAULT_INIT_DATA_TTL_SECONDS * 1000"
  show "jm_young i (mn_seen (snd (mn_has now n' s))) n at"
    using jm_young_get [OF young] young live inv
    by (cases "n' = n") (auto simp: mn_has_def mn_inv_def jm_young_delete split: option.splits)
  show "jm_young (Suc i) (mn_seen (mn_add now n' s)) n at" if "n' \<noteq> n" "int i + 2 \<le> mn_capacity s"
  proof -
    have "jm_young i (dropWhile (\<lambda>(k, at). mn_ttlMs s < now - at) (mn_seen s)) n at"
      by (rule jm_young_dropWhile [OF young]) (use live inv in \<open>simp add: mn_inv_def\<close>)
    then have "jm_young i (jm_evict (mn_capacity s) (dropWhile (\<lambda>(k, at). mn_ttlMs s < now - at) (mn_seen s))) n at"
      by (rule jm_young_evict) (use inv that in \<open>simp_all add: mn_inv_def\<close>)
    from jm_young_update [OF this that(1)] show ?thesis by (simp add: mn_add_def)
  qed
next
  fix s n and now :: int
  assume inv: "mn_inv s" and new: "jm_get (mn_seen s) n = None"
  show "jm_young 0 (mn_seen (mn_add now n s)) n now"
    unfolding mn_add_def memory_nonces.simps
  proof (simp, rule jm_young_new)
    let ?m = "dropWhile (\<lambda>(k, at). mn_ttlMs s < now - at) (mn_seen s)"
    have "set (jm_evict (mn_capacity s) ?m) \<subseteq> set ?m"
      by (rule jm_evict_subset) (use inv in \<open>simp add: mn_inv_def\<close>)
    also have "set ?m \<subseteq> set (mn_seen s)"
      by (auto dest: set_dropWhileD)
    finally show "n \<notin> fst ` set (jm_evict (mn_capacity s) ?m)"
      using new by (auto simp: map_of_eq_None_iff)
  qed
next
  fix s n and now at :: int and i :: nat
  assume inv: "mn_inv s"
  show "fst (mn_has now n s) \<longleftrightarrow>
      (\<exists>at. jm_get (mn_seen s) n = Some at \<and> now - at \<le> DEFAULT_INIT_DATA_TTL_SECONDS * 1000)"
    using inv by (simp add: mn_has_def mn_inv_def linorder_not_less split: option.split)
  show "mn_inv (snd (mn_has now n s)) \<and> mn_capacity (snd (mn_has now n s)) = mn_capacity s"
    using inv by (simp add: mn_has_def mn_inv_def split: option.split)
  show "mn_inv (mn_add now n s) \<and> mn_capacity (mn_add now n s) = mn_capacity s"
    using inv by (simp add: mn_add_def mn_inv_def)
  show "jm_get (mn_seen (mn_add now n s)) n = Some now"
    by (simp add: mn_add_def jm_get_update)
  show "jm_get (mn_seen s) n = Some at" if "jm_young i (mn_seen s) n at"
    using that inv by (simp add: jm_young_get mn_inv_def)
  show "jm_get (mn_seen (snd (mn_has now n s))) n = None" if "\<not> fst (mn_has now n s)"
    using that by (simp add: mn_has_def jm_get_delete split: option.splits if_splits)
qed

lemma mn_add_bounded:
  assumes "jm_wf (mn_seen s)" and "1 \<le> mn_capacity s"
  shows "int (mn_size (mn_add now n s)) \<le> mn_capacity s"
proof -
  let ?m = "dropWhile (\<lambda>(k, at). mn_ttlMs s < now - at) (mn_seen s)"
  have "int (length (jm_evict (mn_capacity s) ?m)) < mn_capacity s"
    by (rule jm_evict_size [OF assms(2)])
  then show ?thesis
    by (auto simp: mn_size_def mn_add_def length_update)
qed

section \<open>Validation\<close>

record 's validate_options =
  vo_ttlSeconds :: "int option"
  vo_nonceStore :: "'s nonce_ops option"
  vo_nowMs :: "int option"

record validated =
  vd_user :: json
  vd_room :: "json option"
  vd_queryId :: "string option"
  vd_startParam :: "string option"
  vd_messageId :: "string option"
  vd_botId :: "string option"
  vd_authDate :: int
  vd_nonce :: string
  vd_raw :: "(string, string) jsmap"

text \<open>\<open>params.get(key)\<close> is the first value of the key.\<close>

abbreviation params_get :: "(string \<times> string) list \<Rightarrow> string \<Rightarrow> string option" where
  "params_get \<equiv> map_of"

definition user_of :: "(string \<Rightarrow> json option) \<Rightarrow> string \<Rightarrow> json option" where
  "user_of parse raw =
     (case parse raw of
        None \<Rightarrow> None
      | Some v \<Rightarrow> (case readString v ''id'' of None \<Rightarrow> None | Some i \<Rightarrow> if i = [] then None else Some v))"

definition bad :: "string \<Rightarrow> auth_reason \<Rightarrow> js_error" where
  "bad msg reason = MiniAppAuthError msg reason"

text \<open>The part of the checks before the nonce, the nonce, and what is read after it.\<close>

definition check_signature ::
  "hmac_fn \<Rightarrow> string \<Rightarrow> (string \<times> string) list \<Rightarrow> (js_error, unit) sum" where
  "check_signature hmac secret params =
     (case params_get params ''hash'' of
        None \<Rightarrow> Inl (bad ''initData has no hash'' Missing_hash)
      | Some hash \<Rightarrow>
          (if hash = [] then Inl (bad ''initData has no hash'' Missing_hash)
           else
             (let provided = from_hex hash;
                  computed = from_hex (computeHash hmac secret (buildDataCheckString params))
              in if length provided \<noteq> length computed \<or> provided = [] \<or> provided \<noteq> computed
                 then Inl (bad ''initData signature does not match'' Bad_signature) else Inr ())))"

definition check_date :: "int \<Rightarrow> int \<Rightarrow> (string \<times> string) list \<Rightarrow> (js_error, int) sum" where
  "check_date ttl nowMs params =
     (case (case params_get params ''auth_date'' of None \<Rightarrow> Some 0 | Some s \<Rightarrow> js_number s) of
        None \<Rightarrow> Inl (bad ''initData has no valid auth_date'' Malformed)
      | Some authDate \<Rightarrow>
          (let nowSeconds = nowMs div 1000
           in if authDate \<le> 0 then Inl (bad ''initData has no valid auth_date'' Malformed)
              else if ttl < nowSeconds - authDate then Inl (bad ''initData expired'' Expired)
              else if 60 < authDate - nowSeconds then Inl (bad ''initData auth_date is in the future'' Malformed)
              else Inr authDate))"

definition check_nonce ::
  "'s nonce_ops option \<Rightarrow> int \<Rightarrow> string \<Rightarrow> 's \<Rightarrow> (js_error, unit) sum \<times> 's" where
  "check_nonce ops now nonce s =
     (case ops of
        None \<Rightarrow> (Inr (), s)
      | Some ns \<Rightarrow>
          (if nonce = [] then
             (Inl (bad ''initData has no nonce but replay protection is enabled'' Malformed), s)
           else (case no_has ns now nonce s of
             (True, s1) \<Rightarrow> (Inl (bad ''initData nonce was already used'' Replayed), s1)
           | (False, s1) \<Rightarrow> (Inr (), no_add ns now nonce s1))))"

definition read_fields ::
  "(string \<Rightarrow> json option) \<Rightarrow> (string \<times> string) list \<Rightarrow> int \<Rightarrow> string \<Rightarrow> (js_error, validated) sum" where
  "read_fields parse params authDate nonce =
     (case params_get params ''user'' of
        None \<Rightarrow> Inl (bad ''initData has no user'' Malformed)
      | Some userRaw \<Rightarrow>
          (if userRaw = [] then Inl (bad ''initData has no user'' Malformed)
           else case user_of parse userRaw of
             None \<Rightarrow> Inl (bad ''initData user is not a valid object'' Malformed)
           | Some user \<Rightarrow>
               (case (case params_get params ''room'' of
                        None \<Rightarrow> Inr None
                      | Some r \<Rightarrow>
                          (if r = [] then Inr None
                           else case parse r of
                             None \<Rightarrow> Inl (bad ''initData room is not a valid object'' Malformed)
                           | Some v \<Rightarrow> Inr (if readString v ''id'' \<noteq> None then Some v else None))) of
                  Inl e \<Rightarrow> Inl e
                | Inr room \<Rightarrow>
                    Inr \<lparr>vd_user = user, vd_room = room, vd_queryId = params_get params ''query_id'',
                         vd_startParam = params_get params ''start_param'',
                         vd_messageId = params_get params ''message_id'',
                         vd_botId = params_get params ''bot_id'', vd_authDate = authDate,
                         vd_nonce = nonce, vd_raw = fold (\<lambda>(k, v). jm_set k v) params []\<rparr>)))"

definition validateInitData ::
  "hmac_fn \<Rightarrow> (string \<Rightarrow> json option) \<Rightarrow> string \<Rightarrow> string \<Rightarrow> 's validate_options \<Rightarrow> int \<Rightarrow> 's \<Rightarrow>
    (js_error, validated) sum \<times> 's" where
  "validateInitData hmac parse initData secret opts clock s =
     (if initData = [] then (Inl (bad ''initData is empty'' Malformed), s)
      else
        (let params = params_parse initData;
             ttl = (case vo_ttlSeconds opts of Some t \<Rightarrow> t | None \<Rightarrow> DEFAULT_INIT_DATA_TTL_SECONDS);
             nowMs = (case vo_nowMs opts of Some t \<Rightarrow> t | None \<Rightarrow> clock);
             nonce = (case params_get params ''nonce'' of Some n \<Rightarrow> n | None \<Rightarrow> [])
         in case check_signature hmac secret params of
              Inl e \<Rightarrow> (Inl e, s)
            | Inr _ \<Rightarrow>
                (case check_date ttl nowMs params of
                   Inl e \<Rightarrow> (Inl e, s)
                 | Inr authDate \<Rightarrow>
                     (case check_nonce (vo_nonceStore opts) clock nonce s of
                        (Inl e, s1) \<Rightarrow> (Inl e, s1)
                      | (Inr _, s1) \<Rightarrow> (read_fields parse params authDate nonce, s1)))))"

section \<open>Launch URLs\<close>

record url =
  u_protocol :: string
  u_hostname :: string
  u_origin :: string
  u_hash :: string

definition strip_slashes :: "string \<Rightarrow> string" where
  "strip_slashes s = rev (dropWhile (\<lambda>c. c = CHR ''/'') (rev s))"

definition origin_listed :: "(string \<Rightarrow> url option) \<Rightarrow> string \<Rightarrow> string \<Rightarrow> bool" where
  "origin_listed url_of origin allowed =
     (let trimmed = strip_slashes (js_lower (js_trim allowed))
      in if trimmed = [] then False
         else if trimmed = ''*'' then True
         else (case url_of trimmed of
                 Some u \<Rightarrow> js_lower (u_origin u) = origin
               | None \<Rightarrow> trimmed = origin))"

definition isMiniAppUrlAllowed :: "(string \<Rightarrow> url option) \<Rightarrow> string \<Rightarrow> string list \<Rightarrow> bool" where
  "isMiniAppUrlAllowed url_of u allowedOrigins =
     (case url_of u of
        None \<Rightarrow> False
      | Some parsed \<Rightarrow>
          (let isLocal = (u_hostname parsed \<in> {''localhost'', ''127.0.0.1'', ''[::1]''})
           in if u_protocol parsed \<noteq> ''https:'' \<and> \<not> (u_protocol parsed = ''http:'' \<and> isLocal) then False
              else if allowedOrigins = [] then False
              else list_ex (origin_listed url_of (js_lower (u_origin parsed))) allowedOrigins))"

text \<open>The new fragment of \<open>buildMiniAppLaunchUrl\<close>; the URL around it is the parser's.\<close>

definition launch_fragment :: "string \<Rightarrow> signed_init_data \<Rightarrow> (string, string) jsmap \<Rightarrow> string" where
  "launch_fragment hash signed extra =
     params_toString (fold (\<lambda>(k, v). jm_set k v) extra
       (jm_set ''matrixWebAppData'' (si_initData signed)
         (params_parse (case hash of c # r \<Rightarrow> if c = CHR ''#'' then r else hash | [] \<Rightarrow> []))))"

section \<open>Properties\<close>

lemma sorted_params_update: "filter (\<lambda>(k, v). k \<noteq> key) (jm_set key h ps) = filter (\<lambda>(k, v). k \<noteq> key) ps"
  by (induction ps) auto

text \<open>The signature does not sign itself.\<close>

lemma check_string_hash [simp]:
  "buildDataCheckString (jm_set ''hash'' h ps) = buildDataCheckString ps"
  by (simp add: buildDataCheckString_def sorted_params_update)

lemma set_some_get:
  "params_get (set_some key v ps) k =
     (if k = key \<and> v \<noteq> None \<and> v \<noteq> Some [] then v else params_get ps k)"
  by (auto simp: set_some_def jm_get_update split: option.split)

definition nonempty :: "string option \<Rightarrow> string option" where
  "nonempty v = (if v = Some [] then None else v)"

lemma payload_params_get:
  "params_get (payload_params stringify p d n) ''user'' = Some (stringify (ip_user p))"
  "params_get (payload_params stringify p d n) ''auth_date'' = Some (int_dec d)"
  "params_get (payload_params stringify p d n) ''nonce'' = Some n"
  "params_get (payload_params stringify p d n) ''room'' = map_option stringify (ip_room p)"
  "params_get (payload_params stringify p d n) ''query_id'' = nonempty (ip_query_id p)"
  "params_get (payload_params stringify p d n) ''start_param'' = nonempty (ip_start_param p)"
  "params_get (payload_params stringify p d n) ''message_id'' = nonempty (ip_message_id p)"
  "params_get (payload_params stringify p d n) ''bot_id'' = nonempty (ip_bot_id p)"
  by (auto simp: payload_params_def Let_def set_some_get jm_get_update nonempty_def split: option.split)

lemma nat_dec_ascii_digits: "list_all ascii_digit (nat_dec n)"
  unfolding list_all_iff ascii_digit_def Let_def using nat_dec_digits by fastforce

lemma nat_dec_nonempty: "nat_dec n \<noteq> []"
  by (subst nat_dec.simps) simp

lemma digit_no_space: "ascii_digit c \<Longrightarrow> \<not> js_space c"
  by (auto simp: ascii_digit_def js_space_def Let_def)

lemma js_trim_digits: "list_all ascii_digit s \<Longrightarrow> js_trim s = s"
proof -
  assume d: "list_all ascii_digit s"
  have "dropWhile js_space t = t" if "list_all ascii_digit t" for t
    using that digit_no_space by (cases t) auto
  with d show ?thesis by (simp add: js_trim_def list_all_rev)
qed

lemma js_number_int_dec:
  assumes "0 \<le> d"
  shows "js_number (int_dec d) = Some d"
proof -
  have "int_dec d = nat_dec (nat d)" using assms by (simp add: int_dec_def)
  then show ?thesis
    using assms by (simp add: js_number_def Let_def js_trim_digits nat_dec_ascii_digits nat_dec_nonempty
        dec_value_nat_dec)
qed

text \<open>What a digest is: some bytes.\<close>

definition digest_bytes :: "hmac_fn \<Rightarrow> bool" where
  "digest_bytes hmac \<longleftrightarrow> (\<forall>k m. hmac k m \<noteq> [] \<and> list_all (\<lambda>b. b < 256) (hmac k m))"

lemma from_hex_hash:
  "digest_bytes hmac \<Longrightarrow> from_hex (computeHash hmac secret s) = hmac (deriveSigningKey hmac secret) (utf8 s)"
  by (simp add: computeHash_def digest_bytes_def from_to_hex)

text \<open>A parameter list that carries the hash of its own check string passes the signature check.\<close>

lemma check_signature_own:
  assumes "digest_bytes hmac"
    and "params_get ps ''hash'' = Some (computeHash hmac secret (buildDataCheckString ps))"
  shows "check_signature hmac secret ps = Inr ()"
proof -
  have "from_hex (computeHash hmac secret (buildDataCheckString ps)) \<noteq> []"
    using assms(1) by (simp add: from_hex_hash) (simp add: digest_bytes_def)
  moreover from this have "computeHash hmac secret (buildDataCheckString ps) \<noteq> []" by auto
  ultimately show ?thesis by (simp add: check_signature_def assms(2))
qed

lemma check_signature_ok:
  "check_signature hmac secret ps = Inr () \<Longrightarrow>
     \<exists>h. params_get ps ''hash'' = Some h \<and> from_hex h \<noteq> [] \<and>
       from_hex h = from_hex (computeHash hmac secret (buildDataCheckString ps))"
  by (auto simp: check_signature_def Let_def split: option.splits if_splits)

lemma check_date_ok:
  "check_date ttl nowMs ps = Inr d \<Longrightarrow>
     params_get ps ''auth_date'' \<noteq> None \<and> js_number (the (params_get ps ''auth_date'')) = Some d \<and>
     0 < d \<and> nowMs div 1000 - d \<le> ttl \<and> d - nowMs div 1000 \<le> 60"
  by (auto simp: check_date_def Let_def split: option.splits if_splits)

lemma check_dateI:
  "params_get ps ''auth_date'' = Some t \<Longrightarrow> js_number t = Some d \<Longrightarrow> 0 < d \<Longrightarrow>
     nowMs div 1000 - d \<le> ttl \<Longrightarrow> d - nowMs div 1000 \<le> 60 \<Longrightarrow> check_date ttl nowMs ps = Inr d"
  by (simp add: check_date_def Let_def)

lemma params_toString_nonempty: "ps \<noteq> [] \<Longrightarrow> params_toString ps \<noteq> []"
  by (cases ps rule: list.exhaust [case_product list.exhaust]; cases "tl ps")
    (auto simp: params_toString_def split: prod.splits)

text \<open>Validation of a serialized parameter list, unfolded into its three checks.\<close>

definition vo_ttl :: "'s validate_options \<Rightarrow> int" where
  "vo_ttl opts = (case vo_ttlSeconds opts of Some t \<Rightarrow> t | None \<Rightarrow> DEFAULT_INIT_DATA_TTL_SECONDS)"

definition vo_now :: "'s validate_options \<Rightarrow> int \<Rightarrow> int" where
  "vo_now opts clock = (case vo_nowMs opts of Some t \<Rightarrow> t | None \<Rightarrow> clock)"

definition nonce_of :: "(string \<times> string) list \<Rightarrow> string" where
  "nonce_of ps = (case params_get ps ''nonce'' of Some n \<Rightarrow> n | None \<Rightarrow> [])"

lemma validateI:
  assumes "initData \<noteq> []" and "check_signature hmac secret (params_parse initData) = Inr ()"
    and "check_date (vo_ttl opts) (vo_now opts clock) (params_parse initData) = Inr d"
    and "check_nonce (vo_nonceStore opts) clock (nonce_of (params_parse initData)) s = (Inr (), s1)"
  shows "validateInitData hmac parse initData secret opts clock s =
    (read_fields parse (params_parse initData) d (nonce_of (params_parse initData)), s1)"
  using assms by (simp add: validateInitData_def Let_def vo_ttl_def vo_now_def nonce_of_def)

lemma validate_ok:
  assumes "validateInitData hmac parse initData secret opts clock s = (Inr v, s')"
  obtains d where "initData \<noteq> []" and "check_signature hmac secret (params_parse initData) = Inr ()"
    and "check_date (vo_ttl opts) (vo_now opts clock) (params_parse initData) = Inr d"
    and "check_nonce (vo_nonceStore opts) clock (nonce_of (params_parse initData)) s = (Inr (), s')"
    and "read_fields parse (params_parse initData) d (nonce_of (params_parse initData)) = Inr v"
proof -
  have ne: "initData \<noteq> []" using assms by (auto simp: validateInitData_def)
  then obtain u where sig: "check_signature hmac secret (params_parse initData) = Inr u"
    using assms by (auto simp: validateInitData_def Let_def split: sum.splits)
  obtain d where date: "check_date (vo_ttl opts) (vo_now opts clock) (params_parse initData) = Inr d"
    using assms ne sig
    by (auto simp: validateInitData_def Let_def vo_ttl_def vo_now_def split: sum.splits)
  obtain r s1 where n: "check_nonce (vo_nonceStore opts) clock (nonce_of (params_parse initData)) s = (r, s1)"
    by fastforce
  show thesis
  proof (cases r)
    case (Inl e)
    with assms ne sig date n show thesis
      by (simp add: validateInitData_def Let_def vo_ttl_def vo_now_def nonce_of_def)
  next
    case (Inr u')
    from validateI [OF ne sig [unfolded unit_eq [of u]] date n [unfolded Inr unit_eq [of u']], of parse] assms
    show thesis using ne sig date n Inr by (intro that [of d]) simp_all
  qed
qed

lemma read_fields_ok:
  "read_fields parse ps d n = Inr v \<Longrightarrow>
     (\<exists>u. params_get ps ''user'' = Some u \<and> parse u = Some (vd_user v)) \<and>
     vd_authDate v = d \<and> vd_nonce v = n \<and> vd_queryId v = params_get ps ''query_id'' \<and>
     vd_startParam v = params_get ps ''start_param''"
  by (auto simp: read_fields_def user_of_def split: option.splits if_splits sum.splits)

text \<open>
  C19 (safety). What \<open>validateInitData\<close> accepts carries the signature of its own fields
  under the bot's secret, is not older than the allowed age nor more than a minute in the
  future, and yields the user that was signed; with a nonce store, the nonce was not
  reported as used and is recorded.
\<close>

theorem initdata_accepts_only_signed:
  assumes "validateInitData hmac parse initData secret opts clock s = (Inr v, s')"
  shows "(\<exists>h. params_get (params_parse initData) ''hash'' = Some h \<and> from_hex h \<noteq> [] \<and>
      from_hex h = from_hex (computeHash hmac secret (buildDataCheckString (params_parse initData)))) \<and>
    0 < vd_authDate v \<and> vo_now opts clock div 1000 - vd_authDate v \<le> vo_ttl opts \<and>
    vd_authDate v - vo_now opts clock div 1000 \<le> 60 \<and>
    (\<exists>u. params_get (params_parse initData) ''user'' = Some u \<and> parse u = Some (vd_user v)) \<and>
    (case vo_nonceStore opts of
       None \<Rightarrow> s' = s
     | Some ns \<Rightarrow> vd_nonce v \<noteq> [] \<and> \<not> fst (no_has ns clock (vd_nonce v) s) \<and>
         s' = no_add ns clock (vd_nonce v) (snd (no_has ns clock (vd_nonce v) s)))"
proof -
  from assms obtain d where sig: "check_signature hmac secret (params_parse initData) = Inr ()"
    and date: "check_date (vo_ttl opts) (vo_now opts clock) (params_parse initData) = Inr d"
    and n: "check_nonce (vo_nonceStore opts) clock (nonce_of (params_parse initData)) s = (Inr (), s')"
    and r: "read_fields parse (params_parse initData) d (nonce_of (params_parse initData)) = Inr v"
    by (rule validate_ok)
  note R = read_fields_ok [OF r] and D = check_date_ok [OF date]
  have "case vo_nonceStore opts of
      None \<Rightarrow> s' = s
    | Some ns \<Rightarrow> vd_nonce v \<noteq> [] \<and> \<not> fst (no_has ns clock (vd_nonce v) s) \<and>
        s' = no_add ns clock (vd_nonce v) (snd (no_has ns clock (vd_nonce v) s))"
    using n R by (auto simp: check_nonce_def split: option.splits if_splits prod.splits bool.splits)
  with R D check_signature_ok [OF sig] show ?thesis by simp
qed

text \<open>A JSON value that its own printed text is read back as.\<close>

definition reads_back :: "(json \<Rightarrow> string) \<Rightarrow> (string \<Rightarrow> json option) \<Rightarrow> json \<Rightarrow> bool" where
  "reads_back stringify parse v \<longleftrightarrow> stringify v \<noteq> [] \<and> parse (stringify v) = Some v"

text \<open>The date and the nonce of a launch: the ones given, else the signer's clock and a fresh one.\<close>

definition launch_date :: "int \<Rightarrow> init_payload \<Rightarrow> int" where
  "launch_date nowMs p = (case ip_auth_date p of Some d \<Rightarrow> d | None \<Rightarrow> nowMs div 1000)"

definition launch_nonce :: "string \<Rightarrow> init_payload \<Rightarrow> string" where
  "launch_nonce fresh p = (case ip_nonce p of Some n \<Rightarrow> n | None \<Rightarrow> fresh)"

text \<open>What a validator returns of a payload: an empty text was not sent.\<close>

definition returned :: "int \<Rightarrow> string \<Rightarrow> init_payload \<Rightarrow> validated \<Rightarrow> bool" where
  "returned nowMs fresh p v \<longleftrightarrow>
     vd_user v = ip_user p \<and> vd_room v = ip_room p \<and> vd_authDate v = launch_date nowMs p \<and>
     vd_nonce v = launch_nonce fresh p \<and> vd_queryId v = nonempty (ip_query_id p) \<and>
     vd_startParam v = nonempty (ip_start_param p) \<and> vd_messageId v = nonempty (ip_message_id p) \<and>
     vd_botId v = nonempty (ip_bot_id p)"

lemma created_accepted:
  assumes "digest_bytes hmac" and "reads_back stringify parse (ip_user p)"
    and "readString (ip_user p) ''id'' = Some i" and "i \<noteq> []"
    and "\<And>r. ip_room p = Some r \<Longrightarrow> reads_back stringify parse r \<and> readString r ''id'' \<noteq> None"
    and "0 < launch_date nowMs p"
    and "createInitData hmac stringify parse nowMs fresh p secret ttlSeconds = Inr si"
    and "check_nonce (vo_nonceStore opts) clock (launch_nonce fresh p) s = (Inr (), s1)"
    and "vo_now opts clock div 1000 - launch_date nowMs p \<le> vo_ttl opts"
    and "launch_date nowMs p - vo_now opts clock div 1000 \<le> 60"
  shows "\<exists>v. validateInitData hmac parse (si_initData si) secret opts clock s = (Inr v, s1) \<and>
    returned nowMs fresh p v"
proof -
  let ?d = "launch_date nowMs p" and ?n = "launch_nonce fresh p"
  let ?ps = "payload_params stringify p ?d ?n"
  let ?h = "computeHash hmac secret (buildDataCheckString ?ps)"
  let ?ps1 = "jm_set ''hash'' ?h ?ps"
  have si: "si_initData si = params_toString ?ps1"
    using assms(7) by (auto simp: createInitData_def Let_def launch_date_def launch_nonce_def split: if_splits)
  have parsed: "params_parse (si_initData si) = ?ps1" by (simp add: si params_round_trip)
  have get: "params_get ?ps1 k = (if k = ''hash'' then Some ?h else params_get ?ps k)" for k
    by (simp add: jm_get_update)
  have "?ps1 \<noteq> []" using get [of "''hash''"] by (metis map_of.simps(1) option.distinct(1))
  then have ne: "si_initData si \<noteq> []" unfolding si by (rule params_toString_nonempty)
  have sig: "check_signature hmac secret (params_parse (si_initData si)) = Inr ()"
    unfolding parsed by (rule check_signature_own [OF assms(1)]) (simp add: jm_get_update)
  have date: "check_date (vo_ttl opts) (vo_now opts clock) (params_parse (si_initData si)) = Inr ?d"
    unfolding parsed
    by (rule check_dateI [of _ "int_dec ?d"])
      (use assms(6,9,10) in \<open>simp_all add: get payload_params_get js_number_int_dec\<close>)
  have nn: "nonce_of (params_parse (si_initData si)) = ?n"
    unfolding parsed nonce_of_def get by (simp add: payload_params_get)
  have nonce: "check_nonce (vo_nonceStore opts) clock (nonce_of (params_parse (si_initData si))) s = (Inr (), s1)"
    unfolding nn by (rule assms(8))
  have "\<exists>v. read_fields parse ?ps1 ?d ?n = Inr v \<and> returned nowMs fresh p v"
    using assms(2-5)
    by (cases "ip_room p")
      (simp_all add: read_fields_def get payload_params_get user_of_def reads_back_def returned_def)
  then show ?thesis
    unfolding validateI [OF ne sig date nonce] nn unfolding parsed by simp
qed

text \<open>
  C21 (roundtrip). A launch signed by \<open>createInitData\<close> and validated under the same secret
  while it is alive, with a nonce the store lets through, is accepted and yields everything
  that was signed: the user, the room, the date, the nonce and the texts, where an empty
  text counts as none. The date and the nonce are the ones given, or by default the signer's
  clock and a fresh nonce. User and room are objects with an \<open>id\<close> that JSON printing and
  parsing return unchanged.
\<close>

theorem initdata_round_trip:
  assumes "digest_bytes hmac" and "reads_back stringify parse (ip_user p)"
    and "readString (ip_user p) ''id'' = Some i" and "i \<noteq> []"
    and "\<And>r. ip_room p = Some r \<Longrightarrow> reads_back stringify parse r \<and> readString r ''id'' \<noteq> None"
    and "0 < launch_date nowMs p"
    and "createInitData hmac stringify parse nowMs fresh p secret ttlSeconds = Inr si"
    and "check_nonce (vo_nonceStore opts) clock (launch_nonce fresh p) s = (Inr (), s1)"
    and "vo_now opts clock div 1000 - launch_date nowMs p \<le> vo_ttl opts"
    and "launch_date nowMs p - vo_now opts clock div 1000 \<le> 60"
  shows "\<exists>v. validateInitData hmac parse (si_initData si) secret opts clock s = (Inr v, s1) \<and>
    returned nowMs fresh p v"
  using assms by (rule created_accepted)

text \<open>
  Two parameter lists with one check string: what a newline in a signed value hides. The
  forged list below has the fields of the signed one, with the deep link parameter cut at
  its newline and the rest of it as a user field before the real one.
\<close>

definition newline :: char where
  "newline = char_of (10 :: nat)"

definition signed_fields :: "string \<Rightarrow> string \<Rightarrow> string \<Rightarrow> string \<Rightarrow> string \<Rightarrow> (string \<times> string) list" where
  "signed_fields date n p evil u =
     [(''auth_date'', date), (''nonce'', n), (''user'', u), (''start_param'', p @ newline # ''user='' @ evil)]"

definition forged_fields :: "string \<Rightarrow> string \<Rightarrow> string \<Rightarrow> string \<Rightarrow> string \<Rightarrow> (string \<times> string) list" where
  "forged_fields date n p evil u =
     [(''auth_date'', date), (''nonce'', n), (''start_param'', p), (''user'', evil), (''user'', u)]"

lemma same_check_string:
  "buildDataCheckString (signed_fields date n p evil u @ [(''hash'', h)]) =
   buildDataCheckString (forged_fields date n p evil u @ [(''hash'', h')])"
proof -
  have "sort_key fst (filter (\<lambda>(k, v). k \<noteq> ''hash'') (signed_fields date n p evil u @ [(''hash'', h)])) =
    [(''auth_date'', date), (''nonce'', n), (''start_param'', p @ newline # ''user='' @ evil), (''user'', u)]"
    by (simp add: signed_fields_def)
  moreover have "sort_key fst (filter (\<lambda>(k, v). k \<noteq> ''hash'') (forged_fields date n p evil u @ [(''hash'', h')])) =
    [(''auth_date'', date), (''nonce'', n), (''start_param'', p), (''user'', evil), (''user'', u)]"
    by (simp add: forged_fields_def)
  ultimately show ?thesis by (simp add: buildDataCheckString_def newline_def)
qed

text \<open>
  C22 (error). The check string does not separate its fields: whoever can put a newline
  into the deep link parameter of a launch that the bot signs can turn the signed launch
  into one that \<open>validateInitData\<close> accepts for a user of their choice, without the secret.
\<close>

theorem initdata_newline_forgery:
  assumes "digest_bytes hmac"
    and "createInitData hmac stringify parse nowMs fresh p secret ttlSeconds = Inr si"
    and "ip_start_param p = Some (q @ newline # ''user='' @ evil)"
    and "p\<lparr>ip_start_param := None\<rparr> = \<lparr>ip_user = ip_user p, ip_room = None, ip_query_id = None,
      ip_start_param = None, ip_message_id = None, ip_bot_id = None, ip_auth_date = Some d, ip_nonce = Some n\<rparr>"
    and "user_of parse evil = Some ev" and "evil \<noteq> []"
    and "0 < d" and "vo_now opts clock div 1000 - d \<le> vo_ttl opts" and "d - vo_now opts clock div 1000 \<le> 60"
    and "check_nonce (vo_nonceStore opts) clock n s = (Inr (), s1)"
  shows "\<exists>v. validateInitData hmac parse
      (params_toString (forged_fields (int_dec d) n q evil (stringify (ip_user p)) @
        [(''hash'', the (params_get (params_parse (si_initData si)) ''hash''))])) secret opts clock s = (Inr v, s1) \<and>
    vd_user v = ev"
proof -
  let ?u = "stringify (ip_user p)"
  let ?signed = "signed_fields (int_dec d) n q evil ?u" and ?forged = "forged_fields (int_dec d) n q evil ?u"
  have fields: "ip_room p = None" "ip_query_id p = None" "ip_message_id p = None" "ip_bot_id p = None"
    "ip_auth_date p = Some d" "ip_nonce p = Some n"
    using assms(4) by (cases p; simp)+
  have ps: "payload_params stringify p d n = ?signed"
    by (simp add: payload_params_def Let_def set_some_def fields assms(3) signed_fields_def)
  let ?h = "computeHash hmac secret (buildDataCheckString ?signed)"
  have "si_initData si = params_toString (jm_set ''hash'' ?h ?signed)"
    using assms(2) fields ps by (auto simp: createInitData_def Let_def split: if_splits)
  then have h: "the (params_get (params_parse (si_initData si)) ''hash'') = ?h"
    by (simp add: params_round_trip jm_get_update)
  let ?fps = "?forged @ [(''hash'', ?h)]"
  have parsed: "params_parse (params_toString ?fps) = ?fps" by (rule params_round_trip)
  have "buildDataCheckString ?signed = buildDataCheckString ?fps"
    using same_check_string [of "int_dec d" n q evil ?u ?h ?h] check_string_hash [of ?h ?signed]
    by (simp add: signed_fields_def)
  then have sig: "check_signature hmac secret (params_parse (params_toString ?fps)) = Inr ()"
    unfolding parsed by (intro check_signature_own [OF assms(1)]) (simp add: forged_fields_def)
  have date: "check_date (vo_ttl opts) (vo_now opts clock) (params_parse (params_toString ?fps)) = Inr d"
    unfolding parsed
    by (rule check_dateI [of _ "int_dec d"]) (use assms(7-9) in \<open>simp_all add: forged_fields_def js_number_int_dec\<close>)
  have n: "nonce_of ?fps = n"
    by (simp add: nonce_of_def forged_fields_def)
  have ne: "params_toString ?fps \<noteq> []" by (rule params_toString_nonempty) simp
  have "validateInitData hmac parse (params_toString ?fps) secret opts clock s =
    (read_fields parse ?fps d n, s1)"
    using validateI [OF ne sig date, of s s1 parse] assms(10) by (simp add: n parsed)
  then show ?thesis
    unfolding h by (simp add: read_fields_def forged_fields_def assms(5,6))
qed

text \<open>Validations one after another on one store, each with its launch data and clock reading.\<close>

fun validations ::
  "hmac_fn \<Rightarrow> (string \<Rightarrow> json option) \<Rightarrow> string \<Rightarrow> 's validate_options \<Rightarrow> (string \<times> int) list \<Rightarrow> 's \<Rightarrow>
    (js_error, validated) sum list \<times> 's" where
  "validations hmac parse secret opts [] s = ([], s)"
| "validations hmac parse secret opts ((i, c) # rest) s =
     (let (r, s1) = validateInitData hmac parse i secret opts c s;
          (rs, s2) = validations hmac parse secret opts rest s1
      in (r # rs, s2))"

text \<open>Only launch data with a valid signature gets as far as the store.\<close>

definition signed_launches :: "hmac_fn \<Rightarrow> string \<Rightarrow> (string \<times> int) list \<Rightarrow> nat" where
  "signed_launches hmac secret runs =
     length (filter (\<lambda>(i, c). check_signature hmac secret (params_parse i) = Inr ()) runs)"

lemma validate_store:
  fixes i :: string
  assumes "vo_nonceStore opts = Some memory_nonce_ops"
  defines "n \<equiv> nonce_of (params_parse i)"
  shows "(isl (fst (validateInitData hmac parse i secret opts c s)) \<and>
      snd (validateInitData hmac parse i secret opts c s) \<in> {s, snd (mn_has c n s)}) \<or>
    (check_signature hmac secret (params_parse i) = Inr () \<and> \<not> fst (mn_has c n s) \<and>
     snd (validateInitData hmac parse i secret opts c s) = mn_add c n (snd (mn_has c n s)) \<and>
     (\<forall>v. fst (validateInitData hmac parse i secret opts c s) = Inr v \<longrightarrow> vd_nonce v = n))"
proof (cases "validateInitData hmac parse i secret opts c s")
  case (Pair r s1)
  have "mn_has c n s = (fst (mn_has c n s), snd (mn_has c n s))" by simp
  then show ?thesis
    using Pair read_fields_ok [of parse "params_parse i"] assms(1)
    unfolding validateInitData_def Let_def check_nonce_def nonce_of_def [symmetric] n_def [symmetric]
    by (auto simp: memory_nonce_ops_def split: if_splits sum.splits prod.splits bool.splits)
qed

lemma young_nonce_refused:
  assumes "vo_nonceStore opts = Some memory_nonce_ops"
    and "mn_inv s" and "jm_young j (mn_seen s) n at"
    and "\<forall>(i, c) \<in> set runs. c - at \<le> DEFAULT_INIT_DATA_TTL_SECONDS * 1000"
    and "int j + int (signed_launches hmac secret runs) < mn_capacity s"
    and "Inr w \<in> set (fst (validations hmac parse secret opts runs s))"
  shows "vd_nonce w \<noteq> n"
  using assms(2-)
proof (induction runs arbitrary: s j)
  case Nil
  then show ?case by simp
next
  case (Cons run runs)
  obtain i c where run: "run = (i, c)" by (cases run)
  let ?r = "fst (validateInitData hmac parse i secret opts c s)"
  let ?s1 = "snd (validateInitData hmac parse i secret opts c s)"
  let ?m = "nonce_of (params_parse i)"
  have live: "c - at \<le> DEFAULT_INIT_DATA_TTL_SECONDS * 1000"
    and rest: "\<forall>(i, c) \<in> set runs. c - at \<le> DEFAULT_INIT_DATA_TTL_SECONDS * 1000"
    using Cons.prems(3) by (auto simp: run)
  have split: "fst (validations hmac parse secret opts (run # runs) s) =
      ?r # fst (validations hmac parse secret opts runs ?s1)"
    by (simp add: run case_prod_beta)
  show ?case
    using validate_store [OF assms(1), of hmac parse i secret c s]
  proof (elim disjE conjE)
    assume refused: "isl ?r" and same: "?s1 \<in> {s, snd (mn_has c ?m s)}"
    have "mn_inv ?s1" and "mn_capacity ?s1 = mn_capacity s" and "jm_young j (mn_seen ?s1) n at"
      using same Cons.prems(1,2) mem_nonces.has_inv [OF Cons.prems(1)]
        mem_nonces.has_keeps [OF Cons.prems(1,2) live] by auto
    moreover have "signed_launches hmac secret runs \<le> signed_launches hmac secret (run # runs)"
      by (simp add: signed_launches_def)
    moreover have "Inr w \<noteq> ?r" using refused by (metis sum.disc(2))
    ultimately show ?thesis
      using Cons.IH [of ?s1 j] Cons.prems(4,5) rest by (simp add: split)
  next
    assume sig: "check_signature hmac secret (params_parse i) = Inr ()" and new: "\<not> fst (mn_has c ?m s)"
      and s1: "?s1 = mn_add c ?m (snd (mn_has c ?m s))" and read: "\<forall>v. ?r = Inr v \<longrightarrow> vd_nonce v = ?m"
    have count: "signed_launches hmac secret (run # runs) = Suc (signed_launches hmac secret runs)"
      using sig by (simp add: signed_launches_def run)
    then have "int j + 2 \<le> mn_capacity s" using Cons.prems(4) by simp
    note kept = mem_nonces.claim_keeps [OF Cons.prems(1,2) live this new]
      mem_nonces.claim_young [OF Cons.prems(1) new]
    have "Inr w = ?r \<or> Inr w \<in> set (fst (validations hmac parse secret opts runs ?s1))"
      using Cons.prems(5) by (simp add: split)
    then show ?thesis
    proof
      assume "Inr w = ?r"
      with read kept(1) show ?thesis by auto
    next
      assume "Inr w \<in> set (fst (validations hmac parse secret opts runs ?s1))"
      with Cons.IH [of ?s1 "Suc j"] kept Cons.prems(4) count rest show ?thesis by (simp add: s1)
    qed
  qed
qed

text \<open>
  C20 (safety). With the memory nonce store and its default lifetime, a launch is accepted
  once: whatever is validated afterwards within the hour, the same text or others, no
  validation is accepted with its nonce, as long as fewer launches with a valid signature
  follow than the store has capacity (8192 by default).
\<close>

theorem initdata_single_use:
  assumes "validateInitData hmac parse initData secret opts clock s = (Inr v, s')"
    and "vo_nonceStore opts = Some memory_nonce_ops" and "mn_inv s"
    and "\<forall>(i, c) \<in> set runs. c - clock \<le> DEFAULT_INIT_DATA_TTL_SECONDS * 1000"
    and "int (signed_launches hmac secret runs) < mn_capacity s"
  shows "\<forall>w. Inr w \<in> set (fst (validations hmac parse secret opts runs s')) \<longrightarrow> vd_nonce w \<noteq> vd_nonce v"
proof (intro allI impI)
  fix w
  assume w: "Inr w \<in> set (fst (validations hmac parse secret opts runs s'))"
  let ?n = "nonce_of (params_parse initData)"
  have new: "\<not> fst (mn_has clock ?n s)" and s': "s' = mn_add clock ?n (snd (mn_has clock ?n s))"
    and n: "vd_nonce v = ?n"
    using validate_store [OF assms(2), of hmac parse initData secret clock s] by (auto simp: assms(1))
  note kept = mem_nonces.claim_young [OF assms(3) new, folded s']
  show "vd_nonce w \<noteq> vd_nonce v"
    unfolding n
    by (rule young_nonce_refused [OF assms(2) kept(1,3) assms(4) _ w]) (use kept(2) assms(5) in simp)
qed

text \<open>
  The memory store forgets a nonce after an hour whatever lifetime launches
  have: when launches are accepted for longer, the same launch is accepted again, with the
  same result, once the hour is over.
\<close>

theorem initdata_replayed_after_hour:
  assumes "validateInitData hmac parse initData secret opts clock s = (Inr v, s')"
    and "vo_nonceStore opts = Some memory_nonce_ops" and "vo_nowMs opts = None"
    and "mn_inv s" and "DEFAULT_INIT_DATA_TTL_SECONDS * 1000 < clock' - clock"
    and "clock' div 1000 - vd_authDate v \<le> vo_ttl opts"
  shows "fst (validateInitData hmac parse initData secret opts clock' s') = Inr v"
proof -
  from assms(1) obtain d where ne: "initData \<noteq> []"
    and sig: "check_signature hmac secret (params_parse initData) = Inr ()"
    and date: "check_date (vo_ttl opts) (vo_now opts clock) (params_parse initData) = Inr d"
    and n: "check_nonce (vo_nonceStore opts) clock (nonce_of (params_parse initData)) s = (Inr (), s')"
    and r: "read_fields parse (params_parse initData) d (nonce_of (params_parse initData)) = Inr v"
    by (rule validate_ok)
  have nonce: "nonce_of (params_parse initData) = vd_nonce v" and d: "vd_authDate v = d"
    using read_fields_ok [OF r] by simp_all
  note D = check_date_ok [OF date]
  have "clock div 1000 \<le> clock' div 1000"
    using assms(5) by (intro zdiv_mono1) (simp_all add: DEFAULT_INIT_DATA_TTL_SECONDS_def)
  then have date': "check_date (vo_ttl opts) (vo_now opts clock') (params_parse initData) = Inr d"
    using D assms(6) d by (intro check_dateI [of _ "the (params_get (params_parse initData) ''auth_date'')"])
      (auto simp: vo_now_def assms(3))
  let ?s1 = "snd (mn_has clock (vd_nonce v) s)"
  have s': "s' = mn_add clock (vd_nonce v) ?s1" and nn: "vd_nonce v \<noteq> []"
    using n by (auto simp: check_nonce_def assms(2) nonce memory_nonce_ops_def split: if_splits prod.splits bool.splits)
  have "mn_inv ?s1" using mem_nonces.has_inv [OF assms(4)] by simp
  then have "\<not> fst (mn_has clock' (vd_nonce v) s')"
    unfolding s' by (rule mem_nonces.forgotten_after) (use assms in simp)
  then obtain s2 where "mn_has clock' (vd_nonce v) s' = (False, s2)"
    by (cases "mn_has clock' (vd_nonce v) s'") simp
  then have "check_nonce (vo_nonceStore opts) clock' (nonce_of (params_parse initData)) s' =
    (Inr (), mn_add clock' (vd_nonce v) s2)"
    by (simp add: check_nonce_def assms(2) nonce nn memory_nonce_ops_def)
  from validateI [OF ne sig date' this, of parse] show ?thesis by (simp add: r)
qed

text \<open>A concrete keyed digest, reader of user texts, launch and validator for the statements above.\<close>

definition demo_hmac :: hmac_fn where
  "demo_hmac k m = [(sum_list k + sum_list m) mod 256]"

definition demo_user :: "string \<Rightarrow> json" where
  "demo_user i = JObj [(''id'', JStr i)]"

definition demo_stringify :: "json \<Rightarrow> string" where
  "demo_stringify v = (case readString v ''id'' of Some i \<Rightarrow> i | None \<Rightarrow> [])"

definition demo_parse :: "string \<Rightarrow> json option" where
  "demo_parse s = Some (demo_user s)"

definition demo_payload :: "string option \<Rightarrow> init_payload" where
  "demo_payload start = \<lparr>ip_user = demo_user ''@a:b'', ip_room = None, ip_query_id = None, ip_start_param = start,
     ip_message_id = None, ip_bot_id = None, ip_auth_date = Some 1000, ip_nonce = Some ''n''\<rparr>"

definition demo_secret :: string where
  "demo_secret = ''0123456789abcdef''"

definition demo_vopts :: "int \<Rightarrow> memory_nonces validate_options" where
  "demo_vopts ttl = \<lparr>vo_ttlSeconds = Some ttl, vo_nonceStore = Some memory_nonce_ops, vo_nowMs = None\<rparr>"

lemmas demo_init_defs = demo_user_def demo_stringify_def demo_parse_def demo_payload_def demo_secret_def demo_vopts_def

lemma demo_digest: "digest_bytes demo_hmac"
  by (simp add: digest_bytes_def demo_hmac_def)

lemma demo_user_id [simp]: "readString (demo_user i) ''id'' = Some i"
  by (simp add: demo_user_def readString_def isPlainObject_def json_prop_def)

lemma demo_created:
  obtains si where "createInitData demo_hmac demo_stringify demo_parse now fresh p demo_secret None = Inr si"
  by (simp add: createInitData_def Let_def demo_secret_def)

lemma demo_reads_back: "u \<noteq> [] \<Longrightarrow> reads_back demo_stringify demo_parse (demo_user u)"
  by (simp add: reads_back_def demo_stringify_def demo_parse_def)

text \<open>A launch from a room, with the default date and a fresh nonce, as a bot signs it.\<close>

definition demo_room_launch :: init_payload where
  "demo_room_launch = (demo_payload (Some ''room7''))
     \<lparr>ip_room := Some (demo_user ''!r:b''), ip_bot_id := Some ''@bot:b'', ip_auth_date := None, ip_nonce := None\<rparr>"

theorem initdata_round_trip_witness:
  "\<exists>si v. createInitData demo_hmac demo_stringify demo_parse 1000000 ''f'' demo_room_launch demo_secret None = Inr si \<and>
     validateInitData demo_hmac demo_parse (si_initData si) demo_secret (demo_vopts 3600) 1000500 (mn_new None None) =
       (Inr v, mn_add 1000500 ''f'' (mn_new None None)) \<and>
     vd_room v = Some (demo_user ''!r:b'') \<and> vd_startParam v = Some ''room7'' \<and> vd_nonce v = ''f''"
proof -
  obtain si where si: "createInitData demo_hmac demo_stringify demo_parse 1000000 ''f'' demo_room_launch demo_secret None = Inr si"
    by (rule demo_created)
  have "\<exists>v. validateInitData demo_hmac demo_parse (si_initData si) demo_secret (demo_vopts 3600) 1000500 (mn_new None None) =
      (Inr v, mn_add 1000500 ''f'' (mn_new None None)) \<and> returned 1000000 ''f'' demo_room_launch v"
    by (rule initdata_round_trip [OF demo_digest, where i = "''@a:b''" and ttlSeconds = None and stringify = demo_stringify])
      (simp_all add: si, auto simp: demo_room_launch_def demo_payload_def demo_vopts_def demo_reads_back launch_date_def
        launch_nonce_def vo_now_def vo_ttl_def check_nonce_def memory_nonce_ops_def mn_has_def mn_new_def)
  with si show ?thesis
    by (auto simp: returned_def demo_room_launch_def demo_payload_def nonempty_def launch_nonce_def)
qed

text \<open>A launch in use, with its nonce kept by the memory store.\<close>

lemma demo_launch:
  assumes "1 \<le> ttl"
  shows "\<exists>i v s'. validateInitData demo_hmac demo_parse i demo_secret (demo_vopts ttl) 1000500 (mn_new None None) = (Inr v, s') \<and>
    nonce_of (params_parse i) = vd_nonce v \<and> vd_authDate v = 1000"
proof -
  obtain si where si: "createInitData demo_hmac demo_stringify demo_parse 0 [] (demo_payload None) demo_secret None = Inr si"
    by (rule demo_created)
  have "check_nonce (vo_nonceStore (demo_vopts ttl)) 1000500 ''n'' (mn_new None None) =
      (Inr (), mn_add 1000500 ''n'' (mn_new None None))"
    by (simp add: check_nonce_def demo_vopts_def memory_nonce_ops_def mn_has_def mn_new_def)
  then have "\<exists>v. validateInitData demo_hmac demo_parse (si_initData si) demo_secret (demo_vopts ttl) 1000500 (mn_new None None) =
      (Inr v, mn_add 1000500 ''n'' (mn_new None None)) \<and> returned 0 [] (demo_payload None) v"
    using assms
    by (intro created_accepted [OF demo_digest, where i = "''@a:b''" and ttlSeconds = None and stringify = demo_stringify])
      (simp_all add: si, auto simp: demo_payload_def demo_vopts_def demo_reads_back launch_date_def launch_nonce_def
        vo_now_def vo_ttl_def)
  then obtain v where v: "validateInitData demo_hmac demo_parse (si_initData si) demo_secret (demo_vopts ttl) 1000500 (mn_new None None) =
      (Inr v, mn_add 1000500 ''n'' (mn_new None None))" and d: "vd_authDate v = 1000"
    by (auto simp: returned_def launch_date_def demo_payload_def)
  from v have "nonce_of (params_parse (si_initData si)) = vd_nonce v"
    by (rule validate_ok) (auto dest: read_fields_ok)
  with v d show ?thesis by blast
qed

theorem initdata_accepts_only_signed_witness:
  "\<exists>i h. params_get (params_parse i) ''hash'' = Some h \<and>
     from_hex h = from_hex (computeHash demo_hmac demo_secret (buildDataCheckString (params_parse i)))"
proof -
  obtain i v s' where v: "validateInitData demo_hmac demo_parse i demo_secret (demo_vopts 3600) 1000500 (mn_new None None) = (Inr v, s')"
    using demo_launch [of 3600] by auto
  from initdata_accepts_only_signed [OF v] show ?thesis by blast
qed

theorem initdata_single_use_witness:
  "\<exists>i v s'. validateInitData demo_hmac demo_parse i demo_secret (demo_vopts 3600) 1000500 (mn_new None None) = (Inr v, s') \<and>
     list_all isl (fst (validations demo_hmac demo_parse demo_secret (demo_vopts 3600) [(i, 1001500), (i, 4000500)] s'))"
proof -
  obtain i v s' where v: "validateInitData demo_hmac demo_parse i demo_secret (demo_vopts 3600) 1000500 (mn_new None None) = (Inr v, s')"
    and n: "nonce_of (params_parse i) = vd_nonce v"
    using demo_launch [of 3600] by auto
  let ?runs = "[(i, 1001500), (i, 4000500)] :: (string \<times> int) list"
  have new: "\<forall>w. Inr w \<in> set (fst (validations demo_hmac demo_parse demo_secret (demo_vopts 3600) ?runs s')) \<longrightarrow>
      vd_nonce w \<noteq> vd_nonce v"
    by (rule initdata_single_use [OF v _ mn_inv_new])
      (simp_all add: demo_vopts_def mn_new_def DEFAULT_INIT_DATA_TTL_SECONDS_def signed_launches_def)
  have same: "vd_nonce w = vd_nonce v"
    if "validateInitData demo_hmac demo_parse i demo_secret (demo_vopts 3600) c t = (Inr w, t')" for c t w t'
    using that by (rule validate_ok) (auto dest: read_fields_ok simp: n)
  have "isl r" if r: "r \<in> set (fst (validations demo_hmac demo_parse demo_secret (demo_vopts 3600) ?runs s'))" for r
  proof (cases r)
    case (Inr w)
    then have "vd_nonce w = vd_nonce v"
      using r same by (auto simp: case_prod_beta) (metis prod.collapse)+
    with new r Inr show ?thesis by blast
  qed simp
  then have "list_all isl (fst (validations demo_hmac demo_parse demo_secret (demo_vopts 3600) ?runs s'))"
    unfolding list_all_iff by blast
  with v show ?thesis by blast
qed

theorem initdata_replayed_after_hour_witness:
  "\<exists>i v s'. validateInitData demo_hmac demo_parse i demo_secret (demo_vopts 7200) 1000500 (mn_new None None) = (Inr v, s') \<and>
     fst (validateInitData demo_hmac demo_parse i demo_secret (demo_vopts 7200) 5000500 s') = Inr v"
proof -
  obtain i v s' where v: "validateInitData demo_hmac demo_parse i demo_secret (demo_vopts 7200) 1000500 (mn_new None None) = (Inr v, s')"
    and d: "vd_authDate v = 1000"
    using demo_launch [of 7200] by auto
  have "fst (validateInitData demo_hmac demo_parse i demo_secret (demo_vopts 7200) 5000500 s') = Inr v"
    by (rule initdata_replayed_after_hour [OF v])
      (simp_all add: demo_vopts_def mn_inv_new DEFAULT_INIT_DATA_TTL_SECONDS_def d vo_ttl_def)
  with v show ?thesis by blast
qed

theorem initdata_newline_forgery_witness:
  "\<exists>forged v s'. validateInitData demo_hmac demo_parse forged demo_secret (demo_vopts 3600) 1000500 (mn_new None None) =
     (Inr v, s') \<and> vd_user v = demo_user ''@admin:b''"
proof -
  let ?start = "Some (''x'' @ newline # ''user='' @ ''@admin:b'')"
  obtain si where si: "createInitData demo_hmac demo_stringify demo_parse 0 [] (demo_payload ?start) demo_secret None = Inr si"
    by (rule demo_created)
  have "\<exists>v. validateInitData demo_hmac demo_parse
      (params_toString (forged_fields (int_dec 1000) ''n'' ''x'' ''@admin:b'' (demo_stringify (ip_user (demo_payload ?start))) @
        [(''hash'', the (params_get (params_parse (si_initData si)) ''hash''))])) demo_secret (demo_vopts 3600) 1000500
        (mn_new None None) = (Inr v, mn_add 1000500 ''n'' (mn_new None None)) \<and> vd_user v = demo_user ''@admin:b''"
    by (rule initdata_newline_forgery [OF demo_digest si])
      (simp_all add: demo_payload_def demo_vopts_def vo_now_def vo_ttl_def user_of_def demo_parse_def check_nonce_def
        memory_nonce_ops_def mn_has_def mn_new_def)
  then show ?thesis by blast
qed

end
