(* ===== verification/Miniapp_Server.thy ===== *)
theory Miniapp_Server
  imports Initdata
begin

text \<open>
  \<^verbatim>\<open>src/miniapp/server.ts\<close> and \<^verbatim>\<open>src/miniapp/auth.ts\<close>: session tokens, the room gates,
  and the request handler of the MiniApp backend.

  Parameters stand for the cryptography and the encodings: \<open>sha\<close> (a digest), \<open>sign\<close>
  (message and secret to a MAC text), \<open>enc\<close> and \<open>dec\<close> (a JSON value to and from its
  base64url text), besides those of launch data. The environment of the server (nonce
  stores and what \<open>onData\<close> does) is a state that its callbacks pass on.
\<close>

section \<open>Session tokens\<close>

record session =
  ms_userId :: string
  ms_roomId :: "string option"
  ms_queryId :: "string option"
  ms_appId :: "string option"
  ms_exp :: jsnum
  ms_membership :: "string option"
  ms_powerLevel :: "jsnum option"

definition timingSafeEqualStrings :: "(nat list \<Rightarrow> nat list) \<Rightarrow> string \<Rightarrow> string \<Rightarrow> bool" where
  "timingSafeEqualStrings sha a b =
     (sha (utf8 a) = sha (utf8 b) \<and> length (utf8 a) = length (utf8 b))"

definition opt_str :: "string option \<Rightarrow> json" where
  "opt_str x = (case x of None \<Rightarrow> JNull | Some s \<Rightarrow> JStr s)"

definition session_json :: "session \<Rightarrow> json" where
  "session_json s =
     JObj [(''userId'', JStr (ms_userId s)), (''roomId'', opt_str (ms_roomId s)),
           (''queryId'', opt_str (ms_queryId s)), (''appId'', opt_str (ms_appId s)),
           (''exp'', JNum (ms_exp s)), (''membership'', opt_str (ms_membership s)),
           (''powerLevel'', case ms_powerLevel s of None \<Rightarrow> JNull | Some n \<Rightarrow> JNum n)]"

text \<open>\<open>exp\<close> may be given; otherwise it is \<open>ttlSeconds\<close> from now.\<close>

definition createSessionToken ::
  "(json \<Rightarrow> string) \<Rightarrow> (string \<Rightarrow> string \<Rightarrow> string) \<Rightarrow> int \<Rightarrow> session \<Rightarrow> jsnum option \<Rightarrow> string \<Rightarrow> int \<Rightarrow> string" where
  "createSessionToken enc sign nowMs session expiry secret ttlSeconds =
     (let payload = session\<lparr>ms_exp := (case expiry of Some e \<Rightarrow> e | None \<Rightarrow> Fin (nowMs div 1000 + ttlSeconds))\<rparr>;
          encoded = enc (session_json payload)
      in encoded @ ''.'' @ sign encoded secret)"

text \<open>The text before and after the last dot; \<open>None\<close> when there is none or it is first.\<close>

definition split_token :: "string \<Rightarrow> (string \<times> string) option" where
  "split_token token =
     (let mac = rev (takeWhile (\<lambda>c. c \<noteq> CHR ''.'') (rev token));
          front = dropWhile (\<lambda>c. c \<noteq> CHR ''.'') (rev token)
      in if length front \<le> 1 then None else Some (rev (tl front), mac))"

definition expired :: "jsnum \<Rightarrow> int \<Rightarrow> bool" where
  "expired e nowMs = (case e of Fin n \<Rightarrow> n * 1000 \<le> nowMs | PInf \<Rightarrow> False | NInf \<Rightarrow> True)"

definition num_prop :: "json \<Rightarrow> string \<Rightarrow> jsnum option" where
  "num_prop v key = (case json_prop v key of Some (JNum n) \<Rightarrow> Some n | _ \<Rightarrow> None)"

definition verifySessionToken ::
  "(nat list \<Rightarrow> nat list) \<Rightarrow> (string \<Rightarrow> json option) \<Rightarrow> (string \<Rightarrow> string \<Rightarrow> string) \<Rightarrow> int \<Rightarrow> string \<Rightarrow> string \<Rightarrow>
    (js_error, session) sum" where
  "verifySessionToken sha dec sign nowMs token secret =
     (case split_token token of
        None \<Rightarrow> Inl (bad ''malformed session token'' Malformed)
      | Some (encoded, mac) \<Rightarrow>
          (if \<not> timingSafeEqualStrings sha mac (sign encoded secret)
           then Inl (bad ''session token signature does not match'' Bad_signature)
           else case dec encoded of
             None \<Rightarrow> Inl (bad ''session token payload is not JSON'' Malformed)
           | Some v \<Rightarrow>
               (case (readString v ''userId'', num_prop v ''exp'') of
                  (Some u, Some e) \<Rightarrow>
                    (if expired e nowMs then Inl (bad ''session token expired'' Expired)
                     else Inr \<lparr>ms_userId = u, ms_roomId = readString v ''roomId'',
                       ms_queryId = readString v ''queryId'', ms_appId = readString v ''appId'', ms_exp = e,
                       ms_membership = readString v ''membership'', ms_powerLevel = num_prop v ''powerLevel''\<rparr>)
                | _ \<Rightarrow> Inl (bad ''session token payload is incomplete'' Malformed))))"

section \<open>Room gates\<close>

record room_auth =
  ra_membership :: "string option"
  ra_powerLevel :: "jsnum option"

type_synonym resolver = "string \<Rightarrow> string \<Rightarrow> room_auth option"

text \<open>An empty room id is falsy.\<close>

definition refreshSessionAuth :: "resolver option \<Rightarrow> session \<Rightarrow> session" where
  "refreshSessionAuth resolve s =
     (case (resolve, ms_roomId s) of
        (Some f, Some room) \<Rightarrow>
          (if room = [] then s
           else case f (ms_userId s) room of
             None \<Rightarrow> s
           | Some live \<Rightarrow> s\<lparr>ms_membership := ra_membership live, ms_powerLevel := ra_powerLevel live\<rparr>)
      | _ \<Rightarrow> s)"

fun num_less :: "jsnum \<Rightarrow> jsnum \<Rightarrow> bool" where
  "num_less (Fin a) (Fin b) = (a < b)"
| "num_less NInf x = (x \<noteq> NInf)"
| "num_less x PInf = (x \<noteq> PInf)"
| "num_less _ _ = False"






text \<open>\<^verbatim>\<open>src/miniapp/auth.ts\<close>.\<close>

definition assertMiniAppJoined :: "session \<Rightarrow> (js_error, unit) sum" where
  "assertMiniAppJoined s =
     (case ms_membership s of
        None \<Rightarrow> Inl (bad ''MiniApp session has no membership snapshot; re-auth or use resolveRoomAuth'' Forbidden)
      | Some m \<Rightarrow>
          (if m \<noteq> ''join'' then Inl (bad (''MiniApp user is not joined (membership='' @ m @ '')'') Forbidden)
           else Inr ()))"

definition assertMiniAppPower :: "session \<Rightarrow> int \<Rightarrow> (js_error, unit) sum" where
  "assertMiniAppPower s minLevel =
     (case ms_powerLevel s of
        Some (Fin n) \<Rightarrow>
          (if n < minLevel then
             Inl (bad (''MiniApp power level '' @ int_dec n @ '' is below required '' @ int_dec minLevel) Forbidden)
           else Inr ())
      | _ \<Rightarrow> Inl (bad ''MiniApp session has no powerLevel snapshot; re-auth or use resolveRoomAuth'' Forbidden))"

definition assertMiniAppJoinedLive :: "session \<Rightarrow> resolver \<Rightarrow> (js_error, session) sum" where
  "assertMiniAppJoinedLive s resolve =
     (let fresh = refreshSessionAuth (Some resolve) s
      in case assertMiniAppJoined fresh of Inl e \<Rightarrow> Inl e | Inr _ \<Rightarrow> Inr fresh)"

definition assertMiniAppPowerLive :: "session \<Rightarrow> int \<Rightarrow> resolver \<Rightarrow> (js_error, session) sum" where
  "assertMiniAppPowerLive s minLevel resolve =
     (let fresh = refreshSessionAuth (Some resolve) s
      in case assertMiniAppPower fresh minLevel of Inl e \<Rightarrow> Inl e | Inr _ \<Rightarrow> Inr fresh)"

definition miniAppMembershipIs :: "session \<Rightarrow> string list \<Rightarrow> bool" where
  "miniAppMembershipIs s allowed = (case ms_membership s of None \<Rightarrow> False | Some m \<Rightarrow> m \<in> set allowed)"

definition miniAppHasPower :: "session \<Rightarrow> int \<Rightarrow> bool" where
  "miniAppHasPower s minLevel =
     (case ms_powerLevel s of None \<Rightarrow> False | Some n \<Rightarrow> \<not> num_less n (Fin minLevel))"

section \<open>The server\<close>

record 's server_options =
  sv_secret :: string
  sv_allowedOrigins :: "string list"
  sv_initDataTtl :: "int option"
  sv_sessionTtl :: "int option"
  sv_singleUse :: "bool option"
  sv_nonceStore :: "'s nonce_ops option"
  sv_asyncStore :: "(string \<Rightarrow> 's \<Rightarrow> bool \<times> 's) option"
  sv_basePath :: "string option"
  sv_includeRoomAuth :: "bool option"
  sv_resolve :: "resolver option"
  sv_requireMembership :: "string list option"
  sv_minPower :: "int option"
  sv_onData :: "(session \<Rightarrow> string \<Rightarrow> 's \<Rightarrow> (js_error, json option) sum \<times> 's) option"


text \<open>The constructor; \<open>default_store\<close> is a fresh memory store. It yields the store and the path.\<close>

definition server_new ::
  "'s nonce_ops \<Rightarrow> 's server_options \<Rightarrow> (js_error, 's nonce_ops option \<times> string) sum" where
  "server_new default_store opts =
     (if length (sv_secret opts) < 16 then
        Inl (bad ''MiniAppServer requires a secret of at least 16 characters'' Malformed)
      else
        Inr (if sv_singleUse opts = Some False then None
             else if sv_asyncStore opts \<noteq> None then sv_nonceStore opts
             else (case sv_nonceStore opts of Some s \<Rightarrow> Some s | None \<Rightarrow> Some default_store),
             strip_slashes (case sv_basePath opts of Some b \<Rightarrow> b | None \<Rightarrow> ''/'')))"










section \<open>Requests\<close>

























section \<open>Properties\<close>


lemma verifySessionToken_ok:
  assumes "verifySessionToken sha dec sign nowMs token secret = Inr t"
  shows "\<exists>encoded mac v. split_token token = Some (encoded, mac) \<and>
    timingSafeEqualStrings sha mac (sign encoded secret) \<and> dec encoded = Some v \<and>
    readString v ''userId'' = Some (ms_userId t) \<and> ms_roomId t = readString v ''roomId'' \<and>
    num_prop v ''exp'' = Some (ms_exp t) \<and> \<not> expired (ms_exp t) nowMs"
  using assms by (auto simp: verifySessionToken_def split: option.splits prod.splits if_splits)







text \<open>The token parser undoes the builder: the MAC holds no dot.\<close>

lemma split_token_append:
  assumes "CHR ''.'' \<notin> set mac" and "encoded \<noteq> []"
  shows "split_token (encoded @ CHR ''.'' # mac) = Some (encoded, mac)"
proof -
  have "takeWhile (\<lambda>c. c \<noteq> CHR ''.'') (rev mac @ CHR ''.'' # rev encoded) = rev mac"
    and "dropWhile (\<lambda>c. c \<noteq> CHR ''.'') (rev mac @ CHR ''.'' # rev encoded) = CHR ''.'' # rev encoded"
    using assms(1) by (auto simp: takeWhile_append dropWhile_append)
  with assms(2) show ?thesis by (simp add: split_token_def Let_def)
qed

lemma opt_str_read:
  "(case opt_str x of JStr s \<Rightarrow> Some s | _ \<Rightarrow> None) = x"
  by (cases x) (simp_all add: opt_str_def)

lemma session_json_read:
  "readString (session_json s) ''userId'' = Some (ms_userId s)"
  "readString (session_json s) ''roomId'' = ms_roomId s"
  "readString (session_json s) ''queryId'' = ms_queryId s"
  "readString (session_json s) ''appId'' = ms_appId s"
  "readString (session_json s) ''membership'' = ms_membership s"
  "num_prop (session_json s) ''exp'' = Some (ms_exp s)"
  "num_prop (session_json s) ''powerLevel'' = ms_powerLevel s"
  by (simp_all add: session_json_def readString_def isPlainObject_def json_prop_def num_prop_def opt_str_read
      split: option.split)

text \<open>
  A session token is read back as the session it was made for until it
  expires, and is refused from then on.
\<close>

theorem session_token_round_trip:
  assumes "dec (enc (session_json (s\<lparr>ms_exp := Fin e\<rparr>))) = Some (session_json (s\<lparr>ms_exp := Fin e\<rparr>))"
    and "enc (session_json (s\<lparr>ms_exp := Fin e\<rparr>)) \<noteq> []"
    and "CHR ''.'' \<notin> set (sign (enc (session_json (s\<lparr>ms_exp := Fin e\<rparr>))) secret)"
    and "e = (case expiry of Some (Fin x) \<Rightarrow> x | _ \<Rightarrow> nowMs div 1000 + ttl)"
    and "expiry \<noteq> Some PInf" and "expiry \<noteq> Some NInf"
  shows "verifySessionToken sha dec sign later (createSessionToken enc sign nowMs s expiry secret ttl) secret =
    (if e * 1000 \<le> later then Inl (bad ''session token expired'' Expired) else Inr (s\<lparr>ms_exp := Fin e\<rparr>))"
proof -
  let ?s = "s\<lparr>ms_exp := Fin e\<rparr>"
  have "createSessionToken enc sign nowMs s expiry secret ttl =
    enc (session_json ?s) @ CHR ''.'' # sign (enc (session_json ?s)) secret"
    using assms(4-6) by (cases expiry rule: option.exhaust; cases "the expiry")
      (simp_all add: createSessionToken_def Let_def)
  then show ?thesis
    by (simp add: verifySessionToken_def split_token_append [OF assms(3,2)] timingSafeEqualStrings_def assms(1)
        session_json_read expired_def)
qed

text \<open>
  A token that verifies carries the MAC of its payload under the server's
  secret, and has not expired.
\<close>

theorem session_token_authentic:
  assumes "verifySessionToken sha dec sign nowMs token secret = Inr s"
  shows "\<exists>encoded mac v. split_token token = Some (encoded, mac) \<and>
    timingSafeEqualStrings sha mac (sign encoded secret) \<and> dec encoded = Some v \<and>
    readString v ''userId'' = Some (ms_userId s) \<and> \<not> expired (ms_exp s) nowMs"
  using verifySessionToken_ok [OF assms] by blast

text \<open>A session of a user in a room, and concrete encodings, for the statements above.\<close>

definition demo_session :: session where
  "demo_session = \<lparr>ms_userId = ''@a:b'', ms_roomId = Some ''!r'', ms_queryId = None, ms_appId = None,
     ms_exp = Fin 0, ms_membership = Some ''join'', ms_powerLevel = Some (Fin 50)\<rparr>"

definition demo_dec :: "string \<Rightarrow> json option" where
  "demo_dec s = Some (session_json (demo_session\<lparr>ms_exp := Fin 160\<rparr>))"

theorem session_token_round_trip_witness:
  "verifySessionToken id demo_dec (\<lambda>m k. ''mac'') 159999 (createSessionToken (\<lambda>v. ''p'') (\<lambda>m k. ''mac'') 100000
     demo_session None ''secret'' 60) ''secret'' = Inr (demo_session\<lparr>ms_exp := Fin 160\<rparr>) \<and>
   verifySessionToken id demo_dec (\<lambda>m k. ''mac'') 160000 (createSessionToken (\<lambda>v. ''p'') (\<lambda>m k. ''mac'') 100000
     demo_session None ''secret'' 60) ''secret'' = Inl (bad ''session token expired'' Expired)"
proof -
  have "verifySessionToken id demo_dec (\<lambda>m k. ''mac'') later (createSessionToken (\<lambda>v. ''p'') (\<lambda>m k. ''mac'') 100000
      demo_session None ''secret'' 60) ''secret'' =
    (if 160 * 1000 \<le> later then Inl (bad ''session token expired'' Expired)
     else Inr (demo_session\<lparr>ms_exp := Fin 160\<rparr>))" for later
    by (rule session_token_round_trip) (simp_all add: demo_dec_def)
  then show ?thesis by simp
qed





theorem session_token_authentic_witness:
  "\<exists>encoded mac. split_token ''p.mac'' = Some (encoded, mac) \<and>
     timingSafeEqualStrings id mac ((\<lambda>m k. ''mac'') encoded ''secret'')"
proof -
  have "verifySessionToken id demo_dec (\<lambda>m k. ''mac'') 1000 ''p.mac'' ''secret'' = Inr (demo_session\<lparr>ms_exp := Fin 160\<rparr>)"
    by (simp add: verifySessionToken_def split_token_def Let_def timingSafeEqualStrings_def demo_dec_def
        session_json_read expired_def)
  from session_token_authentic [OF this] show ?thesis by blast
qed

end
