(* ===== verification/Room_Cache.thy ===== *)
theory Room_Cache
  imports Js_Util
begin

text \<open>
  \<^verbatim>\<open>src/room-cache.ts\<close>: the projection of room state built from \<^verbatim>\<open>/sync\<close>. The rooms live in
  the LRU cache of \<open>Js_Util\<close>; a room found there is an object, so a change of it leaves
  its place in the cache alone. Reading moves a room to the young end, so readers return
  the cache, too. A user id or an event type named like a property of \<open>Object.prototype\<close>
  is outside the model.
\<close>

section \<open>Rooms\<close>

datatype membership = M_join | M_invite | M_leave | M_ban | M_knock

datatype history_visibility = HV_invited | HV_joined | HV_shared | HV_world_readable

record power_levels =
  pl_users :: "(string, jsnum) jsmap"
  pl_usersDefault :: int
  pl_eventsDefault :: int
  pl_stateDefault :: int
  pl_events :: "(string, jsnum) jsmap"
  pl_invite :: int
  pl_kick :: int
  pl_ban :: int
  pl_redact :: int
  pl_notificationsRoom :: int

definition DEFAULT_POWER_LEVELS :: power_levels where
  "DEFAULT_POWER_LEVELS =
     \<lparr>pl_users = [], pl_usersDefault = 0, pl_eventsDefault = 0, pl_stateDefault = 50, pl_events = [],
      pl_invite = 0, pl_kick = 50, pl_ban = 50, pl_redact = 50, pl_notificationsRoom = 50\<rparr>"

record room_info =
  ri_roomId :: string
  ri_encryption :: "string option"
  ri_stateSynced :: bool
  ri_visibility :: history_visibility
  ri_name :: "string option"
  ri_topic :: "string option"
  ri_alias :: "string option"
  ri_avatar :: "string option"
  ri_creator :: "string option"
  ri_version :: "string option"
  ri_replacedBy :: "string option"
  ri_members :: "(string, membership) jsmap"
  ri_memberListComplete :: bool
  ri_isDirectHint :: bool
  ri_power :: power_levels
  ri_joinedCount :: "int option"

definition emptyRoom :: "string \<Rightarrow> room_info" where
  "emptyRoom roomId =
     \<lparr>ri_roomId = roomId, ri_encryption = None, ri_stateSynced = False, ri_visibility = HV_shared,
      ri_name = None, ri_topic = None, ri_alias = None, ri_avatar = None, ri_creator = None,
      ri_version = None, ri_replacedBy = None, ri_members = [], ri_memberListComplete = False,
      ri_isDirectHint = False, ri_power = DEFAULT_POWER_LEVELS, ri_joinedCount = None\<rparr>"

section \<open>Reading state events\<close>

definition parseHistoryVisibility :: "json option \<Rightarrow> history_visibility option" where
  "parseHistoryVisibility value =
     (if value = Some (JStr ''invited'') then Some HV_invited
      else if value = Some (JStr ''joined'') then Some HV_joined
      else if value = Some (JStr ''shared'') then Some HV_shared
      else if value = Some (JStr ''world_readable'') then Some HV_world_readable
      else None)"

text \<open>The loop over the entries of \<open>users\<close> or \<open>events\<close>; only numbers are taken.\<close>

fun read_levels :: "(string \<times> json) list \<Rightarrow> (string, jsnum) jsmap \<Rightarrow> (string, jsnum) jsmap" where
  "read_levels [] m = m"
| "read_levels ((k, JNum n) # ps) m = read_levels ps (jm_set k n m)"
| "read_levels ((k, _) # ps) m = read_levels ps m"

definition level_entries :: "json \<Rightarrow> string \<Rightarrow> (string \<times> json) list" where
  "level_entries content key = (case json_prop content key of Some (JObj ps) \<Rightarrow> ps | _ \<Rightarrow> [])"

definition number_or :: "json \<Rightarrow> string \<Rightarrow> int \<Rightarrow> int" where
  "number_or content key d = (case readNumber content key of Some n \<Rightarrow> n | None \<Rightarrow> d)"

definition parsePowerLevels :: "json \<Rightarrow> power_levels" where
  "parsePowerLevels content =
     (if \<not> isPlainObject content then DEFAULT_POWER_LEVELS
      else \<lparr>pl_users = read_levels (level_entries content ''users'') [],
            pl_usersDefault = number_or content ''users_default'' 0,
            pl_eventsDefault = number_or content ''events_default'' 0,
            pl_stateDefault = number_or content ''state_default'' 50,
            pl_events = read_levels (level_entries content ''events'') [],
            pl_invite = number_or content ''invite'' 0,
            pl_kick = number_or content ''kick'' 50,
            pl_ban = number_or content ''ban'' 50,
            pl_redact = number_or content ''redact'' 50,
            pl_notificationsRoom =
              (case json_prop content ''notifications'' of
                 Some n \<Rightarrow> number_or n ''room'' 50
               | None \<Rightarrow> 50)\<rparr>)"

definition parse_membership :: "string option \<Rightarrow> membership option" where
  "parse_membership v =
     (if v = Some ''join'' then Some M_join
      else if v = Some ''invite'' then Some M_invite
      else if v = Some ''leave'' then Some M_leave
      else if v = Some ''ban'' then Some M_ban
      else if v = Some ''knock'' then Some M_knock
      else None)"

section \<open>The cache\<close>

record room_cache =
  rc_rooms :: "(string, room_info) lru"
  rc_direct :: "string list"
  rc_directLoaded :: bool

definition rc_new :: "int \<Rightarrow> string + room_cache" where
  "rc_new capacity =
     (case lru_new capacity of
        Inl e \<Rightarrow> Inl e
      | Inr l \<Rightarrow> Inr \<lparr>rc_rooms = l, rc_direct = [], rc_directLoaded = False\<rparr>)"

definition rc_get :: "string \<Rightarrow> room_cache \<Rightarrow> room_info option \<times> room_cache" where
  "rc_get r c = (let (v, l) = lru_get r (rc_rooms c) in (v, c\<lparr>rc_rooms := l\<rparr>))"

definition rc_ensure :: "string \<Rightarrow> room_cache \<Rightarrow> room_info \<times> room_cache" where
  "rc_ensure r c =
     (case rc_get r c of
        (Some x, c1) \<Rightarrow> (x, c1)
      | (None, c1) \<Rightarrow> (emptyRoom r, c1\<lparr>rc_rooms := lru_set r (emptyRoom r) (rc_rooms c1)\<rparr>))"

text \<open>Assigning to the fields of the room object that the cache holds.\<close>

definition rc_put :: "string \<Rightarrow> room_info \<Rightarrow> room_cache \<Rightarrow> room_cache" where
  "rc_put r x c = c\<lparr>rc_rooms := (rc_rooms c)\<lparr>lru_map := jm_set r x (lru_map (rc_rooms c))\<rparr>\<rparr>"

definition rc_update :: "string \<Rightarrow> (room_info \<Rightarrow> room_info) \<Rightarrow> room_cache \<Rightarrow> room_cache" where
  "rc_update r f c = (let (x, c1) = rc_ensure r c in rc_put r (f x) c1)"

definition rc_change :: "string \<Rightarrow> (room_info \<Rightarrow> room_info) \<Rightarrow> room_cache \<Rightarrow> room_cache" where
  "rc_change r f c = (case rc_get r c of (Some x, c1) \<Rightarrow> rc_put r (f x) c1 | (None, c1) \<Rightarrow> c1)"

definition rc_forget :: "string \<Rightarrow> room_cache \<Rightarrow> room_cache" where
  "rc_forget r c = c\<lparr>rc_rooms := snd (lru_delete r (rc_rooms c)), rc_direct := removeAll r (rc_direct c)\<rparr>"

definition rc_invalidate :: "string \<Rightarrow> room_cache \<Rightarrow> room_cache" where
  "rc_invalidate r =
     rc_change r (\<lambda>x. x\<lparr>ri_stateSynced := False, ri_encryption := None, ri_members := [],
                        ri_memberListComplete := False\<rparr>)"

definition rc_invalidateMembers :: "string \<Rightarrow> room_cache \<Rightarrow> room_cache" where
  "rc_invalidateMembers r = rc_change r (\<lambda>x. x\<lparr>ri_memberListComplete := False\<rparr>)"

text \<open>The switch of \<open>applyStateEvent\<close>, on the room found or created.\<close>

definition some_or :: "'a option \<Rightarrow> 'a option \<Rightarrow> 'a option" where
  "some_or v d = (case v of Some x \<Rightarrow> Some x | None \<Rightarrow> d)"

definition truthy_or :: "string option \<Rightarrow> string option \<Rightarrow> string option" where
  "truthy_or v d = (case v of Some s \<Rightarrow> if s \<noteq> [] then Some s else d | None \<Rightarrow> d)"

definition apply_member :: "json \<Rightarrow> string option \<Rightarrow> room_info \<Rightarrow> room_info" where
  "apply_member content stateKey x =
     (case stateKey of
        None \<Rightarrow> x
      | Some k \<Rightarrow>
          if k = [] then x
          else
            (let x1 = (case parse_membership (readString content ''membership'') of
                         Some ms \<Rightarrow> x\<lparr>ri_members := jm_set k ms (ri_members x)\<rparr>
                       | None \<Rightarrow> x)
             in if json_prop content ''is_direct'' = Some (JBool True)
                then x1\<lparr>ri_isDirectHint := True\<rparr> else x1))"

definition room_apply :: "string \<Rightarrow> json \<Rightarrow> json \<Rightarrow> room_info \<Rightarrow> room_info" where
  "room_apply type content event x =
     (if type = ''m.room.encryption'' then
        x\<lparr>ri_encryption := truthy_or (readString content ''algorithm'') (ri_encryption x)\<rparr>
      else if type = ''m.room.history_visibility'' then
        x\<lparr>ri_visibility :=
            (case parseHistoryVisibility (json_prop content ''history_visibility'') of
               Some v \<Rightarrow> v | None \<Rightarrow> HV_shared)\<rparr>
      else if type = ''m.room.member'' then apply_member content (readString event ''state_key'') x
      else if type = ''m.room.name'' then x\<lparr>ri_name := some_or (readString content ''name'') (ri_name x)\<rparr>
      else if type = ''m.room.topic'' then x\<lparr>ri_topic := some_or (readString content ''topic'') (ri_topic x)\<rparr>
      else if type = ''m.room.avatar'' then x\<lparr>ri_avatar := some_or (readString content ''url'') (ri_avatar x)\<rparr>
      else if type = ''m.room.canonical_alias'' then
        x\<lparr>ri_alias := some_or (readString content ''alias'') (ri_alias x)\<rparr>
      else if type = ''m.room.create'' then
        x\<lparr>ri_creator := truthy_or (some_or (readString content ''creator'') (readString event ''sender'')) (ri_creator x),
          ri_version := truthy_or (readString content ''room_version'') (ri_version x)\<rparr>
      else if type = ''m.room.tombstone'' then
        x\<lparr>ri_replacedBy := truthy_or (readString content ''replacement_room'') (ri_replacedBy x)\<rparr>
      else if type = ''m.room.power_levels'' then x\<lparr>ri_power := parsePowerLevels content\<rparr>
      else x)"

definition event_content :: "json \<Rightarrow> json" where
  "event_content event = (case json_prop event ''content'' of Some (JObj ps) \<Rightarrow> JObj ps | _ \<Rightarrow> JObj [])"

definition rc_applyStateEvent :: "string \<Rightarrow> json \<Rightarrow> room_cache \<Rightarrow> room_cache" where
  "rc_applyStateEvent r event c =
     (case readString event ''type'' of
        None \<Rightarrow> c
      | Some type \<Rightarrow>
          if type = [] then c else rc_update r (room_apply type (event_content event) event) c)"

definition rc_markStateSynced :: "string \<Rightarrow> room_cache \<Rightarrow> room_cache" where
  "rc_markStateSynced r = rc_update r (\<lambda>x. x\<lparr>ri_stateSynced := True\<rparr>)"

definition rc_applySummary :: "string \<Rightarrow> json \<Rightarrow> room_cache \<Rightarrow> room_cache" where
  "rc_applySummary r summary c =
     (case readNumber summary ''m.joined_member_count'' of
        None \<Rightarrow> c
      | Some n \<Rightarrow> rc_update r (\<lambda>x. x\<lparr>ri_joinedCount := Some n\<rparr>) c)"

definition replace_members :: "string list \<Rightarrow> (string, membership) jsmap \<Rightarrow> (string, membership) jsmap" where
  "replace_members ms m =
     fold (\<lambda>u. jm_set u M_join) ms (jm_filter (\<lambda>u v. v \<noteq> M_join \<or> u \<in> set ms) m)"

definition rc_setJoinedMembers :: "string \<Rightarrow> string list \<Rightarrow> room_cache \<Rightarrow> room_cache" where
  "rc_setJoinedMembers r ms =
     rc_update r (\<lambda>x. x\<lparr>ri_members := replace_members ms (ri_members x),
                        ri_joinedCount := Some (int (length ms)), ri_memberListComplete := True\<rparr>)"

section \<open>Readers\<close>

definition room_joined :: "room_info \<Rightarrow> string list" where
  "room_joined x = map fst (filter (\<lambda>(u, v). v = M_join) (ri_members x))"

definition rc_joinedMembers :: "string \<Rightarrow> room_cache \<Rightarrow> string list \<times> room_cache" where
  "rc_joinedMembers r c = (let (v, c1) = rc_get r c in (case v of None \<Rightarrow> [] | Some x \<Rightarrow> room_joined x, c1))"

definition room_complete :: "room_info option \<Rightarrow> bool" where
  "room_complete v = (case v of None \<Rightarrow> False | Some x \<Rightarrow> ri_memberListComplete x \<and> 0 < length (ri_members x))"

definition rc_hasCompleteMemberList :: "string \<Rightarrow> room_cache \<Rightarrow> bool \<times> room_cache" where
  "rc_hasCompleteMemberList r c = (let (v, c1) = rc_get r c in (room_complete v, c1))"

definition room_encrypted :: "room_info option \<Rightarrow> bool option" where
  "room_encrypted v =
     (case v of
        None \<Rightarrow> None
      | Some x \<Rightarrow>
          (case ri_encryption x of
             Some a \<Rightarrow> if a \<noteq> [] then Some True else if ri_stateSynced x then Some False else None
           | None \<Rightarrow> if ri_stateSynced x then Some False else None))"

definition rc_isEncrypted :: "string \<Rightarrow> room_cache \<Rightarrow> bool option \<times> room_cache" where
  "rc_isEncrypted r c = (let (v, c1) = rc_get r c in (room_encrypted v, c1))"

definition rc_setEncrypted :: "string \<Rightarrow> string option \<Rightarrow> room_cache \<Rightarrow> room_cache" where
  "rc_setEncrypted r algorithm =
     rc_update r (\<lambda>x. x\<lparr>ri_encryption := truthy_or algorithm None, ri_stateSynced := True\<rparr>)"

definition rc_historyVisibility :: "string \<Rightarrow> room_cache \<Rightarrow> history_visibility \<times> room_cache" where
  "rc_historyVisibility r c =
     (let (v, c1) = rc_get r c in (case v of None \<Rightarrow> HV_shared | Some x \<Rightarrow> ri_visibility x, c1))"

definition rc_powerLevels :: "string \<Rightarrow> room_cache \<Rightarrow> power_levels \<times> room_cache" where
  "rc_powerLevels r c =
     (let (v, c1) = rc_get r c in (case v of None \<Rightarrow> DEFAULT_POWER_LEVELS | Some x \<Rightarrow> ri_power x, c1))"

definition rc_membershipOf :: "string \<Rightarrow> string \<Rightarrow> room_cache \<Rightarrow> membership option \<times> room_cache" where
  "rc_membershipOf r u c =
     (let (v, c1) = rc_get r c in (case v of None \<Rightarrow> None | Some x \<Rightarrow> jm_get (ri_members x) u, c1))"

definition user_level :: "power_levels \<Rightarrow> string \<Rightarrow> jsnum" where
  "user_level p u = (case jm_get (pl_users p) u of Some n \<Rightarrow> n | None \<Rightarrow> Fin (pl_usersDefault p))"

definition required_level :: "power_levels \<Rightarrow> string \<Rightarrow> bool \<Rightarrow> jsnum" where
  "required_level p type isState =
     (case jm_get (pl_events p) type of
        Some n \<Rightarrow> n
      | None \<Rightarrow> Fin (if isState then pl_stateDefault p else pl_eventsDefault p))"

definition rc_powerLevelOf :: "string \<Rightarrow> string \<Rightarrow> room_cache \<Rightarrow> jsnum \<times> room_cache" where
  "rc_powerLevelOf r u c = (let (p, c1) = rc_powerLevels r c in (user_level p u, c1))"

definition rc_requiredPowerFor :: "string \<Rightarrow> string \<Rightarrow> bool \<Rightarrow> room_cache \<Rightarrow> jsnum \<times> room_cache" where
  "rc_requiredPowerFor r type isState c =
     (let (p, c1) = rc_powerLevels r c in (required_level p type isState, c1))"

fun jsnum_ge :: "jsnum \<Rightarrow> jsnum \<Rightarrow> bool" where
  "jsnum_ge PInf _ = True"
| "jsnum_ge NInf n = (n = NInf)"
| "jsnum_ge (Fin a) (Fin b) = (b \<le> a)"
| "jsnum_ge (Fin a) PInf = False"
| "jsnum_ge (Fin a) NInf = True"

definition rc_canSend :: "string \<Rightarrow> string \<Rightarrow> string \<Rightarrow> bool \<Rightarrow> room_cache \<Rightarrow> bool \<times> room_cache" where
  "rc_canSend r u type isState c =
     (let (l, c1) = rc_powerLevelOf r u c; (n, c2) = rc_requiredPowerFor r type isState c1
      in (jsnum_ge l n, c2))"

section \<open>Direct rooms\<close>

definition set_add :: "string \<Rightarrow> string list \<Rightarrow> string list" where
  "set_add x xs = (if x \<in> set xs then xs else xs @ [x])"

fun collect_strings :: "json list \<Rightarrow> string list \<Rightarrow> string list" where
  "collect_strings [] acc = acc"
| "collect_strings (JStr s # vs) acc = collect_strings vs (set_add s acc)"
| "collect_strings (_ # vs) acc = collect_strings vs acc"

fun collect_rooms :: "(string \<times> json) list \<Rightarrow> string list \<Rightarrow> string list" where
  "collect_rooms [] acc = acc"
| "collect_rooms ((_, JArr vs) # ps) acc = collect_rooms ps (collect_strings vs acc)"
| "collect_rooms ((_, _) # ps) acc = collect_rooms ps acc"

definition rc_applyDirectAccountData :: "json \<Rightarrow> room_cache \<Rightarrow> room_cache" where
  "rc_applyDirectAccountData content c =
     c\<lparr>rc_direct := (case content of JObj ps \<Rightarrow> collect_rooms ps [] | _ \<Rightarrow> []), rc_directLoaded := True\<rparr>"

definition rc_isDirect :: "string \<Rightarrow> room_cache \<Rightarrow> bool \<times> room_cache" where
  "rc_isDirect r c =
     (if r \<in> set (rc_direct c) then (True, c)
      else
        (case rc_get r c of
           (None, c1) \<Rightarrow> (False, c1)
         | (Some x, c1) \<Rightarrow>
             if ri_isDirectHint x then (True, c1)
             else
               (let (joined, c2) = rc_joinedMembers r c1
                in (case ri_joinedCount x of
                      Some n \<Rightarrow> n = 2
                    | None \<Rightarrow> length joined = 2, c2))))"

definition rc_size :: "room_cache \<Rightarrow> nat" where
  "rc_size c = lru_size (rc_rooms c)"

section \<open>What a reader sees\<close>

text \<open>
  \<open>rc_view\<close> is the cache without its order. The operations are two schemes, \<open>rc_update\<close> (find
  or create, then assign) and \<open>rc_change\<close> (assign when found); their laws are those of the
  cache contract \<open>cache_store\<close>.
\<close>

named_theorems rc_simps \<open>what the operations of the room cache do to its view\<close>

definition rc_view :: "room_cache \<Rightarrow> string \<Rightarrow> room_info option" where
  "rc_view c r = lru_view (rc_rooms c) r"

definition rc_inv :: "room_cache \<Rightarrow> bool" where
  "rc_inv c = lru_inv (rc_rooms c)"

definition room_or :: "room_cache \<Rightarrow> string \<Rightarrow> room_info" where
  "room_or c r = (case rc_view c r of Some x \<Rightarrow> x | None \<Rightarrow> emptyRoom r)"

lemma rc_inv_new: "rc_new capacity = Inr c \<Longrightarrow> rc_inv c"
  by (auto simp: rc_new_def lru_new_def rc_inv_def lru_inv_def split: if_splits)

lemma rc_view_new: "rc_new capacity = Inr c \<Longrightarrow> rc_view c r = None"
  by (auto simp: rc_new_def lru_new_def rc_view_def lru_view_def split: if_splits)

lemma rc_get_facts [rc_simps]:
  "rc_inv c \<Longrightarrow> fst (rc_get r c) = rc_view c r"
  "rc_inv c \<Longrightarrow> rc_view (snd (rc_get r c)) = rc_view c"
  "rc_inv c \<Longrightarrow> rc_inv (snd (rc_get r c))"
  by (simp_all add: rc_get_def rc_inv_def rc_view_def split_beta lruc.get_value lruc.get_view fun_eq_iff)

lemma rc_put_facts:
  assumes "rc_inv c" and "rc_view c r \<noteq> None"
  shows "rc_view (rc_put r x c) = (rc_view c)(r := Some x)" and "rc_inv (rc_put r x c)"
proof -
  have "r \<in> set (jm_keys (lru_map (rc_rooms c)))"
    using assms(2) by (metis jm_has_def jm_has_iff lru_view_def rc_view_def)
  with assms(1) show "rc_inv (rc_put r x c)"
    by (simp add: rc_inv_def lru_inv_def rc_put_def length_update)
qed (simp add: rc_view_def lru_view_def rc_put_def update_conv' fun_eq_iff)

lemma rc_ensure_facts:
  assumes "rc_inv c"
  shows "fst (rc_ensure r c) = room_or c r"
    and "rc_view (snd (rc_ensure r c)) r = Some (room_or c r)"
    and "r' \<noteq> r \<Longrightarrow> rc_view (snd (rc_ensure r c)) r' \<in> {rc_view c r', None}"
    and "rc_inv (snd (rc_ensure r c))"
proof -
  obtain v c1 where g: "rc_get r c = (v, c1)" by fastforce
  have v: "rc_view c r = v" and c1: "rc_view c1 = rc_view c" "lru_inv (rc_rooms c1)"
    using rc_get_facts [OF assms, of r] by (simp_all add: g rc_inv_def)
  show "fst (rc_ensure r c) = room_or c r"
    using v by (auto simp: rc_ensure_def g room_or_def split: option.split)
  show "rc_view (snd (rc_ensure r c)) r = Some (room_or c r)"
  proof (cases v)
    case None
    with v c1 show ?thesis by (simp add: rc_ensure_def g room_or_def rc_view_def lruc.set_same)
  next
    case (Some x)
    with v c1 show ?thesis by (simp add: rc_ensure_def g room_or_def)
  qed
  show "rc_inv (snd (rc_ensure r c))"
    using v c1 by (auto simp: rc_ensure_def g rc_inv_def split: option.split)
  assume "r' \<noteq> r"
  with lruc.set_other [OF c1(2), of r' r "emptyRoom r"] c1(1)
  show "rc_view (snd (rc_ensure r c)) r' \<in> {rc_view c r', None}"
    by (auto simp: rc_ensure_def g rc_view_def fun_eq_iff split: option.split)
qed

lemma rc_update_view [rc_simps]: "rc_inv c \<Longrightarrow> rc_view (rc_update r f c) r = Some (f (room_or c r))"
  by (simp add: rc_update_def split_beta rc_ensure_facts rc_put_facts)

lemma rc_update_inv [rc_simps]: "rc_inv c \<Longrightarrow> rc_inv (rc_update r f c)"
  by (simp add: rc_update_def split_beta rc_ensure_facts rc_put_facts)

lemma rc_update_other:
  "rc_inv c \<Longrightarrow> r' \<noteq> r \<Longrightarrow> rc_view (rc_update r f c) r' \<in> {rc_view c r', None}"
  using rc_ensure_facts(3) [of c r' r]
  by (simp add: rc_update_def split_beta rc_ensure_facts rc_put_facts)

lemma rc_change_facts:
  assumes inv: "rc_inv c"
  shows "rc_view (rc_change r f c) = (rc_view c)(r := map_option f (rc_view c r)) \<and> rc_inv (rc_change r f c)"
proof -
  obtain v c1 where g: "rc_get r c = (v, c1)" by fastforce
  have v: "rc_view c r = v" and c1: "rc_view c1 = rc_view c" "rc_inv c1"
    using rc_get_facts [OF inv, of r] by (simp_all add: g)
  show ?thesis
  proof (cases v)
    case None
    with v c1 show ?thesis by (simp add: rc_change_def g fun_eq_iff)
  next
    case (Some x)
    with v c1 rc_put_facts [of c1 r] show ?thesis by (simp add: rc_change_def g)
  qed
qed

lemmas rc_change_view [rc_simps] = rc_change_facts [THEN conjunct1]
  and rc_change_inv [rc_simps] = rc_change_facts [THEN conjunct2]

lemma rc_forget_view [rc_simps]: "rc_inv c \<Longrightarrow> rc_view (rc_forget r c) = (rc_view c)(r := None)"
  and rc_forget_inv [rc_simps]: "rc_inv c \<Longrightarrow> rc_inv (rc_forget r c)"
  by (simp_all add: rc_forget_def rc_inv_def rc_view_def fun_eq_iff lruc.del_view)

text \<open>A property of every cached room, and the operations that keep it.\<close>

definition cache_all :: "(string \<Rightarrow> room_info \<Rightarrow> bool) \<Rightarrow> room_cache \<Rightarrow> bool" where
  "cache_all P c \<longleftrightarrow> (\<forall>r x. rc_view c r = Some x \<longrightarrow> P r x)"

lemma cache_allD: "cache_all P c \<Longrightarrow> rc_view c r = Some x \<Longrightarrow> P r x"
  by (simp add: cache_all_def)

lemma cache_allI: "(\<And>r x. rc_view c r = Some x \<Longrightarrow> P r x) \<Longrightarrow> cache_all P c"
  by (simp add: cache_all_def)

lemma cache_all_view: "rc_view c' = rc_view c \<Longrightarrow> cache_all P c' = cache_all P c"
  by (simp add: cache_all_def)

lemma cache_all_room_or: "cache_all P c \<Longrightarrow> P r (emptyRoom r) \<Longrightarrow> P r (room_or c r)"
  by (auto simp: room_or_def cache_allD split: option.split)

lemma cache_all_update:
  assumes "rc_inv c" and "cache_all P c" and "Q r (f (room_or c r))"
    and "\<And>r' x. r' \<noteq> r \<Longrightarrow> P r' x \<Longrightarrow> Q r' x"
  shows "cache_all Q (rc_update r f c)"
proof (rule cache_allI)
  fix r' x
  assume x: "rc_view (rc_update r f c) r' = Some x"
  show "Q r' x"
  proof (cases "r' = r")
    case True
    with assms(1,3) x show ?thesis by (simp add: rc_simps)
  next
    case False
    with rc_update_other [OF assms(1) False, of f] x have "rc_view c r' = Some x" by auto
    with assms(2) have "P r' x" by (rule cache_allD)
    with False show ?thesis by (rule assms(4))
  qed
qed

lemma cache_all_update_same:
  assumes "rc_inv c" and "cache_all P c" and "P r (emptyRoom r)" and "\<And>x. P r x \<Longrightarrow> P r (f x)"
  shows "cache_all P (rc_update r f c)"
  using assms(1,2) by (rule cache_all_update) (simp_all add: assms cache_all_room_or)

lemma cache_all_change:
  assumes "rc_inv c" and "cache_all P c" and "\<And>x. P r x \<Longrightarrow> P r (f x)"
  shows "cache_all P (rc_change r f c)"
proof (rule cache_allI)
  fix r' x
  assume "rc_view (rc_change r f c) r' = Some x"
  with assms show "P r' x" by (auto simp: rc_simps dest: cache_allD split: if_splits)
qed

lemma cache_all_forget: "rc_inv c \<Longrightarrow> cache_all P c \<Longrightarrow> cache_all P (rc_forget r c)"
  by (auto simp: rc_simps intro!: cache_allI dest: cache_allD split: if_splits)

section \<open>Histories of the cache\<close>

datatype rc_op =
    Op_state string json
  | Op_synced string
  | Op_summary string json
  | Op_members string "string list"
  | Op_encrypted string "string option"
  | Op_invalidate string
  | Op_invalidateMembers string
  | Op_forget string
  | Op_direct json
  | Op_read string

fun rc_step :: "rc_op \<Rightarrow> room_cache \<Rightarrow> room_cache" where
  "rc_step (Op_state r e) c = rc_applyStateEvent r e c"
| "rc_step (Op_synced r) c = rc_markStateSynced r c"
| "rc_step (Op_summary r s) c = rc_applySummary r s c"
| "rc_step (Op_members r ms) c = rc_setJoinedMembers r ms c"
| "rc_step (Op_encrypted r a) c = rc_setEncrypted r a c"
| "rc_step (Op_invalidate r) c = rc_invalidate r c"
| "rc_step (Op_invalidateMembers r) c = rc_invalidateMembers r c"
| "rc_step (Op_forget r) c = rc_forget r c"
| "rc_step (Op_direct j) c = rc_applyDirectAccountData j c"
| "rc_step (Op_read r) c = snd (rc_get r c)"

definition rc_run :: "rc_op list \<Rightarrow> room_cache \<Rightarrow> room_cache" where
  "rc_run = fold rc_step"

text \<open>
  The reference for the member list: who has joined, by the last list loaded for the room
  and the membership events since.
\<close>

definition member_delta :: "json \<Rightarrow> string set \<Rightarrow> string set" where
  "member_delta e js =
     (if readString e ''type'' = Some ''m.room.member'' then
        (case (readString e ''state_key'', parse_membership (readString (event_content e) ''membership'')) of
           (Some k, Some v) \<Rightarrow> if k = [] then js else if v = M_join then insert k js else js - {k}
         | _ \<Rightarrow> js)
      else js)"

fun joined_step :: "rc_op \<Rightarrow> (string \<Rightarrow> string set) \<Rightarrow> string \<Rightarrow> string set" where
  "joined_step (Op_state r e) J = J(r := member_delta e (J r))"
| "joined_step (Op_members r ms) J = J(r := set ms)"
| "joined_step _ J = J"

definition joined_ref :: "rc_op list \<Rightarrow> string \<Rightarrow> string set" where
  "joined_ref ops = fold joined_step ops (\<lambda>_. {})"

definition members_ok :: "string set \<Rightarrow> room_info \<Rightarrow> bool" where
  "members_ok js x \<longleftrightarrow> jm_wf (ri_members x) \<and>
     (ri_memberListComplete x \<longrightarrow> (\<forall>u. jm_get (ri_members x) u = Some M_join \<longleftrightarrow> u \<in> js))"

lemma room_joined_iff: "jm_wf (ri_members x) \<Longrightarrow> u \<in> set (room_joined x) \<longleftrightarrow> jm_get (ri_members x) u = Some M_join"
  by (auto simp: room_joined_def intro: rev_image_eqI dest: map_of_SomeD)

lemma jm_get_fold_set:
  "jm_get (fold (\<lambda>u. jm_set u v) us m) k = (if k \<in> set us then Some v else jm_get m k)"
  by (induction us arbitrary: m) (auto simp: jsmap_simps)

lemma jm_wf_fold_set: "jm_wf m \<Longrightarrow> jm_wf (fold (\<lambda>u. jm_set u v) us m)"
  by (induction us arbitrary: m) auto

lemma members_ok_empty: "members_ok js (emptyRoom r)"
  by (simp add: members_ok_def emptyRoom_def)

lemma members_ok_replace:
  "members_ok js x \<Longrightarrow>
     members_ok (set ms) (x\<lparr>ri_members := replace_members ms (ri_members x), ri_joinedCount := n,
                            ri_memberListComplete := True\<rparr>)"
  by (auto simp: members_ok_def replace_members_def jm_get_fold_set jm_wf_fold_set jsmap_simps
      split: option.splits if_splits)

lemma members_ok_apply:
  assumes "members_ok js x" and "readString e ''type'' = Some type"
  shows "members_ok (member_delta e js) (room_apply type (event_content e) e x)"
proof (cases "type = ''m.room.member''")
  case True
  with assms show ?thesis
    by (auto simp: members_ok_def member_delta_def room_apply_def apply_member_def Let_def jsmap_simps
        split: option.split)
next
  case False
  with assms show ?thesis by (simp add: members_ok_def member_delta_def room_apply_def)
qed

text \<open>
  The invariant of a history: every cached room has a member list that is right when it
  claims to be complete.
\<close>

abbreviation cache_members_ok :: "(string \<Rightarrow> string set) \<Rightarrow> room_cache \<Rightarrow> bool" where
  "cache_members_ok J \<equiv> cache_all (\<lambda>r. members_ok (J r))"

lemma room_or_members: "cache_members_ok J c \<Longrightarrow> members_ok (J r) (room_or c r)"
  using cache_all_room_or [of "\<lambda>r. members_ok (J r)"] members_ok_empty by blast

lemma cache_members_update:
  assumes "rc_inv c" and "cache_members_ok J c" and "members_ok js (f (room_or c r))"
  shows "cache_members_ok (J(r := js)) (rc_update r f c)"
  using assms(1,2) by (rule cache_all_update) (use assms(3) in simp_all)

lemma cache_members_update_same:
  assumes "rc_inv c" and "cache_members_ok J c" and "\<And>x. members_ok (J r) x \<Longrightarrow> members_ok (J r) (f x)"
  shows "cache_members_ok J (rc_update r f c)"
  using assms(1,2) by (rule cache_all_update_same) (simp_all add: assms(3) members_ok_empty)

lemma rc_step_inv: "rc_inv c \<Longrightarrow> rc_inv (rc_step a c)"
  by (cases a) (auto simp: rc_applyStateEvent_def rc_markStateSynced_def rc_applySummary_def
      rc_setJoinedMembers_def rc_setEncrypted_def rc_invalidate_def rc_invalidateMembers_def
      rc_applyDirectAccountData_def rc_simps rc_inv_def [of "_\<lparr>rc_direct := _, rc_directLoaded := _\<rparr>"]
      simp flip: rc_inv_def split: option.split)

lemma rc_step_members:
  assumes inv: "rc_inv c" and ok: "cache_members_ok J c"
  shows "cache_members_ok (joined_step a J) (rc_step a c)"
proof (cases a)
  case (Op_state r e)
  have J: "J(r := J r) = J" by simp
  show ?thesis
  proof (cases "readString e ''type''")
    case None
    then have "member_delta e (J r) = J r" by (simp add: member_delta_def)
    with None ok show ?thesis by (simp add: Op_state rc_applyStateEvent_def)
  next
    case (Some type)
    show ?thesis
    proof (cases "type = []")
      case True
      with Some have "member_delta e (J r) = J r" by (simp add: member_delta_def)
      with Some True ok show ?thesis by (simp add: Op_state rc_applyStateEvent_def)
    next
      case False
      with Some show ?thesis
        using cache_members_update [OF inv ok, of _ "room_apply type (event_content e) e" r,
            OF members_ok_apply [OF room_or_members [OF ok] Some]]
        by (simp add: Op_state rc_applyStateEvent_def)
    qed
  qed
next
  case (Op_members r ms)
  show ?thesis
    unfolding Op_members rc_step.simps joined_step.simps rc_setJoinedMembers_def
    by (rule cache_members_update [OF inv ok], rule members_ok_replace [OF room_or_members [OF ok]])
next
  case (Op_synced r)
  show ?thesis
    by (simp add: Op_synced rc_markStateSynced_def, rule cache_members_update_same [OF inv ok])
      (simp add: members_ok_def)
next
  case (Op_summary r s)
  show ?thesis
  proof (cases "readNumber s ''m.joined_member_count''")
    case None
    with ok show ?thesis by (simp add: Op_summary rc_applySummary_def)
  next
    case (Some n)
    then show ?thesis
      by (simp add: Op_summary rc_applySummary_def, intro cache_members_update_same [OF inv ok])
        (simp add: members_ok_def)
  qed
next
  case (Op_encrypted r alg)
  show ?thesis
    by (simp add: Op_encrypted rc_setEncrypted_def, rule cache_members_update_same [OF inv ok])
      (simp add: members_ok_def)
next
  case (Op_invalidate r)
  show ?thesis
    by (simp add: Op_invalidate rc_invalidate_def, rule cache_all_change [OF inv ok])
      (simp add: members_ok_def)
next
  case (Op_invalidateMembers r)
  show ?thesis
    by (simp add: Op_invalidateMembers rc_invalidateMembers_def, rule cache_all_change [OF inv ok])
      (simp add: members_ok_def)
next
  case (Op_forget r)
  with inv ok show ?thesis by (simp add: cache_all_forget)
next
  case (Op_direct j)
  with ok show ?thesis
    by (simp add: cache_all_def rc_applyDirectAccountData_def rc_view_def)
next
  case (Op_read r)
  with inv ok show ?thesis by (simp add: rc_simps cache_all_view [of "snd (rc_get r c)" c])
qed

lemma rc_run_members:
  "rc_inv c \<Longrightarrow> cache_members_ok J c \<Longrightarrow>
     rc_inv (rc_run ops c) \<and> cache_members_ok (fold joined_step ops J) (rc_run ops c)"
proof (induction ops arbitrary: c J)
  case Nil
  then show ?case by (simp add: rc_run_def)
next
  case (Cons a ops)
  from Cons.IH [OF rc_step_inv [OF Cons.prems(1)] rc_step_members [OF Cons.prems]]
  show ?case by (simp add: rc_run_def)
qed

section \<open>Properties\<close>

text \<open>
  C38 (equivalence). Whatever happened since the cache was made (state events of any rooms in any order, lists
  loaded from \<^verbatim>\<open>/joined_members\<close>, evictions, invalidations), when the cache says that the
  member list of a room is complete, the joined members it returns are exactly those of the
  reference: the last list loaded for the room, updated by the membership events since.
\<close>

theorem member_list_exact:
  assumes "rc_new capacity = Inr c0" and "c = rc_run ops c0"
    and "fst (rc_hasCompleteMemberList r c)"
  shows "set (fst (rc_joinedMembers r c)) = joined_ref ops r"
proof -
  have "cache_members_ok (\<lambda>_. {}) c0"
    using rc_view_new [OF assms(1)] by (simp add: cache_all_def)
  from rc_run_members [OF rc_inv_new [OF assms(1)] this, of ops]
  have inv: "rc_inv c" and ok: "cache_members_ok (joined_ref ops) c"
    by (simp_all add: assms(2) joined_ref_def)
  from assms(3) inv obtain x where x: "rc_view c r = Some x" "ri_memberListComplete x"
    by (auto simp: rc_hasCompleteMemberList_def split_beta rc_simps room_complete_def split: option.splits)
  have m: "members_ok (joined_ref ops r) x" by (rule cache_allD [OF ok x(1)])
  have "u \<in> set (room_joined x) \<longleftrightarrow> u \<in> joined_ref ops r" for u
    using m x(2) room_joined_iff [of x u] by (simp add: members_ok_def)
  then have "set (room_joined x) = joined_ref ops r" by blast
  with x(1) inv show ?thesis by (simp add: rc_joinedMembers_def split_beta rc_simps)
qed

definition demo_member :: "string \<Rightarrow> string \<Rightarrow> json" where
  "demo_member u v =
     JObj [(''type'', JStr ''m.room.member''), (''state_key'', JStr u),
           (''content'', JObj [(''membership'', JStr v)])]"

definition demo_room_ops :: "rc_op list" where
  "demo_room_ops =
     [Op_state ''!r'' (demo_member ''@x'' ''join''), Op_members ''!r'' [''@a'', ''@b''],
      Op_state ''!r'' (demo_member ''@b'' ''leave''), Op_state ''!r'' (demo_member ''@c'' ''join'')]"

definition demo_cache :: room_cache where
  "demo_cache = \<lparr>rc_rooms = \<lparr>lru_capacity = 2000, lru_map = []\<rparr>, rc_direct = [], rc_directLoaded = False\<rparr>"

lemma demo_cache_new: "rc_new 2000 = Inr demo_cache"
  by (simp add: rc_new_def lru_new_def demo_cache_def)

lemma demo_cache_complete: "fst (rc_hasCompleteMemberList ''!r'' (rc_run demo_room_ops demo_cache))"
  by code_simp

theorem member_list_exact_witness:
  "set (fst (rc_joinedMembers ''!r'' (rc_run demo_room_ops demo_cache))) = {''@a'', ''@c''}"
proof -
  have "joined_ref demo_room_ops ''!r'' = {''@a'', ''@c''}"
    by (auto simp: joined_ref_def demo_room_ops_def demo_member_def member_delta_def readString_def
        isPlainObject_def json_prop_def event_content_def parse_membership_def)
  with member_list_exact [OF demo_cache_new refl demo_cache_complete] show ?thesis by simp
qed

end
