(* ===== verification/Crypto_Policy.thy ===== *)
theory Crypto_Policy
  imports Errors
begin

text \<open>
  \<^verbatim>\<open>src/crypto-policy.ts\<close>, \<^verbatim>\<open>src/crypto-guard.ts\<close> and \<^verbatim>\<open>src/crypto-budget.ts\<close>: when a Megolm
  session is rotated and with whom it is shared, the checks around an encrypted send, and
  the soft budget that delays key traffic. What a \<^verbatim>\<open>keys/query\<close> answers is an argument;
  \<open>parse\<close> is \<open>JSON.parse\<close>.
\<close>

section \<open>crypto-policy.ts\<close>

record share_policy =
  sp_onlyAllowTrustedDevices :: bool
  sp_errorOnVerifiedUserProblem :: bool
  sp_rotateEveryMessage :: bool
  sp_rotateMaxPeers :: int
  sp_rotationPeriodMessages :: int
  sp_rotationPeriodMs :: int
  sp_reshareOnDeviceChange :: bool

record share_policy_opts =
  so_onlyAllowTrustedDevices :: "bool option"
  so_errorOnVerifiedUserProblem :: "bool option"
  so_rotateEveryMessage :: "bool option"
  so_rotateMaxPeers :: "int option"
  so_rotationPeriodMessages :: "int option"
  so_rotationPeriodMs :: "int option"
  so_reshareOnDeviceChange :: "bool option"

definition DEFAULT_ENCRYPTION_SHARE_POLICY :: share_policy where
  "DEFAULT_ENCRYPTION_SHARE_POLICY =
     \<lparr>sp_onlyAllowTrustedDevices = False, sp_errorOnVerifiedUserProblem = False,
      sp_rotateEveryMessage = True, sp_rotateMaxPeers = 32, sp_rotationPeriodMessages = 100,
      sp_rotationPeriodMs = 7 * 24 * 60 * 60 * 1000, sp_reshareOnDeviceChange = True\<rparr>"

definition nullish :: "'a option \<Rightarrow> 'a \<Rightarrow> 'a" where
  "nullish v d = (case v of Some x \<Rightarrow> x | None \<Rightarrow> d)"

definition resolveEncryptionSharePolicy :: "share_policy_opts option \<Rightarrow> share_policy" where
  "resolveEncryptionSharePolicy policy =
     (let d = DEFAULT_ENCRYPTION_SHARE_POLICY
      in case policy of
           None \<Rightarrow> d
         | Some p \<Rightarrow>
             \<lparr>sp_onlyAllowTrustedDevices = nullish (so_onlyAllowTrustedDevices p) (sp_onlyAllowTrustedDevices d),
              sp_errorOnVerifiedUserProblem =
                nullish (so_errorOnVerifiedUserProblem p) (sp_errorOnVerifiedUserProblem d),
              sp_rotateEveryMessage = nullish (so_rotateEveryMessage p) (sp_rotateEveryMessage d),
              sp_rotateMaxPeers = nullish (so_rotateMaxPeers p) (sp_rotateMaxPeers d),
              sp_rotationPeriodMessages = nullish (so_rotationPeriodMessages p) (sp_rotationPeriodMessages d),
              sp_rotationPeriodMs = nullish (so_rotationPeriodMs p) (sp_rotationPeriodMs d),
              sp_reshareOnDeviceChange = nullish (so_reshareOnDeviceChange p) (sp_reshareOnDeviceChange d)\<rparr>)"

definition shouldRotateEveryMessage :: "share_policy \<Rightarrow> int \<Rightarrow> bool" where
  "shouldRotateEveryMessage policy peerCount =
     (if \<not> sp_rotateEveryMessage policy then False
      else if sp_rotateMaxPeers policy \<le> 0 then True
      else peerCount \<le> sp_rotateMaxPeers policy)"

definition filterShareRecipients :: "string \<Rightarrow> string list \<Rightarrow> string list" where
  "filterShareRecipients selfId members = (if selfId = [] then members else filter (\<lambda>m. m \<noteq> selfId) members)"

definition normalizeToDeviceBody :: "json \<Rightarrow> json" where
  "normalizeToDeviceBody parsed =
     (if isPlainObject parsed then
        (case json_prop parsed ''messages'' of
           Some ms \<Rightarrow> ms
         | None \<Rightarrow>
             (case json_prop parsed ''content'' of
                Some (JObj ps) \<Rightarrow> (case map_of ps ''messages'' of Some ms \<Rightarrow> ms | None \<Rightarrow> parsed)
              | _ \<Rightarrow> parsed))
      else JObj [])"

fun device_paths :: "(string \<times> json) list \<Rightarrow> string list" where
  "device_paths [] = []"
| "device_paths ((u, JObj ds) # ps) = map (\<lambda>(d, _). u @ ''/'' @ d) ds @ device_paths ps"
| "device_paths (_ # ps) = device_paths ps"

text \<open>\<open>body\<close> is a string to be parsed or a value.\<close>

definition parseToDeviceRecipients :: "(string \<Rightarrow> json option) \<Rightarrow> json \<Rightarrow> string list" where
  "parseToDeviceRecipients parse body =
     (case (case body of JStr s \<Rightarrow> parse s | v \<Rightarrow> Some v) of
        None \<Rightarrow> []
      | Some parsed \<Rightarrow> (case normalizeToDeviceBody parsed of JObj ps \<Rightarrow> device_paths ps | _ \<Rightarrow> []))"

section \<open>crypto-guard.ts\<close>

definition obj_size :: "json option \<Rightarrow> nat" where
  "obj_size v = (case v of Some (JObj ps) \<Rightarrow> length ps | _ \<Rightarrow> 0)"

definition opt_prop :: "json option \<Rightarrow> string \<Rightarrow> json option" where
  "opt_prop v k = (case v of Some j \<Rightarrow> json_prop j k | None \<Rightarrow> None)"

definition countDevicesForUser :: "json \<Rightarrow> string \<Rightarrow> nat" where
  "countDevicesForUser resp userId = obj_size (opt_prop (json_prop resp ''device_keys'') userId)"

definition hasOwnDeviceKeys :: "json \<Rightarrow> string \<Rightarrow> string \<Rightarrow> bool" where
  "hasOwnDeviceKeys resp userId deviceId =
     (case opt_prop (opt_prop (json_prop resp ''device_keys'') userId) deviceId of
        None \<Rightarrow> False
      | Some device \<Rightarrow> 0 < obj_size (json_prop device ''keys''))"

definition OWN_KEYS_BACKOFF_MS :: "int list" where
  "OWN_KEYS_BACKOFF_MS = [300, 600, 1200, 2400]"

text \<open>
  The loop of \<open>assertOwnDeviceKeysReady\<close> from attempt \<open>i\<close> on: \<open>answers i\<close> is what the query
  of that attempt answers (\<open>Inl\<close> when it throws). It returns the waits, too.
\<close>

function own_keys_loop ::
  "(nat \<Rightarrow> js_error + json) \<Rightarrow> string \<Rightarrow> string \<Rightarrow> nat \<Rightarrow> int list \<Rightarrow> (js_error + unit) \<times> int list" where
  "own_keys_loop answers userId deviceId i waits =
     (if 5 \<le> i then (Inl CryptoNotReadyError, waits)
      else
        (case answers i of
           Inl e \<Rightarrow> (Inl e, waits)
         | Inr resp \<Rightarrow>
             if hasOwnDeviceKeys resp userId deviceId then (Inr (), waits)
             else own_keys_loop answers userId deviceId (i + 1)
                    (if i < length OWN_KEYS_BACKOFF_MS then waits @ [OWN_KEYS_BACKOFF_MS ! i] else waits)))"
  by pat_completeness auto
termination by (relation "measure (\<lambda>(_, _, _, i, _). 5 - i)") auto

declare own_keys_loop.simps [simp del]

definition assertOwnDeviceKeysReady ::
  "(nat \<Rightarrow> js_error + json) \<Rightarrow> string \<Rightarrow> string \<Rightarrow> (js_error + unit) \<times> int list" where
  "assertOwnDeviceKeysReady answers userId deviceId = own_keys_loop answers userId deviceId 0 []"

definition assertDeviceIdMatch :: "string \<Rightarrow> string option \<Rightarrow> js_error + unit" where
  "assertDeviceIdMatch expected actual =
     (case actual of
        None \<Rightarrow> Inl (deviceMismatch expected actual None)
      | Some a \<Rightarrow> if a = [] \<or> a \<noteq> expected then Inl (deviceMismatch expected actual None) else Inr ())"

text \<open>\<open>userId.replace(/^@/, "").split(":")[0]\<close>.\<close>

definition strip_at :: "string \<Rightarrow> string" where
  "strip_at s = (case s of [] \<Rightarrow> [] | c # r \<Rightarrow> if c = CHR ''@'' then r else s)"

definition localpart :: "string \<Rightarrow> string" where
  "localpart s = takeWhile (\<lambda>c. c \<noteq> CHR '':'') (strip_at s)"

definition isLikelyBotUserId :: "string \<Rightarrow> bool" where
  "isLikelyBotUserId userId =
     (let l = js_lower (localpart userId)
      in js_starts_with l ''bot_'' \<or> js_includes l ''_bot'' \<or> js_includes l ''-bot'' \<or> js_ends_with l ''bot'')"

definition intended_peers :: "bool \<Rightarrow> string option \<Rightarrow> string list \<Rightarrow> string list" where
  "intended_peers includeBots exclude members =
     (let others = filter (\<lambda>u. Some u \<noteq> exclude) members;
          peers = (if includeBots then others else filter (\<lambda>u. \<not> isLikelyBotUserId u) others)
      in if peers = [] then others else peers)"

text \<open>\<open>members\<close> and \<open>query\<close> are the answers of the two requests, \<open>Inl\<close> when one throws.\<close>

definition assertPeersHaveKeys ::
  "string \<Rightarrow> bool \<Rightarrow> string option \<Rightarrow> js_error + string list \<Rightarrow> (string list \<Rightarrow> js_error + json) \<Rightarrow> js_error + unit" where
  "assertPeersHaveKeys roomId includeBots exclude members query =
     (case members of
        Inl e \<Rightarrow> Inl e
      | Inr ms \<Rightarrow>
          (let peers = intended_peers includeBots exclude ms
           in if peers = [] then Inl (PeerKeysMissingError roomId [])
              else case query peers of
                     Inl e \<Rightarrow> Inl e
                   | Inr resp \<Rightarrow>
                       if sum_list (map (countDevicesForUser resp) peers) = 0
                       then Inl (PeerKeysMissingError roomId peers)
                       else Inr ()))"

section \<open>crypto-budget.ts\<close>

text \<open>\<open>SlidingWindow\<close>: the stamps in order; \<open>prune\<close> shifts while the first is too old.\<close>

definition sw_prune :: "int \<Rightarrow> int \<Rightarrow> int list \<Rightarrow> int list" where
  "sw_prune windowMs now stamps = dropWhile (\<lambda>t. t \<le> now - windowMs) stamps"

definition sw_push :: "int \<Rightarrow> int \<Rightarrow> int list \<Rightarrow> int list" where
  "sw_push windowMs now stamps = sw_prune windowMs now stamps @ [now]"

definition sw_oldest :: "int \<Rightarrow> int \<Rightarrow> int list \<Rightarrow> int option" where
  "sw_oldest windowMs now stamps = (case sw_prune windowMs now stamps of [] \<Rightarrow> None | t # _ \<Rightarrow> Some t)"

record soft_budget =
  sb_shareLimit :: int
  sb_queryLimit :: int
  sb_maxDelayMs :: int
  sb_share :: "int list"
  sb_query :: "int list"

definition createCryptoSoftBudget :: "int option \<Rightarrow> int option \<Rightarrow> int option \<Rightarrow> soft_budget" where
  "createCryptoSoftBudget maxShare maxQuery maxDelay =
     \<lparr>sb_shareLimit = max 1 (nullish maxShare 30), sb_queryLimit = max 1 (nullish maxQuery 60),
      sb_maxDelayMs = min 15000 (max 0 (nullish maxDelay 5000)), sb_share = [], sb_query = []\<rparr>"

text \<open>
  \<open>throttle\<close> at time \<open>now\<close>: the wait, and whether the call recorded itself at once. After a
  wait it records the time at which it resumes (\<open>throttle_resume\<close>).
\<close>

definition throttle_wait :: "int \<Rightarrow> int \<Rightarrow> int \<Rightarrow> int list \<Rightarrow> int option" where
  "throttle_wait maxDelayMs limit now stamps =
     (if int (length (sw_prune 60000 now stamps)) < limit then None
      else Some (min maxDelayMs (max 0 (nullish (sw_oldest 60000 now stamps) now + 60000 - now))))"

definition throttle_enter :: "int \<Rightarrow> int \<Rightarrow> int \<Rightarrow> int list \<Rightarrow> int option \<times> int list" where
  "throttle_enter maxDelayMs limit now stamps =
     (case throttle_wait maxDelayMs limit now stamps of
        None \<Rightarrow> (None, sw_push 60000 now stamps)
      | Some w \<Rightarrow> (Some w, sw_prune 60000 now stamps))"

definition throttle_resume :: "int \<Rightarrow> int list \<Rightarrow> int list" where
  "throttle_resume now stamps = sw_push 60000 now stamps"

definition beforeShareRoomKey :: "int \<Rightarrow> soft_budget \<Rightarrow> int option \<times> soft_budget" where
  "beforeShareRoomKey now b =
     (let (w, s) = throttle_enter (sb_maxDelayMs b) (sb_shareLimit b) now (sb_share b)
      in (w, b\<lparr>sb_share := s\<rparr>))"

definition beforeKeysQuery :: "int \<Rightarrow> soft_budget \<Rightarrow> int option \<times> soft_budget" where
  "beforeKeysQuery now b =
     (let (w, s) = throttle_enter (sb_maxDelayMs b) (sb_queryLimit b) now (sb_query b)
      in (w, b\<lparr>sb_query := s\<rparr>))"

section \<open>Lemmas\<close>

lemma filterShareRecipients_self: "selfId \<noteq> [] \<Longrightarrow> selfId \<notin> set (filterShareRecipients selfId ms)"
  by (simp add: filterShareRecipients_def)

lemma intended_peers_subset: "set (intended_peers b exclude ms) \<subseteq> {u \<in> set ms. Some u \<noteq> exclude}"
  by (auto simp: intended_peers_def Let_def)

text \<open>At most five queries and at most four waits, of 4.5 seconds in all.\<close>

lemma own_keys_loop_waits:
  "\<exists>n. snd (own_keys_loop answers u d i w) = w @ take n (drop i OWN_KEYS_BACKOFF_MS)"
proof (induction answers u d i w rule: own_keys_loop.induct)
  case (1 answers u d i w)
  show ?case
  proof (cases "5 \<le> i \<or> (\<forall>resp. answers i = Inr resp \<longrightarrow> hasOwnDeviceKeys resp u d)")
    case True
    then have "snd (own_keys_loop answers u d i w) = w @ take 0 (drop i OWN_KEYS_BACKOFF_MS)"
      by (subst own_keys_loop.simps) (auto split: sum.split)
    then show ?thesis by blast
  next
    case False
    then obtain resp where r: "\<not> 5 \<le> i" "answers i = Inr resp" "\<not> hasOwnDeviceKeys resp u d" by blast
    let ?w = "if i < length OWN_KEYS_BACKOFF_MS then w @ [OWN_KEYS_BACKOFF_MS ! i] else w"
    from "1.IH" [OF r] obtain n where n: "snd (own_keys_loop answers u d (i + 1) ?w) =
      ?w @ take n (drop (i + 1) OWN_KEYS_BACKOFF_MS)" by blast
    have "snd (own_keys_loop answers u d i w) = snd (own_keys_loop answers u d (i + 1) ?w)"
      using r by (subst own_keys_loop.simps) simp
    with n have "snd (own_keys_loop answers u d i w) = w @ take (Suc n) (drop i OWN_KEYS_BACKOFF_MS)"
      by (cases "i < length OWN_KEYS_BACKOFF_MS") (simp_all add: Cons_nth_drop_Suc [symmetric])
    then show ?thesis by blast
  qed
qed

lemma own_keys_waits: "\<exists>n. snd (assertOwnDeviceKeysReady answers u d) = take n OWN_KEYS_BACKOFF_MS"
  using own_keys_loop_waits [of answers u d 0 "[]"] by (simp add: assertOwnDeviceKeysReady_def)

text \<open>The invariant of a window: its stamps are in order and none is in the future.\<close>

lemma sw_prune_sorted: "sorted s \<Longrightarrow> sorted (sw_prune w now s)"
  unfolding sw_prune_def by (rule sorted_dropWhile)

lemma sw_prune_fresh:
  assumes "sorted s" and "t \<in> set (sw_prune w now s)"
  shows "now - w < t"
proof -
  from assms(2) obtain t0 r where p: "sw_prune w now s = t0 # r" by (cases "sw_prune w now s") auto
  then have "now - w < t0" unfolding sw_prune_def by (metis dropWhile_eq_Cons_conv not_le)
  with assms p sw_prune_sorted [OF assms(1), of w now] show ?thesis by auto
qed

lemma throttle_wait_bounds:
  assumes "throttle_wait (sb_maxDelayMs (createCryptoSoftBudget a b c)) limit now s = Some w"
  shows "0 \<le> w \<and> w \<le> 15000"
  using assms by (auto simp: throttle_wait_def createCryptoSoftBudget_def min_def max_def split: if_splits)

end
