(* ===== verification/Client_Rooms.thy ===== *)
theory Client_Rooms
  imports Room_Cache Crypto_Policy Dispatch_Queue Sync
begin

text \<open>
  The part of \<^verbatim>\<open>src/client.ts\<close> that keeps room state: what a sync response does to the room
  cache and to the handlers, and how a send decides whether it must encrypt; with the cold
  start rules of \<^verbatim>\<open>src/cold-start.ts\<close> and the readiness check of \<^verbatim>\<open>src/send-readiness.ts\<close>.

  Requests to the homeserver are answered by the environment: \<open>Ans_ok\<close> with the body,
  \<open>Ans_notFound\<close> for a 404, \<open>Ans_error\<close> for any other failure. The crypto engine is present
  or not and ready or not; what it does with an event is the parameters \<open>encrypt\<close> and
  \<open>decrypt\<close>. Calls of handlers and of the crypto engine are recorded in \<open>mc_out\<close>. The
  dispatch queue runs the task of an event in place; its scheduling is the subject of
  \<open>Dispatch_Queue\<close>.
\<close>

section \<open>cold-start.ts\<close>

datatype cold_kind =
    CK_message | CK_edited_message | CK_reaction | CK_redaction | CK_membership | CK_invite
  | CK_callback_query | CK_mini_app_data | CK_poll_response | CK_ephemeral | CK_to_device
  | CK_raw_event | CK_host_capabilities_state

datatype cold_rule = CR_never | CR_bootstrap_ok | CR_after_bootstrap

definition COLD_START_DISPATCH :: "cold_kind \<Rightarrow> cold_rule" where
  "COLD_START_DISPATCH k = (if k = CK_host_capabilities_state then CR_bootstrap_ok else CR_after_bootstrap)"

definition shouldDispatchOnColdStart :: "cold_kind \<Rightarrow> bool \<Rightarrow> bool" where
  "shouldDispatchOnColdStart kind isBootstrap =
     (if \<not> isBootstrap then True else COLD_START_DISPATCH kind = CR_bootstrap_ok)"

section \<open>The client\<close>

datatype http_answer = Ans_ok json | Ans_notFound | Ans_error

text \<open>The flags of a room event are historical, bootstrap and decrypted.\<close>

datatype client_out =
    Out_toDevice json
  | Out_accountData json
  | Out_leave string
  | Out_invite string "json list"
  | Out_joinRequest string
  | Out_track "string list"
  | Out_roomEvent string json bool bool bool
  | Out_ephemeral string json

record client =
  mc_userId :: string
  mc_autojoin :: bool
  mc_autojoinFrom :: "string list option"
  mc_crypto :: bool
  mc_cryptoReady :: bool
  mc_ephemeral :: bool
  mc_onRoomEvent :: bool
  mc_rooms :: room_cache
  mc_known :: "string set"
  mc_deduper :: deduper
  mc_coldStart :: "int option"
  mc_stopping :: bool
  mc_out :: "client_out list"

definition out :: "client_out \<Rightarrow> client \<Rightarrow> client" where
  "out e c = c\<lparr>mc_out := mc_out c @ [e]\<rparr>"

definition on_rooms :: "(room_cache \<Rightarrow> room_cache) \<Rightarrow> client \<Rightarrow> client" where
  "on_rooms f c = c\<lparr>mc_rooms := f (mc_rooms c)\<rparr>"

definition client_new :: "string \<Rightarrow> bool \<Rightarrow> string list option \<Rightarrow> bool \<Rightarrow> bool \<Rightarrow> bool \<Rightarrow> room_cache \<Rightarrow> client" where
  "client_new userId autojoin autojoinFrom crypto cryptoReady ephemeral rooms =
     \<lparr>mc_userId = userId, mc_autojoin = autojoin,
      mc_autojoinFrom = (case autojoinFrom of Some [] \<Rightarrow> None | v \<Rightarrow> v),
      mc_crypto = crypto, mc_cryptoReady = cryptoReady, mc_ephemeral = ephemeral, mc_onRoomEvent = True,
      mc_rooms = rooms, mc_known = {}, mc_deduper = dd_new 2048, mc_coldStart = None,
      mc_stopping = False, mc_out = []\<rparr>"

section \<open>Requests that feed the cache\<close>

text \<open>\<open>isRoomEncrypted\<close>: the cached answer, or what the answer of the request says.\<close>

definition encryption_answer :: "string \<Rightarrow> http_answer \<Rightarrow> client \<Rightarrow> (js_error + bool) \<times> client" where
  "encryption_answer r ans c =
     (case ans of
        Ans_ok event \<Rightarrow>
          (let algorithm = readString event ''algorithm''
           in (Inr (algorithm \<noteq> None), on_rooms (rc_setEncrypted r algorithm) c))
      | Ans_notFound \<Rightarrow> (Inr False, on_rooms (rc_setEncrypted r None) c)
      | Ans_error \<Rightarrow> (Inl (EncryptionStateUnknownError r), c))"

definition isRoomEncrypted :: "string \<Rightarrow> http_answer \<Rightarrow> client \<Rightarrow> (js_error + bool) \<times> client" where
  "isRoomEncrypted r ans c =
     (let (cached, rc) = rc_isEncrypted r (mc_rooms c); c1 = c\<lparr>mc_rooms := rc\<rparr>
      in case cached of Some b \<Rightarrow> (Inr b, c1) | None \<Rightarrow> encryption_answer r ans c1)"

definition joined_keys :: "json \<Rightarrow> string list" where
  "joined_keys resp = (case json_prop resp ''joined'' of Some (JObj ps) \<Rightarrow> map fst ps | _ \<Rightarrow> [])"

definition members_answer :: "string \<Rightarrow> js_error + json \<Rightarrow> client \<Rightarrow> (js_error + string list) \<times> client" where
  "members_answer r ans c =
     (case ans of
        Inl e \<Rightarrow> (Inl e, c)
      | Inr resp \<Rightarrow> (Inr (joined_keys resp), on_rooms (rc_setJoinedMembers r (joined_keys resp)) c))"

definition getJoinedRoomMembers ::
  "string \<Rightarrow> bool \<Rightarrow> js_error + json \<Rightarrow> client \<Rightarrow> (js_error + string list) \<times> client" where
  "getJoinedRoomMembers r forceRefresh ans c =
     (if forceRefresh then members_answer r ans c
      else
        (let (complete, rc) = rc_hasCompleteMemberList r (mc_rooms c); c1 = c\<lparr>mc_rooms := rc\<rparr>
         in if complete
            then (let (ms, rc2) = rc_joinedMembers r rc in (Inr ms, c\<lparr>mc_rooms := rc2\<rparr>))
            else members_answer r ans c1))"

definition getRoomState :: "string \<Rightarrow> js_error + json \<Rightarrow> client \<Rightarrow> (js_error + json list) \<times> client" where
  "getRoomState r ans c =
     (case ans of
        Inl e \<Rightarrow> (Inl e, c)
      | Inr (JArr es) \<Rightarrow>
          (Inr es, on_rooms (\<lambda>rc. rc_markStateSynced r (fold (rc_applyStateEvent r) es rc)) c)
      | Inr _ \<Rightarrow> (Inr [], c))"

definition leaveRoom :: "string \<Rightarrow> js_error + unit \<Rightarrow> client \<Rightarrow> (js_error + unit) \<times> client" where
  "leaveRoom r ans c =
     (case ans of
        Inl e \<Rightarrow> (Inl e, c)
      | Inr _ \<Rightarrow> (Inr (), on_rooms (rc_forget r) c\<lparr>mc_known := mc_known c - {r}\<rparr>))"

text \<open>\<open>setPowerLevel\<close> sends the new content and applies it; \<open>current\<close> is \<open>{}\<close> when it cannot be read.\<close>

definition setPowerLevel ::
  "string \<Rightarrow> string \<Rightarrow> int \<Rightarrow> js_error + json \<Rightarrow> (json \<Rightarrow> js_error + string) \<Rightarrow> client \<Rightarrow> (js_error + string) \<times> client" where
  "setPowerLevel r userId level current send c =
     (let cur = (case current of Inr (JObj ps) \<Rightarrow> ps | _ \<Rightarrow> []);
          users = (case map_of cur ''users'' of Some (JObj us) \<Rightarrow> us | _ \<Rightarrow> []);
          users1 = jm_set userId (JNum (Fin level)) users;
          nxt = JObj (jm_set ''users'' (JObj users1) cur)
      in case send nxt of
           Inl e \<Rightarrow> (Inl e, c)
         | Inr eventId \<Rightarrow>
             (Inr eventId,
              on_rooms (rc_applyStateEvent r (JObj [(''type'', JStr ''m.room.power_levels''), (''content'', nxt)])) c))"

section \<open>Sending\<close>

text \<open>
  \<open>sendEvent\<close>: the room, the type and the content of the event put to the homeserver, or the
  error thrown. \<open>encrypt r type content recipients\<close> is the object the crypto engine returns, or the
  error it throws.
\<close>

type_synonym encrypt_fn = "string \<Rightarrow> string \<Rightarrow> json \<Rightarrow> string list \<Rightarrow> js_error + (string \<times> json) list"

definition encrypted_content :: "json \<Rightarrow> (string \<times> json) list \<Rightarrow> json" where
  "encrypted_content content enc =
     (case json_prop content ''m.relates_to'' of
        None \<Rightarrow> JObj enc
      | Some rel \<Rightarrow> JObj (jm_set ''m.relates_to'' rel enc))"

definition sendEvent ::
  "encrypt_fn \<Rightarrow> string \<Rightarrow> string \<Rightarrow> json \<Rightarrow> bool \<Rightarrow> http_answer \<Rightarrow> js_error + json \<Rightarrow> client \<Rightarrow>
    (js_error + string \<times> string \<times> json) \<times> client" where
  "sendEvent encrypt r type content forcePlaintext encAns memAns c =
     (let (e, c1) = (if forcePlaintext then (Inr False, c) else isRoomEncrypted r encAns c)
      in case e of
           Inl err \<Rightarrow> (Inl err, c1)
         | Inr encrypted \<Rightarrow>
             if \<not> encrypted then (Inr (r, type, content), c1)
             else if \<not> (mc_crypto c1 \<and> mc_cryptoReady c1) then (Inl (EncryptedRoomWithoutCryptoError r), c1)
             else
               (case getJoinedRoomMembers r False memAns c1 of
                  (Inl err, c2) \<Rightarrow> (Inl err, c2)
                | (Inr members, c2) \<Rightarrow>
                    (case encrypt r type content (filterShareRecipients (mc_userId c2) members) of
                       Inl err \<Rightarrow> (Inl err, c2)
                     | Inr enc \<Rightarrow> (Inr (r, ''m.room.encrypted'', encrypted_content content enc), c2))))"

text \<open>\<open>sendReaction\<close>: reactions go out in plaintext unless the client was made with \<open>encryptReactions\<close>.\<close>

definition sendReaction ::
  "encrypt_fn \<Rightarrow> bool \<Rightarrow> string \<Rightarrow> string \<Rightarrow> string \<Rightarrow> http_answer \<Rightarrow> js_error + json \<Rightarrow> client \<Rightarrow>
    (js_error + string \<times> string \<times> json) \<times> client" where
  "sendReaction encrypt encryptReactions r eventId key encAns memAns c =
     sendEvent encrypt r ''m.reaction''
       (JObj [(''m.relates_to'', JObj [(''rel_type'', JStr ''m.annotation''), (''event_id'', JStr eventId), (''key'', JStr key)])])
       (\<not> encryptReactions) encAns memAns c"

section \<open>send-readiness.ts\<close>

record readiness =
  rd_ok :: bool
  rd_encrypted :: "bool option"
  rd_cryptoReady :: bool
  rd_peerKeysOk :: bool
  rd_reason :: "js_error option"

text \<open>
  \<open>canSendToRoom\<close>; the reason \<open>"crypto_not_ready"\<close> is the error class of that name, any other
  reason is the message of the error kept here.
\<close>

definition canSendToRoom ::
  "string \<Rightarrow> js_error + json \<Rightarrow> (string list \<Rightarrow> js_error + json) \<Rightarrow> client \<Rightarrow> readiness \<times> client" where
  "canSendToRoom r memAns query c =
     (let (encrypted, rc) = rc_isEncrypted r (mc_rooms c); c1 = c\<lparr>mc_rooms := rc\<rparr>;
          ready = (mc_crypto c \<and> mc_cryptoReady c)
      in if encrypted = Some True \<and> \<not> ready then
           (\<lparr>rd_ok = False, rd_encrypted = encrypted, rd_cryptoReady = False, rd_peerKeysOk = False,
             rd_reason = Some CryptoNotReadyError\<rparr>, c1)
         else if encrypted \<noteq> Some True then
           (\<lparr>rd_ok = True, rd_encrypted = Some (nullish encrypted False), rd_cryptoReady = ready,
             rd_peerKeysOk = True, rd_reason = None\<rparr>, c1)
         else
           (let (ms, c2) = getJoinedRoomMembers r False memAns c1
            in case assertPeersHaveKeys r False (Some (mc_userId c2)) ms query of
                 Inr _ \<Rightarrow> (\<lparr>rd_ok = True, rd_encrypted = Some True, rd_cryptoReady = True,
                            rd_peerKeysOk = True, rd_reason = None\<rparr>, c2)
               | Inl e \<Rightarrow> (\<lparr>rd_ok = False, rd_encrypted = Some True, rd_cryptoReady = True,
                            rd_peerKeysOk = False, rd_reason = Some e\<rparr>, c2)))"

section \<open>Sync responses\<close>

record joined_block =
  jb_summary :: json
  jb_limited :: bool
  jb_state :: "json list"
  jb_timeline :: "json list"
  jb_ephemeral :: "json list"

record sync_response =
  sr_toDevice :: "json list"
  sr_accountData :: "json list"
  sr_leave :: "string list"
  sr_invite :: "(string \<times> json list) list"
  sr_join :: "(string \<times> joined_block) list"

text \<open>
  The environment of a response: the clock, whether the crypto engine throws on it, the
  answers of the refresh requests and of the member lists of each room, which events a
  handler throws on, and decryption.
\<close>

record sync_env =
  se_now :: int
  se_receiveThrows :: bool
  se_encryption :: "string \<Rightarrow> http_answer"
  se_visibility :: "string \<Rightarrow> http_answer"
  se_members :: "string \<Rightarrow> js_error + json"
  se_trackThrows :: "string list \<Rightarrow> bool"
  se_handlerThrows :: "string \<Rightarrow> json \<Rightarrow> bool"
  se_decrypt :: "string \<Rightarrow> json \<Rightarrow> json option"

definition HOST_CAPABILITIES_STATE_EVENT_TYPE :: string where
  "HOST_CAPABILITIES_STATE_EVENT_TYPE = ''dev.aiomatrix.host''"

definition has_type :: "string \<Rightarrow> json \<Rightarrow> bool" where
  "has_type t e = (json_prop e ''type'' = Some (JStr t))"

text \<open>The first steps of \<open>handleJoinedRoom\<close>, up to the refresh requests.\<close>

definition joined_begin :: "string \<Rightarrow> joined_block \<Rightarrow> client \<Rightarrow> bool \<times> client" where
  "joined_begin r b c =
     (let isNewRoom = (r \<notin> mc_known c); c1 = c\<lparr>mc_known := insert r (mc_known c)\<rparr>;
          c2 = on_rooms (rc_applySummary r (jb_summary b)) c1
      in (isNewRoom, if jb_limited b \<and> \<not> isNewRoom then on_rooms (rc_invalidateMembers r) c2 else c2))"

definition refreshEncryption :: "string \<Rightarrow> http_answer \<Rightarrow> client \<Rightarrow> client" where
  "refreshEncryption r ans c =
     (case ans of
        Ans_ok encryption \<Rightarrow> on_rooms (rc_setEncrypted r (readString encryption ''algorithm'')) c
      | Ans_notFound \<Rightarrow> on_rooms (rc_setEncrypted r None) c
      | Ans_error \<Rightarrow> c)"

definition refreshVisibility :: "string \<Rightarrow> http_answer \<Rightarrow> client \<Rightarrow> client" where
  "refreshVisibility r ans c =
     (case ans of
        Ans_ok v \<Rightarrow>
          on_rooms (rc_applyStateEvent r (JObj [(''type'', JStr ''m.room.history_visibility''),
                     (''content'', if isPlainObject v then v else JObj [])])) c
      | _ \<Rightarrow> c)"

text \<open>\<open>applyEvent\<close> of \<open>handleJoinedRoom\<close>, without its two local variables, which come below.\<close>

definition applyEvent :: "string \<Rightarrow> json \<Rightarrow> client \<Rightarrow> client" where
  "applyEvent r e c =
     (case json_prop e ''state_key'' of
        Some (JStr _) \<Rightarrow> on_rooms (rc_applyStateEvent r e) c
      | _ \<Rightarrow> c)"

definition joined_apply :: "string \<Rightarrow> bool \<Rightarrow> bool \<Rightarrow> joined_block \<Rightarrow> client \<Rightarrow> client" where
  "joined_apply r isNewRoom isBootstrap b c =
     (let c1 = fold (applyEvent r) (jb_state b) c;
          c2 = (if isNewRoom \<or> isBootstrap then on_rooms (rc_markStateSynced r) c1 else c1)
      in fold (applyEvent r) (jb_timeline b) c2)"

definition encryptionAppeared :: "joined_block \<Rightarrow> bool" where
  "encryptionAppeared b = list_ex (has_type ''m.room.encryption'') (jb_state b @ jb_timeline b)"

definition track_of :: "json \<Rightarrow> string list" where
  "track_of e =
     (if has_type ''m.room.member'' e then
        (case json_prop e ''state_key'' of
           Some (JStr k) \<Rightarrow>
             (case json_prop e ''content'' of
                Some content \<Rightarrow>
                  if readString content ''membership'' \<in> {Some ''join'', Some ''invite''} then [k] else []
              | None \<Rightarrow> [])
         | _ \<Rightarrow> [])
      else [])"

definition trackUsers :: "joined_block \<Rightarrow> string list" where
  "trackUsers b = fold set_add (concat (map track_of (jb_state b @ jb_timeline b))) []"

text \<open>The host capability events of the state block.\<close>

definition host_events :: "string \<Rightarrow> bool \<Rightarrow> joined_block \<Rightarrow> client \<Rightarrow> client" where
  "host_events r isBootstrap b c =
     fold (\<lambda>e c. if has_type HOST_CAPABILITIES_STATE_EVENT_TYPE e \<and>
                     shouldDispatchOnColdStart CK_host_capabilities_state isBootstrap \<and> mc_onRoomEvent c
                 then out (Out_roomEvent r e isBootstrap isBootstrap False) c else c)
       (jb_state b) c"

text \<open>\<open>trackRoomMembers\<close>: failures are logged.\<close>

definition trackRoomMembers :: "sync_env \<Rightarrow> string \<Rightarrow> client \<Rightarrow> client" where
  "trackRoomMembers env r c =
     (if \<not> mc_crypto c then c
      else case getJoinedRoomMembers r True (se_members env r) c of
             (Inl _, c1) \<Rightarrow> c1
           | (Inr ms, c1) \<Rightarrow> if se_trackThrows env ms then c1 else out (Out_track ms) c1)"

text \<open>The crypto part of \<open>handleJoinedRoom\<close>; the flag says that it threw.\<close>

definition joined_crypto :: "sync_env \<Rightarrow> string \<Rightarrow> bool \<Rightarrow> joined_block \<Rightarrow> client \<Rightarrow> bool \<times> client" where
  "joined_crypto env r isNewRoom b c =
     (if \<not> mc_crypto c then (False, c)
      else
        (let (enc, c1) =
               (if encryptionAppeared b then (True, c)
                else if isNewRoom then
                  (let (e, rc) = rc_isEncrypted r (mc_rooms c) in (e = Some True, c\<lparr>mc_rooms := rc\<rparr>))
                else (False, c));
             c2 = (if enc then trackRoomMembers env r c1 else c1)
         in if trackUsers b = [] then (False, c2)
            else if se_trackThrows env (trackUsers b) then (True, c2)
            else (False, out (Out_track (trackUsers b)) c2)))"

definition event_ts :: "json \<Rightarrow> jsnum option" where
  "event_ts e = (case json_prop e ''origin_server_ts'' of Some (JNum n) \<Rightarrow> Some n | _ \<Rightarrow> None)"

definition too_old :: "int option \<Rightarrow> jsnum option \<Rightarrow> bool" where
  "too_old cold ts =
     (case (cold, ts) of
        (Some t0, Some n) \<Rightarrow> (case n of Fin t \<Rightarrow> t < t0 | PInf \<Rightarrow> False | NInf \<Rightarrow> True)
      | _ \<Rightarrow> False)"

text \<open>\<open>emitTimelineEvent\<close>; the flag says that the handler threw.\<close>

definition emitTimelineEvent :: "sync_env \<Rightarrow> string \<Rightarrow> json \<Rightarrow> bool \<Rightarrow> client \<Rightarrow> bool \<times> client" where
  "emitTimelineEvent env r raw historical c =
     (if mc_stopping c \<or> \<not> mc_onRoomEvent c then (False, c)
      else
        (let eventId = (case json_prop raw ''event_id'' of Some (JStr s) \<Rightarrow> s | _ \<Rightarrow> []);
             (dup, c1) = (if eventId = [] then (False, c)
                          else let (b, d) = dd_seen r eventId (mc_deduper c) in (b, c\<lparr>mc_deduper := d\<rparr>))
         in if dup then (False, c1)
            else if too_old (mc_coldStart c1) (event_ts raw) then (False, c1)
            else
              (let ready = (mc_crypto c1 \<and> mc_cryptoReady c1);
                   target =
                     (if \<not> has_type ''m.room.encrypted'' raw then Some (raw, False)
                      else if \<not> ready then None
                      else map_option (\<lambda>e. (e, True)) (se_decrypt env r raw))
               in case target of
                    None \<Rightarrow> (False, c1)
                  | Some (event, decrypted) \<Rightarrow>
                      (se_handlerThrows env r event, out (Out_roomEvent r event historical False decrypted) c1))))"

text \<open>A loop of steps that stops at the first that throws.\<close>

fun steps :: "('a \<Rightarrow> client \<Rightarrow> bool \<times> client) \<Rightarrow> 'a list \<Rightarrow> client \<Rightarrow> bool \<times> client" where
  "steps f [] c = (False, c)"
| "steps f (x # xs) c = (let (threw, c1) = f x c in if threw then (True, c1) else steps f xs c1)"

definition handleJoinedRoom :: "sync_env \<Rightarrow> bool \<Rightarrow> string \<times> joined_block \<Rightarrow> client \<Rightarrow> bool \<times> client" where
  "handleJoinedRoom env isBootstrap rb c =
     (let (r, b) = rb; (isNewRoom, c1) = joined_begin r b c;
          c2 = (if jb_limited b \<and> \<not> isNewRoom
                then refreshVisibility r (se_visibility env r) (refreshEncryption r (se_encryption env r) c1)
                else c1);
          c3 = joined_apply r isNewRoom isBootstrap b c2;
          c4 = host_events r isBootstrap b c3;
          (threw, c5) = joined_crypto env r isNewRoom b c4
      in if threw then (True, c5)
         else if isBootstrap then (False, c5)
         else
           (let (threw2, c6) = steps (\<lambda>e. emitTimelineEvent env r e (jb_limited b)) (jb_timeline b) c5
            in if threw2 then (True, c6)
               else (False, if mc_ephemeral c6 then fold (\<lambda>e. out (Out_ephemeral r e)) (jb_ephemeral b) c6 else c6)))"

text \<open>\<open>shouldAutojoin\<close>: the sender of the bot's own membership event must be allowed.\<close>

definition invite_sender :: "string \<Rightarrow> json list \<Rightarrow> string option" where
  "invite_sender userId es =
     (case filter (\<lambda>e. has_type ''m.room.member'' e \<and> json_prop e ''state_key'' = Some (JStr userId)) es of
        [] \<Rightarrow> None
      | e # _ \<Rightarrow> (case json_prop e ''sender'' of Some (JStr s) \<Rightarrow> Some s | _ \<Rightarrow> None))"

definition shouldAutojoin :: "client \<Rightarrow> json list \<Rightarrow> bool" where
  "shouldAutojoin c es =
     (case mc_autojoinFrom c of
        None \<Rightarrow> True
      | Some allow \<Rightarrow>
          (case invite_sender (mc_userId c) es of
             None \<Rightarrow> False
           | Some inviter \<Rightarrow>
               inviter \<noteq> [] \<and>
               list_ex (\<lambda>entry. entry = inviter \<or> entry = second_piece inviter \<or>
                                entry = CHR '':'' # second_piece inviter) allow))"

definition handle_invite :: "bool \<Rightarrow> string \<times> json list \<Rightarrow> client \<Rightarrow> client" where
  "handle_invite isBootstrap ri c =
     (let (r, es) = ri; c1 = fold (\<lambda>e. on_rooms (rc_applyStateEvent r e)) es c;
          c2 = (if isBootstrap then c1 else out (Out_invite r es) c1)
      in if mc_autojoin c2 \<and> shouldAutojoin c2 es then out (Out_joinRequest r) c2 else c2)"

definition handle_leave :: "string \<Rightarrow> client \<Rightarrow> client" where
  "handle_leave r c = out (Out_leave r) (on_rooms (rc_forget r) c\<lparr>mc_known := mc_known c - {r}\<rparr>)"

definition handle_account :: "json \<Rightarrow> client \<Rightarrow> client" where
  "handle_account e c =
     out (Out_accountData e)
       (if has_type ''m.direct'' e
        then on_rooms (rc_applyDirectAccountData (nullish (json_prop e ''content'') JNull)) c else c)"

definition handleSync :: "sync_env \<Rightarrow> bool \<Rightarrow> sync_response \<Rightarrow> client \<Rightarrow> bool \<times> client" where
  "handleSync env isBootstrap resp c =
     (let c1 = (if isBootstrap \<and> mc_coldStart c = None then c\<lparr>mc_coldStart := Some (se_now env)\<rparr> else c)
      in if mc_crypto c1 \<and> se_receiveThrows env then (True, c1)
         else
           (let c2 = (if mc_crypto c1 then c1 else fold (\<lambda>e. out (Out_toDevice e)) (sr_toDevice resp) c1);
                c3 = fold handle_account (sr_accountData resp) c2;
                c4 = fold handle_leave (sr_leave resp) c3;
                c5 = fold (handle_invite isBootstrap) (sr_invite resp) c4
            in steps (handleJoinedRoom env isBootstrap) (sr_join resp) c5))"

section \<open>What the operations do to the room cache\<close>

named_theorems cl_rooms \<open>the room cache and the known rooms after an operation of the client\<close>

definition apply_ev :: "string \<Rightarrow> json \<Rightarrow> room_cache \<Rightarrow> room_cache" where
  "apply_ev r e rc = (case json_prop e ''state_key'' of Some (JStr _) \<Rightarrow> rc_applyStateEvent r e rc | _ \<Rightarrow> rc)"

definition apply_block :: "string \<Rightarrow> bool \<Rightarrow> joined_block \<Rightarrow> room_cache \<Rightarrow> room_cache" where
  "apply_block r mark b rc =
     (let rc1 = fold (apply_ev r) (jb_state b) rc;
          rc2 = (if mark then rc_markStateSynced r rc1 else rc1)
      in fold (apply_ev r) (jb_timeline b) rc2)"

lemma on_rooms_simps [cl_rooms, simp]:
  "mc_rooms (on_rooms f c) = f (mc_rooms c)" "mc_known (on_rooms f c) = mc_known c"
  by (simp_all add: on_rooms_def)

lemma out_simps [cl_rooms, simp]: "mc_rooms (out e c) = mc_rooms c" "mc_known (out e c) = mc_known c"
  by (simp_all add: out_def)

lemma applyEvent_simps [cl_rooms]:
  "mc_rooms (applyEvent r e c) = apply_ev r e (mc_rooms c)" "mc_known (applyEvent r e c) = mc_known c"
  by (simp_all add: applyEvent_def apply_ev_def split: option.split json.split)

lemma fold_applyEvent [cl_rooms]:
  "mc_rooms (fold (applyEvent r) es c) = fold (apply_ev r) es (mc_rooms c)"
  "mc_known (fold (applyEvent r) es c) = mc_known c"
  by (induction es arbitrary: c) (simp_all add: applyEvent_simps)

lemma joined_apply_rooms [cl_rooms]:
  "mc_rooms (joined_apply r isNew boot b c) = apply_block r (isNew \<or> boot) b (mc_rooms c)"
  "mc_known (joined_apply r isNew boot b c) = mc_known c"
  by (simp_all add: joined_apply_def apply_block_def Let_def fold_applyEvent)

section \<open>The encryption state is never understated\<close>

text \<open>
  \<open>enc\<close> is the set of rooms that are encrypted. A room is safe when the cache does not
  deny its encryption.
\<close>

definition enc_ok :: "string set \<Rightarrow> string \<Rightarrow> room_info \<Rightarrow> bool" where
  "enc_ok enc r x \<longleftrightarrow> (room_encrypted (Some x) = Some False \<longrightarrow> r \<notin> enc)"

definition enc_set :: "room_info \<Rightarrow> bool" where
  "enc_set x \<longleftrightarrow> room_encrypted (Some x) = Some True"

text \<open>An event that switches encryption on, and a block that has one.\<close>

definition tells_encryption :: "json \<Rightarrow> bool" where
  "tells_encryption e \<longleftrightarrow>
     readString e ''type'' = Some ''m.room.encryption'' \<and>
     (case readString (event_content e) ''algorithm'' of Some a \<Rightarrow> a \<noteq> [] | None \<Rightarrow> False) \<and>
     (case json_prop e ''state_key'' of Some (JStr _) \<Rightarrow> True | _ \<Rightarrow> False)"

definition block_tells :: "joined_block \<Rightarrow> bool" where
  "block_tells b = list_ex tells_encryption (jb_state b @ jb_timeline b)"

lemma room_encrypted_True: "room_encrypted (Some x) = Some True \<longleftrightarrow> (\<exists>a. ri_encryption x = Some a \<and> a \<noteq> [])"
  by (auto simp: room_encrypted_def split: option.split if_splits)

lemma room_encrypted_False:
  "room_encrypted (Some x) = Some False \<longleftrightarrow> \<not> room_encrypted (Some x) = Some True \<and> ri_stateSynced x"
  by (auto simp: room_encrypted_def split: option.split if_splits)

lemma room_apply_encryption:
  "ri_encryption (room_apply type content e x) =
     (if type = ''m.room.encryption'' then truthy_or (readString content ''algorithm'') (ri_encryption x)
      else ri_encryption x)"
  "ri_stateSynced (room_apply type content e x) = ri_stateSynced x"
  by (simp_all add: room_apply_def apply_member_def Let_def split: option.split)

lemma enc_set_apply: "enc_set x \<Longrightarrow> enc_set (room_apply type content e x)"
  by (auto simp: enc_set_def room_encrypted_True room_apply_encryption truthy_or_def split: option.split)

lemma enc_ok_apply: "enc_ok enc r x \<Longrightarrow> enc_ok enc r (room_apply type content e x)"
  using enc_set_apply [of x type content e]
  by (auto simp: enc_ok_def room_encrypted_False enc_set_def room_apply_encryption)

lemma enc_ok_empty [simp]: "enc_ok enc r (emptyRoom r)"
  by (simp add: enc_ok_def room_encrypted_def emptyRoom_def)

lemma enc_ok_set: "enc_set x \<Longrightarrow> enc_ok enc r x"
  by (simp add: enc_ok_def enc_set_def)

lemma enc_ok_plain: "r \<notin> enc \<Longrightarrow> enc_ok enc r x"
  by (simp add: enc_ok_def)

text \<open>Applying events: a property that \<open>room_apply\<close> keeps is kept.\<close>

lemma rc_inv_applyState: "rc_inv rc \<Longrightarrow> rc_inv (rc_applyStateEvent r e rc)"
  by (simp add: rc_applyStateEvent_def rc_simps split: option.split)

lemma cache_all_applyState:
  assumes "rc_inv rc" and "cache_all Q rc" and "Q r (emptyRoom r)"
    and "\<And>type x. Q r x \<Longrightarrow> Q r (room_apply type (event_content e) e x)"
  shows "cache_all Q (rc_applyStateEvent r e rc)"
  using assms by (auto simp: rc_applyStateEvent_def intro!: cache_all_update_same split: option.split)

lemma apply_ev_cases:
  obtains "apply_ev r e = rc_applyStateEvent r e" | "apply_ev r e = (\<lambda>rc. rc)" and "\<not> tells_encryption e"
  by (cases "case json_prop e ''state_key'' of Some (JStr _) \<Rightarrow> True | _ \<Rightarrow> False")
    (auto simp: apply_ev_def tells_encryption_def fun_eq_iff split: option.splits json.splits)

lemma rc_inv_apply_ev: "rc_inv rc \<Longrightarrow> rc_inv (apply_ev r e rc)"
  by (cases rule: apply_ev_cases [of r e]) (simp_all add: rc_inv_applyState)

lemma rc_inv_apply_evs: "rc_inv rc \<Longrightarrow> rc_inv (fold (apply_ev r) es rc)"
  by (induction es arbitrary: rc) (simp_all add: rc_inv_apply_ev)

lemma cache_all_apply_evs:
  assumes "rc_inv rc" and "cache_all Q rc" and "Q r (emptyRoom r)"
    and "\<And>e type x. Q r x \<Longrightarrow> Q r (room_apply type (event_content e) e x)"
  shows "cache_all Q (fold (apply_ev r) es rc)"
  using assms(1,2)
proof (induction es arbitrary: rc)
  case Nil
  then show ?case by simp
next
  case (Cons e es)
  have "cache_all Q (apply_ev r e rc)"
    using Cons.prems assms(3,4)
    by (cases rule: apply_ev_cases [of r e]) (auto intro: cache_all_applyState)
  with Cons.IH [OF rc_inv_apply_ev [OF Cons.prems(1)]] show ?case by simp
qed

lemma cache_all_mark:
  assumes "rc_inv rc" and "cache_all Q rc" and "Q r (emptyRoom r)"
    and "\<And>x. Q r x \<Longrightarrow> Q r (x\<lparr>ri_stateSynced := True\<rparr>)"
    and "Q r ((emptyRoom r)\<lparr>ri_stateSynced := True\<rparr>)"
  shows "cache_all Q (rc_markStateSynced r rc)"
  unfolding rc_markStateSynced_def using assms by (intro cache_all_update_same)

lemma cache_all_block:
  assumes "rc_inv rc" and "cache_all Q rc" and "Q r (emptyRoom r)"
    and "\<And>e type x. Q r x \<Longrightarrow> Q r (room_apply type (event_content e) e x)"
    and "mark \<Longrightarrow> (\<And>x. Q r x \<Longrightarrow> Q r (x\<lparr>ri_stateSynced := True\<rparr>))"
  shows "cache_all Q (apply_block r mark b rc)"
proof -
  let ?rc1 = "fold (apply_ev r) (jb_state b) rc"
  have "cache_all Q ?rc1" by (rule cache_all_apply_evs [OF assms(1-4)])
  moreover have "rc_inv ?rc1" by (rule rc_inv_apply_evs [OF assms(1)])
  ultimately have "cache_all Q (if mark then rc_markStateSynced r ?rc1 else ?rc1)"
    and "rc_inv (if mark then rc_markStateSynced r ?rc1 else ?rc1)"
    using assms(3,5) by (auto simp: rc_markStateSynced_def rc_simps intro: cache_all_mark [unfolded rc_markStateSynced_def])
  then show ?thesis
    unfolding apply_block_def Let_def using assms(3,4) by (intro cache_all_apply_evs)
qed

lemma rc_inv_block: "rc_inv rc \<Longrightarrow> rc_inv (apply_block r mark b rc)"
  by (simp add: apply_block_def Let_def rc_inv_apply_evs rc_markStateSynced_def rc_simps)

text \<open>Once an event has switched encryption on, the block ends with it on.\<close>

definition knows_enc :: "string \<Rightarrow> room_cache \<Rightarrow> bool" where
  "knows_enc r rc \<longleftrightarrow> (\<exists>x. rc_view rc r = Some x \<and> enc_set x)"

lemma knows_enc_update: "rc_inv rc \<Longrightarrow> enc_set (f (room_or rc r)) \<Longrightarrow> knows_enc r (rc_update r f rc)"
  by (simp add: knows_enc_def rc_simps)

lemma knows_enc_room: "knows_enc r rc \<Longrightarrow> enc_set (room_or rc r)"
  by (auto simp: knows_enc_def room_or_def)

lemma knows_enc_apply_ev:
  assumes inv: "rc_inv rc" and "knows_enc r rc \<or> tells_encryption e"
  shows "knows_enc r (apply_ev r e rc)"
proof (cases rule: apply_ev_cases [of r e])
  case 2
  with assms show ?thesis by simp
next
  case 1
  show ?thesis
  proof (cases "tells_encryption e")
    case True
    then show ?thesis
      using 1 inv
      by (auto simp: rc_applyStateEvent_def tells_encryption_def enc_set_def room_encrypted_True
          room_apply_encryption truthy_or_def intro!: knows_enc_update split: option.splits)
  next
    case False
    with assms have k: "knows_enc r rc" by simp
    from enc_set_apply [OF knows_enc_room [OF k]] 1 inv k show ?thesis
      by (auto simp: rc_applyStateEvent_def intro!: knows_enc_update split: option.split)
  qed
qed

lemma knows_enc_apply_evs:
  "rc_inv rc \<Longrightarrow> knows_enc r rc \<or> list_ex tells_encryption es \<Longrightarrow> knows_enc r (fold (apply_ev r) es rc)"
proof (induction es arbitrary: rc)
  case Nil
  then show ?case by simp
next
  case (Cons e es)
  have "knows_enc r (apply_ev r e rc) \<or> list_ex tells_encryption es"
    using Cons.prems knows_enc_apply_ev [OF Cons.prems(1), of r e] by auto
  with Cons.IH [OF rc_inv_apply_ev [OF Cons.prems(1)]] show ?case by simp
qed

lemma knows_enc_block:
  assumes "rc_inv rc" and "block_tells b"
  shows "knows_enc r (apply_block r mark b rc)"
proof -
  let ?rc1 = "fold (apply_ev r) (jb_state b) rc"
  let ?rc2 = "if mark then rc_markStateSynced r ?rc1 else ?rc1"
  have inv1: "rc_inv ?rc1" by (rule rc_inv_apply_evs [OF assms(1)])
  have inv2: "rc_inv ?rc2" using inv1 by (simp add: rc_markStateSynced_def rc_simps)
  have "knows_enc r ?rc2 \<or> list_ex tells_encryption (jb_timeline b)"
  proof (cases "list_ex tells_encryption (jb_state b)")
    case True
    with knows_enc_apply_evs [OF assms(1)] have k: "knows_enc r ?rc1" by blast
    have "enc_set ((room_or ?rc1 r)\<lparr>ri_stateSynced := True\<rparr>)"
      using knows_enc_room [OF k] by (simp add: enc_set_def room_encrypted_True)
    with k inv1 show ?thesis by (simp add: rc_markStateSynced_def knows_enc_update)
  next
    case False
    with assms(2) show ?thesis by (simp add: block_tells_def)
  qed
  with knows_enc_apply_evs [OF inv2] show ?thesis by (simp add: apply_block_def Let_def)
qed

text \<open>
  A block keeps the cache safe when the room is not encrypted, when the block says that it
  is, or when the cache was safe and the block does not make the cache conclude from
  silence.
\<close>

lemma block_safe:
  assumes inv: "rc_inv rc" and ok: "cache_all (enc_ok enc) rc"
    and enc': "enc \<subseteq> enc'" "enc' \<subseteq> insert r enc"
    and honest: "r \<in> enc' \<Longrightarrow> block_tells b \<or> (r \<in> enc \<and> \<not> mark)"
  shows "cache_all (enc_ok enc') (apply_block r mark b rc)"
proof -
  let ?rc = "apply_block r mark b rc"
  have others: "r' \<noteq> r \<Longrightarrow> enc_ok enc r' x = enc_ok enc' r' x" for r' x
    using enc' by (auto simp: enc_ok_def)
  have "cache_all (\<lambda>r' x. r' \<noteq> r \<longrightarrow> enc_ok enc r' x) ?rc"
    using inv by (rule cache_all_block) (use ok in \<open>auto simp: cache_all_def\<close>)
  then have other: "rc_view ?rc r' = Some x \<Longrightarrow> r' \<noteq> r \<Longrightarrow> enc_ok enc' r' x" for r' x
    using others by (auto dest: cache_allD)
  have same: "enc_ok enc' r x" if "rc_view ?rc r = Some x" for x
  proof (cases "r \<in> enc'")
    case False
    then show ?thesis by (rule enc_ok_plain)
  next
    case True
    show ?thesis
    proof (cases "block_tells b")
      case True
      with knows_enc_block [OF inv] that have "enc_set x"
        unfolding knows_enc_def by (metis option.inject)
      then show ?thesis by (rule enc_ok_set)
    next
      case False
      with honest True have "r \<in> enc" and "\<not> mark" by blast+
      with enc' have "enc' = enc" by blast
      have "cache_all (enc_ok enc) ?rc"
        using inv ok by (rule cache_all_block) (use \<open>\<not> mark\<close> in \<open>simp_all add: enc_ok_apply\<close>)
      with that \<open>enc' = enc\<close> show ?thesis by (simp add: cache_allD)
    qed
  qed
  show ?thesis
    by (rule cache_allI) (use other same in blast)
qed

section \<open>Histories of a client from a cold start\<close>

text \<open>
  The world: the rooms that are encrypted at the client's position in the sync stream, the
  rooms whose full state the homeserver has sent (\<open>w_told\<close>), and the room block being
  handled, with what \<open>handleJoinedRoom\<close> remembers of it while the refresh requests are
  under way. A block carries the full state of its room when the sync asked for everything
  (bootstrap) or the room is new to the homeserver's stream; any other block is a delta.
\<close>

record pending_block =
  pb_room :: string
  pb_isNew :: bool
  pb_boot :: bool
  pb_full :: bool
  pb_block :: joined_block

record world =
  w_enc :: "string set"
  w_told :: "string set"
  w_pending :: "pending_block option"
  w_client :: client

definition on_client :: "(client \<Rightarrow> client) \<Rightarrow> world \<Rightarrow> world" where
  "on_client f w = w\<lparr>w_client := f (w_client w)\<rparr>"

text \<open>What an honest homeserver answers about a room's encryption.\<close>

definition honest_answer :: "string set \<Rightarrow> string \<Rightarrow> http_answer \<Rightarrow> bool" where
  "honest_answer enc r ans \<longleftrightarrow>
     r \<in> enc \<longrightarrow>
       (case ans of
          Ans_ok e \<Rightarrow> truthy_or (readString e ''algorithm'') None \<noteq> None
        | Ans_notFound \<Rightarrow> False
        | Ans_error \<Rightarrow> True)"

definition honest_state :: "string set \<Rightarrow> string \<Rightarrow> js_error + json \<Rightarrow> bool" where
  "honest_state enc r ans \<longleftrightarrow>
     r \<in> enc \<longrightarrow> (case ans of Inr (JArr es) \<Rightarrow> list_ex tells_encryption es | _ \<Rightarrow> True)"

definition honest_block :: "string set \<Rightarrow> string set \<Rightarrow> string \<Rightarrow> bool \<Rightarrow> joined_block \<Rightarrow> bool" where
  "honest_block enc enc' r full b \<longleftrightarrow>
     enc \<subseteq> enc' \<and> enc' \<subseteq> insert r enc \<and> (r \<in> enc' \<and> (full \<or> r \<notin> enc) \<longrightarrow> block_tells b)"

inductive cl_reach :: "world \<Rightarrow> bool" where
  cold_start:
    "rc_new capacity = Inr rooms \<Longrightarrow>
     cl_reach \<lparr>w_enc = {}, w_told = {}, w_pending = None,
       w_client = client_new userId autojoin allowFrom crypto ready ephemeral rooms\<rparr>"
| begin_block:
    "cl_reach w \<Longrightarrow> w_pending w = None \<Longrightarrow> joined_begin r b (w_client w) = (isNew, c1) \<Longrightarrow>
     cl_reach (w\<lparr>w_client := c1, w_told := insert r (w_told w),
       w_pending := Some \<lparr>pb_room = r, pb_isNew = isNew, pb_boot = boot,
                          pb_full = (boot \<or> r \<notin> w_told w), pb_block = b\<rparr>\<rparr>)"
| refresh:
    "cl_reach w \<Longrightarrow> honest_answer (w_enc w) r ans \<Longrightarrow> cl_reach (on_client (refreshEncryption r ans) w)"
| visibility: "cl_reach w \<Longrightarrow> cl_reach (on_client (refreshVisibility r ans) w)"
| apply_block:
    "cl_reach w \<Longrightarrow> w_pending w = Some p \<Longrightarrow>
     honest_block (w_enc w) enc' (pb_room p) (pb_full p) (pb_block p) \<Longrightarrow>
     cl_reach (w\<lparr>w_enc := enc', w_pending := None,
       w_client := joined_apply (pb_room p) (pb_isNew p) (pb_boot p) (pb_block p) (w_client w)\<rparr>)"
| query:
    "cl_reach w \<Longrightarrow> honest_answer (w_enc w) r ans \<Longrightarrow>
     cl_reach (on_client (\<lambda>c. snd (isRoomEncrypted r ans c)) w)"
| late_answer:
    "cl_reach w \<Longrightarrow> honest_answer (w_enc w) r ans \<Longrightarrow>
     cl_reach (on_client (\<lambda>c. snd (encryption_answer r ans c)) w)"
| members: "cl_reach w \<Longrightarrow> cl_reach (on_client (\<lambda>c. snd (getJoinedRoomMembers r force mem c)) w)"
| room_state:
    "cl_reach w \<Longrightarrow> honest_state (w_enc w) r st \<Longrightarrow>
     cl_reach (on_client (\<lambda>c. snd (getRoomState r st c)) w)"
| power: "cl_reach w \<Longrightarrow> cl_reach (on_client (\<lambda>c. snd (setPowerLevel r u l cur send c)) w)"
| leave_api:
    "cl_reach w \<Longrightarrow> leaveRoom r (Inr ()) (w_client w) = (res, c1) \<Longrightarrow>
     cl_reach (w\<lparr>w_client := c1, w_told := w_told w - {r}\<rparr>)"
| leave_sync:
    "cl_reach w \<Longrightarrow> cl_reach (w\<lparr>w_client := handle_leave r (w_client w), w_told := w_told w - {r}\<rparr>)"
| invite: "cl_reach w \<Longrightarrow> cl_reach (on_client (handle_invite boot ri) w)"
| account: "cl_reach w \<Longrightarrow> cl_reach (on_client (handle_account e) w)"
| read: "cl_reach w \<Longrightarrow> cl_reach (on_client (on_rooms (\<lambda>rc. snd (rc_get r rc))) w)"
| quiet:
    "cl_reach w \<Longrightarrow> mc_rooms c1 = mc_rooms (w_client w) \<Longrightarrow> mc_known c1 = mc_known (w_client w) \<Longrightarrow>
     cl_reach (w\<lparr>w_client := c1\<rparr>)"

definition cl_safe :: "string set \<Rightarrow> room_cache \<Rightarrow> bool" where
  "cl_safe enc rc \<longleftrightarrow> rc_inv rc \<and> cache_all (enc_ok enc) rc"

definition world_inv :: "world \<Rightarrow> bool" where
  "world_inv w \<longleftrightarrow>
     cl_safe (w_enc w) (mc_rooms (w_client w)) \<and> mc_known (w_client w) = w_told w \<and>
     (case w_pending w of None \<Rightarrow> True | Some p \<Rightarrow> pb_isNew p \<or> pb_boot p \<longrightarrow> pb_full p)"

text \<open>The operations keep the cache safe.\<close>

lemma cl_safe_update:
  assumes "cl_safe enc rc" and "\<And>x. enc_ok enc r x \<Longrightarrow> enc_ok enc r (f x)"
  shows "cl_safe enc (rc_update r f rc)"
  using assms by (auto simp: cl_safe_def rc_simps intro!: cache_all_update_same)

lemma cl_safe_change:
  assumes "cl_safe enc rc" and "\<And>x. enc_ok enc r x \<Longrightarrow> enc_ok enc r (f x)"
  shows "cl_safe enc (rc_change r f rc)"
  using assms by (auto simp: cl_safe_def rc_simps intro!: cache_all_change)

lemma cl_safe_get: "cl_safe enc rc \<Longrightarrow> cl_safe enc (snd (rc_get r rc))"
  by (simp add: cl_safe_def rc_simps cache_all_view [of "snd (rc_get r rc)" rc])

lemma cl_safe_forget: "cl_safe enc rc \<Longrightarrow> cl_safe enc (rc_forget r rc)"
  by (simp add: cl_safe_def rc_simps cache_all_forget)

lemma cl_safe_state: "cl_safe enc rc \<Longrightarrow> cl_safe enc (rc_applyStateEvent r e rc)"
  by (auto simp: cl_safe_def rc_inv_applyState intro!: cache_all_applyState enc_ok_apply)

lemma cl_safe_states: "cl_safe enc rc \<Longrightarrow> cl_safe enc (fold (rc_applyStateEvent r) es rc)"
  by (induction es arbitrary: rc) (simp_all add: cl_safe_state)

lemma cl_safe_direct: "cl_safe enc rc \<Longrightarrow> cl_safe enc (rc_applyDirectAccountData j rc)"
  by (simp add: cl_safe_def rc_inv_def rc_applyDirectAccountData_def cache_all_def rc_view_def)

lemma enc_ok_fields [simp]:
  "enc_ok enc r (x\<lparr>ri_joinedCount := n\<rparr>) = enc_ok enc r x"
  "enc_ok enc r (x\<lparr>ri_memberListComplete := b\<rparr>) = enc_ok enc r x"
  "enc_ok enc r (x\<lparr>ri_members := ms\<rparr>) = enc_ok enc r x"
  by (simp_all add: enc_ok_def room_encrypted_def)

lemma cl_safe_summary: "cl_safe enc rc \<Longrightarrow> cl_safe enc (rc_applySummary r j rc)"
  by (auto simp: rc_applySummary_def intro!: cl_safe_update split: option.split)

lemma cl_safe_members: "cl_safe enc rc \<Longrightarrow> cl_safe enc (rc_setJoinedMembers r ms rc)"
  by (auto simp: rc_setJoinedMembers_def intro!: cl_safe_update)

lemma cl_safe_invalidate: "cl_safe enc rc \<Longrightarrow> cl_safe enc (rc_invalidateMembers r rc)"
  by (auto simp: rc_invalidateMembers_def intro!: cl_safe_change)

lemma cl_safe_setEncrypted:
  assumes "cl_safe enc rc" and "r \<in> enc \<Longrightarrow> truthy_or alg None \<noteq> None"
  shows "cl_safe enc (rc_setEncrypted r alg rc)"
  unfolding rc_setEncrypted_def
proof (rule cl_safe_update [OF assms(1)])
  fix x
  show "enc_ok enc r (x\<lparr>ri_encryption := truthy_or alg None, ri_stateSynced := True\<rparr>)"
    using assms(2) by (auto simp: enc_ok_def room_encrypted_def truthy_or_def split: option.splits if_splits)
qed

lemma honest_answerD:
  "honest_answer enc r (Ans_ok e) \<Longrightarrow> r \<in> enc \<Longrightarrow> truthy_or (readString e ''algorithm'') None \<noteq> None"
  "honest_answer enc r Ans_notFound \<Longrightarrow> r \<notin> enc"
  by (simp_all add: honest_answer_def)

lemma cl_safe_refresh:
  "cl_safe enc (mc_rooms c) \<Longrightarrow> honest_answer enc r ans \<Longrightarrow> cl_safe enc (mc_rooms (refreshEncryption r ans c))"
  by (cases ans) (auto simp: refreshEncryption_def intro!: cl_safe_setEncrypted dest: honest_answerD)

lemma cl_safe_answer:
  "cl_safe enc (mc_rooms c) \<Longrightarrow> honest_answer enc r ans \<Longrightarrow> cl_safe enc (mc_rooms (snd (encryption_answer r ans c)))"
  by (cases ans) (auto simp: encryption_answer_def Let_def intro!: cl_safe_setEncrypted dest: honest_answerD)

lemma isEncrypted_get: "snd (rc_isEncrypted r rc) = snd (rc_get r rc)"
  by (simp add: rc_isEncrypted_def split_beta Let_def)

lemma cl_safe_query:
  assumes "cl_safe enc (mc_rooms c)" and "honest_answer enc r ans"
  shows "cl_safe enc (mc_rooms (snd (isRoomEncrypted r ans c)))"
proof -
  have "cl_safe enc (snd (rc_isEncrypted r (mc_rooms c)))"
    using cl_safe_get [OF assms(1), of r] by (simp add: isEncrypted_get)
  with cl_safe_answer [OF _ assms(2), of "c\<lparr>mc_rooms := snd (rc_isEncrypted r (mc_rooms c))\<rparr>"]
  show ?thesis by (simp add: isRoomEncrypted_def split_beta Let_def split: option.split)
qed

lemma cl_safe_members_answer:
  "cl_safe enc (mc_rooms c) \<Longrightarrow> cl_safe enc (mc_rooms (snd (members_answer r mem c)))"
  by (cases mem) (simp_all add: members_answer_def cl_safe_members)

lemma members_gets:
  "snd (rc_hasCompleteMemberList r rc) = snd (rc_get r rc)" "snd (rc_joinedMembers r rc) = snd (rc_get r rc)"
  by (simp_all add: rc_hasCompleteMemberList_def rc_joinedMembers_def split_beta Let_def)

lemma cl_safe_getMembers:
  "cl_safe enc (mc_rooms c) \<Longrightarrow> cl_safe enc (mc_rooms (snd (getJoinedRoomMembers r force mem c)))"
  by (auto simp: getJoinedRoomMembers_def split_beta Let_def members_gets
      intro!: cl_safe_members_answer cl_safe_get)

lemma cl_safe_getState:
  assumes safe: "cl_safe enc (mc_rooms c)" and "honest_state enc r st"
  shows "cl_safe enc (mc_rooms (snd (getRoomState r st c)))"
proof (cases "\<exists>es. st = Inr (JArr es)")
  case False
  with safe show ?thesis by (auto simp: getRoomState_def split: sum.split json.split)
next
  case True
  then obtain es where st: "st = Inr (JArr es)" by blast
  let ?rc = "fold (rc_applyStateEvent r) es (mc_rooms c)"
  have s: "cl_safe enc ?rc" by (rule cl_safe_states [OF safe])
  have k: "knows_enc r ?rc" if "r \<in> enc"
  proof -
    have "list_ex tells_encryption es" using assms(2) that by (simp add: honest_state_def st)
    moreover have "rc_inv (mc_rooms c)" using safe by (simp add: cl_safe_def)
    moreover have step: "knows_enc r (rc_applyStateEvent r e rc)"
      if "rc_inv rc" and "knows_enc r rc \<or> tells_encryption e" for e rc
    proof (cases "tells_encryption e")
      case True
      with knows_enc_apply_ev [OF that] show ?thesis
        by (simp add: apply_ev_def tells_encryption_def split: option.splits json.splits)
    next
      case False
      with that have "knows_enc r rc" by simp
      with that(1) enc_set_apply [OF knows_enc_room [OF this]] show ?thesis
        by (auto simp: rc_applyStateEvent_def intro!: knows_enc_update split: option.split)
    qed
    ultimately show ?thesis
    proof (induction es rule: rev_induct)
      case Nil
      then show ?case by simp
    next
      case (snoc e es)
      have inv: "rc_inv (fold (rc_applyStateEvent r) es (mc_rooms c))"
        using cl_safe_states [OF safe] by (simp add: cl_safe_def)
      from snoc have "knows_enc r (fold (rc_applyStateEvent r) es (mc_rooms c)) \<or> tells_encryption e" by auto
      with inv show ?case by (simp add: step)
    qed
  qed
  have "enc_ok enc r ((room_or ?rc r)\<lparr>ri_stateSynced := True\<rparr>)"
  proof (cases "r \<in> enc")
    case True
    from knows_enc_room [OF k [OF True]] show ?thesis
      by (intro enc_ok_set) (simp add: enc_set_def room_encrypted_True)
  qed (rule enc_ok_plain)
  with s have "cl_safe enc (rc_markStateSynced r ?rc)"
    by (auto simp: cl_safe_def rc_markStateSynced_def rc_simps intro: cache_all_update)
  then show ?thesis by (simp add: getRoomState_def st)
qed

lemma cl_safe_power:
  "cl_safe enc (mc_rooms c) \<Longrightarrow> cl_safe enc (mc_rooms (snd (setPowerLevel r u l cur send c)))"
  by (simp add: setPowerLevel_def Let_def cl_safe_state split: sum.split)

lemma mc_rooms_fold_state: "mc_rooms (fold (\<lambda>e. on_rooms (rc_applyStateEvent r e)) es c) =
    fold (rc_applyStateEvent r) es (mc_rooms c)"
  and mc_known_fold_state: "mc_known (fold (\<lambda>e. on_rooms (rc_applyStateEvent r e)) es c) = mc_known c"
  by (induction es arbitrary: c) simp_all

lemma cl_safe_invite: "cl_safe enc (mc_rooms c) \<Longrightarrow> cl_safe enc (mc_rooms (handle_invite boot ri c))"
  by (simp add: handle_invite_def split_beta Let_def mc_rooms_fold_state cl_safe_states)

lemma cl_safe_account: "cl_safe enc (mc_rooms c) \<Longrightarrow> cl_safe enc (mc_rooms (handle_account e c))"
  by (simp add: handle_account_def cl_safe_direct)

lemma known_simps:
  "mc_known (refreshEncryption r ans c) = mc_known c"
  "mc_known (refreshVisibility r ans c) = mc_known c"
  "mc_known (snd (encryption_answer r ans c)) = mc_known c"
  "mc_known (snd (isRoomEncrypted r ans c)) = mc_known c"
  "mc_known (snd (getJoinedRoomMembers r force mem c)) = mc_known c"
  "mc_known (snd (getRoomState r st c)) = mc_known c"
  "mc_known (snd (setPowerLevel r u l cur send c)) = mc_known c"
  "mc_known (handle_invite boot ri c) = mc_known c"
  "mc_known (handle_account e c) = mc_known c"
  by (simp_all add: refreshEncryption_def refreshVisibility_def encryption_answer_def isRoomEncrypted_def
      getJoinedRoomMembers_def members_answer_def getRoomState_def setPowerLevel_def handle_invite_def
      handle_account_def split_beta Let_def mc_known_fold_state
      split: http_answer.split option.split sum.split json.split)

lemma joined_begin_facts:
  assumes "joined_begin r b c = (isNew, c1)"
  shows "isNew = (r \<notin> mc_known c)" and "mc_known c1 = insert r (mc_known c)"
    and "cl_safe enc (mc_rooms c) \<Longrightarrow> cl_safe enc (mc_rooms c1)"
  using assms by (auto simp: joined_begin_def Let_def cl_safe_summary cl_safe_invalidate split: if_splits)

lemma world_inv_on_client:
  assumes "world_inv w" and "mc_known (f (w_client w)) = mc_known (w_client w)"
    and "cl_safe (w_enc w) (mc_rooms (w_client w)) \<Longrightarrow> cl_safe (w_enc w) (mc_rooms (f (w_client w)))"
  shows "world_inv (on_client f w)"
  using assms by (simp add: world_inv_def on_client_def)

lemma cl_safe_visibility: "cl_safe enc (mc_rooms c) \<Longrightarrow> cl_safe enc (mc_rooms (refreshVisibility r ans c))"
  by (simp add: refreshVisibility_def cl_safe_state split: http_answer.split)

lemma world_inv_reach: "cl_reach w \<Longrightarrow> world_inv w"
proof (induction rule: cl_reach.induct)
  case (cold_start capacity rooms userId autojoin allowFrom crypto ready ephemeral)
  then show ?case
    by (simp add: world_inv_def client_new_def cl_safe_def rc_inv_new cache_all_def rc_view_new)
next
  case (begin_block w r b isNew c1 boot)
  then show ?case
    using joined_begin_facts [OF begin_block.hyps(3)] by (auto simp: world_inv_def)
next
  case (apply_block w p enc')
  have inv: "cl_safe (w_enc w) (mc_rooms (w_client w))" and full: "pb_isNew p \<or> pb_boot p \<longrightarrow> pb_full p"
    using apply_block by (auto simp: world_inv_def)
  have "cache_all (enc_ok enc') (apply_block (pb_room p) (pb_isNew p \<or> pb_boot p) (pb_block p) (mc_rooms (w_client w)))"
    using inv full apply_block.hyps(3) by (intro block_safe [of _ "w_enc w"]) (auto simp: cl_safe_def honest_block_def)
  with inv apply_block show ?case
    by (simp add: world_inv_def cl_safe_def joined_apply_rooms rc_inv_block)
next
  case (leave_api w r res c1)
  then have c1: "c1 = on_rooms (rc_forget r) (w_client w)\<lparr>mc_known := mc_known (w_client w) - {r}\<rparr>"
    by (simp add: leaveRoom_def)
  from leave_api.IH show ?case by (simp add: world_inv_def c1 cl_safe_forget)
next
  case (leave_sync w r)
  then show ?case by (simp add: world_inv_def handle_leave_def cl_safe_forget)
next
  case (quiet w c1)
  then show ?case by (simp add: world_inv_def)
next
  case (refresh w r ans)
  then show ?case by (intro world_inv_on_client) (simp_all add: known_simps cl_safe_refresh)
next
  case (visibility w r ans)
  then show ?case by (intro world_inv_on_client) (simp_all add: known_simps cl_safe_visibility)
next
  case (query w r ans)
  then show ?case by (intro world_inv_on_client) (simp_all add: known_simps cl_safe_query)
next
  case (late_answer w r ans)
  then show ?case by (intro world_inv_on_client) (simp_all add: known_simps cl_safe_answer)
next
  case (members w r force mem)
  then show ?case by (intro world_inv_on_client) (simp_all add: known_simps cl_safe_getMembers)
next
  case (room_state w r st)
  then show ?case by (intro world_inv_on_client) (simp_all add: known_simps cl_safe_getState)
next
  case (power w r u l cur send)
  then show ?case by (intro world_inv_on_client) (simp_all add: known_simps cl_safe_power)
next
  case (invite w boot ri)
  then show ?case by (intro world_inv_on_client) (simp_all add: known_simps cl_safe_invite)
next
  case (account w e)
  then show ?case by (intro world_inv_on_client) (simp_all add: known_simps cl_safe_account)
next
  case (read w r)
  then show ?case by (intro world_inv_on_client) (simp_all add: known_simps cl_safe_get)
qed


section \<open>A handled response is such a history\<close>

lemma host_events_simps:
  "mc_rooms (host_events r boot b c) = mc_rooms c" "mc_known (host_events r boot b c) = mc_known c"
proof -
  have "mc_rooms (fold (\<lambda>e c. if P e \<and> mc_onRoomEvent c then out (f e) c else c) es c) = mc_rooms c \<and>
    mc_known (fold (\<lambda>e c. if P e \<and> mc_onRoomEvent c then out (f e) c else c) es c) = mc_known c"
    for P f and es :: "json list"
    by (induction es arbitrary: c) auto
  from this [of "\<lambda>e. has_type HOST_CAPABILITIES_STATE_EVENT_TYPE e \<and>
      shouldDispatchOnColdStart CK_host_capabilities_state boot"
      "\<lambda>e. Out_roomEvent r e boot boot False" "jb_state b"]
  show "mc_rooms (host_events r boot b c) = mc_rooms c" "mc_known (host_events r boot b c) = mc_known c"
    by (simp_all add: host_events_def conj_assoc)
qed

lemma emit_simps:
  "mc_rooms (snd (emitTimelineEvent env r e h c)) = mc_rooms c"
  "mc_known (snd (emitTimelineEvent env r e h c)) = mc_known c"
  by (auto simp: emitTimelineEvent_def Let_def split_beta split: option.split)

lemma steps_emit_simps:
  "mc_rooms (snd (steps (\<lambda>e. emitTimelineEvent env r e h) es c)) = mc_rooms c \<and>
   mc_known (snd (steps (\<lambda>e. emitTimelineEvent env r e h) es c)) = mc_known c"
  by (induction es arbitrary: c) (auto simp: split_beta Let_def emit_simps)

lemma fold_out_simps:
  "mc_rooms (fold (\<lambda>e. out (f e)) es c) = mc_rooms c" "mc_known (fold (\<lambda>e. out (f e)) es c) = mc_known c"
  by (induction es arbitrary: c) simp_all

text \<open>\<open>client_via w c\<close>: the world with client \<open>c\<close> in place of its own is reachable.\<close>

abbreviation client_via :: "world \<Rightarrow> client \<Rightarrow> bool" where
  "client_via w c \<equiv> cl_reach (w\<lparr>w_client := c\<rparr>)"

lemma via_quiet:
  assumes "client_via w c" and "mc_rooms c1 = mc_rooms c" and "mc_known c1 = mc_known c"
  shows "client_via w c1"
  using cl_reach.quiet [OF assms(1), of c1] assms(2,3) by simp

lemma via_members: "client_via w c \<Longrightarrow> client_via w (snd (getJoinedRoomMembers r force mem c))"
  using cl_reach.members [of "w\<lparr>w_client := c\<rparr>" r force mem] by (simp add: on_client_def)

lemma via_track:
  assumes "client_via w c"
  shows "client_via w (trackRoomMembers env r c)"
proof (cases "mc_crypto c")
  case True
  obtain ms c1 where g: "getJoinedRoomMembers r True (se_members env r) c = (ms, c1)" by fastforce
  have "client_via w c1" using via_members [OF assms, of r True "se_members env r"] by (simp add: g)
  then show ?thesis
    using True by (auto simp: trackRoomMembers_def g split: sum.split intro: via_quiet)
qed (use assms in \<open>simp add: trackRoomMembers_def\<close>)

lemma via_read: "client_via w c \<Longrightarrow> client_via w (c\<lparr>mc_rooms := snd (rc_isEncrypted r (mc_rooms c))\<rparr>)"
  using cl_reach.read [of "w\<lparr>w_client := c\<rparr>" r] by (simp add: on_client_def isEncrypted_get on_rooms_def)

lemma via_crypto:
  assumes "client_via w c"
  shows "client_via w (snd (joined_crypto env r isNew b c))"
proof -
  have read: "client_via w (snd (if encryptionAppeared b then (True, c)
                else if isNew then
                  (let (e, rc) = rc_isEncrypted r (mc_rooms c) in (e = Some True, c\<lparr>mc_rooms := rc\<rparr>))
                else (False, c)))"
    using assms via_read [OF assms, of r] by (simp add: split_beta Let_def)
  then show ?thesis
    using assms by (auto simp: joined_crypto_def split_beta Let_def intro: via_quiet via_track)
qed

text \<open>
  \<open>handleJoinedRoom\<close>, run without anything in between, goes through the steps of a history
  of the world, so what holds in every history holds after every handled room.
\<close>

lemma handleJoinedRoom_reach:
  assumes "cl_reach w" and "w_pending w = None"
    and "honest_answer (w_enc w) r (se_encryption env r)"
    and "honest_block (w_enc w) enc' r (boot \<or> r \<notin> w_told w) b"
  shows "cl_reach (w\<lparr>w_enc := enc', w_told := insert r (w_told w),
    w_client := snd (handleJoinedRoom env boot (r, b) (w_client w))\<rparr>)"
proof -
  obtain isNew c1 where start: "joined_begin r b (w_client w) = (isNew, c1)" by fastforce
  let ?p = "\<lparr>pb_room = r, pb_isNew = isNew, pb_boot = boot, pb_full = (boot \<or> r \<notin> w_told w), pb_block = b\<rparr>"
  let ?w1 = "w\<lparr>w_client := c1, w_told := insert r (w_told w), w_pending := Some ?p\<rparr>"
  have w1: "cl_reach ?w1" by (rule cl_reach.begin_block [OF assms(1,2) start])
  define c2 where "c2 = (if jb_limited b \<and> \<not> isNew
      then refreshVisibility r (se_visibility env r) (refreshEncryption r (se_encryption env r) c1) else c1)"
  have r1: "cl_reach (on_client (refreshVisibility r (se_visibility env r))
      (on_client (refreshEncryption r (se_encryption env r)) ?w1))"
    using assms(3) by (intro cl_reach.visibility cl_reach.refresh [OF w1]) simp
  have id1: "?w1\<lparr>w_client := c1\<rparr> = ?w1" by simp
  have w2: "cl_reach (?w1\<lparr>w_client := c2\<rparr>)"
  proof (cases "jb_limited b \<and> \<not> isNew")
    case True
    with r1 show ?thesis by (simp add: c2_def on_client_def)
  next
    case False
    with w1 id1 show ?thesis by (simp only: c2_def if_False)
  qed
  define c3 where "c3 = joined_apply r isNew boot b c2"
  let ?w3 = "w\<lparr>w_told := insert r (w_told w), w_enc := enc', w_pending := None\<rparr>"
  have same: "w\<lparr>w_enc := enc', w_told := insert r (w_told w), w_client := c\<rparr> = ?w3\<lparr>w_client := c\<rparr>" for c
    using assms(2) by (cases w) simp
  have "client_via ?w3 c3"
    using cl_reach.apply_block [OF w2, of ?p enc'] assms(4) by (simp add: c3_def)
  then have c4: "client_via ?w3 (host_events r boot b c3)"
    by (rule via_quiet) (simp_all add: host_events_simps)
  obtain threw c5 where cry: "joined_crypto env r isNew b (host_events r boot b c3) = (threw, c5)" by fastforce
  have c5: "client_via ?w3 c5" using via_crypto [OF c4, of env r isNew b] by (simp add: cry)
  obtain threw2 c6 where em: "steps (\<lambda>e. emitTimelineEvent env r e (jb_limited b)) (jb_timeline b) c5 = (threw2, c6)"
    by fastforce
  have c6: "client_via ?w3 c6"
    using c5 steps_emit_simps [of env r "jb_limited b" "jb_timeline b" c5] by (intro via_quiet [OF c5]) (simp_all add: em)
  have c7: "client_via ?w3 (fold (\<lambda>e. out (Out_ephemeral r e)) (jb_ephemeral b) c6)"
    by (rule via_quiet [OF c6]) (simp_all add: fold_out_simps)
  have "snd (handleJoinedRoom env boot (r, b) (w_client w)) \<in>
      {c5, c6, fold (\<lambda>e. out (Out_ephemeral r e)) (jb_ephemeral b) c6}"
    by (simp add: handleJoinedRoom_def start c2_def [symmetric] c3_def [symmetric] cry em Let_def)
  with c5 c6 c7 show ?thesis unfolding same by auto
qed

section \<open>What a bootstrap response may hand to the handlers\<close>

text \<open>Outputs appended by an operation, all of them of a permitted kind.\<close>

definition emits :: "(client_out \<Rightarrow> bool) \<Rightarrow> client \<Rightarrow> client \<Rightarrow> bool" where
  "emits P c c1 \<longleftrightarrow> (\<exists>os. mc_out c1 = mc_out c @ os \<and> list_all P os)"

lemma emits_refl [simp]: "emits P c c"
  by (simp add: emits_def)

lemma emits_same: "mc_out c1 = mc_out c \<Longrightarrow> emits P c c1"
  by (simp add: emits_def)

lemma emits_trans: "emits P c c1 \<Longrightarrow> emits P c1 c2 \<Longrightarrow> emits P c c2"
  unfolding emits_def by force

lemma emits_out: "emits P c c1 \<Longrightarrow> P e \<Longrightarrow> emits P c (out e c1)"
  by (auto simp: emits_def out_def)

lemma emits_fold: "(\<And>x c. x \<in> set xs \<Longrightarrow> emits P c (f x c)) \<Longrightarrow> emits P c (fold f xs c)"
proof (induction xs arbitrary: c)
  case (Cons x xs)
  have "emits P c (f x c)" by (rule Cons.prems) simp
  moreover have "emits P (f x c) (fold f xs (f x c))" by (rule Cons.IH) (rule Cons.prems, simp)
  ultimately show ?case by (simp add: emits_trans)
qed simp

lemma emits_steps: "(\<And>x c. x \<in> set xs \<Longrightarrow> emits P c (snd (f x c))) \<Longrightarrow> emits P c (snd (steps f xs c))"
proof (induction xs arbitrary: c)
  case (Cons x xs)
  obtain t c1 where g: "f x c = (t, c1)" by fastforce
  have "emits P c c1" using Cons.prems [of x c] by (simp add: g)
  moreover have "emits P c1 (snd (steps f xs c1))" by (rule Cons.IH) (rule Cons.prems, simp)
  ultimately show ?case by (simp add: g emits_trans)
qed simp

definition bootstrap_out :: "client_out \<Rightarrow> bool" where
  "bootstrap_out e =
     (case e of
        Out_roomEvent _ ev _ boot _ \<Rightarrow> boot \<and> has_type HOST_CAPABILITIES_STATE_EVENT_TYPE ev
      | Out_invite _ _ \<Rightarrow> False
      | Out_ephemeral _ _ \<Rightarrow> False
      | _ \<Rightarrow> True)"

lemma out_same:
  "mc_out (on_rooms f c) = mc_out c"
  "mc_out (applyEvent r e c) = mc_out c"
  "mc_out (refreshEncryption r ans c) = mc_out c"
  "mc_out (refreshVisibility r ans c) = mc_out c"
  "mc_out (snd (getJoinedRoomMembers r force mem c)) = mc_out c"
  "mc_out (snd (joined_begin r b c)) = mc_out c"
  by (simp_all add: on_rooms_def applyEvent_def refreshEncryption_def refreshVisibility_def
      getJoinedRoomMembers_def members_answer_def joined_begin_def split_beta Let_def
      split: option.split json.split http_answer.split sum.split)

lemma out_joined_apply: "mc_out (joined_apply r isNew boot b c) = mc_out c"
proof -
  have "mc_out (fold (applyEvent r) es c) = mc_out c" for es c
    by (induction es arbitrary: c) (simp_all add: out_same)
  then show ?thesis by (simp add: joined_apply_def Let_def out_same)
qed

lemma emits_host: "emits bootstrap_out c (host_events r True b c)"
  unfolding host_events_def by (rule emits_fold) (auto simp: bootstrap_out_def intro!: emits_out)

lemma emits_track: "emits bootstrap_out c (trackRoomMembers env r c)"
proof -
  obtain ms c1 where g: "getJoinedRoomMembers r True (se_members env r) c = (ms, c1)" by fastforce
  have "mc_out c1 = mc_out c" using out_same(5) [of r True "se_members env r" c] by (simp add: g)
  then have "emits bootstrap_out c c1" by (rule emits_same)
  then show ?thesis
    by (auto simp: trackRoomMembers_def g bootstrap_out_def intro!: emits_out split: sum.split)
qed

lemma emits_crypto: "emits bootstrap_out c (snd (joined_crypto env r isNew b c))"
proof -
  obtain enc c1 where g: "(if encryptionAppeared b then (True, c)
                else if isNew then
                  (let (e, rc) = rc_isEncrypted r (mc_rooms c) in (e = Some True, c\<lparr>mc_rooms := rc\<rparr>))
                else (False, c)) = (enc, c1)" by fastforce
  have "mc_out c1 = mc_out c" using g by (auto simp: split_beta Let_def split: if_splits)
  then have "emits bootstrap_out c c1" by (rule emits_same)
  then have "emits bootstrap_out c (if enc then trackRoomMembers env r c1 else c1)"
    using emits_track [of c1 env r] emits_trans by auto
  then show ?thesis
    by (auto simp: joined_crypto_def g Let_def bootstrap_out_def intro!: emits_out)
qed

lemma emits_joined: "emits bootstrap_out c (snd (handleJoinedRoom env True rb c))"
proof -
  obtain r b where rb: "rb = (r, b)" by fastforce
  obtain isNew c1 where g: "joined_begin r b c = (isNew, c1)" by fastforce
  let ?c2 = "if jb_limited b \<and> \<not> isNew
      then refreshVisibility r (se_visibility env r) (refreshEncryption r (se_encryption env r) c1) else c1"
  let ?c4 = "host_events r True b (joined_apply r isNew True b ?c2)"
  obtain threw c5 where k: "joined_crypto env r isNew b ?c4 = (threw, c5)" by fastforce
  have "mc_out (joined_apply r isNew True b ?c2) = mc_out c"
    using out_same(6) [of r b c] by (simp add: g out_joined_apply out_same)
  then have "emits bootstrap_out c (joined_apply r isNew True b ?c2)" by (rule emits_same)
  then have "emits bootstrap_out c ?c4" using emits_host emits_trans by blast
  then have "emits bootstrap_out c c5"
    using emits_crypto [of ?c4 env r isNew b] emits_trans k by (metis snd_conv)
  then show ?thesis by (simp add: handleJoinedRoom_def rb g k Let_def)
qed

lemma emits_invite: "emits bootstrap_out c (handle_invite True ri c)"
proof -
  have "mc_out (fold (\<lambda>e. on_rooms (rc_applyStateEvent (fst ri) e)) es c) = mc_out c" for es
    by (induction es arbitrary: c) (simp_all add: out_same)
  then have "emits bootstrap_out c (fold (\<lambda>e. on_rooms (rc_applyStateEvent (fst ri) e)) (snd ri) c)"
    by (rule emits_same)
  then show ?thesis
    by (auto simp: handle_invite_def split_beta Let_def bootstrap_out_def intro!: emits_out)
qed

section \<open>Properties\<close>


definition demo_encryption_event :: json where
  "demo_encryption_event =
     JObj [(''type'', JStr ''m.room.encryption''), (''state_key'', JStr []),
           (''content'', JObj [(''algorithm'', JStr ''m.megolm.v1.aes-sha2'')])]"

definition demo_block :: "json list \<Rightarrow> json list \<Rightarrow> joined_block" where
  "demo_block st events = \<lparr>jb_summary = JNull, jb_limited = False, jb_state = st, jb_timeline = events, jb_ephemeral = []\<rparr>"

definition demo_fresh_client :: client where
  "demo_fresh_client = client_new ''@bot:x'' True None True True False demo_cache"

definition demo_world :: world where
  "demo_world = \<lparr>w_enc = {}, w_told = {}, w_pending = None, w_client = demo_fresh_client\<rparr>"

definition demo_env :: sync_env where
  "demo_env = \<lparr>se_now = 0, se_receiveThrows = False, se_encryption = (\<lambda>_. Ans_error),
     se_visibility = (\<lambda>_. Ans_error), se_members = (\<lambda>_. Inr (JObj [])), se_trackThrows = (\<lambda>_. False),
     se_handlerThrows = (\<lambda>_ _. False), se_decrypt = (\<lambda>_ _. None)\<rparr>"

definition demo_joined_world :: world where
  "demo_joined_world = demo_world\<lparr>w_enc := {''!r''}, w_told := {''!r''},
     w_client := snd (handleJoinedRoom demo_env True (''!r'', demo_block [demo_encryption_event] [])
                   (w_client demo_world))\<rparr>"

lemma demo_joined_world_reach: "cl_reach demo_joined_world"
proof -
  have "cl_reach demo_world"
    unfolding demo_world_def demo_fresh_client_def by (rule cl_reach.cold_start [OF demo_cache_new])
  then have "cl_reach (demo_world\<lparr>w_enc := {''!r''}, w_told := insert ''!r'' (w_told demo_world),
     w_client := snd (handleJoinedRoom demo_env True (''!r'', demo_block [demo_encryption_event] [])
                   (w_client demo_world))\<rparr>)"
    by (rule handleJoinedRoom_reach)
      (simp_all add: demo_world_def demo_env_def honest_answer_def honest_block_def block_tells_def
        demo_block_def tells_encryption_def demo_encryption_event_def readString_def isPlainObject_def
        json_prop_def event_content_def)
  then show ?thesis by (simp add: demo_joined_world_def demo_world_def)
qed

definition demo_encrypt :: encrypt_fn where
  "demo_encrypt r t v us = Inr [(''ciphertext'', JArr (map JStr us))]"

definition demo_members :: "js_error + json" where
  "demo_members = Inr (JObj [(''joined'', JObj [(''@bot:x'', JNull), (''@a:x'', JNull)])])"

lemma demo_send:
  "fst (sendEvent demo_encrypt ''!r'' ''m.room.message'' (JObj []) False Ans_error demo_members
        (w_client demo_joined_world)) =
     Inr (''!r'', ''m.room.encrypted'', JObj [(''ciphertext'', JArr [JStr ''@a:x''])])"
  by code_simp


text \<open>The response without its to-device events.\<close>

definition sync_rest :: "sync_env \<Rightarrow> bool \<Rightarrow> sync_response \<Rightarrow> client \<Rightarrow> bool \<times> client" where
  "sync_rest env isBootstrap resp c =
     steps (handleJoinedRoom env isBootstrap) (sr_join resp)
       (fold (handle_invite isBootstrap) (sr_invite resp)
         (fold handle_leave (sr_leave resp) (fold handle_account (sr_accountData resp) c)))"

lemma emits_rest: "emits bootstrap_out c (snd (sync_rest env True resp c))"
proof -
  have acc: "emits bootstrap_out c (handle_account e c)" for e c
    unfolding handle_account_def
    by (rule emits_out, rule emits_same) (simp_all add: out_same bootstrap_out_def)
  have lv: "emits bootstrap_out c (handle_leave r c)" for r c
    unfolding handle_leave_def
    by (rule emits_out, rule emits_same) (simp_all add: on_rooms_def bootstrap_out_def)
  let ?c1 = "fold handle_account (sr_accountData resp) c"
  let ?c2 = "fold handle_leave (sr_leave resp) ?c1"
  let ?c3 = "fold (handle_invite True) (sr_invite resp) ?c2"
  have "emits bootstrap_out c ?c1" by (rule emits_fold) (rule acc)
  moreover have "emits bootstrap_out ?c1 ?c2" by (rule emits_fold) (rule lv)
  moreover have "emits bootstrap_out ?c2 ?c3" by (rule emits_fold) (rule emits_invite)
  moreover have "emits bootstrap_out ?c3 (snd (steps (handleJoinedRoom env True) (sr_join resp) ?c3))"
    by (rule emits_steps) (rule emits_joined)
  ultimately have "emits bootstrap_out c (snd (steps (handleJoinedRoom env True) (sr_join resp) ?c3))"
    by (blast intro: emits_trans)
  then
  show ?thesis by (simp add: sync_rest_def)
qed

definition cold_started :: "sync_env \<Rightarrow> client \<Rightarrow> client" where
  "cold_started env c = (if mc_coldStart c = None then c\<lparr>mc_coldStart := Some (se_now env)\<rparr> else c)"

lemma cold_started_simps [simp]:
  "mc_out (cold_started env c) = mc_out c" "mc_crypto (cold_started env c) = mc_crypto c"
  by (simp_all add: cold_started_def)

lemma handleSync_parts:
  "snd (handleSync env True resp c) =
    (if mc_crypto c then
       if se_receiveThrows env then cold_started env c else snd (sync_rest env True resp (cold_started env c))
     else snd (sync_rest env True resp (fold (\<lambda>e. out (Out_toDevice e)) (sr_toDevice resp) (cold_started env c))))"
  by (simp add: handleSync_def sync_rest_def cold_started_def Let_def)

lemma mc_out_fold_toDevice: "mc_out (fold (\<lambda>e. out (Out_toDevice e)) es c) = mc_out c @ map Out_toDevice es"
  by (induction es arbitrary: c) (simp_all add: out_def)

text \<open>
  A bootstrap response hands no history to the handlers: what \<open>handleSync\<close> calls on a cold
  start is no timeline event, no invite and no ephemeral event; the only room events are
  host capability events of the state, marked as bootstrap.
\<close>

theorem bootstrap_dispatches_no_history:
  "\<exists>os. mc_out (snd (handleSync env True resp c)) = mc_out c @ os \<and> list_all bootstrap_out os"
proof -
  have e1: "emits bootstrap_out c (cold_started env c)" by (rule emits_same) simp
  have "emits bootstrap_out (cold_started env c) (fold (\<lambda>e. out (Out_toDevice e)) (sr_toDevice resp) (cold_started env c))"
    by (rule emits_fold) (simp add: emits_out bootstrap_out_def)
  from emits_trans [OF emits_trans [OF e1 this] emits_rest] emits_trans [OF e1 emits_rest] e1
  have "emits bootstrap_out c (snd (handleSync env True resp c))"
    unfolding handleSync_parts by simp
  then show ?thesis by (simp add: emits_def)
qed

text \<open>
  The cold start table allows to-device events only after the bootstrap; a client without
  crypto hands those of a bootstrap response on.
\<close>

theorem bootstrap_dispatches_to_device:
  assumes "\<not> mc_crypto c"
  shows "COLD_START_DISPATCH CK_to_device = CR_after_bootstrap \<and>
    (\<exists>os. mc_out (snd (handleSync env True resp c)) = mc_out c @ map Out_toDevice (sr_toDevice resp) @ os)"
  using emits_rest [of "fold (\<lambda>e. out (Out_toDevice e)) (sr_toDevice resp) (cold_started env c)" env resp] assms
  by (auto simp: COLD_START_DISPATCH_def handleSync_parts emits_def mc_out_fold_toDevice)

theorem bootstrap_dispatches_to_device_witness:
  "let c = client_new ''@bot:x'' True None False False False demo_cache;
       resp = \<lparr>sr_toDevice = [JStr ''key''], sr_accountData = [], sr_leave = [], sr_invite = [], sr_join = []\<rparr>
   in \<exists>os. mc_out (snd (handleSync demo_env True resp c)) = Out_toDevice (JStr ''key'') # os"
proof -
  let ?c = "client_new ''@bot:x'' True None False False False demo_cache"
  have "\<not> mc_crypto ?c" and "mc_out ?c = []" by (simp_all add: client_new_def)
  with bootstrap_dispatches_to_device [OF this(1), of demo_env
      "\<lparr>sr_toDevice = [JStr ''key''], sr_accountData = [], sr_leave = [], sr_invite = [], sr_join = []\<rparr>"]
  show ?thesis by (simp add: Let_def)
qed

section \<open>A restart\<close>

lemma view_apply_evs:
  assumes step: "\<And>type e x. P x \<Longrightarrow> P (room_apply type (event_content e) e x)"
  shows "rc_inv rc \<Longrightarrow> rc_view rc r = Some x \<Longrightarrow> P x \<Longrightarrow>
    \<exists>y. rc_view (fold (apply_ev r) es rc) r = Some y \<and> P y"
proof (induction es arbitrary: rc x)
  case Nil
  then show ?case by simp
next
  case (Cons e es)
  have "\<exists>y. rc_view (apply_ev r e rc) r = Some y \<and> P y"
    using Cons.prems by (cases rule: apply_ev_cases [of r e])
      (auto simp: rc_applyStateEvent_def rc_simps room_or_def step split: option.split)
  with Cons.IH [OF rc_inv_apply_ev [OF Cons.prems(1)]] show ?case by auto
qed

text \<open>A block without an encryption event leaves the algorithm of the room alone.\<close>

lemma silent_block:
  assumes inv: "rc_inv rc" and none: "\<And>x. rc_view rc r = Some x \<Longrightarrow> ri_encryption x = None"
    and silent: "list_all (\<lambda>e. readString e ''type'' \<noteq> Some ''m.room.encryption'') (jb_state b @ jb_timeline b)"
  shows "room_encrypted (rc_view (apply_block r True b rc) r) = Some False"
proof -
  define Q :: "string \<Rightarrow> room_info \<Rightarrow> bool" where "Q = (\<lambda>r' x. r' = r \<longrightarrow> ri_encryption x = None)"
  have evs: "cache_all Q (fold (apply_ev r) es rc')"
    if "rc_inv rc'" "cache_all Q rc'" "list_all (\<lambda>e. readString e ''type'' \<noteq> Some ''m.room.encryption'') es" for es rc'
    using that
  proof (induction es arbitrary: rc')
    case (Cons e es)
    have "cache_all Q (apply_ev r e rc')"
    proof (cases rule: apply_ev_cases [of r e])
      case 1
      from Cons.prems show ?thesis
        by (auto simp: 1 rc_applyStateEvent_def Q_def emptyRoom_def room_apply_encryption
            intro!: cache_all_update_same split: option.split)
    next
      case 2
      with Cons.prems show ?thesis by simp
    qed
    with Cons rc_inv_apply_ev [of rc' r e] show ?case by simp
  qed simp
  have Q0: "cache_all Q rc" using none by (auto simp: cache_all_def Q_def)
  let ?rc1 = "fold (apply_ev r) (jb_state b) rc"
  let ?rc2 = "rc_markStateSynced r ?rc1"
  have inv1: "rc_inv ?rc1" by (rule rc_inv_apply_evs [OF inv])
  have Q1: "cache_all Q ?rc1" using evs [OF inv Q0] silent by simp
  have inv2: "rc_inv ?rc2" using inv1 by (simp add: rc_markStateSynced_def rc_simps)
  have Q2: "cache_all Q ?rc2"
    unfolding rc_markStateSynced_def
    by (rule cache_all_update_same [OF inv1 Q1]) (simp_all add: Q_def emptyRoom_def)
  let ?rc3 = "fold (apply_ev r) (jb_timeline b) ?rc2"
  have Q3: "cache_all Q ?rc3" using evs [OF inv2 Q2] silent by simp
  have "rc_view ?rc2 r = Some ((room_or ?rc1 r)\<lparr>ri_stateSynced := True\<rparr>)"
    using inv1 by (simp add: rc_markStateSynced_def rc_simps)
  from view_apply_evs [where P = ri_stateSynced, OF _ inv2 this] obtain x
    where x: "rc_view ?rc3 r = Some x" "ri_stateSynced x"
    by (auto simp: room_apply_encryption)
  from cache_allD [OF Q3 x(1)] x show ?thesis
    by (simp add: apply_block_def Let_def room_encrypted_def Q_def)
qed

text \<open>The cache denies that a room is encrypted.\<close>

definition denies :: "string \<Rightarrow> client \<Rightarrow> bool" where
  "denies r c \<longleftrightarrow> rc_inv (mc_rooms c) \<and> room_encrypted (rc_view (mc_rooms c) r) = Some False"

lemma denies_same: "mc_rooms c1 = mc_rooms c \<Longrightarrow> denies r c1 = denies r c"
  by (simp add: denies_def)

lemma denies_cached: "denies r c \<Longrightarrow> fst (rc_isEncrypted r (mc_rooms c)) = Some False"
  by (simp add: denies_def rc_isEncrypted_def split_beta Let_def rc_simps)

lemma denies_read: "denies r c \<Longrightarrow> denies r (c\<lparr>mc_rooms := snd (rc_isEncrypted r (mc_rooms c))\<rparr>)"
  by (simp add: denies_def isEncrypted_get rc_simps)

lemma silent_not_appeared:
  "list_all (\<lambda>e. readString e ''type'' \<noteq> Some ''m.room.encryption'') (jb_state b @ jb_timeline b) \<Longrightarrow>
     \<not> encryptionAppeared b"
proof -
  have "has_type ''m.room.encryption'' e \<Longrightarrow> readString e ''type'' = Some ''m.room.encryption''" for e
    by (auto simp: has_type_def readString_def isPlainObject_def json_prop_def split: json.splits)
  then show "list_all (\<lambda>e. readString e ''type'' \<noteq> Some ''m.room.encryption'') (jb_state b @ jb_timeline b) \<Longrightarrow>
     \<not> encryptionAppeared b"
    by (auto simp: encryptionAppeared_def list_all_iff list_ex_iff)
qed

lemma denies_crypto:
  assumes "denies r c" and "\<not> encryptionAppeared b"
  shows "denies r (snd (joined_crypto env r True b c))"
proof -
  let ?c1 = "c\<lparr>mc_rooms := snd (rc_isEncrypted r (mc_rooms c))\<rparr>"
  have "denies r ?c1" by (rule denies_read [OF assms(1)])
  moreover have "denies r (out x ?c1) = denies r ?c1" for x by (rule denies_same) simp
  ultimately show ?thesis
    using assms denies_cached [OF assms(1)]
    by (simp add: joined_crypto_def split_beta Let_def)
qed

lemma denies_send:
  "denies r c \<Longrightarrow> fst (sendEvent encrypt r type content False ans mem c) = Inr (r, type, content)"
  using denies_cached [of r c] by (simp add: sendEvent_def isRoomEncrypted_def split_beta Let_def)

text \<open>
  C6 (error). A bot that restarts with a saved sync position resumes with a delta and no bootstrap, but
  takes every room for new and its delta for the full state: once a block without an
  encryption event has been handled, which is what an encrypted room sends for an ordinary
  message, the bot holds the room for unencrypted, and sends to it in plaintext without
  asking the homeserver.
\<close>

theorem restart_sends_plaintext:
  assumes new: "rc_new capacity = Inr rooms"
    and saved: "ss_next_batch (sl_state (sl_start opts fs)) = Some since" "ss_bootstrap_done (sl_state (sl_start opts fs))"
    and silent: "list_all (\<lambda>e. readString e ''type'' \<noteq> Some ''m.room.encryption'') (jb_state b @ jb_timeline b)"
  shows "fst (sendEvent encrypt r type content False ans mem
      (snd (handleJoinedRoom env (needs_bootstrap (sl_start opts fs)) (r, b)
        (client_new userId autojoin allowFrom crypto ready ephemeral rooms)))) = Inr (r, type, content)"
proof -
  let ?c = "client_new userId autojoin allowFrom crypto ready ephemeral rooms"
  have boot: "needs_bootstrap (sl_start opts fs) = False" using saved by (simp add: needs_bootstrap_def)
  define c1 where "c1 = on_rooms (rc_applySummary r (jb_summary b)) (?c\<lparr>mc_known := {r}\<rparr>)"
  have begun: "joined_begin r b ?c = (True, c1)"
    by (simp add: joined_begin_def c1_def client_new_def)
  have inv: "rc_inv (mc_rooms c1)"
    using rc_inv_new [OF new] by (simp add: c1_def client_new_def rc_applySummary_def rc_simps split: option.split)
  have none: "ri_encryption x = None" if "rc_view (mc_rooms c1) r = Some x" for x
    using that rc_inv_new [OF new] rc_view_new [OF new, of r]
    by (auto simp: c1_def client_new_def rc_applySummary_def rc_simps room_or_def emptyRoom_def split: option.splits)
  let ?c3 = "joined_apply r True False b c1"
  have "denies r ?c3"
    using silent_block [OF inv none silent] inv by (simp add: denies_def joined_apply_rooms rc_inv_block)
  then have "denies r (host_events r False b ?c3)"
    by (subst denies_same) (simp_all add: host_events_simps)
  from denies_crypto [OF this silent_not_appeared [OF silent], of env]
  obtain threw c5 where cry: "joined_crypto env r True b (host_events r False b ?c3) = (threw, c5)" and d5: "denies r c5"
    by (metis prod.collapse)
  obtain threw2 c6 where em: "steps (\<lambda>e. emitTimelineEvent env r e (jb_limited b)) (jb_timeline b) c5 = (threw2, c6)"
    by fastforce
  have d6: "denies r c6"
    using d5 steps_emit_simps [of env r "jb_limited b" "jb_timeline b" c5] by (simp add: em denies_same [of c6 c5])
  have "denies r (fold (\<lambda>e. out (Out_ephemeral r e)) (jb_ephemeral b) c6)"
    using d6 by (subst denies_same) (simp_all add: fold_out_simps)
  with d5 d6 have "denies r (snd (handleJoinedRoom env (needs_bootstrap (sl_start opts fs)) (r, b) ?c))"
    by (simp add: boot handleJoinedRoom_def begun cry em Let_def)
  then show ?thesis by (rule denies_send)
qed

text \<open>
  The homeserver's answer to a query of a room's encryption can be overtaken by a sync that turns
  it on. When the old answer then arrives, it erases what the sync said: from then on every
  event for the room goes out in plaintext, and the homeserver is not asked again.
\<close>

theorem overtaken_answer_disables_encryption:
  assumes "rc_inv (mc_rooms c)"
  shows "fst (sendEvent encrypt r type content False ans mem (snd (encryption_answer r Ans_notFound c))) = Inr (r, type, content)"
proof (rule denies_send)
  show "denies r (snd (encryption_answer r Ans_notFound c))"
    using assms by (simp add: denies_def encryption_answer_def on_rooms_def rc_setEncrypted_def rc_simps room_encrypted_def truthy_or_def)
qed

text \<open>The client knows that the room is encrypted, and a send before the answer would encrypt.\<close>

theorem overtaken_answer_disables_encryption_witness:
  "fst (sendEvent demo_encrypt ''!r'' ''m.room.message'' (JObj []) False Ans_error demo_members (w_client demo_joined_world)) =
     Inr (''!r'', ''m.room.encrypted'', JObj [(''ciphertext'', JArr [JStr ''@a:x''])]) \<and>
   fst (sendEvent demo_encrypt ''!r'' ''m.room.message'' (JObj []) False ans mem
     (snd (encryption_answer ''!r'' Ans_notFound (w_client demo_joined_world)))) = Inr (''!r'', ''m.room.message'', JObj [])"
proof -
  have "rc_inv (mc_rooms (w_client demo_joined_world))"
    using world_inv_reach [OF demo_joined_world_reach] by (simp add: world_inv_def cl_safe_def)
  from overtaken_answer_disables_encryption [OF this] demo_send show ?thesis by blast
qed

definition demo_sync_fs :: file_system where
  "demo_sync_fs = (\<lambda>_. None)(so_file demo_sync := Some (Json (JObj
     [(''next_batch'', JStr ''s1''), (''bootstrap_done'', JBool True), (''user_id'', JStr ''@bot:hs'')])))"

definition demo_message :: json where
  "demo_message = JObj [(''type'', JStr ''m.room.encrypted''), (''event_id'', JStr ''$1'')]"

text \<open>The room is encrypted, and the homeserver would say so if it were asked.\<close>

theorem restart_sends_plaintext_witness:
  "fst (sendEvent demo_encrypt ''!r'' ''m.room.message'' (JStr ''secret'') False
      (Ans_ok (JObj [(''algorithm'', JStr ''m.megolm.v1.aes-sha2'')])) demo_members
      (snd (handleJoinedRoom demo_env (needs_bootstrap (sl_start demo_sync demo_sync_fs))
        (''!r'', demo_block [] [demo_message]) demo_fresh_client))) =
    Inr (''!r'', ''m.room.message'', JStr ''secret'')"
proof -
  have "loadSyncState demo_sync_fs (so_file demo_sync) (Some (so_userId demo_sync)) =
      \<lparr>ss_next_batch = Some ''s1'', ss_filter_id = None, ss_filter_kind = None, ss_bootstrap_done = True,
       ss_user_id = Some ''@bot:hs''\<rparr>"
    by code_simp
  then show ?thesis
    unfolding demo_fresh_client_def
    by (intro restart_sends_plaintext [OF demo_cache_new, of _ _ "''s1''"])
      (simp_all add: sl_start_def demo_block_def demo_message_def readString_def isPlainObject_def json_prop_def)
qed

end
