(* ===== verification/Html.thy ===== *)
theory Html
  imports Url_Encoded
begin

text \<open>
  The sanitizer of \<^verbatim>\<open>src/html.ts\<close>: the tokenizer and the attribute scanner that its regular
  expressions are, the sanitizer loop, and the safe formatting helpers. Both expressions
  are deterministic (where a greedy part fails, a shorter one fails too), so each is a
  function that scans from a position.

  A character reference above U+00FF decodes to \<open>wide n\<close>, a parameter; \<open>valid\<close> says whether
  the platform's URL parser accepts a text that has a scheme.
\<close>

section \<open>Tables\<close>

definition MATRIX_ALLOWED_TAGS :: "string list" where
  "MATRIX_ALLOWED_TAGS =
     [''font'', ''del'', ''h1'', ''h2'', ''h3'', ''h4'', ''h5'', ''h6'', ''blockquote'', ''p'', ''a'', ''ul'', ''ol'',
      ''sup'', ''sub'', ''li'', ''b'', ''i'', ''u'', ''strong'', ''em'', ''s'', ''code'', ''hr'', ''br'', ''div'', ''table'',
      ''thead'', ''tbody'', ''tr'', ''th'', ''td'', ''caption'', ''pre'', ''span'', ''img'', ''details'', ''summary'']"

definition VOID_TAGS :: "string list" where
  "VOID_TAGS = [''br'', ''hr'', ''img'']"

definition ALLOWED_ATTRIBUTES :: "string \<Rightarrow> string list option" where
  "ALLOWED_ATTRIBUTES = map_of
     [(''font'', [''data-mx-bg-color'', ''data-mx-color'', ''color'']),
      (''span'', [''data-mx-bg-color'', ''data-mx-color'', ''data-mx-spoiler'', ''data-mx-maths'',
                  ''data-msc4286-external-payment-details'']),
      (''a'', [''name'', ''target'', ''href'']),
      (''img'', [''width'', ''height'', ''alt'', ''title'', ''src'']),
      (''ol'', [''start'']),
      (''code'', [''class'']),
      (''div'', [''data-mx-maths''])]"

definition ALLOWED_HREF_SCHEMES :: "string list" where
  "ALLOWED_HREF_SCHEMES = [''http:'', ''https:'', ''ftp:'', ''mailto:'', ''magnet:'', ''matrix:'']"

record sanitize_opts =
  so_extraTags :: "string list option"
  so_allowImages :: "bool option"
  so_maxDepth :: "int option"
  so_maxLength :: "int option"

section \<open>The tokenizer\<close>

text \<open>Close tags and open tags carry the lower-case name; a text carries its raw characters.\<close>

datatype token = T_text string | T_open string string bool | T_close string

abbreviation lt :: char where "lt \<equiv> CHR ''<''"
abbreviation gt :: char where "gt \<equiv> CHR ''>''"
abbreviation slash :: char where "slash \<equiv> CHR ''/''"
abbreviation dquote :: char where "dquote \<equiv> CHR 34"
abbreviation squote :: char where "squote \<equiv> CHR 39"

definition name_char :: "char \<Rightarrow> bool" where
  "name_char c = (ascii_alpha c \<or> ascii_digit c \<or> c = CHR ''-'')"

text \<open>
  The rest of a tag after its name, \<open>((?:[^>"']|"[^"]*"|'[^']*')*)\/?>\<close>: the attribute text and
  what follows the tag. The first argument is the quote the scan is inside of.
\<close>

fun scan_body :: "char option \<Rightarrow> string \<Rightarrow> (string \<times> string) option" where
  "scan_body q [] = None"
| "scan_body None (c # s) =
     (if c = gt then Some ([], s)
      else map_option (\<lambda>(b, r). (c # b, r)) (scan_body (if c = dquote \<or> c = squote then Some c else None) s))"
| "scan_body (Some q) (c # s) =
     map_option (\<lambda>(b, r). (c # b, r)) (scan_body (if c = q then None else Some q) s)"

definition tag_token :: "bool \<Rightarrow> string \<Rightarrow> string \<Rightarrow> token" where
  "tag_token closing name attributes =
     (let tag = js_lower name
      in if closing then T_close tag
         else T_open tag attributes ((attributes \<noteq> [] \<and> last attributes = slash) \<or> tag \<in> set VOID_TAGS))"

text \<open>\<open>TAG_RE\<close> at a position: the token and what follows it.\<close>

definition match_name :: "bool \<Rightarrow> string \<Rightarrow> (token \<times> string) option" where
  "match_name closing s =
     (case s of
        [] \<Rightarrow> None
      | c # _ \<Rightarrow>
          if ascii_alpha c then
            map_option (\<lambda>(b, r). (tag_token closing (takeWhile name_char s) b, r))
              (scan_body None (dropWhile name_char s))
          else None)"

definition match_tag :: "string \<Rightarrow> (token \<times> string) option" where
  "match_tag s =
     (case s of
        [] \<Rightarrow> None
      | c # r \<Rightarrow>
          if c \<noteq> lt then None
          else (case r of d # r1 \<Rightarrow> if d = slash then match_name True r1 else match_name False r | [] \<Rightarrow> None))"

definition text_token :: "string \<Rightarrow> token list" where
  "text_token pre = (if pre = [] then [] else [T_text pre])"

lemma scan_body_length: "scan_body q s = Some (b, r) \<Longrightarrow> length r < length s"
  by (induction q s arbitrary: b r rule: scan_body.induct) (fastforce split: if_splits)+

lemma match_name_length: "match_name k s = Some (t, r) \<Longrightarrow> length r < length s"
proof -
  assume "match_name k s = Some (t, r)"
  then obtain b where "scan_body None (dropWhile name_char s) = Some (b, r)"
    by (auto simp: match_name_def split: list.splits if_splits)
  from scan_body_length [OF this] length_dropWhile_le [of name_char s] show ?thesis by simp
qed

lemma match_tag_length: "match_tag s = Some (t, r) \<Longrightarrow> length r < length s"
  by (auto simp: match_tag_def split: list.splits if_splits dest!: match_name_length)

text \<open>The loop over the matches, with the text before the next match.\<close>

function tokenize_from :: "string \<Rightarrow> string \<Rightarrow> token list" where
  "tokenize_from pre [] = text_token pre"
| "tokenize_from pre (c # s) =
     (case match_tag (c # s) of
        None \<Rightarrow> tokenize_from (pre @ [c]) s
      | Some (t, r) \<Rightarrow> text_token pre @ t # tokenize_from [] r)"
  by pat_completeness auto
termination
  by (relation "measure (\<lambda>(pre, s). length s)") (auto dest: match_tag_length)

declare tokenize_from.simps(2) [simp del]

definition tokenize :: "string \<Rightarrow> token list" where
  "tokenize html = tokenize_from [] html"

section \<open>Attribute values and URLs\<close>

text \<open>
  \<open>text.replace(re, f)\<close> for an expression given by what it matches at a position: the
  replacement and the length of the match. The number counts characters still to skip.
\<close>

fun replace_at :: "(string \<Rightarrow> (string \<times> nat) option) \<Rightarrow> nat \<Rightarrow> string \<Rightarrow> string" where
  "replace_at m n [] = []"
| "replace_at m (Suc n) (c # s) = replace_at m n s"
| "replace_at m 0 (c # s) =
     (case m (c # s) of
        None \<Rightarrow> c # replace_at m 0 s
      | Some (r, len) \<Rightarrow> r @ replace_at m (len - 1) s)"

definition codePoint :: "(nat \<Rightarrow> string) \<Rightarrow> nat \<Rightarrow> string" where
  "codePoint wide n = (if 1114111 < n then [] else if n < 256 then [char_of n] else wide n)"

definition semi :: "string \<Rightarrow> nat" where
  "semi s = (case s of c # _ \<Rightarrow> if c = CHR '';'' then 1 else 0 | [] \<Rightarrow> 0)"

definition is_hex :: "char \<Rightarrow> bool" where
  "is_hex c = (hex_value c \<noteq> None)"

definition hex_number :: "string \<Rightarrow> nat" where
  "hex_number ds = foldl (\<lambda>a c. 16 * a + (case hex_value c of Some v \<Rightarrow> v | None \<Rightarrow> 0)) 0 ds"

text \<open>\<open>/&#(\d+);?/\<close> and \<open>/&#x([0-9a-fA-F]+);?/\<close>.\<close>

definition match_decimal :: "(nat \<Rightarrow> string) \<Rightarrow> string \<Rightarrow> (string \<times> nat) option" where
  "match_decimal wide s =
     (if take 2 s = ''&#'' then
        (let ds = takeWhile ascii_digit (drop 2 s)
         in if ds = [] then None
            else Some (codePoint wide (dec_value ds), 2 + length ds + semi (drop (2 + length ds) s)))
      else None)"

definition match_hex :: "(nat \<Rightarrow> string) \<Rightarrow> string \<Rightarrow> (string \<times> nat) option" where
  "match_hex wide s =
     (if take 3 s = ''&#x'' then
        (let ds = takeWhile is_hex (drop 3 s)
         in if ds = [] then None
            else Some (codePoint wide (hex_number ds), 3 + length ds + semi (drop (3 + length ds) s)))
      else None)"

text \<open>\<open>/&name;/gi\<close>.\<close>

definition match_entity :: "string \<Rightarrow> string \<Rightarrow> string \<Rightarrow> (string \<times> nat) option" where
  "match_entity name r s =
     (let n = length name + 2
      in if map js_lower_char (take n s) = CHR ''&'' # name @ '';'' then Some (r, n) else None)"

definition decodeAttributeValue :: "(nat \<Rightarrow> string) \<Rightarrow> string \<Rightarrow> string" where
  "decodeAttributeValue wide value =
     js_trim
       (replace_at (match_entity ''amp'' ''&'') 0
         (replace_at (match_entity ''gt'' ''>'') 0
           (replace_at (match_entity ''lt'' ''<'') 0
             (replace_at (match_entity ''apos'' [squote]) 0
               (replace_at (match_entity ''quot'' [dquote]) 0
                 (replace_at (match_hex wide) 0
                   (replace_at (match_decimal wide) 0 value)))))))"

text \<open>
  The scheme of an absolute URL, as the URL standard reads it: leading and trailing C0
  controls and spaces and all tabs and line ends are dropped, then a letter, letters,
  digits, plus, minus and dots, and a colon.
\<close>

definition c0_space :: "char \<Rightarrow> bool" where
  "c0_space c = ((of_char c :: nat) \<le> 32)"

definition tab_or_newline :: "char \<Rightarrow> bool" where
  "tab_or_newline c = ((of_char c :: nat) \<in> {9, 10, 13})"

definition scheme_char :: "char \<Rightarrow> bool" where
  "scheme_char c = (ascii_alpha c \<or> ascii_digit c \<or> c \<in> {CHR ''+'', CHR ''-'', CHR ''.''})"

definition url_strip :: "string \<Rightarrow> string" where
  "url_strip s = filter (\<lambda>c. \<not> tab_or_newline c) (rev (dropWhile c0_space (rev (dropWhile c0_space s))))"

definition scheme_of :: "string \<Rightarrow> string option" where
  "scheme_of s =
     (case s of
        [] \<Rightarrow> None
      | c # _ \<Rightarrow>
          if ascii_alpha c \<and> js_starts_with (dropWhile scheme_char s) '':''
          then Some (js_lower (takeWhile scheme_char s)) else None)"

definition url_scheme :: "string \<Rightarrow> string option" where
  "url_scheme s = scheme_of (url_strip s)"

text \<open>\<open>new URL(s).protocol\<close>, \<open>None\<close> when the constructor throws.\<close>

definition url_protocol :: "(string \<Rightarrow> bool) \<Rightarrow> string \<Rightarrow> string option" where
  "url_protocol valid s =
     (case url_scheme s of
        None \<Rightarrow> None
      | Some sch \<Rightarrow> if valid s then Some (sch @ '':'') else None)"

definition isSafeUrl :: "(string \<Rightarrow> bool) \<Rightarrow> string \<Rightarrow> string list \<Rightarrow> bool" where
  "isSafeUrl valid url schemes =
     (let trimmed = filter (\<lambda>c. \<not> c0_space c) (js_trim url)
      in if trimmed = [] then False
         else if js_starts_with trimmed ''#'' \<or> js_starts_with trimmed ''/'' then True
         else (case url_protocol valid trimmed of
                 Some p \<Rightarrow> js_lower p \<in> set schemes
               | None \<Rightarrow> CHR '':'' \<notin> set trimmed))"

section \<open>Attributes\<close>

definition attr_start :: "char \<Rightarrow> bool" where
  "attr_start c = (ascii_alpha c \<or> c = CHR ''_'' \<or> c = CHR '':'')"

definition attr_char :: "char \<Rightarrow> bool" where
  "attr_char c = (attr_start c \<or> ascii_digit c \<or> c = CHR ''-'' \<or> c = CHR ''.'')"

text \<open>The value after the equals sign and white space, and what follows.\<close>

definition match_value :: "string \<Rightarrow> (string \<times> string) option" where
  "match_value s =
     (case s of
        [] \<Rightarrow> None
      | c # r \<Rightarrow>
          if c = dquote \<or> c = squote then
            (case dropWhile (\<lambda>d. d \<noteq> c) r of [] \<Rightarrow> None | _ # t \<Rightarrow> Some (takeWhile (\<lambda>d. d \<noteq> c) r, t))
          else
            (let bare = (\<lambda>d. \<not> js_space d \<and> d \<noteq> dquote \<and> d \<noteq> squote \<and> d \<noteq> gt)
             in if bare c then Some (takeWhile bare s, dropWhile bare s) else None))"

text \<open>\<open>ATTRIBUTE_RE\<close> at a position: name, value and what follows.\<close>

definition match_attr :: "string \<Rightarrow> (string \<times> string \<times> string) option" where
  "match_attr s =
     (case s of
        [] \<Rightarrow> None
      | c # _ \<Rightarrow>
          if attr_start c then
            (case dropWhile js_space (dropWhile attr_char s) of
               [] \<Rightarrow> None
             | e # r \<Rightarrow>
                 if e = CHR ''='' then
                   map_option (\<lambda>(v, t). (takeWhile attr_char s, v, t)) (match_value (dropWhile js_space r))
                 else None)
          else None)"

lemma match_value_length: "match_value s = Some (v, t) \<Longrightarrow> length t < length s"
proof (cases s)
  case (Cons c r)
  assume m: "match_value s = Some (v, t)"
  show ?thesis
  proof (cases "c = dquote \<or> c = squote")
    case True
    then obtain d u where "dropWhile (\<lambda>d. d \<noteq> c) r = d # u" and "t = u"
      using m by (auto simp: match_value_def Cons split: list.splits)
    then have "length t < length (dropWhile (\<lambda>d. d \<noteq> c) r)" by simp
    also have "\<dots> \<le> length r" by (rule length_dropWhile_le)
    finally show ?thesis by (simp add: Cons)
  next
    case False
    let ?bare = "\<lambda>d. \<not> js_space d \<and> d \<noteq> dquote \<and> d \<noteq> squote \<and> d \<noteq> gt"
    from m False have "?bare c" and "t = dropWhile ?bare r"
      by (auto simp: match_value_def Cons Let_def split: if_splits)
    with length_dropWhile_le [of ?bare r] show ?thesis by (simp add: Cons)
  qed
qed (simp add: match_value_def)

lemma match_attr_length: "match_attr s = Some (n, v, t) \<Longrightarrow> length t < length s"
proof -
  assume "match_attr s = Some (n, v, t)"
  then obtain e r where r: "dropWhile js_space (dropWhile attr_char s) = e # r"
    and v: "match_value (dropWhile js_space r) = Some (v, t)"
    by (auto simp: match_attr_def split: list.splits if_splits)
  have "length t < length (dropWhile js_space r)" by (rule match_value_length [OF v])
  also have "\<dots> \<le> length r" by (rule length_dropWhile_le)
  also have "\<dots> < length (dropWhile js_space (dropWhile attr_char s))" by (simp add: r)
  also have "\<dots> \<le> length (dropWhile attr_char s)" by (rule length_dropWhile_le)
  also have "\<dots> \<le> length s" by (rule length_dropWhile_le)
  finally show ?thesis .
qed

function scan_attrs :: "string \<Rightarrow> (string \<times> string) list" where
  "scan_attrs [] = []"
| "scan_attrs (c # s) =
     (case match_attr (c # s) of
        None \<Rightarrow> scan_attrs s
      | Some (n, v, t) \<Rightarrow> (n, v) # scan_attrs t)"
  by pat_completeness auto
termination
  by (relation "measure length") (auto dest: match_attr_length)

declare scan_attrs.simps(2) [simp del]

definition word_or_dash :: "char \<Rightarrow> bool" where
  "word_or_dash c = (ascii_alpha c \<or> ascii_digit c \<or> c \<in> {CHR ''_'', CHR ''+'', CHR ''-''})"

definition language_class :: "string \<Rightarrow> bool" where
  "language_class s = (take 9 s = ''language-'' \<and> drop 9 s \<noteq> [] \<and> list_all word_or_dash (drop 9 s))"

text \<open>Whether the loop keeps an attribute with this lower-case name and decoded value.\<close>

definition keep_attr :: "(string \<Rightarrow> bool) \<Rightarrow> sanitize_opts \<Rightarrow> string \<Rightarrow> string list \<Rightarrow> string \<Rightarrow> string \<Rightarrow> bool" where
  "keep_attr valid opts tag allowed name decoded =
     (if name \<notin> set allowed then False
      else if name = ''href'' \<and> \<not> isSafeUrl valid decoded ALLOWED_HREF_SCHEMES then False
      else if name = ''src'' \<and> \<not> js_starts_with (js_lower decoded) ''mxc://'' then False
      else if name = ''src'' \<and> so_allowImages opts = Some False then False
      else if name = ''class'' \<and> tag = ''code'' \<and> \<not> language_class decoded then False
      else True)"

definition kept_attrs ::
  "(nat \<Rightarrow> string) \<Rightarrow> (string \<Rightarrow> bool) \<Rightarrow> sanitize_opts \<Rightarrow> string \<Rightarrow> string \<Rightarrow> (string \<times> string) list" where
  "kept_attrs wide valid opts tag raw =
     (case ALLOWED_ATTRIBUTES tag of
        None \<Rightarrow> []
      | Some allowed \<Rightarrow>
          filter (\<lambda>(n, d). keep_attr valid opts tag allowed n d)
            (map (\<lambda>(n, v). (js_lower n, decodeAttributeValue wide v)) (scan_attrs raw)))"

definition attr_text :: "string \<times> string \<Rightarrow> string" where
  "attr_text nd = fst nd @ CHR ''='' # dquote # escapeHtml (snd nd) @ [dquote]"

definition attrs_text :: "(string \<times> string) list \<Rightarrow> string" where
  "attrs_text kept = (if kept \<noteq> [] then CHR '' '' # js_join '' '' (map attr_text kept) else [])"

definition sanitizeAttributes ::
  "(nat \<Rightarrow> string) \<Rightarrow> (string \<Rightarrow> bool) \<Rightarrow> sanitize_opts \<Rightarrow> string \<Rightarrow> string \<Rightarrow> string" where
  "sanitizeAttributes wide valid opts tag raw = attrs_text (kept_attrs wide valid opts tag raw)"

section \<open>The sanitizer\<close>

text \<open>\<open>escapeText\<close>: an ampersand is kept when a whole character reference follows.\<close>

definition ref_after :: "(char \<Rightarrow> bool) \<Rightarrow> string \<Rightarrow> bool" where
  "ref_after p s = (takeWhile p s \<noteq> [] \<and> js_starts_with (dropWhile p s) '';'')"

definition is_ref :: "string \<Rightarrow> bool" where
  "is_ref s =
     ((take 1 s = ''#'' \<and> ref_after ascii_digit (drop 1 s)) \<or>
      (take 2 s = ''#x'' \<and> ref_after is_hex (drop 2 s)) \<or>
      (s \<noteq> [] \<and> ascii_alpha (hd s) \<and> ref_after (\<lambda>c. ascii_alpha c \<or> ascii_digit c) s))"

fun escape_amps :: "string \<Rightarrow> string" where
  "escape_amps [] = []"
| "escape_amps (c # s) = (if c = CHR ''&'' \<and> \<not> is_ref s then ''&amp;'' else [c]) @ escape_amps s"

definition escapeText :: "string \<Rightarrow> string" where
  "escapeText text = replace_char gt ''&gt;'' (replace_char lt ''&lt;'' (escape_amps text))"

definition allowed_tags :: "sanitize_opts \<Rightarrow> string set" where
  "allowed_tags opts =
     (let a = set MATRIX_ALLOWED_TAGS \<union> js_lower ` set (case so_extraTags opts of Some ts \<Rightarrow> ts | None \<Rightarrow> [])
      in if so_allowImages opts = Some False then a - {''img''} else a)"

text \<open>
  The state of the loop: the output, the stack of open tags (top first) and the tag whose
  content is being discarded, with its nesting depth.
\<close>

record san =
  sn_out :: "string list"
  sn_open :: "string list"
  sn_depth :: nat
  sn_tag :: string

definition san_start :: san where
  "san_start = \<lparr>sn_out = [], sn_open = [], sn_depth = 0, sn_tag = []\<rparr>"

definition close_tag :: "string \<Rightarrow> string" where
  "close_tag tag = ''</'' @ tag @ ''>''"

definition open_tag :: "string \<Rightarrow> string \<Rightarrow> string" where
  "open_tag tag attributes = lt # tag @ attributes @ ''>''"

definition suppress_step :: "token \<Rightarrow> san \<Rightarrow> san" where
  "suppress_step tok st =
     (case tok of
        T_open tag _ selfClosing \<Rightarrow>
          if tag = sn_tag st \<and> \<not> selfClosing then st\<lparr>sn_depth := sn_depth st + 1\<rparr> else st
      | T_close tag \<Rightarrow>
          if tag = sn_tag st then
            (let st1 = st\<lparr>sn_depth := sn_depth st - 1\<rparr>
             in if sn_depth st1 = 0 then st1\<lparr>sn_tag := []\<rparr> else st1)
          else st
      | T_text _ \<Rightarrow> st)"

definition maxDepth_of :: "sanitize_opts \<Rightarrow> int" where
  "maxDepth_of opts = (case so_maxDepth opts of Some n \<Rightarrow> n | None \<Rightarrow> 100)"

definition open_step ::
  "(nat \<Rightarrow> string) \<Rightarrow> (string \<Rightarrow> bool) \<Rightarrow> sanitize_opts \<Rightarrow> string \<Rightarrow> string \<Rightarrow> bool \<Rightarrow> san \<Rightarrow> san" where
  "open_step wide valid opts tag attributes selfClosing st =
     (if tag \<in> {''script'', ''style'', ''iframe'', ''object''} then
        (if selfClosing then st else st\<lparr>sn_depth := 1, sn_tag := tag\<rparr>)
      else if tag \<notin> allowed_tags opts then st
      else if maxDepth_of opts \<le> int (length (sn_open st)) then st
      else
        (let st1 = st\<lparr>sn_out := sn_out st @ [open_tag tag (sanitizeAttributes wide valid opts tag attributes)]\<rparr>
         in if selfClosing \<or> tag \<in> set VOID_TAGS then st1 else st1\<lparr>sn_open := tag # sn_open st\<rparr>))"

definition close_step :: "sanitize_opts \<Rightarrow> string \<Rightarrow> san \<Rightarrow> san" where
  "close_step opts tag st =
     (if tag \<notin> allowed_tags opts \<or> tag \<in> set VOID_TAGS then st
      else if tag \<notin> set (sn_open st) then st
      else st\<lparr>sn_out := sn_out st @ map close_tag (takeWhile (\<lambda>t. t \<noteq> tag) (sn_open st) @ [tag]),
              sn_open := tl (dropWhile (\<lambda>t. t \<noteq> tag) (sn_open st))\<rparr>)"

definition san_step :: "(nat \<Rightarrow> string) \<Rightarrow> (string \<Rightarrow> bool) \<Rightarrow> sanitize_opts \<Rightarrow> token \<Rightarrow> san \<Rightarrow> san" where
  "san_step wide valid opts tok st =
     (if 0 < sn_depth st then suppress_step tok st
      else (case tok of
              T_text raw \<Rightarrow> st\<lparr>sn_out := sn_out st @ [escapeText raw]\<rparr>
            | T_open tag attributes selfClosing \<Rightarrow> open_step wide valid opts tag attributes selfClosing st
            | T_close tag \<Rightarrow> close_step opts tag st))"

definition js_slice0 :: "int \<Rightarrow> string \<Rightarrow> string" where
  "js_slice0 n s = take (nat (if n < 0 then int (length s) + n else n)) s"

definition san_result :: "san \<Rightarrow> string" where
  "san_result st = concat (sn_out st @ map close_tag (sn_open st))"

definition sanitizeMatrixHtml :: "(nat \<Rightarrow> string) \<Rightarrow> (string \<Rightarrow> bool) \<Rightarrow> string \<Rightarrow> sanitize_opts \<Rightarrow> string" where
  "sanitizeMatrixHtml wide valid html opts =
     (let result = san_result (fold (san_step wide valid opts) (tokenize html) san_start)
      in case so_maxLength opts of
           Some n \<Rightarrow> if n < int (length result) then js_slice0 n result else result
         | None \<Rightarrow> result)"

section \<open>Formatting helpers\<close>

definition wrap :: "string \<Rightarrow> string \<Rightarrow> string" where
  "wrap tag text = open_tag tag [] @ escapeHtml text @ close_tag tag"

definition fmt_bold :: "string \<Rightarrow> string" where "fmt_bold = wrap ''strong''"
definition fmt_italic :: "string \<Rightarrow> string" where "fmt_italic = wrap ''em''"
definition fmt_strike :: "string \<Rightarrow> string" where "fmt_strike = wrap ''del''"
definition fmt_underline :: "string \<Rightarrow> string" where "fmt_underline = wrap ''u''"
definition fmt_code :: "string \<Rightarrow> string" where "fmt_code = wrap ''code''"
definition fmt_quote :: "string \<Rightarrow> string" where "fmt_quote = wrap ''blockquote''"

definition fmt_codeBlock :: "string \<Rightarrow> string option \<Rightarrow> string" where
  "fmt_codeBlock text language =
     (case language of
        Some l \<Rightarrow>
          if l \<noteq> [] then
            ''<pre>'' @ open_tag ''code'' (attrs_text [(''class'', ''language-'' @ l)]) @ escapeHtml text @ ''</code></pre>''
          else ''<pre><code>'' @ escapeHtml text @ ''</code></pre>''
      | None \<Rightarrow> ''<pre><code>'' @ escapeHtml text @ ''</code></pre>'')"

definition fmt_spoiler :: "string \<Rightarrow> string option \<Rightarrow> string" where
  "fmt_spoiler text reason =
     (case reason of
        Some r \<Rightarrow>
          if r \<noteq> [] then open_tag ''span'' (attrs_text [(''data-mx-spoiler'', r)]) @ escapeHtml text @ ''</span>''
          else ''<span data-mx-spoiler>'' @ escapeHtml text @ ''</span>''
      | None \<Rightarrow> ''<span data-mx-spoiler>'' @ escapeHtml text @ ''</span>'')"

definition fmt_link :: "(string \<Rightarrow> bool) \<Rightarrow> string \<Rightarrow> string \<Rightarrow> string" where
  "fmt_link valid label url =
     (if isSafeUrl valid url ALLOWED_HREF_SCHEMES
      then open_tag ''a'' (attrs_text [(''href'', url)]) @ escapeHtml label @ ''</a>''
      else escapeHtml label)"

definition fmt_list :: "string list \<Rightarrow> bool \<Rightarrow> string" where
  "fmt_list items ordered =
     (let tag = (if ordered then ''ol'' else ''ul'')
      in open_tag tag [] @ concat (map (wrap ''li'') items) @ close_tag tag)"

text \<open>\<open>encodeURIComponent\<close>: the unreserved characters stay, others become UTF-8 bytes in hexadecimal.\<close>

definition uri_plain :: "char \<Rightarrow> bool" where
  "uri_plain c = (ascii_alpha c \<or> ascii_digit c \<or> c \<in> set ''-_.!~*()'' \<or> c = squote)"

definition encodeURIComponent :: "string \<Rightarrow> string" where
  "encodeURIComponent s =
     concat (map (\<lambda>c. if uri_plain c then [c]
                      else concat (map (\<lambda>n. [CHR ''%'', hex_upper (n div 16), hex_upper (n mod 16)]) (utf8_char c))) s)"

definition fmt_pill :: "string \<Rightarrow> string option \<Rightarrow> string" where
  "fmt_pill ident label =
     ''<a href=\"https://matrix.to/#/'' @ encodeURIComponent ident @ ''\">'' @
     escapeHtml (case label of Some l \<Rightarrow> l | None \<Rightarrow> ident) @ ''</a>''"

text \<open>The tagged template: literal parts, with every value in between escaped.\<close>

fun html_values :: "string list \<Rightarrow> string list \<Rightarrow> string" where
  "html_values [] vs = concat (map escapeHtml vs)"
| "html_values (p # ps) [] = []"
| "html_values (p # ps) (v # vs) = escapeHtml v @ p @ html_values ps vs"

definition html_template :: "string list \<Rightarrow> string list \<Rightarrow> string" where
  "html_template parts vs = (case parts of [] \<Rightarrow> html_values [] vs | p # ps \<Rightarrow> p @ html_values ps vs)"

end
