(* ===== verification/Html_Sanitize.thy ===== *)
theory Html_Sanitize
  imports Html
begin

text \<open>
  What the sanitizer of \<open>Html\<close> guarantees. The output is a sequence of pieces (escaped text,
  open tags with kept attributes, close tags); reading it again with the tokenizer gives
  these pieces back, so the guarantees hold of whatever a reader of the output finds, and
  sanitizing again changes nothing.
\<close>

section \<open>Escaped text\<close>

lemma escapeText_Nil [simp]: "escapeText [] = []"
  by (simp add: escapeText_def)

lemma escapeText_Cons:
  "escapeText (c # s) =
     (if c = CHR ''&'' then if is_ref s then ''&'' else ''&amp;''
      else if c = lt then ''&lt;'' else if c = gt then ''&gt;'' else [c]) @ escapeText s"
  by (simp add: escapeText_def)

text \<open>A reference is a word of one of three shapes and a semicolon.\<close>

definition ref_word :: "string \<Rightarrow> bool" where
  "ref_word w \<longleftrightarrow>
     (\<exists>ds. w = CHR ''#'' # ds \<and> ds \<noteq> [] \<and> list_all ascii_digit ds) \<or>
     (\<exists>ds. w = CHR ''#'' # CHR ''x'' # ds \<and> ds \<noteq> [] \<and> list_all is_hex ds) \<or>
     (w \<noteq> [] \<and> ascii_alpha (hd w) \<and> list_all (\<lambda>c. ascii_alpha c \<or> ascii_digit c) w)"

lemma ref_after_iff:
  assumes "\<not> p (CHR '';'')"
  shows "ref_after p s \<longleftrightarrow> (\<exists>w t. s = w @ CHR '';'' # t \<and> w \<noteq> [] \<and> list_all p w)"
proof
  assume "ref_after p s"
  then have "s = takeWhile p s @ CHR '';'' # tl (dropWhile p s)" and "takeWhile p s \<noteq> []"
    by (cases "dropWhile p s"; simp add: ref_after_def js_starts_with_def;
        metis takeWhile_dropWhile_id)+
  moreover have "list_all p (takeWhile p s)" by (auto simp: list_all_iff dest: set_takeWhileD)
  ultimately show "\<exists>w t. s = w @ CHR '';'' # t \<and> w \<noteq> [] \<and> list_all p w" by blast
next
  assume "\<exists>w t. s = w @ CHR '';'' # t \<and> w \<noteq> [] \<and> list_all p w"
  then obtain w t where "s = w @ CHR '';'' # t" and "w \<noteq> []" and "list_all p w" by blast
  with assms show "ref_after p s"
    by (simp add: ref_after_def js_starts_with_def list_all_iff takeWhile_append2 dropWhile_append2)
qed

lemma semicolon_class [simp]:
  "\<not> ascii_digit (CHR '';'')" "\<not> is_hex (CHR '';'')" "\<not> ascii_alpha (CHR '';'')"
  by (simp_all add: ascii_digit_def is_hex_def hex_value_def ascii_alpha_def)

lemma is_ref_iff: "is_ref s \<longleftrightarrow> (\<exists>w t. s = w @ CHR '';'' # t \<and> ref_word w)"
proof -
  have 1: "take 1 s = ''#'' \<and> ref_after ascii_digit (drop 1 s) \<longleftrightarrow>
      (\<exists>ds t. s = CHR ''#'' # ds @ CHR '';'' # t \<and> ds \<noteq> [] \<and> list_all ascii_digit ds)"
    by (cases s) (auto simp: ref_after_iff)
  have 2: "take 2 s = ''#x'' \<and> ref_after is_hex (drop 2 s) \<longleftrightarrow>
      (\<exists>ds t. s = CHR ''#'' # CHR ''x'' # ds @ CHR '';'' # t \<and> ds \<noteq> [] \<and> list_all is_hex ds)"
    by (cases s; cases "tl s") (auto simp: ref_after_iff numeral_2_eq_2)
  have 3: "s \<noteq> [] \<and> ascii_alpha (hd s) \<and> ref_after (\<lambda>c. ascii_alpha c \<or> ascii_digit c) s \<longleftrightarrow>
      (\<exists>w t. s = w @ CHR '';'' # t \<and> w \<noteq> [] \<and> ascii_alpha (hd w) \<and> list_all (\<lambda>c. ascii_alpha c \<or> ascii_digit c) w)"
    by (auto simp: ref_after_iff)
  show ?thesis
  proof
    assume "is_ref s"
    then consider ds t where "s = (CHR ''#'' # ds) @ CHR '';'' # t" "ref_word (CHR ''#'' # ds)"
      | ds t where "s = (CHR ''#'' # CHR ''x'' # ds) @ CHR '';'' # t" "ref_word (CHR ''#'' # CHR ''x'' # ds)"
      | w t where "s = w @ CHR '';'' # t" "ref_word w"
      unfolding is_ref_def 1 2 3 by (auto simp: ref_word_def)
    then show "\<exists>w t. s = w @ CHR '';'' # t \<and> ref_word w" by cases blast+
  next
    assume "\<exists>w t. s = w @ CHR '';'' # t \<and> ref_word w"
    then obtain w t where s: "s = w @ CHR '';'' # t" and "ref_word w" by blast
    then consider ds where "w = CHR ''#'' # ds" "ds \<noteq> []" "list_all ascii_digit ds"
      | ds where "w = CHR ''#'' # CHR ''x'' # ds" "ds \<noteq> []" "list_all is_hex ds"
      | "w \<noteq> []" "ascii_alpha (hd w)" "list_all (\<lambda>c. ascii_alpha c \<or> ascii_digit c) w"
      by (auto simp: ref_word_def)
    then show "is_ref s"
    proof cases
      case 1
      with s show ?thesis unfolding is_ref_def \<open>take 1 s = _ \<and> _ \<longleftrightarrow> _\<close> by auto
    next
      case 2
      with s show ?thesis unfolding is_ref_def \<open>take 2 s = _ \<and> _ \<longleftrightarrow> _\<close> by auto
    next
      case 3
      with s show ?thesis unfolding is_ref_def \<open>s \<noteq> [] \<and> _ \<and> _ \<longleftrightarrow> _\<close> by blast
    qed
  qed
qed

lemma ref_word_plain:
  assumes "ref_word w" and "c \<in> set w"
  shows "c \<noteq> CHR ''&'' \<and> c \<noteq> lt \<and> c \<noteq> gt"
proof -
  have "ascii_digit c \<or> is_hex c \<or> ascii_alpha c \<or> c = CHR ''#'' \<or> c = CHR ''x''"
    using assms by (auto simp: ref_word_def list_all_iff)
  then show ?thesis
    by (auto simp: ascii_digit_def is_hex_def hex_value_def ascii_alpha_def Let_def)
qed

lemma escapeText_word:
  "(\<And>c. c \<in> set w \<Longrightarrow> c \<noteq> CHR ''&'' \<and> c \<noteq> lt \<and> c \<noteq> gt) \<Longrightarrow> escapeText (w @ s) = w @ escapeText s"
  by (induction w) (simp_all add: escapeText_Cons)

text \<open>Text that escaping leaves alone: references are whole, and there are no angle brackets.\<close>

fun refs_ok :: "string \<Rightarrow> bool" where
  "refs_ok [] = True"
| "refs_ok (c # s) = ((c = CHR ''&'' \<longrightarrow> is_ref s) \<and> refs_ok s)"

definition clean_text :: "string \<Rightarrow> bool" where
  "clean_text s \<longleftrightarrow> refs_ok s \<and> lt \<notin> set s \<and> gt \<notin> set s"

lemma is_ref_append: "is_ref s \<Longrightarrow> is_ref (s @ t)"
  unfolding is_ref_iff by (metis append_Cons append_assoc)

lemma refs_ok_append: "refs_ok s \<Longrightarrow> refs_ok t \<Longrightarrow> refs_ok (s @ t)"
  by (induction s) (auto simp: is_ref_append)

lemma clean_text_append: "clean_text s \<Longrightarrow> clean_text t \<Longrightarrow> clean_text (s @ t)"
  by (simp add: clean_text_def refs_ok_append)

lemma clean_text_Nil [simp]: "clean_text []"
  by (simp add: clean_text_def)

lemma is_ref_escape: "is_ref s \<Longrightarrow> is_ref (escapeText s)"
proof -
  assume "is_ref s"
  then obtain w t where s: "s = w @ CHR '';'' # t" and w: "ref_word w" by (auto simp: is_ref_iff)
  have "escapeText s = w @ CHR '';'' # escapeText t"
    unfolding s using ref_word_plain [OF w] by (subst escapeText_word) (auto simp: escapeText_Cons)
  with w show ?thesis by (auto simp: is_ref_iff)
qed

lemma is_ref_names [simp]: "is_ref (''amp;'' @ s)" "is_ref (''lt;'' @ s)" "is_ref (''gt;'' @ s)"
proof -
  have w: "ref_word ''amp''" "ref_word ''lt''" "ref_word ''gt''"
    by (simp_all add: ref_word_def ascii_alpha_def)
  show "is_ref (''amp;'' @ s)" unfolding is_ref_iff by (rule exI [of _ "''amp''"]) (use w in auto)
  show "is_ref (''lt;'' @ s)" unfolding is_ref_iff by (rule exI [of _ "''lt''"]) (use w in auto)
  show "is_ref (''gt;'' @ s)" unfolding is_ref_iff by (rule exI [of _ "''gt''"]) (use w in auto)
qed

lemma escapeText_clean: "clean_text (escapeText s)"
proof (induction s)
  case (Cons c s)
  then show ?case
    using is_ref_escape [of s] is_ref_names [of "escapeText s"]
    by (auto simp: clean_text_def escapeText_Cons simp del: is_ref_names)
qed simp

lemma escapeText_id: "clean_text s \<Longrightarrow> escapeText s = s"
  by (induction s) (auto simp: clean_text_def escapeText_Cons)

section \<open>Decoding an escaped value\<close>

text \<open>
  A pass that matches an encoded character as a whole, or nowhere in it, acts on an
  encoded text character by character.
\<close>

definition block_pass :: "(string \<Rightarrow> (string \<times> nat) option) \<Rightarrow> string \<Rightarrow> string \<Rightarrow> bool" where
  "block_pass m b b' \<longleftrightarrow>
     (\<forall>s. (b \<noteq> [] \<and> m (b @ s) = Some (b', length b)) \<or>
          (b' = b \<and> (\<forall>x y. b = x @ y \<longrightarrow> y \<noteq> [] \<longrightarrow> m (y @ s) = None)))"

lemma replace_at_skip: "replace_at m (length b) (b @ s) = replace_at m 0 s"
  by (induction b) simp_all

lemma replace_at_none:
  "(\<And>x y. b = x @ y \<Longrightarrow> y \<noteq> [] \<Longrightarrow> m (y @ s) = None) \<Longrightarrow> replace_at m 0 (b @ s) = b @ replace_at m 0 s"
proof (induction b)
  case (Cons c b)
  from Cons.prems [of "[]" "c # b"] have "m (c # b @ s) = None" by simp
  moreover have "replace_at m 0 (b @ s) = b @ replace_at m 0 s"
    by (rule Cons.IH) (use Cons.prems in \<open>metis append_Cons\<close>)
  ultimately show ?case by simp
qed simp

lemma replace_block:
  assumes "block_pass m b b'"
  shows "replace_at m 0 (b @ s) = b' @ replace_at m 0 s"
proof -
  from assms consider "b \<noteq> []" "m (b @ s) = Some (b', length b)"
    | "b' = b" "\<And>x y. b = x @ y \<Longrightarrow> y \<noteq> [] \<Longrightarrow> m (y @ s) = None"
    unfolding block_pass_def by blast
  then show ?thesis
  proof cases
    case 1
    then obtain c t where b: "b = c # t" by (cases b) auto
    with 1 have "replace_at m 0 (b @ s) = b' @ replace_at m (length t) (t @ s)" by simp
    then show ?thesis by (simp add: replace_at_skip)
  next
    case 2
    then show ?thesis by (simp add: replace_at_none)
  qed
qed

lemma replace_blocks:
  assumes "\<And>c. block_pass m (f c) (g c)"
  shows "replace_at m 0 (concat (map f d)) = concat (map g d)"
proof (induction d)
  case (Cons c d)
  from replace_block [OF assms, of c] Cons show ?case by simp
qed simp

text \<open>Encodings that stop after each pass of the decoder.\<close>

definition enc_step :: "char list \<Rightarrow> char \<Rightarrow> string" where
  "enc_step done c = (if c \<in> set done then [c] else escape_char c)"

definition amp_match :: "(string \<Rightarrow> (string \<times> nat) option) \<Rightarrow> bool" where
  "amp_match m \<longleftrightarrow> (\<forall>c s. c \<noteq> CHR ''&'' \<longrightarrow> m (c # s) = None)"

lemma js_lower_amp: "js_lower_char c = CHR ''&'' \<longleftrightarrow> c = CHR ''&''"
proof
  assume a: "js_lower_char c = CHR ''&''"
  show "c = CHR ''&''"
  proof (rule ccontr)
    assume "c \<noteq> CHR ''&''"
    with a have "(of_char c :: nat) + 32 = of_char (CHR ''&'') \<and> 65 \<le> (of_char c :: nat)
        \<or> 192 \<le> (of_char c :: nat) \<and> (of_char c :: nat) \<le> 222 \<and> (of_char c :: nat) + 32 = of_char (CHR ''&'')"
      by (auto simp: js_lower_char_def Let_def char_of_is split: if_splits)
    then show False by auto
  qed
qed (simp add: js_lower_char_def)

lemma amp_matches: "amp_match (match_decimal wide)" "amp_match (match_hex wide)" "amp_match (match_entity n r)"
  by (auto simp: amp_match_def match_decimal_def match_hex_def match_entity_def js_lower_amp)

text \<open>Only an encoded character starts with an ampersand, and it holds no other.\<close>

lemma block_pass_keep:
  assumes "amp_match m" and "CHR ''&'' \<notin> set (tl b)" and "\<And>s. b = CHR ''&'' # tl b \<Longrightarrow> m (b @ s) = None"
  shows "block_pass m b b"
  unfolding block_pass_def
proof (intro allI disjI2 conjI impI refl)
  fix s x y
  assume b: "b = x @ y" and "y \<noteq> []"
  then obtain c t where y: "y = c # t" by (cases y) auto
  show "m (y @ s) = None"
  proof (cases "c = CHR ''&''")
    case False
    with assms(1) show ?thesis by (simp add: y amp_match_def)
  next
    case True
    with assms(2) b y have "x = []" by (cases x) auto
    with b y True assms(3) [of s] show ?thesis by simp
  qed
qed

lemma block_pass_take: "b \<noteq> [] \<Longrightarrow> (\<And>s. m (b @ s) = Some (b', length b)) \<Longrightarrow> block_pass m b b'"
  by (simp add: block_pass_def)

lemma js_lower_semi: "js_lower_char (CHR '';'') = CHR '';''"
  by (simp add: js_lower_char_def)

lemma escape_char_cases:
  obtains "c = CHR ''&''" "escape_char c = ''&amp;''" | "c = lt" "escape_char c = ''&lt;''"
  | "c = gt" "escape_char c = ''&gt;''" | "c = dquote" "escape_char c = ''&quot;''"
  | "c = squote" "escape_char c = ''&#39;''"
  | "escape_char c = [c]" "c \<noteq> CHR ''&''" "c \<notin> {lt, gt, dquote, squote}"
  by (auto simp: escape_char_def)

lemma dec_pass: "block_pass (match_decimal wide) (escape_char c) (enc_step [squote] c)"
proof (cases c rule: escape_char_cases)
  case 5
  have "match_decimal wide (''&#39;'' @ s) = Some ([squote], 5)" for s
    by (simp add: match_decimal_def ascii_digit_def Let_def dec_value_def semi_def codePoint_def char_of_is)
  with 5 show ?thesis by (intro block_pass_take) (simp_all add: enc_step_def)
qed (auto simp: enc_step_def amp_matches match_decimal_def intro!: block_pass_keep)

lemma hex_pass: "block_pass (match_hex wide) (enc_step [squote] c) (enc_step [squote] c)"
  by (cases c rule: escape_char_cases)
    (auto simp: enc_step_def amp_matches match_hex_def numeral_eq_Suc intro!: block_pass_keep)

lemma quot_pass:
  "block_pass (match_entity ''quot'' [dquote]) (enc_step [squote] c) (enc_step [squote, dquote] c)"
proof (cases c rule: escape_char_cases)
  case 4
  have "match_entity ''quot'' [dquote] (''&quot;'' @ s) = Some ([dquote], 6)" for s
    by (simp add: match_entity_def js_lower_char_def)
  with 4 show ?thesis by (intro block_pass_take) (simp_all add: enc_step_def)
qed (auto simp: enc_step_def amp_matches match_entity_def js_lower_char_def intro!: block_pass_keep)

lemma apos_pass:
  "block_pass (match_entity ''apos'' [squote]) (enc_step [squote, dquote] c) (enc_step [squote, dquote] c)"
  by (cases c rule: escape_char_cases)
    (auto simp: enc_step_def amp_matches match_entity_def js_lower_char_def intro!: block_pass_keep)

lemma lt_pass:
  "block_pass (match_entity ''lt'' ''<'') (enc_step [squote, dquote] c) (enc_step [squote, dquote, lt] c)"
proof (cases c rule: escape_char_cases)
  case 2
  have "match_entity ''lt'' ''<'' (''&lt;'' @ s) = Some (''<'', 4)" for s
    by (simp add: match_entity_def js_lower_char_def)
  with 2 show ?thesis by (intro block_pass_take) (simp_all add: enc_step_def)
qed (auto simp: enc_step_def amp_matches match_entity_def js_lower_char_def intro!: block_pass_keep)

lemma gt_pass:
  "block_pass (match_entity ''gt'' ''>'') (enc_step [squote, dquote, lt] c) (enc_step [squote, dquote, lt, gt] c)"
proof (cases c rule: escape_char_cases)
  case 3
  have "match_entity ''gt'' ''>'' (''&gt;'' @ s) = Some (''>'', 4)" for s
    by (simp add: match_entity_def js_lower_char_def)
  with 3 show ?thesis by (intro block_pass_take) (simp_all add: enc_step_def)
qed (auto simp: enc_step_def amp_matches match_entity_def js_lower_char_def intro!: block_pass_keep)

lemma amp_pass: "block_pass (match_entity ''amp'' ''&'') (enc_step [squote, dquote, lt, gt] c) [c]"
proof (cases c rule: escape_char_cases)
  case 1
  have "match_entity ''amp'' ''&'' (''&amp;'' @ s) = Some (''&'', 5)" for s
    by (simp add: match_entity_def js_lower_char_def)
  with 1 show ?thesis by (intro block_pass_take) (simp_all add: enc_step_def)
next
  case 6
  then show ?thesis
    by (auto simp: enc_step_def amp_matches match_entity_def js_lower_char_def intro!: block_pass_keep)
qed (auto simp: enc_step_def amp_matches match_entity_def js_lower_char_def intro!: block_pass_keep)

lemma decode_escape: "decodeAttributeValue wide (escapeHtml d) = js_trim d"
proof -
  have "concat (map (\<lambda>c. [c]) d) = d" by (induction d) simp_all
  then show ?thesis
    by (simp add: decodeAttributeValue_def escapeHtml_one_pass replace_blocks [OF dec_pass]
        replace_blocks [OF hex_pass] replace_blocks [OF quot_pass] replace_blocks [OF apos_pass]
        replace_blocks [OF lt_pass] replace_blocks [OF gt_pass] replace_blocks [OF amp_pass])
qed

section \<open>The attribute text\<close>

text \<open>A name as the tables have them, and an attribute the sanitizer would keep.\<close>

definition attr_name_ok :: "string \<Rightarrow> bool" where
  "attr_name_ok n \<longleftrightarrow> n \<noteq> [] \<and> attr_start (hd n) \<and> list_all attr_char n \<and> js_lower n = n"

definition attr_ok :: "(string \<Rightarrow> bool) \<Rightarrow> sanitize_opts \<Rightarrow> string \<Rightarrow> string \<times> string \<Rightarrow> bool" where
  "attr_ok valid opts tag nd \<longleftrightarrow>
     (case ALLOWED_ATTRIBUTES tag of
        None \<Rightarrow> False
      | Some allowed \<Rightarrow> keep_attr valid opts tag allowed (fst nd) (snd nd)) \<and> js_trim (snd nd) = snd nd"

lemma allowed_attr_names:
  assumes "ALLOWED_ATTRIBUTES tag = Some allowed" and "n \<in> set allowed"
  shows "attr_name_ok n"
proof -
  have "list_all (list_all attr_name_ok)
     [[''data-mx-bg-color'', ''data-mx-color'', ''color''],
      [''data-mx-bg-color'', ''data-mx-color'', ''data-mx-spoiler'', ''data-mx-maths'',
                  ''data-msc4286-external-payment-details''],
      [''name'', ''target'', ''href''], [''width'', ''height'', ''alt'', ''title'', ''src''], [''start''], [''class''],
      [''data-mx-maths'']]"
    by code_simp
  with assms show ?thesis
    by (auto simp: ALLOWED_ATTRIBUTES_def list_all_iff split: if_splits)
qed

lemma attr_ok_name: "attr_ok valid opts tag nd \<Longrightarrow> attr_name_ok (fst nd)"
  by (auto simp: attr_ok_def keep_attr_def split: option.splits if_splits intro: allowed_attr_names)

lemma decode_trimmed: "js_trim (decodeAttributeValue wide v) = decodeAttributeValue wide v"
  by (simp add: decodeAttributeValue_def)

lemma kept_attrs_ok: "list_all (attr_ok valid opts tag) (kept_attrs wide valid opts tag raw)"
  by (auto simp: kept_attrs_def attr_ok_def list_all_iff decode_trimmed split: option.split)

lemma attr_char_plain:
  assumes "attr_char c"
  shows "c \<noteq> gt \<and> c \<noteq> lt \<and> c \<noteq> dquote \<and> c \<noteq> squote \<and> c \<noteq> CHR ''='' \<and> c \<noteq> CHR '' '' \<and> \<not> js_space c"
  using assms by (auto simp: attr_char_def attr_start_def ascii_alpha_def ascii_digit_def js_space_def Let_def)

lemma escaped_plain:
  assumes "c \<in> set (escapeHtml d)"
  shows "c \<noteq> gt \<and> c \<noteq> lt \<and> c \<noteq> dquote \<and> c \<noteq> squote"
  using assms escapeHtml_safe [of d] by (auto simp: html_special_def)

lemma takeWhile_quote:
  assumes "dquote \<notin> set v"
  shows "takeWhile (\<lambda>d. d \<noteq> dquote) (v @ dquote # s) = v" and "dropWhile (\<lambda>d. d \<noteq> dquote) (v @ dquote # s) = dquote # s"
proof -
  have "\<And>x. x \<in> set v \<Longrightarrow> x \<noteq> dquote" using assms by blast
  then show "takeWhile (\<lambda>d. d \<noteq> dquote) (v @ dquote # s) = v" and "dropWhile (\<lambda>d. d \<noteq> dquote) (v @ dquote # s) = dquote # s"
    by (simp_all add: takeWhile_append2 dropWhile_append2)
qed

text \<open>The scanner reads back what the sanitizer writes.\<close>

lemma match_attr_text:
  assumes "attr_name_ok n"
  shows "match_attr (attr_text (n, d) @ s) = Some (n, escapeHtml d, s)"
proof -
  have n: "n \<noteq> []" "attr_start (hd n)" "\<And>c. c \<in> set n \<Longrightarrow> attr_char c"
    using assms by (auto simp: attr_name_ok_def list_all_iff)
  have e: "\<not> attr_char (CHR ''='')"
    by (simp add: attr_char_def attr_start_def ascii_alpha_def ascii_digit_def)
  have q: "dquote \<notin> set (escapeHtml d)" using escaped_plain by blast
  obtain c n' where c: "n = c # n'" using n(1) by (cases n) auto
  have "takeWhile attr_char (n @ CHR ''='' # r) = n" and "dropWhile attr_char (n @ CHR ''='' # r) = CHR ''='' # r" for r
    using n(3) e by (simp_all add: takeWhile_append2 dropWhile_append2)
  then show ?thesis
    using n(2) takeWhile_quote [OF q, of s]
    by (simp add: match_attr_def attr_text_def c match_value_def js_space_def)
qed

lemma scan_attrs_space: "scan_attrs (CHR '' '' # s) = scan_attrs s"
  by (subst scan_attrs.simps)
    (simp add: match_attr_def attr_start_def ascii_alpha_def split: list.split)

lemma scan_attrs_text:
  assumes "attr_name_ok n"
  shows "scan_attrs (attr_text (n, d) @ s) = (n, escapeHtml d) # scan_attrs s"
proof -
  obtain c t where c: "attr_text (n, d) @ s = c # t"
    by (cases "attr_text (n, d) @ s") (auto simp: attr_text_def)
  show ?thesis
    using match_attr_text [OF assms, of d s] unfolding c by (subst scan_attrs.simps) simp
qed

lemma attrs_text_Cons: "attrs_text (nd # as) = CHR '' '' # attr_text nd @ attrs_text as"
  by (cases as) (simp_all add: attrs_text_def)

lemma attrs_text_Nil [simp]: "attrs_text [] = []"
  by (simp add: attrs_text_def)

lemma scan_attrs_texts:
  "list_all (\<lambda>nd. attr_name_ok (fst nd)) as \<Longrightarrow> scan_attrs (attrs_text as) = map (\<lambda>(n, d). (n, escapeHtml d)) as"
proof (induction as)
  case (Cons nd as)
  obtain n d where "nd = (n, d)" by fastforce
  with Cons show ?case by (simp add: attrs_text_Cons scan_attrs_space scan_attrs_text)
qed simp

lemma kept_attrs_texts:
  assumes "list_all (attr_ok valid opts tag) as"
  shows "kept_attrs wide valid opts tag (attrs_text as) = as"
proof (cases "ALLOWED_ATTRIBUTES tag")
  case None
  with assms show ?thesis by (cases as) (simp_all add: kept_attrs_def attr_ok_def)
next
  case (Some allowed)
  have names: "list_all (\<lambda>nd. attr_name_ok (fst nd)) as"
    using assms by (auto simp: list_all_iff dest: attr_ok_name)
  have "map (\<lambda>(n, v). (js_lower n, decodeAttributeValue wide v)) (map (\<lambda>(n, d). (n, escapeHtml d)) as) = as"
    using assms names
    by (induction as) (auto simp: decode_escape attr_ok_def attr_name_ok_def)
  with assms Some show ?thesis
    by (simp add: kept_attrs_def scan_attrs_texts [OF names])
      (simp add: filter_id_conv list_all_iff attr_ok_def split_beta)
qed

text \<open>The tag scan passes over it.\<close>

lemma scan_body_plain:
  "(\<And>c. c \<in> set w \<Longrightarrow> c \<noteq> gt \<and> c \<noteq> dquote \<and> c \<noteq> squote) \<Longrightarrow>
     scan_body None (w @ s) = map_option (\<lambda>(b, r). (w @ b, r)) (scan_body None s)"
  by (induction w; cases "scan_body None s") auto

lemma scan_body_quoted:
  "dquote \<notin> set v \<Longrightarrow>
     scan_body (Some dquote) (v @ dquote # s) = map_option (\<lambda>(b, r). (v @ dquote # b, r)) (scan_body None s)"
  by (induction v; cases "scan_body None s") auto

lemma scan_body_attr:
  assumes "attr_name_ok n"
  shows "scan_body None (CHR '' '' # attr_text (n, d) @ s) =
    map_option (\<lambda>(b, r). (CHR '' '' # attr_text (n, d) @ b, r)) (scan_body None s)"
proof -
  have w: "c \<in> set (CHR '' '' # n @ [CHR ''='']) \<Longrightarrow> c \<noteq> gt \<and> c \<noteq> dquote \<and> c \<noteq> squote" for c
    using assms attr_char_plain by (auto simp: attr_name_ok_def list_all_iff)
  have q: "dquote \<notin> set (escapeHtml d)" using escaped_plain by blast
  have "scan_body None ((CHR '' '' # n @ [CHR ''='']) @ dquote # escapeHtml d @ dquote # s) =
    map_option (\<lambda>(b, r). (CHR '' '' # attr_text (n, d) @ b, r)) (scan_body None s)"
    by (subst scan_body_plain [OF w], assumption, cases "scan_body None s")
      (auto simp: scan_body_quoted [OF q] attr_text_def)
  then show ?thesis by (simp add: attr_text_def)
qed

lemma scan_body_attrs:
  "list_all (\<lambda>nd. attr_name_ok (fst nd)) as \<Longrightarrow> scan_body None (attrs_text as @ gt # s) = Some (attrs_text as, s)"
proof (induction as)
  case (Cons nd as)
  obtain n d where "nd = (n, d)" by fastforce
  with Cons show ?case by (simp add: attrs_text_Cons scan_body_attr del: scan_body.simps)
qed simp

lemma attrs_text_last: "as \<noteq> [] \<Longrightarrow> last (attrs_text as) = dquote"
proof (induction as)
  case (Cons nd as)
  then show ?case by (cases "as = []") (simp_all add: attrs_text_Cons attr_text_def)
qed simp

section \<open>Pieces of output\<close>

datatype piece = P_text string | P_open string "(string \<times> string) list" | P_close string

fun render :: "piece \<Rightarrow> string" where
  "render (P_text s) = s"
| "render (P_open t as) = open_tag t (attrs_text as)"
| "render (P_close t) = close_tag t"

text \<open>A lower-case tag name as the tokenizer produces it.\<close>

definition tag_name :: "string \<Rightarrow> bool" where
  "tag_name t \<longleftrightarrow> t \<noteq> [] \<and> ascii_alpha (hd t) \<and> list_all name_char t \<and> js_lower t = t"

definition DANGEROUS :: "string set" where
  "DANGEROUS = {''script'', ''style'', ''iframe'', ''object''}"

fun piece_ok :: "(string \<Rightarrow> bool) \<Rightarrow> sanitize_opts \<Rightarrow> piece \<Rightarrow> bool" where
  "piece_ok valid opts (P_text s) = clean_text s"
| "piece_ok valid opts (P_open t as) =
     (tag_name t \<and> t \<in> allowed_tags opts \<and> t \<notin> DANGEROUS \<and> list_all (attr_ok valid opts t) as)"
| "piece_ok valid opts (P_close t) = (tag_name t \<and> t \<in> allowed_tags opts \<and> t \<notin> set VOID_TAGS)"

text \<open>
  The open tags after a sequence of pieces, when every close tag closes the innermost open
  one and no tag is opened at the depth limit.
\<close>

fun nest :: "int \<Rightarrow> string list \<Rightarrow> piece list \<Rightarrow> string list option" where
  "nest md st [] = Some st"
| "nest md st (P_text _ # ps) = nest md st ps"
| "nest md st (P_open t _ # ps) =
     (if md \<le> int (length st) then None else nest md (if t \<in> set VOID_TAGS then st else t # st) ps)"
| "nest md st (P_close t # ps) = (case st of [] \<Rightarrow> None | u # us \<Rightarrow> if u = t then nest md us ps else None)"

lemma nest_append: "nest md st (ps @ qs) = (case nest md st ps of None \<Rightarrow> None | Some st' \<Rightarrow> nest md st' qs)"
  by (induction md st ps rule: nest.induct) (auto split: list.split)

lemma nest_closes: "nest md (us @ st) (map P_close us) = Some st"
  by (induction us) simp_all

text \<open>The tokens a sequence of pieces reads as; adjacent texts are one token.\<close>

fun toks :: "string \<Rightarrow> piece list \<Rightarrow> token list" where
  "toks pre [] = text_token pre"
| "toks pre (P_text s # ps) = toks (pre @ s) ps"
| "toks pre (P_open t as # ps) = text_token pre @ T_open t (attrs_text as) (t \<in> set VOID_TAGS) # toks [] ps"
| "toks pre (P_close t # ps) = text_token pre @ T_close t # toks [] ps"

lemma tokenize_text: "lt \<notin> set s \<Longrightarrow> tokenize_from pre (s @ r) = tokenize_from (pre @ s) r"
proof (induction s arbitrary: pre)
  case (Cons c s)
  then have "c \<noteq> lt" by auto
  then have "match_tag (c # s @ r) = None" by (simp add: match_tag_def)
  with Cons show ?case by (simp add: tokenize_from.simps(2))
qed simp

lemma tokenize_match:
  "match_tag s = Some (t, r) \<Longrightarrow> tokenize_from pre s = text_token pre @ t # tokenize_from [] r"
  by (cases s) (simp_all add: tokenize_from.simps(2) match_tag_def [of "[]"])

lemma name_char_specials [simp]:
  "\<not> name_char gt" "\<not> name_char (CHR '' '')" "\<not> name_char slash" "\<not> ascii_alpha slash"
  by (simp_all add: name_char_def ascii_alpha_def ascii_digit_def)

lemma takeWhile_name:
  assumes "tag_name t" and "\<not> name_char c"
  shows "takeWhile name_char (t @ c # s) = t" and "dropWhile name_char (t @ c # s) = c # s"
  using assms by (simp_all add: tag_name_def list_all_iff takeWhile_append2 dropWhile_append2)

lemma match_name_scan:
  assumes "tag_name t" and "\<not> name_char c" and "scan_body None (c # s) = Some (b, r)"
  shows "match_name k (t @ c # s) = Some (tag_token k t b, r)"
proof -
  obtain d t' where "t = d # t'" using assms(1) by (cases t) (auto simp: tag_name_def)
  with assms takeWhile_name [OF assms(1,2), of s] show ?thesis
    by (simp add: match_name_def tag_name_def)
qed

lemma tag_name_not_slash: "tag_name t \<Longrightarrow> \<exists>d t'. t = d # t' \<and> d \<noteq> slash"
  by (cases t) (auto simp: tag_name_def)

lemma attrs_text_first: "\<exists>c s. attrs_text as @ gt # r = c # s \<and> \<not> name_char c"
  by (cases as) (simp_all add: attrs_text_Cons)

lemma match_open:
  assumes "tag_name t" and "list_all (attr_ok valid opts t) as"
  shows "match_tag (render (P_open t as) @ r) = Some (T_open t (attrs_text as) (t \<in> set VOID_TAGS), r)"
proof -
  obtain c s where c: "attrs_text as @ gt # r = c # s" "\<not> name_char c"
    using attrs_text_first by blast
  have names: "list_all (\<lambda>nd. attr_name_ok (fst nd)) as"
    using assms(2) by (auto simp: list_all_iff dest: attr_ok_name)
  have "match_name False (t @ attrs_text as @ gt # r) = Some (tag_token False t (attrs_text as), r)"
    unfolding c(1) by (rule match_name_scan [OF assms(1) c(2)]) (use scan_body_attrs [OF names, of r] c in simp)
  moreover have "tag_token False t (attrs_text as) = T_open t (attrs_text as) (t \<in> set VOID_TAGS)"
    using assms(1) attrs_text_last [of as] by (cases "as = []") (auto simp: tag_token_def tag_name_def)
  ultimately show ?thesis
    using tag_name_not_slash [OF assms(1)] by (auto simp: match_tag_def open_tag_def)
qed

lemma match_close:
  assumes "tag_name t"
  shows "match_tag (render (P_close t) @ r) = Some (T_close t, r)"
proof -
  have "match_name True (t @ gt # r) = Some (tag_token True t [], r)"
    by (rule match_name_scan [OF assms]) simp_all
  moreover have "tag_token True t [] = T_close t" using assms by (simp add: tag_token_def tag_name_def)
  ultimately show ?thesis by (simp add: match_tag_def close_tag_def)
qed

text \<open>Reading a sequence of pieces gives the pieces.\<close>

lemma tokenize_pieces:
  "list_all (piece_ok valid opts) ps \<Longrightarrow> tokenize_from pre (concat (map render ps)) = toks pre ps"
proof (induction pre ps rule: toks.induct)
  case (2 pre s ps)
  then show ?case by (simp add: tokenize_text clean_text_def)
next
  case (3 pre t as ps)
  then have "match_tag (concat (map render (P_open t as # ps))) =
      Some (T_open t (attrs_text as) (t \<in> set VOID_TAGS), concat (map render ps))"
    using match_open [of t valid opts as "concat (map render ps)"] by (simp del: render.simps)
  from tokenize_match [OF this] 3 show ?case by simp
next
  case (4 pre t ps)
  then have "match_tag (concat (map render (P_close t # ps))) = Some (T_close t, concat (map render ps))"
    using match_close [of t "concat (map render ps)"] by (simp del: render.simps)
  from tokenize_match [OF this] 4 show ?case by simp
qed simp

section \<open>The loop\<close>

definition token_name_ok :: "token \<Rightarrow> bool" where
  "token_name_ok tok = (case tok of T_text _ \<Rightarrow> True | T_open t _ _ \<Rightarrow> tag_name t | T_close t \<Rightarrow> tag_name t)"

lemma of_char_lower:
  "(of_char (js_lower_char c) :: nat) =
     (let n = of_char c in if (65 \<le> n \<and> n \<le> 90) \<or> (192 \<le> n \<and> n \<le> 222 \<and> n \<noteq> 215) then n + 32 else n)"
  by (simp add: js_lower_char_def Let_def)

lemma js_lower_char_idem [simp]: "js_lower_char (js_lower_char c) = js_lower_char c"
proof -
  have "(of_char (js_lower_char (js_lower_char c)) :: nat) = of_char (js_lower_char c)"
    by (simp only: of_char_lower Let_def) (simp split: if_splits)
  then show ?thesis by (simp only: of_char_eq_iff)
qed

lemma js_lower_alpha: "ascii_alpha c \<Longrightarrow> ascii_alpha (js_lower_char c)"
  unfolding ascii_alpha_def Let_def of_char_lower by (auto split: if_splits)

lemma js_lower_name_char: "name_char c \<Longrightarrow> name_char (js_lower_char c)"
proof (cases "ascii_alpha c")
  case True
  then show ?thesis by (simp add: name_char_def js_lower_alpha)
next
  case False
  assume "name_char c"
  with False have "js_lower_char c = c"
    by (auto simp: name_char_def ascii_digit_def js_lower_char_def Let_def)
  with \<open>name_char c\<close> show ?thesis by simp
qed

lemma tag_name_read: "ascii_alpha c \<Longrightarrow> tag_name (js_lower (takeWhile name_char (c # s)))"
proof -
  assume c: "ascii_alpha c"
  then have "name_char c" by (simp add: name_char_def)
  then have r: "js_lower (takeWhile name_char (c # s)) = js_lower_char c # js_lower (takeWhile name_char s)"
    by (simp add: js_lower_def)
  have "list_all name_char (js_lower (takeWhile name_char (c # s)))"
    by (auto simp: list_all_iff js_lower_def simp del: takeWhile.simps dest!: set_takeWhileD intro: js_lower_name_char)
  moreover have "js_lower (js_lower u) = js_lower u" for u by (simp add: js_lower_def comp_def)
  moreover have "js_lower (d # u) = js_lower_char d # js_lower u" for d u by (simp add: js_lower_def)
  ultimately show ?thesis unfolding tag_name_def by (simp add: r js_lower_alpha c del: takeWhile.simps)
qed

lemma match_name_ok: "match_name k s = Some (t, r) \<Longrightarrow> token_name_ok t"
proof (cases s)
  case (Cons c s')
  assume m: "match_name k s = Some (t, r)"
  then have c: "ascii_alpha c" by (simp add: Cons match_name_def split: if_splits)
  from m obtain b where "t = tag_token k (takeWhile name_char (c # s')) b"
    by (simp add: Cons c match_name_def del: takeWhile.simps dropWhile.simps split: option.splits) auto
  with tag_name_read [OF c, of s'] show ?thesis
    by (simp add: tag_token_def token_name_ok_def Let_def del: takeWhile.simps)
qed (simp add: match_name_def)

lemma tokenize_names: "list_all token_name_ok (tokenize_from pre s)"
proof (induction pre s rule: tokenize_from.induct)
  case (1 pre)
  then show ?case by (simp add: text_token_def token_name_ok_def)
next
  case (2 pre c s)
  show ?case
  proof (cases "match_tag (c # s)")
    case None
    with 2 show ?thesis by (simp add: tokenize_from.simps(2))
  next
    case (Some tr)
    obtain t r where tr: "tr = (t, r)" by fastforce
    have "token_name_ok t"
      using Some tr by (auto simp: match_tag_def split: list.splits if_splits intro: match_name_ok)
    with 2 Some tr show ?thesis
      by (simp add: tokenize_match text_token_def token_name_ok_def [of "T_text _"])
  qed
qed

text \<open>
  The invariant: the output is a list of proper pieces, the open tags are proper, and, as
  long as no token is a self-closing tag other than a void one, the nesting of the pieces
  is the stack.
\<close>

definition plain_token :: "token \<Rightarrow> bool" where
  "plain_token tok = (case tok of T_open t _ sc \<Rightarrow> sc \<longrightarrow> t \<in> set VOID_TAGS | _ \<Rightarrow> True)"

definition stack_ok :: "sanitize_opts \<Rightarrow> string list \<Rightarrow> bool" where
  "stack_ok opts st = list_all (\<lambda>t. tag_name t \<and> t \<in> allowed_tags opts \<and> t \<notin> set VOID_TAGS) st"

definition san_inv :: "(string \<Rightarrow> bool) \<Rightarrow> sanitize_opts \<Rightarrow> bool \<Rightarrow> san \<Rightarrow> bool" where
  "san_inv valid opts plain s \<longleftrightarrow>
     stack_ok opts (sn_open s) \<and>
     (\<exists>ps. sn_out s = map render ps \<and> list_all (piece_ok valid opts) ps \<and>
       (plain \<longrightarrow> nest (maxDepth_of opts) [] ps = Some (sn_open s)))"

lemma san_inv_out:
  assumes "san_inv valid opts plain s" and "list_all (piece_ok valid opts) qs" and "stack_ok opts st"
    and "plain \<Longrightarrow> nest (maxDepth_of opts) (sn_open s) qs = Some st"
  shows "san_inv valid opts plain (s\<lparr>sn_out := sn_out s @ map render qs, sn_open := st\<rparr>)"
proof -
  from assms(1) obtain ps where ps: "sn_out s = map render ps" "list_all (piece_ok valid opts) ps"
    "plain \<longrightarrow> nest (maxDepth_of opts) [] ps = Some (sn_open s)"
    by (auto simp: san_inv_def)
  have "plain \<longrightarrow> nest (maxDepth_of opts) [] (ps @ qs) = Some st"
    using ps(3) assms(4) by (simp add: nest_append)
  with ps assms(2,3) show ?thesis
    by (auto simp: san_inv_def intro!: exI [of _ "ps @ qs"])
qed

lemma san_inv_fields:
  "san_inv valid opts plain (s\<lparr>sn_depth := n\<rparr>) = san_inv valid opts plain s"
  "san_inv valid opts plain (s\<lparr>sn_tag := t\<rparr>) = san_inv valid opts plain s"
  by (simp_all add: san_inv_def)

lemma stack_split:
  assumes "t \<in> set st"
  shows "st = takeWhile (\<lambda>u. u \<noteq> t) st @ t # tl (dropWhile (\<lambda>u. u \<noteq> t) st)"
proof -
  have ne: "dropWhile (\<lambda>u. u \<noteq> t) st \<noteq> []" using assms by (simp add: dropWhile_eq_Nil_conv)
  then have "hd (dropWhile (\<lambda>u. u \<noteq> t) st) = t" using hd_dropWhile [of "\<lambda>u. u \<noteq> t" st] by simp
  with ne have "dropWhile (\<lambda>u. u \<noteq> t) st = t # tl (dropWhile (\<lambda>u. u \<noteq> t) st)" by (metis list.collapse)
  then show ?thesis by (metis takeWhile_dropWhile_id)
qed

lemma san_inv_step:
  assumes inv: "san_inv valid opts plain s" and name: "token_name_ok tok" and "plain \<Longrightarrow> plain_token tok"
  shows "san_inv valid opts plain (san_step wide valid opts tok s)"
proof (cases "0 < sn_depth s")
  case True
  with inv show ?thesis
    by (auto simp: san_step_def suppress_step_def san_inv_fields Let_def split: token.split)
next
  case False
  have stack: "stack_ok opts (sn_open s)" using inv by (simp add: san_inv_def)
  show ?thesis
  proof (cases tok)
    case (T_text raw)
    have "san_inv valid opts plain (s\<lparr>sn_out := sn_out s @ map render [P_text (escapeText raw)], sn_open := sn_open s\<rparr>)"
      by (rule san_inv_out [OF inv]) (simp_all add: escapeText_clean stack)
    with False T_text show ?thesis by (simp add: san_step_def)
  next
    case (T_open t raw sc)
    have t: "tag_name t" using name by (simp add: T_open token_name_ok_def)
    show ?thesis
    proof (cases "t \<in> DANGEROUS \<or> t \<notin> allowed_tags opts \<or> maxDepth_of opts \<le> int (length (sn_open s))")
      case True
      with False inv show ?thesis
        by (auto simp: san_step_def T_open open_step_def DANGEROUS_def san_inv_fields)
    next
      case ok: False
      let ?as = "kept_attrs wide valid opts t raw"
      let ?st = "if sc \<or> t \<in> set VOID_TAGS then sn_open s else t # sn_open s"
      have "san_inv valid opts plain (s\<lparr>sn_out := sn_out s @ map render [P_open t ?as], sn_open := ?st\<rparr>)"
      proof (rule san_inv_out [OF inv])
        show "list_all (piece_ok valid opts) [P_open t ?as]"
          using ok t by (simp add: kept_attrs_ok)
        show "stack_ok opts ?st" using stack ok t by (simp add: stack_ok_def)
        assume plain
        then have "sc \<longrightarrow> t \<in> set VOID_TAGS" using assms(3) by (simp add: T_open plain_token_def)
        then show "nest (maxDepth_of opts) (sn_open s) [P_open t ?as] = Some ?st" using ok by auto
      qed
      moreover have "s\<lparr>sn_out := sn_out s @ map render [P_open t ?as], sn_open := ?st\<rparr> = san_step wide valid opts tok s"
        using ok False by (simp add: san_step_def T_open open_step_def DANGEROUS_def sanitizeAttributes_def)
      ultimately show ?thesis by simp
    qed
  next
    case (T_close t)
    have t: "tag_name t" using name by (simp add: T_close token_name_ok_def)
    show ?thesis
    proof (cases "t \<notin> allowed_tags opts \<or> t \<in> set VOID_TAGS \<or> t \<notin> set (sn_open s)")
      case True
      with False inv show ?thesis by (auto simp: san_step_def T_close close_step_def)
    next
      case ok: False
      let ?us = "takeWhile (\<lambda>u. u \<noteq> t) (sn_open s) @ [t]"
      let ?st = "tl (dropWhile (\<lambda>u. u \<noteq> t) (sn_open s))"
      have split: "sn_open s = ?us @ ?st" using stack_split [of t "sn_open s"] ok by simp
      have "stack_ok opts ?us" and st: "stack_ok opts ?st"
        using stack unfolding stack_ok_def by (subst (asm) split, simp)+
      then have "san_inv valid opts plain (s\<lparr>sn_out := sn_out s @ map render (map P_close ?us), sn_open := ?st\<rparr>)"
        using nest_closes [of "maxDepth_of opts" ?us ?st, folded split]
        by (intro san_inv_out [OF inv]) (auto simp: stack_ok_def list_all_iff)
      with ok False show ?thesis by (simp add: san_step_def T_close close_step_def comp_def)
    qed
  qed
qed

lemma san_inv_fold:
  "list_all token_name_ok ts \<Longrightarrow> plain \<longrightarrow> list_all plain_token ts \<Longrightarrow> san_inv valid opts plain s \<Longrightarrow>
     san_inv valid opts plain (fold (san_step wide valid opts) ts s)"
  by (induction ts arbitrary: s) (simp_all add: san_inv_step)

lemma san_inv_start: "san_inv valid opts plain san_start"
  by (simp add: san_inv_def san_start_def stack_ok_def)

lemma san_inv_html:
  "plain \<longrightarrow> list_all plain_token (tokenize h) \<Longrightarrow>
     san_inv valid opts plain (fold (san_step wide valid opts) (tokenize h) san_start)"
  using tokenize_names [of "[]" h] by (intro san_inv_fold) (simp_all add: san_inv_start tokenize_def)

text \<open>The result as pieces; reading them finds no self-closing tag but the void ones.\<close>

lemma san_result_pieces:
  assumes "san_inv valid opts plain s"
  obtains ps where "san_result s = concat (map render ps)" and "list_all (piece_ok valid opts) ps"
    and "plain \<Longrightarrow> nest (maxDepth_of opts) [] ps = Some []"
proof -
  from assms obtain ps where ps: "sn_out s = map render ps" "list_all (piece_ok valid opts) ps"
    "plain \<longrightarrow> nest (maxDepth_of opts) [] ps = Some (sn_open s)" and st: "stack_ok opts (sn_open s)"
    by (auto simp: san_inv_def)
  have "plain \<Longrightarrow> nest (maxDepth_of opts) [] (ps @ map P_close (sn_open s)) = Some []"
    using ps(3) nest_closes [of "maxDepth_of opts" "sn_open s" "[]"] by (simp add: nest_append)
  moreover have "list_all (piece_ok valid opts) (ps @ map P_close (sn_open s))"
    using ps(2) st by (auto simp: stack_ok_def list_all_iff)
  moreover have "san_result s = concat (map render (ps @ map P_close (sn_open s)))"
    by (simp add: san_result_def ps(1) comp_def)
  ultimately show ?thesis using that by blast
qed

lemma toks_plain: "list_all plain_token (toks pre ps)"
  by (induction pre ps rule: toks.induct) (auto simp: plain_token_def text_token_def)

lemma no_max:
  "maxDepth_of (opts\<lparr>so_maxLength := n\<rparr>) = maxDepth_of opts"
  "piece_ok valid (opts\<lparr>so_maxLength := n\<rparr>) p = piece_ok valid opts p"
proof -
  have "keep_attr valid (opts\<lparr>so_maxLength := n\<rparr>) = keep_attr valid opts" by (intro ext) (simp add: keep_attr_def)
  then have "attr_ok valid (opts\<lparr>so_maxLength := n\<rparr>) = attr_ok valid opts" by (intro ext) (simp add: attr_ok_def split: option.split)
  then show "piece_ok valid (opts\<lparr>so_maxLength := n\<rparr>) p = piece_ok valid opts p"
    by (cases p) (simp_all add: allowed_tags_def)
qed (simp add: maxDepth_of_def)

lemma sanitize_pieces:
  obtains ps where "sanitizeMatrixHtml wide valid h (opts\<lparr>so_maxLength := None\<rparr>) = concat (map render ps)"
    and "list_all (piece_ok valid opts) ps"
    and "list_all plain_token (tokenize h) \<Longrightarrow> nest (maxDepth_of opts) [] ps = Some []"
proof -
  let ?o = "opts\<lparr>so_maxLength := None\<rparr>"
  have "san_inv valid ?o (list_all plain_token (tokenize h)) (fold (san_step wide valid ?o) (tokenize h) san_start)"
    by (rule san_inv_html) simp
  from san_result_pieces [OF this] obtain ps where
    "san_result (fold (san_step wide valid ?o) (tokenize h) san_start) = concat (map render ps)"
    "list_all (piece_ok valid ?o) ps"
    "list_all plain_token (tokenize h) \<Longrightarrow> nest (maxDepth_of ?o) [] ps = Some []" by blast
  then show ?thesis by (intro that) (simp_all add: sanitizeMatrixHtml_def no_max list_all_iff)
qed

section \<open>Sanitizing again\<close>

lemma text_step:
  assumes "clean_text pre" and "sn_depth s = 0"
  shows "fold (san_step wide valid opts) (text_token pre) s =
    (if pre = [] then s else s\<lparr>sn_out := sn_out s @ [pre]\<rparr>)"
  using assms by (simp add: text_token_def san_step_def escapeText_id)

lemma open_again:
  assumes "piece_ok valid opts (P_open t as)" and "int (length (sn_open s)) < maxDepth_of opts" and "sn_depth s = 0"
  shows "san_step wide valid opts (T_open t (attrs_text as) (t \<in> set VOID_TAGS)) s =
    s\<lparr>sn_out := sn_out s @ [render (P_open t as)],
      sn_open := if t \<in> set VOID_TAGS then sn_open s else t # sn_open s\<rparr>"
  using assms by (auto simp: san_step_def open_step_def DANGEROUS_def sanitizeAttributes_def kept_attrs_texts)

lemma close_again:
  assumes "piece_ok valid opts (P_close t)" and "sn_open s = t # us" and "sn_depth s = 0"
  shows "san_step wide valid opts (T_close t) s =
    s\<lparr>sn_out := sn_out s @ [render (P_close t)], sn_open := us\<rparr>"
  using assms by (auto simp: san_step_def close_step_def)

lemma pieces_again:
  "list_all (piece_ok valid opts) ps \<Longrightarrow> clean_text pre \<Longrightarrow> sn_depth s = 0 \<Longrightarrow>
   nest (maxDepth_of opts) (sn_open s) ps = Some st \<Longrightarrow>
     concat (sn_out (fold (san_step wide valid opts) (toks pre ps) s)) =
       concat (sn_out s) @ pre @ concat (map render ps) \<and>
     sn_open (fold (san_step wide valid opts) (toks pre ps) s) = st"
proof (induction pre ps arbitrary: s rule: toks.induct)
  case (1 pre)
  then show ?case by (simp add: text_step)
next
  case (2 pre r ps)
  then show ?case by (simp add: clean_text_append)
next
  case (3 pre t as ps)
  let ?s = "if pre = [] then s else s\<lparr>sn_out := sn_out s @ [pre]\<rparr>"
  have ok: "piece_ok valid opts (P_open t as)" and depth: "int (length (sn_open ?s)) < maxDepth_of opts"
    using "3.prems" by (auto split: if_splits)
  from open_again [OF ok depth, of wide] 3 show ?case by (auto simp: text_step split: if_splits)
next
  case (4 pre t ps)
  let ?s = "if pre = [] then s else s\<lparr>sn_out := sn_out s @ [pre]\<rparr>"
  obtain us where us: "sn_open ?s = t # us" and ok: "piece_ok valid opts (P_close t)"
    using "4.prems" by (auto split: list.splits if_splits)
  from close_again [OF ok us, of wide] 4 us show ?case by (auto simp: text_step split: if_splits)
qed

lemma sanitize_of_pieces:
  assumes "list_all (piece_ok valid opts) ps" and "nest (maxDepth_of opts) [] ps = Some []"
  shows "sanitizeMatrixHtml wide valid (concat (map render ps)) (opts\<lparr>so_maxLength := None\<rparr>) = concat (map render ps)"
proof -
  let ?o = "opts\<lparr>so_maxLength := None\<rparr>"
  have t: "tokenize (concat (map render ps)) = toks [] ps"
    unfolding tokenize_def by (rule tokenize_pieces [OF assms(1)])
  have "list_all (piece_ok valid ?o) ps" "nest (maxDepth_of ?o) (sn_open san_start) ps = Some []"
    using assms by (simp_all add: no_max list_all_iff san_start_def)
  from pieces_again [OF this(1) _ _ this(2), of "[]" wide]
  show ?thesis by (simp add: sanitizeMatrixHtml_def san_result_def t) (simp add: san_start_def)
qed

section \<open>Safe URLs\<close>

lemma js_space_c0: "js_space c \<Longrightarrow> c0_space c \<or> (of_char c :: nat) = 160"
  by (auto simp: js_space_def c0_space_def)

lemma trim_split:
  obtains a b where "s = a @ js_trim s @ b" and "list_all js_space a" and "list_all js_space b"
proof -
  let ?u = "dropWhile js_space s"
  have "?u = rev (dropWhile js_space (rev ?u)) @ rev (takeWhile js_space (rev ?u))"
    by (metis rev_append rev_rev_ident takeWhile_dropWhile_id)
  then have "s = takeWhile js_space s @ js_trim s @ rev (takeWhile js_space (rev ?u))"
    unfolding js_trim_def by (metis takeWhile_dropWhile_id)
  then show ?thesis by (rule that) (auto simp: list_all_iff dest: set_takeWhileD)
qed

lemma filter_drop_c0: "filter (\<lambda>c. \<not> c0_space c) (dropWhile c0_space s) = filter (\<lambda>c. \<not> c0_space c) s"
  by (induction s) auto

lemma filter_url_strip: "filter (\<lambda>c. \<not> c0_space c) (url_strip s) = filter (\<lambda>c. \<not> c0_space c) s"
proof -
  have "tab_or_newline c \<Longrightarrow> c0_space c" for c by (auto simp: tab_or_newline_def c0_space_def)
  then have tn: "filter (\<lambda>c. \<not> c0_space c) (filter (\<lambda>c. \<not> tab_or_newline c) t) = filter (\<lambda>c. \<not> c0_space c) t" for t
    by (induction t) auto
  show ?thesis
    by (simp only: url_strip_def tn rev_filter [symmetric] filter_drop_c0 rev_rev_ident)
qed

lemma scheme_char_plain: "scheme_char c \<Longrightarrow> \<not> c0_space c \<and> \<not> js_space c \<and> c \<noteq> CHR '':''"
  by (auto simp: scheme_char_def ascii_alpha_def ascii_digit_def c0_space_def js_space_def Let_def)

lemma scheme_of_split:
  "scheme_of s = Some sch \<longleftrightarrow>
     (\<exists>w r. s = w @ CHR '':'' # r \<and> w \<noteq> [] \<and> ascii_alpha (hd w) \<and> list_all scheme_char w \<and> sch = js_lower w)"
proof
  assume a: "scheme_of s = Some sch"
  then obtain c t where s: "s = c # t" and c: "ascii_alpha c"
    and d: "js_starts_with (dropWhile scheme_char s) '':''" and sch: "sch = js_lower (takeWhile scheme_char s)"
    by (cases s) (auto simp: scheme_of_def split: if_splits)
  obtain r where r: "dropWhile scheme_char s = CHR '':'' # r"
    using d by (cases "dropWhile scheme_char s") (simp_all add: js_starts_with_def)
  have "scheme_char c" using c by (simp add: scheme_char_def)
  then have "takeWhile scheme_char s \<noteq> []" "hd (takeWhile scheme_char s) = c" by (simp_all add: s)
  moreover have "s = takeWhile scheme_char s @ CHR '':'' # r" using r by (metis takeWhile_dropWhile_id)
  moreover have "list_all scheme_char (takeWhile scheme_char s)" by (auto simp: list_all_iff dest: set_takeWhileD)
  ultimately show "\<exists>w r. s = w @ CHR '':'' # r \<and> w \<noteq> [] \<and> ascii_alpha (hd w) \<and> list_all scheme_char w \<and> sch = js_lower w"
    using c sch by blast
next
  assume "\<exists>w r. s = w @ CHR '':'' # r \<and> w \<noteq> [] \<and> ascii_alpha (hd w) \<and> list_all scheme_char w \<and> sch = js_lower w"
  then obtain w r where s: "s = w @ CHR '':'' # r" and w: "w \<noteq> []" "ascii_alpha (hd w)"
    "list_all scheme_char w" and sch: "sch = js_lower w" by blast
  have colon: "\<not> scheme_char (CHR '':'')" using scheme_char_plain by blast
  have "takeWhile scheme_char s = w" "dropWhile scheme_char s = CHR '':'' # r"
    using w(3) colon by (simp_all add: s list_all_iff takeWhile_append2 dropWhile_append2)
  with w(1,2) show "scheme_of s = Some sch"
    by (cases w) (simp_all add: scheme_of_def s sch js_starts_with_def)
qed

lemma filter_scheme: "list_all scheme_char w \<Longrightarrow> filter (\<lambda>c. \<not> c0_space c) w = w"
  using scheme_char_plain by (simp add: list_all_iff filter_id_conv)

text \<open>Trimming and dropping the control characters keeps the scheme at the front.\<close>

lemma trimmed_scheme:
  assumes "filter (\<lambda>c. \<not> c0_space c) s = w @ CHR '':'' # r" and "w \<noteq> []" and "list_all scheme_char w"
  shows "\<exists>t. filter (\<lambda>c. \<not> c0_space c) (js_trim s) = w @ CHR '':'' # t"
proof -
  let ?f = "filter (\<lambda>c. \<not> c0_space c)"
  obtain a b where s: "s = a @ js_trim s @ b" and ab: "list_all js_space a" "list_all js_space b"
    by (rule trim_split)
  from s have split: "?f a @ ?f (js_trim s) @ ?f b = w @ CHR '':'' # r"
    using assms(1) by (metis filter_append)
  have "?f a = []"
  proof (cases "?f a")
    case (Cons c u)
    then have "c \<in> set (?f a)" by simp
    then have "js_space c" using ab(1) by (auto simp: list_all_iff)
    moreover have "c = hd w" using split Cons assms(2) by (cases w) simp_all
    moreover have "scheme_char (hd w)" using assms(2,3) by (cases w) simp_all
    ultimately show ?thesis using scheme_char_plain by blast
  qed simp
  with split have "?f (js_trim s) @ ?f b = w @ CHR '':'' # r" by simp
  then obtain us where "?f (js_trim s) = w @ us \<and> us @ ?f b = CHR '':'' # r \<or> ?f (js_trim s) @ us = w \<and> ?f b = us @ CHR '':'' # r"
    by (auto simp: append_eq_append_conv2)
  moreover have nb: "CHR '':'' \<notin> set (?f b)" using ab(2) by (auto simp: list_all_iff js_space_def)
  moreover have "?f b \<noteq> us @ CHR '':'' # r" using nb by (metis in_set_conv_decomp)
  ultimately have "?f (js_trim s) = w @ us" "us @ ?f b = CHR '':'' # r" by blast+
  with nb show ?thesis by (cases us) (metis append_Nil list.set_intros(1), auto)
qed

lemma safe_scheme:
  assumes "isSafeUrl valid u schemes" and "url_scheme u = Some sch"
  shows "sch @ '':'' \<in> set schemes"
proof -
  let ?f = "filter (\<lambda>c. \<not> c0_space c)"
  from assms(2) obtain w r where w: "url_strip u = w @ CHR '':'' # r" "w \<noteq> []" "ascii_alpha (hd w)"
    "list_all scheme_char w" and sch: "sch = js_lower w"
    unfolding url_scheme_def scheme_of_split by blast
  have colon: "\<not> c0_space (CHR '':'')" by (simp add: c0_space_def)
  have "?f u = w @ CHR '':'' # ?f r"
    using filter_url_strip [of u] colon by (simp add: w(1) filter_scheme [OF w(4)])
  from trimmed_scheme [OF this w(2,4)] obtain t where t: "?f (js_trim u) = w @ CHR '':'' # t" ..
  have "dropWhile c0_space (?f x) = ?f x" for x by (induction x) auto
  moreover have "tab_or_newline c \<Longrightarrow> c0_space c" for c by (auto simp: tab_or_newline_def c0_space_def)
  then have "filter (\<lambda>c. \<not> tab_or_newline c) (?f x) = ?f x" for x by (induction x) auto
  ultimately have "url_strip (?f x) = ?f x" for x by (simp add: url_strip_def rev_filter)
  then have "url_scheme (w @ CHR '':'' # t) = Some sch"
    using w(2,3,4) sch unfolding url_scheme_def scheme_of_split by (metis t)
  moreover obtain c v where c: "w = c # v" using w(2) by (cases w) auto
  have "scheme_char c" using w(4) c by simp
  then have "c \<noteq> CHR ''#''" "c \<noteq> CHR ''/''"
    by (auto simp: scheme_char_def ascii_alpha_def ascii_digit_def)
  moreover have "js_lower (sch @ '':'') = sch @ '':''"
    by (simp add: sch js_lower_def comp_def) (simp add: js_lower_char_def)
  ultimately show ?thesis
    using assms(1) by (auto simp: isSafeUrl_def t url_protocol_def c js_starts_with_def Let_def split: if_splits)
qed

section \<open>What a reader of the output finds\<close>

definition token_safe :: "(nat \<Rightarrow> string) \<Rightarrow> sanitize_opts \<Rightarrow> token \<Rightarrow> bool" where
  "token_safe wide opts tok =
     (case tok of
        T_text s \<Rightarrow> lt \<notin> set s \<and> gt \<notin> set s
      | T_close t \<Rightarrow> t \<in> allowed_tags opts
      | T_open t raw _ \<Rightarrow>
          t \<in> allowed_tags opts \<and> t \<notin> DANGEROUS \<and>
          (\<forall>(n, v) \<in> set (scan_attrs raw).
             (case ALLOWED_ATTRIBUTES t of None \<Rightarrow> False | Some allowed \<Rightarrow> js_lower n \<in> set allowed) \<and>
             (js_lower n = ''href'' \<longrightarrow>
               (case url_scheme (decodeAttributeValue wide v) of
                  None \<Rightarrow> True | Some sch \<Rightarrow> sch @ '':'' \<in> set ALLOWED_HREF_SCHEMES)) \<and>
             (js_lower n = ''src'' \<longrightarrow>
               js_starts_with (js_lower (decodeAttributeValue wide v)) ''mxc://'' \<and> so_allowImages opts \<noteq> Some False)))"

lemma attr_safe:
  assumes "attr_ok valid opts t (n, d)"
  shows "(case ALLOWED_ATTRIBUTES t of None \<Rightarrow> False | Some allowed \<Rightarrow> n \<in> set allowed) \<and>
    (n = ''href'' \<longrightarrow> (case url_scheme d of None \<Rightarrow> True | Some sch \<Rightarrow> sch @ '':'' \<in> set ALLOWED_HREF_SCHEMES)) \<and>
    (n = ''src'' \<longrightarrow> js_starts_with (js_lower d) ''mxc://'' \<and> so_allowImages opts \<noteq> Some False)"
proof -
  from assms obtain allowed where a: "ALLOWED_ATTRIBUTES t = Some allowed" and k: "keep_attr valid opts t allowed n d"
    by (auto simp: attr_ok_def split: option.splits)
  from k have "n \<in> set allowed" "n = ''href'' \<Longrightarrow> isSafeUrl valid d ALLOWED_HREF_SCHEMES"
    "n = ''src'' \<longrightarrow> js_starts_with (js_lower d) ''mxc://'' \<and> so_allowImages opts \<noteq> Some False"
    by (auto simp: keep_attr_def split: if_splits)
  with a safe_scheme [of valid d ALLOWED_HREF_SCHEMES] show ?thesis by (auto split: option.split)
qed

lemma open_safe:
  assumes "piece_ok valid opts (P_open t as)"
  shows "token_safe wide opts (T_open t (attrs_text as) sc)"
proof -
  have names: "list_all (\<lambda>nd. attr_name_ok (fst nd)) as"
    using assms by (auto simp: list_all_iff dest: attr_ok_name)
  have "js_lower n = n \<and> decodeAttributeValue wide (escapeHtml d) = d \<and> attr_ok valid opts t (n, d)"
    if "(n, d) \<in> set as" for n d
    using assms that names by (fastforce simp: list_all_iff attr_name_ok_def decode_escape attr_ok_def)
  with attr_safe [of valid opts t] assms show ?thesis
    by (fastforce simp: token_safe_def scan_attrs_texts [OF names])
qed

lemma toks_safe:
  "list_all (piece_ok valid opts) ps \<Longrightarrow> lt \<notin> set pre \<Longrightarrow> gt \<notin> set pre \<Longrightarrow>
     list_all (token_safe wide opts) (toks pre ps)"
proof (induction pre ps rule: toks.induct)
  case (3 pre t as ps)
  then show ?case
    using open_safe [of valid opts t as wide] by (simp add: text_token_def token_safe_def [of _ _ "T_text _"])
qed (auto simp: text_token_def clean_text_def token_safe_def)

text \<open>The output is not longer than the option \<open>maxLength\<close>, so nothing is cut off.\<close>

definition uncut :: "(nat \<Rightarrow> string) \<Rightarrow> (string \<Rightarrow> bool) \<Rightarrow> string \<Rightarrow> sanitize_opts \<Rightarrow> bool" where
  "uncut wide valid h opts \<longleftrightarrow>
     (case so_maxLength opts of
        None \<Rightarrow> True
      | Some n \<Rightarrow> int (length (sanitizeMatrixHtml wide valid h (opts\<lparr>so_maxLength := None\<rparr>))) \<le> n)"

lemma san_step_no_max: "san_step wide valid (opts\<lparr>so_maxLength := n\<rparr>) = san_step wide valid opts"
proof -
  have k: "keep_attr valid (opts\<lparr>so_maxLength := n\<rparr>) = keep_attr valid opts"
    by (intro ext) (simp add: keep_attr_def)
  then have "sanitizeAttributes wide valid (opts\<lparr>so_maxLength := n\<rparr>) = sanitizeAttributes wide valid opts"
    by (intro ext) (simp only: sanitizeAttributes_def kept_attrs_def k)
  moreover have "allowed_tags (opts\<lparr>so_maxLength := n\<rparr>) = allowed_tags opts"
    by (simp add: allowed_tags_def)
  ultimately show ?thesis
    by (intro ext) (simp add: san_step_def open_step_def close_step_def no_max split: token.split)
qed

lemma uncut_same: "uncut wide valid h opts \<Longrightarrow> sanitizeMatrixHtml wide valid h opts = sanitizeMatrixHtml wide valid h (opts\<lparr>so_maxLength := None\<rparr>)"
  by (auto simp: uncut_def sanitizeMatrixHtml_def Let_def san_step_no_max split: option.splits)

text \<open>
  C2 (safety). For every input whose output is not cut off by \<open>maxLength\<close>, reading the sanitizer's
  output with the same tokenizer finds text without angle brackets, tags of the allowed set that
  are not script, style, iframe or object, and on them only attributes of the tag's table, with
  links to allowed schemes (as the URL standard reads the decoded value) and images from the
  media repository. What a cut does is \<open>max_length_cuts_tags\<close>.
\<close>

theorem sanitized_tokens_safe:
  assumes "uncut wide valid h opts"
  shows "list_all (token_safe wide opts) (tokenize (sanitizeMatrixHtml wide valid h opts))"
proof -
  obtain ps where "sanitizeMatrixHtml wide valid h (opts\<lparr>so_maxLength := None\<rparr>) = concat (map render ps)"
    and ok: "list_all (piece_ok valid opts) ps" by (rule sanitize_pieces)
  with tokenize_pieces [OF ok, of "[]"] toks_safe [OF ok, of "[]" wide] uncut_same [OF assms]
  show ?thesis by (simp add: tokenize_def)
qed

text \<open>
  C3 (equivalence). Sanitizing what has been sanitized changes nothing: the sanitizer does not
  escape its own references again, drop its own attributes or rebalance its own tags. The
  input must have no self-closing tag other than the void ones (see \<open>self_closing_never_closed\<close>),
  and its output must not be cut off by \<open>maxLength\<close>.
\<close>

theorem sanitize_idempotent:
  assumes "list_all plain_token (tokenize h)" and "uncut wide valid h opts"
  shows "sanitizeMatrixHtml wide valid (sanitizeMatrixHtml wide valid h opts) opts = sanitizeMatrixHtml wide valid h opts"
proof -
  let ?s = "sanitizeMatrixHtml wide valid h opts"
  obtain ps where ps: "sanitizeMatrixHtml wide valid h (opts\<lparr>so_maxLength := None\<rparr>) = concat (map render ps)"
    and "list_all (piece_ok valid opts) ps" and "nest (maxDepth_of opts) [] ps = Some []"
    by (rule sanitize_pieces) (use assms in blast)
  then have again: "sanitizeMatrixHtml wide valid ?s (opts\<lparr>so_maxLength := None\<rparr>) = ?s"
    using sanitize_of_pieces uncut_same [OF assms(2)] by simp
  with assms(2) have "uncut wide valid ?s opts"
    using uncut_same [OF assms(2)] by (simp add: uncut_def split: option.splits)
  with again show ?thesis
    using uncut_same by metis
qed

definition demo_html :: string where
  "demo_html = ''<b onclick=''@ [dquote] @ ''x'' @ [dquote] @ ''>1 < 2 &amp; <i>3</b></p><br/>''"

theorem sanitized_tokens_safe_witness:
  "list_all (token_safe (\<lambda>_. []) \<lparr>so_extraTags = None, so_allowImages = None, so_maxDepth = None, so_maxLength = Some 40\<rparr>)
     (tokenize ''<b>1 &lt; 2 &amp; <i>3</i></b><br>'')"
proof -
  let ?o = "\<lparr>so_extraTags = None, so_allowImages = None, so_maxDepth = None, so_maxLength = Some 40\<rparr>"
  have n: "sanitizeMatrixHtml (\<lambda>_. []) (\<lambda>_. True) demo_html (?o\<lparr>so_maxLength := None\<rparr>) = ''<b>1 &lt; 2 &amp; <i>3</i></b><br>''"
    by code_simp
  then have "uncut (\<lambda>_. []) (\<lambda>_. True) demo_html ?o"
    by (simp add: uncut_def)
  from sanitized_tokens_safe [OF this] uncut_same [OF this] n show ?thesis by simp
qed

lemma sanitize_idempotent_witness:
  "list_all plain_token (tokenize demo_html) \<and>
   sanitizeMatrixHtml (\<lambda>_. []) (\<lambda>_. True) ''<b>1 &lt; 2 &amp; <i>3</i></b><br>''
     \<lparr>so_extraTags = None, so_allowImages = None, so_maxDepth = None, so_maxLength = None\<rparr> =
   ''<b>1 &lt; 2 &amp; <i>3</i></b><br>''"
proof -
  let ?o = "\<lparr>so_extraTags = None, so_allowImages = None, so_maxDepth = None, so_maxLength = None\<rparr>"
  have p: "list_all plain_token (tokenize demo_html)" by code_simp
  have "sanitizeMatrixHtml (\<lambda>_. []) (\<lambda>_. True) demo_html ?o = ''<b>1 &lt; 2 &amp; <i>3</i></b><br>''" by code_simp
  with p sanitize_idempotent [OF p, of "\<lambda>_. []" "\<lambda>_. True" ?o] show ?thesis by (simp add: uncut_def)
qed

text \<open>
  \<open>maxLength\<close> cuts the finished markup, also inside a tag: the output then ends in a tag that is
  not finished, and whatever follows it in a page is read as a part of that tag.
\<close>

theorem max_length_cuts_tags:
  "sanitizeMatrixHtml wide valid ''<b>x</b>'' \<lparr>so_extraTags = None, so_allowImages = None, so_maxDepth = None, so_maxLength = Some 2\<rparr> = ''<b''
   \<and> \<not> list_all (token_safe wide opts) (tokenize ''<b'')"
proof -
  let ?o = "\<lparr>so_extraTags = None, so_allowImages = None, so_maxDepth = None, so_maxLength = Some (2 :: int)\<rparr>"
  have toks: "tokenize ''<b>x</b>'' = [T_open ''b'' [] False, T_text ''x'', T_close ''b'']" by code_simp
  have "scan_attrs [] = []" by code_simp
  moreover have "escapeText ''x'' = ''x''" by code_simp
  ultimately have "sanitizeMatrixHtml wide valid ''<b>x</b>'' ?o = ''<b''"
    by (simp add: sanitizeMatrixHtml_def toks san_step_def open_step_def close_step_def allowed_tags_def MATRIX_ALLOWED_TAGS_def
        maxDepth_of_def san_start_def VOID_TAGS_def sanitizeAttributes_def kept_attrs_def ALLOWED_ATTRIBUTES_def open_tag_def close_tag_def
        san_result_def js_slice0_def attrs_text_def)
  moreover have "tokenize ''<b'' = [T_text ''<b'']" by code_simp
  ultimately show ?thesis
    by (simp add: token_safe_def)
qed

fun open_after :: "int \<Rightarrow> string list \<Rightarrow> token list \<Rightarrow> string list option" where
  "open_after md st [] = Some st"
| "open_after md st (T_text _ # ts) = open_after md st ts"
| "open_after md st (T_open t _ sc # ts) =
     (if md \<le> int (length st) then None else open_after md (if sc then st else t # st) ts)"
| "open_after md st (T_close t # ts) = (case st of [] \<Rightarrow> None | u # us \<Rightarrow> if u = t then open_after md us ts else None)"

lemma open_after_toks: "nest md st ps = Some st' \<Longrightarrow> open_after md st (toks pre ps) = Some st'"
  by (induction md st ps arbitrary: pre rule: nest.induct)
    (auto simp: text_token_def split: list.splits if_splits)

text \<open>
  The tags of the output are balanced and within the depth limit: every close
  tag closes the innermost open one, nothing stays open, and no tag is opened at the limit.
\<close>

theorem sanitized_balanced:
  assumes "list_all plain_token (tokenize h)" and "uncut wide valid h opts"
  shows "open_after (maxDepth_of opts) [] (tokenize (sanitizeMatrixHtml wide valid h opts)) = Some []"
proof -
  obtain ps where "sanitizeMatrixHtml wide valid h (opts\<lparr>so_maxLength := None\<rparr>) = concat (map render ps)"
    and ok: "list_all (piece_ok valid opts) ps" and "nest (maxDepth_of opts) [] ps = Some []"
    by (rule sanitize_pieces) (use assms in blast)
  with tokenize_pieces [OF ok, of "[]"] show ?thesis by (simp add: tokenize_def open_after_toks uncut_same [OF assms(2)])
qed

lemma sanitized_balanced_witness:
  "open_after 100 [] (tokenize (sanitizeMatrixHtml (\<lambda>_. []) (\<lambda>_. True) demo_html
     \<lparr>so_extraTags = None, so_allowImages = None, so_maxDepth = None, so_maxLength = None\<rparr>)) = Some []"
proof -
  have p: "list_all plain_token (tokenize demo_html)" by code_simp
  from sanitized_balanced [OF p, of "\<lambda>_. []" "\<lambda>_. True" "\<lparr>so_extraTags = None, so_allowImages = None, so_maxDepth = None, so_maxLength = None\<rparr>"]
  show ?thesis by (simp add: maxDepth_of_def uncut_def)
qed

lemma match_div: "match_tag (''<div/>'' @ r) = Some (T_open ''div'' ''/'' True, r)"
  by (simp add: match_tag_def match_name_def name_char_def ascii_alpha_def ascii_digit_def tag_token_def
      js_lower_def js_lower_char_def)

lemma tokenize_divs: "tokenize_from [] (concat (replicate n ''<div/>'')) = replicate n (T_open ''div'' ''/'' True)"
  using tokenize_match [OF match_div, of "[]"] by (induction n) (simp_all add: text_token_def)

lemma div_step:
  assumes "sn_depth s = 0" and "sn_open s = []"
  shows "san_step wide valid \<lparr>so_extraTags = None, so_allowImages = None, so_maxDepth = Some 1, so_maxLength = None\<rparr>
      (T_open ''div'' ''/'' True) s = s\<lparr>sn_out := sn_out s @ [''<div>'']\<rparr>"
proof -
  have "scan_attrs ''/'' = []" by code_simp
  with assms show ?thesis
    by (simp add: san_step_def open_step_def allowed_tags_def MATRIX_ALLOWED_TAGS_def maxDepth_of_def
        sanitizeAttributes_def kept_attrs_def ALLOWED_ATTRIBUTES_def open_tag_def)
qed

text \<open>
  A self-closing tag that is not a void one is written as an open tag and never
  closed, however many there are: the output is neither balanced nor within the depth limit.
\<close>

theorem self_closing_never_closed:
  "sanitizeMatrixHtml wide valid (concat (replicate n ''<div/>''))
     \<lparr>so_extraTags = None, so_allowImages = None, so_maxDepth = Some 1, so_maxLength = None\<rparr> =
   concat (replicate n ''<div>'')"
proof -
  let ?o = "\<lparr>so_extraTags = None, so_allowImages = None, so_maxDepth = Some 1, so_maxLength = None\<rparr>"
  have "sn_depth s = 0 \<Longrightarrow> sn_open s = [] \<Longrightarrow>
      fold (san_step wide valid ?o) (replicate n (T_open ''div'' ''/'' True)) s =
        s\<lparr>sn_out := sn_out s @ replicate n ''<div>''\<rparr>" for s
    by (induction n arbitrary: s) (simp_all add: div_step)
  then show ?thesis
    by (simp add: sanitizeMatrixHtml_def tokenize_def tokenize_divs san_result_def san_start_def)
qed

lemma escapeHtml_clean: "clean_text (escapeHtml s)"
proof -
  have "refs_ok (escapeHtml s)"
  proof (induction s)
    case (Cons c s)
    have "escapeHtml (c # s) = escape_char c @ escapeHtml s" by (simp add: escapeHtml_one_pass)
    moreover have "is_ref ''amp;''" "is_ref ''lt;''" "is_ref ''gt;''" "is_ref ''quot;''" "is_ref ''#39;''"
      by code_simp+
    then have "refs_ok (escape_char c)" by (cases rule: escape_char_cases [of c]) simp_all
    ultimately show ?case using Cons by (simp add: refs_ok_append)
  qed simp
  then show ?thesis using escaped_plain by (auto simp: clean_text_def)
qed

text \<open>
  A spoiler written by the formatting helper without a reason loses its marker in the
  sanitizer, which only keeps attributes that have a value: the hidden text is shown.
\<close>

theorem sanitizer_reveals_spoiler:
  "sanitizeMatrixHtml wide valid (fmt_spoiler text None)
     \<lparr>so_extraTags = None, so_allowImages = None, so_maxDepth = None, so_maxLength = None\<rparr> =
   ''<span>'' @ escapeHtml text @ ''</span>''"
proof -
  let ?o = "\<lparr>so_extraTags = None, so_allowImages = None, so_maxDepth = None, so_maxLength = None\<rparr>"
  let ?t = "T_open ''span'' '' data-mx-spoiler'' False"
  have o: "match_tag (''<span data-mx-spoiler>'' @ r) = Some (?t, r)" for r
    by (simp add: match_tag_def match_name_def name_char_def ascii_alpha_def ascii_digit_def tag_token_def
      js_lower_def js_lower_char_def VOID_TAGS_def)
  have c: "match_tag ''</span>'' = Some (T_close ''span'', [])" by code_simp
  have "scan_attrs '' data-mx-spoiler'' = []" by code_simp
  then have k: "sanitizeAttributes wide valid ?o ''span'' '' data-mx-spoiler'' = []"
    by (simp add: sanitizeAttributes_def kept_attrs_def ALLOWED_ATTRIBUTES_def)
  have e: "lt \<notin> set (escapeHtml text)" using escaped_plain by blast
  have "tokenize (fmt_spoiler text None) = ?t # text_token (escapeHtml text) @ [T_close ''span'']"
    using tokenize_match [OF o, of "[]"] tokenize_match [OF c]
    by (simp add: tokenize_def fmt_spoiler_def tokenize_text [OF e]) (simp add: text_token_def)
  then show ?thesis
    by (simp add: sanitizeMatrixHtml_def san_result_def san_step_def san_start_def open_step_def k
        allowed_tags_def MATRIX_ALLOWED_TAGS_def maxDepth_of_def VOID_TAGS_def text_token_def open_tag_def
        close_step_def close_tag_def escapeText_id [OF escapeHtml_clean])
qed

end
