(* ===== verification/Markdown.thy ===== *)
theory Markdown
  imports Html_Sanitize
begin

text \<open>
  \<open>markdownToHtml\<close> of \<^verbatim>\<open>src/html.ts\<close>: a sequence of passes, each the replacement of a regular
  expression given by what it matches at a position. Fenced and inline code is replaced by
  numbered marks between two U+0000 and put back by the last passes.
\<close>

section \<open>The passes\<close>

abbreviation nul :: char where "nul \<equiv> CHR 0x00"
abbreviation newline :: char where "newline \<equiv> CHR 10"
abbreviation backtick :: char where "backtick \<equiv> CHR 0x60"
abbreviation star :: char where "star \<equiv> CHR ''*''"

definition mark :: "char \<Rightarrow> nat \<Rightarrow> string" where
  "mark k i = nul # k # nat_dec i @ [nul]"

text \<open>The text up to the first occurrence of a pattern, and what follows the pattern.\<close>

fun until :: "string \<Rightarrow> string \<Rightarrow> (string \<times> string) option" where
  "until p [] = (if p = [] then Some ([], []) else None)"
| "until p (c # s) =
     (if js_starts_with (c # s) p then Some ([], drop (length p) (c # s))
      else map_option (\<lambda>(a, r). (c # a, r)) (until p s))"

definition lang_char :: "char \<Rightarrow> bool" where
  "lang_char c = (ascii_alpha c \<or> ascii_digit c \<or> c \<in> {CHR ''_'', CHR ''+'', CHR ''-''})"

definition fence :: string where "fence = [backtick, backtick, backtick]"

definition skip_newline :: "string \<Rightarrow> string" where
  "skip_newline s = (case s of c # r \<Rightarrow> if c = newline then r else s | [] \<Rightarrow> s)"

text \<open>A fenced block at a position: the language, the code and what follows.\<close>

definition match_fence :: "string \<Rightarrow> (string \<times> string \<times> string) option" where
  "match_fence s =
     (if js_starts_with s fence then
        map_option (\<lambda>(code, r). (takeWhile lang_char (drop 3 s), code, r))
          (until fence (skip_newline (dropWhile lang_char (drop 3 s))))
      else None)"

definition drop_final_newline :: "string \<Rightarrow> string" where
  "drop_final_newline s = (if s \<noteq> [] \<and> last s = newline then butlast s else s)"

definition fence_html :: "string \<Rightarrow> string \<Rightarrow> string" where
  "fence_html lang code =
     ''<pre><code'' @ (if lang \<noteq> [] then '' class='' @ [dquote] @ ''language-'' @ escapeHtml lang @ [dquote] else []) @
     ''>'' @ escapeHtml (drop_final_newline code) @ ''</code></pre>''"

lemma until_length: "until p s = Some (a, r) \<Longrightarrow> length r \<le> length s"
proof (induction p s arbitrary: a r rule: until.induct)
  case (2 p c s)
  then show ?case by (fastforce split: if_splits)
qed (auto split: if_splits)

lemma match_fence_length: "match_fence s = Some (l, c, r) \<Longrightarrow> length r < length s"
proof -
  assume m: "match_fence s = Some (l, c, r)"
  then have f: "js_starts_with s fence" by (simp add: match_fence_def split: if_splits)
  then obtain t where s: "s = fence @ t" by (auto simp: js_starts_with_iff)
  have "length (drop 3 s) < length s" by (simp add: s fence_def)
  moreover have u: "until fence (skip_newline (dropWhile lang_char (drop 3 s))) = Some (c, r)"
    using m f by (auto simp: match_fence_def)
  moreover have "length (skip_newline t) \<le> length t" for t by (cases t) (simp_all add: skip_newline_def)
  moreover have "length (dropWhile lang_char (drop 3 s)) \<le> length (drop 3 s)" by (rule length_dropWhile_le)
  ultimately show ?thesis using until_length [OF u] by (meson le_less_trans le_trans)
qed

text \<open>The fences found so far are the third argument; the result is the text with marks and all fences.\<close>

function cut_fences :: "string \<Rightarrow> string list \<Rightarrow> string \<times> string list" where
  "cut_fences [] fences = ([], fences)"
| "cut_fences (c # s) fences =
     (case match_fence (c # s) of
        Some (lang, code, r) \<Rightarrow>
          (let (w, fs) = cut_fences r (fences @ [fence_html lang code])
           in (mark (CHR ''F'') (length fences) @ w, fs))
      | None \<Rightarrow> (let (w, fs) = cut_fences s fences in (c # w, fs)))"
  by pat_completeness auto
termination
  by (relation "measure (\<lambda>(s, fs). length s)") (auto dest: match_fence_length)

declare cut_fences.simps(2) [simp del]

definition inline_char :: "char \<Rightarrow> bool" where
  "inline_char c = (c \<noteq> backtick \<and> c \<noteq> newline)"

definition match_inline :: "string \<Rightarrow> (string \<times> string) option" where
  "match_inline s =
     (case s of
        [] \<Rightarrow> None
      | c # t \<Rightarrow>
          if c = backtick \<and> takeWhile inline_char t \<noteq> [] \<and> js_starts_with (dropWhile inline_char t) [backtick]
          then Some (takeWhile inline_char t, drop 1 (dropWhile inline_char t)) else None)"

lemma match_inline_length: "match_inline s = Some (code, r) \<Longrightarrow> length r < length s"
  using length_dropWhile_le [of inline_char "tl s"]
  by (cases s) (auto simp: match_inline_def split: if_splits)

function cut_inlines :: "string \<Rightarrow> string list \<Rightarrow> string \<times> string list" where
  "cut_inlines [] inlines = ([], inlines)"
| "cut_inlines (c # s) inlines =
     (case match_inline (c # s) of
        Some (code, r) \<Rightarrow>
          (let (w, cs) = cut_inlines r (inlines @ [''<code>'' @ escapeHtml code @ ''</code>''])
           in (mark (CHR ''C'') (length inlines) @ w, cs))
      | None \<Rightarrow> (let (w, cs) = cut_inlines s inlines in (c # w, cs)))"
  by pat_completeness auto
termination
  by (relation "measure (\<lambda>(s, fs). length s)") (auto dest: match_inline_length)

declare cut_inlines.simps(2) [simp del]

text \<open>\<open>/\[([^\]]+)\]\((https?:\/\/[^)\s]+)\)/\<close>.\<close>

definition url_char :: "char \<Rightarrow> bool" where
  "url_char c = (c \<noteq> CHR '')'' \<and> \<not> js_space c)"

definition match_url :: "string \<Rightarrow> string option" where
  "match_url s =
     (let rest = (if js_starts_with s ''http://'' then Some (drop 7 s)
                  else if js_starts_with s ''https://'' then Some (drop 8 s) else None)
      in case rest of
           None \<Rightarrow> None
         | Some r \<Rightarrow>
             if takeWhile url_char r \<noteq> [] \<and> js_starts_with (dropWhile url_char r) '')'' then Some (takeWhile url_char s) else None)"

definition match_link :: "(string \<Rightarrow> bool) \<Rightarrow> string \<Rightarrow> (string \<times> nat) option" where
  "match_link valid s =
     (case s of
        [] \<Rightarrow> None
      | c # t \<Rightarrow>
          (let label = takeWhile (\<lambda>d. d \<noteq> CHR '']'') t; r = dropWhile (\<lambda>d. d \<noteq> CHR '']'') t
           in if c = CHR ''['' \<and> label \<noteq> [] \<and> js_starts_with r ''](''
              then map_option (\<lambda>url.
                     (if isSafeUrl valid url ALLOWED_HREF_SCHEMES
                      then ''<a href='' @ [dquote] @ escapeHtml url @ [dquote] @ ''>'' @ label @ ''</a>'' else label,
                      length label + length url + 4)) (match_url (drop 2 r))
              else None))"

text \<open>\<open>/\*\*([^*]+)\*\*/\<close>.\<close>

definition match_bold :: "string \<Rightarrow> (string \<times> nat) option" where
  "match_bold s =
     (let t = takeWhile (\<lambda>c. c \<noteq> star) (drop 2 s)
      in if js_starts_with s [star, star] \<and> t \<noteq> [] \<and> js_starts_with (drop (2 + length t) s) [star, star]
         then Some (''<strong>'' @ t @ ''</strong>'', length t + 4) else None)"

text \<open>
  \<open>*([^*\n]+)*([^*]|$)\<close> for a delimiter, after the character (or the start of the text) in
  front of it: the emphasised text and the character after it.
\<close>

definition match_em_tail :: "char \<Rightarrow> string \<Rightarrow> (string \<times> string) option" where
  "match_em_tail d s =
     (case s of
        [] \<Rightarrow> None
      | c # t \<Rightarrow>
          (let e = takeWhile (\<lambda>x. x \<noteq> d \<and> x \<noteq> newline) t; r = dropWhile (\<lambda>x. x \<noteq> d \<and> x \<noteq> newline) t
           in if c = d \<and> e \<noteq> [] \<and> js_starts_with r [d] \<and> \<not> js_starts_with (drop 1 r) [d]
              then Some (e, take 1 (drop 1 r)) else None))"

definition em_html :: "string \<Rightarrow> string \<times> string \<Rightarrow> string \<times> nat" where
  "em_html pre ea = (pre @ ''<em>'' @ fst ea @ ''</em>'' @ snd ea, length pre + length (fst ea) + 2 + length (snd ea))"

definition match_em_start :: "char \<Rightarrow> string \<Rightarrow> (string \<times> nat) option" where
  "match_em_start d s = map_option (em_html []) (match_em_tail d s)"

definition match_em :: "char \<Rightarrow> string \<Rightarrow> (string \<times> nat) option" where
  "match_em d s =
     (case s of
        [] \<Rightarrow> None
      | c # t \<Rightarrow> if c = d then None else map_option (em_html [c]) (match_em_tail d t))"

text \<open>The replacement of an expression whose first alternative only matches at the start of the text.\<close>

definition replace_em :: "char \<Rightarrow> string \<Rightarrow> string" where
  "replace_em d s =
     (case match_em_start d s of
        Some (r, len) \<Rightarrow> r @ replace_at (match_em d) len s
      | None \<Rightarrow> replace_at (match_em d) 0 s)"

text \<open>\<open>/\0C(\d+)\0/\<close>, the code put back; a number without an entry gives nothing.\<close>

definition match_mark :: "char \<Rightarrow> string list \<Rightarrow> string \<Rightarrow> (string \<times> nat) option" where
  "match_mark k saved s =
     (let ds = takeWhile ascii_digit (drop 2 s)
      in if js_starts_with s [nul, k] \<and> ds \<noteq> [] \<and> js_starts_with (drop (2 + length ds) s) [nul]
         then Some (if dec_value ds < length saved then saved ! dec_value ds else [], length ds + 3) else None)"

text \<open>\<open>split(/\n{2,}/)\<close>: the pieces between runs of two or more line ends.\<close>

function split_blank :: "string \<Rightarrow> string \<Rightarrow> string list" where
  "split_blank acc [] = [acc]"
| "split_blank acc (c # s) =
     (if c = newline \<and> js_starts_with s [newline]
      then acc # split_blank [] (dropWhile (\<lambda>d. d = newline) s)
      else split_blank (acc @ [c]) s)"
  by pat_completeness auto
termination
  by (relation "measure (\<lambda>(acc, s). length s)") (auto simp: le_imp_less_Suc length_dropWhile_le)

definition md_block :: "string \<Rightarrow> string" where
  "md_block b =
     (let trimmed = js_trim b
      in if trimmed = [] then []
         else if js_starts_with trimmed ''<pre>'' then trimmed
         else ''<p>'' @ replace_char newline ''<br/>'' trimmed @ ''</p>'')"

definition markdownToHtml :: "(string \<Rightarrow> bool) \<Rightarrow> string \<Rightarrow> string" where
  "markdownToHtml valid text =
     (if text = [] then []
      else
        (let (w1, fences) = cut_fences text [];
             (w2, inlines) = cut_inlines w1 [];
             w3 = escapeHtml w2;
             w4 = replace_at (match_link valid) 0 w3;
             w5 = replace_at match_bold 0 w4;
             w6 = replace_em star w5;
             w7 = replace_em (CHR ''_'') w6;
             w8 = replace_at (match_mark (CHR ''C'') inlines) 0 w7;
             w9 = replace_at (match_mark (CHR ''F'') fences) 0 w8
         in concat (map md_block (split_blank [] w9))))"

section \<open>Passes that find nothing\<close>

lemma replace_at_absent:
  assumes "\<And>s. d \<notin> set s \<Longrightarrow> m s = None" and "d \<notin> set s"
  shows "replace_at m 0 s = s"
proof -
  have "replace_at m 0 (s @ []) = s @ replace_at m 0 []"
    by (rule replace_at_none) (use assms in auto)
  then show ?thesis by simp
qed

lemma bold_absent: "star \<notin> set s \<Longrightarrow> match_bold s = None"
  by (cases s) (auto simp: match_bold_def js_starts_with_def)

lemma em_tail_absent: "d \<notin> set s \<Longrightarrow> match_em_tail d s = None"
  by (cases s) (auto simp: match_em_tail_def)

lemma em_absent: "d \<notin> set s \<Longrightarrow> match_em d s = None"
  by (cases s) (simp_all add: match_em_def em_tail_absent)

lemma replace_em_absent: "d \<notin> set s \<Longrightarrow> replace_em d s = s"
  by (simp add: replace_em_def match_em_start_def em_tail_absent replace_at_absent [OF em_absent])

lemma mark_absent: "nul \<notin> set s \<Longrightarrow> match_mark k saved s = None"
  by (cases s) (auto simp: match_mark_def js_starts_with_def)

lemma link_absent: "CHR ''['' \<notin> set s \<Longrightarrow> match_link valid s = None"
  by (cases s) (auto simp: match_link_def Let_def)

lemma fences_absent: "backtick \<notin> set s \<Longrightarrow> cut_fences s fs = (s, fs)"
proof (induction s)
  case (Cons c s)
  then have "match_fence (c # s) = None" by (auto simp: match_fence_def js_starts_with_def fence_def)
  with Cons show ?case by (simp add: cut_fences.simps(2))
qed simp

lemma inlines_absent: "backtick \<notin> set s \<Longrightarrow> cut_inlines s fs = (s, fs)"
proof (induction s)
  case (Cons c s)
  then have "match_inline (c # s) = None" by (auto simp: match_inline_def)
  with Cons show ?case by (simp add: cut_inlines.simps(2))
qed simp

lemma split_blank_absent: "newline \<notin> set s \<Longrightarrow> split_blank acc s = [acc @ s]"
  by (induction s arbitrary: acc) auto

lemma replace_char_absent: "c \<notin> set s \<Longrightarrow> replace_char c r s = s"
  by (induction s) auto

lemma escaped_chars: "c \<in> set (escapeHtml s) \<Longrightarrow> c \<in> set s \<or> c \<in> set ''&amp;ltgquo#39''"
proof (induction s)
  case (Cons d s)
  then consider "c \<in> set (escape_char d)" | "c \<in> set (escapeHtml s)" by (auto simp: escapeHtml_Cons)
  then show ?case
  proof cases
    case 1
    then show ?thesis by (cases rule: escape_char_cases [of d]) auto
  qed (use Cons.IH in auto)
qed simp

definition md_special :: "char set" where
  "md_special = {backtick, star, CHR ''_'', CHR ''['', nul, newline}"

lemma escaped_special: "c \<in> md_special \<Longrightarrow> c \<notin> set s \<Longrightarrow> c \<notin> set (escapeHtml s)"
  using escaped_chars [of c s] by (auto simp: md_special_def)

lemma escape_ends:
  assumes "s \<noteq> []"
  shows "escapeHtml s \<noteq> []" and "js_space (hd (escapeHtml s)) \<longleftrightarrow> js_space (hd s)"
    and "js_space (last (escapeHtml s)) \<longleftrightarrow> js_space (last s)"
proof -
  have e: "escape_char c \<noteq> [] \<and> (js_space (hd (escape_char c)) \<longleftrightarrow> js_space c) \<and>
      (js_space (last (escape_char c)) \<longleftrightarrow> js_space c)" for c
    by (cases rule: escape_char_cases [of c]) (simp_all add: js_space_def)
  obtain c t where c: "s = c # t" using assms by (cases s) auto
  show ne: "escapeHtml s \<noteq> []" using e by (simp add: c escapeHtml_Cons)
  show "js_space (hd (escapeHtml s)) \<longleftrightarrow> js_space (hd s)" using e by (simp add: c escapeHtml_Cons)
  obtain u d where d: "s = u @ [d]" using assms by (cases s rule: rev_cases) auto
  show "js_space (last (escapeHtml s)) \<longleftrightarrow> js_space (last s)" using e by (simp add: d escapeHtml_Cons)
qed

lemma late_passes_absent:
  assumes "star \<notin> set a" and "CHR ''_'' \<notin> set a" and "nul \<notin> set a"
  shows "replace_at (match_mark k fs) 0 (replace_at (match_mark k' cs) 0
    (replace_em (CHR ''_'') (replace_em star (replace_at match_bold 0 a)))) = a"
  using assms by (simp add: replace_at_absent [OF bold_absent] replace_em_absent replace_at_absent [OF mark_absent])

text \<open>The last passes on a text without line ends that is trimmed.\<close>

lemma md_one_block:
  assumes "newline \<notin> set s" and "js_trim s = s" and "s \<noteq> []" and "\<not> js_starts_with s ''<pre>''"
  shows "concat (map md_block (split_blank [] s)) = ''<p>'' @ s @ ''</p>''"
  using assms by (simp add: split_blank_absent md_block_def replace_char_absent)

text \<open>
  Text without markup is escaped and put into one paragraph: nothing in it is read as a tag.
\<close>

theorem markdown_plain_text:
  assumes "set text \<inter> md_special = {}" and "js_trim text = text" and "text \<noteq> []"
  shows "markdownToHtml valid text = ''<p>'' @ escapeHtml text @ ''</p>''"
proof -
  let ?e = "escapeHtml text"
  have t: "backtick \<notin> set text" using assms(1) by (auto simp: md_special_def)
  have e: "CHR ''['' \<notin> set ?e" "star \<notin> set ?e" "CHR ''_'' \<notin> set ?e" "nul \<notin> set ?e" "newline \<notin> set ?e"
    by (rule escaped_special; use assms(1) in \<open>auto simp: md_special_def\<close>)+
  have "\<not> js_space (hd ?e)" "\<not> js_space (last ?e)"
    using escape_ends [OF assms(3)] trim_ends [OF assms(2,3)] by simp_all
  then have trim: "js_trim ?e = ?e" by (simp add: trimmed_iff)
  have "lt \<notin> set ?e" using escaped_plain by blast
  then have pre: "\<not> js_starts_with ?e ''<pre>''" by (cases ?e) (auto simp: js_starts_with_def)
  have "markdownToHtml valid text = concat (map md_block (split_blank [] ?e))"
    using assms(3) e
    by (simp add: markdownToHtml_def fences_absent [OF t] inlines_absent [OF t] replace_at_absent [OF link_absent]
        replace_at_absent [OF bold_absent] replace_em_absent replace_at_absent [OF mark_absent])
  then show ?thesis by (simp only: md_one_block [OF e(5) trim escape_ends(1) [OF assms(3)] pre])
qed

lemma markdown_plain_text_witness:
  "markdownToHtml (\<lambda>_. False) ''<b>1 & 2'' = ''<p>&lt;b&gt;1 &amp; 2</p>''"
proof -
  have "set ''<b>1 & 2'' \<inter> md_special = {}" "js_trim ''<b>1 & 2'' = ''<b>1 & 2''"
    by (simp add: md_special_def, code_simp)
  from markdown_plain_text [OF this, of "\<lambda>_. False"] show ?thesis
    by (simp add: escapeHtml_Cons escape_char_def)
qed

section \<open>Links\<close>

definition link_text_ok :: "string \<Rightarrow> bool" where
  "link_text_ok s \<longleftrightarrow> s \<noteq> [] \<and> set s \<inter> (md_special \<union> {CHR '']'', CHR '')''}) = {} \<and> list_all (\<lambda>c. \<not> js_space c) s"

lemma escape_link_text:
  assumes "link_text_ok s"
  shows "link_text_ok (escapeHtml s)"
proof -
  have "c \<notin> set s \<Longrightarrow> c \<in> {CHR '']'', CHR '')''} \<Longrightarrow> c \<notin> set (escapeHtml s)" for c
    using escaped_chars [of c s] by auto
  moreover have "c \<in> set (escapeHtml s) \<Longrightarrow> \<not> js_space c" for c
    using escaped_chars [of c s] assms by (auto simp: link_text_ok_def list_all_iff js_space_def)
  moreover have "set (escapeHtml s) \<inter> md_special = {}"
    using assms escaped_special unfolding link_text_ok_def by blast
  ultimately show ?thesis
    using assms escape_ends(1) [of s] by (auto simp: link_text_ok_def list_all_iff)
qed

lemma takeWhile_stop: "list_all p s \<Longrightarrow> \<not> p c \<Longrightarrow> takeWhile p (s @ c # r) = s \<and> dropWhile p (s @ c # r) = c # r"
  by (simp add: list_all_iff takeWhile_append2 dropWhile_append2)

lemma url_match:
  assumes "link_text_ok (''https://'' @ v)" and "v \<noteq> []"
  shows "match_url (''https://'' @ v @ '')'' @ r) = Some (''https://'' @ v)"
proof -
  have "list_all url_char (''https://'' @ v)" using assms(1) by (auto simp: link_text_ok_def list_all_iff url_char_def)
  then have u: "list_all url_char (''https://'' @ v)" "list_all url_char v" by simp_all
  have stop: "\<not> url_char (CHR '')'')" by (simp add: url_char_def)
  have "takeWhile url_char (''https://'' @ v @ '')'' @ r) = ''https://'' @ v"
    using takeWhile_stop [OF u(1) stop, of r] by simp
  moreover have "takeWhile url_char (v @ '')'' @ r) = v" "dropWhile url_char (v @ '')'' @ r) = '')'' @ r"
    using takeWhile_stop [OF u(2) stop, of r] by simp_all
  ultimately show ?thesis using assms(2) by (simp add: match_url_def js_starts_with_def)
qed

lemma link_match:
  assumes "link_text_ok l" and "link_text_ok (''https://'' @ v)" and "v \<noteq> []"
    and "isSafeUrl valid (''https://'' @ v) ALLOWED_HREF_SCHEMES"
  shows "match_link valid (''['' @ l @ '']('' @ ''https://'' @ v @ '')'') =
    Some (''<a href='' @ [dquote] @ escapeHtml (''https://'' @ v) @ [dquote] @ ''>'' @ l @ ''</a>'',
      length (''['' @ l @ '']('' @ ''https://'' @ v @ '')''))"
proof -
  have "list_all (\<lambda>d. d \<noteq> CHR '']'') l" using assms(1) by (auto simp: link_text_ok_def list_all_iff)
  from takeWhile_stop [OF this, of "CHR '']''" "''('' @ ''https://'' @ v @ '')''"]
  have "takeWhile (\<lambda>d. d \<noteq> CHR '']'') (l @ '']('' @ ''https://'' @ v @ '')'') = l"
    "dropWhile (\<lambda>d. d \<noteq> CHR '']'') (l @ '']('' @ ''https://'' @ v @ '')'') = '']('' @ ''https://'' @ v @ '')''"
    by simp_all
  moreover have "l \<noteq> []" using assms(1) by (simp add: link_text_ok_def)
  ultimately show ?thesis
    using url_match [OF assms(2,3), of "[]"] assms(4)
    by (simp add: match_link_def Let_def js_starts_with_def)
qed

text \<open>
  The address of a link is escaped twice: once with the whole text and once more when the
  link is written, so that the address a reader decodes is the escaped one.
\<close>

theorem markdown_link_escaped_twice:
  assumes "link_text_ok l" and "link_text_ok (''https://'' @ v)" and "v \<noteq> []"
    and "isSafeUrl valid (escapeHtml (''https://'' @ v)) ALLOWED_HREF_SCHEMES"
  shows "markdownToHtml valid (''['' @ l @ '']('' @ ''https://'' @ v @ '')'') =
    ''<p><a href='' @ [dquote] @ escapeHtml (escapeHtml (''https://'' @ v)) @ [dquote] @ ''>'' @ escapeHtml l @ ''</a></p>''"
proof -
  let ?t = "''['' @ l @ '']('' @ ''https://'' @ v @ '')''"
  let ?u = "''https://'' @ escapeHtml v"
  let ?a = "''<a href='' @ [dquote] @ escapeHtml ?u @ [dquote] @ ''>'' @ escapeHtml l @ ''</a>''"
  have t: "backtick \<notin> set ?t" using assms(1,2) by (auto simp: link_text_ok_def md_special_def)
  have eu: "escapeHtml (''https://'' @ v) = ?u" by (simp add: escapeHtml_Cons escape_char_def)
  have et: "escapeHtml ?t = ''['' @ escapeHtml l @ '']('' @ ?u @ '')''" by (simp add: escapeHtml_Cons escape_char_def)
  have ok: "link_text_ok (escapeHtml l)" "link_text_ok ?u"
    using escape_link_text [OF assms(1)] escape_link_text [OF assms(2)] unfolding eu .
  have ok3: "link_text_ok (escapeHtml ?u)" by (rule escape_link_text [OF ok(2)])
  have ne: "escapeHtml v \<noteq> []" using escape_ends(1) [OF assms(3)] .
  have "match_link valid (escapeHtml ?t) = Some (?a, length (escapeHtml ?t))"
    using link_match [OF ok(1) ok(2) ne, of valid] assms(4) unfolding et eu by (simp only: append_assoc)
  moreover obtain c r where c: "escapeHtml ?t = c # r" unfolding et by simp
  moreover have "replace_at m (length r) r = []" for m using replace_at_skip [of m r "[]"] by simp
  ultimately have w4: "replace_at (match_link valid) 0 (escapeHtml ?t) = ?a" by simp
  have a: "star \<notin> set ?a" "CHR ''_'' \<notin> set ?a" "nul \<notin> set ?a" "newline \<notin> set ?a"
    using ok(1) ok3 by (auto simp: link_text_ok_def md_special_def)
  have "js_trim ?a = ?a" by (simp add: trimmed_iff js_space_def)
  moreover have "\<not> js_starts_with ?a ''<pre>''" by (simp add: js_starts_with_def)
  ultimately have blocks: "concat (map md_block (split_blank [] ?a)) = ''<p>'' @ ?a @ ''</p>''"
    by (intro md_one_block [OF a(4)]) simp_all
  have "markdownToHtml valid ?t = concat (map md_block (split_blank [] ?a))"
    unfolding markdownToHtml_def fences_absent [OF t] inlines_absent [OF t] prod.case Let_def w4
      late_passes_absent [OF a(1-3)] by simp
  then show ?thesis unfolding blocks eu by (simp only: append_assoc append_Cons append_Nil)
qed

lemma markdown_link_escaped_twice_witness:
  "markdownToHtml (\<lambda>_. True) (''['' @ ''x'' @ '']('' @ ''https://'' @ ''h/?a&b'' @ '')'') =
     ''<p><a href='' @ [dquote] @ ''https://h/?a&amp;amp;b'' @ [dquote] @ ''>x</a></p>''"
proof -
  have l: "link_text_ok ''x''" "link_text_ok (''https://'' @ ''h/?a&b'')"
    by (simp_all add: link_text_ok_def md_special_def js_space_def)
  have s: "isSafeUrl (\<lambda>_. True) (escapeHtml (''https://'' @ ''h/?a&b'')) ALLOWED_HREF_SCHEMES" by code_simp
  show ?thesis
    using markdown_link_escaped_twice [OF l _ s] by (simp add: escapeHtml_Cons escape_char_def)
qed

section \<open>Code with blank lines\<close>

lemma split_blank_append:
  "newline \<notin> set a \<Longrightarrow> newline \<notin> set b \<Longrightarrow> b \<noteq> [] \<Longrightarrow>
     split_blank acc (a @ newline # newline # b) = [acc @ a, b]"
proof (induction a arbitrary: acc)
  case Nil
  then obtain c t where "b = c # t" "c \<noteq> newline" by (cases b) auto
  with Nil show ?case by (simp add: js_starts_with_def split_blank_absent)
qed auto

text \<open>
  A fenced block is put back before the text is cut into paragraphs, so a blank line in the
  code closes nothing and opens a paragraph inside the code element.
\<close>

theorem code_block_torn:
  assumes "list_all ascii_alpha a" and "list_all ascii_alpha b" and "a \<noteq> []" and "b \<noteq> []"
  shows "markdownToHtml valid (fence @ [newline] @ a @ [newline, newline] @ b @ fence) =
    ''<pre><code>'' @ a @ ''<p>'' @ b @ ''</code></pre></p>''"
proof -
  let ?code = "a @ [newline, newline] @ b"
  have no: "\<not> ascii_alpha newline" "\<not> ascii_alpha backtick" "\<not> ascii_alpha (CHR ''&'')" "\<not> ascii_alpha lt"
    "\<not> ascii_alpha gt" "\<not> ascii_alpha dquote" "\<not> ascii_alpha squote" by code_simp+
  have "ascii_alpha c \<Longrightarrow> \<not> js_space c" for c
    by (auto simp: ascii_alpha_def js_space_def Let_def)
  moreover have "ascii_alpha c \<Longrightarrow> c \<notin> {newline, backtick, CHR ''&'', lt, gt, dquote, squote}" for c using no by auto
  ultimately have alpha: "ascii_alpha c \<Longrightarrow> c \<noteq> newline \<and> c \<noteq> backtick \<and> \<not> js_space c \<and> escape_char c = [c]" for c
    unfolding escape_char_def by simp
  have e: "list_all ascii_alpha s \<Longrightarrow> escapeHtml s = s" for s
    using alpha by (induction s) (simp_all add: escapeHtml_Cons)
  have n: "newline \<notin> set a" "newline \<notin> set b" "backtick \<notin> set ?code"
    using assms(1,2) alpha by (auto simp: list_all_iff)
  have until: "backtick \<notin> set s \<Longrightarrow> until fence (s @ fence) = Some (s, [])" for s
    by (induction s) (auto simp: fence_def js_starts_with_def)
  have f: "match_fence (fence @ [newline] @ ?code @ fence) = Some ([], ?code, [])"
    using until [OF n(3)] by (simp add: match_fence_def js_starts_with_def fence_def skip_newline_def lang_char_def
        ascii_alpha_def ascii_digit_def numeral_3_eq_3)
  have "last ?code \<noteq> newline" using assms(4) n(2) by (metis append_is_Nil_conv last_appendR last_in_set)
  moreover have "escapeHtml ?code = ?code" by (simp add: e assms escapeHtml_Cons escape_char_def)
  ultimately have html: "fence_html [] ?code = ''<pre><code>'' @ ?code @ ''</code></pre>''"
    by (simp add: fence_html_def drop_final_newline_def)
  have w1: "cut_fences (fence @ [newline] @ ?code @ fence) [] = (mark (CHR ''F'') 0, [fence_html [] ?code])"
    using f by (simp add: fence_def cut_fences.simps(2))
  have m: "mark (CHR ''F'') 0 = [nul, CHR ''F'', CHR ''0'', nul]" by code_simp
  have w3: "escapeHtml [nul, CHR ''F'', CHR ''0'', nul] = [nul, CHR ''F'', CHR ''0'', nul]"
    by (simp add: escapeHtml_Cons escape_char_def)
  have w2: "cut_inlines [nul, CHR ''F'', CHR ''0'', nul] [] = ([nul, CHR ''F'', CHR ''0'', nul], [])"
    by (rule inlines_absent) simp
  have w4: "replace_at (match_link valid) 0 [nul, CHR ''F'', CHR ''0'', nul] = [nul, CHR ''F'', CHR ''0'', nul]"
    by (rule replace_at_absent [where d = "CHR ''[''", OF link_absent]) simp_all
  have w5: "replace_at match_bold 0 [nul, CHR ''F'', CHR ''0'', nul] = [nul, CHR ''F'', CHR ''0'', nul]"
    by (rule replace_at_absent [where d = star, OF bold_absent]) simp_all
  have w6: "replace_em d [nul, CHR ''F'', CHR ''0'', nul] = [nul, CHR ''F'', CHR ''0'', nul]" if "d \<in> {star, CHR ''_''}" for d
    by (rule replace_em_absent) (use that in auto)
  have w6: "replace_em star [nul, CHR ''F'', CHR ''0'', nul] = [nul, CHR ''F'', CHR ''0'', nul]"
    "replace_em (CHR ''_'') [nul, CHR ''F'', CHR ''0'', nul] = [nul, CHR ''F'', CHR ''0'', nul]"
    by (simp_all add: w6)
  have c: "replace_at (match_mark (CHR ''C'') []) 0 [nul, CHR ''F'', CHR ''0'', nul] = [nul, CHR ''F'', CHR ''0'', nul]"
    by (simp add: match_mark_def js_starts_with_def)
  have r: "replace_at (match_mark (CHR ''F'') [h]) 0 [nul, CHR ''F'', CHR ''0'', nul] = h" for h
    by (simp add: match_mark_def js_starts_with_def ascii_digit_def dec_value_def numeral_3_eq_3)
  have split: "split_blank [] (''<pre><code>'' @ ?code @ ''</code></pre>'') = [''<pre><code>'' @ a, b @ ''</code></pre>'']"
    using split_blank_append [of "''<pre><code>'' @ a" "b @ ''</code></pre>''" "[]"] n by simp
  have trim1: "js_trim (''<pre><code>'' @ a) = ''<pre><code>'' @ a"
    using assms(1,3) alpha by (auto simp: trimmed_iff js_space_def list_all_iff)
  have trim2: "js_trim (b @ ''</code></pre>'') = b @ ''</code></pre>''"
    using assms(2,4) alpha by (cases b) (auto simp: trimmed_iff js_space_def)
  have "\<not> js_starts_with (b @ ''</code></pre>'') ''<pre>''"
    using assms(2,4) by (cases b) (auto simp: js_starts_with_def ascii_alpha_def)
  then have b2: "md_block (b @ ''</code></pre>'') = ''<p>'' @ b @ ''</code></pre></p>''"
    using assms(4) n(2) unfolding md_block_def trim2 Let_def by (simp add: replace_char_absent)
  have b1: "md_block (''<pre><code>'' @ a) = ''<pre><code>'' @ a"
    unfolding md_block_def trim1 Let_def by (simp add: js_starts_with_def)
  have blocks: "concat (map md_block [''<pre><code>'' @ a, b @ ''</code></pre>'']) =
      ''<pre><code>'' @ a @ ''<p>'' @ b @ ''</code></pre></p>''"
    unfolding list.map b1 b2 by simp
  have "markdownToHtml valid (fence @ [newline] @ ?code @ fence) =
      concat (map md_block (split_blank [] (fence_html [] ?code)))"
    unfolding markdownToHtml_def w1 prod.case m w2 w3 w4 w5 w6 c r Let_def by (simp add: fence_def)
  then show ?thesis unfolding html split blocks by simp
qed

lemma code_block_torn_witness:
  "markdownToHtml (\<lambda>_. True) (fence @ [newline] @ ''x'' @ [newline, newline] @ ''y'' @ fence) =
     ''<pre><code>'' @ ''x'' @ ''<p>'' @ ''y'' @ ''</code></pre></p>''"
  by (rule code_block_torn) (simp_all add: ascii_alpha_def)

text \<open>
  Emphasis: the second of two words in asterisks is missed, because the first match takes
  the space between them; underscores inside a word and inside an address count.
\<close>

lemma markdown_emphasis_slips:
  "markdownToHtml (\<lambda>_. True) ''*a* *b*'' = ''<p><em>a</em> *b*</p>''"
  "markdownToHtml (\<lambda>_. True) ''foo_bar_baz'' = ''<p>foo<em>bar</em>baz</p>''"
  "markdownToHtml (\<lambda>_. True) ''[x](https://h/a_b_c)'' =
     ''<p><a href='' @ [dquote] @ ''https://h/a<em>b</em>c'' @ [dquote] @ ''>x</a></p>''"
  by code_simp+

end
