(* ===== verification/Storage_Lock.thy ===== *)
theory Storage_Lock
  imports Js_Prelude Js_Util
begin

text \<open>
  The lock on a storage directory (\<^verbatim>\<open>storage-lock.ts\<close>). A lock object remembers whether it
  holds the lock; the lock itself is a JSON file naming the process that took it. The
  operations read and write the files of \<open>Js_Util\<close>. What \<^verbatim>\<open>process.kill(pid, 0)\<close> answers is
  an argument. A second part lets several processes take, release and lose the lock, with
  \<open>acquire\<close> either in one piece or cut between its check and its write, as the system may
  schedule it, and shows when the lock excludes.
\<close>

section \<open>The lock object\<close>

definition LOCK_FILE :: string where
  "LOCK_FILE = ''aiomatrix.lock''"

text \<open>Joining a normalised directory and the name of the lock file.\<close>

definition lockPath :: "string \<Rightarrow> string" where
  "lockPath dir = dir @ ''/'' @ LOCK_FILE"

definition lock_tmp :: "string \<Rightarrow> string \<Rightarrow> string \<Rightarrow> string" where
  "lock_tmp dir pid rid = dir @ ''/'' @ tmp_name LOCK_FILE pid rid"

lemma lock_tmp_neq [simp]: "lock_tmp dir pid rid \<noteq> lockPath dir"
  by (simp add: lock_tmp_def lockPath_def tmp_name_neq)

text \<open>What the signal 0 answers, and the conversion of a value that is no number for \<open>\<le> 0\<close>.\<close>

datatype kill_answer = KillOk | KillEperm | KillOther

record os_view =
  os_kill0 :: "json \<Rightarrow> kill_answer"
  os_le0 :: "json \<Rightarrow> bool"

fun json_truthy :: "json \<Rightarrow> bool" where
  "json_truthy JNull = False"
| "json_truthy (JBool b) = b"
| "json_truthy (JNum n) = (n \<noteq> Fin 0)"
| "json_truthy (JStr s) = (s \<noteq> [])"
| "json_truthy (JArr _) = True"
| "json_truthy (JObj _) = True"

definition json_le0 :: "os_view \<Rightarrow> json \<Rightarrow> bool" where
  "json_le0 os v = (case v of JNum (Fin n) \<Rightarrow> n \<le> 0 | JNum PInf \<Rightarrow> False | JNum NInf \<Rightarrow> True | _ \<Rightarrow> os_le0 os v)"

definition isPidAlive :: "os_view \<Rightarrow> json \<Rightarrow> bool" where
  "isPidAlive os pid =
     (if \<not> json_truthy pid \<or> json_le0 os pid then False
      else case os_kill0 os pid of KillOk \<Rightarrow> True | KillEperm \<Rightarrow> True | KillOther \<Rightarrow> False)"

text \<open>\<open>existing?.pid\<close>: \<open>None\<close> is \<open>undefined\<close>.\<close>

definition pid_of :: "json \<Rightarrow> json option" where
  "pid_of v = (if isPlainObject v then json_prop v ''pid'' else None)"

datatype lock_error = LockedInThisProcess | LockedByPid json | MkdirFailed | LockWriteFailed

definition lock_info :: "int \<Rightarrow> int \<Rightarrow> string option \<Rightarrow> json" where
  "lock_info pid now host =
     JObj ([(''pid'', JNum (Fin pid)), (''startedAtMs'', JNum (Fin now))] @
           (case host of None \<Rightarrow> [] | Some h \<Rightarrow> [(''hostname'', JStr h)]))"

text \<open>The part of \<open>acquire\<close> before the write, \<open>None\<close> when it does not throw.\<close>

definition acquire_check :: "os_view \<Rightarrow> int \<Rightarrow> string \<Rightarrow> file_system \<Rightarrow> lock_error option" where
  "acquire_check os pid dir fs =
     (case pid_of (readJsonSafe fs (lockPath dir)) of
        None \<Rightarrow> None
      | Some p \<Rightarrow>
          if \<not> json_truthy p then None
          else if p = JNum (Fin pid) then Some LockedInThisProcess
          else if isPidAlive os p then Some (LockedByPid p)
          else None)"

definition acquire_write ::
  "int \<Rightarrow> int \<Rightarrow> string option \<Rightarrow> string \<Rightarrow> string \<Rightarrow> write_outcome \<Rightarrow> file_system
     \<Rightarrow> (lock_error + json) \<times> bool \<times> file_system" where
  "acquire_write pid now host dir tmp outcome fs =
     (case writeJsonAtomic (lockPath dir) tmp (lock_info pid now host) outcome fs of
        (Inl _, fs') \<Rightarrow> (Inl LockWriteFailed, False, fs')
      | (Inr _, fs') \<Rightarrow> (Inr (lock_info pid now host), True, fs'))"

definition acquire ::
  "os_view \<Rightarrow> int \<Rightarrow> int \<Rightarrow> string option \<Rightarrow> string \<Rightarrow> string \<Rightarrow> bool \<Rightarrow> write_outcome \<Rightarrow> bool \<Rightarrow> file_system
     \<Rightarrow> (lock_error + json) \<times> bool \<times> file_system" where
  "acquire os pid now host dir tmp mkdir_ok outcome held fs =
     (if held then
        (Inr (case readJsonSafe fs (lockPath dir) of JNull \<Rightarrow> lock_info pid now None | v \<Rightarrow> v), True, fs)
      else if \<not> mkdir_ok then (Inl MkdirFailed, False, fs)
      else case acquire_check os pid dir fs of
             Some e \<Rightarrow> (Inl e, False, fs)
           | None \<Rightarrow> acquire_write pid now host dir tmp outcome fs)"

text \<open>\<open>rm_ok\<close>: the removal does not throw; an error is swallowed and the file stays.\<close>

definition release :: "int \<Rightarrow> string \<Rightarrow> bool \<Rightarrow> bool \<Rightarrow> file_system \<Rightarrow> bool \<times> file_system" where
  "release pid dir rm_ok held fs =
     (if \<not> held then (False, fs)
      else (False,
        if pid_of (readJsonSafe fs (lockPath dir)) = Some (JNum (Fin pid)) \<and> rm_ok
        then fs(lockPath dir := None) else fs))"

definition lock_peek :: "string \<Rightarrow> file_system \<Rightarrow> json" where
  "lock_peek dir fs = readJsonSafe fs (lockPath dir)"

text \<open>The process a lock file names.\<close>

definition lock_owner :: "string \<Rightarrow> file_system \<Rightarrow> json option" where
  "lock_owner dir fs = pid_of (lock_peek dir fs)"

lemma pid_of_info [simp]: "pid_of (json_norm (lock_info pid now host)) = Some (JNum (Fin pid))"
  by (simp add: pid_of_def lock_info_def isPlainObject_def json_prop_def split: option.split)

lemma acquire_write_ok:
  "tmp \<noteq> lockPath dir \<Longrightarrow> fst (snd (acquire_write pid now host dir tmp out fs)) = (out = WriteOk) \<and>
     (snd (snd (acquire_write pid now host dir tmp out fs))) (lockPath dir) =
       (if out = WriteOk then Some (Json (json_norm (lock_info pid now host))) else fs (lockPath dir))"
  using writeJsonAtomic_target [of tmp "lockPath dir" "lock_info pid now host" out fs]
  by (cases out) (auto simp: acquire_write_def writeJsonAtomic_def Let_def)

lemma lock_owner_cong: "fs' (lockPath dir) = fs (lockPath dir) \<Longrightarrow> lock_owner dir fs' = lock_owner dir fs"
  by (simp add: lock_owner_def lock_peek_def readJsonSafe_def)

lemma lock_owner_json: "fs (lockPath dir) = Some (Json v) \<Longrightarrow> lock_owner dir fs = pid_of v"
  by (simp add: lock_owner_def lock_peek_def readJsonSafe_def)

lemma acquire_check_owner:
  "acquire_check os pid dir fs = None \<longleftrightarrow>
     (\<forall>p. lock_owner dir fs = Some p \<longrightarrow> json_truthy p \<longrightarrow> p \<noteq> JNum (Fin pid) \<and> \<not> isPidAlive os p)"
  by (auto simp: acquire_check_def lock_owner_def lock_peek_def split: option.splits)

section \<open>Processes that share a directory\<close>

text \<open>
  A lock object lives in a process, given by its host and process id; objects of one process
  share both. An acquire runs in one piece (\<open>LAcquire\<close>), or its check and its write are two
  moments between which other processes run (\<open>LCheck\<close>, \<open>LWrite\<close>). A process that dies
  (\<open>LDie\<close>) leaves the file behind, and its id may be given to a new process. A view is what
  signal 0 answers on a host; it must find the processes alive there, but may also find
  others.
\<close>

record lock_obj =
  lo_host :: nat
  lo_pid :: int
  lo_alive :: bool
  lo_held :: bool
  lo_checked :: bool

record lock_world =
  lw_objs :: "lock_obj list"
  lw_fs :: file_system

datatype lock_event =
    LSpawn nat int
  | LAcquire nat os_view int "string option" string bool write_outcome
  | LCheck nat os_view bool
  | LWrite nat int "string option" string write_outcome
  | LRelease nat bool
  | LDie nat int

definition lw_obj :: "lock_world \<Rightarrow> nat \<Rightarrow> lock_obj" where
  "lw_obj w i = lw_objs w ! i"

definition runnable :: "lock_world \<Rightarrow> nat \<Rightarrow> bool" where
  "runnable w i \<longleftrightarrow> i < length (lw_objs w) \<and> lo_alive (lw_obj w i)"

text \<open>Host \<open>h\<close> answers signal 0 for each of its processes.\<close>

definition sees_processes :: "lock_world \<Rightarrow> nat \<Rightarrow> os_view \<Rightarrow> bool" where
  "sees_processes w h os \<longleftrightarrow>
     list_all (\<lambda>p. lo_alive p \<and> lo_host p = h \<longrightarrow> os_kill0 os (JNum (Fin (lo_pid p))) \<noteq> KillOther) (lw_objs w)"

definition set_obj :: "nat \<Rightarrow> bool \<Rightarrow> bool \<Rightarrow> file_system \<Rightarrow> lock_world \<Rightarrow> lock_world" where
  "set_obj i held checked fs w =
     w\<lparr>lw_objs := (lw_objs w)[i := (lw_obj w i)\<lparr>lo_held := held, lo_checked := checked\<rparr>], lw_fs := fs\<rparr>"

text \<open>
  A process is single-threaded: none of its objects runs while one of them is between check
  and write.
\<close>

definition idle :: "lock_world \<Rightarrow> nat \<Rightarrow> bool" where
  "idle w i \<longleftrightarrow>
     list_all (\<lambda>p. lo_host p = lo_host (lw_obj w i) \<and> lo_pid p = lo_pid (lw_obj w i) \<and> lo_alive p \<longrightarrow> \<not> lo_checked p)
       (lw_objs w)"

fun lock_enabled :: "string \<Rightarrow> lock_event \<Rightarrow> lock_world \<Rightarrow> bool" where
  "lock_enabled dir (LSpawn h p) w = (p > 0)"
| "lock_enabled dir (LAcquire i os now host tmp mk out) w =
     (runnable w i \<and> idle w i \<and> sees_processes w (lo_host (lw_obj w i)) os \<and> tmp \<noteq> lockPath dir)"
| "lock_enabled dir (LCheck i os mk) w =
     (runnable w i \<and> idle w i \<and> sees_processes w (lo_host (lw_obj w i)) os \<and> \<not> lo_held (lw_obj w i))"
| "lock_enabled dir (LWrite i now host tmp out) w =
     (runnable w i \<and> lo_checked (lw_obj w i) \<and> tmp \<noteq> lockPath dir)"
| "lock_enabled dir (LRelease i rm_ok) w = (runnable w i \<and> idle w i)"
| "lock_enabled dir (LDie h p) w = True"

fun lock_step :: "string \<Rightarrow> lock_event \<Rightarrow> lock_world \<Rightarrow> lock_world" where
  "lock_step dir (LSpawn h p) w =
     w\<lparr>lw_objs := lw_objs w @ [\<lparr>lo_host = h, lo_pid = p, lo_alive = True, lo_held = False, lo_checked = False\<rparr>]\<rparr>"
| "lock_step dir (LAcquire i os now host tmp mk out) w =
     (case acquire os (lo_pid (lw_obj w i)) now host dir tmp mk out (lo_held (lw_obj w i)) (lw_fs w) of
        (_, held, fs) \<Rightarrow> set_obj i held False fs w)"
| "lock_step dir (LCheck i os mk) w =
     set_obj i False (mk \<and> acquire_check os (lo_pid (lw_obj w i)) dir (lw_fs w) = None) (lw_fs w) w"
| "lock_step dir (LWrite i now host tmp out) w =
     (case acquire_write (lo_pid (lw_obj w i)) now host dir tmp out (lw_fs w) of
        (_, held, fs) \<Rightarrow> set_obj i held False fs w)"
| "lock_step dir (LRelease i rm_ok) w =
     (case release (lo_pid (lw_obj w i)) dir rm_ok (lo_held (lw_obj w i)) (lw_fs w) of
        (held, fs) \<Rightarrow> set_obj i held False fs w)"
| "lock_step dir (LDie h p) w =
     w\<lparr>lw_objs := map (\<lambda>ob. if lo_host ob = h \<and> lo_pid ob = p then ob\<lparr>lo_alive := False\<rparr> else ob) (lw_objs w)\<rparr>"

text \<open>Cutting an acquire into check and write, with nothing between, is the acquire.\<close>

lemma acquire_cut:
  "acquire os pid now host dir tmp mk out False fs =
     (if mk \<and> acquire_check os pid dir fs = None then acquire_write pid now host dir tmp out fs
      else (Inl (if mk then the (acquire_check os pid dir fs) else MkdirFailed), False, fs))"
  by (auto simp: acquire_def split: option.split)

text \<open>The events a host allows when its processes never run between a check and its write.\<close>

fun in_one_piece :: "nat \<Rightarrow> lock_event \<Rightarrow> bool" where
  "in_one_piece h (LCheck _ _ _) = False"
| "in_one_piece h (LWrite _ _ _ _ _) = False"
| "in_one_piece h (LSpawn h' _) = (h' = h)"
| "in_one_piece h _ = True"

fun run_locks :: "string \<Rightarrow> lock_event list \<Rightarrow> lock_world \<Rightarrow> lock_world option" where
  "run_locks dir [] w = Some w"
| "run_locks dir (e # es) w =
     (if lock_enabled dir e w then run_locks dir es (lock_step dir e w) else None)"

definition no_processes :: "file_system \<Rightarrow> lock_world" where
  "no_processes fs = \<lparr>lw_objs = [], lw_fs = fs\<rparr>"

inductive lock_reach :: "string \<Rightarrow> (lock_event \<Rightarrow> bool) \<Rightarrow> lock_world \<Rightarrow> bool" for dir allowed where
  start: "lock_reach dir allowed (no_processes fs)"
| step: "lock_reach dir allowed w \<Longrightarrow> allowed e \<Longrightarrow> lock_enabled dir e w \<Longrightarrow> lock_reach dir allowed (lock_step dir e w)"

lemma run_locks_reach:
  "run_locks dir es w = Some w' \<Longrightarrow> lock_reach dir allowed w \<Longrightarrow> list_all allowed es \<Longrightarrow> lock_reach dir allowed w'"
  by (induction es arbitrary: w) (auto split: if_splits intro: lock_reach.step)

text \<open>An object holds the lock, in a live process.\<close>

definition holds :: "lock_world \<Rightarrow> nat \<Rightarrow> bool" where
  "holds w i \<longleftrightarrow> runnable w i \<and> lo_held (lw_obj w i)"

definition lock_inv :: "string \<Rightarrow> nat \<Rightarrow> lock_world \<Rightarrow> bool" where
  "lock_inv dir h w \<longleftrightarrow>
     (\<forall>i < length (lw_objs w). lo_host (lw_obj w i) = h \<and> lo_pid (lw_obj w i) > 0) \<and>
     (\<forall>i. holds w i \<longrightarrow> lock_owner dir (lw_fs w) = Some (JNum (Fin (lo_pid (lw_obj w i))))) \<and>
     (\<forall>i j. holds w i \<longrightarrow> holds w j \<longrightarrow> i = j)"

lemma lw_obj_set [simp]:
  "i < length (lw_objs w) \<Longrightarrow> lw_obj (set_obj i h c fs w) j =
     (if i = j then (lw_obj w i)\<lparr>lo_held := h, lo_checked := c\<rparr> else lw_obj w j)"
  by (simp add: lw_obj_def set_obj_def nth_list_update)

lemma set_obj_simps [simp]:
  "length (lw_objs (set_obj i h c fs w)) = length (lw_objs w)" "lw_fs (set_obj i h c fs w) = fs"
  by (simp_all add: set_obj_def)

lemma holds_set_obj:
  "runnable w i \<Longrightarrow> holds (set_obj i h c fs w) j = (if i = j then h else holds w j)"
  by (auto simp: holds_def runnable_def)

text \<open>What a step may do to the invariant: give the lock up, keep it, or take it when nobody holds it.\<close>

lemma inv_set_free:
  assumes "lock_inv dir h w" "runnable w i" "\<not> holds w i \<Longrightarrow> fs (lockPath dir) = lw_fs w (lockPath dir)"
  shows "lock_inv dir h (set_obj i False c fs w)"
proof -
  have owner: "lock_owner dir fs = lock_owner dir (lw_fs w)" if "holds w j" "i \<noteq> j" for j
  proof -
    have "\<not> holds w i"
      using assms(1) that unfolding lock_inv_def by blast
    then show ?thesis
      using assms(3) by (intro lock_owner_cong) simp
  qed
  have i: "i < length (lw_objs w)"
    using assms(2) by (simp add: runnable_def)
  show ?thesis
    using assms(1) owner i unfolding lock_inv_def
    by (auto simp: holds_set_obj [OF assms(2)])
qed

lemma inv_set_take:
  assumes "lock_inv dir h w" "runnable w i" "\<And>j. \<not> holds w j"
    "lock_owner dir fs = Some (JNum (Fin (lo_pid (lw_obj w i))))"
  shows "lock_inv dir h (set_obj i True c fs w)"
  using assms(1,4) assms(2)[unfolded runnable_def] unfolding lock_inv_def
  by (auto simp: holds_set_obj [OF assms(2)] assms(3))

lemma check_sees_holder:
  assumes "lock_inv dir h w" "runnable w i" "sees_processes w h os"
    "acquire_check os (lo_pid (lw_obj w i)) dir (lw_fs w) = None"
  shows "\<not> holds w j"
proof
  assume j: "holds w j"
  let ?p = "lo_pid (lw_obj w j)"
  have owner: "lock_owner dir (lw_fs w) = Some (JNum (Fin ?p))" and pos: "?p > 0" and host: "lo_host (lw_obj w j) = h"
    using assms(1) j unfolding lock_inv_def holds_def runnable_def by auto
  have "lw_obj w j \<in> set (lw_objs w)" "lo_alive (lw_obj w j)"
    using j by (auto simp: holds_def runnable_def lw_obj_def)
  then have "os_kill0 os (JNum (Fin ?p)) \<noteq> KillOther"
    using assms(3) host by (auto simp: sees_processes_def list_all_iff)
  then have "isPidAlive os (JNum (Fin ?p))"
    using pos by (auto simp: isPidAlive_def json_le0_def split: kill_answer.split)
  then show False
    using assms(4) owner pos by (auto simp: acquire_check_owner)
qed

lemma lock_inv_acquire:
  assumes "lock_inv dir h w" "lock_enabled dir (LAcquire i os now host tmp mk out) w"
  shows "lock_inv dir h (lock_step dir (LAcquire i os now host tmp mk out) w)"
proof -
  let ?p = "lo_pid (lw_obj w i)"
  have run: "runnable w i" and tmp: "tmp \<noteq> lockPath dir" and sees: "sees_processes w h os"
    using assms by (auto simp: lock_inv_def runnable_def)
  show ?thesis
  proof (cases "lo_held (lw_obj w i)")
    case True
    have "lw_obj w i = (lw_obj w i)\<lparr>lo_held := True\<rparr>"
      using True by simp
    then have "lock_inv dir h (set_obj i True False (lw_fs w) w)"
      using assms(1) run True unfolding lock_inv_def
      by (auto simp: holds_set_obj [OF run] holds_def runnable_def)
    then show ?thesis
      using True by (simp add: acquire_def)
  next
    case False
    obtain r held fs where w1: "acquire_write ?p now host dir tmp out (lw_fs w) = (r, held, fs)"
      by (cases "acquire_write ?p now host dir tmp out (lw_fs w)") auto
    note ok = acquire_write_ok [OF tmp, of ?p now host out "lw_fs w", unfolded w1]
    show ?thesis
    proof (cases "mk \<and> acquire_check os ?p dir (lw_fs w) = None")
      case True
      have free: "\<not> holds w j" for j
        by (rule check_sees_holder [OF assms(1) run sees]) (use True in simp)
      have "lock_inv dir h (set_obj i held False fs w)"
      proof (cases held)
        case True
        then have "fs (lockPath dir) = Some (Json (json_norm (lock_info ?p now host)))"
          using ok by (cases "out = WriteOk") auto
        then have "lock_owner dir fs = Some (JNum (Fin ?p))"
          by (simp add: lock_owner_json)
        then show ?thesis
          using inv_set_take [OF assms(1) run free] True by simp
      next
        case False
        then show ?thesis
          using ok inv_set_free [OF assms(1) run, of fs False] by (auto split: if_splits)
      qed
      then show ?thesis
        using True False w1 by (simp add: acquire_cut)
    next
      case False
      then show ?thesis
        using \<open>\<not> lo_held _\<close> inv_set_free [OF assms(1) run, of "lw_fs w" False]
        by (simp add: acquire_cut split del: if_split) (simp add: if_not_P)
    qed
  qed
qed

lemma lock_inv_release:
  assumes "lock_inv dir h w" "lock_enabled dir (LRelease i rm_ok) w"
  shows "lock_inv dir h (lock_step dir (LRelease i rm_ok) w)"
proof -
  have run: "runnable w i"
    using assms(2) by simp
  show ?thesis
  proof (cases "lo_held (lw_obj w i)")
    case True
    then have "holds w i"
      using run by (simp add: holds_def)
    then show ?thesis
      using True inv_set_free [OF assms(1) run] by (auto simp: release_def)
  next
    case False
    then show ?thesis
      using inv_set_free [OF assms(1) run, of "lw_fs w" False] by (simp add: release_def)
  qed
qed

lemma lock_inv_spawn:
  assumes "lock_inv dir h w" "p > 0"
  shows "lock_inv dir h (lock_step dir (LSpawn h p) w)"
proof -
  let ?w = "lock_step dir (LSpawn h p) w"
  have old: "lw_obj ?w i = lw_obj w i" if "i < length (lw_objs w)" for i
    using that by (simp add: lw_obj_def nth_append)
  have new: "lw_obj ?w (length (lw_objs w)) = \<lparr>lo_host = h, lo_pid = p, lo_alive = True, lo_held = False, lo_checked = False\<rparr>"
    by (simp add: lw_obj_def)
  have holds: "holds ?w i = holds w i" for i
    using old new by (cases "i = length (lw_objs w)") (auto simp: holds_def runnable_def less_Suc_eq)
  show ?thesis
    using assms old new unfolding lock_inv_def holds
    by (auto simp: less_Suc_eq holds_def runnable_def)
qed

lemma lock_inv_die:
  assumes "lock_inv dir h w"
  shows "lock_inv dir h (lock_step dir (LDie h' p) w)"
proof -
  let ?w = "lock_step dir (LDie h' p) w"
  have obj: "lw_obj ?w i = (if lo_host (lw_obj w i) = h' \<and> lo_pid (lw_obj w i) = p
      then (lw_obj w i)\<lparr>lo_alive := False\<rparr> else lw_obj w i)" if "i < length (lw_objs w)" for i
    using that by (simp add: lw_obj_def)
  have holds: "holds ?w i \<Longrightarrow> holds w i" for i
    using obj by (auto simp: holds_def runnable_def split: if_splits)
  show ?thesis
    unfolding lock_inv_def
  proof (intro conjI allI impI)
    fix i assume "i < length (lw_objs ?w)"
    then show "lo_host (lw_obj ?w i) = h" "0 < lo_pid (lw_obj ?w i)"
      using obj assms unfolding lock_inv_def by auto
  next
    fix i assume i: "holds ?w i"
    then have "lo_pid (lw_obj ?w i) = lo_pid (lw_obj w i)"
      using obj by (auto simp: holds_def runnable_def)
    then show "lock_owner dir (lw_fs ?w) = Some (JNum (Fin (lo_pid (lw_obj ?w i))))"
      using holds [OF i] assms unfolding lock_inv_def by auto
  next
    fix i j assume "holds ?w i" "holds ?w j"
    then show "i = j"
      using holds assms unfolding lock_inv_def by blast
  qed
qed

lemma lock_reach_inv:
  "lock_reach dir (in_one_piece h) w \<Longrightarrow> lock_inv dir h w"
proof (induction rule: lock_reach.induct)
  case (start fs)
  show ?case
    by (simp add: lock_inv_def no_processes_def holds_def runnable_def)
next
  case (step w e)
  then show ?case
  proof (cases e)
    case (LAcquire i os now host tmp mk out)
    then show ?thesis
      using step lock_inv_acquire by blast
  next
    case (LRelease i rm_ok)
    then show ?thesis
      using step lock_inv_release by blast
  next
    case (LSpawn h' p)
    then show ?thesis
      using step lock_inv_spawn by auto
  next
    case (LDie h' p)
    then show ?thesis
      using step lock_inv_die by blast
  qed auto
qed

section \<open>When the lock excludes\<close>

text \<open>
  C33 (invariant). On one host, with every acquire running in one piece, at most one live lock object
  holds the directory at any moment of any history of processes starting, taking, releasing
  and dying, whatever ids are reused; and while one holds it, the lock file names its process.
\<close>

theorem storage_lock_exclusive:
  "lock_reach dir (in_one_piece h) w \<Longrightarrow> holds w i \<Longrightarrow>
     lock_owner dir (lw_fs w) = Some (JNum (Fin (lo_pid (lw_obj w i)))) \<and> (holds w j \<longrightarrow> i = j)"
  using lock_reach_inv [of dir h w] unfolding lock_inv_def by auto

definition demo_view :: "int list \<Rightarrow> os_view" where
  "demo_view ps = \<lparr>os_kill0 = (\<lambda>v. case v of JNum (Fin n) \<Rightarrow> if n \<in> set ps then KillOk else KillOther | _ \<Rightarrow> KillOther),
     os_le0 = (\<lambda>_. False)\<rparr>"

definition demo_race :: "lock_event list" where
  "demo_race = [LSpawn 0 7, LSpawn 0 8, LCheck 0 (demo_view [7, 8]) True, LCheck 1 (demo_view [7, 8]) True,
     LWrite 0 100 None ''d/t1'' WriteOk, LWrite 1 101 None ''d/t2'' WriteOk]"

definition demo_takeover :: "lock_event list" where
  "demo_takeover = [LSpawn 0 7, LAcquire 0 (demo_view [7]) 100 None ''d/t1'' True WriteOk, LDie 0 7,
     LSpawn 0 8, LAcquire 1 (demo_view [8]) 200 None ''d/t2'' True WriteOk]"

lemmas lock_eval = demo_race_def demo_takeover_def demo_view_def lw_obj_def runnable_def idle_def
  sees_processes_def set_obj_def no_processes_def holds_def lockPath_def LOCK_FILE_def
  acquire_def acquire_check_def acquire_write_def writeJsonAtomic_def release_def Let_def
  lock_info_def pid_of_def isPlainObject_def json_prop_def readJsonSafe_def isPidAlive_def json_le0_def
  lock_owner_def lock_peek_def

lemma demo_takeover_holds:
  "\<exists>w. run_locks ''d'' demo_takeover (no_processes Map.empty) = Some w \<and> holds w 1 \<and> \<not> holds w 0"
  by (simp add: lock_eval)

theorem storage_lock_exclusive_witness:
  "\<exists>w. lock_reach ''d'' (in_one_piece 0) w \<and> holds w 1 \<and> lock_owner ''d'' (lw_fs w) = Some (JNum (Fin (lo_pid (lw_obj w 1))))"
proof -
  obtain w where w: "run_locks ''d'' demo_takeover (no_processes Map.empty) = Some w" "holds w 1"
    using demo_takeover_holds by blast
  have "lock_reach ''d'' (in_one_piece 0) w"
    by (rule run_locks_reach [OF w(1) lock_reach.start]) (simp add: demo_takeover_def)
  then show ?thesis
    using storage_lock_exclusive [of "''d''" 0 w 1] w(2) by blast
qed

text \<open>
  the check and the write are separate calls to the system, and nothing is read after the
  write: two processes that check before either has written both take the lock.
\<close>

theorem storage_lock_race:
  "\<exists>w. run_locks ''d'' demo_race (no_processes Map.empty) = Some w \<and> holds w 0 \<and> holds w 1 \<and>
     lo_pid (lw_obj w 0) \<noteq> lo_pid (lw_obj w 1)"
  by (simp add: lock_eval)

text \<open>
  the lock file records the host, but no check reads it: two hosts that share the
  directory both hold it, the second taking the lock of a process that is alive elsewhere.
\<close>

definition demo_hosts :: "lock_event list" where
  "demo_hosts = [LSpawn 0 7, LAcquire 0 (demo_view [7]) 100 (Some ''a'') ''d/t1'' True WriteOk,
     LSpawn 1 8, LAcquire 1 (demo_view [8]) 200 (Some ''b'') ''d/t2'' True WriteOk]"

theorem storage_lock_two_hosts:
  "\<exists>w. run_locks ''d'' demo_hosts (no_processes Map.empty) = Some w \<and> holds w 0 \<and> holds w 1"
  by (simp add: demo_hosts_def lock_eval)

lemma acquire_own_pid:
  assumes "lock_owner dir fs = Some (JNum (Fin pid))" "pid \<noteq> 0"
  shows "acquire os pid now host dir tmp True out False fs = (Inl LockedInThisProcess, False, fs)"
  using assms by (simp add: acquire_def acquire_check_def lock_owner_def lock_peek_def)

text \<open>The histories of a container: every process that starts gets the same id.\<close>

fun only_pid :: "int \<Rightarrow> lock_event \<Rightarrow> bool" where
  "only_pid p (LSpawn _ p') = (p' = p)"
| "only_pid p (LWrite _ _ _ _ _) = False"
| "only_pid p (LCheck _ _ _) = False"
| "only_pid p _ = True"

definition locked_out :: "string \<Rightarrow> int \<Rightarrow> lock_world \<Rightarrow> bool" where
  "locked_out dir p w \<longleftrightarrow>
     lock_owner dir (lw_fs w) = Some (JNum (Fin p)) \<and>
     list_all (\<lambda>ob. lo_alive ob \<longrightarrow> lo_pid ob = p \<and> \<not> lo_held ob) (lw_objs w)"

lemma locked_out_obj:
  "locked_out dir p w \<Longrightarrow> runnable w i \<Longrightarrow> lo_pid (lw_obj w i) = p \<and> \<not> lo_held (lw_obj w i)"
  by (auto simp: locked_out_def runnable_def lw_obj_def list_all_length)

lemma locked_out_set:
  "locked_out dir p w \<Longrightarrow> runnable w i \<Longrightarrow> locked_out dir p (set_obj i False c (lw_fs w) w)"
  using locked_out_obj [of dir p w i]
  by (auto simp: locked_out_def runnable_def set_obj_def list_all_length nth_list_update)

lemma locked_out_step:
  assumes "locked_out dir p w" "lock_enabled dir e w" "only_pid p e" "p \<noteq> 0"
  shows "locked_out dir p (lock_step dir e w)"
proof (cases e)
  case (LSpawn h p')
  then show ?thesis
    using assms by (simp add: locked_out_def)
next
  case (LAcquire i os now host tmp mk out)
  have ob: "runnable w i" "lo_pid (lw_obj w i) = p" "\<not> lo_held (lw_obj w i)"
    using assms LAcquire locked_out_obj [OF assms(1), of i] by auto
  have "acquire os p now host dir tmp mk out False (lw_fs w) =
      (Inl (if mk then LockedInThisProcess else MkdirFailed), False, lw_fs w)"
    using acquire_own_pid [of dir "lw_fs w" p os now host tmp out] assms(1,4)
    by (cases mk) (auto simp: locked_out_def acquire_def)
  then show ?thesis
    using ob locked_out_set [OF assms(1) ob(1)] LAcquire by simp
next
  case (LRelease i rm)
  then have ob: "runnable w i" "\<not> lo_held (lw_obj w i)"
    using assms locked_out_obj [OF assms(1), of i] by auto
  then show ?thesis
    using locked_out_set [OF assms(1) ob(1)] LRelease by (simp add: release_def)
next
  case (LDie h p')
  then show ?thesis
    using assms(1) unfolding locked_out_def list_all_iff by auto
qed (use assms in auto)

lemma locked_out_run:
  "run_locks dir es w = Some w' \<Longrightarrow> list_all (only_pid p) es \<Longrightarrow> p \<noteq> 0 \<Longrightarrow> locked_out dir p w \<Longrightarrow> locked_out dir p w'"
  by (induction es arbitrary: w) (auto split: if_splits dest: locked_out_step)

text \<open>
  a process that dies while its file names it locks out every later process with the same
  id, for good: an acquire of theirs throws that the directory is locked in this very process.
  A container, whose bot is process 1 in each of its lives, does not start again after a crash.
\<close>

theorem storage_lock_same_pid_locked_out:
  assumes "lock_owner dir (lw_fs w) = Some (JNum (Fin p))" "p \<noteq> 0"
    "list_all (\<lambda>ob. \<not> lo_alive ob) (lw_objs w)"
    "run_locks dir es w = Some w'" "list_all (only_pid p) es"
  shows "\<not> holds w' i"
proof -
  have "locked_out dir p w"
    using assms(1,3) by (auto simp: locked_out_def list_all_iff)
  then have "locked_out dir p w'"
    by (rule locked_out_run [OF assms(4,5,2)])
  then show ?thesis
    using locked_out_obj [of dir p w' i] by (auto simp: holds_def)
qed

definition demo_crashed :: lock_world where
  "demo_crashed = \<lparr>lw_objs = [], lw_fs = [''d/aiomatrix.lock'' \<mapsto> Json (lock_info 1 100 (Some ''a''))]\<rparr>"

definition demo_restart :: "lock_event list" where
  "demo_restart = [LSpawn 0 1, LAcquire 0 (demo_view [1]) 200 (Some ''a'') ''d/t'' True WriteOk]"

theorem storage_lock_same_pid_locked_out_witness:
  "\<exists>w. run_locks ''d'' demo_restart demo_crashed = Some w \<and> runnable w 0 \<and> \<not> holds w 0"
proof -
  obtain w where w: "run_locks ''d'' demo_restart demo_crashed = Some w" "runnable w 0"
    by (simp add: demo_restart_def demo_crashed_def lock_eval)
  have "\<not> holds w 0"
    by (rule storage_lock_same_pid_locked_out [OF _ _ _ w(1), of 1])
      (simp_all add: demo_crashed_def demo_restart_def lock_eval)
  then show ?thesis
    using w by blast
qed

text \<open>
  the lock of a dead process is taken over: when no process answers under the recorded
  id, and the id is not one's own, acquire succeeds and the file names the new process, which
  release removes again.
\<close>

theorem storage_lock_stale_stolen:
  assumes "lock_owner dir fs = Some p" "p \<noteq> JNum (Fin pid)" "os_kill0 os p = KillOther" "tmp \<noteq> lockPath dir"
  shows "\<exists>info fs'. acquire os pid now host dir tmp True WriteOk False fs = (Inr info, True, fs') \<and>
           lock_owner dir fs' = Some (JNum (Fin pid)) \<and>
           release pid dir True True fs' = (False, fs'(lockPath dir := None))"
proof -
  have "acquire_check os pid dir fs = None"
    using assms(1-3) by (auto simp: acquire_check_owner isPidAlive_def)
  then obtain fs' where fs': "acquire os pid now host dir tmp True WriteOk False fs = (Inr (lock_info pid now host), True, fs')"
    "fs' (lockPath dir) = Some (Json (json_norm (lock_info pid now host)))"
    using acquire_write_ok [OF assms(4), of pid now host WriteOk fs]
    by (auto simp: acquire_def acquire_write_def writeJsonAtomic_def Let_def)
  then have own: "lock_owner dir fs' = Some (JNum (Fin pid))"
    by (simp add: lock_owner_json)
  then have "release pid dir True True fs' = (False, fs'(lockPath dir := None))"
    by (simp add: release_def lock_owner_def lock_peek_def)
  then show ?thesis
    using fs'(1) own by blast
qed

theorem storage_lock_stale_stolen_witness:
  "\<exists>info fs'. acquire (demo_view [2]) 2 300 None ''d'' ''d/t'' True WriteOk False (lw_fs demo_crashed) = (Inr info, True, fs')"
  using storage_lock_stale_stolen [of "''d''" "lw_fs demo_crashed" "JNum (Fin 1)" 2 "demo_view [2]" "''d/t''" 300 None]
  by (fastforce simp: demo_crashed_def lock_eval)

end
