(* ===== verification/Miniapp_Query.thy ===== *)
theory Miniapp_Query
  imports Js_Prelude Js_Util Token_Store Callbacks
begin

text \<open>
  \<^verbatim>\<open>src/miniapp/query.ts\<close>: the queries that let a MiniApp answer a launch once. The registry
  in memory and the signed one, whose query id carries the launch under an HMAC and whose
  claims are kept in a used-token store, both interpret the locale \<open>query_store\<close>; that a
  query is answered at most once is proved inside it. The clock is read once per operation.
\<close>

section \<open>Records\<close>

record query_record =
  qr_queryId :: string
  qr_roomId :: string
  qr_userId :: string
  qr_messageId :: "string option"
  qr_appId :: "string option"
  qr_createdAtMs :: int
  qr_expiresAtMs :: int
  qr_answeredAtMs :: "int option"

record query_params =
  qp_roomId :: string
  qp_userId :: string
  qp_messageId :: "string option"
  qp_appId :: "string option"
  qp_ttlMs :: "int option"

text \<open>\<open>userId && record.userId !== userId\<close>.\<close>

definition other_user :: "string option \<Rightarrow> query_record \<Rightarrow> bool" where
  "other_user u r = (case u of None \<Rightarrow> False | Some x \<Rightarrow> x \<noteq> [] \<and> qr_userId r \<noteq> x)"

lemma other_user_answered [simp]: "other_user u (r\<lparr>qr_answeredAtMs := a\<rparr>) = other_user u r"
  by (simp add: other_user_def split: option.split)

section \<open>MiniAppQueryRegistry\<close>

record query_registry =
  mq_queries :: "(string, query_record) jsmap"
  mq_capacity :: int
  mq_ttlMs :: int

definition mq_new :: "int option \<Rightarrow> int option \<Rightarrow> query_registry" where
  "mq_new capacity ttlMs =
     \<lparr>mq_queries = [], mq_capacity = or_default 4096 capacity, mq_ttlMs = or_default (60 * 60 * 1000) ttlMs\<rparr>"

definition mq_prune :: "int \<Rightarrow> query_registry \<Rightarrow> query_registry" where
  "mq_prune now s =
     s\<lparr>mq_queries := jm_evict (mq_capacity s) (jm_filter (\<lambda>_ r. \<not> qr_expiresAtMs r \<le> now) (mq_queries s))\<rparr>"

definition mq_issue :: "int \<Rightarrow> string \<Rightarrow> query_params \<Rightarrow> query_registry \<Rightarrow> query_record \<times> query_registry" where
  "mq_issue now rnd p s =
     (let s1 = mq_prune now s;
          r = \<lparr>qr_queryId = rnd, qr_roomId = qp_roomId p, qr_userId = qp_userId p,
               qr_messageId = qp_messageId p, qr_appId = qp_appId p, qr_createdAtMs = now,
               qr_expiresAtMs = now + or_default (mq_ttlMs s) (qp_ttlMs p), qr_answeredAtMs = None\<rparr>
      in (r, s1\<lparr>mq_queries := jm_set rnd r (mq_queries s1)\<rparr>))"

definition mq_peek :: "int \<Rightarrow> string \<Rightarrow> query_registry \<Rightarrow> query_record option \<times> query_registry" where
  "mq_peek now qid s =
     (case jm_get (mq_queries s) qid of
        None \<Rightarrow> (None, s)
      | Some r \<Rightarrow>
          if qr_expiresAtMs r \<le> now then (None, s\<lparr>mq_queries := jm_del qid (mq_queries s)\<rparr>)
          else (Some r, s))"

text \<open>The record handed out is the one in the map; it is changed in place.\<close>

definition mq_claim ::
  "int \<Rightarrow> string \<Rightarrow> string option \<Rightarrow> query_registry \<Rightarrow> query_record option \<times> query_registry" where
  "mq_claim now qid u s =
     (case mq_peek now qid s of
        (None, s1) \<Rightarrow> (None, s1)
      | (Some r, s1) \<Rightarrow>
          if qr_answeredAtMs r \<noteq> None then (None, s1)
          else if other_user u r then (None, s1)
          else (let r' = r\<lparr>qr_answeredAtMs := Some now\<rparr>
                in (Some r', s1\<lparr>mq_queries := jm_set qid r' (mq_queries s1)\<rparr>)))"

definition mq_release :: "string \<Rightarrow> query_registry \<Rightarrow> query_registry" where
  "mq_release qid s =
     (case jm_get (mq_queries s) qid of
        None \<Rightarrow> s
      | Some r \<Rightarrow> s\<lparr>mq_queries := jm_set qid (r\<lparr>qr_answeredAtMs := None\<rparr>) (mq_queries s)\<rparr>)"

definition mq_revoke :: "string \<Rightarrow> query_registry \<Rightarrow> query_registry" where
  "mq_revoke qid s = s\<lparr>mq_queries := jm_del qid (mq_queries s)\<rparr>"

definition mq_size :: "query_registry \<Rightarrow> nat" where
  "mq_size s = length (mq_queries s)"

section \<open>SignedMiniAppQueryRegistry\<close>

record query_payload =
  pq_r :: string
  pq_u :: string
  pq_m :: "string option"
  pq_a :: "string option"
  pq_c :: int
  pq_e :: int
  pq_n :: string

text \<open>
  The stores' operations (\<open>tryAdd\<close> and \<open>delete\<close> are optional members of the interface), the
  HMAC, and the coding of a JSON value as base64url text. Fractions and infinities, which
  \<open>issue\<close> does not write, are not read.
\<close>

record ('u, 'a) query_env =
  qe_has :: "int \<Rightarrow> string \<Rightarrow> 'u \<Rightarrow> bool \<times> 'u"
  qe_add :: "int \<Rightarrow> string \<Rightarrow> int option \<Rightarrow> 'u \<Rightarrow> 'u"
  qe_tryAdd :: "(int \<Rightarrow> string \<Rightarrow> int option \<Rightarrow> 'u \<Rightarrow> bool \<times> 'u) option"
  qe_delete :: "(int \<Rightarrow> string \<Rightarrow> 'u \<Rightarrow> 'u) option"
  qe_asyncTryAdd :: "int \<Rightarrow> string \<Rightarrow> int option \<Rightarrow> 'a \<Rightarrow> bool \<times> 'a"
  qe_hmac :: "string \<Rightarrow> string \<Rightarrow> string"
  qe_encode :: "json \<Rightarrow> string"
  qe_decode :: "string \<Rightarrow> json option"

record ('u, 'a) signed_queries =
  sq_secret :: string
  sq_ttlMs :: int
  sq_used :: 'u
  sq_asyncUsed :: "'a option"
  sq_issued :: nat

definition sq_new ::
  "string \<Rightarrow> int option \<Rightarrow> 'u \<Rightarrow> 'a option \<Rightarrow> registry_error + ('u, 'a) signed_queries" where
  "sq_new secret ttlMs used asyncUsed =
     (if length secret < 16 then Inl SecretTooShort
      else Inr \<lparr>sq_secret = secret, sq_ttlMs = max 1 (or_default (60 * 60 * 1000) ttlMs), sq_used = used,
                sq_asyncUsed = asyncUsed, sq_issued = 0\<rparr>)"

definition claimedKey :: "string \<Rightarrow> string" where "claimedKey qid = ''mq:claim:'' @ qid"
definition revokedKey :: "string \<Rightarrow> string" where "revokedKey qid = ''mq:rev:'' @ qid"

definition null_str :: "string option \<Rightarrow> json" where
  "null_str v = (case v of None \<Rightarrow> JNull | Some s \<Rightarrow> JStr s)"

definition query_json :: "query_payload \<Rightarrow> json" where
  "query_json p =
     JObj [(''r'', JStr (pq_r p)), (''u'', JStr (pq_u p)), (''m'', null_str (pq_m p)), (''a'', null_str (pq_a p)),
           (''c'', JNum (Fin (pq_c p))), (''e'', JNum (Fin (pq_e p))), (''n'', JStr (pq_n p))]"

definition signQueryToken :: "('u, 'a) query_env \<Rightarrow> query_payload \<Rightarrow> string \<Rightarrow> string" where
  "signQueryToken E p secret =
     (let encoded = qe_encode E (query_json p) in encoded @ ''.'' @ qe_hmac E secret encoded)"

definition str_prop :: "json \<Rightarrow> string \<Rightarrow> string option" where
  "str_prop v k = (case json_prop v k of Some (JStr s) \<Rightarrow> Some s | _ \<Rightarrow> None)"

definition query_of_json :: "json \<Rightarrow> query_payload option" where
  "query_of_json v =
     (if \<not> isPlainObject v then None
      else case (json_prop v ''r'', json_prop v ''u'', json_prop v ''c'', json_prop v ''e'', json_prop v ''n'') of
             (Some (JStr r), Some (JStr u), Some (JNum (Fin c)), Some (JNum (Fin e)), Some (JStr n)) \<Rightarrow>
               Some \<lparr>pq_r = r, pq_u = u, pq_m = str_prop v ''m'', pq_a = str_prop v ''a'',
                     pq_c = c, pq_e = e, pq_n = n\<rparr>
           | _ \<Rightarrow> None)"

definition verifyQueryToken :: "('u, 'a) query_env \<Rightarrow> string \<Rightarrow> string \<Rightarrow> query_payload option" where
  "verifyQueryToken E token secret =
     (case split_last_dot token of
        None \<Rightarrow> None
      | Some (encoded, mac) \<Rightarrow>
          if mac \<noteq> qe_hmac E secret encoded then None
          else case qe_decode E encoded of None \<Rightarrow> None | Some v \<Rightarrow> query_of_json v)"

definition record_of_payload :: "string \<Rightarrow> query_payload \<Rightarrow> int option \<Rightarrow> query_record" where
  "record_of_payload qid p answered =
     \<lparr>qr_queryId = qid, qr_roomId = pq_r p, qr_userId = pq_u p, qr_messageId = pq_m p, qr_appId = pq_a p,
      qr_createdAtMs = pq_c p, qr_expiresAtMs = pq_e p, qr_answeredAtMs = answered\<rparr>"

definition sq_payload :: "int \<Rightarrow> string \<Rightarrow> query_params \<Rightarrow> ('u, 'a) signed_queries \<Rightarrow> query_payload" where
  "sq_payload now rnd p s =
     \<lparr>pq_r = qp_roomId p, pq_u = qp_userId p, pq_m = qp_messageId p, pq_a = qp_appId p, pq_c = now,
      pq_e = now + or_default (sq_ttlMs s) (qp_ttlMs p), pq_n = rnd\<rparr>"

definition sq_issue ::
  "('u, 'a) query_env \<Rightarrow> int \<Rightarrow> string \<Rightarrow> query_params \<Rightarrow> ('u, 'a) signed_queries
     \<Rightarrow> query_record \<times> ('u, 'a) signed_queries" where
  "sq_issue E now rnd p s =
     (let payload = sq_payload now rnd p s;
          qid = signQueryToken E payload (sq_secret s);
          (claimed, used) = qe_has E now (claimedKey qid) (sq_used s)
      in (record_of_payload qid payload (if claimed then Some (pq_c payload) else None),
          s\<lparr>sq_issued := sq_issued s + 1, sq_used := used\<rparr>))"

definition sq_peek ::
  "('u, 'a) query_env \<Rightarrow> int \<Rightarrow> string \<Rightarrow> ('u, 'a) signed_queries \<Rightarrow> query_record option \<times> ('u, 'a) signed_queries" where
  "sq_peek E now qid s =
     (let (revoked, used) = qe_has E now (revokedKey qid) (sq_used s);
          s1 = s\<lparr>sq_used := used\<rparr>
      in if revoked then (None, s1)
         else case verifyQueryToken E qid (sq_secret s) of
                None \<Rightarrow> (None, s1)
              | Some p \<Rightarrow>
                  if pq_e p \<le> now then (None, s1)
                  else (let (claimed, used2) = qe_has E now (claimedKey qid) used
                        in (Some (record_of_payload qid p (if claimed then Some now else None)),
                            s1\<lparr>sq_used := used2\<rparr>)))"

text \<open>Taking the claim in the synchronous store, with \<open>tryAdd\<close> or, without it, look and add.\<close>

definition sq_take :: "('u, 'a) query_env \<Rightarrow> int \<Rightarrow> string \<Rightarrow> int \<Rightarrow> 'u \<Rightarrow> bool \<times> 'u" where
  "sq_take E now qid ttl used =
     (case qe_tryAdd E of
        Some tryAdd \<Rightarrow> tryAdd now (claimedKey qid) (Some ttl) used
      | None \<Rightarrow>
          (let (claimed, used1) = qe_has E now (claimedKey qid) used
           in if claimed then (False, used1) else (True, qe_add E now (claimedKey qid) (Some ttl) used1)))"

definition sq_claim ::
  "('u, 'a) query_env \<Rightarrow> int \<Rightarrow> string \<Rightarrow> string option \<Rightarrow> ('u, 'a) signed_queries
     \<Rightarrow> (registry_error + query_record option) \<times> ('u, 'a) signed_queries" where
  "sq_claim E now qid u s =
     (if sq_asyncUsed s \<noteq> None then (Inl AsyncUsedConfigured, s)
      else case sq_peek E now qid s of
             (None, s1) \<Rightarrow> (Inr None, s1)
           | (Some r, s1) \<Rightarrow>
               if qr_answeredAtMs r \<noteq> None then (Inr None, s1)
               else if other_user u r then (Inr None, s1)
               else let (ok, used) = sq_take E now qid (max 1 (qr_expiresAtMs r - now)) (sq_used s1)
                    in (Inr (if ok then Some (r\<lparr>qr_answeredAtMs := Some now\<rparr>) else None), s1\<lparr>sq_used := used\<rparr>))"

definition sq_claimAsync ::
  "('u, 'a) query_env \<Rightarrow> int \<Rightarrow> string \<Rightarrow> string option \<Rightarrow> ('u, 'a) signed_queries
     \<Rightarrow> query_record option \<times> ('u, 'a) signed_queries" where
  "sq_claimAsync E now qid u s =
     (case sq_peek E now qid s of
        (None, s1) \<Rightarrow> (None, s1)
      | (Some r, s1) \<Rightarrow>
          if qr_answeredAtMs r \<noteq> None then (None, s1)
          else if other_user u r then (None, s1)
          else let ttl = max 1 (qr_expiresAtMs r - now);
                   (ok, s2) =
                     (case sq_asyncUsed s1 of
                        Some a \<Rightarrow> (let (b, a') = qe_asyncTryAdd E now (claimedKey qid) (Some ttl) a
                                   in (b, s1\<lparr>sq_asyncUsed := Some a'\<rparr>))
                      | None \<Rightarrow> (let (b, used) = sq_take E now qid ttl (sq_used s1)
                                 in (b, s1\<lparr>sq_used := used\<rparr>)))
               in (if ok then Some (r\<lparr>qr_answeredAtMs := Some now\<rparr>) else None, s2))"

definition sq_release :: "('u, 'a) query_env \<Rightarrow> int \<Rightarrow> string \<Rightarrow> ('u, 'a) signed_queries \<Rightarrow> ('u, 'a) signed_queries" where
  "sq_release E now qid s =
     (case qe_delete E of None \<Rightarrow> s | Some del \<Rightarrow> s\<lparr>sq_used := del now (claimedKey qid) (sq_used s)\<rparr>)"

definition sq_revoke :: "('u, 'a) query_env \<Rightarrow> int \<Rightarrow> string \<Rightarrow> ('u, 'a) signed_queries \<Rightarrow> ('u, 'a) signed_queries" where
  "sq_revoke E now qid s =
     (let (r, s1) = sq_peek E now qid s;
          ttl = (case r of Some x \<Rightarrow> max 1 (qr_expiresAtMs x - now) | None \<Rightarrow> sq_ttlMs s)
      in s1\<lparr>sq_used := qe_add E now (claimedKey qid) (Some ttl)
                         (qe_add E now (revokedKey qid) (Some ttl) (sq_used s1))\<rparr>)"

definition sq_size :: "('u, 'a) signed_queries \<Rightarrow> nat" where
  "sq_size s = sq_issued s"

section \<open>The contract\<close>

datatype query_op =
    QIssue int string query_params
  | QPeek int string
  | QClaim int string "string option"
  | QRelease int string
  | QRevoke int string

text \<open>A run of operations; it collects the ids whose claim was granted.\<close>

fun query_run ::
  "(int \<Rightarrow> string \<Rightarrow> query_params \<Rightarrow> 's \<Rightarrow> query_record \<times> 's) \<Rightarrow>
   (int \<Rightarrow> string \<Rightarrow> 's \<Rightarrow> query_record option \<times> 's) \<Rightarrow>
   (int \<Rightarrow> string \<Rightarrow> string option \<Rightarrow> 's \<Rightarrow> query_record option \<times> 's) \<Rightarrow>
   (int \<Rightarrow> string \<Rightarrow> 's \<Rightarrow> 's) \<Rightarrow> (int \<Rightarrow> string \<Rightarrow> 's \<Rightarrow> 's) \<Rightarrow> query_op list \<Rightarrow> 's \<Rightarrow> string list" where
  "query_run issue peek claim release revoke [] s = []"
| "query_run issue peek claim release revoke (QIssue now rnd p # ops) s =
     query_run issue peek claim release revoke ops (snd (issue now rnd p s))"
| "query_run issue peek claim release revoke (QPeek now q # ops) s =
     query_run issue peek claim release revoke ops (snd (peek now q s))"
| "query_run issue peek claim release revoke (QClaim now q u # ops) s =
     (case claim now q u s of (r, s1) \<Rightarrow>
        (if r = None then [] else [q]) @ query_run issue peek claim release revoke ops s1)"
| "query_run issue peek claim release revoke (QRelease now q # ops) s =
     query_run issue peek claim release revoke ops (release now q s)"
| "query_run issue peek claim release revoke (QRevoke now q # ops) s =
     query_run issue peek claim release revoke ops (revoke now q s)"

text \<open>
  The operations that leave an answered query alone until \<open>e\<close>: everything but its own release
  and revocation and an id drawn twice. \<open>op_cost\<close> is what an operation may add to a store.
\<close>

fun leaves_query :: "int \<Rightarrow> string \<Rightarrow> query_op \<Rightarrow> bool" where
  "leaves_query e q (QIssue now rnd p) \<longleftrightarrow> now < e \<and> rnd \<noteq> q"
| "leaves_query e q (QPeek now q') \<longleftrightarrow> now < e"
| "leaves_query e q (QClaim now q' u) \<longleftrightarrow> now < e"
| "leaves_query e q (QRelease now q') \<longleftrightarrow> q' \<noteq> q"
| "leaves_query e q (QRevoke now q') \<longleftrightarrow> now < e \<and> q' \<noteq> q"

fun op_cost :: "query_op \<Rightarrow> nat" where
  "op_cost (QClaim _ _ _) = 1"
| "op_cost (QRevoke _ _) = 2"
| "op_cost _ = 0"

definition ops_cost :: "query_op list \<Rightarrow> nat" where
  "ops_cost ops = sum_list (map op_cost ops)"

text \<open>
  \<open>spent n e s q\<close>: the query is answered in \<open>s\<close> and stays so until \<open>e\<close>, at most \<open>n\<close> entries
  were added since; \<open>room s n\<close>: the store keeps an entry when \<open>n\<close> are added after it.
\<close>

locale query_store =
  fixes issue :: "int \<Rightarrow> string \<Rightarrow> query_params \<Rightarrow> 's \<Rightarrow> query_record \<times> 's"
    and peek :: "int \<Rightarrow> string \<Rightarrow> 's \<Rightarrow> query_record option \<times> 's"
    and claim :: "int \<Rightarrow> string \<Rightarrow> string option \<Rightarrow> 's \<Rightarrow> query_record option \<times> 's"
    and release :: "int \<Rightarrow> string \<Rightarrow> 's \<Rightarrow> 's"
    and revoke :: "int \<Rightarrow> string \<Rightarrow> 's \<Rightarrow> 's"
    and fresh :: "int \<Rightarrow> string \<Rightarrow> query_params \<Rightarrow> 's \<Rightarrow> bool"
    and ttl :: "'s \<Rightarrow> int"
    and spent :: "nat \<Rightarrow> int \<Rightarrow> 's \<Rightarrow> string \<Rightarrow> bool"
    and room :: "'s \<Rightarrow> nat \<Rightarrow> bool"
    and inv :: "'s \<Rightarrow> bool"
  assumes issue_claim: "inv s \<Longrightarrow> fresh now rnd p s \<Longrightarrow> issue now rnd p s = (r, s1) \<Longrightarrow>
      now' < now + or_default (ttl s) (qp_ttlMs p) \<Longrightarrow> \<not> other_user u r \<Longrightarrow>
      \<exists>r'. fst (claim now' (qr_queryId r) u s1) = Some r' \<and> qr_roomId r' = qp_roomId p \<and>
        qr_userId r' = qp_userId p \<and> qr_messageId r' = qp_messageId p \<and> qr_appId r' = qp_appId p"
    and claim_some: "inv s \<Longrightarrow> claim now q u s = (Some r, s1) \<Longrightarrow>
      now < qr_expiresAtMs r \<and> \<not> other_user u r \<and> spent 0 (qr_expiresAtMs r) s1 q"
    and spent_refuses: "inv s \<Longrightarrow> spent n e s q \<Longrightarrow> now < e \<Longrightarrow> fst (claim now q u s) = None"
    and spent_issue: "inv s \<Longrightarrow> spent n e s q \<Longrightarrow> now < e \<Longrightarrow> rnd \<noteq> q \<Longrightarrow> spent n e (snd (issue now rnd p s)) q"
    and spent_peek: "inv s \<Longrightarrow> spent n e s q \<Longrightarrow> now < e \<Longrightarrow> spent n e (snd (peek now q' s)) q"
    and spent_claim: "inv s \<Longrightarrow> spent n e s q \<Longrightarrow> now < e \<Longrightarrow> room s (n + 1) \<Longrightarrow>
      spent (n + 1) e (snd (claim now q' u s)) q"
    and spent_release: "inv s \<Longrightarrow> spent n e s q \<Longrightarrow> q' \<noteq> q \<Longrightarrow> spent n e (release now q' s) q"
    and spent_revoke: "inv s \<Longrightarrow> spent n e s q \<Longrightarrow> now < e \<Longrightarrow> q' \<noteq> q \<Longrightarrow> room s (n + 2) \<Longrightarrow>
      spent (n + 2) e (revoke now q' s) q"
    and inv_keeps: "inv s \<Longrightarrow> inv (snd (issue now rnd p s)) \<and> inv (snd (peek now q s)) \<and>
      inv (snd (claim now q u s)) \<and> inv (release now q s) \<and> inv (revoke now q s)"
    and room_keeps: "inv s \<Longrightarrow> room (snd (issue now rnd p s)) = room s \<and> room (snd (peek now q s)) = room s \<and>
      room (snd (claim now q u s)) = room s \<and> room (release now q s) = room s \<and> room (revoke now q s) = room s"
    and room_mono: "room s n \<Longrightarrow> m \<le> n \<Longrightarrow> room s m"
begin

lemma spent_never_claimed:
  assumes "inv s" and "spent n e s q" and "list_all (leaves_query e q) ops" and "room s (n + ops_cost ops)"
  shows "q \<notin> set (query_run issue peek claim release revoke ops s)"
  using assms
proof (induction ops arbitrary: s n)
  case Nil
  then show ?case by simp
next
  case (Cons op ops)
  note inv = Cons.prems(1) and sp = Cons.prems(2)
  show ?case
  proof (cases op)
    case (QIssue now rnd p)
    then show ?thesis
      using Cons.IH [OF _ spent_issue [OF inv sp]] Cons.prems inv_keeps [OF inv] room_keeps [OF inv]
      by (simp add: ops_cost_def)
  next
    case (QPeek now q')
    then show ?thesis
      using Cons.IH [OF _ spent_peek [OF inv sp]] Cons.prems inv_keeps [OF inv] room_keeps [OF inv]
      by (simp add: ops_cost_def)
  next
    case (QClaim now q' u)
    have now: "now < e" and room: "room s (n + 1 + ops_cost ops)"
      using Cons.prems QClaim by (simp_all add: ops_cost_def)
    have "q \<notin> set (query_run issue peek claim release revoke ops (snd (claim now q' u s)))"
      by (rule Cons.IH [OF _ spent_claim [OF inv sp now room_mono [OF room]]])
        (use Cons.prems(3) room inv_keeps [OF inv] room_keeps [OF inv] in simp_all)
    then show ?thesis
      using spent_refuses [OF inv sp now, of u] QClaim
      by (cases "claim now q' u s") (auto split: if_splits)
  next
    case (QRelease now q')
    then show ?thesis
      using Cons.IH [OF _ spent_release [OF inv sp]] Cons.prems inv_keeps [OF inv] room_keeps [OF inv]
      by (simp add: ops_cost_def)
  next
    case (QRevoke now q')
    have now: "now < e" "q' \<noteq> q" and room: "room s (n + 2 + ops_cost ops)"
      using Cons.prems QRevoke by (simp_all add: ops_cost_def)
    have "q \<notin> set (query_run issue peek claim release revoke ops (revoke now q' s))"
      by (rule Cons.IH [OF _ spent_revoke [OF inv sp now room_mono [OF room]]])
        (use Cons.prems(3) room inv_keeps [OF inv] room_keeps [OF inv] in simp_all)
    then show ?thesis
      using QRevoke by simp
  qed
qed

lemma answered_once:
  assumes "inv s" and "claim now q u s = (Some r, s1)"
    and "list_all (leaves_query (qr_expiresAtMs r) q) ops" and "room s (ops_cost ops)"
  shows "q \<notin> set (query_run issue peek claim release revoke ops s1)"
proof -
  have "spent 0 (qr_expiresAtMs r) s1 q" and "inv s1" and "room s1 = room s"
    using claim_some [OF assms(1,2)] inv_keeps [OF assms(1), of now _ _ q u]
      room_keeps [OF assms(1), of now _ _ q u] assms(2) by auto
  then show ?thesis
    using spent_never_claimed [OF _ _ assms(3)] assms(4) by simp
qed

end

definition mq_inv :: "query_registry \<Rightarrow> bool" where
  "mq_inv s \<longleftrightarrow> jm_wf (mq_queries s)"

definition mq_spent :: "query_registry \<Rightarrow> string \<Rightarrow> bool" where
  "mq_spent s q \<longleftrightarrow> (case jm_get (mq_queries s) q of None \<Rightarrow> True | Some r \<Rightarrow> qr_answeredAtMs r \<noteq> None)"

lemma mq_inv_keeps:
  "mq_inv s \<Longrightarrow> mq_inv (snd (mq_issue now rnd p s)) \<and> mq_inv (snd (mq_peek now q s)) \<and>
     mq_inv (snd (mq_claim now q u s)) \<and> mq_inv (mq_release q s) \<and> mq_inv (mq_revoke q s)"
  by (auto simp: mq_inv_def mq_issue_def mq_prune_def mq_peek_def mq_claim_def mq_release_def mq_revoke_def Let_def
      split: option.split prod.split)

lemma mq_pruned_get:
  "mq_inv s \<Longrightarrow> jm_get (mq_queries (mq_prune now s)) q \<in> {jm_get (mq_queries s) q, None}"
  using evict_filter_get [of "mq_queries s" "mq_capacity s" "\<lambda>_ r. \<not> qr_expiresAtMs r \<le> now" q]
  by (auto simp: mq_inv_def mq_prune_def jm_get_filter split: option.splits if_splits)

interpretation mem_queries: query_store mq_issue mq_peek mq_claim "\<lambda>now. mq_release" "\<lambda>now. mq_revoke"
  "\<lambda>now rnd p s. True" mq_ttlMs "\<lambda>n e. mq_spent" "\<lambda>s n. True" mq_inv
proof unfold_locales
  fix s now rnd p q
  assume "mq_inv s" "mq_spent s q" "rnd \<noteq> q"
  then show "mq_spent (snd (mq_issue now rnd p s)) q"
    using mq_pruned_get [of s now q]
    by (auto simp: mq_spent_def mq_issue_def Let_def jm_get_update split: option.splits)
next
  fix s now rnd p r s1 now' u
  assume "mq_inv s" "mq_issue now rnd p s = (r, s1)" "now' < now + or_default (mq_ttlMs s) (qp_ttlMs p)"
    "\<not> other_user u r"
  then show "\<exists>r'. fst (mq_claim now' (qr_queryId r) u s1) = Some r' \<and> qr_roomId r' = qp_roomId p \<and>
      qr_userId r' = qp_userId p \<and> qr_messageId r' = qp_messageId p \<and> qr_appId r' = qp_appId p"
    by (auto simp: mq_issue_def mq_claim_def mq_peek_def Let_def jm_get_update)
next
  fix s now rnd p q u
  assume "mq_inv s"
  then show "mq_inv (snd (mq_issue now rnd p s)) \<and> mq_inv (snd (mq_peek now q s)) \<and>
      mq_inv (snd (mq_claim now q u s)) \<and> mq_inv (mq_release q s) \<and> mq_inv (mq_revoke q s)"
    by (rule mq_inv_keeps)
qed (auto simp: mq_spent_def mq_claim_def mq_peek_def mq_release_def mq_revoke_def Let_def
      jm_get_update jm_get_delete split: option.splits if_splits)

subsection \<open>The signed registry\<close>

text \<open>\<open>claim\<close> of a registry without an asynchronous store.\<close>

definition sq_claim_now ::
  "('u, 'a) query_env \<Rightarrow> int \<Rightarrow> string \<Rightarrow> string option \<Rightarrow> ('u, 'a) signed_queries
     \<Rightarrow> query_record option \<times> ('u, 'a) signed_queries" where
  "sq_claim_now E now q u s =
     (case sq_claim E now q u s of (Inr r, s1) \<Rightarrow> (r, s1) | (Inl _, s1) \<Rightarrow> (None, s1))"

lemma claimed_neq_revoked [simp]: "claimedKey q \<noteq> revokedKey q'" "revokedKey q' \<noteq> claimedKey q"
  by (simp_all add: claimedKey_def revokedKey_def)

lemma claimedKey_inj [simp]: "claimedKey q = claimedKey q' \<longleftrightarrow> q = q'"
  by (simp add: claimedKey_def)

lemma query_roundtrip: "query_of_json (query_json p) = Some p"
  by (cases p)
    (simp add: query_of_json_def query_json_def isPlainObject_def json_prop_def str_prop_def null_str_def
      split: option.split)

lemma verify_query_signed:
  assumes "qe_decode E (qe_encode E (query_json p)) = Some (query_json p)"
    and "CHR ''.'' \<notin> set (qe_hmac E secret (qe_encode E (query_json p)))"
    and "qe_encode E (query_json p) \<noteq> []"
  shows "verifyQueryToken E (signQueryToken E p secret) secret = Some p"
  using split_last_dot_append [OF assms(2,3)] assms(1)
  by (simp add: verifyQueryToken_def signQueryToken_def Let_def query_roundtrip)

definition sq_fresh ::
  "('u \<Rightarrow> string \<Rightarrow> int option) \<Rightarrow> ('u, 'a) query_env \<Rightarrow> int \<Rightarrow> string \<Rightarrow> query_params \<Rightarrow> ('u, 'a) signed_queries \<Rightarrow> bool" where
  "sq_fresh expiry E now rnd p s \<longleftrightarrow>
     (let v = query_json (sq_payload now rnd p s); qid = signQueryToken E (sq_payload now rnd p s) (sq_secret s)
      in qe_decode E (qe_encode E v) = Some v \<and> qe_encode E v \<noteq> [] \<and>
         CHR ''.'' \<notin> set (qe_hmac E (sq_secret s) (qe_encode E v)) \<and>
         expiry (sq_used s) (claimedKey qid) = None \<and> expiry (sq_used s) (revokedKey qid) = None)"

definition sq_spent :: "(nat \<Rightarrow> 'u \<Rightarrow> string \<Rightarrow> int \<Rightarrow> bool) \<Rightarrow> nat \<Rightarrow> int \<Rightarrow> ('u, 'a) signed_queries \<Rightarrow> string \<Rightarrow> bool" where
  "sq_spent young n e s q \<longleftrightarrow> (\<exists>m \<le> n. \<exists>e' \<ge> e. young m (sq_used s) (claimedKey q) e')"

definition sq_inv :: "('u \<Rightarrow> bool) \<Rightarrow> ('u, 'a) signed_queries \<Rightarrow> bool" where
  "sq_inv uinv s \<longleftrightarrow> uinv (sq_used s) \<and> sq_asyncUsed s = None"

definition sq_room :: "('u \<Rightarrow> int) \<Rightarrow> ('u, 'a) signed_queries \<Rightarrow> nat \<Rightarrow> bool" where
  "sq_room cap s n \<longleftrightarrow> int n < cap (sq_used s)"

locale query_signing = used_token_store has add tryAdd delete expiry young cap uttl uinv
  for has :: "int \<Rightarrow> string \<Rightarrow> 'u \<Rightarrow> bool \<times> 'u" and add tryAdd delete expiry young cap uttl uinv +
  fixes E :: "('u, 'a) query_env"
  assumes env: "qe_has E = has" "qe_add E = add" "qe_tryAdd E = Some (\<lambda>clk. tryAdd clk clk)"
    "qe_delete E = Some delete"
begin

lemma peek_used:
  assumes "uinv (sq_used s)"
  obtains u where "snd (sq_peek E now q s) = s\<lparr>sq_used := u\<rparr>" "uinv u" "cap u = cap (sq_used s)"
    "\<And>n k e. young n (sq_used s) k e \<Longrightarrow> now < e \<Longrightarrow> young n u k e"
    "\<And>k. expiry u k \<in> {expiry (sq_used s) k, None}"
proof -
  let ?u1 = "snd (has now (revokedKey q) (sq_used s))"
  let ?u2 = "snd (has now (claimedKey q) ?u1)"
  have inv1: "uinv ?u1" and inv2: "uinv ?u2"
    using has_inv assms by blast+
  have cap: "cap ?u1 = cap (sq_used s)" "cap ?u2 = cap (sq_used s)"
    using has_cap assms inv1 by auto
  have young: "young n (sq_used s) k e \<Longrightarrow> now < e \<Longrightarrow> young n ?u1 k e \<and> young n ?u2 k e" for n k e
    using has_keeps assms inv1 by blast
  have exp: "expiry ?u1 k \<in> {expiry (sq_used s) k, None}" "expiry ?u2 k \<in> {expiry (sq_used s) k, None}" for k
    using has_shrinks [OF assms, of now "revokedKey q" k] has_shrinks [OF inv1, of now "claimedKey q" k] by auto
  have "snd (sq_peek E now q s) = s\<lparr>sq_used := ?u1\<rparr> \<or> snd (sq_peek E now q s) = s\<lparr>sq_used := ?u2\<rparr>"
    by (auto simp: sq_peek_def env Let_def case_prod_beta split: option.split)
  then show ?thesis
    using that inv1 inv2 cap young exp by blast
qed

lemma peek_value:
  assumes "uinv (sq_used s)"
  shows "fst (sq_peek E now q s) =
    (if fst (has now (revokedKey q) (sq_used s)) then None
     else case verifyQueryToken E q (sq_secret s) of
            None \<Rightarrow> None
          | Some p \<Rightarrow> if pq_e p \<le> now then None
                      else Some (record_of_payload q p
                        (if fst (has now (claimedKey q) (snd (has now (revokedKey q) (sq_used s)))) then Some now else None)))"
  by (simp add: sq_peek_def env Let_def case_prod_beta split: option.split)

lemma claim_cases:
  assumes "sq_inv uinv s" and "sq_claim_now E now q u s = (r, s2)"
  obtains (refused) "r = None" "s2 = snd (sq_peek E now q s)"
  | (tried) r0 where "fst (sq_peek E now q s) = Some r0" "qr_answeredAtMs r0 = None" "\<not> other_user u r0"
      "r = (if fst (tryAdd now now (claimedKey q) (Some (max 1 (qr_expiresAtMs r0 - now)))
                      (sq_used (snd (sq_peek E now q s)))) then Some (r0\<lparr>qr_answeredAtMs := Some now\<rparr>) else None)"
      "s2 = (snd (sq_peek E now q s))\<lparr>sq_used := snd (tryAdd now now (claimedKey q)
               (Some (max 1 (qr_expiresAtMs r0 - now))) (sq_used (snd (sq_peek E now q s))))\<rparr>"
proof (cases "sq_peek E now q s")
  case (Pair pr s1)
  show ?thesis
  proof (cases pr)
    case None
    then show ?thesis
      using assms Pair refused by (auto simp: sq_claim_now_def sq_claim_def sq_inv_def)
  next
    case (Some r0)
    show ?thesis
    proof (cases "qr_answeredAtMs r0 = None \<and> \<not> other_user u r0")
      case True
      then show ?thesis
        using assms Pair Some tried [of r0]
        by (simp add: sq_claim_now_def sq_claim_def sq_inv_def sq_take_def env Let_def case_prod_beta)
    next
      case False
      then show ?thesis
        using assms Pair Some refused
        by (cases "qr_answeredAtMs r0") (auto simp: sq_claim_now_def sq_claim_def sq_inv_def)
    qed
  qed
qed

lemma tryAdd_keeps:
  assumes "uinv v" and "young n v k e" and "now < e" and "int n + 2 \<le> cap v"
  shows "\<exists>m \<le> Suc n. young m (snd (tryAdd now now k' t v)) k e"
proof (cases "fst (has now k' v)")
  case True
  then show ?thesis
    using has_keeps [OF assms(1-3), of k'] by (intro exI [of _ n]) (simp add: tryAdd_eq case_prod_beta)
next
  case False
  have "k' \<noteq> k"
    using False has_value [OF assms(1)] young_expiry [OF assms(1,2)] assms(3) by auto
  then show ?thesis
    using False add_keeps [OF has_inv [OF assms(1)] has_keeps [OF assms(1-3)] _ assms(3)] assms(4)
      has_cap [OF assms(1)]
    by (intro exI [of _ "Suc n"]) (simp add: tryAdd_eq case_prod_beta)
qed

lemma tryAdd_inv: "uinv v \<Longrightarrow> uinv (snd (tryAdd now now' k t v)) \<and> cap (snd (tryAdd now now' k t v)) = cap v"
  using has_inv has_cap add_inv add_cap by (simp add: tryAdd_eq case_prod_beta)

end

context query_signing
begin

lemma signed_claim_inv:
  assumes "sq_inv uinv s"
  shows "sq_inv uinv (snd (sq_claim_now E now q u s)) \<and>
     cap (sq_used (snd (sq_claim_now E now q u s))) = cap (sq_used s)"
proof -
  have uinv: "uinv (sq_used s)" and sync: "sq_asyncUsed s = None"
    using assms by (simp_all add: sq_inv_def)
  obtain v where v: "snd (sq_peek E now q s) = s\<lparr>sq_used := v\<rparr>" "uinv v" "cap v = cap (sq_used s)"
    by (rule peek_used [OF uinv])
  obtain r s2 where c: "sq_claim_now E now q u s = (r, s2)"
    by fastforce
  show ?thesis
    using assms c
  proof (cases rule: claim_cases)
    case refused
    then show ?thesis
      using c v sync by (simp add: sq_inv_def)
  next
    case (tried r0)
    then show ?thesis
      using c v sync tryAdd_inv [OF v(2)] by (simp add: sq_inv_def)
  qed
qed

lemma signed_claim_some:
  assumes "sq_inv uinv s" and "sq_claim_now E now q u s = (Some r, s1)"
  shows "now < qr_expiresAtMs r \<and> \<not> other_user u r \<and> sq_spent young 0 (qr_expiresAtMs r) s1 q"
proof -
  have uinv: "uinv (sq_used s)"
    using assms(1) by (simp add: sq_inv_def)
  obtain v where v: "snd (sq_peek E now q s) = s\<lparr>sq_used := v\<rparr>" "uinv v"
    by (rule peek_used [OF uinv])
  show ?thesis
    using assms
  proof (cases rule: claim_cases)
    case refused
    then show ?thesis by simp
  next
    case (tried r0)
    let ?t = "max 1 (qr_expiresAtMs r0 - now)"
    have ok: "fst (tryAdd now now (claimedKey q) (Some ?t) v)" and r: "r = r0\<lparr>qr_answeredAtMs := Some now\<rparr>"
      and s1: "s1 = s\<lparr>sq_used := snd (tryAdd now now (claimedKey q) (Some ?t) v)\<rparr>"
      using tried(4,5) v(1) by (simp_all split: if_splits)
    have "now < qr_expiresAtMs r0"
      using tried(1) peek_value [OF uinv, of now q]
      by (auto simp: record_of_payload_def split: option.splits if_splits)
    moreover have "young 0 (sq_used s1) (claimedKey q) (now + ?t)"
      using tryAdd_young [OF v(2), of now now "claimedKey q" "Some ?t"] ok s1
      by (cases "tryAdd now now (claimedKey q) (Some ?t) v") simp
    ultimately show ?thesis
      using tried(3) r unfolding sq_spent_def by (auto intro!: exI [of _ "now + ?t"])
  qed
qed

lemma signed_spent_refuses:
  assumes "sq_inv uinv s" and "sq_spent young n e s q" and "now < e"
  shows "fst (sq_claim_now E now q u s) = None"
proof -
  have uinv: "uinv (sq_used s)"
    using assms(1) by (simp add: sq_inv_def)
  let ?v = "snd (has now (revokedKey q) (sq_used s))"
  obtain m e' where "young m (sq_used s) (claimedKey q) e'" "e \<le> e'"
    using assms(2) by (auto simp: sq_spent_def)
  then have "young m ?v (claimedKey q) e'" "now < e'"
    using has_keeps [OF uinv] assms(3) by auto
  then have claimed: "fst (has now (claimedKey q) ?v)"
    using has_value [OF has_inv [OF uinv]] young_expiry [OF has_inv [OF uinv]] by simp
  obtain r s2 where c: "sq_claim_now E now q u s = (r, s2)"
    by fastforce
  show ?thesis
    using assms(1) c
  proof (cases rule: claim_cases)
    case refused
    then show ?thesis using c by simp
  next
    case (tried r0)
    then have False
      using claimed peek_value [OF uinv, of now q]
      by (auto simp: record_of_payload_def split: option.splits if_splits)
    then show ?thesis ..
  qed
qed

lemma signed_spent_peek:
  assumes "sq_inv uinv s" and "sq_spent young n e s q" and "now < e"
  shows "sq_spent young n e (snd (sq_peek E now q' s)) q"
proof -
  obtain v where v: "snd (sq_peek E now q' s) = s\<lparr>sq_used := v\<rparr>"
    "\<And>n k e. young n (sq_used s) k e \<Longrightarrow> now < e \<Longrightarrow> young n v k e"
    using assms(1) by (auto simp: sq_inv_def intro: peek_used)
  show ?thesis
    using assms(2,3) v by (fastforce simp: sq_spent_def)
qed

lemma signed_spent_claim:
  assumes "sq_inv uinv s" and "sq_spent young n e s q" and "now < e" and "sq_room cap s (n + 1)"
  shows "sq_spent young (n + 1) e (snd (sq_claim_now E now q' u s)) q"
proof -
  have uinv: "uinv (sq_used s)"
    using assms(1) by (simp add: sq_inv_def)
  obtain v where v: "snd (sq_peek E now q' s) = s\<lparr>sq_used := v\<rparr>" "uinv v" "cap v = cap (sq_used s)"
    "\<And>n k e. young n (sq_used s) k e \<Longrightarrow> now < e \<Longrightarrow> young n v k e"
    by (rule peek_used [OF uinv, where now = now and q = q']) blast
  obtain m e' where m: "m \<le> n" "young m v (claimedKey q) e'" "e \<le> e'"
    using assms(2,3) v(4) by (fastforce simp: sq_spent_def)
  obtain r s2 where c: "sq_claim_now E now q' u s = (r, s2)"
    by fastforce
  show ?thesis
    using assms(1) c
  proof (cases rule: claim_cases)
    case refused
    then show ?thesis
      using c v(1) m by (auto simp: sq_spent_def intro: le_SucI)
  next
    case (tried r0)
    have "int m + 2 \<le> cap v" and "now < e'"
      using assms(3,4) m v(3) by (simp_all add: sq_room_def)
    then obtain m' where "m' \<le> Suc m" "young m' (sq_used s2) (claimedKey q) e'"
      using tryAdd_keeps [OF v(2) m(2)] tried(5) v(1) by fastforce
    then show ?thesis
      using c m by (auto simp: sq_spent_def intro!: exI [of _ m'])
  qed
qed

lemma signed_spent_revoke:
  assumes "sq_inv uinv s" and "sq_spent young n e s q" and "now < e" and "q' \<noteq> q" and "sq_room cap s (n + 2)"
  shows "sq_spent young (n + 2) e (sq_revoke E now q' s) q"
proof -
  have uinv: "uinv (sq_used s)"
    using assms(1) by (simp add: sq_inv_def)
  obtain v where v: "snd (sq_peek E now q' s) = s\<lparr>sq_used := v\<rparr>" "uinv v" "cap v = cap (sq_used s)"
    "\<And>n k e. young n (sq_used s) k e \<Longrightarrow> now < e \<Longrightarrow> young n v k e"
    by (rule peek_used [OF uinv, where now = now and q = q']) blast
  obtain m e' where m: "m \<le> n" "young m v (claimedKey q) e'" "e \<le> e'"
    using assms(2,3) v(4) by (fastforce simp: sq_spent_def)
  have now: "now < e'" and room: "int (Suc m) + 2 \<le> cap v"
    using assms(3,5) m v(3) by (simp_all add: sq_room_def)
  obtain t where t: "sq_used (sq_revoke E now q' s) = add now (claimedKey q') (Some t) (add now (revokedKey q') (Some t) v)"
    using v(1) by (cases "sq_peek E now q' s") (auto simp: sq_revoke_def env Let_def)
  have "young (Suc (Suc m)) (sq_used (sq_revoke E now q' s)) (claimedKey q) e'"
    unfolding t
    by (rule add_keeps [OF add_inv [OF v(2)] add_keeps [OF v(2) m(2) _ now] _ now])
      (use assms(4) room add_cap [OF v(2)] in simp_all)
  then show ?thesis
    using m unfolding sq_spent_def by (auto intro!: exI [of _ "Suc (Suc m)"])
qed

lemma signed_issue_facts:
  assumes "uinv (sq_used s)"
  shows "sq_used (snd (sq_issue E now rnd p s)) =
      snd (has now (claimedKey (qr_queryId (fst (sq_issue E now rnd p s)))) (sq_used s)) \<and>
    sq_asyncUsed (snd (sq_issue E now rnd p s)) = sq_asyncUsed s \<and>
    sq_secret (snd (sq_issue E now rnd p s)) = sq_secret s \<and>
    qr_queryId (fst (sq_issue E now rnd p s)) = signQueryToken E (sq_payload now rnd p s) (sq_secret s) \<and>
    qr_userId (fst (sq_issue E now rnd p s)) = qp_userId p"
  by (simp add: sq_issue_def env Let_def case_prod_beta record_of_payload_def sq_payload_def)

definition lapsed :: "int \<Rightarrow> 'u \<Rightarrow> string \<Rightarrow> bool" where
  "lapsed now v k \<longleftrightarrow> (case expiry v k of None \<Rightarrow> True | Some e \<Rightarrow> e \<le> now)"

lemma lapsed_has: "uinv v \<Longrightarrow> lapsed now v k \<Longrightarrow> \<not> fst (has now k v)"
  by (simp add: lapsed_def has_value split: option.splits)

lemma lapsed_shrinks: "uinv v \<Longrightarrow> lapsed now v k \<Longrightarrow> lapsed now (snd (has now' k' v)) k"
  using has_shrinks [of v now' k' k] by (auto simp: lapsed_def split: option.splits)

lemma claim_grants:
  assumes "sq_inv uinv s" and "verifyQueryToken E q (sq_secret s) = Some p" and "now < pq_e p"
    and "lapsed now (sq_used s) (revokedKey q)" and "lapsed now (sq_used s) (claimedKey q)"
    and "\<not> other_user u (record_of_payload q p None)"
  shows "fst (sq_claim_now E now q u s) = Some ((record_of_payload q p None)\<lparr>qr_answeredAtMs := Some now\<rparr>)"
proof -
  have uinv: "uinv (sq_used s)" and sync: "sq_asyncUsed s = None"
    using assms(1) by (simp_all add: sq_inv_def)
  let ?v = "snd (has now (revokedKey q) (sq_used s))"
  have v: "uinv ?v" "lapsed now ?v (claimedKey q)"
    using has_inv [OF uinv] lapsed_shrinks [OF uinv assms(5)] by blast+
  have no: "\<not> fst (has now (revokedKey q) (sq_used s))" "\<not> fst (has now (claimedKey q) ?v)"
    using lapsed_has [OF uinv assms(4)] lapsed_has [OF v] by blast+
  have peek: "sq_peek E now q s = (Some (record_of_payload q p None), s\<lparr>sq_used := snd (has now (claimedKey q) ?v)\<rparr>)"
    using no assms(2,3) by (simp add: sq_peek_def env Let_def case_prod_beta)
  have "\<not> fst (has now (claimedKey q) (snd (has now (claimedKey q) ?v)))"
    by (rule lapsed_has [OF has_inv [OF v(1)] lapsed_shrinks [OF v]])
  then have "fst (tryAdd now now (claimedKey q) t (snd (has now (claimedKey q) ?v)))" for t
    by (simp add: tryAdd_eq case_prod_beta)
  then show ?thesis
    using assms(6) sync
    by (simp add: sq_claim_now_def sq_claim_def peek sq_take_def env Let_def case_prod_beta record_of_payload_def)
qed

lemma signed_issue_claim:
  assumes inv: "sq_inv uinv s" and fresh: "sq_fresh expiry E now rnd p s" and iss: "sq_issue E now rnd p s = (r, s1)"
    and life: "now' < now + or_default (sq_ttlMs s) (qp_ttlMs p)" and user: "\<not> other_user u r"
  shows "\<exists>r'. fst (sq_claim_now E now' (qr_queryId r) u s1) = Some r' \<and> qr_roomId r' = qp_roomId p \<and>
    qr_userId r' = qp_userId p \<and> qr_messageId r' = qp_messageId p \<and> qr_appId r' = qp_appId p"
proof -
  let ?p = "sq_payload now rnd p s"
  let ?q = "signQueryToken E ?p (sq_secret s)"
  let ?r = "record_of_payload ?q ?p None"
  have uinv: "uinv (sq_used s)"
    using inv by (simp add: sq_inv_def)
  have s1: "sq_used s1 = snd (has now (claimedKey ?q) (sq_used s))" "sq_asyncUsed s1 = None" "sq_secret s1 = sq_secret s"
    "qr_queryId r = ?q" "qr_userId r = qp_userId p"
    using signed_issue_facts [OF uinv, of now rnd p] iss inv by (simp_all add: sq_inv_def)
  have fr: "qe_decode E (qe_encode E (query_json ?p)) = Some (query_json ?p)" "qe_encode E (query_json ?p) \<noteq> []"
    "CHR ''.'' \<notin> set (qe_hmac E (sq_secret s) (qe_encode E (query_json ?p)))"
    "lapsed now' (sq_used s) (claimedKey ?q)" "lapsed now' (sq_used s) (revokedKey ?q)"
    using fresh unfolding sq_fresh_def Let_def by (simp_all add: lapsed_def)
  have inv1: "sq_inv uinv s1"
    using s1(1,2) has_inv [OF uinv] by (simp add: sq_inv_def)
  have user1: "\<not> other_user u ?r"
    using user s1(5) by (simp add: other_user_def record_of_payload_def sq_payload_def split: option.splits)
  have "fst (sq_claim_now E now' ?q u s1) = Some (?r\<lparr>qr_answeredAtMs := Some now'\<rparr>)"
    by (rule claim_grants [OF inv1 _ _ _ _ user1])
      (use verify_query_signed [OF fr(1,3,2)] life lapsed_shrinks [OF uinv] fr(4,5) s1(1,3) in
        \<open>simp_all add: sq_payload_def\<close>)
  then show ?thesis
    using s1(4) by (simp add: record_of_payload_def sq_payload_def)
qed

end

sublocale query_signing \<subseteq> signed_query: query_store "sq_issue E" "sq_peek E" "sq_claim_now E" "sq_release E"
  "sq_revoke E" "sq_fresh expiry E" sq_ttlMs "sq_spent young" "sq_room cap" "sq_inv uinv"
proof unfold_locales
  fix s :: "('u, 'a) signed_queries" and n e q now rnd p
  assume inv: "sq_inv uinv s" and sp: "sq_spent young n e s q" and now: "now < e"
  have uinv: "uinv (sq_used s)"
    using inv by (simp add: sq_inv_def)
  obtain m e' where m: "m \<le> n" "e \<le> e'" "young m (sq_used s) (claimedKey q) e'"
    using sp by (auto simp: sq_spent_def)
  have "now < e'"
    using now m(2) by simp
  then have "young m (sq_used (snd (sq_issue E now rnd p s))) (claimedKey q) e'"
    using has_keeps [OF uinv m(3)] signed_issue_facts [OF uinv, of now rnd p] by simp
  then show "sq_spent young n e (snd (sq_issue E now rnd p s)) q"
    using m(1,2) unfolding sq_spent_def by blast
next
  fix s :: "('u, 'a) signed_queries" and n e q q' now
  assume inv: "sq_inv uinv s" and sp: "sq_spent young n e s q" and "q' \<noteq> q"
  then have "young m (sq_used (sq_release E now q' s)) (claimedKey q) e'" if "young m (sq_used s) (claimedKey q) e'" for m e'
    using delete_keeps [of "sq_used s" m "claimedKey q" e' "claimedKey q'"] that
    by (simp add: sq_release_def env sq_inv_def)
  then show "sq_spent young n e (sq_release E now q' s) q"
    using sp unfolding sq_spent_def by blast
next
  fix s :: "('u, 'a) signed_queries" and now rnd p q u
  assume inv: "sq_inv uinv s"
  have uinv: "uinv (sq_used s)" and sync: "sq_asyncUsed s = None"
    using inv by (simp_all add: sq_inv_def)
  obtain v where v: "snd (sq_peek E now q s) = s\<lparr>sq_used := v\<rparr>" "uinv v" "cap v = cap (sq_used s)"
    by (rule peek_used [OF uinv, where now = now and q = q]) blast
  obtain t where t: "sq_revoke E now q s =
      s\<lparr>sq_used := add now (claimedKey q) (Some t) (add now (revokedKey q) (Some t) v)\<rparr>"
    using v(1) by (cases "sq_peek E now q s") (auto simp: sq_revoke_def env Let_def)
  note iss = signed_issue_facts [OF uinv, of now rnd p]
  show "sq_inv uinv (snd (sq_issue E now rnd p s)) \<and> sq_inv uinv (snd (sq_peek E now q s)) \<and>
      sq_inv uinv (snd (sq_claim_now E now q u s)) \<and> sq_inv uinv (sq_release E now q s) \<and>
      sq_inv uinv (sq_revoke E now q s)"
    using signed_claim_inv [OF inv] v t iss sync has_inv [OF uinv] delete_inv [OF uinv] add_inv
    by (simp add: sq_inv_def sq_release_def env)
  show "sq_room cap (snd (sq_issue E now rnd p s)) = sq_room cap s \<and>
      sq_room cap (snd (sq_peek E now q s)) = sq_room cap s \<and>
      sq_room cap (snd (sq_claim_now E now q u s)) = sq_room cap s \<and>
      sq_room cap (sq_release E now q s) = sq_room cap s \<and> sq_room cap (sq_revoke E now q s) = sq_room cap s"
    using signed_claim_inv [OF inv, of now q u] v t iss has_cap [OF uinv] delete_cap [OF uinv] add_cap add_inv
    by (simp add: sq_room_def fun_eq_iff sq_release_def env)
next
  fix s :: "('u, 'a) signed_queries" and n m
  assume "sq_room cap s n" "m \<le> n"
  then show "sq_room cap s m"
    by (simp add: sq_room_def)
qed (fact signed_issue_claim signed_claim_some signed_spent_refuses signed_spent_peek signed_spent_claim
    signed_spent_revoke)+

text \<open>The registry with the memory store, which is the default, and with the file store of a bot.\<close>

definition mem_query_env :: "(string \<Rightarrow> string \<Rightarrow> string) \<Rightarrow> (json \<Rightarrow> string) \<Rightarrow> (string \<Rightarrow> json option) \<Rightarrow>
    (used_store, async_used_store) query_env" where
  "mem_query_env hmac encode decode =
     \<lparr>qe_has = mu_has, qe_add = mu_add, qe_tryAdd = Some (\<lambda>clk. mu_tryAdd clk clk),
      qe_delete = Some (\<lambda>clk. mu_delete), qe_asyncTryAdd = (\<lambda>clk. ma_tryAdd clk clk),
      qe_hmac = hmac, qe_encode = encode, qe_decode = decode\<rparr>"

definition file_query_env :: "file_system \<Rightarrow> (string \<Rightarrow> string \<Rightarrow> string) \<Rightarrow> (json \<Rightarrow> string) \<Rightarrow> (string \<Rightarrow> json option) \<Rightarrow>
    (file_used_store, file_async_used_store) query_env" where
  "file_query_env fs hmac encode decode =
     \<lparr>qe_has = fu_has fs, qe_add = fu_add fs, qe_tryAdd = Some (\<lambda>clk. fu_tryAdd fs clk clk),
      qe_delete = Some (fu_delete fs), qe_asyncTryAdd = (\<lambda>clk. fa_tryAdd fs clk clk),
      qe_hmac = hmac, qe_encode = encode, qe_decode = decode\<rparr>"

interpretation mem_query: query_signing mu_has mu_add mu_tryAdd "\<lambda>now. mu_delete" "\<lambda>s. jm_get (us_seen s)"
  "\<lambda>n s. jm_young n (us_seen s)" us_capacity us_defaultTtlMs mu_inv "mem_query_env h e d"
  for h e d
  by unfold_locales (simp_all add: mem_query_env_def)

interpretation file_query: query_signing "fu_has fs" "fu_add fs" "fu_tryAdd fs" "fu_delete fs"
  "\<lambda>s. jm_get (fu_seen s)" "\<lambda>n s. jm_young n (fu_seen s)" fu_capacity fu_defaultTtlMs fu_inv "file_query_env fs h e d"
  for fs h e d
  by unfold_locales (simp_all add: file_query_env_def)

text \<open>Without an asynchronous store the two ways to claim agree.\<close>

lemma sq_claimAsync_sync:
  "sq_asyncUsed s = None \<Longrightarrow> sq_asyncUsed (snd (sq_peek E now q s)) = None \<Longrightarrow>
     sq_claimAsync E now q u s = sq_claim_now E now q u s"
  by (auto simp: sq_claimAsync_def sq_claim_now_def sq_claim_def Let_def split: prod.splits option.splits)

section \<open>Properties\<close>

text \<open>A codec that knows one payload, for the examples.\<close>

definition demo_qpayload :: query_payload where
  "demo_qpayload = \<lparr>pq_r = ''!r:hs'', pq_u = ''@u:hs'', pq_m = None, pq_a = Some ''shop'', pq_c = 10, pq_e = 9000, pq_n = ''n''\<rparr>"

definition demo_qparams :: query_params where
  "demo_qparams = \<lparr>qp_roomId = ''!r:hs'', qp_userId = ''@u:hs'', qp_messageId = None, qp_appId = Some ''shop'',
     qp_ttlMs = Some 8990\<rparr>"

abbreviation "demo_qenv \<equiv> mem_query_env (\<lambda>_ _. ''mac'') (\<lambda>_. ''body'') (\<lambda>_. Some (query_json demo_qpayload))"

abbreviation "demo_fenv \<equiv> file_query_env Map.empty (\<lambda>_ _. ''mac'') (\<lambda>_. ''body'') (\<lambda>_. Some (query_json demo_qpayload))"

definition demo_fqueries :: "(file_used_store, file_async_used_store) signed_queries" where
  "demo_fqueries = \<lparr>sq_secret = ''0123456789abcdef'', sq_ttlMs = 100,
     sq_used = (fu_new ''d/q.json'' None None)\<lparr>fu_loaded := True\<rparr>, sq_asyncUsed = None, sq_issued = 0\<rparr>"

definition demo_aqueries :: "(used_store, async_used_store) signed_queries" where
  "demo_aqueries = \<lparr>sq_secret = ''0123456789abcdef'', sq_ttlMs = 100, sq_used = mu_new None None,
     sq_asyncUsed = Some \<lparr>as_inner = mu_new None None\<rparr>, sq_issued = 0\<rparr>"

text \<open>
  C24 (safety). A query is answered at most once: after a granted claim of the signed registry with the
  file store (and no asynchronous one), no claim of the same query is granted in any sequence
  of issues, peeks and claims of anyone, and releases and revocations of other queries, before
  the query expires, as long as the claims and revocations in the sequence, a revocation
  counting twice, are fewer than the capacity of the store.
\<close>

theorem signed_query_answered_once:
  assumes "sq_inv fu_inv s" and "sq_claim_now (file_query_env fs h e d) now q u s = (Some r, s1)"
    and "list_all (leaves_query (qr_expiresAtMs r) q) ops" and "int (ops_cost ops) < fu_capacity (sq_used s)"
  shows "q \<notin> set (query_run (sq_issue (file_query_env fs h e d)) (sq_peek (file_query_env fs h e d))
    (sq_claim_now (file_query_env fs h e d)) (sq_release (file_query_env fs h e d))
    (sq_revoke (file_query_env fs h e d)) ops s1)"
  by (rule file_query.signed_query.answered_once [OF assms(1-3)]) (use assms(4) in \<open>simp add: sq_room_def\<close>)

lemmas query_eval = file_query_env_def mem_query_env_def demo_qpayload_def demo_fqueries_def demo_aqueries_def
  sq_claim_now_def sq_claim_def sq_claimAsync_def sq_peek_def sq_take_def verifyQueryToken_def split_last_dot_def
  query_of_json_def query_json_def isPlainObject_def json_prop_def str_prop_def null_str_def record_of_payload_def
  other_user_def claimedKey_def revokedKey_def fu_has_def fu_tryAdd_def fu_add_def fu_ensureLoaded_def fu_prune_def
  fu_scheduleWrite_def fu_new_def mu_has_def mu_tryAdd_def mu_add_def mu_prune_def mu_new_def ma_tryAdd_def
  jm_filter_def Let_def

lemma demo_claim:
  "sq_inv fu_inv demo_fqueries"
  "\<exists>r s1. sq_claim_now demo_fenv 20 ''body.mac'' (Some ''@u:hs'') demo_fqueries = (Some r, s1) \<and> qr_expiresAtMs r = 9000"
  by (simp_all add: sq_inv_def fu_inv_def query_eval)

theorem signed_query_answered_once_witness:
  "\<exists>r s1. sq_claim_now demo_fenv 20 ''body.mac'' (Some ''@u:hs'') demo_fqueries = (Some r, s1) \<and>
     ''body.mac'' \<notin> set (query_run (sq_issue demo_fenv) (sq_peek demo_fenv) (sq_claim_now demo_fenv)
       (sq_release demo_fenv) (sq_revoke demo_fenv) [QClaim 30 ''body.mac'' None, QRelease 31 ''x'', QClaim 8000 ''body.mac'' None] s1)"
proof -
  obtain r s1 where c: "sq_claim_now demo_fenv 20 ''body.mac'' (Some ''@u:hs'') demo_fqueries = (Some r, s1)"
    "qr_expiresAtMs r = 9000"
    using demo_claim(2) by blast
  show ?thesis
    using signed_query_answered_once [OF demo_claim(1) c(1), of "[QClaim 30 ''body.mac'' None, QRelease 31 ''x'', QClaim 8000 ''body.mac'' None]"]
      c by (simp add: ops_cost_def demo_fqueries_def fu_new_def)
qed

text \<open>
  an issued query is claimed with what it was issued for, by its user, until it expires:
  the signed registry with the file store.
\<close>

theorem signed_query_issue_claim:
  assumes "sq_inv fu_inv s" and "sq_fresh (\<lambda>s. jm_get (fu_seen s)) (file_query_env fs h e d) now rnd p s"
    and "sq_issue (file_query_env fs h e d) now rnd p s = (r, s1)"
    and "now' < now + or_default (sq_ttlMs s) (qp_ttlMs p)"
  shows "\<exists>r'. fst (sq_claim_now (file_query_env fs h e d) now' (qr_queryId r) (Some (qp_userId p)) s1) = Some r' \<and>
    qr_roomId r' = qp_roomId p \<and> qr_userId r' = qp_userId p \<and> qr_messageId r' = qp_messageId p \<and> qr_appId r' = qp_appId p"
proof (rule file_query.signed_query.issue_claim [OF assms])
  have "qr_userId r = qp_userId p"
    using file_query.signed_issue_facts [of s fs h e d now rnd p] assms(1,3) by (simp add: sq_inv_def)
  then show "\<not> other_user (Some (qp_userId p)) r"
    by (simp add: other_user_def)
qed

theorem signed_query_issue_claim_witness:
  "\<exists>r'. fst (sq_claim_now demo_fenv 50 (qr_queryId (fst (sq_issue demo_fenv 10 ''n'' demo_qparams demo_fqueries)))
     (Some ''@u:hs'') (snd (sq_issue demo_fenv 10 ''n'' demo_qparams demo_fqueries))) = Some r' \<and> qr_appId r' = Some ''shop''"
proof -
  have p: "sq_payload 10 ''n'' demo_qparams demo_fqueries = demo_qpayload"
    by (simp add: sq_payload_def demo_qparams_def demo_qpayload_def or_default_def)
  have fresh: "sq_fresh (\<lambda>s. jm_get (fu_seen s)) demo_fenv 10 ''n'' demo_qparams demo_fqueries"
    unfolding sq_fresh_def p by (simp add: signQueryToken_def query_eval)
  have life: "(50::int) < 10 + or_default (sq_ttlMs demo_fqueries) (qp_ttlMs demo_qparams)"
    and user: "qp_userId demo_qparams = ''@u:hs''" "qp_appId demo_qparams = Some ''shop''"
    by (simp_all add: demo_qparams_def or_default_def)
  show ?thesis
    using signed_query_issue_claim [OF demo_claim(1) fresh prod.collapse [symmetric] life] user by auto
qed

lemma peek_async [simp]: "sq_asyncUsed (snd (sq_peek E now q s)) = sq_asyncUsed s"
  by (auto simp: sq_peek_def Let_def case_prod_beta split: option.split)

lemma claimAsync_store:
  assumes "sq_asyncUsed s = Some a" and "sq_claimAsync E now q u s = (Some r, s1)"
  obtains r0 b where "r = r0\<lparr>qr_answeredAtMs := Some now\<rparr>" "sq_asyncUsed s1 = Some b"
    "qe_asyncTryAdd E now (claimedKey q) (Some (max 1 (qr_expiresAtMs r0 - now))) a = (True, b)"
proof -
  obtain r0 s0 where peek: "sq_peek E now q s = (r0, s0)"
    by fastforce
  then have "sq_asyncUsed s0 = Some a"
    using assms(1) peek_async [of E now q s] by simp
  then show ?thesis
    using assms(2) that peek by (auto simp: sq_claimAsync_def Let_def split: option.splits if_splits prod.splits)
qed

lemma claimAsync_refused:
  assumes "sq_asyncUsed s = Some b" and "\<And>t. \<not> fst (qe_asyncTryAdd E now (claimedKey q) t b)"
  shows "fst (sq_claimAsync E now q u s) = None"
proof -
  obtain r0 s0 where peek: "sq_peek E now q s = (r0, s0)"
    by fastforce
  then have "sq_asyncUsed s0 = Some b"
    using assms(1) peek_async [of E now q s] by simp
  then show ?thesis
    using assms(2) peek by (auto simp: sq_claimAsync_def Let_def case_prod_beta split: option.split)
qed

text \<open>
  with an asynchronous store, which a bot on several hosts needs, a failed answer burns
  the query: \<open>release\<close> deletes the claim from the synchronous store only, so the claim after it
  is refused until the query expires.
\<close>

theorem async_release_burns_query:
  assumes "sq_asyncUsed s = Some a" and "mu_inv (as_inner a)"
    and "sq_claimAsync (mem_query_env h e d) now q u s = (Some r, s1)" and "now' < qr_expiresAtMs r"
  shows "fst (sq_claimAsync (mem_query_env h e d) now' q u' (sq_release (mem_query_env h e d) t q s1)) = None"
proof -
  let ?E = "mem_query_env h e d :: (used_store, async_used_store) query_env"
  obtain r0 b where r0: "r = r0\<lparr>qr_answeredAtMs := Some now\<rparr>" "sq_asyncUsed s1 = Some b"
    and ok: "ma_tryAdd now now (claimedKey q) (Some (max 1 (qr_expiresAtMs r0 - now))) a = (True, b)"
    using claimAsync_store [OF assms(1,3)] by (auto simp: mem_query_env_def)
  then have tried: "mu_tryAdd now now (claimedKey q) (Some (max 1 (qr_expiresAtMs r0 - now))) (as_inner a) = (True, as_inner b)"
    by (auto simp: ma_tryAdd_def Let_def case_prod_beta prod_eq_iff)
  have "jm_get (us_seen (as_inner b)) (claimedKey q) = Some (now + max 1 (qr_expiresAtMs r0 - now))"
    using memu.tryAdd_young [OF assms(2) tried] memu.young_expiry by fastforce
  then have "\<not> fst (ma_tryAdd now' now' (claimedKey q) x b)" for x
    using assms(4) r0(1) by (simp add: ma_tryAdd_def mu_tryAdd_def mu_has_def Let_def)
  then show ?thesis
    by (intro claimAsync_refused [of _ b]) (simp_all add: r0(2) sq_release_def mem_query_env_def)
qed

lemma demo_async_claim:
  "\<exists>r s1. sq_claimAsync demo_qenv 20 ''body.mac'' None demo_aqueries = (Some r, s1) \<and> qr_expiresAtMs r = 9000"
  by (simp add: query_eval)

theorem async_release_burns_query_witness:
  "\<exists>r s1. sq_claimAsync demo_qenv 20 ''body.mac'' None demo_aqueries = (Some r, s1) \<and>
     fst (sq_claimAsync demo_qenv 30 ''body.mac'' None (sq_release demo_qenv 25 ''body.mac'' s1)) = None"
proof -
  obtain r s1 where c: "sq_claimAsync demo_qenv 20 ''body.mac'' None demo_aqueries = (Some r, s1)" "qr_expiresAtMs r = 9000"
    using demo_async_claim by blast
  have "mu_inv (as_inner \<lparr>as_inner = mu_new None None\<rparr>)"
    by (simp add: mu_inv_def mu_new_def)
  then show ?thesis
    using async_release_burns_query [OF _ _ c(1), of _ 30] c by (simp add: demo_aqueries_def)
qed

context query_signing
begin

lemma revoke_used:
  assumes "uinv (sq_used s)" and "t = (case fst (sq_peek E now q s) of Some x \<Rightarrow> max 1 (qr_expiresAtMs x - now) | None \<Rightarrow> sq_ttlMs s)"
  obtains v where "uinv v" "cap v = cap (sq_used s)"
    "sq_revoke E now q s = s\<lparr>sq_used := add now (claimedKey q) (Some t) (add now (revokedKey q) (Some t) v)\<rparr>"
    "\<And>k. expiry v k \<in> {expiry (sq_used s) k, None}"
proof -
  obtain v where "snd (sq_peek E now q s) = s\<lparr>sq_used := v\<rparr>" "uinv v" "cap v = cap (sq_used s)"
    "\<And>k. expiry v k \<in> {expiry (sq_used s) k, None}"
    by (rule peek_used [OF assms(1), where now = now and q = q]) blast
  then show ?thesis
    using that assms(2) by (cases "sq_peek E now q s") (auto simp: sq_revoke_def env Let_def)
qed

lemma revoke_keeps_config [simp]: "sq_secret (sq_revoke E now q s) = sq_secret s" "sq_ttlMs (sq_revoke E now q s) = sq_ttlMs s"
  by (auto simp: sq_revoke_def sq_peek_def Let_def case_prod_beta split: option.split)

text \<open>A revocation holds for the rest of the query's life.\<close>

lemma revoked_until_expiry:
  assumes "sq_inv uinv s" and "verifyQueryToken E q (sq_secret s) = Some p" and "expiry (sq_used s) (revokedKey q) = None"
    and "2 \<le> cap (sq_used s)" and "t1 < pq_e p" and "t2 < pq_e p"
  shows "fst (sq_peek E t2 q (sq_revoke E t1 q s)) = None"
proof -
  have uinv: "uinv (sq_used s)"
    using assms(1) by (simp add: sq_inv_def)
  obtain a where "fst (sq_peek E t1 q s) = Some (record_of_payload q p a)"
    using assms(2,3,5) has_value [OF uinv] that by (simp add: peek_value [OF uinv] split: if_splits)
  then have t: "pq_e p - t1 = (case fst (sq_peek E t1 q s) of Some x \<Rightarrow> max 1 (qr_expiresAtMs x - t1) | None \<Rightarrow> sq_ttlMs s)"
    using assms(5) by (auto simp: record_of_payload_def)
  obtain v where v: "uinv v" "cap v = cap (sq_used s)" "expiry v (revokedKey q) = None"
    and s1: "sq_revoke E t1 q s = s\<lparr>sq_used := add t1 (claimedKey q) (Some (pq_e p - t1))
      (add t1 (revokedKey q) (Some (pq_e p - t1)) v)\<rparr>"
    using revoke_used [OF uinv t] assms(3) by (metis insertE singletonD)
  let ?w = "add t1 (revokedKey q) (Some (pq_e p - t1)) v"
  have w: "young 0 ?w (revokedKey q) (pq_e p)" "uinv ?w" "cap ?w = cap (sq_used s)"
    using add_young [OF v(1,3), of t1 "Some (pq_e p - t1)"] add_inv [OF v(1)] add_cap [OF v(1)] v(2) by simp_all
  have "young (Suc 0) (add t1 (claimedKey q) (Some (pq_e p - t1)) ?w) (revokedKey q) (pq_e p)"
    by (rule add_keeps [OF w(2,1)]) (use assms(4,5) w(3) in simp_all)
  then have "fst (has t2 (revokedKey q) (sq_used (sq_revoke E t1 q s)))"
    using has_value [OF add_inv [OF w(2)]] young_expiry [OF add_inv [OF w(2)]] assms(6) s1 by simp
  then show ?thesis
    using peek_value [of "sq_revoke E t1 q s"] s1 add_inv [OF w(2)] by simp
qed

end

lemma mu_add_other:
  "mu_inv v \<Longrightarrow> k' \<noteq> k \<Longrightarrow> jm_get (us_seen (mu_add now k t v)) k' \<in> {jm_get (us_seen v) k', None}"
  using bounded_set_other [of "us_seen v" k' k] by (simp add: mu_inv_def mu_add_def mu_prune_def Let_def)

text \<open>
  revoking a query a second time revives it: the second call no longer sees the record and
  takes the default life time of the registry instead of the rest of the query's, so a query
  issued for longer is claimable again once that time has passed.
\<close>

theorem query_revoked_twice_revives:
  assumes "sq_inv mu_inv s" and "verifyQueryToken (mem_query_env h e d) q (sq_secret s) = Some p"
    and "jm_get (us_seen (sq_used s)) (revokedKey q) = None" and "2 \<le> us_capacity (sq_used s)"
    and "t1 \<le> t2" and "t2 + sq_ttlMs s \<le> t3" and "t2 \<le> t3" and "t3 < pq_e p"
  shows "fst (sq_claim_now (mem_query_env h e d) t3 q None
      (sq_revoke (mem_query_env h e d) t2 q (sq_revoke (mem_query_env h e d) t1 q s))) \<noteq> None"
proof -
  let ?E = "mem_query_env h e d :: (used_store, async_used_store) query_env"
  let ?s1 = "sq_revoke ?E t1 q s"
  have "sq_inv mu_inv ?s1" and dead: "fst (sq_peek ?E t2 q ?s1) = None"
    using mem_query.signed_query.inv_keeps [OF assms(1)]
      mem_query.revoked_until_expiry [OF assms(1-4), of t1 t2] assms(5-) by auto
  then have inv1: "mu_inv (sq_used ?s1)" "sq_asyncUsed ?s1 = None"
    by (simp_all add: sq_inv_def)
  have same: "sq_secret ?s1 = sq_secret s" "sq_ttlMs ?s1 = sq_ttlMs s"
    by (auto simp: sq_revoke_def sq_peek_def Let_def case_prod_beta split: option.split)
  obtain v where v: "mu_inv v" and s2: "sq_revoke ?E t2 q ?s1 = ?s1\<lparr>sq_used := mu_add t2 (claimedKey q) (Some (sq_ttlMs s))
      (mu_add t2 (revokedKey q) (Some (sq_ttlMs s)) v)\<rparr>"
    using mem_query.revoke_used [OF inv1(1) refl, of h e d t2 q] dead same(2)
    by (metis option.simps(4))
  let ?w = "mu_add t2 (revokedKey q) (Some (sq_ttlMs s)) v"
  have w: "mu_inv ?w" "mu_inv (mu_add t2 (claimedKey q) (Some (sq_ttlMs s)) ?w)"
    using mu_inv_add v by blast+
  have "jm_get (us_seen ?w) (revokedKey q) = Some (t2 + sq_ttlMs s)"
    "jm_get (us_seen (mu_add t2 (claimedKey q) (Some (sq_ttlMs s)) ?w)) (claimedKey q) = Some (t2 + sq_ttlMs s)"
    using memu.add_expiry v w(1) by auto
  then have "mem_query.lapsed t3 (sq_used (sq_revoke ?E t2 q ?s1)) (revokedKey q)"
    "mem_query.lapsed t3 (sq_used (sq_revoke ?E t2 q ?s1)) (claimedKey q)"
    using mu_add_other [OF w(1), of "revokedKey q" "claimedKey q" t2 "Some (sq_ttlMs s)"] assms(6) s2
    by (auto simp: mem_query.lapsed_def)
  moreover have "sq_inv mu_inv (sq_revoke ?E t2 q ?s1)"
    using w(2) inv1(2) s2 by (simp add: sq_inv_def)
  ultimately show ?thesis
    using mem_query.claim_grants [of "sq_revoke ?E t2 q ?s1" h e d q p t3 None] assms(2,8) same(1) s2
    by (simp add: other_user_def)
qed

definition demo_queries :: "(used_store, async_used_store) signed_queries" where
  "demo_queries = \<lparr>sq_secret = ''0123456789abcdef'', sq_ttlMs = 100, sq_used = mu_new None None,
     sq_asyncUsed = None, sq_issued = 0\<rparr>"

theorem query_revoked_twice_revives_witness:
  "fst (sq_claim_now demo_qenv 200 ''body.mac'' None
     (sq_revoke demo_qenv 30 ''body.mac'' (sq_revoke demo_qenv 20 ''body.mac'' demo_queries))) \<noteq> None"
proof (rule query_revoked_twice_revives)
  show "verifyQueryToken demo_qenv ''body.mac'' (sq_secret demo_queries) = Some demo_qpayload"
    by (simp add: demo_queries_def query_eval)
qed (simp_all add: demo_queries_def sq_inv_def mu_inv_def mu_new_def demo_qpayload_def)

end
