(* ===== verification/Capabilities.thy ===== *)
theory Capabilities
  imports Js_Prelude Js_Util
begin

text \<open>
  The capability handshake between bots and hosts (\<^verbatim>\<open>src/host-capabilities.ts\<close>,
  \<^verbatim>\<open>src/bot-capabilities.ts\<close>, the levels of \<^verbatim>\<open>src/schema.ts\<close>) and what a bot makes of it: the
  defaults of its messages and MiniApp cards in a room (\<^verbatim>\<open>src/bot.ts\<close>).
\<close>

section \<open>Levels\<close>

datatype capability = Stock | Aware

datatype profile = Profile_stock | Profile_aware | Profile_hybrid

definition resolveCapabilityLevel :: "profile option \<Rightarrow> bool \<Rightarrow> capability" where
  "resolveCapabilityLevel p hostAwareFeatures =
     (case p of
        Some Profile_aware \<Rightarrow> Aware
      | Some Profile_hybrid \<Rightarrow> if hostAwareFeatures then Aware else Stock
      | _ \<Rightarrow> Stock)"

fun capability_name :: "capability \<Rightarrow> string" where
  "capability_name Stock = ''stock''"
| "capability_name Aware = ''aware''"

fun profile_name :: "profile \<Rightarrow> string" where
  "profile_name Profile_stock = ''stock''"
| "profile_name Profile_aware = ''aware''"
| "profile_name Profile_hybrid = ''hybrid''"

section \<open>Host capabilities\<close>

definition HOST_CAPABILITIES_SCHEMA_VERSION :: int where "HOST_CAPABILITIES_SCHEMA_VERSION = 1"

record host_capabilities =
  host_profile :: capability
  host_features :: "string list"
  host_keyboardNative :: bool
  host_toast :: bool
  host_progress :: bool
  host_pollUi :: bool
  host_miniApp :: bool

text \<open>The strings of \<open>features\<close>, in a set that keeps the order of insertion.\<close>

fun collect_features :: "json list \<Rightarrow> string list \<Rightarrow> string list" where
  "collect_features [] fs = fs"
| "collect_features (JStr f # vs) fs = collect_features vs (if f = [] \<or> f \<in> set fs then fs else fs @ [f])"
| "collect_features (_ # vs) fs = collect_features vs fs"

definition host_has :: "json \<Rightarrow> string list \<Rightarrow> string \<Rightarrow> bool \<Rightarrow> bool" where
  "host_has raw features key fallback =
     (case json_prop raw key of
        Some (JBool b) \<Rightarrow> b
      | _ \<Rightarrow> if key \<in> set features then True else fallback)"

definition parseHostCapabilities :: "json \<Rightarrow> host_capabilities" where
  "parseHostCapabilities content =
     (let raw = (if isPlainObject content then content else JObj []);
          features = (case json_prop raw ''features'' of Some (JArr vs) \<Rightarrow> collect_features vs [] | _ \<Rightarrow> []);
          profile = (if json_prop raw ''client_profile'' = Some (JStr ''aware'') then Aware else Stock);
          aware = (profile = Aware);
          has = host_has raw features
      in \<lparr>host_profile = profile, host_features = features, host_keyboardNative = has ''keyboard'' aware,
          host_toast = (has ''toast'' aware \<or> has ''callback_answer'' aware),
          host_progress = has ''progress'' aware, host_pollUi = has ''poll_ui'' aware,
          host_miniApp = has ''mini_app'' aware\<rparr>)"

record host_options =
  ho_client_profile :: "capability option"
  ho_features :: "string list option"
  ho_keyboard :: "bool option"
  ho_callback_answer :: "bool option"
  ho_toast :: "bool option"
  ho_progress :: "bool option"
  ho_poll_ui :: "bool option"
  ho_mini_app :: "bool option"

definition given :: "'a \<Rightarrow> 'a option \<Rightarrow> 'a" where
  "given d v = (case v of None \<Rightarrow> d | Some x \<Rightarrow> x)"

lemma given_simps [simp]: "given d None = d" "given d (Some x) = x"
  by (simp_all add: given_def)

definition HOST_FEATURES :: "string list" where
  "HOST_FEATURES = [''keyboard'', ''callback_answer'', ''toast'', ''progress'', ''poll_ui'', ''mini_app'']"

definition buildHostCapabilitiesContent :: "host_options \<Rightarrow> json" where
  "buildHostCapabilitiesContent opts =
     JObj [(''version'', JNum (Fin HOST_CAPABILITIES_SCHEMA_VERSION)),
       (''client_profile'', JStr (capability_name (given Aware (ho_client_profile opts)))),
       (''features'', JArr (map JStr (given HOST_FEATURES (ho_features opts)))),
       (''keyboard'', JBool (given True (ho_keyboard opts))),
       (''callback_answer'', JBool (given True (ho_callback_answer opts))),
       (''toast'', JBool (given True (ho_toast opts))),
       (''progress'', JBool (given True (ho_progress opts))),
       (''poll_ui'', JBool (given True (ho_poll_ui opts))),
       (''mini_app'', JBool (given True (ho_mini_app opts)))]"

section \<open>Bot capabilities\<close>

datatype parse_mode = Plain | Markdown_mode | Html_mode

fun parse_mode_name :: "parse_mode \<Rightarrow> string" where
  "parse_mode_name Plain = ''plain''"
| "parse_mode_name Markdown_mode = ''markdown''"
| "parse_mode_name Html_mode = ''html''"

record message_defaults =
  md_keyboardFallback :: "bool option"
  md_parseMode :: "parse_mode option"

record mini_app_defaults =
  mi_includePlainLink :: "bool option"
  mi_includeLaunchKeyboard :: "bool option"
  mi_includeKeyboardFallback :: "bool option"
  mi_topLevelUrl :: "bool option"

definition AWARE_MESSAGE_DEFAULTS :: message_defaults where
  "AWARE_MESSAGE_DEFAULTS = \<lparr>md_keyboardFallback = Some False, md_parseMode = Some Markdown_mode\<rparr>"

definition AWARE_MINI_APP_DEFAULTS :: mini_app_defaults where
  "AWARE_MINI_APP_DEFAULTS = \<lparr>mi_includePlainLink = Some False, mi_includeLaunchKeyboard = Some True,
     mi_includeKeyboardFallback = Some False, mi_topLevelUrl = Some False\<rparr>"

definition BOT_CAPABILITIES_STATE_EVENT_TYPE :: string where
  "BOT_CAPABILITIES_STATE_EVENT_TYPE = ''dev.aiomatrix.bot''"

definition BOT_CAPABILITIES_SCHEMA_VERSION :: int where "BOT_CAPABILITIES_SCHEMA_VERSION = 1"

record bot_options =
  bo_clientProfile :: "profile option"
  bo_keyboardFallback :: "bool option"
  bo_parseMode :: "parse_mode option"
  bo_mini :: mini_app_defaults
  bo_features :: "string list option"

definition BOT_FEATURES :: "string list" where
  "BOT_FEATURES = [''keyboard'', ''mini_app'', ''mini_app_data'', ''callback'', ''callback_answer'',
     ''format_message_preview'', ''poll'', ''wait_for'']"

record bot_capabilities =
  bc_version :: int
  bc_client_profile :: profile
  bc_keyboard_fallback :: bool
  bc_parse_mode :: parse_mode
  bc_top_level_url :: bool
  bc_include_plain_link :: bool
  bc_include_launch_keyboard :: bool
  bc_include_keyboard_fallback :: bool
  bc_features :: "string list"

definition buildBotCapabilitiesContent :: "bot_options \<Rightarrow> bot_capabilities" where
  "buildBotCapabilitiesContent opts =
     (let profile = given Profile_stock (bo_clientProfile opts);
          aware = (profile = Profile_aware \<or> profile = Profile_hybrid)
      in \<lparr>bc_version = BOT_CAPABILITIES_SCHEMA_VERSION, bc_client_profile = profile,
          bc_keyboard_fallback = given (\<not> aware) (bo_keyboardFallback opts),
          bc_parse_mode = given Markdown_mode (bo_parseMode opts),
          bc_top_level_url = given False (mi_topLevelUrl (bo_mini opts)),
          bc_include_plain_link = given (\<not> aware) (mi_includePlainLink (bo_mini opts)),
          bc_include_launch_keyboard = given True (mi_includeLaunchKeyboard (bo_mini opts)),
          bc_include_keyboard_fallback = given False (mi_includeKeyboardFallback (bo_mini opts)),
          bc_features = given BOT_FEATURES (bo_features opts)\<rparr>)"

section \<open>What a bot does in a room\<close>

text \<open>The options of a bot that matter here, and its cache of host capabilities by room.\<close>

record capability_config =
  cc_clientProfile :: "profile option"
  cc_messageDefaults :: message_defaults
  cc_miniApp :: mini_app_defaults

type_synonym host_cache = "(string, host_capabilities) jsmap"

definition getHostCapabilities :: "capability_config \<Rightarrow> host_cache \<Rightarrow> string \<Rightarrow> host_capabilities" where
  "getHostCapabilities cfg cache roomId =
     (case jm_get cache roomId of
        Some caps \<Rightarrow> caps
      | None \<Rightarrow>
          (let level = resolveCapabilityLevel (Some (given Profile_stock (cc_clientProfile cfg))) False
           in parseHostCapabilities (JObj [(''client_profile'', JStr (capability_name level))])))"

definition host_is_aware :: "host_capabilities \<Rightarrow> bool" where
  "host_is_aware h \<longleftrightarrow> host_profile h = Aware \<or> host_keyboardNative h \<or> host_toast h \<or> host_progress h \<or>
     host_pollUi h \<or> host_miniApp h"

definition capabilityForRoom :: "capability_config \<Rightarrow> host_cache \<Rightarrow> string \<Rightarrow> capability" where
  "capabilityForRoom cfg cache roomId =
     resolveCapabilityLevel (Some (given Profile_stock (cc_clientProfile cfg)))
       (host_is_aware (getHostCapabilities cfg cache roomId))"

text \<open>The level used for defaults: of the room, or without a room of the profile.\<close>

definition effective_level :: "capability_config \<Rightarrow> host_cache \<Rightarrow> string option \<Rightarrow> capability" where
  "effective_level cfg cache roomId =
     (case roomId of
        Some r \<Rightarrow> capabilityForRoom cfg cache r
      | None \<Rightarrow> (let p = given Profile_stock (cc_clientProfile cfg)
                 in resolveCapabilityLevel (Some p) (p = Profile_aware)))"

text \<open>Spreading one object of options over another.\<close>

definition over :: "'a option \<Rightarrow> 'a option \<Rightarrow> 'a option" where
  "over a b = (case b of None \<Rightarrow> a | Some x \<Rightarrow> Some x)"

definition spread_messages :: "message_defaults \<Rightarrow> message_defaults \<Rightarrow> message_defaults" where
  "spread_messages a b = \<lparr>md_keyboardFallback = over (md_keyboardFallback a) (md_keyboardFallback b),
     md_parseMode = over (md_parseMode a) (md_parseMode b)\<rparr>"

definition spread_minis :: "mini_app_defaults \<Rightarrow> mini_app_defaults \<Rightarrow> mini_app_defaults" where
  "spread_minis a b = \<lparr>mi_includePlainLink = over (mi_includePlainLink a) (mi_includePlainLink b),
     mi_includeLaunchKeyboard = over (mi_includeLaunchKeyboard a) (mi_includeLaunchKeyboard b),
     mi_includeKeyboardFallback = over (mi_includeKeyboardFallback a) (mi_includeKeyboardFallback b),
     mi_topLevelUrl = over (mi_topLevelUrl a) (mi_topLevelUrl b)\<rparr>"

definition no_messages :: message_defaults where
  "no_messages = \<lparr>md_keyboardFallback = None, md_parseMode = None\<rparr>"

definition no_minis :: mini_app_defaults where
  "no_minis = \<lparr>mi_includePlainLink = None, mi_includeLaunchKeyboard = None, mi_includeKeyboardFallback = None,
     mi_topLevelUrl = None\<rparr>"

definition effectiveMessageDefaults :: "capability_config \<Rightarrow> host_cache \<Rightarrow> string option \<Rightarrow> message_defaults" where
  "effectiveMessageDefaults cfg cache roomId =
     (let aware = (if effective_level cfg cache roomId = Aware then AWARE_MESSAGE_DEFAULTS else no_messages)
      in spread_messages (spread_messages (no_messages\<lparr>md_parseMode := Some Markdown_mode\<rparr>) aware)
           (cc_messageDefaults cfg))"

definition effectiveMiniAppDefaults :: "capability_config \<Rightarrow> host_cache \<Rightarrow> string option \<Rightarrow> mini_app_defaults" where
  "effectiveMiniAppDefaults cfg cache roomId =
     (let aware = (if effective_level cfg cache roomId = Aware then AWARE_MINI_APP_DEFAULTS else no_minis)
      in spread_minis aware (cc_miniApp cfg))"

text \<open>What \<open>advertiseCapabilities\<close> publishes in a room.\<close>

definition advertised :: "capability_config \<Rightarrow> host_cache \<Rightarrow> string \<Rightarrow> bot_capabilities" where
  "advertised cfg cache roomId =
     (let defaults = effectiveMessageDefaults cfg cache (Some roomId);
          mini = effectiveMiniAppDefaults cfg cache (Some roomId)
      in buildBotCapabilitiesContent
           \<lparr>bo_clientProfile = Some (given Profile_stock (cc_clientProfile cfg)),
            bo_keyboardFallback = md_keyboardFallback defaults, bo_parseMode = md_parseMode defaults,
            bo_mini = mini, bo_features = None\<rparr>)"

section \<open>Properties\<close>

lemma collect_features_strings:
  "[] \<notin> set fs \<Longrightarrow> set (collect_features (map JStr fs) acc) = set acc \<union> set fs"
  by (induction fs arbitrary: acc) auto

lemma host_has_given:
  "json_prop raw key = Some (JBool b) \<Longrightarrow> host_has raw fs key d = b"
  by (simp add: host_has_def)

text \<open>
  what a host publishes is what a bot reads: the profile, each flag, and the features (a
  toast counts as supported when callback answers are).
\<close>

theorem host_capabilities_roundtrip:
  assumes "[] \<notin> set (given HOST_FEATURES (ho_features opts))"
  shows "let h = parseHostCapabilities (buildHostCapabilitiesContent opts)
    in host_profile h = given Aware (ho_client_profile opts) \<and>
       set (host_features h) = set (given HOST_FEATURES (ho_features opts)) \<and>
       host_keyboardNative h = given True (ho_keyboard opts) \<and>
       host_toast h = (given True (ho_toast opts) \<or> given True (ho_callback_answer opts)) \<and>
       host_progress h = given True (ho_progress opts) \<and> host_pollUi h = given True (ho_poll_ui opts) \<and>
       host_miniApp h = given True (ho_mini_app opts)"
  using collect_features_strings [OF assms, of "[]"]
  by (cases "given Aware (ho_client_profile opts)")
    (simp_all add: parseHostCapabilities_def buildHostCapabilitiesContent_def isPlainObject_def json_prop_def
      host_has_def)

theorem host_capabilities_roundtrip_witness:
  "let h = parseHostCapabilities (buildHostCapabilitiesContent
       \<lparr>ho_client_profile = Some Stock, ho_features = Some [''toast''], ho_keyboard = Some False, ho_callback_answer = None,
        ho_toast = Some False, ho_progress = None, ho_poll_ui = None, ho_mini_app = None\<rparr>)
   in host_profile h = Stock \<and> host_toast h"
  using host_capabilities_roundtrip [of "\<lparr>ho_client_profile = Some Stock, ho_features = Some [''toast''],
    ho_keyboard = Some False, ho_callback_answer = None, ho_toast = Some False, ho_progress = None, ho_poll_ui = None,
    ho_mini_app = None\<rparr>"] by (simp add: Let_def)

text \<open>
  a bot keeps the fallbacks of a room unless it has reason to drop them: without explicit
  defaults its messages in a room are lean exactly when its profile is aware, or hybrid and
  the room's host advertised a feature; a room nothing is known of is never lean for a hybrid.
\<close>

theorem lean_only_when_known:
  assumes "md_keyboardFallback (cc_messageDefaults cfg) = None"
  shows "md_keyboardFallback (effectiveMessageDefaults cfg cache (Some r)) = Some False \<longleftrightarrow>
    cc_clientProfile cfg = Some Profile_aware \<or>
    cc_clientProfile cfg = Some Profile_hybrid \<and>
      (\<exists>h. jm_get cache r = Some h \<and> host_is_aware h)"
proof -
  have unknown: "\<not> host_is_aware (parseHostCapabilities (JObj [(''client_profile'', JStr ''stock'')]))"
    by (simp add: parseHostCapabilities_def host_is_aware_def isPlainObject_def json_prop_def host_has_def)
  show ?thesis
    using assms unknown
    by (cases "cc_clientProfile cfg"; cases "the (cc_clientProfile cfg)"; cases "jm_get cache r")
      (simp_all add: effectiveMessageDefaults_def effective_level_def capabilityForRoom_def getHostCapabilities_def
        resolveCapabilityLevel_def spread_messages_def over_def no_messages_def AWARE_MESSAGE_DEFAULTS_def)
qed

definition hybrid_config :: capability_config where
  "hybrid_config = \<lparr>cc_clientProfile = Some Profile_hybrid, cc_messageDefaults = no_messages, cc_miniApp = no_minis\<rparr>"

theorem lean_only_when_known_witness:
  "md_keyboardFallback (effectiveMessageDefaults hybrid_config [] (Some ''!r'')) \<noteq> Some False"
  using lean_only_when_known [of hybrid_config "[]" "''!r''"] by (simp add: hybrid_config_def no_messages_def)

text \<open>
  a hybrid bot advertises the opposite of what it does in a stock room: it publishes that
  its messages carry no keyboard fallback and no plain link, and sends both.
\<close>

theorem hybrid_advertises_lean:
  assumes "cc_clientProfile cfg = Some Profile_hybrid" "cc_messageDefaults cfg = no_messages" "cc_miniApp cfg = no_minis"
    "jm_get cache r = None"
  shows "\<not> bc_keyboard_fallback (advertised cfg cache r) \<and> \<not> bc_include_plain_link (advertised cfg cache r) \<and>
    md_keyboardFallback (effectiveMessageDefaults cfg cache (Some r)) \<noteq> Some False \<and>
    mi_includePlainLink (effectiveMiniAppDefaults cfg cache (Some r)) \<noteq> Some False"
proof -
  have "effective_level cfg cache (Some r) = Stock"
    using assms by (simp add: effective_level_def capabilityForRoom_def getHostCapabilities_def resolveCapabilityLevel_def
        parseHostCapabilities_def host_is_aware_def isPlainObject_def json_prop_def host_has_def)
  then show ?thesis
    using assms by (simp add: advertised_def buildBotCapabilitiesContent_def effectiveMessageDefaults_def
        effectiveMiniAppDefaults_def spread_messages_def spread_minis_def over_def no_messages_def no_minis_def)
qed

theorem hybrid_advertises_lean_witness:
  "\<not> bc_keyboard_fallback (advertised hybrid_config [] ''!r'')"
  using hybrid_advertises_lean [of hybrid_config "[]" "''!r''"] by (simp add: hybrid_config_def)

text \<open>
  an aware host cannot decline toasts: with \<open>toast: false\<close> and no word on callback answers
  it still counts as showing them, while every other flag it declines is off.
\<close>

theorem aware_host_toast_forced:
  "let h = parseHostCapabilities (JObj [(''client_profile'', JStr ''aware''), (''toast'', JBool False),
       (''progress'', JBool False)])
   in host_toast h \<and> \<not> host_progress h"
  by (simp add: parseHostCapabilities_def isPlainObject_def json_prop_def host_has_def)

end
