(* ===== verification/Miniapp_Events.thy ===== *)
theory Miniapp_Events
  imports Js_Prelude Js_Util Url_Encoded Html Keyboards
begin

text \<open>
  The contents of MiniApp, widget and poll events: launch cards and \<open>sendData\<close> payloads
  (\<^verbatim>\<open>src/miniapp/events.ts\<close>), widgets (\<^verbatim>\<open>src/miniapp/widget.ts\<close>) and polls
  (\<^verbatim>\<open>src/polls.ts\<close>). The parser of URLs and the two characters outside U+00FF (the arrow of a
  keyboard fallback, the zero-width space) are arguments.
\<close>

section \<open>Launch cards\<close>

definition MINI_APP_CONTENT_KEY :: string where "MINI_APP_CONTENT_KEY = ''dev.aiomatrix.mini_app''"
definition MINI_APP_MSGTYPE_STUDNOVSU :: string where "MINI_APP_MSGTYPE_STUDNOVSU = ''ru.studnovsu.mini_app''"
definition MINI_APP_DATA_MSGTYPE :: string where "MINI_APP_DATA_MSGTYPE = ''dev.aiomatrix.mini_app_data''"
definition MINI_APP_DATA_KEY :: string where "MINI_APP_DATA_KEY = ''dev.aiomatrix.mini_app_data''"
definition MINI_APP_SCHEMA_VERSION :: int where "MINI_APP_SCHEMA_VERSION = 1"

datatype display = Sheet | Fullscreen | Inline

fun display_name :: "display \<Rightarrow> string" where
  "display_name Sheet = ''sheet''"
| "display_name Fullscreen = ''fullscreen''"
| "display_name Inline = ''inline''"

record card_options =
  co_url :: string
  co_displayUrl :: "string option"
  co_title :: "string option"
  co_body :: "string option"
  co_description :: "string option"
  co_buttonText :: "string option"
  co_botId :: "string option"
  co_appId :: "string option"
  co_startParam :: "string option"
  co_display :: "display option"
  co_keyboard :: "keyboard option"
  co_studnovsuCompat :: bool
  co_notice :: bool
  co_includePlainLink :: "bool option"
  co_includeLaunchKeyboard :: "bool option"
  co_includeKeyboardFallback :: bool
  co_topLevelUrl :: bool

record mini_card =
  mc_version :: jsnum
  mc_url :: string
  mc_title :: "string option"
  mc_description :: "string option"
  mc_button_text :: "string option"
  mc_app_id :: "string option"
  mc_bot_id :: "string option"
  mc_start_param :: "string option"
  mc_display :: "display option"

text \<open>
  \<open>if (options.x) card.x = options.x\<close>: the empty string counts as missing.
\<close>

definition truthy_text :: "string option \<Rightarrow> string option" where
  "truthy_text v = (case v of Some [] \<Rightarrow> None | _ \<Rightarrow> v)"

definition card_of :: "card_options \<Rightarrow> mini_card" where
  "card_of o' = \<lparr>mc_version = Fin MINI_APP_SCHEMA_VERSION, mc_url = co_url o', mc_title = truthy_text (co_title o'),
     mc_description = truthy_text (co_description o'), mc_button_text = truthy_text (co_buttonText o'),
     mc_app_id = truthy_text (co_appId o'), mc_bot_id = truthy_text (co_botId o'),
     mc_start_param = truthy_text (co_startParam o'), mc_display = co_display o'\<rparr>"

definition card_json :: "mini_card \<Rightarrow> json" where
  "card_json c =
     JObj ([(''version'', JNum (mc_version c)), (''url'', JStr (mc_url c))] @
       opt_field ''title'' (mc_title c) @ opt_field ''description'' (mc_description c) @
       opt_field ''button_text'' (mc_button_text c) @ opt_field ''app_id'' (mc_app_id c) @
       opt_field ''bot_id'' (mc_bot_id c) @ opt_field ''start_param'' (mc_start_param c) @
       opt_field ''display'' (map_option display_name (mc_display c)))"

text \<open>
  \<open>strip_url\<close>: \<open>new URL(url)\<close> with an empty hash, written again, or \<open>None\<close> when it throws.
\<close>

definition displayUrlForMiniApp :: "(string \<Rightarrow> string option) \<Rightarrow> string \<Rightarrow> string" where
  "displayUrlForMiniApp strip_url url =
     (case strip_url url of Some u \<Rightarrow> u | None \<Rightarrow> takeWhile (\<lambda>c. c \<noteq> CHR ''#'') url)"

text \<open>Body and HTML before a keyboard fallback is appended.\<close>

definition card_title :: "card_options \<Rightarrow> string" where
  "card_title o' = (case co_title o' of Some t \<Rightarrow> t | None \<Rightarrow> ''Mini app'')"

definition card_button :: "card_options \<Rightarrow> string" where
  "card_button o' = (case co_buttonText o' of Some t \<Rightarrow> t | None \<Rightarrow> ''Open'')"

definition plain_link :: "card_options \<Rightarrow> bool" where
  "plain_link o' \<longleftrightarrow> co_includePlainLink o' \<noteq> Some False"

definition card_body :: "card_options \<Rightarrow> string \<Rightarrow> string" where
  "card_body o' displayUrl =
     (case co_body o' of
        Some b \<Rightarrow> b
      | None \<Rightarrow>
          js_join [CHR 10]
            ([card_title o'] @ (case truthy_text (co_description o') of Some d \<Rightarrow> [d] | None \<Rightarrow> []) @
             (if plain_link o' then [card_button o' @ '': '' @ displayUrl] else [])))"

definition card_html :: "card_options \<Rightarrow> string \<Rightarrow> string" where
  "card_html o' displayUrl =
     ''<p><strong>'' @ escapeHtml (card_title o') @ ''</strong></p>'' @
     (case truthy_text (co_description o') of Some d \<Rightarrow> ''<p>'' @ escapeHtml d @ ''</p>'' | None \<Rightarrow> []) @
     (if plain_link o'
      then ''<p><a href=\"'' @ escapeHtml displayUrl @ ''\">'' @ escapeHtml (card_button o') @ ''</a></p>''
      else [])"

definition launch_rows :: "card_options \<Rightarrow> keyboard" where
  "launch_rows o' =
     (let extra = (case co_keyboard o' of Some k \<Rightarrow> kb_buttons k | None \<Rightarrow> [])
      in if co_includeLaunchKeyboard o' \<noteq> Some False
         then [BtnMiniApp (card_button o') (co_url o') (truthy_text (co_startParam o')) None] # extra
         else extra)"

record card_content =
  ct_msgtype :: string
  ct_body :: string
  ct_formatted_body :: string
  ct_title :: string
  ct_card :: mini_card
  ct_url :: "string option"
  ct_bot_id :: "string option"
  ct_keyboard :: "keyboard_content option"

text \<open>The content without a keyboard, and what a keyboard adds.\<close>

definition base_content :: "card_options \<Rightarrow> string \<Rightarrow> card_content" where
  "base_content o' displayUrl =
     \<lparr>ct_msgtype = (if co_studnovsuCompat o' then MINI_APP_MSGTYPE_STUDNOVSU
                    else if co_notice o' then ''m.notice'' else ''m.text''),
      ct_body = card_body o' displayUrl, ct_formatted_body = card_html o' displayUrl,
      ct_title = card_title o', ct_card = card_of o',
      ct_url = (if co_topLevelUrl o' \<or> co_studnovsuCompat o' then Some (co_url o') else None),
      ct_bot_id = truthy_text (co_botId o'), ct_keyboard = None\<rparr>"

definition add_fallback :: "keyboard_fallback \<Rightarrow> card_content \<Rightarrow> card_content" where
  "add_fallback f c =
     c\<lparr>ct_body := (if kf_text f \<noteq> [] then ct_body c @ [CHR 10, CHR 10] @ kf_text f else ct_body c),
       ct_formatted_body := ct_formatted_body c @ kf_html f\<rparr>"

definition add_keyboard :: "url_parser \<Rightarrow> string \<Rightarrow> bool \<Rightarrow> keyboard \<Rightarrow> card_content \<Rightarrow> card_content" where
  "add_keyboard U arrow withFallback rows c =
     (if rows = [] then c
      else (let kc = kb_toContent (kb_from rows); c1 = c\<lparr>ct_keyboard := Some kc\<rparr>
            in if withFallback then add_fallback (renderKeyboardFallback U arrow kc) c1 else c1))"

datatype card_error = Card_unsafe_url

definition buildMiniAppContent ::
  "url_parser \<Rightarrow> (string \<Rightarrow> string option) \<Rightarrow> string \<Rightarrow> card_options \<Rightarrow> card_error + card_content" where
  "buildMiniAppContent U strip_url arrow o' =
     (if \<not> isSafeButtonUrl U (co_url o') True then Inl Card_unsafe_url
      else
        (let displayUrl = (case co_displayUrl o' of Some u \<Rightarrow> u | None \<Rightarrow> displayUrlForMiniApp strip_url (co_url o'));
             content = base_content o' displayUrl
         in Inr
           (if co_includeLaunchKeyboard o' \<noteq> Some False \<or> co_keyboard o' \<noteq> None
            then add_keyboard U arrow (co_includeKeyboardFallback o') (launch_rows o') content
            else content)))"

lemma add_keyboard_card [simp]: "ct_card (add_keyboard U arrow f rows c) = ct_card c"
  by (simp add: add_keyboard_def add_fallback_def Let_def)

lemma add_keyboard_texts [simp]:
  "ct_body (add_keyboard U arrow False rows c) = ct_body c"
  "ct_formatted_body (add_keyboard U arrow False rows c) = ct_formatted_body c"
  "ct_title (add_keyboard U arrow f rows c) = ct_title c"
  by (simp_all add: add_keyboard_def add_fallback_def Let_def)

definition card_content_json :: "card_content \<Rightarrow> json" where
  "card_content_json c =
     JObj ([(''msgtype'', JStr (ct_msgtype c)), (''body'', JStr (ct_body c)),
        (''format'', JStr ''org.matrix.custom.html''), (''formatted_body'', JStr (ct_formatted_body c)),
        (''title'', JStr (ct_title c)), (MINI_APP_CONTENT_KEY, card_json (ct_card c))] @
       opt_field ''url'' (ct_url c) @ opt_field ''bot_id'' (ct_bot_id c) @
       (case ct_keyboard c of Some k \<Rightarrow> [(KEYBOARD_CONTENT_KEY, content_json k)] | None \<Rightarrow> []))"

definition empty_card :: "string \<Rightarrow> mini_card" where
  "empty_card url = \<lparr>mc_version = Fin MINI_APP_SCHEMA_VERSION, mc_url = url, mc_title = None, mc_description = None,
     mc_button_text = None, mc_app_id = None, mc_bot_id = None, mc_start_param = None, mc_display = None\<rparr>"

definition canonical_card :: "json \<Rightarrow> mini_card option" where
  "canonical_card canonical =
     (case nonempty_string canonical ''url'' of
        None \<Rightarrow> None
      | Some url \<Rightarrow>
          Some ((empty_card url)\<lparr>
            mc_version := (case json_prop canonical ''version'' of Some (JNum n) \<Rightarrow> n | _ \<Rightarrow> Fin MINI_APP_SCHEMA_VERSION),
            mc_title := nonempty_string canonical ''title'',
            mc_description := nonempty_string canonical ''description'',
            mc_button_text := nonempty_string canonical ''button_text'',
            mc_app_id := nonempty_string canonical ''app_id'', mc_bot_id := nonempty_string canonical ''bot_id'',
            mc_start_param := nonempty_string canonical ''start_param''\<rparr>))"

definition studnovsu_card :: "json \<Rightarrow> mini_card option" where
  "studnovsu_card content =
     (if json_prop content ''msgtype'' \<noteq> Some (JStr MINI_APP_MSGTYPE_STUDNOVSU) then None
      else case nonempty_string content ''url'' of
             None \<Rightarrow> None
           | Some url \<Rightarrow> Some ((empty_card url)\<lparr>mc_title := nonempty_string content ''title'',
                                 mc_bot_id := nonempty_string content ''bot_id''\<rparr>))"

definition parseMiniAppContent :: "json \<Rightarrow> mini_card option" where
  "parseMiniAppContent content =
     (if \<not> isPlainObject content then None
      else case (case json_prop content MINI_APP_CONTENT_KEY of
                   Some canonical \<Rightarrow> if isPlainObject canonical then canonical_card canonical else None
                 | None \<Rightarrow> None) of
             Some c \<Rightarrow> Some c
           | None \<Rightarrow> studnovsu_card content)"

section \<open>Data sent back\<close>

record data_payload =
  dp_data :: string
  dp_queryId :: "string option"
  dp_appId :: "string option"
  dp_messageId :: "string option"

text \<open>
  The body: hidden, explicit, a summary, a humanizer's answer for the data and its parsed JSON,
  or the preview; \<open>preview\<close> is \<open>formatMiniAppDataPreview\<close>, \<open>hidden\<close> the zero-width space.
\<close>

record data_options =
  do_body :: "string option"
  do_summary :: "string option"
  do_formatBody :: "(string \<Rightarrow> json \<Rightarrow> string option) option"
  do_hide :: bool
  do_msgtype :: "string option"

definition parseMiniAppJson :: "(string \<Rightarrow> json option) \<Rightarrow> string \<Rightarrow> json" where
  "parseMiniAppJson parse data =
     (let trimmed = js_trim data
      in if \<not> js_starts_with trimmed ''{'' \<and> \<not> js_starts_with trimmed ''['' then JNull
         else case parse trimmed of None \<Rightarrow> JNull | Some v \<Rightarrow> v)"

definition data_body :: "(string \<Rightarrow> json option) \<Rightarrow> (string \<Rightarrow> string) \<Rightarrow> string \<Rightarrow> data_payload \<Rightarrow> data_options \<Rightarrow> string" where
  "data_body parse preview hidden p opts =
     (if do_hide opts then hidden
      else case do_body opts of
        Some b \<Rightarrow> b
      | None \<Rightarrow>
        (case do_summary opts of
           Some s \<Rightarrow> s
         | None \<Rightarrow>
           (case do_formatBody opts of
              Some f \<Rightarrow> (case f (dp_data p) (parseMiniAppJson parse (dp_data p)) of
                           Some b \<Rightarrow> b | None \<Rightarrow> preview (dp_data p))
            | None \<Rightarrow> preview (dp_data p))))"

definition buildMiniAppDataContent ::
  "(string \<Rightarrow> json option) \<Rightarrow> (string \<Rightarrow> string) \<Rightarrow> string \<Rightarrow> data_payload \<Rightarrow> data_options \<Rightarrow> json" where
  "buildMiniAppDataContent parse preview hidden p opts =
     JObj [(''msgtype'', JStr (case do_msgtype opts of Some t \<Rightarrow> t | None \<Rightarrow> MINI_APP_DATA_MSGTYPE)),
       (''body'', JStr (data_body parse preview hidden p opts)),
       (MINI_APP_DATA_KEY,
         JObj ([(''version'', JNum (Fin MINI_APP_SCHEMA_VERSION)), (''data'', JStr (dp_data p))] @
           opt_field ''query_id'' (truthy_text (dp_queryId p)) @ opt_field ''app_id'' (truthy_text (dp_appId p)) @
           opt_field ''message_id'' (truthy_text (dp_messageId p)) @
           (if do_hide opts then [(''hidden'', JBool True)] else [])))]"

definition or_text :: "string option \<Rightarrow> string option \<Rightarrow> string" where
  "or_text a b = (case a of Some s \<Rightarrow> s | None \<Rightarrow> (case b of Some s \<Rightarrow> s | None \<Rightarrow> []))"

definition parseMiniAppDataContent :: "json \<Rightarrow> data_payload option" where
  "parseMiniAppDataContent content =
     (if \<not> isPlainObject content then None
      else case json_prop content MINI_APP_DATA_KEY of
        Some (JObj ps) \<Rightarrow>
          (let block = JObj ps
           in Some \<lparr>dp_data = or_text (readString block ''data'') (readString content ''body''),
                    dp_queryId = readString block ''query_id'', dp_appId = readString block ''app_id'',
                    dp_messageId = readString block ''message_id''\<rparr>)
      | _ \<Rightarrow>
          if json_prop content ''msgtype'' = Some (JStr MINI_APP_DATA_MSGTYPE)
          then Some \<lparr>dp_data = or_text (readString content ''body'') None,
                     dp_queryId = readString content ''query_id'', dp_appId = readString content ''app_id'',
                     dp_messageId = None\<rparr>
          else None)"

section \<open>Polls\<close>

datatype poll_answer = PollText string | PollOption string string

record poll_options =
  po_question :: string
  po_answers :: "poll_answer list"
  po_maxSelections :: "int option"
  po_leanBody :: bool
  po_extra :: "(string \<times> json) list"

datatype poll_error = Empty_question | No_answers

fun poll_entry :: "nat \<Rightarrow> poll_answer \<Rightarrow> string \<times> string" where
  "poll_entry i (PollText t) = (''answer'' @ nat_dec i, t)"
| "poll_entry i (PollOption pid t) = (if pid = [] then ''answer'' @ nat_dec i else pid, t)"

definition poll_entries :: "poll_answer list \<Rightarrow> (string \<times> string) list" where
  "poll_entries answers = map (\<lambda>(i, a). poll_entry i a) (List.enumerate 0 answers)"

definition poll_start :: "poll_options \<Rightarrow> json" where
  "poll_start p =
     JObj [(''question'', JObj [(''org.matrix.msc1767.text'', JStr (po_question p))]),
       (''kind'', JStr ''org.matrix.msc3381.poll.disclosed''),
       (''max_selections'', JNum (Fin (max 1 (case po_maxSelections p of Some n \<Rightarrow> n | None \<Rightarrow> 1)))),
       (''answers'', JArr (map (\<lambda>(i, t). JObj [(''id'', JStr i), (''org.matrix.msc1767.text'', JStr t)])
          (poll_entries (po_answers p))))]"

text \<open>\<open>Object.assign\<close> of further fields over a content.\<close>

definition assign_fields :: "(string \<times> json) list \<Rightarrow> (string \<times> json) list \<Rightarrow> (string \<times> json) list" where
  "assign_fields content extra = fold (\<lambda>(k, v) c. jm_set k v c) extra content"

definition buildPollStartContent :: "poll_options \<Rightarrow> poll_error + json" where
  "buildPollStartContent p =
     (if js_trim (po_question p) = [] then Inl Empty_question
      else if po_answers p = [] then Inl No_answers
      else
        (let start = poll_start p;
             body = (if po_leanBody p then po_question p
                     else po_question p @ [CHR 10] @
                       js_join [CHR 10] (map (\<lambda>(i, (_, t)). nat_dec i @ ''. '' @ t)
                         (List.enumerate 1 (poll_entries (po_answers p)))))
         in Inr (JObj (assign_fields
              ([(''org.matrix.msc3381.poll.start'', start), (''m.poll.start'', start), (''body'', JStr body),
                (''msgtype'', JStr ''m.text'')] @
               (if po_leanBody p
                then [(''dev.aiomatrix.poll'', JObj [(''version'', JNum (Fin 1)), (''lean'', JBool True),
                        (''question'', JStr (po_question p))])]
                else []))
              (po_extra p)))))"

definition buildPollEndContent :: "string \<Rightarrow> json" where
  "buildPollEndContent pollEventId =
     JObj [(''m.relates_to'', JObj [(''rel_type'', JStr ''m.reference''), (''event_id'', JStr pollEventId)]),
       (''org.matrix.msc3381.poll.end'', JObj []), (''m.poll.end'', JObj []), (''body'', JStr ''Poll ended''),
       (''msgtype'', JStr ''m.text'')]"

definition pollStartEventType :: "bool \<Rightarrow> string" where
  "pollStartEventType useUnstable = (if useUnstable then ''org.matrix.msc3381.poll.start'' else ''m.poll.start'')"

definition pollEndEventType :: "bool \<Rightarrow> string" where
  "pollEndEventType useUnstable = (if useUnstable then ''org.matrix.msc3381.poll.end'' else ''m.poll.end'')"

section \<open>Widgets\<close>

definition WIDGET_STATE_EVENT_TYPE :: string where "WIDGET_STATE_EVENT_TYPE = ''im.vector.modular.widgets''"

record widget_options =
  wo_widgetId :: string
  wo_url :: string
  wo_name :: string
  wo_title :: "string option"
  wo_type :: "string option"
  wo_data :: "(string \<times> json) list"
  wo_creatorUserId :: "string option"
  wo_waitForIframeLoad :: "bool option"

definition buildWidgetStateContent :: "widget_options \<Rightarrow> json" where
  "buildWidgetStateContent w =
     JObj ([(''type'', JStr (or_text (wo_type w) (Some ''m.custom''))), (''url'', JStr (wo_url w)),
        (''name'', JStr (wo_name w))] @ opt_field ''title'' (truthy_text (wo_title w)) @
       [(''data'', JObj (assign_fields [(''title'', JStr (or_text (wo_title w) (Some (wo_name w))))] (wo_data w)))] @
       opt_field ''creatorUserId'' (truthy_text (wo_creatorUserId w)) @
       [(''waitForIframeLoad'', JBool (case wo_waitForIframeLoad w of Some b \<Rightarrow> b | None \<Rightarrow> True)),
        (''id'', JStr (wo_widgetId w))])"

definition buildWidgetRemovalContent :: json where
  "buildWidgetRemovalContent = JObj []"

record parsed_widget =
  pw_widgetId :: string
  pw_url :: string
  pw_name :: string
  pw_type :: string
  pw_data :: json

definition parseWidgetStateEvent :: "json \<Rightarrow> parsed_widget option" where
  "parseWidgetStateEvent event =
     (if \<not> isPlainObject event then None
      else case json_prop event ''content'' of
        Some (JObj ps) \<Rightarrow>
          (let content = JObj ps
           in case nonempty_string content ''url'' of
                None \<Rightarrow> None
              | Some url \<Rightarrow>
                  (let widgetId = or_text (readString content ''id'') (readString event ''state_key'')
                   in if widgetId = [] then None
                      else Some \<lparr>pw_widgetId = widgetId, pw_url = url,
                             pw_name = or_text (readString content ''name'') (Some widgetId),
                             pw_type = or_text (readString content ''type'') (Some ''m.custom''),
                             pw_data = (case json_prop content ''data'' of Some (JObj ds) \<Rightarrow> JObj ds | _ \<Rightarrow> JObj [])\<rparr>))
      | _ \<Rightarrow> None)"

text \<open>\<open>s.split(token).join(value)\<close> for a token that is not empty.\<close>

function replace_all :: "string \<Rightarrow> string \<Rightarrow> string \<Rightarrow> string" where
  "replace_all token v [] = []"
| "replace_all token v (c # s) =
     (if token \<noteq> [] \<and> js_starts_with (c # s) token then v @ replace_all token v (drop (length token) (c # s))
      else c # replace_all token v s)"
  by pat_completeness auto
termination
proof (relation "measure (\<lambda>(_, _, s). length s)")
  fix token :: string and v c and s :: string
  assume "token \<noteq> [] \<and> js_starts_with (c # s) token"
  then show "((token, v, drop (length token) (c # s)), token, v, c # s) \<in> measure (\<lambda>(_, _, s). length s)"
    by (cases token) auto
qed auto

record widget_variables =
  wv_userId :: "string option"
  wv_roomId :: "string option"
  wv_displayName :: "string option"
  wv_avatarUrl :: "string option"
  wv_widgetId :: "string option"
  wv_deviceId :: "string option"
  wv_theme :: "string option"
  wv_extra :: "(string \<times> string) list"

definition WIDGET_VARIABLE_KEYS :: "(string \<times> (widget_variables \<Rightarrow> string option)) list" where
  "WIDGET_VARIABLE_KEYS =
     [(''$matrix_user_id'', wv_userId), (''$matrix_room_id'', wv_roomId),
      (''$matrix_display_name'', wv_displayName), (''$matrix_avatar_url'', wv_avatarUrl),
      (''$matrix_widget_id'', wv_widgetId), (''$matrix_device_id'', wv_deviceId), (''$theme'', wv_theme)]"

text \<open>The replacements in the order they are made.\<close>

definition widget_bindings :: "widget_variables \<Rightarrow> (string \<times> string) list" where
  "widget_bindings vars =
     List.map_filter (\<lambda>(token, get). map_option (\<lambda>v. (token, v)) (get vars)) WIDGET_VARIABLE_KEYS @
     map (\<lambda>(name, v). (if js_starts_with name ''$'' then name else ''$'' @ name, v)) (wv_extra vars)"

definition templateWidgetUrl :: "string \<Rightarrow> widget_variables \<Rightarrow> string" where
  "templateWidgetUrl url vars =
     fold (\<lambda>(token, v) out. replace_all token (encodeURIComponent v) out) (widget_bindings vars) url"

record layout_options =
  lo_container :: "string option"
  lo_height :: "int option"
  lo_width :: "int option"
  lo_index :: "int option"

definition buildWidgetLayoutContent :: "string \<Rightarrow> layout_options \<Rightarrow> json" where
  "buildWidgetLayoutContent widgetId l =
     JObj [(''widgets'', JObj [(widgetId,
       JObj [(''container'', JStr (or_text (lo_container l) (Some ''top''))),
         (''index'', JNum (Fin (case lo_index l of Some n \<Rightarrow> n | None \<Rightarrow> 0))),
         (''height'', JNum (Fin (case lo_height l of Some n \<Rightarrow> n | None \<Rightarrow> 45))),
         (''width'', JNum (Fin (case lo_width l of Some n \<Rightarrow> n | None \<Rightarrow> 100)))])])]"

section \<open>Properties of cards and data\<close>

lemma truthy_nonempty: "truthy_text v = Some s \<Longrightarrow> s \<noteq> []"
  by (auto simp: truthy_text_def split: option.splits list.splits)

lemma nonempty_string_map:
  "nonempty_string (JObj ps) k = (case map_of ps k of Some (JStr s) \<Rightarrow> (if s = [] then None else Some s) | _ \<Rightarrow> None)"
  by (auto simp: nonempty_string_def readString_def isPlainObject_def json_prop_def
      split: option.split json.split list.split)

lemma map_of_opt_end: "map_of (opt_field k v) k' = (if k' = k then map_option JStr v else None)"
  by (cases v) (auto simp: opt_field_def)

lemmas card_field_simps = card_json_def nonempty_string_map map_of_opt_end map_add_def json_prop_def
  truthy_text_def

lemma card_title: "nonempty_string (card_json c) ''title'' = truthy_text (mc_title c)"
  by (cases "mc_title c") (simp_all add: card_field_simps split: list.split)

lemma card_description: "nonempty_string (card_json c) ''description'' = truthy_text (mc_description c)"
  by (cases "mc_description c") (simp_all add: card_field_simps split: list.split)

lemma card_button_text: "nonempty_string (card_json c) ''button_text'' = truthy_text (mc_button_text c)"
  by (cases "mc_button_text c") (simp_all add: card_field_simps split: list.split)

lemma card_app_id: "nonempty_string (card_json c) ''app_id'' = truthy_text (mc_app_id c)"
  by (cases "mc_app_id c") (simp_all add: card_field_simps split: list.split)

lemma card_bot_id: "nonempty_string (card_json c) ''bot_id'' = truthy_text (mc_bot_id c)"
  by (cases "mc_bot_id c") (simp_all add: card_field_simps split: list.split)

lemma card_start_param: "nonempty_string (card_json c) ''start_param'' = truthy_text (mc_start_param c)"
  by (cases "mc_start_param c") (simp_all add: card_field_simps split: list.split)

lemma card_fields:
  "nonempty_string (card_json c) ''url'' = truthy_text (Some (mc_url c))"
  "json_prop (card_json c) ''version'' = Some (JNum (mc_version c))"
  by (simp_all add: card_field_simps split: list.split)

lemmas card_all = card_fields card_title card_description card_button_text card_app_id card_bot_id card_start_param

lemma truthy_twice [simp]: "truthy_text (truthy_text v) = truthy_text v"
  by (auto simp: truthy_text_def split: option.splits list.splits)

lemma canonical_card_of:
  "co_url opts \<noteq> [] \<Longrightarrow> canonical_card (card_json (card_of opts)) = Some ((card_of opts)\<lparr>mc_display := None\<rparr>)"
  by (simp add: canonical_card_def card_all empty_card_def card_of_def truthy_text_def [of "Some (co_url opts)"]
      split: list.split)

text \<open>
  a launch card is read back from the content built for it, except for its display mode.
\<close>

theorem mini_app_card_roundtrip:
  assumes "buildMiniAppContent U strip arrow opts = Inr c" and "co_url opts \<noteq> []"
  shows "parseMiniAppContent (card_content_json c) = Some ((card_of opts)\<lparr>mc_display := None\<rparr>)"
proof -
  have "ct_card c = card_of opts"
    using assms(1) by (auto simp: buildMiniAppContent_def base_content_def Let_def split: if_splits)
  then have "json_prop (card_content_json c) MINI_APP_CONTENT_KEY = Some (card_json (card_of opts))"
    by (simp add: card_content_json_def json_prop_def MINI_APP_CONTENT_KEY_def)
  moreover have "isPlainObject (card_json x)" "isPlainObject (card_content_json c)" for x
    by (simp_all add: card_json_def card_content_json_def isPlainObject_def)
  ultimately show ?thesis
    using canonical_card_of [OF assms(2)] by (simp add: parseMiniAppContent_def)
qed

definition demo_card :: card_options where
  "demo_card = \<lparr>co_url = ''https://app#secret'', co_displayUrl = None, co_title = Some ''Shop'', co_body = None,
     co_description = None, co_buttonText = None, co_botId = Some ''@b:hs'', co_appId = Some ''shop'',
     co_startParam = None, co_display = Some Sheet, co_keyboard = None, co_studnovsuCompat = False, co_notice = False,
     co_includePlainLink = None, co_includeLaunchKeyboard = None, co_includeKeyboardFallback = False,
     co_topLevelUrl = False\<rparr>"

definition demo_urls :: url_parser where "demo_urls _ = Some (''https:'', ''app'')"

lemma demo_card_built: "\<exists>c. buildMiniAppContent demo_urls (\<lambda>_. None) ''->'' demo_card = Inr c"
  by (simp add: buildMiniAppContent_def isSafeButtonUrl_def demo_urls_def demo_card_def Let_def)

theorem mini_app_card_roundtrip_witness:
  "\<exists>c x. buildMiniAppContent demo_urls (\<lambda>_. None) ''->'' demo_card = Inr c \<and>
     parseMiniAppContent (card_content_json c) = Some x \<and> mc_url x = ''https://app#secret'' \<and> mc_display x = None"
proof -
  obtain c where c: "buildMiniAppContent demo_urls (\<lambda>_. None) ''->'' demo_card = Inr c"
    using demo_card_built by blast
  show ?thesis
    using c mini_app_card_roundtrip [OF c] by (simp add: demo_card_def card_of_def)
qed

lemma card_other_url1: "card_title (opts\<lparr>co_url := u\<rparr>) = card_title opts"
  "card_button (opts\<lparr>co_url := u\<rparr>) = card_button opts" "plain_link (opts\<lparr>co_url := u\<rparr>) = plain_link opts"
  by (simp_all add: card_title_def card_button_def plain_link_def split: option.split)

lemma card_other_url2: "card_body (opts\<lparr>co_url := u\<rparr>) d = card_body opts d"
  "card_html (opts\<lparr>co_url := u\<rparr>) d = card_html opts d"
  by (simp_all add: card_body_def card_html_def card_other_url1 split: option.split)

lemmas card_other_url = card_other_url1 card_other_url2

text \<open>
  the signed part of a launch URL stays out of the timeline: without the keyboard fallback,
  body and HTML depend on the URL only through the URL to display, so two launch URLs that
  differ in what is stripped give the same text.
\<close>

theorem launch_secret_not_in_body:
  assumes "buildMiniAppContent U strip arrow opts = Inr c"
    and "buildMiniAppContent U strip arrow (opts\<lparr>co_url := url'\<rparr>) = Inr c'"
    and "displayUrlForMiniApp strip url' = displayUrlForMiniApp strip (co_url opts)"
    and "\<not> co_includeKeyboardFallback opts"
  shows "ct_body c' = ct_body c \<and> ct_formatted_body c' = ct_formatted_body c \<and> ct_title c' = ct_title c"
proof -
  have body: "ct_body x = card_body opts' d \<and> ct_formatted_body x = card_html opts' d \<and> ct_title x = card_title opts'"
    if "buildMiniAppContent U strip arrow opts' = Inr x" "\<not> co_includeKeyboardFallback opts'"
      "d = (case co_displayUrl opts' of Some u \<Rightarrow> u | None \<Rightarrow> displayUrlForMiniApp strip (co_url opts'))" for opts' x d
    using that by (auto simp: buildMiniAppContent_def base_content_def Let_def split: if_splits)
  show ?thesis
    using body [OF assms(1) _ refl] body [OF assms(2) _ refl] assms(3,4)
    by (cases "co_displayUrl opts") (simp_all add: card_other_url)
qed

theorem launch_secret_not_in_body_witness:
  "\<exists>c c'. buildMiniAppContent demo_urls (\<lambda>_. None) ''->'' demo_card = Inr c \<and>
     buildMiniAppContent demo_urls (\<lambda>_. None) ''->'' (demo_card\<lparr>co_url := ''https://app#other''\<rparr>) = Inr c' \<and> ct_body c' = ct_body c"
proof -
  obtain c c' where c: "buildMiniAppContent demo_urls (\<lambda>_. None) ''->'' demo_card = Inr c"
    and c': "buildMiniAppContent demo_urls (\<lambda>_. None) ''->'' (demo_card\<lparr>co_url := ''https://app#other''\<rparr>) = Inr c'"
    by (simp add: buildMiniAppContent_def isSafeButtonUrl_def demo_urls_def demo_card_def Let_def)
  have "displayUrlForMiniApp (\<lambda>_. None) ''https://app#other'' = displayUrlForMiniApp (\<lambda>_. None) (co_url demo_card)"
    by (simp add: displayUrlForMiniApp_def demo_card_def)
  then show ?thesis
    using launch_secret_not_in_body [OF c c'] c c' by (simp add: demo_card_def)
qed

text \<open>
  the data of a \<open>sendData\<close> is read back unchanged, whatever body is shown and even when it
  is empty, with the ids that were given.
\<close>

theorem mini_app_data_roundtrip:
  "parseMiniAppDataContent (buildMiniAppDataContent parse preview hidden p opts) =
     Some \<lparr>dp_data = dp_data p, dp_queryId = truthy_text (dp_queryId p), dp_appId = truthy_text (dp_appId p),
           dp_messageId = truthy_text (dp_messageId p)\<rparr>"
  by (cases "truthy_text (dp_queryId p)"; cases "truthy_text (dp_appId p)"; cases "truthy_text (dp_messageId p)")
    (simp_all add: parseMiniAppDataContent_def buildMiniAppDataContent_def json_prop_def isPlainObject_def
      MINI_APP_DATA_KEY_def readString_def opt_field_def or_text_def)

section \<open>Properties of polls\<close>

text \<open>
  a poll of texts has distinct answer ids, in the order of the answers.
\<close>

lemma poll_ids_texts:
  "map fst (poll_entries (map PollText ts)) = map (\<lambda>i. ''answer'' @ nat_dec i) [0..<length ts]"
proof -
  have "map fst (map (\<lambda>(i, a). poll_entry i a) (List.enumerate n (map PollText ts))) =
      map (\<lambda>i. ''answer'' @ nat_dec i) [n..<n + length ts]" for n
    by (induction ts arbitrary: n) (simp_all add: upt_conv_Cons del: upt_Suc)
  then show ?thesis
    by (simp add: poll_entries_def)
qed

theorem poll_text_ids_distinct:
  "distinct (map fst (poll_entries (map PollText ts))) \<and> map snd (poll_entries (map PollText ts)) = ts"
proof -
  have "map snd (map (\<lambda>(i, a). poll_entry i a) (List.enumerate n (map PollText ts))) = ts" for n
    by (induction ts arbitrary: n) simp_all
  then show ?thesis
    unfolding poll_ids_texts by (auto simp: poll_entries_def distinct_map inj_on_def dest: nat_dec_inj)
qed

text \<open>
  an explicit id can coincide with the one generated for another answer: votes for the two
  are then indistinguishable.
\<close>

theorem poll_ids_collide:
  "poll_entries [PollText ''yes'', PollOption ''answer0'' ''no''] = [(''answer0'', ''yes''), (''answer0'', ''no'')]"
  by (simp add: poll_entries_def nat_dec.simps char_of_is)

section \<open>Properties of widgets\<close>

text \<open>Characters that can structure a URL, other than the dollar sign of the variables.\<close>

definition url_structure :: "char set" where
  "url_structure = set ''/?#&=:@;,+ <>|^{}[]`'' \<union> {CHR ''\"'', CHR 0x5C}"

lemma hex_upper_plain: "n < 16 \<Longrightarrow> hex_upper n \<notin> url_structure"
proof -
  have "list_all (\<lambda>n. hex_upper n \<notin> url_structure) [0..<16]"
    by code_simp
  then show "n < 16 \<Longrightarrow> hex_upper n \<notin> url_structure"
    by (simp add: list_all_iff)
qed

lemma structure_reserved: "c \<in> url_structure \<Longrightarrow> \<not> uri_plain c"
proof -
  have "list_all (\<lambda>c. \<not> uri_plain c) (CHR ''\"'' # CHR 0x5C # ''/?#&=:@;,+ <>|^{}[]`'')"
    by code_simp
  then show "c \<in> url_structure \<Longrightarrow> \<not> uri_plain c"
    by (auto simp: list_all_iff url_structure_def)
qed

lemma percent_plain: "CHR ''%'' \<notin> url_structure"
  by (simp add: url_structure_def)

lemma escaped_byte_plain:
  assumes "n < 256"
  shows "\<forall>c \<in> {CHR ''%'', hex_upper (n div 16), hex_upper (n mod 16)}. c \<notin> url_structure"
  using percent_plain hex_upper_plain [OF less_mult_imp_div_less] hex_upper_plain [of "n mod 16"] assms by auto

lemma encoded_plain:
  assumes "c \<in> set (encodeURIComponent s)"
  shows "c \<notin> url_structure"
proof -
  obtain x where x: "c \<in> set (if uri_plain x then [x]
      else concat (map (\<lambda>n. [CHR ''%'', hex_upper (n div 16), hex_upper (n mod 16)]) (utf8_char x)))"
    using assms unfolding encodeURIComponent_def set_concat set_map by blast
  show ?thesis
  proof (cases "uri_plain x")
    case True
    then show ?thesis
      using x structure_reserved by auto
  next
    case False
    then have "c \<in> set (concat (map (\<lambda>n. [CHR ''%'', hex_upper (n div 16), hex_upper (n mod 16)]) (utf8_char x)))"
      using x by (simp only: if_False)
    then obtain n where n: "n \<in> set (utf8_char x)" "c \<in> set [CHR ''%'', hex_upper (n div 16), hex_upper (n mod 16)]"
      unfolding set_concat set_map by blast
    then show ?thesis
      using escaped_byte_plain [OF utf8_char_bytes [OF n(1)]] by auto
  qed
qed

lemma filter_replace_all:
  assumes "filter P v = []" and "filter P token = []"
  shows "filter P (replace_all token v s) = filter P s"
proof (induction s rule: length_induct)
  case (1 s)
  show ?case
  proof (cases s)
    case Nil
    then show ?thesis by simp
  next
    case (Cons x t)
    show ?thesis
    proof (cases "token \<noteq> [] \<and> js_starts_with s token")
      case True
      then obtain r where r: "s = token @ r"
        by (auto simp: js_starts_with_iff)
      then have "replace_all token v s = v @ replace_all token v r"
        using True Cons by (cases token) auto
      moreover have "filter P (replace_all token v r) = filter P r"
        using 1 True r by (cases token) auto
      ultimately show ?thesis
        using assms r by simp
    next
      case False
      then show ?thesis
        using 1 Cons by auto
    qed
  qed
qed

text \<open>
  a hostile display name cannot break out of a widget URL: the characters that structure
  the templated URL are those of the template, in their order, whatever the values are
  (further variables may have any value too, if their names have no such character).
\<close>

theorem widget_values_cannot_break_out:
  assumes "list_all (\<lambda>(name, v). list_all (\<lambda>c. c \<notin> url_structure) name) (wv_extra vars)"
  shows "filter (\<lambda>c. c \<in> url_structure) (templateWidgetUrl url vars) = filter (\<lambda>c. c \<in> url_structure) url"
proof -
  let ?P = "\<lambda>c. c \<in> url_structure"
  have vals: "filter ?P (encodeURIComponent v) = []" for v
    using encoded_plain by (auto simp: filter_empty_conv)
  have "list_all (\<lambda>(token, get). filter ?P token = []) WIDGET_VARIABLE_KEYS" and dollar: "CHR ''$'' \<notin> url_structure"
    by (simp_all add: WIDGET_VARIABLE_KEYS_def url_structure_def)
  then have std: "filter ?P (fst b) = []"
    if "b \<in> set (List.map_filter (\<lambda>(token, get). map_option (\<lambda>v. (token, v)) (get vars)) WIDGET_VARIABLE_KEYS)" for b
    using that by (auto simp: List.map_filter_def list_all_iff)
  have extra: "filter ?P (fst b) = []"
    if in_extra: "b \<in> set (map (\<lambda>(name, v). (if js_starts_with name ''$'' then name else ''$'' @ name, v)) (wv_extra vars))" for b
  proof -
    obtain p where p: "p \<in> set (wv_extra vars)"
      and b: "b = (case p of (name, v) \<Rightarrow> (if js_starts_with name ''$'' then name else ''$'' @ name, v))"
      using in_extra by (auto simp only: set_map)
    have nv: "fst b = fst p \<or> fst b = ''$'' @ fst p"
      unfolding b by (cases p) simp
    have "\<forall>c \<in> set (fst p). c \<notin> url_structure"
      using assms p by (auto simp: list_all_iff)
    then show ?thesis
      using nv dollar by (auto simp: filter_empty_conv)
  qed
  have tokens: "\<forall>b \<in> set (widget_bindings vars). filter ?P (fst b) = []"
    unfolding widget_bindings_def set_append using std extra by blast
  have "filter ?P (fold (\<lambda>(token, v) out. replace_all token (encodeURIComponent v) out) bs u) = filter ?P u"
    if "\<forall>b \<in> set bs. filter ?P (fst b) = []" for bs u
    using that by (induction bs arbitrary: u) (auto simp: filter_replace_all vals)
  then show ?thesis
    using tokens by (simp add: templateWidgetUrl_def)
qed

definition demo_vars :: widget_variables where
  "demo_vars = \<lparr>wv_userId = Some ''@a:hs'', wv_roomId = None, wv_displayName = Some ''x&admin=1#'', wv_avatarUrl = None,
     wv_widgetId = None, wv_deviceId = None, wv_theme = None, wv_extra = [(''lang'', ''e/n'')]\<rparr>"

theorem widget_values_cannot_break_out_witness:
  "filter (\<lambda>c. c \<in> url_structure) (templateWidgetUrl ''https://w/?n=$matrix_display_name&l=$lang'' demo_vars) =
     filter (\<lambda>c. c \<in> url_structure) ''https://w/?n=$matrix_display_name&l=$lang''"
  by (rule widget_values_cannot_break_out) (simp add: demo_vars_def url_structure_def)

end
