(* ===== verification/Commands.thy ===== *)
theory Commands
  imports Html_Sanitize Room_Cache
begin

text \<open>
  Commands (\<^verbatim>\<open>src/commands.ts\<close>): parsing of a message body, matching against
  specifications, suggestions, help listings and the registry. The em dash of a help line is
  a code unit above U+00FF; the text it is written as is the parameter \<open>dash\<close>.
\<close>

section \<open>Specifications\<close>

datatype scope = Scope_all | Scope_direct | Scope_group

record cmd_spec =
  cs_name :: string
  cs_aliases :: "string list option"
  cs_description :: "string option"
  cs_args :: "string option"
  cs_hidden :: bool
  cs_minPowerLevel :: "jsnum option"
  cs_scope :: "scope option"
  cs_category :: "string option"

definition DEFAULT_COMMAND_PREFIXES :: "string list" where
  "DEFAULT_COMMAND_PREFIXES = [''/'', ''!'']"

record command_object =
  co_prefix :: string
  co_command :: string
  co_raw :: string
  co_args :: string
  co_argsList :: "string list"
  co_mention :: "string option"

text \<open>An optional text that is present and not empty.\<close>

definition given :: "string option \<Rightarrow> bool" where
  "given x = (case x of Some s \<Rightarrow> s \<noteq> [] | None \<Rightarrow> False)"

definition text_or :: "string option \<Rightarrow> string \<Rightarrow> string" where
  "text_or x d = (case x of Some s \<Rightarrow> s | None \<Rightarrow> d)"

section \<open>Parsing\<close>

definition strip_prefix_char :: "string \<Rightarrow> string" where
  "strip_prefix_char s =
     (case s of c # r \<Rightarrow> if c \<in> {CHR ''/'', CHR ''!'', CHR ''.''} then r else s | [] \<Rightarrow> s)"

definition normalizeCommandName :: "string \<Rightarrow> string" where
  "normalizeCommandName name =
     takeWhile (\<lambda>c. c \<noteq> CHR '':'' \<and> c \<noteq> CHR ''@'') (strip_prefix_char (js_lower name))"

record parse_opts =
  po_prefixes :: "string list option"
  po_allowBare :: "bool option"
  po_botNames :: "string list option"

text \<open>\<open>/@([^\s]+)$/\<close>, at the first position where it matches.\<close>

fun mention_of :: "string \<Rightarrow> string option" where
  "mention_of [] = None"
| "mention_of (c # s) =
     (if c = CHR ''@'' \<and> s \<noteq> [] \<and> list_all (\<lambda>d. \<not> js_space d) s then Some s else mention_of s)"

definition buildCommandObject :: "string \<Rightarrow> string \<Rightarrow> string \<Rightarrow> string \<Rightarrow> command_object" where
  "buildCommandObject prefix raw command args =
     (let trimmedArgs = js_trim_start args
      in \<lparr>co_prefix = prefix, co_command = command, co_raw = raw, co_args = trimmedArgs,
          co_argsList = (if trimmedArgs \<noteq> [] then js_split_runs js_space trimmedArgs else []),
          co_mention = mention_of raw\<rparr>)"

definition splitFirstToken :: "string \<Rightarrow> string \<times> string" where
  "splitFirstToken input =
     (case input of
        [] \<Rightarrow> (input, [])
      | c # _ \<Rightarrow>
          if js_space c then (input, [])
          else (takeWhile (\<lambda>d. \<not> js_space d) input, dropWhile (\<lambda>d. \<not> js_space d) input))"

text \<open>
  The separator after a name: the rest of the text after \<open>/^\s*[:,\-]?\s+/\<close>, or else after
  \<open>/^\s*[:,]\s*/\<close>.
\<close>

definition after_separator :: "string \<Rightarrow> string option" where
  "after_separator rest =
     (let r = dropWhile js_space rest;
          spaced = (case r of
             c # t \<Rightarrow>
               if c \<in> {CHR '':'', CHR '','', CHR ''-''} \<and> (case t of d # _ \<Rightarrow> js_space d | [] \<Rightarrow> False)
               then Some (dropWhile js_space t) else None
           | [] \<Rightarrow> None)
      in case spaced of
           Some t \<Rightarrow> Some t
         | None \<Rightarrow>
             if r \<noteq> rest then Some r
             else (case r of
                     c # t \<Rightarrow> if c \<in> {CHR '':'', CHR '',''} then Some (dropWhile js_space t) else None
                   | [] \<Rightarrow> None))"

definition strip_at_sign :: "string \<Rightarrow> string" where
  "strip_at_sign s = (if js_starts_with s ''@'' then drop 1 s else s)"

definition local_name :: "string \<Rightarrow> string" where
  "local_name name = takeWhile (\<lambda>c. c \<noteq> CHR '':'') (strip_at_sign name)"

definition address_names :: "string \<Rightarrow> string list" where
  "address_names name =
     (if local_name name \<noteq> [] then set_add (CHR ''@'' # local_name name) (set_add (local_name name) [name]) else [name])"

fun strip_candidates :: "string \<Rightarrow> string list \<Rightarrow> string option" where
  "strip_candidates body [] = None"
| "strip_candidates body (c # cs) =
     (if js_starts_with (js_lower body) (js_lower c) then
        (case after_separator (drop (length c) body) of
           Some r \<Rightarrow> Some r
         | None \<Rightarrow> strip_candidates body cs)
      else strip_candidates body cs)"

definition stripAddressPrefix :: "string \<Rightarrow> string \<Rightarrow> string option" where
  "stripAddressPrefix body botName =
     (let name = js_trim botName
      in if name = [] then None else strip_candidates body (address_names name))"

fun strip_address :: "string list \<Rightarrow> string \<Rightarrow> string" where
  "strip_address [] body = body"
| "strip_address (n # ns) body =
     (case stripAddressPrefix body n of Some r \<Rightarrow> js_trim r | None \<Rightarrow> strip_address ns body)"

definition parseCommand :: "string \<Rightarrow> parse_opts \<Rightarrow> command_object option" where
  "parseCommand body opts =
     (let prefixes = (case po_prefixes opts of Some ps \<Rightarrow> ps | None \<Rightarrow> DEFAULT_COMMAND_PREFIXES);
          trimmed = strip_address (case po_botNames opts of Some ns \<Rightarrow> ns | None \<Rightarrow> []) (js_trim body)
      in if js_trim body = [] \<or> trimmed = [] then None
         else
           (let (firstToken, args) = splitFirstToken trimmed
            in case find (\<lambda>p. 0 < length p \<and> js_starts_with firstToken p) prefixes of
                 None \<Rightarrow>
                   if po_allowBare opts \<noteq> Some True then None
                   else if normalizeCommandName firstToken = [] then None
                   else Some (buildCommandObject [] firstToken (normalizeCommandName firstToken) args)
               | Some p \<Rightarrow>
                   (let rawName = drop (length p) firstToken
                    in if rawName = [] then None
                       else if normalizeCommandName rawName = [] then None
                       else Some (buildCommandObject p rawName (normalizeCommandName rawName) args))))"

section \<open>Matching and suggestions\<close>

definition spec_names :: "cmd_spec \<Rightarrow> string list" where
  "spec_names spec =
     map normalizeCommandName (cs_name spec # (case cs_aliases spec of Some xs \<Rightarrow> xs | None \<Rightarrow> []))"

fun match_specs :: "command_object \<Rightarrow> cmd_spec list \<Rightarrow> (cmd_spec \<times> string \<times> command_object) option" where
  "match_specs parsed [] = None"
| "match_specs parsed (spec # specs) =
     (if co_command parsed \<in> set (spec_names spec) then Some (spec, co_args parsed, parsed)
      else match_specs parsed specs)"

definition bare_default :: "parse_opts \<Rightarrow> parse_opts" where
  "bare_default opts =
     (case po_allowBare opts of None \<Rightarrow> opts\<lparr>po_allowBare := Some True\<rparr> | Some _ \<Rightarrow> opts)"

definition matchCommand :: "string \<Rightarrow> cmd_spec list \<Rightarrow> parse_opts \<Rightarrow> (cmd_spec \<times> string \<times> command_object) option" where
  "matchCommand body specs opts =
     (case parseCommand body (bare_default opts) of
        None \<Rightarrow> None
      | Some parsed \<Rightarrow> match_specs parsed specs)"

fun suggest_loop :: "string \<Rightarrow> int \<Rightarrow> cmd_spec list \<Rightarrow> cmd_spec list \<Rightarrow> cmd_spec list" where
  "suggest_loop token capped [] result = result"
| "suggest_loop token capped (spec # specs) result =
     (if list_ex (\<lambda>n. js_starts_with n token) (spec_names spec) then
        (if capped \<le> int (length (result @ [spec])) then result @ [spec]
         else suggest_loop token capped specs (result @ [spec]))
      else suggest_loop token capped specs result)"

definition suggestCommands :: "string \<Rightarrow> cmd_spec list \<Rightarrow> int \<Rightarrow> cmd_spec list" where
  "suggestCommands input specs limit =
     (let capped = max 0 limit;
          visible = filter (\<lambda>s. \<not> cs_hidden s) specs;
          trimmed = js_trim input;
          token = normalizeCommandName (takeWhile (\<lambda>c. \<not> js_space c) trimmed)
      in if capped = 0 then []
         else if trimmed = [] \<or> token = [] then take (nat capped) visible
         else suggest_loop token capped visible [])"

section \<open>Help\<close>

record help_opts =
  ho_prefix :: "string option"
  ho_title :: "string option"
  ho_scope :: "scope option"
  ho_powerLevel :: "jsnum option"
  ho_groupByCategory :: "bool option"

definition visibleForHelp :: "cmd_spec \<Rightarrow> help_opts \<Rightarrow> bool" where
  "visibleForHelp spec opts =
     (if cs_hidden spec then False
      else if (case (ho_scope opts, cs_scope spec) of
                 (Some s, Some t) \<Rightarrow> t \<noteq> Scope_all \<and> t \<noteq> s | _ \<Rightarrow> False) then False
      else if (case (ho_powerLevel opts, cs_minPowerLevel spec) of
                 (Some p, Some m) \<Rightarrow> \<not> jsnum_ge p m | _ \<Rightarrow> False) then False
      else True)"

definition group_by :: "help_opts \<Rightarrow> cmd_spec list \<Rightarrow> bool" where
  "group_by opts visible =
     (case ho_groupByCategory opts of Some b \<Rightarrow> b | None \<Rightarrow> list_ex (\<lambda>s. given (cs_category s)) visible)"

definition add_to_group :: "cmd_spec \<Rightarrow> (string, cmd_spec list) jsmap \<Rightarrow> (string, cmd_spec list) jsmap" where
  "add_to_group spec groups =
     (let key = text_or (cs_category spec) []
      in case jm_get groups key of
           Some bucket \<Rightarrow> jm_set key (bucket @ [spec]) groups
         | None \<Rightarrow> jm_set key [spec] groups)"

definition help_groups :: "cmd_spec list \<Rightarrow> (string, cmd_spec list) jsmap" where
  "help_groups visible = fold add_to_group visible []"

definition usage :: "help_opts \<Rightarrow> cmd_spec \<Rightarrow> string" where
  "usage opts spec =
     text_or (ho_prefix opts) ''/'' @ cs_name spec @
     (if given (cs_args spec) then '' '' @ text_or (cs_args spec) [] else [])"

definition render_help :: "string \<Rightarrow> help_opts \<Rightarrow> cmd_spec \<Rightarrow> string" where
  "render_help dash opts spec =
     (if given (cs_description spec) then usage opts spec @ '' '' @ dash @ '' '' @ text_or (cs_description spec) []
      else usage opts spec)"

definition group_lines :: "string \<Rightarrow> help_opts \<Rightarrow> string \<times> cmd_spec list \<Rightarrow> string list" where
  "group_lines dash opts g =
     (if fst g \<noteq> [] then [fst g @ '':''] else []) @
     map (\<lambda>s. if fst g \<noteq> [] then ''  '' @ render_help dash opts s else render_help dash opts s) (snd g) @ [[]]"

definition buildHelpText :: "string \<Rightarrow> cmd_spec list \<Rightarrow> help_opts \<Rightarrow> string" where
  "buildHelpText dash specs opts =
     (let visible = filter (\<lambda>s. visibleForHelp s opts) specs;
          title = (if given (ho_title opts) then [text_or (ho_title opts) [], []] else [])
      in if visible = [] then text_or (ho_title opts) ''No commands available.''
         else if \<not> group_by opts visible then js_trim (js_join [CHR 10] (title @ map (render_help dash opts) visible))
         else js_trim (js_join [CHR 10] (title @ concat (map (group_lines dash opts) (help_groups visible)))))"

definition help_item :: "string \<Rightarrow> help_opts \<Rightarrow> cmd_spec \<Rightarrow> string" where
  "help_item dash opts spec =
     ''<li><code>'' @ escapeHtml (usage opts spec) @ ''</code>'' @
     (if given (cs_description spec) then '' '' @ dash @ '' '' @ escapeHtml (text_or (cs_description spec) []) else []) @
     ''</li>''"

definition help_list :: "string \<Rightarrow> help_opts \<Rightarrow> cmd_spec list \<Rightarrow> string" where
  "help_list dash opts specs = ''<ul>'' @ concat (map (help_item dash opts) specs) @ ''</ul>''"

definition buildHelpHtml :: "string \<Rightarrow> cmd_spec list \<Rightarrow> help_opts \<Rightarrow> string" where
  "buildHelpHtml dash specs opts =
     (let visible = filter (\<lambda>s. visibleForHelp s opts) specs;
          title = (if given (ho_title opts)
                   then ''<p><strong>'' @ escapeHtml (text_or (ho_title opts) []) @ ''</strong></p>'' else [])
      in if visible = [] then ''<p>'' @ escapeHtml (text_or (ho_title opts) ''No commands available.'') @ ''</p>''
         else if \<not> group_by opts visible then title @ help_list dash opts visible
         else title @ concat (map (\<lambda>(category, group).
                (if category \<noteq> [] then ''<p><em>'' @ escapeHtml category @ ''</em></p>'' else []) @
                help_list dash opts group) (help_groups visible)))"

section \<open>The registry\<close>

text \<open>\<open>Inl\<close> is the \<open>ConfigurationError\<close> of a specification without a usable name.\<close>

type_synonym registry = "(string, cmd_spec) jsmap"

definition reg_add :: "cmd_spec \<Rightarrow> registry \<Rightarrow> cmd_spec + registry" where
  "reg_add spec reg =
     (let name = normalizeCommandName (cs_name spec)
      in if name = [] then Inl spec else Inr (jm_set name spec reg))"

text \<open>\<open>addAll\<close> stops at the first error; what was added before it stays.\<close>

fun reg_addAll :: "cmd_spec list \<Rightarrow> registry \<Rightarrow> cmd_spec option \<times> registry" where
  "reg_addAll [] reg = (None, reg)"
| "reg_addAll (spec # specs) reg =
     (case reg_add spec reg of Inl e \<Rightarrow> (Some e, reg) | Inr reg1 \<Rightarrow> reg_addAll specs reg1)"

definition reg_remove :: "string \<Rightarrow> registry \<Rightarrow> bool \<times> registry" where
  "reg_remove name reg =
     (jm_has reg (normalizeCommandName name), jm_del (normalizeCommandName name) reg)"

definition reg_has :: "string \<Rightarrow> registry \<Rightarrow> bool" where
  "reg_has name reg = jm_has reg (normalizeCommandName name)"

definition reg_get :: "string \<Rightarrow> registry \<Rightarrow> cmd_spec option" where
  "reg_get name reg = jm_get reg (normalizeCommandName name)"

definition reg_list :: "registry \<Rightarrow> cmd_spec list" where
  "reg_list reg = map snd reg"

definition reg_size :: "registry \<Rightarrow> nat" where
  "reg_size reg = length reg"

definition reg_suggest :: "string \<Rightarrow> int \<Rightarrow> registry \<Rightarrow> cmd_spec list" where
  "reg_suggest input limit reg = suggestCommands input (reg_list reg) limit"

definition reg_match :: "string \<Rightarrow> parse_opts \<Rightarrow> registry \<Rightarrow> (cmd_spec \<times> string \<times> command_object) option" where
  "reg_match body opts reg = matchCommand body (reg_list reg) opts"

definition reg_helpText :: "string \<Rightarrow> help_opts \<Rightarrow> registry \<Rightarrow> string" where
  "reg_helpText dash opts reg = buildHelpText dash (reg_list reg) opts"

definition reg_helpHtml :: "string \<Rightarrow> help_opts \<Rightarrow> registry \<Rightarrow> string" where
  "reg_helpHtml dash opts reg = buildHelpHtml dash (reg_list reg) opts"

section \<open>The advertised state\<close>

definition COMMANDS_STATE_EVENT_TYPE :: string where
  "COMMANDS_STATE_EVENT_TYPE = ''dev.aiomatrix.commands''"

definition scope_name :: "scope \<Rightarrow> string" where
  "scope_name s = (case s of Scope_all \<Rightarrow> ''all'' | Scope_direct \<Rightarrow> ''direct'' | Scope_group \<Rightarrow> ''group'')"

definition given_field :: "string \<Rightarrow> string option \<Rightarrow> (string \<times> json) list" where
  "given_field k x = (if given x then [(k, JStr (text_or x []))] else [])"

definition command_entry :: "cmd_spec \<Rightarrow> json" where
  "command_entry spec =
     JObj ([(''name'', JStr (cs_name spec))] @
       (case cs_aliases spec of
          Some xs \<Rightarrow> if xs \<noteq> [] then [(''aliases'', JArr (map JStr xs))] else []
        | None \<Rightarrow> []) @
       given_field ''description'' (cs_description spec) @
       given_field ''args'' (cs_args spec) @
       given_field ''category'' (cs_category spec) @
       (case cs_scope spec of
          Some s \<Rightarrow> if s \<noteq> Scope_all then [(''scope'', JStr (scope_name s))] else []
        | None \<Rightarrow> []))"

definition buildCommandsStateContent :: "cmd_spec list \<Rightarrow> string list option \<Rightarrow> json" where
  "buildCommandsStateContent specs prefixes =
     JObj [(''version'', JNum (Fin 1)),
           (''prefixes'', JArr (map JStr (case prefixes of Some ps \<Rightarrow> ps | None \<Rightarrow> DEFAULT_COMMAND_PREFIXES))),
           (''commands'', JArr (map command_entry (filter (\<lambda>s. \<not> cs_hidden s) specs)))]"

section \<open>What parsing returns\<close>

text \<open>A text without white space at its ends splits into words.\<close>

lemma split_runs_words:
  "s \<noteq> [] \<Longrightarrow> \<not> p (hd s) \<Longrightarrow> \<not> p (last s) \<Longrightarrow>
     list_all (\<lambda>w. w \<noteq> [] \<and> list_all (\<lambda>c. \<not> p c) w) (js_split_runs p s)"
proof (induction p s rule: js_split_runs.induct)
  case (1 p s)
  show ?case
  proof (cases "dropWhile (\<lambda>c. \<not> p c) s")
    case Nil
    then have "js_split_runs p s = [s]" by (subst js_split_runs.simps) (simp only: list.case)
    moreover have "\<forall>c \<in> set s. \<not> p c" using Nil by (simp add: dropWhile_eq_Nil_conv)
    ultimately show ?thesis using "1.prems" by (simp add: list_all_iff)
  next
    case (Cons c r)
    have split: "s = takeWhile (\<lambda>c. \<not> p c) s @ c # r" using Cons by (metis takeWhile_dropWhile_id)
    have c: "p c" using hd_dropWhile [of "\<lambda>c. \<not> p c" s] Cons by simp
    have r: "r \<noteq> []" using "1.prems"(3) split c by (metis last_snoc)
    have last: "last r = last s" using r by (subst split) simp
    have "last r \<in> set r" using r by simp
    with last "1.prems"(3) have d: "dropWhile p r \<noteq> []" by (auto simp: dropWhile_eq_Nil_conv)
    have "last (dropWhile p r) = last r" using d by (metis last_appendR takeWhile_dropWhile_id)
    then have ih: "list_all (\<lambda>w. w \<noteq> [] \<and> list_all (\<lambda>c. \<not> p c) w) (js_split_runs p (dropWhile p r))"
      using "1.IH" [OF Cons d] hd_dropWhile [OF d] "1.prems"(3) last by simp
    have "takeWhile (\<lambda>c. \<not> p c) s \<noteq> []" using "1.prems"(1,2) by (cases s) auto
    moreover have "list_all (\<lambda>c. \<not> p c) (takeWhile (\<lambda>c. \<not> p c) s)" by (auto simp: list_all_iff dest: set_takeWhileD)
    ultimately show ?thesis using ih Cons by (simp add: js_split_runs.simps [of p s])
  qed
qed

lemma split_runs_ne: "js_split_runs p s \<noteq> []"
  by (subst js_split_runs.simps) (cases "dropWhile (\<lambda>c. \<not> p c) s"; simp only: list.case; simp)

lemma normalized_chars: "c \<in> set (normalizeCommandName s) \<Longrightarrow> c \<noteq> CHR '':'' \<and> c \<noteq> CHR ''@''"
  by (auto simp: normalizeCommandName_def dest: set_takeWhileD)

lemma strip_address_trimmed: "js_trim body = body \<Longrightarrow> js_trim (strip_address ns body) = strip_address ns body"
  by (induction ns) (auto split: option.split)

definition command_ok :: "command_object \<Rightarrow> bool" where
  "command_ok c \<longleftrightarrow>
     co_command c \<noteq> [] \<and> co_command c = normalizeCommandName (co_raw c) \<and>
     list_all (\<lambda>d. \<not> js_space d) (co_prefix c @ co_raw c) \<and>
     js_trim (co_args c) = co_args c \<and>
     list_all (\<lambda>w. w \<noteq> [] \<and> list_all (\<lambda>d. \<not> js_space d) w) (co_argsList c) \<and>
     (co_argsList c = [] \<longleftrightarrow> co_args c = [])"

lemma args_trimmed:
  assumes "js_trim t = t"
  shows "js_trim (js_trim_start (dropWhile (\<lambda>d. \<not> js_space d) t)) = js_trim_start (dropWhile (\<lambda>d. \<not> js_space d) t)"
proof -
  let ?a = "js_trim_start (dropWhile (\<lambda>d. \<not> js_space d) t)"
  show ?thesis
  proof (cases "?a = []")
    case False
    then have "dropWhile (\<lambda>d. \<not> js_space d) t \<noteq> []" unfolding js_trim_start_def by (metis dropWhile.simps(1))
    with False have "last ?a = last t" by (simp add: js_trim_start_def last_dropWhile)
    moreover have t: "t \<noteq> []" using False by (auto simp: js_trim_start_def)
    have "\<not> js_space (last t)" by (rule trim_ends(2) [OF assms t])
    moreover have "\<not> js_space (hd ?a)" using False by (simp add: js_trim_start_def hd_dropWhile)
    ultimately show ?thesis by (simp add: trimmed_iff)
  qed (simp add: js_trim_def)
qed

lemma build_ok:
  assumes "js_trim t = t" and "command \<noteq> []" and "command = normalizeCommandName raw"
    and "list_all (\<lambda>d. \<not> js_space d) (p @ raw)"
  shows "command_ok (buildCommandObject p raw command (dropWhile (\<lambda>d. \<not> js_space d) t))"
proof -
  let ?a = "js_trim_start (dropWhile (\<lambda>d. \<not> js_space d) t)"
  have a: "js_trim ?a = ?a" by (rule args_trimmed [OF assms(1)])
  have "list_all (\<lambda>w. w \<noteq> [] \<and> list_all (\<lambda>d. \<not> js_space d) w) (js_split_runs js_space ?a)" if "?a \<noteq> []"
    by (rule split_runs_words [OF that]) (rule trim_ends [OF a that])+
  moreover have "js_split_runs js_space ?a \<noteq> []" by (rule split_runs_ne)
  ultimately show ?thesis using assms a by (simp add: command_ok_def buildCommandObject_def Let_def)
qed

text \<open>
  A parsed command is well formed: its name is not empty and is the fold of the name as
  typed, which has no white space; the arguments are trimmed, and the list of them
  has no empty entry and is empty exactly when there are no arguments.
\<close>

theorem parsed_command_ok:
  assumes "parseCommand body opts = Some c"
  shows "command_ok c"
proof -
  define t where "t = strip_address (case po_botNames opts of Some ns \<Rightarrow> ns | None \<Rightarrow> []) (js_trim body)"
  have t: "js_trim t = t" unfolding t_def by (rule strip_address_trimmed) simp
  have ne: "t \<noteq> []" using assms by (auto simp: parseCommand_def t_def Let_def split: if_splits)
  let ?first = "takeWhile (\<lambda>d. \<not> js_space d) t"
  have split: "splitFirstToken t = (?first, dropWhile (\<lambda>d. \<not> js_space d) t)"
    using t ne by (cases t) (auto simp: splitFirstToken_def trimmed_iff)
  have first: "list_all (\<lambda>d. \<not> js_space d) ?first" by (auto simp: list_all_iff dest: set_takeWhileD)
  let ?ps = "case po_prefixes opts of Some ps \<Rightarrow> ps | None \<Rightarrow> DEFAULT_COMMAND_PREFIXES"
  show ?thesis
  proof (cases "find (\<lambda>p. 0 < length p \<and> js_starts_with ?first p) ?ps")
    case None
    with assms split have "normalizeCommandName ?first \<noteq> []"
      and c: "c = buildCommandObject [] ?first (normalizeCommandName ?first) (dropWhile (\<lambda>d. \<not> js_space d) t)"
      by (auto simp: parseCommand_def t_def [symmetric] Let_def split: if_splits)
    with first show ?thesis unfolding c by (intro build_ok [OF t]) simp_all
  next
    case (Some p)
    then have "js_starts_with ?first p" by (auto simp: find_Some_iff)
    then obtain raw where raw: "?first = p @ raw" by (auto simp: js_starts_with_iff)
    with assms split Some have "normalizeCommandName raw \<noteq> []"
      and c: "c = buildCommandObject p raw (normalizeCommandName raw) (dropWhile (\<lambda>d. \<not> js_space d) t)"
      by (auto simp: parseCommand_def t_def [symmetric] Let_def split: if_splits)
    with first raw show ?thesis unfolding c by (intro build_ok [OF t]) simp_all
  qed
qed

lemma parsed_command_ok_witness:
  "command_ok \<lparr>co_prefix = ''/'', co_command = ''kick'', co_raw = ''Kick@bot'', co_args = ''eve  now'',
     co_argsList = [''eve'', ''now''], co_mention = Some ''bot''\<rparr>"
proof (rule parsed_command_ok)
  show "parseCommand '' bot: /Kick@bot  eve  now '' \<lparr>po_prefixes = None, po_allowBare = None, po_botNames = Some [''bot'']\<rparr> =
      Some \<lparr>co_prefix = ''/'', co_command = ''kick'', co_raw = ''Kick@bot'', co_args = ''eve  now'',
        co_argsList = [''eve'', ''now''], co_mention = Some ''bot''\<rparr>"
    by code_simp
qed

section \<open>Writing a command and reading it\<close>

lemma split_first:
  "w \<noteq> [] \<Longrightarrow> list_all (\<lambda>d. \<not> js_space d) w \<Longrightarrow> args = [] \<or> js_space (hd args) \<Longrightarrow>
     splitFirstToken (w @ args) = (w, args)"
  by (cases w; cases args)
    (auto simp: splitFirstToken_def takeWhile_append2 dropWhile_append2 list_all_iff)

lemma parse_prefixed:
  assumes "po_botNames opts = None" and "js_trim (p @ name @ args) = p @ name @ args"
    and "find (\<lambda>q. 0 < length q \<and> js_starts_with (p @ name) q)
      (case po_prefixes opts of Some ps \<Rightarrow> ps | None \<Rightarrow> DEFAULT_COMMAND_PREFIXES) = Some p"
    and "list_all (\<lambda>d. \<not> js_space d) (p @ name)" and "args = [] \<or> js_space (hd args)"
    and "normalizeCommandName name \<noteq> []"
  shows "parseCommand (p @ name @ args) opts = Some (buildCommandObject p name (normalizeCommandName name) args)"
proof -
  have "name \<noteq> []" using assms(6) by (auto simp: normalizeCommandName_def strip_prefix_char_def js_lower_def)
  with split_first [of "p @ name" args] assms(4,5)
  have "splitFirstToken (p @ name @ args) = (p @ name, args)" by simp
  with assms \<open>name \<noteq> []\<close> show ?thesis by (simp add: parseCommand_def)
qed

lemma mention_none: "CHR ''@'' \<notin> set s \<Longrightarrow> mention_of s = None"
  by (induction s) auto

lemma normalized_no_at: "normalizeCommandName name = name \<Longrightarrow> CHR ''@'' \<notin> set name"
  using normalized_chars by metis

lemma last_args:
  assumes "js_trim args = args" and "args \<noteq> []" and "w \<noteq> []" and "\<not> js_space (hd w)"
  shows "js_trim (w @ args) = w @ args"
  using trim_ends [OF assms(1,2)] assms(2,3,4) by (simp add: trimmed_iff)

text \<open>
  A command written as the prefix, the name and the arguments is read back, whenever the
  name is one that folding leaves alone and the arguments are trimmed.
\<close>

theorem command_roundtrip:
  assumes "name \<noteq> []" and "normalizeCommandName name = name" and "list_all (\<lambda>d. \<not> js_space d) name"
    and "args \<noteq> []" and "js_trim args = args"
  shows "parseCommand (''/'' @ name @ '' '' @ args) \<lparr>po_prefixes = None, po_allowBare = None, po_botNames = None\<rparr> =
    Some \<lparr>co_prefix = ''/'', co_command = name, co_raw = name, co_args = args,
          co_argsList = js_split_runs js_space args, co_mention = None\<rparr>"
proof -
  have sp: "js_space (CHR '' '')" "\<not> js_space (CHR ''/'')" by (simp_all add: js_space_def)
  have "\<not> js_space (hd args)" by (rule trim_ends(1) [OF assms(5,4)])
  then have d: "dropWhile js_space args = args" by (cases args) auto
  have trim: "js_trim (''/'' @ name @ '' '' @ args) = ''/'' @ name @ '' '' @ args"
    using last_args [OF assms(5,4), of "''/'' @ name @ '' ''"] sp by simp
  have "parseCommand (''/'' @ name @ '' '' @ args) \<lparr>po_prefixes = None, po_allowBare = None, po_botNames = None\<rparr> =
      Some (buildCommandObject ''/'' name (normalizeCommandName name) ('' '' @ args))"
    by (rule parse_prefixed) (use assms trim sp in \<open>simp_all add: DEFAULT_COMMAND_PREFIXES_def js_starts_with_def\<close>)
  then show ?thesis
    by (simp add: buildCommandObject_def js_trim_start_def sp d assms mention_none normalized_no_at Let_def)
qed

lemma command_roundtrip_witness:
  "parseCommand (''/'' @ ''kick'' @ '' '' @ ''eve  now'') \<lparr>po_prefixes = None, po_allowBare = None, po_botNames = None\<rparr> =
     Some \<lparr>co_prefix = ''/'', co_command = ''kick'', co_raw = ''kick'', co_args = ''eve  now'',
       co_argsList = [''eve'', ''now''], co_mention = None\<rparr>"
proof -
  have w: "js_split_runs js_space ''eve  now'' = [''eve'', ''now'']" by code_simp
  have "normalizeCommandName ''kick'' = ''kick''" "list_all (\<lambda>d. \<not> js_space d) ''kick''" "js_trim ''eve  now'' = ''eve  now''"
    by code_simp+
  from command_roundtrip [OF _ this(1,2) _ this(3)] show ?thesis by (simp add: w)
qed

section \<open>Addressing the bot\<close>

lemma strip_localpart:
  assumes "hs \<noteq> []" and "list_all (\<lambda>d. \<not> js_space d) hs"
  shows "stripAddressPrefix (''@bot:'' @ hs @ rest) ''bot'' = Some (hs @ rest)"
proof -
  have n: "address_names ''bot'' = [''bot'', ''@bot'']" "js_trim ''bot'' = ''bot''" by code_simp+
  obtain c t where hs: "hs = c # t" "\<not> js_space c" using assms by (cases hs) auto
  have colon: "\<not> js_space (CHR '':'')" by (simp add: js_space_def)
  have "after_separator ('':'' @ hs @ rest) = Some (hs @ rest)"
    using colon by (simp add: after_separator_def hs)
  then show ?thesis by (simp add: stripAddressPrefix_def n Let_def js_lower_def js_lower_char_def js_starts_with_def)
qed

text \<open>
  Given the bot's localpart as the name to strip, a body that starts with its full user
  id loses the localpart and the colon only: the server name is left as the first word,
  and with bare commands it is taken for the command.
\<close>

theorem localpart_leaves_server:
  assumes "hs \<noteq> []" and "list_all (\<lambda>d. \<not> js_space d) hs" and "normalizeCommandName hs = hs"
    and "find (\<lambda>p. 0 < length p \<and> js_starts_with hs p) DEFAULT_COMMAND_PREFIXES = None"
  shows "map_option co_command (parseCommand (''@bot:'' @ hs @ '' help'')
    \<lparr>po_prefixes = None, po_allowBare = Some True, po_botNames = Some [''bot'']\<rparr>) = Some hs"
proof -
  have sp: "\<not> js_space (CHR ''@'')" "\<not> js_space (CHR ''p'')" "js_space (CHR '' '')" by (simp_all add: js_space_def)
  have t1: "js_trim (''@bot:'' @ hs @ '' help'') = ''@bot:'' @ hs @ '' help''"
    and t2: "js_trim (hs @ '' help'') = hs @ '' help''"
    using sp assms(1,2) by (simp_all add: trimmed_iff) (cases hs; simp)
  have "splitFirstToken (hs @ '' help'') = (hs, '' help'')"
    by (rule split_first) (use assms sp in simp_all)
  with assms t1 t2 strip_localpart [OF assms(1,2), of "'' help''"] show ?thesis
    by (simp add: parseCommand_def buildCommandObject_def Let_def)
qed

lemma localpart_leaves_server_witness:
  "map_option co_command (parseCommand (''@bot:'' @ ''example.org'' @ '' help'')
    \<lparr>po_prefixes = None, po_allowBare = Some True, po_botNames = Some [''bot'']\<rparr>) = Some ''example.org''"
  by (rule localpart_leaves_server) code_simp+

section \<open>Suggestions\<close>

text \<open>The loop with its early exit returns the first matches, as many as asked for.\<close>

lemma suggest_loop_take:
  "int (length result) < capped \<Longrightarrow>
     suggest_loop token capped specs result =
       take (nat capped) (result @ filter (\<lambda>s. list_ex (\<lambda>n. js_starts_with n token) (spec_names s)) specs)"
proof (induction token capped specs result rule: suggest_loop.induct)
  case (2 token capped spec specs result)
  show ?case
  proof (cases "list_ex (\<lambda>n. js_starts_with n token) (spec_names spec)")
    case True
    show ?thesis
    proof (cases "capped \<le> int (length (result @ [spec]))")
      case full: True
      then have "nat capped = Suc (length result)" using "2.prems" by simp
      with True full show ?thesis by simp
    next
      case False
      with True 2 show ?thesis by simp
    qed
  qed (use 2 in simp)
qed simp

text \<open>
  Suggestions are the visible specifications, in order, one of whose names starts with the
  folded first word (all of them when there is none), cut at the limit.
\<close>

theorem suggestions_exact:
  "suggestCommands input specs limit =
     (let token = normalizeCommandName (takeWhile (\<lambda>c. \<not> js_space c) (js_trim input))
      in take (nat limit) (filter (\<lambda>s. \<not> cs_hidden s \<and> list_ex (\<lambda>n. js_starts_with n token) (spec_names s)) specs))"
proof -
  let ?token = "normalizeCommandName (takeWhile (\<lambda>c. \<not> js_space c) (js_trim input))"
  have all: "list_ex (\<lambda>n. js_starts_with n []) (spec_names s)" for s
    by (simp add: spec_names_def js_starts_with_def)
  have "js_trim input = [] \<Longrightarrow> ?token = []"
    by (simp add: normalizeCommandName_def strip_prefix_char_def js_lower_def)
  then show ?thesis
    using suggest_loop_take [of "[]" limit ?token "filter (\<lambda>s. \<not> cs_hidden s) specs"]
    by (cases "?token = []") (auto simp: suggestCommands_def Let_def max_def all conj_commute)
qed

section \<open>Help groups\<close>

abbreviation category_of :: "cmd_spec \<Rightarrow> string" where
  "category_of s \<equiv> text_or (cs_category s) []"

lemma add_to_group_get:
  "jm_get (add_to_group s groups) k =
     (if k = category_of s then Some ((case jm_get groups k of Some b \<Rightarrow> b | None \<Rightarrow> []) @ [s]) else jm_get groups k)"
  by (auto simp: add_to_group_def Let_def jsmap_simps split: option.split)

lemma groups_get:
  "jm_get (fold add_to_group specs groups) k =
     (let g = (case jm_get groups k of Some b \<Rightarrow> b | None \<Rightarrow> []) @ filter (\<lambda>s. category_of s = k) specs
      in if jm_get groups k = None \<and> filter (\<lambda>s. category_of s = k) specs = [] then None else Some g)"
  by (induction specs arbitrary: groups) (auto simp: add_to_group_get Let_def split: option.split)

lemma groups_wf: "jm_wf groups \<Longrightarrow> jm_wf (fold add_to_group specs groups)"
  by (induction specs arbitrary: groups) (auto simp: add_to_group_def Let_def split: option.split)

text \<open>
  The groups of a help listing are the categories, each once, with the visible
  specifications of that category in their order: no command is lost or listed twice.
\<close>

theorem help_groups_exact:
  "distinct (map fst (help_groups visible)) \<and>
   jm_get (help_groups visible) category =
     (let group = filter (\<lambda>s. category_of s = category) visible in if group = [] then None else Some group)"
  using groups_wf [of "[]" visible] groups_get [of visible "[]" category]
  by (simp add: help_groups_def Let_def)

section \<open>Help as HTML\<close>

text \<open>
  The listing as pieces of \<open>Html_Sanitize\<close>: only tags without attributes, and every text of a
  specification escaped.
\<close>

abbreviation plain_opts :: sanitize_opts where
  "plain_opts \<equiv> \<lparr>so_extraTags = None, so_allowImages = None, so_maxDepth = None, so_maxLength = None\<rparr>"

definition item_pieces :: "string \<Rightarrow> help_opts \<Rightarrow> cmd_spec \<Rightarrow> piece list" where
  "item_pieces dash opts spec =
     [P_open ''li'' [], P_open ''code'' [], P_text (escapeHtml (usage opts spec)), P_close ''code''] @
     (if given (cs_description spec)
      then [P_text ('' '' @ dash @ '' '' @ escapeHtml (text_or (cs_description spec) []))] else []) @
     [P_close ''li'']"

definition list_pieces :: "string \<Rightarrow> help_opts \<Rightarrow> cmd_spec list \<Rightarrow> piece list" where
  "list_pieces dash opts specs = P_open ''ul'' [] # concat (map (item_pieces dash opts) specs) @ [P_close ''ul'']"

definition para_pieces :: "string \<Rightarrow> string \<Rightarrow> piece list" where
  "para_pieces tag text = [P_open ''p'' [], P_open tag [], P_text (escapeHtml text), P_close tag, P_close ''p'']"

definition pieces_fit :: "piece list \<Rightarrow> bool" where
  "pieces_fit ps \<longleftrightarrow> list_all (piece_ok (\<lambda>_. True) plain_opts) ps \<and>
     (\<forall>st. length st < 90 \<longrightarrow> nest 100 st ps = Some st)"

lemma pieces_fit_append: "pieces_fit ps \<Longrightarrow> pieces_fit qs \<Longrightarrow> pieces_fit (ps @ qs)"
  by (simp add: pieces_fit_def nest_append)

lemma pieces_fit_concat: "(\<And>ps. ps \<in> set pss \<Longrightarrow> pieces_fit ps) \<Longrightarrow> pieces_fit (concat pss)"
proof (induction pss)
  case Nil
  then show ?case by (simp add: pieces_fit_def)
next
  case (Cons ps pss)
  then show ?case by (simp add: pieces_fit_append)
qed

lemma help_tags:
  "list_all (\<lambda>t. tag_name t \<and> t \<in> allowed_tags plain_opts \<and> t \<notin> DANGEROUS \<and> t \<notin> set VOID_TAGS)
     [''li'', ''code'', ''ul'', ''p'', ''strong'', ''em'']"
  by code_simp

lemma clean_plain: "list_all (\<lambda>c. c \<notin> {CHR ''&'', lt, gt}) s \<Longrightarrow> clean_text s"
  by (induction s) (auto simp: clean_text_def)

lemma item_pieces_ok:
  assumes "clean_text dash"
  shows "list_all (piece_ok (\<lambda>_. True) plain_opts) (item_pieces dash opts spec)"
    and "length st < 95 \<Longrightarrow> nest 100 st (item_pieces dash opts spec) = Some st"
proof -
  have "clean_text '' ''" by (rule clean_plain) simp
  with assms have "clean_text ('' '' @ dash @ '' '' @ escapeHtml s)" for s
    by (intro clean_text_append escapeHtml_clean)
  then show "list_all (piece_ok (\<lambda>_. True) plain_opts) (item_pieces dash opts spec)"
    using help_tags by (simp add: item_pieces_def escapeHtml_clean)
  show "length st < 95 \<Longrightarrow> nest 100 st (item_pieces dash opts spec) = Some st"
    using help_tags by (simp add: item_pieces_def)
qed

lemma list_fit: "clean_text dash \<Longrightarrow> pieces_fit (list_pieces dash opts specs)"
proof -
  assume dash: "clean_text dash"
  have "list_all (piece_ok (\<lambda>_. True) plain_opts) (concat (map (item_pieces dash opts) specs))"
    by (induction specs) (simp_all add: item_pieces_ok [OF dash])
  moreover have "length st < 95 \<Longrightarrow> nest 100 st (concat (map (item_pieces dash opts) specs)) = Some st" for st
    by (induction specs) (simp_all add: item_pieces_ok [OF dash] nest_append)
  ultimately show ?thesis
    using help_tags by (simp add: pieces_fit_def list_pieces_def nest_append)
qed

lemma para_fit: "tag \<in> {''strong'', ''em''} \<Longrightarrow> pieces_fit (para_pieces tag text)"
  using help_tags by (auto simp: pieces_fit_def para_pieces_def escapeHtml_clean)

lemma render_item: "concat (map render (item_pieces dash opts spec)) = help_item dash opts spec"
  by (simp add: item_pieces_def help_item_def open_tag_def close_tag_def)

lemma render_list: "concat (map render (list_pieces dash opts specs)) = help_list dash opts specs"
proof -
  have "concat (map render (concat (map (item_pieces dash opts) specs))) = concat (map (help_item dash opts) specs)"
    by (induction specs) (simp_all add: render_item)
  then show ?thesis by (simp add: list_pieces_def help_list_def open_tag_def close_tag_def)
qed

definition group_pieces :: "string \<Rightarrow> help_opts \<Rightarrow> string \<times> cmd_spec list \<Rightarrow> piece list" where
  "group_pieces dash opts g = (if fst g \<noteq> [] then para_pieces ''em'' (fst g) else []) @ list_pieces dash opts (snd g)"

lemma render_group:
  "concat (map render (group_pieces dash opts (category, members))) =
     (if category \<noteq> [] then ''<p><em>'' @ escapeHtml category @ ''</em></p>'' else []) @ help_list dash opts members"
  by (simp add: group_pieces_def para_pieces_def render_list open_tag_def close_tag_def)

lemma render_groups:
  "concat (map render (concat (map (group_pieces dash opts) gs))) =
     concat (map (\<lambda>(category, members).
       (if category \<noteq> [] then ''<p><em>'' @ escapeHtml category @ ''</em></p>'' else []) @ help_list dash opts members) gs)"
proof (induction gs)
  case (Cons g gs)
  obtain category members where "g = (category, members)" by fastforce
  with Cons render_group [of dash opts category members] show ?case by simp
qed simp

lemma group_fit: "clean_text dash \<Longrightarrow> pieces_fit (group_pieces dash opts g)"
  by (simp add: group_pieces_def pieces_fit_append list_fit para_fit)

lemma help_html_pieces:
  assumes "clean_text dash"
  shows "\<exists>ps. buildHelpHtml dash specs opts = concat (map render ps) \<and> pieces_fit ps"
proof -
  let ?visible = "filter (\<lambda>s. visibleForHelp s opts) specs"
  let ?title = "if given (ho_title opts) then para_pieces ''strong'' (text_or (ho_title opts) []) else []"
  have t: "pieces_fit ?title" by (simp add: para_fit) (simp add: pieces_fit_def)
  consider "?visible = []" | "?visible \<noteq> []" "\<not> group_by opts ?visible" | "?visible \<noteq> []" "group_by opts ?visible" by blast
  then show ?thesis
  proof cases
    case 1
    let ?ps = "[P_open ''p'' [], P_text (escapeHtml (text_or (ho_title opts) ''No commands available.'')), P_close ''p'']"
    have "pieces_fit ?ps" using help_tags by (simp add: pieces_fit_def escapeHtml_clean)
    moreover have "buildHelpHtml dash specs opts = concat (map render ?ps)"
      using 1 by (simp add: buildHelpHtml_def open_tag_def close_tag_def)
    ultimately show ?thesis by blast
  next
    case 2
    have "buildHelpHtml dash specs opts = concat (map render (?title @ list_pieces dash opts ?visible))"
      using 2 by (simp add: buildHelpHtml_def render_list para_pieces_def open_tag_def close_tag_def)
    with pieces_fit_append [OF t list_fit [OF assms]] show ?thesis by blast
  next
    case 3
    let ?gs = "concat (map (group_pieces dash opts) (help_groups ?visible))"
    have "pieces_fit ?gs" by (rule pieces_fit_concat) (auto simp: group_fit [OF assms])
    moreover have "buildHelpHtml dash specs opts = concat (map render (?title @ ?gs))"
      using 3 unfolding map_append concat_append render_groups
      by (simp add: buildHelpHtml_def para_pieces_def open_tag_def close_tag_def)
    ultimately show ?thesis using pieces_fit_append [OF t] by blast
  qed
qed

text \<open>
  The help listing passes the sanitizer unchanged: no name, usage, description, category or
  title of a specification can add a tag or an attribute to it.
\<close>

theorem help_html_safe:
  assumes "clean_text dash"
  shows "sanitizeMatrixHtml wide (\<lambda>_. True) (buildHelpHtml dash specs opts) plain_opts = buildHelpHtml dash specs opts"
proof -
  obtain ps where ps: "buildHelpHtml dash specs opts = concat (map render ps)" "pieces_fit ps"
    using help_html_pieces [OF assms] by blast
  then have "list_all (piece_ok (\<lambda>_. True) plain_opts) ps" "nest (maxDepth_of plain_opts) [] ps = Some []"
    by (simp_all add: pieces_fit_def maxDepth_of_def)
  from sanitize_of_pieces [OF this, of wide] ps(1) show ?thesis by simp
qed

definition demo_spec :: cmd_spec where
  "demo_spec = \<lparr>cs_name = ''say'', cs_aliases = None, cs_description = Some ''<img src=x>'', cs_args = Some ''<text>'',
     cs_hidden = False, cs_minPowerLevel = None, cs_scope = None, cs_category = Some ''A&B''\<rparr>"

lemma help_html_safe_witness:
  "sanitizeMatrixHtml (\<lambda>_. []) (\<lambda>_. True)
     (buildHelpHtml ''-'' [demo_spec] \<lparr>ho_prefix = None, ho_title = None, ho_scope = None, ho_powerLevel = None, ho_groupByCategory = None\<rparr>)
     plain_opts =
   ''<p><em>A&amp;B</em></p><ul><li><code>/say &lt;text&gt;</code> - &lt;img src=x&gt;</li></ul>''"
proof -
  have c: "clean_text ''-''" by (rule clean_plain) simp
  have "buildHelpHtml ''-'' [demo_spec] \<lparr>ho_prefix = None, ho_title = None, ho_scope = None, ho_powerLevel = None, ho_groupByCategory = None\<rparr>
     = ''<p><em>A&amp;B</em></p><ul><li><code>/say &lt;text&gt;</code> - &lt;img src=x&gt;</li></ul>''" by code_simp
  with help_html_safe [OF c, of "\<lambda>_. []" "[demo_spec]"
    "\<lparr>ho_prefix = None, ho_title = None, ho_scope = None, ho_powerLevel = None, ho_groupByCategory = None\<rparr>"] show ?thesis by simp
qed

section \<open>Registry laws\<close>

lemma reg_get_add:
  "reg_add spec reg = Inr reg1 \<Longrightarrow>
     reg_get n reg1 = (if normalizeCommandName n = normalizeCommandName (cs_name spec) then Some spec else reg_get n reg)"
  by (auto simp: reg_add_def reg_get_def Let_def jsmap_simps split: if_splits)

lemma reg_get_remove:
  "snd (reg_remove n reg) = reg1 \<Longrightarrow>
     reg_get m reg1 = (if normalizeCommandName m = normalizeCommandName n then None else reg_get m reg)"
  by (auto simp: reg_remove_def reg_get_def jsmap_simps)

lemma reg_wf_add: "jm_wf reg \<Longrightarrow> reg_add spec reg = Inr reg1 \<Longrightarrow> jm_wf reg1"
  by (auto simp: reg_add_def Let_def split: if_splits)

lemma reg_wf_remove: "jm_wf reg \<Longrightarrow> jm_wf (snd (reg_remove n reg))"
  by (simp add: reg_remove_def)

lemma reg_has_get: "reg_has n reg \<longleftrightarrow> reg_get n reg \<noteq> None"
  by (simp add: reg_has_def reg_get_def jm_has_def)

text \<open>What a registry holds answers to the name it is held under.\<close>

lemma reg_names:
  "reg_addAll specs reg = (e, reg1) \<Longrightarrow> (\<forall>(k, s) \<in> set reg. normalizeCommandName (cs_name s) = k) \<Longrightarrow>
     (\<forall>(k, s) \<in> set reg1. normalizeCommandName (cs_name s) = k)"
proof (induction specs arbitrary: reg)
  case (Cons s specs)
  then show ?case
    by (cases "reg_add s reg") (fastforce simp: reg_add_def Let_def split: if_splits dest: in_set_update)+
qed simp

end
