(* ===== verification/Command_Args.thy ===== *)
theory Command_Args
  imports Js_Prelude Complex_Main "HOL-Library.Log_Nat"
begin

text \<open>
  Typed command arguments (\<^verbatim>\<open>src/command-args.ts\<close>): the quoting tokenizer and the parser of
  an argument string against a schema.

  A JavaScript number is a rational, an infinity or not a number; \<open>dbl\<close> rounds a
  rational to the nearest double, ties to even. Zero stands for both zeros. A schema lists
  its entries in the order of \<open>Object.keys\<close>.
\<close>

section \<open>Numbers\<close>

datatype dnum = Num rat | DInf bool | NaN

text \<open>\<open>DInf True\<close> is minus infinity. The comparison \<open><\<close>; with \<open>NaN\<close> it is false.\<close>

fun dnum_less :: "dnum \<Rightarrow> dnum \<Rightarrow> bool" where
  "dnum_less (Num a) (Num b) = (a < b)"
| "dnum_less (Num a) (DInf neg) = (\<not> neg)"
| "dnum_less (DInf neg) (Num b) = neg"
| "dnum_less (DInf n) (DInf m) = (n \<and> \<not> m)"
| "dnum_less NaN y = False"
| "dnum_less x NaN = False"

definition pow2 :: "int \<Rightarrow> rat" where
  "pow2 e = (if 0 \<le> e then 2 ^ nat e else 1 / 2 ^ nat (- e))"

text \<open>The binary logarithm of a positive rational, rounded down.\<close>

definition log2_floor :: "rat \<Rightarrow> int" where
  "log2_floor r =
     (case quotient_of r of (p, q) \<Rightarrow>
        let k = bitlen p - bitlen q in if pow2 k \<le> r then k else k - 1)"

definition round_even :: "rat \<Rightarrow> int" where
  "round_even q =
     (let f = \<lfloor>q\<rfloor>; d = q - of_int f
      in if d < 1 / 2 then f else if 1 / 2 < d then f + 1 else if even f then f else f + 1)"

definition dbl_pos :: "rat \<Rightarrow> dnum" where
  "dbl_pos r =
     (let e = max (log2_floor r - 52) (- 1074);
          v = of_int (round_even (r / pow2 e)) * pow2 e
      in if pow2 1024 \<le> v then DInf False else Num v)"

fun dnum_neg :: "dnum \<Rightarrow> dnum" where
  "dnum_neg (Num r) = Num (- r)"
| "dnum_neg (DInf n) = DInf (\<not> n)"
| "dnum_neg NaN = NaN"

definition dbl :: "rat \<Rightarrow> dnum" where
  "dbl r = (if r = 0 then Num 0 else if r < 0 then dnum_neg (dbl_pos (- r)) else dbl_pos r)"

text \<open>The digits of a base, and the number that a list of them denotes.\<close>

definition digit_value :: "char \<Rightarrow> nat option" where
  "digit_value c =
     (let n = (of_char c :: nat)
      in if 48 \<le> n \<and> n \<le> 57 then Some (n - 48)
         else if 97 \<le> n \<and> n \<le> 102 then Some (n - 87)
         else if 65 \<le> n \<and> n \<le> 70 then Some (n - 55) else None)"

definition is_digit :: "nat \<Rightarrow> char \<Rightarrow> bool" where
  "is_digit b c = (case digit_value c of None \<Rightarrow> False | Some d \<Rightarrow> d < b)"

definition base_value :: "nat \<Rightarrow> string \<Rightarrow> nat" where
  "base_value b ds = foldl (\<lambda>a c. b * a + (case digit_value c of Some d \<Rightarrow> d | None \<Rightarrow> 0)) 0 ds"

text \<open>An exponent, with its sign; no exponent counts as zero.\<close>

definition exponent :: "string \<Rightarrow> int option" where
  "exponent s =
     (case s of
        [] \<Rightarrow> Some 0
      | c # t \<Rightarrow>
          if c \<in> {CHR ''e'', CHR ''E''} then
            (let neg = js_starts_with t ''-'';
                 ds = (if js_starts_with t ''-'' \<or> js_starts_with t ''+'' then drop 1 t else t)
             in if ds = [] \<or> \<not> list_all ascii_digit ds then None
                else Some ((if neg then - 1 else 1) * int (dec_value ds)))
          else None)"

definition pow10 :: "int \<Rightarrow> rat" where
  "pow10 e = (if 0 \<le> e then 10 ^ nat e else 1 / 10 ^ nat (- e))"

text \<open>A decimal literal without its sign: digits, a point, digits and an exponent.\<close>

definition decimal :: "string \<Rightarrow> dnum" where
  "decimal s =
     (let ip = takeWhile ascii_digit s;
          r = dropWhile ascii_digit s;
          fp = (if js_starts_with r ''.'' then takeWhile ascii_digit (drop 1 r) else []);
          r2 = (if js_starts_with r ''.'' then dropWhile ascii_digit (drop 1 r) else r)
      in if s = ''Infinity'' then DInf False
         else if ip = [] \<and> fp = [] then NaN
         else (case exponent r2 of
                 None \<Rightarrow> NaN
               | Some e \<Rightarrow> dbl (of_nat (dec_value (ip @ fp)) * pow10 (e - int (length fp)))))"

definition prefixed :: "nat \<Rightarrow> string \<Rightarrow> dnum" where
  "prefixed b ds = (if ds = [] \<or> \<not> list_all (is_digit b) ds then NaN else dbl (of_nat (base_value b ds)))"

text \<open>\<open>Number(token)\<close>.\<close>

definition js_Number :: "string \<Rightarrow> dnum" where
  "js_Number token =
     (let s = js_trim token; p = js_lower (take 2 s)
      in if s = [] then Num 0
         else if p = ''0x'' then prefixed 16 (drop 2 s)
         else if p = ''0o'' then prefixed 8 (drop 2 s)
         else if p = ''0b'' then prefixed 2 (drop 2 s)
         else if js_starts_with s ''-'' then dnum_neg (decimal (drop 1 s))
         else if js_starts_with s ''+'' then decimal (drop 1 s)
         else decimal s)"

section \<open>The tokenizer\<close>

abbreviation (input) dquo :: char where "dquo \<equiv> CHR 34"
abbreviation (input) squo :: char where "squo \<equiv> CHR 39"
abbreviation (input) bslash :: char where "bslash \<equiv> CHR 92"

text \<open>What a dot in a regular expression does not match.\<close>

definition line_end :: "char \<Rightarrow> bool" where
  "line_end c = (c = CHR 10 \<or> c = CHR 13)"

text \<open>\<open>([^"\\]|\\.)*"\<close> after the opening quote: the text up to the closing one, and the rest.\<close>

fun scan_quoted :: "char \<Rightarrow> string \<Rightarrow> (string \<times> string) option" where
  "scan_quoted q [] = None"
| "scan_quoted q [c] = (if c = q then Some ([], []) else None)"
| "scan_quoted q (c # d # s) =
     (if c = q then Some ([], d # s)
      else if c = bslash then
        (if line_end d then None else map_option (\<lambda>(b, r). (c # d # b, r)) (scan_quoted q s))
      else map_option (\<lambda>(b, r). (c # b, r)) (scan_quoted q (d # s)))"

text \<open>The token at a position: a quoted text with its quotes, or a run without white space.\<close>

definition match_arg :: "string \<Rightarrow> (string \<times> string) option" where
  "match_arg s =
     (case s of
        [] \<Rightarrow> None
      | c # t \<Rightarrow>
          (case (if c = dquo \<or> c = squo then scan_quoted c t else None) of
             Some (b, r) \<Rightarrow> Some (c # b @ [c], r)
           | None \<Rightarrow>
               if js_space c then None
               else Some (takeWhile (\<lambda>d. \<not> js_space d) s, dropWhile (\<lambda>d. \<not> js_space d) s)))"

text \<open>\<open>replace(/\\(["'\\])/g, "$1")\<close>.\<close>

fun unescape :: "string \<Rightarrow> string" where
  "unescape [] = []"
| "unescape [c] = [c]"
| "unescape (c # d # s) =
     (if c = bslash \<and> d \<in> {dquo, squo, bslash} then d # unescape s else c # unescape (d # s))"

definition token_value :: "string \<Rightarrow> string" where
  "token_value token =
     (if (js_starts_with token [dquo] \<and> js_ends_with token [dquo]) \<or> (js_starts_with token [squo] \<and> js_ends_with token [squo])
      then unescape (butlast (drop 1 token)) else token)"

lemma scan_quoted_length: "scan_quoted q s = Some (b, r) \<Longrightarrow> length r < length s"
  by (induction q s arbitrary: b r rule: scan_quoted.induct) (fastforce split: if_splits)+

lemma match_arg_length: "match_arg s = Some (t, r) \<Longrightarrow> length r < length s"
proof (cases s)
  case (Cons c u)
  assume m: "match_arg s = Some (t, r)"
  show ?thesis
  proof (cases "if c = dquo \<or> c = squo then scan_quoted c u else None")
    case None
    with m Cons have "\<not> js_space c" "r = dropWhile (\<lambda>d. \<not> js_space d) u"
      by (auto simp: match_arg_def split: if_splits)
    with Cons length_dropWhile_le [of "\<lambda>d. \<not> js_space d" u] show ?thesis by simp
  next
    case (Some br)
    then obtain b where "scan_quoted c u = Some (b, r)"
      using m Cons by (auto simp: match_arg_def split: if_splits prod.splits)
    from scan_quoted_length [OF this] Cons show ?thesis by simp
  qed
qed (simp add: match_arg_def)

function tokenizeArgs :: "string \<Rightarrow> string list" where
  "tokenizeArgs [] = []"
| "tokenizeArgs (c # s) =
     (case match_arg (c # s) of
        None \<Rightarrow> tokenizeArgs s
      | Some (t, r) \<Rightarrow> token_value t # tokenizeArgs r)"
  by pat_completeness auto
termination
  by (relation "measure length") (auto dest: match_arg_length)

declare tokenizeArgs.simps(2) [simp del]

section \<open>Schemas\<close>

datatype arg_kind = K_string | K_int | K_float | K_userId | K_roomId | K_bool | K_rest

record 'd arg_spec =
  as_kind :: arg_kind
  as_optional :: bool
  as_default :: "'d option"
  as_min :: "dnum option"
  as_max :: "dnum option"

text \<open>A schema gives a kind alone or a full entry.\<close>

datatype 'd schema_entry = Kind arg_kind | Spec "'d arg_spec"

definition normalizeSpec :: "'d schema_entry \<Rightarrow> 'd arg_spec" where
  "normalizeSpec e =
     (case e of
        Kind k \<Rightarrow> \<lparr>as_kind = k, as_optional = False, as_default = None, as_min = None, as_max = None\<rparr>
      | Spec s \<Rightarrow> s)"

text \<open>The values of the result: a default, \<open>undefined\<close>, or what a token is read as.\<close>

datatype 'd arg_value = V_undefined | V_default 'd | V_string string | V_number dnum | V_bool bool

datatype arg_error =
    Rest_required string
  | Arg_required string
  | Not_integer string
  | Not_number string
  | Not_userId string
  | Not_roomId string
  | Not_bool string
  | Below_min string dnum
  | Above_max string dnum

section \<open>Reading a token\<close>

text \<open>\<open>/^-?\d+$/\<close> and the two identifier patterns, \<open>/^@[^\s:]+:[^\s]+$/\<close> for the sigil \<open>@\<close>.\<close>

definition integer_text :: "string \<Rightarrow> bool" where
  "integer_text s =
     (let ds = (if js_starts_with s ''-'' then drop 1 s else s) in ds \<noteq> [] \<and> list_all ascii_digit ds)"

definition matrix_id :: "char \<Rightarrow> string \<Rightarrow> bool" where
  "matrix_id sigil s =
     (case s of
        [] \<Rightarrow> False
      | c # t \<Rightarrow>
          c = sigil \<and> list_all (\<lambda>d. \<not> js_space d) t \<and>
          takeWhile (\<lambda>d. d \<noteq> CHR '':'') t \<noteq> [] \<and> 2 \<le> length (dropWhile (\<lambda>d. d \<noteq> CHR '':'') t))"

definition clampNumber :: "dnum \<Rightarrow> 'd arg_spec \<Rightarrow> string \<Rightarrow> arg_error + dnum" where
  "clampNumber n spec key =
     (case as_min spec of
        Some m \<Rightarrow>
          if dnum_less n m then Inl (Below_min key m)
          else (case as_max spec of
                  Some x \<Rightarrow> if dnum_less x n then Inl (Above_max key x) else Inr n
                | None \<Rightarrow> Inr n)
      | None \<Rightarrow>
          (case as_max spec of
             Some x \<Rightarrow> if dnum_less x n then Inl (Above_max key x) else Inr n
           | None \<Rightarrow> Inr n))"

definition is_finite :: "dnum \<Rightarrow> bool" where
  "is_finite n = (case n of Num _ \<Rightarrow> True | _ \<Rightarrow> False)"

definition coerceToken :: "string \<Rightarrow> 'd arg_spec \<Rightarrow> string \<Rightarrow> arg_error + 'd arg_value" where
  "coerceToken token spec key =
     (case as_kind spec of
        K_string \<Rightarrow> Inr (V_string token)
      | K_rest \<Rightarrow> Inr (V_string token)
      | K_int \<Rightarrow>
          if \<not> integer_text token then Inl (Not_integer key)
          else map_sum id V_number (clampNumber (js_Number token) spec key)
      | K_float \<Rightarrow>
          if \<not> is_finite (js_Number token) then Inl (Not_number key)
          else map_sum id V_number (clampNumber (js_Number token) spec key)
      | K_userId \<Rightarrow> if matrix_id (CHR ''@'') token then Inr (V_string token) else Inl (Not_userId key)
      | K_roomId \<Rightarrow>
          if matrix_id (CHR ''!'') token \<or> matrix_id (CHR ''#'') token then Inr (V_string token)
          else Inl (Not_roomId key)
      | K_bool \<Rightarrow>
          if js_lower token \<in> {''1'', ''true'', ''yes'', ''on''} then Inr (V_bool True)
          else if js_lower token \<in> {''0'', ''false'', ''no'', ''off''} then Inr (V_bool False)
          else Inl (Not_bool key))"

section \<open>The parser\<close>

definition absent :: "'d arg_spec \<Rightarrow> 'd arg_value option" where
  "absent spec =
     (if as_optional spec \<or> as_default spec \<noteq> None
      then Some (case as_default spec of Some d \<Rightarrow> V_default d | None \<Rightarrow> V_undefined) else None)"

fun parse_keys ::
  "string list \<Rightarrow> (string \<times> 'd schema_entry) list \<Rightarrow> (string, 'd arg_value) jsmap \<Rightarrow>
     arg_error + (string, 'd arg_value) jsmap" where
  "parse_keys tokens [] result = Inr result"
| "parse_keys tokens ((key, entry) # schema) result =
     (let spec = normalizeSpec entry
      in if as_kind spec = K_rest then
           (let r = js_trim (js_join '' '' tokens)
            in if r = [] then
                 (case absent spec of
                    Some v \<Rightarrow> parse_keys [] schema (jm_set key v result)
                  | None \<Rightarrow> Inl (Rest_required key))
               else parse_keys [] schema (jm_set key (V_string r) result))
         else
           (case tokens of
              [] \<Rightarrow>
                (case absent spec of
                   Some v \<Rightarrow> parse_keys [] schema (jm_set key v result)
                 | None \<Rightarrow> Inl (Arg_required key))
            | t # ts \<Rightarrow>
                (case coerceToken t spec key of
                   Inl e \<Rightarrow> Inl e
                 | Inr v \<Rightarrow> parse_keys ts schema (jm_set key v result))))"

definition parseCommandArgs ::
  "string \<Rightarrow> (string \<times> 'd schema_entry) list \<Rightarrow> arg_error + (string, 'd arg_value) jsmap" where
  "parseCommandArgs raw schema = parse_keys (tokenizeArgs raw) schema []"

section \<open>The tokenizer reads what was quoted\<close>

text \<open>How a user writes an arbitrary text as one argument.\<close>

definition quote_arg :: "string \<Rightarrow> string" where
  "quote_arg s = dquo # concat (map (\<lambda>c. if c = dquo \<or> c = bslash then [bslash, c] else [c]) s) @ [dquo]"

abbreviation esc_arg :: "string \<Rightarrow> string" where
  "esc_arg s \<equiv> concat (map (\<lambda>c. if c = dquo \<or> c = bslash then [bslash, c] else [c]) s)"

lemma scan_escaped: "scan_quoted dquo (esc_arg s @ dquo # r) = Some (esc_arg s, r)"
proof (induction s)
  case Nil
  then show ?case by (cases r) simp_all
next
  case (Cons c s)
  obtain d u where "esc_arg s @ dquo # r = d # u" by (cases "esc_arg s") auto
  with Cons show ?case by (auto simp: line_end_def)
qed

lemma unescape_escaped: "unescape (esc_arg s) = s"
proof (induction s)
  case (Cons c s)
  then show ?case by (cases "esc_arg s") auto
qed simp

lemma token_value_quoted: "token_value (quote_arg s) = s"
proof -
  have "drop 1 (quote_arg s) = esc_arg s @ [dquo]" by (simp add: quote_arg_def)
  moreover have "js_starts_with (quote_arg s) [dquo]" and "js_ends_with (quote_arg s) [dquo]"
    by (simp_all add: quote_arg_def js_starts_with_def js_ends_with_def)
  ultimately show ?thesis by (simp add: token_value_def unescape_escaped)
qed

lemma tokenize_quoted: "tokenizeArgs (quote_arg s @ r) = s # tokenizeArgs r"
proof -
  have "match_arg (quote_arg s @ r) = Some (quote_arg s, r)"
    by (simp add: match_arg_def quote_arg_def scan_escaped)
  then have "tokenizeArgs (quote_arg s @ r) = token_value (quote_arg s) # tokenizeArgs r"
    by (cases "quote_arg s @ r") (simp_all add: tokenizeArgs.simps(2) quote_arg_def)
  then show ?thesis by (simp add: token_value_quoted)
qed

lemma tokenize_space: "js_space c \<Longrightarrow> tokenizeArgs (c # s) = tokenizeArgs s"
proof -
  assume "js_space c"
  moreover from this have "c \<noteq> dquo" "c \<noteq> squo" by (auto simp: js_space_def)
  ultimately have "match_arg (c # s) = None" by (simp add: match_arg_def)
  then show ?thesis by (simp add: tokenizeArgs.simps(2))
qed

text \<open>
  Every list of texts can be given as arguments: quoted and separated by spaces, the
  tokenizer returns exactly these texts, whatever characters they contain.
\<close>

theorem tokenize_quoted_args: "tokenizeArgs (js_join '' '' (map quote_arg args)) = args"
proof (induction args)
  case (Cons a args)
  have "js_space (CHR '' '')" by (simp add: js_space_def)
  with Cons show ?case
    using tokenize_quoted [of a "[]"] by (cases args) (simp_all add: tokenize_quoted tokenize_space)
qed simp

section \<open>Integers\<close>

lemma digits_not_space: "list_all ascii_digit s \<Longrightarrow> js_trim s = s"
proof -
  assume s: "list_all ascii_digit s"
  have n: "ascii_digit c \<Longrightarrow> \<not> js_space c" for c by (auto simp: ascii_digit_def js_space_def Let_def)
  have d: "list_all ascii_digit u \<Longrightarrow> dropWhile js_space u = u" for u using n by (cases u) auto
  show ?thesis using s by (simp add: js_trim_def d list_all_iff)
qed

lemma integer_trim: "integer_text s \<Longrightarrow> js_trim s = s"
proof (cases "js_starts_with s ''-''")
  case True
  assume i: "integer_text s"
  from True obtain t where t: "s = CHR ''-'' # t" by (auto simp: js_starts_with_iff)
  with i have "list_all ascii_digit t" "t \<noteq> []"
    by (auto simp: integer_text_def js_starts_with_def)
  moreover from this have "\<not> js_space (last t)"
    by (auto simp: list_all_iff ascii_digit_def js_space_def Let_def dest!: last_in_set)
  ultimately show ?thesis
    by (cases "rev t") (auto simp: js_trim_def t js_space_def last_rev hd_rev [symmetric])
next
  case False
  then show "integer_text s \<Longrightarrow> ?thesis" by (simp add: integer_text_def digits_not_space)
qed

lemma decimal_digits:
  assumes "list_all ascii_digit ds" and "ds \<noteq> []"
  shows "decimal ds = dbl (of_nat (dec_value ds))"
proof -
  have t: "takeWhile ascii_digit ds = ds" "dropWhile ascii_digit ds = []"
    using assms(1) by (simp_all add: list_all_iff)
  have "ds \<noteq> ''Infinity''" using assms(1) by (auto simp: ascii_digit_def)
  then show ?thesis using assms(2) by (simp add: decimal_def t js_starts_with_def exponent_def pow10_def)
qed

lemma digit_pair: "list_all ascii_digit s \<Longrightarrow> js_lower (take 2 s) \<notin> {''0x'', ''0o'', ''0b''}"
proof -
  assume s: "list_all ascii_digit s"
  have "ascii_digit c \<Longrightarrow> js_lower_char c = c" for c
    by (auto simp: ascii_digit_def js_lower_char_def Let_def)
  with s have "js_lower (take 2 s) = take 2 s"
    by (auto simp: js_lower_def list_all_iff intro!: map_idI dest: in_set_takeD)
  moreover have "list_all ascii_digit (take 2 s)" using s by (auto simp: list_all_iff dest: in_set_takeD)
  ultimately show ?thesis by (auto simp: ascii_digit_def)
qed

lemma number_digits:
  assumes "list_all ascii_digit ds" and "ds \<noteq> []"
  shows "js_Number ds = dbl (of_nat (dec_value ds))" and "js_Number (CHR ''-'' # ds) = dnum_neg (dbl (of_nat (dec_value ds)))"
proof -
  have "hd ds \<noteq> CHR ''-''" "hd ds \<noteq> CHR ''+''"
    using assms by (cases ds; auto simp: ascii_digit_def)+
  then have s: "\<not> js_starts_with ds ''-''" "\<not> js_starts_with ds ''+''"
    using assms(2) by (cases ds; simp add: js_starts_with_def)+
  show "js_Number ds = dbl (of_nat (dec_value ds))"
    using digit_pair [OF assms(1)] assms
    by (simp add: js_Number_def digits_not_space [OF assms(1)] s decimal_digits)
  have "integer_text (CHR ''-'' # ds)" using assms by (simp add: integer_text_def js_starts_with_def)
  from integer_trim [OF this]
  show "js_Number (CHR ''-'' # ds) = dnum_neg (dbl (of_nat (dec_value ds)))"
    using decimal_digits [OF assms]
    by (simp add: js_Number_def Let_def js_starts_with_def numeral_2_eq_2 js_lower_def)
      (simp add: js_lower_char_def)
qed

text \<open>The double nearest to a natural number.\<close>

lemma log2_floor_nat:
  assumes "0 < n"
  shows "log2_floor (of_nat n) = bitlen (int n) - 1" and "pow2 (bitlen (int n) - 1) \<le> of_nat n" and "of_nat n < pow2 (bitlen (int n))"
proof -
  have b: "2 ^ nat (bitlen (int n) - 1) \<le> int n \<and> int n < 2 ^ nat (bitlen (int n))"
    using assms by (intro bitlen_bounds) simp
  have pos: "1 \<le> bitlen (int n)" using assms by (simp add: bitlen_ge_iff_power)
  have "of_int (2 ^ nat (bitlen (int n) - 1)) \<le> (of_int (int n) :: rat)" "(of_int (int n) :: rat) < of_int (2 ^ nat (bitlen (int n)))"
    using b by (simp_all only: of_int_le_iff of_int_less_iff)
  then show le: "pow2 (bitlen (int n) - 1) \<le> of_nat n" and "of_nat n < pow2 (bitlen (int n))"
    using pos by (simp_all add: pow2_def)
  have "quotient_of (of_nat n) = (int n, 1)" using quotient_of_int [of "int n"] by simp
  moreover have "bitlen 1 = 1" by (simp add: bitlen_def floorlog_def)
  ultimately show "log2_floor (of_nat n) = bitlen (int n) - 1"
    using le by (simp add: log2_floor_def)
qed

lemma round_even_int: "round_even (of_int k) = k"
  by (simp add: round_even_def)

lemma round_even_ge: "of_int k \<le> q \<Longrightarrow> k \<le> round_even q"
  by (simp add: round_even_def Let_def le_floor_iff) (metis add_increasing2 le_floor_iff zero_le_one)

lemma pow2_add: "0 \<le> a \<Longrightarrow> 0 \<le> b \<Longrightarrow> pow2 (a + b) = pow2 a * pow2 b"
  by (simp add: pow2_def nat_add_distrib power_add)

lemma pow2_pos [simp]: "0 < pow2 e"
  by (simp add: pow2_def)

lemma pow2_mono: "0 \<le> a \<Longrightarrow> a \<le> b \<Longrightarrow> pow2 a \<le> pow2 b"
  by (simp add: pow2_def power_increasing)

text \<open>Small integers are exact, integers stay integers, and from 2^1024 on there is no number.\<close>

lemma dbl_exact:
  assumes "n \<le> 2 ^ 53"
  shows "dbl (of_nat n) = Num (of_nat n)"
proof (cases "n = 0")
  case False
  let ?k = "log2_floor (of_nat n)"
  let ?e = "max (?k - 52) (- 1074)"
  have n: "0 < n" using False by simp
  have "?k \<le> 53"
  proof (rule ccontr)
    assume "\<not> ?k \<le> 53"
    then have "pow2 54 \<le> pow2 ?k" by (intro pow2_mono) simp_all
    also have "\<dots> \<le> of_nat n" using log2_floor_nat [OF n] by simp
    also have "\<dots> \<le> (of_nat (2 ^ 53) :: rat)" using assms by (simp only: of_nat_le_iff)
    finally show False by (simp add: pow2_def)
  qed
  have "\<exists>q. of_nat n / pow2 ?e = of_int q"
  proof (cases "?e \<le> 0")
    case True
    then have "of_nat n / pow2 ?e = of_int (int n * 2 ^ nat (- ?e))"
      by (simp add: pow2_def)
    then show ?thesis by blast
  next
    case False
    with \<open>?k \<le> 53\<close> have e: "?e = 1" "?k = 53" by auto
    then have "pow2 53 \<le> of_nat n" using log2_floor_nat [OF n] by simp
    then have "(of_nat (2 ^ 53) :: rat) \<le> of_nat n" by (simp add: pow2_def)
    then have "n = 2 ^ 53" using assms by (simp only: of_nat_le_iff)
    have "pow2 1 = 2" by (simp add: pow2_def)
    with \<open>n = 2 ^ 53\<close> have "of_nat n / pow2 ?e = of_int (2 ^ 52)" unfolding e(1) by simp
    then show ?thesis by blast
  qed
  then obtain q where q: "of_nat n / pow2 ?e = of_int q" by blast
  then have v: "of_int q * pow2 ?e = of_nat n" by (metis nonzero_divide_eq_eq pow2_pos less_irrefl)
  have "(of_nat n :: rat) \<le> of_nat (2 ^ 53)" using assms by (simp only: of_nat_le_iff)
  also have "\<dots> < pow2 1024" by (simp add: pow2_def)
  finally have "\<not> pow2 1024 \<le> of_nat n" by simp
  then show ?thesis using False by (simp add: dbl_def dbl_pos_def Let_def q round_even_int v)
qed (simp add: dbl_def)

lemma dbl_integral: "(\<exists>k. dbl (of_nat n) = Num (of_int k)) \<or> dbl (of_nat n) = DInf False"
proof (cases "n \<le> 2 ^ 53")
  case True
  from dbl_exact [OF this] show ?thesis by (metis of_int_of_nat_eq)
next
  case False
  let ?e = "max (log2_floor (of_nat n) - 52) (- 1074)"
  have n: "0 < n" using False by (cases n) auto
  have "0 \<le> ?e"
  proof (rule ccontr)
    assume "\<not> 0 \<le> ?e"
    then have "bitlen (int n) \<le> 52" using log2_floor_nat(1) [OF n] by simp
    then have "pow2 (bitlen (int n)) \<le> pow2 52" by (intro pow2_mono) (simp_all add: bitlen_nonneg)
    with log2_floor_nat(3) [OF n] have "of_nat n < (pow2 52)" by simp
    then have "of_nat n < (of_nat (2 ^ 52) :: rat)" by (simp add: pow2_def)
    then have "n < 2 ^ 52" by (simp only: of_nat_less_iff)
    with False show False by simp
  qed
  then have "of_int m * pow2 ?e = of_int (m * 2 ^ nat ?e)" for m by (simp add: pow2_def)
  then obtain k where "of_int (round_even (of_nat n / pow2 ?e)) * pow2 ?e = of_int k" by blast
  then show ?thesis using n by (auto simp: dbl_def dbl_pos_def Let_def)
qed

lemma dbl_overflow:
  assumes "2 ^ 1024 \<le> n"
  shows "dbl (of_nat n) = DInf False"
proof -
  let ?k = "log2_floor (of_nat n)"
  have n: "0 < n" using assms by (cases n) auto
  have "1024 \<le> ?k"
  proof (rule ccontr)
    assume "\<not> 1024 \<le> ?k"
    then have "bitlen (int n) \<le> 1024" using log2_floor_nat(1) [OF n] by simp
    then have "pow2 (bitlen (int n)) \<le> pow2 1024" by (intro pow2_mono) (simp_all add: bitlen_nonneg)
    with log2_floor_nat(3) [OF n] have "of_nat n < (of_nat (2 ^ 1024) :: rat)" by (simp add: pow2_def)
    then show False using assms by (simp only: of_nat_less_iff)
  qed
  let ?e = "?k - 52"
  have e: "max ?e (- 1074) = ?e" using \<open>1024 \<le> ?k\<close> by simp
  have "pow2 52 * pow2 ?e = pow2 ?k" using pow2_add [of 52 ?e] \<open>1024 \<le> ?k\<close> by simp
  also have le: "\<dots> \<le> of_nat n" using log2_floor_nat [OF n] by simp
  finally have "of_int (2 ^ 52) \<le> of_nat n / pow2 ?e" by (simp add: pow2_def field_simps)
  from round_even_ge [OF this] have "(of_int (2 ^ 52) :: rat) \<le> of_int (round_even (of_nat n / pow2 ?e))"
    by (simp only: of_int_le_iff)
  then have "pow2 52 * pow2 ?e \<le> of_int (round_even (of_nat n / pow2 ?e)) * pow2 ?e"
    by (intro mult_right_mono) (simp_all add: pow2_def)
  moreover have "pow2 1024 \<le> pow2 52 * pow2 ?e"
    using pow2_mono [of 1024 ?k] \<open>pow2 52 * pow2 ?e = pow2 ?k\<close> \<open>1024 \<le> ?k\<close> by simp
  ultimately have "pow2 1024 \<le> of_int (round_even (of_nat n / pow2 ?e)) * pow2 ?e" by (rule order_trans [rotated])
  then show ?thesis using n by (simp add: dbl_def dbl_pos_def Let_def e)
qed

lemma round_even_le: "of_int (round_even q) \<le> q + 1"
  by (simp add: round_even_def Let_def) linarith

text \<open>Below 10^308 there is no infinity.\<close>

lemma dbl_finite:
  assumes "n < 10 ^ 308"
  shows "dbl (of_nat n) \<noteq> DInf b"
proof (cases "n = 0")
  case False
  let ?k = "log2_floor (of_nat n)"
  let ?e = "max (?k - 52) (- 1074)"
  have n: "0 < n" using False by simp
  have big: "(of_nat n :: rat) \<le> 10 ^ 308"
    using assms by (metis of_nat_le_iff of_nat_numeral of_nat_power less_imp_le)
  have "?k < 1024"
  proof (rule ccontr)
    assume "\<not> ?k < 1024"
    then have "pow2 1024 \<le> pow2 ?k" by (intro pow2_mono) simp_all
    also have "\<dots> \<le> of_nat n" using log2_floor_nat [OF n] by simp
    finally show False using big by (simp add: pow2_def)
  qed
  then have e: "pow2 ?e \<le> pow2 971"
  proof (cases "0 \<le> ?e")
    case True
    then show ?thesis using \<open>?k < 1024\<close> by (intro pow2_mono) auto
  next
    case False
    then have "pow2 ?e \<le> 1" by (simp add: pow2_def)
    then show ?thesis by (rule order_trans) (simp add: pow2_def)
  qed
  have "of_int (round_even (of_nat n / pow2 ?e)) * pow2 ?e \<le> (of_nat n / pow2 ?e + 1) * pow2 ?e"
    by (intro mult_right_mono round_even_le) (simp add: less_imp_le)
  also have "\<dots> = of_nat n + pow2 ?e"
    using pow2_pos [of ?e] by (simp add: distrib_right less_imp_neq [THEN not_sym])
  also have "\<dots> \<le> 10 ^ 308 + pow2 971"
    using big e by (rule add_mono)
  also have "\<dots> < pow2 1024"
    by (simp add: pow2_def)
  finally show ?thesis
    using n by (simp add: dbl_def dbl_pos_def Let_def not_le)
qed (simp add: dbl_def)

lemma dec_value_bound: "list_all ascii_digit ds \<Longrightarrow> dec_value ds < 10 ^ length ds"
proof (induction ds rule: rev_induct)
  case (snoc d ds)
  then have "dec_value ds + 1 \<le> 10 ^ length ds" and "(of_char d :: nat) - 48 \<le> 9"
    by (auto simp: ascii_digit_def Let_def)
  then show ?case by (simp add: dec_value_def)
qed (simp add: dec_value_def)

section \<open>What the parser returns\<close>

definition in_bounds :: "'d arg_spec \<Rightarrow> dnum \<Rightarrow> bool" where
  "in_bounds spec n \<longleftrightarrow>
     (case as_min spec of Some m \<Rightarrow> \<not> dnum_less n m | None \<Rightarrow> True) \<and>
     (case as_max spec of Some x \<Rightarrow> \<not> dnum_less x n | None \<Rightarrow> True)"

text \<open>The values of a kind.\<close>

definition value_of_kind :: "'d arg_spec \<Rightarrow> 'd arg_value \<Rightarrow> bool" where
  "value_of_kind spec v \<longleftrightarrow>
     (case as_kind spec of
        K_string \<Rightarrow> (\<exists>s. v = V_string s)
      | K_rest \<Rightarrow> (\<exists>s. v = V_string s \<and> s \<noteq> [] \<and> js_trim s = s)
      | K_int \<Rightarrow> (\<exists>n. v = V_number n \<and> in_bounds spec n \<and> (\<exists>k. n = Num (of_int k)))
      | K_float \<Rightarrow> (\<exists>q. v = V_number (Num q) \<and> in_bounds spec (Num q))
      | K_userId \<Rightarrow> (\<exists>s. v = V_string s \<and> matrix_id (CHR ''@'') s)
      | K_roomId \<Rightarrow> (\<exists>s. v = V_string s \<and> (matrix_id (CHR ''!'') s \<or> matrix_id (CHR ''#'') s))
      | K_bool \<Rightarrow> (\<exists>b. v = V_bool b))"

definition conforms :: "'d schema_entry \<Rightarrow> 'd arg_value \<Rightarrow> bool" where
  "conforms entry v \<longleftrightarrow> absent (normalizeSpec entry) = Some v \<or> value_of_kind (normalizeSpec entry) v"

lemma clampNumber_bounds: "clampNumber n spec key = Inr v \<Longrightarrow> v = n \<and> in_bounds spec n"
  by (auto simp: clampNumber_def in_bounds_def split: option.splits if_splits)

text \<open>Decimal integers of at most 308 characters are numbers: \<open>int_arg_infinite\<close> has the others.\<close>

definition short_integer :: "string \<Rightarrow> bool" where
  "short_integer t \<longleftrightarrow> \<not> integer_text t \<or> length t \<le> 308"

lemma integer_value:
  assumes "integer_text s" and "length s \<le> 308"
  shows "\<exists>k. js_Number s = Num (of_int k)"
proof -
  have short: "\<exists>k. dbl (of_nat (dec_value ds)) = Num (of_int k)" if "list_all ascii_digit ds" "length ds \<le> 308" for ds
  proof -
    have "dec_value ds < 10 ^ length ds" by (rule dec_value_bound [OF that(1)])
    also have "\<dots> \<le> (10 :: nat) ^ 308" using that(2) by (intro power_increasing) simp_all
    finally show ?thesis using dbl_integral [of "dec_value ds"] dbl_finite [of "dec_value ds" False] by auto
  qed
  show ?thesis
  proof (cases "js_starts_with s ''-''")
    case True
    then obtain ds where s: "s = CHR ''-'' # ds" by (auto simp: js_starts_with_iff)
    with assms have ds: "list_all ascii_digit ds" "ds \<noteq> []" "length ds \<le> 308" by (auto simp: integer_text_def js_starts_with_def)
    then obtain k where "dbl (of_nat (dec_value ds)) = Num (of_int k)" using short by blast
    then have "js_Number s = Num (of_int (- k))" using number_digits(2) [OF ds(1,2)] by (simp add: s)
    then show ?thesis by blast
  next
    case False
    with assms have ds: "list_all ascii_digit s" "s \<noteq> []" by (auto simp: integer_text_def)
    then show ?thesis using short [OF ds(1) assms(2)] number_digits(1) [OF ds] by simp
  qed
qed

lemma coerce_conforms:
  assumes "coerceToken t spec key = Inr v" and "as_kind spec \<noteq> K_rest" and "short_integer t"
  shows "value_of_kind spec v"
proof (cases "as_kind spec")
  case K_int
  with assms have i: "integer_text t" by (simp add: coerceToken_def split: if_splits)
  from assms K_int i obtain n where "clampNumber (js_Number t) spec key = Inr n" "v = V_number n"
    by (cases "clampNumber (js_Number t) spec key") (auto simp: coerceToken_def)
  moreover have "length t \<le> 308" using assms(3) i by (simp add: short_integer_def)
  ultimately show ?thesis
    using clampNumber_bounds integer_value [OF i] K_int by (fastforce simp: value_of_kind_def)
next
  case K_float
  with assms obtain q where q: "js_Number t = Num q"
    by (auto simp: coerceToken_def is_finite_def split: if_splits dnum.splits)
  from assms K_float q obtain n where "clampNumber (Num q) spec key = Inr n" "v = V_number n"
    by (cases "clampNumber (Num q) spec key") (auto simp: coerceToken_def is_finite_def)
  with clampNumber_bounds K_float show ?thesis by (fastforce simp: value_of_kind_def)
qed (use assms in \<open>auto simp: coerceToken_def value_of_kind_def split: if_splits\<close>)

lemma parse_keys_conforms:
  assumes "parse_keys tokens schema result = Inr out"
    and "distinct (map fst schema)" and "fst ` set schema \<inter> fst ` set result = {}" and "list_all short_integer tokens"
  shows "\<exists>vs. out = result @ vs \<and> list_all2 (\<lambda>(k, e) (k', v). k' = k \<and> conforms e v) schema vs"
  using assms
proof (induction tokens schema result rule: parse_keys.induct)
  case (2 tokens key entry schema result)
  let ?spec = "normalizeSpec entry"
  have step: ?case
    if p: "parse_keys ts schema (jm_set key v result) = Inr out" and c: "conforms entry v"
      and ih: "parse_keys ts schema (jm_set key v result) = Inr out \<Longrightarrow> distinct (map fst schema) \<Longrightarrow>
        fst ` set schema \<inter> fst ` set (jm_set key v result) = {} \<Longrightarrow> list_all short_integer ts \<Longrightarrow>
        \<exists>vs. out = jm_set key v result @ vs \<and> list_all2 (\<lambda>(k, e) (k', v). k' = k \<and> conforms e v) schema vs"
      and short: "list_all short_integer ts"
    for ts v
  proof -
    have "key \<notin> set (jm_keys result)" using "2.prems"(3) by auto
    then have u: "jm_set key v result = result @ [(key, v)]" by (rule update_absent)
    obtain vs where "out = result @ (key, v) # vs" "list_all2 (\<lambda>(k, e) (k', v). k' = k \<and> conforms e v) schema vs"
      using ih [OF p _ _ short] "2.prems"(2,3) by (auto simp: u)
    with c show ?thesis by (intro exI [of _ "(key, v) # vs"]) simp
  qed
  show ?case
  proof (cases "as_kind ?spec = K_rest")
    case True
    let ?r = "js_trim (js_join '' '' tokens)"
    show ?thesis
    proof (cases "?r = []")
      case r: True
      then obtain v where v: "absent ?spec = Some v" using "2.prems"(1) True by (auto simp: Let_def split: option.splits)
      with "2.prems"(1) True r have "parse_keys [] schema (jm_set key v result) = Inr out" by simp
      then show ?thesis by (rule step) (use v in \<open>simp add: conforms_def\<close>, rule "2.IH"(1) [OF refl True refl r v], simp_all)
    next
      case r: False
      with "2.prems"(1) True have p: "parse_keys [] schema (jm_set key (V_string ?r) result) = Inr out" by simp
      have "js_trim ?r = ?r" by simp
      with r True have "conforms entry (V_string ?r)" by (simp add: conforms_def value_of_kind_def)
      with p show ?thesis by (rule step) (rule "2.IH"(2) [OF refl True refl r], simp_all)
    qed
  next
    case False
    show ?thesis
    proof (cases tokens)
      case Nil
      then obtain v where v: "absent ?spec = Some v" using "2.prems"(1) False by (auto simp: Let_def split: option.splits)
      with "2.prems"(1) False Nil have "parse_keys [] schema (jm_set key v result) = Inr out" by simp
      then show ?thesis by (rule step) (use v in \<open>simp add: conforms_def\<close>, rule "2.IH"(3) [OF refl False Nil v], simp_all)
    next
      case (Cons t ts)
      then obtain v where v: "coerceToken t ?spec key = Inr v" using "2.prems"(1) False by (auto simp: Let_def split: sum.splits)
      with "2.prems"(1) False Cons have p: "parse_keys ts schema (jm_set key v result) = Inr out" by simp
      have "conforms entry v" using coerce_conforms [OF v False] "2.prems"(4) Cons by (simp add: conforms_def)
      with p show ?thesis by (rule step) (rule "2.IH"(4) [OF refl False Cons v], use "2.prems"(4) Cons in \<open>simp_all\<close>)
    qed
  qed
qed simp

text \<open>
  C12 (type). Parsed arguments have the types of their schema: when the parser returns, there is one
  entry per key of the schema, in its order, and each is the default of the key (or \<open>undefined\<close>
  for an optional key without one) or a value of the kind, within the bounds; the value of an
  integer argument is an integer. The text must have no integer of more than 308 characters, for
  which the parser returns infinity (\<open>int_arg_infinite\<close>).
\<close>

theorem command_args_typed:
  assumes "parseCommandArgs raw schema = Inr out" and "distinct (map fst schema)" and "list_all short_integer (tokenizeArgs raw)"
  shows "list_all2 (\<lambda>(k, e) (k', v). k' = k \<and> conforms e v) schema out"
  using parse_keys_conforms [of "tokenizeArgs raw" schema "[]" out] assms
  by (simp add: parseCommandArgs_def)

definition demo_schema :: "(string \<times> int schema_entry) list" where
  "demo_schema =
     [(''user'', Kind K_userId),
      (''days'', Spec \<lparr>as_kind = K_int, as_optional = True, as_default = Some 7, as_min = Some (Num 1), as_max = Some (Num 365)\<rparr>),
      (''reason'', Spec \<lparr>as_kind = K_rest, as_optional = True, as_default = None, as_min = None, as_max = None\<rparr>)]"

definition demo_args :: "(string, int arg_value) jsmap" where
  "demo_args = [(''user'', V_string ''@eve:hs''), (''days'', V_number (Num 30)), (''reason'', V_string ''spam again'')]"

lemma demo_parsed: "parseCommandArgs ''@eve:hs 30 spam  again'' demo_schema = Inr demo_args"
proof -
  have t: "tokenizeArgs ''@eve:hs 30 spam  again'' = [''@eve:hs'', ''30'', ''spam'', ''again'']" by code_simp
  have "js_Number ''30'' = Num 30"
    using number_digits(1) [of "''30''"] dbl_exact [of 30] by (simp add: ascii_digit_def dec_value_def)
  moreover have "integer_text ''30''" "matrix_id (CHR ''@'') ''@eve:hs''" "js_trim ''spam again'' = ''spam again''" by code_simp+
  ultimately show ?thesis
    by (simp add: parseCommandArgs_def t demo_schema_def demo_args_def normalizeSpec_def coerceToken_def clampNumber_def Let_def)
qed

lemma command_args_typed_witness:
  "list_all2 (\<lambda>(k, e) (k', v). k' = k \<and> conforms e v) demo_schema demo_args"
proof (rule command_args_typed [OF demo_parsed])
  have t: "tokenizeArgs ''@eve:hs 30 spam  again'' = [''@eve:hs'', ''30'', ''spam'', ''again'']" by code_simp
  show "list_all short_integer (tokenizeArgs ''@eve:hs 30 spam  again'')"
    by (simp add: t short_integer_def)
qed (simp add: demo_schema_def)

lemma nat_dec_ne: "nat_dec n \<noteq> []"
  by (subst nat_dec.simps) simp

lemma nat_dec_ascii: "list_all ascii_digit (nat_dec n)"
  using nat_dec_digits [of _ n] by (fastforce simp: list_all_iff ascii_digit_def Let_def)

lemma int_dec_text: "integer_text (int_dec i)"
proof (cases "i < 0")
  case True
  then show ?thesis by (simp add: int_dec_def integer_text_def js_starts_with_def nat_dec_ne nat_dec_ascii)
next
  case False
  have "hd (nat_dec n) \<noteq> CHR ''-''" for n
    using nat_dec_ascii [of n] nat_dec_ne [of n] by (cases "nat_dec n") (auto simp: ascii_digit_def)
  then have "\<not> js_starts_with (nat_dec n) ''-''" for n
    using nat_dec_ne [of n] by (cases "nat_dec n"; metis js_starts_with_iff append_Cons list.sel(1))
  with False show ?thesis by (simp add: int_dec_def integer_text_def nat_dec_ne nat_dec_ascii)
qed

lemma int_dec_number:
  assumes "\<bar>i\<bar> \<le> 2 ^ 53"
  shows "js_Number (int_dec i) = Num (of_int i)"
proof -
  have "nat \<bar>i\<bar> \<le> 2 ^ 53" using assms by simp
  from dbl_exact [OF this] have "dbl (of_nat (nat \<bar>i\<bar>)) = Num (of_int \<bar>i\<bar>)" by simp
  then show ?thesis
    by (cases "i < 0") (simp_all add: int_dec_def number_digits [OF nat_dec_ascii nat_dec_ne] dec_value_nat_dec)
qed

lemma tokenize_integer: "integer_text s \<Longrightarrow> tokenizeArgs s = [s]"
proof -
  assume i: "integer_text s"
  have char: "\<not> js_space c \<and> c \<noteq> dquo \<and> c \<noteq> squo" if "c \<in> set s" for c
  proof -
    have "ascii_digit c \<or> c = CHR ''-''"
      using i that by (cases s) (auto simp: integer_text_def js_starts_with_def list_all_iff Let_def split: if_splits)
    then show ?thesis by (auto simp: ascii_digit_def js_space_def Let_def)
  qed
  obtain c t where s: "s = c # t" using i by (cases s) (auto simp: integer_text_def js_starts_with_def)
  have "match_arg s = Some (s, [])" using char by (simp add: match_arg_def s)
  moreover have "token_value s = s" using char [of c] by (simp add: token_value_def s js_starts_with_def)
  ultimately show ?thesis by (simp add: s tokenizeArgs.simps(2))
qed

lemma parse_one_int:
  "integer_text s \<Longrightarrow> parseCommandArgs s [(k, Kind K_int)] = Inr [(k, V_number (js_Number s))]"
  by (simp add: parseCommandArgs_def tokenize_integer normalizeSpec_def coerceToken_def clampNumber_def Let_def)

text \<open>
  Integers up to 2^53 are read exactly: an integer written in decimal, alone as the argument
  text, is the value of an integer argument without bounds.
\<close>

theorem int_arg_exact:
  assumes "\<bar>i\<bar> \<le> 2 ^ 53"
  shows "parseCommandArgs (int_dec i) [(k, Kind K_int)] = Inr [(k, V_number (Num (of_int i)))]"
  by (simp add: parse_one_int int_dec_text int_dec_number [OF assms])

lemma int_arg_exact_witness:
  "parseCommandArgs (int_dec (- 42)) [(''n'', Kind K_int)] = Inr [(''n'', V_number (Num (of_int (- 42))))]"
  by (rule int_arg_exact) simp

text \<open>
  An integer argument is not checked to be finite, as a float argument is: digits for a
  number of 2^1024 or more are accepted and give the value infinity.
\<close>

theorem int_arg_infinite:
  assumes "2 ^ 1024 \<le> n"
  shows "parseCommandArgs (nat_dec n) [(k, Kind K_int)] = Inr [(k, V_number (DInf False))] \<and>
    parseCommandArgs (nat_dec n) [(k, Kind K_float)] = Inl (Not_number k)"
proof -
  have i: "integer_text (nat_dec n)" using int_dec_text [of "int n"] by (simp add: int_dec_def)
  have v: "js_Number (nat_dec n) = DInf False"
    by (simp add: number_digits [OF nat_dec_ascii nat_dec_ne] dec_value_nat_dec dbl_overflow [OF assms])
  have "parseCommandArgs (nat_dec n) [(k, Kind K_int)] = Inr [(k, V_number (DInf False))]"
    by (simp add: parse_one_int [OF i] v)
  moreover have "parseCommandArgs (nat_dec n) [(k, Kind K_float)] = Inl (Not_number k)"
    by (simp add: parseCommandArgs_def tokenize_integer [OF i] normalizeSpec_def coerceToken_def v is_finite_def)
  ultimately show ?thesis by blast
qed

lemma int_arg_infinite_witness:
  "parseCommandArgs (nat_dec (2 ^ 1024)) [(''n'', Kind K_int)] = Inr [(''n'', V_number (DInf False))] \<and>
   parseCommandArgs (nat_dec (2 ^ 1024)) [(''n'', Kind K_float)] = Inl (Not_number ''n'')"
  using int_arg_infinite [of "2 ^ 1024"] by blast

end
