(* ===== verification/Filters.thy ===== *)
theory Filters
  imports Commands Command_Args
begin

text \<open>
  Filters (\<^verbatim>\<open>src/filters.ts\<close>): predicates over the context of an update that may write to it.
  The context is a record of the fields the filters read and write; the power level, the
  membership and the encryption state of the room are what the room cache answers. The match
  of a regular expression is a parameter.
\<close>

section \<open>Contexts\<close>

datatype ('d, 'm) data_value = D_args "(string, 'd arg_value) jsmap" | D_match 'm

record ('d, 'm) fctx =
  fc_text :: string
  fc_html :: "string option"
  fc_msgtype :: string
  fc_attachment :: bool
  fc_replyToEventId :: "string option"
  fc_threadRootId :: "string option"
  fc_isEdit :: bool
  fc_mentionIds :: "string list"
  fc_mentionRoom :: bool
  fc_isDirect :: bool
  fc_roomId :: string
  fc_senderId :: string
  fc_selfId :: string
  fc_powerLevel :: jsnum
  fc_roomEncrypted :: "bool option"
  fc_senderMembership :: "membership option"
  fc_key :: string
  fc_targetEventId :: string
  fc_callbackData :: string
  fc_appId :: string
  fc_payload :: json
  fc_membership :: membership
  fc_previousMembership :: "membership option"
  fc_isSelf :: bool
  fc_command :: "command_object option"
  fc_commandName :: string
  fc_commandArgs :: string
  fc_data :: "(string, ('d, 'm) data_value) jsmap"

text \<open>A filter answers or throws, and returns the context it may have written to.\<close>

type_synonym ('s, 'e) filter_fn = "'s \<Rightarrow> ('e + bool) \<times> 's"

definition plain_filter :: "('s \<Rightarrow> bool) \<Rightarrow> ('s, 'e) filter_fn" where
  "plain_filter p s = (Inr (p s), s)"

section \<open>Combinators\<close>

fun filter_and :: "('s, 'e) filter_fn list \<Rightarrow> ('s, 'e) filter_fn" where
  "filter_and [] s = (Inr True, s)"
| "filter_and (f # fs) s =
     (case f s of
        (Inl e, s1) \<Rightarrow> (Inl e, s1)
      | (Inr b, s1) \<Rightarrow> if \<not> b then (Inr False, s1) else filter_and fs s1)"

fun filter_or :: "('s, 'e) filter_fn list \<Rightarrow> ('s, 'e) filter_fn" where
  "filter_or [] s = (Inr False, s)"
| "filter_or (f # fs) s =
     (case f s of
        (Inl e, s1) \<Rightarrow> (Inl e, s1)
      | (Inr b, s1) \<Rightarrow> if b then (Inr True, s1) else filter_or fs s1)"

definition filter_not :: "('s, 'e) filter_fn \<Rightarrow> ('s, 'e) filter_fn" where
  "filter_not f s = (case f s of (Inl e, s1) \<Rightarrow> (Inl e, s1) | (Inr b, s1) \<Rightarrow> (Inr (\<not> b), s1))"

definition magic :: "('s, 'e) filter_fn list \<Rightarrow> ('s, 'e) filter_fn" where
  "magic fs = filter_and fs"

definition magic_and :: "('s, 'e) filter_fn list \<Rightarrow> ('s, 'e) filter_fn list \<Rightarrow> ('s, 'e) filter_fn" where
  "magic_and fs gs = filter_and (magic fs # gs)"

definition magic_or :: "('s, 'e) filter_fn list \<Rightarrow> ('s, 'e) filter_fn list \<Rightarrow> ('s, 'e) filter_fn" where
  "magic_or fs gs = filter_or (magic fs # gs)"

section \<open>The command filter\<close>

datatype bare = Bare_yes | Bare_no | Bare_direct

record 'd command_opts =
  cm_prefixes :: "string list option"
  cm_allowBare :: "bare option"
  cm_requireMention :: bool
  cm_argsSchema :: "(string \<times> 'd schema_entry) list option"
  cm_description :: "string option"
  cm_args :: "string option"
  cm_hidden :: bool
  cm_minPowerLevel :: "jsnum option"
  cm_scope :: "scope option"
  cm_category :: "string option"

definition localpartOf :: "string \<Rightarrow> string" where
  "localpartOf userId = js_lower (local_name userId)"

definition bot_names :: "string \<Rightarrow> string list" where
  "bot_names selfId = filter (\<lambda>n. n \<noteq> []) [selfId, localpartOf selfId]"

definition allow_bare :: "'d command_opts \<Rightarrow> bool \<Rightarrow> bool" where
  "allow_bare opts direct = (cm_allowBare opts = Some Bare_yes \<or> (cm_allowBare opts \<noteq> Some Bare_no \<and> direct))"

text \<open>The checks before anything is written to the context.\<close>

definition command_accepts ::
  "string list \<Rightarrow> 'd command_opts \<Rightarrow> ('d, 'm) fctx \<Rightarrow> command_object option" where
  "command_accepts names opts ctx =
     (if fc_text ctx = [] then None
      else
        (case parseCommand (fc_text ctx)
            \<lparr>po_prefixes = Some (case cm_prefixes opts of Some ps \<Rightarrow> ps | None \<Rightarrow> DEFAULT_COMMAND_PREFIXES),
             po_allowBare = Some (allow_bare opts (fc_isDirect ctx)), po_botNames = Some (bot_names (fc_selfId ctx))\<rparr> of
           None \<Rightarrow> None
         | Some parsed \<Rightarrow>
             if co_command parsed \<notin> set names then None
             else if given (co_mention parsed) \<and> localpartOf (fc_selfId ctx) \<noteq> [] \<and>
                     localpartOf (text_or (co_mention parsed) []) \<noteq> localpartOf (fc_selfId ctx) then None
             else if cm_requireMention opts \<and> \<not> fc_isDirect ctx \<and> \<not> given (co_mention parsed) \<and>
                     fc_selfId ctx \<notin> set (fc_mentionIds ctx) then None
             else if cm_scope opts = Some Scope_direct \<and> \<not> fc_isDirect ctx then None
             else if cm_scope opts = Some Scope_group \<and> fc_isDirect ctx then None
             else if (case cm_minPowerLevel opts of Some n \<Rightarrow> \<not> jsnum_ge (fc_powerLevel ctx) n | None \<Rightarrow> False) then None
             else Some parsed))"

definition command_names :: "string list \<Rightarrow> string list" where
  "command_names name = map normalizeCommandName name"

definition Command :: "string list \<Rightarrow> 'd command_opts \<Rightarrow> (('d, 'm) fctx, 'e) filter_fn" where
  "Command name opts ctx =
     (case command_accepts (command_names name) opts ctx of
        None \<Rightarrow> (Inr False, ctx)
      | Some parsed \<Rightarrow>
          (let ctx1 = ctx\<lparr>fc_command := Some parsed, fc_commandName := co_command parsed,
                          fc_commandArgs := co_args parsed\<rparr>
           in case cm_argsSchema opts of
                None \<Rightarrow> (Inr True, ctx1)
              | Some schema \<Rightarrow>
                  (case parseCommandArgs (co_args parsed) schema of
                     Inl _ \<Rightarrow> (Inr False, ctx1)
                   | Inr typed \<Rightarrow>
                       (Inr True, ctx1\<lparr>fc_data := jm_set ''commandArgs'' (D_args typed)
                                                    (jm_set ''args'' (D_args typed) (fc_data ctx1))\<rparr>))))"

definition given_text :: "string option \<Rightarrow> string option" where
  "given_text x = (if given x then x else None)"

definition Command_spec :: "string list \<Rightarrow> 'd command_opts \<Rightarrow> cmd_spec" where
  "Command_spec name opts =
     (let names = command_names name
      in \<lparr>cs_name = (case names of n # _ \<Rightarrow> n | [] \<Rightarrow> []),
          cs_aliases = (if drop 1 names \<noteq> [] then Some (drop 1 names) else None),
          cs_description = given_text (cm_description opts), cs_args = given_text (cm_args opts),
          cs_hidden = cm_hidden opts, cs_minPowerLevel = cm_minPowerLevel opts,
          cs_scope = cm_scope opts, cs_category = given_text (cm_category opts)\<rparr>)"

definition default_description :: "string \<Rightarrow> 'd command_opts \<Rightarrow> 'd command_opts" where
  "default_description d opts =
     (case cm_description opts of None \<Rightarrow> opts\<lparr>cm_description := Some d\<rparr> | Some _ \<Rightarrow> opts)"

definition CommandStart :: "'d command_opts \<Rightarrow> (('d, 'm) fctx, 'e) filter_fn" where
  "CommandStart opts = Command [''start''] (default_description ''Start the bot'' opts)"

definition CommandHelp :: "'d command_opts \<Rightarrow> (('d, 'm) fctx, 'e) filter_fn" where
  "CommandHelp opts = Command [''help''] (default_description ''Show available commands'' opts)"

section \<open>Text\<close>

definition fold_text :: "string \<Rightarrow> bool option \<Rightarrow> string" where
  "fold_text value ignoreCase = (if ignoreCase = Some False then value else js_lower value)"

definition text_present :: "('d, 'm) fctx \<Rightarrow> bool" where
  "text_present ctx = (js_trim (fc_text ctx) \<noteq> [])"

definition text_equals :: "string \<Rightarrow> bool option \<Rightarrow> ('d, 'm) fctx \<Rightarrow> bool" where
  "text_equals value ic ctx = (fold_text (fc_text ctx) ic = fold_text value ic)"

definition text_contains :: "string \<Rightarrow> bool option \<Rightarrow> ('d, 'm) fctx \<Rightarrow> bool" where
  "text_contains value ic ctx = js_includes (fold_text (fc_text ctx) ic) (fold_text value ic)"

definition text_startsWith :: "string \<Rightarrow> bool option \<Rightarrow> ('d, 'm) fctx \<Rightarrow> bool" where
  "text_startsWith value ic ctx = js_starts_with (fold_text (fc_text ctx) ic) (fold_text value ic)"

definition text_endsWith :: "string \<Rightarrow> bool option \<Rightarrow> ('d, 'm) fctx \<Rightarrow> bool" where
  "text_endsWith value ic ctx = js_ends_with (fold_text (fc_text ctx) ic) (fold_text value ic)"

definition text_in :: "string list \<Rightarrow> bool option \<Rightarrow> ('d, 'm) fctx \<Rightarrow> bool" where
  "text_in values ic ctx = (fold_text (fc_text ctx) ic \<in> set (map (\<lambda>v. fold_text v ic) values))"

definition text_len :: "(nat \<Rightarrow> bool) \<Rightarrow> ('d, 'm) fctx \<Rightarrow> bool" where
  "text_len predicate ctx = predicate (length (fc_text ctx))"

text \<open>
  A regular expression object: whether it is global or sticky, and its \<open>lastIndex\<close>. The
  parameter \<open>exec_at\<close> gives the match at or after a position and where it ends.
\<close>

record pattern =
  rx_stateful :: bool
  rx_lastIndex :: nat

definition rx_exec :: "(nat \<Rightarrow> string \<Rightarrow> (nat \<times> 'm) option) \<Rightarrow> string \<Rightarrow> pattern \<Rightarrow> 'm option \<times> pattern" where
  "rx_exec exec_at text p =
     (if rx_stateful p then
        (case (if rx_lastIndex p \<le> length text then exec_at (rx_lastIndex p) text else None) of
           None \<Rightarrow> (None, p\<lparr>rx_lastIndex := 0\<rparr>)
         | Some (stop, m) \<Rightarrow> (Some m, p\<lparr>rx_lastIndex := stop\<rparr>))
      else (map_option snd (exec_at 0 text), p))"

definition match_filter ::
  "(nat \<Rightarrow> string \<Rightarrow> (nat \<times> 'm) option) \<Rightarrow> (('d, 'm) fctx \<Rightarrow> string) \<Rightarrow> pattern \<times> ('d, 'm) fctx \<Rightarrow>
     bool \<times> pattern \<times> ('d, 'm) fctx" where
  "match_filter exec_at field s =
     (let p0 = (if rx_stateful (fst s) then (fst s)\<lparr>rx_lastIndex := 0\<rparr> else fst s);
          (m, p1) = rx_exec exec_at (field (snd s)) p0
      in case m of
           None \<Rightarrow> (False, p1, snd s)
         | Some v \<Rightarrow> (True, p1, (snd s)\<lparr>fc_data := jm_set ''match'' (D_match v) (fc_data (snd s))\<rparr>))"

definition text_regexp where "text_regexp exec_at = match_filter exec_at fc_text"
definition callback_regexp where "callback_regexp exec_at = match_filter exec_at fc_callbackData"

section \<open>Mentions\<close>

definition mentionMatches :: "('d, 'm) fctx \<Rightarrow> string \<Rightarrow> bool" where
  "mentionMatches ctx name =
     (let needle = js_lower (js_trim name);
          local = (if localpartOf needle \<noteq> [] then localpartOf needle else needle);
          body = js_lower (fc_text ctx);
          formatted = js_lower (text_or (fc_html ctx) [])
      in if needle = [] then False
         else if list_ex (\<lambda>i. js_lower i = needle) (fc_mentionIds ctx) then True
         else if js_includes body needle \<or> js_includes body (CHR ''@'' # local) then True
         else js_includes formatted needle \<or> js_includes formatted (CHR ''@'' # local))"

definition mentionsMe :: "('d, 'm) fctx \<Rightarrow> bool" where
  "mentionsMe ctx =
     (if fc_selfId ctx \<in> set (fc_mentionIds ctx) then True
      else if fc_mentionRoom ctx then True
      else mentionMatches ctx (fc_selfId ctx))"

section \<open>The namespace F\<close>

definition F_html :: "('d, 'm) fctx \<Rightarrow> bool" where "F_html ctx = (fc_html ctx \<noteq> None)"
definition F_msgtype :: "string list \<Rightarrow> ('d, 'm) fctx \<Rightarrow> bool" where "F_msgtype ts ctx = (fc_msgtype ctx \<in> set ts)"
definition F_image :: "('d, 'm) fctx \<Rightarrow> bool" where "F_image ctx = (fc_msgtype ctx = ''m.image'')"
definition F_video :: "('d, 'm) fctx \<Rightarrow> bool" where "F_video ctx = (fc_msgtype ctx = ''m.video'')"
definition F_audio :: "('d, 'm) fctx \<Rightarrow> bool" where "F_audio ctx = (fc_msgtype ctx = ''m.audio'')"
definition F_file :: "('d, 'm) fctx \<Rightarrow> bool" where "F_file ctx = (fc_msgtype ctx = ''m.file'')"
definition F_location :: "('d, 'm) fctx \<Rightarrow> bool" where "F_location ctx = (fc_msgtype ctx = ''m.location'')"
definition F_emote :: "('d, 'm) fctx \<Rightarrow> bool" where "F_emote ctx = (fc_msgtype ctx = ''m.emote'')"
definition F_notice :: "('d, 'm) fctx \<Rightarrow> bool" where "F_notice ctx = (fc_msgtype ctx = ''m.notice'')"
definition F_hasAttachment :: "('d, 'm) fctx \<Rightarrow> bool" where "F_hasAttachment ctx = fc_attachment ctx"
definition F_reply :: "('d, 'm) fctx \<Rightarrow> bool" where "F_reply ctx = (fc_replyToEventId ctx \<noteq> None)"
definition F_thread :: "('d, 'm) fctx \<Rightarrow> bool" where "F_thread ctx = (fc_threadRootId ctx \<noteq> None)"
definition F_edited :: "('d, 'm) fctx \<Rightarrow> bool" where "F_edited ctx = fc_isEdit ctx"
definition F_mention :: "string \<Rightarrow> ('d, 'm) fctx \<Rightarrow> bool" where "F_mention name ctx = mentionMatches ctx name"

definition room_dm :: "('d, 'm) fctx \<Rightarrow> bool" where "room_dm ctx = fc_isDirect ctx"
definition room_group :: "('d, 'm) fctx \<Rightarrow> bool" where "room_group ctx = (\<not> fc_isDirect ctx)"
definition room_is :: "string \<Rightarrow> ('d, 'm) fctx \<Rightarrow> bool" where "room_is r ctx = (fc_roomId ctx = r)"
definition room_in :: "string list \<Rightarrow> ('d, 'm) fctx \<Rightarrow> bool" where "room_in rs ctx = (fc_roomId ctx \<in> set rs)"
definition room_is_encrypted :: "('d, 'm) fctx \<Rightarrow> bool" where "room_is_encrypted ctx = (fc_roomEncrypted ctx = Some True)"

definition from_user :: "string \<Rightarrow> ('d, 'm) fctx \<Rightarrow> bool" where "from_user u ctx = (fc_senderId ctx = u)"
definition from_users :: "string list \<Rightarrow> ('d, 'm) fctx \<Rightarrow> bool" where "from_users us ctx = (fc_senderId ctx \<in> set us)"

definition from_server :: "string \<Rightarrow> ('d, 'm) fctx \<Rightarrow> bool" where
  "from_server serverName ctx =
     (let lowered = js_lower serverName;
          needle = (if js_starts_with lowered '':'' then drop 1 lowered else lowered)
      in js_lower (second_piece (fc_senderId ctx)) = needle)"

definition from_self :: "('d, 'm) fctx \<Rightarrow> bool" where "from_self ctx = (fc_senderId ctx = fc_selfId ctx)"

definition hasPower :: "jsnum \<Rightarrow> ('d, 'm) fctx \<Rightarrow> bool" where "hasPower level ctx = jsnum_ge (fc_powerLevel ctx) level"
definition isModerator :: "('d, 'm) fctx \<Rightarrow> bool" where "isModerator ctx = jsnum_ge (fc_powerLevel ctx) (Fin 50)"
definition isAdmin :: "('d, 'm) fctx \<Rightarrow> bool" where "isAdmin ctx = jsnum_ge (fc_powerLevel ctx) (Fin 100)"

definition reaction_key :: "string list \<Rightarrow> ('d, 'm) fctx \<Rightarrow> bool" where "reaction_key ks ctx = (fc_key ctx \<in> set ks)"
definition reaction_on :: "string \<Rightarrow> ('d, 'm) fctx \<Rightarrow> bool" where "reaction_on e ctx = (fc_targetEventId ctx = e)"
definition callback_data :: "string list \<Rightarrow> ('d, 'm) fctx \<Rightarrow> bool" where "callback_data vs ctx = (fc_callbackData ctx \<in> set vs)"
definition callback_equals :: "string \<Rightarrow> ('d, 'm) fctx \<Rightarrow> bool" where "callback_equals v ctx = (fc_callbackData ctx = v)"
definition callback_startsWith :: "string \<Rightarrow> ('d, 'm) fctx \<Rightarrow> bool" where
  "callback_startsWith p ctx = js_starts_with (fc_callbackData ctx) p"

definition miniApp_app :: "string \<Rightarrow> ('d, 'm) fctx \<Rightarrow> bool" where "miniApp_app a ctx = (fc_appId ctx = a)"

text \<open>
  A payload field. A value given is compared with \<open>===\<close>: two objects or arrays are different
  objects, so they never compare equal.
\<close>

definition strictly_equal :: "json \<Rightarrow> json \<Rightarrow> bool" where
  "strictly_equal a b = (case a of JArr _ \<Rightarrow> False | JObj _ \<Rightarrow> False | _ \<Rightarrow> a = b)"

definition miniApp_field :: "string \<Rightarrow> json option \<Rightarrow> ('d, 'm) fctx \<Rightarrow> bool" where
  "miniApp_field field value ctx =
     (case fc_payload ctx of
        JObj o' \<Rightarrow>
          (case value of
             None \<Rightarrow> map_of o' field \<noteq> None
           | Some v \<Rightarrow> (case map_of o' field of Some w \<Rightarrow> strictly_equal w v | None \<Rightarrow> False))
      | _ \<Rightarrow> False)"

definition payload_string :: "(string \<times> json) list \<Rightarrow> string \<Rightarrow> string option" where
  "payload_string o' k = (case map_of o' k of Some (JStr s) \<Rightarrow> Some s | _ \<Rightarrow> None)"

definition miniApp_action :: "string list \<Rightarrow> ('d, 'm) fctx \<Rightarrow> bool" where
  "miniApp_action actions ctx =
     (case fc_payload ctx of
        JObj o' \<Rightarrow>
          (case (case payload_string o' ''action'' of Some s \<Rightarrow> Some s | None \<Rightarrow> payload_string o' ''type'') of
             Some a \<Rightarrow> a \<in> set actions
           | None \<Rightarrow> False)
      | _ \<Rightarrow> False)"

definition miniApp_hasPower :: "jsnum \<Rightarrow> ('d, 'm) fctx \<Rightarrow> bool" where
  "miniApp_hasPower level ctx = jsnum_ge (fc_powerLevel ctx) level"

definition miniApp_joined :: "('d, 'm) fctx \<Rightarrow> bool" where
  "miniApp_joined ctx = (fc_senderMembership ctx = Some M_join)"

definition membership_is :: "membership list \<Rightarrow> ('d, 'm) fctx \<Rightarrow> bool" where "membership_is ms ctx = (fc_membership ctx \<in> set ms)"
definition membership_joined :: "('d, 'm) fctx \<Rightarrow> bool" where
  "membership_joined ctx = (fc_membership ctx = M_join \<and> fc_previousMembership ctx \<noteq> Some M_join)"
definition membership_left :: "('d, 'm) fctx \<Rightarrow> bool" where "membership_left ctx = (fc_membership ctx = M_leave)"
definition membership_banned :: "('d, 'm) fctx \<Rightarrow> bool" where "membership_banned ctx = (fc_membership ctx = M_ban)"
definition membership_invited :: "('d, 'm) fctx \<Rightarrow> bool" where "membership_invited ctx = (fc_membership ctx = M_invite)"
definition membership_isSelf :: "('d, 'm) fctx \<Rightarrow> bool" where "membership_isSelf ctx = fc_isSelf ctx"

section \<open>Combinators: laws\<close>

text \<open>
  De Morgan, with effects and errors: refusing a conjunction runs the same filters in the
  same order as the disjunction of the refusals, stops at the same one, and leaves the
  same context.
\<close>

theorem filters_de_morgan: "filter_not (filter_and fs) s = filter_or (map filter_not fs) s"
proof (induction fs arbitrary: s)
  case (Cons f fs)
  obtain r s1 where f: "f s = (r, s1)" by fastforce
  with Cons [of s1] show ?case by (cases r) (simp_all add: filter_not_def)
qed (simp add: filter_not_def)

text \<open>A conjunction of pure filters is the conjunction, and changes nothing.\<close>

lemma pure_and: "filter_and (map plain_filter ps) s = (Inr (\<forall>p \<in> set ps. p s), s)"
  by (induction ps) (simp_all add: plain_filter_def)

lemma pure_or: "filter_or (map plain_filter ps) s = (Inr (\<exists>p \<in> set ps. p s), s)"
  by (induction ps) (simp_all add: plain_filter_def)

lemma filter_and_append:
  "filter_and (fs @ gs) s =
     (case filter_and fs s of (Inr True, s1) \<Rightarrow> filter_and gs s1 | r \<Rightarrow> r)"
proof (induction fs arbitrary: s)
  case (Cons f fs)
  obtain r s1 where f: "f s = (r, s1)" by fastforce
  with Cons [of s1] show ?case by (cases r) simp_all
qed simp

lemma magic_and_flat: "magic_and fs gs s = filter_and (fs @ gs) s"
proof -
  obtain r s1 where f: "filter_and fs s = (r, s1)" by fastforce
  then show ?thesis by (cases r) (simp_all add: magic_and_def magic_def filter_and_append)
qed

text \<open>
  A regular expression with state stays reusable: what a match filter answers does not depend
  on the \<open>lastIndex\<close> that earlier uses left behind.
\<close>

lemma match_filter_stateless:
  "fst (match_filter exec_at field (p, ctx)) = fst (match_filter exec_at field (p\<lparr>rx_lastIndex := n\<rparr>, ctx)) \<and>
   snd (snd (match_filter exec_at field (p, ctx))) = snd (snd (match_filter exec_at field (p\<lparr>rx_lastIndex := n\<rparr>, ctx)))"
  by (cases "rx_stateful p"; cases "exec_at 0 (field ctx)") (auto simp: match_filter_def rx_exec_def Let_def)

section \<open>What a matched command guarantees\<close>

definition command_granted :: "string list \<Rightarrow> 'd command_opts \<Rightarrow> ('d, 'm) fctx \<Rightarrow> ('d, 'm) fctx \<Rightarrow> bool" where
  "command_granted name opts ctx ctx' \<longleftrightarrow>
     (\<exists>c. fc_command ctx' = Some c \<and> command_ok c \<and> co_command c \<in> set (command_names name) \<and>
        (cm_scope opts = Some Scope_direct \<longrightarrow> fc_isDirect ctx) \<and>
        (cm_scope opts = Some Scope_group \<longrightarrow> \<not> fc_isDirect ctx) \<and>
        (\<forall>n. cm_minPowerLevel opts = Some n \<longrightarrow> jsnum_ge (fc_powerLevel ctx) n) \<and>
        (\<forall>m. co_mention c = Some m \<and> m \<noteq> [] \<and> localpartOf (fc_selfId ctx) \<noteq> [] \<longrightarrow>
           localpartOf m = localpartOf (fc_selfId ctx)) \<and>
        (cm_requireMention opts \<and> \<not> fc_isDirect ctx \<longrightarrow>
           given (co_mention c) \<or> fc_selfId ctx \<in> set (fc_mentionIds ctx)) \<and>
        (\<forall>schema. cm_argsSchema opts = Some schema \<longrightarrow>
           (\<exists>typed. parseCommandArgs (co_args c) schema = Inr typed \<and>
              jm_get (fc_data ctx') ''args'' = Some (D_args typed))))"

lemma accepts_facts:
  assumes "command_accepts names opts ctx = Some c"
  shows "command_ok c" and "co_command c \<in> set names"
    and "cm_scope opts = Some Scope_direct \<Longrightarrow> fc_isDirect ctx"
    and "cm_scope opts = Some Scope_group \<Longrightarrow> \<not> fc_isDirect ctx"
    and "cm_minPowerLevel opts = Some n \<Longrightarrow> jsnum_ge (fc_powerLevel ctx) n"
    and "co_mention c = Some m \<Longrightarrow> m \<noteq> [] \<Longrightarrow> localpartOf (fc_selfId ctx) \<noteq> [] \<Longrightarrow>
      localpartOf m = localpartOf (fc_selfId ctx)"
    and "cm_requireMention opts \<Longrightarrow> \<not> fc_isDirect ctx \<Longrightarrow> given (co_mention c) \<or> fc_selfId ctx \<in> set (fc_mentionIds ctx)"
  using assms parsed_command_ok
  by (auto simp: command_accepts_def given_def text_or_def split: if_splits option.splits)

text \<open>
  When a command filter accepts, the text is a command with one of its names, in a room of its scope,
  from a sender with the power it asks for, not addressed at another bot, addressed at
  this one when a mention is required in a group; and the context holds the command and
  the arguments typed by the schema.
\<close>

theorem command_filter_sound:
  assumes "Command name opts ctx = (Inr True, ctx')"
  shows "command_granted name opts ctx ctx'"
proof -
  from assms obtain c where c: "command_accepts (command_names name) opts ctx = Some c"
    by (cases "command_accepts (command_names name) opts ctx") (auto simp: Command_def)
  have args: "\<exists>typed. parseCommandArgs (co_args c) schema = Inr typed \<and> jm_get (fc_data ctx') ''args'' = Some (D_args typed)"
    if "cm_argsSchema opts = Some schema" for schema
    using assms that by (auto simp: Command_def c Let_def jsmap_simps split: sum.splits)
  have "fc_command ctx' = Some c"
    using assms by (auto simp: Command_def c Let_def split: option.splits sum.splits)
  with accepts_facts [OF c] args show ?thesis unfolding command_granted_def by (intro exI [of _ c]) blast
qed

definition demo_ctx :: "string \<Rightarrow> bool \<Rightarrow> (int, unit) fctx" where
  "demo_ctx text direct =
     \<lparr>fc_text = text, fc_html = None, fc_msgtype = ''m.text'', fc_attachment = False, fc_replyToEventId = None,
      fc_threadRootId = None, fc_isEdit = False, fc_mentionIds = [], fc_mentionRoom = False, fc_isDirect = direct,
      fc_roomId = ''!r:hs'', fc_senderId = ''@eve:hs'', fc_selfId = ''@bot:hs'', fc_powerLevel = Fin 50,
      fc_roomEncrypted = None, fc_senderMembership = Some M_join, fc_key = [], fc_targetEventId = [],
      fc_callbackData = [], fc_appId = [], fc_payload = JNull, fc_membership = M_join,
      fc_previousMembership = None, fc_isSelf = False, fc_command = None, fc_commandName = [],
      fc_commandArgs = [], fc_data = []\<rparr>"

definition demo_cmd :: "int command_opts" where
  "demo_cmd = \<lparr>cm_prefixes = None, cm_allowBare = None, cm_requireMention = True, cm_argsSchema = None,
     cm_description = None, cm_args = None, cm_hidden = False, cm_minPowerLevel = Some (Fin 50),
     cm_scope = Some Scope_group, cm_category = None\<rparr>"

definition demo_parsed_kick :: command_object where
  "demo_parsed_kick = \<lparr>co_prefix = ''/'', co_command = ''kick'', co_raw = ''kick@bot'', co_args = ''mallory'',
     co_argsList = [''mallory''], co_mention = Some ''bot''\<rparr>"

lemma command_filter_sound_witness:
  "command_granted [''kick''] demo_cmd (demo_ctx ''/kick@bot mallory'' False)
     ((demo_ctx ''/kick@bot mallory'' False)\<lparr>fc_command := Some demo_parsed_kick, fc_commandName := ''kick'',
        fc_commandArgs := ''mallory''\<rparr>)"
proof -
  have "command_accepts (command_names [''kick'']) demo_cmd (demo_ctx ''/kick@bot mallory'' False) = Some demo_parsed_kick"
    by code_simp
  then have "(Command [''kick''] demo_cmd :: ((int, unit) fctx, unit) filter_fn) (demo_ctx ''/kick@bot mallory'' False) =
     (Inr True, (demo_ctx ''/kick@bot mallory'' False)\<lparr>fc_command := Some demo_parsed_kick, fc_commandName := ''kick'',
        fc_commandArgs := ''mallory''\<rparr>)"
    by (simp add: Command_def) (simp add: demo_parsed_kick_def demo_cmd_def)
  then show ?thesis by (rule command_filter_sound)
qed

section \<open>Divergences\<close>

lemma mention_suffix: "mention_of s = Some m \<Longrightarrow> CHR ''@'' \<in> set s"
  by (induction s) (auto split: if_splits)

lemma candidates_subset: "strip_candidates body cs = Some r \<Longrightarrow> set r \<subseteq> set body"
proof (induction cs)
  case (Cons c cs)
  have "after_separator (drop (length c) body) = Some u \<Longrightarrow> set u \<subseteq> set body" for u
  proof -
    assume a: "after_separator (drop (length c) body) = Some u"
    have sub: "set (dropWhile js_space t) \<subseteq> set t" for t by (auto dest: set_dropWhileD)
    let ?r = "dropWhile js_space (drop (length c) body)"
    have "u = ?r \<or> (\<exists>d t. ?r = d # t \<and> u = dropWhile js_space t)"
      using a by (auto simp: after_separator_def Let_def split: list.splits if_splits option.splits)
    then have "set u \<subseteq> set ?r" using sub by fastforce
    also have "\<dots> \<subseteq> set (drop (length c) body)" by (rule sub)
    also have "\<dots> \<subseteq> set body" by (rule set_drop_subset)
    finally show ?thesis .
  qed
  with Cons show ?case by (auto split: if_splits option.splits)
qed simp

lemma trim_subset: "set (js_trim s) \<subseteq> set s"
  by (auto simp: js_trim_def dest!: set_dropWhileD)

lemma strip_address_subset: "set (strip_address ns body) \<subseteq> set body"
proof (induction ns)
  case (Cons n ns)
  have "stripAddressPrefix body n = Some r \<Longrightarrow> set (js_trim r) \<subseteq> set body" for r
    using candidates_subset trim_subset by (fastforce simp: stripAddressPrefix_def Let_def split: if_splits)
  with Cons show ?case by (auto split: option.split)
qed simp

lemma parsed_raw_subset:
  assumes "parseCommand body opts = Some c"
  shows "set (co_raw c) \<subseteq> set body" and "co_mention c = mention_of (co_raw c)"
proof -
  define t where "t = strip_address (case po_botNames opts of Some ns \<Rightarrow> ns | None \<Rightarrow> []) (js_trim body)"
  have "set t \<subseteq> set (js_trim body)" unfolding t_def by (rule strip_address_subset)
  with trim_subset have t: "set t \<subseteq> set body" by blast
  have f: "set (fst (splitFirstToken t)) \<subseteq> set t"
    by (auto simp: splitFirstToken_def dest: set_takeWhileD split: list.splits)
  have "set (co_raw c) \<subseteq> set (fst (splitFirstToken t)) \<and> co_mention c = mention_of (co_raw c)"
    using assms by (auto simp: parseCommand_def t_def [symmetric] Let_def buildCommandObject_def
        split: if_splits option.splits prod.splits dest: in_set_dropD)
  with t f show "set (co_raw c) \<subseteq> set body" and "co_mention c = mention_of (co_raw c)" by blast+
qed

text \<open>
  A filter that requires a mention does not recognise an address in front of the command:
  in a group, a text without an at sign from a client that sends no mention list is
  refused, however it names the bot.
\<close>

theorem require_mention_ignores_address:
  assumes "cm_requireMention opts" and "\<not> fc_isDirect ctx" and "fc_selfId ctx \<notin> set (fc_mentionIds ctx)"
    and "CHR ''@'' \<notin> set (fc_text ctx)"
  shows "Command name opts ctx = (Inr False, ctx)"
proof -
  have "command_accepts (command_names name) opts ctx = None"
  proof (rule ccontr)
    assume "command_accepts (command_names name) opts ctx \<noteq> None"
    then obtain c where c: "command_accepts (command_names name) opts ctx = Some c" by blast
    then obtain po where "parseCommand (fc_text ctx) po = Some c"
      by (auto simp: command_accepts_def split: if_splits option.splits)
    from parsed_raw_subset [OF this] mention_suffix [of "co_raw c"] assms(4) have "co_mention c = None"
      by (cases "mention_of (co_raw c)") auto
    with accepts_facts(7) [OF c assms(1,2)] assms(3) show False by (simp add: given_def)
  qed
  then show ?thesis by (simp add: Command_def)
qed

lemma require_mention_ignores_address_witness:
  "(Command [''kick''] demo_cmd :: ((int, unit) fctx, unit) filter_fn) (demo_ctx ''bot: /kick mallory'' False) =
     (Inr False, demo_ctx ''bot: /kick mallory'' False)"
  by (rule require_mention_ignores_address) (simp_all add: demo_cmd_def demo_ctx_def)

lemma js_includes_append: "js_includes (a @ p @ b) p"
proof (induction a)
  case Nil
  have "take (length p) (p @ b) = p" by simp
  then show ?case by (cases "p @ b") (simp_all del: take_append)
next
  case (Cons c a)
  then show ?case by simp
qed

text \<open>
  A bot is taken to be mentioned by every text in which its localpart follows an at
  sign, also as the beginning of another name.
\<close>

theorem mention_of_longer_name:
  assumes "localpartOf (js_lower (js_trim (fc_selfId ctx))) = l" and "l \<noteq> []" and "js_lower l = l"
    and "js_lower (fc_text ctx) = before @ CHR ''@'' # l @ after"
  shows "mentionsMe ctx"
proof -
  have "js_trim (fc_selfId ctx) \<noteq> []"
    using assms(1,2) by (auto simp: localpartOf_def local_name_def strip_at_sign_def js_lower_def js_starts_with_def)
  moreover have "js_includes (js_lower (fc_text ctx)) (CHR ''@'' # l)"
    using js_includes_append [of before "CHR ''@'' # l" after] assms(4) by simp
  ultimately show ?thesis using assms(1,2) by (simp add: mentionsMe_def mentionMatches_def Let_def js_lower_def)
qed

lemma mention_of_longer_name_witness: "mentionsMe (demo_ctx ''ask @bottle:hs'' False)"
  by (rule mention_of_longer_name [where l = "''bot''" and before = "''ask ''" and after = "''tle:hs''"]) code_simp+

text \<open>A server filter with a port in the name never matches.\<close>

lemma second_piece_no_colon: "CHR '':'' \<notin> set (second_piece s)"
  by (auto simp: second_piece_def split: list.split dest: set_takeWhileD)

lemma lower_colon: "CHR '':'' \<in> set (js_lower s) \<Longrightarrow> CHR '':'' \<in> set s"
proof -
  have "c = CHR '':''" if "js_lower_char c = CHR '':''" for c
  proof -
    have "(of_char (js_lower_char c) :: nat) = 58" using that by simp
    then have "(of_char c :: nat) = of_char (CHR '':'')" unfolding of_char_lower by (auto simp: Let_def split: if_splits)
    then show ?thesis by (simp only: of_char_eq_iff)
  qed
  then show "CHR '':'' \<in> set (js_lower s) \<Longrightarrow> CHR '':'' \<in> set s" by (force simp: js_lower_def)
qed

lemma from_server_port:
  assumes "CHR '':'' \<in> set (drop 1 serverName)"
  shows "\<not> from_server serverName ctx"
proof
  assume f: "from_server serverName ctx"
  have "CHR '':'' \<in> set (js_lower (drop 1 serverName))"
    using assms by (force simp: js_lower_def js_lower_char_def)
  then have "CHR '':'' \<in> set (drop 1 (js_lower serverName))" by (simp add: js_lower_def drop_map)
  moreover have "set (drop 1 (js_lower serverName)) \<subseteq> set (js_lower serverName)" by (rule set_drop_subset)
  ultimately have "CHR '':'' \<in> set (js_lower (second_piece (fc_senderId ctx)))"
    using f by (auto simp: from_server_def Let_def split: if_splits)
  with lower_colon second_piece_no_colon show False by blast
qed

end
