(* ===== verification/Plain_Body.thy ===== *)
theory Plain_Body
  imports Markdown
begin

text \<open>
  \<^verbatim>\<open>htmlToPlainBody\<close> of \<^verbatim>\<open>src/client.ts\<close>: the plain text derived from an HTML
  message. The bullet put in front of list items and the characters beyond those modelled
  (\<open>wide\<close>) are parameters. Every expression is given by what it matches at a position, as in
  \<^theory_text>\<open>Html\<close>.
\<close>

section \<open>Tags\<close>

abbreviation skip_space :: "string \<Rightarrow> string" where
  "skip_space \<equiv> dropWhile js_space"

text \<open>What remains after a text, whatever the case of its letters.\<close>

definition after_ci :: "string \<Rightarrow> string \<Rightarrow> string option" where
  "after_ci p s = (if map js_lower_char (take (length p) s) = p then Some (drop (length p) s) else None)"

text \<open>A match given by what is left of the text after it.\<close>

definition matched :: "string \<Rightarrow> string \<Rightarrow> string option \<Rightarrow> (string \<times> nat) option" where
  "matched r s rest = map_option (\<lambda>t. (r, length s - length t)) rest"

definition after_gt :: "string \<Rightarrow> string option" where
  "after_gt s = after_ci ''>'' (skip_space s)"

definition opt_slash :: "string \<Rightarrow> string" where
  "opt_slash s = (case after_ci ''/'' s of Some t \<Rightarrow> t | None \<Rightarrow> s)"

text \<open>\<open>/<\s*br\s*\/?\s*>/gi\<close>.\<close>

definition match_br :: "string \<Rightarrow> (string \<times> nat) option" where
  "match_br s =
     matched [CHR 10] s
       (Option.bind (after_ci ''<'' s) (\<lambda>a.
        Option.bind (after_ci ''br'' (skip_space a)) (\<lambda>b. after_gt (opt_slash (skip_space b)))))"

definition BLOCK_ENDS :: "string list" where
  "BLOCK_ENDS = [''p'', ''div'', ''li'', ''tr'', ''h1'', ''h2'', ''h3'', ''h4'', ''h5'', ''h6'']"

definition first_some :: "('a \<Rightarrow> 'b option) \<Rightarrow> 'a list \<Rightarrow> 'b option" where
  "first_some f xs = (case List.map_filter f xs of [] \<Rightarrow> None | y # _ \<Rightarrow> Some y)"

text \<open>\<open>/<\s*\/\s*(p|div|li|tr|h[1-6])\s*>/gi\<close>.\<close>

definition match_block_end :: "string \<Rightarrow> (string \<times> nat) option" where
  "match_block_end s =
     matched [CHR 10] s
       (Option.bind (after_ci ''<'' s) (\<lambda>a.
        Option.bind (after_ci ''/'' (skip_space a)) (\<lambda>b.
          first_some (\<lambda>n. Option.bind (after_ci n (skip_space b)) after_gt) BLOCK_ENDS)))"

text \<open>\<open>/<\s*li\s*>/gi\<close>.\<close>

definition match_li :: "string \<Rightarrow> string \<Rightarrow> (string \<times> nat) option" where
  "match_li bullet s =
     matched (bullet @ '' '') s
       (Option.bind (after_ci ''<'' s) (\<lambda>a. Option.bind (after_ci ''li'' (skip_space a)) after_gt))"

text \<open>\<open>/<[^>]*>/g\<close>.\<close>

definition match_any_tag :: "string \<Rightarrow> (string \<times> nat) option" where
  "match_any_tag s =
     matched [] s (Option.bind (after_ci ''<'' s) (\<lambda>a. after_ci ''>'' (dropWhile (\<lambda>c. c \<noteq> gt) a)))"

section \<open>Entities\<close>

text \<open>\<open>safeCodePoint\<close>; surrogates, which \<open>wide\<close> decides, are code points for JavaScript.\<close>

definition safeCodePoint :: "(nat \<Rightarrow> string) \<Rightarrow> nat \<Rightarrow> string" where
  "safeCodePoint wide n = (if n < 256 then [char_of n] else if 1114111 < n then [] else wide n)"

text \<open>\<open>/&#(\d+);/g\<close> and \<open>/&#x([0-9a-f]+);/gi\<close>.\<close>

definition match_dec_ref :: "(nat \<Rightarrow> string) \<Rightarrow> string \<Rightarrow> (string \<times> nat) option" where
  "match_dec_ref wide s =
     Option.bind (after_ci ''&#'' s) (\<lambda>t.
       let ds = takeWhile ascii_digit t
       in if ds = [] then None
          else matched (safeCodePoint wide (dec_value ds)) s (after_ci '';'' (dropWhile ascii_digit t)))"

definition match_hex_ref :: "(nat \<Rightarrow> string) \<Rightarrow> string \<Rightarrow> (string \<times> nat) option" where
  "match_hex_ref wide s =
     Option.bind (after_ci ''&#x'' s) (\<lambda>t.
       let ds = takeWhile is_hex t
       in if ds = [] then None
          else matched (safeCodePoint wide (hex_number ds)) s (after_ci '';'' (dropWhile is_hex t)))"

text \<open>
  \<open>HTML_ENTITIES[name.toLowerCase()]\<close>. The table is an object with the usual prototype, so
  the inherited property \<open>constructor\<close>, the only one spelled in lower case letters, is found
  too; as a replacement it is turned into its text.
\<close>

definition HTML_ENTITIES :: "string \<Rightarrow> string option" where
  "HTML_ENTITIES =
     map_of [(''nbsp'', '' ''), (''lt'', ''<''), (''gt'', ''>''), (''quot'', [dquote]), (''apos'', [squote]), (''amp'', ''&''),
       (''constructor'', ''function Object() { [native code] }'')]"

text \<open>\<open>/&([a-z]+);/gi\<close>.\<close>

definition match_named_ref :: "string \<Rightarrow> (string \<times> nat) option" where
  "match_named_ref s =
     Option.bind (after_ci ''&'' s) (\<lambda>t.
       let name = takeWhile ascii_alpha t
       in if name = [] then None
          else matched (case HTML_ENTITIES (map js_lower_char name) of Some r \<Rightarrow> r | None \<Rightarrow> ''&'' @ name @ '';'') s
                 (after_ci '';'' (dropWhile ascii_alpha t)))"

section \<open>Blanks\<close>

definition is_blank :: "char \<Rightarrow> bool" where
  "is_blank c = (c = CHR '' '' \<or> c = CHR 9)"

text \<open>\<open>/[ \t]+\n/g\<close> and \<open>/\n{3,}/g\<close>.\<close>

definition match_trailing :: "string \<Rightarrow> (string \<times> nat) option" where
  "match_trailing s =
     (if takeWhile is_blank s = [] then None
      else matched [CHR 10] s (after_ci [CHR 10] (dropWhile is_blank s)))"

definition match_gap :: "string \<Rightarrow> (string \<times> nat) option" where
  "match_gap s =
     (let n = length (takeWhile (\<lambda>c. c = CHR 10) s)
      in if n < 3 then None else Some ([CHR 10, CHR 10], n))"

definition tidy_plain :: "string \<Rightarrow> string" where
  "tidy_plain s = js_trim (replace_at match_gap 0 (replace_at match_trailing 0 s))"

definition decode_plain :: "(nat \<Rightarrow> string) \<Rightarrow> string \<Rightarrow> string" where
  "decode_plain wide s =
     replace_at match_named_ref 0 (replace_at (match_hex_ref wide) 0 (replace_at (match_dec_ref wide) 0 s))"

definition strip_tags :: "string \<Rightarrow> string \<Rightarrow> string" where
  "strip_tags bullet s =
     replace_at match_any_tag 0
       (replace_at (match_li bullet) 0 (replace_at match_block_end 0 (replace_at match_br 0 s)))"

definition htmlToPlainBody :: "string \<Rightarrow> (nat \<Rightarrow> string) \<Rightarrow> string \<Rightarrow> string" where
  "htmlToPlainBody bullet wide html = tidy_plain (decode_plain wide (strip_tags bullet html))"

section \<open>What is derived of an escaped text\<close>

lemma after_ci_Nil [simp]: "after_ci p [] = (if p = [] then Some [] else None)"
  by (simp add: after_ci_def)

lemma after_lt_absent [simp]: "lt \<notin> set s \<Longrightarrow> after_ci ''<'' s = None"
proof (cases s)
  case (Cons c t)
  moreover assume "lt \<notin> set s"
  moreover have "js_lower_char c = lt \<Longrightarrow> c = lt"
    by (auto simp: js_lower_char_def Let_def char_of_is split: if_splits)
  ultimately show ?thesis
    by (auto simp: after_ci_def)
qed simp

lemma strip_tags_absent: "lt \<notin> set s \<Longrightarrow> strip_tags bullet s = s"
  by (simp add: strip_tags_def replace_at_absent [where d = lt] match_br_def match_block_end_def match_li_def
      match_any_tag_def matched_def)

lemma plain_amp_matches: "amp_match (match_dec_ref wide)" "amp_match (match_hex_ref wide)" "amp_match match_named_ref"
  by (auto simp: amp_match_def match_dec_ref_def match_hex_ref_def match_named_ref_def after_ci_def js_lower_amp)

lemma dec_ref_pass: "block_pass (match_dec_ref wide) (escape_char c) (enc_step [squote] c)"
proof (cases c rule: escape_char_cases)
  case 5
  have "match_dec_ref wide (''&#39;'' @ s) = Some ([squote], 5)" for s
    by (simp add: match_dec_ref_def after_ci_def matched_def js_lower_char_def ascii_digit_def Let_def
        dec_value_def safeCodePoint_def char_of_is)
  with 5 show ?thesis by (intro block_pass_take) (simp_all add: enc_step_def)
qed (auto simp: enc_step_def plain_amp_matches match_dec_ref_def after_ci_def js_lower_char_def intro!: block_pass_keep)

lemma hex_ref_pass: "block_pass (match_hex_ref wide) (enc_step [squote] c) (enc_step [squote] c)"
  by (cases c rule: escape_char_cases)
    (auto simp: enc_step_def plain_amp_matches match_hex_ref_def after_ci_def js_lower_char_def numeral_eq_Suc
      intro!: block_pass_keep)

lemma alpha_letters:
  "ascii_alpha (CHR ''a'')" "ascii_alpha (CHR ''m'')" "ascii_alpha (CHR ''p'')" "ascii_alpha (CHR ''l'')"
  "ascii_alpha (CHR ''t'')" "ascii_alpha (CHR ''g'')" "ascii_alpha (CHR ''q'')" "ascii_alpha (CHR ''u'')"
  "ascii_alpha (CHR ''o'')" "\<not> ascii_alpha (CHR '';'')"
  by (simp_all add: ascii_alpha_def)

lemmas named_eval = alpha_letters match_named_ref_def after_ci_def matched_def js_lower_char_def HTML_ENTITIES_def Let_def

lemma named_ref:
  "match_named_ref (''&amp;'' @ s) = Some (''&'', 5)" "match_named_ref (''&lt;'' @ s) = Some (''<'', 4)"
  "match_named_ref (''&gt;'' @ s) = Some (''>'', 4)" "match_named_ref (''&quot;'' @ s) = Some ([dquote], 6)"
  by (simp_all add: named_eval)

lemma named_ref_pass: "block_pass match_named_ref (enc_step [squote] c) [c]"
proof (cases c rule: escape_char_cases)
  case 1
  then show ?thesis using named_ref by (intro block_pass_take) (simp_all add: enc_step_def)
next
  case 2
  then show ?thesis using named_ref by (intro block_pass_take) (simp_all add: enc_step_def)
next
  case 3
  then show ?thesis using named_ref by (intro block_pass_take) (simp_all add: enc_step_def)
next
  case 4
  then show ?thesis using named_ref by (intro block_pass_take) (simp_all add: enc_step_def)
qed (auto simp: enc_step_def plain_amp_matches intro!: block_pass_keep)

lemma decode_plain_escape: "decode_plain wide (escapeHtml s) = s"
proof -
  have "concat (map (\<lambda>c. [c]) s) = s" by (induction s) simp_all
  then show ?thesis
    by (simp add: decode_plain_def escapeHtml_one_pass replace_blocks [OF dec_ref_pass]
        replace_blocks [OF hex_ref_pass] replace_blocks [OF named_ref_pass])
qed

lemma escape_no_lt: "lt \<notin> set (escapeHtml s)"
  using escapeHtml_safe [of s] by (auto simp: html_special_def)

text \<open>
  The plain text derived of an escaped text is the text itself, but for blanks: decoding
  undoes the escaping exactly, whatever the text contains, and only blanks at the ends of
  lines and of the text and empty lines in excess are dropped.
\<close>

theorem plain_body_of_escaped: "htmlToPlainBody bullet wide (escapeHtml s) = tidy_plain s"
  by (simp add: htmlToPlainBody_def strip_tags_absent escape_no_lt decode_plain_escape)

text \<open>
  References are decoded in three passes, so what the first one produces can be decoded
  again: markup that shows the text \<open>&lt;\<close> (with the ampersand as a number) has the plain
  text \<open><\<close>. And the table of entities is looked up with the properties every object
  inherits, so \<open>&constructor;\<close> becomes the text of a function.
\<close>

theorem plain_body_decodes_twice:
  "htmlToPlainBody bullet wide ''&#38;lt;'' = ''<'' \<and> htmlToPlainBody bullet wide ''&amp;lt;'' = ''&lt;'' \<and>
   htmlToPlainBody bullet wide ''&constructor;'' = ''function Object() { [native code] }''"
  by code_simp

end
