(* ===== verification/Send.thy ===== *)
theory Send
  imports Plain_Body Capabilities Keyboards Callbacks Outbox Errors Miniapp_Events Http
begin

text \<open>
  \<^verbatim>\<open>src/send.ts\<close> with the schema warnings of \<^verbatim>\<open>src/content-validate.ts\<close>: building
  the content of a message, sending it with the outbox behind it, and editing a message. The
  registry of callback tokens is given by its operations (\<open>sender\<close>), so that both
  registries of \<^theory_text>\<open>Callbacks\<close> fit; the state of a sender (\<open>chat\<close>) is the registry, the
  outbox, and what was handed to the client. The client's answers are the environment.
\<close>

section \<open>Options, targets and the world of a send\<close>

text \<open>\<open>replyTo\<close> and \<open>thread\<close>: absent, a boolean, or an event id.\<close>

datatype ref_option = Ref_none | Ref_flag bool | Ref_id string

text \<open>\<open>keyboard\<close>: absent, \<open>null\<close>, or a keyboard.\<close>

datatype keyboard_option = Kb_absent | Kb_null | Kb keyboard

record mention_options =
  mo_userIds :: "string list"
  mo_room :: bool

record send_options =
  so_notice :: bool
  so_replyTo :: ref_option
  so_thread :: ref_option
  so_keyboard :: keyboard_option
  so_keyboardFallback :: "bool option"
  so_parseMode :: "parse_mode option"
  so_mentions :: "mention_options option"
  so_extra :: "(string \<times> json) list"
  so_idempotencyKey :: "string option"
  so_txnId :: "string option"

definition no_options :: send_options where
  "no_options = \<lparr>so_notice = False, so_replyTo = Ref_none, so_thread = Ref_none, so_keyboard = Kb_absent,
     so_keyboardFallback = None, so_parseMode = None, so_mentions = None, so_extra = [],
     so_idempotencyKey = None, so_txnId = None\<rparr>"

record message_source =
  ms_text :: "string option"
  ms_html :: "string option"

record send_target =
  st_roomId :: string
  st_triggerEventId :: "string option"
  st_threadRootId :: "string option"
  st_callbackUserId :: "string option"

text \<open>
  One call of the client: a room event or, with a state key, a state event. \<open>ch_drawn\<close>
  counts the random ids used, \<open>ch_calls\<close> and \<open>ch_warned\<close> record the calls and warnings.
\<close>

record client_call =
  cc_roomId :: string
  cc_type :: string
  cc_content :: json
  cc_txnId :: "string option"
  cc_stateKey :: "string option"

record 'r chat =
  ch_registry :: 'r
  ch_outbox :: "outbox_file option"
  ch_drawn :: nat
  ch_calls :: "client_call list"
  ch_warned :: "string list list"

record 'r sender =
  se_now :: int
  se_random :: "nat \<Rightarrow> string"
  se_answer :: "nat \<Rightarrow> (js_error, string) sum"
  se_event :: "string \<Rightarrow> json option"
  se_issue :: "string \<Rightarrow> issue_params \<Rightarrow> 'r \<Rightarrow> string \<times> 'r"
  se_fallbackOf :: "(string \<Rightarrow> 'r \<Rightarrow> string \<times> 'r) option"
  se_bind :: "string list \<Rightarrow> string \<Rightarrow> 'r \<Rightarrow> 'r"
  se_revokeFor :: "string \<Rightarrow> 'r \<Rightarrow> 'r"
  se_urls :: url_parser
  se_valid :: "string \<Rightarrow> bool"
  se_arrow :: string
  se_bullet :: string
  se_wide :: "nat \<Rightarrow> string"
  se_sha256 :: "string \<Rightarrow> string"

section \<open>Transaction ids\<close>

definition txnIdFromIdempotencyKey :: "(string \<Rightarrow> string) \<Rightarrow> string \<Rightarrow> string" where
  "txnIdFromIdempotencyKey sha256 key = ''aio'' @ take 32 (sha256 key)"

definition resolveTxnId :: "(string \<Rightarrow> string) \<Rightarrow> send_options \<Rightarrow> string option" where
  "resolveTxnId sha256 opts =
     (case truthy (so_txnId opts) of
        Some t \<Rightarrow> Some t
      | None \<Rightarrow> map_option (txnIdFromIdempotencyKey sha256) (truthy (so_idempotencyKey opts)))"

section \<open>Text to markup\<close>

text \<open>\<open>re.test(text)\<close> for an expression given by what it matches at a position.\<close>

fun tests :: "(string \<Rightarrow> (string \<times> nat) option) \<Rightarrow> string \<Rightarrow> bool" where
  "tests m [] \<longleftrightarrow> m [] \<noteq> None"
| "tests m (c # s) \<longleftrightarrow> m (c # s) \<noteq> None \<or> tests m s"

definition tests_em :: "char \<Rightarrow> string \<Rightarrow> bool" where
  "tests_em d s \<longleftrightarrow> match_em_start d s \<noteq> None \<or> tests (match_em d) s"

definition looksLikeMarkdown :: "string \<Rightarrow> bool" where
  "looksLikeMarkdown s \<longleftrightarrow>
     js_includes s fence \<or>
     tests (\<lambda>t. map_option (\<lambda>(code, _). (code, 0)) (match_inline t)) s \<or>
     tests match_bold s \<or> tests_em star s \<or> tests_em (CHR ''_'') s \<or> tests (match_link (\<lambda>_. True)) s"

definition markdownFormattedOrUndefined :: "(string \<Rightarrow> bool) \<Rightarrow> string \<Rightarrow> string option" where
  "markdownFormattedOrUndefined valid s =
     (if s = [] \<or> \<not> looksLikeMarkdown s then None else Some (markdownToHtml valid s))"

definition formatPlain :: "(string \<Rightarrow> bool) \<Rightarrow> string \<Rightarrow> parse_mode \<Rightarrow> string option" where
  "formatPlain valid s mode =
     (if s = [] then None
      else case mode of
        Html_mode \<Rightarrow> Some s
      | Markdown_mode \<Rightarrow> markdownFormattedOrUndefined valid s
      | Plain \<Rightarrow> None)"

definition plainToHtml :: "string \<Rightarrow> string" where
  "plainToHtml s =
     (if s = [] then [] else ''<p>'' @ replace_char newline ''<br/>'' (escapeHtml s) @ ''</p>'')"

text \<open>The plain and the formatted body of a source, before a keyboard is added.\<close>

definition parse_mode_of :: "send_options \<Rightarrow> parse_mode" where
  "parse_mode_of opts = or_default Plain (so_parseMode opts)"

definition source_plain :: "('r, 'x) sender_scheme \<Rightarrow> message_source \<Rightarrow> string" where
  "source_plain W src =
     (case ms_text src of
        Some t \<Rightarrow> t
      | None \<Rightarrow> (case truthy (ms_html src) of Some h \<Rightarrow> htmlToPlainBody (se_bullet W) (se_wide W) h | None \<Rightarrow> []))"

definition source_html :: "('r, 'x) sender_scheme \<Rightarrow> message_source \<Rightarrow> send_options \<Rightarrow> string option" where
  "source_html W src opts =
     (case ms_html src of
        Some h \<Rightarrow> Some h
      | None \<Rightarrow>
          (case truthy (ms_text src) of
             Some t \<Rightarrow> (if parse_mode_of opts \<noteq> Plain then formatPlain (se_valid W) t (parse_mode_of opts) else None)
           | None \<Rightarrow> None))"

section \<open>Keyboards with tokens\<close>

text \<open>
  \<open>tokenizeKeyboard\<close>: every callback button gets a token of the registry, and the alias the
  registry has for it. The tokens are collected in the order of the buttons.
\<close>

definition issue_of :: "send_target \<Rightarrow> string \<Rightarrow> issue_params" where
  "issue_of tgt payload =
     \<lparr>ip_data = payload, ip_roomId = st_roomId tgt, ip_messageEventId = Some [],
      ip_userId = truthy (st_callbackUserId tgt), ip_ttlMs = None, ip_singleUse = None\<rparr>"

definition alias_of :: "('r, 'x) sender_scheme \<Rightarrow> string \<Rightarrow> 'r \<Rightarrow> string option \<times> 'r" where
  "alias_of W token r =
     (case se_fallbackOf W of
        None \<Rightarrow> (None, r)
      | Some f \<Rightarrow> (let (a, r1) = f token r in (if a \<noteq> [] \<and> a \<noteq> token then Some a else None, r1)))"

fun tokenize_button ::
  "('r, 'x) sender_scheme \<Rightarrow> send_target \<Rightarrow> inline_button \<Rightarrow> 'r chat \<Rightarrow> inline_button \<times> string list \<times> 'r chat" where
  "tokenize_button W tgt (BtnCallback t d tok fb st) s =
     (let (token, r) = se_issue W (se_random W (ch_drawn s)) (issue_of tgt d) (ch_registry s);
          (a, r1) = alias_of W token r
      in (BtnCallback t d (Some token) (if a = None then fb else a) st, [token],
          s\<lparr>ch_registry := r1, ch_drawn := ch_drawn s + 1\<rparr>))"
| "tokenize_button W tgt b s = (b, [], s)"

fun tokenize_row ::
  "('r, 'x) sender_scheme \<Rightarrow> send_target \<Rightarrow> inline_button list \<Rightarrow> 'r chat \<Rightarrow>
     inline_button list \<times> string list \<times> 'r chat" where
  "tokenize_row W tgt [] s = ([], [], s)"
| "tokenize_row W tgt (b # bs) s =
     (let (b', ts, s1) = tokenize_button W tgt b s; (bs', ts', s2) = tokenize_row W tgt bs s1
      in (b' # bs', ts @ ts', s2))"

fun tokenize_rows ::
  "('r, 'x) sender_scheme \<Rightarrow> send_target \<Rightarrow> keyboard \<Rightarrow> 'r chat \<Rightarrow> keyboard \<times> string list \<times> 'r chat" where
  "tokenize_rows W tgt [] s = ([], [], s)"
| "tokenize_rows W tgt (row # rows) s =
     (let (row', ts, s1) = tokenize_row W tgt row s; (rows', ts', s2) = tokenize_rows W tgt rows s1
      in (row' # rows', ts @ ts', s2))"

definition tokenizeKeyboard ::
  "('r, 'x) sender_scheme \<Rightarrow> send_target \<Rightarrow> keyboard \<Rightarrow> 'r chat \<Rightarrow> keyboard_content \<times> string list \<times> 'r chat" where
  "tokenizeKeyboard W tgt kb s =
     (let c = kb_toContent kb; (rows, ts, s1) = tokenize_rows W tgt (kc_inline c) s
      in (c\<lparr>kc_inline := rows\<rparr>, ts, s1))"

section \<open>buildMessageContent\<close>

definition replyTo_of :: "send_options \<Rightarrow> send_target \<Rightarrow> string option" where
  "replyTo_of opts tgt =
     (case so_replyTo opts of Ref_flag True \<Rightarrow> st_triggerEventId tgt | Ref_id e \<Rightarrow> Some e | _ \<Rightarrow> None)"

definition thread_of :: "send_options \<Rightarrow> send_target \<Rightarrow> string option" where
  "thread_of opts tgt =
     (case so_thread opts of
        Ref_flag True \<Rightarrow> (case st_threadRootId tgt of Some r \<Rightarrow> Some r | None \<Rightarrow> st_triggerEventId tgt)
      | Ref_id e \<Rightarrow> Some e
      | _ \<Rightarrow> None)"

definition in_reply_to :: "string \<Rightarrow> string \<times> json" where
  "in_reply_to e = (''m.in_reply_to'', JObj [(''event_id'', JStr e)])"

definition buildRelation :: "send_options \<Rightarrow> send_target \<Rightarrow> json option" where
  "buildRelation opts tgt =
     (let replyTo = replyTo_of opts tgt
      in case truthy (thread_of opts tgt) of
           Some root \<Rightarrow>
             Some (JObj [(''rel_type'', JStr ''m.thread''), (''event_id'', JStr root),
               (''is_falling_back'', JBool (replyTo = None)),
               in_reply_to (case replyTo of Some e \<Rightarrow> e | None \<Rightarrow> or_default root (st_triggerEventId tgt))])
         | None \<Rightarrow> map_option (\<lambda>e. JObj [in_reply_to e]) (truthy replyTo))"

text \<open>\<open>[...new Set(xs)]\<close>.\<close>

definition unique :: "'a list \<Rightarrow> 'a list" where
  "unique xs = rev (remdups (rev xs))"

definition mention_fields :: "mention_options option \<Rightarrow> (string \<times> json) list" where
  "mention_fields m =
     (case m of
        None \<Rightarrow> []
      | Some o1 \<Rightarrow>
          (let fields = (if mo_userIds o1 \<noteq> [] then [(''user_ids'', JArr (map JStr (unique (mo_userIds o1))))] else []) @
                        (if mo_room o1 then [(''room'', JBool True)] else [])
           in if fields = [] then [] else [(''m.mentions'', JObj fields)]))"

text \<open>
  The plain and the formatted body with the fallback of a keyboard appended; \<open>base\<close> is the
  markup the fallback follows when there is no formatted body.
\<close>

definition with_fallback ::
  "keyboard_fallback \<Rightarrow> string \<Rightarrow> string \<times> string option \<Rightarrow> string \<times> string option" where
  "with_fallback fb base pf =
     ((if kf_text fb = [] then fst pf else if fst pf = [] then kf_text fb
       else fst pf @ [newline, newline] @ kf_text fb),
      (if kf_html fb = [] then snd pf else Some (or_default base (snd pf) @ kf_html fb)))"

definition text_fields :: "bool \<Rightarrow> string \<Rightarrow> string option \<Rightarrow> keyboard_content option \<Rightarrow> (string \<times> json) list" where
  "text_fields notice plain formatted kb =
     [(''msgtype'', JStr (if notice then ''m.notice'' else ''m.text'')), (''body'', JStr plain)] @
     (case formatted of
        Some h \<Rightarrow> [(''format'', JStr ''org.matrix.custom.html''), (''formatted_body'', JStr h)] | None \<Rightarrow> []) @
     (case kb of Some c \<Rightarrow> [(KEYBOARD_CONTENT_KEY, content_json c)] | None \<Rightarrow> [])"

text \<open>The markup of the text a fallback follows: \<open>formatPlain(text) ?? plainToHtml(text)\<close>.\<close>

definition fallback_base :: "('r, 'x) sender_scheme \<Rightarrow> message_source \<Rightarrow> send_options \<Rightarrow> string" where
  "fallback_base W src opts =
     (case truthy (ms_text src) of
        Some t \<Rightarrow> or_default (plainToHtml t) (formatPlain (se_valid W) t (parse_mode_of opts))
      | None \<Rightarrow> plainToHtml [])"

definition send_keyboard :: "send_options \<Rightarrow> keyboard option" where
  "send_keyboard opts = (case so_keyboard opts of Kb kb \<Rightarrow> (if kb_isEmpty kb then None else Some kb) | _ \<Rightarrow> None)"

definition message_bodies ::
  "('r, 'x) sender_scheme \<Rightarrow> message_source \<Rightarrow> send_options \<Rightarrow> string \<Rightarrow> keyboard_content option \<Rightarrow>
     string \<times> string option" where
  "message_bodies W src opts base kb =
     (let pf = (source_plain W src, source_html W src opts)
      in case kb of
           Some c \<Rightarrow>
             (if so_keyboardFallback opts \<noteq> Some False
              then with_fallback (renderKeyboardFallback (se_urls W) (se_arrow W) c) base pf else pf)
         | None \<Rightarrow> pf)"

definition message_fields ::
  "('r, 'x) sender_scheme \<Rightarrow> message_source \<Rightarrow> send_options \<Rightarrow> send_target \<Rightarrow> keyboard_content option \<Rightarrow>
     (string \<times> json) list" where
  "message_fields W src opts tgt kb =
     (let (plain, formatted) = message_bodies W src opts (fallback_base W src opts) kb
      in assign_fields
           (text_fields (so_notice opts) plain formatted kb @
            (case buildRelation opts tgt of Some r \<Rightarrow> [(''m.relates_to'', r)] | None \<Rightarrow> []) @
            mention_fields (so_mentions opts))
           (so_extra opts))"

definition buildMessageContent ::
  "('r, 'x) sender_scheme \<Rightarrow> message_source \<Rightarrow> send_options \<Rightarrow> send_target \<Rightarrow> 'r chat \<Rightarrow>
     (string \<times> json) list \<times> string list \<times> 'r chat" where
  "buildMessageContent W src opts tgt s =
     (case send_keyboard opts of
        None \<Rightarrow> (message_fields W src opts tgt None, [], s)
      | Some kb \<Rightarrow>
          (let (c, tokens, s1) = tokenizeKeyboard W tgt kb s
           in (message_fields W src opts tgt (Some c), tokens, s1)))"

section \<open>Schema warnings\<close>

text \<open>A value that is neither absent nor \<open>null\<close>.\<close>

definition non_null :: "json option \<Rightarrow> json option" where
  "non_null v = (case v of Some JNull \<Rightarrow> None | _ \<Rightarrow> v)"

definition check_block :: "string \<Rightarrow> json option \<Rightarrow> string list" where
  "check_block key block =
     (case non_null block of
        None \<Rightarrow> []
      | Some b \<Rightarrow>
          (let info = checkSchemaVersion (or_default 1 (AIOMATRIX_SCHEMA key)) (Some (JNum (Fin (readSchemaVersion b))))
           in if si_supported info then []
              else [key @ '' version '' @ int_dec (si_version info) @ '' newer than library support'']))"

text \<open>
  The warnings of \<open>finalizeAiomatrixContent\<close>. A field of a message is checked by its key; of
  an event of one of the five types of its own the whole content is. Both spellings of a key
  in the source are the same text. The envelope it also builds is not read by a send.
\<close>

definition content_warnings :: "string \<Rightarrow> (string \<times> json) list \<Rightarrow> string list" where
  "content_warnings eventType content =
     check_block ''keyboard'' (jm_get content ''dev.aiomatrix.keyboard'') @
     check_block ''mini_app'' (jm_get content ''dev.aiomatrix.mini_app'') @
     check_block ''mini_app_data'' (jm_get content ''dev.aiomatrix.mini_app_data'') @
     check_block ''poll'' (jm_get content ''dev.aiomatrix.poll'') @
     concat (map (\<lambda>(key, ty). check_block key (if eventType = ty then Some (JObj content) else jm_get content ty))
       [(''toast'', ''dev.aiomatrix.toast''), (''progress'', ''dev.aiomatrix.progress''),
        (''callback_answer'', ''dev.aiomatrix.callback_answer''), (''bot'', ''dev.aiomatrix.bot''),
        (''host'', ''dev.aiomatrix.host'')])"

section \<open>Sending\<close>

definition isTransientSendError :: "js_error \<Rightarrow> bool" where
  "isTransientSendError e =
     (case e of
        RateLimitedError _ _ _ \<Rightarrow> True
      | RequestTimeoutError _ _ _ \<Rightarrow> True
      | MatrixError ae \<Rightarrow> ae_status ae = 429 \<or> 500 \<le> ae_status ae \<or> ae_status ae = 0
      | TypeError _ \<Rightarrow> True
      | _ \<Rightarrow> (let m = map js_lower_char (error_message e)
             in js_includes m ''fetch'' \<or> js_includes m ''network'' \<or> js_includes m ''econn'' \<or>
                js_includes m ''etimedout'' \<or> js_includes m ''socket''))"

text \<open>The store of the outbox completes the entry with an id and a time; its write succeeds.\<close>

definition entry_of :: "client_call \<Rightarrow> entry" where
  "entry_of c =
     \<lparr>en_id = [], en_roomId = cc_roomId c, en_eventType = cc_type c, en_content = cc_content c,
      en_txnId = cc_txnId c, en_stateKey = cc_stateKey c, en_createdAtMs = 0, en_attempts = 0, en_lastError = None\<rparr>"

definition enqueue_call :: "('r, 'x) sender_scheme \<Rightarrow> client_call \<Rightarrow> 'r chat \<Rightarrow> 'r chat" where
  "enqueue_call W c s =
     (case ch_outbox s of
        None \<Rightarrow> s
      | Some f \<Rightarrow> s\<lparr>ch_outbox := Some (snd (ob_enqueue (se_random W (ch_drawn s)) (se_now W) (entry_of c) f)),
                   ch_drawn := ch_drawn s + 1\<rparr>)"

text \<open>
  The call a flush of the bot's outbox makes for an entry (\<open>bot.ts\<close>), and the transaction id
  that the PUT of an event carries (\<open>putRoomEvent\<close> in \<open>client.ts\<close>): the one of the call, or a
  new one of the client's source.
\<close>

definition outbox_resend :: "entry \<Rightarrow> client_call" where
  "outbox_resend e =
     (case en_stateKey e of
        Some k \<Rightarrow> \<lparr>cc_roomId = en_roomId e, cc_type = en_eventType e, cc_content = en_content e, cc_txnId = None,
                   cc_stateKey = Some k\<rparr>
      | None \<Rightarrow> \<lparr>cc_roomId = en_roomId e, cc_type = en_eventType e, cc_content = en_content e,
                 cc_txnId = truthy (en_txnId e), cc_stateKey = None\<rparr>)"

definition put_txn :: "client_call \<Rightarrow> nat \<Rightarrow> txn_source \<Rightarrow> string \<times> txn_source" where
  "put_txn c now src = (case cc_txnId c of Some t \<Rightarrow> (t, src) | None \<Rightarrow> txnId now src)"

text \<open>The common part of \<open>sendEventWithOutbox\<close> and \<open>sendStateWithOutbox\<close>.\<close>

definition call_with_outbox ::
  "('r, 'x) sender_scheme \<Rightarrow> client_call \<Rightarrow> string list \<Rightarrow> 'r chat \<Rightarrow> (js_error, string) sum \<times> 'r chat" where
  "call_with_outbox W c warnings s =
     (let s1 = (if warnings = [] then s else s\<lparr>ch_warned := ch_warned s @ [warnings]\<rparr>);
          s2 = s1\<lparr>ch_calls := ch_calls s1 @ [c]\<rparr>
      in case se_answer W (length (ch_calls s)) of
           Inr e \<Rightarrow> (Inr e, s2)
         | Inl err \<Rightarrow> (Inl err, if isTransientSendError err then enqueue_call W c s2 else s2))"

definition sendEventWithOutbox ::
  "('r, 'x) sender_scheme \<Rightarrow> send_target \<Rightarrow> string \<Rightarrow> (string \<times> json) list \<Rightarrow> string option \<Rightarrow> 'r chat \<Rightarrow>
     (js_error, string) sum \<times> 'r chat" where
  "sendEventWithOutbox W tgt eventType content txn s =
     call_with_outbox W
       \<lparr>cc_roomId = st_roomId tgt, cc_type = eventType, cc_content = JObj content, cc_txnId = truthy txn,
        cc_stateKey = None\<rparr> (content_warnings eventType content) s"

definition sendStateWithOutbox ::
  "('r, 'x) sender_scheme \<Rightarrow> send_target \<Rightarrow> string \<Rightarrow> string \<Rightarrow> (string \<times> json) list \<Rightarrow> 'r chat \<Rightarrow>
     (js_error, string) sum \<times> 'r chat" where
  "sendStateWithOutbox W tgt eventType stateKey content s =
     call_with_outbox W
       \<lparr>cc_roomId = st_roomId tgt, cc_type = eventType, cc_content = JObj content, cc_txnId = None,
        cc_stateKey = Some stateKey\<rparr> (content_warnings eventType content) s"

definition bind_tokens :: "('r, 'x) sender_scheme \<Rightarrow> string list \<Rightarrow> string \<Rightarrow> 'r chat \<Rightarrow> 'r chat" where
  "bind_tokens W tokens e s =
     (if tokens = [] then s else s\<lparr>ch_registry := se_bind W tokens e (ch_registry s)\<rparr>)"

definition sendMessageWithOptions ::
  "('r, 'x) sender_scheme \<Rightarrow> send_target \<Rightarrow> message_source \<Rightarrow> send_options \<Rightarrow> 'r chat \<Rightarrow>
     (js_error, string) sum \<times> 'r chat" where
  "sendMessageWithOptions W tgt src opts s =
     (let (content, tokens, s1) = buildMessageContent W src opts tgt s;
          (r, s2) = sendEventWithOutbox W tgt ''m.room.message'' content (resolveTxnId (se_sha256 W) opts) s1
      in (r, case r of Inr e \<Rightarrow> bind_tokens W tokens e s2 | Inl _ \<Rightarrow> s2))"

section \<open>Editing\<close>

definition effective_content :: "json \<Rightarrow> json option" where
  "effective_content event =
     (case json_prop event ''content'' of
        Some c \<Rightarrow>
          (if \<not> isPlainObject c then None
           else case json_prop c ''m.new_content'' of
                  Some n \<Rightarrow> Some (if isPlainObject n then n else c)
                | None \<Rightarrow> Some c)
      | None \<Rightarrow> None)"

definition readExistingEffectiveContent :: "('r, 'x) sender_scheme \<Rightarrow> string \<Rightarrow> json option" where
  "readExistingEffectiveContent W e = Option.bind (se_event W e) effective_content"

definition warn_existing :: "int option \<Rightarrow> 'r chat \<Rightarrow> 'r chat" where
  "warn_existing w s =
     (case w of
        None \<Rightarrow> s
      | Some v \<Rightarrow> s\<lparr>ch_warned := ch_warned s @ [[''keyboard version '' @ int_dec v @ '' newer than library support'']]\<rparr>)"

definition readExistingKeyboard :: "('r, 'x) sender_scheme \<Rightarrow> string \<Rightarrow> 'r chat \<Rightarrow> keyboard_content option \<times> 'r chat" where
  "readExistingKeyboard W e s =
     (case readExistingEffectiveContent W e of
        None \<Rightarrow> (None, s)
      | Some c \<Rightarrow> (let (kb, w) = parseKeyboardContent c in (kb, warn_existing w s)))"

definition readExistingMessageSource :: "('r, 'x) sender_scheme \<Rightarrow> string \<Rightarrow> message_source" where
  "readExistingMessageSource W e =
     (case readExistingEffectiveContent W e of
        None \<Rightarrow> \<lparr>ms_text = Some [], ms_html = None\<rparr>
      | Some c \<Rightarrow>
          \<lparr>ms_text = Some (or_default [] (readString c ''body'')),
           ms_html = (if readString c ''format'' = Some ''org.matrix.custom.html'' then readString c ''formatted_body''
                      else None)\<rparr>)"

definition edit_keyboard ::
  "('r, 'x) sender_scheme \<Rightarrow> send_target \<Rightarrow> string \<Rightarrow> send_options \<Rightarrow> 'r chat \<Rightarrow>
     keyboard_content option \<times> string list \<times> 'r chat" where
  "edit_keyboard W tgt e opts s =
     (case so_keyboard opts of
        Kb_absent \<Rightarrow> (let (kb, s1) = readExistingKeyboard W e s in (kb, [], s1))
      | Kb_null \<Rightarrow> (None, [], s\<lparr>ch_registry := se_revokeFor W e (ch_registry s)\<rparr>)
      | Kb kb \<Rightarrow>
          (let s1 = s\<lparr>ch_registry := se_revokeFor W e (ch_registry s)\<rparr>
           in if kb_isEmpty kb then (None, [], s1)
              else (let (c, tokens, s2) = tokenizeKeyboard W tgt kb s1 in (Some c, tokens, s2))))"

definition edit_bodies ::
  "('r, 'x) sender_scheme \<Rightarrow> message_source \<Rightarrow> send_options \<Rightarrow> keyboard_content option \<Rightarrow> string \<times> string option" where
  "edit_bodies W src opts kb =
     message_bodies W src opts (plainToHtml (or_default [] (ms_text src)))
       (if so_keyboard opts = Kb_absent then None else kb)"

definition edit_fields ::
  "string \<Rightarrow> string option \<Rightarrow> string \<Rightarrow> (string \<times> json) list \<Rightarrow> (string \<times> json) list" where
  "edit_fields plain formatted e newContent =
     assign_fields newContent
       ([(''body'', JStr (''* '' @ plain))] @
        (case truthy formatted of
           Some h \<Rightarrow> [(''format'', JStr ''org.matrix.custom.html''), (''formatted_body'', JStr (''* '' @ h))] | None \<Rightarrow> []) @
        [(''m.new_content'', JObj newContent),
         (''m.relates_to'', JObj [(''rel_type'', JStr ''m.replace''), (''event_id'', JStr e)])])"

definition editMessageWithOptions ::
  "('r, 'x) sender_scheme \<Rightarrow> send_target \<Rightarrow> string \<Rightarrow> message_source \<Rightarrow> send_options \<Rightarrow> 'r chat \<Rightarrow>
     (js_error, string) sum \<times> 'r chat" where
  "editMessageWithOptions W tgt e src opts s =
     (let (kb, minted, s1) = edit_keyboard W tgt e opts s;
          (plain, formatted) = edit_bodies W src opts kb;
          newContent = assign_fields (text_fields (so_notice opts) plain formatted kb) (so_extra opts);
          (r, s2) = sendEventWithOutbox W tgt ''m.room.message'' (edit_fields plain formatted e newContent)
                      (resolveTxnId (se_sha256 W) opts) s1
      in (r, case r of Inr _ \<Rightarrow> bind_tokens W minted e s2 | Inl _ \<Rightarrow> s2))"

section \<open>What a keyboard becomes\<close>

fun untoken :: "inline_button \<Rightarrow> inline_button" where
  "untoken (BtnCallback t d tok fb st) = BtnCallback t d None None st"
| "untoken b = b"

fun is_callback :: "inline_button \<Rightarrow> bool" where
  "is_callback (BtnCallback t d tok fb st) = True"
| "is_callback b = False"

lemma tokenize_button_untoken: "tokenize_button W tgt b s = (b', ts, s') \<Longrightarrow> untoken b' = untoken b"
  by (cases b) (auto simp: Let_def split: prod.splits)

lemma tokenize_row_untoken: "tokenize_row W tgt bs s = (bs', ts, s') \<Longrightarrow> map untoken bs' = map untoken bs"
  by (induction bs arbitrary: s bs' ts s')
    (auto simp: Let_def dest: tokenize_button_untoken split: prod.splits)

lemma tokenize_rows_untoken:
  "tokenize_rows W tgt rows s = (rows', ts, s') \<Longrightarrow> map (map untoken) rows' = map (map untoken) rows"
  by (induction rows arbitrary: s rows' ts s')
    (auto simp: Let_def dest: tokenize_row_untoken split: prod.splits)

lemma kb_toContent_inline [simp]: "kc_inline (kb_toContent kb) = kb_buttons kb"
  by (simp add: kb_toContent_def)

lemma tokenizeKeyboard_rows:
  "tokenizeKeyboard W tgt kb s = (c, ts, s') \<longleftrightarrow>
     (\<exists>rows. tokenize_rows W tgt (kb_buttons kb) s = (rows, ts, s') \<and> c = (kb_toContent kb)\<lparr>kc_inline := rows\<rparr>)"
  by (auto simp: tokenizeKeyboard_def Let_def split: prod.splits)

text \<open>
  Serialising a keyboard adds tokens and aliases to its callback buttons and changes
  nothing else. In particular the raw callback data stays in the event next to its token,
  where every member of the room can read it.
\<close>

theorem tokenize_adds_tokens_only:
  assumes "tokenizeKeyboard W tgt kb s = (c, ts, s')"
  shows "map (map untoken) (kc_inline c) = map (map untoken) (kb_buttons kb)"
  using assms by (auto simp: tokenizeKeyboard_rows tokenize_rows_untoken)

section \<open>The buttons of a sent message\<close>

text \<open>A sender whose tokens are those of the opaque registry.\<close>

definition opaque_sender :: "callback_registry sender \<Rightarrow> bool" where
  "opaque_sender W \<longleftrightarrow>
     se_issue W = cb_issue (se_now W) \<and> se_fallbackOf W = None \<and> se_bind W = cb_bindMessage \<and>
     se_revokeFor W = cb_revokeForMessage"

text \<open>
  The newest tokens of the registry are the entries \<open>es\<close>, all of them live, and the random
  ids still to come are fresh.
\<close>

definition newest ::
  "callback_registry sender \<Rightarrow> callback_registry chat \<Rightarrow> (string \<times> callback_record) list \<Rightarrow> bool" where
  "newest W s es \<longleftrightarrow>
     jm_wf (cb_tokens (ch_registry s)) \<and> (\<exists>old. cb_tokens (ch_registry s) = old @ es) \<and>
     (\<forall>(t, r) \<in> set es. se_now W < cr_expiresAtMs r) \<and>
     (\<forall>n \<ge> ch_drawn s. se_random W n \<notin> set (jm_keys (cb_tokens (ch_registry s)))) \<and> 0 < cb_ttlMs (ch_registry s)"

definition record_of :: "callback_registry sender \<Rightarrow> send_target \<Rightarrow> callback_registry \<Rightarrow> string \<Rightarrow> callback_record" where
  "record_of W tgt r payload =
     \<lparr>cr_data = payload, cr_roomId = st_roomId tgt, cr_messageEventId = [], cr_userId = truthy (st_callbackUserId tgt),
      cr_expiresAtMs = se_now W + cb_ttlMs r, cr_answered = False, cr_singleUse = False\<rparr>"

lemma issue_newest:
  assumes "opaque_sender W" and "inj (se_random W)" and "newest W s es"
    and "int (length es) < cb_capacity (ch_registry s)"
    and "se_issue W (se_random W (ch_drawn s)) (issue_of tgt d) (ch_registry s) = (t, r)"
  shows "t = se_random W (ch_drawn s) \<and> cb_capacity r = cb_capacity (ch_registry s) \<and>
    cb_ttlMs r = cb_ttlMs (ch_registry s) \<and>
    newest W (s\<lparr>ch_registry := r, ch_drawn := ch_drawn s + 1\<rparr>) (es @ [(t, record_of W tgt (ch_registry s) d)])"
proof -
  let ?g = "ch_registry s" and ?t = "se_random W (ch_drawn s)"
  let ?rec = "record_of W tgt ?g d"
  obtain old where old: "cb_tokens ?g = old @ es" and wf: "jm_wf (cb_tokens ?g)" and ttl: "0 < cb_ttlMs ?g"
    and live: "\<And>k v. (k, v) \<in> set es \<Longrightarrow> se_now W < cr_expiresAtMs v"
    and fresh: "\<And>n. ch_drawn s \<le> n \<Longrightarrow> se_random W n \<notin> set (jm_keys (cb_tokens ?g))"
    using assms(3) unfolding newest_def by blast
  define kept where "kept = jm_filter (\<lambda>k v. \<not> cr_expiresAtMs v \<le> se_now W) old"
  have split: "jm_filter (\<lambda>k v. \<not> cr_expiresAtMs v \<le> se_now W) (cb_tokens ?g) = kept @ es"
    using live by (auto simp: jm_filter_def old kept_def filter_id_conv not_le intro: filter_True)
  then have kwf: "jm_wf (kept @ es)"
    using wf jm_wf_filter by metis
  define n where "n = nat (int (length (kept @ es)) + 1 - cb_capacity ?g)"
  define old' where "old' = drop n kept"
  have "n \<le> length kept"
    using assms(4) by (simp add: n_def)
  moreover have "cb_tokens (cb_prune (se_now W) ?g) = drop n (kept @ es)"
    unfolding n_def by (simp add: cb_prune_def split jm_evict_drop [OF kwf])
  ultimately have pruned: "cb_tokens (cb_prune (se_now W) ?g) = old' @ es"
    by (simp add: old'_def)
  have keep: "set old' \<subseteq> set kept"
    by (simp add: old'_def set_drop_subset)
  have pwf: "jm_wf (old' @ es)"
    using kwf distinct_drop [of "map fst kept" n] set_drop_subset [of n kept] by (auto simp: old'_def drop_map)
  have sub: "set (jm_keys (old' @ es)) \<subseteq> set (jm_keys (cb_tokens ?g))"
    using keep by (auto simp: old kept_def)
  have abs: "?t \<notin> set (jm_keys (old' @ es))"
    using fresh [of "ch_drawn s"] sub by blast
  have fields: "cb_capacity (cb_prune (se_now W) ?g) = cb_capacity ?g" "cb_ttlMs (cb_prune (se_now W) ?g) = cb_ttlMs ?g"
    by (simp_all add: cb_prune_def)
  have t: "t = ?t" and r: "r = (cb_prune (se_now W) ?g)\<lparr>cb_tokens := (old' @ es) @ [(?t, ?rec)]\<rparr>"
    using assms(1,5) abs by (auto simp: opaque_sender_def cb_issue_def Let_def issue_of_def record_of_def pruned update_absent)
  have toks: "cb_tokens r = old' @ es @ [(?t, ?rec)]"
    by (simp add: r)
  have wf': "jm_wf (old' @ es @ [(?t, ?rec)])"
    using pwf abs by auto
  have live': "\<forall>(k, v) \<in> set (es @ [(?t, ?rec)]). se_now W < cr_expiresAtMs v"
    using live ttl by (auto simp: record_of_def)
  have fresh': "\<forall>n \<ge> ch_drawn s + 1. se_random W n \<notin> set (jm_keys (old' @ es @ [(?t, ?rec)]))"
  proof (intro allI impI)
    fix n assume n: "ch_drawn s + 1 \<le> n"
    then have "ch_drawn s \<le> n"
      by simp
    from fresh [OF this] sub have "se_random W n \<notin> set (jm_keys (old' @ es))"
      by (rule contra_subsetD [rotated])
    moreover have "se_random W n \<noteq> ?t"
      using n injD [OF assms(2), of n "ch_drawn s"] by auto
    ultimately show "se_random W n \<notin> set (jm_keys (old' @ es @ [(?t, ?rec)]))"
      by simp
  qed
  have "newest W (s\<lparr>ch_registry := r, ch_drawn := ch_drawn s + 1\<rparr>) (es @ [(?t, ?rec)])"
    unfolding newest_def using wf' live' fresh' ttl by (simp add: toks fields r)
  then show ?thesis
    by (simp add: t r fields)
qed


abbreviation callback_count :: "inline_button list \<Rightarrow> nat" where
  "callback_count bs \<equiv> length (filter is_callback bs)"

text \<open>
  The buttons \<open>bs\<close> carry the tokens of the entries \<open>es\<close>, which were minted for the target.
\<close>

definition buttons_carry :: "send_target \<Rightarrow> inline_button list \<Rightarrow> (string \<times> callback_record) list \<Rightarrow> bool" where
  "buttons_carry tgt bs es \<longleftrightarrow>
     map (\<lambda>b. (btn_token b, btn_data b)) (filter is_callback bs) = map (\<lambda>(t, r). (Some t, cr_data r)) es \<and>
     (\<forall>(t, r) \<in> set es. cr_roomId r = st_roomId tgt \<and> cr_userId r = truthy (st_callbackUserId tgt))"

lemma buttons_carry_append:
  "buttons_carry tgt bs es \<Longrightarrow> buttons_carry tgt cs fs \<Longrightarrow> buttons_carry tgt (bs @ cs) (es @ fs)"
  by (auto simp: buttons_carry_def)

lemma tokenize_button_newest:
  assumes "opaque_sender W" and "inj (se_random W)" and "newest W s es"
    and "int (length es + callback_count [b]) \<le> cb_capacity (ch_registry s)"
    and "tokenize_button W tgt b s = (b', ts, s')"
  shows "\<exists>fs. newest W s' (es @ fs) \<and> ts = map fst fs \<and> buttons_carry tgt [b'] fs \<and>
    length fs = callback_count [b] \<and> cb_capacity (ch_registry s') = cb_capacity (ch_registry s)"
proof (cases b)
  case (BtnCallback t d tok fb st)
  obtain token r where i: "se_issue W (se_random W (ch_drawn s)) (issue_of tgt d) (ch_registry s) = (token, r)"
    by fastforce
  let ?rec = "record_of W tgt (ch_registry s) d"
  have n: "newest W (s\<lparr>ch_registry := r, ch_drawn := ch_drawn s + 1\<rparr>) (es @ [(token, ?rec)])"
    and c: "cb_capacity r = cb_capacity (ch_registry s)"
    using issue_newest [OF assms(1-3) _ i] assms(4) BtnCallback by auto
  have "alias_of W token r = (None, r)"
    using assms(1) by (simp add: alias_of_def opaque_sender_def)
  then have "b' = BtnCallback t d (Some token) fb st" "ts = [token]"
    "s' = s\<lparr>ch_registry := r, ch_drawn := ch_drawn s + 1\<rparr>"
    using assms(5) i by (auto simp: BtnCallback)
  then show ?thesis
    using n c by (intro exI [of _ "[(token, ?rec)]"]) (simp add: BtnCallback buttons_carry_def record_of_def)
qed (use assms(3,5) in \<open>auto simp: buttons_carry_def\<close>)

lemma tokenize_row_newest:
  assumes "opaque_sender W" and "inj (se_random W)"
  shows "newest W s es \<Longrightarrow> int (length es + callback_count bs) \<le> cb_capacity (ch_registry s) \<Longrightarrow>
    tokenize_row W tgt bs s = (bs', ts, s') \<Longrightarrow>
    \<exists>fs. newest W s' (es @ fs) \<and> ts = map fst fs \<and> buttons_carry tgt bs' fs \<and>
      length fs = callback_count bs \<and> cb_capacity (ch_registry s') = cb_capacity (ch_registry s)"
proof (induction bs arbitrary: s es bs' ts s')
  case Nil
  then show ?case by (intro exI [of _ "[]"]) (simp add: buttons_carry_def)
next
  case (Cons b bs)
  obtain b1 ts1 s1 where b: "tokenize_button W tgt b s = (b1, ts1, s1)"
    by (metis prod_cases3)
  obtain bs2 ts2 s2 where r: "tokenize_row W tgt bs s1 = (bs2, ts2, s2)"
    by (metis prod_cases3)
  have res: "bs' = b1 # bs2" "ts = ts1 @ ts2" "s' = s2"
    using Cons.prems(3) b r by auto
  have room: "int (length es + callback_count [b]) \<le> cb_capacity (ch_registry s)"
    using Cons.prems(2) by (cases "is_callback b") auto
  obtain fs where fs: "newest W s1 (es @ fs)" "ts1 = map fst fs" "buttons_carry tgt [b1] fs"
    "length fs = callback_count [b]" "cb_capacity (ch_registry s1) = cb_capacity (ch_registry s)"
    using tokenize_button_newest [OF assms Cons.prems(1) room b] by blast
  have "int (length (es @ fs) + callback_count bs) \<le> cb_capacity (ch_registry s1)"
    using Cons.prems(2) fs(4,5) by (cases "is_callback b") auto
  from Cons.IH [OF fs(1) this r] obtain gs where gs: "newest W s2 ((es @ fs) @ gs)" "ts2 = map fst gs"
    "buttons_carry tgt bs2 gs" "length gs = callback_count bs" "cb_capacity (ch_registry s2) = cb_capacity (ch_registry s1)"
    by blast
  show ?case
    using gs fs buttons_carry_append [OF fs(3) gs(3)] res
    by (intro exI [of _ "fs @ gs"]) (cases "is_callback b"; simp)
qed

lemma tokenize_rows_newest:
  assumes "opaque_sender W" and "inj (se_random W)"
  shows "newest W s es \<Longrightarrow> int (length es + callback_count (concat rows)) \<le> cb_capacity (ch_registry s) \<Longrightarrow>
    tokenize_rows W tgt rows s = (rows', ts, s') \<Longrightarrow>
    \<exists>fs. newest W s' (es @ fs) \<and> ts = map fst fs \<and> buttons_carry tgt (concat rows') fs \<and>
      cb_capacity (ch_registry s') = cb_capacity (ch_registry s)"
proof (induction rows arbitrary: s es rows' ts s')
  case Nil
  then show ?case by (intro exI [of _ "[]"]) (simp add: buttons_carry_def)
next
  case (Cons row rows)
  obtain row1 ts1 s1 where b: "tokenize_row W tgt row s = (row1, ts1, s1)"
    by (metis prod_cases3)
  obtain rows2 ts2 s2 where r: "tokenize_rows W tgt rows s1 = (rows2, ts2, s2)"
    by (metis prod_cases3)
  have res: "rows' = row1 # rows2" "ts = ts1 @ ts2" "s' = s2"
    using Cons.prems(3) b r by auto
  have room: "int (length es + callback_count row) \<le> cb_capacity (ch_registry s)"
    using Cons.prems(2) by simp
  obtain fs where fs: "newest W s1 (es @ fs)" "ts1 = map fst fs" "buttons_carry tgt row1 fs"
    "length fs = callback_count row" "cb_capacity (ch_registry s1) = cb_capacity (ch_registry s)"
    using tokenize_row_newest [OF assms Cons.prems(1) room b] by blast
  have "int (length (es @ fs) + callback_count (concat rows)) \<le> cb_capacity (ch_registry s1)"
    using Cons.prems(2) fs(4,5) by simp
  from Cons.IH [OF fs(1) this r] obtain gs where gs: "newest W s2 ((es @ fs) @ gs)" "ts2 = map fst gs"
    "buttons_carry tgt (concat rows2) gs" "cb_capacity (ch_registry s2) = cb_capacity (ch_registry s1)"
    by blast
  show ?case
    using gs fs buttons_carry_append [OF fs(3) gs(3)] res
    by (intro exI [of _ "fs @ gs"]) simp
qed

lemma bindMessage_get:
  "jm_get (cb_tokens (cb_bindMessage ts e s)) t =
     map_option (\<lambda>r. if t \<in> set ts then r\<lparr>cr_messageEventId := e\<rparr> else r) (jm_get (cb_tokens s) t)"
proof (induction ts arbitrary: s)
  case (Cons t' ts)
  show ?case
    by (cases "jm_get (cb_tokens s) t'") (auto simp: Cons.IH update_conv' option.map_comp comp_def
      split: option.splits intro!: option.map_cong0)
qed (simp add: option.map_ident)

definition button_works :: "callback_registry sender \<Rightarrow> send_target \<Rightarrow> string \<Rightarrow> callback_registry \<Rightarrow> inline_button \<Rightarrow> bool" where
  "button_works W tgt e r b \<longleftrightarrow>
     (case btn_token b of
        None \<Rightarrow> False
      | Some t \<Rightarrow>
          (case fst (cb_peek (se_now W) t r) of
             None \<Rightarrow> False
           | Some x \<Rightarrow> cr_data x = btn_data b \<and> cr_roomId x = st_roomId tgt \<and> cr_messageEventId x = e \<and>
                       cr_userId x = truthy (st_callbackUserId tgt)))"

definition content_field :: "client_call \<Rightarrow> string \<Rightarrow> json option" where
  "content_field c key = json_prop (cc_content c) key"

lemma registry_enqueue [simp]: "ch_registry (enqueue_call W c s) = ch_registry s"
  by (simp add: enqueue_call_def split: option.split)

lemma calls_enqueue [simp]: "ch_calls (enqueue_call W c s) = ch_calls s"
  by (simp add: enqueue_call_def split: option.split)

lemma sendEvent_parts:
  assumes "sendEventWithOutbox W tgt ty content txn s = (r, s')"
  shows "ch_registry s' = ch_registry s" and "ch_calls s' = ch_calls s @ [\<lparr>cc_roomId = st_roomId tgt, cc_type = ty,
      cc_content = JObj content, cc_txnId = truthy txn, cc_stateKey = None\<rparr>]"
    and "r = se_answer W (length (ch_calls s))"
  using assms by (auto simp: sendEventWithOutbox_def call_with_outbox_def Let_def split: sum.splits if_splits)

lemma assign_get: "key \<notin> fst ` set extra \<Longrightarrow> jm_get (assign_fields ps extra) key = jm_get ps key"
proof (induction extra arbitrary: ps)
  case (Cons kv extra)
  then show ?case
    by (cases kv) (auto simp: assign_fields_def update_conv')
qed (simp add: assign_fields_def)

lemma bind_registry: "ch_registry (bind_tokens W ts e s) = (if ts = [] then ch_registry s else se_bind W ts e (ch_registry s))"
  and bind_calls [simp]: "ch_calls (bind_tokens W ts e s) = ch_calls s"
  by (simp_all add: bind_tokens_def)

lemma keyboard_field:
  assumes "KEYBOARD_CONTENT_KEY \<notin> fst ` set (so_extra opts)"
  shows "jm_get (message_fields W src opts tgt (Some c)) KEYBOARD_CONTENT_KEY = Some (content_json c)"
  using assms by (auto simp: message_fields_def assign_get text_fields_def KEYBOARD_CONTENT_KEY_def split: prod.split option.split)

lemma carried_button_works:
  assumes "opaque_sender W" and "newest W s fs" and "buttons_carry tgt bs fs" and "b \<in> set bs" and "is_callback b"
    and "r = cb_bindMessage (map fst fs) e (ch_registry s)"
  shows "button_works W tgt e r b"
proof -
  have "(btn_token b, btn_data b) \<in> set (map (\<lambda>b. (btn_token b, btn_data b)) (filter is_callback bs))"
    using assms(4,5) by auto
  then have "(btn_token b, btn_data b) \<in> set (map (\<lambda>(t, r). (Some t, cr_data r)) fs)"
    using assms(3) unfolding buttons_carry_def by metis
  then obtain t x where x: "(t, x) \<in> set fs" "btn_token b = Some t" "btn_data b = cr_data x"
    by auto
  have "jm_get (cb_tokens (ch_registry s)) t = Some x"
    using assms(2) x(1) by (auto simp: newest_def intro!: map_of_is_SomeI)
  then have "jm_get (cb_tokens r) t = Some (x\<lparr>cr_messageEventId := e\<rparr>)"
    using x(1) by (force simp: assms(6) bindMessage_get)
  moreover have "se_now W < cr_expiresAtMs x"
    using assms(2) x(1) by (auto simp: newest_def)
  moreover have "cr_roomId x = st_roomId tgt \<and> cr_userId x = truthy (st_callbackUserId tgt)"
    using assms(3) x(1) by (auto simp: buttons_carry_def)
  ultimately show ?thesis
    by (simp add: button_works_def x cb_peek_def)
qed

text \<open>
  C13 (functional). When a message with a keyboard was sent, every callback button in the event as
  it was sent has a token that the registry knows at that moment, for the data of the
  button, bound to the room, to the user it was meant for and to the id of the new message.
  The keyboard may have as many callback buttons as the registry holds tokens.
\<close>

theorem sent_buttons_work:
  assumes "opaque_sender W" and "inj (se_random W)" and "newest W s []"
    and "send_keyboard opts = Some kb" and "KEYBOARD_CONTENT_KEY \<notin> fst ` set (so_extra opts)"
    and "int (callback_count (concat kb)) \<le> cb_capacity (ch_registry s)"
    and "sendMessageWithOptions W tgt src opts s = (Inr e, s')"
  shows "\<exists>c. content_field (last (ch_calls s')) KEYBOARD_CONTENT_KEY = Some (content_json c) \<and>
    list_all (button_works W tgt e (ch_registry s')) (filter is_callback (concat (kc_inline c)))"
proof -
  obtain c ts s1 where t: "tokenizeKeyboard W tgt kb s = (c, ts, s1)"
    by (metis prod_cases3)
  obtain rows where rows: "tokenize_rows W tgt (kb_buttons kb) s = (rows, ts, s1)" "kc_inline c = rows"
    using t by (auto simp: tokenizeKeyboard_rows)
  obtain fs where fs: "newest W s1 fs" "ts = map fst fs" "buttons_carry tgt (concat rows) fs"
    using tokenize_rows_newest [OF assms(1-3) _ rows(1)] assms(6) by auto
  obtain r s2 where sent: "sendEventWithOutbox W tgt ''m.room.message'' (message_fields W src opts tgt (Some c))
      (resolveTxnId (se_sha256 W) opts) s1 = (r, s2)"
    by fastforce
  have s': "r = Inr e" "s' = bind_tokens W ts e s2"
    using assms(7) assms(4) t sent by (auto simp: sendMessageWithOptions_def buildMessageContent_def split: sum.splits)
  have reg: "ch_registry s' = cb_bindMessage (map fst fs) e (ch_registry s1)"
    using assms(1) by (simp add: s' bind_registry sendEvent_parts(1) [OF sent] fs(2) opaque_sender_def)
  have "content_field (last (ch_calls s')) KEYBOARD_CONTENT_KEY = Some (content_json c)"
    by (simp add: s' sendEvent_parts(2) [OF sent] content_field_def json_prop_def keyboard_field [OF assms(5)])
  moreover have "list_all (button_works W tgt e (ch_registry s')) (filter is_callback (concat (kc_inline c)))"
    unfolding list_all_iff rows(2) using carried_button_works [OF assms(1) fs(1,3) _ _ reg] by auto
  ultimately show ?thesis
    by blast
qed

definition demo_sender :: "(js_error, string) sum \<Rightarrow> callback_registry sender" where
  "demo_sender answer =
     \<lparr>se_now = 1000, se_random = (\<lambda>n. ''t'' @ replicate n (CHR ''i'')), se_answer = (\<lambda>_. answer),
      se_event = (\<lambda>_. Some (JObj [(''content'', JObj [(''body'', JStr (''Pick'' @ [newline, newline] @ ''1. Yes > !cb t''))])])),
      se_issue = cb_issue 1000, se_fallbackOf = None, se_bind = cb_bindMessage, se_revokeFor = cb_revokeForMessage,
      se_urls = (\<lambda>_. None), se_valid = (\<lambda>_. True), se_arrow = ''>'', se_bullet = ''*'', se_wide = (\<lambda>_. []),
      se_sha256 = (\<lambda>s. s)\<rparr>"

definition demo_chat :: "callback_registry chat" where
  "demo_chat = \<lparr>ch_registry = cb_new None None, ch_outbox = Some NoFile, ch_drawn = 0, ch_calls = [], ch_warned = []\<rparr>"

definition demo_target :: send_target where
  "demo_target = \<lparr>st_roomId = ''!r:hs'', st_triggerEventId = Some ''$q'', st_threadRootId = None,
     st_callbackUserId = Some ''@u:hs''\<rparr>"

abbreviation demo_buttons :: keyboard where
  "demo_buttons \<equiv> [[BtnCallback ''Yes'' ''y'' None None None, BtnCallback ''No'' ''n'' None None None]]"

lemma demo_sender_ok: "opaque_sender (demo_sender a)" "inj (se_random (demo_sender a))" "newest (demo_sender a) demo_chat []"
  by (auto simp: opaque_sender_def demo_sender_def newest_def demo_chat_def cb_new_def inj_def)

theorem sent_buttons_work_witness:
  "\<exists>s' c. sendMessageWithOptions (demo_sender (Inr ''$e'')) demo_target \<lparr>ms_text = Some ''Pick'', ms_html = None\<rparr>
      (no_options\<lparr>so_keyboard := Kb demo_buttons\<rparr>) demo_chat = (Inr ''$e'', s') \<and>
    content_field (last (ch_calls s')) KEYBOARD_CONTENT_KEY = Some (content_json c) \<and>
    list_all (button_works (demo_sender (Inr ''$e'')) demo_target ''$e'' (ch_registry s'))
      (filter is_callback (concat (kc_inline c)))"
proof -
  let ?W = "demo_sender (Inr ''$e'')" and ?o = "no_options\<lparr>so_keyboard := Kb demo_buttons\<rparr>"
  let ?src = "\<lparr>ms_text = Some ''Pick'', ms_html = None\<rparr> :: message_source"
  obtain r s' where s: "sendMessageWithOptions ?W demo_target ?src ?o demo_chat = (r, s')"
    by fastforce
  have "r = Inr ''$e''"
    using s by (auto simp: sendMessageWithOptions_def sendEventWithOutbox_def call_with_outbox_def demo_sender_def Let_def
        split: prod.splits)
  moreover have "send_keyboard ?o = Some demo_buttons"
    by (simp add: send_keyboard_def kb_isEmpty_def kb_buttons_def)
  ultimately show ?thesis
    using sent_buttons_work [OF demo_sender_ok _ _ _ s [unfolded \<open>r = Inr ''$e''\<close>]] s
    by (simp add: no_options_def demo_chat_def cb_new_def)
qed

text \<open>What a failed send leaves in the outbox: its own call, whatever the later attempts did.\<close>

lemma resend_bumped: "outbox_resend (fold bump errs en) = outbox_resend en"
proof (induction errs arbitrary: en)
  case (Cons err errs)
  have "outbox_resend (bump err en) = outbox_resend en"
    by (simp add: outbox_resend_def bump_def Let_def split: option.split)
  with Cons show ?case by simp
qed simp

lemma queued_call:
  assumes "sendMessageWithOptions W tgt src opts s = (Inl err, s')" and "isTransientSendError err"
    and "ch_outbox (snd (snd (buildMessageContent W src opts tgt s))) = Some f"
  shows "\<exists>f' en. ch_outbox s' = Some f' \<and> ob_read f' = ob_read f @ [en] \<and> en_attempts en = 0 \<and>
    (\<forall>errs. outbox_resend (fold bump errs en) = last (ch_calls s')) \<and>
    cc_txnId (last (ch_calls s')) = truthy (resolveTxnId (se_sha256 W) opts) \<and>
    ch_registry s' = ch_registry (snd (snd (buildMessageContent W src opts tgt s)))"
  using assms unfolding resend_bumped
  by (auto simp: sendMessageWithOptions_def sendEventWithOutbox_def call_with_outbox_def enqueue_call_def entry_of_def
      ob_enqueue_def outbox_resend_def Let_def split: prod.splits sum.splits if_splits)

text \<open>
  C29 (refinement). A send that failed for a passing reason is queued as the call that failed:
  a later flush makes, also after further failed attempts, the same call with the same room,
  type, content and transaction id. When the caller gave a transaction id or an idempotency
  key, the PUTs of the first attempt and of every later one carry that very id, so that the
  homeserver takes them for one request. The tokens of the message's keyboard stay unbound.
  Without a given id nothing of the sort holds (\<open>resend_without_id\<close>).
\<close>

theorem outbox_keeps_the_request:
  assumes "sendMessageWithOptions W tgt src opts s = (Inl err, s')" and "isTransientSendError err"
    and "ch_outbox (snd (snd (buildMessageContent W src opts tgt s))) = Some f"
    and "truthy (resolveTxnId (se_sha256 W) opts) = Some t"
  shows "\<exists>f' en. ch_outbox s' = Some f' \<and> ob_read f' = ob_read f @ [en] \<and> en_attempts en = 0 \<and>
    (\<forall>errs. outbox_resend (fold bump errs en) = last (ch_calls s')) \<and>
    (\<forall>now source. fst (put_txn (last (ch_calls s')) now source) = t) \<and>
    (\<forall>errs now source. fst (put_txn (outbox_resend (fold bump errs en)) now source) = t) \<and>
    ch_registry s' = ch_registry (snd (snd (buildMessageContent W src opts tgt s)))"
  using queued_call [OF assms(1-3)] assms(4) by (auto simp: put_txn_def)

theorem outbox_keeps_the_request_witness:
  "\<exists>s' f' en. sendMessageWithOptions (demo_sender (Inl (RequestTimeoutError 5 ''PUT'' ''/send''))) demo_target
      \<lparr>ms_text = Some ''Hi'', ms_html = None\<rparr> (no_options\<lparr>so_txnId := Some ''k1''\<rparr>) demo_chat
      = (Inl (RequestTimeoutError 5 ''PUT'' ''/send''), s') \<and>
    ch_outbox s' = Some f' \<and> ob_read f' = [en] \<and>
    fst (put_txn (outbox_resend (bump ''again'' en)) 7 \<lparr>ts_prefix = ''p'', ts_counter = 3\<rparr>) = ''k1''"
proof -
  let ?W = "demo_sender (Inl (RequestTimeoutError 5 ''PUT'' ''/send''))" and ?o = "no_options\<lparr>so_txnId := Some ''k1''\<rparr>"
  let ?src = "\<lparr>ms_text = Some ''Hi'', ms_html = None\<rparr> :: message_source"
  obtain r s' where s: "sendMessageWithOptions ?W demo_target ?src ?o demo_chat = (r, s')"
    by fastforce
  have r: "r = Inl (RequestTimeoutError 5 ''PUT'' ''/send'')"
    using s by (auto simp: sendMessageWithOptions_def sendEventWithOutbox_def call_with_outbox_def demo_sender_def Let_def
        split: prod.splits)
  have o: "ch_outbox (snd (snd (buildMessageContent ?W ?src ?o demo_target demo_chat))) = Some NoFile"
    by (simp add: buildMessageContent_def send_keyboard_def no_options_def demo_chat_def)
  have "isTransientSendError (RequestTimeoutError 5 ''PUT'' ''/send'')"
    and "truthy (resolveTxnId (se_sha256 ?W) ?o) = Some ''k1''"
    by (simp_all add: isTransientSendError_def resolveTxnId_def truthy_def)
  from outbox_keeps_the_request [OF s [unfolded r] this(1) o this(2)] obtain f' en where
    "ch_outbox s' = Some f'" "ob_read f' = [en]"
    and same: "\<forall>errs now source. fst (put_txn (outbox_resend (fold bump errs en)) now source) = ''k1''"
    by (auto simp: ob_read_def)
  moreover from same have "fst (put_txn (outbox_resend (bump ''again'' en)) 7 \<lparr>ts_prefix = ''p'', ts_counter = 3\<rparr>) = ''k1''"
    using spec [OF same, of "[''again'']"] by simp
  ultimately show ?thesis using s r by blast
qed

lemma later_txnId:
  assumes "ts_prefix src' = ts_prefix src" and "ts_counter src < ts_counter src'"
  shows "fst (txnId now' src') \<noteq> fst (txnId now src)"
proof
  assume "fst (txnId now' src') = fst (txnId now src)"
  then have "nat_dec (Suc (ts_counter src')) @ CHR ''.'' # nat_dec now' =
      nat_dec (Suc (ts_counter src)) @ CHR ''.'' # nat_dec now"
    using assms(1) by (simp add: txnId_def Let_def)
  then have "nat_dec (Suc (ts_counter src')) = nat_dec (Suc (ts_counter src))"
    by (rule conjunct1 [OF split_at_char [OF nat_dec_no_dot nat_dec_no_dot]])
  with assms(2) nat_dec_inj show False by fastforce
qed

text \<open>
  Without a transaction id or idempotency key the id of the first attempt is made up below
  the outbox and forgotten: every later attempt of the same client carries another one. When
  the attempt that "failed" by a timeout had reached the homeserver, the message is posted
  twice.
\<close>

theorem resend_without_id:
  assumes "sendMessageWithOptions W tgt src opts s = (Inl err, s')" and "isTransientSendError err"
    and "ch_outbox (snd (snd (buildMessageContent W src opts tgt s))) = Some f"
    and "truthy (resolveTxnId (se_sha256 W) opts) = None"
    and "ts_prefix later = ts_prefix source" and "ts_counter source < ts_counter later"
  shows "\<exists>f' en. ch_outbox s' = Some f' \<and> ob_read f' = ob_read f @ [en] \<and>
    outbox_resend en = last (ch_calls s') \<and>
    fst (put_txn (outbox_resend en) now' later) \<noteq> fst (put_txn (last (ch_calls s')) now source)"
proof -
  obtain f' en where q: "ch_outbox s' = Some f'" "ob_read f' = ob_read f @ [en]"
    "outbox_resend (fold bump [] en) = last (ch_calls s')" "cc_txnId (last (ch_calls s')) = None"
    using queued_call [OF assms(1-3)] assms(4) by metis
  then have "fst (put_txn (outbox_resend en) now' later) \<noteq> fst (put_txn (last (ch_calls s')) now source)"
    using later_txnId [OF assms(5,6)] by (simp add: put_txn_def)
  with q show ?thesis by auto
qed

theorem resend_without_id_witness:
  "\<exists>s' en. sendMessageWithOptions (demo_sender (Inl (RequestTimeoutError 5 ''PUT'' ''/send''))) demo_target
      \<lparr>ms_text = Some ''Hi'', ms_html = None\<rparr> no_options demo_chat
      = (Inl (RequestTimeoutError 5 ''PUT'' ''/send''), s') \<and>
    fst (put_txn (outbox_resend en) 8 \<lparr>ts_prefix = ''p'', ts_counter = 1\<rparr>) \<noteq>
      fst (put_txn (last (ch_calls s')) 7 \<lparr>ts_prefix = ''p'', ts_counter = 0\<rparr>)"
proof -
  let ?W = "demo_sender (Inl (RequestTimeoutError 5 ''PUT'' ''/send''))"
  let ?src = "\<lparr>ms_text = Some ''Hi'', ms_html = None\<rparr> :: message_source"
  obtain r s' where s: "sendMessageWithOptions ?W demo_target ?src no_options demo_chat = (r, s')"
    by fastforce
  have r: "r = Inl (RequestTimeoutError 5 ''PUT'' ''/send'')"
    using s by (auto simp: sendMessageWithOptions_def sendEventWithOutbox_def call_with_outbox_def demo_sender_def Let_def
        split: prod.splits)
  have o: "ch_outbox (snd (snd (buildMessageContent ?W ?src no_options demo_target demo_chat))) = Some NoFile"
    by (simp add: buildMessageContent_def send_keyboard_def no_options_def demo_chat_def)
  have t: "isTransientSendError (RequestTimeoutError 5 ''PUT'' ''/send'')"
    and "truthy (resolveTxnId (se_sha256 ?W) no_options) = None"
    by (simp_all add: isTransientSendError_def resolveTxnId_def truthy_def no_options_def)
  from resend_without_id [OF s [unfolded r] t o this(2), of "\<lparr>ts_prefix = ''p'', ts_counter = 1\<rparr>"
      "\<lparr>ts_prefix = ''p'', ts_counter = 0\<rparr>" 8 7] s r
  show ?thesis by auto
qed

text \<open>
  Whether an error counts as passing is read off its text, which for some errors contains
  names: a message that was refused because the devices of a peer are not known is queued
  for a later attempt exactly when the name of a room, peer or server happens to contain a
  word like "network".
\<close>

theorem transient_by_server_name:
  "isTransientSendError (PeerKeysMissingError ''!r:hs'' [''@u:network.org'']) \<and>
   \<not> isTransientSendError (PeerKeysMissingError ''!r:hs'' [''@u:example.org''])"
  by code_simp

section \<open>Edits\<close>

lemma keys_set: "set (jm_keys (jm_set k v m)) = insert k (set (jm_keys m))"
  unfolding update_keys by auto

lemma issue_keys:
  assumes "opaque_sender W" and "jm_wf (cb_tokens (ch_registry s))"
    and "se_issue W (se_random W (ch_drawn s)) p (ch_registry s) = (t, r)"
  shows "jm_wf (cb_tokens r) \<and> set (jm_keys (cb_tokens r)) \<subseteq> insert (se_random W (ch_drawn s)) (set (jm_keys (cb_tokens (ch_registry s))))"
proof -
  let ?p = "cb_prune (se_now W) (ch_registry s)"
  have "set (cb_tokens ?p) \<subseteq> set (cb_tokens (ch_registry s))"
    using jm_evict_subset [OF jm_wf_filter [OF assms(2)]] by (force simp: cb_prune_def)
  then have sub: "set (jm_keys (cb_tokens ?p)) \<subseteq> set (jm_keys (cb_tokens (ch_registry s)))"
    by auto
  have wf: "jm_wf (cb_tokens ?p)"
    using assms(2) by (simp add: cb_prune_def)
  have "\<exists>v. cb_tokens r = jm_set (se_random W (ch_drawn s)) v (cb_tokens ?p)"
    using assms(1,3) by (auto simp: opaque_sender_def cb_issue_def Let_def)
  then obtain v where r: "cb_tokens r = jm_set (se_random W (ch_drawn s)) v (cb_tokens ?p)" ..
  show ?thesis
    unfolding r keys_set using wf sub by (auto simp del: set_map)
qed

text \<open>The tokens known after serialising a keyboard were known before or are among the random ids drawn.\<close>

definition only_drawn :: "callback_registry sender \<Rightarrow> callback_registry chat \<Rightarrow> callback_registry chat \<Rightarrow> bool" where
  "only_drawn W s s' \<longleftrightarrow>
     jm_wf (cb_tokens (ch_registry s')) \<and> ch_drawn s \<le> ch_drawn s' \<and>
     (\<forall>t \<in> set (jm_keys (cb_tokens (ch_registry s'))).
        t \<in> set (jm_keys (cb_tokens (ch_registry s))) \<or> (\<exists>n \<ge> ch_drawn s. t = se_random W n))"

lemma only_drawn_refl: "jm_wf (cb_tokens (ch_registry s)) \<Longrightarrow> only_drawn W s s"
  by (simp add: only_drawn_def)

lemma only_drawn_trans: "only_drawn W s s1 \<Longrightarrow> only_drawn W s1 s2 \<Longrightarrow> only_drawn W s s2"
  unfolding only_drawn_def by (meson le_trans)

lemma tokenize_button_drawn:
  assumes "opaque_sender W" and "jm_wf (cb_tokens (ch_registry s))" and "tokenize_button W tgt b s = (b', ts, s')"
  shows "only_drawn W s s'"
proof (cases b)
  case (BtnCallback t d tok fb st)
  obtain token r where i: "se_issue W (se_random W (ch_drawn s)) (issue_of tgt d) (ch_registry s) = (token, r)"
    by fastforce
  have "s' = s\<lparr>ch_registry := r, ch_drawn := ch_drawn s + 1\<rparr>"
    using assms(1,3) i by (auto simp: BtnCallback alias_of_def opaque_sender_def)
  then show ?thesis
    using issue_keys [OF assms(1,2) i] by (auto simp: only_drawn_def dest!: subsetD)
qed (use assms in \<open>auto simp: only_drawn_def\<close>)

lemma tokenize_row_drawn:
  assumes "opaque_sender W"
  shows "jm_wf (cb_tokens (ch_registry s)) \<Longrightarrow> tokenize_row W tgt bs s = (bs', ts, s') \<Longrightarrow> only_drawn W s s'"
proof (induction bs arbitrary: s bs' ts s')
  case (Cons b bs)
  then obtain b1 ts1 s1 bs2 ts2 where b: "tokenize_button W tgt b s = (b1, ts1, s1)" "tokenize_row W tgt bs s1 = (bs2, ts2, s')"
    by (auto simp: Let_def split: prod.splits)
  have d: "only_drawn W s s1"
    by (rule tokenize_button_drawn [OF assms Cons.prems(1) b(1)])
  then show ?case
    using Cons.IH [OF _ b(2)] only_drawn_trans [OF d] by (simp add: only_drawn_def)
qed (simp add: only_drawn_refl)

lemma tokenize_rows_drawn:
  assumes "opaque_sender W"
  shows "jm_wf (cb_tokens (ch_registry s)) \<Longrightarrow> tokenize_rows W tgt rows s = (rows', ts, s') \<Longrightarrow> only_drawn W s s'"
proof (induction rows arbitrary: s rows' ts s')
  case (Cons row rows)
  then obtain b1 ts1 s1 bs2 ts2 where b: "tokenize_row W tgt row s = (b1, ts1, s1)" "tokenize_rows W tgt rows s1 = (bs2, ts2, s')"
    by (auto simp: Let_def split: prod.splits)
  have d: "only_drawn W s s1"
    by (rule tokenize_row_drawn [OF assms Cons.prems(1) b(1)])
  then show ?case
    using Cons.IH [OF _ b(2)] only_drawn_trans [OF d] by (simp add: only_drawn_def)
qed (simp add: only_drawn_refl)

lemma edit_failed_registry:
  assumes "editMessageWithOptions W tgt e src opts s = (Inl err, s')"
  shows "ch_registry s' = ch_registry (snd (snd (edit_keyboard W tgt e opts s)))"
  using assms by (auto simp: editMessageWithOptions_def Let_def sendEvent_parts(1) split: prod.splits sum.splits)

text \<open>
  An edit that replaces or removes the keyboard revokes the tokens of the message before it
  is sent. So when the send fails, the message still shows its old buttons, in the event as
  well as in the fallback, and none of them works any more.
\<close>

theorem failed_edit_kills_buttons:
  assumes "opaque_sender W" and "newest W s []" and "so_keyboard opts \<noteq> Kb_absent"
    and "editMessageWithOptions W tgt e src opts s = (Inl err, s')"
    and "fst (cb_peek (se_now W) t (ch_registry s)) = Some r" and "cr_messageEventId r = e"
  shows "fst (cb_peek (se_now W) t (ch_registry s')) = None"
proof -
  let ?g = "ch_registry s"
  let ?s1 = "s\<lparr>ch_registry := se_revokeFor W e ?g\<rparr>"
  have wf: "jm_wf (cb_tokens ?g)" and fresh: "\<And>n. ch_drawn s \<le> n \<Longrightarrow> se_random W n \<notin> set (jm_keys (cb_tokens ?g))"
    using assms(2) unfolding newest_def by blast+
  have r: "jm_get (cb_tokens ?g) t = Some r"
    using assms(5) by (auto simp: cb_peek_def split: option.splits if_splits)
  have rev: "se_revokeFor W = cb_revokeForMessage"
    using assms(1) by (simp add: opaque_sender_def)
  have wf1: "jm_wf (cb_tokens (ch_registry ?s1))"
    using wf by (simp add: rev cb_revokeForMessage_def)
  have "jm_get (cb_tokens (ch_registry ?s1)) t = None"
    using r by (simp add: rev cb_revokeForMessage_def jm_get_filter [OF wf] assms(6))
  then have gone: "t \<notin> set (jm_keys (cb_tokens (ch_registry ?s1)))"
    by (simp add: map_of_eq_None_iff)
  have drawn: "only_drawn W ?s1 (snd (snd (edit_keyboard W tgt e opts s)))"
  proof (cases "so_keyboard opts")
    case (Kb kb)
    show ?thesis
    proof (cases "kb_isEmpty kb")
      case False
      obtain c ts s2 where k: "tokenizeKeyboard W tgt kb ?s1 = (c, ts, s2)"
        by (metis prod_cases3)
      then obtain rows where "tokenize_rows W tgt (kb_buttons kb) ?s1 = (rows, ts, s2)"
        by (auto simp: tokenizeKeyboard_rows)
      from tokenize_rows_drawn [OF assms(1) wf1 this] False Kb k show ?thesis
        by (simp add: edit_keyboard_def Let_def)
    qed (simp add: edit_keyboard_def Kb Let_def only_drawn_refl [OF wf1])
  qed (use assms(3) in \<open>simp_all add: edit_keyboard_def only_drawn_refl [OF wf1]\<close>)
  have known: "t \<in> set (jm_keys (cb_tokens ?g))"
    using r by (metis map_of_eq_None_iff option.distinct(1) set_map)
  have "t \<noteq> se_random W n" if "ch_drawn s \<le> n" for n
    using fresh [OF that] known by blast
  then have "t \<notin> set (jm_keys (cb_tokens (ch_registry s')))"
    using drawn gone unfolding edit_failed_registry [OF assms(4)] only_drawn_def by auto
  then have "jm_get (cb_tokens (ch_registry s')) t = None"
    by (simp add: map_of_eq_None_iff)
  then show ?thesis
    by (simp add: cb_peek_def)
qed

definition demo_sent_chat :: "callback_registry chat" where
  "demo_sent_chat = demo_chat\<lparr>ch_registry := cb_bindMessage [''old''] ''$e''
     (snd (cb_issue 1000 ''old'' (issue_of demo_target ''y'') (cb_new None None)))\<rparr>"

theorem failed_edit_kills_buttons_witness:
  "fst (cb_peek 1000 ''old'' (ch_registry demo_sent_chat)) \<noteq> None \<and>
   fst (cb_peek 1000 ''old'' (ch_registry (snd (editMessageWithOptions (demo_sender (Inl (RateLimitedError 5 [] [])))
     demo_target ''$e'' \<lparr>ms_text = Some ''x'', ms_html = None\<rparr> (no_options\<lparr>so_keyboard := Kb demo_buttons\<rparr>) demo_sent_chat)))) = None"
proof -
  let ?W = "demo_sender (Inl (RateLimitedError 5 [] []))" and ?o = "no_options\<lparr>so_keyboard := Kb demo_buttons\<rparr>"
  let ?src = "\<lparr>ms_text = Some ''x'', ms_html = None\<rparr> :: message_source"
  obtain r s' where s: "editMessageWithOptions ?W demo_target ''$e'' ?src ?o demo_sent_chat = (r, s')"
    by fastforce
  have r: "r = Inl (RateLimitedError 5 [] [])"
    using s by (auto simp: editMessageWithOptions_def sendEventWithOutbox_def call_with_outbox_def demo_sender_def Let_def
        split: prod.splits)
  have p: "cb_tokens (ch_registry demo_sent_chat) = [(''old'', \<lparr>cr_data = ''y'', cr_roomId = ''!r:hs'',
      cr_messageEventId = ''$e'', cr_userId = Some ''@u:hs'', cr_expiresAtMs = 86401000, cr_answered = False, cr_singleUse = False\<rparr>)]"
    "cb_ttlMs (ch_registry demo_sent_chat) = 86400000"
    by (simp_all add: demo_sent_chat_def demo_chat_def cb_issue_def Let_def cb_new_def issue_of_def demo_target_def truthy_def
        cb_prune_def jm_filter_def)
  have "newest ?W demo_sent_chat []"
    by (simp add: newest_def p demo_sender_def)
  from failed_edit_kills_buttons [OF demo_sender_ok(1) this _ s [unfolded r], of "''old''"] s show ?thesis
    by (simp add: no_options_def cb_peek_def p demo_sender_def)
qed

text \<open>
  An edit that only attaches a new keyboard takes the text of the message from the message
  as it was sent, which already ends with the fallback of its old keyboard. The new
  fallback is put behind the old one, so the list of buttons, now with dead commands in
  front, grows with every such edit.
\<close>

theorem keyboard_edit_keeps_old_fallback:
  assumes "readExistingEffectiveContent W e = Some old" and "readString old ''body'' = Some body" and "body \<noteq> []"
    and "send_keyboard opts = Some kb" and "so_keyboardFallback opts \<noteq> Some False" and "so_extra opts = []"
    and "editMessageWithOptions W tgt e (readExistingMessageSource W e) opts s = (r, s')"
  shows "\<exists>fallback. fallback \<noteq> [] \<and>
    content_field (last (ch_calls s')) ''body'' = Some (JStr (''* '' @ body @ [newline, newline] @ fallback))"
proof -
  have kb: "so_keyboard opts = Kb kb" "\<not> kb_isEmpty kb"
    using assms(4) by (auto simp: send_keyboard_def split: keyboard_option.splits if_splits)
  obtain c ts s1 where t: "tokenizeKeyboard W tgt kb (s\<lparr>ch_registry := se_revokeFor W e (ch_registry s)\<rparr>) = (c, ts, s1)"
    by (metis prod_cases3)
  let ?fb = "renderKeyboardFallback (se_urls W) (se_arrow W) c"
  have "map (map untoken) (kc_inline c) = map (map untoken) (kb_buttons kb)"
    by (rule tokenize_adds_tokens_only [OF t])
  then have "map untoken (concat (kc_inline c)) = map untoken (concat kb)"
    by (metis map_concat concat_buttons)
  moreover have "concat kb \<noteq> []"
    using kb(2) by (auto simp: kb_isEmpty_def kb_buttons_def filter_empty_conv)
  ultimately obtain b bs where c: "concat (kc_inline c) = b # bs"
    by (cases "concat (kc_inline c)") auto
  have fb: "kf_text ?fb \<noteq> []"
    by (simp add: renderKeyboardFallback_def Let_def c) (cases bs; simp add: enumerate_simps)
  have src: "source_plain W (readExistingMessageSource W e) = body"
    by (simp add: source_plain_def readExistingMessageSource_def assms(1,2))
  have "fst (edit_bodies W (readExistingMessageSource W e) opts (Some c)) = body @ [newline, newline] @ kf_text ?fb"
    using assms(3,5) fb by (simp add: edit_bodies_def message_bodies_def kb(1) with_fallback_def src Let_def)
  then obtain h where b: "edit_bodies W (readExistingMessageSource W e) opts (Some c) = (body @ [newline, newline] @ kf_text ?fb, h)"
    by (metis prod.collapse)
  have "cc_content (last (ch_calls s')) = JObj (edit_fields (body @ [newline, newline] @ kf_text ?fb) h e
      (text_fields (so_notice opts) (body @ [newline, newline] @ kf_text ?fb) h (Some c)))"
    using assms(7) t b kb assms(6)
    by (auto simp: editMessageWithOptions_def edit_keyboard_def Let_def assign_fields_def sendEvent_parts(2)
        split: prod.splits sum.splits)
  then have "content_field (last (ch_calls s')) ''body'' = Some (JStr (''* '' @ body @ [newline, newline] @ kf_text ?fb))"
    by (auto simp: content_field_def json_prop_def edit_fields_def assign_fields_def update_conv' text_fields_def
        KEYBOARD_CONTENT_KEY_def split: option.split)
  with fb show ?thesis
    by blast
qed

theorem keyboard_edit_keeps_old_fallback_witness:
  "\<exists>fallback. fallback \<noteq> [] \<and>
    content_field (last (ch_calls (snd (editMessageWithOptions (demo_sender (Inr ''$e2'')) demo_target ''$e''
      (readExistingMessageSource (demo_sender (Inr ''$e2'')) ''$e'') (no_options\<lparr>so_keyboard := Kb demo_buttons\<rparr>) demo_chat)))) ''body''
    = Some (JStr (''* '' @ (''Pick'' @ [newline, newline] @ ''1. Yes > !cb t'') @ [newline, newline] @ fallback))"
proof -
  let ?W = "demo_sender (Inr ''$e2'')" and ?o = "no_options\<lparr>so_keyboard := Kb demo_buttons\<rparr>"
  obtain r s' where s: "editMessageWithOptions ?W demo_target ''$e'' (readExistingMessageSource ?W ''$e'') ?o demo_chat = (r, s')"
    by fastforce
  show ?thesis
    using keyboard_edit_keeps_old_fallback [OF _ _ _ _ _ _ s, of _ "''Pick'' @ [newline, newline] @ ''1. Yes > !cb t''" demo_buttons] s
    by (simp add: readExistingEffectiveContent_def effective_content_def demo_sender_def json_prop_def isPlainObject_def
        readString_def send_keyboard_def kb_isEmpty_def kb_buttons_def no_options_def)
qed

section \<open>Plain texts\<close>

definition newlines :: "string \<Rightarrow> nat" where
  "newlines s = length (filter (\<lambda>c. c = newline) s)"

lemma markup_breaks: "markup (replace_char newline ''<br/>'' (escapeHtml s)) = concat (replicate (newlines s) (markup ''<br/>''))"
proof (induction s)
  case (Cons c s)
  have "markup (replace_char newline ''<br/>'' (escape_char c)) = (if c = newline then markup ''<br/>'' else [])"
    by (auto simp: escape_char_def html_special_def replace_char_def markup_def)
  with Cons show ?case
    by (simp add: escapeHtml_Cons newlines_def del: markup_simps(2))
qed (simp add: newlines_def)

text \<open>
  In the formatted body of a message whose text is plain, the characters that delimit tags
  and attributes are those of one paragraph, of one break per line end of the text and of
  the fallback of the keyboard: whatever else the text holds, it cannot open or close a tag
  or leave an attribute.
\<close>

theorem plain_message_no_injection:
  assumes "ms_html src = None" and "parse_mode_of opts = Plain"
    and "message_bodies W src opts (fallback_base W src opts) (Some c) = (plain, Some h)"
  shows "markup h =
    (case truthy (ms_text src) of
       Some t \<Rightarrow> markup ''<p>'' @ concat (replicate (newlines t) (markup ''<br/>'')) @ markup ''</p>'' | None \<Rightarrow> []) @
    markup (kf_html (renderKeyboardFallback (se_urls W) (se_arrow W) c))"
proof -
  let ?html = "kf_html (renderKeyboardFallback (se_urls W) (se_arrow W) c)"
  have "source_html W src opts = None"
    using assms(1,2) by (simp add: source_html_def split: option.split)
  then have h: "h = fallback_base W src opts @ ?html"
    using assms(3) by (auto simp: message_bodies_def with_fallback_def Let_def split: if_splits)
  have "markup (fallback_base W src opts) = (case truthy (ms_text src) of
       Some t \<Rightarrow> markup ''<p>'' @ concat (replicate (newlines t) (markup ''<br/>'')) @ markup ''</p>'' | None \<Rightarrow> [])"
  proof (cases "truthy (ms_text src)")
    case None
    then show ?thesis by (simp add: fallback_base_def plainToHtml_def)
  next
    case (Some t)
    then have "fallback_base W src opts = ''<p>'' @ replace_char newline ''<br/>'' (escapeHtml t) @ ''</p>''"
      unfolding fallback_base_def Some using Some by (simp add: formatPlain_def assms(2) plainToHtml_def truthy_Some)
    then show ?thesis
      by (simp only: Some option.case markup_append markup_breaks)
  qed
  then show ?thesis
    by (simp only: h markup_append)
qed

theorem plain_message_no_injection_witness:
  "\<exists>plain h. message_bodies (demo_sender (Inr [])) \<lparr>ms_text = Some ''<b>'', ms_html = None\<rparr> no_options
      (fallback_base (demo_sender (Inr [])) \<lparr>ms_text = Some ''<b>'', ms_html = None\<rparr> no_options)
      (Some (kb_toContent demo_buttons)) = (plain, Some h) \<and>
    markup h = markup ''<p></p><ol><li><code></code></li><li><code></code></li></ol>''"
proof -
  let ?W = "demo_sender (Inr [])" and ?src = "\<lparr>ms_text = Some ''<b>'', ms_html = None\<rparr> :: message_source"
  let ?c = "kb_toContent demo_buttons"
  obtain plain hh where m: "message_bodies ?W ?src no_options (fallback_base ?W ?src no_options) (Some ?c) = (plain, hh)"
    by fastforce
  have "kf_html (renderKeyboardFallback (se_urls ?W) (se_arrow ?W) ?c) \<noteq> []"
    by (simp add: renderKeyboardFallback_def Let_def kb_toContent_def kb_buttons_def)
  then have "hh \<noteq> None"
    using m by (auto simp: message_bodies_def no_options_def with_fallback_def Let_def)
  then obtain h where h: "hh = Some h" by blast
  have "markup h = (case truthy (ms_text ?src) of
       Some t \<Rightarrow> markup ''<p>'' @ concat (replicate (newlines t) (markup ''<br/>'')) @ markup ''</p>'' | None \<Rightarrow> []) @
    markup (kf_html (renderKeyboardFallback (se_urls ?W) (se_arrow ?W) ?c))"
    by (rule plain_message_no_injection [OF _ _ m [unfolded h]]) (simp_all add: parse_mode_of_def no_options_def)
  also have "(case truthy (ms_text ?src) of
       Some t \<Rightarrow> markup ''<p>'' @ concat (replicate (newlines t) (markup ''<br/>'')) @ markup ''</p>'' | None \<Rightarrow> []) =
      markup ''<p></p>''"
    by (simp add: truthy_def newlines_def)
  also have "markup (kf_html (renderKeyboardFallback (se_urls ?W) (se_arrow ?W) ?c)) =
      markup ''<ol><li><code></code></li><li><code></code></li></ol>''"
    unfolding fallback_html_no_injection by (simp add: html_special_def kb_toContent_def kb_buttons_def)
  also have "markup ''<p></p>'' @ markup ''<ol><li><code></code></li><li><code></code></li></ol>'' =
      markup ''<p></p><ol><li><code></code></li><li><code></code></li></ol>''"
    by simp
  finally show ?thesis
    using m h by blast
qed

end
