(* ===== verification/Media.thy ===== *)
theory Media
  imports Html Errors Miniapp_Events
begin

text \<open>
  \<^verbatim>\<open>src/media.ts\<close>: content URIs, content types, uploads and downloads, the blocks of
  encrypted files, and attachments read from a message. What the homeserver answers to a
  request is an argument; the requests made are part of the result.
\<close>

section \<open>Content URIs\<close>

record mxc_uri =
  mx_server :: string
  mx_media :: string

definition mxc_char :: "char \<Rightarrow> bool" where
  "mxc_char c = (c \<noteq> CHR ''/'' \<and> c \<noteq> CHR ''?'' \<and> c \<noteq> CHR ''#'')"

text \<open>\<open>/^mxc:\/\/([^/?#]+)\/([^/?#]+)$/\<close> on the trimmed text.\<close>

definition parseMxcUri :: "string \<Rightarrow> mxc_uri option" where
  "parseMxcUri uri =
     (let s = js_trim uri; r = drop 6 s; server = takeWhile mxc_char r; rest = dropWhile mxc_char r
      in if js_starts_with s ''mxc://'' \<and> server \<noteq> [] \<and> js_starts_with rest ''/'' \<and> tl rest \<noteq> [] \<and>
            list_all mxc_char (tl rest)
         then Some \<lparr>mx_server = server, mx_media = tl rest\<rparr> else None)"

section \<open>Content types\<close>

definition MIME_BY_EXTENSION :: "string \<Rightarrow> string option" where
  "MIME_BY_EXTENSION = map_of
    [(''.png'', ''image/png''), (''.jpg'', ''image/jpeg''), (''.jpeg'', ''image/jpeg''), (''.gif'', ''image/gif''),
     (''.webp'', ''image/webp''), (''.svg'', ''image/svg+xml''), (''.bmp'', ''image/bmp''), (''.avif'', ''image/avif''),
     (''.pdf'', ''application/pdf''), (''.txt'', ''text/plain''), (''.csv'', ''text/csv''),
     (''.json'', ''application/json''), (''.zip'', ''application/zip''), (''.mp3'', ''audio/mpeg''),
     (''.ogg'', ''audio/ogg''), (''.oga'', ''audio/ogg''), (''.opus'', ''audio/opus''), (''.wav'', ''audio/wav''),
     (''.m4a'', ''audio/mp4''), (''.mp4'', ''video/mp4''), (''.webm'', ''video/webm''), (''.mov'', ''video/quicktime''),
     (''.mkv'', ''video/x-matroska''), (''.doc'', ''application/msword''),
     (''.docx'', ''application/vnd.openxmlformats-officedocument.wordprocessingml.document''),
     (''.xls'', ''application/vnd.ms-excel''),
     (''.xlsx'', ''application/vnd.openxmlformats-officedocument.spreadsheetml.sheet'')]"

definition OCTET_STREAM :: string where "OCTET_STREAM = ''application/octet-stream''"

text \<open>What follows the last dot of a name, with the dot.\<close>

definition extension :: "string \<Rightarrow> string option" where
  "extension name =
     (let after = rev (takeWhile (\<lambda>c. c \<noteq> CHR ''.'') (rev name))
      in if CHR ''.'' \<in> set name then Some (CHR ''.'' # after) else None)"

definition guessMimeType :: "string \<Rightarrow> string \<Rightarrow> string" where
  "guessMimeType filename fallback =
     (case extension filename of
        None \<Rightarrow> fallback
      | Some e \<Rightarrow> (case MIME_BY_EXTENSION (map js_lower_char e) of Some m \<Rightarrow> m | None \<Rightarrow> fallback))"

definition msgtypeForMime :: "string \<Rightarrow> string" where
  "msgtypeForMime m =
     (if js_starts_with m ''image/'' then ''m.image''
      else if js_starts_with m ''audio/'' then ''m.audio''
      else if js_starts_with m ''video/'' then ''m.video''
      else ''m.file'')"

section \<open>Uploads and downloads\<close>

definition DEFAULT_MEDIA_LIMIT_BYTES :: int where
  "DEFAULT_MEDIA_LIMIT_BYTES = 100 * 1024 * 1024"

record upload_result =
  ur_contentUri :: string
  ur_contentType :: string
  ur_sizeBytes :: int

record upload_options =
  uo_filename :: "string option"
  uo_contentType :: "string option"
  uo_maxBytes :: "int option"

definition limit_of :: "int option \<Rightarrow> int" where
  "limit_of m = (case m of Some n \<Rightarrow> n | None \<Rightarrow> DEFAULT_MEDIA_LIMIT_BYTES)"

definition given_name :: "string option \<Rightarrow> string option" where
  "given_name n = (case n of Some (c # cs) \<Rightarrow> Some (c # cs) | _ \<Rightarrow> None)"

text \<open>
  The upload: its request, a POST with the file name in the query and the content type, is
  made unless the data is too large. The answer is an error or the content URI, if the
  response has one.
\<close>

definition uploadMedia ::
  "(string option \<Rightarrow> string \<Rightarrow> (js_error, string option) sum) \<Rightarrow> int \<Rightarrow> upload_options \<Rightarrow>
     (js_error, upload_result) sum" where
  "uploadMedia answer nbytes opts =
     (let lim = limit_of (uo_maxBytes opts);
          name = given_name (uo_filename opts);
          ctype = (case uo_contentType opts of
                     Some t \<Rightarrow> t
                   | None \<Rightarrow> (case name of Some n \<Rightarrow> guessMimeType n OCTET_STREAM | None \<Rightarrow> OCTET_STREAM))
      in if lim < nbytes then Inl (MediaTooLargeError nbytes lim)
         else case answer name ctype of
                Inl e \<Rightarrow> Inl e
              | Inr uri \<Rightarrow>
                  (case given_name uri of
                     None \<Rightarrow> Inl (BareError ''Media upload response did not include content_uri'')
                   | Some u \<Rightarrow> Inr \<lparr>ur_contentUri = u, ur_contentType = ctype, ur_sizeBytes = nbytes\<rparr>))"

record download_options =
  do_maxBytes :: "int option"
  do_allowLegacy :: "bool option"

definition mxc_path :: "string \<Rightarrow> mxc_uri \<Rightarrow> string" where
  "mxc_path endpoint m = endpoint @ encodeURIComponent (mx_server m) @ ''/'' @ encodeURIComponent (mx_media m)"

definition legacy_allowed :: "download_options \<Rightarrow> js_error \<Rightarrow> bool" where
  "legacy_allowed opts e \<longleftrightarrow>
     do_allowLegacy opts \<noteq> Some False \<and>
     (case e of MatrixError ae \<Rightarrow> isNotFound ae \<or> ae_errcode ae = Some ''M_UNRECOGNIZED'' | _ \<Rightarrow> False)"

text \<open>
  A fetch of an authenticated path and, where the answer allows, of a legacy one: the paths
  asked for, in order, and the last answer.
\<close>

definition fetch_with_legacy ::
  "(string \<Rightarrow> (js_error, 'b list) sum) \<Rightarrow> download_options \<Rightarrow> string \<Rightarrow> string \<Rightarrow>
     string list \<times> (js_error, 'b list) sum" where
  "fetch_with_legacy fetch opts path legacy =
     (case fetch path of
        Inr bytes \<Rightarrow> ([path], Inr bytes)
      | Inl e \<Rightarrow> (if legacy_allowed opts e then ([path, legacy], fetch legacy) else ([path], Inl e)))"

definition not_mxc :: "string \<Rightarrow> js_error" where
  "not_mxc uri = BareError (''Not an mxc:// URI: '' @ uri)"

definition downloadMedia ::
  "(string \<Rightarrow> (js_error, 'b list) sum) \<Rightarrow> string \<Rightarrow> download_options \<Rightarrow> string list \<times> (js_error, 'b list) sum" where
  "downloadMedia fetch uri opts =
     (case parseMxcUri uri of
        None \<Rightarrow> ([], Inl (not_mxc uri))
      | Some m \<Rightarrow>
          (let (asked, r) = fetch_with_legacy fetch opts (mxc_path ''/_matrix/client/v1/media/download/'' m)
                              (mxc_path ''/_matrix/media/v3/download/'' m)
           in (asked,
               case r of
                 Inl e \<Rightarrow> Inl e
               | Inr bytes \<Rightarrow>
                   (if limit_of (do_maxBytes opts) < int (length bytes)
                    then Inl (MediaTooLargeError (int (length bytes)) (limit_of (do_maxBytes opts))) else Inr bytes))))"

definition downloadThumbnail ::
  "(string \<Rightarrow> (js_error, 'b list) sum) \<Rightarrow> string \<Rightarrow> download_options \<Rightarrow> string list \<times> (js_error, 'b list) sum" where
  "downloadThumbnail fetch uri opts =
     (case parseMxcUri uri of
        None \<Rightarrow> ([], Inl (not_mxc uri))
      | Some m \<Rightarrow> fetch_with_legacy fetch opts (mxc_path ''/_matrix/client/v1/media/thumbnail/'' m)
                    (mxc_path ''/_matrix/media/v3/thumbnail/'' m))"

section \<open>Encrypted files\<close>

definition buildEncryptedFileBlock :: "(string \<times> json) list \<Rightarrow> string \<Rightarrow> (string \<times> json) list" where
  "buildEncryptedFileBlock info uri = jm_set ''url'' (JStr uri) info"

definition splitEncryptedFileBlock :: "(string \<times> json) list \<Rightarrow> (string \<times> (string \<times> json) list) option" where
  "splitEncryptedFileBlock block =
     (case given_name (readString (JObj block) ''url'') of
        None \<Rightarrow> None
      | Some u \<Rightarrow> Some (u, jm_del ''url'' block))"

section \<open>The client's uploads and downloads\<close>

text \<open>
  \<open>uploadContent\<close> and \<open>downloadContent\<close> of \<^verbatim>\<open>src/client.ts\<close>. For an encrypted room the
  crypto library, when it is ready, gives the length of the ciphertext and the encryption
  info; the decryption of a download is the library's.
\<close>

definition uploadContent ::
  "(string option \<Rightarrow> string \<Rightarrow> (js_error, string option) sum) \<Rightarrow> string option \<Rightarrow> bool \<Rightarrow>
     (int \<times> (string \<times> json) list) option \<Rightarrow> int \<Rightarrow> string option \<Rightarrow> string option \<Rightarrow>
     (js_error, upload_result \<times> json option) sum" where
  "uploadContent answer encryptFor isEncrypted crypto nbytes filename ctype =
     (case (given_name encryptFor, isEncrypted) of
        (Some room, True) \<Rightarrow>
          (case crypto of
             None \<Rightarrow> Inl (EncryptedRoomWithoutCryptoError room)
           | Some (cipherBytes, info) \<Rightarrow>
               (case uploadMedia answer cipherBytes
                       \<lparr>uo_filename = given_name filename, uo_contentType = Some OCTET_STREAM, uo_maxBytes = None\<rparr> of
                  Inl e \<Rightarrow> Inl e
                | Inr u \<Rightarrow> Inr (u, Some (JObj (buildEncryptedFileBlock info (ur_contentUri u))))))
      | _ \<Rightarrow>
          (case uploadMedia answer nbytes
                  \<lparr>uo_filename = given_name filename, uo_contentType = given_name ctype, uo_maxBytes = None\<rparr> of
             Inl e \<Rightarrow> Inl e
           | Inr u \<Rightarrow> Inr (u, None)))"

definition downloadContent ::
  "(string \<Rightarrow> (js_error, 'b list) sum) \<Rightarrow> ('b list \<Rightarrow> (string \<times> json) list \<Rightarrow> (js_error, 'b list) sum) option \<Rightarrow>
     string option \<Rightarrow> json option \<Rightarrow> download_options \<Rightarrow> string list \<times> (js_error, 'b list) sum" where
  "downloadContent fetch decrypt url block opts =
     (case block of
        Some (JObj ps) \<Rightarrow>
          (case splitEncryptedFileBlock ps of
             None \<Rightarrow> ([], Inl (ConfigurationError ''Encrypted file block has no url''))
           | Some (u, info) \<Rightarrow>
               (case decrypt of
                  None \<Rightarrow> ([], Inl (ConfigurationError ''Cannot decrypt attachment: crypto is disabled on this client''))
                | Some d \<Rightarrow>
                    (case downloadMedia fetch u opts of
                       (asked, Inl e) \<Rightarrow> (asked, Inl e)
                     | (asked, Inr cipher) \<Rightarrow> (asked, d cipher info))))
      | _ \<Rightarrow>
          (case given_name url of
             None \<Rightarrow> ([], Inl (ConfigurationError ''No url or file block to download''))
           | Some u \<Rightarrow> downloadMedia fetch u opts))"

section \<open>Media messages\<close>

record media_size =
  sz_width :: "int option"
  sz_height :: "int option"
  sz_durationMs :: "int option"

definition num_field :: "string \<Rightarrow> int option \<Rightarrow> (string \<times> json) list" where
  "num_field key v = (case v of Some n \<Rightarrow> [(key, JNum (Fin n))] | None \<Rightarrow> [])"

definition buildMediaInfo :: "string \<Rightarrow> int \<Rightarrow> media_size \<Rightarrow> (string \<times> json) list" where
  "buildMediaInfo mimetype nbytes p =
     [(''mimetype'', JStr mimetype), (''size'', JNum (Fin nbytes))] @ num_field ''w'' (sz_width p) @
     num_field ''h'' (sz_height p) @ num_field ''duration'' (sz_durationMs p)"

record attachment =
  at_msgtype :: string
  at_body :: string
  at_url :: "string option"
  at_file :: "json option"
  at_mimetype :: "string option"
  at_size :: "int option"
  at_dims :: media_size

definition ATTACHMENT_TYPES :: "string list" where
  "ATTACHMENT_TYPES = [''m.image'', ''m.file'', ''m.audio'', ''m.video'', ''m.sticker'']"

definition object_prop :: "json \<Rightarrow> string \<Rightarrow> json option" where
  "object_prop v key = (case json_prop v key of Some o1 \<Rightarrow> (if isPlainObject o1 then Some o1 else None) | None \<Rightarrow> None)"

definition readAttachmentFromContent :: "json \<Rightarrow> attachment option" where
  "readAttachmentFromContent content =
     (case readString content ''msgtype'' of
        None \<Rightarrow> None
      | Some t \<Rightarrow>
          (if t \<notin> set ATTACHMENT_TYPES then None
           else let info = (case object_prop content ''info'' of Some i \<Rightarrow> i | None \<Rightarrow> JObj [])
                in Some \<lparr>at_msgtype = t, at_body = (case readString content ''body'' of Some b \<Rightarrow> b | None \<Rightarrow> []),
                     at_url = readString content ''url'', at_file = object_prop content ''file'',
                     at_mimetype = readString info ''mimetype'', at_size = readNumber info ''size'',
                     at_dims = \<lparr>sz_width = readNumber info ''w'', sz_height = readNumber info ''h'',
                                sz_durationMs = readNumber info ''duration''\<rparr>\<rparr>))"

section \<open>Properties\<close>

lemma encoded_segment:
  "parseMxcUri uri = Some m \<Longrightarrow> mx_server m \<noteq> [] \<and> mx_media m \<noteq> [] \<and> list_all mxc_char (mx_server m) \<and>
     list_all mxc_char (mx_media m)"
  by (auto simp: parseMxcUri_def Let_def list_all_iff dest: set_takeWhileD split: if_splits)

text \<open>
  A content URI of a server and a media id without slash, question mark and hash is read
  back as these two parts, and whatever is accepted has such parts.
\<close>

theorem mxc_roundtrip:
  assumes "server \<noteq> []" and "media \<noteq> []" and "list_all mxc_char server" and "list_all mxc_char media"
    and "js_trim (''mxc://'' @ server @ ''/'' @ media) = ''mxc://'' @ server @ ''/'' @ media"
  shows "parseMxcUri (''mxc://'' @ server @ ''/'' @ media) = Some \<lparr>mx_server = server, mx_media = media\<rparr>"
proof -
  have "takeWhile mxc_char (server @ ''/'' @ media) = server" "dropWhile mxc_char (server @ ''/'' @ media) = ''/'' @ media"
    using assms(3) by (simp_all add: list_all_iff takeWhile_append2 dropWhile_append2 mxc_char_def)
  then show ?thesis
    unfolding parseMxcUri_def assms(5) using assms(1,2,4) by (simp add: Let_def js_starts_with_def)
qed

theorem mxc_roundtrip_witness:
  "parseMxcUri (''mxc://'' @ ''hs.org'' @ ''/'' @ ''AbC'') = Some \<lparr>mx_server = ''hs.org'', mx_media = ''AbC''\<rparr>"
  by (rule mxc_roundtrip) (simp_all add: mxc_char_def js_trim_def js_space_def)

text \<open>
  The parts of a content URI may be two dots, which percent-encoding leaves alone: a message
  of anyone can make the bot ask its homeserver, with its token, for a path with a parent
  segment, which the URL parser of the request then resolves.
\<close>

theorem download_path_parent_segment:
  "fst (downloadMedia (\<lambda>_. Inr []) ''mxc://../whoami'' \<lparr>do_maxBytes = None, do_allowLegacy = None\<rparr>)
     = [''/_matrix/client/v1/media/download/../whoami'']"
  by code_simp

text \<open>
  The limit of a download is looked at when all bytes are there: for every limit the
  response is fetched in full before it is refused.
\<close>

theorem download_limit_after_fetch:
  assumes "parseMxcUri uri = Some m" and "fetch (mxc_path ''/_matrix/client/v1/media/download/'' m) = Inr bytes"
    and "limit_of (do_maxBytes opts) < int (length bytes)"
  shows "downloadMedia fetch uri opts =
    ([mxc_path ''/_matrix/client/v1/media/download/'' m],
     Inl (MediaTooLargeError (int (length bytes)) (limit_of (do_maxBytes opts))))"
  using assms by (simp add: downloadMedia_def fetch_with_legacy_def)

theorem download_limit_after_fetch_witness:
  "downloadMedia (\<lambda>_. Inr [1, 2, 3 :: nat]) ''mxc://hs/x'' \<lparr>do_maxBytes = Some 2, do_allowLegacy = None\<rparr> =
    ([mxc_path ''/_matrix/client/v1/media/download/'' \<lparr>mx_server = ''hs'', mx_media = ''x''\<rparr>], Inl (MediaTooLargeError 3 2))"
proof -
  have "parseMxcUri ''mxc://hs/x'' = Some \<lparr>mx_server = ''hs'', mx_media = ''x''\<rparr>"
    by code_simp
  from download_limit_after_fetch [OF this, of "\<lambda>_. Inr [1, 2, 3 :: nat]" "[1, 2, 3]" "\<lparr>do_maxBytes = Some 2, do_allowLegacy = None\<rparr>"]
  show ?thesis by (simp add: limit_of_def)
qed

text \<open>
  The block of an encrypted file is split back into the URI and the encryption info it was
  built from.
\<close>

theorem encrypted_block_roundtrip:
  assumes "uri \<noteq> []" and "''url'' \<notin> fst ` set info"
  shows "splitEncryptedFileBlock (buildEncryptedFileBlock info uri) = Some (uri, info)"
proof -
  have "jm_set ''url'' (JStr uri) info = info @ [(''url'', JStr uri)]"
    using assms(2) by (simp add: update_absent)
  moreover have "jm_del ''url'' (info @ [(''url'', JStr uri)]) = info"
    using assms(2) delete_absent [of "''url''" info] by (auto simp: AList.delete_eq filter_id_conv intro: filter_True)
  moreover have "jm_get (info @ [(''url'', JStr uri)]) ''url'' = Some (JStr uri)"
    using assms(2) by (auto simp: map_add_def dest: map_of_SomeD split: option.split) (metis fst_conv image_eqI map_of_SomeD)
  ultimately show ?thesis
    using assms(1) by (cases uri) (simp_all add: splitEncryptedFileBlock_def buildEncryptedFileBlock_def readString_def
        isPlainObject_def json_prop_def given_name_def)
qed

theorem encrypted_block_roundtrip_witness:
  "splitEncryptedFileBlock (buildEncryptedFileBlock [(''v'', JStr ''v2'')] ''mxc://hs/x'') = Some (''mxc://hs/x'', [(''v'', JStr ''v2'')])"
  by (rule encrypted_block_roundtrip) simp_all

text \<open>
  In an encrypted room the bytes of a file go up as ciphertext, never in the clear: when an
  upload succeeds the request is the one for the ciphertext, with a neutral content type, and
  the message gets the block to decrypt it with; without working encryption nothing is sent.
  But the name of the file goes up in the clear, as a query parameter of that request.
\<close>

theorem encrypted_upload:
  assumes "room \<noteq> []" and "uploadContent answer (Some room) True crypto nbytes (Some name) ctype = Inr (u, f)"
    and "name \<noteq> []"
  shows "\<exists>cipherBytes info uri. crypto = Some (cipherBytes, info) \<and> answer (Some name) OCTET_STREAM = Inr (Some uri) \<and>
    u = \<lparr>ur_contentUri = uri, ur_contentType = OCTET_STREAM, ur_sizeBytes = cipherBytes\<rparr> \<and>
    f = Some (JObj (buildEncryptedFileBlock info uri))"
  using assms
  by (cases room; cases name)
    (auto simp: uploadContent_def uploadMedia_def given_name_def Let_def split: option.splits prod.splits sum.splits list.splits if_splits)

theorem encrypted_upload_witness:
  "\<exists>u f cipherBytes info uri. uploadContent (\<lambda>_ _. Inr (Some ''mxc://hs/c'')) (Some ''!r:hs'') True (Some (20, [])) 4
      (Some ''plan.pdf'') None = Inr (u, f) \<and>
    (\<lambda>_ _. Inr (Some ''mxc://hs/c'')) (Some ''plan.pdf'') OCTET_STREAM = (Inr (Some uri) :: (js_error, string option) sum) \<and>
    u = \<lparr>ur_contentUri = uri, ur_contentType = OCTET_STREAM, ur_sizeBytes = cipherBytes\<rparr>"
proof -
  obtain u f where up: "uploadContent (\<lambda>_ _. Inr (Some ''mxc://hs/c'')) (Some ''!r:hs'') True (Some (20, [])) 4
      (Some ''plan.pdf'') None = Inr (u, f)"
    by (simp add: uploadContent_def uploadMedia_def given_name_def limit_of_def DEFAULT_MEDIA_LIMIT_BYTES_def)
  from encrypted_upload [OF _ up] up show ?thesis
    by auto
qed

end
