(* ===== verification/Updates.thy ===== *)
theory Updates
  imports Send Media Router Room_Cache
begin

text \<open>
  The contexts of \<^verbatim>\<open>src/context.ts\<close>: how a raw Matrix event becomes a typed update
  (\<open>ContextFactory\<close> and the constructors of the context classes), and the methods of a
  context that send: their guards, the defaults they apply, files, the power checks of the
  admin helpers and the answer to a button press. An event is its JSON object.
\<close>

section \<open>Reading an update off an event\<close>

record message_update =
  mu_isEdit :: bool
  mu_editsEventId :: "string option"
  mu_text :: string
  mu_html :: "string option"
  mu_msgtype :: string
  mu_threadRootId :: "string option"
  mu_replyToEventId :: "string option"
  mu_mentions :: "string list"
  mu_mentionsRoom :: bool
  mu_attachment :: "attachment option"

definition empty_object :: json where "empty_object = JObj []"

definition content_of :: "json \<Rightarrow> json" where
  "content_of event = (case object_prop event ''content'' of Some c \<Rightarrow> c | None \<Rightarrow> empty_object)"

definition only_strings :: "json option \<Rightarrow> string list" where
  "only_strings v = (case v of Some (JArr xs) \<Rightarrow> List.map_filter (\<lambda>x. case x of JStr s \<Rightarrow> Some s | _ \<Rightarrow> None) xs | _ \<Rightarrow> [])"

definition is_true :: "json option \<Rightarrow> bool" where
  "is_true v \<longleftrightarrow> v = Some (JBool True)"

definition rel_type :: "json \<Rightarrow> string option" where
  "rel_type content = Option.bind (object_prop content ''m.relates_to'') (\<lambda>r. readString r ''rel_type'')"

definition relation_id :: "json \<Rightarrow> string option" where
  "relation_id content = Option.bind (object_prop content ''m.relates_to'') (\<lambda>r. readString r ''event_id'')"

text \<open>For an edit the text is that of the replacement.\<close>

definition edit_content :: "json \<Rightarrow> json" where
  "edit_content content =
     (if rel_type content = Some ''m.replace''
      then (case object_prop content ''m.new_content'' of Some n \<Rightarrow> n | None \<Rightarrow> content) else content)"

definition reply_target :: "json \<Rightarrow> string option" where
  "reply_target content =
     (case object_prop content ''m.relates_to'' of
        None \<Rightarrow> None
      | Some r \<Rightarrow>
          (if rel_type content = Some ''m.thread'' \<and> is_true (json_prop r ''is_falling_back'') then None
           else Option.bind (object_prop r ''m.in_reply_to'') (\<lambda>i. readString i ''event_id'')))"

definition read_message :: "json \<Rightarrow> message_update" where
  "read_message content =
     (let edit = (rel_type content = Some ''m.replace''); eff = edit_content content;
          mentions = object_prop content ''m.mentions''
      in \<lparr>mu_isEdit = edit,
          mu_editsEventId = (if edit then relation_id content else None),
          mu_text = or_default [] (readString eff ''body''),
          mu_html = (if readString eff ''format'' = Some ''org.matrix.custom.html'' then readString eff ''formatted_body'' else None),
          mu_msgtype = or_default ''m.text'' (readString eff ''msgtype''),
          mu_threadRootId = (if rel_type content = Some ''m.thread'' then relation_id content else None),
          mu_replyToEventId = reply_target content,
          mu_mentions = only_strings (Option.bind mentions (\<lambda>m. json_prop m ''user_ids'')),
          mu_mentionsRoom = is_true (Option.bind mentions (\<lambda>m. json_prop m ''room'')),
          mu_attachment = readAttachmentFromContent eff\<rparr>)"

record callback_press =
  cp_data :: string
  cp_messageEventId :: string
  cp_queryId :: string

record mini_app_update =
  ma_raw :: string
  ma_payload :: json
  ma_queryId :: "string option"
  ma_appId :: "string option"

datatype update_body =
    B_message message_update
  | B_reaction (react_key: string) (react_target: string)
  | B_redaction (redacted: string) (redact_reason: "string option")
  | B_membership (subject: string) (membership_text: string) (previous: "string option") (display_name: "string option")
      (is_self: bool) (is_invite: bool)
  | B_callback callback_press
  | B_mini_app mini_app_update
  | B_poll (poll_event: string) (poll_answer_ids: "string list")
  | B_ephemeral (ephemeral_type: string) (typing_users: "string list")
  | B_to_device (to_device_type: string) (to_device_content: json)
  | B_raw (raw_type: string)

record update =
  up_roomId :: string
  up_event :: json
  up_senderId :: string
  up_isDirect :: bool
  up_body :: update_body

definition up_eventId :: "update \<Rightarrow> string" where
  "up_eventId u = or_default [] (readString (up_event u) ''event_id'')"

fun body_type :: "update_body \<Rightarrow> update_type" where
  "body_type (B_message m) = (if mu_isEdit m then U_edited_message else U_message)"
| "body_type (B_reaction k t) = U_reaction"
| "body_type (B_redaction r why) = U_redaction"
| "body_type (B_membership s m p d self invited) = (if invited then U_invite else U_membership)"
| "body_type (B_callback c) = U_callback_query"
| "body_type (B_mini_app m) = U_mini_app_data"
| "body_type (B_poll e a) = U_poll_response"
| "body_type (B_ephemeral t us) = U_ephemeral"
| "body_type (B_to_device t c) = U_to_device"
| "body_type (B_raw t) = U_raw_event"

definition up_type :: "update \<Rightarrow> update_type" where
  "up_type u = body_type (up_body u)"

definition event_type :: "json \<Rightarrow> string" where
  "event_type event = or_default [] (readString event ''type'')"

definition event_sender :: "json \<Rightarrow> string" where
  "event_sender event = or_default [] (readString event ''sender'')"

definition read_reaction :: "json \<Rightarrow> update_body" where
  "read_reaction event =
     (let rel = (case object_prop (content_of event) ''m.relates_to'' of Some r \<Rightarrow> r | None \<Rightarrow> empty_object)
      in B_reaction (or_default [] (readString rel ''key'')) (or_default [] (readString rel ''event_id'')))"

definition read_redaction :: "json \<Rightarrow> update_body" where
  "read_redaction event =
     B_redaction
       (case readString event ''redacts'' of
          Some r \<Rightarrow> r | None \<Rightarrow> or_default [] (readString (content_of event) ''redacts''))
       (readString (content_of event) ''reason'')"

definition prev_content :: "json \<Rightarrow> json option" where
  "prev_content event = Option.bind (json_prop event ''unsigned'') (\<lambda>u. object_prop u ''prev_content'')"

definition read_membership :: "string \<Rightarrow> bool \<Rightarrow> json \<Rightarrow> update_body" where
  "read_membership selfId invited event =
     (let c = content_of event; subject = or_default [] (readString event ''state_key'')
      in B_membership subject (or_default ''leave'' (readString c ''membership''))
           (Option.bind (prev_content event) (\<lambda>p. readString p ''membership'')) (readString c ''displayname'')
           (subject = selfId) invited)"

definition read_poll :: "json \<Rightarrow> update_body" where
  "read_poll event =
     (let c = content_of event;
          rel = (case object_prop c ''m.relates_to'' of Some r \<Rightarrow> r | None \<Rightarrow> empty_object);
          response = (case object_prop c ''org.matrix.msc3381.poll.response'' of
                        Some r \<Rightarrow> r
                      | None \<Rightarrow> (case object_prop c ''m.poll.response'' of Some r \<Rightarrow> r | None \<Rightarrow> empty_object))
      in B_poll (or_default [] (readString rel ''event_id'')) (only_strings (json_prop response ''answers'')))"

definition read_ephemeral :: "json \<Rightarrow> update_body" where
  "read_ephemeral event = B_ephemeral (event_type event) (only_strings (json_prop (content_of event) ''user_ids''))"

definition read_to_device :: "json \<Rightarrow> update_body" where
  "read_to_device event = B_to_device (event_type event) (content_of event)"

section \<open>ContextFactory\<close>

text \<open>
  \<open>fromRoomEvent\<close> after its awaits: whether the room is direct, what \<open>readCallbackEvent\<close>
  and \<open>readMiniAppData\<close> of the bot answered.
\<close>

definition classify ::
  "string \<Rightarrow> callback_press option \<Rightarrow> mini_app_update option \<Rightarrow> json \<Rightarrow> update_body option" where
  "classify selfId callback miniApp event =
     (let ty = event_type event; content = content_of event
      in case callback of
           Some c \<Rightarrow> Some (B_callback c)
         | None \<Rightarrow>
             (case miniApp of
                Some m \<Rightarrow> Some (B_mini_app m)
              | None \<Rightarrow>
                  (if ty = ''m.room.message'' then
                     (if truthy (readString content ''msgtype'') = None then None else Some (B_message (read_message content)))
                   else if ty = ''m.reaction'' then Some (read_reaction event)
                   else if ty = ''m.room.redaction'' then Some (read_redaction event)
                   else if ty = ''m.room.member'' then
                     Some (read_membership selfId (readString content ''membership'' = Some ''invite'') event)
                   else if ty \<in> {''org.matrix.msc3381.poll.response'', ''m.poll.response''} then Some (read_poll event)
                   else Some (B_raw ty))))"

definition fromRoomEvent ::
  "string \<Rightarrow> string \<Rightarrow> bool \<Rightarrow> callback_press option \<Rightarrow> mini_app_update option \<Rightarrow> json \<Rightarrow> update option" where
  "fromRoomEvent selfId roomId isDirect callback miniApp event =
     map_option (\<lambda>b. \<lparr>up_roomId = roomId, up_event = event, up_senderId = event_sender event, up_isDirect = isDirect,
                      up_body = b\<rparr>) (classify selfId callback miniApp event)"

text \<open>The flag of an invite may be the boolean or the text \<open>true\<close>.\<close>

definition fromInvite :: "string \<Rightarrow> string \<Rightarrow> json \<Rightarrow> update" where
  "fromInvite selfId roomId event =
     \<lparr>up_roomId = roomId, up_event = event, up_senderId = event_sender event,
      up_isDirect = (readString (content_of event) ''is_direct'' = Some ''true'' \<or>
                     is_true (json_prop (content_of event) ''is_direct'')),
      up_body = read_membership selfId True event\<rparr>"

definition fromEphemeral :: "string \<Rightarrow> bool \<Rightarrow> json \<Rightarrow> update" where
  "fromEphemeral roomId isDirect event =
     \<lparr>up_roomId = roomId, up_event = event, up_senderId = event_sender event, up_isDirect = isDirect,
      up_body = read_ephemeral event\<rparr>"

definition fromToDevice :: "json \<Rightarrow> update" where
  "fromToDevice event =
     \<lparr>up_roomId = [], up_event = event, up_senderId = event_sender event, up_isDirect = False,
      up_body = read_to_device event\<rparr>"

text \<open>
  \<open>getDirectRoomIds\<close> of the client: the account data \<open>m.direct\<close>, as an empty object when it
  cannot be read, is put into the cache unless it was loaded before. \<open>isDirectRoom\<close> asks the
  cache, then the client, then the cache again.
\<close>

definition getDirectRoomIds :: "json option \<Rightarrow> bool \<Rightarrow> room_cache \<Rightarrow> string list \<times> room_cache" where
  "getDirectRoomIds answer force c =
     (if rc_directLoaded c \<and> \<not> force then (rc_direct c, c)
      else let c1 = rc_applyDirectAccountData (or_default empty_object answer) c in (rc_direct c1, c1))"

definition isDirectRoom :: "string \<Rightarrow> json option \<Rightarrow> room_cache \<Rightarrow> bool \<times> room_cache" where
  "isDirectRoom roomId answer c =
     (case rc_isDirect roomId c of
        (True, c1) \<Rightarrow> (True, c1)
      | (False, c1) \<Rightarrow>
          (if rc_directLoaded c1 then rc_isDirect roomId c1
           else let (direct, c2) = getDirectRoomIds answer False c1
                in if roomId \<in> set direct then (True, c2) else rc_isDirect roomId c2))"

section \<open>What is sent is read back\<close>

lemma object_prop_JObj [simp]:
  "object_prop (JObj ps) key = (case jm_get ps key of Some (JObj qs) \<Rightarrow> Some (JObj qs) | _ \<Rightarrow> None)"
  by (simp add: object_prop_def json_prop_def isPlainObject_def split: option.split json.split)

lemma readString_JObj [simp]:
  "readString (JObj ps) key = (case jm_get ps key of Some (JStr s) \<Rightarrow> Some s | _ \<Rightarrow> None)"
  by (simp add: readString_def json_prop_def isPlainObject_def split: option.split json.split)

lemma json_prop_JObj [simp]: "json_prop (JObj ps) key = jm_get ps key"
  by (simp add: json_prop_def)

lemma only_strings_JStr [simp]: "only_strings (Some (JArr (map JStr xs))) = xs"
  by (induction xs) (simp_all add: only_strings_def List.map_filter_simps)

lemma only_strings_None [simp]: "only_strings None = []"
  by (simp add: only_strings_def)

definition mention_ids :: "mention_options option \<Rightarrow> string list" where
  "mention_ids m = (case m of None \<Rightarrow> [] | Some x \<Rightarrow> unique (mo_userIds x))"

definition mentions_room :: "mention_options option \<Rightarrow> bool" where
  "mentions_room m = (case m of None \<Rightarrow> False | Some x \<Rightarrow> mo_room x)"

lemma unique_Nil [simp]: "unique [] = []"
  by (simp add: unique_def)

lemma text_fields_get:
  "jm_get (text_fields notice plain formatted kb) ''body'' = Some (JStr plain)"
  "jm_get (text_fields notice plain formatted kb) ''msgtype'' = Some (JStr (if notice then ''m.notice'' else ''m.text''))"
  "jm_get (text_fields notice plain formatted kb) ''format'' = map_option (\<lambda>_. JStr ''org.matrix.custom.html'') formatted"
  "jm_get (text_fields notice plain formatted kb) ''formatted_body'' = map_option JStr formatted"
  "jm_get (text_fields notice plain formatted kb) ''m.relates_to'' = None"
  "jm_get (text_fields notice plain formatted kb) ''m.mentions'' = None"
  "jm_get (text_fields notice plain formatted kb) ''m.new_content'' = None"
  by (auto simp: text_fields_def KEYBOARD_CONTENT_KEY_def split: option.split)

definition sent_fields :: "bool \<Rightarrow> string \<Rightarrow> string option \<Rightarrow> keyboard_content option \<Rightarrow> json option \<Rightarrow> mention_options option \<Rightarrow>
    (string \<times> json) list" where
  "sent_fields notice plain formatted kb rel m =
     text_fields notice plain formatted kb @ (case rel of Some r \<Rightarrow> [(''m.relates_to'', r)] | None \<Rightarrow> []) @ mention_fields m"

lemma mention_get:
  "jm_get (mention_fields m) ''m.relates_to'' = None" "jm_get (mention_fields m) ''body'' = None"
  "jm_get (mention_fields m) ''m.mentions'' =
     (if mention_ids m = [] \<and> \<not> mentions_room m then None
      else Some (JObj ((if mention_ids m \<noteq> [] then [(''user_ids'', JArr (map JStr (mention_ids m)))] else []) @
                       (if mentions_room m then [(''room'', JBool True)] else []))))"
  by (auto simp: mention_fields_def mention_ids_def mentions_room_def unique_def Let_def split: option.split)

lemma sent_get:
  "jm_get (sent_fields notice plain formatted kb rel m) ''body'' = Some (JStr plain)"
  "jm_get (sent_fields notice plain formatted kb rel m) ''msgtype'' = Some (JStr (if notice then ''m.notice'' else ''m.text''))"
  "jm_get (sent_fields notice plain formatted kb rel m) ''format'' = map_option (\<lambda>_. JStr ''org.matrix.custom.html'') formatted"
  "jm_get (sent_fields notice plain formatted kb rel m) ''formatted_body'' = map_option JStr formatted"
  "jm_get (sent_fields notice plain formatted kb rel m) ''m.relates_to'' = rel"
  "jm_get (sent_fields notice plain formatted kb rel m) ''m.mentions'' = jm_get (mention_fields m) ''m.mentions''"
  "jm_get (sent_fields notice plain formatted kb rel m) ''m.new_content'' = None"
  by (auto simp: sent_fields_def map_add_def text_fields_get mention_get mention_fields_def Let_def split: option.split)

definition relation_reply :: "send_options \<Rightarrow> send_target \<Rightarrow> string option" where
  "relation_reply opts tgt =
     (if truthy (thread_of opts tgt) = None then truthy (replyTo_of opts tgt) else replyTo_of opts tgt)"

text \<open>
  C14 (roundtrip). A message that a bot builds is read by another bot, or by the same one later, as it was
  meant: the text and the formatted body, a notice as a notice, the thread root, the event
  replied to, also inside a thread, where the reply for old clients does not count, and the
  mentions, each user once.
\<close>

theorem sent_message_read_back:
  assumes "so_extra opts = []" and "message_bodies W src opts (fallback_base W src opts) kb = (plain, formatted)"
  shows "read_message (JObj (message_fields W src opts tgt kb)) =
    \<lparr>mu_isEdit = False, mu_editsEventId = None, mu_text = plain, mu_html = formatted,
     mu_msgtype = (if so_notice opts then ''m.notice'' else ''m.text''),
     mu_threadRootId = truthy (thread_of opts tgt), mu_replyToEventId = relation_reply opts tgt,
     mu_mentions = mention_ids (so_mentions opts), mu_mentionsRoom = mentions_room (so_mentions opts),
     mu_attachment = None\<rparr>"
proof -
  have fields: "message_fields W src opts tgt kb =
      sent_fields (so_notice opts) plain formatted kb (buildRelation opts tgt) (so_mentions opts)"
    by (simp add: message_fields_def assms sent_fields_def assign_fields_def)
  have rel: "rel_type (JObj (message_fields W src opts tgt kb)) =
        (if truthy (thread_of opts tgt) = None then None else Some ''m.thread'')"
    "relation_id (JObj (message_fields W src opts tgt kb)) = truthy (thread_of opts tgt)"
    "reply_target (JObj (message_fields W src opts tgt kb)) = relation_reply opts tgt"
    by (cases "truthy (thread_of opts tgt)"; cases "truthy (replyTo_of opts tgt)"; cases "replyTo_of opts tgt";
      simp add: fields rel_type_def relation_id_def reply_target_def sent_get buildRelation_def Let_def in_reply_to_def
        relation_reply_def is_true_def)+
  have mentions: "only_strings (Option.bind (object_prop (JObj (message_fields W src opts tgt kb)) ''m.mentions'')
        (\<lambda>m. json_prop m ''user_ids'')) = mention_ids (so_mentions opts)"
    "is_true (Option.bind (object_prop (JObj (message_fields W src opts tgt kb)) ''m.mentions'')
        (\<lambda>m. json_prop m ''room'')) = mentions_room (so_mentions opts)"
    by (simp_all add: fields sent_get mention_get is_true_def)
  have eff: "edit_content (JObj (message_fields W src opts tgt kb)) = JObj (message_fields W src opts tgt kb)"
    by (simp add: edit_content_def rel)
  have attach: "readAttachmentFromContent (JObj (message_fields W src opts tgt kb)) = None"
    by (simp add: readAttachmentFromContent_def fields sent_get ATTACHMENT_TYPES_def)
  show ?thesis
    unfolding read_message_def Let_def eff attach mentions rel
    by (cases formatted) (simp_all add: fields sent_get)
qed

text \<open>
  An edit is read back as an edit of its message, with the new text and not the text with a
  star that old clients show.
\<close>

theorem edit_read_back:
  assumes "plain' = plain" and "newContent = text_fields notice plain formatted kb"
  shows "read_message (JObj (edit_fields plain' formatted e newContent)) =
    \<lparr>mu_isEdit = True, mu_editsEventId = Some e, mu_text = plain, mu_html = formatted,
     mu_msgtype = (if notice then ''m.notice'' else ''m.text''), mu_threadRootId = None, mu_replyToEventId = None,
     mu_mentions = [], mu_mentionsRoom = False, mu_attachment = None\<rparr>"
proof -
  let ?c = "edit_fields plain' formatted e newContent"
  have get: "jm_get ?c ''m.relates_to'' = Some (JObj [(''rel_type'', JStr ''m.replace''), (''event_id'', JStr e)])"
    "jm_get ?c ''m.new_content'' = Some (JObj newContent)" "jm_get ?c ''m.mentions'' = None"
    by (cases "truthy formatted"; simp add: edit_fields_def assign_fields_def update_conv' assms(2) text_fields_get)+
  have rel: "rel_type (JObj ?c) = Some ''m.replace''" "relation_id (JObj ?c) = Some e" "reply_target (JObj ?c) = None"
    by (simp_all add: rel_type_def relation_id_def reply_target_def get)
  have eff: "edit_content (JObj ?c) = JObj newContent"
    by (simp add: edit_content_def rel get)
  have attach: "readAttachmentFromContent (JObj newContent) = None"
    by (simp add: readAttachmentFromContent_def assms(2) text_fields_get ATTACHMENT_TYPES_def)
  have mentions: "object_prop (JObj ?c) ''m.mentions'' = None"
    by (simp add: get)
  show ?thesis
    unfolding read_message_def Let_def eff rel attach mentions
    by (cases formatted) (simp_all add: assms(2) text_fields_get is_true_def)
qed

theorem sent_message_read_back_witness:
  "mu_replyToEventId (read_message (JObj (message_fields (demo_sender (Inr [])) \<lparr>ms_text = Some ''Hi'', ms_html = None\<rparr>
      (no_options\<lparr>so_replyTo := Ref_flag True, so_mentions := Some \<lparr>mo_userIds = [''@a:hs'', ''@a:hs''], mo_room = False\<rparr>\<rparr>)
      demo_target None))) = Some ''$q'' \<and>
   mu_mentions (read_message (JObj (message_fields (demo_sender (Inr [])) \<lparr>ms_text = Some ''Hi'', ms_html = None\<rparr>
      (no_options\<lparr>so_replyTo := Ref_flag True, so_mentions := Some \<lparr>mo_userIds = [''@a:hs'', ''@a:hs''], mo_room = False\<rparr>\<rparr>)
      demo_target None))) = [''@a:hs'']"
  by (subst sent_message_read_back [OF _ prod.collapse [symmetric]],
      simp add: no_options_def,
      subst sent_message_read_back [OF _ prod.collapse [symmetric]],
      simp_all add: no_options_def relation_reply_def thread_of_def replyTo_of_def demo_target_def truthy_def
        mention_ids_def unique_def)

theorem edit_read_back_witness:
  "mu_text (read_message (JObj (edit_fields ''new'' None ''$e'' (text_fields False ''new'' None None)))) = ''new'' \<and>
   mu_editsEventId (read_message (JObj (edit_fields ''new'' None ''$e'' (text_fields False ''new'' None None)))) = Some ''$e''"
  using edit_read_back [OF refl refl, of "''new''" None "''$e''" False None] by simp

section \<open>The methods of a context\<close>

text \<open>
  What the guards and defaults of a context read: whether its signal was aborted and with
  which reason, and of the bot its state, its own id and what it knows of the room.
\<close>

record surroundings =
  su_aborted :: bool
  su_reason :: "js_error option"
  su_stopping :: bool
  su_selfId :: string
  su_capability :: capability
  su_host :: host_capabilities
  su_defaults :: message_defaults

definition assertWritable :: "surroundings \<Rightarrow> update \<Rightarrow> js_error option" where
  "assertWritable g u =
     (if su_aborted g then
        (case su_reason g of
           Some (HandlerTimeoutError ms place) \<Rightarrow> Some (HandlerTimeoutError ms place)
         | _ \<Rightarrow> Some (HandlerTimeoutError 0 (update_name (up_type u) @ '' in '' @
                        (if up_roomId u = [] then ''(no room)'' else up_roomId u))))
      else if su_stopping g then Some (ConfigurationError ''Bot is stopped; refusing to send'')
      else None)"

definition sendTarget :: "update \<Rightarrow> send_target" where
  "sendTarget u =
     \<lparr>st_roomId = up_roomId u, st_triggerEventId = truthy (Some (up_eventId u)),
      st_threadRootId = (case up_body u of B_message m \<Rightarrow> mu_threadRootId m | _ \<Rightarrow> None),
      st_callbackUserId = truthy (Some (up_senderId u))\<rparr>"

definition withDefaults :: "surroundings \<Rightarrow> send_options \<Rightarrow> send_options" where
  "withDefaults g opts =
     opts\<lparr>so_keyboardFallback := over (md_keyboardFallback (su_defaults g)) (so_keyboardFallback opts),
          so_parseMode := over (md_parseMode (su_defaults g)) (so_parseMode opts)\<rparr>"

definition guarded ::
  "surroundings \<Rightarrow> update \<Rightarrow> ('s \<Rightarrow> (js_error, 'a) sum \<times> 's) \<Rightarrow> 's \<Rightarrow> (js_error, 'a) sum \<times> 's" where
  "guarded g u f s = (case assertWritable g u of Some e \<Rightarrow> (Inl e, s) | None \<Rightarrow> f s)"

definition plain_source :: "string \<Rightarrow> message_source" where
  "plain_source t = \<lparr>ms_text = Some t, ms_html = None\<rparr>"

definition html_source :: "string \<Rightarrow> message_source" where
  "html_source h = \<lparr>ms_text = None, ms_html = Some h\<rparr>"

definition ctx_send ::
  "('r, 'x) sender_scheme \<Rightarrow> surroundings \<Rightarrow> update \<Rightarrow> message_source \<Rightarrow> send_options \<Rightarrow> 'r chat \<Rightarrow>
     (js_error, string) sum \<times> 'r chat" where
  "ctx_send W g u src opts = guarded g u (sendMessageWithOptions W (sendTarget u) src (withDefaults g opts))"

definition ctx_answer where "ctx_answer W g u t opts = ctx_send W g u (plain_source t) opts"
definition ctx_answerHtml where "ctx_answerHtml W g u h opts = ctx_send W g u (html_source h) opts"

definition ctx_answerMarkdown where
  "ctx_answerMarkdown W g u t opts = ctx_answer W g u t (opts\<lparr>so_parseMode := Some Markdown_mode\<rparr>)"

definition as_reply :: "send_options \<Rightarrow> send_options" where
  "as_reply opts = (if so_replyTo opts = Ref_none then opts\<lparr>so_replyTo := Ref_flag True\<rparr> else opts)"

definition ctx_reply where "ctx_reply W g u t opts = ctx_send W g u (plain_source t) (as_reply opts)"
definition ctx_replyHtml where "ctx_replyHtml W g u h opts = ctx_send W g u (html_source h) (as_reply opts)"

definition ctx_replyMarkdown where
  "ctx_replyMarkdown W g u t opts = ctx_reply W g u t (opts\<lparr>so_parseMode := Some Markdown_mode\<rparr>)"

definition ctx_event ::
  "('r, 'x) sender_scheme \<Rightarrow> surroundings \<Rightarrow> update \<Rightarrow> string \<Rightarrow> (string \<times> json) list \<Rightarrow> 'r chat \<Rightarrow>
     (js_error, string) sum \<times> 'r chat" where
  "ctx_event W g u ty content = guarded g u (sendEventWithOutbox W (sendTarget u) ty content None)"

definition schema_field :: "string \<Rightarrow> string \<times> json" where
  "schema_field key = (''version'', JNum (Fin (or_default 1 (AIOMATRIX_SCHEMA key))))"

definition ctx_toast ::
  "('r, 'x) sender_scheme \<Rightarrow> surroundings \<Rightarrow> update \<Rightarrow> string \<Rightarrow> bool \<Rightarrow> bool \<Rightarrow> string option \<Rightarrow> 'r chat \<Rightarrow>
     (js_error, string) sum \<times> 'r chat" where
  "ctx_toast W g u t alert forceEvent userId =
     (if forceEvent \<or> su_capability g = Aware \<or> host_toast (su_host g) then
        ctx_event W g u ''dev.aiomatrix.toast''
          [schema_field ''toast'', (''text'', JStr t), (''alert'', JBool alert), (''user_id'', JStr (or_default (up_senderId u) userId))]
      else ctx_answer W g u t (no_options\<lparr>so_notice := \<not> alert\<rparr>))"

definition ctx_progress ::
  "('r, 'x) sender_scheme \<Rightarrow> surroundings \<Rightarrow> update \<Rightarrow> string \<Rightarrow> int option \<Rightarrow> bool \<Rightarrow> 'r chat \<Rightarrow>
     (js_error, string) sum \<times> 'r chat" where
  "ctx_progress W g u t percent forceEvent =
     (if forceEvent \<or> su_capability g = Aware \<or> host_progress (su_host g) then
        ctx_event W g u ''dev.aiomatrix.progress''
          [schema_field ''progress'', (''text'', JStr t),
           (''percent'', case percent of Some n \<Rightarrow> JNum (Fin n) | None \<Rightarrow> JNull), (''user_id'', JStr (up_senderId u))]
      else ctx_answer W g u t (no_options\<lparr>so_notice := True\<rparr>))"

text \<open>The methods that call the client directly: the call they make, or the error.\<close>

datatype client_op =
    Op_reaction string string string
  | Op_redact string string "string option"
  | Op_typing string bool int
  | Op_receipt string string
  | Op_kick string string "string option"
  | Op_ban string string "string option"
  | Op_invite string string "string option"
  | Op_power string string int
  | Op_join string
  | Op_leave string "string option"

definition ctx_react :: "update \<Rightarrow> string \<Rightarrow> (js_error, client_op) sum" where
  "ctx_react u key =
     (if up_eventId u = [] then Inl (Thrown ''Cannot react: the triggering event has no event_id'')
      else Inr (Op_reaction (up_roomId u) (up_eventId u) key))"

definition ctx_typing :: "update \<Rightarrow> bool \<Rightarrow> int \<Rightarrow> client_op" where
  "ctx_typing u active ms = Op_typing (up_roomId u) active ms"

definition ctx_deleteMessage :: "update \<Rightarrow> string option \<Rightarrow> (js_error, client_op) sum" where
  "ctx_deleteMessage u reason =
     (if up_eventId u = [] then Inl (Thrown ''Cannot redact: the triggering event has no event_id'')
      else Inr (Op_redact (up_roomId u) (up_eventId u) reason))"

definition ctx_markRead :: "update \<Rightarrow> client_op option" where
  "ctx_markRead u = (if up_eventId u = [] then None else Some (Op_receipt (up_roomId u) (up_eventId u)))"

definition ctx_removeReaction :: "update \<Rightarrow> client_op" where
  "ctx_removeReaction u = Op_redact (up_roomId u) (up_eventId u) None"

definition ctx_join :: "update \<Rightarrow> client_op" where "ctx_join u = Op_join (up_roomId u)"

definition ctx_leave :: "update \<Rightarrow> string option \<Rightarrow> client_op" where "ctx_leave u reason = Op_leave (up_roomId u) reason"

section \<open>Admin helpers\<close>

definition assertAdminPower ::
  "surroundings \<Rightarrow> update \<Rightarrow> power_levels \<Rightarrow> power_action \<Rightarrow> jsnum \<Rightarrow> js_error option" where
  "assertAdminPower g u p action required =
     (case assertWritable g u of
        Some e \<Rightarrow> Some e
      | None \<Rightarrow>
          (let actual = user_level p (su_selfId g)
           in if \<not> jsnum_ge actual required then Some (InsufficientPowerError action required actual (up_roomId u)) else None))"

definition admin_call :: "js_error option \<Rightarrow> client_op \<Rightarrow> (js_error, client_op) sum" where
  "admin_call e call = (case e of Some x \<Rightarrow> Inl x | None \<Rightarrow> Inr call)"

definition ctx_kick where
  "ctx_kick g u p userId reason =
     admin_call (assertAdminPower g u p Act_kick (Fin (pl_kick p))) (Op_kick (up_roomId u) userId reason)"

definition ctx_ban where
  "ctx_ban g u p userId reason =
     admin_call (assertAdminPower g u p Act_ban (Fin (pl_ban p))) (Op_ban (up_roomId u) userId reason)"

definition ctx_invite where
  "ctx_invite g u p userId reason =
     admin_call (assertAdminPower g u p Act_invite (Fin (pl_invite p))) (Op_invite (up_roomId u) userId reason)"

fun jsnum_succ :: "jsnum \<Rightarrow> jsnum" where
  "jsnum_succ (Fin n) = Fin (n + 1)"
| "jsnum_succ n = n"

definition ctx_setPower :: "surroundings \<Rightarrow> update \<Rightarrow> power_levels \<Rightarrow> string \<Rightarrow> int \<Rightarrow> (js_error, client_op) sum" where
  "ctx_setPower g u p userId level =
     (case assertAdminPower g u p Act_set_power (required_level p ''m.room.power_levels'' True) of
        Some e \<Rightarrow> Inl e
      | None \<Rightarrow>
          (let self = user_level p (su_selfId g); target = user_level p userId
           in if userId \<noteq> su_selfId g \<and> jsnum_ge target self then
                Inl (InsufficientPowerError Act_set_power (jsnum_succ target) self (up_roomId u))
              else if jsnum_ge (Fin level) self \<and> userId \<noteq> su_selfId g then
                Inl (InsufficientPowerError Act_set_power (Fin (level + 1)) self (up_roomId u))
              else Inr (Op_power (up_roomId u) userId level)))"

section \<open>Files\<close>

record file_options =
  fo_filename :: string
  fo_contentType :: "string option"
  fo_msgtype :: "string option"
  fo_caption :: "string option"
  fo_dims :: media_size
  fo_keyboard :: keyboard_option
  fo_replyTo :: ref_option
  fo_extra :: "(string \<times> json) list"

definition file_contentType :: "file_options \<Rightarrow> string" where
  "file_contentType fo = or_default (guessMimeType (fo_filename fo) OCTET_STREAM) (fo_contentType fo)"

definition file_body :: "file_options \<Rightarrow> string" where
  "file_body fo = or_default (fo_filename fo) (fo_caption fo)"

definition file_replyTo :: "update \<Rightarrow> bool \<Rightarrow> file_options \<Rightarrow> string option" where
  "file_replyTo u reply fo =
     (if reply \<or> fo_replyTo fo = Ref_flag True then truthy (Some (up_eventId u))
      else case fo_replyTo fo of Ref_id e \<Rightarrow> truthy (Some e) | _ \<Rightarrow> None)"

text \<open>The content before a keyboard is added.\<close>

definition file_fields ::
  "update \<Rightarrow> bool \<Rightarrow> file_options \<Rightarrow> int \<Rightarrow> upload_result \<times> json option \<Rightarrow> (string \<times> json) list" where
  "file_fields u reply fo nbytes up =
     (let base = assign_fields
            [(''msgtype'', JStr (or_default (msgtypeForMime (file_contentType fo)) (fo_msgtype fo))),
             (''body'', JStr (file_body fo)), (''filename'', JStr (fo_filename fo)),
             (''info'', JObj (buildMediaInfo (file_contentType fo) nbytes (fo_dims fo)))] (fo_extra fo);
          located = (case snd up of
                       Some f \<Rightarrow> jm_set ''file'' f base | None \<Rightarrow> jm_set ''url'' (JStr (ur_contentUri (fst up))) base)
      in case file_replyTo u reply fo of
           Some e \<Rightarrow> jm_set ''m.relates_to'' (JObj [in_reply_to e]) located | None \<Rightarrow> located)"

text \<open>\<open>text.split("\n\n")[0]\<close>.\<close>

definition first_paragraph :: "string \<Rightarrow> string" where
  "first_paragraph s = (case until [newline, newline] s of Some (a, _) \<Rightarrow> a | None \<Rightarrow> s)"

definition file_keyboard_fields ::
  "keyboard_fallback option \<Rightarrow> keyboard_content \<Rightarrow> string \<Rightarrow> (string \<times> json) list \<Rightarrow> (string \<times> json) list" where
  "file_keyboard_fields fallback c body content =
     (let content1 = jm_set KEYBOARD_CONTENT_KEY (content_json c) content
      in case fallback of
           None \<Rightarrow> content1
         | Some fb \<Rightarrow>
             (let body1 = fst (with_fallback fb [] (body, None));
                  content2 = (if kf_html fb = [] then content1
                              else jm_set ''formatted_body'' (JStr (''<p>'' @ first_paragraph body1 @ ''</p>'' @ kf_html fb))
                                     (jm_set ''format'' (JStr ''org.matrix.custom.html'') content1))
              in jm_set ''body'' (JStr body1) content2))"

definition file_send_options :: "surroundings \<Rightarrow> file_options \<Rightarrow> send_options" where
  "file_send_options g fo = withDefaults g (no_options\<lparr>so_keyboard := fo_keyboard fo, so_extra := fo_extra fo\<rparr>)"

definition file_message ::
  "('r, 'x) sender_scheme \<Rightarrow> surroundings \<Rightarrow> update \<Rightarrow> bool \<Rightarrow> file_options \<Rightarrow> int \<Rightarrow> upload_result \<times> json option \<Rightarrow> 'r chat \<Rightarrow>
     (string \<times> json) list \<times> string list \<times> 'r chat" where
  "file_message W g u reply fo nbytes up s =
     (let opts = file_send_options g fo; content = file_fields u reply fo nbytes up
      in case send_keyboard opts of
           None \<Rightarrow> (content, [], s)
         | Some kb \<Rightarrow>
             (let (c, minted, s1) = tokenizeKeyboard W (sendTarget u) kb s;
                  fb = (if so_keyboardFallback opts = Some False then None
                        else Some (renderKeyboardFallback (se_urls W) (se_arrow W) c))
              in (file_keyboard_fields fb c (file_body fo) content, minted, s1)))"

text \<open>\<open>sendFileInternal\<close>; \<open>upload\<close> is the outcome of the client's upload.\<close>

definition sendFileInternal ::
  "('r, 'x) sender_scheme \<Rightarrow> surroundings \<Rightarrow> update \<Rightarrow> bool \<Rightarrow> file_options \<Rightarrow> int \<Rightarrow>
     (js_error, upload_result \<times> json option) sum \<Rightarrow> 'r chat \<Rightarrow> (js_error, string) sum \<times> 'r chat" where
  "sendFileInternal W g u reply fo nbytes upload =
     guarded g u (\<lambda>s.
       case upload of
         Inl e \<Rightarrow> (Inl e, s)
       | Inr up \<Rightarrow>
           (let (content, minted, s1) = file_message W g u reply fo nbytes up s;
                (r, s2) = sendEventWithOutbox W (sendTarget u) ''m.room.message'' content None s1
            in (r, case r of Inr e \<Rightarrow> bind_tokens W minted e s2 | Inl _ \<Rightarrow> s2)))"

definition ctx_answerFile where
  "ctx_answerFile W g u fo nbytes up = sendFileInternal W g u False fo nbytes up"

definition ctx_replyPhoto where
  "ctx_replyPhoto W g u fo nbytes up =
     sendFileInternal W g u True (fo\<lparr>fo_msgtype := Some (or_default ''m.image'' (fo_msgtype fo))\<rparr>) nbytes up"

definition ctx_replyDocument where
  "ctx_replyDocument W g u fo nbytes up =
     sendFileInternal W g u True (fo\<lparr>fo_msgtype := Some (or_default ''m.file'' (fo_msgtype fo))\<rparr>) nbytes up"

section \<open>Answering a button press\<close>

record callback_answer =
  ca_text :: "string option"
  ca_alert :: bool
  ca_timeline :: bool
  ca_editText :: "string option"
  ca_editHtml :: "string option"
  ca_keyboard :: keyboard_option

definition no_answer :: callback_answer where
  "no_answer = \<lparr>ca_text = None, ca_alert = False, ca_timeline = False, ca_editText = None, ca_editHtml = None, ca_keyboard = Kb_absent\<rparr>"

definition wants_edit :: "callback_answer \<Rightarrow> bool" where
  "wants_edit a \<longleftrightarrow> ca_editText a \<noteq> None \<or> ca_editHtml a \<noteq> None \<or> ca_keyboard a \<noteq> Kb_absent"

definition answer_source :: "('r, 'x) sender_scheme \<Rightarrow> callback_press \<Rightarrow> callback_answer \<Rightarrow> message_source" where
  "answer_source W c a =
     (case ca_editHtml a of
        Some h \<Rightarrow> html_source h
      | None \<Rightarrow> (case ca_editText a of Some t \<Rightarrow> plain_source t | None \<Rightarrow> readExistingMessageSource W (cp_messageEventId c)))"

definition answer_edit ::
  "('r, 'x) sender_scheme \<Rightarrow> surroundings \<Rightarrow> update \<Rightarrow> callback_press \<Rightarrow> callback_answer \<Rightarrow> 'r chat \<Rightarrow>
     (js_error, string) sum \<times> 'r chat" where
  "answer_edit W g u c a =
     guarded g u (editMessageWithOptions W (sendTarget u) (cp_messageEventId c) (answer_source W c a)
       ((withDefaults g no_options)\<lparr>so_keyboard := ca_keyboard a\<rparr>))"

definition answer_text ::
  "('r, 'x) sender_scheme \<Rightarrow> surroundings \<Rightarrow> update \<Rightarrow> callback_press \<Rightarrow> callback_answer \<Rightarrow> string \<Rightarrow> 'r chat \<Rightarrow>
     (js_error, string) sum \<times> 'r chat" where
  "answer_text W g u c a t =
     (if \<not> ca_timeline a \<and> (su_capability g = Aware \<or> host_toast (su_host g)) then
        ctx_event W g u ''dev.aiomatrix.callback_answer''
          [schema_field ''callback_answer'', (''text'', JStr t), (''alert'', JBool (ca_alert a)),
           (''query_id'', JStr (cp_queryId c)), (''user_id'', JStr (up_senderId u)), (''message_id'', JStr (cp_messageEventId c))]
      else
        ctx_send W g u (plain_source t)
          (no_options\<lparr>so_notice := \<not> ca_alert a,
             so_replyTo := (if cp_messageEventId c = [] then Ref_none else Ref_id (cp_messageEventId c))\<rparr>))"

text \<open>
  The body of \<open>answerCallback\<close> after its flag was set: \<open>note\<close> is \<open>markAnswered\<close> of the
  registry. Each send may fail, which ends the call with the error.
\<close>

definition answer_body ::
  "('r, 'x) sender_scheme \<Rightarrow> (string \<Rightarrow> 'r \<Rightarrow> 'r) \<Rightarrow> surroundings \<Rightarrow> update \<Rightarrow> callback_press \<Rightarrow> callback_answer \<Rightarrow>
     'r chat \<Rightarrow> (js_error, unit) sum \<times> 'r chat" where
  "answer_body W note g u c a s =
     (let s1 = (if cp_queryId c = [] then s else s\<lparr>ch_registry := note (cp_queryId c) (ch_registry s)\<rparr>);
          (r, s2) = (if wants_edit a \<and> cp_messageEventId c \<noteq> [] then answer_edit W g u c a s1 else (Inr [], s1))
      in case r of
           Inl e \<Rightarrow> (Inl e, s2)
         | Inr _ \<Rightarrow>
             (case truthy (ca_text a) of
                None \<Rightarrow> (Inr (), s2)
              | Some t \<Rightarrow> (case answer_text W g u c a t s2 of (Inl e, s3) \<Rightarrow> (Inl e, s3) | (Inr _, s3) \<Rightarrow> (Inr (), s3))))"

definition answerCallback ::
  "('r, 'x) sender_scheme \<Rightarrow> (string \<Rightarrow> 'r \<Rightarrow> 'r) \<Rightarrow> surroundings \<Rightarrow> update \<Rightarrow> callback_press \<Rightarrow> callback_answer \<Rightarrow>
     bool \<times> 'r chat \<Rightarrow> (js_error, unit) sum \<times> bool \<times> 'r chat" where
  "answerCallback W note g u c a st =
     (if fst st then (Inr (), st)
      else let (r, s) = answer_body W note g u c a (snd st) in (r, True, s))"

fun answers ::
  "('r, 'x) sender_scheme \<Rightarrow> (string \<Rightarrow> 'r \<Rightarrow> 'r) \<Rightarrow> update \<Rightarrow> callback_press \<Rightarrow> (surroundings \<times> callback_answer) list \<Rightarrow>
     bool \<times> 'r chat \<Rightarrow> (js_error, unit) sum list \<times> bool \<times> 'r chat" where
  "answers W note u c [] st = ([], st)"
| "answers W note u c ((g, a) # as) st =
     (let (r, st1) = answerCallback W note g u c a st; (rs, st2) = answers W note u c as st1 in (r # rs, st2))"

definition ctx_editMessageText where
  "ctx_editMessageText W g u c t opts =
     guarded g u (if cp_messageEventId c = [] then sendMessageWithOptions W (sendTarget u) (plain_source t) (withDefaults g opts)
       else editMessageWithOptions W (sendTarget u) (cp_messageEventId c) (plain_source t) (withDefaults g opts))"

definition ctx_editMessage where
  "ctx_editMessage W g u eventId t opts =
     guarded g u (editMessageWithOptions W (sendTarget u) eventId (plain_source t) (withDefaults g opts))"

section \<open>Properties of the methods\<close>

lemma writable_iff: "assertWritable g u = None \<longleftrightarrow> \<not> su_aborted g \<and> \<not> su_stopping g"
  by (simp add: assertWritable_def split: option.split js_error.split)

text \<open>
  C16 (safety). After its handler timed out, or when the bot is stopping, a context sends nothing through
  its send helpers, its file helpers and its admin helpers: each of them fails at once with
  the same error, and the chat is as before.
\<close>

theorem writes_refused:
  assumes "su_aborted g \<or> su_stopping g"
  shows "\<exists>e. ctx_send W g u src opts s = (Inl e, s) \<and> ctx_event W g u ty content s = (Inl e, s) \<and>
    sendFileInternal W g u reply fo nbytes up s = (Inl e, s) \<and> ctx_editMessage W g u ev t opts s = (Inl e, s) \<and>
    ctx_kick g u p v reason = Inl e \<and> ctx_ban g u p v reason = Inl e \<and> ctx_invite g u p v reason = Inl e \<and>
    ctx_setPower g u p v level = Inl e"
proof -
  obtain e where "assertWritable g u = Some e"
    using assms writable_iff [of g u] by (cases "assertWritable g u") auto
  then show ?thesis
    by (intro exI [of _ e]) (simp add: ctx_send_def ctx_event_def sendFileInternal_def ctx_editMessage_def guarded_def ctx_kick_def
        ctx_ban_def ctx_invite_def ctx_setPower_def assertAdminPower_def admin_call_def)
qed

text \<open>
  C17 (safety). A bot changes the power level of another user only when its own level allows the event,
  only of users below itself, and only to a level below its own: no handler can use the bot
  to lift anyone to the bot's level or to demote a peer.
\<close>

theorem set_power_no_escalation:
  assumes "ctx_setPower g u p v level = Inr call" and "v \<noteq> su_selfId g"
  shows "call = Op_power (up_roomId u) v level \<and> \<not> jsnum_ge (Fin level) (user_level p (su_selfId g)) \<and>
    \<not> jsnum_ge (user_level p v) (user_level p (su_selfId g)) \<and>
    jsnum_ge (user_level p (su_selfId g)) (required_level p ''m.room.power_levels'' True)"
  using assms by (auto simp: ctx_setPower_def assertAdminPower_def Let_def split: option.splits if_splits)

lemma assign_fields_Nil [simp]: "assign_fields ps [] = ps"
  by (simp add: assign_fields_def)

text \<open>
  A file that is sent is read back as the attachment it was: its kind, the caption or else
  the name, the place of the bytes, in the clear or with the block to decrypt them, the
  content type, the length and the dimensions.
\<close>

theorem file_message_read_back:
  assumes "fo_extra fo = []" and "or_default (msgtypeForMime (file_contentType fo)) (fo_msgtype fo) \<in> set ATTACHMENT_TYPES"
    and "f = None \<or> f = Some (JObj block)"
  shows "readAttachmentFromContent (JObj (file_fields u reply fo nbytes (up, f))) =
    Some \<lparr>at_msgtype = or_default (msgtypeForMime (file_contentType fo)) (fo_msgtype fo), at_body = file_body fo,
      at_url = (if f = None then Some (ur_contentUri up) else None), at_file = f,
      at_mimetype = Some (file_contentType fo), at_size = Some nbytes, at_dims = fo_dims fo\<rparr>"
proof -
  let ?c = "file_fields u reply fo nbytes (up, f)"
  have get: "jm_get ?c ''msgtype'' = Some (JStr (or_default (msgtypeForMime (file_contentType fo)) (fo_msgtype fo)))"
    "jm_get ?c ''body'' = Some (JStr (file_body fo))"
    "jm_get ?c ''info'' = Some (JObj (buildMediaInfo (file_contentType fo) nbytes (fo_dims fo)))"
    "jm_get ?c ''url'' = (if f = None then Some (JStr (ur_contentUri up)) else None)"
    "jm_get ?c ''file'' = f"
    by (auto simp: file_fields_def assms(1) update_conv' Let_def split: option.split)
  have info: "readNumber (JObj (buildMediaInfo t n d)) ''w'' = sz_width d"
    "readNumber (JObj (buildMediaInfo t n d)) ''h'' = sz_height d"
    "readNumber (JObj (buildMediaInfo t n d)) ''duration'' = sz_durationMs d"
    "readNumber (JObj (buildMediaInfo t n d)) ''size'' = Some n"
    "jm_get (buildMediaInfo t n d) ''mimetype'' = Some (JStr t)" for t n d
    by (cases "sz_width d"; cases "sz_height d"; cases "sz_durationMs d";
      simp add: readNumber_def buildMediaInfo_def num_field_def isPlainObject_def)+
  show ?thesis
    using assms(2,3) by (auto simp: readAttachmentFromContent_def get info Let_def)
qed

definition demo_surroundings :: surroundings where
  "demo_surroundings = \<lparr>su_aborted = False, su_reason = None, su_stopping = False, su_selfId = ''@bot:hs'', su_capability = Stock,
     su_host = parseHostCapabilities (JObj []), su_defaults = \<lparr>md_keyboardFallback = None, md_parseMode = Some Markdown_mode\<rparr>\<rparr>"

definition demo_update :: update where
  "demo_update = \<lparr>up_roomId = ''!r:hs'', up_event = JObj [(''event_id'', JStr ''$q'')], up_senderId = ''@u:hs'',
     up_isDirect = False, up_body = B_raw ''x''\<rparr>"

definition demo_file :: file_options where
  "demo_file = \<lparr>fo_filename = ''cat.png'', fo_contentType = None, fo_msgtype = None, fo_caption = Some ''Look'',
     fo_dims = \<lparr>sz_width = Some 3, sz_height = Some 2, sz_durationMs = None\<rparr>, fo_keyboard = Kb_absent, fo_replyTo = Ref_none,
     fo_extra = []\<rparr>"

theorem writes_refused_witness:
  "\<exists>e. ctx_kick (demo_surroundings\<lparr>su_stopping := True\<rparr>) demo_update DEFAULT_POWER_LEVELS ''@v:hs'' None = Inl e"
  using writes_refused [of "demo_surroundings\<lparr>su_stopping := True\<rparr>" "undefined :: (unit, unit) sender_scheme" demo_update
      undefined undefined undefined undefined undefined undefined undefined undefined undefined undefined undefined
      DEFAULT_POWER_LEVELS "''@v:hs''" None]
  by auto

theorem set_power_no_escalation_witness:
  "\<not> jsnum_ge (Fin 50) (user_level (DEFAULT_POWER_LEVELS\<lparr>pl_users := [(''@bot:hs'', Fin 100)]\<rparr>) (su_selfId demo_surroundings))"
  using set_power_no_escalation [of demo_surroundings demo_update "DEFAULT_POWER_LEVELS\<lparr>pl_users := [(''@bot:hs'', Fin 100)]\<rparr>"
      "''@v:hs''" 50 "Op_power ''!r:hs'' ''@v:hs'' 50"]
  by (simp add: ctx_setPower_def assertAdminPower_def writable_iff demo_surroundings_def demo_update_def required_level_def
      user_level_def DEFAULT_POWER_LEVELS_def assertWritable_def)

theorem file_message_read_back_witness:
  "map_option at_mimetype (readAttachmentFromContent (JObj (file_fields demo_update True demo_file 77
     (\<lparr>ur_contentUri = ''mxc://hs/x'', ur_contentType = ''image/png'', ur_sizeBytes = 77\<rparr>, None)))) = Some (Some ''image/png'')"
proof -
  have "file_contentType demo_file = ''image/png''"
    by code_simp
  then show ?thesis
    by (subst file_message_read_back) (simp_all add: demo_file_def msgtypeForMime_def js_starts_with_def ATTACHMENT_TYPES_def)
qed

text \<open>
  The caption of a file, or its name, goes into the formatted body as it is, when a keyboard
  with a fallback is attached: markup in it is markup in the message, unlike in a text
  message.
\<close>

theorem caption_is_markup:
  assumes "kf_html fb \<noteq> []"
  shows "jm_get (file_keyboard_fields (Some fb) c body content) ''formatted_body'' =
    Some (JStr (''<p>'' @ first_paragraph (fst (with_fallback fb [] (body, None))) @ ''</p>'' @ kf_html fb))"
  using assms by (simp add: file_keyboard_fields_def Let_def update_conv' KEYBOARD_CONTENT_KEY_def)

theorem caption_is_markup_witness:
  "jm_get (file_keyboard_fields (Some \<lparr>kf_text = ''1. Go'', kf_html = ''<ol></ol>''\<rparr>) (kb_toContent []) ''<img src=x>'' []) ''formatted_body''
    = Some (JStr ''<p><img src=x></p><ol></ol>'')"
proof -
  let ?fb = "\<lparr>kf_text = ''1. Go'', kf_html = ''<ol></ol>''\<rparr>"
  have "first_paragraph (fst (with_fallback ?fb [] (''<img src=x>'', None))) = ''<img src=x>''"
    by code_simp
  then show ?thesis
    by (subst caption_is_markup) simp_all
qed

text \<open>
  A context answers a button press at most once: of any sequence of calls only the first
  does anything. It also holds when that call failed, so an answer that could not be sent is
  lost: a retry reports success, and nothing is sent and no spinner stopped.
\<close>

theorem callback_answered_once:
  assumes "answerCallback W note g u c a (False, s) = (r, st)"
  shows "answers W note u c ((g, a) # as) (False, s) = (r # replicate (length as) (Inr ()), st)"
proof -
  have "fst st"
    using assms by (auto simp: answerCallback_def Let_def split: prod.splits)
  then have "answers W note u c as st = (replicate (length as) (Inr ()), st)"
    by (induction as) (auto simp: answerCallback_def)
  then show ?thesis
    using assms by simp
qed

theorem callback_answered_once_witness:
  "fst (answers (demo_sender (Inl (RateLimitedError 5 [] []))) (\<lambda>_ r. r) demo_update
     \<lparr>cp_data = ''y'', cp_messageEventId = ''$m'', cp_queryId = ''t''\<rparr>
     [(demo_surroundings, no_answer\<lparr>ca_text := Some ''Done''\<rparr>), (demo_surroundings, no_answer\<lparr>ca_text := Some ''Done''\<rparr>)]
     (False, demo_chat)) = [Inl (RateLimitedError 5 [] []), Inr ()]"
proof -
  let ?W = "demo_sender (Inl (RateLimitedError 5 [] []))" and ?a = "no_answer\<lparr>ca_text := Some ''Done''\<rparr>"
  let ?c = "\<lparr>cp_data = ''y'', cp_messageEventId = ''$m'', cp_queryId = ''t''\<rparr>"
  obtain r st where a: "answerCallback ?W (\<lambda>_ r. r) demo_surroundings demo_update ?c ?a (False, demo_chat) = (r, st)"
    by (rule prod.exhaust)
  moreover have "r = Inl (RateLimitedError 5 [] [])"
    using a by (auto simp: answerCallback_def answer_body_def no_answer_def wants_edit_def truthy_def answer_text_def
        ctx_send_def guarded_def assertWritable_def demo_surroundings_def parseHostCapabilities_def host_has_def
        sendMessageWithOptions_def sendEventWithOutbox_def call_with_outbox_def demo_sender_def Let_def
        split: prod.splits sum.splits option.splits if_splits)
  ultimately show ?thesis
    using callback_answered_once [OF a, of "[(demo_surroundings, ?a)]"] by simp
qed

text \<open>
  C15 (functional). What a handler sends with \<open>reply\<close> is read by a bot as a message with this text that replies
  to the event the handler was called for.
\<close>

theorem reply_reaches_trigger:
  assumes "assertWritable g u = None" and "up_eventId u \<noteq> []" and "ctx_reply W g u t no_options s = (r, s')"
  shows "(case cc_content (last (ch_calls s')) of c \<Rightarrow>
    mu_text (read_message c) = t \<and> mu_replyToEventId (read_message c) = Some (up_eventId u) \<and>
    \<not> mu_isEdit (read_message c) \<and> mu_threadRootId (read_message c) = None)"
proof -
  let ?opts = "withDefaults g (as_reply no_options)"
  obtain content tokens s1 where b: "buildMessageContent W (plain_source t) ?opts (sendTarget u) s = (content, tokens, s1)"
    by (metis prod_cases3)
  have kb: "send_keyboard ?opts = None"
    by (simp add: send_keyboard_def withDefaults_def as_reply_def no_options_def)
  have content: "content = message_fields W (plain_source t) ?opts (sendTarget u) None"
    using b by (simp add: buildMessageContent_def kb)
  obtain plain formatted where bodies: "message_bodies W (plain_source t) ?opts (fallback_base W (plain_source t) ?opts) None = (plain, formatted)"
    by fastforce
  have plain: "plain = t"
    using bodies by (simp add: message_bodies_def source_plain_def plain_source_def)
  have calls: "cc_content (last (ch_calls s')) = JObj content"
    using assms(1,3) b
    by (auto simp: ctx_reply_def ctx_send_def guarded_def sendMessageWithOptions_def sendEvent_parts(2) split: prod.splits sum.splits)
  have reply: "relation_reply ?opts (sendTarget u) = Some (up_eventId u)" "thread_of ?opts (sendTarget u) = None"
    using assms(2) by (simp_all add: relation_reply_def thread_of_def replyTo_of_def withDefaults_def as_reply_def no_options_def
        sendTarget_def truthy_Some truthy_def split: list.split)
  have "so_extra ?opts = []"
    by (simp add: withDefaults_def as_reply_def no_options_def)
  from sent_message_read_back [OF this bodies, of "sendTarget u"] show ?thesis
    by (simp add: calls content plain reply truthy_def)
qed

theorem reply_reaches_trigger_witness:
  "mu_replyToEventId (read_message (cc_content (last (ch_calls (snd (ctx_reply (demo_sender (Inr ''$e'')) demo_surroundings
     demo_update ''Hello'' no_options demo_chat)))))) = Some ''$q''"
proof -
  have "up_eventId demo_update = ''$q''"
    by (simp add: up_eventId_def demo_update_def)
  with reply_reaches_trigger [OF _ _ prod.collapse [symmetric], of demo_surroundings demo_update "demo_sender (Inr ''$e'')" "''Hello''" demo_chat]
  show ?thesis
    by (simp add: writable_iff demo_surroundings_def)
qed

end
