(* ===== verification/Direct_Rooms.thy ===== *)
theory Direct_Rooms
  imports Client_Rooms
begin

text \<open>
  Direct rooms and room creation in \<^verbatim>\<open>src/client.ts\<close>: the account data \<open>m.direct\<close> and how it
  is written, the choice of a room to talk to one user, \<open>createRoom\<close>, and what
  \<open>setPowerLevel\<close> of \<open>Client_Rooms\<close> writes. The answers to reads and writes are arguments;
  what is written is the argument that the answer to the write is asked for.
\<close>

section \<open>The account data m.direct\<close>

definition strings_of :: "json list \<Rightarrow> string list" where
  "strings_of vs = List.map_filter (\<lambda>v. case v of JStr s \<Rightarrow> Some s | _ \<Rightarrow> None) vs"

fun direct_entries :: "(string \<times> json) list \<Rightarrow> (string, string list) jsmap" where
  "direct_entries [] = []"
| "direct_entries ((user, JArr vs) # ps) = (user, strings_of vs) # direct_entries ps"
| "direct_entries ((user, _) # ps) = direct_entries ps"

text \<open>A failed read is an empty map.\<close>

definition getDirectRoomMap :: "js_error + json \<Rightarrow> (string, string list) jsmap" where
  "getDirectRoomMap ans = (case ans of Inr (JObj ps) \<Rightarrow> direct_entries ps | _ \<Rightarrow> [])"

definition direct_json :: "(string, string list) jsmap \<Rightarrow> json" where
  "direct_json m = JObj (map (\<lambda>(user, rooms). (user, JArr (map JStr rooms))) m)"

definition add_direct :: "string \<Rightarrow> string \<Rightarrow> (string, string list) jsmap \<Rightarrow> (string, string list) jsmap" where
  "add_direct room peer m =
     jm_set peer (set_add room (fold set_add (case jm_get m peer of Some rs \<Rightarrow> rs | None \<Rightarrow> []) [])) m"

definition marked :: "string \<Rightarrow> string list \<Rightarrow> js_error + json \<Rightarrow> (string, string list) jsmap" where
  "marked room peers current = fold (add_direct room) peers (getDirectRoomMap current)"

definition markDirect ::
  "string \<Rightarrow> string list \<Rightarrow> js_error + json \<Rightarrow> (json \<Rightarrow> js_error + unit) \<Rightarrow> room_cache \<Rightarrow> (js_error + unit) \<times> room_cache" where
  "markDirect room peers current write c =
     (case write (direct_json (marked room peers current)) of
        Inl e \<Rightarrow> (Inl e, c)
      | Inr _ \<Rightarrow> (Inr (), rc_applyDirectAccountData (direct_json (marked room peers current)) c))"

section \<open>Creating rooms\<close>

record initial_state =
  is_type :: string
  is_stateKey :: "string option"
  is_content :: json

record room_options =
  ro_name :: "string option"
  ro_topic :: "string option"
  ro_invite :: "string list"
  ro_isDirect :: bool
  ro_encrypted :: "bool option"
  ro_preset :: "string option"
  ro_alias :: "string option"
  ro_initialState :: "initial_state list"
  ro_powerLevels :: "json option"

definition plain_room :: room_options where
  "plain_room =
     \<lparr>ro_name = None, ro_topic = None, ro_invite = [], ro_isDirect = False, ro_encrypted = None, ro_preset = None,
      ro_alias = None, ro_initialState = [], ro_powerLevels = None\<rparr>"

definition ENCRYPTION_STATE :: initial_state where
  "ENCRYPTION_STATE =
     \<lparr>is_type = ''m.room.encryption'', is_stateKey = Some [],
      is_content = JObj [(''algorithm'', JStr ''m.megolm.v1.aes-sha2'')]\<rparr>"

definition room_initial_state :: "room_options \<Rightarrow> initial_state list" where
  "room_initial_state opts =
     (if (case ro_encrypted opts of Some b \<Rightarrow> b | None \<Rightarrow> ro_isDirect opts) \<and>
         \<not> list_ex (\<lambda>s. is_type s = ''m.room.encryption'') (ro_initialState opts)
      then ro_initialState opts @ [ENCRYPTION_STATE] else ro_initialState opts)"






section \<open>The room of one user\<close>



definition dm_options :: "string \<Rightarrow> bool option \<Rightarrow> room_options" where
  "dm_options user encrypted =
     plain_room\<lparr>ro_invite := [user], ro_isDirect := True,
       ro_encrypted := Some (case encrypted of Some b \<Rightarrow> b | None \<Rightarrow> True)\<rparr>"


section \<open>Recording a direct room\<close>

lemma set_set_add [simp]: "set (Room_Cache.set_add x xs) = insert x (set xs)"
  by (auto simp: Room_Cache.set_add_def)

lemma set_fold_set_add [simp]: "set (fold Room_Cache.set_add xs acc) = set acc \<union> set xs"
  by (induction xs arbitrary: acc) auto

definition direct_rooms :: "(string, string list) jsmap \<Rightarrow> string \<Rightarrow> string set" where
  "direct_rooms m user = (case jm_get m user of Some rs \<Rightarrow> set rs | None \<Rightarrow> {})"

lemma add_direct_rooms:
  "direct_rooms (add_direct room peer m) user = (if user = peer then insert room (direct_rooms m user) else direct_rooms m user)"
  by (auto simp: direct_rooms_def add_direct_def update_conv' split: option.split)

lemma marked_rooms:
  "direct_rooms (marked room peers current) user =
     (if user \<in> set peers then insert room (direct_rooms (getDirectRoomMap current) user)
      else direct_rooms (getDirectRoomMap current) user)"
proof -
  have "direct_rooms (fold (add_direct room) peers m) user =
      (if user \<in> set peers then insert room (direct_rooms m user) else direct_rooms m user)" for m
    by (induction peers arbitrary: m) (auto simp: add_direct_rooms)
  then show ?thesis by (simp add: marked_def)
qed

lemma strings_of_JStr [simp]: "strings_of (map JStr rs) = rs"
  by (induction rs) (simp_all add: strings_of_def List.map_filter_simps)

lemma direct_map_json: "getDirectRoomMap (Inr (direct_json m)) = m"
  by (induction m) (auto simp: getDirectRoomMap_def direct_json_def)

text \<open>
  When the account data can be read, marking a room as direct writes a map in which the room
  is one of every given peer, and nothing else changed: every user keeps all rooms. Reading
  what was written gives the map back.
\<close>

theorem mark_direct_keeps_rooms:
  "fst (markDirect room peers (Inr content) write c) = write (direct_json (marked room peers (Inr content))) \<and>
   direct_rooms (getDirectRoomMap (Inr (direct_json (marked room peers (Inr content))))) user =
     direct_rooms (getDirectRoomMap (Inr content)) user \<union> (if user \<in> set peers then {room} else {})"
  by (simp add: markDirect_def direct_map_json marked_rooms split: sum.split)

text \<open>
  When the read fails for any reason, the map that is written holds the new room alone: the
  direct rooms of every other user are erased on the homeserver, and the write is done.
\<close>

theorem mark_direct_after_failed_read:
  assumes "write (direct_json (marked room peers (Inl e))) = Inr ()"
  shows "markDirect room peers (Inl e) write c =
      (Inr (), rc_applyDirectAccountData (direct_json (marked room peers (Inl e))) c) \<and>
    direct_rooms (getDirectRoomMap (Inr (direct_json (marked room peers (Inl e))))) user = (if user \<in> set peers then {room} else {})"
  using assms by (simp add: markDirect_def direct_map_json marked_rooms) (simp add: getDirectRoomMap_def direct_rooms_def)

text \<open>What the cache takes from the raw account data is what it takes from the map read off it.\<close>

lemma collect_strings_eq: "collect_strings vs acc = fold Room_Cache.set_add (strings_of vs) acc"
  by (induction vs acc rule: collect_strings.induct) (simp_all add: strings_of_def List.map_filter_simps)

lemma collect_rooms_entries:
  "collect_rooms ps acc = fold (\<lambda>(u, rs) a. fold Room_Cache.set_add rs a) (direct_entries ps) acc"
  by (induction ps acc rule: collect_rooms.induct) (simp_all add: collect_strings_eq)

lemma cache_direct_map: "rc_applyDirectAccountData (direct_json (direct_entries ps)) c = rc_applyDirectAccountData (JObj ps) c"
proof -
  have "direct_entries (map (\<lambda>(u, rs). (u, JArr (map JStr rs))) m) = m" for m
    by (induction m) auto
  then show ?thesis
    by (simp add: rc_applyDirectAccountData_def direct_json_def collect_rooms_entries)
qed

section \<open>Which room is taken\<close>






text \<open>
  A new direct room asks the homeserver for encryption from the start, and in no other case
  does the state of a new room differ from the given one.
\<close>

theorem new_room_encryption:
  "room_initial_state opts =
     (if (ro_encrypted opts = Some True \<or> ro_encrypted opts = None \<and> ro_isDirect opts) \<and>
         ''m.room.encryption'' \<notin> is_type ` set (ro_initialState opts)
      then ro_initialState opts @ [ENCRYPTION_STATE] else ro_initialState opts) \<and>
   ENCRYPTION_STATE \<in> set (room_initial_state (dm_options user None))"
proof -
  have "list_ex (\<lambda>s. is_type s = key) xs = (key \<in> is_type ` set xs)" for key and xs :: "initial_state list"
    by (induction xs) auto
  then show ?thesis
    by (cases "ro_encrypted opts") (simp_all add: room_initial_state_def dm_options_def plain_room_def)
qed

section \<open>Power levels\<close>

definition power_after :: "string \<Rightarrow> int \<Rightarrow> js_error + json \<Rightarrow> (string \<times> json) list" where
  "power_after user level current =
     (let cur = (case current of Inr (JObj ps) \<Rightarrow> ps | _ \<Rightarrow> []);
          users = (case jm_get cur ''users'' of Some (JObj us) \<Rightarrow> us | _ \<Rightarrow> [])
      in jm_set ''users'' (JObj (jm_set user (JNum (Fin level)) users)) cur)"

text \<open>
  When the power levels can be read, \<open>setPowerLevel\<close> changes the level of its user and no
  other: every other field and every other user is kept.
\<close>

theorem set_power_keeps_others:
  assumes "setPowerLevel room user level (Inr (JObj ps)) send c = (Inr e, c')" and "jm_get ps ''users'' = Some (JObj us)"
  shows "\<exists>qs vs. send (JObj qs) = Inr e \<and> jm_get qs ''users'' = Some (JObj vs) \<and> jm_get vs user = Some (JNum (Fin level)) \<and>
    (\<forall>key. key = ''users'' \<or> jm_get qs key = jm_get ps key) \<and> (\<forall>v. v = user \<or> jm_get vs v = jm_get us v)"
  using assms
  by (intro exI [of _ "power_after user level (Inr (JObj ps))"] exI [of _ "jm_set user (JNum (Fin level)) us"])
    (auto simp: setPowerLevel_def power_after_def Let_def update_conv' split: sum.splits)

text \<open>
  When the read fails for any reason, not only because there is no such event, the new
  content holds this one user alone: the levels of all others, the bot's own among them,
  and every threshold of the room go back to their defaults.
\<close>

theorem set_power_after_failed_read:
  assumes "send (JObj [(''users'', JObj [(user, JNum (Fin level))])]) = Inr e"
  shows "fst (setPowerLevel room user level (Inl err) send c) = Inr e \<and>
    parsePowerLevels (JObj [(''users'', JObj [(user, JNum (Fin level))])]) = DEFAULT_POWER_LEVELS\<lparr>pl_users := [(user, Fin level)]\<rparr>"
  using assms
  by (simp add: setPowerLevel_def Let_def parsePowerLevels_def isPlainObject_def level_entries_def json_prop_def number_or_def
      readNumber_def DEFAULT_POWER_LEVELS_def)

section \<open>Concrete rooms\<close>

text \<open>The room of the bot with Alice, in which Bob has joined as well; and one of Bob's own.\<close>

definition demo_rooms :: room_cache where
  "demo_rooms =
     (case rc_new 10 of
        Inr c \<Rightarrow> rc_applyDirectAccountData (JObj [(''@alice:hs'', JArr [JStr ''!a:hs''])])
                   (rc_setJoinedMembers ''!a:hs'' [''@alice:hs'', ''@bob:hs''] c))"



theorem mark_direct_after_failed_read_witness:
  "fst (markDirect ''!n:hs'' [''@bob:hs''] (Inl (Thrown ''x'')) (\<lambda>_. Inr ()) demo_rooms) = Inr ()"
  using mark_direct_after_failed_read [of "\<lambda>_. Inr ()" "''!n:hs''" "[''@bob:hs'']" "Thrown ''x''" demo_rooms "''@alice:hs''"] by simp



theorem set_power_keeps_others_witness:
  "\<exists>e c' qs vs. setPowerLevel ''!a:hs'' ''@bob:hs'' 50 (Inr (JObj [(''users'', JObj [(''@bot:hs'', JNum (Fin 100))])]))
      (\<lambda>_. Inr ''$e'') (client_new ''@bot:hs'' False None False False False demo_rooms) = (Inr e, c') \<and>
    jm_get qs ''users'' = Some (JObj vs) \<and> jm_get vs ''@bot:hs'' = Some (JNum (Fin 100))"
proof -
  let ?set = "setPowerLevel ''!a:hs'' ''@bob:hs'' 50 (Inr (JObj [(''users'', JObj [(''@bot:hs'', JNum (Fin 100))])]))
      (\<lambda>_. Inr ''$e'') (client_new ''@bot:hs'' False None False False False demo_rooms)"
  obtain c' where s: "?set = (Inr ''$e'', c')"
    by (simp add: setPowerLevel_def Let_def)
  obtain qs vs where "jm_get qs ''users'' = Some (JObj vs)"
    and "\<forall>v. v = ''@bob:hs'' \<or> jm_get vs v = jm_get [(''@bot:hs'', JNum (Fin 100))] v"
    using set_power_keeps_others [OF s, of "[(''@bot:hs'', JNum (Fin 100))]"] by auto
  moreover from this(2) have "jm_get vs ''@bot:hs'' = Some (JNum (Fin 100))"
    by (auto dest: spec [of _ "''@bot:hs''"])
  ultimately show ?thesis using s by blast
qed

theorem set_power_after_failed_read_witness:
  "fst (setPowerLevel ''!a:hs'' ''@bob:hs'' 50 (Inl (Thrown ''x'')) (\<lambda>_. Inr ''$e'')
      (client_new ''@bot:hs'' False None False False False demo_rooms)) = Inr ''$e''"
  using set_power_after_failed_read [of "\<lambda>_. Inr ''$e''" "''@bob:hs''" 50 "''$e''"] by simp

end
