(* ===== verification/Bot_Feed.thy ===== *)
theory Bot_Feed
  imports Updates Client_Rooms
begin

text \<open>
  How \<^verbatim>\<open>src/bot.ts\<close> turns what the client hands over into updates: the gates of
  \<open>feedRoomEvent\<close>, the presses read by \<open>readCallbackEvent\<close>, MiniApp data, and the other
  three feeds. The callback registry is a parameter with the contract \<open>callback_store\<close>, in
  which the properties of a press are proved once; both registries of \<open>Callbacks\<close> interpret
  it. An event is its JSON object.
\<close>

section \<open>Gates\<close>

text \<open>\<open>event.key === s\<close>.\<close>

definition prop_is :: "json \<Rightarrow> string \<Rightarrow> string \<Rightarrow> bool" where
  "prop_is event key s \<longleftrightarrow> json_prop event key = Some (JStr s)"

definition is_edit_event :: "json \<Rightarrow> bool" where
  "is_edit_event event \<longleftrightarrow>
     (case json_prop event ''content'' of
        Some c \<Rightarrow> (case json_prop c ''m.relates_to'' of Some rel \<Rightarrow> prop_is rel ''rel_type'' ''m.replace'' | None \<Rightarrow> False)
      | None \<Rightarrow> False)"

definition coldStartKindForEvent :: "json \<Rightarrow> cold_kind" where
  "coldStartKindForEvent event =
     (if prop_is event ''type'' HOST_CAPABILITIES_STATE_EVENT_TYPE then CK_host_capabilities_state
      else if prop_is event ''type'' ''m.reaction'' then CK_reaction
      else if prop_is event ''type'' ''m.room.redaction'' then CK_redaction
      else if prop_is event ''type'' ''m.room.member'' then CK_membership
      else if prop_is event ''type'' ''dev.aiomatrix.callback'' then CK_callback_query
      else if prop_is event ''type'' ''dev.aiomatrix.mini_app_data'' then CK_mini_app_data
      else if is_edit_event event then CK_edited_message
      else if prop_is event ''type'' ''m.room.message'' \<or> prop_is event ''type'' ''m.sticker'' then CK_message
      else CK_raw_event)"

definition is_host_state :: "json \<Rightarrow> bool" where
  "is_host_state event \<longleftrightarrow>
     prop_is event ''type'' HOST_CAPABILITIES_STATE_EVENT_TYPE \<and>
     (case json_prop event ''state_key'' of Some (JStr _) \<Rightarrow> True | _ \<Rightarrow> False)"

record feed_config =
  fc_selfId :: string
  fc_allowUnsigned :: bool
  fc_parse :: "string \<Rightarrow> json option"

record 'r feed_state =
  fs_ready :: bool
  fs_stopping :: bool
  fs_hosts :: host_cache
  fs_registry :: 'r

datatype gate = G_drop | G_host host_capabilities | G_update

definition feed_gate :: "feed_config \<Rightarrow> bool \<Rightarrow> json \<Rightarrow> 'r feed_state \<Rightarrow> gate" where
  "feed_gate cfg bootstrap event s =
     (if fs_stopping s \<or> \<not> fs_ready s then G_drop
      else if is_host_state event then G_host (parseHostCapabilities (or_default JNull (json_prop event ''content'')))
      else if bootstrap \<and> \<not> shouldDispatchOnColdStart (coldStartKindForEvent event) True then G_drop
      else if prop_is event ''sender'' (fc_selfId cfg) then G_drop
      else G_update)"

section \<open>Button presses and MiniApp data\<close>

definition resolveCallbackToken ::
  "(string \<Rightarrow> string option \<Rightarrow> 'r \<Rightarrow> callback_record option \<times> 'r) \<Rightarrow> string \<Rightarrow> string \<Rightarrow> string option \<Rightarrow> 'r \<Rightarrow>
     callback_record option \<times> 'r" where
  "resolveCallbackToken res token roomId senderId s =
     (case res token senderId s of
        (None, s1) \<Rightarrow> (None, s1)
      | (Some r, s1) \<Rightarrow> (if cr_roomId r \<noteq> roomId then None else Some r, s1))"

text \<open>\<open>/^[!/]cb\s+(\S+)$/\<close> on the trimmed body.\<close>

definition fallback_token :: "string \<Rightarrow> string option" where
  "fallback_token body =
     (case js_trim body of
        [] \<Rightarrow> None
      | c # s \<Rightarrow>
          (let after = drop (length CALLBACK_FALLBACK_COMMAND) s; token = dropWhile js_space after
           in if (c = CHR ''!'' \<or> c = CHR ''/'') \<and> js_starts_with s CALLBACK_FALLBACK_COMMAND \<and> token \<noteq> after \<and>
                 token \<noteq> [] \<and> \<not> list_ex js_space token
              then Some token else None))"

definition press_of :: "string \<Rightarrow> callback_record option \<Rightarrow> callback_press option" where
  "press_of token r =
     (case r of
        None \<Rightarrow> None
      | Some x \<Rightarrow> (if cr_answered x then None
                   else Some \<lparr>cp_data = cr_data x, cp_messageEventId = cr_messageEventId x, cp_queryId = token\<rparr>))"

definition sender_of :: "json \<Rightarrow> string option" where
  "sender_of event = readString event ''sender''"

definition unsigned_press :: "feed_config \<Rightarrow> json \<Rightarrow> callback_press option" where
  "unsigned_press cfg content =
     (if \<not> fc_allowUnsigned cfg then None
      else map_option (\<lambda>d. \<lparr>cp_data = d, cp_messageEventId = or_default [] (readString content ''message_id''), cp_queryId = []\<rparr>)
             (truthy (readString content ''data'')))"

definition readCallbackEvent ::
  "feed_config \<Rightarrow> (string \<Rightarrow> string option \<Rightarrow> 'r \<Rightarrow> callback_record option \<times> 'r) \<Rightarrow> string \<Rightarrow> json \<Rightarrow> 'r \<Rightarrow>
     callback_press option \<times> 'r" where
  "readCallbackEvent cfg res roomId event s =
     (let ty = readString event ''type''; content = content_of event
      in if ty = Some ''dev.aiomatrix.callback'' then
           (let (r, s1) = (case truthy (readString content ''token'') of
                             Some t \<Rightarrow> resolveCallbackToken res t roomId (sender_of event) s
                           | None \<Rightarrow> (None, s))
            in if r = None then (unsigned_press cfg content, s1)
               else (press_of (or_default [] (readString content ''token'')) r, s1))
         else if ty \<noteq> Some ''m.room.message'' then (None, s)
         else
           (case fallback_token (or_default [] (readString content ''body'')) of
              None \<Rightarrow> (None, s)
            | Some t \<Rightarrow> (let (r, s1) = resolveCallbackToken res t roomId (sender_of event) s in (press_of t r, s1))))"

definition readMiniAppData :: "feed_config \<Rightarrow> json \<Rightarrow> mini_app_update option" where
  "readMiniAppData cfg event =
     map_option (\<lambda>p. \<lparr>ma_raw = dp_data p, ma_payload = parseMiniAppJson (fc_parse cfg) (dp_data p), ma_queryId = dp_queryId p,
                      ma_appId = dp_appId p\<rparr>)
       (Option.bind (json_prop event ''content'') parseMiniAppDataContent)"

section \<open>The feeds\<close>

text \<open>
  \<open>feedRoomEvent\<close> up to the update it hands to the waiters and the dispatcher; \<open>stopped\<close> is
  whether the bot was stopped while the context was built.
\<close>

definition feedRoomEvent ::
  "feed_config \<Rightarrow> (string \<Rightarrow> string option \<Rightarrow> 'r \<Rightarrow> callback_record option \<times> 'r) \<Rightarrow> string \<Rightarrow> json \<Rightarrow> bool \<Rightarrow> bool \<Rightarrow> bool \<Rightarrow>
     'r feed_state \<Rightarrow> update option \<times> 'r feed_state" where
  "feedRoomEvent cfg res roomId event bootstrap isDirect stopped s =
     (case feed_gate cfg bootstrap event s of
        G_drop \<Rightarrow> (None, s)
      | G_host h \<Rightarrow> (None, s\<lparr>fs_hosts := jm_set roomId h (fs_hosts s)\<rparr>)
      | G_update \<Rightarrow>
          (let (press, r1) = readCallbackEvent cfg res roomId event (fs_registry s);
               u = fromRoomEvent (fc_selfId cfg) roomId isDirect press (readMiniAppData cfg event) event
           in (if stopped then None else u, s\<lparr>fs_registry := r1\<rparr>)))"

definition feedEphemeral :: "string \<Rightarrow> json \<Rightarrow> bool \<Rightarrow> 'r feed_state \<Rightarrow> update option" where
  "feedEphemeral roomId event isDirect s =
     (if fs_stopping s \<or> \<not> fs_ready s then None else Some (fromEphemeral roomId isDirect event))"

definition feedToDevice :: "json \<Rightarrow> 'r feed_state \<Rightarrow> update option" where
  "feedToDevice event s =
     (let ty = or_default [] (readString event ''type'')
      in if fs_stopping s \<or> \<not> fs_ready s then None
         else if js_starts_with ty ''m.room_key'' \<or> ty = ''m.room.encrypted'' \<or> ty = ''m.dummy'' then None
         else Some (fromToDevice event))"

definition feedInvite :: "feed_config \<Rightarrow> string \<Rightarrow> json list \<Rightarrow> 'r feed_state \<Rightarrow> update option" where
  "feedInvite cfg roomId events s =
     (if fs_stopping s \<or> \<not> fs_ready s then None
      else map_option (fromInvite (fc_selfId cfg) roomId)
             (List.find (\<lambda>e. prop_is e ''type'' ''m.room.member'' \<and> prop_is e ''state_key'' (fc_selfId cfg)) events))"

text \<open>The callback presses among the updates of a list of events, each fed at a time of its own.\<close>

record fed_event =
  fe_now :: int
  fe_room :: string
  fe_event :: json
  fe_direct :: bool

fun feed_all ::
  "feed_config \<Rightarrow> (int \<Rightarrow> string \<Rightarrow> string option \<Rightarrow> 'r \<Rightarrow> callback_record option \<times> 'r) \<Rightarrow> fed_event list \<Rightarrow> 'r feed_state \<Rightarrow>
     update list" where
  "feed_all cfg res [] s = []"
| "feed_all cfg res (e # es) s =
     (let (u, s1) = feedRoomEvent cfg (res (fe_now e)) (fe_room e) (fe_event e) False (fe_direct e) False s
      in (case u of Some x \<Rightarrow> [x] | None \<Rightarrow> []) @ feed_all cfg res es s1)"

definition press_query :: "update \<Rightarrow> string option" where
  "press_query u = (case up_body u of B_callback c \<Rightarrow> Some (cp_queryId c) | _ \<Rightarrow> None)"

text \<open>How many of the updates are presses of this token.\<close>

definition presses :: "string \<Rightarrow> update list \<Rightarrow> nat" where
  "presses t us = length (filter (\<lambda>u. press_query u = Some t) us)"

section \<open>What gets through\<close>

lemma feed_gate_update:
  "feed_gate cfg bootstrap event s = G_update \<longleftrightarrow>
     \<not> fs_stopping s \<and> fs_ready s \<and> \<not> is_host_state event \<and> \<not> prop_is event ''sender'' (fc_selfId cfg) \<and>
     (bootstrap \<longrightarrow> shouldDispatchOnColdStart (coldStartKindForEvent event) True)"
  by (auto simp: feed_gate_def)

lemma feedRoomEvent_Some:
  assumes "feedRoomEvent cfg res roomId event bootstrap isDirect stopped s = (Some u, s')"
  shows "feed_gate cfg bootstrap event s = G_update"
    and "\<exists>press r1. readCallbackEvent cfg res roomId event (fs_registry s) = (press, r1) \<and> s' = s\<lparr>fs_registry := r1\<rparr> \<and>
      fromRoomEvent (fc_selfId cfg) roomId isDirect press (readMiniAppData cfg event) event = Some u"
  using assms by (auto simp: feedRoomEvent_def split: gate.splits prod.splits if_splits)

lemma cold_kind_host:
  "shouldDispatchOnColdStart (coldStartKindForEvent event) True \<longleftrightarrow> prop_is event ''type'' HOST_CAPABILITIES_STATE_EVENT_TYPE"
  by (simp add: coldStartKindForEvent_def shouldDispatchOnColdStart_def COLD_START_DISPATCH_def)

text \<open>
  C7 (safety). An event becomes an update only when the bot runs, when another user sent it, and when it is
  no host state; and during the first sync none does, whatever its type, but for events of the
  type of the host state.
\<close>

theorem feed_gates:
  assumes "feedRoomEvent cfg res roomId event bootstrap isDirect stopped s = (Some u, s')"
  shows "fs_ready s \<and> \<not> fs_stopping s \<and> \<not> stopped \<and> \<not> prop_is event ''sender'' (fc_selfId cfg) \<and> \<not> is_host_state event \<and>
    (bootstrap = False \<or> prop_is event ''type'' HOST_CAPABILITIES_STATE_EVENT_TYPE) \<and>
    up_roomId u = roomId \<and> up_event u = event \<and> fs_hosts s' = fs_hosts s"
proof -
  have "\<not> stopped"
    using assms by (auto simp: feedRoomEvent_def split: gate.splits prod.splits)
  then show ?thesis
    using feedRoomEvent_Some [OF assms] by (auto simp: feed_gate_update cold_kind_host fromRoomEvent_def)
qed

lemma readCallbackEvent_press:
  assumes "readCallbackEvent cfg res roomId event s = (Some c, s1)" and "\<not> fc_allowUnsigned cfg"
  shows "\<exists>r. res (cp_queryId c) (sender_of event) s = (Some r, s1) \<and> cr_roomId r = roomId \<and> \<not> cr_answered r \<and>
    cp_data c = cr_data r \<and> cp_messageEventId c = cr_messageEventId r"
  using assms
  by (auto simp: readCallbackEvent_def resolveCallbackToken_def unsigned_press_def press_of_def truthy_Some Let_def
      split: if_splits option.splits prod.splits)

lemma feed_press:
  assumes "feedRoomEvent cfg res roomId event bootstrap isDirect stopped s = (Some u, s')" and "up_body u = B_callback c"
    and "\<not> fc_allowUnsigned cfg"
  shows "\<exists>r. res (cp_queryId c) (sender_of event) (fs_registry s) = (Some r, fs_registry s') \<and> cr_roomId r = roomId \<and>
    \<not> cr_answered r \<and> cp_data c = cr_data r \<and> cp_messageEventId c = cr_messageEventId r"
proof -
  obtain press r1 where p: "readCallbackEvent cfg res roomId event (fs_registry s) = (press, r1)" "s' = s\<lparr>fs_registry := r1\<rparr>"
    and u: "fromRoomEvent (fc_selfId cfg) roomId isDirect press (readMiniAppData cfg event) event = Some u"
    using feedRoomEvent_Some(2) [OF assms(1)] by blast
  have "press = Some c"
    using u assms(2) by (auto simp: fromRoomEvent_def classify_def Let_def read_reaction_def read_redaction_def read_membership_def
        read_poll_def split: option.splits if_splits)
  then show ?thesis
    using readCallbackEvent_press [of cfg res roomId event "fs_registry s" c r1] p assms(3) by simp
qed

section \<open>Presses in the contract of the registry\<close>

context callback_store
begin

lemma press_authorised:
  assumes "inv (fs_registry s)" and "feedRoomEvent cfg (resolve now) roomId event bootstrap isDirect stopped s = (Some u, s')"
    and "up_body u = B_callback c" and "\<not> fc_allowUnsigned cfg"
  shows "\<exists>r. fst (resolve now (cp_queryId c) (sender_of event) (fs_registry s)) = Some r \<and> cp_data c = cr_data r \<and>
    cr_roomId r = up_roomId u \<and> now < cr_expiresAtMs r \<and> may_press (cr_userId r) (sender_of event) \<and> \<not> cr_answered r \<and>
    inv (fs_registry s')"
proof -
  obtain r where r: "resolve now (cp_queryId c) (sender_of event) (fs_registry s) = (Some r, fs_registry s')" "cr_roomId r = roomId"
    "\<not> cr_answered r" "cp_data c = cr_data r"
    using feed_press [OF assms(2-4)] by blast
  have "up_roomId u = roomId"
    using feed_gates [OF assms(2)] by simp
  with r show ?thesis
    using resolve_fresh [OF assms(1) r(1)] resolve_user [OF assms(1) r(1)] resolve_inv [OF assms(1), of now "cp_queryId c" "sender_of event"]
    by (intro exI [of _ r]) simp
qed

text \<open>A press in another room uses a single-use token up.\<close>

lemma foreign_press_spends:
  assumes "inv s" and "resolve now t u s = (Some r, s1)" and "cr_singleUse r" and "cr_roomId r \<noteq> roomId"
  shows "resolveCallbackToken (resolve now) t roomId u s = (None, s1)" and "spent now s1 t"
  using assms once [OF assms(1,2,3)] by (simp_all add: resolveCallbackToken_def)

end

text \<open>
  A registry in which a spent token stays spent whatever else is resolved, and in which the
  state tells single-use tokens: there a token gives at most one update in any feed.
\<close>

lemma feed_registry:
  assumes "feedRoomEvent cfg res roomId event bootstrap isDirect stopped s = (u, s')"
  shows "fs_registry s' = fs_registry s \<or> (\<exists>t v. fs_registry s' = snd (res t v (fs_registry s)))"
proof -
  have res: "snd (resolveCallbackToken res t r v s0) = snd (res t v s0)" for t r v and s0 :: 'a
    by (simp add: resolveCallbackToken_def split: prod.split option.split)
  have "snd (readCallbackEvent cfg res roomId event s0) = s0 \<or> (\<exists>t v. snd (readCallbackEvent cfg res roomId event s0) = snd (res t v s0))"
    for s0
    using res by (auto simp: readCallbackEvent_def Let_def split_beta split: option.split prod.splits if_splits)
  note read = this [of "fs_registry s"]
  show ?thesis
  proof (cases "feed_gate cfg bootstrap event s")
    case G_update
    then have "fs_registry s' = snd (readCallbackEvent cfg res roomId event (fs_registry s))"
      using assms by (auto simp: feedRoomEvent_def split: prod.splits)
    with read show ?thesis by simp
  qed (use assms in \<open>auto simp: feedRoomEvent_def\<close>)
qed

locale one_shot_store = callback_store +
  fixes single :: "'a \<Rightarrow> string \<Rightarrow> bool"
  assumes spent_others: "inv s \<Longrightarrow> spent now s t \<Longrightarrow> now \<le> now' \<Longrightarrow> spent now' (snd (resolve now' t' u s)) t"
    and spent_later: "spent now s t \<Longrightarrow> now \<le> now' \<Longrightarrow> spent now' s t"
    and single_resolve: "single s t \<Longrightarrow> resolve now t u s = (Some r, s1) \<Longrightarrow> cr_singleUse r"
    and single_stays: "inv s \<Longrightarrow> single s t \<Longrightarrow> single (snd (resolve now t' u s)) t"
begin

lemma presses_simps: "presses t [] = 0" "presses t (us @ vs) = presses t us + presses t vs"
  "presses t (u # us) = (if press_query u = Some t then Suc (presses t us) else presses t us)"
  by (simp_all add: presses_def)

lemma feed_keeps:
  assumes "feedRoomEvent cfg (resolve now) roomId event bootstrap isDirect stopped s = (u, s')" and "inv (fs_registry s)"
  shows "inv (fs_registry s')" and "single (fs_registry s) t \<Longrightarrow> single (fs_registry s') t"
    and "spent n (fs_registry s) t \<Longrightarrow> n \<le> now \<Longrightarrow> spent now (fs_registry s') t"
proof -
  consider "fs_registry s' = fs_registry s" | t' v where "fs_registry s' = snd (resolve now t' v (fs_registry s))"
    using feed_registry [OF assms(1)] by blast
  then have "inv (fs_registry s') \<and> (single (fs_registry s) t \<longrightarrow> single (fs_registry s') t) \<and>
      (spent n (fs_registry s) t \<longrightarrow> n \<le> now \<longrightarrow> spent now (fs_registry s') t)"
  proof cases
    case 1
    then show ?thesis using assms(2) spent_later by simp
  next
    case (2 t' v)
    then show ?thesis
      using resolve_inv [OF assms(2), of now t' v] single_stays [OF assms(2), of t now t' v] spent_others [OF assms(2), of n t now t' v]
      by simp
  qed
  then show "inv (fs_registry s')" and "single (fs_registry s) t \<Longrightarrow> single (fs_registry s') t"
    and "spent n (fs_registry s) t \<Longrightarrow> n \<le> now \<Longrightarrow> spent now (fs_registry s') t"
    by blast+
qed

lemma press_found:
  assumes "feedRoomEvent cfg (resolve now) roomId event bootstrap isDirect stopped s = (Some u, s')" and "press_query u = Some t"
    and "\<not> fc_allowUnsigned cfg"
  shows "\<exists>r. resolve now t (sender_of event) (fs_registry s) = (Some r, fs_registry s')"
  using feed_press [OF assms(1) _ assms(3)] assms(2) by (auto simp: press_query_def split: update_body.splits)

lemma spent_feed:
  assumes "inv (fs_registry s)" and "spent now (fs_registry s) t" and "sorted (now # map fe_now es)" and "\<not> fc_allowUnsigned cfg"
  shows "presses t (feed_all cfg resolve es s) = 0"
  using assms
proof (induction es arbitrary: s now)
  case (Cons e es)
  obtain u s1 where f: "feedRoomEvent cfg (resolve (fe_now e)) (fe_room e) (fe_event e) False (fe_direct e) False s = (u, s1)"
    by fastforce
  have now: "now \<le> fe_now e" "sorted (fe_now e # map fe_now es)"
    using Cons.prems(3) by simp_all
  have "press_query x \<noteq> Some t" if "u = Some x" for x
  proof
    assume "press_query x = Some t"
    from press_found [OF f [unfolded that] this Cons.prems(4)] obtain r
      where "resolve (fe_now e) t (sender_of (fe_event e)) (fs_registry s) = (Some r, fs_registry s1)" ..
    with spent_refused [OF Cons.prems(1,2) now(1), of "sender_of (fe_event e)"] show False
      by simp
  qed
  moreover have "presses t (feed_all cfg resolve es s1) = 0"
    by (rule Cons.IH [OF feed_keeps(1) [OF f Cons.prems(1)] feed_keeps(3) [OF f Cons.prems(1,2) now(1)] now(2) Cons.prems(4)])
  ultimately show ?case
    by (cases u) (simp_all add: f presses_simps)
qed (simp add: presses_simps)

lemma press_once:
  assumes "inv (fs_registry s)" and "single (fs_registry s) t" and "sorted (map fe_now es)" and "\<not> fc_allowUnsigned cfg"
  shows "presses t (feed_all cfg resolve es s) \<le> 1"
  using assms
proof (induction es arbitrary: s)
  case (Cons e es)
  obtain u s1 where f: "feedRoomEvent cfg (resolve (fe_now e)) (fe_room e) (fe_event e) False (fe_direct e) False s = (u, s1)"
    by fastforce
  note keeps = feed_keeps [OF f Cons.prems(1)]
  show ?case
  proof (cases "\<exists>x. u = Some x \<and> press_query x = Some t")
    case True
    then obtain x where x: "u = Some x" "press_query x = Some t" by blast
    obtain r where r: "resolve (fe_now e) t (sender_of (fe_event e)) (fs_registry s) = (Some r, fs_registry s1)"
      using press_found [OF f [unfolded x(1)] x(2) Cons.prems(4)] by blast
    have "spent (fe_now e) (fs_registry s1) t"
      by (rule once [OF Cons.prems(1) r single_resolve [OF Cons.prems(2) r]])
    then have "presses t (feed_all cfg resolve es s1) = 0"
      using spent_feed [OF keeps(1), of "fe_now e" t es cfg] Cons.prems(3,4) by simp
    then show ?thesis
      using f x by (simp add: presses_simps)
  next
    case False
    moreover have "presses t (feed_all cfg resolve es s1) \<le> 1"
      using Cons.IH [OF keeps(1) keeps(2) [OF Cons.prems(2)]] Cons.prems(3,4) by simp
    ultimately show ?thesis
      by (cases u) (auto simp: f presses_simps)
  qed
qed (simp add: presses_simps)

end

section \<open>Both registries\<close>

definition cb_single :: "callback_registry \<Rightarrow> string \<Rightarrow> bool" where
  "cb_single s t \<longleftrightarrow> (case jm_get (cb_tokens s) t of Some r \<Rightarrow> cr_singleUse r | None \<Rightarrow> True)"

lemma cb_resolve_tokens:
  "jm_get (cb_tokens (snd (cb_resolve now t' u s))) t \<in> {jm_get (cb_tokens s) t, None}"
  by (auto simp: cb_resolve_def cb_peek_def jsmap_simps split: option.splits if_splits)

interpretation opaque_once: one_shot_store cb_issue cb_resolve "\<lambda>now. cb_revoke" "\<lambda>now rnd p s. True" cb_ttlMs
  "\<lambda>now t s. True" "\<lambda>now s t. jm_get (cb_tokens s) t = None" cb_inv cb_single
proof unfold_locales
  fix s :: callback_registry and now t u r s1
  assume "cb_single s t" "cb_resolve now t u s = (Some r, s1)"
  then show "cr_singleUse r"
    by (auto simp: cb_single_def cb_resolve_def cb_peek_def split: option.splits if_splits)
next
  fix s :: callback_registry and now t t' u
  assume "cb_single s t"
  then show "cb_single (snd (cb_resolve now t' u s)) t"
    using cb_resolve_tokens [of now t' u s t] by (auto simp: cb_single_def)
next
  fix s :: callback_registry and now now' :: int and t t' u
  assume "jm_get (cb_tokens s) t = None"
  then show "jm_get (cb_tokens (snd (cb_resolve now' t' u s))) t = None"
    using cb_resolve_tokens [of now' t' u s t] by simp
qed

text \<open>The bot resolves with \<open>resolveAsync\<close>, which is \<open>resolve\<close> unless a store is asynchronous.\<close>

definition signed_resolve ::
  "('u, 'm, 'a) sg_env \<Rightarrow> int \<Rightarrow> string \<Rightarrow> string option \<Rightarrow> ('u, 'm, 'a) signed_registry \<Rightarrow>
     callback_record option \<times> ('u, 'm, 'a) signed_registry" where
  "signed_resolve E now = sg_resolveAsync E now now None"

lemma canonicalize_async: "sg_asyncUsed (snd (sg_canonicalize E clk t s)) = sg_asyncUsed s"
  by (auto simp: sg_canonicalize_def sg_cacheAlias_def Let_def split: option.split prod.split)

lemma sg_peek_async: "sg_asyncUsed (snd (sg_peek E clk now t s)) = sg_asyncUsed s"
  by (auto simp: sg_peek_def sg_boundMessage_def sg_isAnswered_def canonicalize_async Let_def split_beta split: option.split)

lemma signed_resolve_now:
  assumes "sg_asyncUsed s = None"
  shows "signed_resolve E now t u s = sg_resolve_now E now t u s"
proof -
  obtain c s1 where c: "sg_canonicalize E now t s = (c, s1)" by fastforce
  obtain r s2 where r: "sg_peek E now now c s1 = (r, s2)" by fastforce
  have "sg_canonicalizeAsync E now None t s = (c, s1)"
    using c by (auto simp: sg_canonicalizeAsync_def truthy_def)
  moreover have "sg_asyncUsed s2 = None"
    using sg_peek_async [of E now now c s1] canonicalize_async [of E now t s] assms by (simp add: c r)
  ultimately show ?thesis
    using assms c r by (auto simp: signed_resolve_def sg_resolveAsync_def sg_resolve_now_def sg_resolve_def Let_def split: option.split prod.split)
qed

lemma feed_cong:
  assumes "\<And>t v. res t v (fs_registry s) = res' t v (fs_registry s)"
  shows "feedRoomEvent cfg res roomId event bootstrap isDirect stopped s = feedRoomEvent cfg res' roomId event bootstrap isDirect stopped s"
proof -
  have "resolveCallbackToken res t roomId v (fs_registry s) = resolveCallbackToken res' t roomId v (fs_registry s)" for t v
    by (simp add: resolveCallbackToken_def assms)
  then have "readCallbackEvent cfg res roomId event (fs_registry s) = readCallbackEvent cfg res' roomId event (fs_registry s)"
    unfolding readCallbackEvent_def by presburger
  then show ?thesis
    by (simp only: feedRoomEvent_def)
qed

section \<open>Properties\<close>

definition press_event :: "string \<Rightarrow> string \<Rightarrow> json" where
  "press_event sender token =
     JObj [(''type'', JStr ''dev.aiomatrix.callback''), (''sender'', JStr sender), (''content'', buildCallbackContent token None)]"

definition text_event :: "string \<Rightarrow> string \<Rightarrow> json" where
  "text_event sender body =
     JObj [(''type'', JStr ''m.room.message''), (''sender'', JStr sender),
           (''content'', JObj [(''msgtype'', JStr ''m.text''), (''body'', JStr body)])]"

text \<open>
  C4 (safety). A handler is called for a button press only with the data of a token that the opaque registry
  holds: issued for the room of the event, not expired, not answered, and for the sender of
  the event when it names a user. Unsigned presses are not allowed.
\<close>

theorem bot_press_authorised:
  assumes "cb_inv (fs_registry s)" and "feedRoomEvent cfg (cb_resolve now) roomId event bootstrap isDirect stopped s = (Some u, s')"
    and "up_body u = B_callback c" and "\<not> fc_allowUnsigned cfg"
  shows "\<exists>r. fst (cb_resolve now (cp_queryId c) (sender_of event) (fs_registry s)) = Some r \<and> cp_data c = cr_data r \<and>
    cr_roomId r = up_roomId u \<and> now < cr_expiresAtMs r \<and> may_press (cr_userId r) (sender_of event) \<and> \<not> cr_answered r"
  using opaque.press_authorised [OF assms] by blast

text \<open>The same with the signed registry, as the bot configures it, over memory stores.\<close>

theorem bot_press_authorised_signed:
  assumes "mem_signed_inv (fs_registry s)"
    and "feedRoomEvent cfg (signed_resolve (mem_env h e d) now) roomId event bootstrap isDirect stopped s = (Some u, s')"
    and "up_body u = B_callback c" and "\<not> fc_allowUnsigned cfg"
  shows "\<exists>r. fst (signed_resolve (mem_env h e d) now (cp_queryId c) (sender_of event) (fs_registry s)) = Some r \<and>
    cp_data c = cr_data r \<and> cr_roomId r = up_roomId u \<and> now < cr_expiresAtMs r \<and>
    may_press (cr_userId r) (sender_of event) \<and> \<not> cr_answered r"
proof -
  have eq: "signed_resolve (mem_env h e d) now t v (fs_registry s) = sg_resolve_now (mem_env h e d) now t v (fs_registry s)" for t v
    using assms(1) by (intro signed_resolve_now) (simp add: sg_inv_def)
  have "feedRoomEvent cfg (sg_resolve_now (mem_env h e d) now) roomId event bootstrap isDirect stopped s = (Some u, s')"
    using assms(2) feed_cong [where res = "signed_resolve (mem_env h e d) now" and res' = "sg_resolve_now (mem_env h e d) now", OF eq,
        of cfg roomId event bootstrap isDirect stopped]
    by simp
  from mem_signed.signed.press_authorised [OF assms(1) this assms(3,4)] show ?thesis
    by (auto simp: eq)
qed

text \<open>
  C5 (safety). However many events the bot is fed, from whomever and in whatever rooms, a single-use token
  of the opaque registry gives at most one button press to the handlers, when unsigned presses
  are not allowed.
\<close>

theorem button_pressed_once:
  assumes "cb_inv (fs_registry s)" and "cb_single (fs_registry s) t" and "sorted (map fe_now es)" and "\<not> fc_allowUnsigned cfg"
  shows "presses t (feed_all cfg cb_resolve es s) \<le> 1"
  by (rule opaque_once.press_once [OF assms])

text \<open>
  The check of the room comes after the registry has used the token up: a press that is
  refused because it came from another room kills the button, and no later press of it in its
  own room reaches a handler.
\<close>

theorem foreign_room_press_kills_button:
  assumes "cb_inv (fs_registry s)" and "fs_ready s \<and> \<not> fs_stopping s" and "sender \<noteq> fc_selfId cfg" and "\<not> fc_allowUnsigned cfg"
    and "cb_resolve now t (Some sender) (fs_registry s) = (Some r, reg)" and "cr_singleUse r" and "cr_roomId r \<noteq> room" and "t \<noteq> []"
    and "sorted (now # map fe_now es)"
  shows "\<exists>u s'. feedRoomEvent cfg (cb_resolve now) room (press_event sender t) False isDirect False s = (u, s') \<and>
    presses t (feed_all cfg cb_resolve es s') = 0"
proof -
  have spent: "jm_get (cb_tokens reg) t = None" and reg: "cb_inv reg"
    using opaque.once [OF assms(1,5,6)] opaque.resolve_inv [OF assms(1), of now t "Some sender"] assms(5) by simp_all
  have token: "truthy (readString (content_of (press_event sender t)) ''token'') = Some t" "sender_of (press_event sender t) = Some sender"
    "readString (press_event sender t) ''type'' = Some ''dev.aiomatrix.callback''"
    using assms(8) by (simp_all add: press_event_def content_of_def buildCallbackContent_def truthy_def sender_of_def split: list.split)
  then have read: "readCallbackEvent cfg (cb_resolve now) room (press_event sender t) (fs_registry s) = (None, reg)"
    using assms(4,5,7) by (simp add: readCallbackEvent_def resolveCallbackToken_def unsigned_press_def)
  have "feed_gate cfg False (press_event sender t) s = G_update"
    using assms(2,3) by (simp add: feed_gate_def is_host_state_def prop_is_def press_event_def HOST_CAPABILITIES_STATE_EVENT_TYPE_def)
  then obtain u where "feedRoomEvent cfg (cb_resolve now) room (press_event sender t) False isDirect False s = (u, s\<lparr>fs_registry := reg\<rparr>)"
    by (simp add: feedRoomEvent_def read)
  moreover have "presses t (feed_all cfg cb_resolve es (s\<lparr>fs_registry := reg\<rparr>)) = 0"
    using opaque_once.spent_feed [where s = "s\<lparr>fs_registry := reg\<rparr>" and now = now and t = t and es = es and cfg = cfg] spent reg assms(4,9) by simp
  ultimately show ?thesis by blast
qed

lemma trimmed:
  assumes "s \<noteq> []" and "\<not> js_space (hd s)" and "\<not> js_space (last s)"
  shows "js_trim s = s"
proof -
  have "dropWhile js_space s = s"
    using assms(1,2) by (cases s) auto
  moreover have "dropWhile js_space (rev s) = rev s"
    using assms(1,3) by (cases "rev s") (auto simp: last_rev hd_rev [symmetric])
  ultimately show ?thesis by (simp add: js_trim_def)
qed

lemma fallback_token_of:
  assumes "t \<noteq> []" and "list_all (\<lambda>c. \<not> js_space c) t"
  shows "fallback_token (''!cb '' @ t) = Some t"
proof -
  have "js_trim (''!cb '' @ t) = ''!cb '' @ t"
    using assms by (intro trimmed) (auto simp: list_all_iff js_space_def)
  moreover have "dropWhile js_space t = t" "\<not> list_ex js_space t"
    using assms by (cases t; auto simp: list_all_iff list_ex_iff)+
  moreover have "js_space (CHR '' '')"
    by (simp add: js_space_def)
  moreover have "\<exists>x\<in>set t. \<not> js_space x"
    using assms by (cases t) auto
  ultimately show ?thesis
    using assms(1) by (simp add: fallback_token_def CALLBACK_FALLBACK_COMMAND_def js_starts_with_def Let_def)
qed

text \<open>
  The text fallback is a press: for a token without white space, typing \<open>!cb\<close> and the token
  resolves exactly as the event of a pressed button does, in any registry.
\<close>

theorem text_fallback_is_press:
  assumes "t \<noteq> []" and "list_all (\<lambda>c. \<not> js_space c) t" and "\<not> fc_allowUnsigned cfg"
  shows "readCallbackEvent cfg res roomId (text_event sender (''!cb '' @ t)) s = readCallbackEvent cfg res roomId (press_event sender t) s"
proof -
  have "readCallbackEvent cfg res roomId (text_event sender (''!cb '' @ t)) s =
      (let (r, s1) = resolveCallbackToken res t roomId (Some sender) s in (press_of t r, s1))"
    using fallback_token_of [OF assms(1,2)]
    by (simp add: readCallbackEvent_def text_event_def content_of_def sender_of_def)
  moreover have "readCallbackEvent cfg res roomId (press_event sender t) s =
      (let (r, s1) = resolveCallbackToken res t roomId (Some sender) s in (press_of t r, s1))"
    using assms(1,3)
    by (cases "resolveCallbackToken res t roomId (Some sender) s"; cases t)
      (auto simp: readCallbackEvent_def press_event_def content_of_def buildCallbackContent_def truthy_def sender_of_def
        unsigned_press_def press_of_def Let_def)
  ultimately show ?thesis by simp
qed

text \<open>
  A message of the type of the host state, sent as an ordinary event, is not held back during
  the first sync: any member of a room can have an event of the history handed to the handlers
  at the start of a bot, as a raw event.
\<close>

theorem bootstrap_host_message_dispatched:
  assumes "fs_ready s \<and> \<not> fs_stopping s" and "sender \<noteq> fc_selfId cfg" and "mini = JObj [(''body'', JStr text)]"
  shows "\<exists>u s'. feedRoomEvent cfg res roomId
      (JObj [(''type'', JStr ''dev.aiomatrix.host''), (''sender'', JStr sender), (''content'', mini)]) True isDirect False s = (Some u, s') \<and>
    up_body u = B_raw ''dev.aiomatrix.host''"
  using assms
  by (simp add: feedRoomEvent_def feed_gate_def is_host_state_def prop_is_def HOST_CAPABILITIES_STATE_EVENT_TYPE_def cold_kind_host
      readCallbackEvent_def readMiniAppData_def parseMiniAppDataContent_def isPlainObject_def MINI_APP_DATA_KEY_def fromRoomEvent_def
      classify_def event_type_def content_of_def Let_def)

definition demo_config :: feed_config where
  "demo_config = \<lparr>fc_selfId = ''@bot:hs'', fc_allowUnsigned = False, fc_parse = (\<lambda>_. None)\<rparr>"

definition demo_feed :: "callback_registry feed_state" where
  "demo_feed = \<lparr>fs_ready = True, fs_stopping = False, fs_hosts = [], fs_registry = demo_opaque\<rparr>"

lemma demo_feed_simps [simp]: "fs_registry demo_feed = demo_opaque" "fs_ready demo_feed" "\<not> fs_stopping demo_feed"
  "fc_selfId demo_config = ''@bot:hs''" "\<not> fc_allowUnsigned demo_config"
  by (simp_all add: demo_feed_def demo_config_def)

lemma demo_resolve: "\<exists>r reg. cb_resolve 20 ''tok'' (Some ''@u:hs'') demo_opaque = (Some r, reg) \<and> cr_singleUse r \<and>
    cr_roomId r = ''!r:hs'' \<and> cr_data r = ''buy'' \<and> \<not> cr_answered r \<and> cr_messageEventId r = []"
  by (simp add: demo_opaque_def demo_params_def cb_resolve_def cb_peek_def cb_issue_def cb_prune_def cb_new_def Let_def jsmap_simps
      wrong_user_def truthy_def)

lemma demo_press: "\<exists>u s' c. feedRoomEvent demo_config (cb_resolve 20) ''!r:hs'' (press_event ''@u:hs'' ''tok'') False False False demo_feed
    = (Some u, s') \<and> up_body u = B_callback c \<and> cp_data c = ''buy''"
proof -
  obtain r reg where "cb_resolve 20 ''tok'' (Some ''@u:hs'') demo_opaque = (Some r, reg)" "cr_roomId r = ''!r:hs''" "cr_data r = ''buy''"
    "\<not> cr_answered r"
    using demo_resolve by blast
  then show ?thesis
    by (simp add: feedRoomEvent_def feed_gate_def is_host_state_def prop_is_def press_event_def HOST_CAPABILITIES_STATE_EVENT_TYPE_def
        readCallbackEvent_def content_of_def buildCallbackContent_def truthy_def sender_of_def resolveCallbackToken_def press_of_def
        fromRoomEvent_def classify_def)
qed

theorem feed_gates_witness:
  "\<exists>u s'. feedRoomEvent demo_config (cb_resolve 20) ''!r:hs'' (press_event ''@u:hs'' ''tok'') False False False demo_feed = (Some u, s') \<and>
    up_roomId u = ''!r:hs''"
  using demo_press feed_gates by metis

theorem bot_press_authorised_witness:
  "\<exists>r. fst (cb_resolve 20 ''tok'' (Some ''@u:hs'') demo_opaque) = Some r \<and> (20 :: int) < cr_expiresAtMs r"
proof -
  obtain u s' c where u: "feedRoomEvent demo_config (cb_resolve 20) ''!r:hs'' (press_event ''@u:hs'' ''tok'') False False False demo_feed
    = (Some u, s')" "up_body u = B_callback c"
    using demo_press by blast
  have inv: "cb_inv (fs_registry demo_feed)"
    using demo_inv(1) by simp
  have "cp_queryId c = ''tok''" and "sender_of (press_event ''@u:hs'' ''tok'') = Some ''@u:hs''"
    using u by (auto simp: feedRoomEvent_def feed_gate_def is_host_state_def prop_is_def press_event_def HOST_CAPABILITIES_STATE_EVENT_TYPE_def
        readCallbackEvent_def content_of_def buildCallbackContent_def truthy_def sender_of_def resolveCallbackToken_def press_of_def
        fromRoomEvent_def classify_def unsigned_press_def readMiniAppData_def event_type_def parseMiniAppDataContent_def MINI_APP_DATA_KEY_def
        MINI_APP_DATA_MSGTYPE_def isPlainObject_def json_prop_def split: prod.splits option.splits if_splits)
  with bot_press_authorised [OF inv u] show ?thesis
    by auto
qed

theorem button_pressed_once_witness:
  "presses ''tok'' (feed_all demo_config cb_resolve
     [\<lparr>fe_now = 20, fe_room = ''!r:hs'', fe_event = press_event ''@u:hs'' ''tok'', fe_direct = False\<rparr>,
      \<lparr>fe_now = 30, fe_room = ''!r:hs'', fe_event = text_event ''@u:hs'' ''!cb tok'', fe_direct = False\<rparr>] demo_feed) \<le> 1"
proof -
  have "cb_single demo_opaque ''tok''"
    by (simp add: cb_single_def demo_opaque_def demo_params_def cb_issue_def cb_prune_def cb_new_def Let_def jsmap_simps)
  with demo_inv(1) show ?thesis
    by (intro button_pressed_once) simp_all
qed

theorem foreign_room_press_kills_button_witness:
  "\<exists>u s'. feedRoomEvent demo_config (cb_resolve 20) ''!other:hs'' (press_event ''@u:hs'' ''tok'') False False False demo_feed = (u, s') \<and>
    presses ''tok'' (feed_all demo_config cb_resolve
      [\<lparr>fe_now = 30, fe_room = ''!r:hs'', fe_event = press_event ''@u:hs'' ''tok'', fe_direct = False\<rparr>] s') = 0"
proof -
  obtain r reg where "cb_resolve 20 ''tok'' (Some ''@u:hs'') (fs_registry demo_feed) = (Some r, reg)" "cr_singleUse r"
    "cr_roomId r \<noteq> ''!other:hs''"
    using demo_resolve by fastforce
  with demo_inv(1) show ?thesis
    by (intro foreign_room_press_kills_button [where r = r and reg = reg]) simp_all
qed

theorem text_fallback_is_press_witness:
  "fst (readCallbackEvent demo_config (cb_resolve 20) ''!r:hs'' (text_event ''@u:hs'' ''!cb tok'') demo_opaque) =
   fst (readCallbackEvent demo_config (cb_resolve 20) ''!r:hs'' (press_event ''@u:hs'' ''tok'') demo_opaque)"
  using text_fallback_is_press [of "''tok''" demo_config "cb_resolve 20" "''!r:hs''" "''@u:hs''" demo_opaque]
  by (simp add: js_space_def)

theorem bootstrap_host_message_dispatched_witness:
  "\<exists>u s'. feedRoomEvent demo_config (cb_resolve 20) ''!r:hs''
      (JObj [(''type'', JStr ''dev.aiomatrix.host''), (''sender'', JStr ''@u:hs''), (''content'', JObj [(''body'', JStr ''x'')])]) True False
      False demo_feed = (Some u, s')"
  using bootstrap_host_message_dispatched [OF _ _ refl, of demo_feed "''@u:hs''" demo_config "cb_resolve 20" "''!r:hs''" "''x''" False]
  by auto

end
