(* ===== verification/Bot_Waiters.thy ===== *)
theory Bot_Waiters
  imports Updates
begin

text \<open>
  \<open>waitFor\<close> of \<^verbatim>\<open>src/bot.ts\<close> as an event machine: waiters are registered and time out, updates
  are offered to them before the dispatcher sees them, and each offer stops at every filter it
  awaits. Waiters and updates are numbered in the order they came. The log has how each
  waiter and each update ended.
\<close>

section \<open>The machine\<close>

record update_waiter =
  wt_roomId :: "string option"
  wt_senderId :: "string option"

definition wt_matches :: "update_waiter \<Rightarrow> update \<Rightarrow> bool" where
  "wt_matches w u \<longleftrightarrow>
     (case wt_roomId w of Some r \<Rightarrow> r = up_roomId u | None \<Rightarrow> True) \<and>
     (case wt_senderId w of Some s \<Rightarrow> s = up_senderId u | None \<Rightarrow> True)"

text \<open>
  \<open>waitFor\<close> of a context: an option that is left out means the room or the sender of the
  context, one that is \<open>null\<close> any.
\<close>

definition ctx_waitFor :: "update \<Rightarrow> string option option \<Rightarrow> string option option \<Rightarrow> update_waiter" where
  "ctx_waitFor u roomId senderId =
     \<lparr>wt_roomId = or_default (Some (up_roomId u)) roomId, wt_senderId = or_default (Some (up_senderId u)) senderId\<rparr>"

text \<open>An offer: the update, the waiter whose filter is awaited, and the rest of the snapshot.\<close>

record offer =
  of_update :: update
  of_asked :: nat
  of_rest :: "nat list"

datatype hub_entry =
    L_resolved nat nat update   \<comment> \<open>waiter, number of the update, update\<close>
  | L_lost nat nat update
  | L_timeout nat
  | L_dispatched nat update

record hub =
  hb_all :: "update_waiter list"
  hb_waiters :: "nat list"
  hb_offers :: "(nat, offer) jsmap"
  hb_fed :: nat
  hb_log :: "hub_entry list"

definition hub_new :: hub where
  "hub_new = \<lparr>hb_all = [], hb_waiters = [], hb_offers = [], hb_fed = 0, hb_log = []\<rparr>"

definition hub_note :: "hub_entry \<Rightarrow> hub \<Rightarrow> hub" where
  "hub_note e h = h\<lparr>hb_log := hb_log h @ [e]\<rparr>"

definition waitFor :: "update_waiter \<Rightarrow> hub \<Rightarrow> hub" where
  "waitFor w h = h\<lparr>hb_all := hb_all h @ [w], hb_waiters := hb_waiters h @ [length (hb_all h)]\<rparr>"

definition removeWaiter :: "nat \<Rightarrow> hub \<Rightarrow> hub" where
  "removeWaiter w h = h\<lparr>hb_waiters := remove1 w (hb_waiters h)\<rparr>"

text \<open>The timer of a waiter is cleared when the waiter is resolved.\<close>

definition waiter_timeout :: "nat \<Rightarrow> hub \<Rightarrow> hub option" where
  "waiter_timeout w h = (if w \<in> set (hb_waiters h) then Some (hub_note (L_timeout w) (removeWaiter w h)) else None)"

text \<open>The loop of \<open>tryResolveWaiter\<close> over the snapshot, up to the next filter that is awaited.\<close>

fun offer_on :: "nat \<Rightarrow> update \<Rightarrow> nat list \<Rightarrow> hub \<Rightarrow> hub" where
  "offer_on k u [] h = hub_note (L_dispatched k u) h"
| "offer_on k u (w # ws) h =
     (if wt_matches (hb_all h ! w) u
      then h\<lparr>hb_offers := jm_set k \<lparr>of_update = u, of_asked = w, of_rest = ws\<rparr> (hb_offers h)\<rparr>
      else offer_on k u ws h)"

definition offer_start :: "update \<Rightarrow> hub \<Rightarrow> hub" where
  "offer_start u h = offer_on (hb_fed h) u (hb_waiters h) (h\<lparr>hb_fed := hb_fed h + 1\<rparr>)"

text \<open>
  The awaited filter answers. A waiter that accepts is resolved, which does nothing when its
  promise is settled already; the update counts as consumed in either case. A filter that
  throws has refused.
\<close>

definition offer_answer :: "nat \<Rightarrow> bool \<Rightarrow> hub \<Rightarrow> hub option" where
  "offer_answer k accepted h =
     (case jm_get (hb_offers h) k of
        None \<Rightarrow> None
      | Some t \<Rightarrow>
          (let w = of_asked t; u = of_update t; h1 = h\<lparr>hb_offers := jm_del k (hb_offers h)\<rparr>
           in Some (if accepted
                    then hub_note (if w \<in> set (hb_waiters h) then L_resolved w k u else L_lost w k u) (removeWaiter w h1)
                    else offer_on k u (of_rest t) h1)))"

datatype hub_event =
    Ev_wait update_waiter
  | Ev_timeout nat
  | Ev_feed update
  | Ev_answer nat bool

fun hub_step :: "hub_event \<Rightarrow> hub \<Rightarrow> hub option" where
  "hub_step (Ev_wait w) h = Some (waitFor w h)"
| "hub_step (Ev_timeout w) h = waiter_timeout w h"
| "hub_step (Ev_feed u) h = Some (offer_start u h)"
| "hub_step (Ev_answer k b) h = offer_answer k b h"

fun hub_run :: "hub_event list \<Rightarrow> hub \<Rightarrow> hub option" where
  "hub_run [] h = Some h"
| "hub_run (e # es) h = (case hub_step e h of Some h1 \<Rightarrow> hub_run es h1 | None \<Rightarrow> None)"

text \<open>States reached by steps that a policy allows in the state they are made in.\<close>

inductive hub_reach :: "(hub_event \<Rightarrow> hub \<Rightarrow> bool) \<Rightarrow> hub \<Rightarrow> bool" for allowed where
  start: "hub_reach allowed hub_new"
| step: "hub_reach allowed h \<Longrightarrow> allowed e h \<Longrightarrow> hub_step e h = Some h' \<Longrightarrow> hub_reach allowed h'"

definition any_time :: "hub_event \<Rightarrow> hub \<Rightarrow> bool" where
  "any_time e h = True"

text \<open>Updates one after the other, and no timer while a filter is awaited.\<close>

definition one_at_a_time :: "hub_event \<Rightarrow> hub \<Rightarrow> bool" where
  "one_at_a_time e h \<longleftrightarrow> (case e of Ev_feed u \<Rightarrow> hb_offers h = [] | Ev_timeout w \<Rightarrow> hb_offers h = [] | _ \<Rightarrow> True)"

fun settles :: "nat \<Rightarrow> hub_entry \<Rightarrow> bool" where
  "settles w (L_resolved w' k u) = (w' = w)"
| "settles w (L_timeout w') = (w' = w)"
| "settles w _ = False"

fun ends :: "nat \<Rightarrow> hub_entry \<Rightarrow> bool" where
  "ends k (L_resolved w k' u) = (k' = k)"
| "ends k (L_lost w k' u) = (k' = k)"
| "ends k (L_dispatched k' u) = (k' = k)"
| "ends k (L_timeout w) = False"

definition settled :: "nat \<Rightarrow> hub \<Rightarrow> nat" where
  "settled w h = length (filter (settles w) (hb_log h))"

definition ended :: "nat \<Rightarrow> hub \<Rightarrow> nat" where
  "ended k h = length (filter (ends k) (hb_log h))"

section \<open>The invariant\<close>

text \<open>
  Waiters are registered once; a waiter is settled once unless it still waits; an update has
  ended once unless it is being offered or in \<open>X\<close>; offers are of waiters that may match; and
  a waiter is resolved with an update it may match.
\<close>

definition waiters_ok :: "hub \<Rightarrow> bool" where
  "waiters_ok h \<longleftrightarrow> distinct (hb_waiters h) \<and> (\<forall>w \<in> set (hb_waiters h). w < length (hb_all h))"

definition settled_ok :: "hub \<Rightarrow> bool" where
  "settled_ok h \<longleftrightarrow> (\<forall>w. settled w h = (if w < length (hb_all h) \<and> w \<notin> set (hb_waiters h) then 1 else 0))"

definition ended_ok :: "nat set \<Rightarrow> hub \<Rightarrow> bool" where
  "ended_ok X h \<longleftrightarrow> (\<forall>k. ended k h = (if k < hb_fed h \<and> jm_get (hb_offers h) k = None \<and> k \<notin> X then 1 else 0))"

definition offer_ok :: "hub \<Rightarrow> nat \<Rightarrow> offer \<Rightarrow> bool" where
  "offer_ok h k t \<longleftrightarrow> k < hb_fed h \<and> of_asked t < length (hb_all h) \<and> wt_matches (hb_all h ! of_asked t) (of_update t) \<and>
     (\<forall>w \<in> set (of_rest t). w < length (hb_all h))"

definition offers_ok :: "hub \<Rightarrow> bool" where
  "offers_ok h \<longleftrightarrow> jm_wf (hb_offers h) \<and> (\<forall>k t. jm_get (hb_offers h) k = Some t \<longrightarrow> offer_ok h k t)"

definition resolved_ok :: "hub \<Rightarrow> bool" where
  "resolved_ok h \<longleftrightarrow> (\<forall>w k u. L_resolved w k u \<in> set (hb_log h) \<longrightarrow> w < length (hb_all h) \<and> wt_matches (hb_all h ! w) u)"

definition hub_inv :: "nat set \<Rightarrow> hub \<Rightarrow> bool" where
  "hub_inv X h \<longleftrightarrow> waiters_ok h \<and> settled_ok h \<and> ended_ok X h \<and> offers_ok h \<and> resolved_ok h"

named_theorems hub_simps \<open>what the operations of the hub do to its fields\<close>

lemma hub_note_simps [hub_simps]:
  "hb_all (hub_note e h) = hb_all h" "hb_waiters (hub_note e h) = hb_waiters h" "hb_offers (hub_note e h) = hb_offers h"
  "hb_fed (hub_note e h) = hb_fed h" "hb_log (hub_note e h) = hb_log h @ [e]"
  "settled w (hub_note e h) = settled w h + (if settles w e then 1 else 0)"
  "ended k (hub_note e h) = ended k h + (if ends k e then 1 else 0)"
  by (simp_all add: hub_note_def settled_def ended_def)

lemma hub_update_simps [hub_simps]:
  "settled w (h\<lparr>hb_offers := x\<rparr>) = settled w h" "ended k (h\<lparr>hb_offers := x\<rparr>) = ended k h"
  "settled w (h\<lparr>hb_fed := n\<rparr>) = settled w h" "ended k (h\<lparr>hb_fed := n\<rparr>) = ended k h"
  by (simp_all add: settled_def ended_def)

lemma removeWaiter_simps [hub_simps]:
  "settled w (removeWaiter v h) = settled w h" "ended k (removeWaiter v h) = ended k h"
  "hb_all (removeWaiter v h) = hb_all h" "hb_waiters (removeWaiter v h) = remove1 v (hb_waiters h)"
  "hb_offers (removeWaiter v h) = hb_offers h" "hb_fed (removeWaiter v h) = hb_fed h" "hb_log (removeWaiter v h) = hb_log h"
  by (simp_all add: settled_def ended_def removeWaiter_def)

lemma waitFor_simps [hub_simps]:
  "settled w (waitFor v h) = settled w h" "ended k (waitFor v h) = ended k h"
  "hb_all (waitFor v h) = hb_all h @ [v]" "hb_waiters (waitFor v h) = hb_waiters h @ [length (hb_all h)]"
  "hb_offers (waitFor v h) = hb_offers h" "hb_fed (waitFor v h) = hb_fed h" "hb_log (waitFor v h) = hb_log h"
  by (simp_all add: settled_def ended_def waitFor_def)

lemma hub_inv_new: "hub_inv {} hub_new"
  by (simp add: hub_inv_def waiters_ok_def settled_ok_def ended_ok_def offers_ok_def resolved_ok_def hub_new_def settled_def ended_def)

lemma hub_inv_wait:
  assumes "hub_inv {} h"
  shows "hub_inv {} (waitFor w h)"
proof -
  have "waiters_ok (waitFor w h)" "ended_ok {} (waitFor w h)"
    using assms by (auto simp: hub_inv_def waiters_ok_def ended_ok_def hub_simps)
  moreover have "resolved_ok (waitFor w h)"
    using assms by (fastforce simp: hub_inv_def resolved_ok_def hub_simps nth_append)
  moreover have "settled_ok (waitFor w h)"
    using assms by (simp add: hub_inv_def settled_ok_def hub_simps less_Suc_eq)
  moreover have "offers_ok (waitFor w h)"
    using assms by (fastforce simp: hub_inv_def offers_ok_def offer_ok_def hub_simps nth_append)
  ultimately show ?thesis by (simp add: hub_inv_def)
qed

text \<open>A waiter that is taken off the list and noted as settled.\<close>

lemma hub_inv_settle:
  assumes inv: "hub_inv X h" and w: "w \<in> set (hb_waiters h)"
    and e: "\<And>v. settles v e = (v = w)" and k: "\<And>k. ends k e = (k \<in> X)" "\<forall>k \<in> X. k < hb_fed h \<and> jm_get (hb_offers h) k = None"
    and res: "\<And>v j u. e = L_resolved v j u \<Longrightarrow> v < length (hb_all h) \<and> wt_matches (hb_all h ! v) u"
  shows "hub_inv {} (hub_note e (removeWaiter w h))"
proof -
  let ?h = "hub_note e (removeWaiter w h)"
  have "waiters_ok ?h" "offers_ok ?h"
    using inv by (auto simp: hub_inv_def waiters_ok_def offers_ok_def offer_ok_def hub_simps)
  moreover have "settled_ok ?h"
    using inv w by (auto simp: hub_inv_def settled_ok_def waiters_ok_def hub_simps e)
  moreover have "ended_ok {} ?h"
    using inv k(2) by (auto simp: hub_inv_def ended_ok_def hub_simps k(1))
  moreover have "resolved_ok ?h"
    using inv res by (auto simp: hub_inv_def resolved_ok_def hub_simps)
  ultimately show ?thesis by (simp add: hub_inv_def)
qed

lemma hub_inv_timeout: "hub_inv {} h \<Longrightarrow> waiter_timeout w h = Some h' \<Longrightarrow> hub_inv {} h'"
  using hub_inv_settle [of "{}" h w "L_timeout w"] by (auto simp: waiter_timeout_def split: if_splits)

text \<open>An update whose offer goes on: it has not ended and waits for no filter.\<close>

lemma offer_on_inv:
  assumes "hub_inv {k} h" and "k < hb_fed h" and "jm_get (hb_offers h) k = None" and "\<forall>w \<in> set ws. w < length (hb_all h)"
  shows "hub_inv {} (offer_on k u ws h)"
  using assms(4)
proof (induction ws)
  case Nil
  have "ended_ok {} (hub_note (L_dispatched k u) h)"
    using assms(1-3) by (auto simp: hub_inv_def ended_ok_def hub_simps)
  moreover have "waiters_ok (hub_note (L_dispatched k u) h)" "settled_ok (hub_note (L_dispatched k u) h)"
    "offers_ok (hub_note (L_dispatched k u) h)" "resolved_ok (hub_note (L_dispatched k u) h)"
    using assms(1) by (auto simp: hub_inv_def waiters_ok_def settled_ok_def offers_ok_def offer_ok_def resolved_ok_def hub_simps)
  ultimately show ?case by (simp add: hub_inv_def)
next
  case (Cons w ws)
  let ?h = "h\<lparr>hb_offers := jm_set k \<lparr>of_update = u, of_asked = w, of_rest = ws\<rparr> (hb_offers h)\<rparr>"
  have "waiters_ok ?h" "settled_ok ?h" "resolved_ok ?h"
    using assms(1) by (auto simp: hub_inv_def waiters_ok_def settled_ok_def resolved_ok_def hub_simps)
  moreover have "ended_ok {} ?h"
    using assms(1-3) by (auto simp: hub_inv_def ended_ok_def hub_simps jsmap_simps)
  moreover have "offers_ok ?h" if "wt_matches (hb_all h ! w) u"
    using assms(1,2) Cons.prems that by (auto simp: hub_inv_def offers_ok_def offer_ok_def jsmap_simps)
  ultimately show ?case
    using Cons by (auto simp: hub_inv_def)
qed

lemma hub_inv_feed:
  assumes inv: "hub_inv {} h"
  shows "hub_inv {} (offer_start u h)"
  unfolding offer_start_def
proof (rule offer_on_inv)
  let ?h = "h\<lparr>hb_fed := hb_fed h + 1\<rparr>"
  show free: "jm_get (hb_offers ?h) (hb_fed h) = None"
    using inv by (cases "jm_get (hb_offers h) (hb_fed h)") (auto simp: hub_inv_def offers_ok_def offer_ok_def)
  have "waiters_ok ?h" "settled_ok ?h" "resolved_ok ?h"
    using inv by (auto simp: hub_inv_def waiters_ok_def settled_ok_def resolved_ok_def hub_simps)
  moreover have "offers_ok ?h"
    using inv by (fastforce simp: hub_inv_def offers_ok_def offer_ok_def)
  moreover have "ended_ok {hb_fed h} ?h"
    using inv free by (auto simp: hub_inv_def ended_ok_def hub_simps less_Suc_eq)
  ultimately show "hub_inv {hb_fed h} ?h" by (simp add: hub_inv_def)
  show "\<forall>w\<in>set (hb_waiters h). w < length (hb_all ?h)"
    using inv by (simp add: hub_inv_def waiters_ok_def)
qed simp

lemma hub_inv_taken:
  assumes "hub_inv {} h" and "jm_get (hb_offers h) k = Some t"
  shows "hub_inv {k} (h\<lparr>hb_offers := jm_del k (hb_offers h)\<rparr>)"
proof -
  let ?h = "h\<lparr>hb_offers := jm_del k (hb_offers h)\<rparr>"
  have "waiters_ok ?h" "settled_ok ?h" "resolved_ok ?h"
    using assms(1) by (auto simp: hub_inv_def waiters_ok_def settled_ok_def resolved_ok_def hub_simps)
  moreover have "offers_ok ?h"
    using assms(1) by (auto simp: hub_inv_def offers_ok_def offer_ok_def jsmap_simps split: if_splits)
  moreover have "ended_ok {k} ?h"
    using assms by (auto simp: hub_inv_def ended_ok_def hub_simps jsmap_simps)
  ultimately show ?thesis by (simp add: hub_inv_def)
qed

lemma hub_inv_lost:
  assumes inv: "hub_inv {k} h" and "w \<notin> set (hb_waiters h)" and "k < hb_fed h" and "jm_get (hb_offers h) k = None"
  shows "hub_inv {} (hub_note (L_lost w k u) (removeWaiter w h))"
proof -
  let ?h = "hub_note (L_lost w k u) (removeWaiter w h)"
  have "remove1 w (hb_waiters h) = hb_waiters h"
    using assms(2) by (rule remove1_idem)
  then have "waiters_ok ?h" "settled_ok ?h" "offers_ok ?h" "resolved_ok ?h"
    using inv by (auto simp: hub_inv_def waiters_ok_def settled_ok_def offers_ok_def offer_ok_def resolved_ok_def hub_simps)
  moreover have "ended_ok {} ?h"
    using assms by (auto simp: hub_inv_def ended_ok_def hub_simps)
  ultimately show ?thesis by (simp add: hub_inv_def)
qed

lemma hub_inv_answer:
  assumes "hub_inv {} h" and "offer_answer k b h = Some h'"
  shows "hub_inv {} h'"
proof -
  obtain t where t: "jm_get (hb_offers h) k = Some t"
    using assms(2) by (cases "jm_get (hb_offers h) k") (auto simp: offer_answer_def)
  let ?h = "h\<lparr>hb_offers := jm_del k (hb_offers h)\<rparr>"
  have ok: "offer_ok h k t"
    using assms(1) t by (simp add: hub_inv_def offers_ok_def)
  note taken = hub_inv_taken [OF assms(1) t]
  have free: "k < hb_fed ?h" "jm_get (hb_offers ?h) k = None"
    using ok by (simp_all add: offer_ok_def jsmap_simps)
  consider "b" "of_asked t \<in> set (hb_waiters h)" | "b" "of_asked t \<notin> set (hb_waiters h)" | "\<not> b" by blast
  then show ?thesis
  proof cases
    case 1
    then have "h' = hub_note (L_resolved (of_asked t) k (of_update t)) (removeWaiter (of_asked t) ?h)"
      using assms(2) t by (simp add: offer_answer_def Let_def)
    then show ?thesis
      using hub_inv_settle [OF taken, of "of_asked t" "L_resolved (of_asked t) k (of_update t)"] 1 ok free
      by (auto simp: offer_ok_def)
  next
    case 2
    then have "h' = hub_note (L_lost (of_asked t) k (of_update t)) (removeWaiter (of_asked t) ?h)"
      using assms(2) t by (simp add: offer_answer_def Let_def)
    then show ?thesis
      using hub_inv_lost [OF taken, of "of_asked t"] 2 free by simp
  next
    case 3
    then have "h' = offer_on k (of_update t) (of_rest t) ?h"
      using assms(2) t by (simp add: offer_answer_def Let_def)
    then show ?thesis
      using offer_on_inv [OF taken free] ok by (simp add: offer_ok_def)
  qed
qed

lemma hub_step_inv: "hub_inv {} h \<Longrightarrow> hub_step e h = Some h' \<Longrightarrow> hub_inv {} h'"
  by (cases e) (auto intro: hub_inv_wait hub_inv_feed dest: hub_inv_timeout hub_inv_answer)

lemma hub_reach_inv: "hub_reach allowed h \<Longrightarrow> hub_inv {} h"
  by (induction rule: hub_reach.induct) (auto intro: hub_inv_new hub_step_inv)

section \<open>Without overlap\<close>

definition lone :: "hub \<Rightarrow> bool" where
  "lone h \<longleftrightarrow> length (hb_offers h) \<le> 1 \<and>
     (\<forall>k t. jm_get (hb_offers h) k = Some t \<longrightarrow> insert (of_asked t) (set (of_rest t)) \<subseteq> set (hb_waiters h)) \<and>
     (\<forall>w k u. L_lost w k u \<notin> set (hb_log h))"

lemma lone_offer_on:
  assumes "hb_offers h = []" and "set ws \<subseteq> set (hb_waiters h)" and "\<forall>w k u. L_lost w k u \<notin> set (hb_log h)"
  shows "lone (offer_on k u ws h)"
  using assms(2) by (induction ws) (use assms(1,3) in \<open>auto simp: lone_def hub_simps\<close>)

lemma lone_taken:
  assumes "length (hb_offers h) \<le> 1" and "jm_get (hb_offers h) k = Some t"
  shows "jm_del k (hb_offers h) = []"
  using assms by (cases "hb_offers h") (auto split: if_splits)

lemma lone_step:
  assumes "lone h" and "one_at_a_time e h" and "hub_step e h = Some h'"
  shows "lone h'"
proof (cases e)
  case (Ev_wait w)
  then show ?thesis
    using assms by (fastforce simp: lone_def hub_simps)
next
  case (Ev_timeout w)
  then show ?thesis
    using assms by (auto simp: lone_def one_at_a_time_def waiter_timeout_def hub_simps split: if_splits)
next
  case (Ev_feed u)
  have "lone (offer_start u h)"
    unfolding offer_start_def
    by (rule lone_offer_on) (use assms(1,2) Ev_feed in \<open>auto simp: lone_def one_at_a_time_def\<close>)
  then show ?thesis
    using assms(3) Ev_feed by simp
next
  case (Ev_answer k b)
  then obtain t where t: "jm_get (hb_offers h) k = Some t"
    using assms(3) by (cases "jm_get (hb_offers h) k") (auto simp: offer_answer_def)
  have none: "jm_del k (hb_offers h) = []"
    using assms(1) t by (intro lone_taken) (auto simp: lone_def)
  have w: "insert (of_asked t) (set (of_rest t)) \<subseteq> set (hb_waiters h)" and log: "\<forall>w k u. L_lost w k u \<notin> set (hb_log h)"
    using assms(1) t by (auto simp: lone_def)
  show ?thesis
  proof (cases b)
    case True
    then show ?thesis
      using Ev_answer assms(3) t none w log by (auto simp: offer_answer_def Let_def lone_def hub_simps)
  next
    case False
    then show ?thesis
      using Ev_answer assms(3) t w log lone_offer_on [of "h\<lparr>hb_offers := []\<rparr>" "of_rest t"]
      by (auto simp: offer_answer_def Let_def none)
  qed
qed

lemma lone_reach: "hub_reach one_at_a_time h \<Longrightarrow> lone h"
proof (induction rule: hub_reach.induct)
  case start
  then show ?case by (simp add: lone_def hub_new_def)
qed (rule lone_step)

section \<open>Properties\<close>

text \<open>
  C8 (liveness). Whatever the order of updates, timers and answers of filters: a waiter is settled at most
  once, by one update or by its timer; and one that is not settled yet still has its timer, so
  no call of \<open>waitFor\<close> hangs.
\<close>

theorem waiter_settled_once:
  assumes "hub_reach any_time h" and "w < length (hb_all h)"
  shows "settled w h \<le> 1 \<and> (settled w h = 1) = (hub_step (Ev_timeout w) h = None)"
  using hub_reach_inv [OF assms(1)] assms(2) by (auto simp: hub_inv_def settled_ok_def waiter_timeout_def)

text \<open>
  An offer of an update ends at most once, by a waiter that accepts, be it settled or not, or by
  the dispatcher; and an update whose offer has not ended is being offered.
\<close>

theorem update_ends_once:
  assumes "hub_reach any_time h" and "k < hb_fed h"
  shows "ended k h \<le> 1 \<and> (ended k h = 1) = (jm_get (hb_offers h) k = None)"
  using hub_reach_inv [OF assms(1)] assms(2) by (auto simp: hub_inv_def ended_ok_def)

text \<open>A waiter is only resolved with an update of the room and the sender it waits for.\<close>

theorem waiter_gets_its_own:
  assumes "hub_reach any_time h" and "L_resolved w k u \<in> set (hb_log h)"
  shows "wt_matches (hb_all h ! w) u"
  using hub_reach_inv [OF assms(1)] assms(2) by (auto simp: hub_inv_def resolved_ok_def)

text \<open>When updates are fed one after the other and no timer ends in between, no update is lost.\<close>

theorem no_update_lost_one_at_a_time:
  assumes "hub_reach one_at_a_time h"
  shows "L_lost w k u \<notin> set (hb_log h)"
  using lone_reach [OF assms] by (simp add: lone_def)

text \<open>The update reached somebody: a waiter that still waited, or the dispatcher.\<close>

fun delivers :: "nat \<Rightarrow> hub_entry \<Rightarrow> bool" where
  "delivers k (L_resolved w k' u) = (k' = k)"
| "delivers k (L_dispatched k' u) = (k' = k)"
| "delivers k _ = False"

definition delivered :: "nat \<Rightarrow> hub \<Rightarrow> nat" where
  "delivered k h = length (filter (delivers k) (hb_log h))"

lemma delivered_ended: "(\<And>w u. L_lost w k u \<notin> set (hb_log h)) \<Longrightarrow> delivered k h = ended k h"
proof -
  assume "\<And>w u. L_lost w k u \<notin> set (hb_log h)"
  then have "delivers k e = ends k e" if "e \<in> set (hb_log h)" for e
    using that by (cases e) auto
  then show ?thesis
    by (simp add: delivered_def ended_def cong: filter_cong)
qed

text \<open>
  C9 (invariant). When updates are fed one after the other and no timer ends in between, every update
  reaches exactly one receiver by the time its offer is over, one waiter or the dispatcher, and
  none before that.
\<close>

theorem update_delivered_once:
  assumes "hub_reach one_at_a_time h" and "k < hb_fed h"
  shows "delivered k h = (if jm_get (hb_offers h) k = None then 1 else 0)"
proof -
  have "delivered k h = ended k h"
    using lone_reach [OF assms(1)] by (intro delivered_ended) (simp add: lone_def)
  then show ?thesis
    using hub_reach_inv [OF assms(1)] assms(2) by (simp add: hub_inv_def ended_ok_def)
qed

text \<open>
  C40 (error). But the client does not wait for an update to end before it feeds the next one. When two
  updates match a waiter and the second is fed before its filter has answered for the first,
  the waiter gets the first, and the second is lost: it counts as consumed, but no one
  receives it, neither a waiter nor the dispatcher.
\<close>

theorem second_update_lost:
  assumes "wt_matches w u" and "wt_matches w v" and "hb_waiters h = []" and "hb_offers h = []"
  shows "\<exists>h'. hub_run [Ev_wait w, Ev_feed u, Ev_feed v, Ev_answer (hb_fed h) True, Ev_answer (hb_fed h + 1) True] h = Some h' \<and>
    hb_log h' = hb_log h @ [L_resolved (length (hb_all h)) (hb_fed h) u, L_lost (length (hb_all h)) (hb_fed h + 1) v] \<and>
    hb_offers h' = []"
  using assms
  by (simp add: waitFor_def offer_start_def offer_answer_def hub_note_def removeWaiter_def Let_def jsmap_simps)

definition demo_waiter :: update_waiter where
  "demo_waiter = \<lparr>wt_roomId = Some ''!r:hs'', wt_senderId = Some ''@u:hs''\<rparr>"

lemma demo_matches: "wt_matches demo_waiter demo_update"
  by (simp add: wt_matches_def demo_waiter_def demo_update_def)

lemma hub_run_reach: "hub_reach any_time h \<Longrightarrow> hub_run es h = Some h' \<Longrightarrow> hub_reach any_time h'"
proof (induction es arbitrary: h)
  case (Cons e es)
  then show ?case
    using hub_reach.step [OF Cons.prems(1), of e] by (auto simp: any_time_def split: option.splits)
qed simp

lemma demo_waiter_run: "\<exists>h. hub_reach any_time h \<and> hb_log h = [L_resolved 0 0 demo_update, L_lost 0 1 demo_update] \<and>
    hb_all h = [demo_waiter] \<and> hb_fed h = 2 \<and> hb_offers h = []"
proof -
  obtain h where h: "hub_run [Ev_wait demo_waiter, Ev_feed demo_update, Ev_feed demo_update, Ev_answer 0 True, Ev_answer 1 True] hub_new = Some h"
    "hb_log h = [L_resolved 0 0 demo_update, L_lost 0 1 demo_update]" "hb_all h = [demo_waiter]" "hb_fed h = 2" "hb_offers h = []"
    by (simp add: demo_matches waitFor_def offer_start_def offer_answer_def hub_note_def removeWaiter_def Let_def jsmap_simps hub_new_def
        numeral_2_eq_2)
  with hub_run_reach [OF hub_reach.start h(1)] show ?thesis by blast
qed

theorem waiter_settled_once_witness: "\<exists>h. hub_reach any_time h \<and> settled 0 h = 1 \<and> hub_step (Ev_timeout 0) h = None"
proof -
  obtain h where h: "hub_reach any_time h" "hb_log h = [L_resolved 0 0 demo_update, L_lost 0 1 demo_update]" "hb_all h = [demo_waiter]"
    using demo_waiter_run by blast
  then have "settled 0 h = 1" by (simp add: settled_def)
  with waiter_settled_once [OF h(1), of 0] h show ?thesis by auto
qed

theorem update_delivered_once_witness:
  "\<exists>h. hub_reach one_at_a_time h \<and> hb_log h = [L_resolved 0 0 demo_update, L_dispatched 1 demo_update] \<and> delivered 0 h = 1 \<and> delivered 1 h = 1"
proof -
  define h1 where "h1 = waitFor demo_waiter hub_new"
  define h2 where "h2 = offer_start demo_update h1"
  have r1: "hub_reach one_at_a_time h1"
    unfolding h1_def by (rule hub_reach.step [OF hub_reach.start, of _ "Ev_wait demo_waiter"]) (simp_all add: one_at_a_time_def)
  have r2: "hub_reach one_at_a_time h2"
    by (rule hub_reach.step [OF r1, of "Ev_feed demo_update"]) (simp_all add: one_at_a_time_def h1_def h2_def waitFor_def hub_new_def)
  obtain h3 where h3: "hub_step (Ev_answer 0 True) h2 = Some h3" "hb_log h3 = [L_resolved 0 0 demo_update]" "hb_offers h3 = []"
    "hb_waiters h3 = []" "hb_fed h3 = 1"
    by (simp add: h2_def h1_def demo_matches waitFor_def offer_start_def offer_answer_def hub_note_def removeWaiter_def Let_def jsmap_simps
        hub_new_def)
  have r3: "hub_reach one_at_a_time h3"
    by (rule hub_reach.step [OF r2 _ h3(1)]) (simp add: one_at_a_time_def)
  have r4: "hub_reach one_at_a_time (offer_start demo_update h3)"
    by (rule hub_reach.step [OF r3, of "Ev_feed demo_update"]) (simp_all add: one_at_a_time_def h3)
  have "hb_log (offer_start demo_update h3) = [L_resolved 0 0 demo_update, L_dispatched 1 demo_update]"
    "hb_offers (offer_start demo_update h3) = []" "hb_fed (offer_start demo_update h3) = 2"
    using h3 by (simp_all add: offer_start_def hub_note_def)
  with update_delivered_once [OF r4, of 0] update_delivered_once [OF r4, of 1] r4 show ?thesis
    by (intro exI [of _ "offer_start demo_update h3"]) simp
qed

theorem waiter_gets_its_own_witness: "\<exists>h. hub_reach any_time h \<and> wt_matches (hb_all h ! 0) demo_update"
proof -
  obtain h where "hub_reach any_time h" "hb_log h = [L_resolved 0 0 demo_update, L_lost 0 1 demo_update]"
    using demo_waiter_run by blast
  with waiter_gets_its_own [of h 0 0 demo_update] show ?thesis by auto
qed

theorem no_update_lost_one_at_a_time_witness:
  "\<exists>h. hub_reach one_at_a_time h \<and> hb_fed h = 1 \<and> L_lost 0 0 demo_update \<notin> set (hb_log h)"
proof -
  have "hub_reach one_at_a_time (offer_start demo_update hub_new)"
    by (rule hub_reach.step [OF hub_reach.start, of _ "Ev_feed demo_update"]) (simp_all add: one_at_a_time_def hub_new_def)
  moreover have "hb_fed (offer_start demo_update hub_new) = 1"
    by (simp add: offer_start_def hub_new_def hub_note_def)
  ultimately show ?thesis
    using no_update_lost_one_at_a_time by blast
qed

theorem second_update_lost_witness:
  "\<exists>h'. hub_run [Ev_wait demo_waiter, Ev_feed demo_update, Ev_feed demo_update, Ev_answer 0 True, Ev_answer 1 True] hub_new = Some h' \<and>
    L_lost 0 1 demo_update \<in> set (hb_log h')"
  using second_update_lost [OF demo_matches demo_matches, of hub_new] by (auto simp: hub_new_def)

end
