(* ===== verification/Bot_Lifecycle.thy ===== *)
theory Bot_Lifecycle
  imports Dispatch_Queue Errors
begin

text \<open>
  The life of a bot: \<open>create\<close>, \<open>start\<close>, \<open>stop\<close>, \<open>getHealth\<close> and the watch for a stale sync of
  \<^verbatim>\<open>src/bot.ts\<close>, with \<open>start\<close> and \<open>stop\<close> of \<^verbatim>\<open>src/client.ts\<close>. \<open>start\<close> and \<open>stop\<close> are asynchronous:
  they are sequences of steps between the points where they await something, and the steps
  of the one and the other interleave. The dispatch queue is that of \<open>Dispatch_Queue\<close>. Two
  calls of \<open>start\<close> that overlap each other, and two of \<open>stop\<close> whose work overlaps, are outside.
\<close>

section \<open>States\<close>

datatype start_point = SP_plugins | SP_crypto | SP_client | SP_hooks
datatype stop_point = TP_plugins | TP_loop | TP_drain | TP_crypto

record life =
  lf_started :: bool
  lf_stopping :: bool
  lf_cryptoEnabled :: bool
  lf_cryptoReady :: bool
  lf_cryptoOpen :: bool
  lf_hasLock :: bool      \<comment> \<open>the option \<open>storageLock\<close> is not \<open>false\<close>\<close>
  lf_lock :: bool
  lf_watching :: bool
  lf_notified :: bool
  lf_scheduler :: bool
  lf_loop :: bool         \<comment> \<open>the client has a sync loop\<close>
  lf_running :: bool      \<comment> \<open>a sync loop runs\<close>
  lf_handlers :: bool
  lf_clientStopping :: bool
  lf_queue :: dq
  lf_start :: "start_point option"
  lf_stop :: "stop_point option"
  lf_errors :: "js_error list"

text \<open>
  \<open>create\<close>: the lock is taken before the bot is built and its plugins are installed. When one
  of these throws the caller gets the error and no bot; what is left of the lock is the second
  part of the result.
\<close>

definition bot_create :: "bool \<Rightarrow> bool \<Rightarrow> int \<Rightarrow> js_error option \<Rightarrow> js_error option \<Rightarrow> js_error list \<Rightarrow> (js_error, life) sum \<times> bool" where
  "bot_create useLock crypto concurrency lockFails buildFails pluginErrors =
     (case (if useLock then lockFails else None) of
        Some e \<Rightarrow> (Inl e, False)
      | None \<Rightarrow>
          (case (case buildFails of Some e \<Rightarrow> [e] | None \<Rightarrow> pluginErrors) of
             e # _ \<Rightarrow> (Inl e, useLock)
           | [] \<Rightarrow>
               (Inr \<lparr>lf_started = False, lf_stopping = False, lf_cryptoEnabled = crypto, lf_cryptoReady = False, lf_cryptoOpen = crypto,
                  lf_hasLock = useLock, lf_lock = useLock, lf_watching = False, lf_notified = False, lf_scheduler = True, lf_loop = False,
                  lf_running = False,
                  lf_handlers = False, lf_clientStopping = False, lf_queue = dq_new concurrency, lf_start = None, lf_stop = None,
                  lf_errors = []\<rparr>, useLock)))"

definition fail :: "js_error \<Rightarrow> life \<Rightarrow> life" where
  "fail e s = s\<lparr>lf_errors := lf_errors s @ [e], lf_start := None\<rparr>"

section \<open>start\<close>

text \<open>\<open>start\<close> of the client: it has no await before the loop runs.\<close>

definition client_start :: "life \<Rightarrow> life" where
  "client_start s =
     (if lf_loop s then fail (ConfigurationError ''MatrixClient already started'') s
      else s\<lparr>lf_clientStopping := False, lf_handlers := True, lf_loop := True, lf_running := True, lf_start := Some SP_client\<rparr>)"

definition start_begin :: "life \<Rightarrow> life" where
  "start_begin s =
     (if lf_started s then fail (ConfigurationError ''Bot already started'') s
      else s\<lparr>lf_stopping := False, lf_start := Some SP_plugins\<rparr>)"

text \<open>The next step of a start; the argument is the error when what was awaited failed.\<close>

definition start_step :: "js_error option \<Rightarrow> bool \<Rightarrow> life \<Rightarrow> life option" where
  "start_step failure staleHook s =
     (case (lf_start s, failure) of
        (None, _) \<Rightarrow> None
      | (Some p, Some e) \<Rightarrow> (if p = SP_client then None else Some (fail e s))
      | (Some SP_plugins, None) \<Rightarrow>
          Some (if lf_cryptoEnabled s then s\<lparr>lf_start := Some SP_crypto\<rparr> else client_start (s\<lparr>lf_cryptoReady := False\<rparr>))
      | (Some SP_crypto, None) \<Rightarrow> Some (client_start (s\<lparr>lf_cryptoReady := True\<rparr>))
      | (Some SP_client, None) \<Rightarrow> Some (s\<lparr>lf_started := True, lf_start := Some SP_hooks\<rparr>)
      | (Some SP_hooks, None) \<Rightarrow> Some (s\<lparr>lf_notified := False, lf_watching := (staleHook \<or> lf_watching s), lf_start := None\<rparr>))"

section \<open>stop\<close>

definition stop_begin :: "life \<Rightarrow> life" where
  "stop_begin s =
     (if lf_stopping s then s else s\<lparr>lf_stopping := True, lf_watching := False, lf_stop := Some TP_plugins\<rparr>)"

text \<open>
  The next step of a stop: the plugins are done, the sync loop has ended, the queue is drained,
  the crypto store is closed. The argument is the error when the token stores cannot be written
  after that; errors of plugins and of the native \<open>close\<close> are only logged, and waiting for the
  loop and the queue does not fail.
\<close>

definition stop_step :: "js_error option \<Rightarrow> life \<Rightarrow> life option" where
  "stop_step flushFails s =
     (case lf_stop s of
        None \<Rightarrow> None
      | Some TP_crypto \<Rightarrow>
          (let s1 = s\<lparr>lf_cryptoOpen := False, lf_stop := None\<rparr>
           in case flushFails of
                Some e \<Rightarrow> Some (s1\<lparr>lf_errors := lf_errors s1 @ [e]\<rparr>)
              | None \<Rightarrow> Some (s1\<lparr>lf_lock := False, lf_started := False\<rparr>))
      | Some p \<Rightarrow>
          (if flushFails \<noteq> None then None
           else case p of
                  TP_plugins \<Rightarrow>
                    Some (s\<lparr>lf_scheduler := False, lf_clientStopping := True, lf_queue := fst (dq_close (lf_queue s)), lf_loop := False,
                            lf_stop := Some TP_loop\<rparr>)
                | TP_loop \<Rightarrow> Some (s\<lparr>lf_running := False, lf_stop := Some TP_drain\<rparr>)
                | _ \<Rightarrow> Some (s\<lparr>lf_handlers := False, lf_stop := Some TP_crypto\<rparr>)))"

datatype life_event =
    Le_start
  | Le_start_step "js_error option" bool
  | Le_stop
  | Le_stop_step "js_error option"
  | Le_fatal

text \<open>A fatal error of the sync loop ends the loop, but the client keeps it.\<close>

fun life_step :: "life_event \<Rightarrow> life \<Rightarrow> life option" where
  "life_step Le_start s = (if lf_start s = None then Some (start_begin s) else None)"
| "life_step (Le_start_step e hook) s = start_step e hook s"
| "life_step Le_stop s = (if lf_stop s = None \<or> lf_stopping s then Some (stop_begin s) else None)"
| "life_step (Le_stop_step e) s = stop_step e s"
| "life_step Le_fatal s = (if lf_running s \<and> lf_handlers s then Some (s\<lparr>lf_started := False, lf_running := False\<rparr>) else None)"

fun life_run :: "life_event list \<Rightarrow> life \<Rightarrow> life option" where
  "life_run [] s = Some s"
| "life_run (e # es) s = (case life_step e s of Some s1 \<Rightarrow> life_run es s1 | None \<Rightarrow> None)"

text \<open>States reached from a created bot by events that a policy allows.\<close>

inductive life_reach :: "(life_event \<Rightarrow> life \<Rightarrow> bool) \<Rightarrow> life \<Rightarrow> bool" for allowed where
  created: "bot_create useLock crypto n None None [] = (Inr s, useLock) \<Longrightarrow> life_reach allowed s"
| step: "life_reach allowed s \<Longrightarrow> allowed e s \<Longrightarrow> life_step e s = Some s' \<Longrightarrow> life_reach allowed s'"

text \<open>No start after a stop, and no stop before a start has the client running.\<close>

definition one_life :: "life_event \<Rightarrow> life \<Rightarrow> bool" where
  "one_life e s \<longleftrightarrow>
     (case e of Le_start \<Rightarrow> \<not> lf_stopping s | Le_stop \<Rightarrow> lf_start s \<notin> {Some SP_plugins, Some SP_crypto} | _ \<Rightarrow> True)"

section \<open>What a room event meets\<close>

text \<open>
  \<open>emitTimelineEvent\<close> of the client up to its task: it returns at once without handlers or
  when it stops, and an error of the queue is thrown on unless the client stops.
\<close>

datatype emit_outcome = Emit_ignored | Emit_throws | Emit_runs | Emit_waits

definition room_emit :: "string \<Rightarrow> life \<Rightarrow> emit_outcome" where
  "room_emit room s =
     (if lf_clientStopping s \<or> \<not> lf_handlers s then Emit_ignored
      else case fst (dq_acquire room 0 (lf_queue s)) of
             AcqClosed \<Rightarrow> (if lf_clientStopping s then Emit_ignored else Emit_throws)
           | AcqTaken \<Rightarrow> Emit_runs
           | AcqQueued \<Rightarrow> Emit_waits)"

section \<open>Health\<close>

record health =
  he_running :: bool
  he_ok :: bool
  he_syncAgeMs :: "int option"   \<comment> \<open>\<open>None\<close> is infinity\<close>
  he_syncStale :: bool

definition getHealth :: "int \<Rightarrow> int \<Rightarrow> int option \<Rightarrow> life \<Rightarrow> health" where
  "getHealth now lastSyncAt staleMs s =
     (let age = (if 0 < lastSyncAt then Some (now - lastSyncAt) else None);
          stale = (case age of None \<Rightarrow> True | Some a \<Rightarrow> (case staleMs of Some m \<Rightarrow> m | None \<Rightarrow> 120000) < a);
          cryptoOk = (\<not> lf_cryptoEnabled s \<or> lf_cryptoReady s)
      in \<lparr>he_running = lf_started s, he_ok = (lf_started s \<and> \<not> lf_stopping s \<and> \<not> stale \<and> cryptoOk),
          he_syncAgeMs = age, he_syncStale = stale\<rparr>)"

text \<open>One tick of the watch: whether \<open>onSyncStale\<close> is called, and the flag.\<close>

definition watch_tick :: "health \<Rightarrow> bool \<Rightarrow> bool \<times> bool" where
  "watch_tick h notified =
     (if \<not> he_running h then (False, notified)
      else if he_syncStale h then (\<not> notified, True)
      else (False, False))"

fun watch :: "health list \<Rightarrow> bool \<Rightarrow> bool list" where
  "watch [] n = []"
| "watch (h # hs) n = (let (call, n1) = watch_tick h n in call # watch hs n1)"

section \<open>Lemmas\<close>

lemmas life_defs = start_begin_def start_step_def stop_begin_def stop_step_def client_start_def fail_def Let_def

lemma closed_close [simp]: "closed (fst (dq_close q))"
  by (simp add: dq_close_def)

text \<open>The invariant of a single life: a loop runs only under the lock and with an open queue.\<close>

definition locked :: "life \<Rightarrow> bool" where
  "locked s \<longleftrightarrow> (lf_hasLock s \<longrightarrow> lf_lock s)"

definition live :: "life \<Rightarrow> bool" where
  "live s \<longleftrightarrow> locked s \<and> \<not> closed (lf_queue s) \<and> \<not> lf_clientStopping s \<and> (lf_running s \<longrightarrow> lf_loop s)"

definition stop_inv :: "stop_point option \<Rightarrow> life \<Rightarrow> bool" where
  "stop_inv p s =
     (case p of
        Some TP_plugins \<Rightarrow> live s
      | Some TP_loop \<Rightarrow> locked s \<and> \<not> lf_loop s \<and> lf_clientStopping s
      | Some _ \<Rightarrow> locked s \<and> \<not> lf_loop s \<and> \<not> lf_running s
      | None \<Rightarrow> \<not> lf_loop s \<and> \<not> lf_running s)"

definition life_inv :: "life \<Rightarrow> bool" where
  "life_inv s \<longleftrightarrow>
     (if lf_stopping s then lf_start s \<notin> {Some SP_plugins, Some SP_crypto} \<and> stop_inv (lf_stop s) s else lf_stop s = None \<and> live s)"

lemma life_inv_created: "bot_create useLock crypto n None None [] = (Inr s, useLock) \<Longrightarrow> life_inv s"
  by (auto simp: bot_create_def life_inv_def live_def locked_def dq_new_def split: if_splits)

text \<open>What the invariant reads.\<close>

lemma live_cong [simp]:
  "live (s\<lparr>lf_cryptoReady := b\<rparr>) = live s" "live (s\<lparr>lf_notified := b\<rparr>) = live s" "live (s\<lparr>lf_watching := b\<rparr>) = live s"
  "live (s\<lparr>lf_errors := es\<rparr>) = live s" "live (s\<lparr>lf_start := p\<rparr>) = live s" "live (s\<lparr>lf_started := b\<rparr>) = live s"
  "live (s\<lparr>lf_stopping := b\<rparr>) = live s" "live (s\<lparr>lf_stop := q\<rparr>) = live s"
  by (simp_all add: live_def locked_def)

lemma stop_inv_cong [simp]:
  "stop_inv x (s\<lparr>lf_notified := b\<rparr>) = stop_inv x s" "stop_inv x (s\<lparr>lf_watching := b\<rparr>) = stop_inv x s"
  "stop_inv x (s\<lparr>lf_errors := es\<rparr>) = stop_inv x s" "stop_inv x (s\<lparr>lf_start := p\<rparr>) = stop_inv x s"
  "stop_inv x (s\<lparr>lf_started := b\<rparr>) = stop_inv x s"
  by (simp_all add: stop_inv_def locked_def split: option.split stop_point.split)

lemma life_inv_live: "\<not> lf_stopping s \<Longrightarrow> lf_stop s = None \<Longrightarrow> live s \<Longrightarrow> life_inv s"
  by (simp add: life_inv_def)

lemma life_inv_fail: "life_inv s \<Longrightarrow> life_inv (fail e s)"
  by (simp add: life_inv_def fail_def split: if_splits)

lemma life_inv_client_start: "lf_stop s = None \<Longrightarrow> live s \<Longrightarrow> \<not> lf_stopping s \<Longrightarrow> life_inv (client_start s)"
  by (cases "lf_loop s") (simp_all add: client_start_def life_inv_def fail_def live_def locked_def)

lemma life_inv_start_step:
  assumes "life_inv s" and "start_step f hook s = Some s'"
  shows "life_inv s'"
proof (cases "lf_start s")
  case None
  then show ?thesis using assms(2) by (simp add: start_step_def)
next
  case (Some p)
  show ?thesis
  proof (cases f)
    case (Some e)
    then show ?thesis
      using assms life_inv_fail \<open>lf_start s = Some p\<close> by (cases p) (auto simp: start_step_def)
  next
    case None
    show ?thesis
    proof (cases p)
      case SP_plugins
      then have "\<not> lf_stopping s" "lf_stop s = None" "live s"
        using assms(1) Some by (simp_all add: life_inv_def split: if_splits)
      then show ?thesis
        using assms(2) Some None SP_plugins life_inv_client_start [of "s\<lparr>lf_cryptoReady := False\<rparr>"]
        by (auto simp: start_step_def intro: life_inv_live split: if_splits)
    next
      case SP_crypto
      then have "\<not> lf_stopping s" "lf_stop s = None" "live s"
        using assms(1) Some by (simp_all add: life_inv_def split: if_splits)
      then show ?thesis
        using assms(2) Some None SP_crypto life_inv_client_start [of "s\<lparr>lf_cryptoReady := True\<rparr>"] by (simp add: start_step_def)
    next
      case SP_client
      then show ?thesis
        using assms Some None by (auto simp: start_step_def life_inv_def split: if_splits)
    next
      case SP_hooks
      then show ?thesis
        using assms Some None by (auto simp: start_step_def life_inv_def split: if_splits)
    qed
  qed
qed

lemma life_inv_stop_step:
  assumes "life_inv s" and "stop_step f s = Some s'"
  shows "life_inv s'"
proof (cases "lf_stop s")
  case None
  then show ?thesis using assms(2) by (simp add: stop_step_def)
next
  case (Some p)
  then have "lf_stopping s" "lf_start s \<notin> {Some SP_plugins, Some SP_crypto}" "stop_inv (Some p) s"
    using assms(1) by (simp_all add: life_inv_def split: if_splits)
  then show ?thesis
    using assms(2) Some by (cases p; cases f) (auto simp: life_inv_def stop_inv_def live_def locked_def stop_step_def Let_def)
qed

lemma life_inv_fatal: "life_inv s \<Longrightarrow> life_inv (s\<lparr>lf_started := False, lf_running := False\<rparr>)"
  by (auto simp: life_inv_def stop_inv_def live_def locked_def split: if_splits option.split stop_point.split)

lemma life_inv_step:
  assumes "life_inv s" and "one_life e s" and "life_step e s = Some s'"
  shows "life_inv s'"
proof (cases e)
  case Le_start
  then have "\<not> lf_stopping s" "lf_stop s = None" "live s"
    using assms(1,2) by (simp_all add: one_life_def life_inv_def)
  then show ?thesis
    using assms(1,3) Le_start life_inv_fail by (auto simp: start_begin_def intro: life_inv_live split: if_splits)
next
  case Le_stop
  then show ?thesis
    using assms by (cases "lf_stopping s") (auto simp: one_life_def life_inv_def stop_begin_def stop_inv_def split: if_splits)
next
  case Le_fatal
  then show ?thesis
    using assms(1,3) life_inv_fatal by (auto split: if_splits)
next
  case (Le_start_step f hook)
  then show ?thesis
    using assms(1,3) life_inv_start_step [of s f hook s'] by simp
next
  case (Le_stop_step f)
  then show ?thesis
    using assms(1,3) life_inv_stop_step [of s f s'] by simp
qed

lemma life_inv_reach: "life_reach one_life s \<Longrightarrow> life_inv s"
  by (induction rule: life_reach.induct) (auto intro: life_inv_created life_inv_step)

section \<open>The end of a stop\<close>

definition released :: "life \<Rightarrow> bool" where
  "released s \<longleftrightarrow>
     \<not> lf_started s \<and> \<not> lf_running s \<and> \<not> lf_loop s \<and> \<not> lf_handlers s \<and> \<not> lf_watching s \<and> \<not> lf_scheduler s \<and> \<not> lf_cryptoOpen s \<and> \<not> lf_lock s"

text \<open>What can come between the steps of a stop that finds its token stores writable.\<close>

fun while_stopping :: "life_event \<Rightarrow> bool" where
  "while_stopping Le_stop = True"
| "while_stopping Le_fatal = True"
| "while_stopping (Le_stop_step e) = (e = None)"
| "while_stopping _ = False"

fun stop_turn :: "life_event \<Rightarrow> bool" where
  "stop_turn (Le_stop_step _) = True"
| "stop_turn _ = False"

text \<open>What holds after \<open>n\<close> steps of a stop.\<close>

definition stop_phase :: "nat \<Rightarrow> life \<Rightarrow> bool" where
  "stop_phase n s \<longleftrightarrow>
     lf_stopping s \<and> \<not> lf_watching s \<and>
     lf_stop s = (if n < 4 then Some ([TP_plugins, TP_loop, TP_drain, TP_crypto] ! n) else None) \<and>
     (1 \<le> n \<longrightarrow> \<not> lf_scheduler s \<and> lf_clientStopping s \<and> \<not> lf_loop s) \<and>
     (2 \<le> n \<longrightarrow> \<not> lf_running s) \<and> (3 \<le> n \<longrightarrow> \<not> lf_handlers s) \<and>
     (4 \<le> n \<longrightarrow> released s)"

lemma stop_phase_step:
  assumes "stop_phase n s" and "n \<le> 4" and "while_stopping e" and "life_step e s = Some s'"
  shows "stop_phase (n + (if stop_turn e then 1 else 0)) s' \<and> n + (if stop_turn e then 1 else 0) \<le> 4"
proof (cases e)
  case (Le_stop_step f)
  with assms have f: "f = None" "stop_step None s = Some s'" by simp_all
  from assms(2) consider "n = 0" | "n = 1" | "n = 2" | "n = 3" | "n = 4" by linarith
  then show ?thesis
    using assms(1) f Le_stop_step
    by cases (auto simp: stop_phase_def stop_step_def released_def Let_def numeral_2_eq_2 numeral_3_eq_3)
qed (use assms in \<open>auto simp: stop_phase_def stop_begin_def released_def split: if_splits\<close>)

lemma stop_phase_run:
  "stop_phase n s \<Longrightarrow> n \<le> 4 \<Longrightarrow> list_all while_stopping es \<Longrightarrow> life_run es s = Some t \<Longrightarrow>
     stop_phase (n + length (filter stop_turn es)) t \<and> n + length (filter stop_turn es) \<le> 4"
proof (induction es arbitrary: n s)
  case (Cons e es)
  then obtain s1 where s1: "life_step e s = Some s1" "life_run es s1 = Some t"
    by (auto split: option.splits)
  from stop_phase_step [OF Cons.prems(1,2) _ s1(1)] Cons.prems(3)
  have "stop_phase (n + (if stop_turn e then 1 else 0)) s1" "n + (if stop_turn e then 1 else 0) \<le> 4"
    by auto
  from Cons.IH [OF this _ s1(2)] Cons.prems(3) show ?case
    by (auto split: if_splits)
qed simp

lemma stop_phase_enabled: "stop_phase n s \<Longrightarrow> n < 4 \<Longrightarrow> \<exists>s'. life_step (Le_stop_step None) s = Some s'"
  by (auto simp: stop_phase_def stop_step_def Let_def split: stop_point.split)

section \<open>Properties\<close>

text \<open>
  C10 (invariant). In the first life of a bot with a storage lock, as long as no stop comes before a start has
  the client running: a sync loop runs only while the bot holds the lock, also while a stop waits
  for the loop to end, and no room event of the loop meets a closed queue. Without the condition
  see \<open>stop_during_start_is_overtaken\<close>.
\<close>

theorem sync_only_under_lock:
  assumes "life_reach one_life s" and "lf_running s" and "lf_hasLock s"
  shows "lf_lock s \<and> room_emit room s \<noteq> Emit_throws"
proof (cases "lf_stopping s")
  case True
  then have "stop_inv (lf_stop s) s"
    using life_inv_reach [OF assms(1)] by (simp add: life_inv_def)
  then show ?thesis
    using assms(2,3) by (auto simp: stop_inv_def live_def locked_def room_emit_def dq_acquire_def split: option.splits stop_point.splits acquired.split)
next
  case False
  then show ?thesis
    using life_inv_reach [OF assms(1)] assms(2,3)
    by (auto simp: life_inv_def live_def locked_def room_emit_def dq_acquire_def split: acquired.split)
qed

text \<open>
  C11 (liveness). A stop comes to its end: after \<open>Le_stop\<close> a next step is possible until four were made, whatever
  comes in between (further stops, a fatal error of the loop); after the fourth everything is
  given back, the loop, the handlers, the timers, the crypto store and the lock; then no room
  event reaches a handler and the health is not well. The token stores must be writable: see
  \<open>failed_flush_keeps_lock\<close>.
\<close>

theorem stop_releases_everything:
  assumes "\<not> lf_stopping s" and "lf_start s = None" and "lf_stop s = None" and "list_all while_stopping es"
    and "life_run (Le_stop # es) s = Some t" and "n = length (filter stop_turn es)"
  shows "n \<le> 4 \<and> (if n < 4 then \<exists>t'. life_step (Le_stop_step None) t = Some t'
    else released t \<and> room_emit room t = Emit_ignored \<and> \<not> he_ok (getHealth now lastSyncAt staleMs t))"
proof -
  have "stop_phase 0 (stop_begin s)"
    using assms(1) by (simp add: stop_phase_def stop_begin_def)
  moreover have "life_run es (stop_begin s) = Some t"
    using assms(1,3,5) by simp
  ultimately have t: "stop_phase n t" "n \<le> 4"
    using stop_phase_run [of 0 "stop_begin s" es t] assms(4,6) by simp_all
  then show ?thesis
    using stop_phase_enabled [of n t] by (auto simp: stop_phase_def released_def room_emit_def getHealth_def Let_def)
qed

text \<open>
  When a token store cannot be written, \<open>stop\<close> throws after the crypto store was closed: the lock
  stays taken, every later \<open>stop\<close> returns at once without doing anything, and \<open>start\<close> refuses
  because the bot counts as started.
\<close>

theorem failed_flush_keeps_lock:
  assumes "lf_stop s = Some TP_crypto" and "lf_stopping s" and "lf_started s" and "lf_lock s" and "lf_start s = None"
  shows "\<exists>t. life_step (Le_stop_step (Some e)) s = Some t \<and> lf_lock t \<and> lf_errors t = lf_errors s @ [e] \<and> life_step Le_stop t = Some t \<and>
    (\<exists>t'. life_step Le_start t = Some t' \<and> lf_lock t' \<and> lf_start t' = None \<and>
      lf_errors t' = lf_errors t @ [ConfigurationError ''Bot already started''])"
  using assms by (simp add: life_defs Let_def)

text \<open>
  C39 (error). A bot that was stopped can be started again: \<open>start\<close> accepts it, the loop runs, and with a
  recent sync its health is well. But the lock is not taken again, so another process may own
  the directory, and the queue stays closed, so every event of every room is an error, on
  which the sync loop gives each batch up after its retries.
\<close>

theorem restarted_bot_is_deaf:
  assumes "\<not> lf_started s" and "lf_start s = None" and "lf_stop s = None" and "\<not> lf_loop s" and "\<not> lf_lock s"
    and "closed (lf_queue s)" and "\<not> lf_cryptoEnabled s" and "0 < lastSyncAt" and "now - lastSyncAt \<le> 120000"
  shows "\<exists>t. life_run [Le_start, Le_start_step None hook, Le_start_step None hook, Le_start_step None hook] s = Some t \<and>
    lf_loop t \<and> he_ok (getHealth now lastSyncAt None t) \<and> \<not> lf_lock t \<and> room_emit room t = Emit_throws"
  using assms by (simp add: life_defs room_emit_def dq_acquire_def getHealth_def Let_def)

text \<open>
  A stop that comes while the bot starts is overtaken by the start: the bot syncs on after
  \<open>stop\<close> has returned, without its lock, and cannot be stopped any more, as every further stop
  returns at once.
\<close>

theorem stop_during_start_is_overtaken:
  assumes "lf_start s = Some SP_crypto" and "\<not> lf_stopping s" and "lf_stop s = None"
  shows "\<exists>t. life_run [Le_stop, Le_stop_step None, Le_stop_step None, Le_stop_step None, Le_stop_step None, Le_start_step None hook, Le_start_step None hook,
      Le_start_step None hook] s = Some t \<and>
    lf_loop t \<and> lf_started t \<and> \<not> lf_lock t \<and> life_step Le_stop t = Some t"
  using assms by (simp add: life_defs)

text \<open>
  After a fatal error of the sync loop the bot counts as not started, and \<open>start\<close> accepts it;
  but the client still has its loop and refuses.
\<close>

theorem no_start_after_fatal:
  assumes "lf_loop s" and "lf_running s" and "lf_handlers s" and "lf_start s = None" and "\<not> lf_cryptoEnabled s"
  shows "\<exists>t. life_run [Le_fatal, Le_start, Le_start_step None hook] s = Some t \<and> \<not> lf_started t \<and> lf_start t = None \<and>
    lf_errors t = lf_errors s @ [ConfigurationError ''MatrixClient already started'']"
  using assms by (simp add: life_defs)

text \<open>
  When a plugin cannot be installed \<open>create\<close> throws and keeps the lock: there is no bot that
  could release it, so the same process cannot try again.
\<close>

theorem failed_create_keeps_lock:
  "bot_create True crypto n None None (e # es) = (Inl e, True)"
  by (simp add: bot_create_def)

text \<open>
  Health is well exactly for a started bot that is not stopping, whose last sync is not older
  than the limit and whose crypto, if it has any, was checked; before the first sync it never is.
\<close>

theorem health_ok_exact:
  "he_ok (getHealth now lastSyncAt staleMs s) =
     (lf_started s \<and> \<not> lf_stopping s \<and> 0 < lastSyncAt \<and>
      now - lastSyncAt \<le> (case staleMs of Some m \<Rightarrow> m | None \<Rightarrow> 120000) \<and> (lf_cryptoReady s \<or> \<not> lf_cryptoEnabled s))"
  by (auto simp: getHealth_def Let_def)

lemma watch_running:
  "list_all he_running hs \<Longrightarrow> watch hs n = map2 (\<lambda>p h. he_syncStale h \<and> \<not> p) (n # map he_syncStale hs) hs"
proof (induction hs arbitrary: n)
  case (Cons h hs)
  then show ?case
    by (cases "he_syncStale h"; cases hs) (auto simp: watch_tick_def)
qed simp

text \<open>
  While the bot runs, \<open>onSyncStale\<close> is called at a tick exactly when the sync is stale and was
  not at the tick before: once for each period of staleness.
\<close>

theorem stale_notified_once_per_period:
  assumes "list_all he_running hs" and "i < length hs"
  shows "watch hs n ! i = (he_syncStale (hs ! i) \<and> \<not> (if i = 0 then n else he_syncStale (hs ! (i - 1))))"
  using assms(2) by (simp add: watch_running [OF assms(1)] nth_Cons')

definition demo_life :: life where
  "demo_life =
     \<lparr>lf_started = True, lf_stopping = False, lf_cryptoEnabled = False, lf_cryptoReady = False, lf_cryptoOpen = False, lf_hasLock = True, lf_lock = True,
      lf_watching = False, lf_notified = False, lf_scheduler = True, lf_loop = True, lf_running = True, lf_handlers = True,
      lf_clientStopping = False,
      lf_queue = dq_new 8, lf_start = None, lf_stop = None, lf_errors = []\<rparr>"

lemma demo_life_facts:
  "lf_started demo_life" "\<not> lf_stopping demo_life" "lf_start demo_life = None" "lf_stop demo_life = None" "lf_loop demo_life"
  "lf_handlers demo_life" "\<not> lf_cryptoEnabled demo_life" "lf_errors demo_life = []" "lf_running demo_life"
  by (simp_all add: demo_life_def)

theorem sync_only_under_lock_witness:
  "\<exists>s. lf_running s \<and> lf_stop s = Some TP_loop \<and> life_reach one_life s \<and> lf_lock s \<and> room_emit ''!r:hs'' s \<noteq> Emit_throws"
proof -
  obtain s where s: "bot_create True False 8 None None [] = (Inr s, True)"
    by (simp add: bot_create_def)
  then have s': "\<not> lf_started s" "\<not> lf_stopping s" "lf_start s = None" "lf_stop s = None" "\<not> lf_cryptoEnabled s" "\<not> lf_loop s" "lf_hasLock s"
    by (auto simp: bot_create_def)
  define s1 where "s1 = start_begin s"
  define s2 where "s2 = the (start_step None False s1)"
  define s3 where "s3 = the (start_step None False s2)"
  define s4 where "s4 = stop_begin s3"
  define s5 where "s5 = the (stop_step None s4)"
  note defs = s1_def s2_def s3_def s4_def s5_def
  have "life_reach one_life s1"
    by (rule life_reach.step [OF life_reach.created [OF s], of _ Le_start]) (use s' in \<open>simp_all add: one_life_def defs\<close>)
  then have "life_reach one_life s2"
    by (rule life_reach.step [of _ _ "Le_start_step None False"]) (use s' in \<open>simp_all add: one_life_def life_defs defs\<close>)
  then have "life_reach one_life s3"
    by (rule life_reach.step [of _ _ "Le_start_step None False"]) (use s' in \<open>simp_all add: one_life_def life_defs defs\<close>)
  then have "life_reach one_life s4"
    by (rule life_reach.step [of _ _ Le_stop]) (use s' in \<open>simp_all add: one_life_def life_defs defs\<close>)
  then have "life_reach one_life s5"
    by (rule life_reach.step [of _ _ "Le_stop_step None"]) (use s' in \<open>simp_all add: one_life_def life_defs defs\<close>)
  moreover have "lf_running s5" "lf_hasLock s5" "lf_stop s5 = Some TP_loop"
    using s' by (simp_all add: life_defs defs)
  ultimately show ?thesis
    using sync_only_under_lock by blast
qed

theorem stop_releases_everything_witness:
  "\<exists>t. life_run [Le_stop, Le_stop_step None, Le_fatal, Le_stop, Le_stop_step None, Le_stop_step None, Le_stop_step None] demo_life = Some t \<and>
    released t \<and> room_emit ''!r:hs'' t = Emit_ignored"
proof -
  obtain t where t: "life_run [Le_stop, Le_stop_step None, Le_fatal, Le_stop, Le_stop_step None, Le_stop_step None, Le_stop_step None] demo_life = Some t"
    by (simp add: demo_life_def life_defs)
  from stop_releases_everything [OF demo_life_facts(2-4) _ t refl, of "''!r:hs''"] have "released t \<and> room_emit ''!r:hs'' t = Emit_ignored"
    by simp
  with t show ?thesis by blast
qed

theorem failed_flush_keeps_lock_witness:
  "\<exists>s t. life_run [Le_stop, Le_stop_step None, Le_stop_step None, Le_stop_step None] demo_life = Some s \<and>
    life_step (Le_stop_step (Some (Thrown ''ENOSPC''))) s = Some t \<and> lf_lock t \<and> life_step Le_stop t = Some t"
proof -
  obtain s where s: "life_run [Le_stop, Le_stop_step None, Le_stop_step None, Le_stop_step None] demo_life = Some s"
    and "lf_stop s = Some TP_crypto" "lf_stopping s" "lf_started s" "lf_lock s" "lf_start s = None"
    by (simp add: demo_life_def stop_begin_def stop_step_def)
  from failed_flush_keeps_lock [OF this(2-), of "Thrown ''ENOSPC''"] s show ?thesis by blast
qed

theorem restarted_bot_is_deaf_witness:
  "\<exists>t. life_run [Le_stop, Le_stop_step None, Le_stop_step None, Le_stop_step None, Le_stop_step None, Le_start, Le_start_step None False, Le_start_step None False,
      Le_start_step None False] demo_life = Some t \<and> he_ok (getHealth 1000 900 None t) \<and> room_emit ''!r:hs'' t = Emit_throws"
proof -
  obtain s where s: "life_run [Le_stop, Le_stop_step None, Le_stop_step None, Le_stop_step None, Le_stop_step None] demo_life = Some s"
    and off: "\<not> lf_started s" "lf_start s = None" "lf_stop s = None" "\<not> lf_loop s" "\<not> lf_lock s" "closed (lf_queue s)" "\<not> lf_cryptoEnabled s"
    by (simp add: demo_life_def stop_begin_def stop_step_def Let_def)
  have "life_run (es @ fs) x = (case life_run es x of Some y \<Rightarrow> life_run fs y | None \<Rightarrow> None)" for es fs x
    by (induction es arbitrary: x) (auto split: option.split)
  note append = this [of "[Le_stop, Le_stop_step None, Le_stop_step None, Le_stop_step None, Le_stop_step None]" "[Le_start, Le_start_step None False, Le_start_step None False,
      Le_start_step None False]" demo_life]
  obtain t where "life_run [Le_start, Le_start_step None False, Le_start_step None False, Le_start_step None False] s = Some t"
    "he_ok (getHealth 1000 900 None t)" "room_emit ''!r:hs'' t = Emit_throws"
    using restarted_bot_is_deaf [OF off, of 900 1000 False "''!r:hs''"] by auto
  with append s show ?thesis
    by simp
qed

theorem stop_during_start_is_overtaken_witness:
  "\<exists>t. life_run [Le_stop, Le_stop_step None, Le_stop_step None, Le_stop_step None, Le_stop_step None, Le_start_step None True, Le_start_step None True,
      Le_start_step None True] (demo_life\<lparr>lf_started := False, lf_loop := False, lf_start := Some SP_crypto\<rparr>) = Some t \<and> lf_loop t \<and> \<not> lf_lock t"
  using stop_during_start_is_overtaken [of "demo_life\<lparr>lf_started := False, lf_loop := False, lf_start := Some SP_crypto\<rparr>" True]
    demo_life_facts
  by (simp del: life_run.simps) blast

theorem no_start_after_fatal_witness:
  "\<exists>t. life_run [Le_fatal, Le_start, Le_start_step None True] demo_life = Some t \<and>
    lf_errors t = [ConfigurationError ''MatrixClient already started'']"
  using no_start_after_fatal [OF demo_life_facts(5,9,6,3,7), of True] demo_life_facts(8) by (simp del: life_run.simps) blast

theorem stale_notified_once_per_period_witness:
  "watch [getHealth 1000 900 None demo_life, getHealth 200000 900 None demo_life, getHealth 215000 900 None demo_life] False ! 2 = False \<and>
   watch [getHealth 1000 900 None demo_life, getHealth 200000 900 None demo_life] False ! 1 = True"
  by (subst stale_notified_once_per_period, simp add: getHealth_def demo_life_def, simp,
      subst stale_notified_once_per_period, simp add: getHealth_def demo_life_def, simp, simp add: getHealth_def)

end
