(* ===== verification/Crypto_Engine.thy ===== *)
theory Crypto_Engine
  imports Crypto_Policy Html Token_Store Callbacks
begin

text \<open>
  The sharing of room keys in \<^verbatim>\<open>src/crypto.ts\<close>: the requests of the crypto machine and how they
  are sent, \<open>prepare\<close>, \<open>updateTrackedUsers\<close>, \<open>receiveSync\<close>, \<open>ensureSessionsAndShare\<close>,
  \<open>encryptMessage\<close> and \<open>close\<close>; and the queue of events that could not be decrypted. The machine
  itself is a native library, and the homeserver is another program: every call to either goes
  into a log with its answer, and the answers are a parameter that may depend on the whole log.

  What an operation does under the lock of the engine is a task, with what it does directly
  after it has given the lock back; the tasks run in the order in which they asked for the
  lock, and what an operation does before it asks happens at once. An operation that starts
  while another one holds the lock waits behind it, and stands in a history before the turn of
  that one: what it looks at (shares and their counts) changes only at the end of a turn. A
  \<open>close\<close> in the middle of another turn is not represented. Left out are log lines, the
  counts of one-time keys that a sync hands to the machine, key backup versions other than
  their number, cross signing, attachments and the identity of the device.
\<close>

section \<open>Calls and answers\<close>

datatype crypto_visibility = CV_invited | CV_joined | CV_world_readable | CV_shared

definition mapHistoryVisibility :: "string option \<Rightarrow> crypto_visibility" where
  "mapHistoryVisibility v =
     (if v = Some ''invited'' then CV_invited
      else if v = Some ''joined'' then CV_joined
      else if v = Some ''world_readable'' then CV_world_readable
      else CV_shared)"

datatype collect_strategy = OnlyTrustedDevices | ErrorOnVerifiedUserProblem | AllDevices

definition collectStrategyForPolicy :: "share_policy \<Rightarrow> collect_strategy" where
  "collectStrategyForPolicy policy =
     (if sp_onlyAllowTrustedDevices policy then OnlyTrustedDevices
      else if sp_errorOnVerifiedUserProblem policy then ErrorOnVerifiedUserProblem
      else AllDevices)"

record encryption_settings =
  es_historyVisibility :: crypto_visibility
  es_sharingStrategy :: collect_strategy
  es_rotationPeriodMessages :: int
  es_rotationPeriodUs :: int

record to_device =
  td_id :: string
  td_eventType :: string
  td_txnId :: string
  td_body :: json

datatype request_kind = KeysUpload | KeysQuery | KeysClaim | ToDevice | SignatureUpload | RoomMessage | KeysBackup

text \<open>The bodies are JSON texts that the code parses at once; the model has the values.\<close>

datatype out_request =
    Out_plain request_kind string json   \<comment> \<open>keys upload, keys query and signature upload\<close>
  | Out_claim string json
  | Out_to_device to_device
  | Out_room_message string string string string json
  | Out_backup string json
  | Out_unknown "string option"

datatype engine_call =
    Mc_updateTrackedUsers "string list"
  | Mc_receiveSyncChanges json "string list" "string list"
  | Mc_refreshDevices "string list"   \<comment> \<open>\<open>receiveSyncChanges\<close> with no event\<close>
  | Mc_outgoingRequests
  | Mc_getMissingSessions "string list"
  | Mc_shareRoomKey string "string list" encryption_settings
  | Mc_encryptRoomEvent string string json
  | Mc_markRequestAsSent string "request_kind option" json
  | Mc_close
  | Http_post string json
  | Http_put string "string option" json
  | Budget_share
  | Budget_query

text \<open>An answer is an error or a value with a list of requests.\<close>

type_synonym engine_answer = "(js_error, json \<times> out_request list) sum"

type_synonym engine_log = "(engine_call \<times> engine_answer) list"

record engine_world =
  ew_answer :: "engine_log \<Rightarrow> engine_call \<Rightarrow> engine_answer"
  ew_hash :: "nat list \<Rightarrow> string"
  ew_visibility :: "string \<Rightarrow> string option"

section \<open>The engine\<close>

record share_state =
  sh_memberFingerprint :: string
  sh_sharedAt :: int
  sh_messages :: int

record engine =
  en_userId :: string
  en_policy :: share_policy
  en_budget :: bool
  en_isReady :: bool
  en_closed :: bool
  en_shareState :: "(string, share_state) lru"
  en_trackedUsers :: "string set"
  en_dirtyUsers :: "string set"
  en_keyBackupVersion :: "string option"
  en_log :: engine_log

definition engine_new :: "string \<Rightarrow> share_policy \<Rightarrow> bool \<Rightarrow> engine" where
  "engine_new userId policy budget =
     \<lparr>en_userId = userId, en_policy = policy, en_budget = budget, en_isReady = False, en_closed = False,
      en_shareState = \<lparr>lru_capacity = 2000, lru_map = []\<rparr>, en_trackedUsers = {}, en_dirtyUsers = {},
      en_keyBackupVersion = None, en_log = []\<rparr>"

text \<open>Programs over the engine: an error ends the program, what it did before stays.\<close>

type_synonym 'a prog = "engine \<Rightarrow> (js_error, 'a) sum \<times> engine"

definition ret :: "'a \<Rightarrow> 'a prog" where
  "ret x s = (Inr x, s)"

definition bind :: "'a prog \<Rightarrow> ('a \<Rightarrow> 'b prog) \<Rightarrow> 'b prog" where
  "bind p f s = (case p s of (Inl e, s1) \<Rightarrow> (Inl e, s1) | (Inr x, s1) \<Rightarrow> f x s1)"

definition modify :: "(engine \<Rightarrow> engine) \<Rightarrow> unit prog" where
  "modify f s = (Inr (), f s)"

definition ask :: "engine_world \<Rightarrow> engine_call \<Rightarrow> (json \<times> out_request list) prog" where
  "ask W c s =
     (let a = ew_answer W (en_log s) c in (a, s\<lparr>en_log := en_log s @ [(c, a)]\<rparr>))"

definition ask_unit :: "engine_world \<Rightarrow> engine_call \<Rightarrow> unit prog" where
  "ask_unit W c = bind (ask W c) (\<lambda>_. ret ())"

section \<open>Outgoing requests\<close>

definition mark_sent :: "engine_world \<Rightarrow> string \<Rightarrow> request_kind \<Rightarrow> json \<Rightarrow> unit prog" where
  "mark_sent W rid kind resp = ask_unit W (Mc_markRequestAsSent rid (Some kind) resp)"

definition postAndMark :: "engine_world \<Rightarrow> string \<Rightarrow> json \<Rightarrow> string \<Rightarrow> request_kind \<Rightarrow> unit prog" where
  "postAndMark W rid body path kind = bind (ask W (Http_post path body)) (\<lambda>(resp, _). mark_sent W rid kind resp)"

definition sendKeysClaim :: "engine_world \<Rightarrow> string \<Rightarrow> json \<Rightarrow> unit prog" where
  "sendKeysClaim W rid body =
     bind (ask W (Http_post ''/_matrix/client/v3/keys/claim'' body)) (\<lambda>(resp, _). mark_sent W rid KeysClaim resp)"

definition to_device_put :: "to_device \<Rightarrow> engine_call" where
  "to_device_put t =
     Http_put (''/_matrix/client/v3/sendToDevice/'' @ encodeURIComponent (td_eventType t) @ ''/'' @ encodeURIComponent (td_txnId t)) None
       (normalizeToDeviceBody (td_body t))"

definition sendToDeviceRequest :: "engine_world \<Rightarrow> to_device \<Rightarrow> unit prog" where
  "sendToDeviceRequest W t = bind (ask W (to_device_put t)) (\<lambda>(resp, _). mark_sent W (td_id t) ToDevice resp)"

definition sendKeysBackup :: "engine_world \<Rightarrow> string \<Rightarrow> json \<Rightarrow> unit prog" where
  "sendKeysBackup W rid body s =
     (case en_keyBackupVersion s of
        None \<Rightarrow> mark_sent W rid KeysBackup (JObj []) s
      | Some v \<Rightarrow>
          bind (ask W (Http_put ''/_matrix/client/v3/room_keys/keys'' (Some v) body)) (\<lambda>(resp, _). mark_sent W rid KeysBackup resp) s)"

definition plain_path :: "request_kind \<Rightarrow> string" where
  "plain_path kind =
     (case kind of
        KeysUpload \<Rightarrow> ''/_matrix/client/v3/keys/upload''
      | KeysQuery \<Rightarrow> ''/_matrix/client/v3/keys/query''
      | _ \<Rightarrow> ''/_matrix/client/v3/keys/signatures/upload'')"

definition budget_wait :: "engine_world \<Rightarrow> engine_call \<Rightarrow> unit prog" where
  "budget_wait W c s = (if en_budget s then ask_unit W c s else (Inr (), s))"

text \<open>A request of an unknown type is marked as sent; a failure of that is only logged.\<close>

fun dispatchRequest :: "engine_world \<Rightarrow> out_request \<Rightarrow> unit prog" where
  "dispatchRequest W (Out_plain kind rid body) =
     bind (if kind = KeysQuery then budget_wait W Budget_query else ret ()) (\<lambda>_. postAndMark W rid body (plain_path kind) kind)"
| "dispatchRequest W (Out_claim rid body) = sendKeysClaim W rid body"
| "dispatchRequest W (Out_to_device t) = sendToDeviceRequest W t"
| "dispatchRequest W (Out_room_message rid roomId eventType txn body) =
     bind (ask W (Http_put (''/_matrix/client/v3/rooms/'' @ encodeURIComponent roomId @ ''/send/'' @ encodeURIComponent eventType @
         ''/'' @ encodeURIComponent txn) None body))
       (\<lambda>(resp, _). mark_sent W rid RoomMessage resp)"
| "dispatchRequest W (Out_backup rid body) = sendKeysBackup W rid body"
| "dispatchRequest W (Out_unknown rid) =
     (case rid of None \<Rightarrow> ret () | Some i \<Rightarrow> (\<lambda>s. (Inr (), snd (ask W (Mc_markRequestAsSent i None (JObj [])) s))))"

fun each :: "('a \<Rightarrow> unit prog) \<Rightarrow> 'a list \<Rightarrow> unit prog" where
  "each f [] = ret ()"
| "each f (x # xs) = bind (f x) (\<lambda>_. each f xs)"

definition runOutgoingRequests :: "engine_world \<Rightarrow> nat prog" where
  "runOutgoingRequests W s =
     (if en_closed s then (Inr 0, s)
      else bind (ask W Mc_outgoingRequests) (\<lambda>(_, rs). bind (each (dispatchRequest W) rs) (\<lambda>_. ret (length rs))) s)"

section \<open>prepare and tracking\<close>

text \<open>At most twelve rounds, until a round finds nothing to send.\<close>

fun drain_rounds :: "engine_world \<Rightarrow> nat \<Rightarrow> unit prog" where
  "drain_rounds W 0 = ret ()"
| "drain_rounds W (Suc n) = bind (runOutgoingRequests W) (\<lambda>k. if k = 0 then ret () else drain_rounds W n)"

text \<open>The members of each room, or \<open>None\<close> when they can not be listed.\<close>

definition prepare_users :: "string list option list \<Rightarrow> string \<Rightarrow> string list" where
  "prepare_users members userId = remdups (concat (map (\<lambda>m. case m of Some us \<Rightarrow> us | None \<Rightarrow> []) members) @ [userId])"

definition prepare_locked :: "engine_world \<Rightarrow> string list option list \<Rightarrow> unit prog" where
  "prepare_locked W members s =
     (let us = prepare_users members (en_userId s)
      in bind (ask_unit W (Mc_updateTrackedUsers us)) (\<lambda>_.
         bind (modify (\<lambda>s. s\<lparr>en_trackedUsers := en_trackedUsers s \<union> set us\<rparr>)) (\<lambda>_.
         bind (drain_rounds W 12) (\<lambda>_.
         modify (\<lambda>s. s\<lparr>en_isReady := True\<rparr>)))) s)"

definition fresh_users :: "string list \<Rightarrow> engine \<Rightarrow> string list" where
  "fresh_users userIds s = filter (\<lambda>u. u \<notin> en_trackedUsers s) userIds"

definition track_locked :: "engine_world \<Rightarrow> string list \<Rightarrow> unit prog" where
  "track_locked W fresh =
     bind (ask_unit W (Mc_updateTrackedUsers fresh)) (\<lambda>_.
     bind (runOutgoingRequests W) (\<lambda>_.
     modify (\<lambda>s. s\<lparr>en_trackedUsers := en_trackedUsers s \<union> set fresh\<rparr>)))"

section \<open>receiveSync\<close>

definition parseToDeviceEvents :: "(string \<Rightarrow> json option) \<Rightarrow> string \<Rightarrow> json list" where
  "parseToDeviceEvents parse raw =
     (if raw = [] then []
      else case parse raw of
             None \<Rightarrow> []
           | Some (JArr xs) \<Rightarrow> filter isPlainObject xs
           | Some p \<Rightarrow> (case json_prop p ''events'' of Some (JArr xs) \<Rightarrow> if isPlainObject p then filter isPlainObject xs else [] | _ \<Rightarrow> []))"

text \<open>A change of devices drops the cached share of every room.\<close>

definition note_devices :: "string list \<Rightarrow> string list \<Rightarrow> engine \<Rightarrow> engine" where
  "note_devices changed left s =
     s\<lparr>en_dirtyUsers := en_dirtyUsers s \<union> set changed \<union> set left, en_trackedUsers := en_trackedUsers s - set left,
       en_shareState := (if changed = [] \<and> left = [] then en_shareState s else lru_clear (en_shareState s))\<rparr>"

definition sync_locked :: "engine_world \<Rightarrow> json \<Rightarrow> string list \<Rightarrow> string list \<Rightarrow> json prog" where
  "sync_locked W events changed left =
     bind (ask W (Mc_receiveSyncChanges events changed left)) (\<lambda>(raw, _).
     bind (runOutgoingRequests W) (\<lambda>_.
     bind (modify (note_devices changed left)) (\<lambda>_. ret raw)))"

section \<open>ensureSessionsAndShare and encryptMessage\<close>

definition shareIsFresh :: "engine_world \<Rightarrow> int \<Rightarrow> string \<Rightarrow> string list \<Rightarrow> engine \<Rightarrow> bool \<times> engine" where
  "shareIsFresh W now roomId peers s =
     (let policy = en_policy s
      in if shouldRotateEveryMessage policy (int (length peers)) then (False, s)
         else
           (let (entry, cache) = lru_get roomId (en_shareState s); s1 = s\<lparr>en_shareState := cache\<rparr>
            in case entry of
                 None \<Rightarrow> (False, s1)
               | Some st \<Rightarrow>
                   (sh_memberFingerprint st = fingerprintSet (ew_hash W) peers \<and>
                    \<not> (sp_reshareOnDeviceChange policy \<and> list_ex (\<lambda>p. p \<in> en_dirtyUsers s) peers) \<and>
                    sh_messages st < sp_rotationPeriodMessages policy \<and>
                    now - sh_sharedAt st < sp_rotationPeriodMs policy, s1)))"

text \<open>\<open>state.messages += 1\<close> changes the entry in place.\<close>

definition count_message :: "string \<Rightarrow> engine \<Rightarrow> engine" where
  "count_message roomId s =
     (let (entry, cache) = lru_get roomId (en_shareState s)
      in case entry of
           None \<Rightarrow> s\<lparr>en_shareState := cache\<rparr>
         | Some st \<Rightarrow> s\<lparr>en_shareState := cache\<lparr>lru_map := jm_set roomId (st\<lparr>sh_messages := sh_messages st + 1\<rparr>) (lru_map cache)\<rparr>\<rparr>)"

definition share_settings :: "engine_world \<Rightarrow> share_policy \<Rightarrow> bool \<Rightarrow> string \<Rightarrow> encryption_settings" where
  "share_settings W policy rotateNow roomId =
     \<lparr>es_historyVisibility = mapHistoryVisibility (ew_visibility W roomId), es_sharingStrategy = collectStrategyForPolicy policy,
      es_rotationPeriodMessages = (if rotateNow then 1 else max 1 (sp_rotationPeriodMessages policy)),
      es_rotationPeriodUs = max 1 (sp_rotationPeriodMs policy) * 1000\<rparr>"

definition to_devices :: "out_request list \<Rightarrow> to_device list" where
  "to_devices rs = List.map_filter (\<lambda>r. case r of Out_to_device t \<Rightarrow> Some t | _ \<Rightarrow> None) rs"

definition withheld_requests :: "to_device list \<Rightarrow> to_device list" where
  "withheld_requests ts = filter (\<lambda>t. td_eventType t = ''m.room_key.withheld'') ts"

definition claim_missing :: "engine_world \<Rightarrow> string list \<Rightarrow> unit prog" where
  "claim_missing W peers =
     bind (ask W (Mc_getMissingSessions peers)) (\<lambda>(_, rs).
       case rs of Out_claim rid body # _ \<Rightarrow> sendKeysClaim W rid body | _ \<Rightarrow> ret ())"

definition track_missing :: "engine_world \<Rightarrow> string list \<Rightarrow> unit prog" where
  "track_missing W peers s =
     (let untracked = fresh_users peers s
      in if untracked = [] then (Inr (), s)
         else bind (ask_unit W (Mc_updateTrackedUsers untracked)) (\<lambda>_.
              bind (modify (\<lambda>s. s\<lparr>en_trackedUsers := en_trackedUsers s \<union> set untracked\<rparr>)) (\<lambda>_.
              bind (runOutgoingRequests W) (\<lambda>_. ret ()))) s)"

definition refresh_stale :: "engine_world \<Rightarrow> bool \<Rightarrow> string list \<Rightarrow> unit prog" where
  "refresh_stale W rotateNow peers s =
     (let stale = (if rotateNow then peers else filter (\<lambda>u. u \<in> en_dirtyUsers s) peers)
      in if stale = [] then (Inr (), s)
         else bind (ask_unit W (Mc_refreshDevices stale)) (\<lambda>_.
              bind (runOutgoingRequests W) (\<lambda>_.
              modify (\<lambda>s. s\<lparr>en_dirtyUsers := en_dirtyUsers s - set stale\<rparr>))) s)"

definition finish_share :: "engine_world \<Rightarrow> int \<Rightarrow> string \<Rightarrow> string list \<Rightarrow> to_device list \<Rightarrow> unit prog" where
  "finish_share W now roomId peers ts s =
     (let withheld = length (withheld_requests ts); keyShares = length ts - withheld; policy = en_policy s
      in if keyShares = 0 \<and> 0 < withheld
         then (Inl (RoomKeyWithheldError roomId (int withheld) (sp_onlyAllowTrustedDevices policy) (sp_errorOnVerifiedUserProblem policy)
                 (sp_rotateEveryMessage policy)),
               s\<lparr>en_shareState := snd (lru_delete roomId (en_shareState s))\<rparr>)
         else (Inr (), s\<lparr>en_shareState := lru_set roomId
                 \<lparr>sh_memberFingerprint = fingerprintSet (ew_hash W) peers, sh_sharedAt = now, sh_messages = 1\<rparr> (en_shareState s)\<rparr>))"

definition share_locked :: "engine_world \<Rightarrow> int \<Rightarrow> string \<Rightarrow> string list \<Rightarrow> unit prog" where
  "share_locked W now roomId peers s =
     (let policy = en_policy s; rotateNow = shouldRotateEveryMessage policy (int (length peers))
      in bind (track_missing W peers) (\<lambda>_.
         bind (budget_wait W Budget_share) (\<lambda>_.
         bind (refresh_stale W rotateNow peers) (\<lambda>_.
         bind (claim_missing W peers) (\<lambda>_.
         bind (ask W (Mc_shareRoomKey roomId peers (share_settings W policy rotateNow roomId))) (\<lambda>(_, rs).
         bind (each (sendToDeviceRequest W) (to_devices rs)) (\<lambda>_.
         finish_share W now roomId peers (to_devices rs))))))) s)"

definition encrypt_locked :: "engine_world \<Rightarrow> string \<Rightarrow> string \<Rightarrow> json \<Rightarrow> json prog" where
  "encrypt_locked W roomId eventType content =
     bind (ask W (Mc_encryptRoomEvent roomId eventType content)) (\<lambda>(raw, _).
     bind (runOutgoingRequests W) (\<lambda>_. ret raw))"

section \<open>Tasks under the lock\<close>

record room_message =
  ms_roomId :: string
  ms_eventType :: string
  ms_content :: json
  ms_peers :: "string list"

datatype crypto_task =
    T_share room_message
  | T_encrypt room_message
  | T_sync json "string list" "string list"
  | T_track "string list"
  | T_prepare "string list option list"
  | T_close

record crypto_hub =
  ch_engine :: engine
  ch_queue :: "crypto_task list"
  ch_out :: "(crypto_task \<times> (js_error, json) sum) list"

definition enqueue_task :: "crypto_task \<Rightarrow> crypto_hub \<Rightarrow> crypto_hub" where
  "enqueue_task t h = h\<lparr>ch_queue := ch_queue h @ [t]\<rparr>"

text \<open>\<open>encryptMessage\<close>: whether the share is fresh is looked at before the lock is asked for.\<close>

definition encryptMessage :: "engine_world \<Rightarrow> int \<Rightarrow> string \<Rightarrow> string \<Rightarrow> json \<Rightarrow> string list \<Rightarrow> crypto_hub \<Rightarrow> crypto_hub" where
  "encryptMessage W now roomId eventType content userIds h =
     (let peers = filterShareRecipients (en_userId (ch_engine h)) userIds;
          m = \<lparr>ms_roomId = roomId, ms_eventType = eventType, ms_content = content, ms_peers = peers\<rparr>;
          (fresh, s) = shareIsFresh W now roomId peers (ch_engine h)
      in if fresh then enqueue_task (T_encrypt m) (h\<lparr>ch_engine := count_message roomId s\<rparr>)
         else enqueue_task (T_share m) (h\<lparr>ch_engine := s\<rparr>))"

definition receiveSync :: "json \<Rightarrow> string list \<Rightarrow> string list \<Rightarrow> crypto_hub \<Rightarrow> crypto_hub" where
  "receiveSync events changed left h = (if en_closed (ch_engine h) then h else enqueue_task (T_sync events changed left) h)"

definition updateTrackedUsers :: "string list \<Rightarrow> crypto_hub \<Rightarrow> crypto_hub" where
  "updateTrackedUsers userIds h =
     (let fresh = fresh_users userIds (ch_engine h)
      in if en_closed (ch_engine h) \<or> fresh = [] then h else enqueue_task (T_track fresh) h)"

definition invalidateRoomShare :: "string \<Rightarrow> crypto_hub \<Rightarrow> crypto_hub" where
  "invalidateRoomShare roomId h =
     h\<lparr>ch_engine := (ch_engine h)\<lparr>en_shareState := snd (lru_delete roomId (en_shareState (ch_engine h)))\<rparr>\<rparr>"

definition crypto_close :: "crypto_hub \<Rightarrow> crypto_hub" where
  "crypto_close h =
     (if en_closed (ch_engine h) then h
      else enqueue_task T_close (h\<lparr>ch_engine := (ch_engine h)\<lparr>en_closed := True, en_isReady := False\<rparr>\<rparr>))"

text \<open>An error of the native \<open>close\<close> is only logged.\<close>

definition close_locked :: "engine_world \<Rightarrow> json prog" where
  "close_locked W s =
     (Inr JNull, (snd (ask W Mc_close s))\<lparr>en_shareState := lru_clear (en_shareState s), en_trackedUsers := {}, en_dirtyUsers := {}\<rparr>)"

definition unit_result :: "unit prog \<Rightarrow> json prog" where
  "unit_result p = bind p (\<lambda>_. ret JNull)"

fun task_prog :: "engine_world \<Rightarrow> int \<Rightarrow> crypto_task \<Rightarrow> json prog" where
  "task_prog W now (T_share m) = unit_result (share_locked W now (ms_roomId m) (ms_peers m))"
| "task_prog W now (T_encrypt m) = encrypt_locked W (ms_roomId m) (ms_eventType m) (ms_content m)"
| "task_prog W now (T_sync events changed left) = sync_locked W events changed left"
| "task_prog W now (T_track fresh) = unit_result (track_locked W fresh)"
| "task_prog W now (T_prepare members) = unit_result (prepare_locked W members)"
| "task_prog W now T_close = close_locked W"

text \<open>A message whose share is done asks for the lock again.\<close>

fun follow_up :: "crypto_task \<Rightarrow> (js_error, json) sum \<Rightarrow> crypto_task list" where
  "follow_up (T_share m) (Inr _) = [T_encrypt m]"
| "follow_up _ _ = []"

definition crypto_turn :: "engine_world \<Rightarrow> int \<Rightarrow> crypto_hub \<Rightarrow> crypto_hub option" where
  "crypto_turn W now h =
     (case ch_queue h of
        [] \<Rightarrow> None
      | t # ts \<Rightarrow>
          (let (r, s) = task_prog W now t (ch_engine h)
           in Some \<lparr>ch_engine = s, ch_queue = ts @ follow_up t r, ch_out = ch_out h @ [(t, r)]\<rparr>))"

datatype crypto_event =
    Ce_encrypt int string string json "string list"
  | Ce_sync json "string list" "string list"
  | Ce_track "string list"
  | Ce_prepare "string list option list"
  | Ce_invalidate string
  | Ce_close
  | Ce_turn int

fun crypto_step :: "engine_world \<Rightarrow> crypto_event \<Rightarrow> crypto_hub \<Rightarrow> crypto_hub option" where
  "crypto_step W (Ce_encrypt now roomId eventType content userIds) h = Some (encryptMessage W now roomId eventType content userIds h)"
| "crypto_step W (Ce_sync events changed left) h = Some (receiveSync events changed left h)"
| "crypto_step W (Ce_track userIds) h = Some (updateTrackedUsers userIds h)"
| "crypto_step W (Ce_prepare members) h = Some (enqueue_task (T_prepare members) h)"
| "crypto_step W (Ce_invalidate roomId) h = Some (invalidateRoomShare roomId h)"
| "crypto_step W Ce_close h = Some (crypto_close h)"
| "crypto_step W (Ce_turn now) h = crypto_turn W now h"

definition crypto_hub_new :: "string \<Rightarrow> share_policy \<Rightarrow> bool \<Rightarrow> crypto_hub" where
  "crypto_hub_new userId policy budget = \<lparr>ch_engine = engine_new userId policy budget, ch_queue = [], ch_out = []\<rparr>"

text \<open>States reached by events that a policy allows in the state they come in.\<close>

inductive crypto_reach :: "engine_world \<Rightarrow> (crypto_event \<Rightarrow> crypto_hub \<Rightarrow> bool) \<Rightarrow> crypto_hub \<Rightarrow> bool" for W allowed where
  new: "crypto_reach W allowed (crypto_hub_new userId policy budget)"
| step: "crypto_reach W allowed h \<Longrightarrow> allowed e h \<Longrightarrow> crypto_step W e h = Some h' \<Longrightarrow> crypto_reach W allowed h'"

section \<open>Frame\<close>

named_theorems steady_intros \<open>programs that only call, and leave the cached shares alone\<close>

text \<open>A program that appends calls of one kind to the log and changes neither shares nor settings.\<close>

definition steady :: "engine_call set \<Rightarrow> 'a prog \<Rightarrow> bool" where
  "steady N p \<longleftrightarrow>
     (\<forall>s. \<exists>l. en_log (snd (p s)) = en_log s @ l \<and> fst ` set l \<subseteq> N \<and> en_shareState (snd (p s)) = en_shareState s \<and>
        en_policy (snd (p s)) = en_policy s \<and> en_userId (snd (p s)) = en_userId s \<and> en_dirtyUsers (snd (p s)) \<subseteq> en_dirtyUsers s)"

lemma steady_ret [steady_intros]: "steady N (ret x)"
  by (simp add: steady_def ret_def)

lemma steady_skip [steady_intros]: "steady N (\<lambda>s. (Inr x, s))"
  by (simp add: steady_def)

lemma steady_ask [steady_intros]: "c \<in> N \<Longrightarrow> steady N (ask W c)"
  by (simp add: steady_def ask_def Let_def)

lemma steady_bind [steady_intros]:
  assumes p: "steady N p" and f: "\<And>x. steady N (f x)"
  shows "steady N (bind p f)"
  unfolding steady_def
proof
  fix s
  obtain r s1 where r: "p s = (r, s1)" by (cases "p s")
  obtain l1 where l1: "en_log s1 = en_log s @ l1" "fst ` set l1 \<subseteq> N" "en_shareState s1 = en_shareState s"
    "en_policy s1 = en_policy s" "en_userId s1 = en_userId s" "en_dirtyUsers s1 \<subseteq> en_dirtyUsers s"
    using p [unfolded steady_def, rule_format, of s] r by auto
  show "\<exists>l. en_log (snd (bind p f s)) = en_log s @ l \<and> fst ` set l \<subseteq> N \<and> en_shareState (snd (bind p f s)) = en_shareState s \<and>
      en_policy (snd (bind p f s)) = en_policy s \<and> en_userId (snd (bind p f s)) = en_userId s \<and>
      en_dirtyUsers (snd (bind p f s)) \<subseteq> en_dirtyUsers s"
  proof (cases r)
    case Inl
    with l1 show ?thesis by (auto simp: bind_def r)
  next
    case (Inr x)
    obtain l2 where "en_log (snd (f x s1)) = en_log s1 @ l2" "fst ` set l2 \<subseteq> N" "en_shareState (snd (f x s1)) = en_shareState s1"
      "en_policy (snd (f x s1)) = en_policy s1" "en_userId (snd (f x s1)) = en_userId s1" "en_dirtyUsers (snd (f x s1)) \<subseteq> en_dirtyUsers s1"
      using f [unfolded steady_def, rule_format, of x s1] by auto
    with l1 Inr show ?thesis
      by (intro exI [of _ "l1 @ l2"]) (auto simp: bind_def r)
  qed
qed

lemma steady_if [steady_intros]: "(b \<Longrightarrow> steady N p) \<Longrightarrow> (\<not> b \<Longrightarrow> steady N q) \<Longrightarrow> steady N (\<lambda>s. if b then p s else q s)"
  by (simp add: steady_def)

lemma steady_If [steady_intros]: "(b \<Longrightarrow> steady N p) \<Longrightarrow> (\<not> b \<Longrightarrow> steady N q) \<Longrightarrow> steady N (if b then p else q)"
  by simp

lemma steady_at:
  assumes "\<And>s. \<exists>q. steady N q \<and> p s = q s"
  shows "steady N p"
  unfolding steady_def
proof
  fix s
  obtain q where "steady N q" and "p s = q s" using assms by blast
  then show "\<exists>l. en_log (snd (p s)) = en_log s @ l \<and> fst ` set l \<subseteq> N \<and> en_shareState (snd (p s)) = en_shareState s \<and>
      en_policy (snd (p s)) = en_policy s \<and> en_userId (snd (p s)) = en_userId s \<and> en_dirtyUsers (snd (p s)) \<subseteq> en_dirtyUsers s"
    unfolding steady_def by metis
qed

lemma steady_same: "steady N q \<Longrightarrow> p s = q s \<Longrightarrow> \<exists>q. steady N q \<and> p s = q s"
  by blast

lemma steady_mono: "steady M p \<Longrightarrow> M \<subseteq> N \<Longrightarrow> steady N p"
  unfolding steady_def by (meson order_trans)

lemma steady_modify [steady_intros]:
  "(\<And>s. en_log (f s) = en_log s \<and> en_shareState (f s) = en_shareState s \<and> en_policy (f s) = en_policy s \<and> en_userId (f s) = en_userId s \<and>
      en_dirtyUsers (f s) \<subseteq> en_dirtyUsers s) \<Longrightarrow> steady N (modify f)"
  by (auto simp: steady_def modify_def)

text \<open>The calls that neither share a key nor use one nor bring a change of devices.\<close>

definition neutral :: "engine_call set" where
  "neutral = {c. \<forall>r us st ty v ev ch le. c \<noteq> Mc_shareRoomKey r us st \<and> c \<noteq> Mc_encryptRoomEvent r ty v \<and> c \<noteq> Mc_receiveSyncChanges ev ch le}"

lemma neutral_calls [simp]:
  "Mc_updateTrackedUsers us \<in> neutral" "Mc_refreshDevices us \<in> neutral" "Mc_outgoingRequests \<in> neutral" "Mc_getMissingSessions us \<in> neutral"
  "Mc_markRequestAsSent i k v \<in> neutral" "Mc_close \<in> neutral" "Http_post p v \<in> neutral" "Http_put p q v \<in> neutral"
  "Budget_share \<in> neutral" "Budget_query \<in> neutral"
  by (simp_all add: neutral_def)

lemma steady_ask_unit [steady_intros]: "c \<in> N \<Longrightarrow> steady N (ask_unit W c)"
  unfolding ask_unit_def by (intro steady_intros)

lemma steady_mark [steady_intros]: "steady neutral (mark_sent W i k v)"
  unfolding mark_sent_def by (intro steady_intros) simp

lemma steady_prod [steady_intros]: "(\<And>a b. steady N (f a b)) \<Longrightarrow> steady N (case x of (a, b) \<Rightarrow> f a b)"
  by (cases x) simp

lemma steady_claim [steady_intros]: "steady neutral (sendKeysClaim W i v)"
  unfolding sendKeysClaim_def by (intro steady_intros) simp

lemma steady_to_device [steady_intros]: "steady neutral (sendToDeviceRequest W t)"
  unfolding sendToDeviceRequest_def to_device_put_def by (intro steady_intros) simp

lemma steady_backup [steady_intros]: "steady neutral (sendKeysBackup W i v)"
proof (rule steady_at)
  fix s :: engine
  have "steady neutral (case en_keyBackupVersion s of None \<Rightarrow> mark_sent W i KeysBackup (JObj [])
      | Some ve \<Rightarrow> bind (ask W (Http_put ''/_matrix/client/v3/room_keys/keys'' (Some ve) v)) (\<lambda>(resp, _). mark_sent W i KeysBackup resp))"
    by (cases "en_keyBackupVersion s") (simp_all, (intro steady_intros; simp)+)
  then show "\<exists>q. steady neutral q \<and> sendKeysBackup W i v s = q s"
    by (rule steady_same) (simp add: sendKeysBackup_def split: option.split)
qed

lemma steady_budget [steady_intros]: "c \<in> N \<Longrightarrow> steady N (budget_wait W c)"
proof (rule steady_at)
  fix s :: engine
  assume "c \<in> N"
  then have "steady N (if en_budget s then ask_unit W c else (\<lambda>s. (Inr (), s)))"
    by (intro steady_intros)
  then show "\<exists>q. steady N q \<and> budget_wait W c s = q s"
    by (rule steady_same) (simp add: budget_wait_def)
qed

lemma steady_unheard [steady_intros]: "c \<in> N \<Longrightarrow> steady N (\<lambda>s. (Inr (), snd (ask W c s)))"
  by (simp add: steady_def ask_def Let_def)

lemma steady_post [steady_intros]: "steady neutral (postAndMark W i v p k)"
  unfolding postAndMark_def by (intro steady_intros) simp

lemma steady_dispatch [steady_intros]: "steady neutral (dispatchRequest W r)"
proof (cases r)
  case (Out_plain k i v)
  have "steady neutral (if k = KeysQuery then budget_wait W Budget_query else ret ())"
    by (intro steady_intros) simp_all
  then have "steady neutral (bind (if k = KeysQuery then budget_wait W Budget_query else ret ()) (\<lambda>_. postAndMark W i v (plain_path k) k))"
    by (rule steady_bind) (rule steady_post)
  with Out_plain show ?thesis by simp
next
  case (Out_room_message i r' e x v)
  then show ?thesis by simp (intro steady_intros; simp)
next
  case (Out_unknown i)
  then show ?thesis by (cases i) (simp_all, (intro steady_intros; simp)+)
qed (simp_all add: steady_claim steady_to_device steady_backup)

lemma steady_each [steady_intros]: "(\<And>x. steady N (f x)) \<Longrightarrow> steady N (each f xs)"
proof (induction xs)
  case (Cons x xs)
  then show ?case by simp (intro steady_intros)
qed (simp add: steady_ret)

lemma steady_outgoing [steady_intros]: "steady neutral (runOutgoingRequests W)"
proof (rule steady_at)
  fix s :: engine
  have "steady neutral (if en_closed s then (\<lambda>s. (Inr 0, s))
      else bind (ask W Mc_outgoingRequests) (\<lambda>(_, rs). bind (each (dispatchRequest W) rs) (\<lambda>_. ret (length rs))))"
    by (intro steady_intros) simp
  then show "\<exists>q. steady neutral q \<and> runOutgoingRequests W s = q s"
    by (rule steady_same) (simp add: runOutgoingRequests_def)
qed

lemma steady_drain [steady_intros]: "steady neutral (drain_rounds W n)"
proof (induction n)
  case (Suc n)
  then show ?case by simp (intro steady_intros)
qed (simp add: steady_ret)

lemma steady_prepare [steady_intros]: "steady neutral (prepare_locked W members)"
proof (rule steady_at)
  fix s :: engine
  have "steady neutral (bind (ask_unit W (Mc_updateTrackedUsers us)) (\<lambda>_.
      bind (modify (\<lambda>s. s\<lparr>en_trackedUsers := en_trackedUsers s \<union> set us\<rparr>)) (\<lambda>_.
      bind (drain_rounds W 12) (\<lambda>_. modify (\<lambda>s. s\<lparr>en_isReady := True\<rparr>)))))" for us
    by (intro steady_intros) simp_all
  note this [of "prepare_users members (en_userId s)"]
  then show "\<exists>q. steady neutral q \<and> prepare_locked W members s = q s"
    by (rule steady_same) (simp add: prepare_locked_def Let_def)
qed

lemma steady_track [steady_intros]: "steady neutral (track_locked W us)"
  unfolding track_locked_def by (intro steady_intros) simp_all

lemma steady_track_missing [steady_intros]: "steady neutral (track_missing W peers)"
proof (rule steady_at)
  fix s :: engine
  have "steady neutral (if us = [] then (\<lambda>s. (Inr (), s))
      else bind (ask_unit W (Mc_updateTrackedUsers us)) (\<lambda>_.
           bind (modify (\<lambda>s. s\<lparr>en_trackedUsers := en_trackedUsers s \<union> set us\<rparr>)) (\<lambda>_.
           bind (runOutgoingRequests W) (\<lambda>_. ret ()))))" for us
    by (intro steady_intros) simp_all
  note this [of "fresh_users peers s"]
  then show "\<exists>q. steady neutral q \<and> track_missing W peers s = q s"
    by (rule steady_same) (simp add: track_missing_def Let_def)
qed

lemma steady_refresh [steady_intros]: "steady neutral (refresh_stale W rot peers)"
proof (rule steady_at)
  fix s :: engine
  have "steady neutral (if us = [] then (\<lambda>s. (Inr (), s))
      else bind (ask_unit W (Mc_refreshDevices us)) (\<lambda>_.
           bind (runOutgoingRequests W) (\<lambda>_.
           modify (\<lambda>s. s\<lparr>en_dirtyUsers := en_dirtyUsers s - set us\<rparr>))))" for us
    by (intro steady_intros) auto
  note this [of "if rot then peers else filter (\<lambda>u. u \<in> en_dirtyUsers s) peers"]
  then show "\<exists>q. steady neutral q \<and> refresh_stale W rot peers s = q s"
    by (rule steady_same) (simp add: refresh_stale_def Let_def)
qed

lemma steady_claim_missing [steady_intros]: "steady neutral (claim_missing W peers)"
proof -
  have "steady neutral (case rs of Out_claim rid body # _ \<Rightarrow> sendKeysClaim W rid body | _ \<Rightarrow> ret ())" for rs
    by (auto simp: steady_claim steady_ret split: list.split out_request.split)
  then show ?thesis
    unfolding claim_missing_def by (intro steady_intros) simp
qed

section \<open>Keys reach their peers before a message does\<close>

text \<open>
  The key of a room was shared with some users: the machine was asked for it, and every request
  it handed out for that was answered by the homeserver without an error.
\<close>

definition shared_to :: "string \<Rightarrow> string list \<Rightarrow> engine_log \<Rightarrow> bool" where
  "shared_to roomId us log \<longleftrightarrow>
     (\<exists>l1 st a rs l2. log = l1 @ (Mc_shareRoomKey roomId us st, Inr (a, rs)) # l2 \<and>
        (\<forall>t\<in>set (to_devices rs). \<exists>b. (to_device_put t, Inr b) \<in> set l2))"

lemma shared_to_append: "shared_to roomId us log \<Longrightarrow> shared_to roomId us (log @ l)"
  unfolding shared_to_def by fastforce

text \<open>The same up to the fingerprint that the engine compares.\<close>

definition shared_alike :: "engine_world \<Rightarrow> string \<Rightarrow> string \<Rightarrow> engine_log \<Rightarrow> bool" where
  "shared_alike W roomId fp log \<longleftrightarrow> (\<exists>us. shared_to roomId us log \<and> fingerprintSet (ew_hash W) us = fp)"

lemma shared_alike_append: "shared_alike W roomId fp log \<Longrightarrow> shared_alike W roomId fp (log @ l)"
  unfolding shared_alike_def using shared_to_append by blast

definition entries_shared :: "engine_world \<Rightarrow> engine \<Rightarrow> bool" where
  "entries_shared W s \<longleftrightarrow>
     lru_inv (en_shareState s) \<and>
     (\<forall>r st. lru_view (en_shareState s) r = Some st \<longrightarrow> shared_alike W r (sh_memberFingerprint st) (en_log s))"

lemma entries_shared_mono:
  assumes "entries_shared W s" and "en_log s' = en_log s @ l" and "lru_inv (en_shareState s')"
    and "\<And>r st. lru_view (en_shareState s') r = Some st \<Longrightarrow>
      \<exists>st0. lru_view (en_shareState s) r = Some st0 \<and> sh_memberFingerprint st = sh_memberFingerprint st0"
  shows "entries_shared W s'"
  using assms unfolding entries_shared_def by (metis shared_alike_append)

lemma steadyD:
  assumes "steady N p" and "p s = (r, s')"
  obtains l where "en_log s' = en_log s @ l" "fst ` set l \<subseteq> N" "en_shareState s' = en_shareState s" "en_policy s' = en_policy s"
    "en_dirtyUsers s' \<subseteq> en_dirtyUsers s"
  using assms unfolding steady_def by (metis snd_conv)

lemma entries_shared_steady: "steady N p \<Longrightarrow> p s = (r, s') \<Longrightarrow> entries_shared W s \<Longrightarrow> entries_shared W s'"
  by (erule steadyD, assumption) (auto intro: shared_alike_append simp: entries_shared_def)

lemma bind_InrD: "bind p f s = (Inr y, s2) \<Longrightarrow> \<exists>x s1. p s = (Inr x, s1) \<and> f x s1 = (Inr y, s2)"
  by (auto simp: bind_def split: prod.splits sum.splits)

lemma sendToDevice_posted:
  assumes "sendToDeviceRequest W t s = (Inr (), s')"
  shows "\<exists>l b. en_log s' = en_log s @ l \<and> (to_device_put t, Inr b) \<in> set l"
  using assms
  by (fastforce simp: sendToDeviceRequest_def mark_sent_def ask_unit_def bind_def ask_def ret_def Let_def split: prod.splits sum.splits)

lemma each_posted:
  assumes "each (sendToDeviceRequest W) ts s = (Inr (), s')"
  shows "\<exists>l. en_log s' = en_log s @ l \<and> (\<forall>t\<in>set ts. \<exists>b. (to_device_put t, Inr b) \<in> set l)"
  using assms
proof (induction ts arbitrary: s)
  case Nil
  then show ?case by (simp add: ret_def)
next
  case (Cons t ts)
  from bind_InrD [OF Cons.prems [simplified]] obtain s1 where
    s1: "sendToDeviceRequest W t s = (Inr (), s1)" "each (sendToDeviceRequest W) ts s1 = (Inr (), s')" by auto
  obtain l0 b0 where l0: "en_log s1 = en_log s @ l0" "(to_device_put t, Inr b0) \<in> set l0"
    using sendToDevice_posted [OF s1(1)] by blast
  obtain l1 where l1: "en_log s' = en_log s1 @ l1" "\<forall>t\<in>set ts. \<exists>b. (to_device_put t, Inr b) \<in> set l1"
    using Cons.IH [OF s1(2)] by blast
  have "\<exists>b. (to_device_put x, Inr b) \<in> set (l0 @ l1)" if "x \<in> set (t # ts)" for x
    using that l0(2) l1(2) by (metis Un_iff set_ConsD set_append)
  then show ?case
    using l0(1) l1(1) by (intro exI [of _ "l0 @ l1"]) simp
qed

text \<open>The part of a share before the machine is asked, and the part from there on.\<close>

definition share_prelude :: "engine_world \<Rightarrow> bool \<Rightarrow> string list \<Rightarrow> unit prog" where
  "share_prelude W rot peers =
     bind (track_missing W peers) (\<lambda>_. bind (budget_wait W Budget_share) (\<lambda>_. bind (refresh_stale W rot peers) (\<lambda>_. claim_missing W peers)))"

lemma steady_prelude: "steady neutral (share_prelude W rot peers)"
  unfolding share_prelude_def by (intro steady_intros) simp

lemma bind_assoc: "bind (bind p f) g = bind p (\<lambda>x. bind (f x) g)"
  by (rule ext) (auto simp: bind_def split: prod.splits sum.splits)

lemma share_locked_split:
  "share_locked W now roomId peers s =
     bind (share_prelude W (shouldRotateEveryMessage (en_policy s) (int (length peers))) peers) (\<lambda>_.
     bind (ask W (Mc_shareRoomKey roomId peers (share_settings W (en_policy s) (shouldRotateEveryMessage (en_policy s) (int (length peers))) roomId)))
       (\<lambda>(_, rs). bind (each (sendToDeviceRequest W) (to_devices rs)) (\<lambda>_. finish_share W now roomId peers (to_devices rs)))) s"
  by (simp add: share_locked_def share_prelude_def bind_assoc Let_def)

text \<open>What a share comes to: how far it got, and what it left in the cache.\<close>

lemma share_locked_cases:
  assumes "share_locked W now roomId peers s = (r, s')"
  obtains (early) e l where "r = Inl e" "en_log s' = en_log s @ l" "fst ` set l \<subseteq> neutral" "en_shareState s' = en_shareState s"
      "en_policy s' = en_policy s" "en_dirtyUsers s' \<subseteq> en_dirtyUsers s"
  | (late) e l1 st a l2 where "r = Inl e" "en_log s' = en_log s @ l1 @ (Mc_shareRoomKey roomId peers st, a) # l2" "fst ` set l1 \<subseteq> neutral"
      "fst ` set l2 \<subseteq> neutral"
      "en_shareState s' = en_shareState s \<or> (en_shareState s' = snd (lru_delete roomId (en_shareState s)) \<and>
         (\<exists>n b1 b2 b3. e = RoomKeyWithheldError roomId n b1 b2 b3))"
      "en_policy s' = en_policy s" "en_dirtyUsers s' \<subseteq> en_dirtyUsers s"
  | (complete) l1 st a rs l2 where "r = Inr ()" "en_log s' = en_log s @ l1 @ (Mc_shareRoomKey roomId peers st, Inr (a, rs)) # l2"
      "fst ` set l1 \<subseteq> neutral" "fst ` set l2 \<subseteq> neutral" "\<forall>t\<in>set (to_devices rs). \<exists>b. (to_device_put t, Inr b) \<in> set l2"
      "en_shareState s' = lru_set roomId \<lparr>sh_memberFingerprint = fingerprintSet (ew_hash W) peers, sh_sharedAt = now, sh_messages = 1\<rparr>
         (en_shareState s)"
      "en_policy s' = en_policy s" "en_dirtyUsers s' \<subseteq> en_dirtyUsers s"
proof -
  define rot where "rot = shouldRotateEveryMessage (en_policy s) (int (length peers))"
  define c where "c = Mc_shareRoomKey roomId peers (share_settings W (en_policy s) rot roomId)"
  obtain r1 s1 where p1: "share_prelude W rot peers s = (r1, s1)"
    by (cases "share_prelude W rot peers s")
  from steadyD [OF steady_prelude p1] obtain l1 where l1: "en_log s1 = en_log s @ l1" "fst ` set l1 \<subseteq> neutral"
    "en_shareState s1 = en_shareState s" "en_policy s1 = en_policy s" "en_dirtyUsers s1 \<subseteq> en_dirtyUsers s" .
  show ?thesis
  proof (cases r1)
    case (Inl e)
    then have "r = Inl e" "s' = s1"
      using assms p1 by (auto simp: share_locked_split bind_def rot_def [symmetric])
    then show ?thesis using early l1 by simp
  next
    case (Inr u)
    define a where "a = ew_answer W (en_log s1) c"
    define s2 where "s2 = s1\<lparr>en_log := en_log s1 @ [(c, a)]\<rparr>"
    have rest: "(r, s') = (case a of Inl e \<Rightarrow> (Inl e, s2)
        | Inr (x, rs) \<Rightarrow> bind (each (sendToDeviceRequest W) (to_devices rs)) (\<lambda>_. finish_share W now roomId peers (to_devices rs)) s2)"
      using assms p1 Inr
      by (auto simp: share_locked_split rot_def [symmetric] c_def [symmetric] bind_def [of "share_prelude W rot peers"] bind_def [of "ask W c"]
          ask_def a_def s2_def Let_def split: sum.split)
    show ?thesis
    proof (cases a)
      case (Inl e)
      then show ?thesis
        using rest l1 late [of e l1 _ a "[]"] by (simp add: s2_def c_def)
    next
      case (Inr x)
      obtain b rs where x: "x = (b, rs)" by (cases x)
      obtain r3 s3 where p3: "each (sendToDeviceRequest W) (to_devices rs) s2 = (r3, s3)"
        by (cases "each (sendToDeviceRequest W) (to_devices rs) s2")
      from steadyD [OF steady_each [OF steady_to_device] p3] obtain l2 where l2: "en_log s3 = en_log s2 @ l2" "fst ` set l2 \<subseteq> neutral"
        "en_shareState s3 = en_shareState s2" "en_policy s3 = en_policy s2" "en_dirtyUsers s3 \<subseteq> en_dirtyUsers s2" .
      have log: "en_log s3 = en_log s @ l1 @ (c, a) # l2" "en_shareState s3 = en_shareState s" "en_policy s3 = en_policy s"
        "en_dirtyUsers s3 \<subseteq> en_dirtyUsers s"
        using l1 l2 by (auto simp: s2_def)
      show ?thesis
      proof (cases r3)
        case (Inl e)
        then have "r = Inl e" "s' = s3"
          using rest p3 \<open>a = Inr x\<close> x by (simp_all add: bind_def)
        then show ?thesis
          using log l1 l2 late [of e l1 _ a l2] by (simp add: c_def)
      next
        case (Inr u3)
        then have fin: "(r, s') = finish_share W now roomId peers (to_devices rs) s3"
          using rest p3 \<open>a = Inr x\<close> x by (simp add: bind_def)
        from each_posted [of W "to_devices rs" s2 s3] p3 Inr l2(1) have "\<forall>t\<in>set (to_devices rs). \<exists>b. (to_device_put t, Inr b) \<in> set l2"
          by simp
        then show ?thesis
          using fin log l1(2) l2(2) complete [of l1 _ b rs l2] late [of _ l1 _ a l2] \<open>a = Inr x\<close> x
          by (auto simp: finish_share_def Let_def c_def split: if_splits)
      qed
    qed
  qed
qed

lemma shareIsFresh_keeps:
  assumes "shareIsFresh W now r peers s = (b, s')"
  shows "en_log s' = en_log s" and "en_policy s' = en_policy s" and "en_dirtyUsers s' = en_dirtyUsers s"
    and "lru_view (en_shareState s') = lru_view (en_shareState s)" and "lru_inv (en_shareState s) \<Longrightarrow> lru_inv (en_shareState s')"
proof -
  obtain e c where g: "lru_get r (en_shareState s) = (e, c)" by (cases "lru_get r (en_shareState s)")
  have c: "lru_view c = lru_view (en_shareState s)" "lru_inv (en_shareState s) \<Longrightarrow> lru_inv c"
    using lru_view_get [of r "en_shareState s"] lru_inv_get [of "en_shareState s" r] g by simp_all
  have "s' = s \<or> s' = s\<lparr>en_shareState := c\<rparr>"
    using assms by (auto simp: shareIsFresh_def Let_def g split: if_splits option.splits)
  then show "en_log s' = en_log s" and "en_policy s' = en_policy s" and "en_dirtyUsers s' = en_dirtyUsers s"
    and "lru_view (en_shareState s') = lru_view (en_shareState s)" and "lru_inv (en_shareState s) \<Longrightarrow> lru_inv (en_shareState s')"
    using c by auto
qed

lemma shareIsFresh_True:
  assumes "shareIsFresh W now r peers s = (True, s')"
  obtains st where "lru_view (en_shareState s) r = Some st" "sh_memberFingerprint st = fingerprintSet (ew_hash W) peers"
    "sh_messages st < sp_rotationPeriodMessages (en_policy s)" "now - sh_sharedAt st < sp_rotationPeriodMs (en_policy s)"
proof -
  obtain e c where g: "lru_get r (en_shareState s) = (e, c)" by (cases "lru_get r (en_shareState s)")
  then have "e = lru_view (en_shareState s) r" using lru_get_view [of r "en_shareState s"] by simp
  then show thesis
    using assms g that by (auto simp: shareIsFresh_def Let_def split: if_splits option.splits)
qed

lemma count_message_keeps:
  assumes "lru_inv (en_shareState s)"
  shows "en_log (count_message r s) = en_log s" and "en_policy (count_message r s) = en_policy s"
    and "en_dirtyUsers (count_message r s) = en_dirtyUsers s"
    and "lru_view (en_shareState (count_message r s)) =
      (lru_view (en_shareState s))(r := map_option (\<lambda>st. st\<lparr>sh_messages := sh_messages st + 1\<rparr>) (lru_view (en_shareState s) r))"
    and "lru_inv (en_shareState (count_message r s))"
proof -
  obtain e c where g: "lru_get r (en_shareState s) = (e, c)" by (cases "lru_get r (en_shareState s)")
  have e: "e = lru_view (en_shareState s) r" using lru_get_view [of r "en_shareState s"] g by simp
  have c: "lru_view c = lru_view (en_shareState s)" "lru_inv c"
    using lru_view_get [of r "en_shareState s"] lru_inv_get [OF assms, of r] g by simp_all
  show "en_log (count_message r s) = en_log s" "en_policy (count_message r s) = en_policy s" "en_dirtyUsers (count_message r s) = en_dirtyUsers s"
    by (simp_all add: count_message_def g split: option.split)
  have len: "length (jm_set r x (lru_map c)) = length (lru_map c)" if "lru_view c r = Some y" for x y
    using that by (auto simp: lru_view_def length_update jm_has_def map_of_eq_None_iff [symmetric])
  show "lru_view (en_shareState (count_message r s)) =
      (lru_view (en_shareState s))(r := map_option (\<lambda>st. st\<lparr>sh_messages := sh_messages st + 1\<rparr>) (lru_view (en_shareState s) r))"
    using e c(1) by (auto simp: count_message_def g lru_view_def jm_get_update fun_eq_iff split: option.split)
  show "lru_inv (en_shareState (count_message r s))"
    using e c len by (auto simp: count_message_def g lru_inv_def split: option.split)
qed

definition encrypts_shared :: "engine_world \<Rightarrow> crypto_hub \<Rightarrow> bool" where
  "encrypts_shared W h \<longleftrightarrow>
     (\<forall>m. T_encrypt m \<in> set (ch_queue h) \<longrightarrow>
        shared_alike W (ms_roomId m) (fingerprintSet (ew_hash W) (ms_peers m)) (en_log (ch_engine h)))"

lemma encrypts_shared_mono:
  assumes "encrypts_shared W h" and "en_log (ch_engine h') = en_log (ch_engine h) @ l"
    and "\<And>m. T_encrypt m \<in> set (ch_queue h') \<Longrightarrow> T_encrypt m \<in> set (ch_queue h)"
  shows "encrypts_shared W h'"
  using assms shared_alike_append unfolding encrypts_shared_def by metis

lemma entries_shared_clear:
  assumes "entries_shared W s" and "en_shareState s' = lru_clear (en_shareState s)"
  shows "entries_shared W s'"
  using assms by (auto simp: entries_shared_def lru_clear_def lru_view_def lru_inv_def)

lemma entries_shared_delete:
  assumes "entries_shared W s" and "en_log s' = en_log s @ l" and "en_shareState s' = snd (lru_delete r (en_shareState s))"
  shows "entries_shared W s'"
proof (rule entries_shared_mono [OF assms(1,2)])
  show "lru_inv (en_shareState s')"
    using assms(1,3) by (simp add: entries_shared_def)
qed (use assms(3) in \<open>auto simp: lru_view_def lru_delete_def delete_conv' split: if_splits\<close>)

lemma entries_shared_set:
  assumes "entries_shared W s" and "en_log s' = en_log s @ l" and "en_shareState s' = lru_set r st (en_shareState s)"
    and "shared_alike W r (sh_memberFingerprint st) (en_log s')"
  shows "entries_shared W s'"
proof -
  have inv: "lru_inv (en_shareState s)"
    using assms(1) by (simp add: entries_shared_def)
  show ?thesis
    unfolding entries_shared_def
  proof (intro conjI allI impI)
    show "lru_inv (en_shareState s')" using inv assms(3) by simp
  next
    fix k x
    assume "lru_view (en_shareState s') k = Some x"
    then have "lru_view (lru_set r st (en_shareState s)) k = Some x"
      using assms(3) by simp
    then consider "k = r" "x = st" | "lru_view (en_shareState s) k = Some x"
      by (rule lruc.set_cases [OF inv]) auto
    then show "shared_alike W k (sh_memberFingerprint x) (en_log s')"
      using assms(1,2,4) shared_alike_append unfolding entries_shared_def by cases metis+
  qed
qed

lemma share_locked_shared:
  assumes "share_locked W now r peers s = (res, s')" and "entries_shared W s"
  shows "entries_shared W s' \<and> (\<exists>l. en_log s' = en_log s @ l) \<and>
    (res = Inr () \<longrightarrow> shared_alike W r (fingerprintSet (ew_hash W) peers) (en_log s'))"
proof (cases rule: share_locked_cases [OF assms(1)])
  case (1 e l)
  then show ?thesis
    using assms(2) by (auto simp: entries_shared_def intro: shared_alike_append)
next
  case (2 e l1 st a l2)
  then show ?thesis
    using assms(2) entries_shared_delete [OF assms(2), of s' _ r]
    by (auto simp: entries_shared_def intro: shared_alike_append)
next
  case (3 l1 st a rs l2)
  then have "shared_to r peers (en_log s')"
    unfolding shared_to_def by (intro exI [of _ "en_log s @ l1"] exI [of _ st] exI [of _ a] exI [of _ rs] exI [of _ l2]) simp
  then have "shared_alike W r (fingerprintSet (ew_hash W) peers) (en_log s')"
    unfolding shared_alike_def by blast
  then show ?thesis
    using 3 entries_shared_set [OF assms(2), of s'] by auto
qed

lemma task_shared:
  assumes "task_prog W now t s = (res, s')" and "entries_shared W s"
  shows "entries_shared W s' \<and> (\<exists>l. en_log s' = en_log s @ l) \<and>
    (\<forall>m. T_encrypt m \<in> set (follow_up t res) \<longrightarrow> shared_alike W (ms_roomId m) (fingerprintSet (ew_hash W) (ms_peers m)) (en_log s'))"
proof -
  have easy: ?thesis if "steady N p" "p s = (x, s')" "follow_up t res = []" for N x and p :: "'x prog"
    using that entries_shared_steady [OF that(1,2) assms(2)] by (auto elim: steadyD)
  show ?thesis
  proof (cases t)
    case (T_share m)
    then obtain u where "share_locked W now (ms_roomId m) (ms_peers m) s = (u, s')" and "res = (case u of Inl e \<Rightarrow> Inl e | Inr _ \<Rightarrow> Inr JNull)"
      using assms(1) by (auto simp: unit_result_def bind_def ret_def split: prod.splits sum.splits)
    with share_locked_shared [OF this(1) assms(2)] T_share show ?thesis
      by (cases u) auto
  next
    case (T_encrypt m)
    then show ?thesis
      using assms(1) by (intro easy [of UNIV "encrypt_locked W (ms_roomId m) (ms_eventType m) (ms_content m)" res])
        (auto simp: encrypt_locked_def intro!: steady_intros steady_mono [OF steady_outgoing])
  next
    case (T_sync ev ch le)
    obtain raw s1 where p: "bind (ask W (Mc_receiveSyncChanges ev ch le)) (\<lambda>(raw, _). bind (runOutgoingRequests W) (\<lambda>_. ret raw)) s = (raw, s1)"
      by (cases "bind (ask W (Mc_receiveSyncChanges ev ch le)) (\<lambda>(raw, _). bind (runOutgoingRequests W) (\<lambda>_. ret raw)) s")
    have st: "steady UNIV (bind (ask W (Mc_receiveSyncChanges ev ch le)) (\<lambda>(raw, _). bind (runOutgoingRequests W) (\<lambda>_. ret raw)))"
      by (auto intro!: steady_intros steady_mono [OF steady_outgoing])
    have s': "s' = (case raw of Inl _ \<Rightarrow> s1 | Inr _ \<Rightarrow> note_devices ch le s1)"
      using assms(1) p T_sync by (auto simp: sync_locked_def bind_def ret_def modify_def split: prod.splits sum.splits)
    have "entries_shared W s1" using entries_shared_steady [OF st p assms(2)] .
    then have "entries_shared W s'"
      using s' entries_shared_clear [of W s1 s'] by (auto simp: note_devices_def entries_shared_def split: sum.splits if_splits)
    then show ?thesis
      using T_sync s' by (auto simp: note_devices_def split: sum.splits intro: steadyD [OF st p])
  next
    case (T_track us)
    then show ?thesis
      using assms(1) by (intro easy [of neutral "unit_result (track_locked W us)" res]) (auto simp: unit_result_def intro!: steady_intros)
  next
    case (T_prepare ms)
    then show ?thesis
      using assms(1) by (intro easy [of neutral "unit_result (prepare_locked W ms)" res]) (auto simp: unit_result_def intro!: steady_intros)
  next
    case T_close
    then show ?thesis
      using assms entries_shared_clear [OF assms(2), of s'] by (auto simp: close_locked_def ask_def Let_def)
  qed
qed

lemma enqueue_simps [simp]: "ch_engine (enqueue_task t h) = ch_engine h" "ch_queue (enqueue_task t h) = ch_queue h @ [t]"
  by (simp_all add: enqueue_task_def)

lemma encryptMessage_shared:
  assumes "entries_shared W (ch_engine h)" and "encrypts_shared W h"
  shows "entries_shared W (ch_engine (encryptMessage W now r ty v us h)) \<and> encrypts_shared W (encryptMessage W now r ty v us h)"
proof -
  let ?peers = "filterShareRecipients (en_userId (ch_engine h)) us"
  obtain b s where f: "shareIsFresh W now r ?peers (ch_engine h) = (b, s)"
    by (cases "shareIsFresh W now r ?peers (ch_engine h)")
  note k = shareIsFresh_keeps [OF f]
  have s: "entries_shared W s"
    using assms(1) k by (simp add: entries_shared_def)
  show ?thesis
  proof (cases b)
    case True
    then obtain st where "lru_view (en_shareState (ch_engine h)) r = Some st" "sh_memberFingerprint st = fingerprintSet (ew_hash W) ?peers"
      using shareIsFresh_True f by metis
    then have "shared_alike W r (fingerprintSet (ew_hash W) ?peers) (en_log (ch_engine h))"
      using assms(1) unfolding entries_shared_def by metis
    moreover have "entries_shared W (count_message r s)"
      using s count_message_keeps [of s r] by (auto simp: entries_shared_def split: if_splits)
    moreover have "en_log (count_message r s) = en_log (ch_engine h)"
      using s k(1) count_message_keeps(1) [of s r] by (simp add: entries_shared_def)
    ultimately show ?thesis
      using True f assms(2) by (auto simp: encryptMessage_def encrypts_shared_def Let_def)
  next
    case False
    then show ?thesis
      using f s k(1) assms(2) by (auto simp: encryptMessage_def encrypts_shared_def Let_def)
  qed
qed

lemma crypto_turn_shared:
  assumes "entries_shared W (ch_engine h)" and "encrypts_shared W h" and "crypto_turn W now h = Some h'"
  shows "entries_shared W (ch_engine h') \<and> encrypts_shared W h'"
proof -
  obtain t ts r s where q: "ch_queue h = t # ts" "task_prog W now t (ch_engine h) = (r, s)"
    and h': "h' = \<lparr>ch_engine = s, ch_queue = ts @ follow_up t r, ch_out = ch_out h @ [(t, r)]\<rparr>"
    using assms(3) by (auto simp: crypto_turn_def split: list.splits prod.splits)
  from task_shared [OF q(2) assms(1)] obtain l where l: "entries_shared W s" "en_log s = en_log (ch_engine h) @ l"
    "\<And>m. T_encrypt m \<in> set (follow_up t r) \<Longrightarrow> shared_alike W (ms_roomId m) (fingerprintSet (ew_hash W) (ms_peers m)) (en_log s)"
    by blast
  have "shared_alike W (ms_roomId m) (fingerprintSet (ew_hash W) (ms_peers m)) (en_log s)" if "T_encrypt m \<in> set ts" for m
    using assms(2) that q(1) l(2) shared_alike_append unfolding encrypts_shared_def by (metis list.set_intros(2))
  then show ?thesis
    using l h' by (auto simp: encrypts_shared_def)
qed

lemma invalidate_shared:
  assumes "entries_shared W (ch_engine h)"
  shows "entries_shared W (ch_engine (invalidateRoomShare r h))"
  using entries_shared_delete [OF assms, of _ "[]" r] by (simp add: invalidateRoomShare_def)

lemma crypto_reach_shared: "crypto_reach W allowed h \<Longrightarrow> entries_shared W (ch_engine h) \<and> encrypts_shared W h"
proof (induction rule: crypto_reach.induct)
  case (new userId policy budget)
  show ?case
    by (simp add: crypto_hub_new_def engine_new_def entries_shared_def encrypts_shared_def lru_inv_def lru_view_def)
next
  case (step h e h')
  have keep: "encrypts_shared W k" if "ch_queue k = ch_queue h \<or> (\<exists>t. ch_queue k = ch_queue h @ [t] \<and> (\<forall>m. t \<noteq> T_encrypt m))"
    and "en_log (ch_engine k) = en_log (ch_engine h)" for k
    using step.IH that by (auto simp: encrypts_shared_def)
  have same: "entries_shared W s" if "en_log s = en_log (ch_engine h)" "en_shareState s = en_shareState (ch_engine h)" for s
    using step.IH that by (simp add: entries_shared_def)
  show ?case
  proof (cases e)
    case (Ce_encrypt now r ty v us)
    then show ?thesis
      using step.hyps(3) step.IH encryptMessage_shared [of W h] by auto
  next
    case (Ce_turn now)
    then show ?thesis
      using step.hyps(3) step.IH crypto_turn_shared [of W h] by auto
  next
    case (Ce_invalidate r)
    then have "h' = invalidateRoomShare r h" using step.hyps(3) by simp
    then show ?thesis
      using step.IH invalidate_shared [of W h r] keep [of h'] by (simp add: invalidateRoomShare_def)
  qed (use step.hyps(3) step.IH keep [of h'] same [of "ch_engine h'"] in
      \<open>auto simp: receiveSync_def updateTrackedUsers_def crypto_close_def Let_def split: if_splits\<close>)
qed

text \<open>
  However the operations of the engine interleave and whatever the machine and the homeserver
  answer: when a message is encrypted, the machine was asked before to share the key of the
  room with a set of users, and the homeserver took every request of that share; the users are
  those the message is for, unless the digests of the two sets collide (the engine compares
  digests of member sets).
\<close>

theorem message_after_share:
  assumes "crypto_reach W allowed h" and "ch_queue h = T_encrypt m # ts"
  shows "\<exists>us. shared_to (ms_roomId m) us (en_log (ch_engine h)) \<and>
    (set us = set (ms_peers m) \<or>
     fingerprint_bytes us \<noteq> fingerprint_bytes (ms_peers m) \<and>
     ew_hash W (fingerprint_bytes us) = ew_hash W (fingerprint_bytes (ms_peers m)))"
proof -
  from crypto_reach_shared [OF assms(1)] assms(2)
  obtain us where "shared_to (ms_roomId m) us (en_log (ch_engine h))" "fingerprintSet (ew_hash W) us = fingerprintSet (ew_hash W) (ms_peers m)"
    by (auto simp: encrypts_shared_def shared_alike_def)
  then show ?thesis
    using fingerprint_bytes_eq unfolding fingerprintSet_def by blast
qed

section \<open>How often a key is used\<close>

text \<open>The messages of a room since its last share; \<open>None\<close> when devices changed after it.\<close>

fun use_step :: "string \<Rightarrow> engine_call \<times> engine_answer \<Rightarrow> nat option \<Rightarrow> nat option" where
  "use_step roomId (Mc_shareRoomKey r us st, a) n = (if r = roomId then Some 0 else n)"
| "use_step roomId (Mc_encryptRoomEvent r ty v, a) n = (if r = roomId then map_option Suc n else n)"
| "use_step roomId (Mc_receiveSyncChanges ev ch le, a) n = (if ch = [] \<and> le = [] then n else None)"
| "use_step roomId _ n = n"

definition key_uses :: "string \<Rightarrow> engine_log \<Rightarrow> nat option" where
  "key_uses roomId log = fold (use_step roomId) log None"

lemma use_step_neutral: "fst x \<in> neutral \<Longrightarrow> use_step r x n = n"
  by (cases x; cases "fst x") (auto simp: neutral_def)

lemma key_uses_neutral: "fst ` set l \<subseteq> neutral \<Longrightarrow> fold (use_step r) l n = n"
  by (induction l arbitrary: n) (auto simp: use_step_neutral)

lemma key_uses_append [simp]: "key_uses r (log @ l) = fold (use_step r) l (key_uses r log)"
  by (simp add: key_uses_def)

text \<open>
  The policy under which the bounds hold: an operation starts when no other waits for the lock,
  and the homeserver answers what a sync asks of it.
\<close>

definition one_by_one :: "engine_world \<Rightarrow> crypto_event \<Rightarrow> crypto_hub \<Rightarrow> bool" where
  "one_by_one W e h \<longleftrightarrow>
     (case e of
        Ce_turn now \<Rightarrow> (case ch_queue h of T_sync ev ch le # _ \<Rightarrow> (\<exists>x. fst (sync_locked W ev ch le (ch_engine h)) = Inr x) | _ \<Rightarrow> True)
      | _ \<Rightarrow> ch_queue h = [])"

definition period :: "engine \<Rightarrow> int" where
  "period s = max 1 (sp_rotationPeriodMessages (en_policy s))"

text \<open>\<open>d\<close> counts the message that waits for its encryption.\<close>

definition entry_ok :: "engine \<Rightarrow> int \<Rightarrow> string \<Rightarrow> share_state \<Rightarrow> bool" where
  "entry_ok s d r st \<longleftrightarrow>
     (\<exists>n. key_uses r (en_log s) = Some n \<and> int n + d \<le> sh_messages st) \<and> 1 \<le> sh_messages st \<and> sh_messages st \<le> period s"

definition waits :: "crypto_hub \<Rightarrow> string \<Rightarrow> int" where
  "waits h r = (case ch_queue h of [T_encrypt m] \<Rightarrow> if ms_roomId m = r then 1 else 0 | _ \<Rightarrow> 0)"

lemmas waits_fun = waits_def [abs_def]

definition entries_ok :: "engine \<Rightarrow> (string \<Rightarrow> int) \<Rightarrow> bool" where
  "entries_ok s d \<longleftrightarrow>
     lru_inv (en_shareState s) \<and> (\<forall>r st. lru_view (en_shareState s) r = Some st \<longrightarrow> entry_ok s (d r) r st)"

definition uses_ok :: "crypto_hub \<Rightarrow> bool" where
  "uses_ok h \<longleftrightarrow>
     entries_ok (ch_engine h) (waits h) \<and> length (ch_queue h) \<le> 1 \<and>
     (\<forall>m. ch_queue h = [T_encrypt m] \<longrightarrow>
        (\<exists>n. key_uses (ms_roomId m) (en_log (ch_engine h)) = Some n \<and> int n < period (ch_engine h)))"

lemma entry_ok_frame:
  assumes "entry_ok s d r st" and "en_log s' = en_log s @ l" and "fst ` set l \<subseteq> neutral" and "en_policy s' = en_policy s"
  shows "entry_ok s' d r st"
  using assms by (simp add: entry_ok_def period_def key_uses_neutral)

lemma entries_ok_frame:
  assumes "entries_ok s d" and "en_log s' = en_log s @ l" and "fst ` set l \<subseteq> neutral" and "en_policy s' = en_policy s"
    and "en_shareState s' = en_shareState s"
  shows "entries_ok s' d"
  using assms entry_ok_frame [OF _ assms(2-4)] by (simp add: entries_ok_def)

lemma entries_ok_steady: "steady neutral p \<Longrightarrow> p s = (x, s') \<Longrightarrow> entries_ok s d \<Longrightarrow> entries_ok s' d"
  by (erule steadyD, assumption) (rule entries_ok_frame)

lemma entries_ok_clear: "entries_ok s d \<Longrightarrow> en_shareState s' = lru_clear (en_shareState s) \<Longrightarrow> entries_ok s' d'"
  by (auto simp: entries_ok_def lru_clear_def lru_view_def lru_inv_def)

lemma entries_ok_delete:
  assumes "entries_ok s d" and "\<And>k st. k \<noteq> r \<Longrightarrow> entry_ok s (d k) k st \<Longrightarrow> entry_ok s' (d k) k st"
    and "en_shareState s' = snd (lru_delete r (en_shareState s))"
  shows "entries_ok s' d"
  using assms by (auto simp: entries_ok_def lruc.del_view split: if_splits)

lemma share_step_other: "k \<noteq> r \<Longrightarrow> fst ` set l1 \<subseteq> neutral \<Longrightarrow> fst ` set l2 \<subseteq> neutral \<Longrightarrow>
    fold (use_step k) (l1 @ (Mc_shareRoomKey r us st, a) # l2) n = n"
  by (simp add: key_uses_neutral)

lemma share_step_same: "fst ` set l1 \<subseteq> neutral \<Longrightarrow> fst ` set l2 \<subseteq> neutral \<Longrightarrow>
    fold (use_step r) (l1 @ (Mc_shareRoomKey r us st, a) # l2) n = Some 0"
  by (simp add: key_uses_neutral)

lemma share_locked_uses:
  assumes "share_locked W now r peers s = (res, s')" and "entries_ok s (\<lambda>_. 0)"
  shows "case res of Inl _ \<Rightarrow> entries_ok s' (\<lambda>_. 0)
    | Inr _ \<Rightarrow> entries_ok s' (\<lambda>k. if k = r then 1 else 0) \<and> key_uses r (en_log s') = Some 0"
proof (cases rule: share_locked_cases [OF assms(1)])
  case (1 e l)
  then show ?thesis
    using entries_ok_frame [OF assms(2) 1(2,3)] by simp
next
  case (2 e l1 st a l2)
  have other: "entry_ok s' 0 k x" if "k \<noteq> r" "entry_ok s 0 k x" for k x
    using that 2 by (simp add: entry_ok_def period_def key_uses_neutral)
  have same: "entry_ok s' 0 r x" if "entry_ok s 0 r x" for x
    using that 2 by (simp add: entry_ok_def period_def key_uses_neutral)
  show ?thesis
    using 2(1,5)
  proof (elim disjE)
    assume "en_shareState s' = en_shareState s"
    then show ?thesis
      using 2(1) assms(2) other same by (simp add: entries_ok_def) metis
  next
    assume "en_shareState s' = snd (lru_delete r (en_shareState s)) \<and> (\<exists>n b1 b2 b3. e = RoomKeyWithheldError r n b1 b2 b3)"
    then show ?thesis
      using 2(1) entries_ok_delete [OF assms(2), of r s'] other by simp
  qed
next
  case (3 l1 st a rs l2)
  have inv: "lru_inv (en_shareState s)"
    using assms(2) by (simp add: entries_ok_def)
  have uses: "key_uses r (en_log s') = Some 0"
    using 3 by (simp add: key_uses_neutral)
  have "entry_ok s' (if k = r then 1 else 0) k x" if "lru_view (en_shareState s') k = Some x" for k x
  proof -
    from that 3(6) have "lru_view (lru_set r \<lparr>sh_memberFingerprint = fingerprintSet (ew_hash W) peers, sh_sharedAt = now, sh_messages = 1\<rparr>
        (en_shareState s)) k = Some x" by simp
    then consider "k = r" "x = \<lparr>sh_memberFingerprint = fingerprintSet (ew_hash W) peers, sh_sharedAt = now, sh_messages = 1\<rparr>"
      | "k \<noteq> r" "lru_view (en_shareState s) k = Some x"
      by (rule lruc.set_cases [OF inv]) auto
    then show ?thesis
    proof cases
      case 1
      then show ?thesis using uses by (simp add: entry_ok_def period_def)
    next
      case 2
      then have "entry_ok s 0 k x" using assms(2) by (simp add: entries_ok_def)
      then show ?thesis
        using 2(1) 3 by (simp add: entry_ok_def period_def key_uses_neutral)
    qed
  qed
  then show ?thesis
    using 3 inv uses by (simp add: entries_ok_def)
qed

lemma encrypt_locked_uses:
  assumes "encrypt_locked W r ty v s = (res, s')" and "entries_ok s (\<lambda>k. if k = r then 1 else 0)"
  shows "entries_ok s' (\<lambda>_. 0)"
proof -
  obtain a s1 where p: "ask W (Mc_encryptRoomEvent r ty v) s = (a, s1)"
    by (cases "ask W (Mc_encryptRoomEvent r ty v) s")
  then have s1: "en_log s1 = en_log s @ [(Mc_encryptRoomEvent r ty v, a)]" "en_shareState s1 = en_shareState s" "en_policy s1 = en_policy s"
    by (auto simp: ask_def Let_def)
  have "entry_ok s1 0 k x" if "entry_ok s (if k = r then 1 else 0) k x" for k x
    using that s1 by (auto simp: entry_ok_def period_def split: if_splits)
  then have "entries_ok s1 (\<lambda>_. 0)"
    using assms(2) s1 by (simp add: entries_ok_def)
  moreover have "s' = s1 \<or> (\<exists>raw. bind (runOutgoingRequests W) (\<lambda>_. ret raw) s1 = (res, s'))"
    using assms(1) p by (cases a) (auto simp: encrypt_locked_def bind_def)
  ultimately show ?thesis
  proof (elim disjE exE)
    assume "entries_ok s1 (\<lambda>_. 0)" and "s' = s1"
    then show ?thesis by simp
  next
    fix raw
    assume ok: "entries_ok s1 (\<lambda>_. 0)" and run: "bind (runOutgoingRequests W) (\<lambda>_. ret raw) s1 = (res, s')"
    have "steady neutral (bind (runOutgoingRequests W) (\<lambda>_. ret raw))"
      by (intro steady_intros)
    from entries_ok_steady [OF this run ok] show ?thesis .
  qed
qed

lemma sync_locked_uses:
  assumes "sync_locked W ev ch le s = (Inr x, s')" and "entries_ok s d"
  shows "entries_ok s' d"
proof -
  define s1 where "s1 = snd (ask W (Mc_receiveSyncChanges ev ch le) s)"
  have s1: "en_log s1 = en_log s @ [(Mc_receiveSyncChanges ev ch le, ew_answer W (en_log s) (Mc_receiveSyncChanges ev ch le))]"
    "en_shareState s1 = en_shareState s" "en_policy s1 = en_policy s"
    by (simp_all add: s1_def ask_def Let_def)
  obtain k s2 where s2: "runOutgoingRequests W s1 = (Inr k, s2)" "s' = note_devices ch le s2"
    using assms(1) by (auto simp: sync_locked_def s1_def bind_def modify_def ret_def ask_def Let_def split: prod.splits sum.splits)
  show ?thesis
  proof (cases "ch = [] \<and> le = []")
    case True
    then have "entries_ok s1 d"
      using assms(2) s1 by (simp add: entries_ok_def entry_ok_def period_def)
    then have "entries_ok s2 d"
      using entries_ok_steady [OF steady_outgoing s2(1)] by simp
    then show ?thesis
      using True s2(2) by (simp add: note_devices_def entries_ok_def entry_ok_def period_def)
  next
    case False
    have "lru_inv (en_shareState s2)"
      using steadyD [OF steady_outgoing s2(1)] s1(2) assms(2) by (metis entries_ok_def)
    then show ?thesis
      using False s2(2) by (auto simp: note_devices_def entries_ok_def lru_clear_def lru_view_def lru_inv_def)
  qed
qed

lemma task_uses:
  assumes "task_prog W now t s = (res, s')" and "entries_ok s (waits \<lparr>ch_engine = s, ch_queue = [t], ch_out = out\<rparr>)"
    and "\<And>ev ch le. t = T_sync ev ch le \<Longrightarrow> \<exists>x. res = Inr x"
  shows "uses_ok \<lparr>ch_engine = s', ch_queue = follow_up t res, ch_out = out'\<rparr>"
proof (cases t)
  case (T_share m)
  then obtain u where u: "share_locked W now (ms_roomId m) (ms_peers m) s = (u, s')" "res = (case u of Inl e \<Rightarrow> Inl e | Inr _ \<Rightarrow> Inr JNull)"
    using assms(1) by (auto simp: unit_result_def bind_def ret_def split: prod.splits sum.splits)
  have ok: "entries_ok s (\<lambda>_. 0)"
    using assms(2) T_share by (simp add: waits_fun)
  show ?thesis
  proof (cases u)
    case (Inl e)
    then show ?thesis
      using share_locked_uses [OF u(1) ok] T_share u(2) by (simp add: uses_ok_def waits_fun)
  next
    case (Inr x)
    then have "entries_ok s' (\<lambda>k. if k = ms_roomId m then 1 else 0)" "key_uses (ms_roomId m) (en_log s') = Some 0"
      using share_locked_uses [OF u(1) ok] by simp_all
    moreover have "waits \<lparr>ch_engine = s', ch_queue = [T_encrypt m], ch_out = out'\<rparr> = (\<lambda>k. if k = ms_roomId m then 1 else 0)"
      by (auto simp: waits_fun fun_eq_iff)
    ultimately show ?thesis
      using Inr T_share u(2) by (simp add: uses_ok_def period_def)
  qed
next
  case (T_encrypt m)
  then have "entries_ok s (\<lambda>k. if k = ms_roomId m then 1 else 0)"
    using assms(2) by (simp add: waits_fun eq_commute [of _ "ms_roomId m"])
  then show ?thesis
    using encrypt_locked_uses assms(1) T_encrypt by (simp add: uses_ok_def waits_fun)
next
  case (T_sync ev ch le)
  then show ?thesis
    using sync_locked_uses assms by (auto simp: uses_ok_def waits_fun)
next
  case (T_track us)
  then show ?thesis
    using entries_ok_steady [of "unit_result (track_locked W us)" s res s' "\<lambda>_. 0"] assms
    by (auto simp: uses_ok_def waits_fun unit_result_def intro!: steady_intros)
next
  case (T_prepare ms)
  then show ?thesis
    using entries_ok_steady [of "unit_result (prepare_locked W ms)" s res s' "\<lambda>_. 0"] assms
    by (auto simp: uses_ok_def waits_fun unit_result_def intro!: steady_intros)
next
  case T_close
  then show ?thesis
    using assms entries_ok_clear [of s "\<lambda>_. 0" s' "\<lambda>_. 0"] by (auto simp: uses_ok_def waits_fun close_locked_def ask_def Let_def)
qed

lemma encryptMessage_uses:
  assumes "uses_ok h" and "ch_queue h = []"
  shows "uses_ok (encryptMessage W now r ty v us h)"
proof -
  let ?peers = "filterShareRecipients (en_userId (ch_engine h)) us"
  obtain b s where f: "shareIsFresh W now r ?peers (ch_engine h) = (b, s)"
    by (cases "shareIsFresh W now r ?peers (ch_engine h)")
  note k = shareIsFresh_keeps [OF f]
  have ok: "entries_ok (ch_engine h) (\<lambda>_. 0)"
    using assms by (simp add: uses_ok_def waits_fun)
  then have s: "entries_ok s (\<lambda>_. 0)"
    using k by (simp add: entries_ok_def entry_ok_def period_def)
  show ?thesis
  proof (cases b)
    case False
    then show ?thesis
      using f s assms(2) by (simp add: encryptMessage_def Let_def uses_ok_def waits_fun)
  next
    case True
    then obtain st where st: "lru_view (en_shareState (ch_engine h)) r = Some st" "sh_messages st < sp_rotationPeriodMessages (en_policy s)"
      using shareIsFresh_True f k(2) by metis
    let ?s = "count_message r s"
    have inv: "lru_inv (en_shareState s)" using s by (simp add: entries_ok_def)
    note c = count_message_keeps [OF inv, of r]
    have "entry_ok ?s (if k = r then 1 else 0) k x" if "lru_view (en_shareState ?s) k = Some x" for k x
    proof (cases "k = r")
      case True
      then have "x = st\<lparr>sh_messages := sh_messages st + 1\<rparr>"
        using that c(4) st(1) k(4) by simp
      moreover have "entry_ok s 0 r st"
        using s st(1) k(4) by (simp add: entries_ok_def)
      ultimately show ?thesis
        using True st(2) c(1,2) by (auto simp: entry_ok_def period_def)
    next
      case False
      then have "entry_ok s 0 k x"
        using that c(4) s by (simp add: entries_ok_def)
      then show ?thesis
        using False c(1,2) by (simp add: entry_ok_def period_def)
    qed
    then have "entries_ok ?s (\<lambda>k. if k = r then 1 else 0)"
      using c(5) by (simp add: entries_ok_def)
    moreover have "\<exists>n. key_uses r (en_log ?s) = Some n \<and> int n < period ?s"
    proof -
      have "entry_ok s 0 r st" using s st(1) k(4) by (simp add: entries_ok_def)
      then show ?thesis using st(2) c(1,2) by (auto simp: entry_ok_def period_def)
    qed
    moreover have "waits h' = (\<lambda>k. if k = r then 1 else 0)" if "ch_queue h' = [T_encrypt m]" "ms_roomId m = r" for h' m
      using that by (auto simp: waits_fun fun_eq_iff)
    ultimately show ?thesis
      using True f assms(2) by (auto simp: encryptMessage_def Let_def uses_ok_def)
  qed
qed

lemma uses_reach: "crypto_reach W (one_by_one W) h \<Longrightarrow> uses_ok h"
proof (induction rule: crypto_reach.induct)
  case (new userId policy budget)
  show ?case
    by (simp add: crypto_hub_new_def engine_new_def uses_ok_def entries_ok_def lru_inv_def lru_view_def)
next
  case (step h e h')
  show ?case
  proof (cases e)
    case (Ce_encrypt now r ty v us)
    then show ?thesis
      using step encryptMessage_uses [of h] by (auto simp: one_by_one_def)
  next
    case (Ce_turn now)
    then obtain t ts r s where q: "ch_queue h = t # ts" "task_prog W now t (ch_engine h) = (r, s)"
      "h' = \<lparr>ch_engine = s, ch_queue = ts @ follow_up t r, ch_out = ch_out h @ [(t, r)]\<rparr>"
      using step.hyps(3) by (auto simp: crypto_turn_def split: list.splits prod.splits)
    then have ts: "ts = []" and ok: "entries_ok (ch_engine h) (waits h)"
      using step.IH by (auto simp: uses_ok_def)
    have "waits h = waits \<lparr>ch_engine = ch_engine h, ch_queue = [t], ch_out = []\<rparr>"
      using q(1) ts by (simp add: waits_fun fun_eq_iff)
    moreover have "\<exists>x. r = Inr x" if "t = T_sync ev ch le" for ev ch le
      using step.hyps(2) Ce_turn q that by (auto simp: one_by_one_def)
    ultimately have "uses_ok \<lparr>ch_engine = s, ch_queue = follow_up t r, ch_out = ch_out h @ [(t, r)]\<rparr>"
      using task_uses [OF q(2)] ok by metis
    then show ?thesis
      using q(3) ts by simp
  next
    case (Ce_invalidate r)
    then have "entries_ok (ch_engine h') (\<lambda>_. 0)"
      using step entries_ok_delete [of "ch_engine h" "\<lambda>_. 0" r "ch_engine h'"]
      by (auto simp: uses_ok_def invalidateRoomShare_def one_by_one_def waits_fun entry_ok_def period_def)
    then show ?thesis
      using step Ce_invalidate by (auto simp: uses_ok_def invalidateRoomShare_def one_by_one_def waits_fun)
  qed (use step in \<open>auto simp: one_by_one_def receiveSync_def updateTrackedUsers_def crypto_close_def uses_ok_def waits_fun entries_ok_def
        entry_ok_def period_def Let_def split: if_splits\<close>)
qed

text \<open>
  When the operations of the engine do not overlap, a message is encrypted only with a key that
  was shared after the last change of devices, and at most as many messages use one share as
  the policy says.
\<close>

theorem key_use_bounded:
  assumes "crypto_reach W (one_by_one W) h" and "ch_queue h = [T_encrypt m]"
  shows "\<exists>n. key_uses (ms_roomId m) (en_log (ch_engine h)) = Some n \<and>
    int n < max 1 (sp_rotationPeriodMessages (en_policy (ch_engine h)))"
  using uses_reach [OF assms(1)] assms(2) by (simp add: uses_ok_def period_def)

text \<open>Runs of events.\<close>

fun crypto_run :: "engine_world \<Rightarrow> crypto_event list \<Rightarrow> crypto_hub \<Rightarrow> crypto_hub option" where
  "crypto_run W [] h = Some h"
| "crypto_run W (e # es) h = (case crypto_step W e h of None \<Rightarrow> None | Some h1 \<Rightarrow> crypto_run W es h1)"

lemma turn_share:
  assumes "crypto_turn W now h = Some h'" and "ch_queue h = T_share m # ts"
    and "\<not> isl (snd (last (ch_out h')))"
  shows "ch_queue h' = ts @ [T_encrypt m] \<and> key_uses (ms_roomId m) (en_log (ch_engine h')) = Some 0 \<and>
    ch_out h' = ch_out h @ [last (ch_out h')]"
proof -
  obtain r s where q: "task_prog W now (T_share m) (ch_engine h) = (r, s)"
    and h': "h' = \<lparr>ch_engine = s, ch_queue = ts @ follow_up (T_share m) r, ch_out = ch_out h @ [(T_share m, r)]\<rparr>"
    using assms(1,2) by (auto simp: crypto_turn_def split: prod.splits)
  obtain u where u: "share_locked W now (ms_roomId m) (ms_peers m) (ch_engine h) = (Inr u, s)" "r = Inr JNull"
    using q assms(3) h' by (auto simp: unit_result_def bind_def ret_def split: prod.splits sum.splits)
  have "key_uses (ms_roomId m) (en_log s) = Some 0"
    by (cases rule: share_locked_cases [OF u(1)]) (simp_all add: key_uses_neutral)
  with u h' show ?thesis by simp
qed

lemma turn_encrypt:
  assumes "crypto_turn W now h = Some h'" and "ch_queue h = T_encrypt m # ts"
    and "key_uses (ms_roomId m) (en_log (ch_engine h)) = Some n"
  shows "ch_queue h' = ts \<and> key_uses (ms_roomId m) (en_log (ch_engine h')) = Some (Suc n)"
proof -
  let ?c = "Mc_encryptRoomEvent (ms_roomId m) (ms_eventType m) (ms_content m)"
  obtain r s where q: "encrypt_locked W (ms_roomId m) (ms_eventType m) (ms_content m) (ch_engine h) = (r, s)"
    and h': "ch_engine h' = s" "ch_queue h' = ts"
    using assms(1,2) by (auto simp: crypto_turn_def split: prod.splits)
  obtain a s1 where p: "ask W ?c (ch_engine h) = (a, s1)" by (cases "ask W ?c (ch_engine h)")
  then have s1: "en_log s1 = en_log (ch_engine h) @ [(?c, a)]" by (auto simp: ask_def Let_def)
  have "s = s1 \<or> (\<exists>raw. bind (runOutgoingRequests W) (\<lambda>_. ret raw) s1 = (r, s))"
    using q p by (cases a) (auto simp: encrypt_locked_def bind_def)
  then have "\<exists>l. en_log s = en_log s1 @ l \<and> fst ` set l \<subseteq> neutral"
  proof (elim disjE exE)
    fix raw
    assume run: "bind (runOutgoingRequests W) (\<lambda>_. ret raw) s1 = (r, s)"
    have "steady neutral (bind (runOutgoingRequests W) (\<lambda>_. ret raw))"
      by (intro steady_intros)
    from steadyD [OF this run] show ?thesis by metis
  qed (auto intro: exI [of _ "[]"])
  then show ?thesis
    using assms(3) s1 h' by (auto simp: key_uses_neutral)
qed

text \<open>
  Sends that overlap defeat the rotation of every message: both share first, and then both are
  encrypted with the key of the last share, so the second message meets a key that has been
  used already.
\<close>

theorem concurrent_sends_use_one_key:
  assumes "ch_queue h = []" and "en_policy (ch_engine h) = p"
    and "shouldRotateEveryMessage p (int (length (filterShareRecipients (en_userId (ch_engine h)) us)))"
    and "crypto_run W [Ce_encrypt t1 r ty v us, Ce_encrypt t2 r ty' v' us, Ce_turn t3, Ce_turn t4, Ce_turn t5] h = Some h'"
    and "list_all (\<lambda>(t, res). \<not> isl res) (drop (length (ch_out h)) (ch_out h'))"
  shows "\<exists>m. ch_queue h' = [T_encrypt m] \<and> ms_roomId m = r \<and> ms_content m = v' \<and>
    key_uses r (en_log (ch_engine h')) = Some 1"
proof -
  let ?peers = "filterShareRecipients (en_userId (ch_engine h)) us"
  define m1 where "m1 = \<lparr>ms_roomId = r, ms_eventType = ty, ms_content = v, ms_peers = ?peers\<rparr>"
  define m2 where "m2 = \<lparr>ms_roomId = r, ms_eventType = ty', ms_content = v', ms_peers = ?peers\<rparr>"
  define h2 where "h2 = h\<lparr>ch_queue := [T_share m1, T_share m2]\<rparr>"
  have "encryptMessage W t2 r ty' v' us (encryptMessage W t1 r ty v us h) = h2"
    using assms(1-3) by (simp add: encryptMessage_def shareIsFresh_def Let_def enqueue_task_def m1_def m2_def h2_def)
  then obtain h3 h4 where h3: "crypto_turn W t3 h2 = Some h3" and h4: "crypto_turn W t4 h3 = Some h4"
    and h5: "crypto_turn W t5 h4 = Some h'"
    using assms(4) by (auto split: option.splits)
  have grow: "\<exists>x. ch_out b = ch_out a @ [x]" if "crypto_turn W t a = Some b" for t a b
    using that by (auto simp: crypto_turn_def split: list.splits prod.splits)
  obtain x3 x4 x5 where out: "ch_out h3 = ch_out h @ [x3]" "ch_out h4 = ch_out h3 @ [x4]" "ch_out h' = ch_out h4 @ [x5]"
    using grow [OF h3] grow [OF h4] grow [OF h5] by (auto simp: h2_def)
  then have ok: "\<not> isl (snd x3)" "\<not> isl (snd x4)"
    using assms(5) by (auto simp: case_prod_beta)
  have s3: "ch_queue h3 = [T_share m2, T_encrypt m1]"
    using turn_share [OF h3, of m1 "[T_share m2]"] ok(1) out(1) by (simp add: h2_def)
  have s4: "ch_queue h4 = [T_encrypt m1, T_encrypt m2]" "key_uses r (en_log (ch_engine h4)) = Some 0"
    using turn_share [OF h4 s3] ok(2) out(2) by (simp_all add: m2_def)
  have "ch_queue h' = [T_encrypt m2] \<and> key_uses r (en_log (ch_engine h')) = Some 1"
    using turn_encrypt [OF h5 s4(1), of 0] s4(2) by (simp add: m1_def)
  then show ?thesis by (intro exI [of _ m2]) (simp add: m2_def)
qed

text \<open>
  A message looks at the cached share before it asks for the lock: when a sync that brings a
  change of devices holds the lock, or waits for it, the message goes out with the share made
  before the change, although the sync drops every cached share.
\<close>

theorem stale_share_used:
  assumes "ch_queue h = [T_sync ev ch le]" and "ch \<noteq> []"
    and "fst (shareIsFresh W t1 r (filterShareRecipients (en_userId (ch_engine h)) us) (ch_engine h))"
    and "lru_inv (en_shareState (ch_engine h))"
    and "crypto_run W [Ce_encrypt t1 r ty v us, Ce_turn t2] h = Some h'"
  shows "\<exists>m. ch_queue h' = [T_encrypt m] \<and> ms_roomId m = r \<and> ms_content m = v \<and> key_uses r (en_log (ch_engine h')) = None"
proof -
  let ?peers = "filterShareRecipients (en_userId (ch_engine h)) us"
  define m where "m = \<lparr>ms_roomId = r, ms_eventType = ty, ms_content = v, ms_peers = ?peers\<rparr>"
  obtain s where f: "shareIsFresh W t1 r ?peers (ch_engine h) = (True, s)"
    using assms(3) by (cases "shareIsFresh W t1 r ?peers (ch_engine h)") simp
  define h1 where "h1 = h\<lparr>ch_engine := count_message r s, ch_queue := [T_sync ev ch le, T_encrypt m]\<rparr>"
  have "encryptMessage W t1 r ty v us h = h1"
    using f assms(1) by (simp add: encryptMessage_def Let_def enqueue_task_def m_def h1_def)
  then have turn: "crypto_turn W t2 h1 = Some h'"
    using assms(5) by (auto split: option.splits)
  obtain res s2 where q: "sync_locked W ev ch le (count_message r s) = (res, s2)"
    and h': "ch_engine h' = s2" "ch_queue h' = [T_encrypt m]"
    using turn by (auto simp: h1_def crypto_turn_def split: prod.splits)
  let ?c = "Mc_receiveSyncChanges ev ch le"
  obtain a s1 where p: "ask W ?c (count_message r s) = (a, s1)" by (cases "ask W ?c (count_message r s)")
  then have log: "\<exists>l. en_log s1 = l @ [(?c, a)]" by (auto simp: ask_def Let_def)
  have "s2 = s1 \<or> (\<exists>k x. runOutgoingRequests W s1 = (k, x) \<and> en_log s2 = en_log x)"
    using q p by (cases a) (auto simp: sync_locked_def bind_def modify_def ret_def note_devices_def split: prod.splits sum.splits)
  then have "\<exists>l. en_log s2 = en_log s1 @ l \<and> fst ` set l \<subseteq> neutral"
  proof (elim disjE exE conjE)
    fix k x
    assume run: "runOutgoingRequests W s1 = (k, x)" and "en_log s2 = en_log x"
    with steadyD [OF steady_outgoing run] show ?thesis by metis
  qed (auto intro: exI [of _ "[]"])
  then have "key_uses r (en_log s2) = None"
    using log assms(2) by (auto simp: key_uses_neutral)
  then show ?thesis
    using h' by (intro exI [of _ m]) (simp add: m_def)
qed

section \<open>Events that could not be decrypted\<close>

record pending_decrypt =
  pd_roomId :: string
  pd_event :: json
  pd_sessionId :: "string option"
  pd_firstSeenAt :: int
  pd_attempts :: nat

type_synonym pending = "(string, pending_decrypt) jsmap"

definition MAX_PENDING_DECRYPT :: nat where
  "MAX_PENDING_DECRYPT = 512"

definition PENDING_DECRYPT_TTL_MS :: int where
  "PENDING_DECRYPT_TTL_MS = 15 * 60 * 1000"

definition MAX_DECRYPT_ATTEMPTS :: nat where
  "MAX_DECRYPT_ATTEMPTS = 6"

definition pendingKey :: "string \<Rightarrow> string \<Rightarrow> string" where
  "pendingKey roomId eventId = roomId @ char_of (0 :: nat) # eventId"

definition event_id_of :: "json \<Rightarrow> string option" where
  "event_id_of event = truthy (readString event ''event_id'')"

definition session_of :: "json \<Rightarrow> string option" where
  "session_of event =
     (case json_prop event ''content'' of Some c \<Rightarrow> if isPlainObject c then readString c ''session_id'' else None | None \<Rightarrow> None)"

definition queuePendingDecrypt :: "int \<Rightarrow> string \<Rightarrow> json \<Rightarrow> pending \<Rightarrow> bool \<times> pending" where
  "queuePendingDecrypt now roomId event m =
     (case event_id_of event of
        None \<Rightarrow> (False, m)
      | Some eventId \<Rightarrow>
          (let key = pendingKey roomId eventId
           in case jm_get m key of
                Some p \<Rightarrow>
                  (let p' = p\<lparr>pd_attempts := pd_attempts p + 1\<rparr>
                   in (pd_attempts p' < MAX_DECRYPT_ATTEMPTS, jm_set key p' m))
              | None \<Rightarrow>
                  (let m1 = (if MAX_PENDING_DECRYPT \<le> length m then (case m of [] \<Rightarrow> m | (k, _) # _ \<Rightarrow> jm_del k m) else m)
                   in (True, jm_set key
                        \<lparr>pd_roomId = roomId, pd_event = event, pd_sessionId = session_of event, pd_firstSeenAt = now, pd_attempts = 1\<rparr> m1))))"

text \<open>
  What \<open>decryptRoomEvent\<close> does with the queue: \<open>decrypt\<close> is what the machine makes of the event.
\<close>

definition decryptRoomEvent ::
  "int \<Rightarrow> (string \<Rightarrow> json \<Rightarrow> (js_error, json) sum) \<Rightarrow> string \<Rightarrow> json \<Rightarrow> pending \<Rightarrow> (js_error, json) sum \<times> pending" where
  "decryptRoomEvent now decrypt roomId event m =
     (case decrypt roomId event of
        Inr clear \<Rightarrow> (Inr clear, case event_id_of event of None \<Rightarrow> m | Some i \<Rightarrow> jm_del (pendingKey roomId i) m)
      | Inl e \<Rightarrow> (Inl e, snd (queuePendingDecrypt now roomId event m)))"

text \<open>One entry of the snapshot; the recovered events go to the handler in order.\<close>

fun retry_entry ::
  "int \<Rightarrow> (string \<Rightarrow> json \<Rightarrow> (js_error, json) sum) \<Rightarrow> string \<times> pending_decrypt \<Rightarrow> pending \<times> (string \<times> json) list \<Rightarrow>
     pending \<times> (string \<times> json) list" where
  "retry_entry now decrypt (key, p) (m, recovered) =
     (if PENDING_DECRYPT_TTL_MS < now - pd_firstSeenAt p then (jm_del key m, recovered)
      else if MAX_DECRYPT_ATTEMPTS \<le> pd_attempts p then (jm_del key m, recovered)
      else case decrypt (pd_roomId p) (pd_event p) of
             Inr clear \<Rightarrow> (jm_del key m, recovered @ [(pd_roomId p, clear)])
           | Inl _ \<Rightarrow> (jm_set key (p\<lparr>pd_attempts := pd_attempts p + 1\<rparr>) m, recovered))"

definition retryPendingDecrypts ::
  "int \<Rightarrow> (string \<Rightarrow> json \<Rightarrow> (js_error, json) sum) \<Rightarrow> bool \<Rightarrow> pending \<Rightarrow> pending \<times> (string \<times> json) list" where
  "retryPendingDecrypts now decrypt isClosed m =
     (if isClosed \<or> m = [] then (m, []) else fold (retry_entry now decrypt) m (m, []))"

text \<open>The specification: which entries are tried, and what becomes of each.\<close>

definition tried :: "int \<Rightarrow> pending_decrypt \<Rightarrow> bool" where
  "tried now p \<longleftrightarrow> now - pd_firstSeenAt p \<le> PENDING_DECRYPT_TTL_MS \<and> pd_attempts p < MAX_DECRYPT_ATTEMPTS"

definition after_retry ::
  "int \<Rightarrow> (string \<Rightarrow> json \<Rightarrow> (js_error, json) sum) \<Rightarrow> string \<times> pending_decrypt \<Rightarrow> pending" where
  "after_retry now decrypt kp =
     (case kp of (key, p) \<Rightarrow>
       if tried now p \<and> isl (decrypt (pd_roomId p) (pd_event p)) then [(key, p\<lparr>pd_attempts := pd_attempts p + 1\<rparr>)] else [])"

definition recovers ::
  "int \<Rightarrow> (string \<Rightarrow> json \<Rightarrow> (js_error, json) sum) \<Rightarrow> string \<times> pending_decrypt \<Rightarrow> (string \<times> json) list" where
  "recovers now decrypt kp =
     (case kp of (key, p) \<Rightarrow>
       if tried now p then (case decrypt (pd_roomId p) (pd_event p) of Inr c \<Rightarrow> [(pd_roomId p, c)] | Inl _ \<Rightarrow> []) else [])"

lemma del_middle: "k \<notin> fst ` set a \<Longrightarrow> k \<notin> fst ` set b \<Longrightarrow> jm_del k (a @ (k, p) # b) = a @ b"
proof -
  assume "k \<notin> fst ` set a" and "k \<notin> fst ` set b"
  moreover have "jm_del k (a @ c) = jm_del k a @ jm_del k c" for c
    by (simp add: AList.delete_eq)
  ultimately show ?thesis by (simp add: delete_absent)
qed

lemma retry_entry_step:
  assumes "k \<notin> fst ` set a" and "k \<notin> fst ` set b"
  shows "retry_entry now decrypt (k, p) (a @ (k, p) # b, r) =
    ((a @ after_retry now decrypt (k, p)) @ b, r @ recovers now decrypt (k, p))"
  using assms
  by (auto simp: after_retry_def recovers_def tried_def del_middle update_append split: sum.split)

lemma after_retry_keys: "fst ` set (after_retry now decrypt kp) \<subseteq> {fst kp}"
  by (auto simp: after_retry_def split: prod.splits if_splits)

lemma retry_fold:
  "distinct (map fst todo) \<Longrightarrow> fst ` set a \<inter> fst ` set todo = {} \<Longrightarrow>
     fold (retry_entry now decrypt) todo (a @ todo, r) =
       (a @ concat (map (after_retry now decrypt) todo), r @ concat (map (recovers now decrypt) todo))"
proof (induction todo arbitrary: a r)
  case (Cons kp todo)
  obtain k p where kp: "kp = (k, p)" by (cases kp)
  have mine: "k \<notin> fst ` set a" "k \<notin> fst ` set todo" and d: "distinct (map fst todo)"
    using Cons.prems by (auto simp: kp)
  have "fst ` set (a @ after_retry now decrypt kp) \<inter> fst ` set todo = {}"
  proof -
    have "fst kp \<notin> fst ` set todo" "fst ` set a \<inter> fst ` set todo = {}"
      using Cons.prems by auto
    moreover have "B \<inter> C = {}" if "B \<subseteq> {k}" "k \<notin> C" for B C and k :: string
      using that by blast
    from this [OF after_retry_keys] have "fst kp \<notin> fst ` set todo \<Longrightarrow> fst ` set (after_retry now decrypt kp) \<inter> fst ` set todo = {}" .
    ultimately show ?thesis
      by (simp add: image_Un Int_Un_distrib2 del: disjoint_iff)
  qed
  note rest = Cons.IH [OF d this]
  show ?case
    unfolding fold_Cons o_apply kp retry_entry_step [OF mine] using rest [of "r @ recovers now decrypt kp"]
    by (simp add: kp)
qed simp

text \<open>
  A retry does to the queue what its specification says: an entry is tried exactly when it is
  not older than a quarter of an hour and was tried fewer than six times; one that decrypts
  goes to the handler, in the order of the queue, and one that does not is kept in its place
  with one more attempt; every other entry is dropped.
\<close>

theorem retry_refines_spec:
  assumes "jm_wf m"
  shows "retryPendingDecrypts now decrypt False m =
    (concat (map (after_retry now decrypt) m), concat (map (recovers now decrypt) m))"
  using retry_fold [of m "[]" now decrypt "[]"] assms by (simp add: retryPendingDecrypts_def)

text \<open>Every sync that comes while events wait counts as an attempt.\<close>

fun retries :: "(int \<times> (string \<Rightarrow> json \<Rightarrow> (js_error, json) sum)) list \<Rightarrow> pending \<Rightarrow> pending \<times> (string \<times> json) list" where
  "retries [] m = (m, [])"
| "retries ((now, decrypt) # rest) m =
     (let (m1, r1) = retryPendingDecrypts now decrypt False m; (m2, r2) = retries rest m1 in (m2, r1 @ r2))"

text \<open>
  A retry is made with every sync response, whether it brought a key or not, and counts as an
  attempt. So an event is given up after five syncs that brought no key, however quickly they
  came, long before its quarter of an hour is over: a key that comes with the sixth does not
  recover it.
\<close>

theorem pending_given_up_early:
  assumes "event_id_of event = Some i" and "length syncs = 5"
    and "list_all (\<lambda>(now, decrypt). isl (decrypt roomId event) \<and> now - t0 \<le> PENDING_DECRYPT_TTL_MS) syncs"
  shows "retries (syncs @ [(now, decrypt)]) (snd (queuePendingDecrypt t0 roomId event [])) = ([], [])"
proof -
  define p where "p n = \<lparr>pd_roomId = roomId, pd_event = event, pd_sessionId = session_of event, pd_firstSeenAt = t0, pd_attempts = n\<rparr>" for n
  let ?k = "pendingKey roomId i"
  have start: "snd (queuePendingDecrypt t0 roomId event []) = [(?k, p 1)]"
    using assms(1) by (simp add: queuePendingDecrypt_def p_def MAX_PENDING_DECRYPT_def Let_def)
  have one: "retryPendingDecrypts now decrypt False [(?k, p n)] = ([(?k, p (Suc n))], [])"
    if "isl (decrypt roomId event)" "now - t0 \<le> PENDING_DECRYPT_TTL_MS" "n < 6" for now decrypt n
    using that by (simp add: retry_refines_spec after_retry_def recovers_def tried_def p_def MAX_DECRYPT_ATTEMPTS_def split: sum.split)
      (auto simp: isl_def)
  have all: "retries (syncs @ rest) [(?k, p n)] = retries rest [(?k, p (n + length syncs))]"
    if "list_all (\<lambda>(now, decrypt). isl (decrypt roomId event) \<and> now - t0 \<le> PENDING_DECRYPT_TTL_MS) syncs" "n + length syncs \<le> 6"
    for n rest syncs
    using that
  proof (induction syncs arbitrary: n)
    case (Cons x syncs)
    then show ?case by (cases x) (simp add: one)
  qed simp
  have "retryPendingDecrypts now decrypt False [(?k, p 6)] = ([], [])"
    by (simp add: retry_refines_spec after_retry_def recovers_def tried_def p_def MAX_DECRYPT_ATTEMPTS_def)
  then show ?thesis
    using all [OF assms(3), of 1 "[(now, decrypt)]"] assms(2) by (simp add: start)
qed

lemma queue_bounded:
  assumes "jm_wf m" and "length m \<le> MAX_PENDING_DECRYPT"
  shows "jm_wf (snd (queuePendingDecrypt now roomId event m)) \<and> length (snd (queuePendingDecrypt now roomId event m)) \<le> MAX_PENDING_DECRYPT"
proof (cases "event_id_of event")
  case (Some i)
  let ?k = "pendingKey roomId i"
  show ?thesis
  proof (cases "jm_get m ?k")
    case None
    show ?thesis
    proof (cases "MAX_PENDING_DECRYPT \<le> length m")
      case True
      then obtain k x rest where m: "m = (k, x) # rest"
        by (cases m) (auto simp: MAX_PENDING_DECRYPT_def)
      then have "length (jm_del k m) \<le> length rest" using length_delete_le [of k rest] by simp
      then show ?thesis
        using assms m Some None True by (auto simp: queuePendingDecrypt_def length_update Let_def)
    next
      case False
      then show ?thesis
        using assms Some None by (auto simp: queuePendingDecrypt_def length_update Let_def)
    qed
  next
    case (Some p)
    then have "?k \<in> fst ` set m" by (metis map_of_eq_None_iff option.distinct(1))
    then show ?thesis
      using assms Some \<open>event_id_of event = Some i\<close> by (auto simp: queuePendingDecrypt_def length_update jm_has_def Let_def)
  qed
qed (use assms in \<open>simp add: queuePendingDecrypt_def\<close>)

section \<open>Examples\<close>

text \<open>A machine that hands out one key request for a share, and a homeserver that takes everything.\<close>

definition demo_machine :: engine_world where
  "demo_machine =
     \<lparr>ew_answer = (\<lambda>log c. case c of
          Mc_shareRoomKey r us st \<Rightarrow>
            Inr (JNull, [Out_to_device \<lparr>td_id = ''1'', td_eventType = ''m.room.encrypted'', td_txnId = ''t1'', td_body = JObj []\<rparr>])
        | _ \<Rightarrow> Inr (JNull, [])),
      ew_hash = map char_of, ew_visibility = (\<lambda>_. None)\<rparr>"

definition demo_share_policy :: "bool \<Rightarrow> share_policy" where
  "demo_share_policy rot =
     \<lparr>sp_onlyAllowTrustedDevices = False, sp_errorOnVerifiedUserProblem = False, sp_rotateEveryMessage = rot, sp_rotateMaxPeers = 0,
      sp_rotationPeriodMessages = 100, sp_rotationPeriodMs = 1000, sp_reshareOnDeviceChange = True\<rparr>"

definition demo_send :: "int \<Rightarrow> crypto_event" where
  "demo_send now = Ce_encrypt now ''!r:hs'' ''m.room.message'' JNull [''@u:hs'']"

definition demo_room_message :: room_message where
  "demo_room_message = \<lparr>ms_roomId = ''!r:hs'', ms_eventType = ''m.room.message'', ms_content = JNull, ms_peers = [''@u:hs'']\<rparr>"

lemma crypto_run_reach:
  "crypto_run W es h = Some h' \<Longrightarrow> crypto_reach W (\<lambda>_ _. True) h \<Longrightarrow> crypto_reach W (\<lambda>_ _. True) h'"
  by (induction es arbitrary: h) (auto split: option.splits intro: crypto_reach.step)

lemma demo_shared:
  "map_option ch_queue (crypto_run demo_machine [demo_send 5, Ce_turn 6] (crypto_hub_new ''@b:hs'' (demo_share_policy False) False)) =
     Some [T_encrypt demo_room_message]"
  by code_simp

definition demo_crypto :: "bool \<Rightarrow> crypto_hub" where
  "demo_crypto rot = crypto_hub_new ''@b:hs'' (demo_share_policy rot) False"

theorem message_after_share_witness:
  "\<exists>h us. crypto_run demo_machine [demo_send 5, Ce_turn 6] (demo_crypto False) = Some h \<and> ch_queue h = [T_encrypt demo_room_message] \<and>
     shared_to ''!r:hs'' us (en_log (ch_engine h))"
proof -
  obtain h where h: "crypto_run demo_machine [demo_send 5, Ce_turn 6] (demo_crypto False) = Some h" "ch_queue h = [T_encrypt demo_room_message]"
    using demo_shared by (auto simp: demo_crypto_def)
  have "crypto_reach demo_machine (\<lambda>_ _. True) h"
    by (rule crypto_run_reach [OF h(1)]) (simp add: demo_crypto_def crypto_reach.new)
  from message_after_share [OF this h(2)] h show ?thesis by (auto simp: demo_room_message_def)
qed

theorem key_use_bounded_witness:
  "\<exists>h n. crypto_run demo_machine [demo_send 5, Ce_turn 6] (demo_crypto False) = Some h \<and> ch_queue h = [T_encrypt demo_room_message] \<and>
     key_uses ''!r:hs'' (en_log (ch_engine h)) = Some n \<and> int n < max 1 (sp_rotationPeriodMessages (en_policy (ch_engine h)))"
proof -
  obtain h where h: "crypto_run demo_machine [demo_send 5, Ce_turn 6] (demo_crypto False) = Some h" "ch_queue h = [T_encrypt demo_room_message]"
    using demo_shared by (auto simp: demo_crypto_def)
  then obtain h1 where h1: "crypto_step demo_machine (demo_send 5) (demo_crypto False) = Some h1" "crypto_turn demo_machine 6 h1 = Some h"
    by (auto split: option.splits)
  have "map_option ch_queue (crypto_step demo_machine (demo_send 5) (demo_crypto False)) = Some [T_share demo_room_message]"
    by code_simp
  with h1(1) have q: "ch_queue h1 = [T_share demo_room_message]" by simp
  have "ch_queue (demo_crypto False) = []" by (simp add: demo_crypto_def crypto_hub_new_def)
  then have "crypto_reach demo_machine (one_by_one demo_machine) h1"
    using crypto_reach.step [OF crypto_reach.new _ h1(1) [unfolded demo_crypto_def]]
    by (simp add: one_by_one_def demo_send_def demo_crypto_def)
  then have "crypto_reach demo_machine (one_by_one demo_machine) h"
    by (rule crypto_reach.step [of _ _ _ "Ce_turn 6"]) (simp_all add: one_by_one_def q h1(2))
  from key_use_bounded [OF this h(2)] h show ?thesis by (auto simp: demo_room_message_def)
qed

theorem concurrent_sends_use_one_key_witness:
  "\<exists>h. crypto_run demo_machine [demo_send 5, demo_send 5, Ce_turn 6, Ce_turn 6, Ce_turn 6] (demo_crypto True) = Some h \<and>
     ch_queue h = [T_encrypt demo_room_message] \<and> key_uses ''!r:hs'' (en_log (ch_engine h)) = Some 1"
proof -
  have "map_option (\<lambda>h. (ch_queue h, list_all (\<lambda>(t, res). \<not> isl res) (ch_out h)))
      (crypto_run demo_machine [demo_send 5, demo_send 5, Ce_turn 6, Ce_turn 6, Ce_turn 6] (demo_crypto True)) =
    Some ([T_encrypt demo_room_message], True)"
    by code_simp
  then obtain h where h: "crypto_run demo_machine [demo_send 5, demo_send 5, Ce_turn 6, Ce_turn 6, Ce_turn 6] (demo_crypto True) = Some h"
    "ch_queue h = [T_encrypt demo_room_message]" "list_all (\<lambda>(t, res). \<not> isl res) (ch_out h)" by auto
  have d: "ch_queue (demo_crypto True) = []" "en_policy (ch_engine (demo_crypto True)) = demo_share_policy True" "ch_out (demo_crypto True) = []"
    by (simp_all add: demo_crypto_def crypto_hub_new_def engine_new_def)
  from concurrent_sends_use_one_key [OF d(1,2) _ h(1) [unfolded demo_send_def]] d(3) h show ?thesis
    by (auto simp: shouldRotateEveryMessage_def demo_share_policy_def)
qed

theorem stale_share_used_witness:
  "\<exists>h. crypto_run demo_machine [demo_send 5, Ce_turn 6, Ce_turn 6, Ce_sync (JArr []) [''@u:hs''] [], demo_send 7, Ce_turn 8] (demo_crypto False) =
     Some h \<and> ch_queue h = [T_encrypt demo_room_message] \<and> key_uses ''!r:hs'' (en_log (ch_engine h)) = None"
proof -
  have "map_option (\<lambda>h. (ch_queue h, fst (shareIsFresh demo_machine 7 ''!r:hs'' (filterShareRecipients (en_userId (ch_engine h)) [''@u:hs''])
        (ch_engine h)), length (lru_map (en_shareState (ch_engine h))), jm_wf (lru_map (en_shareState (ch_engine h))), lru_capacity (en_shareState (ch_engine h))))
      (crypto_run demo_machine [demo_send 5, Ce_turn 6, Ce_turn 6, Ce_sync (JArr []) [''@u:hs''] []] (demo_crypto False)) =
    Some ([T_sync (JArr []) [''@u:hs''] []], True, 1, True, 2000)"
    by code_simp
  then obtain h1 where h1: "crypto_run demo_machine [demo_send 5, Ce_turn 6, Ce_turn 6, Ce_sync (JArr []) [''@u:hs''] []] (demo_crypto False) = Some h1"
    "ch_queue h1 = [T_sync (JArr []) [''@u:hs''] []]" "lru_inv (en_shareState (ch_engine h1))"
    "fst (shareIsFresh demo_machine 7 ''!r:hs'' (filterShareRecipients (en_userId (ch_engine h1)) [''@u:hs'']) (ch_engine h1))"
    by (auto simp: lru_inv_def)
  have run: "crypto_run W (es @ es') h = (case crypto_run W es h of None \<Rightarrow> None | Some k \<Rightarrow> crypto_run W es' k)" for W es es' h
    by (induction es arbitrary: h) (auto split: option.split)
  have all: "crypto_run demo_machine [demo_send 5, Ce_turn 6, Ce_turn 6, Ce_sync (JArr []) [''@u:hs''] [], demo_send 7, Ce_turn 8] (demo_crypto False) =
      crypto_run demo_machine [demo_send 7, Ce_turn 8] h1"
    using run [of demo_machine "[demo_send 5, Ce_turn 6, Ce_turn 6, Ce_sync (JArr []) [''@u:hs''] []]" "[demo_send 7, Ce_turn 8]" "demo_crypto False"] h1(1)
    by simp
  have "map_option ch_queue (crypto_run demo_machine [demo_send 5, Ce_turn 6, Ce_turn 6, Ce_sync (JArr []) [''@u:hs''] [], demo_send 7, Ce_turn 8]
      (demo_crypto False)) = Some [T_encrypt demo_room_message]"
    by code_simp
  then obtain h where h: "crypto_run demo_machine [demo_send 7, Ce_turn 8] h1 = Some h" "ch_queue h = [T_encrypt demo_room_message]"
    unfolding all by auto
  from stale_share_used [OF h1(2) _ h1(4,3) h(1) [unfolded demo_send_def]] h show ?thesis
    unfolding all by auto
qed

definition demo_undecryptable :: json where
  "demo_undecryptable = JObj [(''event_id'', JStr ''$1'')]"

theorem retry_refines_spec_witness:
  "fst (retryPendingDecrypts 10 (\<lambda>r e. Inl (Thrown ''no key'')) False (snd (queuePendingDecrypt 0 ''!r'' demo_undecryptable []))) \<noteq> []"
proof -
  let ?m = "snd (queuePendingDecrypt 0 ''!r'' demo_undecryptable [])"
  have m: "?m \<noteq> []" "jm_wf ?m" "map (tried 10 \<circ> snd) ?m = [True]" by code_simp+
  then show ?thesis
    unfolding retry_refines_spec [OF m(2)] by (auto simp: after_retry_def)
qed

theorem pending_given_up_early_witness:
  "retries (replicate 5 (1000, \<lambda>_ _. Inl (Thrown ''no key'')) @ [(2000, \<lambda>_ e. Inr e)])
     (snd (queuePendingDecrypt 0 ''!r'' demo_undecryptable [])) = ([], [])"
  by (rule pending_given_up_early [of _ "''$1''"])
    (simp_all add: event_id_of_def demo_undecryptable_def readString_def isPlainObject_def json_prop_def truthy_def PENDING_DECRYPT_TTL_MS_def
      list_all_iff)

end
