(* ===== verification/Spec2Isabelle.thy ===== *)
theory Spec2Isabelle
  imports
    Js_Prelude Js_Util Url_Encoded
    Dispatch_Queue Fsm Token_Store Callbacks Keyboards
    Http Errors Sync Outbox Scheduler
    Router Dispatcher Middleware
    Initdata Miniapp_Server
    Room_Cache Crypto_Policy Client_Rooms
    Html Html_Sanitize Markdown Storage_Lock Miniapp_Query Capabilities Miniapp_Events Commands Command_Args Filters Plain_Body Send Media Updates Direct_Rooms Bot_Feed Bot_Waiters Bot_Lifecycle Crypto_Engine
begin

text \<open>
  aiomatrix is a TypeScript framework for Matrix bots. A bot logs in, long-polls \<^verbatim>\<open>/sync\<close>,
  turns each event into an update, and hands the update to a dispatcher, which runs
  middlewares and asks routers for a handler; handlers answer through the HTTP client,
  keep conversation state in an FSM storage, attach keyboards whose buttons carry callback
  tokens, and serve MiniApps that authenticate with signed launch data. This development
  models the deterministic core of that pipeline; all paths below are under \<^verbatim>\<open>src/src/\<close>.

  \<^bold>\<open>How the parts interact.\<close> \<^verbatim>\<open>sync.ts\<close> delivers batches; each event of a batch is a task of
  the dispatch queue (\<^verbatim>\<open>dispatch-queue.ts\<close>), after the deduper has let it through; the task
  calls the dispatcher (\<^verbatim>\<open>dispatcher.ts\<close>), which runs the middleware chain of \<^verbatim>\<open>router.ts\<close>
  over the routers; sends go through the retry loop of \<^verbatim>\<open>http.ts\<close> or wait in the outbox
  (\<^verbatim>\<open>outbox.ts\<close>); callbacks and launch data are checked by \<^verbatim>\<open>keyboards.ts\<close> and
  \<^verbatim>\<open>miniapp/initdata.ts\<close> on top of the single-use stores of \<^verbatim>\<open>token-store.ts\<close>.

  \<^bold>\<open>Theories.\<close>

  \<^item> \<open>Js_Prelude\<close>: insertion-ordered maps, strings, UTF-8, JSON values and the lemma
    collections the others use; \<open>Url_Encoded\<close>: hexadecimal digests, UTF-8 decoding and
    \<^verbatim>\<open>URLSearchParams\<close>, with round trips.
  \<^item> \<open>Js_Util\<close> (\<^verbatim>\<open>util.ts\<close>): the LRU cache and its contract \<open>cache_store\<close>, escaping,
    fingerprints, storage paths, atomic file writes.
  \<^item> \<open>Dispatch_Queue\<close> (\<^verbatim>\<open>dispatch-queue.ts\<close>): an event machine whose steps are the points
    where control returns to a task. Theorems: one task per room and at most the global limit
    in any reachable state, first-in-first-out per room, no lost wake-up; the deduper refines
    a sliding window.
  \<^item> \<open>Fsm\<close> (\<^verbatim>\<open>fsm.ts\<close>): the two storages interpret the locale \<open>fsm_storage\<close>, in which the
    laws of \<open>FSMContext\<close> are proved once.
  \<^item> \<open>Token_Store\<close> (\<^verbatim>\<open>token-store.ts\<close>, \<^verbatim>\<open>file-ttl-map.ts\<close>): memory and file stores
    interpret \<open>used_token_store\<close> and \<open>ttl_string_map\<close>. Theorems: a token is accepted once,
    a file store survives a restart.
  \<^item> \<open>Callbacks\<close>, \<open>Keyboards\<close> (\<^verbatim>\<open>keyboards.ts\<close>, \<^verbatim>\<open>schema-contract.ts\<close>): both registries
    interpret \<open>callback_store\<close>; builder checks, layout, parser round trip, fallback markup.
  \<^item> \<open>Http\<close> (\<^verbatim>\<open>http.ts\<close>), \<open>Errors\<close> (\<^verbatim>\<open>errors.ts\<close>, \<^verbatim>\<open>error-map.ts\<close>): the retry loop against
    an environment that decides the outcome of each attempt; error texts.
  \<^item> \<open>Sync\<close> (\<^verbatim>\<open>sync.ts\<close>): loop iterations over an environment, with the trace of batches.
  \<^item> \<open>Room_Cache\<close> (\<^verbatim>\<open>room-cache.ts\<close>): the projection of room state in the LRU cache. Theorem: a
    member list that claims to be complete is exact. \<open>Crypto_Policy\<close> (\<^verbatim>\<open>crypto-policy.ts\<close>,
    \<^verbatim>\<open>crypto-guard.ts\<close>, \<^verbatim>\<open>crypto-budget.ts\<close>): rotation, recipients and checks around an encrypted send.
    \<open>Crypto_Engine\<close> (\<^verbatim>\<open>crypto.ts\<close>): the operations of the crypto engine as tasks that queue at its lock,
    over a machine and a homeserver that answer anything. Theorems: no message is encrypted before
    its key was shared with its recipients; how long a key is used, and two ways in which overlapping
    operations break the bound; the queue of events that wait for a key.
  \<^item> \<open>Client_Rooms\<close> (\<^verbatim>\<open>client.ts\<close>, \<^verbatim>\<open>cold-start.ts\<close>, \<^verbatim>\<open>send-readiness.ts\<close>): sync responses, requests for
    room state and the choice between plaintext and encryption, as histories (\<open>cl_reach\<close>) in
    which requests and their answers are separate steps. \<open>Direct_Rooms\<close> (\<^verbatim>\<open>client.ts\<close>): the
    account data of direct rooms, room creation and power levels.
  \<^item> \<open>Html\<close> and \<open>Html_Sanitize\<close> (\<^verbatim>\<open>html.ts\<close>): tokenizer, attribute scanner and sanitizer, and the
    theorems about its output; \<open>Markdown\<close> (\<^verbatim>\<open>html.ts\<close>); \<open>Plain_Body\<close> (\<^verbatim>\<open>client.ts\<close>): the plain text
    of an HTML message.
  \<^item> \<open>Commands\<close> (\<^verbatim>\<open>commands.ts\<close>), \<open>Command_Args\<close> (\<^verbatim>\<open>command-args.ts\<close>) and \<open>Filters\<close> (\<^verbatim>\<open>filters.ts\<close>):
    parsing of commands and arguments, help texts, predicates on updates.
  \<^item> \<open>Send\<close> (\<^verbatim>\<open>send.ts\<close>, \<^verbatim>\<open>content-validate.ts\<close>) builds, sends and edits messages with the outbox
    behind them; \<open>Media\<close> (\<^verbatim>\<open>media.ts\<close>); \<open>Updates\<close> (\<^verbatim>\<open>context.ts\<close>): updates read off events, and the
    sending methods of a context; \<open>Capabilities\<close> (\<^verbatim>\<open>host-capabilities.ts\<close>, \<^verbatim>\<open>bot-capabilities.ts\<close>,
    \<^verbatim>\<open>schema.ts\<close>, \<^verbatim>\<open>bot.ts\<close>): the handshake with hosts.
  \<^item> \<open>Bot_Feed\<close>, \<open>Bot_Waiters\<close>, \<open>Bot_Lifecycle\<close> (\<^verbatim>\<open>bot.ts\<close>): what becomes an update, with button
    presses over any registry (locale \<open>one_shot_store\<close>, an extension of \<open>callback_store\<close>);
    \<open>waitFor\<close> as an event machine; and the life of a bot, where the steps of \<open>start\<close>, of
    \<open>stop\<close> and of the sync loop interleave.
  \<^item> \<open>Storage_Lock\<close> (\<^verbatim>\<open>storage-lock.ts\<close>): processes that take, release and lose the lock of a
    directory.
  \<^item> \<open>Outbox\<close> (\<^verbatim>\<open>outbox.ts\<close>): the locale \<open>outbox_store\<close>, the file store, and the flush with
    its specification. \<open>Scheduler\<close> (\<^verbatim>\<open>scheduler.ts\<close>): histories of ticks, ends and
    cancellations as an inductive relation.
  \<^item> \<open>Router\<close> (\<^verbatim>\<open>router.ts\<close>): code of middlewares and handlers as interaction trees
    (\<open>mcode\<close>), the chain, the forest of routers and routing. \<open>Dispatcher\<close>
    (\<^verbatim>\<open>dispatcher.ts\<close>) and \<open>Middleware\<close> (\<^verbatim>\<open>middleware.ts\<close>) build on it.
  \<^item> \<open>Initdata\<close> (\<^verbatim>\<open>miniapp/initdata.ts\<close>) and \<open>Miniapp_Server\<close> (\<^verbatim>\<open>miniapp/server.ts\<close>,
    \<^verbatim>\<open>miniapp/auth.ts\<close>): launch data, nonces (locale \<open>nonce_store\<close>), sessions, the request
    handler. \<open>Miniapp_Query\<close> (\<^verbatim>\<open>miniapp/query.ts\<close>): queries answered once; the memory and the
    signed registry meet the locale \<open>query_store\<close>. \<open>Miniapp_Events\<close> (\<^verbatim>\<open>miniapp/events.ts\<close>,
    \<^verbatim>\<open>miniapp/widget.ts\<close>, \<^verbatim>\<open>polls.ts\<close>): launch cards, widgets and polls.

  \<^bold>\<open>Conventions.\<close> A string is a list of code units up to U+00FF. Time is an argument, as are
  randomness, the outcome of a request and what the code of a user does. Cryptography
  (HMAC, digests), JSON texts and the platform's URL parser are parameters; what a theorem
  needs of them is a hypothesis of its statement, and its witness gives a concrete function.
  An asynchronous operation is split where it awaits something that another task can change.

  \<^bold>\<open>Fuel.\<close> The walks of \<open>Router\<close> along parents and children take the number of routers as
  fuel; \<open>include\<close> keeps the routers a forest, in which no path is longer, and \<open>feed_returns\<close>
  shows that the fuel is never used up. The request loop of \<open>Http\<close> and the flush of
  \<open>Outbox\<close> are recursive over the attempts left and the pending entries.

  \<^bold>\<open>Bounds.\<close> A theorem about a store that evicts its oldest entries names the capacity in its
  hypotheses; numerals of command arguments are at most 308 characters long where the value
  must be finite. Writes to files succeed except where an outcome is an argument
  (\<open>Js_Util\<close>, \<open>Token_Store\<close>, the flush in \<open>Bot_Lifecycle\<close>), and reads of existing files
  succeed.

  \<^bold>\<open>Not modelled.\<close> Of \<^verbatim>\<open>client.ts\<close>, \<^verbatim>\<open>bot.ts\<close> and \<^verbatim>\<open>context.ts\<close> the methods that only forward a request
  to the homeserver, and the device checks and room upgrades; of \<^verbatim>\<open>crypto.ts\<close> the native
  crypto library, key backup setup, cross signing and attachments; \<^verbatim>\<open>login.ts\<close>, \<^verbatim>\<open>discovery.ts\<close> and \<^verbatim>\<open>session-recovery.ts\<close>, sequences of requests
  of one login; \<^verbatim>\<open>redis-stores.ts\<close> and \<^verbatim>\<open>otel.ts\<close>, adapters of clients of other packages;
  \<^verbatim>\<open>conversation.ts\<close>, a helper over a context; \<^verbatim>\<open>miniapp/payloads.ts\<close>, \<^verbatim>\<open>miniapp/preview.ts\<close> and the
  bridge script, which runs in a browser; logging and metrics; \<^verbatim>\<open>cli/\<close>, which prints and copies
  files; and type declarations. The manifest gives the reason for each file left out.
\<close>

end
